(* ===== verification/Prelude.thy ===== *)
theory Prelude
  imports Main "HOL-Library.Word"
begin

text \<open>
  Shared vocabulary of the development: errors as values, simulation time, the loops over
  containers that the C++ code writes with range-based \<open>for\<close>, and the parts of
  \<open>std::string\<close> the sources use.

  \<^item> An exception (\<open>throw cRuntimeError\<close>) or a failing \<open>ASSERT\<close> is a value of
    \<open>cpp_error\<close> in the left summand of a result.
  \<^item> \<open>simtime\<close> is the raw tick count of OMNeT++'s fixed-point \<open>SimTime\<close> with its default
    resolution of one picosecond; the unit helpers give the scaling of
    \<open>SimTime(n, SIMTIME_MS)\<close> and its siblings. The range of the tick counter is not
    modelled: OMNeT++ reports leaving it as an error of the simulation.
\<close>

unbundle bit_operations_syntax

named_theorems frame_laws \<open>fields and keys an operation leaves alone\<close>
named_theorems result_laws \<open>equations that evaluate results, binds and monadic loops\<close>

section \<open>Errors as values\<close>

datatype cpp_error =
    RuntimeError string    \<comment> \<open>\<open>throw cRuntimeError(message)\<close>\<close>
  | AssertionFailed        \<comment> \<open>\<open>ASSERT\<close>, \<open>ASSERT2\<close>, \<open>check_and_cast\<close>\<close>
  | OutOfRange             \<comment> \<open>\<open>vector::at\<close> past the end\<close>
  | NullPointer            \<comment> \<open>a null pointer is dereferenced\<close>

type_synonym 'a result = "cpp_error + 'a"

definition rbind :: "'a result \<Rightarrow> ('a \<Rightarrow> 'b result) \<Rightarrow> 'b result" where
  "rbind r f = (case r of Inl e \<Rightarrow> Inl e | Inr x \<Rightarrow> f x)"

definition ensure :: "bool \<Rightarrow> unit result" where
  "ensure c = (if c then Inr () else Inl AssertionFailed)"

definition is_ok :: "'a result \<Rightarrow> bool" where
  "is_ok r = (case r of Inl _ \<Rightarrow> False | Inr _ \<Rightarrow> True)"

lemma rbind_simps [simp, result_laws]:
  "rbind (Inl e) f = Inl e"
  "rbind (Inr x) f = f x"
  by (simp_all add: rbind_def)

lemma rbind_Inr_iff [result_laws]:
  "rbind r f = Inr y \<longleftrightarrow> (\<exists>x. r = Inr x \<and> f x = Inr y)"
  by (cases r) (simp_all add: rbind_def)

lemma rbind_assoc: "rbind (rbind r f) g = rbind r (\<lambda>x. rbind (f x) g)"
  by (cases r) simp_all

lemma ensure_simps [simp, result_laws]:
  "ensure True = Inr ()"
  "ensure False = Inl AssertionFailed"
  by (simp_all add: ensure_def)

lemma ensure_Inr_iff [result_laws]: "ensure c = Inr u \<longleftrightarrow> c"
  by (simp add: ensure_def)

lemma is_ok_simps [simp]: "is_ok (Inr x)" "\<not> is_ok (Inl e)"
  by (simp_all add: is_ok_def)

lemma is_ok_pair: "is_ok r \<Longrightarrow> \<exists>a b. r = Inr (a, b)"
  by (cases r) auto

lemma is_ok_ex: "is_ok r \<Longrightarrow> \<exists>a. r = Inr a"
  by (cases r) auto

section \<open>Loops over containers\<close>

text \<open>A \<open>for\<close> loop whose body updates a state and may throw.\<close>

fun foldM :: "('s \<Rightarrow> 'a \<Rightarrow> 's result) \<Rightarrow> 's \<Rightarrow> 'a list \<Rightarrow> 's result" where
  "foldM f s [] = Inr s"
| "foldM f s (x # xs) = rbind (f s x) (\<lambda>s'. foldM f s' xs)"

lemma foldM_append: "foldM f s (xs @ ys) = rbind (foldM f s xs) (\<lambda>t. foldM f t ys)"
proof (induction xs arbitrary: s)
  case Nil
  show ?case by simp
next
  case (Cons x xs)
  then show ?case by (cases "f s x") simp_all
qed

text \<open>The invariant rule of such a loop.\<close>

lemma foldM_invariant:
  assumes step: "\<And>s x s'. P s \<Longrightarrow> x \<in> set xs \<Longrightarrow> f s x = Inr s' \<Longrightarrow> P s'"
    and start: "P s" and ret: "foldM f s xs = Inr t"
  shows "P t"
  using step start ret
proof (induction xs arbitrary: s)
  case Nil
  then show ?case by simp
next
  case (Cons x xs)
  from Cons.prems(3) obtain s' where s': "f s x = Inr s'" and rest: "foldM f s' xs = Inr t"
    by (auto simp: rbind_Inr_iff)
  have "P s'" by (rule Cons.prems(1) [OF Cons.prems(2) _ s']) simp
  moreover have "P v" if "P u" "y \<in> set xs" "f u y = Inr v" for u y v
    by (rule Cons.prems(1) [OF that(1) _ that(3)]) (simp add: that(2))
  ultimately show ?case using rest by (blast intro: Cons.IH)
qed

text \<open>A loop whose body never throws returns.\<close>

lemma foldM_total:
  assumes "\<And>s x. P s \<Longrightarrow> x \<in> set xs \<Longrightarrow> \<exists>s'. f s x = Inr s' \<and> P s'" and "P s"
  shows "\<exists>t. foldM f s xs = Inr t \<and> P t"
  using assms
proof (induction xs arbitrary: s)
  case Nil
  then show ?case by simp
next
  case (Cons x xs)
  then obtain s' where "f s x = Inr s'" and "P s'" by (meson list.set_intros(1))
  then show ?case using Cons by simp
qed

text \<open>Two loops over the same container that stay related.\<close>

lemma foldM_simulation:
  assumes step: "\<And>s u x s'. R s u \<Longrightarrow> x \<in> set xs \<Longrightarrow> f s x = Inr s' \<Longrightarrow> \<exists>u'. g u x = Inr u' \<and> R s' u'"
    and start: "R s u" and ret: "foldM f s xs = Inr t"
  shows "\<exists>v. foldM g u xs = Inr v \<and> R t v"
  using step start ret
proof (induction xs arbitrary: s u)
  case Nil
  then show ?case by simp
next
  case (Cons x xs)
  from Cons.prems(3) obtain s' where s': "f s x = Inr s'" and rest: "foldM f s' xs = Inr t"
    by (auto simp: rbind_Inr_iff)
  obtain u' where u': "g u x = Inr u'" "R s' u'"
    using Cons.prems(1) [OF Cons.prems(2) _ s'] by auto
  have "\<exists>v. foldM g u' xs = Inr v \<and> R t v"
    by (rule Cons.IH [OF _ u'(2) rest], rule Cons.prems(1)) auto
  then show ?case using u'(1) by simp
qed

text \<open>A loop whose body may throw and may not return.\<close>

fun foldO :: "('s \<Rightarrow> 'a \<Rightarrow> 's result option) \<Rightarrow> 's \<Rightarrow> 'a list \<Rightarrow> 's result option" where
  "foldO f s [] = Some (Inr s)"
| "foldO f s (x # xs) =
     (case f s x of None \<Rightarrow> None | Some (Inl e) \<Rightarrow> Some (Inl e) | Some (Inr s') \<Rightarrow> foldO f s' xs)"

text \<open>Collecting results in order.\<close>

fun mapM :: "('a \<Rightarrow> 'b result) \<Rightarrow> 'a list \<Rightarrow> 'b list result" where
  "mapM f [] = Inr []"
| "mapM f (x # xs) = rbind (f x) (\<lambda>y. rbind (mapM f xs) (\<lambda>ys. Inr (y # ys)))"

lemma mapM_Inr: "(\<And>x. x \<in> set xs \<Longrightarrow> f x = Inr (g x)) \<Longrightarrow> mapM f xs = Inr (map g xs)"
  by (induction xs) simp_all

text \<open>\<open>std::find_if\<close>: the first element with a property.\<close>

lemma find_Some_in: "find P xs = Some x \<Longrightarrow> x \<in> set xs \<and> P x"
  by (induction xs) (auto split: if_splits)

section \<open>Simulation time\<close>

type_synonym simtime = int

definition simtime_s :: "int \<Rightarrow> simtime" where "simtime_s n = n * 1000000000000"
definition simtime_ms :: "int \<Rightarrow> simtime" where "simtime_ms n = n * 1000000000"
definition simtime_us :: "int \<Rightarrow> simtime" where "simtime_us n = n * 1000000"
definition simtime_ns :: "int \<Rightarrow> simtime" where "simtime_ns n = n * 1000"

lemmas simtime_units = simtime_s_def simtime_ms_def simtime_us_def simtime_ns_def

text \<open>\<open>SimTime::getMaxTime()\<close>: the largest 64-bit tick count.\<close>

definition simtime_max :: simtime where "simtime_max = 9223372036854775807"

text \<open>
  C++'s \<open>/\<close> and \<open>%\<close> on integers (and \<open>fmod\<close> on \<open>SimTime\<close>, which takes the remainder of the tick
  counts) rounds the quotient towards zero: the remainder has the sign of the dividend.
\<close>

definition cdiv :: "int \<Rightarrow> int \<Rightarrow> int" where
  "cdiv a b = sgn a * sgn b * (\<bar>a\<bar> div \<bar>b\<bar>)"

definition crem :: "int \<Rightarrow> int \<Rightarrow> int" where
  "crem a b = sgn a * (\<bar>a\<bar> mod \<bar>b\<bar>)"

lemma cdiv_nonneg: "0 \<le> a \<Longrightarrow> 0 < b \<Longrightarrow> cdiv a b = a div b"
  by (cases "a = 0") (simp_all add: cdiv_def)

lemma crem_nonneg: "0 \<le> a \<Longrightarrow> 0 < b \<Longrightarrow> crem a b = a mod b"
  by (cases "a = 0") (simp_all add: crem_def)

lemma crem_neg: "a < 0 \<Longrightarrow> 0 < b \<Longrightarrow> crem a b = - ((- a) mod b)"
  by (simp add: crem_def)

lemma crem_bounds:
  assumes "0 < b"
  shows "- b < crem a b \<and> crem a b < b"
proof (cases "a < 0")
  case True
  then show ?thesis
    using assms pos_mod_bound [OF assms, of "- a"] pos_mod_sign [OF assms, of "- a"]
    by (simp add: crem_neg)
next
  case False
  then show ?thesis
    using assms pos_mod_bound [OF assms, of a] pos_mod_sign [OF assms, of a]
    by (simp add: crem_nonneg)
qed

section \<open>Initialization stages\<close>

text \<open>
  The stages of INET that the modelled modules act in; their numbers are assigned at run time,
  by a topological sort of their dependencies.
\<close>

datatype init_stage =
    INITSTAGE_LOCAL | INITSTAGE_QUEUEING | INITSTAGE_GATE_SCHEDULE_CONFIGURATION
  | INITSTAGE_STATIC_ROUTING | INITSTAGE_APPLICATION_LAYER | INITSTAGE_LAST | OtherStage nat

section \<open>Strings\<close>

text \<open>\<open>std::string::find\<close>: the first position where a string occurs, if there is one.\<close>

fun prefix_of :: "string \<Rightarrow> string \<Rightarrow> bool" where
  "prefix_of [] s = True"
| "prefix_of (p # ps) [] = False"
| "prefix_of (p # ps) (c # cs) = (p = c \<and> prefix_of ps cs)"

fun string_find :: "string \<Rightarrow> string \<Rightarrow> nat option" where
  "string_find [] p = (if p = [] then Some 0 else None)"
| "string_find (c # cs) p =
     (if prefix_of p (c # cs) then Some 0 else map_option Suc (string_find cs p))"

abbreviation contains_string :: "string \<Rightarrow> string \<Rightarrow> bool" where
  "contains_string s p \<equiv> string_find s p \<noteq> None"

lemma prefix_of_append [simp]: "prefix_of p (p @ s)"
  by (induction p) simp_all

lemma prefix_of_iff: "prefix_of p s \<longleftrightarrow> (\<exists>t. s = p @ t)"
  by (induction p s rule: prefix_of.induct) auto

lemma contains_string_iff: "contains_string s p \<longleftrightarrow> (\<exists>u v. s = u @ p @ v)"
proof (induction s)
  case Nil
  show ?case by simp
next
  case (Cons c cs)
  have "(\<exists>u v. c # cs = u @ p @ v) \<longleftrightarrow> (\<exists>v. c # cs = p @ v) \<or> (\<exists>u v. cs = u @ p @ v)"
  proof
    assume "\<exists>u v. c # cs = u @ p @ v"
    then obtain u v where uv: "c # cs = u @ p @ v" by blast
    show "(\<exists>v. c # cs = p @ v) \<or> (\<exists>u v. cs = u @ p @ v)"
    proof (cases u)
      case Nil
      with uv show ?thesis by simp
    next
      case (Cons d u')
      with uv have "cs = u' @ p @ v" by simp
      then show ?thesis by blast
    qed
  next
    assume "(\<exists>v. c # cs = p @ v) \<or> (\<exists>u v. cs = u @ p @ v)"
    then show "\<exists>u v. c # cs = u @ p @ v"
    proof
      assume "\<exists>v. c # cs = p @ v"
      then obtain v where "c # cs = [] @ p @ v" by auto
      then show ?thesis by blast
    next
      assume "\<exists>u v. cs = u @ p @ v"
      then obtain u v where "c # cs = (c # u) @ p @ v" by auto
      then show ?thesis by blast
    qed
  qed
  then show ?case using Cons.IH by (simp add: prefix_of_iff)
qed

text \<open>
  \<open>std::to_string\<close> of a number; digits are produced from the least significant one.
\<close>

definition digit_char :: "nat \<Rightarrow> char" where
  "digit_char d = ''0123456789'' ! d"

fun nat_to_string :: "nat \<Rightarrow> string" where
  "nat_to_string n =
     (if n < 10 then [digit_char n] else nat_to_string (n div 10) @ [digit_char (n mod 10)])"

declare nat_to_string.simps [simp del]

definition int_to_string :: "int \<Rightarrow> string" where
  "int_to_string i = (if i < 0 then ''-'' @ nat_to_string (nat (- i)) else nat_to_string (nat i))"

end
