(* ===== verification/CStrings.thy ===== *)
theory CStrings
  imports Prelude
begin

text \<open>
  The parts of the C library's string handling the sources use: the classification of
  characters, \<open>strtol\<close> and \<open>std::stoi\<close> for decimal numbers, and the inverse laws between them and
  the printed form of a number.
\<close>

abbreviation newline :: char where "newline \<equiv> CHR 0x0A"
abbreviation return :: char where "return \<equiv> CHR 0x0D"
abbreviation tab :: char where "tab \<equiv> CHR 0x09"

definition isdigit :: "char \<Rightarrow> bool" where
  "isdigit c \<longleftrightarrow> c \<in> set ''0123456789''"

definition is_delim :: "char \<Rightarrow> bool" where "is_delim c \<longleftrightarrow> c = CHR '' '' \<or> c = tab"

definition digit_value :: "char \<Rightarrow> int" where
  "digit_value c = int (of_char c) - 48"

fun digits_value :: "int \<Rightarrow> string \<Rightarrow> int" where
  "digits_value acc [] = acc"
| "digits_value acc (c # cs) = digits_value (10 * acc + digit_value c) cs"

definition isspace :: "char \<Rightarrow> bool" where
  "isspace c \<longleftrightarrow> c \<in> {CHR '' '', tab, newline, CHR 0x0B, CHR 0x0C, return}"

definition clamp_long :: "int \<Rightarrow> int" where
  "clamp_long n = max (- (2 ^ 63)) (min (2 ^ 63 - 1) n)"

text \<open>\<open>strtol(s, &endptr, 10)\<close>: the number and the text \<open>endptr\<close> points to.\<close>

definition strtol :: "string \<Rightarrow> int \<times> string" where
  "strtol s =
     (let t = dropWhile isspace s;
          (neg, u) = (case t of [] \<Rightarrow> (False, [])
                      | c # cs \<Rightarrow> if c = CHR ''-'' then (True, cs)
                                  else if c = CHR ''+'' then (False, cs) else (False, c # cs));
          ds = takeWhile isdigit u
      in if ds = [] then (0, s)
         else (clamp_long (if neg then - digits_value 0 ds else digits_value 0 ds), dropWhile isdigit u))"

lemma takeWhile_all: "list_all P l \<Longrightarrow> takeWhile P l = l"
  by (induction l) auto

lemma digit_char_facts:
  assumes "d < 10"
  shows "isdigit (digit_char d) \<and> digit_value (digit_char d) = int d \<and> \<not> is_delim (digit_char d)
    \<and> \<not> isspace (digit_char d) \<and> digit_char d \<notin> {CHR ''-'', CHR ''+'', CHR ''#''}"
proof -
  have "d \<in> {0, 1, 2, 3, 4, 5, 6, 7, 8, 9}" using assms by auto
  then show ?thesis
    by (elim insertE; simp add: digit_char_def isdigit_def digit_value_def is_delim_def isspace_def)
qed

lemma nat_to_string_digits: "list_all isdigit (nat_to_string n) \<and> nat_to_string n \<noteq> []"
proof (induction n rule: nat_to_string.induct)
  case (1 n)
  then show ?case by (subst (1 2) nat_to_string.simps) (simp add: digit_char_facts)
qed

lemma digits_value_append: "digits_value acc (xs @ ys) = digits_value (digits_value acc xs) ys"
  by (induction xs arbitrary: acc) simp_all

lemma digits_value_nat_to_string: "digits_value 0 (nat_to_string n) = int n"
proof (induction n rule: nat_to_string.induct)
  case (1 n)
  show ?case
  proof (cases "n < 10")
    case True
    then show ?thesis by (simp add: nat_to_string.simps [of n] digit_char_facts)
  next
    case False
    then show ?thesis using 1
      by (simp add: nat_to_string.simps [of n] digits_value_append digit_char_facts)
        presburger
  qed
qed

lemma isdigit_facts: "isdigit c \<Longrightarrow> \<not> is_delim c \<and> \<not> isspace c \<and> c \<notin> {CHR ''-'', CHR ''+'', CHR ''#''}"
  by (auto simp: isdigit_def is_delim_def isspace_def)

lemma strtol_nat: "n < 2 ^ 63 \<Longrightarrow> strtol (nat_to_string n) = (int n, [])"
proof -
  assume "n < 2 ^ 63"
  obtain c cs where s: "nat_to_string n = c # cs" using nat_to_string_digits [of n] by (cases "nat_to_string n") auto
  have all: "list_all isdigit (c # cs)" using nat_to_string_digits [of n] s by simp
  then have "takeWhile isdigit (c # cs) = c # cs" "dropWhile isdigit (c # cs) = []"
    by (auto intro: takeWhile_all simp: list_all_iff)
  moreover have "dropWhile isspace (c # cs) = c # cs" "c \<noteq> CHR ''-''" "c \<noteq> CHR ''+''"
    using all isdigit_facts [of c] by auto
  ultimately have "strtol (c # cs) = (clamp_long (digits_value 0 (c # cs)), [])"
    by (simp add: strtol_def Let_def)
  moreover have "clamp_long (int n) = int n" using \<open>n < 2 ^ 63\<close> by (simp add: clamp_long_def)
  ultimately show ?thesis using digits_value_nat_to_string [of n] s by simp
qed

text \<open>\<open>std::stoi\<close> throws when no number is found or it does not fit an \<open>int\<close>.\<close>

definition stoi :: "string \<Rightarrow> int result" where
  "stoi s =
     (let (n, rest) = strtol s in
      if rest = s then Inl (RuntimeError ''stoi: invalid argument'')
      else if n < - (2 ^ 31) \<or> 2 ^ 31 \<le> n then Inl (RuntimeError ''stoi: out of range'')
      else Inr n)"

lemma stoi_nat: "n < 2 ^ 31 \<Longrightarrow> stoi (nat_to_string n) = Inr (int n)"
proof -
  assume n: "n < 2 ^ 31"
  then have "strtol (nat_to_string n) = (int n, [])" by (intro strtol_nat) simp
  then show ?thesis using n nat_to_string_digits [of n] by (auto simp: stoi_def)
qed

end
