(* ===== verification/MacAddresses.thy ===== *)
theory MacAddresses
  imports CStrings
begin

text \<open>
  \<open>inet/src/inet/linklayer/common/MacAddress.{h,cc}\<close>: a 48-bit IEEE 802 address kept in a
  64-bit integer whose two highest bytes are zero. The byte accessors, the parser of the
  textual form and the printer are modelled bit for bit; the round trip between printer and
  parser is the component's contract.
\<close>

type_synonym mac = "64 word"

definition MAC_ADDRESS_SIZE :: nat where "MAC_ADDRESS_SIZE = 6"
definition MAC_ADDRESS_MASK :: "64 word" where "MAC_ADDRESS_MASK = 0xffffffffffff"

definition mac_of_bits :: "64 word \<Rightarrow> mac" where
  "mac_of_bits bits = bits AND MAC_ADDRESS_MASK"

definition wf_mac :: "mac \<Rightarrow> bool" where
  "wf_mac a \<longleftrightarrow> a AND MAC_ADDRESS_MASK = a"

section \<open>Bytes\<close>

definition byte_offset :: "nat \<Rightarrow> nat" where
  "byte_offset k = (MAC_ADDRESS_SIZE - k - 1) * 8"

definition get_byte :: "mac \<Rightarrow> nat \<Rightarrow> 8 word" where
  "get_byte a k = ucast (0xff AND drop_bit (byte_offset k) a)"

definition put_byte :: "mac \<Rightarrow> nat \<Rightarrow> 8 word \<Rightarrow> mac" where
  "put_byte a k b =
     (a AND NOT (push_bit (byte_offset k) 0xff)) OR push_bit (byte_offset k) (ucast b)"

definition getAddressByte :: "mac \<Rightarrow> nat \<Rightarrow> 8 word result" where
  "getAddressByte a k =
     (if MAC_ADDRESS_SIZE \<le> k then Inl (RuntimeError ''Array of size 6 indexed'')
      else Inr (get_byte a k))"

definition setAddressByte :: "mac \<Rightarrow> nat \<Rightarrow> 8 word \<Rightarrow> mac result" where
  "setAddressByte a k b =
     (if MAC_ADDRESS_SIZE \<le> k then Inl (RuntimeError ''Array of size 6 indexed'')
      else Inr (put_byte a k b))"

definition getAddressBytes :: "mac \<Rightarrow> 8 word list" where
  "getAddressBytes a = map (get_byte a) [0, 1, 2, 3, 4, 5]"

text \<open>\<open>setAddressBytes\<close> reads six bytes of the buffer it is given.\<close>

definition setAddressBytes :: "8 word list \<Rightarrow> mac" where
  "setAddressBytes bs = fold (\<lambda>(k, b) a. put_byte a k b) (zip [0, 1, 2, 3, 4, 5] bs) 0"

definition isBroadcast :: "mac \<Rightarrow> bool" where
  "isBroadcast a \<longleftrightarrow> a = MAC_ADDRESS_MASK"

definition isMulticast :: "mac \<Rightarrow> bool" where
  "isMulticast a \<longleftrightarrow> get_byte a 0 AND 0x01 \<noteq> 0"

definition isUnspecified :: "mac \<Rightarrow> bool" where
  "isUnspecified a \<longleftrightarrow> a = 0"

definition compareTo :: "mac \<Rightarrow> mac \<Rightarrow> int" where
  "compareTo a b = (if a < b then -1 else if a = b then 0 else 1)"

section \<open>The textual form\<close>

definition islower :: "char \<Rightarrow> bool" where
  "islower c \<longleftrightarrow> 97 \<le> (of_char c :: nat) \<and> (of_char c :: nat) \<le> 122"

definition isxdigit :: "char \<Rightarrow> bool" where
  "isxdigit c \<longleftrightarrow> c \<in> set ''0123456789abcdefABCDEF''"

text \<open>\<open>isdigit(*s) ? (*s - '0') : islower(*s) ? (*s - 'a' + 10) : (*s - 'A' + 10)\<close>\<close>

definition hex_value :: "char \<Rightarrow> 8 word" where
  "hex_value c =
     (if isdigit c then of_char c - 48
      else if islower c then of_char c - 97 + 10
      else of_char c - 65 + 10)"

text \<open>One turn of the parsing loop: the rest of the text and the address so far.\<close>

definition parse_byte :: "nat \<Rightarrow> string \<times> mac \<Rightarrow> string \<times> mac" where
  "parse_byte pos = (\<lambda>(s, a).
     if s = [] then (s, put_byte a pos 0)
     else
       (case dropWhile (\<lambda>c. \<not> isxdigit c) s of
          [] \<Rightarrow> ([], put_byte a pos 0)
        | c # s1 \<Rightarrow>
            (let d = push_bit 4 (hex_value c) in
             case dropWhile (\<lambda>c. \<not> isxdigit c) s1 of
               [] \<Rightarrow> ([], put_byte a pos 0)
             | c2 # s2 \<Rightarrow> (s2, put_byte a pos (d + hex_value c2)))))"

definition tryParse :: "string \<Rightarrow> mac option" where
  "tryParse hexstr =
     (if \<not> list_all (\<lambda>c. isxdigit c \<or> c = CHR '' '' \<or> c = CHR '':'' \<or> c = CHR ''-'') hexstr
      then None
      else if length (filter isxdigit hexstr) \<noteq> 2 * MAC_ADDRESS_SIZE then None
      else Some (snd (fold parse_byte [0, 1, 2, 3, 4, 5] (hexstr, 0))))"

definition setAddress :: "string \<Rightarrow> mac result" where
  "setAddress hexstr =
     (case tryParse hexstr of
        None \<Rightarrow> Inl (RuntimeError ''MacAddress: wrong address syntax'')
      | Some a \<Rightarrow> Inr a)"

definition hex_digit :: "nat \<Rightarrow> char" where
  "hex_digit n = ''0123456789ABCDEF'' ! n"

text \<open>\<open>"%2.2X-"\<close> of a byte, without the hyphen.\<close>

definition hex_byte :: "8 word \<Rightarrow> string" where
  "hex_byte b = [hex_digit (unat b div 16), hex_digit (unat b mod 16)]"

definition mac_str :: "mac \<Rightarrow> string" where
  "mac_str a = butlast (concat (map (\<lambda>i. hex_byte (get_byte a i) @ ''-'') [0, 1, 2, 3, 4, 5]))"

section \<open>Byte lemmas\<close>

lemma mac_mask: "MAC_ADDRESS_MASK = mask 48"
  by (simp add: MAC_ADDRESS_MASK_def mask_eq_exp_minus_1)

lemma bit_mac_mask [simp]: "bit MAC_ADDRESS_MASK n \<longleftrightarrow> n < 48"
  by (auto simp: mac_mask bit_mask_iff)

lemma byte_mask: "(0xff :: 64 word) = mask 8"
  by (simp add: mask_eq_exp_minus_1)

lemma wf_mac_bits: "wf_mac a \<longleftrightarrow> (\<forall>n. bit a n \<longrightarrow> n < 48)"
proof
  assume "wf_mac a"
  then have "bit (a AND MAC_ADDRESS_MASK) n = bit a n" for n by (simp add: wf_mac_def)
  then show "\<forall>n. bit a n \<longrightarrow> n < 48" by (auto simp: bit_and_iff)
next
  assume "\<forall>n. bit a n \<longrightarrow> n < 48"
  then show "wf_mac a"
    unfolding wf_mac_def by (intro bit_eqI) (auto simp: bit_and_iff)
qed

lemma wf_mac_of_bits [simp]: "wf_mac (mac_of_bits x)"
  by (simp add: wf_mac_bits mac_of_bits_def bit_and_iff)

lemma bit_get_byte: "bit (get_byte a k) n \<longleftrightarrow> n < 8 \<and> bit a (byte_offset k + n)"
  by (auto simp: get_byte_def byte_mask bit_simps)

lemma bit_put_byte:
  "k < 6 \<Longrightarrow> bit (put_byte a k b) n \<longleftrightarrow>
     (if byte_offset k \<le> n \<and> n < byte_offset k + 8 then bit b (n - byte_offset k) else bit a n)"
  by (auto simp: put_byte_def byte_mask byte_offset_def MAC_ADDRESS_SIZE_def bit_simps
           dest: bit_imp_le_length)

lemma get_put_byte:
  assumes "k < 6" "j < 6"
  shows "get_byte (put_byte a k b) j = (if j = k then b else get_byte a j)"
proof (rule bit_eqI)
  fix n assume "possible_bit TYPE(8 word) n"
  then have "n < 8" by simp
  then show "bit (get_byte (put_byte a k b) j) n = bit (if j = k then b else get_byte a j) n"
    using assms by (auto simp: bit_get_byte bit_put_byte byte_offset_def MAC_ADDRESS_SIZE_def)
qed

lemma wf_put_byte: "k < 6 \<Longrightarrow> wf_mac a \<Longrightarrow> wf_mac (put_byte a k b)"
  by (auto simp: wf_mac_bits bit_put_byte byte_offset_def MAC_ADDRESS_SIZE_def split: if_splits)

lemma put_all_bytes:
  assumes "wf_mac a"
  shows "put_byte (put_byte (put_byte (put_byte (put_byte (put_byte 0
           0 (get_byte a 0)) 1 (get_byte a 1)) 2 (get_byte a 2))
           3 (get_byte a 3)) 4 (get_byte a 4)) 5 (get_byte a 5) = a"
proof (rule bit_eqI)
  fix n assume "possible_bit TYPE(64 word) n"
  then have n: "n < 64" by simp
  have "bit a n \<Longrightarrow> n < 48" using assms by (simp add: wf_mac_bits)
  then show "bit (put_byte (put_byte (put_byte (put_byte (put_byte (put_byte 0
           0 (get_byte a 0)) 1 (get_byte a 1)) 2 (get_byte a 2))
           3 (get_byte a 3)) 4 (get_byte a 4)) 5 (get_byte a 5)) n = bit a n"
    using n by (auto simp: bit_put_byte bit_get_byte byte_offset_def MAC_ADDRESS_SIZE_def)
qed

section \<open>Parsing what was printed\<close>

lemma hex_digit_cases:
  assumes "n < 16"
  shows "isxdigit (hex_digit n)" and "hex_value (hex_digit n) = of_nat n"
    and "hex_digit n \<noteq> CHR ''-''"
proof -
  have "list_all (\<lambda>n. isxdigit (hex_digit n) \<and> hex_value (hex_digit n) = of_nat n
          \<and> hex_digit n \<noteq> CHR ''-'') [0..<16]"
    by code_simp
  then show "isxdigit (hex_digit n)" and "hex_value (hex_digit n) = of_nat n"
      and "hex_digit n \<noteq> CHR ''-''"
    using assms by (simp_all add: list_all_iff)
qed

lemma hyphen_no_digit [simp]: "\<not> isxdigit CHR ''-''"
  by (simp add: isxdigit_def)

lemma byte_nibble: "unat (b :: 8 word) div 16 < 16"
proof -
  have "unat b < 2 ^ LENGTH(8)" by (rule unsigned_less)
  then show ?thesis by simp
qed

lemma hex_byte_value:
  "push_bit 4 (hex_value (hex_digit (unat b div 16))) + hex_value (hex_digit (unat b mod 16)) = b"
proof -
  have "push_bit 4 (of_nat (unat b div 16) :: 8 word) + of_nat (unat b mod 16)
      = of_nat (16 * (unat b div 16) + unat b mod 16)"
    by (simp only: push_bit_eq_mult of_nat_add of_nat_mult) (simp add: mult.commute)
  also have "16 * (unat b div 16) + unat b mod 16 = unat b" by (rule mult_div_mod_eq)
  also have "of_nat (unat b) = b" by simp
  finally show ?thesis using byte_nibble [of b] by (simp add: hex_digit_cases)
qed

lemma hex_byte_digits:
  "\<exists>c d. hex_byte b = [c, d] \<and> isxdigit c \<and> isxdigit d \<and> push_bit 4 (hex_value c) + hex_value d = b"
proof -
  show ?thesis using hex_byte_value [of b] byte_nibble [of b] by (simp add: hex_byte_def hex_digit_cases)
qed

lemma parse_hex_byte:
  "parse_byte pos (hex_byte b @ rest, a) = (rest, put_byte a pos b)"
  "parse_byte pos (CHR ''-'' # hex_byte b @ rest, a) = (rest, put_byte a pos b)"
proof -
  obtain c d where "hex_byte b = [c, d]" "isxdigit c" "isxdigit d"
      "push_bit 4 (hex_value c) + hex_value d = b"
    using hex_byte_digits by blast
  then show "parse_byte pos (hex_byte b @ rest, a) = (rest, put_byte a pos b)"
    and "parse_byte pos (CHR ''-'' # hex_byte b @ rest, a) = (rest, put_byte a pos b)"
    by (simp_all add: parse_byte_def)
qed

lemma mac_str_eq:
  "mac_str a = hex_byte (get_byte a 0) @ ''-'' @ hex_byte (get_byte a 1) @ ''-''
     @ hex_byte (get_byte a 2) @ ''-'' @ hex_byte (get_byte a 3) @ ''-''
     @ hex_byte (get_byte a 4) @ ''-'' @ hex_byte (get_byte a 5)"
  by (simp add: mac_str_def butlast_append hex_byte_def)

lemma hex_byte_checks:
  "list_all (\<lambda>c. isxdigit c \<or> c = CHR '' '' \<or> c = CHR '':'' \<or> c = CHR ''-'') (hex_byte b)"
  "length (filter isxdigit (hex_byte b)) = 2"
  using hex_byte_digits [of b] by auto

text \<open>
  Printing a MAC address and parsing the text gives the address back:
  \<open>MacAddress::tryParse\<close> accepts every text \<open>
  MacAddress::str\<close> produces and recovers all
  48 bits.
\<close>

theorem tryParse_mac_str:
  "wf_mac a \<Longrightarrow> tryParse (mac_str a) = Some a"
proof -
  assume "wf_mac a"
  have "list_all (\<lambda>c. isxdigit c \<or> c = CHR '' '' \<or> c = CHR '':'' \<or> c = CHR ''-'') (mac_str a)"
    unfolding mac_str_eq using hex_byte_checks(1) by simp
  moreover have "length (filter isxdigit (mac_str a)) = 2 * MAC_ADDRESS_SIZE"
    unfolding mac_str_eq by (simp add: hex_byte_checks(2) MAC_ADDRESS_SIZE_def)
  moreover have "snd (fold parse_byte [0, 1, 2, 3, 4, 5] (mac_str a, 0)) = a"
    using put_all_bytes [OF \<open>wf_mac a\<close>]
    by (simp add: mac_str_eq parse_hex_byte parse_hex_byte(1) [where rest = "[]", simplified]
          parse_hex_byte(2) [where rest = "[]", simplified])
  ultimately show ?thesis by (simp add: tryParse_def)
qed

theorem tryParse_mac_str_witness:
  "wf_mac 0x0AAA00000001 \<and> tryParse (mac_str 0x0AAA00000001) = Some 0x0AAA00000001"
proof -
  have "wf_mac 0x0AAA00000001" by (simp add: wf_mac_def MAC_ADDRESS_MASK_def)
  then show ?thesis using tryParse_mac_str by blast
qed

end
