(* ===== verification/MacTable.thy ===== *)
theory MacTable
  imports MacAddresses
begin

text \<open>
  \<open>inet/src/inet/linklayer/ethernet/common/MacForwardingTable.{h,cc}\<close>: the learning table of
  a bridge. Keys are (VLAN id, MAC address); a unicast entry holds the outgoing interface and
  its insertion time, a multicast entry a list of interfaces. \<open>simTime()\<close> is the argument
  \<open>now\<close>. \<open>std::map\<close> is a HOL map: every loop over the table erases or rewrites the entries
  with a property, so it is a pointwise update.

  The contract a bridge relies on is the locale \<open>station_table\<close>, interpreted below on the
  operations of the code; its client is the forwarding code of theory \<open>MacRelay\<close>.
\<close>

type_synonym vid = nat
type_synonym table_key = "vid \<times> mac"

record address_entry =
  entryInterface :: int
  insertionTime :: simtime

record mac_table =
  agingTime :: simtime
  lastPurge :: simtime
  forwardingTable :: "table_key \<Rightarrow> address_entry option"
  multicastForwardingTable :: "table_key \<Rightarrow> int list option"

definition address_entry :: "int \<Rightarrow> simtime \<Rightarrow> address_entry" where
  "address_entry i t = \<lparr>entryInterface = i, insertionTime = t\<rparr>"

definition aged :: "simtime \<Rightarrow> mac_table \<Rightarrow> address_entry \<Rightarrow> bool" where
  "aged now t e \<longleftrightarrow> insertionTime e \<le> now - agingTime t"

section \<open>Unicast entries\<close>

definition getUnicast :: "simtime \<Rightarrow> mac_table \<Rightarrow> mac \<Rightarrow> vid \<Rightarrow> int result" where
  "getUnicast now t a v =
     (if isMulticast a then Inl AssertionFailed
      else Inr (case forwardingTable t (v, a) of
                  None \<Rightarrow> -1
                | Some e \<Rightarrow> if aged now t e then -1 else entryInterface e))"

definition setUnicast :: "mac_table \<Rightarrow> int \<Rightarrow> mac \<Rightarrow> vid \<Rightarrow> mac_table result" where
  "setUnicast t i a v =
     (if isMulticast a then Inl AssertionFailed
      else Inr (case forwardingTable t (v, a) of
          None \<Rightarrow> t\<lparr>forwardingTable := (forwardingTable t)((v, a) \<mapsto> address_entry i (simtime_s (-1)))\<rparr>
        | Some e \<Rightarrow> t\<lparr>forwardingTable := (forwardingTable t)((v, a) \<mapsto>
              e\<lparr>entryInterface := i, insertionTime := simtime_max\<rparr>)\<rparr>))"

definition removeUnicast :: "mac_table \<Rightarrow> int \<Rightarrow> mac \<Rightarrow> vid \<Rightarrow> mac_table result" where
  "removeUnicast t i a v =
     (if isMulticast a then Inl AssertionFailed
      else case forwardingTable t (v, a) of
          None \<Rightarrow> Inl (RuntimeError ''Cannot find entry'')
        | Some _ \<Rightarrow> Inr (t\<lparr>forwardingTable := (forwardingTable t)((v, a) := None)\<rparr>))"

definition removeAgedEntriesFromAllVlans :: "simtime \<Rightarrow> mac_table \<Rightarrow> mac_table" where
  "removeAgedEntriesFromAllVlans now t =
     t\<lparr>forwardingTable := (\<lambda>k. case forwardingTable t k of
          None \<Rightarrow> None | Some e \<Rightarrow> if aged now t e then None else Some e)\<rparr>"

definition removeAgedEntriesIfNeeded :: "simtime \<Rightarrow> mac_table \<Rightarrow> mac_table" where
  "removeAgedEntriesIfNeeded now t =
     (let t' = (if lastPurge t + simtime_s 1 \<le> now then removeAgedEntriesFromAllVlans now t else t)
      in t'\<lparr>lastPurge := now\<rparr>)"

definition learnUnicast :: "simtime \<Rightarrow> mac_table \<Rightarrow> int \<Rightarrow> mac \<Rightarrow> vid \<Rightarrow> mac_table result" where
  "learnUnicast now t i a v =
     (if isMulticast a then Inl AssertionFailed
      else
        (let t' = removeAgedEntriesIfNeeded now t in
         Inr (case forwardingTable t' (v, a) of
            None \<Rightarrow> t'\<lparr>forwardingTable := (forwardingTable t')((v, a) \<mapsto> address_entry i now)\<rparr>
          | Some e \<Rightarrow>
              if insertionTime e \<noteq> simtime_max
              then t'\<lparr>forwardingTable := (forwardingTable t')((v, a) \<mapsto>
                     e\<lparr>entryInterface := i, insertionTime := now\<rparr>)\<rparr>
              else t')))"

definition removeForwardingInterface :: "mac_table \<Rightarrow> int \<Rightarrow> mac_table" where
  "removeForwardingInterface t i =
     t\<lparr>forwardingTable := (\<lambda>k. case forwardingTable t k of
          None \<Rightarrow> None | Some e \<Rightarrow> if entryInterface e = i then None else Some e)\<rparr>"

definition replaceForwardingInterface :: "mac_table \<Rightarrow> int \<Rightarrow> int \<Rightarrow> mac_table" where
  "replaceForwardingInterface t old new =
     t\<lparr>forwardingTable := (\<lambda>k. case forwardingTable t k of
          None \<Rightarrow> None
        | Some e \<Rightarrow> Some (if entryInterface e = old then e\<lparr>entryInterface := new\<rparr> else e))\<rparr>"

section \<open>Multicast entries\<close>

definition getMulticast :: "mac_table \<Rightarrow> mac \<Rightarrow> vid \<Rightarrow> int list result" where
  "getMulticast t a v =
     (if \<not> isMulticast a then Inl AssertionFailed
      else Inr (case multicastForwardingTable t (v, a) of None \<Rightarrow> [] | Some is \<Rightarrow> is))"

definition addMulticast :: "mac_table \<Rightarrow> int \<Rightarrow> mac \<Rightarrow> vid \<Rightarrow> mac_table result" where
  "addMulticast t i a v =
     (if \<not> isMulticast a then Inl AssertionFailed
      else case multicastForwardingTable t (v, a) of
          None \<Rightarrow> Inr (t\<lparr>multicastForwardingTable := (multicastForwardingTable t)((v, a) \<mapsto> [i])\<rparr>)
        | Some is \<Rightarrow>
            if i \<in> set is then Inl (RuntimeError ''Already contains interface'')
            else Inr (t\<lparr>multicastForwardingTable :=
                        (multicastForwardingTable t)((v, a) \<mapsto> is @ [i])\<rparr>))"

text \<open>\<open>remove\<close> of \<open>stlutils.h\<close> erases every occurrence of the element.\<close>

definition removeMulticast :: "mac_table \<Rightarrow> int \<Rightarrow> mac \<Rightarrow> vid \<Rightarrow> mac_table result" where
  "removeMulticast t i a v =
     (if \<not> isMulticast a then Inl AssertionFailed
      else case multicastForwardingTable t (v, a) of
          None \<Rightarrow> Inl (RuntimeError ''Cannot find entry'')
        | Some is \<Rightarrow>
            if i \<in> set is then Inl (RuntimeError ''Cannot find interface'')
            else Inr (t\<lparr>multicastForwardingTable :=
                        (multicastForwardingTable t)((v, a) \<mapsto> removeAll i is)\<rparr>))"

section \<open>Configuration\<close>

definition clearTable :: "mac_table \<Rightarrow> mac_table" where
  "clearTable t = t\<lparr>forwardingTable := Map.empty, multicastForwardingTable := Map.empty\<rparr>"

text \<open>An ageing time of -1 second stands for the module parameter.\<close>

definition setAgingTime :: "simtime \<Rightarrow> mac_table \<Rightarrow> simtime \<Rightarrow> mac_table" where
  "setAgingTime par t a = t\<lparr>agingTime := (if a = simtime_s (-1) then par else a)\<rparr>"

text \<open>An element of the \<open>forwardingTable\<close> parameter: optional VLAN, address, interface name.\<close>

record table_rule =
  ruleVlan :: "vid option"
  ruleAddress :: string
  ruleInterface :: string

text \<open>
  The address resolver and the interface table are queried by name, so they are arguments:
  \<open>resolve\<close> is \<open>L3AddressResolver::tryResolve\<close> for MAC addresses and \<open>by_name\<close> is
  \<open>findInterfaceByName\<close> followed by \<open>getInterfaceId\<close>.
\<close>

definition parseRule ::
  "(string \<Rightarrow> mac option) \<Rightarrow> (string \<Rightarrow> int option) \<Rightarrow> mac_table \<Rightarrow> table_rule \<Rightarrow> mac_table result" where
  "parseRule resolve by_name t r =
     (let vlan = (case ruleVlan r of None \<Rightarrow> 0 | Some v \<Rightarrow> v) in
      case resolve (ruleAddress r) of
        None \<Rightarrow> Inl (RuntimeError ''Cannot resolve MAC address'')
      | Some a \<Rightarrow>
          (case by_name (ruleInterface r) of
             None \<Rightarrow> Inl (RuntimeError ''Cannot find network interface'')
           | Some i \<Rightarrow>
               if isMulticast a then addMulticast t i a vlan
               else if forwardingTable t (vlan, a) \<noteq> None
               then Inl (RuntimeError ''Table already contains unicast MAC address'')
               else setUnicast t i a vlan))"

definition parseForwardingTableParameter ::
  "(string \<Rightarrow> mac option) \<Rightarrow> (string \<Rightarrow> int option) \<Rightarrow> mac_table \<Rightarrow> table_rule list \<Rightarrow> mac_table result" where
  "parseForwardingTableParameter resolve by_name t rs = foldM (parseRule resolve by_name) t rs"

text \<open>A change of the \<open>forwardingTable\<close> parameter reconfigures the table from scratch.\<close>

definition handleTableParameterChange ::
  "(string \<Rightarrow> mac option) \<Rightarrow> (string \<Rightarrow> int option) \<Rightarrow> mac_table \<Rightarrow> string \<Rightarrow> table_rule list
     \<Rightarrow> mac_table result" where
  "handleTableParameterChange resolve by_name t name rs =
     (if name = ''forwardingTable'' then parseForwardingTableParameter resolve by_name (clearTable t) rs
      else Inr t)"

section \<open>Lookup laws\<close>

lemma aged_simps [simp]:
  "aged now (t\<lparr>forwardingTable := f\<rparr>) e = aged now t e"
  "aged now (t\<lparr>multicastForwardingTable := g\<rparr>) e = aged now t e"
  "aged now (t\<lparr>lastPurge := p\<rparr>) e = aged now t e"
  by (simp_all add: aged_def)

text \<open>Purging is not observable: it removes what a lookup at the same time ignores.\<close>

lemma getUnicast_purge [frame_laws]:
  "getUnicast now (removeAgedEntriesIfNeeded now t) a v = getUnicast now t a v"
  by (auto simp: getUnicast_def removeAgedEntriesIfNeeded_def removeAgedEntriesFromAllVlans_def
           Let_def aged_def split: option.splits)

lemma agingTime_purge [simp]: "agingTime (removeAgedEntriesIfNeeded now t) = agingTime t"
  by (simp add: removeAgedEntriesIfNeeded_def removeAgedEntriesFromAllVlans_def Let_def)

lemma multicast_purge [simp]:
  "multicastForwardingTable (removeAgedEntriesIfNeeded now t) = multicastForwardingTable t"
  by (simp add: removeAgedEntriesIfNeeded_def removeAgedEntriesFromAllVlans_def Let_def)

text \<open>An entry marked with the maximal time is configured, not learned; learning skips it.\<close>

definition configured :: "mac_table \<Rightarrow> mac \<Rightarrow> vid \<Rightarrow> bool" where
  "configured t a v \<longleftrightarrow>
     (case forwardingTable t (v, a) of None \<Rightarrow> False | Some e \<Rightarrow> insertionTime e = simtime_max)"

definition ages :: "mac_table \<Rightarrow> bool" where
  "ages t \<longleftrightarrow> 0 < agingTime t"

lemma purge_keeps:
  assumes "ages t" "now \<le> simtime_max" "configured t a v"
  shows "forwardingTable (removeAgedEntriesIfNeeded now t) (v, a) = forwardingTable t (v, a)"
  using assms
  by (auto simp: removeAgedEntriesIfNeeded_def removeAgedEntriesFromAllVlans_def Let_def aged_def
           ages_def configured_def split: option.splits)

lemma purge_sub:
  "forwardingTable (removeAgedEntriesIfNeeded now t) k = Some e \<Longrightarrow> forwardingTable t k = Some e"
  by (auto simp: removeAgedEntriesIfNeeded_def removeAgedEntriesFromAllVlans_def Let_def
           split: option.splits if_splits)

lemma learnUnicast_same:
  assumes "ages t" "\<not> configured t a v" "learnUnicast now t i a v = Inr t'"
  shows "getUnicast now t' a v = Inr i"
proof -
  have "\<not> isMulticast a" using assms(3) by (auto simp: learnUnicast_def)
  then show ?thesis
    using assms purge_sub [of now t "(v, a)"]
    by (auto simp: learnUnicast_def getUnicast_def Let_def aged_def ages_def configured_def
             address_entry_def split: option.splits if_splits)
qed

lemma learnUnicast_other:
  assumes "(w, b) \<noteq> (v, a)" "learnUnicast now t i a v = Inr t'"
  shows "getUnicast now t' b w = getUnicast now t b w"
proof -
  have "getUnicast now t' b w = getUnicast now (removeAgedEntriesIfNeeded now t) b w"
    using assms by (auto simp: learnUnicast_def getUnicast_def Let_def split: option.splits if_splits)
  then show ?thesis by (simp add: getUnicast_purge)
qed

lemma learnUnicast_configured:
  assumes "ages t" "now \<le> simtime_max" "configured t a v" "learnUnicast now t i a v = Inr t'"
  shows "getUnicast now t' a v = getUnicast now t a v"
proof -
  have "t' = removeAgedEntriesIfNeeded now t"
    using assms purge_keeps [OF assms(1-3)]
    by (auto simp: learnUnicast_def Let_def configured_def split: option.splits if_splits)
  then show ?thesis by (simp add: getUnicast_purge)
qed

lemma learnUnicast_total: "\<not> isMulticast a \<Longrightarrow> \<exists>t'. learnUnicast now t i a v = Inr t'"
  by (simp add: learnUnicast_def Let_def)

lemma learnUnicast_ages: "ages t \<Longrightarrow> learnUnicast now t i a v = Inr t' \<Longrightarrow> ages t'"
  by (auto simp: learnUnicast_def ages_def Let_def split: option.splits if_splits)

lemma learnUnicast_configures:
  assumes "ages t" "now < simtime_max" "learnUnicast now t i a v = Inr t'"
  shows "configured t' b w = configured t b w"
proof -
  have "configured (removeAgedEntriesIfNeeded now t) b w = configured t b w"
    using assms by (auto simp: removeAgedEntriesIfNeeded_def removeAgedEntriesFromAllVlans_def Let_def
      aged_def ages_def configured_def split: option.splits)
  moreover have "configured t' b w = configured (removeAgedEntriesIfNeeded now t) b w"
    using assms by (auto simp: learnUnicast_def Let_def configured_def address_entry_def
      split: option.splits if_splits)
  ultimately show ?thesis by simp
qed

section \<open>The contract of a station table\<close>

text \<open>
  What forwarding code may assume of the table: after learning, the station is found at the
  port it was seen on, other stations are unaffected, and configured stations are never moved
  by traffic.
\<close>

locale station_table =
  fixes lookup :: "simtime \<Rightarrow> 't \<Rightarrow> mac \<Rightarrow> vid \<Rightarrow> int result"
    and learn :: "simtime \<Rightarrow> 't \<Rightarrow> int \<Rightarrow> mac \<Rightarrow> vid \<Rightarrow> 't result"
    and fixed :: "'t \<Rightarrow> mac \<Rightarrow> vid \<Rightarrow> bool"
    and ok :: "'t \<Rightarrow> bool"
  assumes lookup_learned:
      "ok t \<Longrightarrow> \<not> fixed t a v \<Longrightarrow> learn now t i a v = Inr t' \<Longrightarrow> lookup now t' a v = Inr i"
    and lookup_other:
      "(w, b) \<noteq> (v, a) \<Longrightarrow> learn now t i a v = Inr t' \<Longrightarrow> lookup now t' b w = lookup now t b w"
    and lookup_fixed:
      "ok t \<Longrightarrow> now < simtime_max \<Longrightarrow> fixed t a v \<Longrightarrow> learn now t i a v = Inr t'
        \<Longrightarrow> lookup now t' a v = lookup now t a v"
    and learn_total: "\<not> isMulticast a \<Longrightarrow> \<exists>t'. learn now t i a v = Inr t'"
    and learn_ok: "ok t \<Longrightarrow> learn now t i a v = Inr t' \<Longrightarrow> ok t'"
    and learn_fixed:
      "ok t \<Longrightarrow> now < simtime_max \<Longrightarrow> learn now t i a v = Inr t' \<Longrightarrow> fixed t' b w = fixed t b w"
begin

text \<open>A burst of observations (port, station, VLAN) at one time.\<close>

abbreviation observe :: "simtime \<Rightarrow> 't \<Rightarrow> (int \<times> mac \<times> vid) list \<Rightarrow> 't result" where
  "observe now \<equiv> foldM (\<lambda>t (i, a, v). learn now t i a v)"

lemma observe_step:
  "observe now t (obs @ [(i, a, v)]) = rbind (observe now t obs) (\<lambda>t. learn now t i a v)"
proof -
  have *: "rbind r Inr = r" for r :: "'t result" by (cases r) simp_all
  show ?thesis by (simp add: foldM_append *)
qed

lemma observe_keeps:
  assumes "ok t" "now < simtime_max" "observe now t obs = Inr t'"
  shows "ok t' \<and> (\<forall>b w. fixed t' b w = fixed t b w)"
proof (rule foldM_invariant [OF _ _ assms(3), where P = "\<lambda>u. ok u \<and> (\<forall>b w. fixed u b w = fixed t b w)"])
  show "ok t \<and> (\<forall>b w. fixed t b w = fixed t b w)" using assms(1) by simp
next
  fix u x u'
  assume "ok u \<and> (\<forall>b w. fixed u b w = fixed t b w)"
    and "(case x of (i, a, v) \<Rightarrow> learn now u i a v) = Inr u'"
  then show "ok u' \<and> (\<forall>b w. fixed u' b w = fixed t b w)"
    using assms(2) learn_ok learn_fixed by (cases x) (simp, metis)
qed

text \<open>The station is found where it was last seen.\<close>

lemma observe_last:
  assumes "ok t" "now < simtime_max" "\<not> fixed t a v"
    and "observe now t (pre @ (i, a, v) # post) = Inr t'"
    and "\<forall>(j, b, w) \<in> set post. (w, b) \<noteq> (v, a)"
  shows "lookup now t' a v = Inr i"
  using assms(4,5)
proof (induction post arbitrary: t' rule: rev_induct)
  case Nil
  then have "observe now t (pre @ [(i, a, v)]) = Inr t'" by simp
  then obtain u where u: "observe now t pre = Inr u" "learn now u i a v = Inr t'"
    unfolding observe_step by (auto simp: rbind_Inr_iff)
  then show ?case using observe_keeps [OF assms(1,2) u(1)] assms(3) lookup_learned by blast
next
  case (snoc x post)
  obtain j b w where x: "x = (j, b, w)" by (cases x)
  have "observe now t ((pre @ (i, a, v) # post) @ [(j, b, w)]) = Inr t'"
    using snoc.prems(1) x by simp
  then obtain u where u: "observe now t (pre @ (i, a, v) # post) = Inr u" "learn now u j b w = Inr t'"
    unfolding observe_step by (auto simp: rbind_Inr_iff)
  have "lookup now u a v = Inr i" using snoc.IH [OF u(1)] snoc.prems(2) by simp
  moreover have "(v, a) \<noteq> (w, b)" using snoc.prems(2) x by auto
  ultimately show ?case using lookup_other [OF _ u(2)] by metis
qed

end

interpretation mt: station_table getUnicast learnUnicast configured ages
proof unfold_locales
  fix t :: mac_table and a v now i t' b w
  show "ages t \<Longrightarrow> \<not> configured t a v \<Longrightarrow> learnUnicast now t i a v = Inr t' \<Longrightarrow> getUnicast now t' a v = Inr i"
    by (rule learnUnicast_same)
  show "(w, b) \<noteq> (v, a) \<Longrightarrow> learnUnicast now t i a v = Inr t' \<Longrightarrow> getUnicast now t' b w = getUnicast now t b w"
    by (rule learnUnicast_other)
  show "ages t \<Longrightarrow> now < simtime_max \<Longrightarrow> configured t a v \<Longrightarrow> learnUnicast now t i a v = Inr t'
      \<Longrightarrow> getUnicast now t' a v = getUnicast now t a v"
    by (rule learnUnicast_configured) simp_all
  show "\<not> isMulticast a \<Longrightarrow> \<exists>t'. learnUnicast now t i a v = Inr t'"
    by (rule learnUnicast_total)
  show "ages t \<Longrightarrow> learnUnicast now t i a v = Inr t' \<Longrightarrow> ages t'"
    by (rule learnUnicast_ages)
  show "ages t \<Longrightarrow> now < simtime_max \<Longrightarrow> learnUnicast now t i a v = Inr t'
      \<Longrightarrow> configured t' b w = configured t b w"
    by (rule learnUnicast_configures)
qed

section \<open>Ageing\<close>

text \<open>What a lookup at any later time finds after learning.\<close>

lemma lookup_later:
  assumes "ages t" "\<not> configured t a v" "learnUnicast now t i a v = Inr t'"
  shows "getUnicast later t' a v = Inr (if later < now + agingTime t then i else -1)"
proof -
  have "\<not> isMulticast a" using assms(3) by (auto simp: learnUnicast_def)
  then show ?thesis
    using assms purge_sub [of now t "(v, a)"]
    by (auto simp: learnUnicast_def getUnicast_def Let_def aged_def configured_def ages_def
             address_entry_def split: option.splits if_splits)
qed

lemma learnUnicast_agingTime [frame_laws]:
  "learnUnicast now t i a v = Inr t' \<Longrightarrow> agingTime t' = agingTime t"
  by (auto simp: learnUnicast_def Let_def split: option.splits if_splits)

lemma learnUnicast_other_later:
  assumes "(w, b) \<noteq> (v, a)" "learnUnicast now t i a v = Inr t'" "now \<le> later"
  shows "getUnicast later t' b w = getUnicast later t b w"
  using assms
  by (auto simp: learnUnicast_def getUnicast_def Let_def removeAgedEntriesIfNeeded_def
      removeAgedEntriesFromAllVlans_def aged_def split: option.splits if_splits)

text \<open>A history of observations, each with its own time.\<close>

type_synonym sighting = "simtime \<times> int \<times> mac \<times> vid"

definition observe_timed :: "mac_table \<Rightarrow> sighting list \<Rightarrow> mac_table result" where
  "observe_timed = foldM (\<lambda>t (now, i, a, v). learnUnicast now t i a v)"

text \<open>
  Ageing of learned stations. A station that is not statically configured and was last
  seen on interface \<open>i\<close> at time \<open>now\<close> is found there for exactly \<open>agingTime\<close>, whatever other
  stations are learned in between (and whenever the purge runs): afterwards the lookup
  reports that the station is unknown.
\<close>

theorem learned_station_ages:
  assumes "ages t" "\<not> configured t a v" "learnUnicast now t i a v = Inr t1"
    and "observe_timed t1 others = Inr t2"
    and "\<forall>(u, j, b, w) \<in> set others. (v, a) \<noteq> (w, b) \<and> u \<le> later"
  shows "getUnicast later t2 a v = Inr (if later < now + agingTime t then i else -1)"
proof (rule foldM_invariant [OF _ _ assms(4) [unfolded observe_timed_def]])
  show "getUnicast later t1 a v = Inr (if later < now + agingTime t then i else -1)"
    by (rule lookup_later [OF assms(1-3)])
next
  fix s x s'
  assume *: "getUnicast later s a v = Inr (if later < now + agingTime t then i else -1)" "x \<in> set others"
    "(case x of (u, j, b, w) \<Rightarrow> learnUnicast u s j b w) = Inr s'"
  obtain u j b w where x: "x = (u, j, b, w)" by (cases x)
  with * assms(5) have "(v, a) \<noteq> (w, b)" "u \<le> later" "learnUnicast u s j b w = Inr s'" by auto
  from learnUnicast_other_later [OF this(1,3,2)] *(1)
  show "getUnicast later s' a v = Inr (if later < now + agingTime t then i else -1)" by simp
qed

text \<open>
  The table always knows the last place a station was seen: after any burst of
  observations at one time, a lookup of a station that is not configured returns the interface
  of its last observation.
\<close>

theorem station_found_where_last_seen:
  assumes "ages t" "now < simtime_max" "\<not> configured t a v"
    and "foldM (\<lambda>t (i, a, v). learnUnicast now t i a v) t (pre @ (i, a, v) # post) = Inr t'"
    and "\<forall>(j, b, w) \<in> set post. (w, b) \<noteq> (v, a)"
  shows "getUnicast now t' a v = Inr i"
  by (rule mt.observe_last [OF assms])

section \<open>Static entries\<close>

text \<open>
  A static entry for a new key is stored with the insertion time -1 s instead of the
  maximal time, so it is not permanent: it is served until \<open>agingTime\<close> and reported as unknown
  from then on. Only a second call for the same key makes it permanent.
\<close>

theorem static_entry_expires:
  assumes "forwardingTable t (v, a) = None" "setUnicast t i a v = Inr t1" "setUnicast t1 i a v = Inr t2"
    and "now < simtime_max" "0 < agingTime t"
  shows "getUnicast now t1 a v = Inr (if now < agingTime t - simtime_s 1 then i else -1) \<and>
         getUnicast now t2 a v = Inr i"
  using assms
  by (auto simp: setUnicast_def getUnicast_def aged_def address_entry_def simtime_s_def
      split: if_splits option.splits)

text \<open>
  A static entry for a new key is not protected from learning either: the next packet from
  that address moves it to another interface.
\<close>

theorem static_entry_overwritten:
  assumes "forwardingTable t (v, a) = None" "setUnicast t i a v = Inr t1"
    and "ages t" "now < simtime_max" "learnUnicast now t1 j a v = Inr t2"
  shows "getUnicast now t2 a v = Inr j"
proof (rule mt.lookup_learned [OF _ _ assms(5)])
  show "ages t1" using assms(2,3) by (auto simp: setUnicast_def ages_def split: if_splits option.splits)
  show "\<not> configured t1 a v"
    using assms(1,2)
    by (auto simp: setUnicast_def configured_def address_entry_def simtime_s_def simtime_max_def split: if_splits)
qed

text \<open>A table parameter: each unicast rule is stored under its own key.\<close>

lemma addMulticast_unicast_entries:
  "addMulticast t i a v = Inr t' \<Longrightarrow> forwardingTable t' = forwardingTable t"
  by (auto simp: addMulticast_def split: if_splits option.splits)

lemma parseRule_entry:
  assumes "parseRule resolve by_name t r = Inr t'"
  shows "(forwardingTable t k \<noteq> None \<longrightarrow> forwardingTable t' k = forwardingTable t k) \<and>
    (\<forall>a i. resolve (ruleAddress r) = Some a \<longrightarrow> by_name (ruleInterface r) = Some i \<longrightarrow> \<not> isMulticast a
      \<longrightarrow> forwardingTable t' (case ruleVlan r of None \<Rightarrow> 0 | Some v \<Rightarrow> v, a) = Some (address_entry i (simtime_s (-1))))"
  using assms
  by (auto simp: parseRule_def setUnicast_def Let_def addMulticast_unicast_entries
      split: if_splits option.splits dest: addMulticast_unicast_entries)

text \<open>
  Parsing the \<open>forwardingTable\<close> parameter: when it succeeds, every rule for a unicast
  address has its entry in the table, on the interface the rule names; a second rule for the
  same VLAN and address is an error, so no rule overrides another.
\<close>

theorem parseForwardingTableParameter_entries:
  assumes "handleTableParameterChange resolve by_name t ''forwardingTable'' rules = Inr t'"
    and "r \<in> set rules" "resolve (ruleAddress r) = Some a" "by_name (ruleInterface r) = Some i"
    and "\<not> isMulticast a"
  shows "forwardingTable t' (case ruleVlan r of None \<Rightarrow> 0 | Some v \<Rightarrow> v, a)
           = Some (address_entry i (simtime_s (-1)))"
proof -
  let ?k = "(case ruleVlan r of None \<Rightarrow> 0 | Some v \<Rightarrow> v, a)"
  let ?f = "parseRule resolve by_name"
  from assms(2) obtain pre post where rules: "rules = pre @ r # post" by (meson split_list)
  with assms(1) obtain t1 t2 where "?f t1 r = Inr t2" and rest: "foldM ?f t2 post = Inr t'"
    by (auto simp: handleTableParameterChange_def parseForwardingTableParameter_def foldM_append rbind_Inr_iff)
  then have "forwardingTable t2 ?k = Some (address_entry i (simtime_s (-1)))"
    using parseRule_entry assms(3-5) by blast
  then show ?thesis
    by (rule foldM_invariant [OF _ _ rest, rotated]) (metis parseRule_entry option.distinct(1))
qed

section \<open>Purging\<close>

text \<open>Observations less than a second apart.\<close>

fun steady :: "simtime \<Rightarrow> sighting list \<Rightarrow> bool" where
  "steady prev [] = True"
| "steady prev ((now, x) # rest) = (now < prev + simtime_s 1 \<and> steady now rest)"

lemma learnUnicast_no_purge:
  assumes "learnUnicast now t i a v = Inr t'" "now < lastPurge t + simtime_s 1"
  shows "dom (forwardingTable t) \<subseteq> dom (forwardingTable t') \<and> lastPurge t' = now"
  using assms
  by (auto simp: learnUnicast_def removeAgedEntriesIfNeeded_def Let_def split: if_splits option.splits)

text \<open>
  The purge is starved by traffic: \<open>lastPurge\<close> is renewed by every call, not only when
  entries are removed, so as long as packets keep arriving less than a second apart no entry
  is ever erased from the table, however old.
\<close>

theorem purge_starved_by_traffic:
  assumes "observe_timed t obs = Inr t'" "steady (lastPurge t) obs"
  shows "dom (forwardingTable t) \<subseteq> dom (forwardingTable t')"
  using assms unfolding observe_timed_def
proof (induction obs arbitrary: t)
  case Nil
  then show ?case by simp
next
  case (Cons x obs)
  obtain now i a v where x: "x = (now, i, a, v)" by (cases x)
  with Cons.prems(1) obtain t1 where "learnUnicast now t i a v = Inr t1"
    and rest: "foldM (\<lambda>t (now, i, a, v). learnUnicast now t i a v) t1 obs = Inr t'"
    by (auto simp: rbind_Inr_iff)
  with Cons.prems(2) x have "dom (forwardingTable t) \<subseteq> dom (forwardingTable t1) \<and> lastPurge t1 = now"
    using learnUnicast_no_purge by simp
  moreover have "dom (forwardingTable t1) \<subseteq> dom (forwardingTable t')"
    using Cons.IH [OF rest] calculation Cons.prems(2) x by simp
  ultimately show ?case by (meson order_trans)
qed

section \<open>Multicast groups\<close>

text \<open>
  The guard of \<open>removeMulticastAddressForwardingInterface\<close> is inverted: the operation never
  takes an interface out of a group. It throws when the interface is a member, and when it
  returns the table is unchanged.
\<close>

theorem removeMulticast_never_removes:
  assumes "multicastForwardingTable t (v, a) = Some is" "isMulticast a"
  shows "(i \<in> set is \<longrightarrow> removeMulticast t i a v = Inl (RuntimeError ''Cannot find interface'')) \<and>
         (i \<notin> set is \<longrightarrow> removeMulticast t i a v = Inr t)"
  using assms by (auto simp: removeMulticast_def fun_upd_idem)

text \<open>The operations of the table, for sequences of calls.\<close>

datatype table_op =
    SetUnicast int mac vid | RemoveUnicast int mac vid | LearnUnicast simtime int mac vid
  | AddMulticast int mac vid | RemoveMulticast int mac vid
  | RemoveInterface int | ReplaceInterface int int | ClearTable | SetAgingTime simtime

fun table_step :: "simtime \<Rightarrow> mac_table \<Rightarrow> table_op \<Rightarrow> mac_table result" where
  "table_step par t (SetUnicast i a v) = setUnicast t i a v"
| "table_step par t (RemoveUnicast i a v) = removeUnicast t i a v"
| "table_step par t (LearnUnicast now i a v) = learnUnicast now t i a v"
| "table_step par t (AddMulticast i a v) = addMulticast t i a v"
| "table_step par t (RemoveMulticast i a v) = removeMulticast t i a v"
| "table_step par t (RemoveInterface i) = Inr (removeForwardingInterface t i)"
| "table_step par t (ReplaceInterface old new) = Inr (replaceForwardingInterface t old new)"
| "table_step par t ClearTable = Inr (clearTable t)"
| "table_step par t (SetAgingTime a) = Inr (setAgingTime par t a)"

definition wf_unicast :: "(table_key \<Rightarrow> address_entry option) \<Rightarrow> bool" where
  "wf_unicast f \<longleftrightarrow> (\<forall>k \<in> dom f. \<not> isMulticast (snd k))"

definition wf_multicast :: "(table_key \<Rightarrow> int list option) \<Rightarrow> bool" where
  "wf_multicast g \<longleftrightarrow>
     (\<forall>k is. g k = Some is \<longrightarrow> isMulticast (snd k) \<and> is \<noteq> [] \<and> distinct is)"

definition wf_table :: "mac_table \<Rightarrow> bool" where
  "wf_table t \<longleftrightarrow> wf_unicast (forwardingTable t) \<and> wf_multicast (multicastForwardingTable t)"

lemma wf_unicast_update: "wf_unicast f \<Longrightarrow> \<not> isMulticast a \<Longrightarrow> wf_unicast (f((v, a) \<mapsto> e))"
  by (auto simp: wf_unicast_def)

lemma wf_unicast_subset: "wf_unicast f \<Longrightarrow> dom g \<subseteq> dom f \<Longrightarrow> wf_unicast g"
  unfolding wf_unicast_def by blast

lemma wf_multicast_update:
  "wf_multicast g \<Longrightarrow> isMulticast a \<Longrightarrow> is \<noteq> [] \<Longrightarrow> distinct is \<Longrightarrow> wf_multicast (g((v, a) \<mapsto> is))"
  by (auto simp: wf_multicast_def)

lemma wf_purge: "wf_table t \<Longrightarrow> wf_table (removeAgedEntriesIfNeeded now t)"
  unfolding wf_table_def multicast_purge using purge_sub by (blast intro: wf_unicast_subset)

lemma wf_setUnicast: "wf_table t \<Longrightarrow> setUnicast t i a v = Inr t' \<Longrightarrow> wf_table t'"
  by (auto simp: setUnicast_def wf_table_def wf_unicast_update split: if_splits option.splits)

lemma wf_removeUnicast: "wf_table t \<Longrightarrow> removeUnicast t i a v = Inr t' \<Longrightarrow> wf_table t'"
  by (auto simp: removeUnicast_def wf_table_def split: if_splits option.splits elim!: wf_unicast_subset)

lemma wf_learnUnicast: "wf_table t \<Longrightarrow> learnUnicast now t i a v = Inr t' \<Longrightarrow> wf_table t'"
  using wf_purge [of t now]
  by (auto simp: learnUnicast_def Let_def wf_table_def wf_unicast_update split: if_splits option.splits)

lemma wf_addMulticast: "wf_table t \<Longrightarrow> addMulticast t i a v = Inr t' \<Longrightarrow> wf_table t'"
  by (auto simp: addMulticast_def wf_table_def wf_multicast_update split: if_splits option.splits
      intro!: wf_multicast_update) (auto simp: wf_multicast_def)

lemma wf_removeMulticast: "wf_table t \<Longrightarrow> removeMulticast t i a v = Inr t' \<Longrightarrow> wf_table t'"
  by (auto simp: removeMulticast_def wf_table_def fun_upd_idem split: if_splits option.splits)

lemma wf_interfaces:
  "wf_table t \<Longrightarrow> wf_table (removeForwardingInterface t i)"
  "wf_table t \<Longrightarrow> wf_table (replaceForwardingInterface t old new)"
  by (auto simp: wf_table_def removeForwardingInterface_def replaceForwardingInterface_def
      elim!: wf_unicast_subset split: option.splits if_splits)

lemma wf_clear: "wf_table (clearTable t)"
  by (simp add: clearTable_def wf_table_def wf_unicast_def wf_multicast_def)

lemma wf_setAgingTime: "wf_table t \<Longrightarrow> wf_table (setAgingTime par t a)"
  by (simp add: setAgingTime_def wf_table_def)

lemma wf_table_step: "wf_table t \<Longrightarrow> table_step par t op = Inr t' \<Longrightarrow> wf_table t'"
  by (cases op)
    (auto simp: wf_interfaces wf_clear wf_setAgingTime intro: wf_setUnicast wf_removeUnicast wf_learnUnicast
      wf_addMulticast wf_removeMulticast)

text \<open>
  Well-formedness of the table: after any sequence of its operations from the cleared
  table, unicast entries have unicast keys, and every multicast group has a multicast key and
  a non-empty list of interfaces without duplicates, so a packet is never sent twice to a port.
\<close>

theorem table_invariant:
  "foldM (table_step par) (clearTable t) ops = Inr t' \<Longrightarrow> wf_table t'"
proof (rule foldM_invariant [where P = wf_table])
  show "wf_table (clearTable t)" by (rule wf_clear)
qed (rule wf_table_step)

section \<open>Concrete instances\<close>

definition demo_table :: mac_table where
  "demo_table = \<lparr>agingTime = simtime_s 120, lastPurge = 0,
     forwardingTable = Map.empty, multicastForwardingTable = Map.empty\<rparr>"

lemma demo_table_facts:
  "ages demo_table" "\<not> configured demo_table a v" "forwardingTable demo_table k = None"
  "agingTime demo_table = simtime_s 120" "lastPurge demo_table = 0"
  by (simp_all add: demo_table_def ages_def configured_def simtime_s_def)

lemma demo_addresses:
  "\<not> isMulticast 0x0AAA00000001" "\<not> isMulticast 0x0AAA00000002" "isMulticast 0x010000000001"
  "(0x0AAA00000001 :: mac) \<noteq> 0x0AAA00000002"
  by code_simp+

lemma demo_learn:
  obtains t1 t2 where "learnUnicast 0 demo_table 5 0x0AAA00000001 0 = Inr t1"
    and "observe_timed t1 [(simtime_ms 500, 6, 0x0AAA00000002, 0)] = Inr t2"
proof -
  obtain t1 where 1: "learnUnicast 0 demo_table 5 0x0AAA00000001 0 = Inr t1"
    using learnUnicast_total demo_addresses(1) by blast
  obtain t2 where "learnUnicast (simtime_ms 500) t1 6 0x0AAA00000002 0 = Inr t2"
    using learnUnicast_total demo_addresses(2) by blast
  then have "observe_timed t1 [(simtime_ms 500, 6, 0x0AAA00000002, 0)] = Inr t2"
    by (simp add: observe_timed_def)
  with 1 show ?thesis by (rule that)
qed

theorem learned_station_ages_witness:
  "\<exists>t1 t2. learnUnicast 0 demo_table 5 0x0AAA00000001 0 = Inr t1 \<and>
     observe_timed t1 [(simtime_ms 500, 6, 0x0AAA00000002, 0)] = Inr t2 \<and>
     getUnicast (simtime_s 60) t2 0x0AAA00000001 0 = Inr 5 \<and>
     getUnicast (simtime_s 120) t2 0x0AAA00000001 0 = Inr (-1)"
proof -
  obtain t1 t2 where run: "learnUnicast 0 demo_table 5 0x0AAA00000001 0 = Inr t1"
    "observe_timed t1 [(simtime_ms 500, 6, 0x0AAA00000002, 0)] = Inr t2" by (rule demo_learn)
  note at = learned_station_ages [OF demo_table_facts(1,2) run]
  have "getUnicast (simtime_s 60) t2 0x0AAA00000001 0 = Inr 5"
    "getUnicast (simtime_s 120) t2 0x0AAA00000001 0 = Inr (-1)"
    using at [of "simtime_s 60"] at [of "simtime_s 120"] demo_addresses(4)
    by (simp_all add: demo_table_facts simtime_units)
  with run show ?thesis by blast
qed

theorem station_found_where_last_seen_witness:
  "\<exists>t'. foldM (\<lambda>t (i, a, v). learnUnicast 0 t i a v) demo_table
        ([(5, 0x0AAA00000001, 0)] @ (6, 0x0AAA00000001, 0) # [(5, 0x0AAA00000002, 0)]) = Inr t' \<and>
     getUnicast 0 t' 0x0AAA00000001 0 = Inr 6"
proof -
  have "is_ok (foldM (\<lambda>t (i, a, v). learnUnicast 0 t i a v) demo_table
        ([(5, 0x0AAA00000001, 0)] @ (6, 0x0AAA00000001, 0) # [(5, 0x0AAA00000002, 0)]))"
    by code_simp
  then obtain t' where t': "foldM (\<lambda>t (i, a, v). learnUnicast 0 t i a v) demo_table
        ([(5, 0x0AAA00000001, 0)] @ (6, 0x0AAA00000001, 0) # [(5, 0x0AAA00000002, 0)]) = Inr t'"
    using is_ok_ex by blast
  moreover have "getUnicast 0 t' 0x0AAA00000001 0 = Inr 6"
    by (rule station_found_where_last_seen [OF demo_table_facts(1) _ demo_table_facts(2) t'])
      (use demo_addresses(4) in \<open>simp_all add: simtime_max_def\<close>)
  ultimately show ?thesis by blast
qed

lemma setUnicast_total: "\<not> isMulticast a \<Longrightarrow> \<exists>t'. setUnicast t i a v = Inr t'"
  by (simp add: setUnicast_def)

theorem static_entry_expires_witness:
  "\<exists>t1 t2. setUnicast demo_table 5 0x0AAA00000001 0 = Inr t1 \<and>
     setUnicast t1 5 0x0AAA00000001 0 = Inr t2 \<and>
     getUnicast (simtime_s 118) t1 0x0AAA00000001 0 = Inr 5 \<and>
     getUnicast (simtime_s 119) t1 0x0AAA00000001 0 = Inr (-1) \<and>
     getUnicast (simtime_s 119) t2 0x0AAA00000001 0 = Inr 5"
proof -
  obtain t1 where 1: "setUnicast demo_table 5 0x0AAA00000001 0 = Inr t1"
    using setUnicast_total demo_addresses(1) by blast
  obtain t2 where 2: "setUnicast t1 5 0x0AAA00000001 0 = Inr t2"
    using setUnicast_total demo_addresses(1) by blast
  note at = static_entry_expires [OF demo_table_facts(3) 1 2]
  show ?thesis
    using at [of "simtime_s 118"] at [of "simtime_s 119"] 1 2
    by (simp add: demo_table_facts simtime_units simtime_max_def)
qed

theorem static_entry_overwritten_witness:
  "\<exists>t1 t2. setUnicast demo_table 5 0x0AAA00000001 0 = Inr t1 \<and>
     learnUnicast 0 t1 6 0x0AAA00000001 0 = Inr t2 \<and> getUnicast 0 t2 0x0AAA00000001 0 = Inr 6"
proof -
  obtain t1 where 1: "setUnicast demo_table 5 0x0AAA00000001 0 = Inr t1"
    using setUnicast_total demo_addresses(1) by blast
  obtain t2 where 2: "learnUnicast 0 t1 6 0x0AAA00000001 0 = Inr t2"
    using learnUnicast_total demo_addresses(1) by blast
  show ?thesis
    using static_entry_overwritten [OF demo_table_facts(3) 1 demo_table_facts(1) _ 2] 1 2
    by (simp add: simtime_max_def)
qed

abbreviation demo_rules :: "table_rule list" where
  "demo_rules \<equiv> [\<lparr>ruleVlan = None, ruleAddress = ''0A-AA-00-00-00-01'', ruleInterface = ''eth0''\<rparr>,
                  \<lparr>ruleVlan = Some 3, ruleAddress = ''0A-AA-00-00-00-01'', ruleInterface = ''eth1''\<rparr>]"

definition demo_by_name :: "string \<Rightarrow> int option" where
  "demo_by_name = [''eth0'' \<mapsto> 100, ''eth1'' \<mapsto> 101]"

theorem parseForwardingTableParameter_entries_witness:
  "\<exists>t'. handleTableParameterChange tryParse demo_by_name demo_table ''forwardingTable'' demo_rules = Inr t' \<and>
     forwardingTable t' (3, 0x0AAA00000001) = Some (address_entry 101 (simtime_s (-1)))"
proof -
  have "is_ok (handleTableParameterChange tryParse demo_by_name demo_table ''forwardingTable'' demo_rules)"
    by code_simp
  then obtain t' where t':
    "handleTableParameterChange tryParse demo_by_name demo_table ''forwardingTable'' demo_rules = Inr t'"
    using is_ok_ex by blast
  have "tryParse ''0A-AA-00-00-00-01'' = Some 0x0AAA00000001" by code_simp
  with parseForwardingTableParameter_entries [OF t', of "demo_rules ! 1" "0x0AAA00000001" 101]
    demo_addresses(1)
  have "forwardingTable t' (3, 0x0AAA00000001) = Some (address_entry 101 (simtime_s (-1)))"
    by (simp add: demo_by_name_def)
  with t' show ?thesis by blast
qed

theorem purge_starved_by_traffic_witness:
  "\<exists>t'. observe_timed demo_table [(simtime_ms 500, 5, 0x0AAA00000001, 0),
          (simtime_ms 1000, 5, 0x0AAA00000001, 0)] = Inr t' \<and>
     dom (forwardingTable demo_table) \<subseteq> dom (forwardingTable t')"
proof -
  have "is_ok (observe_timed demo_table [(simtime_ms 500, 5, 0x0AAA00000001, 0),
          (simtime_ms 1000, 5, 0x0AAA00000001, 0)])" by code_simp
  then obtain t' where t': "observe_timed demo_table [(simtime_ms 500, 5, 0x0AAA00000001, 0),
          (simtime_ms 1000, 5, 0x0AAA00000001, 0)] = Inr t'" using is_ok_ex by blast
  with purge_starved_by_traffic [OF t'] show ?thesis
    by (simp add: demo_table_facts simtime_units)
qed

theorem removeMulticast_never_removes_witness:
  "removeMulticast (demo_table\<lparr>multicastForwardingTable := [(0, 0x010000000001) \<mapsto> [7, 8]]\<rparr>)
      7 0x010000000001 0 = Inl (RuntimeError ''Cannot find interface'')"
  using removeMulticast_never_removes
    [of "demo_table\<lparr>multicastForwardingTable := [(0, 0x010000000001) \<mapsto> [7, 8]]\<rparr>" 0 "0x010000000001" "[7, 8]" 7]
    demo_addresses(3) by simp

theorem table_invariant_witness:
  "\<exists>t'. foldM (table_step 0) (clearTable demo_table)
        [AddMulticast 7 0x010000000001 0, SetUnicast 5 0x0AAA00000001 0, AddMulticast 8 0x010000000001 0] = Inr t'
     \<and> wf_table t'"
proof -
  have "is_ok (foldM (table_step 0) (clearTable demo_table)
        [AddMulticast 7 0x010000000001 0, SetUnicast 5 0x0AAA00000001 0, AddMulticast 8 0x010000000001 0])"
    by code_simp
  then show ?thesis using is_ok_ex table_invariant by blast
qed

end
