(* ===== verification/MacRelay.thy ===== *)
theory MacRelay
  imports MacTable
begin

text \<open>
  The forwarding plane of a bridge: \<open>MacRelayUnit\<close> and \<open>MacRelayUnitBase\<close>
  (\<open>inet/linklayer/ethernet/common/MacRelayUnit.cc\<close>, \<open>inet/linklayer/base\<close>) in the
  monolithic bridge, \<open>RelayInterfaceLearner\<close> and \<open>RelayInterfaceSelector\<close> in the modular
  one. A handler returns the new table and counters and the list of things it does with the
  packets it owns, in order: packets are named by \<open>packet_ref\<close>, so that it can be counted
  how often each one is released (sent away or deleted).
\<close>

section \<open>Packets and interfaces\<close>

record relay_packet =
  protocolTag :: "nat option"
  macAddressInd :: "(mac \<times> mac) option"     \<comment> \<open>source, destination\<close>
  macAddressReq :: "(mac \<times> mac) option"
  interfaceInd :: "int option"
  interfaceReq :: "int option"
  vlanInd :: "vid option"
  vlanReq :: "vid option"
  userPriorityInd :: "nat option"
  userPriorityReq :: "nat option"
  outbound :: bool                            \<comment> \<open>\<open>DirectionTag\<close> is set to outbound\<close>
  dispatchProtocolReq :: "nat option"
  popped :: "8 word list"                     \<comment> \<open>bytes before the front offset\<close>
  content :: "8 word list"

record network_interface =
  interfaceId :: int
  loopback :: bool
  broadcastCapable :: bool
  interfaceProtocol :: "nat option"

datatype packet_ref = Incoming | Outgoing

datatype relay_action =
    Send packet_ref bool relay_packet   \<comment> \<open>a \<open>dup()\<close> of the packet if the flag is set, else the packet itself\<close>
  | Delete packet_ref
  | EmitDropped packet_ref

record relay_state =
  macTable :: mac_table
  numProcessedFrames :: nat
  numDroppedFrames :: nat

definition trim :: "relay_packet \<Rightarrow> relay_packet" where
  "trim p = p\<lparr>popped := []\<rparr>"

definition clearTags :: "relay_packet \<Rightarrow> relay_packet" where
  "clearTags p =
     \<lparr>protocolTag = None, macAddressInd = None, macAddressReq = None, interfaceInd = None,
      interfaceReq = None, vlanInd = None, vlanReq = None, userPriorityInd = None,
      userPriorityReq = None, outbound = False, dispatchProtocolReq = None,
      popped = popped p, content = content p\<rparr>"

text \<open>\<open>getTag\<close> throws when the tag is absent.\<close>

definition getTag :: "'a option \<Rightarrow> 'a result" where
  "getTag x = (case x of None \<Rightarrow> Inl (RuntimeError ''Tag is absent'') | Some v \<Rightarrow> Inr v)"

text \<open>\<open>InterfaceTable::getInterfaceById\<close> throws for an unknown id.\<close>

definition getInterfaceById :: "network_interface list \<Rightarrow> int \<Rightarrow> network_interface result" where
  "getInterfaceById ifs i =
     (case find (\<lambda>n. interfaceId n = i) ifs of
        None \<Rightarrow> Inl (RuntimeError ''getInterfaceById(): no interface with this ID'')
      | Some n \<Rightarrow> Inr n)"

definition isForwardingInterface :: "network_interface \<Rightarrow> bool" where
  "isForwardingInterface n \<longleftrightarrow> \<not> loopback n \<and> broadcastCapable n"

section \<open>Sending\<close>

definition sendPacket :: "relay_packet \<Rightarrow> network_interface \<Rightarrow> relay_packet" where
  "sendPacket p n = p\<lparr>outbound := True, interfaceReq := Some (interfaceId n),
                      dispatchProtocolReq := interfaceProtocol n\<rparr>"

definition broadcastPacket ::
  "network_interface list \<Rightarrow> packet_ref \<Rightarrow> relay_packet \<Rightarrow> network_interface option \<Rightarrow> relay_action list" where
  "broadcastPacket ifs r p inc =
     map (\<lambda>n. Send r True (sendPacket p n))
       (filter (\<lambda>n. inc \<noteq> Some n \<and> isForwardingInterface n) ifs) @ [Delete r]"

definition updatePeerAddress ::
  "simtime \<Rightarrow> mac_table \<Rightarrow> network_interface \<Rightarrow> mac \<Rightarrow> vid \<Rightarrow> mac_table result" where
  "updatePeerAddress now t inc src v =
     (if \<not> isMulticast src then learnUnicast now t (interfaceId inc) src v else Inr t)"

text \<open>The loop over the interfaces of a multicast group.\<close>

definition multicastCopies ::
  "network_interface list \<Rightarrow> packet_ref \<Rightarrow> relay_packet \<Rightarrow> int option \<Rightarrow> int list \<Rightarrow> relay_action list result" where
  "multicastCopies ifs r p ind ids =
     foldM (\<lambda>acts i.
       if ind = Some i then Inr acts
       else rbind (getInterfaceById ifs i) (\<lambda>n. Inr (acts @ [Send r True (sendPacket p n)])))
     [] ids"

section \<open>MacRelayUnit\<close>

definition outgoingOf :: "relay_packet \<Rightarrow> nat \<Rightarrow> mac \<times> mac \<Rightarrow> relay_packet" where
  "outgoingOf p proto sd =
     (clearTags (trim p))\<lparr>protocolTag := Some proto, vlanReq := vlanInd p,
        userPriorityReq := userPriorityInd p, macAddressReq := Some sd\<rparr>"

definition handleLowerPacket ::
  "simtime \<Rightarrow> network_interface list \<Rightarrow> relay_state \<Rightarrow> relay_packet
     \<Rightarrow> (relay_state \<times> relay_action list) result" where
  "handleLowerPacket now ifs s p =
     rbind (getTag (protocolTag p)) (\<lambda>proto.
     rbind (getTag (macAddressInd p)) (\<lambda>(src, dst).
     rbind (getTag (interfaceInd p)) (\<lambda>inId.
     rbind (getInterfaceById ifs inId) (\<lambda>inc.
       let vlan = (case vlanInd p of None \<Rightarrow> 0 | Some v \<Rightarrow> v);
           out = outgoingOf p proto (src, dst);
           finish = (\<lambda>t drops acts.
             Inr (\<lparr>macTable = t, numProcessedFrames = numProcessedFrames s + 1,
                   numDroppedFrames = numDroppedFrames s + drops\<rparr>, acts @ [Delete Incoming]))
       in
       rbind (updatePeerAddress now (macTable s) inc src vlan) (\<lambda>t.
         if isBroadcast dst then finish t 0 (broadcastPacket ifs Outgoing out (Some inc))
         else if isMulticast dst then
           rbind (getMulticast t dst vlan) (\<lambda>ids.
             if ids = [] then finish t 0 (broadcastPacket ifs Incoming p (Some inc))
             else rbind (multicastCopies ifs Incoming p (Some inId) ids) (\<lambda>acts.
                    finish t 0 (acts @ [Delete Incoming])))
         else
           rbind (getUnicast now t dst 0) (\<lambda>outId.
             if inId = outId then finish t 1 [EmitDropped Outgoing, Delete Outgoing]
             else if outId \<noteq> -1 then
               rbind (getInterfaceById ifs outId) (\<lambda>n.
                 finish t 0 [Send Outgoing False (sendPacket out n)])
             else finish t 0 (broadcastPacket ifs Outgoing out (Some inc))))))))"

section \<open>The modular relay\<close>

text \<open>\<open>RelayInterfaceLearner::processPacket\<close>\<close>

definition learnerProcessPacket ::
  "simtime \<Rightarrow> network_interface list \<Rightarrow> mac_table \<Rightarrow> relay_packet \<Rightarrow> mac_table result" where
  "learnerProcessPacket now ifs t p =
     (let v = (case vlanInd p of None \<Rightarrow> 0 | Some v \<Rightarrow> v) in
      rbind (getTag (interfaceInd p)) (\<lambda>i.
      rbind (getInterfaceById ifs i) (\<lambda>inc.
      rbind (getTag (macAddressInd p)) (\<lambda>(src, dst).
        if \<not> isMulticast src then learnUnicast now t (interfaceId inc) src v else Inr t))))"

text \<open>\<open>RelayInterfaceSelector::pushPacket\<close>; its only packet is \<open>Incoming\<close>.\<close>

definition selectorPushPacket ::
  "simtime \<Rightarrow> network_interface list \<Rightarrow> relay_state \<Rightarrow> relay_packet
     \<Rightarrow> (relay_state \<times> relay_action list) result" where
  "selectorPushPacket now ifs s p =
     rbind (getTag (macAddressReq p)) (\<lambda>(src, dst).
       let finish = (\<lambda>drops acts. Inr (s\<lparr>numProcessedFrames := numProcessedFrames s + 1,
                       numDroppedFrames := numDroppedFrames s + drops\<rparr>, acts))
       in
       case interfaceReq p of
         Some i \<Rightarrow>
           rbind (getInterfaceById ifs i) (\<lambda>n. finish 0 [Send Incoming False (sendPacket p n)])
       | None \<Rightarrow>
           rbind (case interfaceInd p of
                    None \<Rightarrow> Inr None
                  | Some i \<Rightarrow> rbind (getInterfaceById ifs i) (\<lambda>n. Inr (Some n))) (\<lambda>inc.
            let vlan = (case vlanReq p of None \<Rightarrow> 0 | Some v \<Rightarrow> v) in
            if isBroadcast dst then finish 0 (broadcastPacket ifs Incoming p inc)
            else if isMulticast dst then
              rbind (getMulticast (macTable s) dst vlan) (\<lambda>ids.
                if ids = [] then finish 0 (broadcastPacket ifs Incoming p inc)
                else rbind (multicastCopies ifs Incoming p (interfaceInd p) ids) (\<lambda>acts.
                       finish 0 (acts @ [Delete Incoming])))
            else
              rbind (getUnicast now (macTable s) dst vlan) (\<lambda>outId.
                if interfaceInd p = Some outId then finish 1 [EmitDropped Incoming, Delete Incoming]
                else if outId \<noteq> -1 then
                  rbind (getInterfaceById ifs outId) (\<lambda>n.
                    finish 0 [Send Incoming False (sendPacket p n)])
                else finish 0 (broadcastPacket ifs Incoming p inc))))"

section \<open>Lemmas\<close>

lemma getTag_simps [simp]: "getTag None = Inl (RuntimeError ''Tag is absent'')" "getTag (Some v) = Inr v"
  by (simp_all add: getTag_def)

lemma getTag_Inr_iff [result_laws]: "getTag x = Inr y \<longleftrightarrow> x = Some y"
  by (cases x) simp_all

lemma getInterfaceById_id: "getInterfaceById ifs i = Inr n \<Longrightarrow> interfaceId n = i \<and> n \<in> set ifs"
  unfolding getInterfaceById_def by (auto split: option.splits dest: find_Some_in)

lemma getInterfaceById_unique:
  assumes "distinct (map interfaceId ifs)" "n \<in> set ifs"
  shows "getInterfaceById ifs (interfaceId n) = Inr n"
  using assms by (induction ifs) (auto simp: getInterfaceById_def)

lemma interfaceReq_sendPacket [simp]: "interfaceReq (sendPacket p n) = Some (interfaceId n)"
  by (simp add: sendPacket_def)

text \<open>The interfaces an action list sends to, in order.\<close>

fun targets :: "relay_action list \<Rightarrow> int list" where
  "targets [] = []"
| "targets (Send r d p # as) = (case interfaceReq p of None \<Rightarrow> targets as | Some i \<Rightarrow> i # targets as)"
| "targets (Delete r # as) = targets as"
| "targets (EmitDropped r # as) = targets as"

text \<open>How often a packet is given away: deleted, or sent without being duplicated.\<close>

fun releases :: "packet_ref \<Rightarrow> relay_action list \<Rightarrow> nat" where
  "releases q [] = 0"
| "releases q (Send r d p # as) = (if r = q \<and> \<not> d then 1 else 0) + releases q as"
| "releases q (Delete r # as) = (if r = q then 1 else 0) + releases q as"
| "releases q (EmitDropped r # as) = releases q as"

lemma targets_append [simp]: "targets (as @ bs) = targets as @ targets bs"
  by (induction as rule: targets.induct) (auto split: option.splits)

lemma releases_append [simp]: "releases q (as @ bs) = releases q as + releases q bs"
  by (induction q as rule: releases.induct) auto

lemma targets_sends [simp]: "targets (map (\<lambda>n. Send r d (sendPacket p n)) ns) = map interfaceId ns"
  by (induction ns) simp_all

lemma releases_dups [simp]: "releases q (map (\<lambda>n. Send r True (f n)) ns) = 0"
  by (induction ns) simp_all

lemma targets_broadcast:
  "targets (broadcastPacket ifs r p inc) =
     map interfaceId (filter (\<lambda>n. inc \<noteq> Some n \<and> isForwardingInterface n) ifs)"
  by (simp add: broadcastPacket_def)

lemma releases_broadcast [simp]:
  "releases q (broadcastPacket ifs r p inc) = (if r = q then 1 else 0)"
  by (simp add: broadcastPacket_def)

lemma multicastCopies_shape:
  assumes "multicastCopies ifs r p ind ids = Inr acts"
  shows "(\<forall>q. releases q acts = 0) \<and> (\<forall>i \<in> set (targets acts). i \<in> set ids \<and> ind \<noteq> Some i)"
  using assms unfolding multicastCopies_def
proof (rule foldM_invariant [rotated 2])
  fix s i s'
  assume "(\<forall>q. releases q s = 0) \<and> (\<forall>i\<in>set (targets s). i \<in> set ids \<and> ind \<noteq> Some i)" "i \<in> set ids"
    and "(if ind = Some i then Inr s
          else rbind (getInterfaceById ifs i) (\<lambda>n. Inr (s @ [Send r True (sendPacket p n)]))) = Inr s'"
  then show "(\<forall>q. releases q s' = 0) \<and> (\<forall>i\<in>set (targets s'). i \<in> set ids \<and> ind \<noteq> Some i)"
    using getInterfaceById_id by (fastforce simp: rbind_Inr_iff split: if_splits)
qed simp_all

text \<open>A broadcast never reaches the interface the packet came from.\<close>

lemma broadcast_no_echo:
  assumes "distinct (map interfaceId ifs)" "getInterfaceById ifs i = Inr n"
  shows "i \<notin> set (targets (broadcastPacket ifs r p (Some n)))"
proof
  assume "i \<in> set (targets (broadcastPacket ifs r p (Some n)))"
  then obtain m where "m \<in> set ifs" "m \<noteq> n" "interfaceId m = i"
    by (auto simp: targets_broadcast)
  with getInterfaceById_unique [OF assms(1), of m] assms(2) show False by simp
qed

section \<open>Properties of the relays\<close>

lemmas relay_simps = rbind_Inr_iff getTag_Inr_iff Let_def

text \<open>
  C27. A packet is never sent back to the interface it came from: whatever its destination
  (broadcast, a multicast group, a known or an unknown station), none of the copies
  \<open>MacRelayUnit::handleLowerPacket\<close> sends is requested for the incoming interface.
\<close>

theorem relay_no_echo:
  assumes "distinct (map interfaceId ifs)" "interfaceInd p = Some i"
    and "handleLowerPacket now ifs s p = Inr (s', acts)"
  shows "i \<notin> set (targets acts)"
proof -
  note echo = broadcast_no_echo [OF assms(1)]
  have out: "interfaceId n = k" if "getInterfaceById ifs k = Inr n" for k n
    using getInterfaceById_id [OF that] by simp
  have copies: "i \<notin> set (targets as)" if "multicastCopies ifs r p (Some i) ids = Inr as" for r ids as
    using multicastCopies_shape [OF that] by auto
  show ?thesis
    using assms(3)
    unfolding handleLowerPacket_def assms(2)
    by (auto simp: relay_simps echo out copies split: if_splits)
qed

text \<open>
  Ownership on the broadcast and unicast paths: the incoming packet and the copy made for
  sending are each given away exactly once, by a deletion or by a send.
\<close>

theorem relay_releases_once:
  assumes "handleLowerPacket now ifs s p = Inr (s', acts)" "macAddressInd p = Some (src, dst)"
    and "isBroadcast dst \<or> \<not> isMulticast dst"
  shows "releases Incoming acts = 1 \<and> releases Outgoing acts = 1"
  using assms
  unfolding handleLowerPacket_def
  by (auto simp: relay_simps split: if_splits)

text \<open>
  On the multicast path the ownership discipline fails for every packet that is handled:
  the incoming packet is deleted twice and the outgoing copy is never released.
\<close>

theorem relay_multicast_double_delete:
  assumes "handleLowerPacket now ifs s p = Inr (s', acts)" "macAddressInd p = Some (src, dst)"
    and "isMulticast dst" "\<not> isBroadcast dst"
  shows "releases Incoming acts = 2 \<and> releases Outgoing acts = 0"
  using assms
  unfolding handleLowerPacket_def
  by (auto simp: relay_simps split: if_splits dest!: multicastCopies_shape)

text \<open>The unicast path of the handler, once the table has learned the sender.\<close>

lemma handleLowerPacket_unicast:
  assumes "protocolTag p = Some proto" "macAddressInd p = Some (b, a)" "interfaceInd p = Some j"
    and "getInterfaceById ifs j = Inr inc" "\<not> isBroadcast a" "\<not> isMulticast a"
    and "updatePeerAddress now (macTable s) inc b (case vlanInd p of None \<Rightarrow> 0 | Some v \<Rightarrow> v) = Inr t"
    and "getUnicast now t a 0 = Inr outId"
  shows "handleLowerPacket now ifs s p =
    (let out = outgoingOf p proto (b, a);
         finish = (\<lambda>drops acts. Inr (\<lparr>macTable = t, numProcessedFrames = numProcessedFrames s + 1,
                   numDroppedFrames = numDroppedFrames s + drops\<rparr>, acts @ [Delete Incoming])) in
     if j = outId then finish 1 [EmitDropped Outgoing, Delete Outgoing]
     else if outId \<noteq> -1 then
       rbind (getInterfaceById ifs outId) (\<lambda>n. finish 0 [Send Outgoing False (sendPacket out n)])
     else finish 0 (broadcastPacket ifs Outgoing out (Some inc)))"
  using assms by (simp add: handleLowerPacket_def Let_def)

lemma handleLowerPacket_learns:
  assumes "handleLowerPacket now ifs s p = Inr (s', acts)" "macAddressInd p = Some (a, d)"
    "interfaceInd p = Some i" "\<not> isMulticast a"
  shows "learnUnicast now (macTable s) i a (case vlanInd p of None \<Rightarrow> 0 | Some v \<Rightarrow> v) = Inr (macTable s')"
proof -
  have out: "interfaceId n = k" if "getInterfaceById ifs k = Inr n" for k n
    using getInterfaceById_id [OF that] by simp
  show ?thesis
    using assms unfolding handleLowerPacket_def updatePeerAddress_def
    by (auto simp: relay_simps out split: if_splits)
qed

lemma updatePeerAddress_total: "\<exists>t'. updatePeerAddress now t inc b v = Inr t'"
  using learnUnicast_total by (simp add: updatePeerAddress_def)

lemma updatePeerAddress_other:
  assumes "updatePeerAddress now t inc b v = Inr t'" "(v, b) \<noteq> (w, a)"
  shows "getUnicast now t' a w = getUnicast now t a w"
proof (cases "isMulticast b")
  case True
  then show ?thesis using assms(1) by (simp add: updatePeerAddress_def)
next
  case False
  then have "learnUnicast now t (interfaceId inc) b v = Inr t'"
    using assms(1) by (simp add: updatePeerAddress_def)
  then show ?thesis using mt.lookup_other assms(2) by metis
qed

lemma learnUnicast_none:
  "learnUnicast now t i a v = Inr t' \<Longrightarrow> k \<noteq> (v, a) \<Longrightarrow> forwardingTable t k = None
     \<Longrightarrow> forwardingTable t' k = None"
  by (auto simp: learnUnicast_def Let_def removeAgedEntriesIfNeeded_def
      removeAgedEntriesFromAllVlans_def split: if_splits option.splits)

lemma multicastCopies_same:
  assumes "multicastCopies ifs r p ind ids = Inr acts"
  shows "\<exists>acts'. multicastCopies ifs r' q ind ids = Inr acts' \<and> targets acts' = targets acts"
  using assms unfolding multicastCopies_def
  by (rule foldM_simulation [where R = "\<lambda>a b. targets b = targets a", rotated 2])
    (auto simp: rbind_Inr_iff split: if_splits)

lemma broadcast_multicast: "isBroadcast a \<Longrightarrow> isMulticast a"
proof -
  have "isMulticast MAC_ADDRESS_MASK"
    by (simp add: isMulticast_def get_byte_def byte_offset_def MAC_ADDRESS_SIZE_def MAC_ADDRESS_MASK_def)
  then show "isBroadcast a \<Longrightarrow> isMulticast a" by (simp add: isBroadcast_def)
qed

text \<open>
  C9. Learning and forwarding together: after a station with an individual address \<open>a\<close> that is not
  configured was heard untagged on interface \<open>i\<close>, a packet for \<open>a\<close> that arrives on another interface
  before the entry has aged is handled without error and goes to \<open>i\<close> only; nothing is dropped.
\<close>

theorem relay_forwards_to_learned_port:
  assumes "ages (macTable s)" "\<not> configured (macTable s) a 0"
    and first: "handleLowerPacket now1 ifs s p1 = Inr (s1, acts1)" "macAddressInd p1 = Some (a, d)"
      "interfaceInd p1 = Some i" "vlanInd p1 = None" "\<not> isMulticast a" "i \<noteq> -1"
    and "now2 < now1 + agingTime (macTable s)"
    and second: "protocolTag p2 = Some proto" "macAddressInd p2 = Some (b, a)" "b \<noteq> a"
      "interfaceInd p2 = Some j" "j \<noteq> i" "getInterfaceById ifs j = Inr inc"
  shows "\<exists>s2 acts2. handleLowerPacket now2 ifs s1 p2 = Inr (s2, acts2) \<and> targets acts2 = [i]
           \<and> numDroppedFrames s2 = numDroppedFrames s1"
proof -
  let ?v = "case vlanInd p2 of None \<Rightarrow> 0 | Some v \<Rightarrow> v"
  have learned: "learnUnicast now1 (macTable s) i a 0 = Inr (macTable s1)"
    using handleLowerPacket_learns [OF first(1,2,3,5)] first(4) by simp
  obtain n where n: "getInterfaceById ifs i = Inr n"
    using first(1,3) unfolding handleLowerPacket_def by (auto simp: relay_simps)
  obtain t where t: "updatePeerAddress now2 (macTable s1) inc b ?v = Inr t"
    using updatePeerAddress_total by blast
  have "getUnicast now2 t a 0 = getUnicast now2 (macTable s1) a 0"
    using updatePeerAddress_other [OF t] second(3) by simp
  also have "\<dots> = Inr i" using lookup_later [OF assms(1,2) learned] assms(9) by simp
  finally have "getUnicast now2 t a 0 = Inr i" .
  moreover have "\<not> isBroadcast a" using broadcast_multicast first(5) by blast
  ultimately show ?thesis
    using handleLowerPacket_unicast [OF second(1,2,4,6) _ first(5) t] first(6) second(5) n
      getInterfaceById_id [OF n]
    by (simp add: Let_def)
qed

text \<open>
  VLANs: the relay learns a station under the packet's VLAN but looks unicast
  destinations up under VLAN 0. A station heard only in VLAN \<open>v\<close> is therefore never found:
  a packet for it in the same VLAN is flooded to every other forwarding interface.
\<close>

theorem relay_floods_tagged_unicast:
  assumes "ages (macTable s)" "forwardingTable (macTable s) (0, a) = None"
    and first: "handleLowerPacket now1 ifs s p1 = Inr (s1, acts1)" "macAddressInd p1 = Some (a, d)"
      "interfaceInd p1 = Some i" "vlanInd p1 = Some v" "v \<noteq> 0" "\<not> isMulticast a"
    and second: "protocolTag p2 = Some proto" "macAddressInd p2 = Some (b, a)"
      "interfaceInd p2 = Some j" "j \<noteq> -1" "getInterfaceById ifs j = Inr inc" "vlanInd p2 = Some v"
  shows "\<exists>s2 acts2. handleLowerPacket now2 ifs s1 p2 = Inr (s2, acts2) \<and>
           targets acts2 = map interfaceId (filter (\<lambda>n. inc \<noteq> n \<and> isForwardingInterface n) ifs)"
proof -
  have learned: "learnUnicast now1 (macTable s) i a v = Inr (macTable s1)"
    using handleLowerPacket_learns [OF first(1,2,3,6)] first(4) by simp
  have none: "forwardingTable (macTable s1) (0, a) = None"
    using learnUnicast_none [OF learned _ assms(2)] first(5) by simp
  obtain t where t: "updatePeerAddress now2 (macTable s1) inc b v = Inr t"
    using updatePeerAddress_total by blast
  have "getUnicast now2 t a 0 = getUnicast now2 (macTable s1) a 0"
    using updatePeerAddress_other [OF t] first(5) by simp
  also have "\<dots> = Inr (-1)" using first(6) none by (simp add: getUnicast_def)
  finally have miss: "getUnicast now2 t a 0 = Inr (-1)" .
  have "\<not> isBroadcast a" using broadcast_multicast first(6) by blast
  from handleLowerPacket_unicast [OF second(1,2,3,5) this first(6) _ miss] t second(6)
  show ?thesis using second(4) by (simp add: Let_def targets_broadcast)
qed

text \<open>
  Equivalence of the two relay architectures: for a packet without a VLAN tag, the chain
  \<open>RelayInterfaceLearner\<close>, \<open>RelayInterfaceSelector\<close> learns the same table, sends to the same
  interfaces in the same order and counts the same frames as \<open>MacRelayUnit\<close>.
\<close>

theorem modular_relay_equivalent:
  assumes "handleLowerPacket now ifs s p = Inr (s', acts)" "vlanInd p = None"
    and "macAddressReq q = macAddressInd p" "interfaceReq q = None"
      "interfaceInd q = interfaceInd p" "vlanReq q = None"
  shows "\<exists>t acts'. learnerProcessPacket now ifs (macTable s) p = Inr t \<and>
           selectorPushPacket now ifs (s\<lparr>macTable := t\<rparr>) q = Inr (s', acts') \<and>
           targets acts' = targets acts"
proof -
  obtain proto src dst i inc where
    p: "protocolTag p = Some proto" "macAddressInd p = Some (src, dst)" "interfaceInd p = Some i"
      "getInterfaceById ifs i = Inr inc"
    using assms(1) unfolding handleLowerPacket_def by (auto simp: relay_simps)
  obtain t where t: "updatePeerAddress now (macTable s) inc src 0 = Inr t"
    using updatePeerAddress_total by blast
  have learner: "learnerProcessPacket now ifs (macTable s) p = Inr t"
    using p t assms(2) by (simp add: learnerProcessPacket_def updatePeerAddress_def)
  have "\<exists>acts'. selectorPushPacket now ifs (s\<lparr>macTable := t\<rparr>) q = Inr (s', acts') \<and> targets acts' = targets acts"
  proof (cases "isMulticast dst \<and> \<not> isBroadcast dst")
    case True
    obtain ids where ids: "getMulticast t dst 0 = Inr ids" using True by (simp add: getMulticast_def)
    show ?thesis
    proof (cases "multicastCopies ifs Incoming p (Some i) ids")
      case (Inr as)
      obtain as' where "multicastCopies ifs Incoming q (Some i) ids = Inr as'" "targets as' = targets as"
        using multicastCopies_same [OF Inr] by blast
      then show ?thesis using True ids Inr assms p t
        by (auto simp: handleLowerPacket_def selectorPushPacket_def Let_def targets_broadcast)
    qed (use True ids assms p t in
        \<open>auto simp: handleLowerPacket_def selectorPushPacket_def Let_def targets_broadcast split: if_splits\<close>)
  next
    case False
    have q: "macAddressReq q = Some (src, dst)" "interfaceInd q = Some i"
      using assms(3,5) p by simp_all
    show ?thesis
    proof (cases "isBroadcast dst")
      case True
      then show ?thesis using assms(1,2,4,6) p q t
        by (simp add: handleLowerPacket_def selectorPushPacket_def Let_def targets_broadcast)
          (auto simp: targets_broadcast)
    next
      case unicast: False
      then have "\<not> isMulticast dst" using False by simp
      then obtain k where k: "getUnicast now t dst 0 = Inr k" by (simp add: getUnicast_def)
      show ?thesis
      proof (cases "getInterfaceById ifs k")
        case (Inl e)
        then show ?thesis using assms(1,2,4,6) p q t k unicast \<open>\<not> isMulticast dst\<close>
          by (auto simp: handleLowerPacket_def selectorPushPacket_def Let_def targets_broadcast split: if_splits)
      next
        case (Inr m)
        then show ?thesis using assms(1,2,4,6) p q t k unicast \<open>\<not> isMulticast dst\<close>
          by (auto simp: handleLowerPacket_def selectorPushPacket_def Let_def targets_broadcast split: if_splits)
      qed
    qed
  qed
  then show ?thesis using learner by blast
qed

section \<open>A three-port bridge, for the witnesses\<close>

definition demo_interfaces :: "network_interface list" where
  "demo_interfaces = map (\<lambda>i. \<lparr>interfaceId = i, loopback = (i = 99), broadcastCapable = True,
     interfaceProtocol = None\<rparr>) [99, 100, 101, 102]"

definition demo_relay :: relay_state where
  "demo_relay = \<lparr>macTable = \<lparr>agingTime = simtime_s 120, lastPurge = 0,
       forwardingTable = Map.empty,
       multicastForwardingTable = [(0, 0x010000000001) \<mapsto> [100, 101, 102]]\<rparr>,
     numProcessedFrames = 0, numDroppedFrames = 0\<rparr>"

definition demo_packet :: "mac \<Rightarrow> mac \<Rightarrow> int \<Rightarrow> vid option \<Rightarrow> relay_packet" where
  "demo_packet src dst i v =
     \<lparr>protocolTag = Some 1, macAddressInd = Some (src, dst), macAddressReq = None,
      interfaceInd = Some i, interfaceReq = None, vlanInd = v, vlanReq = None,
      userPriorityInd = None, userPriorityReq = None, outbound = False,
      dispatchProtocolReq = None, popped = [], content = []\<rparr>"

lemma demo_packet_fields [simp]:
  "protocolTag (demo_packet a b i v) = Some 1" "macAddressInd (demo_packet a b i v) = Some (a, b)"
  "interfaceInd (demo_packet a b i v) = Some i" "vlanInd (demo_packet a b i v) = v"
  by (simp_all add: demo_packet_def)

lemma demo_distinct: "distinct (map interfaceId demo_interfaces)"
  by code_simp

abbreviation demo_run :: "mac \<Rightarrow> mac \<Rightarrow> int \<Rightarrow> vid option \<Rightarrow> (relay_state \<times> relay_action list) result" where
  "demo_run a b i v \<equiv> handleLowerPacket 0 demo_interfaces demo_relay (demo_packet a b i v)"

lemma demo_runs:
  "is_ok (demo_run 0x0AAA00000001 0x0AAA00000002 100 None)"
  "is_ok (demo_run 0x0AAA00000001 0x010000000001 100 None)"
  "is_ok (demo_run 0x0AAA00000001 0x0AAA00000002 100 (Some 7))"
  by code_simp+

lemma demo_macs:
  "\<not> isMulticast 0x0AAA00000001" "\<not> isMulticast 0x0AAA00000002"
  "isMulticast 0x010000000001" "\<not> isBroadcast 0x010000000001"
  "(0x0AAA00000002 :: mac) \<noteq> 0x0AAA00000001"
  by code_simp+

lemma demo_table:
  "ages (macTable demo_relay)" "\<not> configured (macTable demo_relay) a v"
  "forwardingTable (macTable demo_relay) k = None" "agingTime (macTable demo_relay) = simtime_s 120"
  by (simp_all add: demo_relay_def ages_def configured_def simtime_s_def)

theorem relay_no_echo_witness:
  "\<exists>s acts. demo_run 0x0AAA00000001 0x010000000001 100 None = Inr (s, acts) \<and> 100 \<notin> set (targets acts)"
proof -
  obtain s acts where run: "demo_run 0x0AAA00000001 0x010000000001 100 None = Inr (s, acts)"
    using is_ok_pair [OF demo_runs(2)] by blast
  show ?thesis using run relay_no_echo [OF demo_distinct _ run] by simp
qed

theorem relay_releases_once_witness:
  "\<exists>s acts. demo_run 0x0AAA00000001 0x0AAA00000002 100 None = Inr (s, acts) \<and>
     releases Incoming acts = 1 \<and> releases Outgoing acts = 1"
proof -
  obtain s acts where run: "demo_run 0x0AAA00000001 0x0AAA00000002 100 None = Inr (s, acts)"
    using is_ok_pair [OF demo_runs(1)] by blast
  show ?thesis using run relay_releases_once [OF run] demo_macs(2) by simp
qed

theorem relay_multicast_double_delete_witness:
  "\<exists>s acts. demo_run 0x0AAA00000001 0x010000000001 100 None = Inr (s, acts) \<and>
     releases Incoming acts = 2 \<and> releases Outgoing acts = 0"
proof -
  obtain s acts where run: "demo_run 0x0AAA00000001 0x010000000001 100 None = Inr (s, acts)"
    using is_ok_pair [OF demo_runs(2)] by blast
  show ?thesis using run relay_multicast_double_delete [OF run] demo_macs(3,4) by simp
qed

theorem relay_forwards_to_learned_port_witness:
  "\<exists>s1 acts1. demo_run 0x0AAA00000001 0x0AAA00000002 100 None = Inr (s1, acts1) \<and>
     (\<exists>s2 acts2. handleLowerPacket (simtime_s 60) demo_interfaces s1
          (demo_packet 0x0AAA00000002 0x0AAA00000001 101 None) = Inr (s2, acts2) \<and>
        targets acts2 = [100] \<and> numDroppedFrames s2 = numDroppedFrames s1)"
proof -
  obtain s1 acts1 where run: "demo_run 0x0AAA00000001 0x0AAA00000002 100 None = Inr (s1, acts1)"
    using is_ok_pair [OF demo_runs(1)] by blast
  obtain inc where inc: "getInterfaceById demo_interfaces 101 = Inr inc"
    using getInterfaceById_unique [OF demo_distinct, of "demo_interfaces ! 2"]
    by (simp add: demo_interfaces_def)
  have "\<exists>s2 acts2. handleLowerPacket (simtime_s 60) demo_interfaces s1
          (demo_packet 0x0AAA00000002 0x0AAA00000001 101 None) = Inr (s2, acts2) \<and>
        targets acts2 = [100] \<and> numDroppedFrames s2 = numDroppedFrames s1"
    by (rule relay_forwards_to_learned_port [OF demo_table(1,2) run _ _ _ demo_macs(1) _ _ _ _ _ _ _ inc])
      (simp_all only: demo_table(4) simtime_s_def demo_macs demo_packet_fields, simp_all)
  then show ?thesis using run by blast
qed

theorem relay_floods_tagged_unicast_witness:
  "\<exists>s1 acts1. demo_run 0x0AAA00000001 0x0AAA00000002 100 (Some 7) = Inr (s1, acts1) \<and>
     (\<exists>s2 acts2. handleLowerPacket (simtime_s 60) demo_interfaces s1
          (demo_packet 0x0AAA00000002 0x0AAA00000001 101 (Some 7)) = Inr (s2, acts2) \<and>
        targets acts2 = [100, 102])"
proof -
  obtain s1 acts1 where run: "demo_run 0x0AAA00000001 0x0AAA00000002 100 (Some 7) = Inr (s1, acts1)"
    using is_ok_pair [OF demo_runs(3)] by blast
  let ?inc = "demo_interfaces ! 2"
  have inc: "getInterfaceById demo_interfaces 101 = Inr ?inc" by code_simp
  have "\<exists>s2 acts2. handleLowerPacket (simtime_s 60) demo_interfaces s1
          (demo_packet 0x0AAA00000002 0x0AAA00000001 101 (Some 7)) = Inr (s2, acts2) \<and>
        targets acts2 = map interfaceId (filter (\<lambda>n. ?inc \<noteq> n \<and> isForwardingInterface n) demo_interfaces)"
    by (rule relay_floods_tagged_unicast [OF demo_table(1,3) run _ _ _ _ demo_macs(1) _ _ _ _ inc]) simp_all
  moreover have "map interfaceId (filter (\<lambda>n. ?inc \<noteq> n \<and> isForwardingInterface n) demo_interfaces) = [100, 102]"
    by code_simp
  ultimately show ?thesis using run by auto
qed

theorem modular_relay_equivalent_witness:
  "\<exists>s acts t acts'. demo_run 0x0AAA00000001 0x010000000001 100 None = Inr (s, acts) \<and>
     learnerProcessPacket 0 demo_interfaces (macTable demo_relay)
       (demo_packet 0x0AAA00000001 0x010000000001 100 None) = Inr t \<and>
     selectorPushPacket 0 demo_interfaces (demo_relay\<lparr>macTable := t\<rparr>)
       ((demo_packet 0x0AAA00000001 0x010000000001 100 None)\<lparr>
          macAddressReq := Some (0x0AAA00000001, 0x010000000001)\<rparr>) = Inr (s, acts') \<and>
     targets acts' = targets acts"
proof -
  obtain s acts where run: "demo_run 0x0AAA00000001 0x010000000001 100 None = Inr (s, acts)"
    using is_ok_pair [OF demo_runs(2)] by blast
  show ?thesis
    using modular_relay_equivalent [OF run, of "(demo_packet 0x0AAA00000001 0x010000000001 100 None)\<lparr>
          macAddressReq := Some (0x0AAA00000001, 0x010000000001)\<rparr>"] run
    by (simp add: demo_packet_def)
qed

end
