(* ===== verification/MacTableFile.thy ===== *)
theory MacTableFile
  imports MacTable
begin

text \<open>
  The address table file of \<open>MacForwardingTable\<close> (\<open>MacForwardingTable.cc\<close>, \<open>fgetline\<close>,
  \<open>readForwardingTable\<close>, \<open>initializeTable\<close>): the C library calls \<open>fgets\<close>, \<open>strtok\<close> and
  \<open>strtol\<close> on the text of the file. The resolver and the interface table are arguments.
\<close>

definition MAX_LINE :: nat where "MAX_LINE = 100"

section \<open>Lines\<close>

text \<open>\<open>fgets\<close> with room for \<open>n\<close> characters: what was read, and the rest of the file.\<close>

fun fgets :: "nat \<Rightarrow> string \<Rightarrow> string \<times> string" where
  "fgets 0 s = ([], s)"
| "fgets (Suc n) [] = ([], [])"
| "fgets (Suc n) (c # cs) =
     (if c = newline then ([c], cs) else (let (l, r) = fgets n cs in (c # l, r)))"

definition chop :: "string \<Rightarrow> string" where
  "chop line = rev (dropWhile (\<lambda>c. c = newline \<or> c = return)
                      (rev (takeWhile (\<lambda>c. c \<noteq> CHR 0x00) line)))"

definition fgetline :: "string \<Rightarrow> (string \<times> string) option" where
  "fgetline s =
     (if s = [] then None else (let (l, r) = fgets (MAX_LINE - 1) s in Some (chop l, r)))"

lemma fgets_shrinks: "0 < n \<Longrightarrow> s \<noteq> [] \<Longrightarrow> length (snd (fgets n s)) < length s"
proof -
  have *: "length (snd (fgets n s)) \<le> length s" for n s
    by (induction n s rule: fgets.induct) (auto split: prod.splits)
  show "0 < n \<Longrightarrow> s \<noteq> [] \<Longrightarrow> length (snd (fgets n s)) < length s"
  proof (cases n)
    case (Suc m)
    then show "0 < n \<Longrightarrow> s \<noteq> [] \<Longrightarrow> length (snd (fgets n s)) < length s"
      using * [of m "tl s"] by (cases s) (auto split: prod.splits)
  qed simp
qed

lemma fgetline_shrinks: "fgetline s = Some (l, r) \<Longrightarrow> length r < length s"
  using fgets_shrinks [of 99 s]
  by (auto simp: fgetline_def MAX_LINE_def split: if_splits prod.splits)

text \<open>The lines the reading loop sees; it ends because every call consumes a character.\<close>

function file_lines :: "string \<Rightarrow> string list" where
  "file_lines s = (case fgetline s of None \<Rightarrow> [] | Some (l, r) \<Rightarrow> l # file_lines r)"
  by pat_completeness auto
termination by (relation "measure length") (auto dest: fgetline_shrinks)

declare file_lines.simps [simp del]

section \<open>Columns and numbers\<close>

text \<open>The tokens successive calls of \<open>strtok(line, " \t")\<close> return.\<close>

fun strtok_acc :: "string \<Rightarrow> string \<Rightarrow> string list" where
  "strtok_acc acc [] = (if acc = [] then [] else [rev acc])"
| "strtok_acc acc (c # cs) =
     (if is_delim c then (if acc = [] then strtok_acc [] cs else rev acc # strtok_acc [] cs)
      else strtok_acc (c # acc) cs)"

abbreviation strtok :: "string \<Rightarrow> string list" where "strtok \<equiv> strtok_acc []"

definition to_unsigned :: "int \<Rightarrow> vid" where "to_unsigned n = nat (n mod 2 ^ 32)"
definition to_signed_int :: "int \<Rightarrow> int" where "to_signed_int n = (n + 2 ^ 31) mod 2 ^ 32 - 2 ^ 31"

section \<open>The reader\<close>

definition readTableLine ::
  "(string \<Rightarrow> mac option) \<Rightarrow> (string \<Rightarrow> int option) \<Rightarrow> (int \<Rightarrow> int option)
     \<Rightarrow> mac_table \<Rightarrow> string \<Rightarrow> mac_table result" where
  "readTableLine resolve by_name by_id t line =
     (if line \<noteq> [] \<and> hd line = CHR ''#'' then Inr t
      else case strtok line of
        [] \<Rightarrow> Inr t
      | vlanIdStr # cols \<Rightarrow>
          if hd vlanIdStr = CHR ''#'' then Inr t
          else (case cols of
              macAddressStr # interfaceName # _ \<Rightarrow>
                (let (vlanId, rest) = strtol vlanIdStr in
                 if rest \<noteq> [] then Inl (RuntimeError ''VLAN ID unresolved'')
                 else case resolve macAddressStr of
                   None \<Rightarrow> Inl (RuntimeError ''MAC address unresolved'')
                 | Some a \<Rightarrow>
                     (let ie = (case by_name interfaceName of
                            Some i \<Rightarrow> Some i
                          | None \<Rightarrow> (let (num, rest2) = strtol interfaceName in
                                     if rest2 = [] then by_id (to_signed_int num) else None))
                      in case ie of
                        None \<Rightarrow> Inl (RuntimeError ''interface not found'')
                      | Some i \<Rightarrow> Inr (t\<lparr>forwardingTable := (forwardingTable t)
                                       ((to_unsigned vlanId, a) \<mapsto> address_entry i 0)\<rparr>)))
            | _ \<Rightarrow> Inl (RuntimeError ''line invalid in address table file'')))"

text \<open>\<open>fopen\<close> fails when the file does not exist.\<close>

definition readForwardingTable ::
  "(string \<Rightarrow> mac option) \<Rightarrow> (string \<Rightarrow> int option) \<Rightarrow> (int \<Rightarrow> int option)
     \<Rightarrow> mac_table \<Rightarrow> string option \<Rightarrow> mac_table result" where
  "readForwardingTable resolve by_name by_id t file =
     (case file of
        None \<Rightarrow> Inl (RuntimeError ''cannot open address table file'')
      | Some txt \<Rightarrow> foldM (readTableLine resolve by_name by_id) t (file_lines txt))"

definition initializeTable ::
  "(string \<Rightarrow> mac option) \<Rightarrow> (string \<Rightarrow> int option) \<Rightarrow> (int \<Rightarrow> int option) \<Rightarrow> (string \<Rightarrow> string option)
     \<Rightarrow> table_rule list \<Rightarrow> string \<Rightarrow> mac_table \<Rightarrow> mac_table result" where
  "initializeTable resolve by_name by_id fopen rules fileName t =
     rbind (parseForwardingTableParameter resolve by_name (clearTable t) rules) (\<lambda>t1.
       if fileName \<noteq> [] then readForwardingTable resolve by_name by_id t1 (fopen fileName)
       else Inr t1)"

section \<open>Line lemmas\<close>

definition plain_line :: "string \<Rightarrow> bool" where
  "plain_line l \<longleftrightarrow> length l < MAX_LINE - 1 \<and> list_all (\<lambda>c. c \<noteq> newline \<and> c \<noteq> CHR 0x00) l \<and>
     (l = [] \<or> last l \<noteq> return)"

lemma fgets_line:
  "list_all (\<lambda>c. c \<noteq> newline) l \<Longrightarrow> length l < n \<Longrightarrow> fgets n (l @ newline # rest) = (l @ [newline], rest)"
proof (induction l arbitrary: n)
  case Nil
  then show ?case by (cases n) auto
next
  case (Cons c l)
  then show ?case by (cases n) auto
qed

lemma fgets_full:
  "list_all (\<lambda>c. c \<noteq> newline) l \<Longrightarrow> fgets (length l) (l @ rest) = (l, rest)"
  by (induction l) auto

lemma fgets_eof:
  "list_all (\<lambda>c. c \<noteq> newline) l \<Longrightarrow> length l < n \<Longrightarrow> fgets n l = (l, [])"
proof (induction l arbitrary: n)
  case Nil
  then show ?case by (cases n) auto
next
  case (Cons c l)
  then show ?case by (cases n) auto
qed

lemma chop_line:
  assumes "list_all (\<lambda>c. c \<noteq> newline \<and> c \<noteq> CHR 0x00) l" "l = [] \<or> last l \<noteq> return"
  shows "chop (l @ [newline]) = l" and "chop l = l"
proof -
  have nul: "takeWhile (\<lambda>c. c \<noteq> CHR 0x00) l = l"
    "takeWhile (\<lambda>c. c \<noteq> CHR 0x00) (l @ [newline]) = l @ [newline]"
    using assms(1) by (auto intro!: takeWhile_all simp: list_all_iff)
  have "dropWhile (\<lambda>c. c = newline \<or> c = return) (rev l) = rev l"
  proof (cases l rule: rev_cases)
    case (snoc xs x)
    then show ?thesis using assms by auto
  qed simp
  then show "chop (l @ [newline]) = l" "chop l = l"
    by (simp_all add: chop_def nul)
qed

text \<open>
  Reading back what was written: a file whose lines are shorter than the buffer and
  terminated by a newline is read line by line, nothing lost or split.
\<close>

theorem file_lines_roundtrip:
  "list_all plain_line ls \<Longrightarrow> file_lines (concat (map (\<lambda>l. l @ [newline]) ls)) = ls"
proof (induction ls)
  case Nil
  show ?case by (simp add: file_lines.simps fgetline_def)
next
  case (Cons l ls)
  let ?rest = "concat (map (\<lambda>l. l @ [newline]) ls)"
  have l: "list_all (\<lambda>c. c \<noteq> newline) l" "length l < MAX_LINE - 1" "chop (l @ [newline]) = l"
    using Cons.prems chop_line [of l] by (auto simp: plain_line_def list_all_iff)
  have "fgetline (l @ newline # ?rest) = Some (l, ?rest)"
    using fgets_line [OF l(1,2)] l(3) by (simp add: fgetline_def)
  then show ?case using Cons by (simp add: file_lines.simps [of "l @ newline # ?rest"])
qed

text \<open>
  The last line of a file is read even when no newline ends it, contrary to what the
  comment of \<open>fgetline\<close> says.
\<close>

theorem unterminated_line_is_read:
  "plain_line l \<Longrightarrow> l \<noteq> [] \<Longrightarrow> file_lines l = [l]"
proof -
  assume *: "plain_line l" "l \<noteq> []"
  then have "list_all (\<lambda>c. c \<noteq> newline) l" "length l < MAX_LINE - 1" "chop l = l"
    using chop_line [of l] by (auto simp: plain_line_def list_all_iff)
  with * have "fgetline l = Some (l, [])" using fgets_eof [of l] by (simp add: fgetline_def)
  then show ?thesis by (simp add: file_lines.simps [of l] file_lines.simps [of "[]"] fgetline_def)
qed

text \<open>
  A line longer than the buffer is split: from the hundredth character on it is read as a
  line of its own, so the tail of a long comment is parsed as a table entry.
\<close>

theorem long_line_is_split:
  assumes "list_all (\<lambda>c. c \<noteq> newline) l" "length l = MAX_LINE - 1"
  shows "file_lines (l @ rest) = chop l # file_lines rest"
proof -
  have "fgetline (l @ rest) = Some (chop l, rest)"
    using fgets_full [OF assms(1), of rest] assms(2) by (auto simp: fgetline_def MAX_LINE_def)
  then show ?thesis by (simp add: file_lines.simps [of "l @ rest"])
qed

section \<open>Row lemmas\<close>

definition is_token :: "string \<Rightarrow> bool" where
  "is_token w \<longleftrightarrow> w \<noteq> [] \<and> list_all (\<lambda>c. \<not> is_delim c) w"

lemma strtok_acc_token:
  "list_all (\<lambda>c. \<not> is_delim c) w \<Longrightarrow>
     strtok_acc acc (w @ d # rest) = strtok_acc (rev w @ acc) (d # rest) \<and>
     strtok_acc acc w = strtok_acc (rev w @ acc) []"
  by (induction w arbitrary: acc) auto

lemma strtok_token: "is_token w \<Longrightarrow> strtok (w @ CHR '' '' # rest) = w # strtok rest" "is_token w \<Longrightarrow> strtok w = [w]"
  using strtok_acc_token [of w "[]"] by (auto simp: is_token_def is_delim_def)

text \<open>
  A row of the file is stored as written: the VLAN in decimal, a resolvable address and
  the name of an interface, separated by blanks, become the entry for that VLAN and address.
  Its insertion time is 0, so it ages like a learned entry.
\<close>

theorem table_row_stored:
  assumes "v < 2 ^ 32" "is_token addr" "is_token name" "resolve addr = Some a" "by_name name = Some i"
  shows "readTableLine resolve by_name by_id t (nat_to_string v @ '' '' @ addr @ '' '' @ name)
           = Inr (t\<lparr>forwardingTable := (forwardingTable t)((v, a) \<mapsto> address_entry i 0)\<rparr>)"
proof -
  obtain c cs where s: "nat_to_string v = c # cs" using nat_to_string_digits [of v] by (cases "nat_to_string v") auto
  have c: "c \<noteq> CHR ''#''" using nat_to_string_digits [of v] s isdigit_facts [of c] by simp
  have "is_token (nat_to_string v)"
    using nat_to_string_digits [of v] isdigit_facts by (auto simp: is_token_def list_all_iff)
  then have "strtok (nat_to_string v @ '' '' @ addr @ '' '' @ name) = [nat_to_string v, addr, name]"
    using strtok_token assms(2,3) by simp
  moreover have "strtol (nat_to_string v) = (int v, [])" "to_unsigned (int v) = v"
    using strtol_nat [of v] assms(1) by (simp_all add: to_unsigned_def)
  ultimately show ?thesis using s c assms(4,5) by (simp add: readTableLine_def Let_def)
qed

theorem file_lines_roundtrip_witness:
  "list_all plain_line [''1 A eth0'', [], ''# end''] \<and>
   file_lines (concat (map (\<lambda>l. l @ [newline]) [''1 A eth0'', [], ''# end''])) = [''1 A eth0'', [], ''# end'']"
proof -
  have "list_all plain_line [''1 A eth0'', [], ''# end'']" by code_simp
  then show ?thesis using file_lines_roundtrip by blast
qed

theorem unterminated_line_is_read_witness:
  "plain_line ''1 0A-AA-00-00-00-01 eth0'' \<and> file_lines ''1 0A-AA-00-00-00-01 eth0'' = [''1 0A-AA-00-00-00-01 eth0'']"
proof -
  have "plain_line ''1 0A-AA-00-00-00-01 eth0''" by code_simp
  then show ?thesis using unterminated_line_is_read by blast
qed

text \<open>A comment of 99 characters followed by text on the same line.\<close>

theorem long_line_is_split_witness:
  "file_lines (CHR ''#'' # replicate 98 CHR ''='' @ ''1 A eth0'')
     = (CHR ''#'' # replicate 98 CHR ''='') # file_lines ''1 A eth0''"
proof -
  have "chop (CHR ''#'' # replicate 98 CHR ''='') = CHR ''#'' # replicate 98 CHR ''=''" by code_simp
  then show ?thesis
    using long_line_is_split [of "CHR ''#'' # replicate 98 CHR ''=''" "''1 A eth0''"]
    by (simp add: MAX_LINE_def list_all_iff)
qed

theorem table_row_stored_witness:
  "\<exists>t. readTableLine tryParse demo_by_name (\<lambda>_. None) demo_table (nat_to_string 7 @ '' '' @ ''0A-AA-00-00-00-01'' @ '' '' @ ''eth0'')
     = Inr t \<and> forwardingTable t (7, 0x0AAA00000001) = Some (address_entry 100 0)"
proof -
  have "is_token ''0A-AA-00-00-00-01''" "is_token ''eth0''" "tryParse ''0A-AA-00-00-00-01'' = Some 0x0AAA00000001"
    "demo_by_name ''eth0'' = Some 100"
    by code_simp+
  with table_row_stored [of 7 "''0A-AA-00-00-00-01''" "''eth0''" tryParse "0x0AAA00000001" demo_by_name 100]
  show ?thesis by auto
qed

end
