(* ===== verification/AutoConfigurator.thy ===== *)
theory AutoConfigurator
  imports MacTable
begin

text \<open>
  \<open>cooperative_tsn/configurator/ForwardingAutoConfigurator.{h,cc}\<close> with the signals of
  \<open>cooperative_tsn/nodes/TsnNic.cc\<close>: whenever a wireless NIC of a vehicle appears, the
  forwarding tables of the bridges in every vehicle's subnetwork are extended with the MAC
  addresses on the other side of the air interface.

  A module is a number; \<open>registerdNics\<close> is a \<open>std::set\<close> of module pointers, so it is kept as
  a strictly increasing list. What the address resolver and the module finders answer is the
  argument \<open>network\<close>; the state holds the set and the forwarding table of each bridge.
\<close>

section \<open>State and environment\<close>

type_synonym module_id = nat

record nic_interface =
  nicLoopback :: bool
  nicMac :: mac

record topology_node =
  nodeModule :: module_id
  nodeInterfaceTable :: bool
  nodeIpv4RoutingTable :: bool
  nodeIpv6RoutingTable :: bool

record network =
  interfaceTableOf :: "module_id \<Rightarrow> nic_interface list option"
  parentModule :: "module_id \<Rightarrow> module_id"
  topologyOf :: "module_id \<Rightarrow> topology_node list option"   \<comment> \<open>of the node's \<open>MacForwardingTableConfigurator\<close>\<close>
  multicastMac :: "mac option"                              \<comment> \<open>the \<open>multicastAddress\<close> parameter, resolved\<close>

record auto_config =
  registerdNics :: "module_id list"
  tables :: "module_id \<Rightarrow> mac_table option"

definition isBridgeNode :: "topology_node \<Rightarrow> bool" where
  "isBridgeNode n \<longleftrightarrow> nodeInterfaceTable n \<or> nodeIpv4RoutingTable n \<or> nodeIpv6RoutingTable n"

definition nonLoopbackMacs :: "nic_interface list \<Rightarrow> mac list" where
  "nonLoopbackMacs ifs = map nicMac (filter (\<lambda>i. \<not> nicLoopback i) ifs)"

definition existingMacs :: "network \<Rightarrow> module_id list \<Rightarrow> mac list result" where
  "existingMacs net nics =
     foldM (\<lambda>macs nic. case interfaceTableOf net nic of
              None \<Rightarrow> Inl NullPointer
            | Some ifs \<Rightarrow> Inr (macs @ nonLoopbackMacs ifs)) [] nics"

section \<open>Configuring one bridge\<close>

text \<open>One turn of the loop over the interfaces of a NIC.\<close>

definition configureInterface ::
  "simtime \<Rightarrow> mac \<Rightarrow> mac list \<Rightarrow> mac_table \<Rightarrow> nic_interface \<Rightarrow> mac_table result" where
  "configureInterface now mcast macs t i =
     rbind (getUnicast now t (nicMac i) 0) (\<lambda>out.
     rbind (getMulticast t mcast 0) (\<lambda>group.
     rbind (if group = [] \<and> out \<noteq> -1 then addMulticast t out mcast 0 else Inr t) (\<lambda>t1.
       foldM (\<lambda>u m. setUnicast u out m 0) t1 macs)))"

definition configureBridge ::
  "simtime \<Rightarrow> mac \<Rightarrow> mac list \<Rightarrow> nic_interface list \<Rightarrow> mac_table \<Rightarrow> mac_table result" where
  "configureBridge now mcast macs ifs t = foldM (configureInterface now mcast macs) t ifs"

text \<open>One turn of the loop over the nodes of a topology.\<close>

definition configureNode ::
  "simtime \<Rightarrow> network \<Rightarrow> mac \<Rightarrow> mac list \<Rightarrow> module_id
     \<Rightarrow> (module_id \<Rightarrow> mac_table option) \<Rightarrow> topology_node \<Rightarrow> (module_id \<Rightarrow> mac_table option) result" where
  "configureNode now net mcast macs nic ts n =
     (if \<not> isBridgeNode n then Inr ts
      else case ts (nodeModule n) of
        None \<Rightarrow> Inr ts
      | Some t \<Rightarrow>
          (case interfaceTableOf net nic of
             None \<Rightarrow> Inl NullPointer
           | Some ifs \<Rightarrow> rbind (configureBridge now mcast macs ifs t) (\<lambda>t'. Inr (ts(nodeModule n \<mapsto> t')))))"

definition configureSubnet ::
  "simtime \<Rightarrow> network \<Rightarrow> mac \<Rightarrow> mac list \<Rightarrow> module_id \<Rightarrow> topology_node list
     \<Rightarrow> (module_id \<Rightarrow> mac_table option) \<Rightarrow> (module_id \<Rightarrow> mac_table option) result" where
  "configureSubnet now net mcast macs nic nodes ts = foldM (configureNode now net mcast macs nic) ts nodes"

section \<open>The signal handlers\<close>

definition registerNic :: "simtime \<Rightarrow> network \<Rightarrow> auto_config \<Rightarrow> module_id \<Rightarrow> (auto_config \<times> bool) result" where
  "registerNic now net c nic =
     rbind (existingMacs net (registerdNics c)) (\<lambda>existing.
     case multicastMac net of None \<Rightarrow> Inl AssertionFailed | Some mcast \<Rightarrow>
     if nic \<in> set (registerdNics c) then Inr (c, False)
     else
       let nics = insort nic (registerdNics c) in
       case interfaceTableOf net nic of None \<Rightarrow> Inl AssertionFailed | Some ifs \<Rightarrow>
       rbind (foldM (\<lambda>ts other.
                if other = nic then Inr ts
                else case topologyOf net (parentModule net other) of
                    None \<Rightarrow> Inr ts
                  | Some nodes \<Rightarrow> configureSubnet now net mcast (nonLoopbackMacs ifs) other nodes ts)
              (tables c) nics) (\<lambda>ts1.
       if existing = [] then Inr (\<lparr>registerdNics = nics, tables = ts1\<rparr>, True)
       else case topologyOf net (parentModule net nic) of
           None \<Rightarrow> Inr (\<lparr>registerdNics = nics, tables = ts1\<rparr>, False)
         | Some nodes \<Rightarrow>
             rbind (configureSubnet now net mcast existing nic nodes ts1) (\<lambda>ts2.
               Inr (\<lparr>registerdNics = nics, tables = ts2\<rparr>, True))))"

definition deleteNic :: "auto_config \<Rightarrow> module_id \<Rightarrow> auto_config \<times> bool" where
  "deleteNic c nic = (c, False)"

definition receiveSignal :: "simtime \<Rightarrow> network \<Rightarrow> auto_config \<Rightarrow> string \<Rightarrow> module_id \<Rightarrow> auto_config result" where
  "receiveSignal now net c name nic =
     (if contains_string name ''registerNic''
      then rbind (registerNic now net c nic) (\<lambda>(c', _). Inr c')
      else if contains_string name ''deleteNic'' then Inr (fst (deleteNic c nic))
      else Inr c)"

text \<open>The signals a \<open>TsnNic\<close> emits, in its initialization stages and when it is torn down.\<close>

definition nicInitialize :: "module_id \<Rightarrow> init_stage \<Rightarrow> (string \<times> module_id) list" where
  "nicInitialize nic stage = (if stage = INITSTAGE_STATIC_ROUTING then [(''registerNic'', nic)] else [])"

definition nicFinish :: "module_id \<Rightarrow> (string \<times> module_id) list" where
  "nicFinish nic = [(''deleteNic'', nic)]"

section \<open>Lemmas\<close>

lemma setUnicast_frame [frame_laws]:
  "setUnicast t i m v = Inr t' \<Longrightarrow>
     agingTime t' = agingTime t \<and> multicastForwardingTable t' = multicastForwardingTable t \<and>
     (\<forall>k. k \<noteq> (v, m) \<longrightarrow> forwardingTable t' k = forwardingTable t k)"
  by (auto simp: setUnicast_def split: if_splits option.splits)

lemma setUnicast_entry:
  "setUnicast t i m v = Inr t' \<Longrightarrow> \<exists>e. forwardingTable t' (v, m) = Some e \<and> entryInterface e = i"
  by (auto simp: setUnicast_def address_entry_def split: if_splits option.splits)

lemma setAll_frame:
  assumes "foldM (\<lambda>u m. setUnicast u i m 0) t macs = Inr t'" "a \<notin> set macs"
  shows "agingTime t' = agingTime t \<and> forwardingTable t' (0, a) = forwardingTable t (0, a)"
proof (rule foldM_invariant [OF _ _ assms(1), where P = "\<lambda>u. agingTime u = agingTime t \<and>
      forwardingTable u (0, a) = forwardingTable t (0, a)"])
  fix s x s'
  assume "agingTime s = agingTime t \<and> forwardingTable s (0, a) = forwardingTable t (0, a)"
    and "x \<in> set macs" and "setUnicast s i x 0 = Inr s'"
  moreover from this(2) assms(2) have "(0, a) \<noteq> (0, x)" by auto
  ultimately show "agingTime s' = agingTime t \<and> forwardingTable s' (0, a) = forwardingTable t (0, a)"
    using setUnicast_frame by metis
qed simp

lemma setAll_entries:
  assumes "foldM (\<lambda>u m. setUnicast u i m 0) t macs = Inr t'" "m \<in> set macs"
  shows "\<exists>e. forwardingTable t' (0, m) = Some e \<and> entryInterface e = i"
proof -
  from assms(2) obtain pre post where macs: "macs = pre @ m # post" by (meson split_list)
  with assms(1) obtain t1 t2 where 2: "setUnicast t1 i m 0 = Inr t2"
    and rest: "foldM (\<lambda>u m. setUnicast u i m 0) t2 post = Inr t'"
    by (auto simp: foldM_append rbind_Inr_iff)
  let ?P = "\<lambda>u. \<exists>e. forwardingTable u (0, m) = Some e \<and> entryInterface e = i"
  have "?P s'" if "?P s" "setUnicast s i x 0 = Inr s'" for s x s'
  proof (cases "x = m")
    case True
    then show ?thesis using setUnicast_entry [of s i m 0 s'] that by blast
  next
    case False
    then have "(0, m) \<noteq> (0, x)" by simp
    then show ?thesis using setUnicast_frame [OF that(2)] that(1) by simp
  qed
  then show ?thesis
    using setUnicast_entry [OF 2] by (rule foldM_invariant [OF _ _ rest, where P = ?P])
qed

lemma configureInterface_parts:
  assumes "configureInterface now mcast macs t i = Inr t'"
  obtains out t1 where "getUnicast now t (nicMac i) 0 = Inr out"
    "forwardingTable t1 = forwardingTable t" "agingTime t1 = agingTime t"
    "foldM (\<lambda>u m. setUnicast u out m 0) t1 macs = Inr t'"
    "t1 = t \<or> addMulticast t out mcast 0 = Inr t1"
proof -
  from assms obtain out "group" t1 where out: "getUnicast now t (nicMac i) 0 = Inr out"
    and "getMulticast t mcast 0 = Inr group"
    and t1: "(if group = [] \<and> out \<noteq> -1 then addMulticast t out mcast 0 else Inr t) = Inr t1"
    and fin: "foldM (\<lambda>u m. setUnicast u out m 0) t1 macs = Inr t'"
    unfolding configureInterface_def rbind_Inr_iff by (elim exE conjE) (rule that)
  have "forwardingTable t1 = forwardingTable t \<and> agingTime t1 = agingTime t"
    using t1 by (auto simp: addMulticast_def split: if_splits option.splits)
  moreover have "t1 = t \<or> addMulticast t out mcast 0 = Inr t1" using t1 by (simp split: if_splits)
  ultimately show ?thesis using that out fin by blast
qed

lemma configureInterface_lookup:
  assumes "configureInterface now mcast macs t i = Inr t'" "a \<notin> set macs"
  shows "getUnicast now t' a 0 = getUnicast now t a 0"
proof -
  obtain out t1 where p: "forwardingTable t1 = forwardingTable t" "agingTime t1 = agingTime t"
    "foldM (\<lambda>u m. setUnicast u out m 0) t1 macs = Inr t'"
    using configureInterface_parts [OF assms(1)] by metis
  from setAll_frame [OF p(3) assms(2)]
  have "forwardingTable t' (0, a) = forwardingTable t (0, a)" "agingTime t' = agingTime t"
    using p(1,2) by auto
  then show ?thesis by (simp add: getUnicast_def aged_def cong: option.case_cong)
qed

lemma setAll_permanent:
  assumes "foldM (\<lambda>u m. setUnicast u i m 0) t macs = Inr t'" "m \<in> set macs"
    and "forwardingTable t (0, m) \<noteq> None"
  shows "\<exists>e. forwardingTable t' (0, m) = Some e \<and> insertionTime e = simtime_max"
proof -
  from assms(2) obtain pre post where macs: "macs = pre @ m # post" by (meson split_list)
  with assms(1) obtain t1 t2 where 1: "foldM (\<lambda>u m. setUnicast u i m 0) t pre = Inr t1"
    and 2: "setUnicast t1 i m 0 = Inr t2"
    and rest: "foldM (\<lambda>u m. setUnicast u i m 0) t2 post = Inr t'"
    by (auto simp: foldM_append rbind_Inr_iff)
  have keeps: "forwardingTable s' (0, m) \<noteq> None"
    if "forwardingTable s (0, m) \<noteq> None" "setUnicast s i x 0 = Inr s'" for s x s'
    using that setUnicast_frame [OF that(2)] setUnicast_entry [OF that(2)] by (cases "x = m") auto
  have "forwardingTable t1 (0, m) \<noteq> None"
    using assms(3) by (rule foldM_invariant [OF _ _ 1, where P = "\<lambda>u. forwardingTable u (0, m) \<noteq> None", rotated])
      (rule keeps)
  let ?P = "\<lambda>u. \<exists>e. forwardingTable u (0, m) = Some e \<and> insertionTime e = simtime_max"
  have set: "?P s'" if "setUnicast s i m 0 = Inr s'" "forwardingTable s (0, m) \<noteq> None" for s s'
    using that by (auto simp: setUnicast_def split: if_splits option.splits)
  have step: "?P s'" if "?P s" "setUnicast s i x 0 = Inr s'" for s x s'
    using that set [of s s'] setUnicast_frame [OF that(2)] by (cases "x = m") auto
  have "?P t2" by (rule set [OF 2]) fact
  then show ?thesis by (rule foldM_invariant [OF _ _ rest, where P = ?P, rotated]) (rule step)
qed

lemma configureInterface_has_entry:
  assumes "configureInterface now mcast macs t i = Inr t'"
  shows "(m \<in> set macs \<or> forwardingTable t (0, m) \<noteq> None) \<longrightarrow> forwardingTable t' (0, m) \<noteq> None"
proof -
  obtain out t1 where p: "forwardingTable t1 = forwardingTable t"
    "foldM (\<lambda>u m. setUnicast u out m 0) t1 macs = Inr t'"
    using configureInterface_parts [OF assms] by metis
  show ?thesis
    using setAll_entries [OF p(2), of m] setAll_frame [OF p(2), of m] p(1) by (cases "m \<in> set macs") auto
qed

text \<open>
  The loop over the NIC's interfaces overwrites the entries in every turn: what stays is the
  port towards the last interface, permanent if there were two turns or more.
\<close>

lemma configureBridge_entry:
  assumes "configureBridge now mcast macs (ifs @ [i]) t = Inr t'"
    and "getUnicast now t (nicMac i) 0 = Inr out" "nicMac i \<notin> set macs" "m \<in> set macs"
  shows "\<exists>e. forwardingTable t' (0, m) = Some e \<and> entryInterface e = out \<and>
           (ifs \<noteq> [] \<longrightarrow> insertionTime e = simtime_max)"
proof -
  from assms(1) obtain t1 where 1: "foldM (configureInterface now mcast macs) t ifs = Inr t1"
    and 2: "configureInterface now mcast macs t1 i = Inr t'"
    by (auto simp: configureBridge_def foldM_append rbind_Inr_iff)
  have "getUnicast now t1 (nicMac i) 0 = Inr out"
    by (rule foldM_invariant [OF _ _ 1, where P = "\<lambda>u. getUnicast now u (nicMac i) 0 = Inr out"])
      (simp_all add: configureInterface_lookup assms(2,3))
  then obtain t2 where t2: "forwardingTable t2 = forwardingTable t1"
    "foldM (\<lambda>u m. setUnicast u out m 0) t2 macs = Inr t'"
    using configureInterface_parts [OF 2] by (metis sum.inject(2))
  have "forwardingTable t1 (0, m) \<noteq> None" if "ifs \<noteq> []"
  proof -
    obtain js j where "ifs = js @ [j]" using \<open>ifs \<noteq> []\<close> by (metis append_butlast_last_id)
    with 1 obtain u where "configureInterface now mcast macs u j = Inr t1"
      by (auto simp: foldM_append rbind_Inr_iff)
    with configureInterface_has_entry assms(4) show ?thesis by blast
  qed
  then show ?thesis
    using setAll_entries [OF t2(2) assms(4)] setAll_permanent [OF t2(2) assms(4)] t2(1) by force
qed

text \<open>
  The forwarding configured for the new stations: once a bridge was configured for a NIC
  with at least two interfaces, every new address is served for the rest of the simulation on
  the port towards the \<^emph>\<open>last\<close> interface of the NIC, whatever is known of the others.
\<close>

theorem configured_stations_are_served:
  assumes "configureBridge now mcast macs (ifs @ [i]) t = Inr t'" "ifs \<noteq> []"
    and "getUnicast now t (nicMac i) 0 = Inr out" "nicMac i \<notin> set macs" "m \<in> set macs"
    and "\<not> isMulticast m" "ages t'" "later < simtime_max"
  shows "getUnicast later t' m 0 = Inr out"
proof -
  obtain e where e: "forwardingTable t' (0, m) = Some e" "entryInterface e = out" "insertionTime e = simtime_max"
    using configureBridge_entry [OF assms(1,3-5)] assms(2) by blast
  then show ?thesis using assms(6-8) by (simp add: getUnicast_def aged_def ages_def)
qed

text \<open>
  A bridge that does not know the last interface of the NIC can no longer learn the new
  stations either: their entries hold port -1 and count as configured, so traffic from a
  station does not repair them and packets for it are flooded from then on.
\<close>

theorem unknown_last_interface_blocks_learning:
  assumes "configureBridge now mcast macs (ifs @ [i]) t = Inr t'" "ifs \<noteq> []"
    and "getUnicast now t (nicMac i) 0 = Inr (-1)" "nicMac i \<notin> set macs" "m \<in> set macs"
    and "ages t" "ages t'" "later < simtime_max" "learnUnicast later t' p m 0 = Inr t''"
  shows "getUnicast later t'' m 0 = Inr (-1)"
proof -
  obtain e where e: "forwardingTable t' (0, m) = Some e" "entryInterface e = -1" "insertionTime e = simtime_max"
    using configureBridge_entry [OF assms(1,3-5)] assms(2) by blast
  have "getUnicast later t'' m 0 = getUnicast later t' m 0"
    by (rule mt.lookup_fixed [OF assms(7,8) _ assms(9)]) (simp add: configured_def e)
  then show ?thesis
    using e assms(9) by (simp add: getUnicast_def learnUnicast_def split: if_splits)
qed

section \<open>Registration\<close>

definition has_entry :: "(module_id \<Rightarrow> mac_table option) \<Rightarrow> module_id \<Rightarrow> mac \<Rightarrow> bool" where
  "has_entry ts b m \<longleftrightarrow> (\<exists>t. ts b = Some t \<and> forwardingTable t (0, m) \<noteq> None)"

lemma configureBridge_has_entry:
  assumes "configureBridge now mcast macs ifs t = Inr t'"
  shows "(m \<in> set macs \<and> ifs \<noteq> [] \<or> forwardingTable t (0, m) \<noteq> None) \<longrightarrow> forwardingTable t' (0, m) \<noteq> None"
proof (cases ifs)
  case Nil
  then show ?thesis using assms by (simp add: configureBridge_def)
next
  case (Cons i js)
  with assms obtain u where u: "configureInterface now mcast macs t i = Inr u"
    and rest: "foldM (configureInterface now mcast macs) u js = Inr t'"
    by (auto simp: configureBridge_def rbind_Inr_iff)
  show ?thesis
  proof
    assume "m \<in> set macs \<and> ifs \<noteq> [] \<or> forwardingTable t (0, m) \<noteq> None"
    then have "forwardingTable u (0, m) \<noteq> None" using configureInterface_has_entry [OF u] by blast
    then show "forwardingTable t' (0, m) \<noteq> None"
      by (rule foldM_invariant [OF _ _ rest, where P = "\<lambda>u. forwardingTable u (0, m) \<noteq> None", rotated])
        (use configureInterface_has_entry in blast)
  qed
qed

lemma configureNode_has_entry:
  assumes "configureNode now net mcast macs nic ts n = Inr ts'"
  shows "(has_entry ts b m \<longrightarrow> has_entry ts' b m) \<and> (ts b \<noteq> None \<longleftrightarrow> ts' b \<noteq> None) \<and>
    (isBridgeNode n \<and> ts (nodeModule n) \<noteq> None \<and> interfaceTableOf net nic \<noteq> Some [] \<and> m \<in> set macs
       \<longrightarrow> has_entry ts' (nodeModule n) m)"
  using assms configureBridge_has_entry
  unfolding configureNode_def has_entry_def
  by (fastforce simp: rbind_Inr_iff split: if_splits option.splits)

lemma configureSubnet_keeps:
  assumes "configureSubnet now net mcast macs nic nodes ts = Inr ts'"
  shows "(has_entry ts b m \<longrightarrow> has_entry ts' b m) \<and> (ts b \<noteq> None \<longleftrightarrow> ts' b \<noteq> None)"
  by (rule foldM_invariant [OF _ _ assms [unfolded configureSubnet_def],
        where P = "\<lambda>us. (has_entry ts b m \<longrightarrow> has_entry us b m) \<and> (ts b \<noteq> None \<longleftrightarrow> us b \<noteq> None)"])
    (use configureNode_has_entry in blast)+

lemma configureSubnet_has_entry:
  assumes "configureSubnet now net mcast macs nic nodes ts = Inr ts'" "n \<in> set nodes"
    and "isBridgeNode n" "ts (nodeModule n) \<noteq> None" "interfaceTableOf net nic \<noteq> Some []" "m \<in> set macs"
  shows "has_entry ts' (nodeModule n) m"
proof -
  from assms(2) obtain pre post where nodes: "nodes = pre @ n # post" by (meson split_list)
  with assms(1) obtain t1 t2 where 1: "configureSubnet now net mcast macs nic pre ts = Inr t1"
    and 2: "configureNode now net mcast macs nic t1 n = Inr t2"
    and 3: "configureSubnet now net mcast macs nic post t2 = Inr ts'"
    by (auto simp: configureSubnet_def foldM_append rbind_Inr_iff)
  have "has_entry t2 (nodeModule n) m"
    using configureNode_has_entry [OF 2] configureSubnet_keeps [OF 1] assms(3-6) by blast
  then show ?thesis using configureSubnet_keeps [OF 3] by blast
qed

text \<open>
  Registration reaches every bridge: when a NIC is registered, every bridge with a
  forwarding table in the subnetwork of every NIC registered before has an entry for each MAC
  address of the new NIC, and the new NIC is in the set from then on.
\<close>

theorem registerNic_reaches_every_bridge:
  assumes "registerNic now net c nic = Inr (c', True)"
    and "other \<in> set (registerdNics c)" "topologyOf net (parentModule net other) = Some nodes"
    and "n \<in> set nodes" "isBridgeNode n" "tables c (nodeModule n) \<noteq> None"
    and "interfaceTableOf net other \<noteq> Some []"
    and "interfaceTableOf net nic = Some ifs" "m \<in> set (nonLoopbackMacs ifs)"
  shows "nic \<in> set (registerdNics c') \<and> has_entry (tables c') (nodeModule n) m"
proof -
  let ?b = "nodeModule n" and ?nics = "insort nic (registerdNics c)"
  from assms(1) obtain mcast existing where mcast: "multicastMac net = Some mcast"
    and ex: "existingMacs net (registerdNics c) = Inr existing" and new: "nic \<notin> set (registerdNics c)"
    by (auto simp: registerNic_def rbind_Inr_iff split: option.splits if_splits)
  let ?f = "\<lambda>ts other. if other = nic then Inr ts
              else case topologyOf net (parentModule net other) of None \<Rightarrow> Inr ts
                | Some nodes \<Rightarrow> configureSubnet now net mcast (nonLoopbackMacs ifs) other nodes ts"
  obtain ts1 where loop: "foldM ?f (tables c) ?nics = Inr ts1"
    and rest: "existing = [] \<and> c' = \<lparr>registerdNics = ?nics, tables = ts1\<rparr> \<or>
      (\<exists>ns ts2. configureSubnet now net mcast existing nic ns ts1 = Inr ts2 \<and>
                c' = \<lparr>registerdNics = ?nics, tables = ts2\<rparr>)"
    using assms(1,8) mcast ex new
    by (auto simp: registerNic_def rbind_Inr_iff Let_def split: option.splits if_splits) blast
  have step: "(has_entry s ?b m \<longrightarrow> has_entry s' ?b m) \<and> (s ?b \<noteq> None \<longleftrightarrow> s' ?b \<noteq> None)"
    if "?f s x = Inr s'" for s x s'
    using that configureSubnet_keeps by (fastforce split: if_splits option.splits)
  obtain pre post where nics: "?nics = pre @ other # post"
    using assms(2) by (metis set_insort_key insert_iff split_list)
  with loop obtain t1 t2 where 1: "foldM ?f (tables c) pre = Inr t1" and 2: "?f t1 other = Inr t2"
    and 3: "foldM ?f t2 post = Inr ts1"
    by (auto simp: foldM_append rbind_Inr_iff)
  have "t1 ?b \<noteq> None"
    by (rule foldM_invariant [OF _ _ 1, where P = "\<lambda>u. u ?b \<noteq> None"]) (use step assms(6) in blast)+
  then have "has_entry t2 ?b m"
    using 2 configureSubnet_has_entry assms(2-9) new by (auto split: if_splits)
  then have "has_entry ts1 ?b m"
    by (rule foldM_invariant [OF _ _ 3, where P = "\<lambda>u. has_entry u ?b m", rotated]) (use step in blast)
  then have "has_entry (tables c') ?b m" using rest configureSubnet_keeps by auto
  then show ?thesis using rest by (auto simp: set_insort_key)
qed

text \<open>
  NICs are never forgotten: \<open>deleteNic\<close> is a stub, so after a vehicle left, its NIC is
  still registered and registering a NIC with the same module again changes nothing and
  reports failure.
\<close>

theorem deleted_nic_stays_registered:
  assumes "nic \<in> set (registerdNics c)" "receiveSignal now net c ''deleteNic'' nic = Inr c'"
    and "registerNic now net c' nic = Inr (c'', ok)"
  shows "c' = c \<and> c'' = c \<and> \<not> ok"
proof -
  have "c' = c"
    using assms(2) by (simp add: receiveSignal_def deleteNic_def)
  then show ?thesis
    using assms(1,3) by (auto simp: registerNic_def rbind_Inr_iff split: option.splits)
qed

section \<open>A concrete vehicle\<close>

text \<open>
  Vehicle 10 has NIC 11 with a loopback, an Ethernet and a radio interface and one bridge,
  module 12; vehicle 20 has NIC 21. The bridge knows the Ethernet interface of its NIC on port
  5, and the radio interface not at all unless \<open>radio\<close> is set.
\<close>

definition demo_nic :: "module_id \<Rightarrow> nic_interface list option" where
  "demo_nic = [11 \<mapsto> [\<lparr>nicLoopback = True, nicMac = 0\<rparr>, \<lparr>nicLoopback = False, nicMac = 0x0A0000000011\<rparr>,
                      \<lparr>nicLoopback = False, nicMac = 0x0A0000000012\<rparr>],
               21 \<mapsto> [\<lparr>nicLoopback = True, nicMac = 0\<rparr>, \<lparr>nicLoopback = False, nicMac = 0x0A0000000021\<rparr>,
                      \<lparr>nicLoopback = False, nicMac = 0x0A0000000022\<rparr>]]"

definition demo_network :: network where
  "demo_network = \<lparr>interfaceTableOf = demo_nic, parentModule = (\<lambda>n. n - 1),
     topologyOf = [10 \<mapsto> [\<lparr>nodeModule = 12, nodeInterfaceTable = True, nodeIpv4RoutingTable = False,
                          nodeIpv6RoutingTable = False\<rparr>],
                   20 \<mapsto> []],
     multicastMac = Some 0x01005E000001\<rparr>"

definition demo_bridge :: "bool \<Rightarrow> mac_table" where
  "demo_bridge radio = demo_table\<lparr>forwardingTable :=
     (if radio then [(0, 0x0A0000000011) \<mapsto> address_entry 5 0, (0, 0x0A0000000012) \<mapsto> address_entry 6 0]
      else [(0, 0x0A0000000011) \<mapsto> address_entry 5 0])\<rparr>"

abbreviation demo_ifs :: "nic_interface list" where
  "demo_ifs \<equiv> [\<lparr>nicLoopback = True, nicMac = 0\<rparr>, \<lparr>nicLoopback = False, nicMac = 0x0A0000000011\<rparr>]"

abbreviation demo_radio :: nic_interface where
  "demo_radio \<equiv> \<lparr>nicLoopback = False, nicMac = 0x0A0000000012\<rparr>"

abbreviation demo_new :: "mac list" where
  "demo_new \<equiv> [0x0A0000000021, 0x0A0000000022]"

definition demo_config :: auto_config where
  "demo_config = \<lparr>registerdNics = [11], tables = [12 \<mapsto> demo_bridge True]\<rparr>"

lemma demo_configureBridge:
  "is_ok (configureBridge 1 0x01005E000001 demo_new (demo_ifs @ [demo_radio]) (demo_bridge radio))"
  "getUnicast 1 (demo_bridge True) (nicMac demo_radio) 0 = Inr 6"
  "getUnicast 1 (demo_bridge False) (nicMac demo_radio) 0 = Inr (-1)"
  "nicMac demo_radio \<notin> set demo_new" "\<not> isMulticast 0x0A0000000021"
proof -
  show "is_ok (configureBridge 1 0x01005E000001 demo_new (demo_ifs @ [demo_radio]) (demo_bridge radio))"
    by (cases radio; simp only:; code_simp)
qed code_simp+

lemma configureBridge_agingTime:
  "configureBridge now mcast macs ifs t = Inr t' \<Longrightarrow> agingTime t' = agingTime t"
  unfolding configureBridge_def
proof (rule foldM_invariant [where P = "\<lambda>u. agingTime u = agingTime t"])
  fix s i s'
  assume s: "agingTime s = agingTime t" "configureInterface now mcast macs s i = Inr s'"
  obtain out t1 where "agingTime t1 = agingTime s" "foldM (\<lambda>u m. setUnicast u out m 0) t1 macs = Inr s'"
    using configureInterface_parts [OF s(2)] by metis
  moreover have "agingTime s' = agingTime t1"
    using \<open>foldM _ t1 macs = Inr s'\<close>
    by (rule foldM_invariant [where P = "\<lambda>u. agingTime u = agingTime t1", rotated 2])
      (auto dest: setUnicast_frame)
  ultimately show "agingTime s' = agingTime t" using s(1) by simp
qed simp

theorem configured_stations_are_served_witness:
  "\<exists>t'. configureBridge 1 0x01005E000001 demo_new (demo_ifs @ [demo_radio]) (demo_bridge True) = Inr t' \<and>
     getUnicast (simtime_s 1000) t' 0x0A0000000021 0 = Inr 6"
proof -
  obtain t' where t': "configureBridge 1 0x01005E000001 demo_new (demo_ifs @ [demo_radio]) (demo_bridge True) = Inr t'"
    using is_ok_ex [OF demo_configureBridge(1)] by blast
  have "ages t'" using configureBridge_agingTime [OF t'] demo_table_facts(4)
    by (simp add: ages_def demo_bridge_def simtime_s_def)
  moreover have "simtime_s 1000 < simtime_max" by (simp add: simtime_s_def simtime_max_def)
  ultimately show ?thesis
    using configured_stations_are_served [OF t' _ demo_configureBridge(2,4) _ demo_configureBridge(5)] t'
    by simp
qed

theorem unknown_last_interface_blocks_learning_witness:
  "\<exists>t' t''. configureBridge 1 0x01005E000001 demo_new (demo_ifs @ [demo_radio]) (demo_bridge False) = Inr t' \<and>
     learnUnicast 2 t' 5 0x0A0000000021 0 = Inr t'' \<and> getUnicast 2 t'' 0x0A0000000021 0 = Inr (-1)"
proof -
  obtain t' where t': "configureBridge 1 0x01005E000001 demo_new (demo_ifs @ [demo_radio]) (demo_bridge False) = Inr t'"
    using is_ok_ex [OF demo_configureBridge(1)] by blast
  obtain t'' where t'': "learnUnicast 2 t' 5 0x0A0000000021 0 = Inr t''"
    using learnUnicast_total demo_configureBridge(5) by blast
  have "ages t'" "ages (demo_bridge False)" using configureBridge_agingTime [OF t'] demo_table_facts(4)
    by (simp_all add: ages_def demo_bridge_def simtime_s_def)
  then show ?thesis
    using unknown_last_interface_blocks_learning [OF t' _ demo_configureBridge(3,4) _ _ _ _ t''] t' t''
    by (simp add: simtime_max_def)
qed

theorem registerNic_reaches_every_bridge_witness:
  "\<exists>c'. registerNic 1 demo_network demo_config 21 = Inr (c', True) \<and>
     21 \<in> set (registerdNics c') \<and> has_entry (tables c') 12 0x0A0000000021"
proof -
  let ?n = "\<lparr>nodeModule = 12, nodeInterfaceTable = True, nodeIpv4RoutingTable = False, nodeIpv6RoutingTable = False\<rparr>"
  let ?r = "registerNic 1 demo_network demo_config 21"
  have "(case ?r of Inr (c', ok) \<Rightarrow> ok | Inl e \<Rightarrow> False)" by code_simp
  then obtain c' where c': "?r = Inr (c', True)" by (auto split: sum.splits prod.splits)
  have "21 \<in> set (registerdNics c') \<and> has_entry (tables c') (nodeModule ?n) 0x0A0000000021"
    by (rule registerNic_reaches_every_bridge [OF c', of 11 "[?n]" ?n
          "[\<lparr>nicLoopback = True, nicMac = 0\<rparr>, \<lparr>nicLoopback = False, nicMac = 0x0A0000000021\<rparr>,
            \<lparr>nicLoopback = False, nicMac = 0x0A0000000022\<rparr>]"])
      (simp_all add: demo_config_def demo_network_def demo_nic_def isBridgeNode_def nonLoopbackMacs_def)
  then show ?thesis using c' by simp
qed

theorem deleted_nic_stays_registered_witness:
  "registerNic 1 demo_network demo_config 11 = Inr (demo_config, False)"
proof -
  have r: "receiveSignal 1 demo_network demo_config ''deleteNic'' 11 = Inr demo_config"
    by (simp add: receiveSignal_def deleteNic_def)
  have "is_ok (registerNic 1 demo_network demo_config 11)" by code_simp
  then obtain c'' ok where run: "registerNic 1 demo_network demo_config 11 = Inr (c'', ok)"
    using is_ok_pair by blast
  have "11 \<in> set (registerdNics demo_config)" by (simp add: demo_config_def)
  from deleted_nic_stays_registered [OF this r run] run show ?thesis by simp
qed

end
