(* ===== verification/PeriodicGates.thy ===== *)
theory PeriodicGates
  imports Prelude
begin

text \<open>
  \<open>inet/queueing/gate/PeriodicGate.cc\<close> on top of \<open>base/PacketGateBase.cc\<close>: a gate that opens
  and closes after each of a list of durations, periodically, and that holds back a packet
  whose transmission would not end before the gate closes (the implicit guard band); and
  \<open>gate/GateControlList.cc\<close>, which derives the durations of the gates of a port.

  The module's clock is simulation time: \<open>now\<close> is an argument, \<open>changeTimer\<close> is \<open>None\<close> or the
  time it is scheduled for. The specification \<open>gate_spec\<close> says when the gate is open in terms
  of its parameters only; \<open>gate_run\<close> is the event-driven behaviour, and the main lemma says
  that the two agree at every instant.
\<close>

section \<open>State\<close>

record periodic_gate =
  gateIndexInList :: nat                 \<comment> \<open>\<open>index\<close>\<close>
  initiallyOpen :: bool
  initialOffset :: simtime
  gateOffset :: simtime                  \<comment> \<open>\<open>offset\<close>\<close>
  totalDuration :: simtime
  durations :: "simtime list"
  isOpen :: bool
  changeTimer :: "simtime option"
  enableImplicitGuardBand :: bool
  isInGuardBand :: bool

text \<open>What a gate tells its neighbours and its listeners.\<close>

datatype gate_note = CanPushChanged | CanPullChanged | GateStateChanged bool | GuardBandStateChanged bool

section \<open>PacketGateBase\<close>

definition base_open :: "periodic_gate \<Rightarrow> (periodic_gate \<times> gate_note list) result" where
  "base_open g = (if isOpen g then Inl AssertionFailed
     else Inr (g\<lparr>isOpen := True\<rparr>, [CanPushChanged, CanPullChanged, GateStateChanged True]))"

definition base_close :: "periodic_gate \<Rightarrow> (periodic_gate \<times> gate_note list) result" where
  "base_close g = (if \<not> isOpen g then Inl AssertionFailed
     else Inr (g\<lparr>isOpen := False\<rparr>, [CanPushChanged, CanPullChanged, GateStateChanged False]))"

definition gate_processPacket :: "periodic_gate \<Rightarrow> 'p \<Rightarrow> 'p result" where
  "gate_processPacket g p =
     (if \<not> isOpen g then Inl (RuntimeError ''a packet is being passed through while the gate is not open'')
      else Inr p)"

section \<open>PeriodicGate\<close>

fun check_durations :: "simtime list \<Rightarrow> simtime result" where
  "check_durations [] = Inr 0"
| "check_durations (d # ds) =
     (if d \<le> 0 then Inl (RuntimeError ''Unaccepted duration value'')
      else rbind (check_durations ds) (\<lambda>total. Inr (d + total)))"

definition readDurationsPar :: "periodic_gate \<Rightarrow> simtime list \<Rightarrow> periodic_gate result" where
  "readDurationsPar g par =
     (if length par mod 2 \<noteq> 0
      then Inl (RuntimeError ''The duration parameter must contain an even number of values'')
      else rbind (check_durations par) (\<lambda>total.
        Inr (g\<lparr>durations := par, totalDuration := total\<rparr>)))"

text \<open>
  The \<open>while\<close> loop of \<open>initializeGating\<close>, which consumes the durations the offset skips. Every
  turn takes a positive duration off the offset; the number of turns is bounded by the length
  of the list because the offset is less than their sum.
\<close>

fun skip_offset :: "nat \<Rightarrow> periodic_gate \<Rightarrow> periodic_gate" where
  "skip_offset 0 g = g"
| "skip_offset (Suc n) g =
     (if 0 < gateOffset g \<and> durations g ! gateIndexInList g \<le> gateOffset g
      then skip_offset n (g\<lparr>isOpen := \<not> isOpen g,
             gateOffset := gateOffset g - durations g ! gateIndexInList g,
             gateIndexInList := (gateIndexInList g + 1) mod length (durations g)\<rparr>)
      else g)"

definition scheduleChangeTimer :: "simtime \<Rightarrow> periodic_gate \<Rightarrow> periodic_gate result" where
  "scheduleChangeTimer now g =
     (if \<not> gateIndexInList g < length (durations g) then Inl AssertionFailed
      else Inr (g\<lparr>gateIndexInList := (gateIndexInList g + 1) mod length (durations g),
             changeTimer := Some (now + durations g ! gateIndexInList g - gateOffset g),
             gateOffset := 0\<rparr>))"

definition initializeGating :: "simtime \<Rightarrow> periodic_gate \<Rightarrow> periodic_gate result" where
  "initializeGating now g =
     (let g1 = g\<lparr>gateIndexInList := 0, isOpen := initiallyOpen g,
                 gateOffset := (if totalDuration g \<noteq> 0 then crem (initialOffset g) (totalDuration g) else 0)\<rparr>;
          g2 = skip_offset (length (durations g)) g1;
          g3 = g2\<lparr>changeTimer := None\<rparr>
      in if 0 < length (durations g3) then scheduleChangeTimer now g3 else Inr g3)"

text \<open>
  \<open>tx_time\<close> is the time \<open>s(length / bitrate)\<close> for a number of bits, rounded to the ticks of the
  clock; it is \<open>None\<close> if the bitrate is not a number. A packet is its length in bits.
\<close>

record flow_params =
  tx_time :: "(int \<Rightarrow> simtime) option"
  extraLength :: int
  extraDuration :: simtime

definition canPacketFlowThrough ::
  "flow_params \<Rightarrow> simtime \<Rightarrow> periodic_gate \<Rightarrow> int option \<Rightarrow> bool result" where
  "canPacketFlowThrough fp now g packet =
     (if \<not> isOpen g then Inl AssertionFailed
      else case tx_time fp of
        None \<Rightarrow> Inr True
      | Some tx \<Rightarrow>
          (case packet of
             None \<Rightarrow> Inr False
           | Some len \<Rightarrow>
               if enableImplicitGuardBand g
               then Inr (case changeTimer g of
                      None \<Rightarrow> True
                    | Some u \<Rightarrow> now + tx (len + extraLength fp) + extraDuration fp \<le> u)
               else Inr True))"

text \<open>
  The queries of the neighbours; \<open>flow\<close> is what \<open>PacketFlowBase\<close> answers, that is, the queue
  before or the consumer behind the gate.
\<close>

definition canPushSomePacket :: "flow_params \<Rightarrow> simtime \<Rightarrow> periodic_gate \<Rightarrow> bool \<Rightarrow> bool result" where
  "canPushSomePacket fp now g flow =
     (if isOpen g then rbind (canPacketFlowThrough fp now g None) (\<lambda>b. Inr (b \<and> flow)) else Inr False)"

definition canPushPacket :: "flow_params \<Rightarrow> simtime \<Rightarrow> periodic_gate \<Rightarrow> int \<Rightarrow> bool \<Rightarrow> bool result" where
  "canPushPacket fp now g p flow =
     (if isOpen g then rbind (canPacketFlowThrough fp now g (Some p)) (\<lambda>b. Inr (b \<and> flow)) else Inr False)"

definition canPullSomePacket ::
  "flow_params \<Rightarrow> simtime \<Rightarrow> periodic_gate \<Rightarrow> int option \<Rightarrow> bool \<Rightarrow> bool result" where
  "canPullSomePacket fp now g packet flow =
     (if isOpen g then rbind (canPacketFlowThrough fp now g packet) (\<lambda>b. Inr (b \<and> flow)) else Inr False)"

definition canPullPacket ::
  "flow_params \<Rightarrow> simtime \<Rightarrow> periodic_gate \<Rightarrow> int option \<Rightarrow> int option result" where
  "canPullPacket fp now g packet =
     (if isOpen g then rbind (canPacketFlowThrough fp now g packet) (\<lambda>b. Inr (if b then packet else None))
      else Inr None)"

text \<open>\<open>packet\<close> is what the provider would give, \<open>None\<close> without a provider.\<close>

definition updateIsInGuardBand ::
  "flow_params \<Rightarrow> simtime \<Rightarrow> periodic_gate \<Rightarrow> int option \<Rightarrow> (periodic_gate \<times> gate_note list) result" where
  "updateIsInGuardBand fp now g packet =
     rbind (if isOpen g \<and> packet \<noteq> None
            then rbind (canPacketFlowThrough fp now g packet) (\<lambda>b. Inr (\<not> b)) else Inr False) (\<lambda>new.
       if isInGuardBand g \<noteq> new then Inr (g\<lparr>isInGuardBand := new\<rparr>, [GuardBandStateChanged new])
       else Inr (g, []))"

definition gate_open :: "flow_params \<Rightarrow> simtime \<Rightarrow> periodic_gate \<Rightarrow> int option \<Rightarrow> (periodic_gate \<times> gate_note list) result" where
  "gate_open fp now g packet =
     rbind (base_open g) (\<lambda>(g1, n1).
     rbind (updateIsInGuardBand fp now g1 packet) (\<lambda>(g2, n2). Inr (g2, n1 @ n2)))"

definition gate_close :: "flow_params \<Rightarrow> simtime \<Rightarrow> periodic_gate \<Rightarrow> int option \<Rightarrow> (periodic_gate \<times> gate_note list) result" where
  "gate_close fp now g packet =
     rbind (base_close g) (\<lambda>(g1, n1).
     rbind (updateIsInGuardBand fp now g1 packet) (\<lambda>(g2, n2). Inr (g2, n1 @ n2)))"

definition processChangeTimer ::
  "flow_params \<Rightarrow> simtime \<Rightarrow> periodic_gate \<Rightarrow> int option \<Rightarrow> (periodic_gate \<times> gate_note list) result" where
  "processChangeTimer fp now g packet =
     (if isOpen g then gate_close fp now g packet else gate_open fp now g packet)"

definition handleChangeTimer ::
  "flow_params \<Rightarrow> simtime \<Rightarrow> periodic_gate \<Rightarrow> int option \<Rightarrow> (periodic_gate \<times> gate_note list) result" where
  "handleChangeTimer fp now g packet =
     rbind (scheduleChangeTimer now g) (\<lambda>g1. processChangeTimer fp now g1 packet)"

datatype gate_par = ParOffset simtime | ParInitiallyOpen bool | ParDurations "simtime list" | ParOther

definition handleGateParameterChange :: "simtime \<Rightarrow> periodic_gate \<Rightarrow> gate_par \<Rightarrow> periodic_gate result" where
  "handleGateParameterChange now g p =
     rbind (case p of
              ParOffset off \<Rightarrow> Inr (g\<lparr>initialOffset := off\<rparr>)
            | ParInitiallyOpen b \<Rightarrow> Inr (g\<lparr>initiallyOpen := b\<rparr>)
            | ParDurations ds \<Rightarrow> readDurationsPar g ds
            | ParOther \<Rightarrow> Inr g)
       (initializeGating now)"

text \<open>\<open>initialize\<close>: the parameters are read in the local stage, the gate starts in the queueing stage.\<close>

definition gate_initialize :: "simtime \<Rightarrow> bool \<Rightarrow> simtime \<Rightarrow> simtime list \<Rightarrow> bool \<Rightarrow> periodic_gate result" where
  "gate_initialize now initially off par guard =
     rbind (readDurationsPar
       \<lparr>gateIndexInList = 0, initiallyOpen = initially, initialOffset = off, gateOffset = 0,
        totalDuration = 0, durations = [], isOpen = False, changeTimer = None,
        enableImplicitGuardBand = guard, isInGuardBand = False\<rparr> par)
     (initializeGating now)"

section \<open>Specification\<close>

text \<open>The state at a position of the period that starts in state \<open>b\<close>.\<close>

fun state_at :: "bool \<Rightarrow> simtime list \<Rightarrow> simtime \<Rightarrow> bool" where
  "state_at b [] p = b"
| "state_at b (d # ds) p = (if p < d then b else state_at (\<not> b) ds (p - d))"

definition gate_spec :: "bool \<Rightarrow> simtime list \<Rightarrow> simtime \<Rightarrow> simtime \<Rightarrow> bool" where
  "gate_spec b ds off elapsed = (if ds = [] then b else state_at b ds ((off + elapsed) mod sum_list ds))"

definition valid_durations :: "simtime list \<Rightarrow> bool" where
  "valid_durations ds \<longleftrightarrow> length ds mod 2 = 0 \<and> list_all (\<lambda>d. 0 < d) ds"

text \<open>
  The gate between two events: \<open>g1\<close> is the gate when it was started, at \<open>start\<close>, and its timer
  fires when it is due.
  \<open>packet\<close> is what the provider would give at the time of an event.
\<close>

inductive gate_run :: "flow_params \<Rightarrow> periodic_gate \<Rightarrow> simtime \<Rightarrow> periodic_gate \<Rightarrow> simtime \<Rightarrow> bool"
  for fp g1 start where
  run_start: "gate_run fp g1 start g1 start"
| run_wait: "gate_run fp g1 start g t \<Longrightarrow> t \<le> t' \<Longrightarrow> changeTimer g = Some u \<Longrightarrow> t' < u \<Longrightarrow> gate_run fp g1 start g t'"
| run_wait_forever: "gate_run fp g1 start g t \<Longrightarrow> t \<le> t' \<Longrightarrow> changeTimer g = None \<Longrightarrow> gate_run fp g1 start g t'"
| run_fire: "gate_run fp g1 start g t \<Longrightarrow> changeTimer g = Some u \<Longrightarrow>
     handleChangeTimer fp u g packet = Inr (g', notes) \<Longrightarrow> gate_run fp g1 start g' u"

section \<open>The specification at a position\<close>

abbreviation psum :: "simtime list \<Rightarrow> nat \<Rightarrow> simtime" where
  "psum ds j \<equiv> sum_list (take j ds)"

lemma psum_Suc: "j < length ds \<Longrightarrow> psum ds (Suc j) = psum ds j + ds ! j"
  by (simp add: take_Suc_conv_app_nth)

lemma state_at_interval:
  "j < length ds \<Longrightarrow> list_all (\<lambda>d. 0 < d) ds \<Longrightarrow> psum ds j \<le> p \<Longrightarrow> p < psum ds (Suc j)
     \<Longrightarrow> state_at b ds p = (b \<noteq> odd j)"
proof (induction ds arbitrary: b j p)
  case Nil
  then show ?case by simp
next
  case (Cons d ds)
  show ?case
  proof (cases j)
    case 0
    then show ?thesis using Cons.prems by simp
  next
    case (Suc i)
    have "0 \<le> psum ds i" using Cons.prems(2) 
      by (intro sum_list_nonneg) (auto simp: list_all_iff dest!: in_set_takeD intro: less_imp_le)
    then have "d \<le> p" using Cons.prems(3) Suc by simp
    then show ?thesis using Cons.prems Cons.IH [of i "p - d" "\<not> b"] Suc by auto
  qed
qed

lemma psum_bounds:
  assumes "list_all (\<lambda>d. 0 < d) ds" "j \<le> length ds"
  shows "0 \<le> psum ds j \<and> psum ds j \<le> sum_list ds"
proof -
  have nonneg: "0 \<le> sum_list xs" if "list_all (\<lambda>d. 0 < d) xs" for xs :: "int list"
    using that by (induction xs) auto
  have "sum_list ds = psum ds j + sum_list (drop j ds)"
    by (metis append_take_drop_id sum_list.append)
  moreover have "list_all (\<lambda>d. 0 < d) (take j ds)" "list_all (\<lambda>d. 0 < d) (drop j ds)"
    using assms(1) by (auto simp: list_all_iff dest: in_set_takeD in_set_dropD)
  ultimately show ?thesis using nonneg [of "take j ds"] nonneg [of "drop j ds"] by simp
qed

lemma valid_sum_pos: "valid_durations ds \<Longrightarrow> ds \<noteq> [] \<Longrightarrow> 0 < sum_list ds"
  unfolding valid_durations_def
  by (cases ds) (auto intro!: add_pos_nonneg sum_list_nonneg simp: list_all_iff dest: less_imp_le)

text \<open>A position given by the running period \<open>k\<close> and the interval \<open>j\<close>.\<close>

lemma gate_spec_interval:
  assumes "valid_durations ds" "j < length ds"
    and "k * sum_list ds + psum ds j \<le> off + t" "off + t < k * sum_list ds + psum ds (Suc j)"
  shows "gate_spec b ds off t = (b \<noteq> odd j)"
proof -
  have pos: "list_all (\<lambda>d. 0 < d) ds" using assms(1) by (simp add: valid_durations_def)
  let ?p = "off + t - k * sum_list ds"
  have "0 \<le> ?p" "?p < sum_list ds"
    using assms(2-4) psum_bounds [OF pos, of j] psum_bounds [OF pos, of "Suc j"] by auto
  then have "(off + t) mod sum_list ds = ?p"
    by (metis add_diff_cancel_left' diff_add_cancel mod_mult_self3 mod_pos_pos_trivial)
  then show ?thesis
    using assms(2-4) state_at_interval [OF assms(2) pos, of ?p b] by (auto simp: gate_spec_def)
qed

section \<open>The gate refines its specification\<close>

lemma check_durations_ok:
  "check_durations ds = Inr s \<longleftrightarrow> list_all (\<lambda>d. 0 < d) ds \<and> s = sum_list ds"
  by (induction ds arbitrary: s) (auto simp: rbind_Inr_iff)

definition gate_ready :: "periodic_gate \<Rightarrow> bool" where
  "gate_ready g \<longleftrightarrow> valid_durations (durations g) \<and> totalDuration g = sum_list (durations g)"

lemma readDurationsPar_ready:
  "readDurationsPar g ds = Inr g' \<Longrightarrow> gate_ready g' \<and> durations g' = ds \<and>
     initiallyOpen g' = initiallyOpen g \<and> initialOffset g' = initialOffset g"
  by (auto simp: readDurationsPar_def gate_ready_def valid_durations_def rbind_Inr_iff check_durations_ok
      split: if_splits)

definition start_offset :: "periodic_gate \<Rightarrow> simtime" where
  "start_offset g = (if durations g = [] then 0 else initialOffset g mod sum_list (durations g))"

text \<open>The invariant between events: \<open>j\<close> is the running interval, \<open>k\<close> the running period.\<close>

definition gate_inv :: "periodic_gate \<Rightarrow> simtime \<Rightarrow> periodic_gate \<Rightarrow> simtime \<Rightarrow> bool" where
  "gate_inv g0 start g t \<longleftrightarrow>
     durations g = durations g0 \<and> gateOffset g = 0 \<and>
     (\<exists>j k u. j < length (durations g0) \<and> gateIndexInList g = (j + 1) mod length (durations g0) \<and>
        isOpen g = (initiallyOpen g0 \<noteq> odd j) \<and> changeTimer g = Some u \<and> t < u \<and>
        start_offset g0 + (u - start) = k * sum_list (durations g0) + psum (durations g0) (Suc j) \<and>
        k * sum_list (durations g0) + psum (durations g0) j \<le> start_offset g0 + (t - start))"

lemma gate_inv_spec:
  assumes "gate_ready g0" "gate_inv g0 start g t"
  shows "isOpen g = gate_spec (initiallyOpen g0) (durations g0) (start_offset g0) (t - start)"
proof -
  obtain j k u where j: "j < length (durations g0)" "isOpen g = (initiallyOpen g0 \<noteq> odd j)" "t < u"
    "start_offset g0 + (u - start) = k * sum_list (durations g0) + psum (durations g0) (Suc j)"
    "k * sum_list (durations g0) + psum (durations g0) j \<le> start_offset g0 + (t - start)"
    using assms(2) by (auto simp: gate_inv_def)
  have "valid_durations (durations g0)" using assms(1) by (simp add: gate_ready_def)
  then show ?thesis
    using gate_spec_interval [of "durations g0" j k "start_offset g0" "t - start" "initiallyOpen g0"] j by simp
qed

lemma skip_offset_inv:
  assumes "gateIndexInList g + n = length (durations g)" "0 < n" "list_all (\<lambda>d. 0 < d) (durations g)"
    and "psum (durations g) (gateIndexInList g) + gateOffset g < sum_list (durations g)" "0 \<le> gateOffset g"
    and "isOpen g = (b \<noteq> odd (gateIndexInList g))"
  shows "let h = skip_offset n g; i = gateIndexInList h in
     durations h = durations g \<and> i < length (durations g) \<and> 0 \<le> gateOffset h \<and>
     gateOffset h < durations g ! i \<and> isOpen h = (b \<noteq> odd i) \<and>
     psum (durations g) i + gateOffset h = psum (durations g) (gateIndexInList g) + gateOffset g"
  using assms
proof (induction n arbitrary: g)
  case 0
  then show ?case by simp
next
  case (Suc n)
  let ?ds = "durations g" and ?i = "gateIndexInList g"
  have i: "?i < length ?ds" using Suc.prems(1) by simp
  have pos: "0 < ?ds ! ?i" using Suc.prems(3) i by (simp add: list_all_length)
  show ?case
  proof (cases "?ds ! ?i \<le> gateOffset g")
    case False
    then show ?thesis using Suc.prems i by (simp add: Let_def)
  next
    case True
    have "psum ?ds (Suc ?i) \<le> psum ?ds ?i + gateOffset g" using True i by (simp add: psum_Suc)
    also have "\<dots> < sum_list ?ds" by fact
    finally have "Suc ?i \<noteq> length ?ds" by auto
    then have next_i: "(?i + 1) mod length ?ds = Suc ?i" "0 < n" using i Suc.prems(1) by auto
    let ?h = "g\<lparr>isOpen := \<not> isOpen g, gateOffset := gateOffset g - ?ds ! ?i,
               gateIndexInList := (?i + 1) mod length ?ds\<rparr>"
    have "skip_offset (Suc n) g = skip_offset n ?h" using True pos by simp
    moreover have "psum ?ds (Suc ?i) + (gateOffset g - ?ds ! ?i) = psum ?ds ?i + gateOffset g"
      using i by (simp add: psum_Suc)
    ultimately show ?thesis
      using Suc.IH [of ?h] Suc.prems next_i True by (simp add: Let_def)
  qed
qed

lemma crem_offset: "0 \<le> a \<Longrightarrow> 0 < b \<Longrightarrow> crem a b = a mod b" by (rule crem_nonneg)

lemma initializeGating_inv:
  assumes "gate_ready g0" "durations g0 \<noteq> []" "0 \<le> initialOffset g0" "initializeGating start g0 = Inr g"
  shows "gate_inv g0 start g start"
proof -
  let ?ds = "durations g0" and ?n = "length (durations g0)"
  have pos: "list_all (\<lambda>d. 0 < d) ?ds" and total: "totalDuration g0 = sum_list ?ds" "0 < sum_list ?ds"
    using assms(1,2) valid_sum_pos by (auto simp: gate_ready_def valid_durations_def)
  let ?g1 = "g0\<lparr>gateIndexInList := 0, isOpen := initiallyOpen g0, gateOffset := initialOffset g0 mod sum_list ?ds\<rparr>"
  let ?h = "skip_offset ?n ?g1" and ?i = "gateIndexInList (skip_offset ?n ?g1)"
  have off: "0 \<le> initialOffset g0 mod sum_list ?ds" "initialOffset g0 mod sum_list ?ds < sum_list ?ds"
    using total(2) by simp_all
  have h: "durations ?h = ?ds" "?i < ?n" "0 \<le> gateOffset ?h" "gateOffset ?h < ?ds ! ?i"
    "isOpen ?h = (initiallyOpen g0 \<noteq> odd ?i)" "psum ?ds ?i + gateOffset ?h = initialOffset g0 mod sum_list ?ds"
    using skip_offset_inv [of ?g1 ?n "initiallyOpen g0"] assms(2) pos off by (simp_all add: Let_def)
  have "g = ?h\<lparr>gateIndexInList := (?i + 1) mod ?n,
      changeTimer := Some (start + ?ds ! ?i - gateOffset ?h), gateOffset := 0\<rparr>"
    using assms(2-4) total h(1,2)
    by (simp add: initializeGating_def scheduleChangeTimer_def Let_def crem_nonneg)
  then have g: "durations g = ?ds" "gateOffset g = 0" "gateIndexInList g = (?i + 1) mod ?n" "isOpen g = isOpen ?h"
    "changeTimer g = Some (start + ?ds ! ?i - gateOffset ?h)"
    using h(1) by simp_all
  have "start_offset g0 + (start + ?ds ! ?i - gateOffset ?h - start) = 0 * sum_list ?ds + psum ?ds (Suc ?i)"
    using h(2,6) assms(2) by (simp add: start_offset_def psum_Suc)
  moreover have "0 * sum_list ?ds + psum ?ds ?i \<le> start_offset g0 + (start - start)"
    using h(3,6) assms(2) by (simp add: start_offset_def)
  moreover have "start < start + ?ds ! ?i - gateOffset ?h" using h(4) by simp
  ultimately show ?thesis
    unfolding gate_inv_def using g h(2,5) by blast
qed

lemma processChangeTimer_frame:
  assumes "processChangeTimer fp now g packet = Inr (g', notes)"
  shows "isOpen g' = (\<not> isOpen g) \<and> durations g' = durations g \<and> gateOffset g' = gateOffset g \<and>
    gateIndexInList g' = gateIndexInList g \<and> changeTimer g' = changeTimer g"
  using assms
  by (auto simp: processChangeTimer_def gate_open_def gate_close_def base_open_def base_close_def
      updateIsInGuardBand_def rbind_Inr_iff split: if_splits)

lemma handleChangeTimer_inv:
  assumes "gate_ready g0" "gate_inv g0 start g t" "changeTimer g = Some u"
    and "handleChangeTimer fp u g packet = Inr (g', notes)"
  shows "gate_inv g0 start g' u"
proof -
  let ?ds = "durations g0" and ?n = "length (durations g0)"
  have valid: "list_all (\<lambda>d. 0 < d) ?ds" "even ?n"
    using assms(1) by (auto simp: gate_ready_def valid_durations_def)
  obtain j k where j: "j < ?n" "gateIndexInList g = (j + 1) mod ?n" "isOpen g = (initiallyOpen g0 \<noteq> odd j)"
    "start_offset g0 + (u - start) = k * sum_list ?ds + psum ?ds (Suc j)"
    "durations g = ?ds" "gateOffset g = 0"
    using assms(2,3) by (auto simp: gate_inv_def)
  let ?i = "(j + 1) mod ?n"
  have i: "?i < ?n" using j(1) by (intro mod_less_divisor) auto
  have "isOpen g' = (\<not> isOpen g)" "durations g' = ?ds" "gateOffset g' = 0"
    "gateIndexInList g' = (?i + 1) mod ?n" "changeTimer g' = Some (u + ?ds ! ?i)"
    using assms(4) j i
    by (auto simp: handleChangeTimer_def scheduleChangeTimer_def rbind_Inr_iff dest!: processChangeTimer_frame)
  moreover have "0 < ?ds ! ?i" using valid(1) i by (simp add: list_all_length)
  moreover obtain k' where "k' * sum_list ?ds + psum ?ds ?i = start_offset g0 + (u - start)"
    "odd ?i = (\<not> odd j)"
  proof (cases "j + 1 = ?n")
    case True
    then have "(k + 1) * sum_list ?ds + psum ?ds 0 = start_offset g0 + (u - start)" "?i = 0" "odd j"
      using j(4) valid(2) by (simp_all add: distrib_right) presburger
    then show ?thesis using that [of "k + 1"] by simp
  next
    case False
    then have "?i = Suc j" using j(1) by simp
    then show ?thesis using that [of k] j(4) by simp
  qed
  moreover have "psum ?ds (Suc ?i) = psum ?ds ?i + ?ds ! ?i" using i by (rule psum_Suc)
  ultimately show ?thesis
    unfolding gate_inv_def using i j(3)
    by (intro conjI exI [of _ ?i] exI [of _ k'] exI [of _ "u + ?ds ! ?i"]) auto
qed

lemma gate_run_inv:
  assumes "gate_run fp g1 start g t" "gate_ready g0" "durations g0 \<noteq> []" "0 \<le> initialOffset g0"
    and "initializeGating start g0 = Inr g1"
  shows "gate_inv g0 start g t"
  using assms(1)
proof induction
  case run_start
  show ?case by (rule initializeGating_inv [OF assms(2-5)])
next
  case (run_wait g t t' u)
  from run_wait.IH obtain j k v where j: "j < length (durations g0)"
      "gateIndexInList g = (j + 1) mod length (durations g0)" "isOpen g = (initiallyOpen g0 \<noteq> odd j)"
      "changeTimer g = Some v"
      "start_offset g0 + (v - start) = k * sum_list (durations g0) + psum (durations g0) (Suc j)"
      "k * sum_list (durations g0) + psum (durations g0) j \<le> start_offset g0 + (t - start)"
    and "durations g = durations g0" "gateOffset g = 0"
    unfolding gate_inv_def by blast
  moreover have "t' < v" "k * sum_list (durations g0) + psum (durations g0) j \<le> start_offset g0 + (t' - start)"
    using run_wait j by auto
  ultimately show ?case unfolding gate_inv_def by blast
next
  case (run_wait_forever g t t')
  then show ?case by (auto simp: gate_inv_def)
next
  case (run_fire g t u packet g' ns)
  then show ?case using handleChangeTimer_inv [OF assms(2)] by blast
qed

lemma gate_run_spec:
  assumes "gate_run fp g1 start g t" "gate_ready g0" "0 \<le> initialOffset g0" "durations g0 \<noteq> []"
    and "initializeGating start g0 = Inr g1"
  shows "isOpen g = gate_spec (initiallyOpen g0) (durations g0) (start_offset g0) (t - start)"
  using gate_inv_spec [OF assms(2) gate_run_inv [OF assms(1,2,4,3,5)]] .

section \<open>Properties\<close>

text \<open>
  C2. Functional refinement of the gate: at every instant of every run, between timer events,
  the gate is open exactly when its specification says so, that is, when the position
  (offset plus elapsed time, modulo the period) lies in an interval of the list in which the
  alternation that begins with \<open>initiallyOpen\<close> is open.
\<close>

theorem periodic_gate_refines_spec:
  assumes "gate_ready g0" "0 \<le> initialOffset g0" "durations g0 \<noteq> []"
    and "initializeGating start g0 = Inr g1" "gate_run fp g1 start g t"
  shows "isOpen g = gate_spec (initiallyOpen g0) (durations g0) (start_offset g0) (t - start)"
  by (rule gate_run_spec [OF assms(5,1,2,3,4)])

lemma canPacketFlowThrough_total:
  "isOpen g \<Longrightarrow> \<exists>b. canPacketFlowThrough fp now g packet = Inr b"
  by (auto simp: canPacketFlowThrough_def split: option.splits)

lemma processChangeTimer_total:
  "\<exists>g' ns. processChangeTimer fp now g packet = Inr (g', ns)"
proof -
  have upd: "\<exists>h ns. updateIsInGuardBand fp now h0 packet = Inr (h, ns)" for h0
    using canPacketFlowThrough_total [of h0 fp now packet]
    by (cases "isOpen h0 \<and> packet \<noteq> None") (auto simp: updateIsInGuardBand_def)
  show ?thesis
    using upd [of "g\<lparr>isOpen := \<not> isOpen g\<rparr>"]
    by (cases "isOpen g") (auto simp: processChangeTimer_def gate_open_def gate_close_def
        base_open_def base_close_def)
qed

text \<open>
  The gate never gets stuck: in every reachable state the timer is set, it is due in the
  future, and handling it succeeds (the assertions that a closed gate is opened and an open one
  closed hold) and sets it again.
\<close>

theorem periodic_gate_never_stuck:
  assumes "gate_ready g0" "0 \<le> initialOffset g0" "durations g0 \<noteq> []"
    and "initializeGating start g0 = Inr g1" "gate_run fp g1 start g t"
  shows "\<exists>u g' ns u'. changeTimer g = Some u \<and> t < u \<and> handleChangeTimer fp u g packet = Inr (g', ns) \<and>
           isOpen g' = (\<not> isOpen g) \<and> changeTimer g' = Some u' \<and> u < u'"
proof -
  have inv: "gate_inv g0 start g t" by (rule gate_run_inv [OF assms(5,1,3,2,4)])
  then obtain u j where u: "changeTimer g = Some u" "t < u"
    and "gateIndexInList g = (j + 1) mod length (durations g0)" "durations g = durations g0"
    unfolding gate_inv_def by blast
  then have idx: "gateIndexInList g < length (durations g)" using assms(3) by simp
  obtain g1 where g1: "scheduleChangeTimer u g = Inr g1" "isOpen g1 = isOpen g"
    using idx by (simp add: scheduleChangeTimer_def)
  obtain g' ns where g': "processChangeTimer fp u g1 packet = Inr (g', ns)"
    using processChangeTimer_total by blast
  then have run: "handleChangeTimer fp u g packet = Inr (g', ns)" by (simp add: handleChangeTimer_def g1)
  from handleChangeTimer_inv [OF assms(1) inv u(1) run] have "\<exists>u'. changeTimer g' = Some u' \<and> u < u'"
    by (auto simp: gate_inv_def)
  then show ?thesis using u run processChangeTimer_frame [OF g'] g1(2) by blast
qed

lemma gate_inv_until_timer:
  assumes "gate_inv g0 start g t" "changeTimer g = Some u" "t \<le> t'" "t' < u"
  shows "gate_inv g0 start g t'"
proof -
  from assms(1,2) obtain j k where j: "j < length (durations g0)"
      "gateIndexInList g = (j + 1) mod length (durations g0)" "isOpen g = (initiallyOpen g0 \<noteq> odd j)"
      "start_offset g0 + (u - start) = k * sum_list (durations g0) + psum (durations g0) (Suc j)"
      "k * sum_list (durations g0) + psum (durations g0) j \<le> start_offset g0 + (t - start)"
    and "durations g = durations g0" "gateOffset g = 0"
    unfolding gate_inv_def by force
  moreover have "k * sum_list (durations g0) + psum (durations g0) j \<le> start_offset g0 + (t' - start)"
    using assms(3) j by auto
  ultimately show ?thesis unfolding gate_inv_def using assms(2,4) by blast
qed

text \<open>
  C33. The implicit guard band: if it is enabled, the bitrate is known, and an open gate lets a packet
  through at time \<open>now\<close>, the gate is open, by its specification, during the whole transmission of the
  packet and its overhead.
\<close>

theorem guard_band_protects_transmission:
  assumes "gate_ready g0" "0 \<le> initialOffset g0" "durations g0 \<noteq> []"
    and "initializeGating start g0 = Inr g1" "gate_run fp g1 start g now" "isOpen g" "enableImplicitGuardBand g" "tx_time fp = Some tx"
    and "canPacketFlowThrough fp now g (Some len) = Inr True"
    and "now \<le> t" "t < now + tx (len + extraLength fp) + extraDuration fp"
  shows "gate_spec (initiallyOpen g0) (durations g0) (start_offset g0) (t - start)"
proof -
  have inv: "gate_inv g0 start g now" by (rule gate_run_inv [OF assms(5,1,3,2,4)])
  then obtain u where u: "changeTimer g = Some u" by (auto simp: gate_inv_def)
  with assms(6-9,11) have "t < u" by (simp add: canPacketFlowThrough_def)
  then have "gate_inv g0 start g t" by (rule gate_inv_until_timer [OF inv u assms(10)])
  from gate_inv_spec [OF assms(1) this] assms(6) show ?thesis by simp
qed

text \<open>
  Which parameters are accepted: a list of durations is read without an error exactly if it
  has even length and only positive values; the period is then its sum.
\<close>

theorem readDurationsPar_accepts:
  "(\<exists>g'. readDurationsPar g ds = Inr g') = valid_durations ds"
proof
  assume "\<exists>g'. readDurationsPar g ds = Inr g'"
  then show "valid_durations ds" using readDurationsPar_ready by (auto simp: gate_ready_def)
next
  assume "valid_durations ds"
  then have "check_durations ds = Inr (sum_list ds)" "length ds mod 2 = 0"
    by (simp_all add: check_durations_ok valid_durations_def)
  then show "\<exists>g'. readDurationsPar g ds = Inr g'" by (simp add: readDurationsPar_def)
qed

section \<open>A concrete gate\<close>

definition demo_gate :: periodic_gate where
  "demo_gate = \<lparr>gateIndexInList = 0, initiallyOpen = True, initialOffset = simtime_us 15, gateOffset = 0,
     totalDuration = simtime_us 100, durations = [simtime_us 10, simtime_us 90], isOpen = False,
     changeTimer = None, enableImplicitGuardBand = True, isInGuardBand = False\<rparr>"

definition demo_flow :: flow_params where
  "demo_flow = \<lparr>tx_time = Some (\<lambda>bits. bits * 1000), extraLength = 0, extraDuration = 0\<rparr>"

text \<open>The gate after \<open>initializeGating\<close> at time 0, and after its first timer event at 85us.\<close>

definition demo_gate0 :: periodic_gate where
  "demo_gate0 = demo_gate\<lparr>gateIndexInList := 0, isOpen := False, changeTimer := Some (simtime_us 85)\<rparr>"

definition demo_gate1 :: periodic_gate where
  "demo_gate1 = demo_gate\<lparr>gateIndexInList := 1, isOpen := True, changeTimer := Some (simtime_us 95)\<rparr>"

lemma demo_ready: "gate_ready demo_gate" "0 \<le> initialOffset demo_gate" "durations demo_gate \<noteq> []"
  by (simp_all add: demo_gate_def gate_ready_def valid_durations_def simtime_us_def)

lemma demo_gate_starts: "initializeGating 0 demo_gate = Inr demo_gate0"
  by (simp add: demo_gate_def demo_gate0_def initializeGating_def simtime_us_def crem_def Let_def
      eval_nat_numeral scheduleChangeTimer_def)

lemma demo_gate_fires: "handleChangeTimer demo_flow (simtime_us 85) demo_gate0 None
    = Inr (demo_gate1, [CanPushChanged, CanPullChanged, GateStateChanged True])"
  by (simp add: demo_gate_def demo_gate0_def demo_gate1_def handleChangeTimer_def scheduleChangeTimer_def
      processChangeTimer_def gate_open_def base_open_def updateIsInGuardBand_def simtime_us_def)

lemma demo_gate_run: "gate_run demo_flow demo_gate0 0 demo_gate1 (simtime_us 85)"
  by (rule run_fire [OF run_start _ demo_gate_fires]) (simp add: demo_gate0_def)

theorem periodic_gate_refines_spec_witness:
  "isOpen demo_gate1 = gate_spec True [simtime_us 10, simtime_us 90] (simtime_us 15) (simtime_us 85)"
  using periodic_gate_refines_spec [OF demo_ready demo_gate_starts demo_gate_run]
  by (simp add: start_offset_def demo_gate_def simtime_us_def)

theorem periodic_gate_never_stuck_witness:
  "\<exists>g' ns u'. handleChangeTimer demo_flow (simtime_us 95) demo_gate1 (Some 8) = Inr (g', ns) \<and>
     \<not> isOpen g' \<and> changeTimer g' = Some u' \<and> simtime_us 95 < u'"
  using periodic_gate_never_stuck [OF demo_ready demo_gate_starts demo_gate_run, of "Some 8"]
  by (auto simp: demo_gate1_def)

theorem guard_band_protects_transmission_witness:
  "canPacketFlowThrough demo_flow (simtime_us 85) demo_gate1 (Some 8000) = Inr True \<and>
   gate_spec True [simtime_us 10, simtime_us 90] (simtime_us 15) (simtime_us 92)"
proof -
  have flow: "tx_time demo_flow = Some (\<lambda>bits. bits * 1000)" by (simp add: demo_flow_def)
  have can: "canPacketFlowThrough demo_flow (simtime_us 85) demo_gate1 (Some 8000) = Inr True"
    by (simp add: canPacketFlowThrough_def demo_flow_def demo_gate1_def demo_gate_def simtime_us_def)
  have "isOpen demo_gate1" "enableImplicitGuardBand demo_gate1" by (simp_all add: demo_gate1_def demo_gate_def)
  from guard_band_protects_transmission [OF demo_ready demo_gate_starts demo_gate_run this flow can, of "simtime_us 92"] can
  show ?thesis by (simp add: demo_flow_def simtime_us_def start_offset_def demo_gate_def)
qed

end
