(* ===== verification/GateSchedule.thy ===== *)
theory GateSchedule
  imports PeriodicGates
begin

text \<open>
  \<open>GateScheduleConfiguratorBase::configureGateScheduling\<close>
  (\<open>inet/linklayer/configurator/gatescheduling/base\<close>): a schedule (a list of slots within a
  cycle) is turned into the parameters \<open>initiallyOpen\<close>, \<open>offset\<close> and \<open>durations\<close> of the
  \<open>PeriodicGate\<close> of a traffic class. The main property is that the gate, run with those
  parameters, is open exactly in the slots of the schedule.

  Times pass through \<open>cValue\<close>s as doubles in seconds; they are kept exact here.
\<close>

section \<open>Schedules\<close>

record slot =
  slotStart :: simtime
  slotDuration :: simtime

record gate_schedule =
  schedPort :: nat
  schedGateIndex :: nat
  cycleStart :: simtime
  cycleDuration :: simtime
  slots :: "slot list"
  schedOpen :: bool              \<comment> \<open>slots define open or closed intervals\<close>

abbreviation slotEnd :: "slot \<Rightarrow> simtime" where
  "slotEnd s \<equiv> slotStart s + slotDuration s"

section \<open>Configuring a gate\<close>

text \<open>The loop over the slots; the state is (\<open>initiallyOpen\<close>, \<open>durations\<close>, \<open>slotEnd\<close>).\<close>

definition addSlot ::
  "simtime \<Rightarrow> bool \<Rightarrow> bool \<times> simtime list \<times> simtime \<Rightarrow> slot \<Rightarrow> (bool \<times> simtime list \<times> simtime) result" where
  "addSlot gateCycle opn = (\<lambda>(initially, ds, e) s.
     if slotStart s < 0 \<or> gateCycle < slotStart s + slotDuration s
     then Inl (RuntimeError ''Invalid slot start and/or duration'')
     else if slotStart s = 0 then Inr (opn, ds @ [slotDuration s], slotEnd s)
     else rbind (ensure (0 \<le> slotStart s - e)) (\<lambda>_.
            Inr (initially, ds @ [slotStart s - e, slotDuration s], slotEnd s)))"

definition gateParameters :: "simtime \<Rightarrow> gate_schedule \<Rightarrow> (bool \<times> simtime \<times> simtime list) result" where
  "gateParameters gateCycle sch =
     rbind (foldM (addSlot gateCycle (schedOpen sch)) (\<not> schedOpen sch, [], 0) (slots sch)) (\<lambda>(initially, ds, e).
       let remaining = cycleDuration sch - e in
       if e \<noteq> 0 then
         (let ds1 = (if remaining \<noteq> 0 then ds @ [remaining] else ds) in
          if length ds1 mod 2 \<noteq> 0 then
            (if 1 < length ds1
             then Inr (initially, last ds1, butlast (ds1[0 := ds1 ! 0 + last ds1]))
             else Inr (initially, 0, butlast ds1))
          else Inr (initially, 0, ds1))
       else Inr (initially, 0, ds))"

text \<open>
  The schedules of a port are indexed by traffic class; nothing is written when there are no
  durations, otherwise the three parameters are set one after the other, each of which calls
  \<open>PeriodicGate::handleParameterChange\<close>.
\<close>

definition setGateParameters ::
  "simtime \<Rightarrow> periodic_gate \<Rightarrow> bool \<times> simtime \<times> simtime list \<Rightarrow> periodic_gate result" where
  "setGateParameters now g = (\<lambda>(initially, off, ds).
     if ds = [] then Inr g
     else rbind (handleGateParameterChange now g (ParInitiallyOpen initially)) (\<lambda>g1.
          rbind (handleGateParameterChange now g1 (ParOffset off)) (\<lambda>g2.
          handleGateParameterChange now g2 (ParDurations ds))))"

definition configureGateScheduling ::
  "simtime \<Rightarrow> simtime \<Rightarrow> (nat \<Rightarrow> gate_schedule list option) \<Rightarrow> nat \<Rightarrow> nat \<Rightarrow> periodic_gate \<Rightarrow> periodic_gate result" where
  "configureGateScheduling now gateCycle gateSchedules port gateIndex g =
     (case gateSchedules port of
        None \<Rightarrow> Inl (RuntimeError ''Cannot find schedule for interface'')
      | Some schedules \<Rightarrow>
          if length schedules \<le> gateIndex
          then Inl (RuntimeError ''Cannot find schedule for traffic class'')
          else rbind (gateParameters gateCycle (schedules ! gateIndex)) (setGateParameters now g))"

section \<open>What a schedule means\<close>

definition in_slot :: "slot list \<Rightarrow> simtime \<Rightarrow> bool" where
  "in_slot ss p \<longleftrightarrow> list_ex (\<lambda>s. slotStart s \<le> p \<and> p < slotEnd s) ss"

text \<open>The gate state a schedule asks for at a position of its cycle.\<close>

definition scheduled_open :: "gate_schedule \<Rightarrow> simtime \<Rightarrow> bool" where
  "scheduled_open sch p \<longleftrightarrow> (in_slot (slots sch) p \<longleftrightarrow> schedOpen sch)"

text \<open>
  Slots in order, of positive length, apart from each other and inside the cycle. Only the
  first one may touch the beginning of the cycle.
\<close>

fun separated :: "simtime \<Rightarrow> simtime \<Rightarrow> slot list \<Rightarrow> bool" where
  "separated cyc e [] = True"
| "separated cyc e (s # ss) =
     (e < slotStart s \<and> 0 < slotDuration s \<and> slotEnd s \<le> cyc \<and> separated cyc (slotEnd s) ss)"

definition valid_schedule :: "simtime \<Rightarrow> gate_schedule \<Rightarrow> bool" where
  "valid_schedule gateCycle sch \<longleftrightarrow>
     cycleDuration sch = gateCycle \<and> 0 < gateCycle \<and> slots sch \<noteq> [] \<and>
     (case slots sch of [] \<Rightarrow> True
      | s # ss \<Rightarrow> 0 \<le> slotStart s \<and> 0 < slotDuration s \<and> slotEnd s \<le> gateCycle \<and>
                  separated gateCycle (slotEnd s) ss)"

section \<open>Lemmas\<close>

fun gaps :: "simtime \<Rightarrow> slot list \<Rightarrow> simtime list" where
  "gaps e [] = []"
| "gaps e (s # ss) = (slotStart s - e) # slotDuration s # gaps (slotEnd s) ss"

fun end_of :: "simtime \<Rightarrow> slot list \<Rightarrow> simtime" where
  "end_of e [] = e"
| "end_of e (s # ss) = end_of (slotEnd s) ss"

lemma gaps_facts:
  "separated cyc e ss \<Longrightarrow> e \<le> cyc \<Longrightarrow> list_all (\<lambda>d. 0 < d) (gaps e ss) \<and> sum_list (gaps e ss) = end_of e ss - e \<and>
     even (length (gaps e ss)) \<and> end_of e ss \<le> cyc \<and> e \<le> end_of e ss"
  by (induction cyc e ss rule: separated.induct) auto

lemma addSlot_loop:
  assumes "separated cyc e ss" "0 \<le> e"
  shows "foldM (addSlot cyc opn) (b, ds, e) ss = Inr (b, ds @ gaps e ss, end_of e ss)"
  using assms by (induction ss arbitrary: ds e) (auto simp: addSlot_def ensure_def)

lemma state_at_append:
  assumes "list_all (\<lambda>d. 0 < d) xs" "0 \<le> p"
  shows "state_at b (xs @ ys) p =
    (if p < sum_list xs then state_at b xs p else state_at (b \<noteq> odd (length xs)) ys (p - sum_list xs))"
  using assms
proof (induction xs arbitrary: b p)
  case Nil
  then show ?case by (cases ys) auto
next
  case (Cons d xs)
  have "0 \<le> sum_list xs" using Cons.prems by (intro sum_list_nonneg) (auto simp: list_all_iff intro: less_imp_le)
  then show ?case using Cons by (auto simp: algebra_simps)
qed

lemma in_slot_simps [simp]:
  "in_slot [] p = False"
  "in_slot (s # ss) p = (slotStart s \<le> p \<and> p < slotEnd s \<or> in_slot ss p)"
  by (simp_all add: in_slot_def)

lemma not_in_later_slot: "separated cyc e ss \<Longrightarrow> p \<le> e \<Longrightarrow> \<not> in_slot ss p"
  by (induction cyc e ss arbitrary: p rule: separated.induct) auto

text \<open>The alternation of gaps and slots is the characteristic function of the slots.\<close>

lemma state_at_gaps:
  "separated cyc e ss \<Longrightarrow> e \<le> p \<Longrightarrow> state_at (\<not> opn) (gaps e ss) (p - e) = (in_slot ss p = opn)"
proof (induction cyc e ss rule: separated.induct)
  case (1 cyc e)
  then show ?case by simp
next
  case (2 cyc e s ss)
  have "separated cyc (slotEnd s) ss" using 2(2) by simp
  then have later: "\<not> in_slot ss p" if "p \<le> slotEnd s" using not_in_later_slot that by blast
  consider "p < slotStart s" | "slotStart s \<le> p" "p < slotEnd s" | "slotEnd s \<le> p" by linarith
  then show ?case
  proof cases
    case 1
    then show ?thesis using 2(2) later by auto
  next
    case two: 2
    then show ?thesis using 2(2) by auto
  next
    case 3
    then have "state_at (\<not> opn) (gaps e (s # ss)) (p - e) = state_at (\<not> opn) (gaps (slotEnd s) ss) (p - slotEnd s)"
      using 2(2) by (auto simp: algebra_simps)
    also have "\<dots> = (in_slot ss p = opn)" using 2 3 by simp
    finally show ?thesis using 3 by auto
  qed
qed

text \<open>Moving the last interval of an odd list to the front, and the start of the period with it.\<close>

lemma rotate_odd:
  assumes "list_all (\<lambda>d. 0 < d) (x # ms @ [r])" "odd (length ms)"
    and "0 \<le> t" "t < sum_list (x # ms @ [r])"
  shows "state_at b ((x + r) # ms) ((r + t) mod sum_list (x # ms @ [r])) = state_at b (x # ms @ [r]) t"
proof -
  let ?c = "sum_list (x # ms @ [r])"
  have pos: "0 < x" "0 < r" "list_all (\<lambda>d. 0 < d) (x # ms)" "0 \<le> sum_list ms"
    using assms(1) by (auto intro!: sum_list_nonneg simp: list_all_iff dest: less_imp_le)
  have D: "state_at b (x # ms @ [r]) t =
      (if t < x + sum_list ms then state_at b (x # ms) t else state_at (b \<noteq> odd (Suc (length ms))) [r] (t - (x + sum_list ms)))"
    using state_at_append [OF pos(3), of t b "[r]"] assms(3) by simp
  show ?thesis
  proof (cases "t < x + sum_list ms")
    case True
    then have "(r + t) mod ?c = r + t" using assms(3) pos by (intro mod_pos_pos_trivial) auto
    then show ?thesis using True D by simp
  next
    case False
    have "(r + t) mod ?c = (r + t - ?c) mod ?c" by (metis minus_mod_self2)
    also have "\<dots> = r + t - ?c" using False assms(4) pos by (intro mod_pos_pos_trivial) auto
    finally have "(r + t) mod ?c = r + t - ?c" .
    then show ?thesis using False D assms(2,4) pos by simp
  qed
qed

text \<open>The list before the last correction: it alternates along the schedule.\<close>

definition alternates :: "simtime \<Rightarrow> gate_schedule \<Rightarrow> bool \<Rightarrow> simtime list \<Rightarrow> bool" where
  "alternates cyc sch b ds \<longleftrightarrow> list_all (\<lambda>d. 0 < d) ds \<and> sum_list ds = cyc \<and>
     (\<forall>p. 0 \<le> p \<and> p < cyc \<longrightarrow> state_at b ds p = scheduled_open sch p)"

lemma state_at_beyond:
  "list_all (\<lambda>d. 0 < d) ds \<Longrightarrow> sum_list ds \<le> p \<Longrightarrow> 0 \<le> p \<Longrightarrow> state_at b ds p = (b \<noteq> odd (length ds))"
  using state_at_append [of ds p b "[]"] by simp

lemma slot_loop:
  assumes "valid_schedule cyc sch"
  shows "\<exists>b ds e. foldM (addSlot cyc (schedOpen sch)) (\<not> schedOpen sch, [], 0) (slots sch) = Inr (b, ds, e) \<and>
    list_all (\<lambda>d. 0 < d) ds \<and> sum_list ds = e \<and> 0 < e \<and> e \<le> cyc \<and>
    (\<forall>p. 0 \<le> p \<longrightarrow> state_at b ds p = scheduled_open sch p)"
proof -
  obtain s ss where sch: "slots sch = s # ss" "0 \<le> slotStart s" "0 < slotDuration s" "slotEnd s \<le> cyc"
    "separated cyc (slotEnd s) ss"
    using assms by (auto simp: valid_schedule_def split: list.splits)
  note gf = gaps_facts [OF sch(5,4)]
  show ?thesis
  proof (cases "slotStart s = 0")
    case True
    have "foldM (addSlot cyc (schedOpen sch)) (\<not> schedOpen sch, [], 0) (slots sch)
        = Inr (schedOpen sch, slotDuration s # gaps (slotEnd s) ss, end_of (slotEnd s) ss)"
      using sch True addSlot_loop [OF sch(5), of "schedOpen sch"] by (simp add: addSlot_def)
    moreover have "state_at (schedOpen sch) (slotDuration s # gaps (slotEnd s) ss) p = scheduled_open sch p"
      if "0 \<le> p" for p
      using state_at_gaps [OF sch(5), of p "schedOpen sch"] not_in_later_slot [OF sch(5), of p] that sch(1,3) True
      by (auto simp: scheduled_open_def)
    ultimately show ?thesis using gf sch(3) True by auto
  next
    case False
    then have sep: "separated cyc 0 (s # ss)" using sch by simp
    have "foldM (addSlot cyc (schedOpen sch)) (\<not> schedOpen sch, [], 0) (slots sch)
        = Inr (\<not> schedOpen sch, gaps 0 (s # ss), end_of 0 (s # ss))"
      using addSlot_loop [OF sep, of "schedOpen sch" "\<not> schedOpen sch" "[]"] sch(1) by simp
    moreover have "state_at (\<not> schedOpen sch) (gaps 0 (s # ss)) p = scheduled_open sch p" if "0 \<le> p" for p
      using state_at_gaps [OF sep that, of "schedOpen sch"] sch(1) by (simp add: scheduled_open_def)
    ultimately show ?thesis using gf sch False by auto
  qed
qed

lemma with_remaining:
  assumes "list_all (\<lambda>d. 0 < d) ds" "sum_list ds = e" "0 < e" "e \<le> cyc"
    and "\<forall>p. 0 \<le> p \<longrightarrow> state_at b ds p = scheduled_open sch p"
  shows "alternates cyc sch b (if cyc - e \<noteq> 0 then ds @ [cyc - e] else ds)"
proof (cases "cyc - e = 0")
  case True
  then show ?thesis using assms by (simp add: alternates_def)
next
  case False
  have "state_at b (ds @ [cyc - e]) p = scheduled_open sch p" if "0 \<le> p" "p < cyc" for p
    using state_at_append [OF assms(1) that(1), of b "[cyc - e]"] state_at_beyond [OF assms(1), of p b] assms that
    by (auto split: if_splits)
  then show ?thesis using assms False by (simp add: alternates_def)
qed

lemma gateParameters_correct:
  assumes "valid_schedule cyc sch"
  shows "\<exists>b off ds. gateParameters cyc sch = Inr (b, off, ds) \<and>
    (ds \<noteq> [] \<longrightarrow> valid_durations ds \<and> sum_list ds = cyc \<and> 0 \<le> off \<and> off < cyc \<and>
       (\<forall>t. 0 \<le> t \<and> t < cyc \<longrightarrow> state_at b ds ((off + t) mod cyc) = scheduled_open sch t))"
proof -
  obtain b d0 e where loop: "foldM (addSlot cyc (schedOpen sch)) (\<not> schedOpen sch, [], 0) (slots sch) = Inr (b, d0, e)"
    and d0: "list_all (\<lambda>d. 0 < d) d0" "sum_list d0 = e" "0 < e" "e \<le> cyc"
      "\<forall>p. 0 \<le> p \<longrightarrow> state_at b d0 p = scheduled_open sch p"
    using slot_loop [OF assms] by blast
  have cyc: "cycleDuration sch = cyc" "0 < cyc" using assms by (auto simp: valid_schedule_def)
  define ds where "ds = (if cyc - e \<noteq> 0 then d0 @ [cyc - e] else d0)"
  have alt: "alternates cyc sch b ds" unfolding ds_def by (rule with_remaining [OF d0])
  have par: "gateParameters cyc sch =
      (if length ds mod 2 \<noteq> 0
       then if 1 < length ds then Inr (b, last ds, butlast (ds[0 := ds ! 0 + last ds])) else Inr (b, 0, butlast ds)
       else Inr (b, 0, ds))"
    using loop d0(3) by (simp add: gateParameters_def cyc ds_def Let_def)
  show ?thesis
  proof (cases "length ds mod 2 \<noteq> 0 \<and> 1 < length ds")
    case True
    then obtain x ms r where ds: "ds = x # ms @ [r]"
      by (metis (no_types, lifting) append_butlast_last_id length_0_conv less_one list.exhaust list.size(3,4) not_less_iff_gr_or_eq One_nat_def add.commute plus_1_eq_Suc)
    with True have odd: "odd (length ms)" by (simp add: mod2_eq_if split: if_splits)
    have pos: "list_all (\<lambda>d. 0 < d) (x # ms @ [r])" and sum: "sum_list (x # ms @ [r]) = cyc"
      using alt ds by (auto simp: alternates_def)
    have "state_at b ((x + r) # ms) ((r + t) mod cyc) = scheduled_open sch t" if "0 \<le> t" "t < cyc" for t
      using rotate_odd [OF pos odd that(1)] that(2) alt ds sum that unfolding alternates_def by metis
    moreover have "valid_durations ((x + r) # ms)" "sum_list ((x + r) # ms) = cyc" "0 \<le> r"
      using pos odd sum by (auto simp: valid_durations_def)
    moreover have "0 \<le> sum_list ms" using pos by (intro sum_list_nonneg) (auto simp: list_all_iff intro: less_imp_le)
    then have "r < cyc" using pos sum by simp
    moreover have "gateParameters cyc sch = Inr (b, r, (x + r) # ms)"
      using True par ds by (simp add: butlast_append)
    ultimately show ?thesis by auto
  next
    case False
    show ?thesis
    proof (cases "length ds mod 2 = 0")
      case True
      then show ?thesis using par alt cyc
        by (auto simp: alternates_def valid_durations_def)
    next
      case odd: False
      then have "butlast ds = []" using False by (cases ds rule: rev_cases) auto
      then show ?thesis using par odd False by auto
    qed
  qed
qed

lemma gateParameters_nonempty:
  assumes "valid_schedule cyc sch" "0 \<le> q" "q < cyc" "\<not> in_slot (slots sch) q"
    and "gateParameters cyc sch = Inr (b', off, out)"
  shows "out \<noteq> []"
proof
  assume "out = []"
  obtain b d0 e where loop: "foldM (addSlot cyc (schedOpen sch)) (\<not> schedOpen sch, [], 0) (slots sch) = Inr (b, d0, e)"
    and d0: "list_all (\<lambda>d. 0 < d) d0" "sum_list d0 = e" "0 < e" "e \<le> cyc"
      "\<forall>p. 0 \<le> p \<longrightarrow> state_at b d0 p = scheduled_open sch p"
    using slot_loop [OF assms(1)] by blast
  have cyc: "cycleDuration sch = cyc" using assms(1) by (simp add: valid_schedule_def)
  define ds where "ds = (if cyc - e \<noteq> 0 then d0 @ [cyc - e] else d0)"
  have alt: "alternates cyc sch b ds" unfolding ds_def by (rule with_remaining [OF d0])
  have "butlast ds = []" "ds \<noteq> []"
    using loop d0(2,3) assms(5) \<open>out = []\<close>
    by (auto simp: gateParameters_def cyc ds_def Let_def butlast_list_update split: if_splits)
  then obtain x where x: "ds = [x]" by (cases ds rule: rev_cases) auto
  have const: "scheduled_open sch p = b" if "0 \<le> p" "p < cyc" for p
    using alt x that by (auto simp: alternates_def)
  obtain s ss where s: "slots sch = s # ss" "0 \<le> slotStart s" "0 < slotDuration s" "slotEnd s \<le> cyc"
    using assms(1) by (auto simp: valid_schedule_def split: list.splits)
  have "scheduled_open sch (slotStart s) \<noteq> scheduled_open sch q"
    using s assms(4) by (auto simp: scheduled_open_def)
  then show False using const [of q] const [of "slotStart s"] assms(2,3) s by simp
qed

section \<open>Properties\<close>

lemma handleGateParameterChange_gate:
  assumes "handleGateParameterChange now g p = Inr g'" 
  obtains h where "(case p of ParOffset off \<Rightarrow> Inr (g\<lparr>initialOffset := off\<rparr>)
            | ParInitiallyOpen b \<Rightarrow> Inr (g\<lparr>initiallyOpen := b\<rparr>)
            | ParDurations ds \<Rightarrow> readDurationsPar g ds | ParOther \<Rightarrow> Inr g) = Inr h" "initializeGating now h = Inr g'"
  using assms by (auto simp: handleGateParameterChange_def rbind_Inr_iff)

lemma skip_offset_frame:
  "durations (skip_offset n g) = durations g \<and> initiallyOpen (skip_offset n g) = initiallyOpen g \<and>
   initialOffset (skip_offset n g) = initialOffset g \<and> totalDuration (skip_offset n g) = totalDuration g"
  by (induction n arbitrary: g) auto

lemma initializeGating_frame:
  "initializeGating now g = Inr g' \<Longrightarrow> durations g' = durations g \<and> initiallyOpen g' = initiallyOpen g \<and>
     initialOffset g' = initialOffset g \<and> totalDuration g' = totalDuration g"
  by (auto simp: initializeGating_def scheduleChangeTimer_def Let_def skip_offset_frame split: if_splits)

text \<open>The three parameter changes amount to starting a gate with the new parameters.\<close>

lemma setGateParameters_starts:
  assumes "setGateParameters now g (b, off, ds) = Inr g'" "ds \<noteq> []"
  obtains g0 where "initializeGating now g0 = Inr g'" "initiallyOpen g0 = b" "initialOffset g0 = off"
    "durations g0 = ds" "gate_ready g0"
proof -
  from assms obtain g1 g2 where 1: "handleGateParameterChange now g (ParInitiallyOpen b) = Inr g1"
    and 2: "handleGateParameterChange now g1 (ParOffset off) = Inr g2"
    and 3: "handleGateParameterChange now g2 (ParDurations ds) = Inr g'"
    by (auto simp: setGateParameters_def rbind_Inr_iff)
  from 1 have "initiallyOpen g1 = b"
    by (rule handleGateParameterChange_gate) (auto dest: initializeGating_frame)
  with 2 have "initiallyOpen g2 = b \<and> initialOffset g2 = off"
    by (elim handleGateParameterChange_gate) (auto dest: initializeGating_frame)
  with 3 show ?thesis
    by (elim handleGateParameterChange_gate) (auto intro!: that dest: readDurationsPar_ready)
qed

lemma skip_offset_index:
  "gateIndexInList g < length (durations g) \<Longrightarrow> gateIndexInList (skip_offset n g) < length (durations g)"
proof (induction n arbitrary: g)
  case (Suc n)
  have "(gateIndexInList g + 1) mod length (durations g) < length (durations g)"
    using Suc.prems by (intro mod_less_divisor) auto
  then show ?case
    using Suc.prems Suc.IH [of "g\<lparr>isOpen := \<not> isOpen g, gateOffset := gateOffset g - durations g ! gateIndexInList g,
      gateIndexInList := (gateIndexInList g + 1) mod length (durations g)\<rparr>"]
    by simp
qed simp

lemma initializeGating_total: "\<exists>g'. initializeGating now g = Inr g'"
proof (cases "durations g = []")
  case True
  then show ?thesis by (simp add: initializeGating_def Let_def skip_offset_frame)
next
  case False
  then show ?thesis
    using skip_offset_index [of "g\<lparr>gateIndexInList := 0, isOpen := initiallyOpen g,
      gateOffset := if totalDuration g \<noteq> 0 then crem (initialOffset g) (totalDuration g) else 0\<rparr>" "length (durations g)"]
    by (simp add: initializeGating_def Let_def scheduleChangeTimer_def skip_offset_frame)
qed

lemma setGateParameters_total:
  assumes "valid_durations ds"
  shows "\<exists>g'. setGateParameters now g (b, off, ds) = Inr g'"
proof -
  obtain g1 where 1: "handleGateParameterChange now g (ParInitiallyOpen b) = Inr g1"
    using initializeGating_total by (auto simp: handleGateParameterChange_def)
  obtain g2 where 2: "handleGateParameterChange now g1 (ParOffset off) = Inr g2"
    using initializeGating_total by (auto simp: handleGateParameterChange_def)
  have "check_durations ds = Inr (sum_list ds)" "length ds mod 2 = 0"
    using assms by (simp_all add: check_durations_ok valid_durations_def)
  then obtain g3 where "handleGateParameterChange now g2 (ParDurations ds) = Inr g3"
    using initializeGating_total by (auto simp: handleGateParameterChange_def readDurationsPar_def)
  with 1 2 show ?thesis by (simp add: setGateParameters_def)
qed

text \<open>A schedule that leaves out no position of the cycle consists of one slot.\<close>

lemma covered_is_one_slot:
  assumes "valid_schedule cyc sch" "\<And>q. 0 \<le> q \<Longrightarrow> q < cyc \<Longrightarrow> in_slot (slots sch) q"
  shows "slots sch = [\<lparr>slotStart = 0, slotDuration = cyc\<rparr>]"
proof -
  obtain s ss where s: "slots sch = s # ss" "0 < cyc" "0 \<le> slotStart s" "0 < slotDuration s" "slotEnd s \<le> cyc"
    "separated cyc (slotEnd s) ss"
    using assms(1) by (auto simp: valid_schedule_def split: list.splits)
  have "slotStart s = 0"
    using assms(2) [of 0] s not_in_later_slot [OF s(6), of 0] by auto
  moreover have "slotEnd s = cyc"
    using assms(2) [of "slotEnd s"] s not_in_later_slot [OF s(6) order_refl] by (cases "slotEnd s < cyc") auto
  moreover from this have "ss = []" using s(6) by (cases ss) auto
  ultimately show ?thesis using s(1) by (cases s) simp
qed

lemma full_cycle_keeps_gate:
  assumes "gateSchedules port = Some schedules" "gateIndex < length schedules"
    and "slots (schedules ! gateIndex) = [\<lparr>slotStart = 0, slotDuration = cyc\<rparr>]"
    and "cycleDuration (schedules ! gateIndex) = cyc" "0 < cyc"
  shows "configureGateScheduling now cyc gateSchedules port gateIndex g = Inr g"
  using assms
  by (simp add: configureGateScheduling_def gateParameters_def addSlot_def setGateParameters_def)

lemma configured_gate_runs:
  assumes sch: "gateSchedules port = Some schedules" "gateIndex < length schedules" "sch = schedules ! gateIndex"
    and valid: "valid_schedule cyc sch" and q: "0 \<le> q" "q < cyc" "\<not> in_slot (slots sch) q"
  shows "\<exists>g1. configureGateScheduling now cyc gateSchedules port gateIndex g = Inr g1 \<and>
    (\<forall>fp g2 t. gate_run fp g1 now g2 t \<longrightarrow> isOpen g2 = scheduled_open sch ((t - now) mod cyc))"
proof -
  obtain b off ds where par: "gateParameters cyc sch = Inr (b, off, ds)"
    and ds: "ds \<noteq> [] \<longrightarrow> valid_durations ds \<and> sum_list ds = cyc \<and> 0 \<le> off \<and> off < cyc \<and>
       (\<forall>t. 0 \<le> t \<and> t < cyc \<longrightarrow> state_at b ds ((off + t) mod cyc) = scheduled_open sch t)"
    using gateParameters_correct [OF valid] by blast
  have "ds \<noteq> []" using gateParameters_nonempty [OF valid q par] .
  then obtain g1 where g1: "setGateParameters now g (b, off, ds) = Inr g1"
    using setGateParameters_total ds by blast
  obtain g0 where g0: "initializeGating now g0 = Inr g1" "initiallyOpen g0 = b" "initialOffset g0 = off"
    "durations g0 = ds" "gate_ready g0"
    using setGateParameters_starts [OF g1 \<open>ds \<noteq> []\<close>] .
  have "isOpen g2 = scheduled_open sch ((t - now) mod cyc)" if run: "gate_run fp g1 now g2 t" for fp g2 t
  proof -
    have "0 < cyc" using valid by (simp add: valid_schedule_def)
    have "isOpen g2 = gate_spec b ds off (t - now)"
      using gate_run_spec [OF run g0(5) _ _ g0(1)] g0 ds \<open>ds \<noteq> []\<close> by (simp add: start_offset_def)
    also have "\<dots> = state_at b ds ((off + (t - now) mod cyc) mod cyc)"
      using ds \<open>ds \<noteq> []\<close> by (simp add: gate_spec_def mod_add_right_eq)
    also have "\<dots> = scheduled_open sch ((t - now) mod cyc)"
      using ds \<open>ds \<noteq> []\<close> \<open>0 < cyc\<close> by simp
    finally show ?thesis .
  qed
  then show ?thesis using sch par g1 by (auto simp: configureGateScheduling_def)
qed


text \<open>
  A schedule whose only slot is the whole cycle yields no durations, and then nothing is
  written: the gate keeps the parameters of the previous configuration. A gate that was
  periodic stays periodic when the new schedule wants it open all the time.
\<close>

theorem full_cycle_schedule_is_ignored:
  assumes "gateSchedules port = Some schedules" "gateIndex < length schedules"
    and "slots (schedules ! gateIndex) = [\<lparr>slotStart = 0, slotDuration = cyc\<rparr>]"
    and "cycleDuration (schedules ! gateIndex) = cyc" "0 < cyc"
  shows "configureGateScheduling now cyc gateSchedules port gateIndex g = Inr g"
  using assms by (rule full_cycle_keeps_gate)

definition has_inner_zero :: "simtime list \<Rightarrow> bool" where
  "has_inner_zero ds \<longleftrightarrow> (\<exists>xs ys. ds = xs @ 0 # ys \<and> xs \<noteq> [] \<and> ys \<noteq> [])"

lemma has_inner_zero_append: "has_inner_zero ds \<Longrightarrow> has_inner_zero (ds @ es)"
  by (fastforce simp: has_inner_zero_def)

lemma has_inner_zero_fix:
  assumes "has_inner_zero ds"
  shows "0 \<in> set ds \<and> 0 \<in> set (butlast ds) \<and> 0 \<in> set (butlast (ds[0 := z]))"
proof -
  obtain xs ys where ds: "ds = xs @ 0 # ys" "xs \<noteq> []" "ys \<noteq> []"
    using assms by (auto simp: has_inner_zero_def)
  obtain x xs' where "xs = x # xs'" using ds(2) by (cases xs) auto
  then show ?thesis using ds(1,3) by (simp add: butlast_append)
qed

lemma readDurationsPar_zero: "0 \<in> set ds \<Longrightarrow> \<exists>e. readDurationsPar g ds = Inl e"
  using readDurationsPar_ready [of g ds]
  by (cases "readDurationsPar g ds") (auto simp: gate_ready_def valid_durations_def list_all_iff)

text \<open>
  Two slots that touch cannot be configured: the zero gap between them becomes a duration
  that \<open>PeriodicGate\<close> rejects, so the configuration ends with an error wherever in the schedule
  the two slots are.
\<close>

theorem touching_slots_are_rejected:
  assumes "gateSchedules port = Some schedules" "gateIndex < length schedules"
    and "slots (schedules ! gateIndex) = pre @ [s, s'] @ post" "slotStart s' = slotEnd s" "slotStart s' \<noteq> 0"
  shows "\<exists>e. configureGateScheduling now cyc gateSchedules port gateIndex g = Inl e"
proof -
  let ?sch = "schedules ! gateIndex"
  let ?f = "addSlot cyc (schedOpen ?sch)"
  have zero: "0 \<in> set (snd (snd r))" if r: "gateParameters cyc ?sch = Inr r" for r
  proof -
    obtain b ds e where loop: "foldM ?f (\<not> schedOpen ?sch, [], 0) (slots ?sch) = Inr (b, ds, e)"
      using r by (auto simp: gateParameters_def rbind_Inr_iff)
    then obtain b1 d1 e1 x y where
      1: "?f (b1, d1, e1) s = Inr x" "?f x s' = Inr y" "foldM ?f y post = Inr (b, ds, e)"
      unfolding assms(3) by (auto simp: foldM_append rbind_Inr_iff)
    have inner: "has_inner_zero (u @ [w, 0, z])" for u and w z :: simtime
      unfolding has_inner_zero_def by (intro exI [of _ "u @ [w]"] exI [of _ "[z]"]) simp
    have "has_inner_zero (fst (snd y))"
      using 1(1,2) assms(4,5) inner [of d1 "slotDuration s"] inner [of "d1 @ [slotStart s - e1]" "slotDuration s"]
      by (auto simp: addSlot_def ensure_def rbind_Inr_iff split: if_splits)
    then have "has_inner_zero (fst (snd (b, ds, e)))"
      by (rule foldM_invariant [OF _ _ 1(3), where P = "\<lambda>z. has_inner_zero (fst (snd z))", rotated])
        (auto simp: addSlot_def ensure_def rbind_Inr_iff intro: has_inner_zero_append split: if_splits prod.splits)
    then have "has_inner_zero ds" by simp
    then show ?thesis
      using r loop has_inner_zero_fix [of ds] has_inner_zero_append [of ds "[cycleDuration ?sch - e]"]
        has_inner_zero_fix [of "ds @ [cycleDuration ?sch - e]"]
      by (auto simp: gateParameters_def Let_def split: if_splits)
  qed
  have "\<exists>e. setGateParameters now g r = Inl e" if "0 \<in> set (snd (snd r))" for r
  proof -
    obtain b off ds where r: "r = (b, off, ds)" by (cases r)
    with that have "ds \<noteq> []" "\<exists>e. readDurationsPar h ds = Inl e" for h
      using readDurationsPar_zero by auto
    then show ?thesis
      using r initializeGating_total
      by (auto simp: setGateParameters_def handleGateParameterChange_def rbind_def split: sum.splits) (metis sum.distinct(1))
  qed
  with zero show ?thesis
    using assms(1,2) by (cases "gateParameters cyc ?sch") (auto simp: configureGateScheduling_def)
qed

section \<open>A concrete schedule\<close>

definition demo_schedule :: gate_schedule where
  "demo_schedule = \<lparr>schedPort = 1, schedGateIndex = 0, cycleStart = 0, cycleDuration = simtime_us 100,
     slots = [\<lparr>slotStart = simtime_us 10, slotDuration = simtime_us 20\<rparr>,
              \<lparr>slotStart = simtime_us 50, slotDuration = simtime_us 10\<rparr>], schedOpen = True\<rparr>"

definition demo_schedules :: "gate_schedule \<Rightarrow> nat \<Rightarrow> gate_schedule list option" where
  "demo_schedules sch = [1 \<mapsto> [sch]]"

text \<open>The parameters of the schedule: closed for the rest of the cycle first, offset 40us.\<close>

lemma demo_parameters:
  "gateParameters (simtime_us 100) demo_schedule
     = Inr (False, simtime_us 40, [simtime_us 50, simtime_us 20, simtime_us 20, simtime_us 10])"
  by (simp add: gateParameters_def demo_schedule_def addSlot_def ensure_def simtime_us_def Let_def)


theorem full_cycle_schedule_is_ignored_witness:
  "configureGateScheduling 0 (simtime_us 100)
     (demo_schedules (demo_schedule\<lparr>slots := [\<lparr>slotStart = 0, slotDuration = simtime_us 100\<rparr>]\<rparr>)) 1 0 demo_gate
   = Inr demo_gate"
  by (rule full_cycle_schedule_is_ignored
      [of _ _ "[demo_schedule\<lparr>slots := [\<lparr>slotStart = 0, slotDuration = simtime_us 100\<rparr>]\<rparr>]"])
    (simp_all add: demo_schedules_def demo_schedule_def simtime_us_def)

theorem touching_slots_are_rejected_witness:
  "\<exists>e. configureGateScheduling 0 (simtime_us 100)
     (demo_schedules (demo_schedule\<lparr>slots := [\<lparr>slotStart = simtime_us 10, slotDuration = simtime_us 20\<rparr>,
        \<lparr>slotStart = simtime_us 30, slotDuration = simtime_us 10\<rparr>]\<rparr>)) 1 0 demo_gate = Inl e"
  by (rule touching_slots_are_rejected
      [of _ _ "[demo_schedule\<lparr>slots := [\<lparr>slotStart = simtime_us 10, slotDuration = simtime_us 20\<rparr>,
        \<lparr>slotStart = simtime_us 30, slotDuration = simtime_us 10\<rparr>]\<rparr>]" _ "[]"
        "\<lparr>slotStart = simtime_us 10, slotDuration = simtime_us 20\<rparr>"
        "\<lparr>slotStart = simtime_us 30, slotDuration = simtime_us 10\<rparr>" "[]"])
    (simp_all add: demo_schedules_def demo_schedule_def simtime_us_def)

end
