(* ===== verification/EagerScheduler.thy ===== *)
theory EagerScheduler
  imports GateSchedule
begin

text \<open>
  \<open>EagerGateScheduleConfigurator\<close> and \<open>AlwaysOpenGateScheduleConfigurator\<close>
  (\<open>inet/linklayer/configurator/gatescheduling/common\<close>): the greedy computation of gate
  schedules. Flows are taken one after the other; the first instance of a flow is delayed until
  it meets no slot that is already booked, the later instances within the gate cycle are booked
  behind what is in their way.

  Nodes are named by their full names; what the topology knows of the link from a node to the
  next one on a path (outgoing interface, bit rate, propagation delay) is the argument
  \<open>link_out\<close>. Two \<open>while\<close> loops of the code have no evident bound: the queue of path fragments
  gets fuel, and so does the search of the start offset, for which enough fuel is shown to
  exist.
\<close>

section \<open>Data\<close>

record booking =
  gateOpenIndex :: int
  gateOpenTime :: simtime
  gateCloseTime :: simtime

type_synonym interface_schedules = "nat \<Rightarrow> booking list"

record link_info =
  linkInterface :: nat
  transmissionTime :: "int \<Rightarrow> simtime"      \<comment> \<open>\<open>s(length / datarate)\<close> of a number of bits\<close>
  propagationDelay :: simtime

record eager_flow =
  flowGateIndex :: int
  flowApplication :: nat
  flowSource :: string
  flowDestination :: string
  flowPacketLength :: int
  flowPacketInterval :: simtime
  flowMaxLatency :: simtime
  flowFragments :: "string list list"

type_synonym link_map = "string \<Rightarrow> string \<Rightarrow> link_info option"

definition interFrameGap :: "link_info \<Rightarrow> simtime" where
  "interFrameGap l = transmissionTime l 96"

section \<open>The search for a free window\<close>

definition clear_of :: "simtime \<Rightarrow> simtime \<Rightarrow> simtime \<Rightarrow> booking \<Rightarrow> bool" where
  "clear_of gap opn cls b \<longleftrightarrow> gateCloseTime b + gap \<le> opn \<or> cls + gap \<le> gateOpenTime b"

text \<open>
  The loop over the bookings of an interface. After a conflict the code sets the index to 0,
  which the loop increments: the search goes on at index 1.
\<close>

function free_window :: "simtime \<Rightarrow> simtime \<Rightarrow> booking list \<Rightarrow> nat \<Rightarrow> simtime \<Rightarrow> simtime" where
  "free_window gap dur bs i opn =
     (if i < length bs
      then if clear_of gap opn (opn + dur) (bs ! i) then free_window gap dur bs (i + 1) opn
           else free_window gap dur bs 1 (gateCloseTime (bs ! i) + gap)
      else opn)"
  by pat_completeness auto

text \<open>Every booking can push the window at most once.\<close>

definition ahead :: "simtime \<Rightarrow> booking list \<Rightarrow> simtime \<Rightarrow> nat" where
  "ahead gap bs opn = length (filter (\<lambda>b. opn < gateCloseTime b + gap) bs)"

lemma filter_length_mono:
  "\<forall>x \<in> set xs. Q x \<longrightarrow> P x \<Longrightarrow> length (filter Q xs) \<le> length (filter P xs)"
  by (induction xs) auto

lemma filter_less:
  assumes "\<And>x. x \<in> set xs \<Longrightarrow> Q x \<Longrightarrow> P x" "y \<in> set xs" "P y" "\<not> Q y"
  shows "length (filter Q xs) < length (filter P xs)"
  using assms
proof (induction xs)
  case Nil
  then show ?case by simp
next
  case (Cons x xs)
  have sub: "length (filter Q xs) \<le> length (filter P xs)"
    using Cons.prems(1) by (intro filter_length_mono) auto
  show ?case
  proof (cases "y \<in> set xs")
    case True
    then show ?thesis using Cons by auto
  next
    case False
    then show ?thesis using Cons.prems sub by auto
  qed
qed

lemma ahead_decreases:
  assumes "i < length bs" "\<not> clear_of gap opn (opn + dur) (bs ! i)"
  shows "ahead gap bs (gateCloseTime (bs ! i) + gap) < ahead gap bs opn"
  unfolding ahead_def
  by (rule filter_less [where y = "bs ! i"]) (use assms in \<open>auto simp: clear_of_def\<close>)

termination free_window
  by (relation "measures [\<lambda>(gap, dur, bs, i, opn). ahead gap bs opn, \<lambda>(gap, dur, bs, i, opn). length bs - i]")
    (auto simp: ahead_decreases)

declare free_window.simps [simp del]

section \<open>The start offset of a flow\<close>

text \<open>
  One fragment of a path, walked until the first delay: the time the next gate opens, the delay,
  and the names passed.
\<close>

fun walk_fragment ::
  "link_map \<Rightarrow> interface_schedules \<Rightarrow> int \<Rightarrow> string list \<Rightarrow> simtime \<Rightarrow> string list
     \<Rightarrow> (simtime \<times> simtime \<times> string list) result" where
  "walk_fragment links sch len (n # m # ns) t path =
     (case links n m of
        None \<Rightarrow> Inl NullPointer
      | Some l \<Rightarrow>
          (let dur = transmissionTime l len;
               opn = free_window (interFrameGap l) dur (sch (linkInterface l)) 0 t
           in if opn - t \<noteq> 0 then Inr (t, opn - t, path @ [n])
              else walk_fragment links sch len (m # ns) (opn + dur + propagationDelay l) (path @ [n])))"
| "walk_fragment links sch len ns t path = Inr (t, 0, path)"

type_synonym path_todo = "string \<times> simtime \<times> string list"

definition follow_on :: "eager_flow \<Rightarrow> string \<Rightarrow> simtime \<Rightarrow> string list \<Rightarrow> path_todo list" where
  "follow_on f end_node t path =
     (if end_node \<noteq> flowDestination f \<and> end_node \<notin> set path then [(end_node, t, path)] else [])"

text \<open>The fragments that start at the node of a queue entry; \<open>front\<close> of an empty list is undefined.\<close>

definition shiftOfTodo ::
  "link_map \<Rightarrow> interface_schedules \<Rightarrow> eager_flow \<Rightarrow> path_todo \<Rightarrow> (simtime \<times> path_todo list) result" where
  "shiftOfTodo links sch f = (\<lambda>(name, t, path).
     foldM (\<lambda>(shift, todos) fragment.
         if fragment = [] then Inl OutOfRange
         else if hd fragment = name then
           rbind (walk_fragment links sch (flowPacketLength f) fragment t path) (\<lambda>(t', d, path').
             Inr (shift + d, todos @ follow_on f (last fragment) t' path'))
         else Inr (shift, todos))
       (0, []) (flowFragments f))"

fun shiftOfTodos ::
  "nat \<Rightarrow> link_map \<Rightarrow> interface_schedules \<Rightarrow> eager_flow \<Rightarrow> path_todo list \<Rightarrow> simtime
     \<Rightarrow> simtime result option" where
  "shiftOfTodos n links sch f [] res = Some (Inr res)"
| "shiftOfTodos 0 links sch f (td # tds) res = None"
| "shiftOfTodos (Suc n) links sch f (td # tds) res =
     (case shiftOfTodo links sch f td of
        Inl e \<Rightarrow> Some (Inl e)
      | Inr (shift, new) \<Rightarrow> shiftOfTodos n links sch f (tds @ new) (res + shift))"

definition computeStartOffsetForPathFragments ::
  "nat \<Rightarrow> link_map \<Rightarrow> interface_schedules \<Rightarrow> eager_flow \<Rightarrow> simtime \<Rightarrow> simtime result option" where
  "computeStartOffsetForPathFragments fuel links sch f t =
     shiftOfTodos fuel links sch f [(flowSource f, t, [])] 0"

fun computeStreamStartOffset ::
  "nat \<Rightarrow> nat \<Rightarrow> link_map \<Rightarrow> interface_schedules \<Rightarrow> eager_flow \<Rightarrow> simtime \<Rightarrow> simtime result option" where
  "computeStreamStartOffset 0 fuel links sch f off = None"
| "computeStreamStartOffset (Suc n) fuel links sch f off =
     (case computeStartOffsetForPathFragments fuel links sch f off of
        None \<Rightarrow> None
      | Some (Inl e) \<Rightarrow> Some (Inl e)
      | Some (Inr shift) \<Rightarrow>
          if shift = 0 then Some (Inr off)
          else computeStreamStartOffset n fuel links sch f (off + shift))"

section \<open>Booking\<close>

fun book_fragment ::
  "link_map \<Rightarrow> simtime \<Rightarrow> eager_flow \<Rightarrow> simtime \<Rightarrow> string list \<Rightarrow> simtime \<Rightarrow> string list \<Rightarrow> interface_schedules
     \<Rightarrow> (simtime \<times> string list \<times> interface_schedules) result" where
  "book_fragment links cyc f start (n # m # ns) t path sch =
     (case links n m of
        None \<Rightarrow> Inl NullPointer
      | Some l \<Rightarrow>
          (let dur = transmissionTime l (flowPacketLength f);
               opn = free_window (interFrameGap l) dur (sch (linkInterface l)) 0 t;
               cls = opn + dur
           in if start + cyc < cls
              then Inl (RuntimeError ''Gate scheduling does not fit into cycle duration'')
              else book_fragment links cyc f start (m # ns) (cls + propagationDelay l) (path @ [n])
                     (sch(linkInterface l := sch (linkInterface l) @
                        [\<lparr>gateOpenIndex = flowGateIndex f, gateOpenTime = opn, gateCloseTime = cls\<rparr>]))))"
| "book_fragment links cyc f start ns t path sch = Inr (t, path, sch)"

definition bookTodo ::
  "link_map \<Rightarrow> simtime \<Rightarrow> eager_flow \<Rightarrow> simtime \<Rightarrow> path_todo \<Rightarrow> interface_schedules
     \<Rightarrow> (path_todo list \<times> interface_schedules) result" where
  "bookTodo links cyc f start = (\<lambda>(name, t, path) sch.
     foldM (\<lambda>(todos, sch) fragment.
         if fragment = [] then Inl OutOfRange
         else if hd fragment = name then
           rbind (book_fragment links cyc f start fragment t path sch) (\<lambda>(t', path', sch').
             if last fragment = flowDestination f \<and> flowMaxLatency f < t' - start
             then Inl (RuntimeError ''Cannot fit scheduling int maximum allowed latency'')
             else Inr (todos @ follow_on f (last fragment) t' path', sch'))
         else Inr (todos, sch))
       ([], sch) (flowFragments f))"

fun bookTodos ::
  "nat \<Rightarrow> link_map \<Rightarrow> simtime \<Rightarrow> eager_flow \<Rightarrow> simtime \<Rightarrow> path_todo list \<Rightarrow> interface_schedules
     \<Rightarrow> interface_schedules result option" where
  "bookTodos n links cyc f start [] sch = Some (Inr sch)"
| "bookTodos 0 links cyc f start (td # tds) sch = None"
| "bookTodos (Suc n) links cyc f start (td # tds) sch =
     (case bookTodo links cyc f start td sch of
        Inl e \<Rightarrow> Some (Inl e)
      | Inr (new, sch') \<Rightarrow> bookTodos n links cyc f start (tds @ new) sch')"

definition addGateSchedulingForPathFragments ::
  "nat \<Rightarrow> link_map \<Rightarrow> simtime \<Rightarrow> eager_flow \<Rightarrow> simtime \<Rightarrow> interface_schedules \<Rightarrow> interface_schedules result option" where
  "addGateSchedulingForPathFragments fuel links cyc f start sch =
     bookTodos fuel links cyc f start [(flowSource f, start, [])] sch"

definition addGateScheduling ::
  "nat \<Rightarrow> link_map \<Rightarrow> simtime \<Rightarrow> eager_flow \<Rightarrow> nat \<Rightarrow> nat \<Rightarrow> simtime \<Rightarrow> interface_schedules \<Rightarrow> interface_schedules result option" where
  "addGateScheduling fuel links cyc f startIndex endIndex off sch =
     foldO (\<lambda>sch index. addGateSchedulingForPathFragments fuel links cyc f
              (off + int index * flowPacketInterval f) sch)
       sch [startIndex..<endIndex]"

section \<open>The schedules of the ports\<close>

record eager_port =
  eportInterface :: nat
  eportNumGates :: int

text \<open>A booking that reaches beyond the cycle is split; other bookings are taken modulo the cycle.\<close>

definition slotsOfBooking :: "simtime \<Rightarrow> booking \<Rightarrow> slot list" where
  "slotsOfBooking cyc b =
     (let dur = gateCloseTime b - gateOpenTime b in
      if gateOpenTime b < cyc \<and> cyc < gateCloseTime b
      then [\<lparr>slotStart = gateOpenTime b, slotDuration = cyc - gateOpenTime b\<rparr>,
            \<lparr>slotStart = 0, slotDuration = dur - (cyc - gateOpenTime b)\<rparr>]
      else [\<lparr>slotStart = crem (gateOpenTime b) cyc, slotDuration = dur\<rparr>])"

definition gateScheduleOf :: "simtime \<Rightarrow> interface_schedules \<Rightarrow> eager_port \<Rightarrow> nat \<Rightarrow> gate_schedule" where
  "gateScheduleOf cyc sch p gateIndex =
     \<lparr>schedPort = eportInterface p, schedGateIndex = gateIndex, cycleStart = 0, cycleDuration = cyc,
      slots = sort_key slotStart (concat (map (slotsOfBooking cyc)
                (filter (\<lambda>b. gateOpenIndex b = int gateIndex) (sch (eportInterface p))))),
      schedOpen = True\<rparr>"

record gate_output =
  gateSchedules :: "nat \<Rightarrow> gate_schedule list option"
  applicationStartTimes :: "nat \<Rightarrow> simtime option"

definition addPortSchedules ::
  "simtime \<Rightarrow> interface_schedules \<Rightarrow> (nat \<Rightarrow> gate_schedule list option) \<Rightarrow> eager_port \<Rightarrow> (nat \<Rightarrow> gate_schedule list option)" where
  "addPortSchedules cyc sch gs p =
     gs(eportInterface p \<mapsto> (case gs (eportInterface p) of None \<Rightarrow> [] | Some ss \<Rightarrow> ss) @
          map (gateScheduleOf cyc sch p) [0..<nat (eportNumGates p)])"

definition scheduleFirst ::
  "nat \<Rightarrow> nat \<Rightarrow> link_map \<Rightarrow> simtime \<Rightarrow> (nat \<Rightarrow> simtime option) \<times> interface_schedules \<Rightarrow> eager_flow
     \<Rightarrow> ((nat \<Rightarrow> simtime option) \<times> interface_schedules) result option" where
  "scheduleFirst n fuel links cyc = (\<lambda>(starts, sch) f.
     case computeStreamStartOffset n fuel links sch f 0 of
       None \<Rightarrow> None
     | Some (Inl e) \<Rightarrow> Some (Inl e)
     | Some (Inr off) \<Rightarrow>
         (case addGateScheduling fuel links cyc f 0 1 off sch of
            None \<Rightarrow> None
          | Some (Inl e) \<Rightarrow> Some (Inl e)
          | Some (Inr sch') \<Rightarrow> Some (Inr (starts(flowApplication f \<mapsto> off), sch'))))"

text \<open>\<open>count = gateCycleDuration / packetInterval\<close>; the interval is not negative.\<close>

definition scheduleRest ::
  "nat \<Rightarrow> link_map \<Rightarrow> simtime \<Rightarrow> (nat \<Rightarrow> simtime option) \<Rightarrow> interface_schedules \<Rightarrow> eager_flow
     \<Rightarrow> interface_schedules result option" where
  "scheduleRest fuel links cyc starts sch f =
     (let off = (case starts (flowApplication f) of None \<Rightarrow> 0 | Some t \<Rightarrow> t);
          count = cyc div flowPacketInterval f
      in if cyc \<noteq> count * flowPacketInterval f
         then Some (Inl (RuntimeError ''Gate cycle duration must be a multiple of the application packet interval''))
         else addGateScheduling fuel links cyc f 1 (nat count) off sch)"

definition eagerComputeGateScheduling ::
  "nat \<Rightarrow> nat \<Rightarrow> link_map \<Rightarrow> simtime \<Rightarrow> eager_port list \<Rightarrow> eager_flow list \<Rightarrow> gate_output result option" where
  "eagerComputeGateScheduling n fuel links cyc ports flows =
     (case foldO (scheduleFirst n fuel links cyc) (Map.empty, \<lambda>_. []) flows of
        None \<Rightarrow> None
      | Some (Inl e) \<Rightarrow> Some (Inl e)
      | Some (Inr (starts, sch)) \<Rightarrow>
          (case foldO (scheduleRest fuel links cyc starts) sch flows of
             None \<Rightarrow> None
           | Some (Inl e) \<Rightarrow> Some (Inl e)
           | Some (Inr sch') \<Rightarrow>
               Some (Inr \<lparr>gateSchedules = fold (\<lambda>p gs. addPortSchedules cyc sch' gs p) ports Map.empty,
                          applicationStartTimes = starts\<rparr>)))"

section \<open>AlwaysOpenGateScheduleConfigurator\<close>

definition alwaysOpenSchedule :: "simtime \<Rightarrow> eager_port \<Rightarrow> nat \<Rightarrow> gate_schedule" where
  "alwaysOpenSchedule cyc p gateIndex =
     \<lparr>schedPort = eportInterface p, schedGateIndex = gateIndex, cycleStart = 0, cycleDuration = cyc,
      slots = [], schedOpen = False\<rparr>"

definition alwaysOpenComputeGateScheduling :: "simtime \<Rightarrow> eager_port list \<Rightarrow> nat list \<Rightarrow> gate_output" where
  "alwaysOpenComputeGateScheduling cyc ports applications =
     \<lparr>gateSchedules = fold (\<lambda>p gs. if nat (eportNumGates p) = 0 then gs
          else gs(eportInterface p \<mapsto> (case gs (eportInterface p) of None \<Rightarrow> [] | Some ss \<Rightarrow> ss) @
                 map (alwaysOpenSchedule cyc p) [0..<nat (eportNumGates p)])) ports Map.empty,
      applicationStartTimes = (\<lambda>a. if a \<in> set applications then Some 0 else None)\<rparr>"

section \<open>Lemmas on the window search\<close>

lemma free_window_ge: "opn \<le> free_window gap dur bs i opn"
proof (induction gap dur bs i opn rule: free_window.induct)
  case (1 gap dur bs i opn)
  show ?case
  proof (cases "i < length bs \<and> \<not> clear_of gap opn (opn + dur) (bs ! i)")
    case True
    then have "opn \<le> gateCloseTime (bs ! i) + gap" by (simp add: clear_of_def)
    also have "\<dots> \<le> free_window gap dur bs 1 (gateCloseTime (bs ! i) + gap)" using 1(2) True by blast
    finally show ?thesis using True by (simp add: free_window.simps [of gap dur bs i])
  next
    case False
    then show ?thesis using 1(1) by (auto simp: free_window.simps [of gap dur bs i])
  qed
qed

lemma free_window_stays:
  assumes "free_window gap dur bs i opn = opn" "i \<le> j" "j < length bs"
  shows "clear_of gap opn (opn + dur) (bs ! j)"
  using assms
proof (induction "length bs - i" arbitrary: i)
  case 0
  then show ?case by simp
next
  case (Suc n)
  have i: "i < length bs" using Suc.prems by simp
  have clear: "clear_of gap opn (opn + dur) (bs ! i)"
  proof (rule ccontr)
    assume conflict: "\<not> clear_of gap opn (opn + dur) (bs ! i)"
    then have "opn < gateCloseTime (bs ! i) + gap" by (simp add: clear_of_def)
    also have "\<dots> \<le> free_window gap dur bs 1 (gateCloseTime (bs ! i) + gap)" by (rule free_window_ge)
    also have "\<dots> = opn" using Suc.prems(1) i conflict by (simp add: free_window.simps [of gap dur bs i])
    finally show False by simp
  qed
  show ?case
  proof (cases "i = j")
    case False
    have "free_window gap dur bs (i + 1) opn = opn"
      using Suc.prems(1) i clear by (simp add: free_window.simps [of gap dur bs i])
    moreover have "n = length bs - (i + 1)" "i + 1 \<le> j" using Suc.hyps(2) Suc.prems(2) False by simp_all
    ultimately show ?thesis using Suc.hyps(1) Suc.prems(3) by blast
  qed (use clear in simp)
qed

lemma free_window_clear:
  assumes "free_window gap dur bs 0 opn = opn" "b \<in> set bs"
  shows "clear_of gap opn (opn + dur) b"
  using free_window_stays [OF assms(1)] assms(2) by (auto simp: in_set_conv_nth)

lemma free_window_free:
  assumes "\<forall>b \<in> set bs. gateCloseTime b + gap \<le> opn"
  shows "free_window gap dur bs i opn = opn"
  using assms
proof (induction "length bs - i" arbitrary: i)
  case 0
  then show ?case by (simp add: free_window.simps)
next
  case (Suc n)
  have "clear_of gap opn (opn + dur) (bs ! i)" using Suc.prems Suc.hyps(2) by (simp add: clear_of_def)
  then show ?case using Suc by (simp add: free_window.simps [of gap dur bs i])
qed

section \<open>Flows with one path\<close>

fun links_of :: "link_map \<Rightarrow> string list \<Rightarrow> link_info option list" where
  "links_of links (n # m # ns) = links n m # links_of links (m # ns)"
| "links_of links ns = []"

definition interfaces_of :: "link_map \<Rightarrow> string list \<Rightarrow> nat list" where
  "interfaces_of links ns = map linkInterface (List.map_filter id (links_of links ns))"

text \<open>
  A flow whose only fragment leads from its source to its destination over existing links and
  uses no interface twice; \<open>gapOf\<close> is the inter-frame gap of each interface.
\<close>

definition plain_flow :: "link_map \<Rightarrow> (nat \<Rightarrow> simtime) \<Rightarrow> eager_flow \<Rightarrow> bool" where
  "plain_flow links gapOf f \<longleftrightarrow>
     (\<exists>ns. flowFragments f = [ns] \<and> ns \<noteq> [] \<and> hd ns = flowSource f \<and> last ns = flowDestination f \<and>
        distinct (interfaces_of links ns) \<and>
        (\<forall>l \<in> set (links_of links ns). \<exists>k. l = Some k \<and> interFrameGap k = gapOf (linkInterface k) \<and>
            0 \<le> transmissionTime k (flowPacketLength f) \<and> 0 \<le> propagationDelay k))"

text \<open>Bookings of an interface that keep their distance pairwise.\<close>

definition spaced :: "simtime \<Rightarrow> booking list \<Rightarrow> bool" where
  "spaced gap bs \<longleftrightarrow> sorted_wrt (\<lambda>b c. clear_of gap (gateOpenTime c) (gateCloseTime c) b) bs"

lemma spaced_append:
  "spaced gap (bs @ [c]) \<longleftrightarrow> spaced gap bs \<and> (\<forall>b \<in> set bs. clear_of gap (gateOpenTime c) (gateCloseTime c) b)"
  by (simp add: spaced_def sorted_wrt_append)

lemma interfaces_of_simps [simp]:
  "links n m = Some l \<Longrightarrow> interfaces_of links (n # m # ns) = linkInterface l # interfaces_of links (m # ns)"
  "interfaces_of links [n] = []" "interfaces_of links [] = []"
  by (simp_all add: interfaces_of_def List.map_filter_def)

text \<open>Booking along a fragment on which the walk met no delay.\<close>

lemma book_after_free_walk:
  assumes "walk_fragment links sch0 (flowPacketLength f) ns t path0 = Inr (t', 0, path0')"
    and "book_fragment links cyc f start ns t path sch = Inr (t'', path', sch')"
    and "distinct (interfaces_of links ns)" "\<forall>i \<in> set (interfaces_of links ns). sch i = sch0 i"
    and "\<forall>l \<in> set (links_of links ns). \<exists>k. l = Some k \<and> interFrameGap k = gapOf (linkInterface k)"
    and "\<forall>i. spaced (gapOf i) (sch i)"
  shows "(\<forall>i. spaced (gapOf i) (sch' i)) \<and> t'' = t'"
  using assms
proof (induction links cyc f start ns t path sch arbitrary: path0 rule: book_fragment.induct)
  case (1 links cyc f start n m ns t path sch)
  obtain l where l: "links n m = Some l" "interFrameGap l = gapOf (linkInterface l)" using 1(6) by auto
  let ?i = "linkInterface l" and ?dur = "transmissionTime l (flowPacketLength f)"
  have free: "free_window (interFrameGap l) ?dur (sch0 ?i) 0 t = t"
    and walk: "walk_fragment links sch0 (flowPacketLength f) (m # ns) (t + ?dur + propagationDelay l) (path0 @ [n]) = Inr (t', 0, path0')"
    using 1(2) l(1) by (auto simp: Let_def split: if_splits)
  have same: "sch ?i = sch0 ?i" using 1(5) l(1) by simp
  let ?c = "\<lparr>gateOpenIndex = flowGateIndex f, gateOpenTime = t, gateCloseTime = t + ?dur\<rparr>"
  let ?sch = "sch(?i := sch ?i @ [?c])"
  have book: "book_fragment links cyc f start (m # ns) (t + ?dur + propagationDelay l) (path @ [n]) ?sch = Inr (t'', path', sch')"
    and fits: "\<not> start + cyc < t + ?dur"
    using 1(3) l(1) free same by (auto simp: Let_def split: if_splits)
  have "spaced (gapOf ?i) (sch ?i @ [?c])"
    using spec [OF 1(7), of ?i] free_window_clear [OF free] l(2) same by (simp add: spaced_append)
  then have spaced: "\<forall>i. spaced (gapOf i) (?sch i)" using 1(7) by simp
  have "\<forall>i \<in> set (interfaces_of links (m # ns)). ?sch i = sch0 i" "distinct (interfaces_of links (m # ns))"
    using 1(4,5) l(1) by auto
  moreover have "\<forall>l \<in> set (links_of links (m # ns)). \<exists>k. l = Some k \<and> interFrameGap k = gapOf (linkInterface k)"
    using 1(6) by simp
  moreover have opn: "free_window (interFrameGap l) ?dur (sch ?i) 0 t = t" using free same by simp
  ultimately show ?case
    using 1(1) [OF l(1) refl refl refl, unfolded opn, OF fits walk book] spaced by blast
qed auto

lemma start_offset_free_walk:
  assumes "computeStreamStartOffset n fuel links sch f off0 = Some (Inr off)"
    and "flowFragments f = [ns]" "ns \<noteq> []" "hd ns = flowSource f" "last ns = flowDestination f"
  shows "\<exists>t' path. walk_fragment links sch (flowPacketLength f) ns off [] = Inr (t', 0, path)"
proof -
  have "computeStartOffsetForPathFragments fuel links sch f off = Some (Inr 0)"
    using assms(1) by (induction n arbitrary: off0) (auto split: option.splits sum.splits if_splits)
  then obtain k where "shiftOfTodos (Suc k) links sch f [(flowSource f, off, [])] 0 = Some (Inr 0)"
    by (cases fuel) (auto simp: computeStartOffsetForPathFragments_def)
  then obtain shift new where "shiftOfTodo links sch f (flowSource f, off, []) = Inr (shift, new)"
    and rest: "shiftOfTodos k links sch f new shift = Some (Inr 0)"
    by (auto split: sum.splits)
  then obtain t' path where "walk_fragment links sch (flowPacketLength f) ns off [] = Inr (t', shift, path)"
    and "new = []"
    using assms(2-5) by (auto simp: shiftOfTodo_def follow_on_def rbind_Inr_iff)
  with rest show ?thesis by (cases k) auto
qed

lemma addGateScheduling_plain:
  assumes "addGateScheduling fuel links cyc f 0 1 off sch = Some (Inr sch')"
    and "flowFragments f = [ns]" "ns \<noteq> []" "hd ns = flowSource f" "last ns = flowDestination f"
  shows "\<exists>t' path. book_fragment links cyc f off ns off [] sch = Inr (t', path, sch') \<and> t' - off \<le> flowMaxLatency f"
proof -
  have "addGateSchedulingForPathFragments fuel links cyc f off sch = Some (Inr sch')"
    using assms(1) by (auto simp: addGateScheduling_def split: option.splits sum.splits)
  then obtain k where "bookTodos (Suc k) links cyc f off [(flowSource f, off, [])] sch = Some (Inr sch')"
    by (cases fuel) (auto simp: addGateSchedulingForPathFragments_def)
  then obtain new sch1 where "bookTodo links cyc f off (flowSource f, off, []) sch = Inr (new, sch1)"
    and rest: "bookTodos k links cyc f off new sch1 = Some (Inr sch')"
    by (auto split: sum.splits)
  then obtain t' path where "book_fragment links cyc f off ns off [] sch = Inr (t', path, sch1)"
    and "new = []" "t' - off \<le> flowMaxLatency f"
    using assms(2-5) by (auto simp: bookTodo_def follow_on_def rbind_Inr_iff not_less split: if_splits)
  with rest show ?thesis by (cases k) auto
qed

lemma scheduleFirst_spaced:
  assumes "plain_flow links gapOf f" "\<forall>i. spaced (gapOf i) (sch i)"
    and "scheduleFirst n fuel links cyc (starts, sch) f = Some (Inr (starts', sch'))"
  shows "\<forall>i. spaced (gapOf i) (sch' i)"
proof -
  obtain ns where ns: "flowFragments f = [ns]" "ns \<noteq> []" "hd ns = flowSource f" "last ns = flowDestination f"
    and dist: "distinct (interfaces_of links ns)"
    and gaps: "\<forall>l \<in> set (links_of links ns). \<exists>k. l = Some k \<and> interFrameGap k = gapOf (linkInterface k)"
    using assms(1) unfolding plain_flow_def by blast
  obtain off where off: "computeStreamStartOffset n fuel links sch f 0 = Some (Inr off)"
    and add: "addGateScheduling fuel links cyc f 0 1 off sch = Some (Inr sch')"
    using assms(3) by (auto simp: scheduleFirst_def split: option.splits sum.splits)
  obtain t' path where walk: "walk_fragment links sch (flowPacketLength f) ns off [] = Inr (t', 0, path)"
    using start_offset_free_walk [OF off ns] by blast
  obtain t'' path' where book: "book_fragment links cyc f off ns off [] sch = Inr (t'', path', sch')"
    using addGateScheduling_plain [OF add ns] by blast
  show ?thesis using book_after_free_walk [OF walk book dist _ gaps assms(2)] by simp
qed

text \<open>
  C3. The first instances of the flows never collide: after the first phase, which books the
  first packet of every flow, the bookings of each interface are pairwise disjoint and at least
  the inter-frame gap apart, for any number of flows with one path each.
\<close>

theorem first_instances_never_collide:
  assumes "foldO (scheduleFirst n fuel links cyc) (Map.empty, \<lambda>_. []) flows = Some (Inr (starts, sch))"
    and "list_all (plain_flow links gapOf) flows"
  shows "spaced (gapOf i) (sch i)"
proof -
  have "\<forall>i. spaced (gapOf i) (sch i)"
    if "foldO (scheduleFirst n fuel links cyc) s0 flows = Some (Inr (starts, sch))"
      "\<forall>i. spaced (gapOf i) (snd s0 i)" "list_all (plain_flow links gapOf) flows" for s0 flows
    using that
  proof (induction flows arbitrary: s0)
    case Nil
    then show ?case by auto
  next
    case (Cons f fs)
    from Cons.prems(1) obtain s1 where s1: "scheduleFirst n fuel links cyc s0 f = Some (Inr s1)"
      and rest: "foldO (scheduleFirst n fuel links cyc) s1 fs = Some (Inr (starts, sch))"
      by (auto split: option.splits sum.splits)
    have "\<forall>i. spaced (gapOf i) (snd s1 i)"
      using scheduleFirst_spaced [of links gapOf f "snd s0" n fuel cyc "fst s0" "fst s1" "snd s1"] Cons.prems s1 by simp
    then show ?case using Cons.IH [OF rest] Cons.prems(3) by simp
  qed
  from this [OF assms(1) _ assms(2)] show ?thesis by (simp add: spaced_def)
qed

section \<open>The search ends\<close>

lemma walk_shift:
  assumes "\<forall>l \<in> set (links_of links ns). \<exists>k. l = Some k \<and> interFrameGap k = gapOf (linkInterface k) \<and>
            0 \<le> transmissionTime k len \<and> 0 \<le> propagationDelay k"
    and "\<forall>i \<in> set (interfaces_of links ns). \<forall>b \<in> set (sch i). gateCloseTime b + gapOf i \<le> M"
  shows "\<exists>t' d path'. walk_fragment links sch len ns t path = Inr (t', d, path') \<and> 0 \<le> d \<and> (M \<le> t \<longrightarrow> d = 0)"
  using assms
proof (induction links sch len ns t path rule: walk_fragment.induct)
  case (1 links sch len n m ns t path)
  obtain l where l: "links n m = Some l" "interFrameGap l = gapOf (linkInterface l)"
    "0 \<le> transmissionTime l len" "0 \<le> propagationDelay l" using 1(2) by auto
  let ?i = "linkInterface l" and ?dur = "transmissionTime l len"
  have ge: "t \<le> free_window (interFrameGap l) ?dur (sch ?i) 0 t" by (rule free_window_ge)
  have far: "free_window (interFrameGap l) ?dur (sch ?i) 0 t = t" if "M \<le> t"
    using 1(3) l that by (intro free_window_free) fastforce
  show ?case
  proof (cases "free_window (interFrameGap l) ?dur (sch ?i) 0 t = t")
    case False
    then show ?thesis using ge far l(1) by (auto simp: Let_def)
  next
    case True
    have "\<exists>t' d path'. walk_fragment links sch len (m # ns) (t + ?dur + propagationDelay l) (path @ [n]) = Inr (t', d, path')
        \<and> 0 \<le> d \<and> (M \<le> t + ?dur + propagationDelay l \<longrightarrow> d = 0)"
      using 1(1) [OF l(1) refl refl, unfolded True] 1(2,3) l(1) by simp
    then show ?thesis using l True by (auto simp: Let_def)
  qed
qed auto

lemma bound_exists: "\<exists>M. \<forall>i \<in> set is. \<forall>b \<in> set (sch i). gateCloseTime b + gapOf i \<le> (M :: int)"
proof -
  let ?S = "\<Union>i \<in> set is. (\<lambda>b. gateCloseTime b + gapOf i) ` set (sch i)"
  have "finite ?S" by blast
  then obtain M where "\<forall>x \<in> ?S. x \<le> M" by (meson Max_ge)
  then show ?thesis by blast
qed

text \<open>
  C35. The search for the start offset of a flow ends: for a flow with one path over existing
  links that uses no interface twice, and any bookings, there is a number of turns of the \<open>while (true)\<close> loop after which it
  returns an offset.
\<close>

theorem start_offset_search_ends:
  assumes "plain_flow links gapOf f"
  shows "\<exists>n off. computeStreamStartOffset n 1 links sch f 0 = Some (Inr off)"
proof -
  obtain ns where ns: "flowFragments f = [ns]" "ns \<noteq> []" "hd ns = flowSource f" "last ns = flowDestination f"
    and ok: "\<forall>l \<in> set (links_of links ns). \<exists>k. l = Some k \<and> interFrameGap k = gapOf (linkInterface k) \<and>
            0 \<le> transmissionTime k (flowPacketLength f) \<and> 0 \<le> propagationDelay k"
    using assms unfolding plain_flow_def by blast
  obtain M where M: "\<forall>i \<in> set (interfaces_of links ns). \<forall>b \<in> set (sch i). gateCloseTime b + gapOf i \<le> M"
    using bound_exists [of "interfaces_of links ns" sch gapOf] by blast
  have shift: "\<exists>d. computeStartOffsetForPathFragments 1 links sch f off = Some (Inr d) \<and> 0 \<le> d \<and> (M \<le> off \<longrightarrow> d = 0)" for off
    using walk_shift [OF ok M, of off "[]"] ns
    by (auto simp: computeStartOffsetForPathFragments_def shiftOfTodo_def follow_on_def)
  have "\<exists>r. computeStreamStartOffset n 1 links sch f off = Some (Inr r)" if "nat (M - off) < n" for n off
    using that
  proof (induction n arbitrary: off)
    case 0
    then show ?case by simp
  next
    case (Suc n)
    obtain d where d: "computeStartOffsetForPathFragments 1 links sch f off = Some (Inr d)" "0 \<le> d" "M \<le> off \<longrightarrow> d = 0"
      using shift by blast
    show ?case
    proof (cases "d = 0")
      case False
      then have "nat (M - (off + d)) < n" using Suc.prems d(2,3) by linarith
      then show ?thesis using Suc.IH [of "off + d"] d(1) False by simp
    qed (use d in simp)
  qed
  then show ?thesis by blast
qed

section \<open>Latency\<close>

lemma book_time:
  assumes "book_fragment links cyc f start ns t path sch = Inr (t', path', sch')"
    and "\<forall>l \<in> set (links_of links ns). \<exists>k. l = Some k \<and> 0 \<le> transmissionTime k (flowPacketLength f) \<and> 0 \<le> propagationDelay k"
  shows "t \<le> t'"
  using assms
proof (induction links cyc f start ns t path sch rule: book_fragment.induct)
  case (1 links cyc f start n m ns t path sch)
  obtain l where l: "links n m = Some l" "0 \<le> transmissionTime l (flowPacketLength f)" "0 \<le> propagationDelay l"
    using 1(3) by auto
  let ?opn = "free_window (interFrameGap l) (transmissionTime l (flowPacketLength f)) (sch (linkInterface l)) 0 t"
  have fits: "\<not> start + cyc < ?opn + transmissionTime l (flowPacketLength f)"
    and book: "book_fragment links cyc f start (m # ns) (?opn + transmissionTime l (flowPacketLength f) + propagationDelay l)
      (path @ [n]) (sch(linkInterface l := sch (linkInterface l) @
        [\<lparr>gateOpenIndex = flowGateIndex f, gateOpenTime = ?opn, gateCloseTime = ?opn + transmissionTime l (flowPacketLength f)\<rparr>]))
      = Inr (t', path', sch')"
    using 1(2) l(1) by (auto simp: Let_def split: if_splits)
  have "?opn + transmissionTime l (flowPacketLength f) + propagationDelay l \<le> t'"
    by (rule 1(1) [OF l(1) refl refl refl fits book]) (use 1(3) in simp)
  then show ?case using free_window_ge [of t] l(2,3) by (smt (verit))
qed auto

text \<open>
  A flow without a latency bound cannot be scheduled: \<open>addFlows\<close> gives such a flow the
  bound -1 s, and booking compares the latency with it like with any other bound, so the
  configuration of every network with such a flow ends with an error.
\<close>

theorem flow_without_latency_bound_is_rejected:
  assumes "plain_flow links gapOf f" "flowMaxLatency f = simtime_s (-1)"
    and "addGateScheduling fuel links cyc f 0 1 off sch = Some r"
  shows "\<exists>e. r = Inl e"
proof (rule ccontr)
  assume "\<not> ?thesis"
  then obtain sch' where sch': "addGateScheduling fuel links cyc f 0 1 off sch = Some (Inr sch')"
    using assms(3) by (cases r) auto
  obtain ns where ns: "flowFragments f = [ns]" "ns \<noteq> []" "hd ns = flowSource f" "last ns = flowDestination f"
    and ok: "\<forall>l \<in> set (links_of links ns). \<exists>k. l = Some k \<and> 0 \<le> transmissionTime k (flowPacketLength f) \<and> 0 \<le> propagationDelay k"
    using assms(1) unfolding plain_flow_def by blast
  obtain t' path where "book_fragment links cyc f off ns off [] sch = Inr (t', path, sch')" "t' - off \<le> flowMaxLatency f"
    using addGateScheduling_plain [OF sch' ns] by blast
  with book_time [OF _ ok] assms(2) show False by (fastforce simp: simtime_s_def)
qed

section \<open>Bookings and slots\<close>

text \<open>
  A booking that begins inside the cycle keeps its meaning when it is turned into slots,
  also when it reaches into the next cycle: the slots cover exactly the positions of the cycle
  that the booking covers.
\<close>

theorem booking_slots_cover:
  assumes "0 \<le> gateOpenTime b" "gateOpenTime b < cyc" "gateCloseTime b \<le> gateOpenTime b + cyc"
    and "0 \<le> p" "p < cyc"
  shows "in_slot (slotsOfBooking cyc b) p \<longleftrightarrow>
    (gateOpenTime b \<le> p \<and> p < gateCloseTime b \<or> gateOpenTime b \<le> p + cyc \<and> p + cyc < gateCloseTime b)"
  using assms by (auto simp: slotsOfBooking_def in_slot_def Let_def crem_nonneg)

section \<open>Schedules without slots\<close>

lemma fold_alwaysOpen:
  assumes "fold (\<lambda>p gs. if nat (eportNumGates p) = 0 then gs
          else gs(eportInterface p \<mapsto> (case gs (eportInterface p) of None \<Rightarrow> [] | Some ss \<Rightarrow> ss) @
                 map (alwaysOpenSchedule cyc p) [0..<nat (eportNumGates p)])) ports gs0 i = Some ss"
    and "\<And>ss s. gs0 i = Some ss \<Longrightarrow> s \<in> set ss \<Longrightarrow> slots s = []"
  shows "\<forall>s \<in> set ss. slots s = []"
  using assms
proof (induction ports arbitrary: gs0)
  case Nil
  then show ?case by auto
next
  case (Cons p ports)
  show ?case
  proof (rule Cons.IH [OF Cons.prems(1) [unfolded fold_simps]])
    fix qs s
    assume "(if nat (eportNumGates p) = 0 then gs0
          else gs0(eportInterface p \<mapsto> (case gs0 (eportInterface p) of None \<Rightarrow> [] | Some ss \<Rightarrow> ss) @
                 map (alwaysOpenSchedule cyc p) [0..<nat (eportNumGates p)])) i = Some qs" "s \<in> set qs"
    then consider "s \<in> set (map (alwaysOpenSchedule cyc p) [0..<nat (eportNumGates p)])"
      | rs where "gs0 i = Some rs" "s \<in> set rs"
      by (auto split: if_splits option.splits)
    then show "slots s = []" using Cons.prems(2) by cases (auto simp: alwaysOpenSchedule_def)
  qed
qed

text \<open>
  The always-open schedule changes nothing: its schedules have no slots, so the configurator
  writes no parameters and a gate that is closed, or periodic from an earlier schedule, stays
  as it is.
\<close>

theorem always_open_schedule_is_ignored:
  assumes "gateSchedules (alwaysOpenComputeGateScheduling cyc ports apps) port = Some schedules"
    and "gateIndex < length schedules"
  shows "configureGateScheduling now cyc (gateSchedules (alwaysOpenComputeGateScheduling cyc ports apps)) port gateIndex g = Inr g"
proof -
  have "\<forall>s \<in> set schedules. slots s = []"
    using assms(1) unfolding alwaysOpenComputeGateScheduling_def gate_output.simps
    by (rule fold_alwaysOpen) simp
  then have "slots (schedules ! gateIndex) = []" using assms(2) by simp
  then show ?thesis using assms
    by (simp add: configureGateScheduling_def gateParameters_def setGateParameters_def)
qed

section \<open>A concrete network\<close>

text \<open>
  Sources A, C, S and destination B; every link carries a bit per tick. The links from A and C
  to S have long propagation delays, so their packets reach the bridge S late in the cycle.
\<close>

definition demo_links :: link_map where
  "demo_links n m =
     (if n = ''A'' \<and> m = ''S'' then Some \<lparr>linkInterface = 2, transmissionTime = (\<lambda>b. b), propagationDelay = 900\<rparr>
      else if n = ''C'' \<and> m = ''S'' then Some \<lparr>linkInterface = 3, transmissionTime = (\<lambda>b. b), propagationDelay = 580\<rparr>
      else if n = ''S'' \<and> m = ''B'' then Some \<lparr>linkInterface = 1, transmissionTime = (\<lambda>b. b), propagationDelay = 0\<rparr>
      else None)"

definition demo_flow_of :: "string list \<Rightarrow> int \<Rightarrow> simtime \<Rightarrow> nat \<Rightarrow> eager_flow" where
  "demo_flow_of path len interval app =
     \<lparr>flowGateIndex = 4, flowApplication = app, flowSource = hd path, flowDestination = ''B'',
      flowPacketLength = len, flowPacketInterval = interval, flowMaxLatency = 5000, flowFragments = [path]\<rparr>"

definition demo_flows :: "eager_flow list" where
  "demo_flows = [demo_flow_of [''A'', ''S'', ''B''] 100 1400 1, demo_flow_of [''C'', ''S'', ''B''] 100 1400 2,
                 demo_flow_of [''S'', ''B''] 150 700 3]"

definition demo_ports :: "eager_port list" where
  "demo_ports = [\<lparr>eportInterface = 1, eportNumGates = 8\<rparr>]"

text \<open>Two slots of one gate that overlap.\<close>

definition overlapping :: "gate_schedule \<Rightarrow> bool" where
  "overlapping sch \<longleftrightarrow> list_ex (\<lambda>(s, s'). slotStart s < slotStart s' \<and> slotStart s' < slotEnd s)
     (List.product (slots sch) (slots sch))"

text \<open>
  Later instances can collide: after a conflict the search for a window goes on at the second
  booking and never looks at the first one again. For three flows over one bridge the computed
  schedule contains two slots of the same gate that overlap.
\<close>

theorem later_instances_may_collide:
  "case eagerComputeGateScheduling 5 5 demo_links 1400 demo_ports demo_flows of
     Some (Inr out) \<Rightarrow> (case gateSchedules out 1 of Some ss \<Rightarrow> overlapping (ss ! 4) | None \<Rightarrow> False)
   | _ \<Rightarrow> False"
  by code_simp

lemma demo_plain:
  "list_all (plain_flow demo_links (\<lambda>i. 96)) demo_flows"
  "plain_flow demo_links (\<lambda>i. 96) ((demo_flow_of [''S'', ''B''] 150 700 3)\<lparr>flowMaxLatency := simtime_s (-1)\<rparr>)"
  by (auto simp: demo_flows_def demo_flow_of_def plain_flow_def demo_links_def interFrameGap_def
      interfaces_of_def List.map_filter_def)

theorem first_instances_never_collide_witness:
  "\<exists>starts sch. foldO (scheduleFirst 5 5 demo_links 1400) (Map.empty, \<lambda>_. []) demo_flows = Some (Inr (starts, sch)) \<and>
     spaced 96 (sch 1)"
proof -
  have "case foldO (scheduleFirst 5 5 demo_links 1400) (Map.empty, \<lambda>_. []) demo_flows of
      Some r \<Rightarrow> is_ok r | None \<Rightarrow> False" by code_simp
  then obtain starts sch where
    "foldO (scheduleFirst 5 5 demo_links 1400) (Map.empty, \<lambda>_. []) demo_flows = Some (Inr (starts, sch))"
    using is_ok_pair by (auto split: option.splits)
  with first_instances_never_collide [OF this demo_plain(1), of 1] show ?thesis by blast
qed

theorem start_offset_search_ends_witness:
  "\<exists>n off. computeStreamStartOffset n 1 demo_links (\<lambda>_. [\<lparr>gateOpenIndex = 4, gateOpenTime = 0, gateCloseTime = 50\<rparr>])
     (demo_flow_of [''S'', ''B''] 150 700 3) 0 = Some (Inr off)"
  using start_offset_search_ends [of demo_links "\<lambda>i. 96" "demo_flow_of [''S'', ''B''] 150 700 3"] demo_plain(1)
  by (simp add: demo_flows_def)

theorem flow_without_latency_bound_is_rejected_witness:
  "\<exists>e. addGateScheduling 5 demo_links 1400 ((demo_flow_of [''S'', ''B''] 150 700 3)\<lparr>flowMaxLatency := simtime_s (-1)\<rparr>)
     0 1 0 (\<lambda>_. []) = Some (Inl e)"
proof -
  let ?a = "addGateScheduling 5 demo_links 1400 ((demo_flow_of [''S'', ''B''] 150 700 3)\<lparr>flowMaxLatency := simtime_s (-1)\<rparr>)
     0 1 0 (\<lambda>_. [])"
  have "?a \<noteq> None" by code_simp
  then obtain r where "?a = Some r" by blast
  with flow_without_latency_bound_is_rejected [OF demo_plain(2) _ this] show ?thesis by simp
qed

theorem booking_slots_cover_witness:
  "in_slot (slotsOfBooking 100 \<lparr>gateOpenIndex = 0, gateOpenTime = 90, gateCloseTime = 110\<rparr>) 5"
  using booking_slots_cover [of "\<lparr>gateOpenIndex = 0, gateOpenTime = 90, gateCloseTime = 110\<rparr>" 100 5] by simp

theorem always_open_schedule_is_ignored_witness:
  "configureGateScheduling 0 1400 (gateSchedules (alwaysOpenComputeGateScheduling 1400 demo_ports [])) 1 3 demo_gate
     = Inr demo_gate"
proof -
  obtain ss where "gateSchedules (alwaysOpenComputeGateScheduling 1400 demo_ports []) 1 = Some ss" "length ss = 8"
    by (simp add: alwaysOpenComputeGateScheduling_def demo_ports_def)
  then show ?thesis using always_open_schedule_is_ignored [of 1400 demo_ports "[]" 1 ss 3] by simp
qed

end
