(* ===== verification/TsnStreams.thy ===== *)
theory TsnStreams
  imports CStrings Complex_Main
begin

text \<open>
  \<open>DynSchedForwardingApplication::TsnStream\<close>
  (\<open>cooperative_tsn/applications/DynSchedForwardingApplication.h\<close>): what a vehicle's gateway
  remembers of a stream that arrives over the air, and how it sizes the stream's slot in the
  TSN schedule from the phases of the last ten arrivals.

  Modules are numbers; what OMNeT++ answers about them is the argument \<open>env\<close>. Doubles are
  reals. \<open>tenth\<close> stands for \<open>SimTime * 0.1\<close>, whose rounding is OMNeT++'s.
\<close>

section \<open>Modules and configuration\<close>

type_synonym module = nat

record module_env =
  fullName :: "module \<Rightarrow> string"
  shortName :: "module \<Rightarrow> string"
  fullPath :: "module \<Rightarrow> string"
  isVector :: "module \<Rightarrow> bool"
  vectorIndex :: "module \<Rightarrow> nat"
  parentOf :: "module \<Rightarrow> module"
  moduleByPath :: "string \<Rightarrow> module option"
  submodule :: "module \<Rightarrow> string \<Rightarrow> module option"
  submoduleAt :: "module \<Rightarrow> string \<Rightarrow> int \<Rightarrow> module option"
  valueStr :: "string \<Rightarrow> string"          \<comment> \<open>\<open>cValue::str\<close> of a string\<close>
  showBits :: "int \<Rightarrow> string"             \<comment> \<open>how a quantity is written to a stream\<close>
  showMs :: "real \<Rightarrow> string"
  showTime :: "simtime \<Rightarrow> string"

text \<open>A line of the configuration; the keys of a \<open>cValueMap\<close> may be absent.\<close>

record config_line =
  cfgSource :: "string option"
  cfgDestination :: "string option"
  cfgPcp :: "int option"
  cfgGateIndex :: "int option"
  cfgPacketLength :: "real option"         \<comment> \<open>in bits\<close>
  cfgPacketInterval :: "real option"       \<comment> \<open>in ms\<close>
  cfgStreamName :: "string option"
  cfgApplication :: "string option"
  cfgMaxLatency :: "real option"
  cfgMaxJitter :: "real option"
  cfgPathFragments :: "string list option"

record tsn_stream =
  streamName :: string
  PCP :: int
  gateIndex :: int
  applicationModule :: "module option"
  sourceModule :: module
  externalSourceModule :: "module option"
  destinationModule :: module
  packetSize :: int
  packetInterval :: real
  maxLatency :: real
  maxJitter :: real
  pathFragments :: "module option list"
  lastTimePacketArrived :: "simtime list"
  queueSize :: nat
  startTime :: simtime
  dataRate :: real
  numberPackets :: nat
  originalPacketSize :: int

definition updateIntervall :: nat where "updateIntervall = 10"

text \<open>\<open>cValueMap::get\<close> throws for an absent key.\<close>

definition get_key :: "'a option \<Rightarrow> 'a result" where
  "get_key x = (case x of None \<Rightarrow> Inl (RuntimeError ''key not found'') | Some v \<Rightarrow> Inr v)"

text \<open>\<open>ASSERT2(pointer, ...)\<close>\<close>

definition assert_found :: "'a option \<Rightarrow> 'a result" where
  "assert_found x = (case x of None \<Rightarrow> Inl AssertionFailed | Some v \<Rightarrow> Inr v)"

definition trunc_int :: "real \<Rightarrow> int" where
  "trunc_int r = (if 0 \<le> r then \<lfloor>r\<rfloor> else \<lceil>r\<rceil>)"

section \<open>Construction\<close>

text \<open>The application of a stream: a submodule of the source for \<open>name[index]\<close>, else of the parent.\<close>

definition applicationOf :: "module_env \<Rightarrow> module \<Rightarrow> module \<Rightarrow> string \<Rightarrow> module option result" where
  "applicationOf env source parent app =
     (case string_find app ''['' of
        Some p \<Rightarrow>
          (let index = (case string_find app '']'' of
                 Some q \<Rightarrow> (if p + 1 \<le> q then take (q - p - 1) (drop (p + 1) app) else drop (p + 1) app)
               | None \<Rightarrow> drop (p + 1) app)
           in rbind (stoi index) (\<lambda>i. Inr (submoduleAt env source (take p app) i)))
      | None \<Rightarrow> Inr (submodule env parent app))"

definition defaultStreamName :: "module_env \<Rightarrow> module option \<Rightarrow> module \<Rightarrow> int \<Rightarrow> module \<Rightarrow> string" where
  "defaultStreamName env ext source pcp dest =
     (case ext of None \<Rightarrow> [] | Some m \<Rightarrow> fullName env (parentOf env m) @ ''.'' @ fullName env m @ ''-'')
     @ shortName env source @ ''-PCP'' @ int_to_string pcp @ ''-'' @ shortName env dest"

definition makeStream :: "module_env \<Rightarrow> config_line \<Rightarrow> module \<Rightarrow> module option \<Rightarrow> tsn_stream result" where
  "makeStream env cfg parent ext =
     rbind (get_key (cfgSource cfg)) (\<lambda>s.
     rbind (assert_found (moduleByPath env (fullPath env parent @ ''.'' @ s))) (\<lambda>source.
     rbind (get_key (cfgDestination cfg)) (\<lambda>d.
     rbind (assert_found (moduleByPath env (fullPath env parent @ ''.'' @ d))) (\<lambda>dest.
     rbind (get_key (cfgPcp cfg)) (\<lambda>pcp.
     rbind (ensure (0 \<le> pcp \<and> pcp \<le> 7)) (\<lambda>_.
     rbind (get_key (cfgGateIndex cfg)) (\<lambda>gi.
     rbind (ensure (0 \<le> gi)) (\<lambda>_.
     rbind (get_key (cfgPacketLength cfg)) (\<lambda>len.
     rbind (ensure (0 < trunc_int len)) (\<lambda>_.
     rbind (get_key (cfgPacketInterval cfg)) (\<lambda>interval.
     rbind (case cfgApplication cfg of None \<Rightarrow> Inr None | Some app \<Rightarrow> applicationOf env source parent app) (\<lambda>app.
       let name = (case cfgStreamName cfg of None \<Rightarrow> [] | Some n \<Rightarrow> valueStr env n) in
       Inr \<lparr>streamName = (if name = [] then defaultStreamName env ext source pcp dest else name),
            PCP = pcp, gateIndex = gi, applicationModule = app, sourceModule = source,
            externalSourceModule = ext, destinationModule = dest,
            packetSize = trunc_int len, packetInterval = interval,
            maxLatency = (case cfgMaxLatency cfg of None \<Rightarrow> 0 | Some l \<Rightarrow> l),
            maxJitter = (case cfgMaxJitter cfg of None \<Rightarrow> 0 | Some j \<Rightarrow> j),
            pathFragments = (case cfgPathFragments cfg of None \<Rightarrow> []
               | Some fs \<Rightarrow> map (\<lambda>f. moduleByPath env (fullPath env parent @ ''.'' @ f)) fs),
            lastTimePacketArrived = replicate 10 0, queueSize = 10, startTime = 0, dataRate = 100,
            numberPackets = 0, originalPacketSize = trunc_int len\<rparr>))))))))))))"

text \<open>The copy constructor names every member but \<open>startTime\<close> and \<open>numberPackets\<close>.\<close>

definition copyStream :: "tsn_stream \<Rightarrow> tsn_stream" where
  "copyStream old = old\<lparr>startTime := 0, numberPackets := 0\<rparr>"

section \<open>Arrivals\<close>

definition cycleTime :: simtime where "cycleTime = simtime_ms 100"

text \<open>\<open>SimTime::trunc\<close> to a coarser unit.\<close>

definition simtime_trunc :: "simtime \<Rightarrow> simtime \<Rightarrow> simtime" where
  "simtime_trunc unit t = t - crem t unit"

text \<open>
  \<open>offset\<close> is the creation time offset of the source's application. \<open>100 - offset\<close> converts the
  number 100 to seconds.
\<close>

definition pushTime :: "simtime \<Rightarrow> tsn_stream \<Rightarrow> simtime \<Rightarrow> tsn_stream" where
  "pushTime offset s time =
     (let diff_time = crem (simtime_trunc (simtime_ns 1) time) cycleTime;
          kept = (if length (lastTimePacketArrived s) = queueSize s
                  then butlast (lastTimePacketArrived s) else lastTimePacketArrived s);
          new_time = crem (diff_time + (simtime_s 100 - offset)) cycleTime
      in s\<lparr>numberPackets := numberPackets s + 1, lastTimePacketArrived := new_time # kept\<rparr>)"

text \<open>The minimum and maximum of the recorded phases; zero stands for "not set".\<close>

definition minPhase :: "simtime list \<Rightarrow> simtime" where
  "minPhase ts = foldl (\<lambda>mn t. if t \<noteq> 0 \<and> (t < mn \<or> mn = 0) then t else mn) 0 ts"

definition maxPhase :: "simtime list \<Rightarrow> simtime" where
  "maxPhase ts = foldl (\<lambda>mx t. if t \<noteq> 0 \<and> (mx < t \<or> mx = 0) then t else mx) 0 ts"

definition setStartTime :: "tsn_stream \<Rightarrow> tsn_stream" where
  "setStartTime s = s\<lparr>startTime := minPhase (lastTimePacketArrived s)\<rparr>"

definition adjusteStartTime :: "tsn_stream \<Rightarrow> simtime \<Rightarrow> tsn_stream" where
  "adjusteStartTime s off = s\<lparr>startTime := crem (startTime s - off) cycleTime\<rparr>"

definition getNewSlotSize :: "(simtime \<Rightarrow> simtime) \<Rightarrow> tsn_stream \<Rightarrow> tsn_stream \<times> int" where
  "getNewSlotSize tenth s =
     (if numberPackets s mod updateIntervall \<noteq> 2 then (s, packetSize s)
      else
        (let mn = minPhase (lastTimePacketArrived s);
             mx = maxPhase (lastTimePacketArrived s);
             diff_time = mx - mn;
             packetTime = simtime_ns (trunc_int (real_of_int (originalPacketSize s) / dataRate s * 1000));
             adjustment = tenth diff_time;
             s' = adjusteStartTime (s\<lparr>startTime := mn\<rparr>) (adjustment div 2);
             total_time = diff_time + adjustment + (simtime_us 21 + packetTime);
             slot_size = real_of_int (total_time div simtime_ns 1) * dataRate s / 1000
         in (s', \<lceil>slot_size\<rceil>)))"

definition setPacketSize :: "tsn_stream \<Rightarrow> int \<Rightarrow> tsn_stream" where
  "setPacketSize s bits = s\<lparr>packetSize := bits\<rparr>"

text \<open>The average that is computed first is not used.\<close>

definition setPacketInterval :: "tsn_stream \<Rightarrow> tsn_stream" where
  "setPacketInterval s = s\<lparr>packetInterval := 100\<rparr>"

definition getCreationTimeOffset :: "simtime \<Rightarrow> simtime" where
  "getCreationTimeOffset creationTime = crem (simtime_trunc (simtime_us 1) creationTime) cycleTime"

section \<open>Writing the configuration\<close>

definition quoted :: "string \<Rightarrow> string" where "quoted s = ''\"'' @ s @ ''\"''"

text \<open>\<open>operator<<\<close>; a null module pointer is dereferenced.\<close>

definition printApplication :: "module_env \<Rightarrow> module \<Rightarrow> string" where
  "printApplication env m =
     (if isVector env m then quoted (shortName env m @ ''['' @ nat_to_string (vectorIndex env m) @ '']'')
      else quoted (shortName env m))"

definition printStream :: "module_env \<Rightarrow> tsn_stream \<Rightarrow> string result" where
  "printStream env s =
     (case applicationModule s of None \<Rightarrow> Inl NullPointer | Some app \<Rightarrow>
      rbind (mapM (\<lambda>f. case f of None \<Rightarrow> Inl NullPointer | Some m \<Rightarrow> Inr (quoted (shortName env m) @ '', ''))
              (pathFragments s)) (\<lambda>frags.
        Inr (''{name: '' @ quoted (streamName s) @ '', pcp: '' @ int_to_string (PCP s)
          @ '', gateIndex: '' @ int_to_string (gateIndex s)
          @ '', application: '' @ printApplication env app
          @ '', source: '' @ quoted (shortName env (sourceModule s))
          @ '', destination: '' @ quoted (shortName env (destinationModule s))
          @ '', packetLength: '' @ showBits env (packetSize s)
          @ '', packetInterval: '' @ showMs env (packetInterval s)
          @ (if 0 < maxLatency s then '', maxLatency: '' @ showMs env (maxLatency s) else [])
          @ (if 0 < maxJitter s then '', maxJitter: '' @ showMs env (maxJitter s) else [])
          @ '', startTime: '' @ showTime env (startTime s)
          @ (if frags \<noteq> [] then '', pathFragments: ['' @ concat frags @ '']'' else [])
          @ ''}'')))"

section \<open>The window of arrival phases\<close>

lemma cycleTime_pos: "0 < cycleTime" by (simp add: cycleTime_def simtime_ms_def)

lemma simtime_trunc_mult: "0 < unit \<Longrightarrow> 0 \<le> t \<Longrightarrow> simtime_trunc unit t = t div unit * unit"
  by (simp add: simtime_trunc_def crem_nonneg minus_mod_eq_div_mult)

definition wf_stream :: "tsn_stream \<Rightarrow> bool" where
  "wf_stream s \<longleftrightarrow> queueSize s = 10 \<and> length (lastTimePacketArrived s) = 10 \<and>
     list_all (\<lambda>t. 0 \<le> t \<and> t < cycleTime) (lastTimePacketArrived s)"

lemma makeStream_fields:
  "makeStream env cfg parent ext = Inr s \<Longrightarrow> lastTimePacketArrived s = replicate 10 0 \<and> queueSize s = 10 \<and>
     packetSize s = originalPacketSize s \<and> 0 < packetSize s \<and> dataRate s = 100"
  by (auto simp: makeStream_def Let_def rbind_Inr_iff ensure_Inr_iff)

lemma makeStream_wf: "makeStream env cfg parent ext = Inr s \<Longrightarrow> wf_stream s \<and> wf_stream (copyStream s)"
  using makeStream_fields [of env cfg parent ext s]
  by (simp add: wf_stream_def copyStream_def list_all_iff cycleTime_def simtime_ms_def)

lemma pushTime_phase:
  assumes "0 \<le> time" "0 \<le> off" "off < cycleTime"
  shows "hd (lastTimePacketArrived (pushTime off s time)) = (simtime_trunc (simtime_ns 1) time - off) mod cycleTime"
proof -
  let ?t = "simtime_trunc (simtime_ns 1) time"
  have t: "0 \<le> ?t" using assms(1) by (simp add: simtime_trunc_mult simtime_ns_def)
  have "0 \<le> ?t mod cycleTime + (simtime_s 100 - off)"
    using assms(2,3) cycleTime_pos pos_mod_sign [OF cycleTime_pos, of ?t]
    by (simp add: simtime_s_def cycleTime_def simtime_ms_def)
  then have "hd (lastTimePacketArrived (pushTime off s time)) = (?t mod cycleTime + (simtime_s 100 - off)) mod cycleTime"
    using t cycleTime_pos by (simp add: pushTime_def Let_def crem_nonneg)
  also have "\<dots> = (?t + (simtime_s 100 - off)) mod cycleTime" by (rule mod_add_left_eq)
  also have "\<dots> = (?t - off + 1000 * cycleTime) mod cycleTime"
    by (rule arg_cong [where f = "\<lambda>x. x mod cycleTime"]) (simp add: simtime_s_def cycleTime_def simtime_ms_def)
  also have "\<dots> = (?t - off) mod cycleTime" by simp
  finally show ?thesis .
qed

lemma pushTime_wf:
  assumes "wf_stream s" "0 \<le> time" "0 \<le> off" "off < cycleTime"
  shows "wf_stream (pushTime off s time)"
proof -
  have "lastTimePacketArrived (pushTime off s time)
      = hd (lastTimePacketArrived (pushTime off s time)) # butlast (lastTimePacketArrived s)"
    using assms(1) by (simp add: pushTime_def Let_def wf_stream_def)
  then show ?thesis
    using assms(1) pushTime_phase [OF assms(2-4)] pos_mod_bound [OF cycleTime_pos] pos_mod_sign [OF cycleTime_pos]
    by (auto simp: wf_stream_def pushTime_def Let_def list_all_iff dest: in_set_butlastD)
qed

text \<open>
  The window of a stream: however many packets arrive after a stream was created (and copied
  into the list of streams), exactly the phases of the last ten arrivals are kept, newest first,
  each within the 100 ms cycle and relative to the creation of the gateway.
\<close>

theorem stream_window_invariant:
  assumes "makeStream env cfg parent ext = Inr s0" "\<forall>t \<in> set arrivals. 0 \<le> t" "0 \<le> off" "off < cycleTime"
  shows "let s = fold (\<lambda>t s. pushTime off s t) arrivals (copyStream s0) in
    wf_stream s \<and> numberPackets s = length arrivals \<and>
    lastTimePacketArrived s = take 10 (rev (map (\<lambda>t. (simtime_trunc (simtime_ns 1) t - off) mod cycleTime) arrivals)
                                        @ replicate 10 0)"
  using assms(2)
proof (induction arrivals rule: rev_induct)
  case Nil
  have "lastTimePacketArrived s0 = replicate 10 0"
    using makeStream_fields [OF assms(1)] by simp
  then show ?case using makeStream_wf [OF assms(1)] by (simp add: copyStream_def)
next
  case (snoc t arrivals)
  let ?s = "fold (\<lambda>t s. pushTime off s t) arrivals (copyStream s0)"
  let ?f = "\<lambda>t. (simtime_trunc (simtime_ns 1) t - off) mod cycleTime"
  have IH: "wf_stream ?s" "numberPackets ?s = length arrivals"
    "lastTimePacketArrived ?s = take 10 (rev (map ?f arrivals) @ replicate 10 0)"
    using snoc by (simp_all add: Let_def)
  have "lastTimePacketArrived (pushTime off ?s t)
      = hd (lastTimePacketArrived (pushTime off ?s t)) # butlast (lastTimePacketArrived ?s)"
    using IH(1) by (simp add: pushTime_def Let_def wf_stream_def)
  moreover have "butlast (take 10 xs) = take 9 xs" if "10 \<le> length xs" for xs :: "simtime list"
    using that by (simp add: butlast_take)
  from this [of "rev (map ?f arrivals) @ replicate 10 0"]
  have "butlast (lastTimePacketArrived ?s) = take 9 (rev (map ?f arrivals) @ replicate 10 0)"
    unfolding IH(3) by (simp del: take_append)
  moreover have "hd (lastTimePacketArrived (pushTime off ?s t)) = ?f t"
    using pushTime_phase [of t off ?s] snoc.prems assms(3,4) by simp
  ultimately have "lastTimePacketArrived (pushTime off ?s t) = ?f t # take 9 (rev (map ?f arrivals) @ replicate 10 0)"
    by simp
  moreover have "numberPackets (pushTime off ?s t) = Suc (length arrivals)"
    using IH(2) by (simp add: pushTime_def Let_def)
  ultimately show ?case
    using pushTime_wf [OF IH(1), of t off] snoc.prems assms(3,4) by (simp add: Let_def)
qed

section \<open>Slot sizes\<close>

lemma minPhase_acc:
  fixes a :: simtime
  assumes "list_all (\<lambda>t. 0 \<le> t) ts" "0 \<le> a"
  shows "let m = foldl (\<lambda>mn t. if t \<noteq> 0 \<and> (t < mn \<or> mn = 0) then t else mn) a ts in
    0 \<le> m \<and> (m \<noteq> 0 \<longrightarrow> m = a \<or> m \<in> set ts) \<and> (a \<noteq> 0 \<longrightarrow> m \<noteq> 0 \<and> m \<le> a) \<and> (\<forall>t \<in> set ts. t \<noteq> 0 \<longrightarrow> m \<noteq> 0 \<and> m \<le> t)"
  using assms
proof (induction ts arbitrary: a)
  case Nil
  then show ?case by simp
next
  case (Cons t ts)
  let ?a = "if t \<noteq> 0 \<and> (t < a \<or> a = 0) then t else a"
  have "list_all (\<lambda>t. 0 \<le> t) ts" "0 \<le> ?a" using Cons.prems by auto
  from Cons.IH [OF this] Cons.prems show ?case by (simp add: Let_def split: if_splits) force+
qed

lemma maxPhase_acc:
  fixes a :: simtime
  assumes "list_all (\<lambda>t. 0 \<le> t) ts" "0 \<le> a"
  shows "let m = foldl (\<lambda>mx t. if t \<noteq> 0 \<and> (mx < t \<or> mx = 0) then t else mx) a ts in
    a \<le> m \<and> (m = a \<or> m \<in> set ts) \<and> (\<forall>t \<in> set ts. t \<le> m)"
  using assms
proof (induction ts arbitrary: a)
  case Nil
  then show ?case by simp
next
  case (Cons t ts)
  let ?a = "if t \<noteq> 0 \<and> (a < t \<or> a = 0) then t else a"
  have "list_all (\<lambda>t. 0 \<le> t) ts" "0 \<le> ?a" using Cons.prems by auto
  from Cons.IH [OF this] Cons.prems show ?case by (simp add: Let_def split: if_splits) force+
qed

lemma phase_bounds:
  assumes "wf_stream s"
  shows "0 \<le> minPhase (lastTimePacketArrived s) \<and> minPhase (lastTimePacketArrived s) < cycleTime \<and>
    minPhase (lastTimePacketArrived s) \<le> maxPhase (lastTimePacketArrived s) \<and>
    (\<forall>t \<in> set (lastTimePacketArrived s). t \<noteq> 0 \<longrightarrow>
       minPhase (lastTimePacketArrived s) \<le> t \<and> t \<le> maxPhase (lastTimePacketArrived s))"
proof -
  let ?ts = "lastTimePacketArrived s"
  have nn: "list_all (\<lambda>t. 0 \<le> t) ?ts" and lt: "\<forall>t \<in> set ?ts. t < cycleTime"
    using assms by (auto simp: wf_stream_def list_all_iff)
  note mn = minPhase_acc [OF nn order.refl, folded minPhase_def, unfolded Let_def]
  note mx = maxPhase_acc [OF nn order.refl, folded maxPhase_def, unfolded Let_def]
  show ?thesis
    using mn mx lt cycleTime_pos by (cases "minPhase ?ts = 0") auto
qed
lemma trunc_int_of_int [simp]: "trunc_int (real_of_int k) = k"
  by (simp add: trunc_int_def)

lemma slot_total:
  assumes "dataRate s = 100" "numberPackets s mod 10 = 2"
  shows "getNewSlotSize tenth s =
     (let mn = minPhase (lastTimePacketArrived s);
          span = maxPhase (lastTimePacketArrived s) - mn
      in (s\<lparr>startTime := crem (mn - tenth span div 2) cycleTime\<rparr>,
          \<lceil>real_of_int ((span + tenth span + simtime_us 21 + simtime_ns (10 * originalPacketSize s)) div simtime_ns 1) / 10\<rceil>))"
proof -
  have t: "trunc_int (real_of_int (originalPacketSize s) / dataRate s * 1000) = 10 * originalPacketSize s"
    using trunc_int_of_int [of "10 * originalPacketSize s"] assms(1) by simp
  show ?thesis
    unfolding getNewSlotSize_def Let_def t using assms by (simp add: updateIntervall_def adjusteStartTime_def add.assoc)
qed

lemma ceiling_tenth: "n \<le> 10 * \<lceil>real_of_int n / 10\<rceil>"
proof -
  have "real_of_int n / 10 \<le> of_int \<lceil>real_of_int n / 10\<rceil>" by (rule le_of_int_ceiling)
  then have "real_of_int n \<le> real_of_int (10 * \<lceil>real_of_int n / 10\<rceil>)" by linarith
  then show ?thesis by (simp only: of_int_le_iff)
qed

lemma ns_ceiling:
  fixes a n b :: int
  shows "a < (n + 1) * 1000 \<Longrightarrow> n \<le> 10 * b \<Longrightarrow> a < simtime_ns (10 * b + 1)"
  by (simp add: simtime_ns_def)

lemma below_next_ns: "a < (a div simtime_ns 1 + 1) * 1000"
  unfolding simtime_ns_def by presburger

text \<open>
  Every recorded arrival fits into the slot: when a slot is resized, its length (in bits at
  100 Mbit/s) lasts from the earliest phase to any recorded phase, plus the time to transmit the
  packet and the 21 us of store and forward latency, up to the nanosecond; so it never shrinks
  below the packet. Between two resizings the length is left alone.
\<close>

theorem slot_covers_arrivals:
  assumes "wf_stream s" "dataRate s = 100" "numberPackets s mod 10 = 2" "\<And>x. 0 \<le> x \<Longrightarrow> 0 \<le> tenth x"
  shows "originalPacketSize s < snd (getNewSlotSize tenth s) \<and>
    (\<forall>t \<in> set (lastTimePacketArrived s). t \<noteq> 0 \<longrightarrow>
       (t - minPhase (lastTimePacketArrived s)) + simtime_ns (10 * originalPacketSize s) + simtime_us 21
       < simtime_ns (10 * snd (getNewSlotSize tenth s) + 1))"
proof -
  let ?mn = "minPhase (lastTimePacketArrived s)" and ?mx = "maxPhase (lastTimePacketArrived s)"
  let ?adj = "tenth (?mx - ?mn)"
  let ?all = "(?mx - ?mn) + ?adj + simtime_us 21 + simtime_ns (10 * originalPacketSize s)"
  let ?n = "?all div simtime_ns 1" and ?bits = "snd (getNewSlotSize tenth s)"
  note b = phase_bounds [OF assms(1)]
  have adj: "0 \<le> ?adj" using assms(4) b by simp
  have n: "?n \<le> 10 * ?bits"
    using ceiling_tenth [of ?n] by (simp add: slot_total [OF assms(2,3)] Let_def add.assoc)
  have all: "?all < simtime_ns (10 * ?bits + 1)" by (rule ns_ceiling [OF below_next_ns n])
  have "simtime_us 21 + simtime_ns (10 * originalPacketSize s) \<le> ?all" using b adj by simp
  from order.strict_trans1 [OF this all] have "originalPacketSize s < ?bits" by (simp add: simtime_us_def simtime_ns_def)
  moreover have "(t - ?mn) + simtime_ns (10 * originalPacketSize s) + simtime_us 21 \<le> ?all"
    if "t \<in> set (lastTimePacketArrived s)" "t \<noteq> 0" for t
    using b that adj by auto
  from order.strict_trans1 [OF this all]
  have "\<forall>t \<in> set (lastTimePacketArrived s). t \<noteq> 0 \<longrightarrow> (t - ?mn) + simtime_ns (10 * originalPacketSize s) + simtime_us 21
       < simtime_ns (10 * ?bits + 1)"
    by blast
  ultimately show ?thesis by blast
qed

definition demo_stream :: tsn_stream where
  "demo_stream = \<lparr>streamName = ''s'', PCP = 4, gateIndex = 4, applicationModule = None, sourceModule = 0,
     externalSourceModule = None, destinationModule = 1, packetSize = 800, packetInterval = 0,
     maxLatency = 0, maxJitter = 0, pathFragments = [],
     lastTimePacketArrived = [simtime_us 300, simtime_us 100] @ replicate 8 0, queueSize = 10, startTime = 0,
     dataRate = 100, numberPackets = 2, originalPacketSize = 800\<rparr>"

theorem slot_covers_arrivals_witness:
  "\<exists>s. 800 < snd (getNewSlotSize (\<lambda>x. x div 10) s) \<and> minPhase (lastTimePacketArrived s) = simtime_us 100 \<and>
     maxPhase (lastTimePacketArrived s) = simtime_us 300"
proof -
  have "wf_stream demo_stream" by code_simp
  from slot_covers_arrivals [OF this, of "\<lambda>x. x div 10"]
  have "800 < snd (getNewSlotSize (\<lambda>x. x div 10) demo_stream)" by (simp add: demo_stream_def)
  moreover have "minPhase (lastTimePacketArrived demo_stream) = simtime_us 100"
    "maxPhase (lastTimePacketArrived demo_stream) = simtime_us 300"
    by code_simp+
  ultimately show ?thesis by blast
qed

text \<open>
  The start of a slot is moved ahead by half of the ten per cent that are added to it. When
  the earliest phase is smaller than that, the start is negative: \<open>fmod\<close> does not wrap it into
  the cycle.
\<close>

theorem slot_start_may_be_negative:
  assumes "wf_stream s" "dataRate s = 100" "numberPackets s mod 10 = 2" "0 \<le> tenth (maxPhase (lastTimePacketArrived s) - minPhase (lastTimePacketArrived s))"
    "minPhase (lastTimePacketArrived s) < tenth (maxPhase (lastTimePacketArrived s) - minPhase (lastTimePacketArrived s)) div 2"
    "tenth (maxPhase (lastTimePacketArrived s) - minPhase (lastTimePacketArrived s)) div 2 \<le> cycleTime div 20"
  shows "startTime (fst (getNewSlotSize tenth s)) < 0"
proof -
  let ?mn = "minPhase (lastTimePacketArrived s)" and ?mx = "maxPhase (lastTimePacketArrived s)"
  let ?k = "?mn - tenth (?mx - ?mn) div 2"
  have k: "?k < 0" "- ?k < cycleTime"
    using assms(5,6) phase_bounds [OF assms(1)] cycleTime_pos by (auto simp: cycleTime_def simtime_ms_def)
  then have "crem ?k cycleTime = ?k" using crem_neg [OF k(1) cycleTime_pos] by simp
  then show ?thesis using k(1) by (simp add: slot_total [OF assms(2,3)] Let_def)
qed

theorem slot_start_may_be_negative_witness:
  "\<exists>s. wf_stream s \<and> startTime (fst (getNewSlotSize (\<lambda>x. x div 10) s)) < 0"
proof -
  let ?s = "demo_stream\<lparr>lastTimePacketArrived := [simtime_ms 90, simtime_us 100] @ replicate 8 0\<rparr>"
  have "wf_stream ?s" by code_simp
  moreover have "minPhase (lastTimePacketArrived ?s) = simtime_us 100" "maxPhase (lastTimePacketArrived ?s) = simtime_ms 90"
    by code_simp+
  ultimately show ?thesis
    using slot_start_may_be_negative [of ?s "\<lambda>x. x div 10"]
    by (auto simp: demo_stream_def simtime_us_def simtime_ms_def cycleTime_def intro!: exI [of _ ?s])
qed

section \<open>A stream's life\<close>

definition demo_env :: module_env where
  "demo_env = \<lparr>fullName = (\<lambda>m. if m = 0 then ''net'' else if m = 1 then ''gw'' else if m = 2 then ''dev'' else ''app[0]''),
     shortName = (\<lambda>m. if m = 0 then ''net'' else if m = 1 then ''gw'' else if m = 2 then ''dev'' else ''app''),
     fullPath = (\<lambda>m. if m = 0 then ''net'' else if m = 1 then ''net.gw'' else if m = 2 then ''net.dev'' else ''net.gw.app[0]''),
     isVector = (\<lambda>m. m = 3), vectorIndex = (\<lambda>m. 0), parentOf = (\<lambda>m. if m = 3 then 1 else 0),
     moduleByPath = map_of [(''net'', 0), (''net.gw'', 1), (''net.dev'', 2), (''net.gw.app[0]'', 3)],
     submodule = (\<lambda>m n. if m = 0 then map_of [(''gw'', 1), (''dev'', 2)] n else None),
     submoduleAt = (\<lambda>m n i. if m = 1 \<and> n = ''app'' \<and> i = 0 then Some 3 else None),
     valueStr = quoted, showBits = (\<lambda>b. int_to_string b @ '' b''), showMs = (\<lambda>r. ''ms''), showTime = int_to_string\<rparr>"

definition demo_line :: config_line where
  "demo_line = \<lparr>cfgSource = Some ''gw'', cfgDestination = Some ''dev'', cfgPcp = Some 4, cfgGateIndex = Some 4,
     cfgPacketLength = Some 800, cfgPacketInterval = Some 0, cfgStreamName = None, cfgApplication = Some ''app[0]'',
     cfgMaxLatency = None, cfgMaxJitter = None, cfgPathFragments = None\<rparr>"

lemma stoi_zero: "stoi ''0'' = Inr 0" by code_simp

lemma demo_makeStream: "is_ok (makeStream demo_env demo_line 0 None)"
  by (simp add: makeStream_def demo_env_def demo_line_def get_key_def assert_found_def trunc_int_def
      applicationOf_def stoi_zero Let_def)

theorem stream_window_invariant_witness:
  "\<exists>s. makeStream demo_env demo_line 0 None = Inr s \<and>
     lastTimePacketArrived (pushTime 0 (copyStream s) (simtime_ms 250)) = simtime_ms 50 # replicate 9 0"
proof -
  obtain s where s: "makeStream demo_env demo_line 0 None = Inr s" using is_ok_ex [OF demo_makeStream] by blast
  have "take 10 (x # replicate 10 0) = x # replicate 9 0" for x :: simtime by (simp add: numeral_eq_Suc)
  then have "lastTimePacketArrived (pushTime 0 (copyStream s) (simtime_ms 250)) = simtime_ms 50 # replicate 9 0"
    using stream_window_invariant [OF s, of "[simtime_ms 250]" 0]
    by (simp add: cycleTime_def simtime_ms_def simtime_trunc_def simtime_ns_def crem_def Let_def)
  then show ?thesis using s by blast
qed

lemma mapM_fragment_fails_iff:
  "(\<exists>e. mapM (\<lambda>f. case f of None \<Rightarrow> Inl NullPointer | Some m \<Rightarrow> Inr (g m)) fs = Inl e) \<longleftrightarrow> None \<in> set fs"
  by (induction fs) (auto simp: rbind_def split: sum.splits option.splits)

text \<open>
  A stream can be written for the scheduler unless it has no application or one of its path
  fragments was not found; then a null pointer is dereferenced.
\<close>

theorem printStream_fails_iff:
  "(\<exists>e. printStream env s = Inl e) \<longleftrightarrow> applicationModule s = None \<or> None \<in> set (pathFragments s)"
proof (cases "mapM (\<lambda>f. case f of None \<Rightarrow> Inl NullPointer | Some m \<Rightarrow> Inr (quoted (shortName env m) @ '', '')) (pathFragments s)")
  case (Inl e)
  then have "None \<in> set (pathFragments s)"
    using mapM_fragment_fails_iff [THEN iffD1, OF exI, OF Inl] by simp
  then show ?thesis using Inl by (simp add: printStream_def split: option.splits)
next
  case (Inr frags)
  then have "None \<notin> set (pathFragments s)" using mapM_fragment_fails_iff [of "\<lambda>m. quoted (shortName env m) @ '', ''" "pathFragments s"] by simp
  then show ?thesis using Inr by (simp add: printStream_def split: option.splits)
qed

end
