(* ===== verification/GateScheduleInput.thy ===== *)
theory GateScheduleInput
  imports EagerScheduler TsnStreams "HOL-Library.Multiset"
begin

text \<open>
  \<open>GateScheduleConfiguratorBase\<close>
  (\<open>inet/linklayer/configurator/gatescheduling/base\<close>): what the gate schedulers are given. The
  topology of the network and the entries of the \<open>configuration\<close> parameter are turned into
  devices, switches, ports, applications and flows; the result of a scheduler is written to the
  gates and the applications.

  A \<open>NetworkNode\<close> and a \<open>Port\<close> are known by their modules. The topology, the pattern matcher and
  the scheduler itself (\<open>computeGateScheduling\<close>, which is virtual) are parameters; \<open>secs\<close> is the
  conversion of a number of seconds to simulation time.
\<close>

section \<open>The topology\<close>

record topo_interface =
  ifModule :: module
  ifName :: string
  ifLoopback :: bool
  ifWireless :: bool
  ifSubqueues :: "int option"         \<comment> \<open>the size of the vector of \<open>.macLayer.queue.queue[0]\<close>\<close>
  ifDatarate :: real
  ifDelay :: simtime
  ifMtu :: int                        \<comment> \<open>in bytes\<close>

record topo_node =
  nodeModule :: module
  nodePath :: string
  nodeName :: string
  nodeIsBridge :: bool
  nodeInterfaces :: "topo_interface list"

record topology =
  topoNodes :: "topo_node list"
  linkRemoteNode :: "module \<Rightarrow> module option"        \<comment> \<open>by the module of an interface\<close>
  linkRemoteInterface :: "module \<Rightarrow> module option"
  shortestPath :: "module \<Rightarrow> module \<Rightarrow> module list"   \<comment> \<open>\<open>computeShortestNodePath\<close>\<close>
  patternMatches :: "string \<Rightarrow> string \<Rightarrow> bool"
  applicationAt :: "module \<Rightarrow> string \<Rightarrow> module option"

section \<open>The input of a scheduler\<close>

record in_port =
  portModule :: module
  portInterfaceName :: string
  numGates :: int
  portDatarate :: real
  propagationTime :: simtime
  maxPacketLength :: int              \<comment> \<open>in bits\<close>
  guardBand :: simtime
  maxCycleTime :: simtime
  maxSlotDuration :: simtime
  cutthroughSwitchingEnabled :: bool
  startNode :: module
  endNode :: "module option"
  otherPort :: "module option"

record in_node =
  nnModule :: module
  nnName :: string
  nnPorts :: "in_port list"

record in_application =
  appModule :: module
  appPcp :: int
  appPacketLength :: int
  appPacketInterval :: simtime
  appMaxLatency :: simtime
  appMaxJitter :: simtime
  appDevice :: module

record path_fragment =
  fragNodes :: "module list"
  fragInputPorts :: "module list"
  fragOutputPorts :: "module list"

record in_flow =
  flowName :: string
  gateOf :: int
  cutthroughHeader :: int
  startApplication :: in_application
  endDevice :: module
  flowPaths :: "path_fragment list"

record gsc_input =
  inDevices :: "module list"
  inSwitches :: "module list"
  networkNodes :: "in_node list"
  inPorts :: "in_port list"
  inApplications :: "in_application list"
  inFlows :: "in_flow list"

definition emptyInput :: gsc_input where
  "emptyInput = \<lparr>inDevices = [], inSwitches = [], networkNodes = [], inPorts = [], inApplications = [], inFlows = []\<rparr>"

definition getDevice :: "gsc_input \<Rightarrow> module \<Rightarrow> module result" where
  "getDevice inp m = (case find (\<lambda>d. d = m) (inDevices inp) of
      None \<Rightarrow> Inl (RuntimeError ''Cannot find device'') | Some d \<Rightarrow> Inr d)"

definition getPort :: "gsc_input \<Rightarrow> module \<Rightarrow> in_port result" where
  "getPort inp m = (case find (\<lambda>p. portModule p = m) (inPorts inp) of
      None \<Rightarrow> Inl (RuntimeError ''Cannot find port'') | Some p \<Rightarrow> Inr p)"

definition getNetworkNode :: "gsc_input \<Rightarrow> module \<Rightarrow> in_node result" where
  "getNetworkNode inp m = (case find (\<lambda>n. nnModule n = m) (networkNodes inp) of
      None \<Rightarrow> Inl (RuntimeError ''Cannot find network node'') | Some n \<Rightarrow> Inr n)"

section \<open>Nodes and ports\<close>

definition networkNodeOf :: "topo_node \<Rightarrow> in_node" where
  "networkNodeOf n = \<lparr>nnModule = nodeModule n, nnName = nodeName n, nnPorts = []\<rparr>"

definition addDevices :: "topology \<Rightarrow> gsc_input \<Rightarrow> gsc_input" where
  "addDevices topo inp = fold (\<lambda>n i. if nodeIsBridge n then i
       else i\<lparr>inDevices := inDevices i @ [nodeModule n], networkNodes := networkNodes i @ [networkNodeOf n]\<rparr>)
     (topoNodes topo) inp"

definition addSwitches :: "topology \<Rightarrow> gsc_input \<Rightarrow> gsc_input" where
  "addSwitches topo inp = fold (\<lambda>n i. if nodeIsBridge n
       then i\<lparr>inSwitches := inSwitches i @ [nodeModule n], networkNodes := networkNodes i @ [networkNodeOf n]\<rparr> else i)
     (topoNodes topo) inp"

definition portOf :: "(real \<Rightarrow> simtime) \<Rightarrow> simtime \<Rightarrow> module \<Rightarrow> topo_interface \<Rightarrow> in_port" where
  "portOf secs gateCycle node i =
     \<lparr>portModule = ifModule i, portInterfaceName = ifName i,
      numGates = (case ifSubqueues i of None \<Rightarrow> - 1 | Some n \<Rightarrow> n),
      portDatarate = ifDatarate i, propagationTime = ifDelay i, maxPacketLength = 8 * ifMtu i,
      guardBand = secs (real_of_int (8 * ifMtu i) / ifDatarate i),
      maxCycleTime = gateCycle, maxSlotDuration = gateCycle, cutthroughSwitchingEnabled = False,
      startNode = node, endNode = None, otherPort = None\<rparr>"

text \<open>A port belongs to the first network node with the module of its node.\<close>

fun addPortTo :: "module \<Rightarrow> in_port \<Rightarrow> in_node list \<Rightarrow> in_node list" where
  "addPortTo m p [] = []"
| "addPortTo m p (n # ns) = (if nnModule n = m then n\<lparr>nnPorts := nnPorts n @ [p]\<rparr> # ns else n # addPortTo m p ns)"

definition addNodePorts :: "(real \<Rightarrow> simtime) \<Rightarrow> simtime \<Rightarrow> gsc_input \<Rightarrow> topo_node \<Rightarrow> gsc_input result" where
  "addNodePorts secs gateCycle inp n =
     rbind (getNetworkNode inp (nodeModule n)) (\<lambda>nn.
       Inr (fold (\<lambda>i inp. if ifLoopback i \<or> ifWireless i then inp
                 else (let p = portOf secs gateCycle (nnModule nn) i
                       in inp\<lparr>networkNodes := addPortTo (nnModule nn) p (networkNodes inp), inPorts := inPorts inp @ [p]\<rparr>))
            (nodeInterfaces n) inp))"

text \<open>The second loop connects the ports; dereferencing the end of a vector is an error.\<close>

definition connectPort :: "topology \<Rightarrow> gsc_input \<Rightarrow> in_port \<Rightarrow> in_port result" where
  "connectPort topo inp p =
     (case (linkRemoteInterface topo (portModule p), linkRemoteNode topo (portModule p)) of
        (Some dest, Some remote) \<Rightarrow>
          (case find (\<lambda>n. nnModule n = remote) (networkNodes inp) of None \<Rightarrow> Inl OutOfRange
           | Some n \<Rightarrow>
             (case find (\<lambda>q. portModule q = dest) (inPorts inp) of None \<Rightarrow> Inl OutOfRange
              | Some q \<Rightarrow> Inr (p\<lparr>endNode := Some (nnModule n), otherPort := Some (portModule q)\<rparr>)))
      | _ \<Rightarrow> Inl NullPointer)"

definition addPorts :: "(real \<Rightarrow> simtime) \<Rightarrow> simtime \<Rightarrow> topology \<Rightarrow> gsc_input \<Rightarrow> gsc_input result" where
  "addPorts secs gateCycle topo inp =
     rbind (foldM (addNodePorts secs gateCycle) inp (topoNodes topo)) (\<lambda>inp1.
     rbind (mapM (\<lambda>n. rbind (mapM (connectPort topo inp1) (nnPorts n)) (\<lambda>ps. Inr (n\<lparr>nnPorts := ps\<rparr>))) (networkNodes inp1)) (\<lambda>nodes.
     rbind (mapM (connectPort topo inp1) (inPorts inp1)) (\<lambda>ports.
       Inr (inp1\<lparr>networkNodes := nodes, inPorts := ports\<rparr>))))"

section \<open>Flows\<close>

text \<open>An entry of the configuration; the keys may be absent. Lengths are in bits.\<close>

record flow_entry =
  entSource :: "string option"
  entDestination :: "string option"
  entPcp :: "int option"
  entGateIndex :: "int option"
  entPacketLength :: "real option"
  entCutthrough :: "real option"
  entPacketInterval :: "simtime option"
  entMaxLatency :: "simtime option"
  entMaxJitter :: "simtime option"
  entApplication :: "string option"
  entName :: "string option"
  entFragments :: "string list list option"

definition beforeDot :: "string \<Rightarrow> string" where
  "beforeDot s = (case string_find s ''.'' of None \<Rightarrow> s | Some k \<Rightarrow> take k s)"

definition afterDot :: "string \<Rightarrow> string" where
  "afterDot s = (case string_find s ''.'' of None \<Rightarrow> [] | Some k \<Rightarrow> drop (k + 1) s)"

definition nameOfNode :: "gsc_input \<Rightarrow> module option \<Rightarrow> string option" where
  "nameOfNode inp m = (case m of None \<Rightarrow> None | Some m \<Rightarrow> map_option nnName (find (\<lambda>n. nnModule n = m) (networkNodes inp)))"

text \<open>
  One element of a path fragment: the first network node with its name (nothing happens if there
  is none), and the port towards the next element, if there is one.
\<close>

definition addElement :: "gsc_input \<Rightarrow> string list \<Rightarrow> path_fragment \<Rightarrow> nat \<Rightarrow> path_fragment result" where
  "addElement inp frag path m =
     (case find (\<lambda>n. nnName n = beforeDot (frag ! m)) (networkNodes inp) of
        None \<Rightarrow> Inr path
      | Some n \<Rightarrow>
          rbind (if m + 1 = length frag then Inr path
                 else case find (\<lambda>p. nameOfNode inp (endNode p) = Some (beforeDot (frag ! (m + 1))) \<and>
                                   (afterDot (frag ! m) = [] \<or> afterDot (frag ! m) = portInterfaceName p)) (nnPorts n) of
                        None \<Rightarrow> Inl OutOfRange
                      | Some p \<Rightarrow>
                          (case otherPort p of None \<Rightarrow> Inl NullPointer
                           | Some q \<Rightarrow> Inr (path\<lparr>fragOutputPorts := fragOutputPorts path @ [portModule p],
                                                fragInputPorts := fragInputPorts path @ [q]\<rparr>)))
            (\<lambda>path. Inr (path\<lparr>fragNodes := fragNodes path @ [nnModule n]\<rparr>)))"

definition makeFragment :: "gsc_input \<Rightarrow> string list \<Rightarrow> path_fragment result" where
  "makeFragment inp frag =
     foldM (addElement inp frag) \<lparr>fragNodes = [], fragInputPorts = [], fragOutputPorts = []\<rparr> [0..<length frag]"

definition nodeNameIn :: "topology \<Rightarrow> module \<Rightarrow> string" where
  "nodeNameIn topo m = (case find (\<lambda>n. nodeModule n = m) (topoNodes topo) of None \<Rightarrow> [] | Some n \<Rightarrow> nodeName n)"

text \<open>An entry that matches a source and a destination becomes an application and a flow.\<close>

definition makeFlow ::
    "topology \<Rightarrow> flow_entry \<Rightarrow> topo_node \<Rightarrow> topo_node \<Rightarrow> nat \<Rightarrow> gsc_input \<Rightarrow> (gsc_input \<times> nat) result" where
  "makeFlow topo e src dst flowIndex inp =
     rbind (get_key (entPcp e)) (\<lambda>pcp.
     rbind (get_key (entGateIndex e)) (\<lambda>gi.
     rbind (get_key (entPacketLength e)) (\<lambda>len.
     rbind (get_key (entPacketInterval e)) (\<lambda>interval.
     rbind (getDevice inp (nodeModule src)) (\<lambda>startDevice.
     rbind (getDevice inp (nodeModule dst)) (\<lambda>stopDevice.
     rbind (get_key (entApplication e)) (\<lambda>appName.
     rbind (case applicationAt topo startDevice (''.'' @ appName) of
              None \<Rightarrow> Inl (RuntimeError ''Cannot find flow start application'') | Some m \<Rightarrow> Inr m) (\<lambda>m.
     let app = \<lparr>appModule = m, appPcp = pcp, appPacketLength = trunc_int len, appPacketInterval = interval,
                appMaxLatency = (case entMaxLatency e of None \<Rightarrow> - simtime_s 1 | Some l \<Rightarrow> l),
                appMaxJitter = (case entMaxJitter e of None \<Rightarrow> 0 | Some j \<Rightarrow> j), appDevice = startDevice\<rparr>;
         frags = (case entFragments e of Some fs \<Rightarrow> fs
                  | None \<Rightarrow> [map (nodeNameIn topo) (shortestPath topo (nodeModule src) (nodeModule dst))])
     in rbind (mapM (makeFragment inp) frags) (\<lambda>paths.
          let flow = \<lparr>flowName = (case entName e of Some n \<Rightarrow> n | None \<Rightarrow> ''flow'' @ nat_to_string flowIndex),
                      gateOf = gi, cutthroughHeader = (case entCutthrough e of None \<Rightarrow> 0 | Some c \<Rightarrow> trunc_int c),
                      startApplication = app, endDevice = stopDevice, flowPaths = paths\<rparr>
          in Inr (inp\<lparr>inApplications := inApplications inp @ [app], inFlows := inFlows inp @ [flow]\<rparr>,
                  if entName e = None then flowIndex + 1 else flowIndex))))))))))"

definition addFlowFor ::
    "topology \<Rightarrow> (gsc_input \<times> nat) \<Rightarrow> flow_entry \<times> topo_node \<times> topo_node \<Rightarrow> (gsc_input \<times> nat) result" where
  "addFlowFor topo = (\<lambda>(inp, flowIndex) (e, src, dst).
     rbind (get_key (entSource e)) (\<lambda>s.
     rbind (get_key (entDestination e)) (\<lambda>d.
       if patternMatches topo s (nodePath src) \<and> patternMatches topo d (nodePath dst)
       then makeFlow topo e src dst flowIndex inp else Inr (inp, flowIndex))))"

text \<open>
  The three nested loops, and the sorting by descending priority. The sort of the library is
  stable; \<open>std::sort\<close> leaves the order of flows of the same priority open.
\<close>

definition flowCandidates :: "topology \<Rightarrow> flow_entry list \<Rightarrow> (flow_entry \<times> topo_node \<times> topo_node) list" where
  "flowCandidates topo conf =
     concat (map (\<lambda>e. concat (map (\<lambda>src. map (\<lambda>dst. (e, src, dst)) (topoNodes topo)) (topoNodes topo))) conf)"

definition addFlows :: "topology \<Rightarrow> flow_entry list \<Rightarrow> gsc_input \<Rightarrow> gsc_input result" where
  "addFlows topo conf inp =
     rbind (foldM (addFlowFor topo) (inp, 0) (flowCandidates topo conf)) (\<lambda>(inp', n).
       Inr (inp'\<lparr>inFlows := sort_key (\<lambda>f. - appPcp (startApplication f)) (inFlows inp')\<rparr>))"

definition createGateSchedulingInput ::
    "(real \<Rightarrow> simtime) \<Rightarrow> simtime \<Rightarrow> topology \<Rightarrow> flow_entry list \<Rightarrow> gsc_input result" where
  "createGateSchedulingInput secs gateCycle topo conf =
     rbind (addPorts secs gateCycle topo (addSwitches topo (addDevices topo emptyInput))) (addFlows topo conf)"
section \<open>The configurator\<close>

text \<open>The gates of the queue of an interface, with their indices; \<open>None\<close> if it has no queue.\<close>

type_synonym gate_map = "module \<Rightarrow> (nat \<times> periodic_gate) list option"

record gs_configurator =
  gateCycleDuration :: simtime
  configuration :: "flow_entry list"
  gateSchedulingInput :: "gsc_input option"
  gateSchedulingOutput :: "gate_output option"

text \<open>\<open>configureGateScheduling\<close> of a single gate, found by the port of its interface.\<close>

definition configureGate ::
    "simtime \<Rightarrow> simtime \<Rightarrow> gsc_input \<Rightarrow> gate_output \<Rightarrow> module \<Rightarrow> nat \<times> periodic_gate \<Rightarrow> (nat \<times> periodic_gate) result" where
  "configureGate now gateCycle inp out ifm = (\<lambda>(i, g).
     rbind (getPort inp ifm) (\<lambda>p.
     rbind (configureGateScheduling now gateCycle (gateSchedules out) (portModule p) i g) (\<lambda>g'. Inr (i, g'))))"

definition configureInterfaceGates ::
    "simtime \<Rightarrow> simtime \<Rightarrow> gsc_input \<Rightarrow> gate_output \<Rightarrow> gate_map \<Rightarrow> topo_interface \<Rightarrow> gate_map result" where
  "configureInterfaceGates now gateCycle inp out gates i =
     (case gates (ifModule i) of None \<Rightarrow> Inr gates
      | Some gs \<Rightarrow> rbind (mapM (configureGate now gateCycle inp out (ifModule i)) gs) (\<lambda>gs'. Inr (gates(ifModule i \<mapsto> gs'))))"

definition configureAllGates ::
    "simtime \<Rightarrow> simtime \<Rightarrow> topology \<Rightarrow> gsc_input \<Rightarrow> gate_output \<Rightarrow> gate_map \<Rightarrow> gate_map result" where
  "configureAllGates now gateCycle topo inp out gates =
     foldM (configureInterfaceGates now gateCycle inp out) gates (concat (map nodeInterfaces (topoNodes topo)))"

text \<open>
  The initial offsets of the applications (in any order); \<open>sources\<close> gives the submodule
  \<open>source\<close> of an application, and the result lists what is set.
\<close>

definition configureApplicationOffsets ::
    "bool \<Rightarrow> (module \<Rightarrow> module option) \<Rightarrow> module list \<Rightarrow> gate_output \<Rightarrow> (module \<times> simtime) list result" where
  "configureApplicationOffsets enabled sources apps out =
     foldM (\<lambda>acc a. case applicationStartTimes out a of None \<Rightarrow> Inr acc
              | Some start \<Rightarrow>
                  if enabled then (case sources a of None \<Rightarrow> Inl NullPointer | Some s \<Rightarrow> Inr (acc @ [(s, start)]))
                  else Inr acc) [] apps"

definition clearConfiguration :: "gs_configurator \<Rightarrow> gs_configurator" where
  "clearConfiguration c = c\<lparr>gateSchedulingInput := None, gateSchedulingOutput := None\<rparr>"

definition computeConfiguration ::
    "(real \<Rightarrow> simtime) \<Rightarrow> topology \<Rightarrow> (simtime \<Rightarrow> gsc_input \<Rightarrow> gate_output result) \<Rightarrow> gs_configurator \<Rightarrow> gs_configurator result" where
  "computeConfiguration secs topo compute c =
     rbind (createGateSchedulingInput secs (gateCycleDuration c) topo (configuration c)) (\<lambda>inp.
     rbind (compute (gateCycleDuration c) inp) (\<lambda>out.
       Inr (c\<lparr>gateSchedulingInput := Some inp, gateSchedulingOutput := Some out\<rparr>)))"

text \<open>Computing and applying a configuration; \<open>sources\<close> and \<open>enabled\<close> concern the applications.\<close>

definition applyConfiguration ::
    "(real \<Rightarrow> simtime) \<Rightarrow> topology \<Rightarrow> (simtime \<Rightarrow> gsc_input \<Rightarrow> gate_output result) \<Rightarrow> bool \<Rightarrow> (module \<Rightarrow> module option) \<Rightarrow>
     simtime \<Rightarrow> gs_configurator \<Rightarrow> gate_map \<Rightarrow> (gs_configurator \<times> gate_map \<times> (module \<times> simtime) list) result" where
  "applyConfiguration secs topo compute enabled sources now c gates =
     rbind (computeConfiguration secs topo compute c) (\<lambda>c'.
     rbind (assert_found (gateSchedulingInput c')) (\<lambda>inp.
     rbind (assert_found (gateSchedulingOutput c')) (\<lambda>out.
     rbind (configureAllGates now (gateCycleDuration c') topo inp out gates) (\<lambda>gates'.
     rbind (configureApplicationOffsets enabled sources (map appModule (inApplications inp)) out) (\<lambda>offs.
       Inr (c', gates', offs))))))"

definition gscInitialize ::
    "(real \<Rightarrow> simtime) \<Rightarrow> topology \<Rightarrow> (simtime \<Rightarrow> gsc_input \<Rightarrow> gate_output result) \<Rightarrow> bool \<Rightarrow> (module \<Rightarrow> module option) \<Rightarrow>
     simtime \<Rightarrow> flow_entry list \<Rightarrow> simtime \<Rightarrow> init_stage \<Rightarrow> gs_configurator \<Rightarrow> gate_map \<Rightarrow>
     (gs_configurator \<times> gate_map \<times> (module \<times> simtime) list) result" where
  "gscInitialize secs topo compute enabled sources cycPar confPar now stage c gates =
     (if stage = INITSTAGE_LOCAL then Inr (c\<lparr>gateCycleDuration := cycPar, configuration := confPar\<rparr>, gates, [])
      else if stage = INITSTAGE_GATE_SCHEDULE_CONFIGURATION
      then applyConfiguration secs topo compute enabled sources now c gates
      else Inr (c, gates, []))"

definition gscHandleParameterChange ::
    "(real \<Rightarrow> simtime) \<Rightarrow> topology \<Rightarrow> (simtime \<Rightarrow> gsc_input \<Rightarrow> gate_output result) \<Rightarrow> bool \<Rightarrow> (module \<Rightarrow> module option) \<Rightarrow>
     flow_entry list \<Rightarrow> simtime \<Rightarrow> string \<Rightarrow> gs_configurator \<Rightarrow> gate_map \<Rightarrow>
     (gs_configurator \<times> gate_map \<times> (module \<times> simtime) list) result" where
  "gscHandleParameterChange secs topo compute enabled sources confPar now name c gates =
     (if name = ''configuration''
      then applyConfiguration secs topo compute enabled sources now (clearConfiguration (c\<lparr>configuration := confPar\<rparr>)) gates
      else Inr (c, gates, []))"

section \<open>The input is complete\<close>

lemma mapM_Inr_iff: "mapM f xs = Inr ys \<longleftrightarrow> length xs = length ys \<and> (\<forall>i < length xs. f (xs ! i) = Inr (ys ! i))"
proof (induction xs arbitrary: ys)
  case Nil
  then show ?case by auto
next
  case (Cons x xs)
  show ?case
  proof (cases ys)
    case Nil
    then show ?thesis by (auto simp: rbind_Inr_iff)
  next
    case (Cons y ys')
    then show ?thesis using Cons.IH [of ys'] by (auto simp: rbind_Inr_iff nth_Cons split: nat.splits)
  qed
qed

lemma addDevices_fields:
  "inDevices (addDevices topo inp) = inDevices inp @ map nodeModule (filter (\<lambda>n. \<not> nodeIsBridge n) (topoNodes topo)) \<and>
   networkNodes (addDevices topo inp) = networkNodes inp @ map networkNodeOf (filter (\<lambda>n. \<not> nodeIsBridge n) (topoNodes topo)) \<and>
   inSwitches (addDevices topo inp) = inSwitches inp \<and> inPorts (addDevices topo inp) = inPorts inp \<and>
   inApplications (addDevices topo inp) = inApplications inp \<and> inFlows (addDevices topo inp) = inFlows inp"
proof -
  define step :: "topo_node \<Rightarrow> gsc_input \<Rightarrow> gsc_input" where "step = (\<lambda>n i. if nodeIsBridge n then i
       else i\<lparr>inDevices := inDevices i @ [nodeModule n], networkNodes := networkNodes i @ [networkNodeOf n]\<rparr>)"
  have "inDevices (fold step ns i) = inDevices i @ map nodeModule (filter (\<lambda>n. \<not> nodeIsBridge n) ns) \<and>
     networkNodes (fold step ns i) = networkNodes i @ map networkNodeOf (filter (\<lambda>n. \<not> nodeIsBridge n) ns) \<and>
     inSwitches (fold step ns i) = inSwitches i \<and> inPorts (fold step ns i) = inPorts i \<and>
     inApplications (fold step ns i) = inApplications i \<and> inFlows (fold step ns i) = inFlows i" for ns i
    by (induction ns arbitrary: i) (simp_all add: step_def)
  then show ?thesis by (simp add: addDevices_def step_def)
qed

lemma addSwitches_fields:
  "inSwitches (addSwitches topo inp) = inSwitches inp @ map nodeModule (filter nodeIsBridge (topoNodes topo)) \<and>
   networkNodes (addSwitches topo inp) = networkNodes inp @ map networkNodeOf (filter nodeIsBridge (topoNodes topo)) \<and>
   inDevices (addSwitches topo inp) = inDevices inp \<and> inPorts (addSwitches topo inp) = inPorts inp \<and>
   inApplications (addSwitches topo inp) = inApplications inp \<and> inFlows (addSwitches topo inp) = inFlows inp"
proof -
  define step :: "topo_node \<Rightarrow> gsc_input \<Rightarrow> gsc_input" where "step = (\<lambda>n i. if nodeIsBridge n
       then i\<lparr>inSwitches := inSwitches i @ [nodeModule n], networkNodes := networkNodes i @ [networkNodeOf n]\<rparr> else i)"
  have "inSwitches (fold step ns i) = inSwitches i @ map nodeModule (filter nodeIsBridge ns) \<and>
     networkNodes (fold step ns i) = networkNodes i @ map networkNodeOf (filter nodeIsBridge ns) \<and>
     inDevices (fold step ns i) = inDevices i \<and> inPorts (fold step ns i) = inPorts i \<and>
     inApplications (fold step ns i) = inApplications i \<and> inFlows (fold step ns i) = inFlows i" for ns i
    by (induction ns arbitrary: i) (simp_all add: step_def)
  then show ?thesis by (simp add: addSwitches_def step_def)
qed

definition wired :: "topo_node \<Rightarrow> topo_interface list" where
  "wired n = filter (\<lambda>i. \<not> ifLoopback i \<and> \<not> ifWireless i) (nodeInterfaces n)"

lemma addPortTo_modules: "map nnModule (addPortTo m p ns) = map nnModule ns"
  by (induction ns) simp_all

lemma addNodePorts_fields:
  assumes "addNodePorts secs cyc inp n = Inr inp'"
  shows "inPorts inp' = inPorts inp @ map (portOf secs cyc (nodeModule n)) (wired n) \<and>
    map nnModule (networkNodes inp') = map nnModule (networkNodes inp) \<and> inDevices inp' = inDevices inp \<and>
    inSwitches inp' = inSwitches inp \<and> inApplications inp' = inApplications inp \<and> inFlows inp' = inFlows inp"
proof -
  obtain nn where nn: "getNetworkNode inp (nodeModule n) = Inr nn"
    using assms by (auto simp: addNodePorts_def rbind_Inr_iff)
  then have m: "nnModule nn = nodeModule n" by (auto simp: getNetworkNode_def split: option.splits dest: find_Some_in)
  define step :: "topo_interface \<Rightarrow> gsc_input \<Rightarrow> gsc_input" where "step = (\<lambda>i inp. if ifLoopback i \<or> ifWireless i then inp
                 else (let p = portOf secs cyc (nodeModule n) i
                       in inp\<lparr>networkNodes := addPortTo (nodeModule n) p (networkNodes inp), inPorts := inPorts inp @ [p]\<rparr>))"
  have "inPorts (fold step is x) = inPorts x @ map (portOf secs cyc (nodeModule n)) (filter (\<lambda>i. \<not> ifLoopback i \<and> \<not> ifWireless i) is) \<and>
    map nnModule (networkNodes (fold step is x)) = map nnModule (networkNodes x) \<and> inDevices (fold step is x) = inDevices x \<and>
    inSwitches (fold step is x) = inSwitches x \<and> inApplications (fold step is x) = inApplications x \<and>
    inFlows (fold step is x) = inFlows x" for "is" x
    by (induction "is" arbitrary: x) (simp_all add: step_def Let_def addPortTo_modules)
  moreover have "inp' = fold step (nodeInterfaces n) inp"
    using assms [unfolded addNodePorts_def nn rbind_simps m] by (simp add: step_def)
  ultimately show ?thesis by (simp add: wired_def)
qed

lemma addNodePorts_loop:
  assumes "foldM (addNodePorts secs cyc) inp ns = Inr inp'"
  shows "inPorts inp' = inPorts inp @ concat (map (\<lambda>n. map (portOf secs cyc (nodeModule n)) (wired n)) ns) \<and>
    map nnModule (networkNodes inp') = map nnModule (networkNodes inp) \<and> inDevices inp' = inDevices inp \<and>
    inSwitches inp' = inSwitches inp \<and> inApplications inp' = inApplications inp \<and> inFlows inp' = inFlows inp"
  using assms
proof (induction ns arbitrary: inp)
  case Nil
  then show ?case by simp
next
  case (Cons n ns)
  then obtain inp1 where "addNodePorts secs cyc inp n = Inr inp1" "foldM (addNodePorts secs cyc) inp1 ns = Inr inp'"
    by (auto simp: rbind_Inr_iff)
  then show ?case using addNodePorts_fields Cons.IH by fastforce
qed

lemma connectPort_Inr:
  assumes "connectPort topo inp p = Inr q"
  shows "q = p\<lparr>endNode := linkRemoteNode topo (portModule p), otherPort := linkRemoteInterface topo (portModule p)\<rparr> \<and>
    (\<exists>n \<in> set (networkNodes inp). endNode q = Some (nnModule n)) \<and> (\<exists>r \<in> set (inPorts inp). otherPort q = Some (portModule r))"
  using assms by (auto simp: connectPort_def split: option.splits dest!: find_Some_in)

lemma connectPort_module: "connectPort topo inp p = Inr q \<Longrightarrow> portModule q = portModule p"
  by (auto simp: connectPort_def split: option.splits)

lemma mapM_map: "mapM f xs = Inr ys \<Longrightarrow> (\<And>x y. f x = Inr y \<Longrightarrow> g y = h x) \<Longrightarrow> map g ys = map h xs"
  by (induction xs arbitrary: ys) (auto simp: rbind_Inr_iff)

lemma addPorts_fields:
  assumes "addPorts secs cyc topo inp = Inr inp'"
  shows "map portModule (inPorts inp') = map portModule (inPorts inp) @ concat (map (\<lambda>n. map ifModule (wired n)) (topoNodes topo)) \<and>
    map nnModule (networkNodes inp') = map nnModule (networkNodes inp) \<and> inDevices inp' = inDevices inp \<and>
    inSwitches inp' = inSwitches inp \<and> inApplications inp' = inApplications inp \<and> inFlows inp' = inFlows inp \<and>
    (\<forall>p \<in> set (inPorts inp'). endNode p = linkRemoteNode topo (portModule p) \<and>
       otherPort p = linkRemoteInterface topo (portModule p) \<and>
       (\<exists>n \<in> set (networkNodes inp'). endNode p = Some (nnModule n)) \<and>
       (\<exists>q \<in> set (inPorts inp'). otherPort p = Some (portModule q)))"
proof -
  obtain inp1 nodes ports where l: "foldM (addNodePorts secs cyc) inp (topoNodes topo) = Inr inp1"
    and nodes: "mapM (\<lambda>n. rbind (mapM (connectPort topo inp1) (nnPorts n)) (\<lambda>ps. Inr (n\<lparr>nnPorts := ps\<rparr>))) (networkNodes inp1) = Inr nodes"
    and ports: "mapM (connectPort topo inp1) (inPorts inp1) = Inr ports"
    and inp': "inp' = inp1\<lparr>networkNodes := nodes, inPorts := ports\<rparr>"
    using assms by (auto simp: addPorts_def rbind_Inr_iff)
  note f = addNodePorts_loop [OF l]
  have "map portModule (concat (map (\<lambda>n. map (portOf secs cyc (nodeModule n)) (wired n)) (topoNodes topo)))
      = concat (map (\<lambda>n. map ifModule (wired n)) (topoNodes topo))"
    by (simp add: map_concat comp_def portOf_def)
  moreover have pm: "map portModule ports = map portModule (inPorts inp1)"
    using mapM_map [OF ports connectPort_module] by simp
  moreover have nm: "map nnModule nodes = map nnModule (networkNodes inp1)"
    by (rule mapM_map [OF nodes]) (auto simp: rbind_Inr_iff)
  moreover have conn: "endNode p = linkRemoteNode topo (portModule p) \<and> otherPort p = linkRemoteInterface topo (portModule p) \<and>
       (\<exists>n \<in> set nodes. endNode p = Some (nnModule n)) \<and> (\<exists>q \<in> set ports. otherPort p = Some (portModule q))"
    if "p \<in> set ports" for p
  proof -
    from that obtain i where i: "i < length ports" "p = ports ! i" by (auto simp: in_set_conv_nth)
    then have "connectPort topo inp1 (inPorts inp1 ! i) = Inr p" using ports by (simp add: mapM_Inr_iff)
    note c = connectPort_Inr [OF this]
    have "set (map nnModule nodes) = set (map nnModule (networkNodes inp1))" "set (map portModule ports) = set (map portModule (inPorts inp1))"
      using pm nm by simp_all
    then show ?thesis using c by auto (metis (no_types, lifting) image_iff)+
  qed
  moreover have "\<forall>p \<in> set ports. endNode p = linkRemoteNode topo (portModule p) \<and> otherPort p = linkRemoteInterface topo (portModule p) \<and>
       (\<exists>n \<in> set nodes. endNode p = Some (nnModule n)) \<and> (\<exists>q \<in> set ports. otherPort p = Some (portModule q))"
    using conn by blast
  ultimately show ?thesis using f unfolding inp' by (simp only: gsc_input.simps gsc_input.update_convs map_append) simp
qed
section \<open>The flows match the configuration\<close>

definition candidateMatches :: "topology \<Rightarrow> flow_entry \<times> topo_node \<times> topo_node \<Rightarrow> bool" where
  "candidateMatches topo = (\<lambda>(e, src, dst).
     (case (entSource e, entDestination e) of
        (Some s, Some d) \<Rightarrow> patternMatches topo s (nodePath src) \<and> patternMatches topo d (nodePath dst)
      | _ \<Rightarrow> False))"

definition candidateKey :: "flow_entry \<times> topo_node \<times> topo_node \<Rightarrow> module \<times> module \<times> int option \<times> int option" where
  "candidateKey = (\<lambda>(e, src, dst). (nodeModule src, nodeModule dst, entPcp e, entGateIndex e))"

definition flowKey :: "in_flow \<Rightarrow> module \<times> module \<times> int option \<times> int option" where
  "flowKey f = (appDevice (startApplication f), endDevice f, Some (appPcp (startApplication f)), Some (gateOf f))"

definition sameNetwork :: "gsc_input \<Rightarrow> gsc_input \<Rightarrow> bool" where
  "sameNetwork a b \<longleftrightarrow> inDevices a = inDevices b \<and> inSwitches a = inSwitches b \<and> networkNodes a = networkNodes b \<and> inPorts a = inPorts b"

lemma getDevice_Inr: "getDevice inp m = Inr d \<Longrightarrow> d = m \<and> m \<in> set (inDevices inp)"
  by (auto simp: getDevice_def split: option.splits dest!: find_Some_in)

lemma makeFlow_Inr:
  assumes "makeFlow topo e src dst k inp = Inr (inp', k')"
  shows "\<exists>flow. inFlows inp' = inFlows inp @ [flow] \<and> inApplications inp' = inApplications inp @ [startApplication flow] \<and>
    flowKey flow = candidateKey (e, src, dst) \<and> sameNetwork inp' inp \<and>
    nodeModule src \<in> set (inDevices inp) \<and> nodeModule dst \<in> set (inDevices inp)"
proof -
  from assms show ?thesis
    unfolding makeFlow_def
    by (auto simp: rbind_Inr_iff get_key_def Let_def flowKey_def candidateKey_def sameNetwork_def
        split: option.splits dest!: getDevice_Inr)
qed

lemma addFlowFor_Inr:
  assumes "addFlowFor topo (inp, k) c = Inr (inp', k')"
  shows "sameNetwork inp' inp \<and> (if candidateMatches topo c
    then \<exists>flow. inFlows inp' = inFlows inp @ [flow] \<and> inApplications inp' = inApplications inp @ [startApplication flow] \<and>
           flowKey flow = candidateKey c \<and> fst (candidateKey c) \<in> set (inDevices inp) \<and> fst (snd (candidateKey c)) \<in> set (inDevices inp)
    else inFlows inp' = inFlows inp \<and> inApplications inp' = inApplications inp)"
proof -
  obtain e src dst where c: "c = (e, src, dst)" by (cases c)
  obtain s d where sd: "entSource e = Some s" "entDestination e = Some d"
    using assms by (auto simp: addFlowFor_def c rbind_Inr_iff get_key_def split: option.splits)
  show ?thesis
  proof (cases "patternMatches topo s (nodePath src) \<and> patternMatches topo d (nodePath dst)")
    case True
    then have "makeFlow topo e src dst k inp = Inr (inp', k')"
      using assms sd by (simp add: addFlowFor_def c get_key_def)
    from makeFlow_Inr [OF this] show ?thesis
      using True sd c by (simp add: candidateMatches_def) (auto simp: candidateKey_def)
  next
    case False
    then show ?thesis using assms sd c by (auto simp: addFlowFor_def get_key_def candidateMatches_def sameNetwork_def)
  qed
qed

lemma addFlow_loop:
  assumes "foldM (addFlowFor topo) (inp, k) cs = Inr (inp', k')"
  shows "sameNetwork inp' inp \<and> (\<exists>new. inFlows inp' = inFlows inp @ new \<and>
    inApplications inp' = inApplications inp @ map startApplication new \<and>
    map flowKey new = map candidateKey (filter (candidateMatches topo) cs) \<and>
    (\<forall>f \<in> set new. appDevice (startApplication f) \<in> set (inDevices inp) \<and> endDevice f \<in> set (inDevices inp)))"
  using assms
proof (induction cs arbitrary: inp k)
  case Nil
  then show ?case by (simp add: sameNetwork_def)
next
  case (Cons c cs)
  obtain inp1 k1 where step: "addFlowFor topo (inp, k) c = Inr (inp1, k1)"
    and rest: "foldM (addFlowFor topo) (inp1, k1) cs = Inr (inp', k')"
    using Cons.prems by (auto simp: rbind_Inr_iff)
  note a = addFlowFor_Inr [OF step]
  obtain new where new: "sameNetwork inp' inp1" "inFlows inp' = inFlows inp1 @ new"
    "inApplications inp' = inApplications inp1 @ map startApplication new"
    "map flowKey new = map candidateKey (filter (candidateMatches topo) cs)"
    "\<forall>f \<in> set new. appDevice (startApplication f) \<in> set (inDevices inp1) \<and> endDevice f \<in> set (inDevices inp1)"
    using Cons.IH [OF rest] by blast
  show ?case
  proof (cases "candidateMatches topo c")
    case True
    then obtain flow where flow: "inFlows inp1 = inFlows inp @ [flow]" "inApplications inp1 = inApplications inp @ [startApplication flow]"
      "flowKey flow = candidateKey c" "fst (candidateKey c) \<in> set (inDevices inp)" "fst (snd (candidateKey c)) \<in> set (inDevices inp)"
      using a by auto
    then have "appDevice (startApplication flow) \<in> set (inDevices inp)" "endDevice flow \<in> set (inDevices inp)"
      by (metis flowKey_def fst_conv snd_conv)+
    then show ?thesis using True flow new a by (auto simp: sameNetwork_def intro!: exI [of _ "flow # new"])
  next
    case False
    then show ?thesis using new a by (auto simp: sameNetwork_def)
  qed
qed

lemma createGateSchedulingInput_stages:
  assumes "createGateSchedulingInput secs cyc topo conf = Inr inp"
  obtains inp1 inp2 n where "addPorts secs cyc topo (addSwitches topo (addDevices topo emptyInput)) = Inr inp1"
    "foldM (addFlowFor topo) (inp1, 0) (flowCandidates topo conf) = Inr (inp2, n)"
    "inp = inp2\<lparr>inFlows := sort_key (\<lambda>f. - appPcp (startApplication f)) (inFlows inp2)\<rparr>"
  using assms by (auto simp: createGateSchedulingInput_def addFlows_def rbind_Inr_iff)

text \<open>
  The input describes the topology completely: devices and switches are the nodes that are no
  bridges and that are; the ports are the wired interfaces, in order, and each is connected to
  the node and the port at the other end of its link, both of which are in the input.
\<close>

theorem input_covers_topology:
  assumes "createGateSchedulingInput secs cyc topo conf = Inr inp"
  shows "inDevices inp = map nodeModule (filter (\<lambda>n. \<not> nodeIsBridge n) (topoNodes topo)) \<and>
    inSwitches inp = map nodeModule (filter nodeIsBridge (topoNodes topo)) \<and>
    map nnModule (networkNodes inp) = inDevices inp @ inSwitches inp \<and>
    map portModule (inPorts inp) = concat (map (\<lambda>n. map ifModule (wired n)) (topoNodes topo)) \<and>
    (\<forall>p \<in> set (inPorts inp). endNode p = linkRemoteNode topo (portModule p) \<and>
       otherPort p = linkRemoteInterface topo (portModule p) \<and>
       (\<exists>n \<in> set (networkNodes inp). endNode p = Some (nnModule n)) \<and>
       (\<exists>q \<in> set (inPorts inp). otherPort p = Some (portModule q)))"
proof -
  obtain inp1 inp2 n where p: "addPorts secs cyc topo (addSwitches topo (addDevices topo emptyInput)) = Inr inp1"
    and f: "foldM (addFlowFor topo) (inp1, 0) (flowCandidates topo conf) = Inr (inp2, n)"
    and inp: "inp = inp2\<lparr>inFlows := sort_key (\<lambda>f. - appPcp (startApplication f)) (inFlows inp2)\<rparr>"
    using assms by (rule createGateSchedulingInput_stages)
  have same: "sameNetwork inp inp1" using addFlow_loop [OF f] inp by (simp add: sameNetwork_def)
  have nm: "map nnModule (map networkNodeOf ns) = map nodeModule ns" for ns by (simp add: networkNodeOf_def)
  have eqs: "inDevices inp = inDevices inp1" "inSwitches inp = inSwitches inp1" "networkNodes inp = networkNodes inp1"
    "inPorts inp = inPorts inp1"
    using same by (simp_all add: sameNetwork_def)
  note a = addPorts_fields [OF p] and d = addDevices_fields [of topo emptyInput]
    and s = addSwitches_fields [of topo "addDevices topo emptyInput"]
  have empty: "inDevices emptyInput = []" "inSwitches emptyInput = []" "networkNodes emptyInput = []" "inPorts emptyInput = []"
    by (simp_all add: emptyInput_def)
  have dev: "inDevices inp = map nodeModule (filter (\<lambda>n. \<not> nodeIsBridge n) (topoNodes topo))"
    using a d s eqs empty by simp
  have sw: "inSwitches inp = map nodeModule (filter nodeIsBridge (topoNodes topo))"
    using a d s eqs empty by simp
  have nodes: "map nnModule (networkNodes inp) = inDevices inp @ inSwitches inp"
    unfolding dev sw using a d s eqs empty nm by (simp only: map_append append_Nil)
  have ports: "map portModule (inPorts inp) = concat (map (\<lambda>n. map ifModule (wired n)) (topoNodes topo))"
    using a d s eqs empty by simp
  have "\<forall>p \<in> set (inPorts inp). endNode p = linkRemoteNode topo (portModule p) \<and>
       otherPort p = linkRemoteInterface topo (portModule p) \<and>
       (\<exists>n \<in> set (networkNodes inp). endNode p = Some (nnModule n)) \<and>
       (\<exists>q \<in> set (inPorts inp). otherPort p = Some (portModule q))"
    unfolding eqs using a by blast
  with dev sw nodes ports show ?thesis by blast
qed

text \<open>
  The flows of the input are exactly the matches of the configuration: for every entry and
  every pair of nodes its patterns match there is one flow with its application, between devices,
  with the priority and gate of the entry; the flows are in descending order of priority.
\<close>

theorem flows_match_configuration:
  assumes "createGateSchedulingInput secs cyc topo conf = Inr inp"
  shows "mset (map flowKey (inFlows inp)) = mset (map candidateKey (filter (candidateMatches topo) (flowCandidates topo conf))) \<and>
    mset (map startApplication (inFlows inp)) = mset (inApplications inp) \<and>
    sorted_wrt (\<lambda>f g. appPcp (startApplication g) \<le> appPcp (startApplication f)) (inFlows inp) \<and>
    (\<forall>f \<in> set (inFlows inp). appDevice (startApplication f) \<in> set (inDevices inp) \<and> endDevice f \<in> set (inDevices inp))"
proof -
  obtain inp1 inp2 n where p: "addPorts secs cyc topo (addSwitches topo (addDevices topo emptyInput)) = Inr inp1"
    and f: "foldM (addFlowFor topo) (inp1, 0) (flowCandidates topo conf) = Inr (inp2, n)"
    and inp: "inp = inp2\<lparr>inFlows := sort_key (\<lambda>f. - appPcp (startApplication f)) (inFlows inp2)\<rparr>"
    using assms by (rule createGateSchedulingInput_stages)
  have empty: "inFlows inp1 = []" "inApplications inp1 = []"
    using addPorts_fields [OF p] addDevices_fields [of topo emptyInput]
      addSwitches_fields [of topo "addDevices topo emptyInput"] by (simp_all add: emptyInput_def)
  obtain new where new: "sameNetwork inp2 inp1" "inFlows inp2 = new" "inApplications inp2 = map startApplication new"
    "map flowKey new = map candidateKey (filter (candidateMatches topo) (flowCandidates topo conf))"
    "\<forall>f \<in> set new. appDevice (startApplication f) \<in> set (inDevices inp1) \<and> endDevice f \<in> set (inDevices inp1)"
    using addFlow_loop [OF f] empty by auto
  let ?key = "\<lambda>f. - appPcp (startApplication f)"
  have "mset (map flowKey (inFlows inp)) = mset (map flowKey new)" using inp new(2) by simp
  moreover have "mset (map startApplication (inFlows inp)) = mset (inApplications inp)" using inp new(2,3) by simp
  moreover have "sorted (map ?key (sort_key ?key new))" by (rule sorted_sort_key)
  then have "sorted_wrt (\<lambda>f g. appPcp (startApplication g) \<le> appPcp (startApplication f)) (inFlows inp)"
    using inp new(2) by (simp add: sorted_map)
  ultimately show ?thesis using new inp by (simp add: sameNetwork_def)
qed
section \<open>Paths\<close>

lemma foldM_snoc_Inr: "foldM f s (xs @ [x]) = Inr t \<Longrightarrow> \<exists>u. foldM f s xs = Inr u \<and> f u x = Inr t"
  by (auto simp: foldM_append rbind_Inr_iff)

definition knownName :: "gsc_input \<Rightarrow> string \<Rightarrow> bool" where
  "knownName inp s \<longleftrightarrow> find (\<lambda>n. nnName n = beforeDot s) (networkNodes inp) \<noteq> None"

definition hopOk :: "gsc_input \<Rightarrow> string list \<Rightarrow> path_fragment \<Rightarrow> nat \<Rightarrow> bool" where
  "hopOk inp frag path i \<longleftrightarrow> (\<exists>n \<in> set (networkNodes inp). \<exists>p \<in> set (nnPorts n).
     nnModule n = fragNodes path ! i \<and> nnName n = beforeDot (frag ! i) \<and>
     portModule p = fragOutputPorts path ! i \<and> otherPort p = Some (fragInputPorts path ! i) \<and>
     nameOfNode inp (endNode p) = Some (beforeDot (frag ! (i + 1))))"

lemma addElement_known:
  assumes "addElement inp frag path m = Inr path'" "knownName inp (frag ! m)"
  shows "\<exists>n. n \<in> set (networkNodes inp) \<and> nnName n = beforeDot (frag ! m) \<and>
    fragNodes path' = fragNodes path @ [nnModule n] \<and>
    (if m + 1 = length frag then fragOutputPorts path' = fragOutputPorts path \<and> fragInputPorts path' = fragInputPorts path
     else \<exists>p q. p \<in> set (nnPorts n) \<and> fragOutputPorts path' = fragOutputPorts path @ [portModule p] \<and>
            fragInputPorts path' = fragInputPorts path @ [q] \<and> otherPort p = Some q \<and>
            nameOfNode inp (endNode p) = Some (beforeDot (frag ! (m + 1))))"
proof -
  obtain n where n: "find (\<lambda>n. nnName n = beforeDot (frag ! m)) (networkNodes inp) = Some n"
    using assms(2) by (auto simp: knownName_def)
  show ?thesis
    using assms(1) find_Some_in [OF n]
    by (intro exI [of _ n]) (auto simp: addElement_def n rbind_Inr_iff split: if_splits option.splits dest!: find_Some_in)
qed

lemma makeFragment_prefix:
  assumes "foldM (addElement inp frag) \<lparr>fragNodes = [], fragInputPorts = [], fragOutputPorts = []\<rparr> [0..<k] = Inr path"
    "k \<le> length frag" "\<forall>s \<in> set frag. knownName inp s"
  shows "length (fragNodes path) = k \<and> length (fragOutputPorts path) = min k (length frag - 1) \<and>
    length (fragInputPorts path) = min k (length frag - 1) \<and>
    (\<forall>i < min k (length frag - 1). hopOk inp frag path i)"
  using assms(1,2)
proof (induction k arbitrary: path)
  case 0
  then show ?case by auto
next
  case (Suc k)
  have "[0..<Suc k] = [0..<k] @ [k]" by simp
  then obtain path1 where p1: "foldM (addElement inp frag) \<lparr>fragNodes = [], fragInputPorts = [], fragOutputPorts = []\<rparr> [0..<k] = Inr path1"
    and step: "addElement inp frag path1 k = Inr path"
    using foldM_snoc_Inr Suc.prems(1) by metis
  have IH: "length (fragNodes path1) = k" "length (fragOutputPorts path1) = min k (length frag - 1)"
    "length (fragInputPorts path1) = min k (length frag - 1)" "\<forall>i < min k (length frag - 1). hopOk inp frag path1 i"
    using Suc.IH [OF p1] Suc.prems(2) by auto
  have "knownName inp (frag ! k)" using assms(3) Suc.prems(2) by simp
  then obtain n where n: "n \<in> set (networkNodes inp)" "nnName n = beforeDot (frag ! k)"
    "fragNodes path = fragNodes path1 @ [nnModule n]"
    "if k + 1 = length frag then fragOutputPorts path = fragOutputPorts path1 \<and> fragInputPorts path = fragInputPorts path1
     else \<exists>p q. p \<in> set (nnPorts n) \<and> fragOutputPorts path = fragOutputPorts path1 @ [portModule p] \<and>
            fragInputPorts path = fragInputPorts path1 @ [q] \<and> otherPort p = Some q \<and>
            nameOfNode inp (endNode p) = Some (beforeDot (frag ! (k + 1)))"
    using addElement_known [OF step] by blast
  show ?case
  proof (cases "k + 1 = length frag")
    case True
    then have "hopOk inp frag path i" if "i < k" for i
      using that IH(1,4) n(3,4) by (auto simp: hopOk_def nth_append)
    then show ?thesis using True IH n by auto
  next
    case False
    then obtain p q where pq: "p \<in> set (nnPorts n)" "fragOutputPorts path = fragOutputPorts path1 @ [portModule p]"
      "fragInputPorts path = fragInputPorts path1 @ [q]" "otherPort p = Some q"
      "nameOfNode inp (endNode p) = Some (beforeDot (frag ! (k + 1)))"
      using n(4) by auto
    have len: "length (fragOutputPorts path1) = k" "length (fragInputPorts path1) = k" "k < length frag - 1"
      using IH False Suc.prems(2) by auto
    have "hopOk inp frag path i" if "i < k" for i
      using that IH(1,4) n(3) pq(2,3) len by (auto simp: hopOk_def nth_append)
    moreover have "hopOk inp frag path k"
      unfolding hopOk_def using n(1,2,3) pq IH(1) len by (intro bexI [of _ n] bexI [of _ p]) (simp_all add: nth_append)
    ultimately have "\<forall>i < Suc k. hopOk inp frag path i" by (simp add: less_Suc_eq)
    then show ?thesis using len IH(1) n(3) pq by auto
  qed
qed

text \<open>
  A path whose nodes are all known is followed hop by hop: there is a node for every element,
  and between two elements the output port belongs to the first node and leads to the node named
  by the second, and the input port is the one at the other end.
\<close>

theorem path_follows_ports:
  assumes "makeFragment inp frag = Inr path" "\<forall>s \<in> set frag. knownName inp s"
  shows "length (fragNodes path) = length frag \<and> length (fragOutputPorts path) = length frag - 1 \<and>
    length (fragInputPorts path) = length frag - 1 \<and> (\<forall>i < length frag - 1. hopOk inp frag path i)"
proof -
  have m: "min (length frag) (length frag - 1) = length frag - 1" by simp
  show ?thesis
    by (rule makeFragment_prefix [OF assms(1) [unfolded makeFragment_def] order.refl assms(2), unfolded m])
qed

text \<open>
  An unknown first element of a path is dropped without an error: the flow is routed as if the
  path began at its second element.
\<close>

theorem unknown_first_node_is_dropped:
  assumes "\<not> knownName inp s"
  shows "makeFragment inp (s # frag) = makeFragment inp frag"
proof -
  have shift: "addElement inp (s # frag) path (Suc m) = addElement inp frag path m" for path m
  proof -
    have e: "(s # frag) ! (Suc m + 1) = frag ! (m + 1)" "(s # frag) ! Suc m = frag ! m"
      "(Suc m + 1 = length (s # frag)) = (m + 1 = length frag)" by simp_all
    show ?thesis unfolding addElement_def e ..
  qed
  have "addElement inp (s # frag) path 0 = Inr path" for path
    using assms by (simp add: addElement_def knownName_def)
  moreover have "foldM (addElement inp (s # frag)) path (map Suc ms) = foldM (addElement inp frag) path ms" for path ms
    by (induction ms arbitrary: path) (simp_all add: shift)
  moreover have "[0..<length (s # frag)] = 0 # map Suc [0..<length frag]"
    by (simp add: map_Suc_upt upt_conv_Cons del: upt_Suc)
  ultimately show ?thesis by (simp add: makeFragment_def del: upt_Suc)
qed

text \<open>
  A pattern that matches a bridge as the source of a flow is refused: flows run between
  devices only.
\<close>

theorem bridge_source_is_refused:
  assumes "candidateMatches topo (e, src, dst)" "nodeModule src \<notin> set (inDevices inp)"
    "entPcp e \<noteq> None" "entGateIndex e \<noteq> None" "entPacketLength e \<noteq> None" "entPacketInterval e \<noteq> None"
  shows "addFlowFor topo (inp, k) (e, src, dst) = Inl (RuntimeError ''Cannot find device'')"
proof -
  have "getDevice inp (nodeModule src) = Inl (RuntimeError ''Cannot find device'')"
    using assms(2) by (auto simp: getDevice_def find_None_iff split: option.splits dest: find_Some_in)
  then have "makeFlow topo e src dst k inp = Inl (RuntimeError ''Cannot find device'')"
    using assms(3-6) by (auto simp: makeFlow_def get_key_def)
  then show ?thesis
    using assms(1) by (auto simp: addFlowFor_def candidateMatches_def get_key_def split: option.splits)
qed

section \<open>A network\<close>

definition demo_if :: "module \<Rightarrow> string \<Rightarrow> topo_interface" where
  "demo_if m n = \<lparr>ifModule = m, ifName = n, ifLoopback = False, ifWireless = False, ifSubqueues = Some 8,
     ifDatarate = 100000000, ifDelay = 0, ifMtu = 1500\<rparr>"

definition demo_topo :: topology where
  "demo_topo = \<lparr>topoNodes =
     [\<lparr>nodeModule = 1, nodePath = ''net.a'', nodeName = ''a'', nodeIsBridge = False, nodeInterfaces = [demo_if 11 ''eth0'']\<rparr>,
      \<lparr>nodeModule = 2, nodePath = ''net.s'', nodeName = ''s'', nodeIsBridge = True,
       nodeInterfaces = [demo_if 21 ''eth0'', demo_if 22 ''eth1'']\<rparr>,
      \<lparr>nodeModule = 3, nodePath = ''net.b'', nodeName = ''b'', nodeIsBridge = False, nodeInterfaces = [demo_if 31 ''eth0'']\<rparr>],
     linkRemoteNode = map_of [(11, 2), (21, 1), (22, 3), (31, 2)],
     linkRemoteInterface = map_of [(11, 21), (21, 11), (22, 31), (31, 22)],
     shortestPath = (\<lambda>a b. [1, 2, 3]), patternMatches = (\<lambda>p s. s = ''net.'' @ p),
     applicationAt = (\<lambda>d n. if n = ''.app'' then Some (d * 100) else None)\<rparr>"

definition demo_entry :: flow_entry where
  "demo_entry = \<lparr>entSource = Some ''a'', entDestination = Some ''b'', entPcp = Some 4, entGateIndex = Some 4,
     entPacketLength = Some 800, entCutthrough = None, entPacketInterval = Some (simtime_ms 100), entMaxLatency = None,
     entMaxJitter = None, entApplication = Some ''app'', entName = None, entFragments = Some [[''a'', ''s'', ''b'']]\<rparr>"

lemmas demo_network_defs = demo_topo_def demo_if_def demo_entry_def

definition demo_inp1 :: "gsc_input result" where
  "demo_inp1 = addPorts (\<lambda>_. 0) (simtime_ms 100) demo_topo (addSwitches demo_topo (addDevices demo_topo emptyInput))"
lemma mset_eq_single_list: "mset xs = mset [a] \<Longrightarrow> xs = [a]"
  by (cases xs) (auto simp: add_mset_eq_single)

lemma demo_input_ok: "is_ok (createGateSchedulingInput (\<lambda>_. 0) (simtime_ms 100) demo_topo [demo_entry])"
  by code_simp

theorem input_covers_topology_witness:
  "\<exists>inp. createGateSchedulingInput (\<lambda>_. 0) (simtime_ms 100) demo_topo [demo_entry] = Inr inp \<and>
     inDevices inp = [1, 3] \<and> inSwitches inp = [2] \<and> map portModule (inPorts inp) = [11, 21, 22, 31]"
proof -
  obtain inp where inp: "createGateSchedulingInput (\<lambda>_. 0) (simtime_ms 100) demo_topo [demo_entry] = Inr inp"
    using is_ok_ex [OF demo_input_ok] by blast
  from input_covers_topology [OF inp] inp show ?thesis by (auto simp: demo_network_defs wired_def)
qed

theorem flows_match_configuration_witness:
  "\<exists>inp. createGateSchedulingInput (\<lambda>_. 0) (simtime_ms 100) demo_topo [demo_entry] = Inr inp \<and>
     map flowKey (inFlows inp) = [(1, 3, Some 4, Some 4)]"
proof -
  obtain inp where inp: "createGateSchedulingInput (\<lambda>_. 0) (simtime_ms 100) demo_topo [demo_entry] = Inr inp"
    using is_ok_ex [OF demo_input_ok] by blast
  have k: "map candidateKey (filter (candidateMatches demo_topo) (flowCandidates demo_topo [demo_entry])) = [(1, 3, Some 4, Some 4)]"
    by (simp add: demo_network_defs flowCandidates_def candidateMatches_def candidateKey_def)
  have "mset (map flowKey (inFlows inp)) = mset [(1, 3, Some 4, Some 4)]"
    by (rule flows_match_configuration [OF inp, THEN conjunct1, unfolded k])
  then have "map flowKey (inFlows inp) = [(1, 3, Some 4, Some 4)]"
    by (rule mset_eq_single_list)
  then show ?thesis using inp by (intro exI conjI)
qed

lemma demo_path_ok:
  "is_ok (rbind demo_inp1 (\<lambda>i. rbind (makeFragment i [''a'', ''s'', ''b'']) (\<lambda>p.
     rbind (ensure (list_all (knownName i) [''a'', ''s'', ''b''])) (\<lambda>_.
     ensure (fragOutputPorts p = [11, 22] \<and> fragInputPorts p = [21, 31])))))"
  by code_simp

theorem path_follows_ports_witness:
  "\<exists>inp path. makeFragment inp [''a'', ''s'', ''b''] = Inr path \<and> fragOutputPorts path = [11, 22] \<and>
     fragInputPorts path = [21, 31] \<and> length (fragNodes path) = 3 \<and> hopOk inp [''a'', ''s'', ''b''] path 1"
proof -
  obtain inp path where p: "makeFragment inp [''a'', ''s'', ''b''] = Inr path" "fragOutputPorts path = [11, 22]"
    "fragInputPorts path = [21, 31]" "list_all (knownName inp) [''a'', ''s'', ''b'']"
    using is_ok_ex [OF demo_path_ok] by (auto simp: rbind_Inr_iff ensure_Inr_iff)
  from path_follows_ports [OF p(1)] p
  have "length (fragNodes path) = 3 \<and> hopOk inp [''a'', ''s'', ''b''] path 1" by (simp add: list_all_iff)
  then show ?thesis using p(1-3) by blast
qed

theorem unknown_first_node_is_dropped_witness:
  "\<exists>inp path. makeFragment inp [''x'', ''a'', ''s'', ''b''] = Inr path \<and> fragOutputPorts path = [11, 22]"
proof -
  obtain inp path where i: "demo_inp1 = Inr inp" and p: "makeFragment inp [''a'', ''s'', ''b''] = Inr path" "fragOutputPorts path = [11, 22]"
    using is_ok_ex [OF demo_path_ok] by (auto simp: rbind_Inr_iff ensure_Inr_iff)
  have "is_ok (rbind demo_inp1 (\<lambda>i. ensure (\<not> knownName i ''x'')))" by code_simp
  then have "\<not> knownName inp ''x''" by (simp add: i ensure_def split: if_splits)
  from unknown_first_node_is_dropped [OF this, of "[''a'', ''s'', ''b'']"] p
  have "makeFragment inp [''x'', ''a'', ''s'', ''b''] = Inr path" by simp
  then show ?thesis using p(2) by (intro exI conjI)
qed

theorem bridge_source_is_refused_witness:
  "\<exists>inp. addFlowFor demo_topo (inp, 0) (demo_entry\<lparr>entSource := Some ''s''\<rparr>, topoNodes demo_topo ! 1, topoNodes demo_topo ! 2)
     = Inl (RuntimeError ''Cannot find device'')"
  using bridge_source_is_refused [of demo_topo "demo_entry\<lparr>entSource := Some ''s''\<rparr>" "topoNodes demo_topo ! 1" "topoNodes demo_topo ! 2" emptyInput 0]
  by (auto simp: candidateMatches_def demo_network_defs emptyInput_def)

section \<open>Applying a schedule to all gates\<close>

text \<open>
  What a gate \<open>b\<close> is after a schedule was applied to the gate \<open>a\<close>: it starts now with the initial state,
  the offset and the durations of the computed schedule of its port and traffic class; when the schedule
  yields no durations it is the gate it was.
\<close>

definition configuredTo :: "simtime \<Rightarrow> simtime \<Rightarrow> gate_output \<Rightarrow> module \<Rightarrow> nat \<times> periodic_gate \<Rightarrow> nat \<times> periodic_gate \<Rightarrow> bool" where
  "configuredTo now gateCycle out ifm a b \<longleftrightarrow> fst b = fst a \<and>
     (\<exists>schedules b0 off ds. gateSchedules out ifm = Some schedules \<and> fst a < length schedules \<and>
        gateParameters gateCycle (schedules ! fst a) = Inr (b0, off, ds) \<and>
        (if ds = [] then snd b = snd a
         else \<exists>g0. initializeGating now g0 = Inr (snd b) \<and> gate_ready g0 \<and>
                initiallyOpen g0 = b0 \<and> initialOffset g0 = off \<and> durations g0 = ds))"

lemma configureGate_Inr:
  assumes "configureGate now gateCycle inp out ifm a = Inr b"
  shows "configuredTo now gateCycle out ifm a b"
proof -
  have b: "fst b = fst a" "configureGateScheduling now gateCycle (gateSchedules out) ifm (fst a) (snd a) = Inr (snd b)"
    using assms by (cases a; auto simp: configureGate_def rbind_Inr_iff getPort_def split: option.splits dest!: find_Some_in)+
  obtain schedules b0 off ds where s: "gateSchedules out ifm = Some schedules" "fst a < length schedules"
    and par: "gateParameters gateCycle (schedules ! fst a) = Inr (b0, off, ds)"
    and set: "setGateParameters now (snd a) (b0, off, ds) = Inr (snd b)"
    using b(2) by (auto simp: configureGateScheduling_def rbind_Inr_iff split: option.splits if_splits)
  have "if ds = [] then snd b = snd a
      else \<exists>g0. initializeGating now g0 = Inr (snd b) \<and> gate_ready g0 \<and> initiallyOpen g0 = b0 \<and> initialOffset g0 = off \<and> durations g0 = ds"
  proof (cases "ds = []")
    case True
    then show ?thesis using set by (simp add: setGateParameters_def)
  next
    case False
    obtain g0 where "initializeGating now g0 = Inr (snd b)" "initiallyOpen g0 = b0" "initialOffset g0 = off" "durations g0 = ds" "gate_ready g0"
      using setGateParameters_starts [OF set False] .
    with False show ?thesis by auto
  qed
  with b(1) s par show ?thesis unfolding configuredTo_def by blast
qed

lemma mapM_list_all2: "mapM f xs = Inr ys \<Longrightarrow> (\<And>x y. f x = Inr y \<Longrightarrow> R x y) \<Longrightarrow> list_all2 R xs ys"
  by (induction xs arbitrary: ys) (auto simp: rbind_Inr_iff)

lemma configure_loop:
  assumes "foldM (configureInterfaceGates now gateCycle inp out) gates is = Inr gates'" "distinct (map ifModule is)"
  shows "\<forall>m. (m \<notin> ifModule ` set is \<longrightarrow> gates' m = gates m) \<and>
    (m \<in> ifModule ` set is \<longrightarrow> rel_option (list_all2 (configuredTo now gateCycle out m)) (gates m) (gates' m))"
  using assms
proof (induction "is" arbitrary: gates)
  case Nil
  then show ?case by simp
next
  case (Cons i "is")
  obtain g1 where step: "configureInterfaceGates now gateCycle inp out gates i = Inr g1"
    and rest: "foldM (configureInterfaceGates now gateCycle inp out) g1 is = Inr gates'"
    using Cons.prems(1) by (auto simp: rbind_Inr_iff)
  have notin: "ifModule i \<notin> ifModule ` set is" using Cons.prems(2) by auto
  have IH: "(m \<notin> ifModule ` set is \<longrightarrow> gates' m = g1 m) \<and>
    (m \<in> ifModule ` set is \<longrightarrow> rel_option (list_all2 (configuredTo now gateCycle out m)) (g1 m) (gates' m))" for m
    using Cons.IH [OF rest] Cons.prems(2) by auto
  have other: "g1 m = gates m" if "m \<noteq> ifModule i" for m
    using step that by (auto simp: configureInterfaceGates_def rbind_Inr_iff split: option.splits)
  have "rel_option (list_all2 (configuredTo now gateCycle out (ifModule i))) (gates (ifModule i)) (g1 (ifModule i))"
  proof (cases "gates (ifModule i)")
    case None
    then show ?thesis using step by (simp add: configureInterfaceGates_def)
  next
    case (Some gs)
    then obtain gs' where "mapM (configureGate now gateCycle inp out (ifModule i)) gs = Inr gs'" "g1 = gates(ifModule i \<mapsto> gs')"
      using step by (auto simp: configureInterfaceGates_def rbind_Inr_iff)
    then show ?thesis using Some mapM_list_all2 [OF _ configureGate_Inr] by auto
  qed
  moreover have "gates' (ifModule i) = g1 (ifModule i)" using IH notin by blast
  ultimately have here: "rel_option (list_all2 (configuredTo now gateCycle out (ifModule i))) (gates (ifModule i)) (gates' (ifModule i))"
    by simp
  show ?case
  proof (intro allI)
    fix m
    show "(m \<notin> ifModule ` set (i # is) \<longrightarrow> gates' m = gates m) \<and>
      (m \<in> ifModule ` set (i # is) \<longrightarrow> rel_option (list_all2 (configuredTo now gateCycle out m)) (gates m) (gates' m))"
      using here IH [of m] other [of m] notin by (cases "m = ifModule i") simp_all
  qed
qed

text \<open>
  C14. A change of the configuration takes effect on the whole network at once: the input is built
  anew from the new entries, the scheduler is run on it, and every gate of every interface starts with
  the initial state, offset and durations of the computed schedule of its port and traffic class -
  except that a gate whose schedule yields no durations keeps the parameters it had.
\<close>

theorem reconfiguration_reaches_every_gate:
  assumes "gscHandleParameterChange secs topo compute enabled sources confPar now ''configuration'' c gates = Inr (c', gates', offs)"
    "distinct (map ifModule (concat (map nodeInterfaces (topoNodes topo))))"
  shows "\<exists>inp out. createGateSchedulingInput secs (gateCycleDuration c) topo confPar = Inr inp \<and>
    compute (gateCycleDuration c) inp = Inr out \<and> gateSchedulingInput c' = Some inp \<and> gateSchedulingOutput c' = Some out \<and>
    (\<forall>n \<in> set (topoNodes topo). \<forall>i \<in> set (nodeInterfaces n).
       rel_option (list_all2 (configuredTo now (gateCycleDuration c) out (ifModule i))) (gates (ifModule i)) (gates' (ifModule i)))"
proof -
  obtain inp out where inp: "createGateSchedulingInput secs (gateCycleDuration c) topo confPar = Inr inp"
    and out: "compute (gateCycleDuration c) inp = Inr out"
    and c': "c' = (clearConfiguration (c\<lparr>configuration := confPar\<rparr>))\<lparr>gateSchedulingInput := Some inp, gateSchedulingOutput := Some out\<rparr>"
    and g: "configureAllGates now (gateCycleDuration c) topo inp out gates = Inr gates'"
    using assms(1) by (auto simp: gscHandleParameterChange_def applyConfiguration_def computeConfiguration_def
        clearConfiguration_def assert_found_def rbind_Inr_iff)
  have "rel_option (list_all2 (configuredTo now (gateCycleDuration c) out (ifModule i))) (gates (ifModule i)) (gates' (ifModule i))"
    if "n \<in> set (topoNodes topo)" "i \<in> set (nodeInterfaces n)" for n i
    using configure_loop [OF g [unfolded configureAllGates_def] assms(2)] that by force
  then show ?thesis using inp out c' by (auto simp: clearConfiguration_def)
qed
definition demo_configurator :: gs_configurator where
  "demo_configurator = \<lparr>gateCycleDuration = simtime_us 100, configuration = [], gateSchedulingInput = None, gateSchedulingOutput = None\<rparr>"

definition demo_compute :: "simtime \<Rightarrow> gsc_input \<Rightarrow> gate_output result" where
  "demo_compute cyc inp = Inr \<lparr>gateSchedules = (\<lambda>p. Some [demo_schedule]), applicationStartTimes = (\<lambda>a. None)\<rparr>"

definition demo_gates :: gate_map where
  "demo_gates m = (if m = 11 then Some [(0, demo_gate)] else None)"

lemma demo_reconfiguration_ok:
  "is_ok (gscHandleParameterChange (\<lambda>_. 0) demo_topo demo_compute False (\<lambda>_. None) [demo_entry] (simtime_ms 7) ''configuration''
     demo_configurator demo_gates)"
  by code_simp

theorem reconfiguration_reaches_every_gate_witness:
  "\<exists>c' gates' offs g. gscHandleParameterChange (\<lambda>_. 0) demo_topo demo_compute False (\<lambda>_. None) [demo_entry] (simtime_ms 7)
      ''configuration'' demo_configurator demo_gates = Inr (c', gates', offs) \<and>
    gates' 11 = Some [(0, g)] \<and>
    (\<exists>g0. initializeGating (simtime_ms 7) g0 = Inr g \<and> \<not> initiallyOpen g0 \<and> initialOffset g0 = simtime_us 40 \<and>
       durations g0 = [simtime_us 50, simtime_us 20, simtime_us 20, simtime_us 10])"
proof -
  obtain c' gates' offs where run: "gscHandleParameterChange (\<lambda>_. 0) demo_topo demo_compute False (\<lambda>_. None) [demo_entry]
      (simtime_ms 7) ''configuration'' demo_configurator demo_gates = Inr (c', gates', offs)"
    using is_ok_ex [OF demo_reconfiguration_ok] by (metis prod.exhaust)
  have "distinct (map ifModule (concat (map nodeInterfaces (topoNodes demo_topo))))"
    by (simp add: demo_topo_def demo_if_def)
  from reconfiguration_reaches_every_gate [OF run this]
  obtain inp out where out: "demo_compute (simtime_us 100) inp = Inr out"
    and all: "\<forall>n \<in> set (topoNodes demo_topo). \<forall>i \<in> set (nodeInterfaces n).
       rel_option (list_all2 (configuredTo (simtime_ms 7) (simtime_us 100) out (ifModule i))) (demo_gates (ifModule i)) (gates' (ifModule i))"
    by (auto simp: demo_configurator_def)
  have "rel_option (list_all2 (configuredTo (simtime_ms 7) (simtime_us 100) out 11)) (Some [(0, demo_gate)]) (gates' 11)"
    using all by (simp add: demo_topo_def demo_if_def demo_gates_def)
  then obtain gs where "gates' 11 = Some gs" "list_all2 (configuredTo (simtime_ms 7) (simtime_us 100) out 11) [(0, demo_gate)] gs"
    by (auto simp: option_rel_Some1)
  then obtain b where "gates' 11 = Some [b]" "configuredTo (simtime_ms 7) (simtime_us 100) out 11 (0, demo_gate) b"
    by (auto simp: list_all2_Cons1)
  moreover obtain g0 where "fst b = 0" "initializeGating (simtime_ms 7) g0 = Inr (snd b)" "\<not> initiallyOpen g0"
    "initialOffset g0 = simtime_us 40" "durations g0 = [simtime_us 50, simtime_us 20, simtime_us 20, simtime_us 10]"
    using calculation(2) out demo_parameters by (auto simp: configuredTo_def demo_compute_def)
  ultimately have "gates' 11 = Some [(0, snd b)]"
    "\<exists>g0. initializeGating (simtime_ms 7) g0 = Inr (snd b) \<and> \<not> initiallyOpen g0 \<and> initialOffset g0 = simtime_us 40 \<and>
       durations g0 = [simtime_us 50, simtime_us 20, simtime_us 20, simtime_us 10]"
    by (auto simp: prod_eq_iff)
  with run show ?thesis by blast
qed

end
