(* ===== verification/ForwardingApps.thy ===== *)
theory ForwardingApps
  imports TsnStreams
begin

text \<open>
  The gateway applications of a vehicle (\<open>cooperative_tsn/applications/\<close>):
  \<open>NicForwardingApplication\<close> carries packets between the wireless and the wired network, and
  \<open>DynSchedForwardingApplication\<close> also watches them to size the streams of the TSN schedule.
  Sockets, signals and timers are the actions an operation returns; OMNeT++'s module lookups
  (\<open>module_env\<close>), the interface table and the address resolver are parameters.
\<close>

section \<open>Packets, rules and actions\<close>

type_synonym l3addr = nat

record udp_packet =
  pktName :: string
  pktPayload :: nat
  pktBits :: int
  pktInterface :: int       \<comment> \<open>\<open>InterfaceInd\<close>\<close>
  pktSource :: l3addr       \<comment> \<open>\<open>L3AddressInd\<close>\<close>

record fwd_rule =
  ruleDestination :: "string option"
  rulePort :: "int option"
  rulePcp :: "int option"

text \<open>The table lists the entries of the \<open>cValueMap\<close> in the order \<open>getEntry\<close> counts them.\<close>

type_synonym fwd_table = "(string \<times> fwd_rule) list"

record net_env =
  interfaceByName :: "string \<Rightarrow> int option"
  resolveAddr :: "string \<Rightarrow> l3addr result"
  hostOfAddr :: "l3addr \<Rightarrow> module option"
  loopback :: l3addr
  multicastGroups :: "l3addr list"

record sent_packet =
  sentName :: string
  sentPayload :: nat
  sentTo :: l3addr
  sentPort :: int
  sentSource :: l3addr
  sentInterface :: int

datatype app_action =
    SendTo sent_packet
  | EmitReceived | EmitExternal | EmitInternal
  | EmitSlotSize string int

section \<open>\<open>NicForwardingApplication\<close>\<close>

record udp_socket =
  boundPort :: "int option"
  multicastOutput :: "int option"
  joinedGroups :: "l3addr list"
  multicastLoop :: bool
  hasCallback :: bool

record fwd_app =
  localPort :: int
  multicastAddress :: string
  forwardingTable :: fwd_table
  appSocket :: udp_socket

text \<open>\<open>initialize\<close> reads the parameters in the local stage only.\<close>

definition nicAppInitialize :: "fwd_table \<Rightarrow> int \<Rightarrow> string \<Rightarrow> init_stage \<Rightarrow> fwd_app \<Rightarrow> fwd_app" where
  "nicAppInitialize rules port mcast stage app =
     (if stage = INITSTAGE_LOCAL
      then app\<lparr>forwardingTable := rules, localPort := port, multicastAddress := mcast\<rparr>
      else app)"

definition internalExternal :: "net_env \<Rightarrow> (int \<times> int) result" where
  "internalExternal net =
     rbind (assert_found (interfaceByName net ''eth0'')) (\<lambda>internal.
     rbind (assert_found (interfaceByName net ''wlan0'')) (\<lambda>external. Inr (internal, external)))"

definition handleStartOperation :: "net_env \<Rightarrow> fwd_app \<Rightarrow> fwd_app result" where
  "handleStartOperation net app =
     (let s = (appSocket app)\<lparr>boundPort := Some (localPort app)\<rparr> in
      rbind (internalExternal net) (\<lambda>(internal, external).
        Inr (app\<lparr>appSocket := s\<lparr>multicastOutput := Some external,
              joinedGroups := joinedGroups s @ multicastGroups net,
              multicastLoop := False, hasCallback := True\<rparr>\<rparr>)))"

text \<open>\<open>std::string(name).find(entry.first) != npos\<close>, for the entries in order\<close>

definition matchingRule :: "fwd_table \<Rightarrow> string \<Rightarrow> fwd_rule option" where
  "matchingRule table name = map_option snd (find (\<lambda>(key, rule). contains_string name key) table)"

text \<open>\<open>carFullPath\<close> is the path of \<open>getParentModule()->getParentModule()\<close>.\<close>

definition processPacket ::
    "net_env \<Rightarrow> string \<Rightarrow> fwd_app \<Rightarrow> udp_packet \<Rightarrow> app_action list result" where
  "processPacket net carFullPath app p =
     rbind (internalExternal net) (\<lambda>(internal, external).
       if pktInterface p = internal then
         rbind (resolveAddr net (multicastAddress app)) (\<lambda>dest.
           Inr [EmitExternal,
                SendTo \<lparr>sentName = pktName p, sentPayload = pktPayload p, sentTo = dest, sentPort = 3000,
                  sentSource = pktSource p, sentInterface = external\<rparr>])
       else if pktInterface p = external then
         rbind (case matchingRule (forwardingTable app) (pktName p) of
                  None \<Rightarrow> Inl AssertionFailed
                | Some rule \<Rightarrow>
                    rbind (get_key (ruleDestination rule)) (\<lambda>d.
                    rbind (get_key (rulePort rule)) (\<lambda>port. Inr (carFullPath @ ''.'' @ d, port)))) (\<lambda>(destinationModule, port).
         rbind (resolveAddr net destinationModule) (\<lambda>dest.
           Inr [EmitInternal,
                SendTo \<lparr>sentName = pktName p, sentPayload = pktPayload p, sentTo = dest, sentPort = port,
                  sentSource = pktSource p, sentInterface = internal\<rparr>]))
       else (case interfaceByName net ''lo'' of None \<Rightarrow> Inl NullPointer | Some lo \<Rightarrow> Inr []))"

definition nicSocketDataArrived ::
    "net_env \<Rightarrow> string \<Rightarrow> fwd_app \<Rightarrow> udp_packet \<Rightarrow> app_action list result" where
  "nicSocketDataArrived net carFullPath app p =
     (if pktSource p = loopback net then Inr []
      else rbind (processPacket net carFullPath app p) (\<lambda>acts. Inr (EmitReceived # acts)))"

section \<open>\<open>DynSchedForwardingApplication\<close>\<close>

record dyn_app =
  tsnStreams :: "tsn_stream list"
  creationTime :: simtime
  updateTimers :: "simtime list"          \<comment> \<open>the scheduled \<open>updateSchedule\<close> messages\<close>
  schedulerConfiguration :: "string option"   \<comment> \<open>what was last written to the scheduler\<close>

record app_place =
  thisModule :: module
  nicModule :: module          \<comment> \<open>\<open>getParentModule()\<close>\<close>
  carModule :: module          \<comment> \<open>its parent\<close>
  carIndex :: int

text \<open>\<open>configuration\<close> is the value of the scheduler's parameter, \<open>None\<close> if there is no scheduler.\<close>

definition dynInitialize ::
    "module_env \<Rightarrow> app_place \<Rightarrow> config_line list option \<Rightarrow> simtime \<Rightarrow> init_stage \<Rightarrow> dyn_app \<Rightarrow> dyn_app result" where
  "dynInitialize env place configuration now stage app =
     (if stage \<noteq> INITSTAGE_LAST then Inr app
      else rbind (assert_found configuration) (\<lambda>conf.
           rbind (mapM (\<lambda>line. makeStream env line (carModule place) None) conf) (\<lambda>streams.
             Inr (app\<lparr>tsnStreams := tsnStreams app @ map copyStream streams,
                      creationTime := now,
                      updateTimers := updateTimers app @ [now + simtime_s (carIndex place + 5) + simtime_ms 100]\<rparr>))))"

text \<open>The number of the first element with a property.\<close>

fun firstIndex :: "('a \<Rightarrow> bool) \<Rightarrow> 'a list \<Rightarrow> nat option" where
  "firstIndex P [] = None"
| "firstIndex P (x # xs) = (if P x then Some 0 else map_option Suc (firstIndex P xs))"

definition sameStream :: "module_env \<Rightarrow> app_place \<Rightarrow> int \<Rightarrow> string \<Rightarrow> module option \<Rightarrow> tsn_stream \<Rightarrow> bool" where
  "sameStream env place pcp destination sender s \<longleftrightarrow>
     PCP s = pcp \<and> sourceModule s = nicModule place \<and>
     externalSourceModule s \<noteq> None \<and> sender = externalSourceModule s \<and>
     fullName env (destinationModule s) = destination"

text \<open>
  The creation time of the application \<open>app[0]\<close> of the stream's source; the cast fails for a
  source without such an application.
\<close>

definition offsetOf :: "(module \<Rightarrow> simtime option) \<Rightarrow> tsn_stream \<Rightarrow> simtime result" where
  "offsetOf creationOf s = rbind (assert_found (creationOf (sourceModule s))) (\<lambda>c. Inr (getCreationTimeOffset c))"

definition newStreamLine :: "module_env \<Rightarrow> app_place \<Rightarrow> udp_packet \<Rightarrow> int \<Rightarrow> string \<Rightarrow> config_line" where
  "newStreamLine env place p pcp destination =
     \<lparr>cfgSource = Some (fullName env (nicModule place)), cfgDestination = Some destination,
      cfgPcp = Some pcp, cfgGateIndex = Some pcp, cfgPacketLength = Some (real_of_int (pktBits p)),
      cfgPacketInterval = Some 0, cfgStreamName = None, cfgApplication = Some (fullName env (thisModule place)),
      cfgMaxLatency = None, cfgMaxJitter = None, cfgPathFragments = None\<rparr>"

text \<open>The class of service and the destination of a packet; a packet no rule matches keeps the defaults.\<close>

definition classify :: "fwd_table \<Rightarrow> string \<Rightarrow> (int \<times> string) result" where
  "classify table name =
     (case matchingRule table name of
        None \<Rightarrow> Inr (0, [])
      | Some rule \<Rightarrow>
          rbind (get_key (rulePcp rule)) (\<lambda>pcp.
          rbind (get_key (ruleDestination rule)) (\<lambda>d. Inr (pcp, d))))"

definition registerStream ::
    "module_env \<Rightarrow> app_place \<Rightarrow> (module \<Rightarrow> simtime option) \<Rightarrow> simtime \<Rightarrow> udp_packet \<Rightarrow> int \<Rightarrow> string \<Rightarrow> module option \<Rightarrow>
     tsn_stream result" where
  "registerStream env place creationOf now p pcp destination sender =
     rbind (makeStream env (newStreamLine env place p pcp destination) (carModule place) sender) (\<lambda>made.
     rbind (offsetOf creationOf (copyStream made)) (\<lambda>off.
       Inr (setStartTime (pushTime off (copyStream made) now))))"

definition updateStream ::
    "(module \<Rightarrow> simtime option) \<Rightarrow> (simtime \<Rightarrow> simtime) \<Rightarrow> simtime \<Rightarrow> tsn_stream \<Rightarrow> (tsn_stream \<times> int) result" where
  "updateStream creationOf tenth now s =
     rbind (offsetOf creationOf s) (\<lambda>off.
       let (s', newSlotSize) = getNewSlotSize tenth (pushTime off s now)
       in Inr (setPacketInterval (setPacketSize s' newSlotSize), newSlotSize))"

definition adaptSchedule ::
    "net_env \<Rightarrow> module_env \<Rightarrow> app_place \<Rightarrow> (module \<Rightarrow> simtime option) \<Rightarrow> (simtime \<Rightarrow> simtime) \<Rightarrow> fwd_table \<Rightarrow>
     simtime \<Rightarrow> tsn_stream list \<Rightarrow> udp_packet \<Rightarrow> (tsn_stream list \<times> app_action list) result" where
  "adaptSchedule net env place creationOf tenth table now streams p =
     rbind (internalExternal net) (\<lambda>(internal, external).
       if pktInterface p = internal then Inr (streams, [])
       else if pktInterface p = external then
         rbind (classify table (pktName p)) (\<lambda>(pcp, destination).
           let sender = hostOfAddr net (pktSource p) in
           case firstIndex (sameStream env place pcp destination sender) streams of
             None \<Rightarrow>
               rbind (registerStream env place creationOf now p pcp destination sender) (\<lambda>new.
                 Inr (streams @ [new], []))
           | Some i \<Rightarrow>
               rbind (updateStream creationOf tenth now (streams ! i)) (\<lambda>(s, newSlotSize).
                 Inr (streams[i := s], [EmitSlotSize (''slot_size_'' @ streamName s) newSlotSize])))
       else Inr (streams, []))"

definition dynSocketDataArrived ::
    "net_env \<Rightarrow> module_env \<Rightarrow> app_place \<Rightarrow> (module \<Rightarrow> simtime option) \<Rightarrow> (simtime \<Rightarrow> simtime) \<Rightarrow> fwd_app \<Rightarrow>
     simtime \<Rightarrow> dyn_app \<Rightarrow> udp_packet \<Rightarrow> (dyn_app \<times> app_action list) result" where
  "dynSocketDataArrived net env place creationOf tenth app now dyn p =
     (if pktSource p = loopback net then Inr (dyn, [])
      else rbind (adaptSchedule net env place creationOf tenth (forwardingTable app) now (tsnStreams dyn) p) (\<lambda>(streams, stats).
           rbind (processPacket net (fullPath env (carModule place)) app p) (\<lambda>acts.
             Inr (dyn\<lparr>tsnStreams := streams\<rparr>, EmitReceived # stats @ acts))))"

text \<open>Streams of which one packet was seen so far (interval 0) are left out.\<close>

fun printStreams :: "module_env \<Rightarrow> bool \<Rightarrow> tsn_stream list \<Rightarrow> string result" where
  "printStreams env first [] = Inr []"
| "printStreams env first (s # ss) =
     (if packetInterval s = 0 then printStreams env first ss
      else rbind (printStream env s) (\<lambda>str.
           rbind (printStreams env False ss) (\<lambda>rest.
             Inr ((if first then [] else '', '') @ str @ rest))))"

definition getSchedulerConfiguration :: "module_env \<Rightarrow> tsn_stream list \<Rightarrow> string result" where
  "getSchedulerConfiguration env streams =
     rbind (printStreams env True streams) (\<lambda>str. Inr (''['' @ str @ '']''))"

datatype app_message = SelfMessage string | SocketMessage

text \<open>
  The configuration is written first, then the next update is scheduled. Any other self message
  is refused by the base class; what it does with socket messages is \<open>dynSocketDataArrived\<close>.
\<close>

definition dynHandleMessageWhenUp :: "module_env \<Rightarrow> simtime \<Rightarrow> dyn_app \<Rightarrow> app_message \<Rightarrow> dyn_app result" where
  "dynHandleMessageWhenUp env now dyn msg =
     (case msg of
        SelfMessage name \<Rightarrow>
          if contains_string name ''updateSchedule''
          then rbind (getSchedulerConfiguration env (tsnStreams dyn)) (\<lambda>conf.
                 Inr (dyn\<lparr>schedulerConfiguration := Some conf,
                          updateTimers := updateTimers dyn @ [now + simtime_ms 100]\<rparr>))
          else Inl (RuntimeError ''This module does not use custom self messages'')
      | SocketMessage \<Rightarrow> Inr dyn)"

text \<open>The simulation delivers a due timer.\<close>

definition deliverUpdate :: "module_env \<Rightarrow> dyn_app \<Rightarrow> dyn_app result" where
  "deliverUpdate env dyn =
     (case updateTimers dyn of [] \<Rightarrow> Inr dyn
      | t # ts \<Rightarrow> dynHandleMessageWhenUp env t (dyn\<lparr>updateTimers := ts\<rparr>) (SelfMessage ''updateSchedule''))"
section \<open>Forwarding\<close>

lemma internalExternal_Inr_iff:
  "internalExternal net = Inr (i, e) \<longleftrightarrow> interfaceByName net ''eth0'' = Some i \<and> interfaceByName net ''wlan0'' = Some e"
  by (auto simp: internalExternal_def assert_found_def rbind_def split: option.splits)

lemma assert_found_Inr_iff: "assert_found x = Inr y \<longleftrightarrow> x = Some y"
  by (simp add: assert_found_def split: option.splits)

lemma get_key_Inr_iff: "get_key x = Inr y \<longleftrightarrow> x = Some y"
  by (simp add: get_key_def split: option.splits)

lemmas lookup_iffs = internalExternal_Inr_iff assert_found_Inr_iff get_key_Inr_iff rbind_Inr_iff

definition sendsOf :: "app_action list \<Rightarrow> sent_packet list" where
  "sendsOf acts = concat (map (\<lambda>a. case a of SendTo s \<Rightarrow> [s] | _ \<Rightarrow> []) acts)"

lemma sendsOf_simps [simp]:
  "sendsOf [] = []" "sendsOf (SendTo s # acts) = s # sendsOf acts"
  "sendsOf (EmitReceived # acts) = sendsOf acts" "sendsOf (EmitExternal # acts) = sendsOf acts"
  "sendsOf (EmitInternal # acts) = sendsOf acts" "sendsOf (EmitSlotSize n b # acts) = sendsOf acts"
  by (simp_all add: sendsOf_def)

lemma processPacket_sends:
  assumes "processPacket net path app p = Inr acts" "interfaceByName net ''eth0'' = Some i"
    "interfaceByName net ''wlan0'' = Some e" "i \<noteq> e"
  shows "(pktInterface p = i \<longrightarrow> (\<exists>dest. resolveAddr net (multicastAddress app) = Inr dest \<and>
            sendsOf acts = [\<lparr>sentName = pktName p, sentPayload = pktPayload p, sentTo = dest, sentPort = 3000,
              sentSource = pktSource p, sentInterface = e\<rparr>])) \<and>
         (pktInterface p = e \<longrightarrow> (\<exists>rule d port dest. matchingRule (forwardingTable app) (pktName p) = Some rule \<and>
            ruleDestination rule = Some d \<and> rulePort rule = Some port \<and> resolveAddr net (path @ ''.'' @ d) = Inr dest \<and>
            sendsOf acts = [\<lparr>sentName = pktName p, sentPayload = pktPayload p, sentTo = dest, sentPort = port,
              sentSource = pktSource p, sentInterface = i\<rparr>])) \<and>
         (pktInterface p \<noteq> i \<longrightarrow> pktInterface p \<noteq> e \<longrightarrow> sendsOf acts = [])"
proof -
  have ie: "internalExternal net = Inr (i, e)" using assms(2,3) by (simp add: internalExternal_Inr_iff)
  consider "pktInterface p = i" | "pktInterface p = e" | "pktInterface p \<noteq> i" "pktInterface p \<noteq> e" by blast
  then show ?thesis
  proof cases
    case 1
    then show ?thesis using assms(1,4) by (auto simp: processPacket_def ie rbind_Inr_iff)
  next
    case 2
    then show ?thesis using assms(1,4)
      by (auto simp: processPacket_def ie lookup_iffs split: option.splits)
  next
    case 3
    then show ?thesis using assms(1) by (auto simp: processPacket_def ie split: option.splits)
  qed
qed

text \<open>
  The gateway never reflects a packet: whatever it sends for a received packet leaves through
  the other network, with the name, payload and source address of the received one, and it sends
  at most one packet; local echoes and loopback traffic are not forwarded.
\<close>

theorem forwarding_crosses_over:
  assumes "nicSocketDataArrived net path app p = Inr acts" "interfaceByName net ''eth0'' = Some i"
    "interfaceByName net ''wlan0'' = Some e" "i \<noteq> e"
  shows "length (sendsOf acts) \<le> 1 \<and>
    (\<forall>s \<in> set (sendsOf acts). {pktInterface p, sentInterface s} = {i, e} \<and> sentInterface s \<noteq> pktInterface p \<and>
       sentName s = pktName p \<and> sentPayload s = pktPayload p \<and> sentSource s = pktSource p \<and> pktSource p \<noteq> loopback net)"
proof (cases "pktSource p = loopback net")
  case True
  then show ?thesis using assms(1) by (simp add: nicSocketDataArrived_def)
next
  case False
  then obtain acts' where acts': "processPacket net path app p = Inr acts'" "acts = EmitReceived # acts'"
    using assms(1) by (auto simp: nicSocketDataArrived_def rbind_Inr_iff)
  note sends = processPacket_sends [OF acts'(1) assms(2-4)]
  consider "pktInterface p = i" | "pktInterface p = e" | "pktInterface p \<noteq> i" "pktInterface p \<noteq> e" by blast
  then show ?thesis using sends acts'(2) assms(4) False by cases auto
qed

lemma matchingRule_first:
  assumes "rules = pre @ (key, rule) # post" "\<forall>(k, r) \<in> set pre. \<not> contains_string name k" "contains_string name key"
  shows "matchingRule rules name = Some rule"
proof -
  have "find (\<lambda>(key, rule). contains_string name key) (pre @ (key, rule) # post) = Some (key, rule)"
    using assms(2,3) by (induction pre) auto
  then show ?thesis by (simp add: matchingRule_def assms(1))
qed

lemma matchingRule_None: "matchingRule rules name = None \<longleftrightarrow> (\<forall>(k, r) \<in> set rules. \<not> contains_string name k)"
  by (auto simp: matchingRule_def find_None_iff)

text \<open>
  The rules are tried in order: a packet from the air is sent into the wired network to the
  destination and port of the first rule whose key occurs in its name.
\<close>

theorem first_matching_rule_decides:
  assumes "forwardingTable app = pre @ (key, rule) # post" "\<forall>(k, r) \<in> set pre. \<not> contains_string (pktName p) k"
    "contains_string (pktName p) key" "ruleDestination rule = Some d" "rulePort rule = Some port"
    "resolveAddr net (path @ ''.'' @ d) = Inr dest" "interfaceByName net ''eth0'' = Some i"
    "interfaceByName net ''wlan0'' = Some (pktInterface p)" "i \<noteq> pktInterface p" "pktSource p \<noteq> loopback net"
  shows "nicSocketDataArrived net path app p = Inr [EmitReceived, EmitInternal,
    SendTo \<lparr>sentName = pktName p, sentPayload = pktPayload p, sentTo = dest, sentPort = port,
            sentSource = pktSource p, sentInterface = i\<rparr>]"
proof -
  have "matchingRule (forwardingTable app) (pktName p) = Some rule"
    by (rule matchingRule_first [OF assms(1-3)])
  moreover have "internalExternal net = Inr (i, pktInterface p)" using assms(7,8) by (simp add: internalExternal_Inr_iff)
  ultimately show ?thesis
    using assms(4-6,9,10) by (simp add: nicSocketDataArrived_def processPacket_def get_key_def)
qed

text \<open>
  A packet from the air that no rule matches stops the simulation with a failed assertion; it
  is neither dropped nor forwarded.
\<close>

theorem unmatched_packet_is_an_error:
  assumes "\<forall>(k, r) \<in> set (forwardingTable app). \<not> contains_string (pktName p) k"
    "interfaceByName net ''eth0'' = Some i" "interfaceByName net ''wlan0'' = Some (pktInterface p)"
    "i \<noteq> pktInterface p" "pktSource p \<noteq> loopback net"
  shows "nicSocketDataArrived net path app p = Inl AssertionFailed"
proof -
  have "matchingRule (forwardingTable app) (pktName p) = None" using assms(1) by (simp add: matchingRule_None)
  moreover have "internalExternal net = Inr (i, pktInterface p)" using assms(2,3) by (simp add: internalExternal_Inr_iff)
  ultimately show ?thesis using assms(4,5) by (simp add: nicSocketDataArrived_def processPacket_def)
qed
definition demo_net :: net_env where
  "demo_net = \<lparr>interfaceByName = map_of [(''eth0'', 101), (''wlan0'', 102), (''lo'', 100)],
     resolveAddr = (\<lambda>n. if n = ''net.dev'' then Inr 7 else if n = ''224.0.0.1'' then Inr 9 else Inl (RuntimeError n)),
     hostOfAddr = (\<lambda>a. if a = 40 then Some 50 else None), loopback = 127, multicastGroups = [9]\<rparr>"

definition demo_rules :: fwd_table where
  "demo_rules = [(''Cam'', \<lparr>ruleDestination = Some ''gw'', rulePort = Some 4000, rulePcp = Some 1\<rparr>),
     (''Platoon'', \<lparr>ruleDestination = Some ''dev'', rulePort = Some 3000, rulePcp = Some 4\<rparr>)]"

definition demo_app :: fwd_app where
  "demo_app = \<lparr>localPort = 3000, multicastAddress = ''224.0.0.1'', forwardingTable = demo_rules,
     appSocket = \<lparr>boundPort = None, multicastOutput = None, joinedGroups = [], multicastLoop = True, hasCallback = False\<rparr>\<rparr>"

definition demo_packet :: udp_packet where
  "demo_packet = \<lparr>pktName = ''MyPlatoon-3'', pktPayload = 5, pktBits = 800, pktInterface = 102, pktSource = 40\<rparr>"

theorem first_matching_rule_decides_witness:
  "nicSocketDataArrived demo_net ''net'' demo_app demo_packet = Inr [EmitReceived, EmitInternal,
     SendTo \<lparr>sentName = ''MyPlatoon-3'', sentPayload = 5, sentTo = 7, sentPort = 3000, sentSource = 40, sentInterface = 101\<rparr>]"
proof -
  have rules: "forwardingTable demo_app = [hd demo_rules] @ (''Platoon'', snd (demo_rules ! 1)) # []"
    by (simp add: demo_app_def demo_rules_def)
  have "\<forall>(k, r) \<in> set [hd demo_rules]. \<not> contains_string (pktName demo_packet) k" by code_simp
  moreover have "contains_string (pktName demo_packet) ''Platoon''" by code_simp
  ultimately show ?thesis
    using first_matching_rule_decides [OF rules, of demo_packet "''dev''" 3000 demo_net "''net''" 7 101]
    by (simp add: demo_net_def demo_rules_def demo_packet_def)
qed

theorem forwarding_crosses_over_witness:
  "\<exists>acts. nicSocketDataArrived demo_net ''net'' demo_app demo_packet = Inr acts \<and> length (sendsOf acts) = 1 \<and>
     (\<forall>s \<in> set (sendsOf acts). sentInterface s = 101)"
proof -
  have r: "nicSocketDataArrived demo_net ''net'' demo_app demo_packet = Inr [EmitReceived, EmitInternal,
     SendTo \<lparr>sentName = ''MyPlatoon-3'', sentPayload = 5, sentTo = 7, sentPort = 3000, sentSource = 40, sentInterface = 101\<rparr>]"
    by code_simp
  have "interfaceByName demo_net ''eth0'' = Some 101" "interfaceByName demo_net ''wlan0'' = Some 102"
    by (simp_all add: demo_net_def)
  from forwarding_crosses_over [OF r this] show ?thesis using r by simp
qed

theorem unmatched_packet_is_an_error_witness:
  "nicSocketDataArrived demo_net ''net'' demo_app (demo_packet\<lparr>pktName := ''Ping''\<rparr>) = Inl AssertionFailed"
proof (rule unmatched_packet_is_an_error [of _ _ _ 101])
  show "\<forall>(k, r) \<in> set (forwardingTable demo_app). \<not> contains_string (pktName (demo_packet\<lparr>pktName := ''Ping''\<rparr>)) k"
    by code_simp
qed (simp_all add: demo_net_def demo_packet_def)

section \<open>Learning streams\<close>

lemma firstIndex_None_iff: "firstIndex P xs = None \<longleftrightarrow> (\<forall>x \<in> set xs. \<not> P x)"
  by (induction xs) auto

lemma firstIndex_SomeD: "firstIndex P xs = Some i \<Longrightarrow> i < length xs \<and> P (xs ! i) \<and> (\<forall>j < i. \<not> P (xs ! j))"
proof (induction xs arbitrary: i)
  case Nil
  then show ?case by simp
next
  case (Cons x xs)
  then show ?case by (cases i) (auto simp: nth_Cons split: if_splits nat.splits)
qed

lemma firstIndex_snoc: "firstIndex P xs = None \<Longrightarrow> P x \<Longrightarrow> firstIndex P (xs @ [x]) = Some (length xs)"
  by (induction xs) (auto split: if_splits)

lemma getCreationTimeOffset_bounds: "0 \<le> c \<Longrightarrow> 0 \<le> getCreationTimeOffset c \<and> getCreationTimeOffset c < cycleTime"
proof -
  assume "0 \<le> c"
  then have "0 \<le> simtime_trunc (simtime_us 1) c" by (simp add: simtime_trunc_mult simtime_us_def)
  then show ?thesis
    using cycleTime_pos pos_mod_bound [OF cycleTime_pos] pos_mod_sign [OF cycleTime_pos]
    by (simp add: getCreationTimeOffset_def crem_nonneg)
qed

lemma setStartTime_fields [simp]:
  "packetInterval (setStartTime s) = packetInterval s" "PCP (setStartTime s) = PCP s"
  "sourceModule (setStartTime s) = sourceModule s" "externalSourceModule (setStartTime s) = externalSourceModule s"
  "destinationModule (setStartTime s) = destinationModule s" "numberPackets (setStartTime s) = numberPackets s"
  "originalPacketSize (setStartTime s) = originalPacketSize s" "dataRate (setStartTime s) = dataRate s"
  "packetSize (setStartTime s) = packetSize s" "wf_stream (setStartTime s) = wf_stream s"
  by (simp_all add: setStartTime_def wf_stream_def)

lemma pushTime_fields [simp]:
  "packetInterval (pushTime off s t) = packetInterval s" "PCP (pushTime off s t) = PCP s"
  "sourceModule (pushTime off s t) = sourceModule s" "externalSourceModule (pushTime off s t) = externalSourceModule s"
  "destinationModule (pushTime off s t) = destinationModule s" "numberPackets (pushTime off s t) = Suc (numberPackets s)"
  "originalPacketSize (pushTime off s t) = originalPacketSize s" "dataRate (pushTime off s t) = dataRate s"
  "packetSize (pushTime off s t) = packetSize s"
  by (simp_all add: pushTime_def Let_def)

lemma copyStream_fields [simp]:
  "packetInterval (copyStream s) = packetInterval s" "PCP (copyStream s) = PCP s"
  "sourceModule (copyStream s) = sourceModule s" "externalSourceModule (copyStream s) = externalSourceModule s"
  "destinationModule (copyStream s) = destinationModule s" "numberPackets (copyStream s) = 0"
  "originalPacketSize (copyStream s) = originalPacketSize s" "dataRate (copyStream s) = dataRate s"
  "packetSize (copyStream s) = packetSize s" "wf_stream (copyStream s) = wf_stream s"
  by (simp_all add: copyStream_def wf_stream_def)

lemma getNewSlotSize_fields:
  "getNewSlotSize tenth s = (s', bits) \<Longrightarrow>
     packetInterval s' = packetInterval s \<and> PCP s' = PCP s \<and> sourceModule s' = sourceModule s \<and>
     externalSourceModule s' = externalSourceModule s \<and> destinationModule s' = destinationModule s \<and>
     numberPackets s' = numberPackets s \<and> originalPacketSize s' = originalPacketSize s \<and> dataRate s' = dataRate s \<and>
     packetSize s' = packetSize s \<and> wf_stream s' = wf_stream s \<and> streamName s' = streamName s"
  by (auto simp: getNewSlotSize_def adjusteStartTime_def wf_stream_def Let_def split: if_splits)

lemma set_wf [simp]: "wf_stream (setPacketInterval s) = wf_stream s" "wf_stream (setPacketSize s b) = wf_stream s"
  by (simp_all add: setPacketInterval_def setPacketSize_def wf_stream_def)

lemma updateStream_iff:
  "updateStream creationOf tenth now s = Inr (s', bits) \<longleftrightarrow>
     (\<exists>off s1. offsetOf creationOf s = Inr off \<and> getNewSlotSize tenth (pushTime off s now) = (s1, bits) \<and>
        s' = setPacketInterval (setPacketSize s1 bits))"
  by (auto simp: updateStream_def rbind_Inr_iff case_prod_beta prod_eq_iff)

lemma updateStream_fields:
  assumes "updateStream creationOf tenth now s = Inr (s', bits)"
  shows "packetInterval s' = 100 \<and> PCP s' = PCP s \<and> sourceModule s' = sourceModule s \<and>
     externalSourceModule s' = externalSourceModule s \<and> destinationModule s' = destinationModule s \<and>
     numberPackets s' = Suc (numberPackets s) \<and> originalPacketSize s' = originalPacketSize s \<and> dataRate s' = dataRate s \<and>
     packetSize s' = bits"
proof -
  obtain off s1 where s1: "getNewSlotSize tenth (pushTime off s now) = (s1, bits)"
    and s': "s' = setPacketInterval (setPacketSize s1 bits)"
    using assms by (auto simp: updateStream_iff)
  show ?thesis
    using getNewSlotSize_fields [OF s1] s' by (simp add: setPacketInterval_def setPacketSize_def)
qed

lemma offsetOf_bounds:
  assumes "offsetOf creationOf s = Inr off" "\<And>m c. creationOf m = Some c \<Longrightarrow> 0 \<le> c"
  shows "0 \<le> off \<and> off < cycleTime"
  using assms getCreationTimeOffset_bounds by (auto simp: offsetOf_def lookup_iffs)

lemma updateStream_wf:
  assumes "updateStream creationOf tenth now s = Inr (s', bits)" "wf_stream s" "0 \<le> now"
    "\<And>m c. creationOf m = Some c \<Longrightarrow> 0 \<le> c"
  shows "wf_stream s'"
proof -
  obtain off s1 where off: "offsetOf creationOf s = Inr off"
    and s1: "getNewSlotSize tenth (pushTime off s now) = (s1, bits)"
    and s': "s' = setPacketInterval (setPacketSize s1 bits)"
    using assms(1) by (auto simp: updateStream_iff)
  have "wf_stream (pushTime off s now)"
    using offsetOf_bounds [OF off assms(4)] by (intro pushTime_wf [OF assms(2,3)]) simp_all
  then show ?thesis
    using getNewSlotSize_fields [OF s1] s' by simp
qed

lemma registerStream_fields:
  assumes "registerStream env place creationOf now p pcp d sender = Inr s"
  shows "PCP s = pcp \<and> externalSourceModule s = sender \<and> packetInterval s = 0 \<and> numberPackets s = 1 \<and>
    originalPacketSize s = pktBits p \<and> packetSize s = pktBits p \<and> dataRate s = 100 \<and>
    moduleByPath env (fullPath env (carModule place) @ ''.'' @ fullName env (nicModule place)) = Some (sourceModule s) \<and>
    moduleByPath env (fullPath env (carModule place) @ ''.'' @ d) = Some (destinationModule s) \<and>
    creationOf (sourceModule s) \<noteq> None"
proof -
  obtain made off where made: "makeStream env (newStreamLine env place p pcp d) (carModule place) sender = Inr made"
    and off: "offsetOf creationOf (copyStream made) = Inr off"
    and s: "s = setStartTime (pushTime off (copyStream made) now)"
    using assms by (auto simp: registerStream_def rbind_Inr_iff)
  have "PCP made = pcp \<and> externalSourceModule made = sender \<and> packetInterval made = 0 \<and>
    originalPacketSize made = pktBits p \<and> packetSize made = pktBits p \<and> dataRate made = 100 \<and>
    moduleByPath env (fullPath env (carModule place) @ ''.'' @ fullName env (nicModule place)) = Some (sourceModule made) \<and>
    moduleByPath env (fullPath env (carModule place) @ ''.'' @ d) = Some (destinationModule made)"
    using made by (auto simp: makeStream_def newStreamLine_def lookup_iffs ensure_Inr_iff Let_def)
  moreover have "creationOf (sourceModule made) \<noteq> None" using off by (auto simp: offsetOf_def lookup_iffs)
  ultimately show ?thesis using s by simp
qed

lemma registerStream_wf:
  assumes "registerStream env place creationOf now p pcp d sender = Inr s" "0 \<le> now"
    "\<And>m c. creationOf m = Some c \<Longrightarrow> 0 \<le> c"
  shows "wf_stream s"
proof -
  obtain made off where made: "makeStream env (newStreamLine env place p pcp d) (carModule place) sender = Inr made"
    and off: "offsetOf creationOf (copyStream made) = Inr off"
    and s: "s = setStartTime (pushTime off (copyStream made) now)"
    using assms by (auto simp: registerStream_def rbind_Inr_iff)
  show ?thesis
    using pushTime_wf [OF _ assms(2), of "copyStream made" off] offsetOf_bounds [OF off assms(3)] makeStream_wf [OF made] s
    by simp
qed

text \<open>What a packet does to the list of streams.\<close>

lemma adaptSchedule_cases:
  assumes "adaptSchedule net env place creationOf tenth rules now streams p = Inr (streams', acts)"
  obtains (ignored) "streams' = streams" "acts = []"
  | (registered) pcp d s where "classify rules (pktName p) = Inr (pcp, d)"
      "firstIndex (sameStream env place pcp d (hostOfAddr net (pktSource p))) streams = None"
      "registerStream env place creationOf now p pcp d (hostOfAddr net (pktSource p)) = Inr s"
      "streams' = streams @ [s]" "acts = []"
  | (updated) pcp d i s bits where "classify rules (pktName p) = Inr (pcp, d)"
      "firstIndex (sameStream env place pcp d (hostOfAddr net (pktSource p))) streams = Some i"
      "updateStream creationOf tenth now (streams ! i) = Inr (s, bits)"
      "streams' = streams[i := s]" "acts = [EmitSlotSize (''slot_size_'' @ streamName s) bits]"
  using assms
  by (auto simp: adaptSchedule_def lookup_iffs Let_def split: if_splits option.splits prod.splits)
type_synonym stream_key = "int \<times> module \<times> module option \<times> string"

definition streamKey :: "module_env \<Rightarrow> tsn_stream \<Rightarrow> stream_key" where
  "streamKey env s = (PCP s, sourceModule s, externalSourceModule s, fullName env (destinationModule s))"

text \<open>The keys of the streams that come from outside the vehicle.\<close>

definition learnedKeys :: "module_env \<Rightarrow> tsn_stream list \<Rightarrow> stream_key list" where
  "learnedKeys env streams = filter (\<lambda>(pcp, src, ext, d). ext \<noteq> None) (map (streamKey env) streams)"

definition afterPackets ::
    "net_env \<Rightarrow> module_env \<Rightarrow> app_place \<Rightarrow> (module \<Rightarrow> simtime option) \<Rightarrow> (simtime \<Rightarrow> simtime) \<Rightarrow> fwd_table \<Rightarrow>
     tsn_stream list \<Rightarrow> (simtime \<times> udp_packet) list \<Rightarrow> tsn_stream list result" where
  "afterPackets net env place creationOf tenth rules =
     foldM (\<lambda>ss (now, p). rbind (adaptSchedule net env place creationOf tenth rules now ss p) (\<lambda>(ss', acts). Inr ss'))"

text \<open>
  The nic is found below the car by its name, and so is the module of each of the destinations \<open>ds\<close>: they
  are direct submodules of the car, whose full name is the name they are looked up by. Other modules, such
  as those inside a submodule, may be found by longer paths.
\<close>

definition env_ok :: "module_env \<Rightarrow> app_place \<Rightarrow> string set \<Rightarrow> bool" where
  "env_ok env place ds \<longleftrightarrow>
     moduleByPath env (fullPath env (carModule place) @ ''.'' @ fullName env (nicModule place)) = Some (nicModule place) \<and>
     (\<forall>d \<in> ds. \<forall>m. moduleByPath env (fullPath env (carModule place) @ ''.'' @ d) = Some m \<longrightarrow> fullName env m = d)"

definition streams_ok :: "module_env \<Rightarrow> tsn_stream list \<Rightarrow> bool" where
  "streams_ok env streams \<longleftrightarrow> list_all wf_stream streams \<and> distinct (learnedKeys env streams)"

lemma sameStream_key:
  "sameStream env place pcp d sender s \<longleftrightarrow> sender \<noteq> None \<and> streamKey env s = (pcp, nicModule place, sender, d)"
  by (auto simp: sameStream_def streamKey_def)

lemma learnedKeys_update:
  assumes "streamKey env s = streamKey env (streams ! i)" "i < length streams"
  shows "learnedKeys env (streams[i := s]) = learnedKeys env streams"
proof -
  have "map (streamKey env) (streams[i := s]) = (map (streamKey env) streams)[i := map (streamKey env) streams ! i]"
    using assms by (simp add: map_update)
  then show ?thesis by (simp add: learnedKeys_def)
qed

lemma list_all_update: "list_all P xs \<Longrightarrow> P x \<Longrightarrow> list_all P (xs[i := x])"
  by (auto simp: list_all_iff dest: subsetD [OF set_update_subset_insert])

lemma adaptSchedule_streams_ok:
  assumes step: "adaptSchedule net env place creationOf tenth rules now streams p = Inr (streams', acts)"
    and ok: "streams_ok env streams" and env: "env_ok env place ds" and now: "0 \<le> now"
    and ds: "\<And>pcp d. classify rules (pktName p) = Inr (pcp, d) \<Longrightarrow> d \<in> ds"
    and c: "\<And>m c. creationOf m = Some c \<Longrightarrow> 0 \<le> c"
  shows "streams_ok env streams'"
  using step
proof (cases rule: adaptSchedule_cases)
  case ignored
  then show ?thesis using ok by simp
next
  case (registered pcp d s)
  let ?sender = "hostOfAddr net (pktSource p)"
  note f = registerStream_fields [OF registered(3)]
  have key: "streamKey env s = (pcp, nicModule place, ?sender, d)"
    using f env ds [OF registered(1)] by (auto simp: env_ok_def streamKey_def)
  have "?sender \<noteq> None \<longrightarrow> (pcp, nicModule place, ?sender, d) \<notin> set (learnedKeys env streams)"
    using registered(2) by (auto simp: firstIndex_None_iff sameStream_key learnedKeys_def)
  then have "distinct (learnedKeys env (streams @ [s]))"
    using ok key by (auto simp: streams_ok_def learnedKeys_def)
  then show ?thesis
    using registerStream_wf [OF registered(3) now c] ok registered(4) by (simp add: streams_ok_def)
next
  case (updated pcp d i s bits)
  note i = firstIndex_SomeD [OF updated(2)]
  have "streamKey env s = streamKey env (streams ! i)"
    using updateStream_fields [OF updated(3)] by (simp add: streamKey_def)
  then have "learnedKeys env (streams[i := s]) = learnedKeys env streams" using i by (blast intro: learnedKeys_update)
  moreover have "wf_stream (streams ! i)" using ok i by (auto simp: streams_ok_def list_all_iff)
  from updateStream_wf [OF updated(3) this now c] have "wf_stream s" .
  ultimately show ?thesis using ok updated(4) by (simp add: streams_ok_def list_all_update)
qed

text \<open>
  Whatever packets arrive, in whatever order, each stream keeps ten phases within the cycle,
  and there is at most one stream for each sending vehicle, class of service and destination. The
  destinations of the packets are direct submodules of the car.
\<close>

theorem learned_streams_invariant:
  assumes "afterPackets net env place creationOf tenth rules streams arrivals = Inr streams'"
    "streams_ok env streams" "env_ok env place ds" "\<forall>(now, p) \<in> set arrivals. 0 \<le> now"
    "\<And>now p pcp d. (now, p) \<in> set arrivals \<Longrightarrow> classify rules (pktName p) = Inr (pcp, d) \<Longrightarrow> d \<in> ds"
    "\<And>m c. creationOf m = Some c \<Longrightarrow> 0 \<le> c"
  shows "streams_ok env streams'"
proof (rule foldM_invariant [where P = "streams_ok env"])
  show "foldM (\<lambda>ss (now, p). rbind (adaptSchedule net env place creationOf tenth rules now ss p) (\<lambda>(ss', acts). Inr ss'))
      streams arrivals = Inr streams'"
    using assms(1) by (simp add: afterPackets_def)
  show "streams_ok env t" if a: "streams_ok env s" and b: "x \<in> set arrivals"
    and c: "(case x of (now, p) \<Rightarrow> rbind (adaptSchedule net env place creationOf tenth rules now s p) (\<lambda>(ss', acts). Inr ss')) = Inr t"
    for s x t
  proof -
    obtain now p where x: "x = (now, p)" by (cases x)
    obtain acts where "adaptSchedule net env place creationOf tenth rules now s p = Inr (t, acts)"
      using c x by (auto simp: rbind_Inr_iff)
    moreover have "0 \<le> now" using assms(4) b x by auto
    ultimately show ?thesis
      by (rule adaptSchedule_streams_ok [OF _ a assms(3)]) (use assms(5) b x in blast, rule assms(6))
  qed
qed (rule assms(2))

text \<open>
  C24. The first packet of an unknown stream registers it, but the stream is not scheduled yet;
  the second packet puts it into the schedule with the period of the cycle and a new slot size. The
  sender is a known host, the nic a direct submodule of the car, and so is the destination of the
  packet; for a destination deeper in the car see \<open>unmatchable_packets_accumulate_streams\<close>.
\<close>

theorem second_packet_schedules_stream:
  assumes "interfaceByName net ''eth0'' = Some i" "interfaceByName net ''wlan0'' = Some e" "i \<noteq> e"
    "pktInterface p = e" "pktInterface q = e" "pktName q = pktName p" "pktSource q = pktSource p"
    "hostOfAddr net (pktSource p) = Some h" "env_ok env place {d}" "classify rules (pktName p) = Inr (pcp, d)"
    "firstIndex (sameStream env place pcp d (Some h)) streams = None"
    "adaptSchedule net env place creationOf tenth rules now streams p = Inr (streams1, acts1)"
  shows "\<exists>s s' bits. streams1 = streams @ [s] \<and> packetInterval s = 0 \<and> acts1 = [] \<and>
     adaptSchedule net env place creationOf tenth rules later streams1 q =
       Inr (streams @ [s'], [EmitSlotSize (''slot_size_'' @ streamName s') bits]) \<and>
     packetInterval s' = 100 \<and> packetSize s' = bits \<and> numberPackets s' = 2 \<and> originalPacketSize s' = pktBits p"
proof -
  have ie: "internalExternal net = Inr (i, e)" using assms(1,2) by (simp add: internalExternal_Inr_iff)
  obtain s where s: "registerStream env place creationOf now p pcp d (Some h) = Inr s"
    and streams1: "streams1 = streams @ [s]" and acts1: "acts1 = []"
    using assms(3,4,8,10-12) by (auto simp: adaptSchedule_def ie rbind_Inr_iff)
  note f = registerStream_fields [OF s]
  have "sameStream env place pcp d (Some h) s"
    using f assms(9) by (auto simp: sameStream_def env_ok_def)
  then have found: "firstIndex (sameStream env place pcp d (Some h)) streams1 = Some (length streams)"
    using firstIndex_snoc [OF assms(11)] streams1 by simp
  obtain off where off: "offsetOf creationOf s = Inr off"
    using f by (auto simp: offsetOf_def assert_found_def)
  obtain s1 bits where "getNewSlotSize tenth (pushTime off s later) = (s1, bits)" by fastforce
  then have u: "updateStream creationOf tenth later s = Inr (setPacketInterval (setPacketSize s1 bits), bits)"
    using off by (simp add: updateStream_iff)
  have "adaptSchedule net env place creationOf tenth rules later streams1 q =
      Inr (streams @ [setPacketInterval (setPacketSize s1 bits)],
        [EmitSlotSize (''slot_size_'' @ streamName (setPacketInterval (setPacketSize s1 bits))) bits])"
    using assms(3,5-8,10) found u streams1 by (simp add: adaptSchedule_def ie nth_append)
  then show ?thesis using updateStream_fields [OF u] f streams1 acts1 by auto
qed

definition unmatchable :: "module_env \<Rightarrow> string \<Rightarrow> tsn_stream \<Rightarrow> bool" where
  "unmatchable env d s \<longleftrightarrow> externalSourceModule s = None \<or> fullName env (destinationModule s) \<noteq> d"

lemma unmatchable_registers:
  assumes "adaptSchedule net env place creationOf tenth rules now streams p = Inr (streams', acts)"
    "internalExternal net = Inr (i, e)" "i \<noteq> e" "pktInterface p = e" "classify rules (pktName p) = Inr (pcp, d)"
    "hostOfAddr net (pktSource p) = None \<or>
        (\<forall>m. moduleByPath env (fullPath env (carModule place) @ ''.'' @ d) = Some m \<longrightarrow> fullName env m \<noteq> d)"
    "\<forall>s \<in> set streams. unmatchable env d s"
  shows "\<exists>s. streams' = streams @ [s] \<and> packetInterval s = 0 \<and> unmatchable env d s"
proof -
  have "firstIndex (sameStream env place pcp d (hostOfAddr net (pktSource p))) streams = None"
    using assms(7) by (auto simp: firstIndex_None_iff sameStream_def unmatchable_def)
  then obtain s where s: "registerStream env place creationOf now p pcp d (hostOfAddr net (pktSource p)) = Inr s"
    and "streams' = streams @ [s]"
    using assms(1-5) by (auto simp: adaptSchedule_def rbind_Inr_iff)
  then show ?thesis
    using registerStream_fields [OF s] assms(6) by (auto simp: unmatchable_def)
qed

text \<open>
  A packet whose sender is no known host, or whose destination does not bear the name the rule
  gives it, never matches a stream: every such packet registers another stream, and none of them
  is ever scheduled.
\<close>

theorem unmatchable_packets_accumulate_streams:
  assumes "interfaceByName net ''eth0'' = Some i" "interfaceByName net ''wlan0'' = Some e" "i \<noteq> e"
    "\<forall>(now, p) \<in> set arrivals. pktInterface p = e \<and> classify rules (pktName p) = Inr (pcp, d) \<and>
       (hostOfAddr net (pktSource p) = None \<or>
        (\<forall>m. moduleByPath env (fullPath env (carModule place) @ ''.'' @ d) = Some m \<longrightarrow> fullName env m \<noteq> d))"
    "\<forall>s \<in> set streams. unmatchable env d s"
    "afterPackets net env place creationOf tenth rules streams arrivals = Inr streams'"
  shows "\<exists>new. streams' = streams @ new \<and> length new = length arrivals \<and> (\<forall>s \<in> set new. packetInterval s = 0)"
proof -
  have ie: "internalExternal net = Inr (i, e)" using assms(1,2) by (simp add: internalExternal_Inr_iff)
  have "\<exists>new. streams' = streams @ new \<and> length new = length arrivals \<and>
      (\<forall>s \<in> set new. packetInterval s = 0 \<and> unmatchable env d s)"
    using assms(4,5,6)
  proof (induction arrivals arbitrary: streams)
    case Nil
    then show ?case by (simp add: afterPackets_def)
  next
    case (Cons x arrivals)
    obtain now p where x: "x = (now, p)" by (cases x)
    obtain ss acts where step: "adaptSchedule net env place creationOf tenth rules now streams p = Inr (ss, acts)"
      and rest: "afterPackets net env place creationOf tenth rules ss arrivals = Inr streams'"
      using Cons.prems(3) x by (auto simp: afterPackets_def rbind_Inr_iff)
    obtain s where s: "ss = streams @ [s]" "packetInterval s = 0" "unmatchable env d s"
      using unmatchable_registers [OF step ie assms(3)] Cons.prems(1,2) x by auto
    have "\<forall>s \<in> set ss. unmatchable env d s" using s Cons.prems(2) by auto
    then obtain new where "streams' = ss @ new" "length new = length arrivals"
      "\<forall>s \<in> set new. packetInterval s = 0 \<and> unmatchable env d s"
      using Cons.IH [OF _ _ rest] Cons.prems(1) by auto
    then show ?case using s by (intro exI [of _ "s # new"]) simp
  qed
  then show ?thesis by blast
qed
section \<open>Concrete vehicles\<close>

definition car_env :: module_env where
  "car_env = demo_env\<lparr>moduleByPath := map_of [(''net.gw'', 1), (''net.dev'', 2), (''net.gw.app[0]'', 3)]\<rparr>"

definition car_place :: app_place where
  "car_place = \<lparr>thisModule = 3, nicModule = 1, carModule = 0, carIndex = 0\<rparr>"

definition car_creation :: "module \<Rightarrow> simtime option" where
  "car_creation m = (if m = 1 then Some 0 else None)"

text \<open>The full name of the application inside the nic is not the path it is found by.\<close>

lemma car_env_ok: "env_ok car_env car_place {''dev''}"
  by (auto simp: env_ok_def car_env_def car_place_def demo_env_def split: if_splits)

lemma car_register: "is_ok (registerStream car_env car_place car_creation t demo_packet 4 ''dev'' h)"
  by (simp add: registerStream_def makeStream_def newStreamLine_def car_env_def car_place_def car_creation_def
      demo_env_def demo_packet_def get_key_def assert_found_def trunc_int_def applicationOf_def stoi_zero Let_def
      offsetOf_def copyStream_def)

lemma demo_classify: "classify demo_rules ''MyPlatoon-3'' = Inr (4, ''dev'')"
  by code_simp

lemma demo_ie: "internalExternal demo_net = Inr (101, 102)"
  by (simp add: internalExternal_def demo_net_def assert_found_def)

lemma car_first_packet:
  "\<exists>s. adaptSchedule demo_net car_env car_place car_creation tenth demo_rules t [] demo_packet = Inr ([s], [])"
proof -
  obtain s where "registerStream car_env car_place car_creation t demo_packet 4 ''dev'' (hostOfAddr demo_net (pktSource demo_packet)) = Inr s"
    using is_ok_ex [OF car_register] by blast
  then have "adaptSchedule demo_net car_env car_place car_creation tenth demo_rules t [] demo_packet = Inr ([s], [])"
    using demo_classify by (simp add: adaptSchedule_def demo_ie demo_packet_def)
  then show ?thesis ..
qed

theorem second_packet_schedules_stream_witness:
  "\<exists>s s' bits. adaptSchedule demo_net car_env car_place car_creation (\<lambda>x. x div 10) demo_rules (simtime_ms 40) [] demo_packet = Inr ([s], []) \<and>
     adaptSchedule demo_net car_env car_place car_creation (\<lambda>x. x div 10) demo_rules (simtime_ms 141) [s] demo_packet
       = Inr ([s'], [EmitSlotSize (''slot_size_'' @ streamName s') bits]) \<and> packetInterval s' = 100"
proof -
  obtain s where s: "adaptSchedule demo_net car_env car_place car_creation (\<lambda>x. x div 10) demo_rules (simtime_ms 40) [] demo_packet = Inr ([s], [])"
    using car_first_packet by blast
  have "hostOfAddr demo_net (pktSource demo_packet) = Some 50" by (simp add: demo_net_def demo_packet_def)
  moreover have "classify demo_rules (pktName demo_packet) = Inr (4, ''dev'')"
    using demo_classify by (simp add: demo_packet_def)
  ultimately show ?thesis
    using second_packet_schedules_stream [OF _ _ _ _ _ _ _ _ car_env_ok _ _ s, of 101 102 demo_packet 50 4 "simtime_ms 141"] s
    by (auto simp: demo_net_def demo_packet_def)
qed

theorem learned_streams_invariant_witness:
  "\<exists>streams. afterPackets demo_net car_env car_place car_creation (\<lambda>x. x div 10) demo_rules [] [(simtime_ms 40, demo_packet)] = Inr streams \<and>
     length streams = 1 \<and> streams_ok car_env streams"
proof -
  obtain s where s: "adaptSchedule demo_net car_env car_place car_creation (\<lambda>x. x div 10) demo_rules (simtime_ms 40) [] demo_packet = Inr ([s], [])"
    using car_first_packet by blast
  then have run: "afterPackets demo_net car_env car_place car_creation (\<lambda>x. x div 10) demo_rules [] [(simtime_ms 40, demo_packet)] = Inr [s]"
    by (simp add: afterPackets_def)
  have "streams_ok car_env [s]"
    by (rule learned_streams_invariant [OF run _ car_env_ok])
       (auto simp: streams_ok_def learnedKeys_def simtime_ms_def car_creation_def demo_packet_def demo_classify split: if_splits)
  then show ?thesis using run by auto
qed

theorem unmatchable_packets_accumulate_streams_witness:
  "\<exists>s. afterPackets (demo_net\<lparr>hostOfAddr := \<lambda>_. None\<rparr>) car_env car_place car_creation (\<lambda>x. x div 10) demo_rules []
        [(simtime_ms 40, demo_packet)] = Inr [s] \<and> packetInterval s = 0"
proof -
  let ?net = "demo_net\<lparr>hostOfAddr := \<lambda>_. None\<rparr>"
  obtain s where "registerStream car_env car_place car_creation (simtime_ms 40) demo_packet 4 ''dev'' None = Inr s"
    using is_ok_ex [OF car_register] by blast
  moreover have "internalExternal ?net = Inr (101, 102)"
    by (simp add: internalExternal_def demo_net_def assert_found_def)
  ultimately have run: "afterPackets ?net car_env car_place car_creation (\<lambda>x. x div 10) demo_rules [] [(simtime_ms 40, demo_packet)] = Inr [s]"
    using demo_classify by (simp add: afterPackets_def adaptSchedule_def demo_packet_def)
  have c: "classify demo_rules (pktName demo_packet) = Inr (4, ''dev'')"
    using demo_classify by (simp add: demo_packet_def)
  from unmatchable_packets_accumulate_streams [OF _ _ _ _ _ run, of 101 102 4 "''dev''"] c
  have "\<exists>new. [s] = [] @ new \<and> length new = 1 \<and> (\<forall>s \<in> set new. packetInterval s = 0)"
    by (auto simp: demo_net_def demo_packet_def)
  then show ?thesis using run by auto
qed

section \<open>Updating the scheduler\<close>

fun joinWith :: "string \<Rightarrow> string list \<Rightarrow> string" where
  "joinWith sep [] = []"
| "joinWith sep [x] = x"
| "joinWith sep (x # y # ys) = x @ sep @ joinWith sep (y # ys)"

lemma printStreams_join:
  "printStreams env first streams =
     rbind (mapM (printStream env) (filter (\<lambda>s. packetInterval s \<noteq> 0) streams))
       (\<lambda>strs. Inr ((if first \<or> strs = [] then [] else '', '') @ joinWith '', '' strs))"
proof (induction streams arbitrary: first)
  case Nil
  then show ?case by simp
next
  case (Cons s ss)
  show ?case
  proof (cases "packetInterval s = 0")
    case True
    then show ?thesis using Cons by simp
  next
    case False
    have "joinWith '', '' (x # xs) = x @ (if xs = [] then [] else '', '') @ joinWith '', '' xs" for x xs
      by (cases xs) simp_all
    then show ?thesis using False Cons [of False]
      by (cases "printStream env s"; cases "mapM (printStream env) (filter (\<lambda>s. packetInterval s \<noteq> 0) ss)") simp_all
  qed
qed

text \<open>
  The configuration written for the scheduler is the list of exactly the streams with a
  period, in the order in which they were learned, separated by commas.
\<close>

theorem configuration_lists_periodic_streams:
  "getSchedulerConfiguration env streams =
     rbind (mapM (printStream env) (filter (\<lambda>s. packetInterval s \<noteq> 0) streams))
       (\<lambda>strs. Inr (''['' @ joinWith '', '' strs @ '']''))"
  by (cases "mapM (printStream env) (filter (\<lambda>s. packetInterval s \<noteq> 0) streams)")
     (simp_all add: getSchedulerConfiguration_def printStreams_join)

datatype dyn_event = UpdateDue | PacketIn simtime udp_packet

definition dynStep ::
    "net_env \<Rightarrow> module_env \<Rightarrow> app_place \<Rightarrow> (module \<Rightarrow> simtime option) \<Rightarrow> (simtime \<Rightarrow> simtime) \<Rightarrow> fwd_app \<Rightarrow>
     dyn_app \<Rightarrow> dyn_event \<Rightarrow> dyn_app result" where
  "dynStep net env place creationOf tenth app dyn ev =
     (case ev of UpdateDue \<Rightarrow> deliverUpdate env dyn
      | PacketIn now p \<Rightarrow> rbind (dynSocketDataArrived net env place creationOf tenth app now dyn p) (\<lambda>(d, acts). Inr d))"

lemma dynStep_timers:
  assumes "dynStep net env place creationOf tenth app dyn ev = Inr dyn'" "updateTimers dyn = [t]"
  shows "creationTime dyn' = creationTime dyn \<and>
    updateTimers dyn' = [if ev = UpdateDue then t + simtime_ms 100 else t]"
proof (cases ev)
  case UpdateDue
  have "contains_string ''updateSchedule'' ''updateSchedule''" by code_simp
  then show ?thesis using UpdateDue assms
    by (auto simp: dynStep_def deliverUpdate_def dynHandleMessageWhenUp_def rbind_Inr_iff)
next
  case (PacketIn now p)
  then show ?thesis using assms
    by (auto simp: dynStep_def dynSocketDataArrived_def rbind_Inr_iff split: if_splits)
qed

text \<open>
  The scheduler is updated at fixed times: whatever packets arrive in between, there is one
  pending update, and the k-th is due \<open>5 + index\<close> seconds and k periods of 100 ms after the
  application was created, so always at the same phase of the cycle.
\<close>

theorem updates_are_periodic:
  assumes "dynInitialize env place configuration now INITSTAGE_LAST app0 = Inr dyn0" "updateTimers app0 = []"
    "foldM (dynStep net env place creationOf tenth app) dyn0 events = Inr dyn"
  shows "creationTime dyn = now \<and>
    updateTimers dyn = [now + simtime_s (carIndex place + 5) + simtime_ms (100 * (1 + int (count_list events UpdateDue)))] \<and>
    (hd (updateTimers dyn) - now) mod cycleTime = 0"
proof -
  let ?T = "\<lambda>k. now + simtime_s (carIndex place + 5) + simtime_ms (100 * (1 + k))"
  have start: "creationTime dyn0 = now" "updateTimers dyn0 = [?T 0]"
    using assms(1,2) by (auto simp: dynInitialize_def rbind_Inr_iff)
  have "creationTime d = now \<and> updateTimers d = [?T (k + int (count_list evs UpdateDue))]"
    if "foldM (dynStep net env place creationOf tenth app) d0 evs = Inr d" "creationTime d0 = now" "updateTimers d0 = [?T k]"
    for evs d0 d k
    using that
  proof (induction evs arbitrary: d0 k)
    case Nil
    then show ?case by simp
  next
    case (Cons ev evs)
    obtain d1 where d1: "dynStep net env place creationOf tenth app d0 ev = Inr d1"
      and rest: "foldM (dynStep net env place creationOf tenth app) d1 evs = Inr d"
      using Cons.prems(1) by (auto simp: rbind_Inr_iff)
    have "updateTimers d1 = [?T (k + (if ev = UpdateDue then 1 else 0))]" "creationTime d1 = now"
      using dynStep_timers [OF d1 Cons.prems(3)] Cons.prems(2) by (auto simp: simtime_ms_def algebra_simps)
    from Cons.IH [OF rest this(2,1)] show ?case by (simp add: add.commute add.left_commute split: if_splits)
  qed
  from this [OF assms(3) start] have t: "creationTime dyn = now"
    "updateTimers dyn = [?T (int (count_list events UpdateDue))]" by simp_all
  moreover have "(?T k - now) mod cycleTime = 0" for k
  proof -
    have "?T k - now = (10 * (carIndex place + 5) + (1 + k)) * cycleTime"
      by (simp add: simtime_s_def simtime_ms_def cycleTime_def algebra_simps)
    then show ?thesis by simp
  qed
  ultimately show ?thesis by simp
qed

lemma ns_lower: "q * 1000 \<le> t \<Longrightarrow> q * 1000 \<le> t div simtime_ns 1 * simtime_ns 1" for q t :: int
proof -
  assume "q * 1000 \<le> t"
  then have "q * 1000 div 1000 \<le> t div 1000" by (rule zdiv_mono1) simp
  then show ?thesis by (simp add: simtime_ns_def)
qed

lemma ns_upper: "t div simtime_ns 1 * simtime_ns 1 \<le> t" for t :: int
  using minus_mod_eq_div_mult [of t "simtime_ns 1"] pos_mod_sign [of "simtime_ns 1" t] by (simp add: simtime_ns_def)

text \<open>
  The phase that is recorded for a packet is the time since the last update of the scheduler
  (which restarts the gate schedule), when the application was created on a whole microsecond.
\<close>

theorem phase_is_time_since_update:
  assumes "0 \<le> created" "created mod simtime_us 1 = 0" "0 \<le> k" "created + k * cycleTime \<le> t" "t < created + (k + 1) * cycleTime"
  shows "hd (lastTimePacketArrived (pushTime (getCreationTimeOffset created) s t)) =
    simtime_trunc (simtime_ns 1) t - (created + k * cycleTime)"
proof -
  let ?T = "created + k * cycleTime"
  have pos: "0 \<le> k * cycleTime" using assms(3) cycleTime_pos by simp
  have off: "getCreationTimeOffset created = created mod cycleTime"
    using assms(1,2) cycleTime_pos by (simp add: getCreationTimeOffset_def simtime_trunc_def crem_nonneg simtime_us_def)
  have tr: "simtime_trunc (simtime_ns 1) t = t div simtime_ns 1 * simtime_ns 1"
    using assms(1,4) pos by (intro simtime_trunc_mult) (simp_all add: simtime_ns_def)
  obtain c where "created = simtime_us 1 * c" using assms(2) by (auto simp: mod_eq_0_iff_dvd dvd_def)
  then have q: "?T = (c * 1000 + k * 100000000) * 1000" by (simp add: simtime_us_def cycleTime_def simtime_ms_def)
  have lo: "?T \<le> simtime_trunc (simtime_ns 1) t"
    using ns_lower [OF assms(4) [unfolded q]] unfolding tr q .
  have hi: "simtime_trunc (simtime_ns 1) t < ?T + cycleTime"
  proof -
    have "simtime_trunc (simtime_ns 1) t \<le> t" unfolding tr by (rule ns_upper)
    then show ?thesis using assms(5) by (simp add: algebra_simps)
  qed
  have "hd (lastTimePacketArrived (pushTime (getCreationTimeOffset created) s t))
      = (simtime_trunc (simtime_ns 1) t - created mod cycleTime) mod cycleTime"
    unfolding off using assms(1,4) pos cycleTime_pos by (intro pushTime_phase) simp_all
  also have "\<dots> = (simtime_trunc (simtime_ns 1) t - ?T) mod cycleTime"
    by (metis mod_diff_right_eq mod_mult_self3 add.commute)
  also have "\<dots> = simtime_trunc (simtime_ns 1) t - ?T" using lo hi by (intro mod_pos_pos_trivial) simp_all
  finally show ?thesis .
qed

theorem phase_is_time_since_update_witness:
  "hd (lastTimePacketArrived (pushTime (getCreationTimeOffset (simtime_us 70)) demo_stream (simtime_us 100090))) = simtime_us 20"
  using phase_is_time_since_update [of "simtime_us 70" 1 "simtime_us 100090" demo_stream]
  by (simp add: simtime_us_def cycleTime_def simtime_ms_def simtime_trunc_def simtime_ns_def crem_def)

theorem updates_are_periodic_witness:
  "\<exists>dyn. dynInitialize car_env car_place (Some []) 0 INITSTAGE_LAST
      \<lparr>tsnStreams = [], creationTime = 0, updateTimers = [], schedulerConfiguration = None\<rparr> = Inr dyn \<and>
    updateTimers dyn = [simtime_ms 5100] \<and> schedulerConfiguration dyn = None"
proof -
  let ?app0 = "\<lparr>tsnStreams = [], creationTime = 0, updateTimers = [], schedulerConfiguration = None\<rparr>"
  obtain dyn where dyn: "dynInitialize car_env car_place (Some []) 0 INITSTAGE_LAST ?app0 = Inr dyn"
    "schedulerConfiguration dyn = None"
    by (simp add: dynInitialize_def assert_found_def)
  have "foldM (dynStep demo_net car_env car_place car_creation id demo_app) dyn [] = Inr dyn" by simp
  from updates_are_periodic [OF dyn(1) _ this] dyn show ?thesis
    by (simp add: car_place_def simtime_s_def simtime_ms_def)
qed

end
