(* ===== verification/InetDrivers.thy ===== *)
theory InetDrivers
  imports ForwardingApps
begin

text \<open>
  The radio driver that carries platooning frames over INET
  (\<open>cooperative_tsn/plexe_driver/InetDriver.cc\<close>, \<open>PlexeInetUtils.cc\<close>) and the NED function
  that names the interfaces of a vehicle (\<open>nodes/nedHelperFunction.cc\<close>).
\<close>

section \<open>\<open>PlexeInetUtils\<close>\<close>

record radio_frame =
  frameId :: nat
  frameRecipient :: int

text \<open>The contents of a packet, as \<open>peekAll\<close> returns them.\<close>

datatype chunk =
    PacketChunk radio_frame simtime    \<comment> \<open>a \<open>cPacketChunk\<close> with its \<open>CreationTimeTag\<close>\<close>
  | OtherChunk nat
  | SequenceChunk "chunk list"

definition encapsulate :: "simtime \<Rightarrow> radio_frame \<Rightarrow> chunk" where
  "encapsulate now frame = PacketChunk frame now"

text \<open>Of a sequence the last but one chunk is taken; \<open>None\<close> is the null pointer.\<close>

definition decapsulate :: "chunk \<Rightarrow> (radio_frame \<times> simtime) option result" where
  "decapsulate c =
     (case c of
        PacketChunk f t \<Rightarrow> Inr (Some (f, t))
      | SequenceChunk cs \<Rightarrow>
          if length cs < 2 then Inl OutOfRange
          else Inr (case cs ! (length cs - 2) of PacketChunk f t \<Rightarrow> Some (f, t) | _ \<Rightarrow> None)
      | OtherChunk _ \<Rightarrow> Inr None)"

section \<open>\<open>InetDriver\<close>\<close>

record inet_driver =
  destinationPort :: int
  driverBoundPort :: "int option"
  driverGroup :: "l3addr option"                      \<comment> \<open>\<open>multicastAddress\<close>\<close>
  driverOutput :: "int option"
  driverMemberships :: "(l3addr \<times> int option) list"

datatype driver_action =
    SendContainer l3addr int chunk
  | EmitDelay string simtime
  | SendUp radio_frame

definition driverInitialize :: "int \<Rightarrow> init_stage \<Rightarrow> inet_driver \<Rightarrow> inet_driver" where
  "driverInitialize port stage d =
     (if stage \<noteq> INITSTAGE_APPLICATION_LAYER then d
      else d\<lparr>destinationPort := port, driverBoundPort := Some port\<rparr>)"

text \<open>
  Leaving a group concerns all interfaces. The interface must be called \<open>cellular\<close>, whatever the
  message says.
\<close>

definition setMulticastAddress :: "net_env \<Rightarrow> string \<Rightarrow> inet_driver \<Rightarrow> inet_driver result" where
  "setMulticastAddress net address d =
     (let d = (case driverGroup d of None \<Rightarrow> d
               | Some g \<Rightarrow> d\<lparr>driverMemberships := filter (\<lambda>(m, i). m \<noteq> g) (driverMemberships d)\<rparr>) in
      rbind (resolveAddr net address) (\<lambda>g.
        case interfaceByName net ''cellular'' of
          None \<Rightarrow> Inl (RuntimeError ''Wrong multicastInterface setting: no interface named wlan'')
        | Some i \<Rightarrow> Inr (d\<lparr>driverGroup := Some g, driverOutput := Some i,
                           driverMemberships := driverMemberships d @ [(g, Some i)]\<rparr>)))"

text \<open>Every unicast frame goes to the device of the leading vehicle.\<close>

definition driverSend :: "net_env \<Rightarrow> inet_driver \<Rightarrow> simtime \<Rightarrow> radio_frame \<Rightarrow> driver_action list result" where
  "driverSend net d now frame =
     rbind (resolveAddr net (if frameRecipient frame = - 1 then ''224.0.0.1'' else ''Platooning.node[0].platoonDevice'')) (\<lambda>dest.
       Inr [SendContainer dest (destinationPort d) (encapsulate now frame)])"

definition driverReceive :: "net_env \<Rightarrow> module_env \<Rightarrow> simtime \<Rightarrow> l3addr \<Rightarrow> chunk \<Rightarrow> driver_action list result" where
  "driverReceive net env now sender c =
     rbind (decapsulate c) (\<lambda>found.
       case found of None \<Rightarrow> Inl NullPointer
       | Some (frame, created) \<Rightarrow>
           (case hostOfAddr net sender of None \<Rightarrow> Inl NullPointer
            | Some host \<Rightarrow>
                Inr [EmitDelay (''e2e_from_'' @ fullName env (parentOf env host)) (now - created), SendUp frame]))"

section \<open>\<open>returnInterfaces\<close>\<close>

datatype ned_value = NedBool bool | NedOther

definition interfaceNames :: "string list" where
  "interfaceNames = [''wlan0 '', ''wlan0 '', ''space_veins '', ''simu5G '']"

function returnInterfacesFrom :: "nat \<Rightarrow> ned_value list \<Rightarrow> string \<Rightarrow> string result" where
  "returnInterfacesFrom i argv acc =
     (if 4 \<le> i then Inr acc
      else if length argv \<le> i then Inl OutOfRange
      else (case argv ! i of
              NedOther \<Rightarrow> Inl (RuntimeError ''Invalid argument type, expected bool'')
            | NedBool b \<Rightarrow> returnInterfacesFrom (i + 1) argv (if b then acc @ interfaceNames ! i else acc)))"
  by auto
termination by (relation "measure (\<lambda>(i, _, _). 4 - i)") auto

declare returnInterfacesFrom.simps [simp del]

definition returnInterfaces :: "ned_value list \<Rightarrow> string result" where
  "returnInterfaces argv = returnInterfacesFrom 0 argv []"

section \<open>Properties\<close>

text \<open>
  A frame arrives as it was sent, and the delay reported for it is the time it was under way,
  whether the packet holds the frame alone or the frame and one trailing chunk.
\<close>

theorem frame_roundtrip:
  assumes "driverSend net d sentAt frame = Inr acts" "hostOfAddr net sender = Some host"
  shows "\<exists>dest c. acts = [SendContainer dest (destinationPort d) c] \<and>
    driverReceive net env receivedAt sender c =
      Inr [EmitDelay (''e2e_from_'' @ fullName env (parentOf env host)) (receivedAt - sentAt), SendUp frame] \<and>
    driverReceive net env receivedAt sender (SequenceChunk [c, OtherChunk n]) = driverReceive net env receivedAt sender c \<and>
    driverReceive net env receivedAt sender (SequenceChunk [OtherChunk n, c]) = Inl NullPointer"
  using assms by (auto simp: driverSend_def driverReceive_def decapsulate_def encapsulate_def rbind_Inr_iff)

theorem frame_roundtrip_witness:
  "\<exists>c. driverReceive (demo_net\<lparr>hostOfAddr := \<lambda>_. Some 3\<rparr>) demo_env 70 40 c =
     Inr [EmitDelay ''e2e_from_gw'' 20, SendUp \<lparr>frameId = 1, frameRecipient = - 1\<rparr>]"
proof -
  let ?d = "\<lparr>destinationPort = 3000, driverBoundPort = None, driverGroup = None, driverOutput = None, driverMemberships = []\<rparr>"
  have "driverSend (demo_net\<lparr>hostOfAddr := \<lambda>_. Some 3\<rparr>) ?d 50 \<lparr>frameId = 1, frameRecipient = - 1\<rparr> =
      Inr [SendContainer 9 3000 (PacketChunk \<lparr>frameId = 1, frameRecipient = - 1\<rparr> 50)]"
    by (simp add: driverSend_def demo_net_def encapsulate_def)
  from frame_roundtrip [OF this, of 40 3 demo_env 70] show ?thesis by (auto simp: demo_env_def)
qed

text \<open>
  The recipient of a unicast frame is ignored: two frames for different vehicles are sent to
  the same address.
\<close>

theorem unicast_recipient_ignored:
  assumes "frameRecipient f \<noteq> - 1" "frameRecipient g \<noteq> - 1" "driverSend net d now f = Inr [SendContainer a port c]"
  shows "driverSend net d now g = Inr [SendContainer a port (encapsulate now g)]"
  using assms by (auto simp: driverSend_def rbind_Inr_iff)

theorem unicast_recipient_ignored_witness:
  "\<exists>net d. driverSend net d 0 \<lparr>frameId = 1, frameRecipient = 5\<rparr> = Inr [SendContainer 7 3000 (PacketChunk \<lparr>frameId = 1, frameRecipient = 5\<rparr> 0)] \<and>
     driverSend net d 0 \<lparr>frameId = 2, frameRecipient = 6\<rparr> = Inr [SendContainer 7 3000 (PacketChunk \<lparr>frameId = 2, frameRecipient = 6\<rparr> 0)]"
proof -
  let ?d = "\<lparr>destinationPort = 3000, driverBoundPort = None, driverGroup = None, driverOutput = None, driverMemberships = []\<rparr>"
  let ?net = "demo_net\<lparr>resolveAddr := \<lambda>_. Inr 7\<rparr>"
  have s: "driverSend ?net ?d 0 \<lparr>frameId = 1, frameRecipient = 5\<rparr> = Inr [SendContainer 7 3000 (PacketChunk \<lparr>frameId = 1, frameRecipient = 5\<rparr> 0)]"
    by (simp add: driverSend_def encapsulate_def)
  from unicast_recipient_ignored [OF _ _ s, of "\<lparr>frameId = 2, frameRecipient = 6\<rparr>"] s show ?thesis
    by (auto simp: encapsulate_def intro!: exI [of _ ?net] exI [of _ ?d])
qed

text \<open>
  After the multicast address was set, the driver is a member of exactly the groups it was in
  before, less its previous one, and of the new one, on the cellular interface.
\<close>

theorem multicast_membership_moves:
  assumes "setMulticastAddress net address d = Inr d'" "driverGroup d = Some old" "resolveAddr net address = Inr new" "old \<noteq> new"
  shows "driverGroup d' = Some new \<and> (new, interfaceByName net ''cellular'') \<in> set (driverMemberships d') \<and>
    (\<forall>i. (old, i) \<notin> set (driverMemberships d')) \<and> driverOutput d' = interfaceByName net ''cellular'' \<and>
    (\<forall>g i. g \<noteq> old \<longrightarrow> (g, i) \<in> set (driverMemberships d) \<longrightarrow> (g, i) \<in> set (driverMemberships d'))"
  using assms by (auto simp: setMulticastAddress_def Let_def split: option.splits)

theorem multicast_membership_moves_witness:
  "\<exists>d'. setMulticastAddress (demo_net\<lparr>interfaceByName := \<lambda>_. Some 4\<rparr>) ''224.0.0.1''
      \<lparr>destinationPort = 3000, driverBoundPort = None, driverGroup = Some 8, driverOutput = None, driverMemberships = [(8, Some 4)]\<rparr> = Inr d' \<and>
    driverMemberships d' = [(9, Some 4)] \<and> driverGroup d' = Some 9"
proof -
  let ?net = "demo_net\<lparr>interfaceByName := \<lambda>_. Some 4\<rparr>"
  let ?d = "\<lparr>destinationPort = 3000, driverBoundPort = None, driverGroup = Some 8, driverOutput = None, driverMemberships = [(8, Some 4)]\<rparr>"
  let ?d' = "\<lparr>destinationPort = 3000, driverBoundPort = None, driverGroup = Some 9, driverOutput = Some 4, driverMemberships = [(9, Some 4)]\<rparr>"
  have s: "setMulticastAddress ?net ''224.0.0.1'' ?d = Inr ?d'"
    by (simp add: setMulticastAddress_def demo_net_def)
  have "driverGroup ?d' = Some 9"
    using multicast_membership_moves [OF s, of 8 9] by (simp add: demo_net_def)
  then show ?thesis using s by auto
qed

text \<open>
  The names returned for four flags are those of the flags that are set, each followed by a
  space; WLAN and Veins share the name \<open>wlan0\<close>.
\<close>

theorem returnInterfaces_flags:
  "returnInterfaces [NedBool a, NedBool b, NedBool c, NedBool d] =
     Inr ((if a then ''wlan0 '' else []) @ (if b then ''wlan0 '' else []) @
          (if c then ''space_veins '' else []) @ (if d then ''simu5G '' else []))"
  by (simp add: returnInterfaces_def returnInterfacesFrom.simps interfaceNames_def)

end
