(* ===== verification/GateControlLists.thy ===== *)
theory GateControlLists
  imports PeriodicGates
begin

text \<open>
  \<open>GateControlList\<close> (\<open>inet/queueing/gate/GateControlList.cc\<close>): a list of entries, each a
  duration and the states of all gates as a string of \<open>0\<close> and \<open>1\<close>, is split into one list of
  alternating durations per gate. Durations, doubles in seconds in the code, are times here.
\<close>

section \<open>Parsing\<close>

text \<open>The leftmost character is the state of the last gate.\<close>

fun gateChars :: "string \<Rightarrow> bool list result" where
  "gateChars [] = Inr []"
| "gateChars (c # cs) =
     (if c = CHR ''1'' then rbind (gateChars cs) (\<lambda>bs. Inr (bs @ [True]))
      else if c = CHR ''0'' then rbind (gateChars cs) (\<lambda>bs. Inr (bs @ [False]))
      else Inl (RuntimeError ''Unknown char''))"

definition retrieveGateStates :: "nat \<Rightarrow> string \<Rightarrow> bool list result" where
  "retrieveGateStates numGates s =
     (if length s \<noteq> numGates then Inl (RuntimeError ''The length of the entry is not equal to numGates.'')
      else gateChars s)"

record gcl_gate =
  currentState :: bool
  currentDuration :: simtime
  gateDurations :: "simtime list"

definition newGate :: gcl_gate where
  "newGate = \<lparr>currentState = True, currentDuration = 0, gateDurations = []\<rparr>"

text \<open>What an entry does to the lists of one gate.\<close>

definition entryStep :: "bool \<Rightarrow> simtime \<Rightarrow> gcl_gate \<Rightarrow> gcl_gate" where
  "entryStep b d g =
     (let g1 = (if b \<noteq> currentState g
                then g\<lparr>gateDurations := gateDurations g @ [currentDuration g],
                       currentState := \<not> currentState g, currentDuration := 0\<rparr> else g)
      in g1\<lparr>currentDuration := currentDuration g1 + d\<rparr>)"

definition parseEntry :: "nat \<Rightarrow> gcl_gate list \<Rightarrow> simtime \<times> string \<Rightarrow> gcl_gate list result" where
  "parseEntry numGates gs = (\<lambda>(d, s).
     rbind (retrieveGateStates numGates s) (\<lambda>bs.
       Inr (map (\<lambda>i. entryStep (bs ! i) d (gs ! i)) [0..<numGates])))"

definition finishGate :: "gcl_gate \<Rightarrow> simtime list" where
  "finishGate g =
     (let ds = gateDurations g @ [currentDuration g] in if odd (length ds) then ds @ [0] else ds)"

definition parseGcl :: "nat \<Rightarrow> simtime list \<Rightarrow> string list \<Rightarrow> simtime list list result" where
  "parseGcl numGates durs states =
     (if length durs \<noteq> length states
      then Inl (RuntimeError ''The length of durations is not equal to gateStates.'')
      else rbind (foldM (parseEntry numGates) (replicate numGates newGate) (zip durs states)) (\<lambda>gs.
             Inr (map finishGate gs)))"

section \<open>Initialization\<close>

record gate_control_list =
  gclNumGates :: nat
  gclOffset :: simtime
  gclDurations :: "simtime list"
  gclGateStates :: "string list"
  gclGateDurations :: "simtime list list"

text \<open>
  The result also lists the parameters \<open>offset\<close> and \<open>durations\<close> that the transmission gates are
  given, by the index of the gate.
\<close>

definition gclInitialize ::
    "nat \<Rightarrow> simtime \<Rightarrow> simtime list \<Rightarrow> string list \<Rightarrow> init_stage \<Rightarrow> gate_control_list \<Rightarrow>
     (gate_control_list \<times> (simtime \<times> simtime list) list) result" where
  "gclInitialize numGates off durs states stage gcl =
     (if stage \<noteq> INITSTAGE_LOCAL then Inr (gcl, [])
      else rbind (parseGcl numGates durs states) (\<lambda>gds.
             Inr (\<lparr>gclNumGates = numGates, gclOffset = off, gclDurations = durs, gclGateStates = states,
                    gclGateDurations = gclGateDurations gcl @ gds\<rparr>,
                  map (\<lambda>i. (off, durs)) [0..<numGates])))"

section \<open>The lists say when a gate is open\<close>

lemma gateChars_length: "gateChars s = Inr bs \<Longrightarrow> length bs = length s"
  by (induction s arbitrary: bs) (auto simp: rbind_Inr_iff split: if_splits)

lemma gateChars_nth: "gateChars s = Inr bs \<Longrightarrow> i < length s \<Longrightarrow> bs ! i = (s ! (length s - 1 - i) = CHR ''1'')"
proof (induction s arbitrary: bs i)
  case Nil
  then show ?case by simp
next
  case (Cons c cs)
  then obtain bs' where bs': "gateChars cs = Inr bs'" "bs = bs' @ [c = CHR ''1'']"
    by (auto simp: rbind_Inr_iff split: if_splits)
  have len: "length bs' = length cs" using gateChars_length [OF bs'(1)] .
  show ?case
  proof (cases "i = length cs")
    case True
    then show ?thesis using bs' len by (simp add: nth_append)
  next
    case False
    then have "i < length cs" using Cons.prems(2) by simp
    then show ?thesis using Cons.IH [OF bs'(1)] bs' len by (simp add: nth_append Suc_diff_Suc)
  qed
qed

text \<open>The state of gate \<open>i\<close> that the entries ask for at a position, and their length.\<close>

fun entryStateAt :: "nat \<Rightarrow> (simtime \<times> string) list \<Rightarrow> simtime \<Rightarrow> bool" where
  "entryStateAt i [] p = True"
| "entryStateAt i ((d, s) # es) p =
     (if p < d then s ! (length s - 1 - i) = CHR ''1'' else entryStateAt i es (p - d))"

definition entriesLength :: "(simtime \<times> string) list \<Rightarrow> simtime" where
  "entriesLength es = sum_list (map fst es)"

text \<open>The lists of a gate describe the entries read so far.\<close>

definition describes :: "gcl_gate \<Rightarrow> (simtime \<Rightarrow> bool) \<Rightarrow> simtime \<Rightarrow> bool" where
  "describes g f len \<longleftrightarrow>
     list_all (\<lambda>d. 0 \<le> d) (gateDurations g) \<and> 0 \<le> currentDuration g \<and>
     sum_list (gateDurations g) + currentDuration g = len \<and>
     currentState g = even (length (gateDurations g)) \<and>
     (\<forall>p. 0 \<le> p \<and> p < len \<longrightarrow> state_at True (gateDurations g @ [currentDuration g]) p = f p)"

lemma sum_list_nonneg_all: "list_all (\<lambda>d. 0 \<le> d) ds \<Longrightarrow> 0 \<le> sum_list ds" for ds :: "simtime list"
  by (induction ds) auto

lemma state_at_append_nonneg:
  assumes "list_all (\<lambda>d. 0 \<le> d) xs" "0 \<le> p"
  shows "state_at b (xs @ ys) p =
    (if p < sum_list xs then state_at b xs p else state_at (b \<noteq> odd (length xs)) ys (p - sum_list xs))"
  using assms
proof (induction xs arbitrary: b p)
  case Nil
  then show ?case by (cases ys) auto
next
  case (Cons d xs)
  have "0 \<le> sum_list xs" using Cons.prems by (simp add: sum_list_nonneg_all)
  then show ?case using Cons by (auto simp: algebra_simps)
qed

lemma entryStep_describes:
  assumes "describes g f len" "0 \<le> d"
  shows "describes (entryStep b d g) (\<lambda>p. if p < len then f p else b) (len + d)"
proof -
  let ?ds = "gateDurations g" and ?c = "currentDuration g"
  have g: "list_all (\<lambda>d. 0 \<le> d) ?ds" "0 \<le> ?c" "sum_list ?ds + ?c = len" "currentState g = even (length ?ds)"
    and f: "\<And>p. 0 \<le> p \<Longrightarrow> p < len \<Longrightarrow> state_at True (?ds @ [?c]) p = f p"
    using assms(1) by (auto simp: describes_def)
  show ?thesis
  proof (cases "b = currentState g")
    case True
    have "state_at True (?ds @ [?c + d]) p = (if p < len then f p else b)" if "0 \<le> p" "p < len + d" for p
      using that g f [OF that(1)] True assms(2) by (auto simp: state_at_append_nonneg split: if_splits)
    then show ?thesis using True g assms(2) by (auto simp: describes_def entryStep_def)
  next
    case False
    have all: "list_all (\<lambda>d. 0 \<le> d) (?ds @ [?c])" using g by simp
    have "state_at True ((?ds @ [?c]) @ [d]) p = (if p < len then f p else b)" if "0 \<le> p" "p < len + d" for p
      using that g(3,4) f [OF that(1)] False state_at_append_nonneg [OF all that(1), of True "[d]"] by auto
    then show ?thesis using False g assms(2) by (auto simp: describes_def entryStep_def Let_def)
  qed
qed

lemma entriesLength_simps [simp]:
  "entriesLength [] = 0" "entriesLength (x # es) = fst x + entriesLength es"
  "entriesLength (es @ fs) = entriesLength es + entriesLength fs"
  by (simp_all add: entriesLength_def)

lemma entryStateAt_snoc:
  assumes "0 \<le> p" "\<forall>(d, s) \<in> set es. 0 \<le> d"
  shows "p < entriesLength es + d \<Longrightarrow> entryStateAt i (es @ [(d, s)]) p =
    (if p < entriesLength es then entryStateAt i es p else s ! (length s - 1 - i) = CHR ''1'')"
  using assms
proof (induction es arbitrary: p)
  case Nil
  then show ?case by simp
next
  case (Cons x es)
  have "0 \<le> entriesLength es"
    using Cons.prems(3) by (fastforce simp: entriesLength_def intro: sum_list_nonneg)
  then show ?case using Cons by (cases x) (auto simp: algebra_simps)
qed

lemma describes_cong: "describes g f len \<Longrightarrow> (\<And>p. 0 \<le> p \<Longrightarrow> p < len \<Longrightarrow> f p = h p) \<Longrightarrow> describes g h len"
  by (auto simp: describes_def)

lemma parse_loop:
  assumes "foldM (parseEntry n) gs es = Inr gs'" "\<forall>(d, s) \<in> set (pre @ es). 0 \<le> d"
    "length gs = n" "\<forall>i < n. describes (gs ! i) (entryStateAt i pre) (entriesLength pre)"
  shows "length gs' = n \<and> (\<forall>i < n. describes (gs' ! i) (entryStateAt i (pre @ es)) (entriesLength (pre @ es)))"
  using assms
proof (induction es arbitrary: gs pre)
  case Nil
  then show ?case by simp
next
  case (Cons x es)
  obtain d s where x: "x = (d, s)" by (cases x)
  obtain g1 where step: "parseEntry n gs (d, s) = Inr g1" and rest1: "foldM (parseEntry n) g1 es = Inr gs'"
    using Cons.prems(1) by (auto simp: x rbind_Inr_iff)
  then obtain bs where bs: "retrieveGateStates n s = Inr bs"
    and g1: "g1 = map (\<lambda>i. entryStep (bs ! i) d (gs ! i)) [0..<n]"
    by (auto simp: parseEntry_def rbind_Inr_iff)
  note rest = rest1 [unfolded g1]
  have len: "length s = n" and cs: "gateChars s = Inr bs"
    using bs by (auto simp: retrieveGateStates_def split: if_splits)
  have d: "0 \<le> d" using Cons.prems(2) x by auto
  have "describes (entryStep (bs ! i) d (gs ! i)) (entryStateAt i (pre @ [(d, s)])) (entriesLength (pre @ [(d, s)]))" if i: "i < n" for i
  proof (rule describes_cong)
    show "describes (entryStep (bs ! i) d (gs ! i)) (\<lambda>p. if p < entriesLength pre then entryStateAt i pre p else bs ! i)
        (entriesLength (pre @ [(d, s)]))"
      using entryStep_describes [OF _ d] Cons.prems(4) i by simp
    fix p
    assume "0 \<le> p" "p < entriesLength (pre @ [(d, s)])"
    then show "(if p < entriesLength pre then entryStateAt i pre p else bs ! i) = entryStateAt i (pre @ [(d, s)]) p"
      using entryStateAt_snoc [of p pre d i s] gateChars_nth [OF cs, of i] Cons.prems(2) i len by auto
  qed
  then have "\<forall>i < n. describes (map (\<lambda>i. entryStep (bs ! i) d (gs ! i)) [0..<n] ! i) (entryStateAt i (pre @ [(d, s)])) (entriesLength (pre @ [(d, s)]))"
    by simp
  from Cons.IH [OF rest _ _ this] Cons.prems(2) x show ?case by simp
qed

text \<open>
  Splitting a gate control list is correct: the alternating durations of a gate, read from the
  open state, give the state the entries ask for at every position; they are an even number of
  durations and last as long as the entries.
\<close>

theorem parseGcl_meaning:
  assumes "parseGcl numGates durs states = Inr gds" "\<forall>d \<in> set durs. 0 \<le> d" "i < numGates"
  shows "even (length (gds ! i)) \<and> sum_list (gds ! i) = entriesLength (zip durs states) \<and>
    (\<forall>p. 0 \<le> p \<and> p < entriesLength (zip durs states) \<longrightarrow> state_at True (gds ! i) p = entryStateAt i (zip durs states) p)"
proof -
  obtain gs where gs: "foldM (parseEntry numGates) (replicate numGates newGate) (zip durs states) = Inr gs"
    and gds: "gds = map finishGate gs"
    using assms(1) by (auto simp: parseGcl_def rbind_Inr_iff split: if_splits)
  have "describes newGate (entryStateAt i []) (entriesLength [])" for i
    by (simp add: describes_def newGate_def)
  then have "length gs = numGates \<and> describes (gs ! i) (entryStateAt i (zip durs states)) (entriesLength (zip durs states))"
    using parse_loop [OF gs, of "[]"] assms(2,3) by (auto dest: set_zip_leftD)
  then have len: "i < length gs" and g: "describes (gs ! i) (entryStateAt i (zip durs states)) (entriesLength (zip durs states))"
    using assms(3) by simp_all
  let ?ds = "gateDurations (gs ! i) @ [currentDuration (gs ! i)]"
  have all: "list_all (\<lambda>d. 0 \<le> d) ?ds" and sum: "sum_list ?ds = entriesLength (zip durs states)"
    and st: "\<And>p. 0 \<le> p \<Longrightarrow> p < entriesLength (zip durs states) \<Longrightarrow> state_at True ?ds p = entryStateAt i (zip durs states) p"
    using g by (auto simp: describes_def)
  have "state_at True (?ds @ [0]) p = entryStateAt i (zip durs states) p" if "0 \<le> p" "p < entriesLength (zip durs states)" for p
    using state_at_append_nonneg [OF all that(1), of True "[0]"] that sum st by simp
  moreover have "gds ! i = (if odd (length ?ds) then ?ds @ [0] else ?ds)"
    using gds len by (simp add: finishGate_def Let_def)
  ultimately show ?thesis using sum st by auto
qed

text \<open>
  The gates do not get these lists: each is given the durations of the entries themselves, so
  the states of the entries have no influence on any gate.
\<close>

theorem gate_states_are_ignored:
  assumes "gclInitialize n off durs states INITSTAGE_LOCAL gcl = Inr (g1, pars1)"
    "gclInitialize n off durs states' INITSTAGE_LOCAL gcl = Inr (g2, pars2)"
  shows "pars1 = pars2 \<and> pars1 = replicate n (off, durs)"
  using assms by (auto simp: gclInitialize_def rbind_Inr_iff map_replicate_trivial)

text \<open>
  An entry of the wrong length or with another character than 0 and 1, and lists of different
  lengths, are errors, whatever the other entries are.
\<close>

theorem malformed_gcl_is_refused:
  assumes "length durs \<noteq> length states \<or> (\<exists>s \<in> set states. length s \<noteq> n \<or> \<not> set s \<subseteq> {CHR ''0'', CHR ''1''})"
  shows "\<exists>e. parseGcl n durs states = Inl e"
proof (cases "parseGcl n durs states")
  case (Inr gds)
  then have len: "length durs = length states"
    and run: "\<exists>gs. foldM (parseEntry n) (replicate n newGate) (zip durs states) = Inr gs"
    by (auto simp: parseGcl_def rbind_Inr_iff split: if_splits)
  have chars: "set s \<subseteq> {CHR ''0'', CHR ''1''}" if "gateChars s = Inr bs" for s bs
    using that by (induction s arbitrary: bs) (auto simp: rbind_Inr_iff split: if_splits)
  have "length s = n \<and> set s \<subseteq> {CHR ''0'', CHR ''1''}" if "foldM (parseEntry n) gs es = Inr gs'" "(d, s) \<in> set es" for gs es gs' d s
    using that
  proof (induction es arbitrary: gs)
    case Nil
    then show ?case by simp
  next
    case (Cons x es)
    then show ?case using chars
      by (cases x) (auto simp: rbind_Inr_iff parseEntry_def retrieveGateStates_def split: if_splits)
  qed
  moreover have "\<exists>d. (d, s) \<in> set (zip durs states)" if "s \<in> set states" for s
    using that len by (metis in_set_impl_in_set_zip2)
  ultimately show ?thesis using run assms len by metis
qed simp

theorem parseGcl_meaning_witness:
  "parseGcl 2 [5, 3, 4] [''01'', ''10'', ''00''] = Inr [[5, 7], [0, 5, 3, 4]] \<and> state_at True [0, 5, 3, 4] 6 = True"
proof -
  have r: "parseGcl 2 [5, 3, 4] [''01'', ''10'', ''00''] = Inr [[5, 7], [0, 5, 3, 4]]" by code_simp
  have "state_at True ([[5, 7], [0, 5, 3, 4]] ! 1) 6 = entryStateAt 1 (zip [5, 3, 4] [''01'', ''10'', ''00'']) 6"
    using parseGcl_meaning [OF r, of 1] by simp
  then show ?thesis using r by simp
qed

theorem gate_states_are_ignored_witness:
  "\<exists>g1 g2 pars. gclInitialize 2 0 [5, 3] [''01'', ''10''] INITSTAGE_LOCAL gcl0 = Inr (g1, pars) \<and>
     gclInitialize 2 0 [5, 3] [''11'', ''11''] INITSTAGE_LOCAL gcl0 = Inr (g2, pars)"
proof -
  have p: "parseGcl 2 [5, 3] [''01'', ''10''] = Inr [[5, 3], [0, 5, 3, 0]]" "parseGcl 2 [5, 3] [''11'', ''11''] = Inr [[8, 0], [8, 0]]"
    by code_simp+
  obtain g1 pars1 g2 pars2 where "gclInitialize 2 0 [5, 3] [''01'', ''10''] INITSTAGE_LOCAL gcl0 = Inr (g1, pars1)"
    "gclInitialize 2 0 [5, 3] [''11'', ''11''] INITSTAGE_LOCAL gcl0 = Inr (g2, pars2)"
    by (simp add: gclInitialize_def p)
  with gate_states_are_ignored [OF this] show ?thesis by auto
qed

theorem malformed_gcl_is_refused_witness: "\<exists>e. parseGcl 2 [5, 3] [''01'', ''1x''] = Inl e"
  by (rule malformed_gcl_is_refused) simp

end
