(* ===== verification/CreditGates.thy ===== *)
theory CreditGates
  imports Prelude Complex_Main
begin

text \<open>
  \<open>CreditBasedGate\<close> (\<open>inet/queueing/gate/CreditBasedGate.cc\<close>): the gate of a credit-based
  shaper. It is open while its credit is at least a limit; the credit rises while packets wait,
  falls while they are transmitted, and is only computed when something happens, with a timer for
  the moment at which it reaches the limit.

  Doubles are reals. \<open>toTime\<close> is the conversion of a double to \<open>SimTime\<close>, which rounds to the
  nearest tick. What the surroundings answer is the record \<open>gate_context\<close>; that open and close
  notify the neighbours is an action, whose reactions are later events.
\<close>

section \<open>State\<close>

record credit_params =
  idleCreditGainRate :: real
  transmitCreditSpendRate :: real
  transmitCreditLimit :: real
  minCredit :: real
  maxCredit :: real
  accumulateCreditInGuardBand :: bool

record credit_gate =
  isTransmitting :: bool
  isInterpacketGap :: bool
  currentCredit :: real
  currentCreditGainRate :: real
  lastCurrentCreditEmitted :: real
  lastCurrentCreditEmittedTime :: simtime
  creditTimer :: "simtime option"
  creditOpen :: bool

record gate_context =
  ctxPeriodicGate :: "(bool \<times> bool) option"   \<comment> \<open>is the periodic gate closed, is it in its guard band\<close>
  ctxAvailablePacket :: bool

datatype credit_action = EmitCredits real | GateOpened | GateClosed | PassOnCanPull

text \<open>\<open>SimTime::dbl\<close>: ticks to seconds.\<close>

definition dbl :: "simtime \<Rightarrow> real" where
  "dbl t = real_of_int t / 1000000000000"

section \<open>Operations\<close>

definition setCurrentCredit :: "real \<Rightarrow> credit_gate \<Rightarrow> credit_gate" where
  "setCurrentCredit v g = (if currentCredit g \<noteq> v then g\<lparr>currentCredit := v\<rparr> else g)"

definition setCurrentCreditGainRate :: "real \<Rightarrow> credit_gate \<Rightarrow> credit_gate" where
  "setCurrentCreditGainRate v g = (if currentCreditGainRate g \<noteq> v then g\<lparr>currentCreditGainRate := v\<rparr> else g)"

definition creditAt :: "credit_params \<Rightarrow> credit_gate \<Rightarrow> simtime \<Rightarrow> real" where
  "creditAt par g now = max (minCredit par) (min (maxCredit par)
     (lastCurrentCreditEmitted g + currentCreditGainRate g * dbl (now - lastCurrentCreditEmittedTime g)))"

definition updateCurrentCredit :: "credit_params \<Rightarrow> simtime \<Rightarrow> credit_gate \<Rightarrow> credit_gate" where
  "updateCurrentCredit par now g = setCurrentCredit (creditAt par g now) g"

definition emitCurrentCredit :: "bool \<Rightarrow> simtime \<Rightarrow> credit_gate \<Rightarrow> credit_gate \<times> credit_action list" where
  "emitCurrentCredit started now g =
     (if \<not> started \<or> lastCurrentCreditEmitted g \<noteq> currentCredit g \<or> lastCurrentCreditEmittedTime g \<noteq> now
      then (g\<lparr>lastCurrentCreditEmitted := currentCredit g, lastCurrentCreditEmittedTime := now\<rparr>, [EmitCredits (currentCredit g)])
      else (g, []))"

definition gainRate :: "credit_params \<Rightarrow> gate_context \<Rightarrow> credit_gate \<Rightarrow> real" where
  "gainRate par ctx g =
     (if isTransmitting g \<or> isInterpacketGap g then - transmitCreditSpendRate par
      else if (case ctxPeriodicGate ctx of None \<Rightarrow> False
               | Some (shut, inGuardBand) \<Rightarrow> shut \<or> (\<not> accumulateCreditInGuardBand par \<and> inGuardBand))
      then 0
      else if currentCredit g < 0 \<or> ctxAvailablePacket ctx then idleCreditGainRate par
      else 0)"

definition updateCurrentCreditGainRate :: "credit_params \<Rightarrow> gate_context \<Rightarrow> credit_gate \<Rightarrow> credit_gate" where
  "updateCurrentCreditGainRate par ctx g = setCurrentCreditGainRate (gainRate par ctx g) g"

definition updateGateState :: "credit_params \<Rightarrow> credit_gate \<Rightarrow> credit_gate \<times> credit_action list" where
  "updateGateState par g =
     (if transmitCreditLimit par \<le> currentCredit g
      then (if \<not> creditOpen g then (g\<lparr>creditOpen := True\<rparr>, [GateOpened]) else (g, []))
      else (if creditOpen g then (g\<lparr>creditOpen := False\<rparr>, [GateClosed]) else (g, [])))"

definition updateCurrentState ::
    "credit_params \<Rightarrow> bool \<Rightarrow> simtime \<Rightarrow> gate_context \<Rightarrow> credit_gate \<Rightarrow> credit_gate \<times> credit_action list" where
  "updateCurrentState par started now ctx g =
     (let g1 = updateCurrentCreditGainRate par ctx (updateCurrentCredit par now g);
          (g2, a2) = emitCurrentCredit started now g1;
          (g3, a3) = updateGateState par g2
      in (g3, a2 @ a3))"

definition scheduleCreditTimer :: "credit_params \<Rightarrow> (real \<Rightarrow> simtime) \<Rightarrow> simtime \<Rightarrow> credit_gate \<Rightarrow> credit_gate result" where
  "scheduleCreditTimer par toTime now g =
     rbind (ensure (lastCurrentCreditEmitted g = currentCredit g)) (\<lambda>_.
     rbind (ensure (lastCurrentCreditEmittedTime g = now)) (\<lambda>_.
       let rate = currentCreditGainRate g; limit = transmitCreditLimit par in
       if rate = 0 \<or> (0 < rate \<and> limit \<le> currentCredit g) \<or> (rate < 0 \<and> currentCredit g \<le> limit)
       then Inr (g\<lparr>creditTimer := None\<rparr>)
       else (let changeTime = now + toTime ((limit - currentCredit g) / rate) in
             Inr (g\<lparr>creditTimer := (if changeTime < now then None else Some changeTime)\<rparr>))))"

section \<open>Events\<close>

text \<open>
  Signals of the own transmissions (those whose packet carries the tag of this gate), the end of
  an inter-packet gap, changes of the periodic gate, of the packets to pull, and the timer.
  \<open>ctx2\<close> is what is answered after the state has been changed.
\<close>

datatype credit_event =
    CreditTimerDue | PeriodicGateChanged | GapEnded | TransmissionStarted | TransmissionEnded | CanPullChanged

definition creditStep ::
    "credit_params \<Rightarrow> (real \<Rightarrow> simtime) \<Rightarrow> simtime \<Rightarrow> gate_context \<Rightarrow> credit_event \<Rightarrow> credit_gate \<Rightarrow>
     (credit_gate \<times> credit_action list) result" where
  "creditStep par toTime now ctx ev g =
     (case ev of
        CreditTimerDue \<Rightarrow>
          (let g1 = setCurrentCredit (transmitCreditLimit par) (g\<lparr>creditTimer := None\<rparr>);
               (g2, a2) = emitCurrentCredit True now g1;
               g3 = updateCurrentCreditGainRate par ctx g2;
               (g4, a4) = updateGateState par g3
           in Inr (g4, a2 @ a4))
      | PeriodicGateChanged \<Rightarrow>
          (let (g1, a1) = updateCurrentState par True now ctx g
           in rbind (scheduleCreditTimer par toTime now g1) (\<lambda>g2. Inr (g2, a1)))
      | GapEnded \<Rightarrow>
          if \<not> isInterpacketGap g then Inr (g, [])
          else (let (g1, a1) = updateCurrentState par True now ctx g;
                    g2 = g1\<lparr>isInterpacketGap := False\<rparr>;
                    (g3, a3) = (if ctxAvailablePacket ctx then (g2, [])
                                else emitCurrentCredit True now (setCurrentCredit (min (transmitCreditLimit par) (currentCredit g2)) g2));
                    (g4, a4) = updateCurrentState par True now ctx g3
                in rbind (scheduleCreditTimer par toTime now g4) (\<lambda>g5. Inr (g5, a1 @ a3 @ a4)))
      | TransmissionStarted \<Rightarrow>
          (let (g1, a1) = updateCurrentState par True now ctx g;
               (g2, a2) = updateCurrentState par True now ctx (g1\<lparr>isTransmitting := True\<rparr>)
           in rbind (scheduleCreditTimer par toTime now g2) (\<lambda>g3. Inr (g3, a1 @ a2)))
      | TransmissionEnded \<Rightarrow>
          (let (g1, a1) = updateCurrentState par True now ctx g;
               (g2, a2) = updateCurrentState par True now ctx (g1\<lparr>isTransmitting := False, isInterpacketGap := True\<rparr>)
           in rbind (scheduleCreditTimer par toTime now g2) (\<lambda>g3. Inr (g3, a1 @ a2)))
      | CanPullChanged \<Rightarrow>
          (let (g1, a1) = updateCurrentState par True now ctx g
           in rbind (scheduleCreditTimer par toTime now g1) (\<lambda>g2.
                Inr (g2, a1 @ (if creditOpen g2 then [PassOnCanPull] else [])))))"

definition creditInitialize ::
    "credit_params \<Rightarrow> (real \<Rightarrow> simtime) \<Rightarrow> real \<Rightarrow> simtime \<Rightarrow> gate_context \<Rightarrow> init_stage \<Rightarrow> credit_gate \<Rightarrow>
     (credit_gate \<times> credit_action list) result" where
  "creditInitialize par toTime initialCredit now ctx stage g =
     (case stage of
        INITSTAGE_LOCAL \<Rightarrow>
          Inr (\<lparr>isTransmitting = False, isInterpacketGap = False, currentCredit = initialCredit,
                currentCreditGainRate = idleCreditGainRate par, lastCurrentCreditEmitted = initialCredit,
                lastCurrentCreditEmittedTime = now, creditTimer = None,
                creditOpen = (transmitCreditLimit par \<le> initialCredit)\<rparr>, [])
      | INITSTAGE_QUEUEING \<Rightarrow>
          (let (g1, a1) = updateCurrentState par False now ctx g
           in rbind (scheduleCreditTimer par toTime now g1) (\<lambda>g2. Inr (g2, a1)))
      | _ \<Rightarrow> Inr (g, []))"

definition creditFinish :: "credit_params \<Rightarrow> simtime \<Rightarrow> gate_context \<Rightarrow> credit_gate \<Rightarrow> credit_gate \<times> credit_action list" where
  "creditFinish par now ctx g = updateCurrentState par True now ctx g"

definition creditProcessPacket :: "nat \<Rightarrow> credit_gate \<Rightarrow> nat result" where
  "creditProcessPacket gateId g =
     (if \<not> creditOpen g
      then Inl (RuntimeError ''Illegal operation on the gate, a packet is being passed through while the gate is not open'')
      else Inr gateId)"

section \<open>Invariant\<close>

definition valid_params :: "credit_params \<Rightarrow> bool" where
  "valid_params par \<longleftrightarrow> minCredit par \<le> transmitCreditLimit par \<and> transmitCreditLimit par \<le> maxCredit par"

text \<open>
  After every event: the credit is within its bounds, the gate is open exactly if the credit is at
  least the limit, and the stored state is that of the time of the event.
\<close>

definition settled :: "credit_params \<Rightarrow> simtime \<Rightarrow> credit_gate \<Rightarrow> bool" where
  "settled par now g \<longleftrightarrow> minCredit par \<le> currentCredit g \<and> currentCredit g \<le> maxCredit par \<and>
     creditOpen g = (transmitCreditLimit par \<le> currentCredit g) \<and>
     lastCurrentCreditEmitted g = currentCredit g \<and> lastCurrentCreditEmittedTime g = now"

lemma creditAt_bounds: "valid_params par \<Longrightarrow> minCredit par \<le> creditAt par g now \<and> creditAt par g now \<le> maxCredit par"
  by (auto simp: creditAt_def valid_params_def)

lemma setCurrentCredit_eq: "setCurrentCredit v g = g\<lparr>currentCredit := v\<rparr>"
  by (simp add: setCurrentCredit_def)

lemma setCurrentCreditGainRate_eq: "setCurrentCreditGainRate v g = g\<lparr>currentCreditGainRate := v\<rparr>"
  by (simp add: setCurrentCreditGainRate_def)

lemma emitCurrentCredit_eq:
  "fst (emitCurrentCredit st now g) = g\<lparr>lastCurrentCreditEmitted := currentCredit g, lastCurrentCreditEmittedTime := now\<rparr>"
  by (simp add: emitCurrentCredit_def)

lemma updateGateState_eq: "fst (updateGateState par g) = g\<lparr>creditOpen := (transmitCreditLimit par \<le> currentCredit g)\<rparr>"
  by (simp add: updateGateState_def)

text \<open>The state after \<open>updateCurrentState\<close>.\<close>

definition refreshed :: "credit_params \<Rightarrow> simtime \<Rightarrow> gate_context \<Rightarrow> credit_gate \<Rightarrow> credit_gate" where
  "refreshed par now ctx g =
     g\<lparr>currentCredit := creditAt par g now,
       currentCreditGainRate := gainRate par ctx (g\<lparr>currentCredit := creditAt par g now\<rparr>),
       lastCurrentCreditEmitted := creditAt par g now, lastCurrentCreditEmittedTime := now,
       creditOpen := (transmitCreditLimit par \<le> creditAt par g now)\<rparr>"

lemma updateCurrentState_eq: "fst (updateCurrentState par st now ctx g) = refreshed par now ctx g"
  by (simp add: updateCurrentState_def updateCurrentCredit_def updateCurrentCreditGainRate_def setCurrentCredit_eq
      setCurrentCreditGainRate_eq emitCurrentCredit_eq updateGateState_eq refreshed_def Let_def case_prod_beta)

lemma refreshed_fields [simp]:
  "currentCredit (refreshed par now ctx g) = creditAt par g now"
  "currentCreditGainRate (refreshed par now ctx g) = gainRate par ctx (g\<lparr>currentCredit := creditAt par g now\<rparr>)"
  "isTransmitting (refreshed par now ctx g) = isTransmitting g"
  "isInterpacketGap (refreshed par now ctx g) = isInterpacketGap g"
  "lastCurrentCreditEmitted (refreshed par now ctx g) = creditAt par g now"
  "lastCurrentCreditEmittedTime (refreshed par now ctx g) = now"
  by (simp_all add: refreshed_def)

lemma settled_refreshed: "valid_params par \<Longrightarrow> settled par now (refreshed par now ctx g)"
  using creditAt_bounds [of par g now] by (simp add: settled_def refreshed_def)

text \<open>The timer that \<open>scheduleChangeTimer\<close> sets.\<close>

definition timerFor :: "credit_params \<Rightarrow> (real \<Rightarrow> simtime) \<Rightarrow> simtime \<Rightarrow> credit_gate \<Rightarrow> simtime option" where
  "timerFor par toTime now g =
     (let rate = currentCreditGainRate g; limit = transmitCreditLimit par;
          wait = toTime ((limit - currentCredit g) / rate) in
      if rate = 0 \<or> (0 < rate \<and> limit \<le> currentCredit g) \<or> (rate < 0 \<and> currentCredit g \<le> limit) \<or> wait < 0
      then None else Some (now + wait))"

lemma scheduleCreditTimer_eq:
  "settled par now g \<Longrightarrow> scheduleCreditTimer par toTime now g = Inr (g\<lparr>creditTimer := timerFor par toTime now g\<rparr>)"
  by (simp add: scheduleCreditTimer_def settled_def timerFor_def Let_def)

lemma settled_timer [simp]: "settled par now (g\<lparr>creditTimer := t\<rparr>) = settled par now g"
  by (simp add: settled_def)

lemma creditAt_refreshed [simp]: "valid_params par \<Longrightarrow> creditAt par (refreshed par now ctx g) now = creditAt par g now"
  by (auto simp: creditAt_def dbl_def valid_params_def refreshed_def)

text \<open>
  Every event but the timer ends in a refreshed state \<open>h\<close> of which the timer is computed.
\<close>

lemma creditStep_refreshes:
  assumes "valid_params par" "ev \<noteq> CreditTimerDue" "ev = GapEnded \<longrightarrow> isInterpacketGap g"
  shows "\<exists>h acts. creditStep par toTime now ctx ev g =
      Inr ((refreshed par now ctx h)\<lparr>creditTimer := timerFor par toTime now (refreshed par now ctx h)\<rparr>, acts)"
proof -
  have sch: "scheduleCreditTimer par toTime now (fst (updateCurrentState par True now ctx h)) =
      Inr ((refreshed par now ctx h)\<lparr>creditTimer := timerFor par toTime now (refreshed par now ctx h)\<rparr>)" for h
    using scheduleCreditTimer_eq [OF settled_refreshed [OF assms(1)]] by (simp add: updateCurrentState_eq)
  show ?thesis
  proof (cases ev)
    case GapEnded
    then show ?thesis using assms(3) by (simp add: creditStep_def case_prod_beta Let_def sch) blast
  next
    case TransmissionStarted
    then show ?thesis by (simp add: creditStep_def case_prod_beta Let_def sch) blast
  next
    case TransmissionEnded
    then show ?thesis by (simp add: creditStep_def case_prod_beta Let_def sch) blast
  next
    case PeriodicGateChanged
    then show ?thesis by (simp add: creditStep_def case_prod_beta Let_def sch) blast
  next
    case CanPullChanged
    then show ?thesis by (simp add: creditStep_def case_prod_beta Let_def sch) blast
  qed (use assms(2) in simp)
qed

lemma creditStep_timer:
  "creditStep par toTime now ctx CreditTimerDue g =
    Inr (g\<lparr>creditTimer := None, currentCredit := transmitCreditLimit par, lastCurrentCreditEmitted := transmitCreditLimit par,
          lastCurrentCreditEmittedTime := now, creditOpen := True,
          currentCreditGainRate := gainRate par ctx (g\<lparr>currentCredit := transmitCreditLimit par\<rparr>)\<rparr>,
        snd (emitCurrentCredit True now (g\<lparr>creditTimer := None, currentCredit := transmitCreditLimit par\<rparr>)) @
        snd (updateGateState par (g\<lparr>currentCredit := transmitCreditLimit par\<rparr>)))"
  by (cases g) (simp add: creditStep_def setCurrentCredit_eq emitCurrentCredit_def updateCurrentCreditGainRate_def
      setCurrentCreditGainRate_eq updateGateState_def gainRate_def Let_def)

lemma creditStep_settled:
  assumes "valid_params par"
  shows "\<exists>g' acts. creditStep par toTime now ctx ev g = Inr (g', acts) \<and>
    (ev = GapEnded \<and> \<not> isInterpacketGap g \<and> g' = g \<or> settled par now g')"
proof (cases "ev = CreditTimerDue")
  case True
  then show ?thesis using assms by (simp add: creditStep_timer settled_def valid_params_def)
next
  case False
  show ?thesis
  proof (cases "ev = GapEnded \<and> \<not> isInterpacketGap g")
    case True
    then show ?thesis by (simp add: creditStep_def)
  next
    case no: False
    then show ?thesis
      using creditStep_refreshes [OF assms False, of g toTime now ctx] settled_refreshed [OF assms] by auto
  qed
qed
definition creditRun ::
    "credit_params \<Rightarrow> (real \<Rightarrow> simtime) \<Rightarrow> credit_gate \<Rightarrow> (simtime \<times> gate_context \<times> credit_event) list \<Rightarrow> credit_gate result" where
  "creditRun par toTime = foldM (\<lambda>g (now, ctx, ev). rbind (creditStep par toTime now ctx ev g) (\<lambda>(g', acts). Inr g'))"

definition creditInv :: "credit_params \<Rightarrow> credit_gate \<Rightarrow> bool" where
  "creditInv par g \<longleftrightarrow> (\<exists>t. settled par t g)"

lemma creditInv_iff:
  "creditInv par g \<longleftrightarrow> minCredit par \<le> currentCredit g \<and> currentCredit g \<le> maxCredit par \<and>
     creditOpen g = (transmitCreditLimit par \<le> currentCredit g) \<and> lastCurrentCreditEmitted g = currentCredit g"
  by (auto simp: creditInv_def settled_def)

text \<open>
  Whatever happens to an initialized gate, in whatever order and at whatever times, none of
  its assertions fails, its credit stays between the minimum and the maximum, and after every event
  it is open exactly if its credit is at least the limit.
\<close>

theorem credit_gate_invariant:
  assumes "valid_params par" "creditInitialize par toTime c0 t0 ctx0 INITSTAGE_LOCAL fresh = Inr (g0, acts0)"
    "creditInitialize par toTime c0 t1 ctx1 INITSTAGE_QUEUEING g0 = Inr (g1, acts1)"
  shows "\<exists>g. creditRun par toTime g1 events = Inr g \<and> minCredit par \<le> currentCredit g \<and> currentCredit g \<le> maxCredit par \<and>
    creditOpen g = (transmitCreditLimit par \<le> currentCredit g)"
proof -
  have "settled par t1 g1"
    using assms(3) scheduleCreditTimer_eq [OF settled_refreshed [OF assms(1), of t1 ctx1 g0]] settled_refreshed [OF assms(1), of t1 ctx1 g0]
    by (auto simp: creditInitialize_def case_prod_beta Let_def updateCurrentState_eq)
  then have start: "creditInv par g1" by (auto simp: creditInv_def)
  have step: "\<exists>g'. (case x of (now, ctx, ev) \<Rightarrow> rbind (creditStep par toTime now ctx ev g) (\<lambda>(g', acts). Inr g')) = Inr g' \<and> creditInv par g'"
    if "creditInv par g" for g x
  proof -
    obtain now ctx ev where x: "x = (now, ctx, ev)" by (cases x)
    obtain g' acts where "creditStep par toTime now ctx ev g = Inr (g', acts)" "g' = g \<or> settled par now g'"
      using creditStep_settled [OF assms(1), of toTime now ctx ev g] by blast
    then show ?thesis using that x by (auto simp: creditInv_def)
  qed
  obtain g where "creditRun par toTime g1 events = Inr g" "creditInv par g"
    using foldM_total [of "creditInv par" events "\<lambda>g (now, ctx, ev). rbind (creditStep par toTime now ctx ev g) (\<lambda>(g', acts). Inr g')" g1]
      step start by (auto simp: creditRun_def)
  then show ?thesis by (auto simp: creditInv_iff)
qed

section \<open>Between the events\<close>

text \<open>What the conversion of doubles to ticks is relied on for: it rounds to the nearest tick.\<close>

definition rounds :: "(real \<Rightarrow> simtime) \<Rightarrow> bool" where
  "rounds toTime \<longleftrightarrow> (\<forall>x \<ge> 0. 0 \<le> toTime x \<and> \<bar>dbl (toTime x) - x\<bar> \<le> 1 / 2000000000000)"

lemma dbl_diff: "dbl (a - b) = dbl a - dbl b" by (simp add: dbl_def diff_divide_distrib)

lemma dbl_less_tick: "u < t \<Longrightarrow> dbl u \<le> dbl t - 1 / 1000000000000"
proof -
  assume "u < t"
  then have "real_of_int u \<le> real_of_int t - 1" by linarith
  then show ?thesis by (simp add: dbl_def diff_divide_distrib [symmetric] divide_right_mono)
qed

lemma limit_le_clamp:
  fixes l :: real
  assumes "mn \<le> l" "l \<le> mx"
  shows "l \<le> max mn (min mx x) \<longleftrightarrow> l = mn \<or> l \<le> x"
  using assms by (auto simp: le_max_iff_disj)

lemma creditStep_timerFor:
  assumes "valid_params par" "creditStep par toTime now ctx ev g = Inr (g', acts)" "ev = GapEnded \<longrightarrow> isInterpacketGap g"
  shows "settled par now g' \<and> (creditTimer g' = timerFor par toTime now g' \<or>
    creditTimer g' = None \<and> currentCredit g' = transmitCreditLimit par)"
proof (cases "ev = CreditTimerDue")
  case True
  then show ?thesis using assms(1,2) by (auto simp: creditStep_timer settled_def valid_params_def)
next
  case False
  obtain h acts' where "creditStep par toTime now ctx ev g =
      Inr ((refreshed par now ctx h)\<lparr>creditTimer := timerFor par toTime now (refreshed par now ctx h)\<rparr>, acts')"
    using creditStep_refreshes [OF assms(1) False assms(3)] by blast
  then have "g' = (refreshed par now ctx h)\<lparr>creditTimer := timerFor par toTime now (refreshed par now ctx h)\<rparr>"
    using assms(2) by simp
  then show ?thesis using settled_refreshed [OF assms(1), of now ctx h] by (simp add: timerFor_def Let_def)
qed

text \<open>
  C7. Between two events the gate agrees with the continuous credit: after any event (the end of a gap
  comes only while there is one) and until its timer is due (and forever, if none is set) it is open
  exactly at the times at which the credit is at least the limit. The one exception is a credit that
  starts to fall from exactly the limit: the gate then stays open until the next event, as at the
  first transmission of a gate with the default parameters.
\<close>

theorem gate_tracks_credit:
  assumes "valid_params par" "rounds toTime" "creditStep par toTime now ctx ev g = Inr (g', acts)"
    "ev = GapEnded \<longrightarrow> isInterpacketGap g"
    "now \<le> u" "\<forall>t. creditTimer g' = Some t \<longrightarrow> u < t"
  shows "creditOpen g' = (transmitCreditLimit par \<le> creditAt par g' u \<or>
    currentCreditGainRate g' < 0 \<and> currentCredit g' = transmitCreditLimit par)"
proof -
  let ?c = "currentCredit g'" and ?r = "currentCreditGainRate g'" and ?l = "transmitCreditLimit par"
  let ?x = "?c + ?r * dbl (u - now)" and ?w = "toTime ((?l - ?c) / ?r)"
  have set: "settled par now g'" and tm: "creditTimer g' = timerFor par toTime now g' \<or> creditTimer g' = None \<and> ?c = ?l"
    using creditStep_timerFor [OF assms(1,3,4)] by auto
  have at: "(?l \<le> creditAt par g' u) = (?l = minCredit par \<or> ?l \<le> ?x)" and opn: "creditOpen g' = (?l \<le> ?c)"
    and mn: "minCredit par \<le> ?c"
    using limit_le_clamp assms(1) set by (auto simp: creditAt_def valid_params_def settled_def)
  have tau: "0 \<le> dbl (u - now)" using assms(5) by (simp add: dbl_def)
  have early: "dbl (u - now) < (?l - ?c) / ?r" if "0 < (?l - ?c) / ?r" "?r \<noteq> 0" "timerFor par toTime now g' = creditTimer g'"
  proof -
    have w: "0 \<le> ?w" "\<bar>dbl ?w - (?l - ?c) / ?r\<bar> \<le> 1 / 2000000000000" using assms(2) that(1) by (auto simp: rounds_def)
    have "\<not> (0 < ?r \<and> ?l \<le> ?c)" "\<not> (?r < 0 \<and> ?c \<le> ?l)" using that(1) by (auto simp: zero_less_divide_iff)
    then have "timerFor par toTime now g' = Some (now + ?w)" unfolding timerFor_def Let_def using that(2) w(1) by auto
    then have "creditTimer g' = Some (now + ?w)" using that(3) by simp
    then have "u - now < ?w" using assms(6) by auto
    from dbl_less_tick [OF this] show ?thesis using w(2) by linarith
  qed
  consider (zero) "?r = 0" | (up) "0 < ?r" "?l \<le> ?c" | (down) "?r < 0" "?c < ?l" | (rising) "0 < ?r" "?c < ?l" | (falling) "?r < 0" "?l < ?c"
    | (exact) "?r < 0" "?c = ?l"
    by linarith
  then show ?thesis
  proof cases
    case zero
    then show ?thesis using at opn mn by auto
  next
    case up
    then have "?c \<le> ?x" using tau by simp
    then show ?thesis using up at opn by simp
  next
    case down
    then have "?x \<le> ?c" using tau by (simp add: mult_nonpos_nonneg)
    then show ?thesis using down at opn mn by auto
  next
    case rising
    then have "dbl (u - now) < (?l - ?c) / ?r" using tm by (intro early) auto
    then have "?r * dbl (u - now) < ?l - ?c" using rising(1) by (simp add: pos_less_divide_eq mult.commute)
    then show ?thesis using rising at opn mn by auto
  next
    case falling
    then have "dbl (u - now) < (?l - ?c) / ?r" using tm by (intro early) (auto simp: zero_less_divide_iff)
    then have "?l - ?c < ?r * dbl (u - now)" using falling(1) by (simp add: neg_less_divide_eq mult.commute)
    then show ?thesis using falling at opn by auto
  next
    case exact
    then show ?thesis using opn by simp
  qed
qed

text \<open>
  A transmission costs what it takes: from the start of an own transmission to the end of the
  gap behind it the credit falls by the spend rate times the time elapsed, down to the minimum.
\<close>

theorem transmission_spends_credit:
  assumes "valid_params par" "0 \<le> transmitCreditSpendRate par" "settled par t0 g0"
    "creditStep par toTime t0 ctx0 TransmissionStarted g0 = Inr (g1, acts1)"
    "creditStep par toTime t1 ctx1 TransmissionEnded g1 = Inr (g2, acts2)" "t0 \<le> t1" "t1 \<le> t2"
  shows "creditAt par g2 t2 = max (minCredit par) (currentCredit g0 - transmitCreditSpendRate par * dbl (t2 - t0))"
proof -
  let ?s = "transmitCreditSpendRate par" and ?mn = "minCredit par" and ?mx = "maxCredit par"
  have sch: "scheduleCreditTimer par toTime now (refreshed par now ctx h) =
      Inr ((refreshed par now ctx h)\<lparr>creditTimer := timerFor par toTime now (refreshed par now ctx h)\<rparr>)" for now ctx h
    by (rule scheduleCreditTimer_eq [OF settled_refreshed [OF assms(1)]])
  have g0: "?mn \<le> currentCredit g0" "currentCredit g0 \<le> ?mx" "lastCurrentCreditEmitted g0 = currentCredit g0"
    "lastCurrentCreditEmittedTime g0 = t0"
    using assms(3) by (auto simp: settled_def)
  have same: "creditAt par (h\<lparr>isTransmitting := a\<rparr>) t = creditAt par h t"
    "creditAt par (h\<lparr>isTransmitting := a, isInterpacketGap := b\<rparr>) t = creditAt par h t" for h a b t
    by (simp_all add: creditAt_def)
  have at0: "creditAt par g0 t0 = currentCredit g0" using g0 by (auto simp: creditAt_def dbl_def)
  have g1: "currentCredit g1 = currentCredit g0 \<and> currentCreditGainRate g1 = - ?s \<and> lastCurrentCreditEmitted g1 = currentCredit g0 \<and>
      lastCurrentCreditEmittedTime g1 = t0"
    using assms(1,4) by (auto simp: creditStep_def case_prod_beta Let_def sch updateCurrentState_eq same at0 gainRate_def)
  have g2: "currentCreditGainRate g2 = - ?s \<and> lastCurrentCreditEmitted g2 = creditAt par g1 t1 \<and> lastCurrentCreditEmittedTime g2 = t1"
    using assms(1,5) by (auto simp: creditStep_def case_prod_beta Let_def sch updateCurrentState_eq same gainRate_def)
  define a b where "a = ?s * dbl (t1 - t0)" and "b = ?s * dbl (t2 - t1)"
  have ab: "0 \<le> a" "0 \<le> b" using assms(2,6,7) by (simp_all add: a_def b_def dbl_def)
  have "creditAt par g1 t1 = max ?mn (currentCredit g0 - a)"
    using g0 g1 ab by (auto simp: creditAt_def a_def)
  then have "creditAt par g2 t2 = max ?mn (min ?mx (max ?mn (currentCredit g0 - a) - b))"
    using g2 by (simp add: creditAt_def b_def)
  also have "\<dots> = max ?mn (currentCredit g0 - (a + b))"
    using ab g0 by (auto simp: max_def min_def)
  also have "a + b = ?s * dbl (t2 - t0)" by (simp add: a_def b_def dbl_diff algebra_simps)
  finally show ?thesis .
qed

text \<open>
  A packet passes the gate only while the credit is at least the limit.
\<close>

theorem packet_needs_credit:
  assumes "settled par now g"
  shows "(\<exists>tag. creditProcessPacket gateId g = Inr tag) \<longleftrightarrow> transmitCreditLimit par \<le> currentCredit g"
  using assms by (simp add: creditProcessPacket_def settled_def)

section \<open>A shaper\<close>

definition demo_credit :: credit_params where
  "demo_credit = \<lparr>idleCreditGainRate = 10, transmitCreditSpendRate = 90, transmitCreditLimit = 0,
     minCredit = - 1000, maxCredit = 1000, accumulateCreditInGuardBand = False\<rparr>"

definition demo_busy :: gate_context where
  "demo_busy = \<lparr>ctxPeriodicGate = None, ctxAvailablePacket = True\<rparr>"

definition demo_credit_gate :: "real \<Rightarrow> credit_gate" where
  "demo_credit_gate c = \<lparr>isTransmitting = False, isInterpacketGap = False, currentCredit = c, currentCreditGainRate = 10,
     lastCurrentCreditEmitted = c, lastCurrentCreditEmittedTime = 0, creditTimer = None, creditOpen = (0 \<le> c)\<rparr>"

lemma demo_credit_valid: "valid_params demo_credit" by (simp add: valid_params_def demo_credit_def)

lemma demo_credit_settled: "- 1000 \<le> c \<Longrightarrow> c \<le> 1000 \<Longrightarrow> settled demo_credit 0 (demo_credit_gate c)"
  by (simp add: settled_def demo_credit_def demo_credit_gate_def)

lemma dbl_second: "dbl (simtime_s n) = real_of_int n" by (simp add: dbl_def simtime_s_def)

lemma rounds_exists: "rounds (\<lambda>x. round (x * 1000000000000))"
proof -
  have r: "\<bar>real_of_int (round y) - y\<bar> \<le> 1 / 2" for y :: real using of_int_round_abs_le [of y] by simp
  have "\<bar>dbl (round (x * 1000000000000)) - x\<bar> \<le> 1 / 2000000000000" for x
  proof -
    have "dbl (round (x * 1000000000000)) - x = (real_of_int (round (x * 1000000000000)) - x * 1000000000000) / 1000000000000"
      by (simp add: dbl_def diff_divide_distrib)
    moreover have "\<bar>a / 1000000000000\<bar> \<le> 1 / 2000000000000" if "\<bar>a\<bar> \<le> 1 / 2" for a :: real
      using that by linarith
    ultimately show ?thesis using r [of "x * 1000000000000"] by metis
  qed
  moreover have "0 \<le> round (x * 1000000000000)" if "0 \<le> x" for x :: real
    using round_mono [of 0 "x * 1000000000000"] that by simp
  ultimately show ?thesis by (simp add: rounds_def)
qed

theorem credit_gate_invariant_witness:
  "\<exists>g0 acts0 g1 acts1 g. creditInitialize demo_credit round 0 0 demo_busy INITSTAGE_LOCAL (demo_credit_gate 5) = Inr (g0, acts0) \<and>
     creditInitialize demo_credit round 0 0 demo_busy INITSTAGE_QUEUEING g0 = Inr (g1, acts1) \<and>
     creditRun demo_credit round g1 [(simtime_s 1, demo_busy, TransmissionStarted)] = Inr g \<and> currentCredit g \<le> 1000"
proof -
  obtain g0 acts0 where g0: "creditInitialize demo_credit round 0 0 demo_busy INITSTAGE_LOCAL (demo_credit_gate 5) = Inr (g0, acts0)"
    by (simp add: creditInitialize_def)
  obtain g1 acts1 where g1: "creditInitialize demo_credit round 0 0 demo_busy INITSTAGE_QUEUEING g0 = Inr (g1, acts1)"
    using scheduleCreditTimer_eq [OF settled_refreshed [OF demo_credit_valid, of 0 demo_busy g0], of round]
    by (simp add: creditInitialize_def case_prod_beta Let_def updateCurrentState_eq)
  from credit_gate_invariant [OF demo_credit_valid g0 g1, of "[(simtime_s 1, demo_busy, TransmissionStarted)]"] g0 g1
  show ?thesis by (fastforce simp: demo_credit_def)
qed

theorem gate_tracks_credit_witness:
  "\<exists>g' acts. creditStep demo_credit (\<lambda>x. round (x * 1000000000000)) 0 demo_busy CanPullChanged (demo_credit_gate (- 10)) = Inr (g', acts) \<and>
     currentCreditGainRate g' = 10 \<and> creditTimer g' = Some (simtime_s 1) \<and> creditOpen g' = (0 \<le> creditAt demo_credit g' 1)"
proof -
  let ?r = "\<lambda>x. round (x * 1000000000000)" and ?g = "demo_credit_gate (- 10)"
  obtain h acts where h: "creditStep demo_credit ?r 0 demo_busy CanPullChanged ?g =
      Inr ((refreshed demo_credit 0 demo_busy h)\<lparr>creditTimer := timerFor demo_credit ?r 0 (refreshed demo_credit 0 demo_busy h)\<rparr>, acts)"
    and same: "h = ?g"
    using scheduleCreditTimer_eq [OF settled_refreshed [OF demo_credit_valid, of 0 demo_busy ?g], of ?r]
    by (simp add: creditStep_def case_prod_beta updateCurrentState_eq)
  let ?g' = "(refreshed demo_credit 0 demo_busy h)\<lparr>creditTimer := timerFor demo_credit ?r 0 (refreshed demo_credit 0 demo_busy h)\<rparr>"
  have flags: "\<not> isTransmitting ?g" "\<not> isInterpacketGap ?g" "ctxPeriodicGate demo_busy = None" "ctxAvailablePacket demo_busy"
    "idleCreditGainRate demo_credit = 10" "transmitCreditLimit demo_credit = 0"
    by (simp_all add: demo_credit_gate_def demo_busy_def demo_credit_def)
  have c: "creditAt demo_credit ?g 0 = - 10" by (simp add: creditAt_def demo_credit_gate_def demo_credit_def dbl_def)
  have f: "currentCreditGainRate ?g' = 10" "currentCredit ?g' = - 10"
    by (simp_all add: same c gainRate_def flags)
  have "timerFor demo_credit ?r 0 (refreshed demo_credit 0 demo_busy h) = Some (simtime_s 1)"
    by (simp add: timerFor_def Let_def same c gainRate_def flags simtime_s_def)
  then have t: "creditTimer ?g' = Some (simtime_s 1)" by simp
  have "creditOpen ?g' = (transmitCreditLimit demo_credit \<le> creditAt demo_credit ?g' 1 \<or>
      currentCreditGainRate ?g' < 0 \<and> currentCredit ?g' = transmitCreditLimit demo_credit)"
    by (rule gate_tracks_credit [OF demo_credit_valid rounds_exists h]) (use t in \<open>simp_all add: flags simtime_s_def\<close>)
  then have "creditOpen ?g' = (0 \<le> creditAt demo_credit ?g' 1)" unfolding f(1,2) flags by simp
  then show ?thesis using h f(1) t by blast
qed

theorem transmission_spends_credit_witness:
  "\<exists>g1 g2 acts1 acts2. creditStep demo_credit round 0 demo_busy TransmissionStarted (demo_credit_gate 5) = Inr (g1, acts1) \<and>
     creditStep demo_credit round (simtime_s 1) demo_busy TransmissionEnded g1 = Inr (g2, acts2) \<and>
     creditAt demo_credit g2 (simtime_s 2) = - 175"
proof -
  obtain g1 acts1 where g1: "creditStep demo_credit round 0 demo_busy TransmissionStarted (demo_credit_gate 5) = Inr (g1, acts1)"
    using creditStep_settled [OF demo_credit_valid] by blast
  obtain g2 acts2 where g2: "creditStep demo_credit round (simtime_s 1) demo_busy TransmissionEnded g1 = Inr (g2, acts2)"
    using creditStep_settled [OF demo_credit_valid] by blast
  have "creditAt demo_credit g2 (simtime_s 2) = - 175"
    using transmission_spends_credit [OF demo_credit_valid _ demo_credit_settled g1 g2, of "simtime_s 2"] dbl_second [of 2]
    by (simp add: demo_credit_def demo_credit_gate_def simtime_s_def)
  then show ?thesis using g1 g2 by blast
qed

theorem packet_needs_credit_witness:
  "creditProcessPacket 3 (demo_credit_gate 5) = Inr 3 \<and> (\<nexists>tag. creditProcessPacket 3 (demo_credit_gate (- 5)) = Inr tag)"
  using packet_needs_credit [OF demo_credit_settled, of 5 3] packet_needs_credit [OF demo_credit_settled, of "- 5" 3]
  by (simp add: demo_credit_def demo_credit_gate_def creditProcessPacket_def)

end
