(* ===== verification/UdpApps.thy ===== *)
theory UdpApps
  imports ForwardingApps
begin

text \<open>
  \<open>inet/applications/udpapp/UdpBasicApp.cc\<close>, the periodic sender, and the platoon application
  built on it (\<open>cooperative_tsn/applications/SamplePlatoonApplication.cc\<close>). The application's
  only timer, \<open>selfMsg\<close>, is a kind and the clock time at which it is due; the socket is open,
  closed or destroyed. Random choices, the resolver and volatile parameters are arguments.
\<close>

datatype self_kind = START | SEND | STOP | NoKind

datatype socket_state = SocketNew | SocketOpen | SocketClosed | SocketDestroyed

record udp_app =
  destAddresses :: "l3addr option list"     \<comment> \<open>\<open>None\<close> is unspecified\<close>
  destAddressStr :: "string list"
  udpLocalPort :: int
  destPort :: int
  beginTime :: simtime                      \<comment> \<open>\<open>startTime\<close>\<close>
  stopTime :: simtime
  dontFragment :: bool
  packetName :: string
  udpSocket :: socket_state
  selfKind :: self_kind
  selfDue :: "simtime option"               \<comment> \<open>\<open>None\<close> while not scheduled\<close>
  numSent :: nat
  numReceived :: nat

record udp_params =
  localPortPar :: int
  destPortPar :: int
  startTimePar :: simtime
  stopTimePar :: simtime
  packetNamePar :: string
  dontFragmentPar :: bool
  destAddressesPar :: "string list"         \<comment> \<open>the tokens of the parameter\<close>
  messageLengthPar :: int
  sendIntervalPar :: "nat \<Rightarrow> simtime"       \<comment> \<open>by the number of packets sent so far\<close>
  resolvePar :: "string \<Rightarrow> l3addr option"
  linkLocalPar :: "l3addr \<Rightarrow> bool"
  intrandPar :: "nat \<Rightarrow> nat \<Rightarrow> nat"         \<comment> \<open>by the number of packets sent and the bound\<close>

record udp_sent =
  udpName :: string
  udpLength :: int
  udpCreated :: simtime
  udpSequence :: "nat option"
  udpCar :: "string option"
  udpDest :: "l3addr option"
  udpPort :: int
  udpNoFragments :: bool

text \<open>\<open>initialize\<close> sets the members in the local stage; a stop before the start is refused.\<close>

definition udpInitialize :: "udp_params \<Rightarrow> init_stage \<Rightarrow> udp_app \<Rightarrow> udp_app result" where
  "udpInitialize par stage a =
     (if stage \<noteq> INITSTAGE_LOCAL then Inr a
      else if 0 \<le> stopTimePar par \<and> stopTimePar par < startTimePar par
      then Inl (RuntimeError ''Invalid startTime/stopTime parameters'')
      else Inr (a\<lparr>numSent := 0, numReceived := 0, udpLocalPort := localPortPar par, destPort := destPortPar par,
             beginTime := startTimePar par, stopTime := stopTimePar par, packetName := packetNamePar par,
             dontFragment := dontFragmentPar par, selfKind := NoKind, selfDue := None\<rparr>))"

definition handleUdpStart :: "simtime \<Rightarrow> udp_app \<Rightarrow> udp_app" where
  "handleUdpStart now a =
     (let start = max (beginTime a) now in
      if stopTime a < 0 \<or> start < stopTime a \<or> (start = stopTime a \<and> beginTime a = stopTime a)
      then a\<lparr>selfKind := START, selfDue := Some start\<rparr> else a)"

text \<open>
  An address that is unspecified or link-local is resolved again and the outcome remembered; a
  failed resolution leaves it unspecified.
\<close>

definition chooseDestAddr :: "udp_params \<Rightarrow> udp_app \<Rightarrow> udp_app \<times> l3addr option" where
  "chooseDestAddr par a =
     (let k = intrandPar par (numSent a) (length (destAddresses a)) in
      if (case destAddresses a ! k of None \<Rightarrow> True | Some ad \<Rightarrow> linkLocalPar par ad)
      then (let r = resolvePar par (destAddressStr a ! k)
            in (a\<lparr>destAddresses := (destAddresses a)[k := r]\<rparr>, r))
      else (a, destAddresses a ! k))"

type_synonym packet_maker = "udp_params \<Rightarrow> simtime \<Rightarrow> udp_app \<Rightarrow> l3addr option \<Rightarrow> udp_sent"

definition basicPacket :: packet_maker where
  "basicPacket par now a dest =
     \<lparr>udpName = packetName a @ ''-'' @ nat_to_string (numSent a), udpLength = messageLengthPar par,
      udpCreated = now, udpSequence = Some (numSent a), udpCar = None, udpDest = dest,
      udpPort = destPort a, udpNoFragments = dontFragment a\<rparr>"

text \<open>The platoon application names its packets itself and tells the car it is in.\<close>

definition platoonPacket :: "nat \<Rightarrow> packet_maker" where
  "platoonPacket carIdx par now a dest =
     \<lparr>udpName = ''SamplePlatoon'' @ ''-'' @ nat_to_string (numSent a), udpLength = messageLengthPar par,
      udpCreated = now, udpSequence = None, udpCar = Some (''Car '' @ nat_to_string carIdx), udpDest = dest,
      udpPort = destPort a, udpNoFragments = dontFragment a\<rparr>"

definition sendPacketWith :: "packet_maker \<Rightarrow> udp_params \<Rightarrow> simtime \<Rightarrow> udp_app \<Rightarrow> udp_app \<times> udp_sent" where
  "sendPacketWith mk par now a =
     (let (b, dest) = chooseDestAddr par a in (b\<lparr>numSent := numSent b + 1\<rparr>, mk par now a dest))"

definition processSend :: "packet_maker \<Rightarrow> udp_params \<Rightarrow> simtime \<Rightarrow> udp_app \<Rightarrow> udp_app \<times> udp_sent list" where
  "processSend mk par now a =
     (let (b, p) = sendPacketWith mk par now a;
          d = sendIntervalPar par (numSent b)
      in if stopTime b < 0 \<or> now + d < stopTime b
         then (b\<lparr>selfKind := SEND, selfDue := Some (now + d)\<rparr>, [p])
         else (b\<lparr>selfKind := STOP, selfDue := Some (stopTime b)\<rparr>, [p]))"

definition processStart :: "packet_maker \<Rightarrow> udp_params \<Rightarrow> simtime \<Rightarrow> udp_app \<Rightarrow> udp_app \<times> udp_sent list" where
  "processStart mk par now a =
     (let b = a\<lparr>udpSocket := SocketOpen,
                destAddressStr := destAddressStr a @ destAddressesPar par,
                destAddresses := destAddresses a @ map (resolvePar par) (destAddressesPar par)\<rparr> in
      if destAddresses b \<noteq> [] then processSend mk par now (b\<lparr>selfKind := SEND\<rparr>)
      else if 0 \<le> stopTime b then (b\<lparr>selfKind := STOP, selfDue := Some (stopTime b)\<rparr>, [])
      else (b, []))"

definition processStop :: "udp_app \<Rightarrow> udp_app" where
  "processStop a = a\<lparr>udpSocket := SocketClosed\<rparr>"

text \<open>The timer is due: it is no longer scheduled when its handler runs.\<close>

definition udpTimer :: "packet_maker \<Rightarrow> udp_params \<Rightarrow> simtime \<Rightarrow> udp_app \<Rightarrow> (udp_app \<times> udp_sent list) result" where
  "udpTimer mk par now a0 =
     (let a = a0\<lparr>selfDue := None\<rparr> in
      case selfKind a of
        START \<Rightarrow> Inr (processStart mk par now a)
      | SEND \<Rightarrow> Inr (processSend mk par now a)
      | STOP \<Rightarrow> Inr (processStop a, [])
      | NoKind \<Rightarrow> Inl (RuntimeError ''Invalid kind in self message''))"

definition udpProcessPacket :: "udp_app \<Rightarrow> udp_app" where
  "udpProcessPacket a = a\<lparr>numReceived := numReceived a + 1\<rparr>"

definition udpSocketDataArrived :: "udp_app \<Rightarrow> udp_app" where
  "udpSocketDataArrived a = udpProcessPacket a"

text \<open>The platoon application reports the age of a payload before the packet is counted.\<close>

definition platoonMessage :: "simtime \<Rightarrow> simtime option \<Rightarrow> udp_app \<Rightarrow> udp_app \<times> simtime list" where
  "platoonMessage now created a =
     (udpSocketDataArrived a, case created of None \<Rightarrow> [] | Some c \<Rightarrow> [now - c])"

definition handleUdpStop :: "udp_app \<Rightarrow> udp_app" where
  "handleUdpStop a = a\<lparr>selfDue := None, udpSocket := SocketClosed\<rparr>"

definition handleUdpCrash :: "udp_app \<Rightarrow> udp_app" where
  "handleUdpCrash a = a\<lparr>selfDue := None, udpSocket := SocketDestroyed\<rparr>"

text \<open>Delivering the timer up to \<open>n\<close> times; the trace holds the packets with their send times.\<close>

fun runTimer ::
    "packet_maker \<Rightarrow> udp_params \<Rightarrow> nat \<Rightarrow> udp_app \<Rightarrow> (udp_app \<times> (simtime \<times> udp_sent) list) result" where
  "runTimer mk par 0 a = Inr (a, [])"
| "runTimer mk par (Suc n) a =
     (case selfDue a of None \<Rightarrow> Inr (a, [])
      | Some t \<Rightarrow>
          rbind (udpTimer mk par t a) (\<lambda>(b, ps).
          rbind (runTimer mk par n b) (\<lambda>(c, trace). Inr (c, map (Pair t) ps @ trace))))"

section \<open>The schedule of a sender\<close>

lemma chooseDestAddr_keeps:
  "chooseDestAddr par a = (b, dest) \<Longrightarrow>
     numSent b = numSent a \<and> stopTime b = stopTime a \<and> udpSocket b = udpSocket a \<and>
     packetName b = packetName a \<and> length (destAddresses b) = length (destAddresses a)"
  by (auto simp: chooseDestAddr_def Let_def split: option.splits if_splits)

lemma sendPacketWith_keeps:
  assumes "sendPacketWith mk par now a = (b, p)"
  shows "numSent b = Suc (numSent a) \<and> stopTime b = stopTime a \<and> udpSocket b = udpSocket a \<and>
     packetName b = packetName a \<and> length (destAddresses b) = length (destAddresses a) \<and>
     (\<exists>dest. p = mk par now a dest)"
proof -
  obtain c dest where c: "chooseDestAddr par a = (c, dest)" by fastforce
  show ?thesis using assms chooseDestAddr_keeps [OF c] by (auto simp: sendPacketWith_def c)
qed

lemma processSend_next:
  assumes "0 \<le> stopTime a" "sendIntervalPar par (Suc (numSent a)) = d"
  shows "\<exists>b dest. processSend mk par now a = (b, [mk par now a dest]) \<and> numSent b = Suc (numSent a) \<and>
     stopTime b = stopTime a \<and> udpSocket b = udpSocket a \<and> packetName b = packetName a \<and>
     (if now + d < stopTime a then selfKind b = SEND \<and> selfDue b = Some (now + d)
      else selfKind b = STOP \<and> selfDue b = Some (stopTime a))"
proof -
  obtain b p where b: "sendPacketWith mk par now a = (b, p)" by fastforce
  show ?thesis
    using sendPacketWith_keeps [OF b] assms by (auto simp: processSend_def b)
qed

lemma runTimer_STOP:
  assumes "selfKind a = STOP" "selfDue a = Some t"
  shows "runTimer mk par (Suc n) a = Inr (processStop (a\<lparr>selfDue := None\<rparr>), [])"
proof -
  have "selfDue (processStop (a\<lparr>selfDue := None\<rparr>)) = None" by (simp add: processStop_def)
  then have "runTimer mk par n (processStop (a\<lparr>selfDue := None\<rparr>)) = Inr (processStop (a\<lparr>selfDue := None\<rparr>), [])"
    by (cases n) simp_all
  then show ?thesis using assms by (simp add: udpTimer_def)
qed

lemma runTimer_SEND:
  assumes d: "0 < d" "\<And>n. sendIntervalPar par n = d"
    and name: "\<And>now a dest. udpName (mk par now a dest) = base (packetName a) @ ''-'' @ nat_to_string (numSent a)"
    and a: "selfKind a = SEND" "selfDue a = Some t" "0 \<le> stopTime a" "t < stopTime a"
    and N: "t + int M * d < stopTime a" "stopTime a \<le> t + (int M + 1) * d"
  shows "\<exists>b trace. runTimer mk par (M + 2) a = Inr (b, trace) \<and>
     map fst trace = map (\<lambda>k. t + int k * d) [0..<M + 1] \<and>
     map (udpName \<circ> snd) trace = map (\<lambda>k. base (packetName a) @ ''-'' @ nat_to_string (numSent a + k)) [0..<M + 1] \<and>
     numSent b = numSent a + M + 1 \<and> udpSocket b = SocketClosed \<and> selfDue b = None"
  using a N
proof (induction M arbitrary: a t)
  case 0
  let ?a = "a\<lparr>selfDue := None\<rparr>"
  obtain b dest where b: "processSend mk par t ?a = (b, [mk par t ?a dest])" "numSent b = Suc (numSent a)"
    "selfKind b = STOP" "selfDue b = Some (stopTime a)"
    using processSend_next [of ?a par d mk t] d 0 by auto
  have "runTimer mk par 2 a = Inr (processStop (b\<lparr>selfDue := None\<rparr>), [(t, mk par t ?a dest)])"
    using 0 b(1) runTimer_STOP [OF b(3,4), of mk par 0] by (simp add: numeral_2_eq_2 udpTimer_def del: runTimer.simps(1))
  then show ?case using b(2) name by (simp add: processStop_def numeral_2_eq_2 del: runTimer.simps)
next
  case (Suc M)
  let ?a = "a\<lparr>selfDue := None\<rparr>"
  have "int M * d \<ge> 0" using d(1) by simp
  then have "t + d < stopTime a" using Suc.prems(5) by (simp add: algebra_simps)
  then obtain b dest where b: "processSend mk par t ?a = (b, [mk par t ?a dest])" "numSent b = Suc (numSent a)"
    "selfKind b = SEND" "selfDue b = Some (t + d)" "stopTime b = stopTime a" "packetName b = packetName a"
    using processSend_next [of ?a par d mk t] d Suc.prems by auto
  have pre: "0 \<le> stopTime b" "t + d < stopTime b" "t + d + int M * d < stopTime b" "stopTime b \<le> t + d + (int M + 1) * d"
    using Suc.prems b(5) \<open>t + d < stopTime a\<close> by (simp_all add: algebra_simps)
  obtain c trace where c: "runTimer mk par (M + 2) b = Inr (c, trace)"
    "map fst trace = map (\<lambda>k. (t + d) + int k * d) [0..<M + 1]"
    "map (udpName \<circ> snd) trace = map (\<lambda>k. base (packetName b) @ ''-'' @ nat_to_string (numSent b + k)) [0..<M + 1]"
    "numSent c = numSent b + M + 1" "udpSocket c = SocketClosed" "selfDue c = None"
    using Suc.IH [OF b(3,4) pre] by blast
  have step: "runTimer mk par (Suc M + 2) a = Inr (c, (t, mk par t ?a dest) # trace)"
    using Suc.prems(1,2) b(1) c(1) by (simp add: udpTimer_def)
  have up: "[0..<Suc M + 1] = 0 # map Suc [0..<M + 1]" by (simp add: map_Suc_upt upt_conv_Cons del: upt_Suc)
  show ?case
    unfolding up
    using step c(2-6) b(2,6) name by (simp add: comp_def algebra_simps del: upt_Suc)
qed

lemma runTimer_START:
  assumes "selfKind a = START" "selfDue a = Some t" "destAddresses a @ map (resolvePar par) (destAddressesPar par) \<noteq> []"
  shows "runTimer mk par (Suc n) a = runTimer mk par (Suc n) (a\<lparr>udpSocket := SocketOpen,
    destAddressStr := destAddressStr a @ destAddressesPar par,
    destAddresses := destAddresses a @ map (resolvePar par) (destAddressesPar par), selfKind := SEND\<rparr>)"
  using assms by (cases a) (simp add: udpTimer_def processStart_def)

text \<open>
  The life of a periodic sender: started before its stop time, it sends packets number 0, 1,
  2, ... at the start and then every interval, all strictly before the stop time and as many as
  fit; then it closes its socket and no timer is left. This holds for the basic application and
  for the platoon application, which differ only in the packets.
\<close>

theorem periodic_sender_schedule:
  assumes "udpInitialize par INITSTAGE_LOCAL a0 = Inr a" "destAddresses a0 = []" "destAddressesPar par \<noteq> []"
    "0 < d" "\<And>n. sendIntervalPar par n = d" "0 \<le> stopTimePar par"
    "start = max (startTimePar par) now" "start + int M * d < stopTimePar par" "stopTimePar par \<le> start + (int M + 1) * d"
    "(mk, base) \<in> {(basicPacket, packetNamePar par), (platoonPacket car, ''SamplePlatoon'')}"
  shows "\<exists>b trace. runTimer mk par (M + 2) (handleUdpStart now a) = Inr (b, trace) \<and>
     map fst trace = map (\<lambda>k. start + int k * d) [0..<M + 1] \<and>
     map (udpName \<circ> snd) trace = map (\<lambda>k. base @ ''-'' @ nat_to_string k) [0..<M + 1] \<and>
     numSent b = M + 1 \<and> udpSocket b = SocketClosed \<and> selfDue b = None"
proof -
  have a: "numSent a = 0" "destAddresses a = []" "packetName a = packetNamePar par" "stopTime a = stopTimePar par"
    "beginTime a = startTimePar par"
    using assms(1,2) by (auto simp: udpInitialize_def split: if_splits)
  have "0 \<le> int M * d" using assms(4) by simp
  then have lt: "start < stopTimePar par" using assms(8) by simp
  let ?b = "a\<lparr>udpSocket := SocketOpen, destAddressStr := destAddressStr a @ destAddressesPar par,
    destAddresses := map (resolvePar par) (destAddressesPar par), selfKind := SEND, selfDue := Some start\<rparr>"
  have "handleUdpStart now a = a\<lparr>selfKind := START, selfDue := Some start\<rparr>"
    using a(4,5) lt assms(7) by (simp add: handleUdpStart_def Let_def)
  then have run: "runTimer mk par (M + 2) (handleUdpStart now a) = runTimer mk par (M + 2) ?b"
    using runTimer_START [of "handleUdpStart now a" start par mk "Suc M"] a(2) assms(3)
    by (cases a) (simp del: runTimer.simps)
  define nm where "nm = (\<lambda>s :: string. if mk = basicPacket then s else ''SamplePlatoon'')"
  have "udpName (mk p t x dest) = nm (packetName x) @ ''-'' @ nat_to_string (numSent x)" for p t x dest
    using assms(10) by (auto simp: nm_def basicPacket_def platoonPacket_def)
  moreover have "nm (packetName ?b) = base"
  proof (cases "mk = basicPacket")
    case True
    moreover have "platoonPacket car \<noteq> basicPacket"
    proof
      assume "platoonPacket car = basicPacket"
      then have "udpCar (platoonPacket car par 0 a None) = udpCar (basicPacket par 0 a None)" by simp
      then show False by (simp add: platoonPacket_def basicPacket_def)
    qed
    ultimately show ?thesis using assms(10) a(3) by (auto simp: nm_def)
  next
    case False
    then show ?thesis using assms(10) by (auto simp: nm_def)
  qed
  ultimately show ?thesis
    using runTimer_SEND [OF assms(4,5), where a = ?b and t = start and M = M and base = nm and mk = mk]
      lt a assms(6,8,9) run by (simp del: runTimer.simps upt_Suc)
qed

definition demo_udp :: udp_params where
  "demo_udp = \<lparr>localPortPar = 1, destPortPar = 3000, startTimePar = 10, stopTimePar = 35, packetNamePar = ''Udp'',
     dontFragmentPar = False, destAddressesPar = [''net.dev''], messageLengthPar = 100, sendIntervalPar = \<lambda>_. 10,
     resolvePar = \<lambda>n. Some 7, linkLocalPar = \<lambda>_. False, intrandPar = \<lambda>_ _. 0\<rparr>"

definition demo_udp_app :: udp_app where
  "demo_udp_app = \<lparr>destAddresses = [], destAddressStr = [], udpLocalPort = - 1, destPort = - 1, beginTime = 0, stopTime = 0,
     dontFragment = False, packetName = [], udpSocket = SocketNew, selfKind = NoKind, selfDue = None, numSent = 0, numReceived = 0\<rparr>"

theorem periodic_sender_schedule_witness:
  "\<exists>a b trace. udpInitialize demo_udp INITSTAGE_LOCAL demo_udp_app = Inr a \<and>
     runTimer (platoonPacket 2) demo_udp 4 (handleUdpStart 0 a) = Inr (b, trace) \<and> map fst trace = [10, 20, 30] \<and> udpSocket b = SocketClosed"
proof -
  obtain a where a: "udpInitialize demo_udp INITSTAGE_LOCAL demo_udp_app = Inr a"
    by (simp add: udpInitialize_def demo_udp_def)
  have ex: "\<exists>b trace. runTimer (platoonPacket 2) demo_udp (2 + 2) (handleUdpStart 0 a) = Inr (b, trace) \<and>
     map fst trace = map (\<lambda>k. 10 + int k * 10) [0..<2 + 1] \<and>
     map (udpName \<circ> snd) trace = map (\<lambda>k. ''SamplePlatoon'' @ ''-'' @ nat_to_string k) [0..<2 + 1] \<and>
     numSent b = 2 + 1 \<and> udpSocket b = SocketClosed \<and> selfDue b = None"
    by (rule periodic_sender_schedule [OF a]) (simp_all add: demo_udp_def demo_udp_app_def)
  have "map (\<lambda>k. 10 + int k * 10) [0..<2 + 1] = [10, 20, 30 :: int]" by code_simp
  moreover have "(2 :: nat) + 2 = 4" by simp
  ultimately show ?thesis using ex a by metis
qed

end
