(* ===== verification/MemoryStreams.thy ===== *)
theory MemoryStreams
  imports MacAddresses
begin

text \<open>
  \<open>MemoryOutputStream\<close> and \<open>MemoryInputStream\<close> (\<open>inet/common/\<close>): the bit streams that every
  header serializer writes to and reads from. A stream is a vector of bytes and a length (and, for
  reading, a position) counted in bits; the first bit is the most significant one of the first byte.

  The contents of a stream are the bits \<open>copyBits\<close> returns, the source's
  \<open>copyData(std::vector<bool>&)\<close>; the operations are proved against that sequence of bits.
  An index past the end of the vector is undefined in C++ and reads as zero here; it does not
  happen while \<open>wf_out\<close> and \<open>wf_in\<close> hold.
\<close>

section \<open>Output streams\<close>

record ostream =
  odata :: "8 word list"
  olength :: nat

definition emptyStream :: ostream where
  "emptyStream = \<lparr>odata = [], olength = 0\<rparr>"

definition byteAt :: "8 word list \<Rightarrow> nat \<Rightarrow> 8 word" where
  "byteAt d i = (if i < length d then d ! i else 0)"

definition bitAt :: "8 word list \<Rightarrow> nat \<Rightarrow> bool" where
  "bitAt d i = bit (byteAt d (i div 8)) (7 - i mod 8)"

definition copyBits :: "ostream \<Rightarrow> nat \<Rightarrow> nat option \<Rightarrow> bool list" where
  "copyBits s offset len =
     (let stop = (case len of None \<Rightarrow> olength s | Some n \<Rightarrow> offset + n) in map (bitAt (odata s)) [offset ..< stop])"

definition writeBit :: "bool \<Rightarrow> ostream \<Rightarrow> ostream" where
  "writeBit value s =
     (let i = olength s;
          d = (if i mod 8 = 0 then odata s @ [0] else odata s);
          d' = (if value then d[i div 8 := byteAt d (i div 8) OR push_bit (7 - i mod 8) 1] else d)
      in s\<lparr>odata := d', olength := i + 1\<rparr>)"

definition writeBitRepeatedly :: "bool \<Rightarrow> nat \<Rightarrow> ostream \<Rightarrow> ostream" where
  "writeBitRepeatedly value n s = (writeBit value ^^ n) s"

definition writeBits :: "bool list \<Rightarrow> nat \<Rightarrow> nat option \<Rightarrow> ostream \<Rightarrow> ostream result" where
  "writeBits bits offset len s =
     (let stop = (case len of None \<Rightarrow> length bits | Some n \<Rightarrow> offset + n) in
      if stop \<le> length bits \<or> stop \<le> offset then Inr (fold writeBit (map ((!) bits) [offset ..< stop]) s)
      else Inl OutOfRange)"

definition writeByte :: "8 word \<Rightarrow> ostream \<Rightarrow> ostream" where
  "writeByte value s =
     (let l1 = olength s mod 8; l2 = 8 - l1 in
      (if l1 = 0 then s\<lparr>odata := odata s @ [value]\<rparr>
       else s\<lparr>odata := butlast (odata s)
                @ [last (odata s) OR drop_bit l2 (value AND push_bit l2 0xFF),
                   push_bit l1 (value AND drop_bit l1 0xFF)]\<rparr>)\<lparr>olength := olength s + 8\<rparr>)"

definition writeByteRepeatedly :: "8 word \<Rightarrow> nat \<Rightarrow> ostream \<Rightarrow> ostream" where
  "writeByteRepeatedly value n s = (writeByte value ^^ n) s"

text \<open>Offsets and lengths of \<open>writeBytes\<close> are in bytes.\<close>

definition writeBytes :: "8 word list \<Rightarrow> nat \<Rightarrow> nat option \<Rightarrow> ostream \<Rightarrow> ostream result" where
  "writeBytes bytes offset len s =
     rbind (ensure (olength s mod 8 = 0)) (\<lambda>_.
       let stop = (case len of None \<Rightarrow> length bytes | Some n \<Rightarrow> offset + n) in
       rbind (ensure (offset \<le> length bytes)) (\<lambda>_.
       rbind (ensure (stop \<le> length bytes)) (\<lambda>_.
       rbind (ensure (offset \<le> stop)) (\<lambda>_.
         Inr (s\<lparr>odata := odata s @ map ((!) bytes) [offset ..< stop], olength := olength s + 8 * (stop - offset)\<rparr>)))))"

definition writeUint2 :: "8 word \<Rightarrow> ostream \<Rightarrow> ostream" where
  "writeUint2 value s = writeBit (bit value 0) (writeBit (bit value 1) s)"

definition writeUint4 :: "8 word \<Rightarrow> ostream \<Rightarrow> ostream" where
  "writeUint4 value s =
     writeBit (bit value 0) (writeBit (bit value 1) (writeBit (bit value 2) (writeBit (bit value 3) s)))"

definition writeUint8 :: "8 word \<Rightarrow> ostream \<Rightarrow> ostream" where
  "writeUint8 value s = writeByte value s"

text \<open>\<open>writeByte(static_cast<uint8_t>(value >> k))\<close> for each of the shifts \<open>k\<close> in turn.\<close>

definition writeShifted :: "nat list \<Rightarrow> 'a::len word \<Rightarrow> ostream \<Rightarrow> ostream" where
  "writeShifted ks value s = fold (\<lambda>k. writeByte (ucast (drop_bit k value))) ks s"

definition writeUint16Be :: "16 word \<Rightarrow> ostream \<Rightarrow> ostream" where
  "writeUint16Be = writeShifted [8, 0]"
definition writeUint16Le :: "16 word \<Rightarrow> ostream \<Rightarrow> ostream" where
  "writeUint16Le = writeShifted [0, 8]"
definition writeUint24Be :: "32 word \<Rightarrow> ostream \<Rightarrow> ostream" where
  "writeUint24Be = writeShifted [16, 8, 0]"
definition writeUint24Le :: "32 word \<Rightarrow> ostream \<Rightarrow> ostream" where
  "writeUint24Le = writeShifted [0, 8, 16]"
definition writeUint32Be :: "32 word \<Rightarrow> ostream \<Rightarrow> ostream" where
  "writeUint32Be = writeShifted [24, 16, 8, 0]"
definition writeUint32Le :: "32 word \<Rightarrow> ostream \<Rightarrow> ostream" where
  "writeUint32Le = writeShifted [0, 8, 16, 24]"
definition writeUint48Be :: "64 word \<Rightarrow> ostream \<Rightarrow> ostream" where
  "writeUint48Be = writeShifted [40, 32, 24, 16, 8, 0]"
definition writeUint48Le :: "64 word \<Rightarrow> ostream \<Rightarrow> ostream" where
  "writeUint48Le = writeShifted [0, 8, 16, 24, 32, 40]"
definition writeUint64Be :: "64 word \<Rightarrow> ostream \<Rightarrow> ostream" where
  "writeUint64Be = writeShifted [56, 48, 40, 32, 24, 16, 8, 0]"
definition writeUint64Le :: "64 word \<Rightarrow> ostream \<Rightarrow> ostream" where
  "writeUint64Le = writeShifted [0, 8, 16, 24, 32, 40, 48, 56]"

definition writeMacAddress :: "mac \<Rightarrow> ostream \<Rightarrow> ostream" where
  "writeMacAddress address s = fold (\<lambda>i. writeByte (get_byte address i)) [0 ..< MAC_ADDRESS_SIZE] s"

text \<open>An IPv4 address is a 32-bit integer, an IPv6 address four of them.\<close>

definition writeIpv4Address :: "32 word \<Rightarrow> ostream \<Rightarrow> ostream" where
  "writeIpv4Address address s = writeUint32Be address s"

definition writeIpv6Address :: "32 word \<times> 32 word \<times> 32 word \<times> 32 word \<Rightarrow> ostream \<Rightarrow> ostream" where
  "writeIpv6Address address s =
     (case address of (d0, d1, d2, d3) \<Rightarrow> writeUint32Be d3 (writeUint32Be d2 (writeUint32Be d1 (writeUint32Be d0 s))))"

definition writeString :: "8 word list \<Rightarrow> ostream \<Rightarrow> ostream result" where
  "writeString cs s = rbind (writeBytes cs 0 None s) (\<lambda>s'. Inr (writeByte 0 s'))"

text \<open>
  \<open>1 << (n - 1)\<close> is a shift of an \<open>int\<close>: a 32-bit result, which the conversion to \<open>uint64_t\<close>
  sign-extends. A shift by 32 or more is undefined in C++; what the machine gives is the parameter
  \<open>wide\<close>.
\<close>

definition bitMask :: "(nat \<Rightarrow> 32 word) \<Rightarrow> nat \<Rightarrow> 64 word" where
  "bitMask wide k = scast (if k < 32 then push_bit k 1 else wide k :: 32 word)"

fun writeMaskedBits :: "64 word \<Rightarrow> nat \<Rightarrow> 64 word \<Rightarrow> ostream \<Rightarrow> ostream" where
  "writeMaskedBits value 0 mul s = s"
| "writeMaskedBits value (Suc n) mul s =
     writeMaskedBits value n (drop_bit 1 mul) (writeBit (value AND mul \<noteq> 0) s)"

definition writeNBitsOfUint64Be :: "(nat \<Rightarrow> 32 word) \<Rightarrow> 64 word \<Rightarrow> nat \<Rightarrow> ostream \<Rightarrow> ostream result" where
  "writeNBitsOfUint64Be wide value n s =
     (if n = 0 \<or> 64 < n then Inl (RuntimeError ''Can not write 0 bit or more than 64 bits.'')
      else Inr (writeMaskedBits value n (bitMask wide (n - 1)) s))"

section \<open>Input streams\<close>

record istream =
  idata :: "8 word list"
  ilength :: nat
  ipos :: nat
  isReadBeyondEnd :: bool

definition openStream :: "8 word list \<Rightarrow> istream" where
  "openStream d = \<lparr>idata = d, ilength = 8 * length d, ipos = 0, isReadBeyondEnd = False\<rparr>"

definition getRemainingLength :: "istream \<Rightarrow> nat" where
  "getRemainingLength r = ilength r - ipos r"

definition seek :: "nat \<Rightarrow> istream \<Rightarrow> istream result" where
  "seek p r = rbind (ensure (p \<le> ilength r)) (\<lambda>_. Inr (r\<lparr>ipos := p\<rparr>))"

definition readBit :: "istream \<Rightarrow> bool \<times> istream" where
  "readBit r =
     (if ipos r = ilength r then (False, r\<lparr>isReadBeyondEnd := True\<rparr>)
      else (bitAt (idata r) (ipos r), r\<lparr>ipos := ipos r + 1\<rparr>))"

fun readBitRepeatedly :: "bool \<Rightarrow> nat \<Rightarrow> istream \<Rightarrow> bool \<times> istream" where
  "readBitRepeatedly value 0 r = (True, r)"
| "readBitRepeatedly value (Suc n) r =
     (let (b, r') = readBit r; (success, r'') = readBitRepeatedly value n r' in (value = b \<and> success, r''))"

text \<open>The bits read, whose number the function returns, and the stream.\<close>

fun readBits :: "nat \<Rightarrow> istream \<Rightarrow> bool list \<times> istream" where
  "readBits 0 r = ([], r)"
| "readBits (Suc n) r =
     (if isReadBeyondEnd r then ([], r)
      else let (b, r') = readBit r; (bs, r'') = readBits n r' in (b # bs, r''))"

definition readByte :: "istream \<Rightarrow> 8 word \<times> istream" where
  "readByte r =
     (if ipos r + 8 > ilength r then (0, r\<lparr>isReadBeyondEnd := True, ipos := ilength r\<rparr>)
      else let l1 = ipos r mod 8; l2 = 8 - l1 in
        ((if l1 = 0 then byteAt (idata r) (ipos r div 8)
          else push_bit l1 (byteAt (idata r) ((ipos r - l1) div 8))
               OR drop_bit l2 (byteAt (idata r) ((ipos r + l2) div 8))),
         r\<lparr>ipos := ipos r + 8\<rparr>))"

fun readByteRepeatedly :: "8 word \<Rightarrow> nat \<Rightarrow> istream \<Rightarrow> bool \<times> istream" where
  "readByteRepeatedly value 0 r = (True, r)"
| "readByteRepeatedly value (Suc n) r =
     (let (b, r') = readByte r; (success, r'') = readByteRepeatedly value n r' in (value = b \<and> success, r''))"

text \<open>\<open>readBytes\<close> of a length in bytes; the remaining length is truncated to whole bytes.\<close>

definition readBytes :: "nat \<Rightarrow> istream \<Rightarrow> (8 word list \<times> istream) result" where
  "readBytes n r =
     rbind (ensure (ipos r mod 8 = 0)) (\<lambda>_.
       let over = (ipos r + 8 * n > ilength r);
           m = (if over then (ilength r - ipos r) div 8 else n)
       in rbind (ensure (ipos r div 8 + m \<le> length (idata r))) (\<lambda>_.
          Inr (map (byteAt (idata r)) [ipos r div 8 ..< ipos r div 8 + m],
               r\<lparr>ipos := ipos r + 8 * m, isReadBeyondEnd := isReadBeyondEnd r \<or> over\<rparr>)))"

definition readUint2 :: "istream \<Rightarrow> 8 word \<times> istream" where
  "readUint2 r = (let (b1, r1) = readBit r; (b0, r0) = readBit r1 in
     ((if b1 then 2 else 0) OR (if b0 then 1 else 0), r0))"

definition readUint4 :: "istream \<Rightarrow> 8 word \<times> istream" where
  "readUint4 r =
     (let (b3, r3) = readBit r; (b2, r2) = readBit r3; (b1, r1) = readBit r2; (b0, r0) = readBit r1 in
      ((if b3 then 8 else 0) OR (if b2 then 4 else 0) OR (if b1 then 2 else 0) OR (if b0 then 1 else 0), r0))"

definition readUint8 :: "istream \<Rightarrow> 8 word \<times> istream" where
  "readUint8 r = readByte r"

text \<open>\<open>value |= static_cast<T>(readByte()) << k\<close> for each of the shifts \<open>k\<close> in turn.\<close>

fun readShiftedFrom :: "nat list \<Rightarrow> 'a::len word \<Rightarrow> istream \<Rightarrow> 'a word \<times> istream" where
  "readShiftedFrom [] value r = (value, r)"
| "readShiftedFrom (k # ks) value r =
     (let (b, r') = readByte r in readShiftedFrom ks (value OR push_bit k (ucast b)) r')"

definition readUint16Be :: "istream \<Rightarrow> 16 word \<times> istream" where
  "readUint16Be = readShiftedFrom [8, 0] 0"
definition readUint16Le :: "istream \<Rightarrow> 16 word \<times> istream" where
  "readUint16Le = readShiftedFrom [0, 8] 0"
definition readUint24Be :: "istream \<Rightarrow> 32 word \<times> istream" where
  "readUint24Be = readShiftedFrom [16, 8, 0] 0"
definition readUint24Le :: "istream \<Rightarrow> 32 word \<times> istream" where
  "readUint24Le = readShiftedFrom [0, 8, 16] 0"
definition readUint32Be :: "istream \<Rightarrow> 32 word \<times> istream" where
  "readUint32Be = readShiftedFrom [24, 16, 8, 0] 0"
definition readUint32Le :: "istream \<Rightarrow> 32 word \<times> istream" where
  "readUint32Le = readShiftedFrom [0, 8, 16, 24] 0"
definition readUint48Be :: "istream \<Rightarrow> 64 word \<times> istream" where
  "readUint48Be = readShiftedFrom [40, 32, 24, 16, 8, 0] 0"
definition readUint48Le :: "istream \<Rightarrow> 64 word \<times> istream" where
  "readUint48Le = readShiftedFrom [0, 8, 16, 24, 32, 40] 0"
definition readUint64Be :: "istream \<Rightarrow> 64 word \<times> istream" where
  "readUint64Be = readShiftedFrom [56, 48, 40, 32, 24, 16, 8, 0] 0"
definition readUint64Le :: "istream \<Rightarrow> 64 word \<times> istream" where
  "readUint64Le = readShiftedFrom [0, 8, 16, 24, 32, 40, 48, 56] 0"

fun readMacBytes :: "nat list \<Rightarrow> mac \<Rightarrow> istream \<Rightarrow> mac \<times> istream" where
  "readMacBytes [] address r = (address, r)"
| "readMacBytes (i # is) address r =
     (let (b, r') = readByte r in readMacBytes is (put_byte address i b) r')"

definition readMacAddress :: "istream \<Rightarrow> mac \<times> istream" where
  "readMacAddress = readMacBytes [0 ..< MAC_ADDRESS_SIZE] 0"

definition readIpv4Address :: "istream \<Rightarrow> 32 word \<times> istream" where
  "readIpv4Address r = readUint32Be r"

definition readIpv6Address :: "istream \<Rightarrow> (32 word \<times> 32 word \<times> 32 word \<times> 32 word) \<times> istream" where
  "readIpv6Address r =
     (let (d0, r0) = readUint32Be r; (d1, r1) = readUint32Be r0; (d2, r2) = readUint32Be r1; (d3, r3) = readUint32Be r2
      in ((d0, d1, d2, d3), r3))"

text \<open>The loop ends because a byte past the end reads as zero.\<close>

function readString :: "istream \<Rightarrow> 8 word list \<times> istream" where
  "readString r =
     (let (b, r') = readByte r in
      if b = 0 then ([], r') else let (bs, r'') = readString r' in (b # bs, r''))"
  by pat_completeness auto

termination readString
  by (relation "measure (\<lambda>r. ilength r - ipos r)") (auto simp: readByte_def Let_def split: if_splits)

declare readString.simps [simp del]

fun readMaskedBits :: "nat \<Rightarrow> 64 word \<Rightarrow> 64 word \<Rightarrow> istream \<Rightarrow> 64 word \<times> istream" where
  "readMaskedBits 0 mul num r = (num, r)"
| "readMaskedBits (Suc n) mul num r =
     (let (b, r') = readBit r in readMaskedBits n (drop_bit 1 mul) (if b then num OR mul else num) r')"

definition readNBitsToUint64Be :: "(nat \<Rightarrow> 32 word) \<Rightarrow> nat \<Rightarrow> istream \<Rightarrow> (64 word \<times> istream) result" where
  "readNBitsToUint64Be wide n r =
     (if n = 0 \<or> 64 < n then Inl (RuntimeError ''Can not read 0 bit or more than 64 bits.'')
      else Inr (readMaskedBits n (bitMask wide (n - 1)) 0 r))"

section \<open>The bits of a stream\<close>

abbreviation obits :: "ostream \<Rightarrow> bool list" where
  "obits s \<equiv> copyBits s 0 None"

definition byte_bits :: "8 word \<Rightarrow> bool list" where
  "byte_bits v = map (\<lambda>i. bit v (7 - i)) [0 ..< 8]"

text \<open>The vector is just long enough and its unused bits are zero.\<close>

definition wf_out :: "ostream \<Rightarrow> bool" where
  "wf_out s \<longleftrightarrow> length (odata s) = (olength s + 7) div 8
     \<and> (\<forall>i \<in> set [olength s ..< 8 * length (odata s)]. \<not> bitAt (odata s) i)"

definition wf_in :: "istream \<Rightarrow> bool" where
  "wf_in r \<longleftrightarrow> ilength r \<le> 8 * length (idata r) \<and> ipos r \<le> ilength r"

lemma bitAt_beyond: "8 * length d \<le> i \<Longrightarrow> \<not> bitAt d i"
proof -
  assume "8 * length d \<le> i"
  then have "\<not> i div 8 < length d" by linarith
  then show ?thesis by (simp add: bitAt_def byteAt_def)
qed

lemma wf_out_beyond: "wf_out s \<Longrightarrow> olength s \<le> i \<Longrightarrow> \<not> bitAt (odata s) i"
  using bitAt_beyond [of "odata s" i] by (cases "i < 8 * length (odata s)") (auto simp: wf_out_def)

lemma wf_outI:
  assumes "length (odata s) = (olength s + 7) div 8" "\<And>i. olength s \<le> i \<Longrightarrow> \<not> bitAt (odata s) i"
  shows "wf_out s"
  using assms by (simp add: wf_out_def)

lemma wf_emptyStream [simp]: "wf_out emptyStream"
  by (simp add: wf_out_def emptyStream_def)

lemma bitAt_update:
  "bitAt (d[k := v]) i = (if i div 8 = k \<and> k < length d then bit v (7 - i mod 8) else bitAt d i)"
  by (auto simp: bitAt_def byteAt_def)

lemma bitAt_append:
  "bitAt (d @ e) i = (if i < 8 * length d then bitAt d i else bitAt e (i - 8 * length d))"
proof (cases "i < 8 * length d")
  case True
  then have "i div 8 < length d" by simp
  then show ?thesis using True by (simp add: bitAt_def byteAt_def nth_append)
next
  case False
  define j where "j = i - 8 * length d"
  have i: "i = 8 * length d + j" using False by (simp add: j_def)
  have "i div 8 = length d + j div 8" "i mod 8 = j mod 8" by (simp_all add: i)
  then show ?thesis using False by (simp add: bitAt_def byteAt_def nth_append flip: j_def)
qed

lemma obits_eq: "obits s = map (bitAt (odata s)) [0 ..< olength s]"
  by (simp add: copyBits_def)

lemma length_obits [simp]: "length (obits s) = olength s"
  by (simp add: obits_eq)

text \<open>An operation that leaves the bits before the end alone and puts \<open>vs\<close> after them.\<close>

lemma obits_appendI:
  assumes "olength t = olength s + length vs"
    and "\<And>i. i < olength s \<Longrightarrow> bitAt (odata t) i = bitAt (odata s) i"
    and "\<And>i. i < length vs \<Longrightarrow> bitAt (odata t) (olength s + i) = vs ! i"
  shows "obits t = obits s @ vs"
proof (rule nth_equalityI)
  fix i assume "i < length (obits t)"
  then show "obits t ! i = (obits s @ vs) ! i"
    using assms(1,2) assms(3) [of "i - olength s"] by (cases "i < olength s") (simp_all add: obits_eq nth_append)
qed (simp add: assms(1))

section \<open>Writing bits and bytes\<close>

lemma bitAt_writeBit:
  assumes "wf_out s"
  shows "bitAt (odata (writeBit v s)) i = (if i = olength s then v else bitAt (odata s) i)"
proof -
  define n where "n = olength s"
  define d where "d = (if n mod 8 = 0 then odata s @ [0] else odata s)"
  have len: "length (odata s) = (n + 7) div 8" using assms by (simp add: wf_out_def n_def)
  have d: "bitAt d i = bitAt (odata s) i" for i
  proof (cases "n mod 8 = 0")
    case True
    have "\<not> bitAt [0] j" for j by (simp add: bitAt_def byteAt_def)
    then show ?thesis using True bitAt_beyond [of "odata s" i] by (simp add: d_def bitAt_append)
  next
    case False
    then show ?thesis by (simp add: d_def)
  qed
  have "n div 8 < length d"
  proof (cases "n mod 8 = 0")
    case True
    then show ?thesis using len by (simp add: d_def)
  next
    case False
    then show ?thesis using len by (simp add: d_def) presburger
  qed
  have split: "i = n \<longleftrightarrow> i div 8 = n div 8 \<and> 7 - n mod 8 = 7 - i mod 8" for i
  proof -
    have "n mod 8 < 8" "i mod 8 < 8" by simp_all
    then have "7 - n mod 8 = 7 - i mod 8 \<longleftrightarrow> i mod 8 = n mod 8" by linarith
    then show ?thesis by (metis mult_div_mod_eq)
  qed
  show ?thesis
  proof (cases v)
    case False
    then show ?thesis
      using wf_out_beyond [OF assms, of "olength s"] by (simp add: writeBit_def Let_def d flip: n_def d_def)
  next
    case True
    have b: "bit (w OR 2 ^ (7 - n mod 8)) (7 - i mod 8) \<longleftrightarrow> bit w (7 - i mod 8) \<or> 7 - n mod 8 = 7 - i mod 8" for w :: "8 word" and i
      by (auto simp: bit_or_iff bit_exp_iff)
    have "bitAt (d[n div 8 := byteAt d (n div 8) OR push_bit (7 - n mod 8) 1]) i = (i = n \<or> bitAt d i)"
      using \<open>n div 8 < length d\<close> by (auto simp: bitAt_update b split [of i] bitAt_def [of d])
    then show ?thesis using True by (simp add: writeBit_def Let_def d flip: n_def d_def)
  qed
qed

lemma length_writeBit:
  assumes "wf_out s"
  shows "length (odata (writeBit v s)) = (olength s + 8) div 8"
proof -
  have len: "length (odata s) = (olength s + 7) div 8" using assms by (simp add: wf_out_def)
  have grow: "length (odata (writeBit v s)) = length (odata s) + (if olength s mod 8 = 0 then 1 else 0)"
    by (simp add: writeBit_def Let_def)
  have "(n + 7) div 8 + (if n mod 8 = 0 then 1 else 0) = (n + 8) div 8" for n :: nat
    by presburger
  then show ?thesis by (simp add: grow len)
qed

lemma writeBit_correct:
  assumes "wf_out s"
  shows "wf_out (writeBit v s)" and "obits (writeBit v s) = obits s @ [v]"
proof -
  have len: "olength (writeBit v s) = olength s + 1" by (simp add: writeBit_def Let_def)
  show "wf_out (writeBit v s)"
    using wf_out_beyond [OF assms] length_writeBit [OF assms, of v]
    by (intro wf_outI) (auto simp: len bitAt_writeBit [OF assms])
  show "obits (writeBit v s) = obits s @ [v]"
    by (rule obits_appendI) (simp_all add: len bitAt_writeBit [OF assms])
qed

lemma fold_writeBit_correct:
  "wf_out s \<Longrightarrow> wf_out (fold writeBit bs s) \<and> obits (fold writeBit bs s) = obits s @ bs"
  by (induction bs arbitrary: s) (simp_all add: writeBit_correct)

lemma bitAt_single: "bitAt [v] i = (i < 8 \<and> bit v (7 - i))"
proof (cases "i < 8")
  case False
  then have "\<not> bitAt [v] i" using bitAt_beyond [of "[v]" i] by simp
  then show ?thesis using False by simp
qed (simp add: bitAt_def byteAt_def)

lemma bit_255: "bit (0xFF :: 8 word) j = (j < 8)"
proof -
  have "(0xFF :: 8 word) = mask 8" by (simp add: mask_eq_exp_minus_1)
  then show ?thesis by (simp only: bit_mask_iff) simp
qed

lemma bit_low_part: "bit (drop_bit m (v AND push_bit m 0xFF)) j = bit (v :: 8 word) (j + m)"
  using bit_imp_le_length [of v "j + m"]
  by (simp only: bit_drop_bit_eq bit_and_iff bit_push_bit_iff bit_255 o_def) (auto simp: add.commute)

lemma bit_high_part: "bit (push_bit m (v AND drop_bit m 0xFF)) j = (m \<le> j \<and> j < 8 \<and> bit (v :: 8 word) (j - m))"
  by (simp only: bit_push_bit_iff bit_and_iff bit_drop_bit_eq bit_255 o_def) auto

lemma div8_less: "i div 8 < k \<longleftrightarrow> i < 8 * k" for i :: nat
  by (simp add: div_less_iff_less_mult mult.commute)

lemma ceiling8:
  fixes n :: nat
  assumes "n mod 8 \<noteq> 0"
  shows "(n + 7) div 8 = Suc (n div 8)"
proof -
  define q r where "q = n div 8" and "r = n mod 8"
  have "n = 8 * q + r" "r < 8" "1 \<le> r" using assms by (simp_all add: q_def r_def)
  then have "(n + 7) div 8 = Suc q" by (intro div_nat_eqI) simp_all
  then show ?thesis by (simp add: q_def)
qed

text \<open>What \<open>writeByte\<close> does to the last byte and to the new one, at any position in a byte.\<close>

lemma bitAt_writeByte_unaligned:
  assumes "wf_out s" and l1: "l1 = olength s mod 8" "l1 \<noteq> 0" and k: "k = olength s div 8"
  shows "bitAt (odata (writeByte v s)) i =
    (if i div 8 = k then bitAt (odata s) i \<or> bit v (7 - i mod 8 + (8 - l1))
     else if i div 8 = Suc k then l1 \<le> 7 - i mod 8 \<and> bit v (7 - i mod 8 - l1)
     else bitAt (odata s) i)"
proof -
  have "length (odata s) = (olength s + 7) div 8" using assms by (simp add: wf_out_def)
  then have len: "length (odata s) = Suc k" using l1 k by (simp add: ceiling8)
  define x where "x = last (odata s) OR drop_bit (8 - l1) (v AND push_bit (8 - l1) 0xFF)"
  define y where "y = push_bit l1 (v AND drop_bit l1 0xFF)"
  have "butlast (odata s) @ [x, y] = (odata s)[k := x] @ [y]"
  proof -
    have "odata s \<noteq> []" using len by auto
    then have "(odata s)[k := x] = butlast (odata s) @ [x]"
      using len by (metis append_butlast_last_id length_butlast diff_Suc_1 list_update_length)
    then show ?thesis by simp
  qed
  then have d: "odata (writeByte v s) = (odata s)[k := x] @ [y]"
    using l1 by (simp add: writeByte_def Let_def x_def y_def)
  have last: "byteAt (odata s) k = last (odata s)"
    using len by (simp add: byteAt_def last_conv_nth flip: length_0_conv)
  have "bit x (7 - i mod 8) = (bitAt (odata s) i \<or> bit v (7 - i mod 8 + (8 - l1)))" if "i div 8 = k"
    unfolding x_def bit_or_iff bit_low_part bitAt_def that last ..
  moreover have "bitAt [y] (i - 8 * Suc k) = (l1 \<le> 7 - i mod 8 \<and> bit v (7 - i mod 8 - l1))" if "i div 8 = Suc k"
  proof -
    have "i - 8 * Suc k = i mod 8" using that by (metis minus_mult_div_eq_mod)
    then show ?thesis unfolding y_def by (simp only: bitAt_single bit_high_part) auto
  qed
  moreover have "\<not> bitAt [y] (i - 8 * Suc k)" if "i \<ge> 8 * Suc k" "i div 8 \<noteq> Suc k"
    using that div8_less [of i "Suc (Suc k)"] div8_less [of i "Suc k"] by (auto simp: bitAt_single)
  moreover have "\<not> bitAt (odata s) i" if "i \<ge> 8 * Suc k"
    using bitAt_beyond [of "odata s" i] that len by simp
  moreover have "i < 8 * Suc k" if "i div 8 = k" using that div8_less [of i "Suc k"] by simp
  moreover have "\<not> i < 8 * Suc k" if "i div 8 = Suc k" using that div8_less [of i "Suc k"] by simp
  ultimately show ?thesis
    by (simp add: d bitAt_append bitAt_update len)
qed

lemma length_byte_bits [simp]: "length (byte_bits v) = 8"
  by (simp add: byte_bits_def)

lemma nth_byte_bits: "i < 8 \<Longrightarrow> byte_bits v ! i = bit v (7 - i)"
  by (simp add: byte_bits_def)

lemma olength_writeByte [simp]: "olength (writeByte v s) = olength s + 8"
  by (simp add: writeByte_def Let_def)

lemma writeByte_half_byte:
  assumes s: "wf_out s" and k: "olength s = 8 * k + 4"
  shows "bitAt (odata (writeByte v s)) i =
    (if olength s \<le> i \<and> i < olength s + 8 then bit v (7 - (i - olength s)) else bitAt (odata s) i)"
proof -
  have w: "bitAt (odata (writeByte v s)) i =
     (if i div 8 = k then bitAt (odata s) i \<or> bit v (7 - i mod 8 + 4)
      else if i div 8 = Suc k then 4 \<le> 7 - i mod 8 \<and> bit v (7 - i mod 8 - 4) else bitAt (odata s) i)"
  proof -
    have "4 = olength s mod 8" "(4 :: nat) \<noteq> 0" "k = olength s div 8" using k by simp_all
    from bitAt_writeByte_unaligned [OF s this, of v i] show ?thesis by (simp only:) simp
  qed
  define j where "j = i mod 8"
  have j: "j < 8" by (simp add: j_def)
  have i: "i = 8 * (i div 8) + j" by (simp add: j_def)
  consider "i div 8 = k" | "i div 8 = Suc k" | "i div 8 < k" | "Suc k < i div 8" by linarith
  then show ?thesis
  proof cases
    case 1
    then have ij: "i = 8 * k + j" using i by simp
    show ?thesis
    proof (cases "j < 4")
      case True
      then show ?thesis using w 1 bit_imp_le_length [of v "11 - j"] by (auto simp: ij k simp flip: j_def)
    next
      case False
      then have "7 - j + 4 = 7 - (i - olength s)" using j by (simp add: ij k)
      then show ?thesis
        using w 1 False j wf_out_beyond [OF s, of i] by (simp add: ij k flip: j_def)
    qed
  next
    case 2
    then have ij: "i = 8 * k + 8 + j" using i by simp
    have "\<not> bitAt (odata s) i" using wf_out_beyond [OF s, of i] by (simp add: ij k)
    moreover have "bitAt (odata (writeByte v s)) i = (4 \<le> 7 - j \<and> bit v (7 - j - 4))"
      using w 2 by (simp flip: j_def)
    moreover have "olength s \<le> i \<and> i < olength s + 8 \<longleftrightarrow> j < 4" "i - olength s = j + 4"
      using ij k j by auto
    ultimately show ?thesis using j by auto
  next
    case 3
    then have "i < 8 * k" by (simp add: div8_less)
    then show ?thesis using w 3 k by simp
  next
    case 4
    then have "\<not> i < 8 * Suc (Suc k)" using div8_less [of i "Suc (Suc k)"] by simp
    then show ?thesis using w 4 k by simp
  qed
qed

lemma writeByte_aligned:
  assumes s: "wf_out s" and k: "olength s = 8 * k"
  shows "bitAt (odata (writeByte v s)) i =
    (if olength s \<le> i \<and> i < olength s + 8 then bit v (7 - (i - olength s)) else bitAt (odata s) i)"
proof -
  have "length (odata s) = k" using s k by (simp add: wf_out_def)
  moreover have "odata (writeByte v s) = odata s @ [v]" using k by (simp add: writeByte_def Let_def)
  ultimately show ?thesis
    using k wf_out_beyond [OF s, of i] by (auto simp: bitAt_append bitAt_single)
qed

lemma bitAt_writeByte:
  assumes "wf_out s" "olength s mod 4 = 0"
  shows "bitAt (odata (writeByte v s)) i =
    (if olength s \<le> i \<and> i < olength s + 8 then bit v (7 - (i - olength s)) else bitAt (odata s) i)"
proof -
  obtain q where q: "olength s = 4 * q" using assms(2) by auto
  show ?thesis
  proof (cases "even q")
    case True
    then obtain k where "q = 2 * k" ..
    then show ?thesis using writeByte_aligned [OF assms(1), of k] q by simp
  next
    case False
    then obtain k where "q = 2 * k + 1" by (rule oddE)
    then show ?thesis using writeByte_half_byte [OF assms(1), of k] q by simp
  qed
qed

lemma length_writeByte:
  assumes "wf_out s"
  shows "length (odata (writeByte v s)) = (olength s + 8 + 7) div 8"
proof -
  have len: "length (odata s) = (olength s + 7) div 8" using assms by (simp add: wf_out_def)
  show ?thesis
  proof (cases "olength s mod 8 = 0")
    case True
    then show ?thesis using len by (simp add: writeByte_def Let_def)
  next
    case False
    then have "odata s \<noteq> []" using len by (auto simp: ceiling8)
    then show ?thesis using False len by (simp add: writeByte_def Let_def Suc_diff_le)
  qed
qed

text \<open>
  On a byte boundary or in the middle of a byte, \<open>writeByte\<close> appends the eight bits of the
  value, most significant first, and keeps the stream well-formed.
\<close>

theorem writeByte_correct:
  assumes "wf_out s" "olength s mod 4 = 0"
  shows "obits (writeByte v s) = obits s @ byte_bits v \<and> wf_out (writeByte v s)"
proof
  show "obits (writeByte v s) = obits s @ byte_bits v"
    by (rule obits_appendI) (simp_all add: bitAt_writeByte [OF assms] nth_byte_bits)
  show "wf_out (writeByte v s)"
    using wf_out_beyond [OF assms(1)] length_writeByte [OF assms(1), of v]
    by (intro wf_outI) (auto simp: bitAt_writeByte [OF assms])
qed

lemma writeByte_correct_witness:
  "obits (writeByte 0xA5 (writeUint4 11 emptyStream)) = [True, False, True, True] @ byte_bits 0xA5
   \<and> wf_out (writeByte 0xA5 (writeUint4 11 emptyStream))"
proof -
  have "wf_out (writeUint4 11 emptyStream)" "olength (writeUint4 11 emptyStream) mod 4 = 0"
    "obits (writeUint4 11 emptyStream) = [True, False, True, True]" by code_simp+
  then show ?thesis using writeByte_correct [of "writeUint4 11 emptyStream" "0xA5"] by simp
qed

text \<open>
  At any other position in a byte \<open>writeByte\<close> writes wrong bits: of the byte 255 the first or
  the last bit is lost, so the stream does not hold what was written.
\<close>

theorem writeByte_misaligned:
  assumes s: "wf_out s" and a: "olength s mod 4 \<noteq> 0"
  shows "obits (writeByte 0xFF s) \<noteq> obits s @ byte_bits 0xFF"
proof
  assume eq: "obits (writeByte 0xFF s) = obits s @ byte_bits 0xFF"
  define l1 k where "l1 = olength s mod 8" and "k = olength s div 8"
  have n: "olength s = 8 * k + l1" "l1 < 8" by (simp_all add: l1_def k_def)
  have "l1 mod 4 = olength s mod 4" by (simp add: l1_def mod_mod_cancel)
  then have l1: "l1 \<noteq> 0" "l1 \<noteq> 4" using a by auto
  have new: "bitAt (odata (writeByte 0xFF s)) (olength s + j)" if "j < 8" for j
  proof -
    have "byte_bits 0xFF ! j" using that by (simp only: nth_byte_bits bit_255)
    then have "obits (writeByte 0xFF s) ! (olength s + j)" unfolding eq by (simp add: nth_append)
    then show ?thesis using that by (simp add: obits_eq)
  qed
  note w = bitAt_writeByte_unaligned [OF s l1_def l1(1) k_def, of "0xFF"]
  show False
  proof (cases "l1 < 4")
    case True
    then have "\<not> bit (0xFF :: 8 word) (7 - l1 + (8 - l1))" by (simp only: bit_255)
    then show False
      using new [of 0] w [of "olength s"] wf_out_beyond [OF s, of "olength s"] by (simp only: l1_def k_def) simp
  next
    case False
    then have "l1 > 4" using l1(2) by linarith
    have i: "olength s + 7 = 8 * Suc k + (l1 - 1)" using n l1(1) by simp
    have "(olength s + 7) div 8 = Suc k" "(olength s + 7) mod 8 = l1 - 1"
      using n(2) by (simp_all only: i mod_mult_self4 div_mult_self4) simp_all
    then have "l1 \<le> 7 - (l1 - 1)" using w [of "olength s + 7"] new [of 7] by simp
    then show False using \<open>l1 > 4\<close> by linarith
  qed
qed

lemma writeByte_misaligned_witness:
  "wf_out (writeBit True emptyStream) \<and> olength (writeBit True emptyStream) mod 4 \<noteq> 0
   \<and> obits (writeByte 0xFF (writeBit True emptyStream)) \<noteq> obits (writeBit True emptyStream) @ byte_bits 0xFF"
proof -
  have "wf_out (writeBit True emptyStream)" by code_simp
  moreover have "olength (writeBit True emptyStream) mod 4 \<noteq> 0" by code_simp
  ultimately show ?thesis using writeByte_misaligned by blast
qed

section \<open>Reading bits and bytes\<close>

lemma readByte_simps:
  "ipos r + 8 \<le> ilength r \<Longrightarrow> snd (readByte r) = r\<lparr>ipos := ipos r + 8\<rparr>"
  "ilength r < ipos r + 8 \<Longrightarrow> readByte r = (0, r\<lparr>isReadBeyondEnd := True, ipos := ilength r\<rparr>)"
  by (simp_all add: readByte_def Let_def)

lemma bit_readByte:
  assumes "ipos r + 8 \<le> ilength r" and j: "j < 8"
  shows "bit (fst (readByte r)) j = bitAt (idata r) (ipos r + (7 - j))"
proof -
  define l1 k where "l1 = ipos r mod 8" and "k = ipos r div 8"
  have n: "ipos r = 8 * k + l1" "l1 < 8" by (simp_all add: l1_def k_def)
  show ?thesis
  proof (cases "l1 = 0")
    case True
    have "(8 * k + (7 - j)) div 8 = k" "(8 * k + (7 - j)) mod 8 = 7 - j"
      by (simp_all only: mod_mult_self4 div_mult_self4) simp_all
    then show ?thesis
      using assms n True j by (simp add: readByte_def Let_def bitAt_def flip: l1_def)
  next
    case False
    have r: "fst (readByte r) = push_bit l1 (byteAt (idata r) k) OR drop_bit (8 - l1) (byteAt (idata r) (Suc k))"
    proof -
      have "(ipos r - l1) div 8 = k" "(ipos r + (8 - l1)) div 8 = Suc k" using n by simp_all
      then show ?thesis using assms(1) False by (simp add: readByte_def Let_def flip: l1_def)
    qed
    show ?thesis
    proof (cases "l1 \<le> j")
      case True
      have "ipos r + (7 - j) = 8 * k + (l1 + (7 - j))" "l1 + (7 - j) < 8" using n True j by simp_all
      then have "(ipos r + (7 - j)) div 8 = k" "(ipos r + (7 - j)) mod 8 = l1 + (7 - j)"
        by (simp_all only: mod_mult_self4 div_mult_self4) simp_all
      moreover have "bit (fst (readByte r)) j = bit (byteAt (idata r) k) (j - l1)"
        using True j bit_imp_le_length [of "byteAt (idata r) (Suc k)" "j + (8 - l1)"] n(2)
        by (auto simp: r bit_or_iff bit_push_bit_iff bit_drop_bit_eq add.commute)
      moreover have "7 - (l1 + (7 - j)) = j - l1" using j by simp
      ultimately show ?thesis unfolding bitAt_def by (simp only:)
    next
      case l: False
      have "ipos r + (7 - j) = 8 * Suc k + (l1 - 1 - j)" "l1 - 1 - j < 8" using n l j by simp_all
      then have "(ipos r + (7 - j)) div 8 = Suc k" "(ipos r + (7 - j)) mod 8 = l1 - 1 - j"
        by (simp_all only: mod_mult_self4 div_mult_self4) simp_all
      moreover have "bit (fst (readByte r)) j = bit (byteAt (idata r) (Suc k)) (8 - l1 + j)"
        using l by (simp add: r bit_or_iff bit_push_bit_iff bit_drop_bit_eq)
      moreover have "7 - (l1 - 1 - j) = 8 - l1 + j" using l n(2) by simp
      ultimately show ?thesis unfolding bitAt_def by (simp only:)
    qed
  qed
qed

text \<open>
  Reading a byte is right at every position in a byte: it returns the next eight bits of the
  stream, most significant first, and advances by eight; past the end it returns zero and flags it.
\<close>

theorem readByte_correct:
  shows "if ipos r + 8 \<le> ilength r
         then byte_bits (fst (readByte r)) = map (bitAt (idata r)) [ipos r ..< ipos r + 8]
            \<and> snd (readByte r) = r\<lparr>ipos := ipos r + 8\<rparr>
         else readByte r = (0, r\<lparr>isReadBeyondEnd := True, ipos := ilength r\<rparr>)"
proof (cases "ipos r + 8 \<le> ilength r")
  case True
  have "byte_bits (fst (readByte r)) = map (bitAt (idata r)) [ipos r ..< ipos r + 8]"
    by (rule nth_equalityI) (use bit_readByte [OF True] in \<open>simp_all add: nth_byte_bits\<close>)
  then show ?thesis using True readByte_simps(1) [OF True] by simp
next
  case False
  then show ?thesis using readByte_simps(2) [of r] by simp
qed

section \<open>Encodings in bytes\<close>

text \<open>
  Between whole bytes a stream is a list of bytes: writing appends the encoding of a value and
  reading it back returns the value in the range that the encoding keeps.
\<close>

definition byte_aligned :: "ostream \<Rightarrow> bool" where
  "byte_aligned s \<longleftrightarrow> olength s = 8 * length (odata s)"

definition append_bytes :: "8 word list \<Rightarrow> ostream \<Rightarrow> ostream" where
  "append_bytes bs s = s\<lparr>odata := odata s @ bs, olength := olength s + 8 * length bs\<rparr>"

definition at_bytes :: "istream \<Rightarrow> 8 word list \<Rightarrow> bool" where
  "at_bytes r bs \<longleftrightarrow> (\<exists>pre post. idata r = pre @ bs @ post \<and> ipos r = 8 * length pre \<and> ilength r = 8 * length (idata r))"

definition skip_bytes :: "nat \<Rightarrow> istream \<Rightarrow> istream" where
  "skip_bytes n r = r\<lparr>ipos := ipos r + 8 * n\<rparr>"

text \<open>A reader of what has been written after \<open>s\<close>.\<close>

definition read_after :: "ostream \<Rightarrow> ostream \<Rightarrow> istream" where
  "read_after s t = (openStream (odata t))\<lparr>ipos := olength s\<rparr>"

lemma byte_aligned_append [simp]: "byte_aligned (append_bytes bs s) = byte_aligned s"
  by (simp add: byte_aligned_def append_bytes_def)

lemma append_bytes_append: "append_bytes cs (append_bytes bs s) = append_bytes (bs @ cs) s"
  by (simp add: append_bytes_def)

lemma append_bytes_Nil [simp]: "append_bytes [] s = s"
  by (simp add: append_bytes_def)

lemma skip_bytes_simps [simp]: "skip_bytes 0 r = r" "skip_bytes m (skip_bytes n r) = skip_bytes (n + m) r"
  by (simp_all add: skip_bytes_def)

lemma at_bytes_append: "at_bytes r (bs @ cs) \<Longrightarrow> at_bytes r bs \<and> at_bytes (skip_bytes (length bs) r) cs"
proof -
  assume "at_bytes r (bs @ cs)"
  then obtain pre post where r: "idata r = pre @ (bs @ cs) @ post" "ipos r = 8 * length pre" "ilength r = 8 * length (idata r)"
    by (auto simp: at_bytes_def)
  then have "idata r = pre @ bs @ (cs @ post)" "idata (skip_bytes (length bs) r) = (pre @ bs) @ cs @ post"
    "ipos (skip_bytes (length bs) r) = 8 * length (pre @ bs)"
    by (simp_all add: skip_bytes_def)
  then show ?thesis using r unfolding at_bytes_def by (metis istream.select_convs(1,2) istream.update_convs(3) skip_bytes_def istream.surjective)
qed

lemma read_after_append: "byte_aligned s \<Longrightarrow> at_bytes (read_after s (append_bytes bs s)) bs"
  unfolding at_bytes_def
  by (intro exI [of _ "odata s"] exI [of _ "[]"])
    (simp add: read_after_def append_bytes_def byte_aligned_def openStream_def)

lemma writeByte_bytes: "byte_aligned s \<Longrightarrow> writeByte v s = append_bytes [v] s"
  by (simp add: writeByte_def append_bytes_def byte_aligned_def Let_def)

lemma readByte_bytes: "at_bytes r [b] \<Longrightarrow> readByte r = (b, skip_bytes 1 r)"
  by (auto simp: at_bytes_def readByte_def skip_bytes_def byteAt_def Let_def)

locale byte_codec =
  fixes put :: "'a \<Rightarrow> ostream \<Rightarrow> ostream"
    and get :: "istream \<Rightarrow> 'a \<times> istream"
    and enc :: "'a \<Rightarrow> 8 word list"
    and norm :: "'a \<Rightarrow> 'a"
  assumes put_law: "byte_aligned s \<Longrightarrow> put v s = append_bytes (enc v) s"
    and get_law: "at_bytes r (enc v) \<Longrightarrow> get r = (norm v, skip_bytes (length (enc v)) r)"
begin

lemma round_trip: "byte_aligned s \<Longrightarrow> fst (get (read_after s (put v s))) = norm v"
  using get_law [OF read_after_append, of s v] by (simp add: put_law)

lemma put_list: "byte_aligned s \<Longrightarrow> fold put vs s = append_bytes (concat (map enc vs)) s"
  by (induction vs arbitrary: s) (simp_all add: put_law append_bytes_append)

fun get_list :: "nat \<Rightarrow> istream \<Rightarrow> 'a list \<times> istream" where
  "get_list 0 r = ([], r)"
| "get_list (Suc n) r = (let (v, r') = get r; (vs, r'') = get_list n r' in (v # vs, r''))"

lemma get_list_law:
  "at_bytes r (concat (map enc vs)) \<Longrightarrow>
   get_list (length vs) r = (map norm vs, skip_bytes (length (concat (map enc vs))) r)"
proof (induction vs arbitrary: r)
  case Nil
  then show ?case by simp
next
  case (Cons v vs)
  from at_bytes_append [of r "enc v" "concat (map enc vs)"] Cons.prems
  have "at_bytes r (enc v)" "at_bytes (skip_bytes (length (enc v)) r) (concat (map enc vs))" by simp_all
  then show ?case using get_law Cons.IH by simp
qed

lemma list_round_trip:
  "byte_aligned s \<Longrightarrow> fst (get_list (length vs) (read_after s (fold put vs s))) = map norm vs"
  using get_list_law [OF read_after_append, of s vs] by (simp add: put_list)

end

text \<open>Two encodings one after the other.\<close>

locale codec_pair = c1: byte_codec put1 get1 enc1 norm1 + c2: byte_codec put2 get2 enc2 norm2
  for put1 :: "'a \<Rightarrow> ostream \<Rightarrow> ostream" and get1 enc1 norm1
    and put2 :: "'b \<Rightarrow> ostream \<Rightarrow> ostream" and get2 enc2 norm2
begin

definition put_pair :: "'a \<times> 'b \<Rightarrow> ostream \<Rightarrow> ostream" where
  "put_pair p s = put2 (snd p) (put1 (fst p) s)"

definition get_pair :: "istream \<Rightarrow> ('a \<times> 'b) \<times> istream" where
  "get_pair r = (let (v, r1) = get1 r; (w, r2) = get2 r1 in ((v, w), r2))"

sublocale pair: byte_codec put_pair get_pair "\<lambda>p. enc1 (fst p) @ enc2 (snd p)" "map_prod norm1 norm2"
proof
  show "byte_aligned s \<Longrightarrow> put_pair p s = append_bytes (enc1 (fst p) @ enc2 (snd p)) s" for p s
    by (simp add: put_pair_def c1.put_law c2.put_law append_bytes_append)
  show "get_pair r = (map_prod norm1 norm2 p, skip_bytes (length (enc1 (fst p) @ enc2 (snd p))) r)"
    if "at_bytes r (enc1 (fst p) @ enc2 (snd p))" for r p
  proof -
    note at = at_bytes_append [OF that]
    show ?thesis
      using c1.get_law [OF conjunct1 [OF at]] c2.get_law [OF conjunct2 [OF at]]
      by (simp add: get_pair_def map_prod_def case_prod_beta)
  qed
qed

end

section \<open>Integers\<close>

definition shifted_bytes :: "nat list \<Rightarrow> 'a::len word \<Rightarrow> 8 word list" where
  "shifted_bytes ks v = map (\<lambda>k. ucast (drop_bit k v)) ks"

lemma writeShifted_bytes: "byte_aligned s \<Longrightarrow> writeShifted ks v s = append_bytes (shifted_bytes ks v) s"
  by (induction ks arbitrary: s)
    (simp_all add: writeShifted_def shifted_bytes_def writeByte_bytes append_bytes_append)

lemma readShiftedFrom_bytes:
  fixes v acc :: "'a::len word"
  shows "at_bytes r (shifted_bytes ks v) \<Longrightarrow>
   readShiftedFrom ks acc r =
     (fold (\<lambda>k a. a OR push_bit k (ucast (ucast (drop_bit k v) :: 8 word))) ks acc, skip_bytes (length ks) r)"
proof (induction ks arbitrary: r acc)
  case Nil
  then show ?case by simp
next
  case (Cons k ks)
  have "at_bytes r [ucast (drop_bit k v)]" "at_bytes (skip_bytes 1 r) (shifted_bytes ks v)"
    using at_bytes_append [of r "[ucast (drop_bit k v)]" "shifted_bytes ks v"] Cons.prems
    by (simp_all add: shifted_bytes_def)
  then show ?case by (simp add: readByte_bytes Cons.IH)
qed

lemma bit_fold_shifted:
  fixes v acc :: "'a::len word"
  shows "bit (fold (\<lambda>k a. a OR push_bit k (ucast (ucast (drop_bit k v) :: 8 word))) ks acc) i
    \<longleftrightarrow> bit acc i \<or> (\<exists>k \<in> set ks. k \<le> i \<and> i < k + 8 \<and> bit v i)"
proof (induction ks arbitrary: acc)
  case Nil
  show ?case by simp
next
  case (Cons k ks)
  have "bit (push_bit k (ucast (ucast (drop_bit k v) :: 8 word)) :: 'a word) i \<longleftrightarrow> k \<le> i \<and> i < k + 8 \<and> bit v i"
    using bit_imp_le_length [of v i] by (auto simp: bit_push_bit_iff bit_ucast_iff bit_drop_bit_eq)
  then show ?case unfolding fold_simps o_def Cons.IH by (auto simp: bit_or_iff)
qed

lemma shifted_codec:
  assumes ks: "set ks = set (map (\<lambda>j. 8 * j) [0 ..< n])"
  shows "byte_codec (writeShifted ks) (readShiftedFrom ks 0) (shifted_bytes ks) (take_bit (8 * n))"
proof
  have range: "i < 8 * n \<longleftrightarrow> (\<exists>k \<in> set ks. k \<le> i \<and> i < k + 8)" for i
  proof
    assume "i < 8 * n"
    then have "8 * (i div 8) \<in> set ks" "8 * (i div 8) \<le> i" "i < 8 * (i div 8) + 8"
      using ks div8_less [of i n] div8_less [of i "Suc (i div 8)"] by simp_all
    then show "\<exists>k \<in> set ks. k \<le> i \<and> i < k + 8" by blast
  qed (auto simp: ks)
  show "byte_aligned s \<Longrightarrow> writeShifted ks v s = append_bytes (shifted_bytes ks v) s" for v :: "'a word" and s
    by (rule writeShifted_bytes)
  show "readShiftedFrom ks 0 r = (take_bit (8 * n) v, skip_bytes (length (shifted_bytes ks v)) r)"
    if "at_bytes r (shifted_bytes ks v)" for v :: "'a word" and r
  proof -
    have "fold (\<lambda>k a. a OR push_bit k (ucast (ucast (drop_bit k v) :: 8 word))) ks 0 = take_bit (8 * n) v"
      by (rule bit_word_eqI) (auto simp: bit_fold_shifted bit_take_bit_iff range)
    then show ?thesis using readShiftedFrom_bytes [OF that, of 0] by (simp add: shifted_bytes_def)
  qed
qed

interpretation u8: byte_codec writeUint8 readUint8 "\<lambda>v. [v]" "\<lambda>v. v"
  by unfold_locales (simp_all add: writeUint8_def readUint8_def writeByte_bytes readByte_bytes)

interpretation u16be: byte_codec writeUint16Be readUint16Be "shifted_bytes [8, 0]" "take_bit (8 * 2)"
  unfolding writeUint16Be_def readUint16Be_def by (rule shifted_codec) code_simp

interpretation u16le: byte_codec writeUint16Le readUint16Le "shifted_bytes [0, 8]" "take_bit (8 * 2)"
  unfolding writeUint16Le_def readUint16Le_def by (rule shifted_codec) code_simp

interpretation u24be: byte_codec writeUint24Be readUint24Be "shifted_bytes [16, 8, 0]" "take_bit (8 * 3)"
  unfolding writeUint24Be_def readUint24Be_def by (rule shifted_codec) code_simp

interpretation u24le: byte_codec writeUint24Le readUint24Le "shifted_bytes [0, 8, 16]" "take_bit (8 * 3)"
  unfolding writeUint24Le_def readUint24Le_def by (rule shifted_codec) code_simp

interpretation u32be: byte_codec writeUint32Be readUint32Be "shifted_bytes [24, 16, 8, 0]" "take_bit (8 * 4)"
  unfolding writeUint32Be_def readUint32Be_def by (rule shifted_codec) code_simp

interpretation u32le: byte_codec writeUint32Le readUint32Le "shifted_bytes [0, 8, 16, 24]" "take_bit (8 * 4)"
  unfolding writeUint32Le_def readUint32Le_def by (rule shifted_codec) code_simp

interpretation u48be: byte_codec writeUint48Be readUint48Be "shifted_bytes [40, 32, 24, 16, 8, 0]" "take_bit (8 * 6)"
  unfolding writeUint48Be_def readUint48Be_def by (rule shifted_codec) code_simp

interpretation u48le: byte_codec writeUint48Le readUint48Le "shifted_bytes [0, 8, 16, 24, 32, 40]" "take_bit (8 * 6)"
  unfolding writeUint48Le_def readUint48Le_def by (rule shifted_codec) code_simp

interpretation u64be: byte_codec writeUint64Be readUint64Be "shifted_bytes [56, 48, 40, 32, 24, 16, 8, 0]" "take_bit (8 * 8)"
  unfolding writeUint64Be_def readUint64Be_def by (rule shifted_codec) code_simp

interpretation u64le: byte_codec writeUint64Le readUint64Le "shifted_bytes [0, 8, 16, 24, 32, 40, 48, 56]" "take_bit (8 * 8)"
  unfolding writeUint64Le_def readUint64Le_def by (rule shifted_codec) code_simp

lemma take_bit_full: "LENGTH('a) \<le> n \<Longrightarrow> take_bit n (v :: 'a::len word) = v"
  by (rule bit_word_eqI) (simp add: bit_take_bit_iff)

text \<open>
  Integers of every width come back as they were written, in both byte orders; of a value that
  is wider than the field (24 bits of 32, 48 of 64) the low bits come back.
\<close>

theorem integer_roundtrip:
  assumes "byte_aligned s"
  shows "fst (readUint16Be (read_after s (writeUint16Be a s))) = a
    \<and> fst (readUint16Le (read_after s (writeUint16Le a s))) = a
    \<and> fst (readUint24Be (read_after s (writeUint24Be b s))) = take_bit 24 b
    \<and> fst (readUint24Le (read_after s (writeUint24Le b s))) = take_bit 24 b
    \<and> fst (readUint32Be (read_after s (writeUint32Be b s))) = b
    \<and> fst (readUint32Le (read_after s (writeUint32Le b s))) = b
    \<and> fst (readUint48Be (read_after s (writeUint48Be c s))) = take_bit 48 c
    \<and> fst (readUint48Le (read_after s (writeUint48Le c s))) = take_bit 48 c
    \<and> fst (readUint64Be (read_after s (writeUint64Be c s))) = c
    \<and> fst (readUint64Le (read_after s (writeUint64Le c s))) = c"
  using u16be.round_trip [OF assms, of a] u16le.round_trip [OF assms, of a]
    u24be.round_trip [OF assms, of b] u24le.round_trip [OF assms, of b]
    u32be.round_trip [OF assms, of b] u32le.round_trip [OF assms, of b]
    u48be.round_trip [OF assms, of c] u48le.round_trip [OF assms, of c]
    u64be.round_trip [OF assms, of c] u64le.round_trip [OF assms, of c]
  by (simp add: take_bit_full)

lemma integer_roundtrip_witness:
  "fst (readUint24Be (read_after emptyStream (writeUint24Be 0x12345678 emptyStream))) = 0x345678
   \<and> byte_aligned emptyStream"
proof -
  have "byte_aligned emptyStream" by (simp add: byte_aligned_def emptyStream_def)
  then show ?thesis using integer_roundtrip [of emptyStream 0 "0x12345678" 0] by simp
qed

section \<open>Addresses and strings\<close>

lemma readMacBytes_law:
  "at_bytes r bs \<Longrightarrow> length is = length bs \<Longrightarrow>
   readMacBytes is a r = (fold (\<lambda>(k, b) a. put_byte a k b) (zip is bs) a, skip_bytes (length bs) r)"
proof (induction bs arbitrary: r "is" a)
  case Nil
  then show ?case by simp
next
  case (Cons b bs)
  then obtain i is' where "is": "is = i # is'" by (cases "is") auto
  have "at_bytes r [b]" "at_bytes (skip_bytes 1 r) bs"
    using at_bytes_append [of r "[b]" bs] Cons.prems(1) by simp_all
  then show ?case using Cons.IH [of "skip_bytes 1 r" is'] Cons.prems(2) by (simp add: "is" readByte_bytes)
qed

interpretation mac_codec: byte_codec writeMacAddress readMacAddress getAddressBytes "\<lambda>a. setAddressBytes (getAddressBytes a)"
proof
  have u: "[0 ..< MAC_ADDRESS_SIZE] = [0, 1, 2, 3, 4, 5]" by code_simp
  show "writeMacAddress a s = append_bytes (getAddressBytes a) s" if "byte_aligned s" for a s
    using that by (simp add: writeMacAddress_def u getAddressBytes_def writeByte_bytes append_bytes_append)
  show "readMacAddress r = (setAddressBytes (getAddressBytes a), skip_bytes (length (getAddressBytes a)) r)"
    if "at_bytes r (getAddressBytes a)" for a r
    using readMacBytes_law [OF that, of "[0, 1, 2, 3, 4, 5]" 0]
    by (simp add: readMacAddress_def u setAddressBytes_def getAddressBytes_def)
qed

lemma readString_law:
  "at_bytes r (cs @ [0]) \<Longrightarrow> 0 \<notin> set cs \<Longrightarrow> readString r = (cs, skip_bytes (length cs + 1) r)"
proof (induction cs arbitrary: r)
  case Nil
  then show ?case by (simp add: readString.simps [of r] readByte_bytes)
next
  case (Cons c cs)
  have "at_bytes r [c]" "at_bytes (skip_bytes 1 r) (cs @ [0])"
    using at_bytes_append [of r "[c]" "cs @ [0]"] Cons.prems(1) by simp_all
  then show ?case using Cons.IH [of "skip_bytes 1 r"] Cons.prems(2) by (simp add: readString.simps [of r] readByte_bytes)
qed

lemma writeString_law: "byte_aligned s \<Longrightarrow> writeString cs s = Inr (append_bytes (cs @ [0]) s)"
proof -
  assume s: "byte_aligned s"
  have "map ((!) cs) [0 ..< length cs] = cs" by (rule map_nth)
  then have "writeBytes cs 0 None s = Inr (append_bytes cs s)"
    using s by (simp add: writeBytes_def append_bytes_def byte_aligned_def)
  then show ?thesis using s by (simp add: writeString_def writeByte_bytes append_bytes_append)
qed

text \<open>
  MAC addresses and strings come back as they were written, and a string that contains a zero
  byte comes back only up to it.
\<close>

theorem address_and_string_roundtrip:
  assumes "byte_aligned s"
  shows "(wf_mac a \<longrightarrow> fst (readMacAddress (read_after s (writeMacAddress a s))) = a)
    \<and> (\<exists>t. writeString cs s = Inr t \<and> fst (readString (read_after s t)) = takeWhile (\<lambda>c. c \<noteq> 0) cs)"
proof (intro conjI impI)
  show "fst (readMacAddress (read_after s (writeMacAddress a s))) = a" if "wf_mac a"
    using mac_codec.round_trip [OF assms, of a] that by (simp add: setAddressBytes_def getAddressBytes_def put_all_bytes [simplified])
  define ds where "ds = takeWhile (\<lambda>c. c \<noteq> 0) cs"
  obtain rest where rest: "cs @ [0] = ds @ [0] @ rest"
  proof (cases "0 \<in> set cs")
    case True
    then have "dropWhile (\<lambda>c. c \<noteq> 0) cs \<noteq> []" by (auto simp: dropWhile_eq_Nil_conv)
    then obtain c es where "dropWhile (\<lambda>c. c \<noteq> 0) cs = c # es" by (cases "dropWhile (\<lambda>c. c \<noteq> 0) cs") auto
    moreover from this have "c = 0" using hd_dropWhile [of "\<lambda>c. c \<noteq> 0" cs] by simp
    ultimately have "cs = ds @ 0 # es" unfolding ds_def by (metis takeWhile_dropWhile_id)
    then show ?thesis using that by simp
  next
    case False
    then have "ds = cs" by (auto simp: ds_def takeWhile_eq_all_conv)
    then show ?thesis using that by simp
  qed
  have "0 \<notin> set ds" by (auto simp: ds_def dest: set_takeWhileD)
  have "at_bytes (read_after s (append_bytes (cs @ [0]) s)) ((ds @ [0]) @ rest)"
    using read_after_append [OF assms, of "cs @ [0]"] rest by simp
  then have "at_bytes (read_after s (append_bytes (cs @ [0]) s)) (ds @ [0])" by (rule conjunct1 [OF at_bytes_append])
  from readString_law [OF this \<open>0 \<notin> set ds\<close>]
  show "\<exists>t. writeString cs s = Inr t \<and> fst (readString (read_after s t)) = ds"
    by (simp add: writeString_law [OF assms])
qed

section \<open>Sequences of bits\<close>

definition bits_at :: "istream \<Rightarrow> bool list \<Rightarrow> bool" where
  "bits_at r bs \<longleftrightarrow> ipos r + length bs \<le> ilength r \<and> map (bitAt (idata r)) [ipos r ..< ipos r + length bs] = bs"

lemma bits_at_Cons:
  "bits_at r (b # bs) \<longleftrightarrow> ipos r < ilength r \<and> bitAt (idata r) (ipos r) = b \<and> bits_at (r\<lparr>ipos := ipos r + 1\<rparr>) bs"
  unfolding bits_at_def by (subst upt_conv_Cons) auto

lemma readBit_at: "bits_at r (b # bs) \<Longrightarrow> readBit r = (b, r\<lparr>ipos := ipos r + 1\<rparr>)"
  by (simp add: bits_at_Cons readBit_def)

lemma readBits_at:
  "bits_at r bs \<Longrightarrow> \<not> isReadBeyondEnd r \<Longrightarrow> readBits (length bs) r = (bs, r\<lparr>ipos := ipos r + length bs\<rparr>)"
proof (induction bs arbitrary: r)
  case Nil
  then show ?case by simp
next
  case (Cons b bs)
  have "bits_at (r\<lparr>ipos := ipos r + 1\<rparr>) bs" using Cons.prems(1) by (simp add: bits_at_Cons)
  from Cons.IH [OF this] Cons.prems(2) show ?case by (simp add: readBit_at [OF Cons.prems(1)])
qed

text \<open>What has been written can be read.\<close>

lemma bits_at_read_after:
  assumes "wf_out t" "obits t = obits s @ bs"
  shows "bits_at (read_after s t) bs"
proof -
  have len: "olength t = olength s + length bs"
    using arg_cong [OF assms(2), of length] by simp
  moreover have "olength t \<le> 8 * length (odata t)"
    using assms(1) div8_less [of "olength t + 7" "Suc (length (odata t))"] by (auto simp: wf_out_def)
  moreover have "map (bitAt (odata t)) [olength s ..< olength t] = drop (olength s) (obits t)"
    by (simp add: obits_eq drop_map)
  ultimately show ?thesis
    using assms(2) by (simp add: bits_at_def read_after_def openStream_def)
qed

text \<open>
  A sequence of bits, at any position in a byte, is appended to the bits of the stream and
  read back as it was.
\<close>

theorem bits_roundtrip:
  assumes "wf_out s"
  shows "\<exists>t. writeBits bs 0 None s = Inr t \<and> wf_out t \<and> obits t = obits s @ bs
    \<and> fst (readBits (length bs) (read_after s t)) = bs"
proof -
  define t where "t = fold writeBit bs s"
  have "writeBits bs 0 None s = Inr t" by (simp add: writeBits_def t_def map_nth)
  moreover have t: "wf_out t" "obits t = obits s @ bs" using fold_writeBit_correct [OF assms] by (auto simp: t_def)
  moreover have "\<not> isReadBeyondEnd (read_after s t)" by (simp add: read_after_def openStream_def)
  ultimately show ?thesis using readBits_at [OF bits_at_read_after [OF t]] by auto
qed

lemma bits_roundtrip_witness:
  "\<exists>t. writeBits [True, False, True] 0 None emptyStream = Inr t \<and> fst (readBits 3 (read_after emptyStream t)) = [True, False, True]"
  using bits_roundtrip [OF wf_emptyStream, of "[True, False, True]"] by (auto simp: numeral_3_eq_3 simp del: readBits.simps)

section \<open>Integers of a number of bits\<close>

lemma writeMaskedBits_fold:
  "writeMaskedBits value n mul s = fold writeBit (map (\<lambda>i. value AND drop_bit i mul \<noteq> 0) [0 ..< n]) s"
proof (induction n arbitrary: mul s)
  case 0
  show ?case by simp
next
  case (Suc n)
  have "map (\<lambda>i. value AND drop_bit i mul \<noteq> 0) [0 ..< Suc n]
    = (value AND mul \<noteq> 0) # map (\<lambda>i. value AND drop_bit i (drop_bit 1 mul) \<noteq> 0) [0 ..< n]"
    by (simp add: upt_conv_Cons map_Suc_upt [symmetric] del: upt_Suc)
  then show ?case by (simp only: writeMaskedBits.simps Suc.IH) simp
qed

lemma bit_readMaskedBits:
  "bits_at r bs \<Longrightarrow> n = length bs \<Longrightarrow>
   bit (fst (readMaskedBits n mul num r)) j \<longleftrightarrow> bit num j \<or> (\<exists>i < n. bs ! i \<and> bit (drop_bit i mul) j)"
proof (induction bs arbitrary: n r mul num)
  case Nil
  then show ?case by simp
next
  case (Cons b bs)
  have "bits_at (r\<lparr>ipos := ipos r + 1\<rparr>) bs" using Cons.prems(1) by (simp add: bits_at_Cons)
  from Cons.IH [OF this refl] Cons.prems(2) show ?case
    by (auto simp: readBit_at [OF Cons.prems(1)] bit_or_iff less_Suc_eq_0_disj)
qed

lemma bitMask_small: "k < 31 \<Longrightarrow> bit (bitMask wide k) j \<longleftrightarrow> j = k"
  by (auto simp: bitMask_def bit_signed_iff bit_exp_iff)

lemma mask_bit_written:
  assumes "0 < n" "n < 32" "i < n"
  shows "(value AND drop_bit i (bitMask wide (n - 1)) \<noteq> 0) = bit value (n - 1 - i)"
proof -
  have "bit (value AND drop_bit i (bitMask wide (n - 1))) j \<longleftrightarrow> j = n - 1 - i \<and> bit value (n - 1 - i)" for j
  proof -
    have "i + j = n - 1 \<longleftrightarrow> j = n - 1 - i" using assms by linarith
    then show ?thesis using assms by (auto simp: bit_and_iff bit_drop_bit_eq bitMask_small)
  qed
  then show ?thesis by (metis bit_eq_iff bit_0_eq bot_apply bot_bool_def)
qed

text \<open>
  Up to 31 bits of an integer are written most significant bit first, at any position in a
  byte, and reading as many bits back gives the low bits of the integer.
\<close>

theorem nbits_roundtrip:
  assumes "wf_out s" "0 < n" "n < 32"
  shows "\<exists>t num r. writeNBitsOfUint64Be wide value n s = Inr t \<and> wf_out t
    \<and> obits t = obits s @ map (bit value) (rev [0 ..< n])
    \<and> readNBitsToUint64Be wide n (read_after s t) = Inr (num, r) \<and> num = take_bit n value"
proof -
  define bs where "bs = map (bit value) (rev [0 ..< n])"
  define t where "t = fold writeBit bs s"
  have bs: "length bs = n" "bs ! i = bit value (n - 1 - i)" if "i < n" for i
    using that by (simp_all add: bs_def rev_nth)
  have "map (\<lambda>i. value AND drop_bit i (bitMask wide (n - 1)) \<noteq> 0) [0 ..< n] = bs"
    by (rule nth_equalityI) (use assms bs mask_bit_written in auto)
  then have w: "writeNBitsOfUint64Be wide value n s = Inr t"
    using assms by (simp add: writeNBitsOfUint64Be_def writeMaskedBits_fold t_def)
  have t: "wf_out t" "obits t = obits s @ bs" using fold_writeBit_correct [OF assms(1)] by (auto simp: t_def)
  have "fst (readMaskedBits n (bitMask wide (n - 1)) 0 (read_after s t)) = take_bit n value"
  proof (rule bit_word_eqI)
    fix j assume "j < LENGTH(64)"
    have "(\<exists>i < n. bs ! i \<and> bit (drop_bit i (bitMask wide (n - 1))) j) \<longleftrightarrow> j < n \<and> bit value j"
    proof
      assume "\<exists>i < n. bs ! i \<and> bit (drop_bit i (bitMask wide (n - 1))) j"
      then obtain i where "i < n" "bs ! i" "j + i = n - 1"
        using assms by (auto simp: bit_drop_bit_eq bitMask_small add.commute)
      moreover from this have "n - 1 - i = j" by simp
      ultimately show "j < n \<and> bit value j" using bs(2) [of i] by auto
    next
      assume "j < n \<and> bit value j"
      then show "\<exists>i < n. bs ! i \<and> bit (drop_bit i (bitMask wide (n - 1))) j"
        using assms bs(2) [of "n - 1 - j"]
        by (intro exI [of _ "n - 1 - j"]) (simp add: bit_drop_bit_eq bitMask_small)
    qed
    then show "bit (fst (readMaskedBits n (bitMask wide (n - 1)) 0 (read_after s t))) j \<longleftrightarrow> bit (take_bit n value) j"
      using bit_readMaskedBits [OF bits_at_read_after [OF t], of n] bs(1) assms(2)
      by (simp add: bit_take_bit_iff)
  qed
  then show ?thesis
    using w t assms by (cases "readMaskedBits n (bitMask wide (n - 1)) 0 (read_after s t)")
      (auto simp: readNBitsToUint64Be_def bs_def)
qed

lemma nbits_roundtrip_witness:
  "\<exists>t num r. writeNBitsOfUint64Be (\<lambda>_. 0) 13 5 emptyStream = Inr t
    \<and> readNBitsToUint64Be (\<lambda>_. 0) 5 (read_after emptyStream t) = Inr (num, r) \<and> num = take_bit 5 13"
  using nbits_roundtrip [OF wf_emptyStream, of 5 "\<lambda>_. 0" 13] by auto

text \<open>
  A field of 32 bits is written wrongly: the mask \<open>1 << 31\<close> is negative and its sign extension
  makes every bit of the field true as soon as the highest one is.
\<close>

theorem nbits_of_32_smear:
  assumes "wf_out s" "bit value 31"
  shows "\<exists>t. writeNBitsOfUint64Be wide value 32 s = Inr t \<and> obits t = obits s @ replicate 32 True"
proof -
  define m where "m = bitMask wide 31"
  have m: "bit m j \<longleftrightarrow> 31 \<le> j \<and> j < 64" for j
  proof -
    have "m = NOT (mask 31)" by (simp add: m_def bitMask_def mask_eq_exp_minus_1)
    then show ?thesis by (simp only: bit_not_iff bit_mask_iff) auto
  qed
  have "bit (value AND drop_bit i m) 31" if "i < 32" for i
    using that assms(2) by (auto simp: bit_and_iff bit_drop_bit_eq m)
  then have "value AND drop_bit i m \<noteq> 0" if "i < 32" for i
    using that by (metis bit_0_eq bot_apply bot_bool_def)
  then have "map (\<lambda>i. value AND drop_bit i m \<noteq> 0) [0 ..< 32] = replicate 32 True"
    by (intro nth_equalityI) simp_all
  then have "writeNBitsOfUint64Be wide value 32 s = Inr (fold writeBit (replicate 32 True) s)"
    by (simp add: writeNBitsOfUint64Be_def writeMaskedBits_fold flip: m_def)
  then show ?thesis using fold_writeBit_correct [OF assms(1)] by blast
qed

lemma nbits_of_32_smear_witness:
  "\<exists>t. writeNBitsOfUint64Be (\<lambda>_. 0) 0x80000000 32 emptyStream = Inr t \<and> obits t = replicate 32 True"
proof -
  have "bit (0x80000000 :: 64 word) 31" by code_simp
  then show ?thesis
    using nbits_of_32_smear [OF wf_emptyStream, of "0x80000000" "\<lambda>_. 0"] by (auto simp: obits_eq emptyStream_def)
qed

lemma address_and_string_roundtrip_witness:
  "fst (readMacAddress (read_after emptyStream (writeMacAddress 0x0A0B0C0D0E0F emptyStream))) = 0x0A0B0C0D0E0F
   \<and> (\<exists>t. writeString [72, 105, 0, 33] emptyStream = Inr t \<and> fst (readString (read_after emptyStream t)) = [72, 105])"
proof -
  have "byte_aligned emptyStream" by (simp add: byte_aligned_def emptyStream_def)
  moreover have "wf_mac 0x0A0B0C0D0E0F" by code_simp
  ultimately show ?thesis
    using address_and_string_roundtrip [of emptyStream "0x0A0B0C0D0E0F" "[72, 105, 0, 33]"] by simp
qed

end
