(* ===== verification/PacketTags.thy ===== *)
theory PacketTags
  imports MemoryStreams
begin

text \<open>
  Packets with the tags that the modules of the link layer exchange, the request stack of
  encapsulation protocols (\<open>inet/common/ProtocolUtils.cc\<close>) and the numbering of protocols
  (\<open>inet/common/ProtocolGroup.cc\<close>).

  A tag set holds at most one tag of a type: each tag is an optional field. The protocols, objects
  compared by their address, are represented by their registered names. Of the contents of a
  packet the identity and the length are kept and the headers in front of them.
\<close>

section \<open>Protocols\<close>

type_synonym protocol = string

definition ieee8021qCTag :: protocol where "ieee8021qCTag = ''ieee8021qctag''"
definition ieee8021qSTag :: protocol where "ieee8021qSTag = ''ieee8021qstag''"
definition ieee8021rTag :: protocol where "ieee8021rTag = ''ieee8021rtag''"
definition ieee8022llc :: protocol where "ieee8022llc = ''ieee8022llc''"
definition ethernetMac :: protocol where "ethernetMac = ''ethernetmac''"

record protocol_group =
  numberToProtocol :: "int \<rightharpoonup> protocol"
  protocolToNumber :: "protocol \<rightharpoonup> int"

definition registerNumber :: "int \<times> protocol \<Rightarrow> protocol_group \<Rightarrow> protocol_group" where
  "registerNumber e g = g\<lparr>protocolToNumber := (protocolToNumber g)(snd e \<mapsto> fst e)\<rparr>"

text \<open>The constructor iterates over a \<open>std::map\<close>, whose entries are sorted by number.\<close>

definition newGroup :: "(int \<times> protocol) list \<Rightarrow> protocol_group" where
  "newGroup entries =
     fold registerNumber (sort_key fst entries)
       \<lparr>numberToProtocol = map_of entries, protocolToNumber = Map.empty\<rparr>"

definition findProtocol :: "protocol_group \<Rightarrow> int \<Rightarrow> protocol option" where
  "findProtocol g n = numberToProtocol g n"

definition getProtocol :: "protocol_group \<Rightarrow> int \<Rightarrow> protocol result" where
  "getProtocol g n = (case findProtocol g n of Some p \<Rightarrow> Inr p | None \<Rightarrow> Inl (RuntimeError ''Unknown protocol''))"

definition findProtocolNumber :: "protocol_group \<Rightarrow> protocol \<Rightarrow> int" where
  "findProtocolNumber g p = (case protocolToNumber g p of Some n \<Rightarrow> n | None \<Rightarrow> -1)"

definition getProtocolNumber :: "protocol_group \<Rightarrow> protocol \<Rightarrow> int result" where
  "getProtocolNumber g p =
     (if findProtocolNumber g p \<noteq> -1 then Inr (findProtocolNumber g p) else Inl (RuntimeError ''Unknown protocol''))"

definition addProtocol :: "int \<Rightarrow> protocol \<Rightarrow> protocol_group \<Rightarrow> protocol_group" where
  "addProtocol n p g =
     g\<lparr>numberToProtocol := (numberToProtocol g)(n \<mapsto> p), protocolToNumber := (protocolToNumber g)(p \<mapsto> n)\<rparr>"

text \<open>The EtherType numbers of INET.\<close>

definition ethertypeProtocols :: "(int \<times> protocol) list" where
  "ethertypeProtocols =
    [(0x0800, ''ipv4''), (0x0806, ''arp''), (0x2000, ''cdp''), (0x22EA, ''srp''), (0x22F0, ''tsn''),
     (0x22F3, ''trill''), (0x22F4, ''l2isis''), (0x36FC, ''flooding''), (0x8100, ieee8021qCTag),
     (0x86DD, ''ipv6''), (0x86FD, ''probabilistic''), (0x86F0, ''unknown''), (0x86FE, ''wiseroute''),
     (0x86FF, ''nexthopforwarding''), (0x8808, ''ethernetflowctrl''), (0x8847, ''mpls''),
     (0x88A8, ieee8021qSTag), (0x88CC, ''lldp''), (0x88F7, ''gptp''), (0x88E5, ''ieee8021ae''),
     (0x891D, ''tteth''), (0xF1C1, ieee8021rTag)]"

definition ethertypeGroup :: protocol_group where
  "ethertypeGroup = newGroup ethertypeProtocols"

definition isEth2Type :: "int \<Rightarrow> bool" where "isEth2Type t \<longleftrightarrow> 0x600 \<le> t \<or> t = 0"
definition isIeee8023Length :: "int \<Rightarrow> bool" where "isIeee8023Length t \<longleftrightarrow> 0 < t \<and> t < 0x600"

section \<open>Packets\<close>

datatype frame_header =
    QTag (qPcp: "8 word") (qDei: bool) (qVid: "16 word") (qType: "16 word")
  | RTag (rSequence: "16 word") (rType: "16 word")

record tagged_packet =
  pktHeaders :: "frame_header list"
  pktPayload :: nat
  pktBytes :: nat
  streamReq :: "string option"
  streamInd :: "string option"
  seqReq :: "int option"
  seqInd :: "int option"
  pcpReq :: "int option"
  pcpInd :: "int option"
  vlanReq :: "int option"
  vlanInd :: "int option"
  userPriorityReq :: "int option"
  userPriorityInd :: "int option"
  dropEligibleReq :: "bool option"
  dropEligibleInd :: "bool option"
  macInd :: "(mac \<times> mac) option"
  interfaceReq :: "int option"
  interfaceInd :: "int option"
  encapReq :: "protocol list option"
  encapInd :: "protocol list option"
  dispatchReq :: "protocol option"
  packetProtocol :: "protocol option"

definition plain_packet :: "nat \<Rightarrow> nat \<Rightarrow> tagged_packet" where
  "plain_packet payload bytes = \<lparr>pktHeaders = [], pktPayload = payload, pktBytes = bytes,
     streamReq = None, streamInd = None, seqReq = None, seqInd = None, pcpReq = None, pcpInd = None,
     vlanReq = None, vlanInd = None, userPriorityReq = None, userPriorityInd = None,
     dropEligibleReq = None, dropEligibleInd = None, macInd = None, interfaceReq = None,
     interfaceInd = None, encapReq = None, encapInd = None, dispatchReq = None, packetProtocol = None\<rparr>"

definition header_bytes :: "frame_header \<Rightarrow> nat" where
  "header_bytes h = (case h of QTag _ _ _ _ \<Rightarrow> 4 | RTag _ _ \<Rightarrow> 6)"

definition getByteLength :: "tagged_packet \<Rightarrow> nat" where
  "getByteLength p = sum_list (map header_bytes (pktHeaders p)) + pktBytes p"

text \<open>\<open>getTag\<close> throws when the tag is absent.\<close>

definition get_tag :: "'a option \<Rightarrow> 'a result" where
  "get_tag t = (case t of None \<Rightarrow> Inl (RuntimeError ''Tag is absent'') | Some v \<Rightarrow> Inr v)"

text \<open>\<open>addTag\<close> throws when the tag is present.\<close>

definition add_tag :: "'a option \<Rightarrow> 'a \<Rightarrow> 'a option result" where
  "add_tag t v = (case t of None \<Rightarrow> Inr (Some v) | Some _ \<Rightarrow> Inl (RuntimeError ''Tag is present''))"

lemma get_tag_simps [simp, result_laws]: "get_tag (Some v) = Inr v" "get_tag None = Inl (RuntimeError ''Tag is absent'')"
  by (simp_all add: get_tag_def)

lemma get_tag_Inr_iff [result_laws]: "get_tag t = Inr v \<longleftrightarrow> t = Some v"
  by (simp add: get_tag_def split: option.splits)

lemma add_tag_Inr_iff [result_laws]: "add_tag t v = Inr u \<longleftrightarrow> t = None \<and> u = Some v"
  by (auto simp: add_tag_def split: option.splits)

section \<open>Encapsulation requests\<close>

definition prependEncapsulationProtocolReq :: "protocol \<Rightarrow> tagged_packet \<Rightarrow> tagged_packet" where
  "prependEncapsulationProtocolReq q p =
     p\<lparr>encapReq := Some (q # (case encapReq p of None \<Rightarrow> [] | Some ps \<Rightarrow> ps))\<rparr>"

definition appendEncapsulationProtocolReq :: "protocol \<Rightarrow> tagged_packet \<Rightarrow> tagged_packet" where
  "appendEncapsulationProtocolReq q p =
     p\<lparr>encapReq := Some ((case encapReq p of None \<Rightarrow> [] | Some ps \<Rightarrow> ps) @ [q])\<rparr>"

text \<open>The accessor of the generated array class throws for an index past the end.\<close>

definition peekEncapsulationProtocolReq :: "tagged_packet \<Rightarrow> protocol option result" where
  "peekEncapsulationProtocolReq p =
     (case encapReq p of None \<Rightarrow> Inr None | Some [] \<Rightarrow> Inl OutOfRange | Some (q # _) \<Rightarrow> Inr (Some q))"

definition popEncapsulationProtocolReq :: "tagged_packet \<Rightarrow> (protocol option \<times> tagged_packet) result" where
  "popEncapsulationProtocolReq p =
     (case encapReq p of
        None \<Rightarrow> Inr (None, p)
      | Some [] \<Rightarrow> Inl OutOfRange
      | Some (q # qs) \<Rightarrow> Inr (Some q, p\<lparr>encapReq := (if qs = [] then None else Some qs)\<rparr>))"

text \<open>The query adds the tag when it is absent.\<close>

definition hasEncapsulationProtocolReq :: "protocol \<Rightarrow> tagged_packet \<Rightarrow> bool \<times> tagged_packet" where
  "hasEncapsulationProtocolReq q p =
     (let ps = (case encapReq p of None \<Rightarrow> [] | Some ps \<Rightarrow> ps) in (q \<in> set ps, p\<lparr>encapReq := Some ps\<rparr>))"

definition removeEncapsulationProtocolReq :: "protocol \<Rightarrow> tagged_packet \<Rightarrow> tagged_packet" where
  "removeEncapsulationProtocolReq q p =
     (let ps = (case encapReq p of None \<Rightarrow> [] | Some ps \<Rightarrow> ps) in p\<lparr>encapReq := Some (remove1 q ps)\<rparr>)"

definition ensureEncapsulationProtocolReq :: "protocol \<Rightarrow> bool \<Rightarrow> bool \<Rightarrow> tagged_packet \<Rightarrow> tagged_packet" where
  "ensureEncapsulationProtocolReq q present prepend p =
     (let (found, p') = hasEncapsulationProtocolReq q p in
      if present
      then (if \<not> found then (if prepend then prependEncapsulationProtocolReq q p' else appendEncapsulationProtocolReq q p') else p')
      else (if found then removeEncapsulationProtocolReq q p' else p'))"

definition prependEncapsulationProtocolInd :: "protocol \<Rightarrow> tagged_packet \<Rightarrow> tagged_packet" where
  "prependEncapsulationProtocolInd q p =
     p\<lparr>encapInd := Some (q # (case encapInd p of None \<Rightarrow> [] | Some ps \<Rightarrow> ps))\<rparr>"

definition appendEncapsulationProtocolInd :: "protocol \<Rightarrow> tagged_packet \<Rightarrow> tagged_packet" where
  "appendEncapsulationProtocolInd q p =
     p\<lparr>encapInd := Some ((case encapInd p of None \<Rightarrow> [] | Some ps \<Rightarrow> ps) @ [q])\<rparr>"

definition popEncapsulationProtocolInd :: "tagged_packet \<Rightarrow> (protocol option \<times> tagged_packet) result" where
  "popEncapsulationProtocolInd p =
     (case encapInd p of
        None \<Rightarrow> Inr (None, p)
      | Some [] \<Rightarrow> Inl OutOfRange
      | Some (q # qs) \<Rightarrow> Inr (Some q, p\<lparr>encapInd := (if qs = [] then None else Some qs)\<rparr>))"

definition setDispatchProtocol :: "protocol option \<Rightarrow> tagged_packet \<Rightarrow> tagged_packet result" where
  "setDispatchProtocol dflt p =
     rbind (peekEncapsulationProtocolReq p) (\<lambda>first.
       Inr (p\<lparr>dispatchReq := (case first of Some q \<Rightarrow> Some q | None \<Rightarrow> dflt)\<rparr>))"

definition removeDispatchProtocol :: "protocol \<Rightarrow> tagged_packet \<Rightarrow> tagged_packet result" where
  "removeDispatchProtocol expected p =
     rbind (case dispatchReq p of None \<Rightarrow> Inr p
            | Some d \<Rightarrow> rbind (ensure (d = expected)) (\<lambda>_. Inr (p\<lparr>dispatchReq := None\<rparr>))) (\<lambda>p1.
     case encapReq p1 of None \<Rightarrow> Inr p1
     | Some ps \<Rightarrow> rbind (ensure (ps \<noteq> [] \<and> hd ps = expected)) (\<lambda>_.
         rbind (popEncapsulationProtocolReq p1) (\<lambda>(_, p2). Inr p2)))"

section \<open>The stack of requests\<close>

abbreviation req_stack :: "tagged_packet \<Rightarrow> protocol list" where
  "req_stack p \<equiv> (case encapReq p of None \<Rightarrow> [] | Some ps \<Rightarrow> ps)"

lemma req_stack_ensure:
  "req_stack (ensureEncapsulationProtocolReq q True True p) = (if q \<in> set (req_stack p) then req_stack p else q # req_stack p)"
  "encapReq (ensureEncapsulationProtocolReq q True True p) \<noteq> None"
  "encapReq (ensureEncapsulationProtocolReq q True True p) \<noteq> Some []"
  by (auto simp: ensureEncapsulationProtocolReq_def hasEncapsulationProtocolReq_def
      prependEncapsulationProtocolReq_def Let_def split: option.splits)

lemma ensure_other_fields [frame_laws]:
  "pktHeaders (ensureEncapsulationProtocolReq q b c p) = pktHeaders p"
  "pktPayload (ensureEncapsulationProtocolReq q b c p) = pktPayload p"
  "pktBytes (ensureEncapsulationProtocolReq q b c p) = pktBytes p"
  "streamReq (ensureEncapsulationProtocolReq q b c p) = streamReq p"
  "streamInd (ensureEncapsulationProtocolReq q b c p) = streamInd p"
  "seqReq (ensureEncapsulationProtocolReq q b c p) = seqReq p"
  "seqInd (ensureEncapsulationProtocolReq q b c p) = seqInd p"
  "pcpReq (ensureEncapsulationProtocolReq q b c p) = pcpReq p"
  "vlanReq (ensureEncapsulationProtocolReq q b c p) = vlanReq p"
  "dispatchReq (ensureEncapsulationProtocolReq q b c p) = dispatchReq p"
  "packetProtocol (ensureEncapsulationProtocolReq q b c p) = packetProtocol p"
  by (simp_all add: ensureEncapsulationProtocolReq_def hasEncapsulationProtocolReq_def Let_def
      prependEncapsulationProtocolReq_def appendEncapsulationProtocolReq_def removeEncapsulationProtocolReq_def)

lemma setDispatchProtocol_Inr:
  "setDispatchProtocol dflt p = Inr p' \<longleftrightarrow>
   encapReq p \<noteq> Some [] \<and>
   p' = p\<lparr>dispatchReq := (case encapReq p of Some (q # _) \<Rightarrow> Some q | _ \<Rightarrow> dflt)\<rparr>"
  by (auto simp: setDispatchProtocol_def peekEncapsulationProtocolReq_def rbind_Inr_iff split: option.splits list.splits)

text \<open>
  A request that is pushed, dispatched on and removed again leaves the packet with the
  requests it had, addressed to the next of them or else to the default protocol.
\<close>

theorem encapsulation_push_pop:
  assumes "q \<notin> set (req_stack p)" "encapReq p \<noteq> Some []"
  shows "\<exists>p1 p2 p3. setDispatchProtocol None (ensureEncapsulationProtocolReq q True True p) = Inr p1
    \<and> dispatchReq p1 = Some q
    \<and> removeDispatchProtocol q p1 = Inr p2 \<and> encapReq p2 = encapReq p
    \<and> setDispatchProtocol (Some d) p2 = Inr p3
    \<and> dispatchReq p3 = Some (case req_stack p of [] \<Rightarrow> d | r # _ \<Rightarrow> r)"
  using assms
  by (auto simp: ensureEncapsulationProtocolReq_def hasEncapsulationProtocolReq_def Let_def
      prependEncapsulationProtocolReq_def setDispatchProtocol_def peekEncapsulationProtocolReq_def
      removeDispatchProtocol_def popEncapsulationProtocolReq_def ensure_def split: option.splits list.splits)

lemma encapsulation_push_pop_witness:
  "\<exists>p1. setDispatchProtocol None (ensureEncapsulationProtocolReq ieee8021rTag True True
      ((plain_packet 1 100)\<lparr>encapReq := Some [ethernetMac]\<rparr>)) = Inr p1 \<and> dispatchReq p1 = Some ieee8021rTag"
  using encapsulation_push_pop [of ieee8021rTag "(plain_packet 1 100)\<lparr>encapReq := Some [ethernetMac]\<rparr>"]
  by (auto simp: ieee8021rTag_def ethernetMac_def)

section \<open>Protocol numbers\<close>

text \<open>The numbers of a group are unambiguous.\<close>

definition wf_group :: "protocol_group \<Rightarrow> bool" where
  "wf_group g \<longleftrightarrow> (\<forall>p n. protocolToNumber g p = Some n \<longrightarrow> numberToProtocol g n = Some p)"

lemma wf_group_find: "wf_group g \<Longrightarrow> protocolToNumber g p = Some n \<Longrightarrow> findProtocol g (findProtocolNumber g p) = Some p"
  by (simp add: wf_group_def findProtocol_def findProtocolNumber_def)

lemma newGroup_numbers: "numberToProtocol (fold registerNumber es g) = numberToProtocol g"
  by (induction es arbitrary: g) (auto simp: registerNumber_def)

lemma newGroup_entries:
  "protocolToNumber (fold registerNumber es g) p = Some n \<Longrightarrow> (n, p) \<in> set es \<or> protocolToNumber g p = Some n"
  by (induction es arbitrary: g) (fastforce simp: registerNumber_def split: if_splits)+

lemma wf_newGroup: "distinct (map fst es) \<Longrightarrow> wf_group (newGroup es)"
  using newGroup_entries [of "sort_key fst es"] by (fastforce simp: wf_group_def newGroup_def newGroup_numbers)

lemma wf_ethertypeGroup: "wf_group ethertypeGroup"
  unfolding ethertypeGroup_def by (rule wf_newGroup) (simp add: ethertypeProtocols_def)

end
