(* ===== verification/TagHeaders.thy ===== *)
theory TagHeaders
  imports PacketTags
begin

text \<open>
  The VLAN tag of IEEE 802.1Q and the redundancy tag of IEEE 802.1R on the wire: the inserters turn
  the requests of a packet into a header, the checkers turn the header into indications
  (\<open>inet/linklayer/ieee8021q\<close>, \<open>inet/linklayer/ieee8021r\<close>), and the serializers turn headers into
  bytes.

  The front chunk of a packet that is of another type than the one asked for is an error of the
  simulation, which by default does not serialize implicitly.
\<close>

section \<open>Serializers\<close>

text \<open>\<open>(vid & 0xFFF) | ((pcp & 7) << 13) | (dei ? 0x1000 : 0)\<close>\<close>

definition tagControl :: "8 word \<Rightarrow> bool \<Rightarrow> 16 word \<Rightarrow> 16 word" where
  "tagControl pcp dei vid = (vid AND 0xFFF) OR push_bit 13 (ucast (pcp AND 7)) OR (if dei then 0x1000 else 0)"

definition serializeQTag :: "frame_header \<Rightarrow> ostream \<Rightarrow> ostream" where
  "serializeQTag h s = writeUint16Be (qType h) (writeUint16Be (tagControl (qPcp h) (qDei h) (qVid h)) s)"

definition deserializeQTag :: "istream \<Rightarrow> frame_header \<times> istream" where
  "deserializeQTag r =
     (let (v, r1) = readUint16Be r; (t, r2) = readUint16Be r1 in
      (QTag (ucast (drop_bit 13 v AND 7)) (v AND 0x1000 \<noteq> 0) (v AND 0xFFF) t, r2))"

definition serializeQTpid :: "16 word \<Rightarrow> 8 word \<Rightarrow> bool \<Rightarrow> 16 word \<Rightarrow> ostream \<Rightarrow> ostream" where
  "serializeQTpid tpid pcp dei vid s = writeUint16Be (tagControl pcp dei vid) (writeUint16Be tpid s)"

definition deserializeQTpid :: "istream \<Rightarrow> (16 word \<times> 8 word \<times> bool \<times> 16 word) \<times> istream" where
  "deserializeQTpid r =
     (let (tpid, r1) = readUint16Be r; (v, r2) = readUint16Be r1 in
      ((tpid, ucast (drop_bit 13 v AND 7), v AND 0x1000 \<noteq> 0, v AND 0xFFF), r2))"

definition serializeRTag :: "frame_header \<Rightarrow> ostream \<Rightarrow> ostream" where
  "serializeRTag h s = writeUint16Be (rType h) (writeUint16Be (rSequence h) (writeUint16Be 0 s))"

text \<open>A reserved field that is not zero marks the header as incorrect.\<close>

definition deserializeRTag :: "istream \<Rightarrow> (frame_header \<times> bool) \<times> istream" where
  "deserializeRTag r =
     (let (reserved, r1) = readUint16Be r; (n, r2) = readUint16Be r1; (t, r3) = readUint16Be r2 in
      ((RTag n t, reserved \<noteq> 0), r3))"

definition serializeRTpid :: "16 word \<Rightarrow> ostream \<Rightarrow> ostream" where
  "serializeRTpid n s = writeUint16Be n (writeUint16Be 0 (writeUint16Be 0xF1C1 s))"

definition deserializeRTpid :: "istream \<Rightarrow> (16 word \<times> bool) \<times> istream" where
  "deserializeRTpid r =
     (let (tpid, r1) = readUint16Be r; (reserved, r2) = readUint16Be r1; (n, r3) = readUint16Be r2 in
      ((n, tpid \<noteq> 0xF1C1 \<or> reserved \<noteq> 0), r3))"

section \<open>Inserting and checking a VLAN tag\<close>

record q_inserter =
  qtagProtocol :: protocol
  nextProtocol :: "protocol option"
  defaultVlanId :: int
  defaultPcp :: int
  defaultUserPriority :: int
  defaultDropEligible :: int

definition qtag_of :: "string \<Rightarrow> protocol result" where
  "qtag_of vlanTagType =
     (if vlanTagType = ''s'' then Inr ieee8021qSTag else if vlanTagType = ''c'' then Inr ieee8021qCTag
      else Inl (RuntimeError ''Unknown tag type''))"

text \<open>\<open>registry\<close> is \<open>Protocol::getProtocol(name)\<close>.\<close>

definition qInserterInitialize ::
    "(string \<Rightarrow> protocol result) \<Rightarrow> string \<Rightarrow> string \<Rightarrow> int \<Rightarrow> int \<Rightarrow> int \<Rightarrow> int \<Rightarrow> q_inserter result" where
  "qInserterInitialize registry vlanTagType next vlan pcp prio dei =
     rbind (qtag_of vlanTagType) (\<lambda>q.
     rbind (if next \<noteq> [] then rbind (registry next) (\<lambda>n. Inr (Some n)) else Inr None) (\<lambda>n.
       Inr \<lparr>qtagProtocol = q, nextProtocol = n, defaultVlanId = vlan, defaultPcp = pcp,
            defaultUserPriority = prio, defaultDropEligible = dei\<rparr>))"

definition request_or :: "int option \<Rightarrow> int \<Rightarrow> int" where
  "request_or t d = (case t of Some v \<Rightarrow> v | None \<Rightarrow> d)"

definition typeOrLength :: "protocol_group \<Rightarrow> protocol \<Rightarrow> nat \<Rightarrow> 16 word" where
  "typeOrLength g proto len =
     (if proto = ieee8022llc then word_of_nat len else word_of_int (findProtocolNumber g proto))"

text \<open>The packet with its header and its new tags, before it is sent on to the next protocol.\<close>

definition qTagged :: "protocol_group \<Rightarrow> q_inserter \<Rightarrow> protocol \<Rightarrow> tagged_packet \<Rightarrow> tagged_packet" where
  "qTagged g c proto p =
     (let prio = request_or (userPriorityReq p) (defaultUserPriority c);
          pcp = request_or (pcpReq p) (defaultPcp c);
          vlan = request_or (vlanReq p) (defaultVlanId c);
          dei = (case dropEligibleReq p of Some b \<Rightarrow> (if b then 1 else 0) | None \<Rightarrow> defaultDropEligible c);
          hPcp = (if pcp \<noteq> -1 then word_of_int pcp else if prio \<noteq> -1 then word_of_int prio else 0);
          hVid = (if vlan \<noteq> -1 then word_of_int vlan else 0)
      in p\<lparr>userPriorityReq := None, userPriorityInd := (if prio \<noteq> -1 then Some prio else userPriorityInd p),
           pcpReq := None, pcpInd := (if pcp \<noteq> -1 then Some pcp else pcpInd p),
           vlanReq := None, vlanInd := (if vlan \<noteq> -1 then Some vlan else vlanInd p),
           dropEligibleReq := None, dropEligibleInd := (if 0 \<le> dei then Some (dei \<noteq> 0) else dropEligibleInd p),
           pktHeaders := QTag hPcp (0 < dei) hVid (typeOrLength g proto (getByteLength p)) # pktHeaders p,
           packetProtocol := Some (qtagProtocol c)\<rparr>)"

definition qInsert :: "protocol_group \<Rightarrow> q_inserter \<Rightarrow> tagged_packet \<Rightarrow> tagged_packet result" where
  "qInsert g c p =
     rbind (get_tag (packetProtocol p)) (\<lambda>proto.
     rbind (removeDispatchProtocol (qtagProtocol c) (qTagged g c proto p)) (\<lambda>p2.
       setDispatchProtocol (Some (case nextProtocol c of Some n \<Rightarrow> n | None \<Rightarrow> ethernetMac)) p2))"

datatype 'a filtered = Passed 'a | Dropped

definition front_qtag :: "tagged_packet \<Rightarrow> frame_header result" where
  "front_qtag p = (case pktHeaders p of QTag a b c d # _ \<Rightarrow> Inr (QTag a b c d) | _ \<Rightarrow> Inl (RuntimeError ''Implicit chunk serialization is disabled''))"

definition qMatches :: "protocol_group \<Rightarrow> int list \<Rightarrow> tagged_packet \<Rightarrow> bool result" where
  "qMatches g vlanIdFilter p =
     rbind (front_qtag p) (\<lambda>h.
       let t = uint (qType h) in
       if \<not> isIeee8023Length t \<and> findProtocol g t = None then Inr False
       else Inr (vlanIdFilter = [] \<or> uint (qVid h) \<in> set vlanIdFilter))"

definition header_protocol :: "protocol_group \<Rightarrow> int \<Rightarrow> protocol result" where
  "header_protocol g t = (if isIeee8023Length t then Inr ieee8022llc else getProtocol g t)"

definition qProcess :: "protocol_group \<Rightarrow> protocol \<Rightarrow> tagged_packet \<Rightarrow> tagged_packet result" where
  "qProcess g qtag p =
     rbind (front_qtag p) (\<lambda>h.
       let p1 = (appendEncapsulationProtocolInd qtag (p\<lparr>pktHeaders := tl (pktHeaders p)\<rparr>))
                  \<lparr>userPriorityInd := Some (uint (qPcp h)), pcpInd := Some (uint (qPcp h)),
                   vlanInd := Some (uint (qVid h)), dropEligibleInd := Some (qDei h)\<rparr>
       in rbind (header_protocol g (uint (qType h))) (\<lambda>proto.
          Inr (p1\<lparr>packetProtocol := Some proto, dispatchReq := Some proto\<rparr>)))"

definition qCheck :: "protocol_group \<Rightarrow> protocol \<Rightarrow> int list \<Rightarrow> tagged_packet \<Rightarrow> tagged_packet filtered result" where
  "qCheck g qtag vlanIdFilter p =
     rbind (qMatches g vlanIdFilter p) (\<lambda>ok.
       if ok then rbind (qProcess g qtag p) (\<lambda>p'. Inr (Passed p')) else Inr Dropped)"

section \<open>Inserting and checking a redundancy tag\<close>

definition rTagged :: "protocol_group \<Rightarrow> protocol \<Rightarrow> tagged_packet \<Rightarrow> tagged_packet" where
  "rTagged g proto p =
     p\<lparr>seqReq := None, seqInd := (case seqReq p of Some n \<Rightarrow> Some n | None \<Rightarrow> seqInd p),
       pktHeaders := RTag (case seqReq p of Some n \<Rightarrow> word_of_int n | None \<Rightarrow> 0)
                       (typeOrLength g proto (getByteLength p)) # pktHeaders p,
       packetProtocol := Some ieee8021rTag\<rparr>"

definition rInsert :: "protocol_group \<Rightarrow> protocol option \<Rightarrow> tagged_packet \<Rightarrow> tagged_packet result" where
  "rInsert g next p =
     rbind (get_tag (packetProtocol p)) (\<lambda>proto.
     rbind (removeDispatchProtocol ieee8021rTag (rTagged g proto p)) (\<lambda>p2.
       setDispatchProtocol (Some (case next of Some n \<Rightarrow> n | None \<Rightarrow> ethernetMac)) p2))"

definition front_rtag :: "tagged_packet \<Rightarrow> frame_header result" where
  "front_rtag p = (case pktHeaders p of RTag a b # _ \<Rightarrow> Inr (RTag a b) | _ \<Rightarrow> Inl (RuntimeError ''Implicit chunk serialization is disabled''))"

definition rMatches :: "protocol_group \<Rightarrow> tagged_packet \<Rightarrow> bool result" where
  "rMatches g p =
     rbind (front_rtag p) (\<lambda>h. let t = uint (rType h) in Inr (isIeee8023Length t \<or> findProtocol g t \<noteq> None))"

definition rProcess :: "protocol_group \<Rightarrow> tagged_packet \<Rightarrow> tagged_packet result" where
  "rProcess g p =
     rbind (front_rtag p) (\<lambda>h.
       let p1 = (appendEncapsulationProtocolInd ieee8021rTag (p\<lparr>pktHeaders := tl (pktHeaders p)\<rparr>))
                  \<lparr>seqInd := Some (uint (rSequence h))\<rparr>
       in rbind (header_protocol g (uint (rType h))) (\<lambda>proto.
          Inr (p1\<lparr>packetProtocol := Some proto, dispatchReq := Some proto\<rparr>)))"

definition rCheck :: "protocol_group \<Rightarrow> tagged_packet \<Rightarrow> tagged_packet filtered result" where
  "rCheck g p =
     rbind (rMatches g p) (\<lambda>ok. if ok then rbind (rProcess g p) (\<lambda>p'. Inr (Passed p')) else Inr Dropped)"

section \<open>Headers and bytes\<close>

interpretation u16_pair: codec_pair
  writeUint16Be readUint16Be "shifted_bytes [8, 0]" "take_bit (8 * 2)"
  writeUint16Be readUint16Be "shifted_bytes [8, 0]" "take_bit (8 * 2)"
  by unfold_locales

interpretation u16_triple: codec_pair
  writeUint16Be readUint16Be "shifted_bytes [8, 0]" "take_bit (8 * 2)"
  u16_pair.put_pair u16_pair.get_pair "\<lambda>p. shifted_bytes [8, 0] (fst p) @ shifted_bytes [8, 0] (snd p)"
  "map_prod (take_bit (8 * 2)) (take_bit (8 * 2))"
  by unfold_locales

lemmas codec_pair_defs = u16_pair.put_pair_def u16_pair.get_pair_def u16_triple.put_pair_def u16_triple.get_pair_def

lemma two_fields:
  "byte_aligned s \<Longrightarrow>
   (let (v, r1) = readUint16Be (read_after s (writeUint16Be b (writeUint16Be a s))); (w, r2) = readUint16Be r1 in (v, w)) = (a, b)"
  using u16_pair.pair.round_trip [of s "(a, b)"]
  by (simp add: codec_pair_defs take_bit_full case_prod_beta Let_def)

lemma three_fields:
  "byte_aligned s \<Longrightarrow>
   (let (v, r1) = readUint16Be (read_after s (writeUint16Be c (writeUint16Be b (writeUint16Be a s))));
        (w, r2) = readUint16Be r1; (x, r3) = readUint16Be r2 in (v, w, x)) = (a, b, c)"
  using u16_triple.pair.round_trip [of s "(a, b, c)"]
  by (simp add: codec_pair_defs take_bit_full case_prod_beta Let_def)

lemma bit_7: "bit (7 :: 'a::len word) j \<longleftrightarrow> j < 3 \<and> j < LENGTH('a)"
proof -
  have "(7 :: 'a word) = mask 3" by (simp add: mask_eq_exp_minus_1)
  then show ?thesis by (simp only: bit_mask_iff possible_bit_word) auto
qed

lemma bit_fff: "bit (0xFFF :: 16 word) j \<longleftrightarrow> j < 12"
proof -
  have "(0xFFF :: 16 word) = mask 12" by (simp add: mask_eq_exp_minus_1)
  then show ?thesis by (simp only: bit_mask_iff possible_bit_word) auto
qed

lemma bit_1000: "bit (0x1000 :: 16 word) j \<longleftrightarrow> j = 12"
proof -
  have "(0x1000 :: 16 word) = push_bit 12 1" by simp
  then show ?thesis by (simp only: bit_push_bit_iff bit_1_iff) auto
qed

lemma bit_tagControl:
  "bit (tagControl pcp dei vid) j \<longleftrightarrow>
     j < 12 \<and> bit vid j \<or> 13 \<le> j \<and> j < 16 \<and> bit pcp (j - 13) \<or> j = 12 \<and> dei"
proof -
  have "bit (if dei then 0x1000 else 0 :: 16 word) j \<longleftrightarrow> j = 12 \<and> dei"
  proof (cases dei)
    case True
    then show ?thesis by (simp only: if_True bit_1000 simp_thms)
  qed simp
  then show ?thesis
    unfolding tagControl_def bit_or_iff bit_and_iff bit_push_bit_iff bit_ucast_iff bit_7 bit_fff by auto
qed

lemma tagControl_fields:
  "tagControl pcp dei vid AND 0xFFF = vid AND 0xFFF"
  "(tagControl pcp dei vid AND 0x1000 \<noteq> 0) = dei"
  "ucast (drop_bit 13 (tagControl pcp dei vid) AND 7) = pcp AND 7"
proof -
  show "tagControl pcp dei vid AND 0xFFF = vid AND 0xFFF"
    by (rule bit_word_eqI) (simp only: bit_and_iff bit_tagControl bit_fff, auto)
  have "bit (tagControl pcp dei vid AND 0x1000) j \<longleftrightarrow> j = 12 \<and> dei" for j
    unfolding bit_and_iff bit_tagControl bit_1000 by auto
  then show "(tagControl pcp dei vid AND 0x1000 \<noteq> 0) = dei"
    by (metis bit_0_eq bit_eq_iff bot_apply bot_bool_def)
  show "ucast (drop_bit 13 (tagControl pcp dei vid) AND 7) = pcp AND 7"
    by (rule bit_word_eqI)
      (simp only: bit_and_iff bit_ucast_iff bit_drop_bit_eq o_def bit_tagControl bit_7, auto)
qed

text \<open>
  The tag headers come back from their bytes: the VLAN tag with three bits of the priority and
  twelve of the VLAN id, the redundancy tag with its sequence number and not marked as incorrect,
  each in both of its layouts.
\<close>

theorem tag_header_roundtrip:
  assumes "byte_aligned s"
  shows "fst (deserializeQTag (read_after s (serializeQTag (QTag pcp dei vid t) s))) = QTag (pcp AND 7) dei (vid AND 0xFFF) t
    \<and> fst (deserializeQTpid (read_after s (serializeQTpid tpid pcp dei vid s))) = (tpid, pcp AND 7, dei, vid AND 0xFFF)
    \<and> fst (deserializeRTag (read_after s (serializeRTag (RTag n t) s))) = (RTag n t, False)
    \<and> fst (deserializeRTpid (read_after s (serializeRTpid n s))) = (n, False)"
  using two_fields [OF assms, of t "tagControl pcp dei vid"] two_fields [OF assms, of "tagControl pcp dei vid" tpid]
    three_fields [OF assms, of t n 0] three_fields [OF assms, of n 0 "0xF1C1"]
  by (simp add: deserializeQTag_def serializeQTag_def deserializeQTpid_def serializeQTpid_def
      deserializeRTag_def serializeRTag_def deserializeRTpid_def serializeRTpid_def
      case_prod_beta Let_def tagControl_fields)

lemma tag_header_roundtrip_witness:
  "fst (deserializeQTag (read_after emptyStream (serializeQTag (QTag 5 True 100 0x0800) emptyStream))) = QTag 5 True 100 0x0800"
proof -
  have "byte_aligned emptyStream" by (simp add: byte_aligned_def emptyStream_def)
  then show ?thesis using tag_header_roundtrip [of emptyStream 5 True 100 "0x0800"] by simp
qed

section \<open>Through the headers\<close>

definition decodable :: "protocol_group \<Rightarrow> protocol \<Rightarrow> nat \<Rightarrow> bool" where
  "decodable g proto len \<longleftrightarrow>
     (if proto = ieee8022llc then 0 < len \<and> len < 0x600
      else case protocolToNumber g proto of None \<Rightarrow> False
        | Some n \<Rightarrow> 0 \<le> n \<and> n < 65536 \<and> \<not> isIeee8023Length n)"

lemma decode_typeOrLength:
  assumes "wf_group g" "decodable g proto len"
  defines "t \<equiv> uint (typeOrLength g proto len)"
  shows "header_protocol g t = Inr proto" "isIeee8023Length t \<or> findProtocol g t \<noteq> None"
proof -
  have "(header_protocol g t = Inr proto) \<and> (isIeee8023Length t \<or> findProtocol g t \<noteq> None)"
  proof (cases "proto = ieee8022llc")
    case True
    then have "t = int len" using assms(2)
      by (simp add: t_def typeOrLength_def decodable_def uint_nat unat_of_nat)
    then show ?thesis using assms(2) True by (simp add: decodable_def header_protocol_def isIeee8023Length_def)
  next
    case False
    then obtain n where n: "protocolToNumber g proto = Some n" "0 \<le> n" "n < 65536" "\<not> isIeee8023Length n"
      using assms(2) by (auto simp: decodable_def split: option.splits)
    then have "t = n" using False by (simp add: t_def typeOrLength_def findProtocolNumber_def uint_word_of_int)
    moreover have "findProtocol g n = Some proto" using wf_group_find [OF assms(1) n(1)] n(1) by (simp add: findProtocolNumber_def)
    ultimately show ?thesis using n by (simp add: header_protocol_def getProtocol_def)
  qed
  then show "header_protocol g t = Inr proto" "isIeee8023Length t \<or> findProtocol g t \<noteq> None" by auto
qed

text \<open>The packet is addressed to the protocol that is to insert its header.\<close>

definition addressed_to :: "protocol \<Rightarrow> tagged_packet \<Rightarrow> bool" where
  "addressed_to q p \<longleftrightarrow> (dispatchReq p = None \<or> dispatchReq p = Some q)
     \<and> (encapReq p = None \<or> (\<exists>qs. encapReq p = Some (q # qs)))"

lemma removeDispatchProtocol_addressed:
  "addressed_to q p \<Longrightarrow>
   removeDispatchProtocol q p = Inr (p\<lparr>dispatchReq := None, encapReq := (if tl (req_stack p) = [] then None else Some (tl (req_stack p)))\<rparr>)"
  by (auto simp: addressed_to_def removeDispatchProtocol_def popEncapsulationProtocolReq_def split: option.splits)


lemma dispatch_next:
  assumes "addressed_to q p"
  shows "\<exists>p2. rbind (removeDispatchProtocol q p) (\<lambda>p'. setDispatchProtocol (Some d) p') = Inr p2
    \<and> p2 = p\<lparr>dispatchReq := Some (case tl (req_stack p) of [] \<Rightarrow> d | r # _ \<Rightarrow> r),
             encapReq := (if tl (req_stack p) = [] then None else Some (tl (req_stack p)))\<rparr>"
  unfolding removeDispatchProtocol_addressed [OF assms] rbind_simps setDispatchProtocol_Inr
  by (cases "tl (req_stack p)") simp_all

definition tag_requests_done :: "tagged_packet \<Rightarrow> tagged_packet \<Rightarrow> bool" where
  "tag_requests_done p p' \<longleftrightarrow> encapReq p' = (if tl (req_stack p) = [] then None else Some (tl (req_stack p)))"

lemma q_dispatch:
  assumes "packetProtocol p = Some proto" "addressed_to (qtagProtocol c) p"
  shows "\<exists>d e. qInsert g c p = Inr ((qTagged g c proto p)\<lparr>dispatchReq := d, encapReq := e\<rparr>)
    \<and> e = (if tl (req_stack p) = [] then None else Some (tl (req_stack p)))
    \<and> d = Some (case tl (req_stack p) of [] \<Rightarrow> (case nextProtocol c of Some n \<Rightarrow> n | None \<Rightarrow> ethernetMac) | r # _ \<Rightarrow> r)"
proof -
  have "addressed_to (qtagProtocol c) (qTagged g c proto p)" "req_stack (qTagged g c proto p) = req_stack p"
    using assms(2) by (simp_all add: addressed_to_def qTagged_def Let_def)
  then show ?thesis
    using dispatch_next [of "qtagProtocol c" "qTagged g c proto p" "case nextProtocol c of Some n \<Rightarrow> n | None \<Rightarrow> ethernetMac"]
    by (auto simp: qInsert_def assms(1))
qed

lemma r_dispatch:
  assumes "packetProtocol p = Some proto" "addressed_to ieee8021rTag p"
  shows "\<exists>d e. rInsert g next p = Inr ((rTagged g proto p)\<lparr>dispatchReq := d, encapReq := e\<rparr>)
    \<and> e = (if tl (req_stack p) = [] then None else Some (tl (req_stack p)))"
proof -
  have "addressed_to ieee8021rTag (rTagged g proto p)" "req_stack (rTagged g proto p) = req_stack p"
    using assms(2) by (simp_all add: addressed_to_def rTagged_def)
  then show ?thesis
    using dispatch_next [of ieee8021rTag "rTagged g proto p" "case next of Some n \<Rightarrow> n | None \<Rightarrow> ethernetMac"]
    by (auto simp: rInsert_def assms(1))
qed

lemma qInsert_spec:
  assumes proto: "packetProtocol p = Some proto" and to: "addressed_to (qtagProtocol c) p"
  defines "vlan \<equiv> request_or (vlanReq p) (defaultVlanId c)"
    and "pcp \<equiv> request_or (pcpReq p) (defaultPcp c)"
  obtains p1 a b v where "qInsert g c p = Inr p1" "tag_requests_done p p1"
    "pktHeaders p1 = QTag a b v (typeOrLength g proto (getByteLength p)) # pktHeaders p"
    "packetProtocol p1 = Some (qtagProtocol c)" "pktBytes p1 = pktBytes p"
    "pktPayload p1 = pktPayload p" "seqReq p1 = seqReq p" "seqInd p1 = seqInd p"
    "streamReq p1 = streamReq p" "streamInd p1 = streamInd p"
    "uint v = (if vlan = -1 then 0 else vlan mod 2 ^ 16)" "pcp \<noteq> -1 \<longrightarrow> uint a = pcp mod 2 ^ 8"
    "dispatchReq p1 = Some (case tl (req_stack p) of [] \<Rightarrow> (case nextProtocol c of Some n \<Rightarrow> n | None \<Rightarrow> ethernetMac) | r # _ \<Rightarrow> r)"
proof -
  obtain d e where ins: "qInsert g c p = Inr ((qTagged g c proto p)\<lparr>dispatchReq := d, encapReq := e\<rparr>)"
    and e: "e = (if tl (req_stack p) = [] then None else Some (tl (req_stack p)))"
    and d: "d = Some (case tl (req_stack p) of [] \<Rightarrow> (case nextProtocol c of Some n \<Rightarrow> n | None \<Rightarrow> ethernetMac) | r # _ \<Rightarrow> r)"
    using q_dispatch [OF proto to, of g] by blast
  show ?thesis
    by (rule that [of "(qTagged g c proto p)\<lparr>dispatchReq := d, encapReq := e\<rparr>"
          "(if pcp \<noteq> -1 then word_of_int pcp else if request_or (userPriorityReq p) (defaultUserPriority c) \<noteq> -1
            then word_of_int (request_or (userPriorityReq p) (defaultUserPriority c)) else 0)"
          "(0 < (case dropEligibleReq p of Some b \<Rightarrow> (if b then 1 else 0) | None \<Rightarrow> defaultDropEligible c))"
          "(if vlan \<noteq> -1 then word_of_int vlan else 0)"])
      (simp_all add: ins qTagged_def Let_def tag_requests_done_def d e uint_word_of_int flip: vlan_def pcp_def)
qed

lemma qCheck_spec:
  assumes g: "wf_group g" "decodable g proto len"
    and h: "pktHeaders p1 = QTag a b v (typeOrLength g proto len) # hs"
  shows "qCheck g q flt p1 = Inr (if flt = [] \<or> uint v \<in> set flt
    then Passed ((appendEncapsulationProtocolInd q (p1\<lparr>pktHeaders := hs\<rparr>))
      \<lparr>userPriorityInd := Some (uint a), pcpInd := Some (uint a), vlanInd := Some (uint v), dropEligibleInd := Some b,
       packetProtocol := Some proto, dispatchReq := Some proto\<rparr>)
    else Dropped)"
  using decode_typeOrLength [OF g]
  by (auto simp: qCheck_def qMatches_def qProcess_def front_qtag_def h Let_def)

lemma rInsert_spec:
  assumes proto: "packetProtocol p = Some proto" and to: "addressed_to ieee8021rTag p" and n: "seqReq p = Some n"
  obtains p1 where "rInsert g next p = Inr p1" "tag_requests_done p p1"
    "pktHeaders p1 = RTag (word_of_int n) (typeOrLength g proto (getByteLength p)) # pktHeaders p"
    "packetProtocol p1 = Some ieee8021rTag" "pktPayload p1 = pktPayload p" "pktBytes p1 = pktBytes p"
    "seqReq p1 = None" "streamReq p1 = streamReq p" "streamInd p1 = streamInd p"
    "vlanReq p1 = vlanReq p" "vlanInd p1 = vlanInd p" "pcpReq p1 = pcpReq p"
proof -
  obtain d e where ins: "rInsert g next p = Inr ((rTagged g proto p)\<lparr>dispatchReq := d, encapReq := e\<rparr>)"
    and e: "e = (if tl (req_stack p) = [] then None else Some (tl (req_stack p)))"
    using r_dispatch [OF proto to, of g "next"] by blast
  show ?thesis
    by (rule that [of "(rTagged g proto p)\<lparr>dispatchReq := d, encapReq := e\<rparr>"])
      (simp_all add: ins rTagged_def tag_requests_done_def e n)
qed

lemma rCheck_spec:
  assumes g: "wf_group g" "decodable g proto len"
    and h: "pktHeaders p1 = RTag n (typeOrLength g proto len) # hs"
  shows "rCheck g p1 = Inr (Passed ((appendEncapsulationProtocolInd ieee8021rTag (p1\<lparr>pktHeaders := hs\<rparr>))
      \<lparr>seqInd := Some (uint n), packetProtocol := Some proto, dispatchReq := Some proto\<rparr>))"
  using decode_typeOrLength [OF g]
  by (auto simp: rCheck_def rMatches_def rProcess_def front_rtag_def h Let_def)

lemma appendInd_fields [frame_laws]:
  "pktHeaders (appendEncapsulationProtocolInd q p) = pktHeaders p"
  "pktPayload (appendEncapsulationProtocolInd q p) = pktPayload p"
  "pktBytes (appendEncapsulationProtocolInd q p) = pktBytes p"
  "streamReq (appendEncapsulationProtocolInd q p) = streamReq p"
  "streamInd (appendEncapsulationProtocolInd q p) = streamInd p"
  "seqReq (appendEncapsulationProtocolInd q p) = seqReq p"
  "seqInd (appendEncapsulationProtocolInd q p) = seqInd p"
  "vlanReq (appendEncapsulationProtocolInd q p) = vlanReq p"
  "vlanInd (appendEncapsulationProtocolInd q p) = vlanInd p"
  "pcpReq (appendEncapsulationProtocolInd q p) = pcpReq p"
  "pcpInd (appendEncapsulationProtocolInd q p) = pcpInd p"
  "macInd (appendEncapsulationProtocolInd q p) = macInd p"
  "interfaceInd (appendEncapsulationProtocolInd q p) = interfaceInd p"
  by (simp_all add: appendEncapsulationProtocolInd_def)

text \<open>
  A packet that goes through the VLAN header comes out with its contents, its protocol and
  the indications of the VLAN id and the priority that were requested (or are the defaults, or
  zero), as far as they fit into the fields of the header; it is dropped if its VLAN id is not
  accepted.
\<close>

theorem q_tag_roundtrip:
  assumes g: "wf_group g" and proto: "packetProtocol p = Some proto" "decodable g proto (getByteLength p)"
    and to: "addressed_to (qtagProtocol c) p"
  defines "vlan \<equiv> request_or (vlanReq p) (defaultVlanId c)"
    and "pcp \<equiv> request_or (pcpReq p) (defaultPcp c)"
  shows "\<exists>p1 r. qInsert g c p = Inr p1 \<and> qCheck g (qtagProtocol c) flt p1 = Inr r \<and> tag_requests_done p p1
    \<and> (case r of
         Passed p2 \<Rightarrow> pktPayload p2 = pktPayload p \<and> pktHeaders p2 = pktHeaders p
           \<and> packetProtocol p2 = Some proto \<and> dispatchReq p2 = Some proto
           \<and> vlanInd p2 = Some (if vlan = -1 then 0 else vlan mod 2 ^ 16)
           \<and> (pcp \<noteq> -1 \<longrightarrow> pcpInd p2 = Some (pcp mod 2 ^ 8))
           \<and> seqReq p2 = seqReq p \<and> seqInd p2 = seqInd p \<and> streamReq p2 = streamReq p
       | Dropped \<Rightarrow> flt \<noteq> [] \<and> (if vlan = -1 then 0 else vlan mod 2 ^ 16) \<notin> set flt)"
proof -
  obtain p1 a b v where p1: "qInsert g c p = Inr p1" "tag_requests_done p p1"
    "pktHeaders p1 = QTag a b v (typeOrLength g proto (getByteLength p)) # pktHeaders p"
    "pktPayload p1 = pktPayload p" "seqReq p1 = seqReq p" "seqInd p1 = seqInd p" "streamReq p1 = streamReq p"
    "uint v = (if vlan = -1 then 0 else vlan mod 2 ^ 16)" "pcp \<noteq> -1 \<longrightarrow> uint a = pcp mod 2 ^ 8"
    using qInsert_spec [OF proto(1) to, of g] unfolding vlan_def pcp_def by metis
  show ?thesis
    using p1 qCheck_spec [OF g proto(2) p1(3), of "qtagProtocol c" flt]
    by (cases "flt = [] \<or> uint v \<in> set flt") (auto simp: frame_laws)
qed

definition tagged_demo :: tagged_packet where
  "tagged_demo = (plain_packet 7 100)\<lparr>packetProtocol := Some ''ipv4'', vlanReq := Some 12, pcpReq := Some 5,
     seqReq := Some 70000, encapReq := Some [ieee8021qCTag, ethernetMac], dispatchReq := Some ieee8021qCTag\<rparr>"

definition q_demo :: q_inserter where
  "q_demo = \<lparr>qtagProtocol = ieee8021qCTag, nextProtocol = None, defaultVlanId = -1, defaultPcp = -1,
     defaultUserPriority = -1, defaultDropEligible = -1\<rparr>"

lemma q_tag_roundtrip_witness:
  "\<exists>p1 r. qInsert ethertypeGroup q_demo tagged_demo = Inr p1
    \<and> qCheck ethertypeGroup ieee8021qCTag [12] p1 = Inr r \<and> (\<exists>p2. r = Passed p2 \<and> vlanInd p2 = Some 12)"
proof -
  have a: "packetProtocol tagged_demo = Some ''ipv4''" "decodable ethertypeGroup ''ipv4'' (getByteLength tagged_demo)" by code_simp+
  have b: "addressed_to (qtagProtocol q_demo) tagged_demo" by (simp add: addressed_to_def tagged_demo_def q_demo_def)
  have v: "vlanReq tagged_demo = Some 12" "qtagProtocol q_demo = ieee8021qCTag" by (simp_all add: tagged_demo_def q_demo_def)
  obtain p1 r where "qInsert ethertypeGroup q_demo tagged_demo = Inr p1"
    and "qCheck ethertypeGroup ieee8021qCTag [12] p1 = Inr r"
    and "case r of Passed p2 \<Rightarrow> vlanInd p2 = Some 12 | Dropped \<Rightarrow> (12 :: int) \<notin> set [12]"
    using q_tag_roundtrip [OF wf_ethertypeGroup a b, of "[12]"] unfolding v request_or_def
    by (fastforce split: filtered.splits)
  then show ?thesis by (cases r) auto
qed

text \<open>
  A packet that goes through the redundancy header comes out with its contents, its protocol
  and its sequence number modulo 65536; nothing is dropped.
\<close>

theorem r_tag_roundtrip:
  assumes g: "wf_group g" and proto: "packetProtocol p = Some proto" "decodable g proto (getByteLength p)"
    and to: "addressed_to ieee8021rTag p" and n: "seqReq p = Some n"
  shows "\<exists>p1 p2. rInsert g next p = Inr p1 \<and> rCheck g p1 = Inr (Passed p2) \<and> tag_requests_done p p1
    \<and> pktPayload p2 = pktPayload p \<and> pktHeaders p2 = pktHeaders p
    \<and> packetProtocol p2 = Some proto \<and> dispatchReq p2 = Some proto
    \<and> seqInd p2 = Some (n mod 2 ^ 16) \<and> seqReq p2 = None
    \<and> vlanReq p2 = vlanReq p \<and> vlanInd p2 = vlanInd p \<and> pcpReq p2 = pcpReq p \<and> streamReq p2 = streamReq p"
proof -
  obtain p1 where p1: "rInsert g next p = Inr p1" "tag_requests_done p p1"
    "pktHeaders p1 = RTag (word_of_int n) (typeOrLength g proto (getByteLength p)) # pktHeaders p"
    "pktPayload p1 = pktPayload p" "seqReq p1 = None" "streamReq p1 = streamReq p"
    "vlanReq p1 = vlanReq p" "vlanInd p1 = vlanInd p" "pcpReq p1 = pcpReq p"
    using rInsert_spec [OF proto(1) to n, of g "next"] by metis
  show ?thesis
    using p1 rCheck_spec [OF g proto(2) p1(3)] by (simp add: frame_laws uint_word_of_int)
qed

lemma r_tag_roundtrip_witness:
  "\<exists>p1 p2. rInsert ethertypeGroup None (tagged_demo\<lparr>encapReq := None, dispatchReq := None\<rparr>) = Inr p1
    \<and> rCheck ethertypeGroup p1 = Inr (Passed p2) \<and> seqInd p2 = Some 4464"
proof -
  let ?p = "tagged_demo\<lparr>encapReq := None, dispatchReq := None\<rparr>"
  have a: "packetProtocol ?p = Some ''ipv4''" "decodable ethertypeGroup ''ipv4'' (getByteLength ?p)" by code_simp+
  have b: "addressed_to ieee8021rTag ?p" "seqReq ?p = Some 70000" by (simp_all add: addressed_to_def tagged_demo_def)
  show ?thesis using r_tag_roundtrip [OF wf_ethertypeGroup a b, of None] by auto
qed

section \<open>Lengths that look like types\<close>

lemma llc_has_no_ethertype: "findProtocol ethertypeGroup n \<noteq> Some ieee8022llc"
proof
  assume "findProtocol ethertypeGroup n = Some ieee8022llc"
  then have "map_of ethertypeProtocols n = Some ieee8022llc"
    by (simp add: findProtocol_def ethertypeGroup_def newGroup_def newGroup_numbers)
  then have "ieee8022llc \<in> snd ` set ethertypeProtocols" by (metis map_of_SomeD snd_conv rev_image_eqI)
  moreover have "list_all (\<lambda>e. snd e \<noteq> ieee8022llc) ethertypeProtocols" by code_simp
  ultimately show False by (auto simp: list_all_iff)
qed

text \<open>
  The length of an LLC packet is recognized only between 1 and 1535 bytes: longer packets (and
  empty ones) are dropped behind the VLAN header or taken for another protocol.
\<close>

theorem llc_length_limits:
  assumes "packetProtocol p = Some ieee8022llc" "addressed_to (qtagProtocol c) p"
    and "getByteLength p = 0 \<or> 0x600 \<le> getByteLength p" "getByteLength p < 2 ^ 16"
    and "qInsert ethertypeGroup c p = Inr p1" "qCheck ethertypeGroup (qtagProtocol c) flt p1 = Inr (Passed p2)"
  shows "packetProtocol p2 \<noteq> Some ieee8022llc"
proof -
  define t where "t = typeOrLength ethertypeGroup ieee8022llc (getByteLength p)"
  have "uint t = int (getByteLength p)"
    using assms(4) by (simp add: t_def typeOrLength_def uint_nat unat_of_nat)
  then have t: "\<not> isIeee8023Length (uint t)" using assms(3) by (auto simp: isIeee8023Length_def)
  obtain d e where "qInsert ethertypeGroup c p = Inr ((qTagged ethertypeGroup c ieee8022llc p)\<lparr>dispatchReq := d, encapReq := e\<rparr>)"
    using q_dispatch [OF assms(1,2), of ethertypeGroup] by blast
  then have "\<exists>a b v. pktHeaders p1 = QTag a b v t # pktHeaders p"
    using assms(5) by (auto simp: qTagged_def Let_def t_def)
  then show ?thesis
    using assms(6) t llc_has_no_ethertype
    by (auto simp: qCheck_def qMatches_def qProcess_def front_qtag_def rbind_Inr_iff header_protocol_def
        getProtocol_def Let_def split: if_splits option.splits)
qed

lemma llc_length_limits_witness:
  "\<exists>p1 p2. qInsert ethertypeGroup q_demo (tagged_demo\<lparr>packetProtocol := Some ieee8022llc, pktBytes := 2048\<rparr>) = Inr p1
    \<and> qCheck ethertypeGroup ieee8021qCTag [] p1 = Inr (Passed p2)
    \<and> packetProtocol p2 \<noteq> Some ieee8022llc"
proof -
  let ?p = "tagged_demo\<lparr>packetProtocol := Some ieee8022llc, pktBytes := 2048\<rparr>"
  have p: "packetProtocol ?p = Some ieee8022llc" "addressed_to (qtagProtocol q_demo) ?p"
    "getByteLength ?p = 0 \<or> 0x600 \<le> getByteLength ?p" "getByteLength ?p < 2 ^ 16"
    by (simp_all add: addressed_to_def tagged_demo_def q_demo_def getByteLength_def plain_packet_def)
  obtain d e where i: "qInsert ethertypeGroup q_demo ?p = Inr ((qTagged ethertypeGroup q_demo ieee8022llc ?p)\<lparr>dispatchReq := d, encapReq := e\<rparr>)"
    using q_dispatch [OF p(1,2), of ethertypeGroup] by blast
  define p1 where "p1 = (qTagged ethertypeGroup q_demo ieee8022llc ?p)\<lparr>dispatchReq := d, encapReq := e\<rparr>"
  have "typeOrLength ethertypeGroup ieee8022llc (getByteLength ?p) = 0x0800" by code_simp
  then have h: "\<exists>a b v. pktHeaders p1 = [QTag a b v 0x0800]"
    by (simp add: p1_def qTagged_def Let_def) (simp add: tagged_demo_def plain_packet_def)
  have f: "findProtocol ethertypeGroup 0x0800 = Some ''ipv4''" by code_simp
  have "\<exists>p2. qCheck ethertypeGroup (qtagProtocol q_demo) [] p1 = Inr (Passed p2)"
    using h f by (auto simp: qCheck_def qMatches_def qProcess_def front_qtag_def header_protocol_def getProtocol_def
        isIeee8023Length_def Let_def)
  then obtain p2 where c: "qCheck ethertypeGroup (qtagProtocol q_demo) [] p1 = Inr (Passed p2)" by blast
  from llc_length_limits [OF p i [folded p1_def] c] i c show ?thesis unfolding p1_def by (auto simp: q_demo_def)
qed

end
