(* ===== verification/SequenceRecovery.thy ===== *)
theory SequenceRecovery
  imports Prelude "HOL-Library.AList" "HOL-Library.Multiset"
begin

text \<open>
  Elimination of duplicates and restoration of order by sequence numbers
  (\<open>inet/protocolelement/ordering/\<close>): \<open>SequenceNumbering\<close>, \<open>DuplicateRemoval\<close> and \<open>Reordering\<close>,
  and the interface \<open>sequence_recovery\<close> of a module that remembers the numbers of the last packets
  it let through and drops a packet with one of them. \<open>DuplicateRemoval\<close> is one with a window of
  one packet, the stream merger another.

  The payload of packets is a type parameter. \<open>Reordering::expectedSequenceNumber\<close> has no
  initializer in the code; its initial value is part of the initial state.
\<close>

section \<open>The abstract recovery function\<close>

definition last_n :: "nat \<Rightarrow> 'a list \<Rightarrow> 'a list" where
  "last_n b xs = drop (length xs - b) xs"

text \<open>The numbers let through, given the numbers let through before and those that arrive.\<close>

fun recover :: "nat \<Rightarrow> int list \<Rightarrow> int list \<Rightarrow> int list" where
  "recover b acc [] = acc"
| "recover b acc (n # ns) = recover b (if n \<in> set (last_n b acc) then acc else acc @ [n]) ns"

text \<open>The first occurrences.\<close>

fun firsts :: "int list \<Rightarrow> int list \<Rightarrow> int list" where
  "firsts acc [] = acc"
| "firsts acc (n # ns) = firsts (if n \<in> set acc then acc else acc @ [n]) ns"

lemma set_last_n: "set (last_n b xs) \<subseteq> set xs"
  by (simp add: last_n_def set_drop_subset)

lemma last_n_all: "length xs \<le> b \<Longrightarrow> last_n b xs = xs"
  by (simp add: last_n_def)

lemma length_last_n [simp]: "length (last_n b xs) = min b (length xs)"
  by (simp add: last_n_def)

lemma last_n_snoc: "last_n b (last_n b xs @ [x]) = last_n b (xs @ [x])"
proof (cases "b \<le> length xs")
  case True
  then show ?thesis by (cases b) (simp_all add: last_n_def drop_Suc [symmetric] Suc_diff_Suc [symmetric] del: drop_Suc)
next
  case False
  then show ?thesis by (simp add: last_n_def)
qed

lemma recover_append: "recover b acc (ms @ ns) = recover b (recover b acc ms) ns"
  by (induction ms arbitrary: acc) simp_all

lemma recover_complete: "set (recover b acc ns) = set acc \<union> set ns"
proof (induction ns arbitrary: acc)
  case (Cons n ns)
  then show ?case using set_last_n [of b acc] by auto
qed simp

text \<open>Numbers that are not further apart than the window differ.\<close>

definition window_distinct :: "nat \<Rightarrow> int list \<Rightarrow> bool" where
  "window_distinct b xs \<longleftrightarrow> (\<forall>i j. i < j \<and> j < length xs \<and> j \<le> i + b \<longrightarrow> xs ! i \<noteq> xs ! j)"

lemma in_last_n: "i < length xs \<Longrightarrow> length xs \<le> i + b \<Longrightarrow> xs ! i \<in> set (last_n b xs)"
proof -
  assume i: "i < length xs" "length xs \<le> i + b"
  then have "last_n b xs ! (i - (length xs - b)) = xs ! i" "i - (length xs - b) < length (last_n b xs)"
    by (auto simp: last_n_def)
  then show ?thesis by (metis nth_mem)
qed

lemma window_distinct_snoc:
  "window_distinct b xs \<Longrightarrow> n \<notin> set (last_n b xs) \<Longrightarrow> window_distinct b (xs @ [n])"
  using in_last_n [of _ xs b] by (fastforce simp: window_distinct_def nth_append less_Suc_eq)

lemma recover_window: "window_distinct b acc \<Longrightarrow> window_distinct b (recover b acc ns)"
  by (induction ns arbitrary: acc) (simp_all add: window_distinct_snoc)

lemma firsts_props: "distinct acc \<Longrightarrow> distinct (firsts acc ns) \<and> set (firsts acc ns) = set acc \<union> set ns"
  by (induction ns arbitrary: acc) auto

text \<open>
  The copies of a number are close together when fewer than \<open>b\<close> other numbers arrive between any two
  of them. How many numbers there are in total does not matter then: the window still holds a number
  while its copies arrive.
\<close>

definition close_copies :: "nat \<Rightarrow> int list \<Rightarrow> bool" where
  "close_copies b ns \<longleftrightarrow>
     (\<forall>i j. i < j \<and> j < length ns \<and> ns ! i = ns ! j \<longrightarrow> card (set (drop i (take j ns))) \<le> b)"

lemma close_copies_prefix: "close_copies b (ns @ ms) \<Longrightarrow> close_copies b ns"
  unfolding close_copies_def
proof (intro allI impI)
  fix i j
  assume all: "\<forall>i j. i < j \<and> j < length (ns @ ms) \<and> (ns @ ms) ! i = (ns @ ms) ! j \<longrightarrow>
      card (set (drop i (take j (ns @ ms)))) \<le> b"
    and ij: "i < j \<and> j < length ns \<and> ns ! i = ns ! j"
  then show "card (set (drop i (take j ns))) \<le> b"
    using all [rule_format, of i j] by (simp add: nth_append)
qed

lemma close_copies_split: "close_copies b (us @ n # vs @ [n]) \<Longrightarrow> card (insert n (set vs)) \<le> b"
  unfolding close_copies_def
  by (drule spec [of _ "length us"], drule spec [of _ "Suc (length us + length vs)"]) (simp add: nth_append)

lemma close_copies_few: "card (set ns) \<le> b \<Longrightarrow> close_copies b ns"
  unfolding close_copies_def
proof (intro allI impI)
  fix i j
  assume c: "card (set ns) \<le> b"
  have "set (drop i (take j ns)) \<subseteq> set ns" by (meson order_trans set_drop_subset set_take_subset)
  then show "card (set (drop i (take j ns))) \<le> b" using c by (meson List.finite_set card_mono le_trans)
qed

lemma firsts_append: "firsts acc (ms @ ns) = firsts (firsts acc ms) ns"
  by (induction ms arbitrary: acc) simp_all

lemma firsts_extends: "\<exists>zs. firsts acc ns = acc @ zs \<and> set zs \<subseteq> set ns"
proof (induction ns arbitrary: acc)
  case (Cons n ns)
  from Cons.IH [of "if n \<in> set acc then acc else acc @ [n]"] show ?case by (auto split: if_splits)
qed simp

lemma close_copy_in_window:
  assumes close: "close_copies b (ns @ [n])" and n: "n \<in> set (firsts [] ns)"
  shows "n \<in> set (last_n b (firsts [] ns))"
proof -
  have "n \<in> set ns" using n firsts_props [of "[]" ns] by simp
  then obtain us vs where ns: "ns = us @ n # vs" "n \<notin> set us" by (meson split_list_first)
  have "n \<notin> set (firsts [] us)" using ns(2) firsts_props [of "[]" us] by simp
  then obtain zs where zs: "firsts [] ns = firsts [] us @ n # zs" "set zs \<subseteq> set vs"
    using firsts_extends [of "firsts [] us @ [n]" vs] by (auto simp: ns(1) firsts_append)
  have "distinct (n # zs)" using firsts_props [of "[]" ns] zs(1) by simp
  then have "length (n # zs) = card (set (n # zs))" by (simp only: distinct_card)
  also have "\<dots> \<le> card (insert n (set vs))" using zs(2) by (intro card_mono) auto
  also have "\<dots> \<le> b" using close_copies_split [of b us n vs] close by (simp add: ns(1))
  finally have "length (firsts [] ns) \<le> length (firsts [] us) + b" by (simp add: zs(1))
  then show ?thesis using in_last_n [of "length (firsts [] us)" "firsts [] ns" b] by (simp add: zs(1))
qed

lemma recover_close_copies: "close_copies b ns \<Longrightarrow> recover b [] ns = firsts [] ns"
proof (induction ns rule: rev_induct)
  case (snoc n ns)
  have "recover b [] ns = firsts [] ns" using snoc.IH close_copies_prefix [OF snoc.prems] .
  moreover have "n \<in> set (firsts [] ns) \<Longrightarrow> n \<in> set (last_n b (firsts [] ns))"
    by (rule close_copy_in_window [OF snoc.prems])
  ultimately show ?case using set_last_n [of b "firsts [] ns"] by (auto simp: recover_append firsts_append)
qed simp

section \<open>Modules that implement it\<close>

text \<open>The numbers that a module with these operations lets through.\<close>

fun recovery_run :: "('h \<Rightarrow> int \<Rightarrow> bool) \<Rightarrow> ('h \<Rightarrow> int \<Rightarrow> 'h) \<Rightarrow> 'h \<Rightarrow> int list \<Rightarrow> 'h \<times> int list" where
  "recovery_run passes remember h [] = (h, [])"
| "recovery_run passes remember h (n # ns) =
     (if passes h n then (let (h', out) = recovery_run passes remember (remember h n) ns in (h', n # out))
      else recovery_run passes remember h ns)"

locale sequence_recovery =
  fixes passes :: "'h \<Rightarrow> int \<Rightarrow> bool"
    and remember :: "'h \<Rightarrow> int \<Rightarrow> 'h"
    and recent :: "'h \<Rightarrow> int list"
    and window :: nat
  assumes passes_law: "passes h n \<longleftrightarrow> n \<notin> set (recent h)"
    and remember_law: "recent (remember h n) = last_n window (recent h @ [n])"
begin

abbreviation run where "run \<equiv> recovery_run passes remember"

lemma run_recover:
  "recent h = last_n window acc \<Longrightarrow>
   acc @ snd (run h ns) = recover window acc ns \<and> recent (fst (run h ns)) = last_n window (recover window acc ns)"
proof (induction ns arbitrary: h acc)
  case (Cons n ns)
  show ?case
  proof (cases "passes h n")
    case True
    have "recent (remember h n) = last_n window (acc @ [n])"
      by (simp add: remember_law Cons.prems last_n_snoc)
    from Cons.IH [OF this] show ?thesis using True passes_law [of h n] Cons.prems by (simp add: case_prod_beta)
  next
    case False
    then show ?thesis using Cons passes_law [of h n] by simp
  qed
qed simp

lemma complete: "recent h = [] \<Longrightarrow> set (snd (run h ns)) = set ns"
  using run_recover [of h "[]" ns] recover_complete [of window "[]" ns] by (simp add: last_n_def)

lemma no_close_duplicates: "recent h = [] \<Longrightarrow> window_distinct window (snd (run h ns))"
  using run_recover [of h "[]" ns] recover_window [of window "[]" ns] by (simp add: last_n_def window_distinct_def)

lemma exactly_once:
  "recent h = [] \<Longrightarrow> close_copies window ns \<Longrightarrow> snd (run h ns) = firsts [] ns"
  using run_recover [of h "[]" ns] recover_close_copies [of window ns] by (simp add: last_n_def)

end

section \<open>Duplicate removal\<close>

definition duplicateRemovalPush :: "int \<Rightarrow> int \<Rightarrow> int \<times> bool" where
  "duplicateRemovalPush lastSequenceNumber n =
     (if lastSequenceNumber = n then (lastSequenceNumber, False) else (n, True))"

text \<open>No packet carries the initial value \<open>-1\<close>: then the module remembers one packet, or none.\<close>

definition removal_recent :: "int option \<Rightarrow> int list" where
  "removal_recent h = (case h of None \<Rightarrow> [] | Some n \<Rightarrow> [n])"

definition removal_state :: "int option \<Rightarrow> int" where
  "removal_state h = (case h of None \<Rightarrow> -1 | Some n \<Rightarrow> n)"

interpretation removal: sequence_recovery "\<lambda>h n. n \<notin> set (removal_recent h)" "\<lambda>_ n. Some n" removal_recent 1
  by unfold_locales (auto simp: removal_recent_def last_n_def)

fun duplicateRemovalRun :: "int \<Rightarrow> int list \<Rightarrow> int list" where
  "duplicateRemovalRun s [] = []"
| "duplicateRemovalRun s (n # ns) =
     (let (s', pass) = duplicateRemovalPush s n in (if pass then [n] else []) @ duplicateRemovalRun s' ns)"

lemma duplicateRemovalRun_eq:
  "-1 \<notin> set ns \<Longrightarrow> duplicateRemovalRun (removal_state h) ns = snd (removal.run h ns)"
proof (induction ns arbitrary: h)
  case (Cons n ns)
  have s: "removal_state (Some n) = n" by (simp add: removal_state_def)
  show ?case
    using Cons.IH [of "Some n"] Cons.IH [of h] Cons.prems
    by (cases h) (auto simp: duplicateRemovalPush_def removal_recent_def removal_state_def case_prod_beta)
qed simp

text \<open>
  \<open>DuplicateRemoval\<close> removes the copies of a packet that directly follow it and nothing else:
  every number gets through, two packets that are let through one after the other differ.
\<close>

theorem duplicateRemoval_window_of_one:
  assumes "-1 \<notin> set ns"
  shows "set (duplicateRemovalRun (-1) ns) = set ns \<and> window_distinct 1 (duplicateRemovalRun (-1) ns)"
proof -
  have "duplicateRemovalRun (-1) ns = snd (removal.run None ns)"
    using duplicateRemovalRun_eq [OF assms, of None] by (simp add: removal_state_def)
  moreover have "removal_recent None = []" by (simp add: removal_recent_def)
  ultimately show ?thesis using removal.complete removal.no_close_duplicates by simp
qed

lemma duplicateRemoval_window_of_one_witness:
  "window_distinct 1 (duplicateRemovalRun (-1) [1, 1, 2, 1]) \<and> duplicateRemovalRun (-1) [1, 1, 2, 1] = [1, 2, 1]"
  using duplicateRemoval_window_of_one [of "[1, 1, 2, 1]"] by (simp add: duplicateRemovalPush_def)

section \<open>Numbering\<close>

definition sequenceNumberingProcess :: "int \<Rightarrow> 'p \<Rightarrow> int \<times> (int \<times> 'p)" where
  "sequenceNumberingProcess sequenceNumber p = (sequenceNumber + 1, (sequenceNumber, p))"

fun numberAll :: "int \<Rightarrow> 'p list \<Rightarrow> (int \<times> 'p) list" where
  "numberAll k [] = []"
| "numberAll k (p # ps) = (let (k', q) = sequenceNumberingProcess k p in q # numberAll k' ps)"

section \<open>Reordering\<close>

record 'p reordering =
  expectedSequenceNumber :: int
  heldPackets :: "(int \<times> 'p) list"

text \<open>The loop that releases packets; it ends because every round removes one.\<close>

function releaseFrom :: "int \<Rightarrow> (int \<times> 'p) list \<Rightarrow> 'p list \<times> int \<times> (int \<times> 'p) list" where
  "releaseFrom e held =
     (case map_of held e of
        None \<Rightarrow> ([], e, held)
      | Some p \<Rightarrow> (let (out, e', held') = releaseFrom (e + 1) (AList.delete e held) in (p # out, e', held')))"
  by pat_completeness auto

lemma length_delete_less: "map_of held e = Some p \<Longrightarrow> length (AList.delete e held) < length held"
  by (induction held) (auto simp: AList.delete_eq split: if_splits intro: le_imp_less_Suc)

termination releaseFrom
  by (relation "measure (\<lambda>(e, held). length held)") (auto simp: length_delete_less)

declare releaseFrom.simps [simp del]

definition reorderingPush :: "int \<Rightarrow> 'p \<Rightarrow> 'p reordering \<Rightarrow> 'p reordering \<times> 'p list" where
  "reorderingPush n p r =
     (let held = AList.update n p (heldPackets r) in
      if n = expectedSequenceNumber r
      then (let (out, e', held') = releaseFrom (expectedSequenceNumber r) held
            in (r\<lparr>expectedSequenceNumber := e', heldPackets := held'\<rparr>, out))
      else (r\<lparr>heldPackets := held\<rparr>, []))"

fun reorderingRun :: "'p reordering \<Rightarrow> (int \<times> 'p) list \<Rightarrow> 'p reordering \<times> 'p list" where
  "reorderingRun r [] = (r, [])"
| "reorderingRun r (x # xs) =
     (let (r', out) = reorderingPush (fst x) (snd x) r; (r'', rest) = reorderingRun r' xs in (r'', out @ rest))"

section \<open>Reordering restores the order\<close>

lemma releaseFrom_spec:
  "releaseFrom e held = (out, e', held') \<Longrightarrow>
   e \<le> e' \<and> out = map (\<lambda>k. the (map_of held k)) [e..e' - 1]
   \<and> (\<forall>k. e \<le> k \<and> k < e' \<longrightarrow> map_of held k \<noteq> None) \<and> map_of held e' = None
   \<and> map_of held' = (map_of held) |` (- {e..<e'})"
proof (induction e held arbitrary: out e' held' rule: releaseFrom.induct)
  case (1 e held)
  show ?case
  proof (cases "map_of held e")
    case None
    then show ?thesis using 1(2) by (auto simp: releaseFrom.simps [of e held] restrict_map_def fun_eq_iff)
  next
    case (Some p)
    obtain out1 e1 held1 where r: "releaseFrom (e + 1) (AList.delete e held) = (out1, e1, held1)"
      by (cases "releaseFrom (e + 1) (AList.delete e held)")
    have del: "map_of (AList.delete e held) = (map_of held)(e := None)"
      by (simp add: AList.delete_conv')
    from 1(1) [OF Some r] have ih: "e + 1 \<le> e1"
      "out1 = map (\<lambda>k. the (map_of held k)) [e + 1..e1 - 1]"
      "\<And>k. e + 1 \<le> k \<Longrightarrow> k < e1 \<Longrightarrow> map_of held k \<noteq> None" "map_of held e1 = None"
      "map_of held1 = (map_of held) |` (- {e..<e1})"
      by (auto simp: del restrict_map_def fun_eq_iff intro!: map_cong)
    have res: "out = p # out1" "e' = e1" "held' = held1"
      using 1(2) Some r by (simp_all add: releaseFrom.simps [of e held])
    have "[e..e1 - 1] = e # [e + 1..e1 - 1]" using ih(1) by (simp add: upto_rec1)
    moreover have "map_of held k \<noteq> None" if "e \<le> k" "k < e1" for k
      using ih(3) [of k] Some that by (cases "k = e") auto
    ultimately show ?thesis using ih Some by (simp add: res)
  qed
qed

definition reordering_inv :: "int \<Rightarrow> (int \<Rightarrow> 'p) \<Rightarrow> int set \<Rightarrow> 'p reordering \<Rightarrow> bool" where
  "reordering_inv e0 pay A r \<longleftrightarrow>
     e0 \<le> expectedSequenceNumber r \<and> {e0..<expectedSequenceNumber r} \<subseteq> A
     \<and> (\<forall>k \<ge> expectedSequenceNumber r. k \<in> A \<longleftrightarrow> map_of (heldPackets r) k \<noteq> None)
     \<and> (\<forall>k p. map_of (heldPackets r) k = Some p \<longrightarrow> p = pay k)"

lemma reorderingPush_inv:
  assumes inv: "reordering_inv e0 pay A r" and e: "expectedSequenceNumber r \<notin> A"
    and r': "reorderingPush n (pay n) r = (r', out)"
  shows "reordering_inv e0 pay (insert n A) r' \<and> expectedSequenceNumber r' \<notin> insert n A
    \<and> out = map pay [expectedSequenceNumber r..expectedSequenceNumber r' - 1]
    \<and> expectedSequenceNumber r \<le> expectedSequenceNumber r'"
proof -
  define held where "held = AList.update n (pay n) (heldPackets r)"
  have held: "map_of held = (map_of (heldPackets r))(n \<mapsto> pay n)" by (simp add: held_def AList.update_conv')
  show ?thesis
  proof (cases "n = expectedSequenceNumber r")
    case False
    then show ?thesis
      using assms by (auto simp: reorderingPush_def Let_def reordering_inv_def held simp flip: held_def split: if_splits)
  next
    case True
    obtain o1 e' held' where rel: "releaseFrom n held = (o1, e', held')" by (cases "releaseFrom n held")
    note spec = releaseFrom_spec [OF rel]
    have r'_eq: "r' = r\<lparr>expectedSequenceNumber := e', heldPackets := held'\<rparr>" "out = o1"
      using r' rel by (simp_all add: reorderingPush_def Let_def True [symmetric] held_def)
    have pay: "map_of held k = Some p \<Longrightarrow> p = pay k" for k p
      using inv by (auto simp: held reordering_inv_def split: if_splits)
    have dom: "n \<le> k \<Longrightarrow> map_of held k \<noteq> None \<longleftrightarrow> k \<in> insert n A" for k
      using inv True by (auto simp: held reordering_inv_def)
    have "the (map_of held k) = pay k" if "k \<in> set [n..e' - 1]" for k
      using that spec pay [of k] by (cases "map_of held k") auto
    then have "out = map pay [n..e' - 1]" using spec by (simp add: r'_eq)
    moreover have "e' \<notin> insert n A" using dom [of e'] spec by auto
    moreover have "{e0..<e'} \<subseteq> insert n A"
    proof
      fix k assume "k \<in> {e0..<e'}"
      then show "k \<in> insert n A"
        using inv True spec dom [of k] by (cases "k < n") (auto simp: reordering_inv_def subset_eq)
    qed
    moreover have "map_of held' k \<noteq> None \<longleftrightarrow> k \<in> insert n A" if "e' \<le> k" for k
      using spec dom [of k] that by (simp add: restrict_map_def)
    moreover have "map_of held' k = Some p \<Longrightarrow> p = pay k" for k p
      using spec pay [of k p] by (simp add: restrict_map_def split: if_splits)
    moreover have "e0 \<le> e'" using inv spec True by (simp add: reordering_inv_def)
    ultimately show ?thesis using spec True by (auto simp: reordering_inv_def r'_eq)
  qed
qed

lemma upto_append: "a \<le> b \<Longrightarrow> b \<le> c \<Longrightarrow> [a..b - 1] @ [b..c - 1] = [a..c - 1]" for a b c :: int
  using upto_split1 [of a b "c - 1"] by (cases "b = c") auto

lemma reorderingRun_inv:
  assumes "reordering_inv e0 pay A r" "expectedSequenceNumber r \<notin> A"
    and "reorderingRun r (map (\<lambda>n. (n, pay n)) ns) = (r', out)"
  shows "reordering_inv e0 pay (A \<union> set ns) r' \<and> expectedSequenceNumber r' \<notin> A \<union> set ns
    \<and> out = map pay [expectedSequenceNumber r..expectedSequenceNumber r' - 1]
    \<and> expectedSequenceNumber r \<le> expectedSequenceNumber r'"
  using assms
proof (induction ns arbitrary: A r r' out)
  case Nil
  then show ?case by simp
next
  case (Cons n ns)
  obtain r1 o1 where p: "reorderingPush n (pay n) r = (r1, o1)" by (cases "reorderingPush n (pay n) r")
  obtain r2 o2 where q: "reorderingRun r1 (map (\<lambda>n. (n, pay n)) ns) = (r2, o2)"
    by (cases "reorderingRun r1 (map (\<lambda>n. (n, pay n)) ns)")
  have res: "r' = r2" "out = o1 @ o2" using Cons.prems(3) p q by simp_all
  note one = reorderingPush_inv [OF Cons.prems(1,2) p]
  have "reordering_inv e0 pay (insert n A \<union> set ns) r2 \<and> expectedSequenceNumber r2 \<notin> insert n A \<union> set ns
    \<and> o2 = map pay [expectedSequenceNumber r1..expectedSequenceNumber r2 - 1]
    \<and> expectedSequenceNumber r1 \<le> expectedSequenceNumber r2"
    by (rule Cons.IH [OF _ _ q]) (use one in auto)
  then show ?case
    using one upto_append [of "expectedSequenceNumber r" "expectedSequenceNumber r1" "expectedSequenceNumber r2"]
    by (simp add: res map_append [symmetric] del: map_append)
qed

lemma reordering_from_start:
  assumes "reorderingRun \<lparr>expectedSequenceNumber = e0, heldPackets = []\<rparr> (map (\<lambda>n. (n, pay n)) ns) = (r', out)"
  shows "out = map pay [e0..expectedSequenceNumber r' - 1] \<and> e0 \<le> expectedSequenceNumber r'
    \<and> {e0..<expectedSequenceNumber r'} \<subseteq> set ns \<and> expectedSequenceNumber r' \<notin> set ns"
proof -
  have "reordering_inv e0 pay {} \<lparr>expectedSequenceNumber = e0, heldPackets = []\<rparr>" by (simp add: reordering_inv_def)
  from reorderingRun_inv [OF this _ assms] show ?thesis by (auto simp: reordering_inv_def)
qed

text \<open>
  Reordering passes on, in the order of their numbers and each once, exactly the packets up to
  the first number that has not arrived: with \<open>e'\<close> the next number it waits for, every number from
  the first one to \<open>e' - 1\<close> has arrived and been passed on, and \<open>e'\<close> has not arrived.
\<close>

theorem reordering_restores_order:
  assumes "reorderingRun \<lparr>expectedSequenceNumber = e0, heldPackets = []\<rparr> (map (\<lambda>n. (n, pay n)) ns) = (r', out)"
  shows "out = map pay [e0..expectedSequenceNumber r' - 1] \<and> e0 \<le> expectedSequenceNumber r'
    \<and> {e0..<expectedSequenceNumber r'} \<subseteq> set ns \<and> expectedSequenceNumber r' \<notin> set ns"
  by (rule reordering_from_start [OF assms])

lemma reordering_restores_order_witness:
  "snd (reorderingRun \<lparr>expectedSequenceNumber = 0, heldPackets = []\<rparr> (map (\<lambda>n. (n, n * 10)) [1, 3, 0, 2])) = [0, 10, 20, 30]"
proof -
  obtain r' out where r: "reorderingRun \<lparr>expectedSequenceNumber = 0, heldPackets = []\<rparr> (map (\<lambda>n. (n, n * 10)) [1, 3, 0, 2]) = (r', out)"
    by (cases "reorderingRun \<lparr>expectedSequenceNumber = 0, heldPackets = []\<rparr> (map (\<lambda>n. (n, n * 10)) [1, 3, 0, 2 :: int])")
  have s: "out = map (\<lambda>n. n * 10) [0..expectedSequenceNumber r' - 1]" "0 \<le> expectedSequenceNumber r'"
    "{0..<expectedSequenceNumber r'} \<subseteq> {1, 3, 0, 2}" "expectedSequenceNumber r' \<notin> {1, 3, 0, 2}"
    using reordering_restores_order [OF r] by simp_all
  have "\<not> 5 \<le> expectedSequenceNumber r'"
  proof
    assume "5 \<le> expectedSequenceNumber r'"
    then show False using subsetD [OF s(3), of 4] by simp
  qed
  then have "expectedSequenceNumber r' = 4" using s(2,4) by auto
  then show ?thesis using r s(1) by (simp add: upto_rec1)
qed

text \<open>
  A packet that is lost stops the traffic for good: once a number does not arrive, no packet
  with that number or a higher one is ever passed on.
\<close>

theorem reordering_blocks_after_loss:
  assumes "reorderingRun \<lparr>expectedSequenceNumber = e0, heldPackets = []\<rparr> (map (\<lambda>n. (n, n)) ns) = (r', out)"
    and "e0 \<le> lost" "lost \<notin> set ns"
  shows "\<forall>k \<in> set out. k < lost"
proof -
  have o: "out = [e0..expectedSequenceNumber r' - 1]" "{e0..<expectedSequenceNumber r'} \<subseteq> set ns"
    using reordering_from_start [OF assms(1)] by simp_all
  have "\<not> lost < expectedSequenceNumber r'" using assms(2,3) o(2) by auto
  then show ?thesis using o(1) by auto
qed

lemma reordering_blocks_after_loss_witness:
  "\<forall>k \<in> set (snd (reorderingRun \<lparr>expectedSequenceNumber = 0, heldPackets = []\<rparr> (map (\<lambda>n. (n, n)) [0, 2, 3, 4]))). k < 1"
proof -
  obtain r' out where r: "reorderingRun \<lparr>expectedSequenceNumber = 0, heldPackets = []\<rparr> (map (\<lambda>n. (n, n)) [0, 2, 3, 4]) = (r', out)"
    by (cases "reorderingRun \<lparr>expectedSequenceNumber = 0, heldPackets = []\<rparr> (map (\<lambda>n. (n, n)) [0, 2, 3, 4 :: int])")
  show ?thesis using reordering_blocks_after_loss [OF r, of 1] r by simp
qed

lemma numberAll_eq: "numberAll k ps = map (\<lambda>n. (n, ps ! nat (n - k))) [k..k + int (length ps) - 1]"
proof (induction ps arbitrary: k)
  case Nil
  then show ?case by simp
next
  case (Cons p ps)
  have "[k..k + int (length (p # ps)) - 1] = k # [k + 1..k + 1 + int (length ps) - 1]"
    by (simp add: upto_rec1)
  moreover have "(p # ps) ! nat (n - k) = ps ! nat (n - (k + 1))" if "n \<in> set [k + 1..k + 1 + int (length ps) - 1]" for n
  proof -
    have "nat (n - k) = Suc (nat (n - (k + 1)))" using that by auto
    then show ?thesis by simp
  qed
  ultimately show ?case using Cons.IH [of "k + 1"] by (simp add: sequenceNumberingProcess_def)
qed

text \<open>
  Packets that have been numbered and arrive in any order without loss are restored.
\<close>

theorem numbering_then_reordering:
  assumes "mset arrived = mset (numberAll k ps)"
  shows "snd (reorderingRun \<lparr>expectedSequenceNumber = k, heldPackets = []\<rparr> arrived) = ps"
proof -
  define pay where "pay n = ps ! nat (n - k)" for n
  define ns where "ns = map fst arrived"
  have s: "set arrived = set (numberAll k ps)" using assms by (metis set_mset_mset)
  have arr: "arrived = map (\<lambda>n. (n, pay n)) ns"
    unfolding ns_def map_map by (rule map_idI [symmetric]) (auto simp: s numberAll_eq pay_def)
  have ns: "set ns = {k..k + int (length ps) - 1}"
    by (auto simp: ns_def s numberAll_eq image_image)
  obtain r' out where r: "reorderingRun \<lparr>expectedSequenceNumber = k, heldPackets = []\<rparr> (map (\<lambda>n. (n, pay n)) ns) = (r', out)"
    by (cases "reorderingRun \<lparr>expectedSequenceNumber = k, heldPackets = []\<rparr> (map (\<lambda>n. (n, pay n)) ns)")
  define e where "e = expectedSequenceNumber r'"
  have e: "out = map pay [k..e - 1]" "k \<le> e" "{k..<e} \<subseteq> set ns" "e \<notin> set ns"
    using reordering_from_start [OF r] by (simp_all add: e_def)
  have "e \<le> k + int (length ps)"
  proof (rule ccontr)
    assume "\<not> ?thesis"
    then show False using subsetD [OF e(3), of "k + int (length ps)"] ns by simp
  qed
  then have "e = k + int (length ps)" using e(2,4) ns by auto
  then have "out = map snd (numberAll k ps)" using e(1) by (simp add: numberAll_eq pay_def)
  moreover have "map snd (numberAll k ps) = ps"
    by (induction ps arbitrary: k) (simp_all add: sequenceNumberingProcess_def)
  ultimately show ?thesis using r arr by simp
qed

lemma numbering_then_reordering_witness:
  "snd (reorderingRun \<lparr>expectedSequenceNumber = 5, heldPackets = []\<rparr> [(6, ''b''), (7, ''c''), (5, ''a'')]) = [''a'', ''b'', ''c'']"
  by (rule numbering_then_reordering) (simp add: sequenceNumberingProcess_def)

end
