(* ===== verification/StreamMerging.thy ===== *)
theory StreamMerging
  imports TagHeaders SequenceRecovery
begin

text \<open>
  Packet filters (\<open>inet/queueing/base/PacketFilterBase.cc\<close>) and the elimination and replication of
  frames of IEEE 802.1CB: \<open>StreamMerger\<close>, \<open>StreamSplitter\<close> and \<open>StreamFilter\<close>
  (\<open>inet/protocolelement/redundancy/\<close>).

  The functions of a concrete filter are arguments of the operations of its base class. What the
  operations send, and what they drop, is returned; the display string, the signals and the
  lengths in the statistics are not modelled.
\<close>

section \<open>Packet filters\<close>

text \<open>\<open>inProgressStreamId\<close> is absent instead of \<open>-1\<close>; \<open>tree\<close> is the packet's tree id.\<close>

record filter_base =
  inProgressStreamId :: "int option"
  numProcessedPackets :: nat
  numDroppedPackets :: nat

definition newFilter :: filter_base where
  "newFilter = \<lparr>inProgressStreamId = None, numProcessedPackets = 0, numDroppedPackets = 0\<rparr>"

type_synonym 's matcher = "'s \<Rightarrow> tagged_packet \<Rightarrow> bool result"
type_synonym 's processor = "'s \<Rightarrow> tagged_packet \<Rightarrow> ('s \<times> tagged_packet) result"

definition checkPacketStreaming :: "int option \<Rightarrow> filter_base \<Rightarrow> unit result" where
  "checkPacketStreaming tree b =
     (if inProgressStreamId b \<noteq> None \<and> (tree = None \<or> tree \<noteq> inProgressStreamId b)
      then Inl (RuntimeError ''Another packet streaming operation is already in progress'') else Inr ())"

definition startPacketStreaming :: "int \<Rightarrow> filter_base \<Rightarrow> filter_base" where
  "startPacketStreaming tree b = b\<lparr>inProgressStreamId := Some tree\<rparr>"

definition handlePacketProcessed :: "filter_base \<Rightarrow> filter_base" where
  "handlePacketProcessed b = b\<lparr>numProcessedPackets := numProcessedPackets b + 1\<rparr>"

definition endPacketStreaming :: "filter_base \<Rightarrow> filter_base" where
  "endPacketStreaming b = (handlePacketProcessed b)\<lparr>inProgressStreamId := None\<rparr>"

definition dropFiltered :: "filter_base \<Rightarrow> filter_base" where
  "dropFiltered b = b\<lparr>numDroppedPackets := numDroppedPackets b + 1\<rparr>"

text \<open>The decision and the processing of a packet, common to all ways a packet comes in.\<close>

definition filterRun :: "'s matcher \<Rightarrow> 's processor \<Rightarrow> 's \<Rightarrow> tagged_packet \<Rightarrow> ('s \<times> tagged_packet filtered) result" where
  "filterRun mat pro s p =
     rbind (mat s p) (\<lambda>ok. if ok then rbind (pro s p) (\<lambda>(s', p'). Inr (s', Passed p')) else Inr (s, Dropped))"

type_synonym 's filter_result = "(filter_base \<times> 's \<times> tagged_packet filtered) result"

definition filterPush :: "'s matcher \<Rightarrow> 's processor \<Rightarrow> filter_base \<Rightarrow> 's \<Rightarrow> tagged_packet \<Rightarrow> 's filter_result" where
  "filterPush mat pro b s p =
     rbind (checkPacketStreaming None b) (\<lambda>_.
     rbind (filterRun mat pro s p) (\<lambda>(s', r).
       Inr (case r of Passed _ \<Rightarrow> handlePacketProcessed b | Dropped \<Rightarrow> dropFiltered (handlePacketProcessed b), s', r)))"

definition filterPushStart :: "'s matcher \<Rightarrow> 's processor \<Rightarrow> filter_base \<Rightarrow> 's \<Rightarrow> int \<Rightarrow> tagged_packet \<Rightarrow> 's filter_result" where
  "filterPushStart mat pro b s tree p =
     rbind (checkPacketStreaming (Some tree) b) (\<lambda>_.
       let b1 = startPacketStreaming tree b in
       rbind (filterRun mat pro s p) (\<lambda>(s', r). Inr (case r of Passed _ \<Rightarrow> b1 | Dropped \<Rightarrow> dropFiltered b1, s', r)))"

definition continueStreaming :: "int \<Rightarrow> filter_base \<Rightarrow> filter_base result" where
  "continueStreaming tree b =
     (if inProgressStreamId b = None then Inr (startPacketStreaming tree b)
      else rbind (checkPacketStreaming (Some tree) b) (\<lambda>_. Inr b))"

definition filterPushEnd :: "'s matcher \<Rightarrow> 's processor \<Rightarrow> filter_base \<Rightarrow> 's \<Rightarrow> int \<Rightarrow> tagged_packet \<Rightarrow> 's filter_result" where
  "filterPushEnd mat pro b s tree p =
     rbind (continueStreaming tree b) (\<lambda>b1.
     rbind (filterRun mat pro s p) (\<lambda>(s', r).
       Inr (case r of Passed _ \<Rightarrow> endPacketStreaming b1 | Dropped \<Rightarrow> dropFiltered (endPacketStreaming b1), s', r)))"

text \<open>\<open>final\<close>: the position plus the extra processable length is the length of the packet.\<close>

definition filterPushProgress ::
    "'s matcher \<Rightarrow> 's processor \<Rightarrow> filter_base \<Rightarrow> 's \<Rightarrow> int \<Rightarrow> bool \<Rightarrow> tagged_packet \<Rightarrow> 's filter_result" where
  "filterPushProgress mat pro b s tree final p =
     rbind (continueStreaming tree b) (\<lambda>b1.
     rbind (filterRun mat pro s p) (\<lambda>(s', r).
       Inr (case r of Passed _ \<Rightarrow> (if final then endPacketStreaming b1 else b1)
            | Dropped \<Rightarrow> dropFiltered (endPacketStreaming b1), s', r)))"

text \<open>
  Pulling takes packets from the provider, here the list of its packets, until one matches; a
  provider that has none left is an error.
\<close>

fun filterPull :: "'s matcher \<Rightarrow> 's processor \<Rightarrow> filter_base \<Rightarrow> 's \<Rightarrow> tagged_packet list \<Rightarrow>
    (filter_base \<times> 's \<times> tagged_packet \<times> tagged_packet list) result" where
  "filterPull mat pro b s [] = Inl (RuntimeError ''no packet to pull'')"
| "filterPull mat pro b s (p # ps) =
     rbind (filterRun mat pro s p) (\<lambda>(s', r).
       case r of
         Passed p' \<Rightarrow> Inr (handlePacketProcessed b, s', p', ps)
       | Dropped \<Rightarrow> filterPull mat pro (dropFiltered (handlePacketProcessed b)) s' ps)"

text \<open>\<open>canPullPacket\<close>: the next matching packet; without backpressure those before it are dropped.\<close>

fun filterCanPull :: "'s matcher \<Rightarrow> bool \<Rightarrow> filter_base \<Rightarrow> 's \<Rightarrow> tagged_packet list \<Rightarrow>
    (filter_base \<times> tagged_packet option \<times> tagged_packet list) result" where
  "filterCanPull mat backpressure b s [] = Inr (b, None, [])"
| "filterCanPull mat backpressure b s (p # ps) =
     rbind (mat s p) (\<lambda>ok.
       if ok then Inr (b, Some p, p # ps)
       else if backpressure then Inr (b, None, p # ps)
       else filterCanPull mat backpressure (dropFiltered (handlePacketProcessed b)) s ps)"

text \<open>\<open>sink\<close>: the consumer's answer, absent when there is no consumer.\<close>

definition filterCanPush :: "'s matcher \<Rightarrow> bool \<Rightarrow> bool option \<Rightarrow> 's \<Rightarrow> tagged_packet \<Rightarrow> bool result" where
  "filterCanPush mat backpressure sink s p =
     rbind (mat s p) (\<lambda>ok. Inr (if backpressure then ok \<and> sink = Some True else \<not> ok \<or> sink \<noteq> Some False))"

section \<open>Stream merger\<close>

record merger =
  mergeMapping :: "string \<rightharpoonup> string"
  bufferSize :: int
  sequenceNumbers :: "string \<rightharpoonup> int list"

definition mergerInitialize :: "init_stage \<Rightarrow> (string \<rightharpoonup> string) \<Rightarrow> int \<Rightarrow> merger \<Rightarrow> merger" where
  "mergerInitialize stage mapping buffer m =
     (if stage = INITSTAGE_LOCAL then m\<lparr>mergeMapping := mapping, bufferSize := buffer\<rparr> else m)"

definition mergerParameterChange :: "string \<Rightarrow> (string \<rightharpoonup> string) \<Rightarrow> merger \<Rightarrow> merger" where
  "mergerParameterChange name mapping m = (if name = ''mapping'' then m\<lparr>mergeMapping := mapping\<rparr> else m)"

definition matchesInputStream :: "merger \<Rightarrow> string \<Rightarrow> bool" where
  "matchesInputStream m name \<longleftrightarrow> mergeMapping m name \<noteq> None"

definition matchesSequenceNumber :: "merger \<Rightarrow> string \<Rightarrow> int \<Rightarrow> bool" where
  "matchesSequenceNumber m name n =
     (case sequenceNumbers m name of None \<Rightarrow> True | Some ns \<Rightarrow> n \<notin> set ns)"

definition mergerMatches :: "merger matcher" where
  "mergerMatches m p =
     (case streamInd p of
        None \<Rightarrow> Inr True
      | Some inputStream \<Rightarrow>
          (case mergeMapping m inputStream of
             None \<Rightarrow> Inr True
           | Some outputStream \<Rightarrow>
               (if \<not> matchesInputStream m inputStream then Inl (RuntimeError ''Unknown stream'')
                else rbind (get_tag (seqInd p)) (\<lambda>n. Inr (matchesSequenceNumber m outputStream n)))))"

text \<open>The size is compared with \<open>bufferSize\<close> as an unsigned number: a negative one never cuts.\<close>

definition cutBuffer :: "int \<Rightarrow> int list \<Rightarrow> int list" where
  "cutBuffer buffer ns = (if 0 \<le> buffer \<and> buffer < int (length ns) then drop (length ns - nat buffer) ns else ns)"

definition mergerProcess :: "merger processor" where
  "mergerProcess m p =
     (case streamInd p of
        None \<Rightarrow> Inr (m, p)
      | Some inputStream \<Rightarrow>
          (case mergeMapping m inputStream of
             None \<Rightarrow> Inr (m, p)
           | Some outputStream \<Rightarrow>
               rbind (get_tag (seqInd p)) (\<lambda>n.
                 let ns = (case sequenceNumbers m outputStream of None \<Rightarrow> [] | Some ns \<Rightarrow> ns) in
                 Inr (m\<lparr>sequenceNumbers := (sequenceNumbers m)(outputStream \<mapsto> cutBuffer (bufferSize m) (ns @ [n]))\<rparr>,
                      if outputStream \<noteq> [] then p\<lparr>streamInd := Some outputStream\<rparr>
                      else p\<lparr>streamInd := None, seqInd := None\<rparr>))))"

definition mergerPush :: "filter_base \<Rightarrow> merger \<Rightarrow> tagged_packet \<Rightarrow> merger filter_result" where
  "mergerPush = filterPush mergerMatches mergerProcess"

section \<open>Stream splitter\<close>

text \<open>The packets it sends, in order.\<close>

definition splitterPush :: "(string \<rightharpoonup> string list) \<Rightarrow> tagged_packet \<Rightarrow> tagged_packet list" where
  "splitterPush mapping p =
     (case streamReq p of
        None \<Rightarrow> [p]
      | Some name \<Rightarrow>
          (case mapping name of
             None \<Rightarrow> [p]
           | Some outputStreams \<Rightarrow> map (\<lambda>splitName. p\<lparr>streamReq := Some splitName\<rparr>) outputStreams))"

definition getNumPacketDuplicates :: "(string \<rightharpoonup> string list) \<Rightarrow> tagged_packet \<Rightarrow> int" where
  "getNumPacketDuplicates mapping p =
     (let name = (case streamReq p of None \<Rightarrow> [] | Some n \<Rightarrow> n) in
      case mapping name of None \<Rightarrow> 0 | Some outputStreams \<Rightarrow> int (length outputStreams) - 1)"

section \<open>Stream filter\<close>

text \<open>The stream a packet belongs to, by its request, its indication, or either.\<close>

definition streamOf :: "string \<Rightarrow> tagged_packet \<Rightarrow> string option" where
  "streamOf mode p =
     (case mode of
        CHR ''r'' # _ \<Rightarrow> streamReq p
      | CHR ''i'' # _ \<Rightarrow> streamInd p
      | CHR ''b'' # _ \<Rightarrow> (case streamReq p of Some n \<Rightarrow> Some n | None \<Rightarrow> streamInd p)
      | _ \<Rightarrow> None)"

text \<open>\<open>matches\<close> is the pattern \<open>streamNameFilter\<close>.\<close>

definition streamFilterMatches :: "string \<Rightarrow> (string \<Rightarrow> bool) \<Rightarrow> unit matcher" where
  "streamFilterMatches mode matches u p =
     Inr (case streamOf mode p of None \<Rightarrow> False | Some name \<Rightarrow> matches name)"

definition streamFilterPush :: "string \<Rightarrow> (string \<Rightarrow> bool) \<Rightarrow> filter_base \<Rightarrow> tagged_packet \<Rightarrow> unit filter_result" where
  "streamFilterPush mode matches b p = filterPush (streamFilterMatches mode matches) (\<lambda>u p. Inr (u, p)) b () p"

text \<open>
  The classifier into gates. \<open>can\<close> is what the consumer behind a gate answers, absent where there
  is no gate of the index.
\<close>

definition classifyStream ::
    "string \<Rightarrow> (string \<rightharpoonup> int) \<Rightarrow> int \<Rightarrow> int \<Rightarrow> (int \<Rightarrow> bool option) \<Rightarrow> tagged_packet \<Rightarrow> int result" where
  "classifyStream mode mapping gateIndexOffset defaultGateIndex can p =
     (case streamOf mode p of
        None \<Rightarrow> Inr defaultGateIndex
      | Some name \<Rightarrow>
          (case mapping name of
             None \<Rightarrow> Inr defaultGateIndex
           | Some i \<Rightarrow>
               (case can (i + gateIndexOffset) of
                  None \<Rightarrow> Inl NullPointer
                | Some ok \<Rightarrow> Inr (if ok then i + gateIndexOffset else defaultGateIndex))))"

section \<open>Merging is sequence recovery\<close>

text \<open>
  The numbers a merger remembers of an output stream, and the number with which a packet belongs
  to it.
\<close>

definition history :: "merger \<Rightarrow> string \<Rightarrow> int list" where
  "history m out = (case sequenceNumbers m out of None \<Rightarrow> [] | Some ns \<Rightarrow> ns)"

definition memberNumber :: "merger \<Rightarrow> string \<Rightarrow> tagged_packet \<Rightarrow> int option" where
  "memberNumber m out p =
     (case streamInd p of None \<Rightarrow> None | Some s \<Rightarrow> if mergeMapping m s = Some out then seqInd p else None)"

definition numbersOf :: "merger \<Rightarrow> string \<Rightarrow> tagged_packet list \<Rightarrow> int list" where
  "numbersOf m out ps = List.map_filter (memberNumber m out) ps"

text \<open>A sequence of packets, with what becomes of each.\<close>

fun mergeAll :: "merger \<Rightarrow> tagged_packet list \<Rightarrow> (merger \<times> tagged_packet filtered list) result" where
  "mergeAll m [] = Inr (m, [])"
| "mergeAll m (p # ps) =
     rbind (filterRun mergerMatches mergerProcess m p) (\<lambda>(m1, r).
     rbind (mergeAll m1 ps) (\<lambda>(m2, rs). Inr (m2, r # rs)))"

definition letThrough :: "tagged_packet list \<Rightarrow> tagged_packet filtered list \<Rightarrow> tagged_packet list" where
  "letThrough ps rs = map fst (filter (\<lambda>(p, r). r \<noteq> Dropped) (zip ps rs))"

lemma cutBuffer_last_n: "cutBuffer (int b) ns = last_n b ns"
  by (simp add: cutBuffer_def last_n_def)

interpretation merger_history: sequence_recovery "\<lambda>h n. n \<notin> set h" "\<lambda>h n. cutBuffer (int b) (h @ [n])" "\<lambda>h. h" b
  for b :: nat
  by unfold_locales (simp_all add: cutBuffer_last_n)

lemma merge_step:
  assumes "filterRun mergerMatches mergerProcess m p = Inr (m1, r)"
  shows "mergeMapping m1 = mergeMapping m" "bufferSize m1 = bufferSize m"
    and "memberNumber m out p = None \<Longrightarrow> history m1 out = history m out"
    and "memberNumber m out p = Some n \<Longrightarrow>
      (if n \<in> set (history m out) then r = Dropped \<and> history m1 out = history m out
       else r \<noteq> Dropped \<and> history m1 out = cutBuffer (bufferSize m) (history m out @ [n]))"
  using assms
  by (auto simp: filterRun_def mergerMatches_def mergerProcess_def rbind_Inr_iff get_tag_Inr_iff Let_def
      memberNumber_def history_def matchesSequenceNumber_def matchesInputStream_def
      split: option.splits if_splits)

lemma numbersOf_Cons:
  "numbersOf m out (p # ps) = (case memberNumber m out p of None \<Rightarrow> [] | Some n \<Rightarrow> [n]) @ numbersOf m out ps"
  by (simp add: numbersOf_def List.map_filter_def split: option.splits)

lemma numbersOf_mapping: "mergeMapping m1 = mergeMapping m \<Longrightarrow> numbersOf m1 out ps = numbersOf m out ps"
proof -
  assume "mergeMapping m1 = mergeMapping m"
  then have "memberNumber m1 out = memberNumber m out" by (intro ext) (simp add: memberNumber_def split: option.split)
  then show ?thesis by (simp add: numbersOf_def)
qed

lemma letThrough_Cons: "letThrough (p # ps) (r # rs) = (if r \<noteq> Dropped then [p] else []) @ letThrough ps rs"
  by (simp add: letThrough_def)

lemma mergeAll_recovery:
  assumes "mergeAll m ps = Inr (m', rs)" "bufferSize m = int b"
  shows "(history m' out, numbersOf m out (letThrough ps rs))
    = recovery_run (\<lambda>h n. n \<notin> set h) (\<lambda>h n. cutBuffer (int b) (h @ [n])) (history m out) (numbersOf m out ps)"
  using assms
proof (induction ps arbitrary: m rs)
  case Nil
  then show ?case by (simp add: numbersOf_def letThrough_def List.map_filter_def)
next
  case (Cons p ps)
  then obtain m1 r rs1 where s: "filterRun mergerMatches mergerProcess m p = Inr (m1, r)"
    and rest: "mergeAll m1 ps = Inr (m', rs1)" and rs: "rs = r # rs1"
    by (auto simp: rbind_Inr_iff)
  note step = merge_step [OF s]
  have ih: "(history m' out, numbersOf m out (letThrough ps rs1))
    = recovery_run (\<lambda>h n. n \<notin> set h) (\<lambda>h n. cutBuffer (int b) (h @ [n])) (history m1 out) (numbersOf m out ps)"
    using Cons.IH [OF rest] step(1,2) Cons.prems(2) by (simp add: numbersOf_mapping [OF step(1)])
  show ?case
  proof (cases "memberNumber m out p")
    case None
    then show ?thesis using ih step(3) [OF None] by (simp add: rs letThrough_Cons numbersOf_Cons)
  next
    case (Some n)
    then show ?thesis
      using ih step(4) [OF Some] Cons.prems(2)
      by (auto simp: rs letThrough_Cons numbersOf_Cons case_prod_beta split: if_splits dest: arg_cong [of _ _ fst] arg_cong [of _ _ snd])
  qed
qed

lemma merger_recovers:
  assumes "mergeAll m ps = Inr (m', rs)" "bufferSize m = int b" "history m out = []"
  defines "ns \<equiv> numbersOf m out (letThrough ps rs)"
  shows "set ns = set (numbersOf m out ps)" "window_distinct b ns"
    and "close_copies b (numbersOf m out ps) \<Longrightarrow> ns = firsts [] (numbersOf m out ps)"
proof -
  have ns: "ns = snd (recovery_run (\<lambda>h n. n \<notin> set h) (\<lambda>h n. cutBuffer (int b) (h @ [n])) [] (numbersOf m out ps))"
    using mergeAll_recovery [OF assms(1,2), of out] assms(3) unfolding ns_def by (metis snd_conv)
  show "set ns = set (numbersOf m out ps)" unfolding ns by (rule merger_history.complete) simp
  show "window_distinct b ns" unfolding ns by (rule merger_history.no_close_duplicates) simp
  show "close_copies b (numbersOf m out ps) \<Longrightarrow> ns = firsts [] (numbersOf m out ps)"
    unfolding ns by (rule merger_history.exactly_once) simp_all
qed

text \<open>
  The merger loses nothing: of every number that arrives for an output stream, some packet is
  let through; and it lets no two packets of a number through that are at most \<open>bufferSize\<close>
  packets of the stream apart.
\<close>

theorem merger_complete_and_duplicate_free:
  assumes "mergeAll m ps = Inr (m', rs)" "bufferSize m = int b" "history m out = []"
  shows "set (numbersOf m out (letThrough ps rs)) = set (numbersOf m out ps)
    \<and> window_distinct b (numbersOf m out (letThrough ps rs))"
  using merger_recovers [OF assms] by simp

text \<open>
  Every packet once: when fewer than \<open>bufferSize\<close> other numbers arrive for an output stream between
  any two copies of a number, exactly the first copy of each number is let through, however long
  the stream is.
\<close>

theorem merger_exactly_once:
  assumes "mergeAll m ps = Inr (m', rs)" "bufferSize m = int b" "history m out = []"
    and "close_copies b (numbersOf m out ps)"
  shows "numbersOf m out (letThrough ps rs) = firsts [] (numbersOf m out ps)
    \<and> distinct (numbersOf m out (letThrough ps rs))"
  using merger_recovers(3) [OF assms] firsts_props [of "[]"] by simp

definition merger_inv :: "merger \<Rightarrow> string \<Rightarrow> bool" where
  "merger_inv m out \<longleftrightarrow> distinct (history m out) \<and> (0 \<le> bufferSize m \<longrightarrow> int (length (history m out)) \<le> bufferSize m)"

lemma merger_inv_step:
  assumes "merger_inv m out" "filterRun mergerMatches mergerProcess m p = Inr (m1, r)"
  shows "merger_inv m1 out"
proof (cases "memberNumber m out p")
  case None
  then show ?thesis using assms(1) merge_step [OF assms(2)] by (simp add: merger_inv_def)
next
  case (Some n)
  have "distinct (cutBuffer k (ns @ [n]))" if "distinct ns" "n \<notin> set ns" for k ns
  proof -
    have "distinct (ns @ [n])" using that by simp
    then show ?thesis unfolding cutBuffer_def by (metis distinct_drop)
  qed
  moreover have "0 \<le> k \<longrightarrow> int (length (cutBuffer k ns)) \<le> k" for k ns
    by (auto simp: cutBuffer_def)
  ultimately show ?thesis
    using assms(1) merge_step(2) [OF assms(2)] merge_step(4) [OF assms(2) Some]
    by (auto simp: merger_inv_def split: if_splits)
qed

lemma mergeAll_mapping: "mergeAll m ps = Inr (m', rs) \<Longrightarrow> length rs = length ps \<and> mergeMapping m' = mergeMapping m"
  by (induction ps arbitrary: m rs) (auto simp: rbind_Inr_iff dest: merge_step(1))

text \<open>
  The memory of the merger is bounded: per output stream it keeps at most \<open>bufferSize\<close>
  numbers, all different.
\<close>

theorem merger_memory_bounded:
  assumes "mergeAll m ps = Inr (m', rs)" "merger_inv m out"
  shows "merger_inv m' out"
  using assms
proof (induction ps arbitrary: m rs)
  case (Cons p ps)
  then obtain m1 r rs1 where "filterRun mergerMatches mergerProcess m p = Inr (m1, r)" "mergeAll m1 ps = Inr (m', rs1)"
    by (auto simp: rbind_Inr_iff)
  then show ?case using Cons.IH Cons.prems(2) merger_inv_step by blast
qed simp

section \<open>Replication and elimination\<close>

text \<open>A copy at the other end of its path.\<close>

definition receive :: "tagged_packet \<Rightarrow> tagged_packet" where
  "receive p = p\<lparr>streamReq := None, streamInd := streamReq p, seqReq := None, seqInd := seqReq p\<rparr>"

lemma numbersOf_set: "set (numbersOf m out ps) = {n. \<exists>p \<in> set ps. memberNumber m out p = Some n}"
  by (auto simp: numbersOf_def List.map_filter_def image_def)

text \<open>
  C25. The packets of a stream, any number of them, that are replicated by the splitter and reach the
  merger on any of their paths are delivered exactly once. The packets \<open>ps\<close> carry the numbers \<open>number\<close>;
  they are split over the streams \<open>paths\<close>; the network turns requests into indications and delivers
  the copies in any order, any number of times and with losses, but at least one copy of every
  packet, and fewer than \<open>bufferSize\<close> other numbers of the stream arrive between two copies of a
  number (\<open>close_copies\<close>): the paths differ by less than the memory of the merger.
\<close>

theorem replication_and_elimination:
  assumes split: "mapping s = Some paths" "\<And>path. path \<in> set paths \<Longrightarrow> mergeMapping m path = Some out"
    and sent: "\<And>p. p \<in> set ps \<Longrightarrow> streamReq p = Some s \<and> seqReq p = Some (number p)"
    and network: "set arrived \<subseteq> receive ` (\<Union>p \<in> set ps. set (splitterPush mapping p))"
      "\<And>p. p \<in> set ps \<Longrightarrow> \<exists>q \<in> set (splitterPush mapping p). receive q \<in> set arrived"
      "close_copies b (numbersOf m out arrived)"
    and merged: "mergeAll m arrived = Inr (m', rs)" "bufferSize m = int b" "history m out = []"
  shows "distinct (numbersOf m out (letThrough arrived rs))
    \<and> set (numbersOf m out (letThrough arrived rs)) = number ` set ps"
proof -
  have copy: "memberNumber m out (receive q) = Some (number p)" if "p \<in> set ps" "q \<in> set (splitterPush mapping p)" for p q
    using that split sent [OF that(1)] by (auto simp: splitterPush_def memberNumber_def receive_def)
  have "set (numbersOf m out arrived) = number ` set ps"
  proof
    show "set (numbersOf m out arrived) \<subseteq> number ` set ps"
      using network(1) copy by (fastforce simp: numbersOf_set)
    show "number ` set ps \<subseteq> set (numbersOf m out arrived)"
      using network(2) copy by (fastforce simp: numbersOf_set)
  qed
  then show ?thesis
    using merger_recovers(3) [OF merged network(3)] firsts_props [of "[]" "numbersOf m out arrived"] by simp
qed


section \<open>Witnesses\<close>

definition merger_demo :: merger where
  "merger_demo = \<lparr>mergeMapping = [''s1'' \<mapsto> ''s'', ''s2'' \<mapsto> ''s''], bufferSize = 10, sequenceNumbers = Map.empty\<rparr>"

definition sent_demo :: "int \<Rightarrow> tagged_packet" where
  "sent_demo n = (plain_packet (nat n) 100)\<lparr>streamReq := Some ''s'', seqReq := Some n\<rparr>"

definition copy_demo :: "string \<Rightarrow> int \<Rightarrow> tagged_packet" where
  "copy_demo path n = receive ((sent_demo n)\<lparr>streamReq := Some path\<rparr>)"

definition arrived_demo :: "tagged_packet list" where
  "arrived_demo = [copy_demo ''s1'' 1, copy_demo ''s2'' 2, copy_demo ''s2'' 1, copy_demo ''s1'' 2]"

lemma merge_demo_returns: "\<exists>m' rs. mergeAll merger_demo arrived_demo = Inr (m', rs)"
proof -
  have "is_ok (mergeAll merger_demo arrived_demo)" by code_simp
  then show ?thesis by (rule is_ok_pair)
qed

lemma merger_complete_and_duplicate_free_witness:
  "\<exists>m' rs. mergeAll merger_demo arrived_demo = Inr (m', rs)
    \<and> set (numbersOf merger_demo ''s'' (letThrough arrived_demo rs)) = {1, 2}"
proof -
  obtain m' rs where r: "mergeAll merger_demo arrived_demo = Inr (m', rs)" using merge_demo_returns by blast
  have "bufferSize merger_demo = int 10" "history merger_demo ''s'' = []" by (simp_all add: merger_demo_def history_def)
  from merger_complete_and_duplicate_free [OF r this]
  have "set (numbersOf merger_demo ''s'' (letThrough arrived_demo rs)) = set (numbersOf merger_demo ''s'' arrived_demo)" by simp
  moreover have "numbersOf merger_demo ''s'' arrived_demo = [1, 2, 1, 2]" by code_simp
  ultimately show ?thesis using r by auto
qed

lemma merger_exactly_once_witness:
  "\<exists>m' rs. mergeAll merger_demo arrived_demo = Inr (m', rs)
    \<and> numbersOf merger_demo ''s'' (letThrough arrived_demo rs) = [1, 2]"
proof -
  obtain m' rs where r: "mergeAll merger_demo arrived_demo = Inr (m', rs)" using merge_demo_returns by blast
  have n: "numbersOf merger_demo ''s'' arrived_demo = [1, 2, 1, 2]" by code_simp
  have "bufferSize merger_demo = int 10" "history merger_demo ''s'' = []"
    by (simp_all add: merger_demo_def history_def)
  moreover have "close_copies 10 (numbersOf merger_demo ''s'' arrived_demo)"
    by (rule close_copies_few) (simp add: n card_insert_if)
  ultimately show ?thesis using merger_exactly_once [OF r] n r by auto
qed

lemma merger_memory_bounded_witness:
  "\<exists>m' rs. mergeAll merger_demo arrived_demo = Inr (m', rs) \<and> merger_inv m' ''s''"
proof -
  obtain m' rs where r: "mergeAll merger_demo arrived_demo = Inr (m', rs)" using merge_demo_returns by blast
  have "merger_inv merger_demo ''s''" by (simp add: merger_inv_def merger_demo_def history_def)
  from merger_memory_bounded [OF r this] r show ?thesis by blast
qed

text \<open>Three packets and a memory of two numbers, which suffices because the copies stay close.\<close>

definition small_merger :: merger where
  "small_merger = merger_demo\<lparr>bufferSize := 2\<rparr>"

definition close_demo :: "tagged_packet list" where
  "close_demo = [copy_demo ''s1'' 1, copy_demo ''s2'' 2, copy_demo ''s2'' 1, copy_demo ''s1'' 2, copy_demo ''s1'' 3,
     copy_demo ''s2'' 3]"

lemma close_demo_close: "close_copies 2 [1, 2, 1, 2, 3, 3]"
proof -
  have "\<forall>j \<in> set [0..<6]. \<forall>i \<in> set [0..<j].
      [1, 2, 1, 2, 3, 3 :: int] ! i = [1, 2, 1, 2, 3, 3] ! j \<longrightarrow> card (set (drop i (take j [1, 2, 1, 2, 3, 3 :: int]))) \<le> 2"
    by code_simp
  then show ?thesis by (auto simp: close_copies_def)
qed

lemma replication_and_elimination_witness:
  "\<exists>m' rs. mergeAll small_merger close_demo = Inr (m', rs)
    \<and> distinct (numbersOf small_merger ''s'' (letThrough close_demo rs))
    \<and> set (numbersOf small_merger ''s'' (letThrough close_demo rs)) = {1, 2, 3}"
proof -
  have "is_ok (mergeAll small_merger close_demo)" by code_simp
  then obtain m' rs where r: "mergeAll small_merger close_demo = Inr (m', rs)" using is_ok_pair by blast
  have s: "splitterPush [''s'' \<mapsto> [''s1'', ''s2'']] (sent_demo n) =
    [(sent_demo n)\<lparr>streamReq := Some ''s1''\<rparr>, (sent_demo n)\<lparr>streamReq := Some ''s2''\<rparr>]" for n
    by (simp add: splitterPush_def sent_demo_def)
  have n: "numbersOf small_merger ''s'' close_demo = [1, 2, 1, 2, 3, 3]" by code_simp
  have "distinct (numbersOf small_merger ''s'' (letThrough close_demo rs))
    \<and> set (numbersOf small_merger ''s'' (letThrough close_demo rs)) = (\<lambda>p. the (seqReq p)) ` set (map sent_demo [1, 2, 3])"
  proof (rule replication_and_elimination [OF _ _ _ _ _ _ r, where b = 2
      and mapping = "[''s'' \<mapsto> [''s1'', ''s2'']]" and s = "''s''" and paths = "[''s1'', ''s2'']"])
    show "set close_demo \<subseteq> receive ` (\<Union>p \<in> set (map sent_demo [1, 2, 3]). set (splitterPush [''s'' \<mapsto> [''s1'', ''s2'']] p))"
      by (simp add: close_demo_def s copy_demo_def)
    show "\<exists>q \<in> set (splitterPush [''s'' \<mapsto> [''s1'', ''s2'']] p). receive q \<in> set close_demo"
      if "p \<in> set (map sent_demo [1, 2, 3])" for p
      using that by (auto simp: close_demo_def s copy_demo_def)
    show "close_copies 2 (numbersOf small_merger ''s'' close_demo)" by (simp add: n close_demo_close)
  qed (auto simp: small_merger_def merger_demo_def sent_demo_def history_def)
  then show ?thesis using r by (auto simp: sent_demo_def)
qed

section \<open>Streams without an output stream\<close>

text \<open>
  Streams that are mapped to no stream share one memory: a packet of one of them is dropped
  when a packet of another one with the same number has been let through.
\<close>

theorem unmapped_streams_eliminate_each_other:
  assumes "mergeMapping m s1 = Some []" "mergeMapping m s2 = Some []" "bufferSize m \<noteq> 0"
    and "streamInd p1 = Some s1" "streamInd p2 = Some s2" "seqInd p1 = Some n" "seqInd p2 = Some n"
    and "n \<notin> set (history m [])"
  shows "\<exists>m1 q. filterRun mergerMatches mergerProcess m p1 = Inr (m1, Passed q)
    \<and> filterRun mergerMatches mergerProcess m1 p2 = Inr (m1, Dropped)"
proof -
  have new: "matchesSequenceNumber m [] n"
    using assms(8) by (simp add: matchesSequenceNumber_def history_def split: option.splits)
  define m1 where "m1 = m\<lparr>sequenceNumbers := (sequenceNumbers m)([] \<mapsto> cutBuffer (bufferSize m) (history m [] @ [n]))\<rparr>"
  have "filterRun mergerMatches mergerProcess m p1 = Inr (m1, Passed (p1\<lparr>streamInd := None, seqInd := None\<rparr>))"
    using assms new by (simp add: filterRun_def mergerMatches_def mergerProcess_def matchesInputStream_def m1_def history_def)
  moreover have "n \<in> set (cutBuffer (bufferSize m) (history m [] @ [n]))"
    using assms(3) by (auto simp: cutBuffer_def)
  then have "filterRun mergerMatches mergerProcess m1 p2 = Inr (m1, Dropped)"
    using assms by (simp add: filterRun_def mergerMatches_def matchesInputStream_def matchesSequenceNumber_def m1_def)
  ultimately show ?thesis by blast
qed

definition unmapped_demo :: merger where
  "unmapped_demo = \<lparr>mergeMapping = [''a'' \<mapsto> [], ''b'' \<mapsto> []], bufferSize = 10, sequenceNumbers = Map.empty\<rparr>"

lemma unmapped_streams_eliminate_each_other_witness:
  "\<exists>m1 q. filterRun mergerMatches mergerProcess unmapped_demo (copy_demo ''a'' 4) = Inr (m1, Passed q)
    \<and> filterRun mergerMatches mergerProcess m1 (copy_demo ''b'' 4) = Inr (m1, Dropped)"
  using unmapped_streams_eliminate_each_other [of unmapped_demo "''a''" "''b''" "copy_demo ''a'' 4" "copy_demo ''b'' 4" 4]
  by (simp add: unmapped_demo_def copy_demo_def receive_def sent_demo_def history_def)

section \<open>Streamed packets\<close>

text \<open>
  A merger that is pushed a packet in a streaming way eliminates the packet itself: the number
  is remembered when the packet starts, so that the end of the same packet is dropped.
\<close>

theorem streamed_packet_is_eliminated:
  assumes "inProgressStreamId b = None" "mergeMapping m s = Some out" "bufferSize m \<noteq> 0"
    and "streamInd p = Some s" "seqInd p = Some n" "n \<notin> set (history m out)"
  shows "\<exists>b1 m1 q b2. filterPushStart mergerMatches mergerProcess b m tree p = Inr (b1, m1, Passed q)
    \<and> filterPushEnd mergerMatches mergerProcess b1 m1 tree p = Inr (b2, m1, Dropped)"
proof -
  have new: "matchesSequenceNumber m out n"
    using assms(6) by (simp add: matchesSequenceNumber_def history_def split: option.splits)
  define m1 where "m1 = m\<lparr>sequenceNumbers := (sequenceNumbers m)(out \<mapsto> cutBuffer (bufferSize m) (history m out @ [n]))\<rparr>"
  define q where "q = (if out \<noteq> [] then p\<lparr>streamInd := Some out\<rparr> else p\<lparr>streamInd := None, seqInd := None\<rparr>)"
  have "filterRun mergerMatches mergerProcess m p = Inr (m1, Passed q)"
    using assms new
    by (simp add: filterRun_def mergerMatches_def mergerProcess_def matchesInputStream_def m1_def q_def history_def)
  moreover have "n \<in> set (cutBuffer (bufferSize m) (history m out @ [n]))"
    using assms(3) by (auto simp: cutBuffer_def)
  then have "filterRun mergerMatches mergerProcess m1 p = Inr (m1, Dropped)"
    using assms by (simp add: filterRun_def mergerMatches_def matchesInputStream_def matchesSequenceNumber_def m1_def)
  ultimately show ?thesis
    using assms(1)
    by (simp add: filterPushStart_def filterPushEnd_def checkPacketStreaming_def continueStreaming_def startPacketStreaming_def)
qed

lemma streamed_packet_is_eliminated_witness:
  "\<exists>b1 m1 q b2. filterPushStart mergerMatches mergerProcess newFilter merger_demo 1 (copy_demo ''s1'' 4) = Inr (b1, m1, Passed q)
    \<and> filterPushEnd mergerMatches mergerProcess b1 m1 1 (copy_demo ''s1'' 4) = Inr (b2, m1, Dropped)"
  using streamed_packet_is_eliminated [of newFilter merger_demo "''s1''" "''s''" "copy_demo ''s1'' 4" 4 1]
  by (simp add: newFilter_def merger_demo_def copy_demo_def receive_def sent_demo_def history_def)

section \<open>Counting\<close>

fun filterPushAll :: "'s matcher \<Rightarrow> 's processor \<Rightarrow> filter_base \<Rightarrow> 's \<Rightarrow> tagged_packet list \<Rightarrow>
    (filter_base \<times> 's \<times> tagged_packet filtered list) result" where
  "filterPushAll mat pro b s [] = Inr (b, s, [])"
| "filterPushAll mat pro b s (p # ps) =
     rbind (filterPush mat pro b s p) (\<lambda>(b1, s1, r).
     rbind (filterPushAll mat pro b1 s1 ps) (\<lambda>(b2, s2, rs). Inr (b2, s2, r # rs)))"

lemma filterPush_counts:
  "filterPush mat pro b s p = Inr (b1, s1, r) \<Longrightarrow>
   inProgressStreamId b1 = None \<and> numProcessedPackets b1 = numProcessedPackets b + 1
   \<and> numDroppedPackets b1 = numDroppedPackets b + (if r = Dropped then 1 else 0)"
  by (auto simp: filterPush_def rbind_Inr_iff checkPacketStreaming_def handlePacketProcessed_def dropFiltered_def
      split: if_splits filtered.splits)

text \<open>
  Every packet pushed into a filter is either passed on or dropped, and the statistics count
  them: the packets processed and, of these, the ones dropped.
\<close>

theorem filter_accounts_for_packets:
  assumes "filterPushAll mat pro b s ps = Inr (b', s', rs)"
  shows "length rs = length ps \<and> numProcessedPackets b' = numProcessedPackets b + length ps
    \<and> numDroppedPackets b' = numDroppedPackets b + length (filter (\<lambda>r. r = Dropped) rs)"
  using assms
proof (induction ps arbitrary: b s rs)
  case (Cons p ps)
  then obtain b1 s1 r rs1 where p: "filterPush mat pro b s p = Inr (b1, s1, r)"
    and rest: "filterPushAll mat pro b1 s1 ps = Inr (b', s', rs1)" and rs: "rs = r # rs1"
    by (auto simp: rbind_Inr_iff)
  show ?case using Cons.IH [OF rest] filterPush_counts [OF p] by (simp add: rs)
qed simp

lemma filter_accounts_for_packets_witness:
  "\<exists>b' s' rs. filterPushAll mergerMatches mergerProcess newFilter merger_demo arrived_demo = Inr (b', s', rs)
    \<and> numProcessedPackets b' = 4"
proof -
  have "is_ok (filterPushAll mergerMatches mergerProcess newFilter merger_demo arrived_demo)" by code_simp
  then obtain b' s' rs where r: "filterPushAll mergerMatches mergerProcess newFilter merger_demo arrived_demo = Inr (b', s', rs)"
    using is_ok_ex prod_cases3 by metis
  from filter_accounts_for_packets [OF r] r show ?thesis by (auto simp: newFilter_def arrived_demo_def)
qed

text \<open>
  A packet that is filtered out while it is streamed is counted as dropped twice: when it
  starts and when it ends.
\<close>

theorem streamed_drop_counts_twice:
  assumes "inProgressStreamId b = None" "filterRun mat pro s p = Inr (s, Dropped)"
  shows "\<exists>b1 b2. filterPushStart mat pro b s tree p = Inr (b1, s, Dropped)
    \<and> filterPushEnd mat pro b1 s tree p = Inr (b2, s, Dropped)
    \<and> numDroppedPackets b2 = numDroppedPackets b + 2 \<and> numProcessedPackets b2 = numProcessedPackets b + 1"
  using assms
  by (simp add: filterPushStart_def filterPushEnd_def checkPacketStreaming_def continueStreaming_def
      startPacketStreaming_def dropFiltered_def endPacketStreaming_def handlePacketProcessed_def)

lemma streamed_drop_counts_twice_witness:
  "\<exists>b1 b2. filterPushStart (streamFilterMatches ''both'' (\<lambda>n. n = ''s'')) (\<lambda>u p. Inr (u, p)) newFilter () 1 (copy_demo ''x'' 3) = Inr (b1, (), Dropped)
    \<and> filterPushEnd (streamFilterMatches ''both'' (\<lambda>n. n = ''s'')) (\<lambda>u p. Inr (u, p)) b1 () 1 (copy_demo ''x'' 3) = Inr (b2, (), Dropped)
    \<and> numDroppedPackets b2 = 2"
proof -
  have b: "inProgressStreamId newFilter = None" "numDroppedPackets newFilter = 0" by (simp_all add: newFilter_def)
  have r: "filterRun (streamFilterMatches ''both'' (\<lambda>n. n = ''s'')) (\<lambda>u p. Inr (u, p)) () (copy_demo ''x'' 3) = Inr ((), Dropped)"
    by (simp add: filterRun_def streamFilterMatches_def streamOf_def copy_demo_def receive_def sent_demo_def plain_packet_def)
  from streamed_drop_counts_twice [OF b(1) r, of 1] show ?thesis unfolding b(2) by auto
qed

section \<open>Splitting\<close>

text \<open>
  The splitter sends a copy for every output stream of the packet's stream, each with the
  contents and the sequence number of the packet; packets of other streams are passed on as they
  are. The number of duplicates it reports is one less than the number of packets it sends.
\<close>

theorem splitter_copies:
  assumes "streamReq p = Some s"
  shows "map (\<lambda>q. streamReq q) (splitterPush mapping p) = map Some (case mapping s of Some outs \<Rightarrow> outs | None \<Rightarrow> [s])
    \<and> (\<forall>q \<in> set (splitterPush mapping p). seqReq q = seqReq p \<and> pktPayload q = pktPayload p \<and> pktHeaders q = pktHeaders p)
    \<and> getNumPacketDuplicates mapping p = int (length (splitterPush mapping p)) - 1"
  using assms by (auto simp: splitterPush_def getNumPacketDuplicates_def split: option.splits)

lemma splitter_copies_witness:
  "map (\<lambda>q. streamReq q) (splitterPush [''s'' \<mapsto> [''s1'', ''s2'']] (sent_demo 3)) = [Some ''s1'', Some ''s2'']"
  using splitter_copies [of "sent_demo 3" "''s''" "[''s'' \<mapsto> [''s1'', ''s2'']]"] by (simp add: sent_demo_def)

end
