(* ===== verification/StreamCoding.thy ===== *)
theory StreamCoding
  imports StreamMerging
begin

text \<open>
  The identity of a stream on its way through the network (\<open>inet/protocolelement/redundancy/\<close>):
  \<open>StreamIdentifier\<close> names the stream of a packet and numbers it, \<open>StreamEncoder\<close> turns the name
  into a VLAN id and a priority and requests the headers, \<open>StreamDecoder\<close> turns the fields of a
  received frame back into a name; and the base class of such modules, \<open>PacketFlowBase\<close>.

  Whether a packet filter expression, an interface name pattern or an address name matches is a
  parameter: the expressions are evaluated by OMNeT++, the names by the address resolver.
\<close>

section \<open>Packet flows\<close>

text \<open>The processing of a concrete flow may count the packet as processed itself.\<close>

type_synonym 's flow_process = "filter_base \<Rightarrow> 's \<Rightarrow> tagged_packet \<Rightarrow> (filter_base \<times> 's \<times> tagged_packet) result"

definition flowPush :: "'s flow_process \<Rightarrow> filter_base \<Rightarrow> 's \<Rightarrow> tagged_packet \<Rightarrow> (filter_base \<times> 's \<times> tagged_packet) result" where
  "flowPush pro b s p =
     rbind (checkPacketStreaming None b) (\<lambda>_.
     rbind (pro b s p) (\<lambda>(b1, s1, p1). Inr (handlePacketProcessed b1, s1, p1)))"

definition flowPushStart :: "'s flow_process \<Rightarrow> filter_base \<Rightarrow> 's \<Rightarrow> int \<Rightarrow> tagged_packet \<Rightarrow> (filter_base \<times> 's \<times> tagged_packet) result" where
  "flowPushStart pro b s tree p =
     rbind (checkPacketStreaming (Some tree) b) (\<lambda>_. pro (startPacketStreaming tree b) s p)"

section \<open>Parameters\<close>

text \<open>An element of a mapping parameter: a map with the keys that are present.\<close>

record mapping_element =
  elFilter :: "string option"
  elSource :: "string option"
  elDestination :: "string option"
  elVlan :: "int option"
  elPcp :: "int option"
  elStream :: "string option"
  elInterface :: "string option"
  elSequenceNumbering :: "bool option"

definition element :: mapping_element where
  "element = \<lparr>elFilter = None, elSource = None, elDestination = None, elVlan = None, elPcp = None,
     elStream = None, elInterface = None, elSequenceNumbering = None\<rparr>"

definition key :: "'a option \<Rightarrow> 'a result" where
  "key x = (case x of None \<Rightarrow> Inl (RuntimeError ''key not found'') | Some v \<Rightarrow> Inr v)"

section \<open>Stream identifier\<close>

record stream_identifier =
  hasSequenceNumbering :: bool
  identifierMapping :: "mapping_element list"
  streamCounters :: "string \<rightharpoonup> int"

definition identifierInitialize :: "init_stage \<Rightarrow> bool \<Rightarrow> mapping_element list \<Rightarrow> stream_identifier \<Rightarrow> stream_identifier" where
  "identifierInitialize stage numbering mapping s =
     (if stage = INITSTAGE_LOCAL then s\<lparr>hasSequenceNumbering := numbering, identifierMapping := mapping\<rparr> else s)"

definition identifierParameterChange :: "string \<Rightarrow> mapping_element list \<Rightarrow> stream_identifier \<Rightarrow> stream_identifier" where
  "identifierParameterChange name mapping s = (if name = ''mapping'' then s\<lparr>identifierMapping := mapping\<rparr> else s)"

definition incrementSequenceNumber :: "string \<Rightarrow> stream_identifier \<Rightarrow> int \<times> stream_identifier" where
  "incrementSequenceNumber stream s =
     (let n = (case streamCounters s stream of None \<Rightarrow> 0 | Some n \<Rightarrow> n)
      in (n, s\<lparr>streamCounters := (streamCounters s)(stream \<mapsto> n + 1)\<rparr>))"

definition identifyAs :: "mapping_element \<Rightarrow> stream_identifier \<Rightarrow> tagged_packet \<Rightarrow> (stream_identifier \<times> tagged_packet) result" where
  "identifyAs el s p =
     rbind (key (elStream el)) (\<lambda>name.
     rbind (add_tag (streamReq p) name) (\<lambda>sr.
       let p1 = p\<lparr>streamReq := sr\<rparr>; (n, s1) = incrementSequenceNumber name s in
       if hasSequenceNumbering s1 \<and> elSequenceNumbering el = Some True
       then rbind (add_tag (seqReq p1) n) (\<lambda>q. Inr (s1, p1\<lparr>seqReq := q\<rparr>))
       else Inr (s1, p1)))"

text \<open>\<open>matches\<close> of an absent expression stands for the expression \<open>*\<close>.\<close>

fun identifyFirst :: "(string option \<Rightarrow> tagged_packet \<Rightarrow> bool) \<Rightarrow> mapping_element list \<Rightarrow> stream_identifier \<Rightarrow> tagged_packet \<Rightarrow>
    (stream_identifier \<times> tagged_packet) result" where
  "identifyFirst matches [] s p = Inr (s, p)"
| "identifyFirst matches (el # els) s p =
     (if matches (elFilter el) p then identifyAs el s p else identifyFirst matches els s p)"

definition identifierProcess :: "(string option \<Rightarrow> tagged_packet \<Rightarrow> bool) \<Rightarrow> stream_identifier flow_process" where
  "identifierProcess matches b s p =
     rbind (if streamReq p \<noteq> None then Inr (s, p) else identifyFirst matches (identifierMapping s) s p) (\<lambda>(s1, p1).
       Inr (handlePacketProcessed b, s1, p1))"

definition identifierPush :: "(string option \<Rightarrow> tagged_packet \<Rightarrow> bool) \<Rightarrow> filter_base \<Rightarrow> stream_identifier \<Rightarrow> tagged_packet \<Rightarrow>
    (filter_base \<times> stream_identifier \<times> tagged_packet) result" where
  "identifierPush matches = flowPush (identifierProcess matches)"

section \<open>Stream encoder\<close>

record encoder_mapping =
  encVlan :: int
  encPcp :: int
  encStream :: string

definition encoderEntry :: "mapping_element \<Rightarrow> encoder_mapping result" where
  "encoderEntry el =
     rbind (key (elStream el)) (\<lambda>name.
       Inr \<lparr>encVlan = (case elVlan el of Some v \<Rightarrow> v | None \<Rightarrow> -1), encPcp = (case elPcp el of Some v \<Rightarrow> v | None \<Rightarrow> -1),
            encStream = name\<rparr>)"

definition encoderConfigure :: "mapping_element list \<Rightarrow> encoder_mapping list result" where
  "encoderConfigure els = mapM encoderEntry els"

definition encodeAs :: "encoder_mapping \<Rightarrow> tagged_packet \<Rightarrow> tagged_packet result" where
  "encodeAs e p =
     (let p1 = (if encPcp e \<noteq> -1 then p\<lparr>pcpReq := Some (encPcp e)\<rparr> else p);
          p2 = (if encVlan e \<noteq> -1 then p1\<lparr>vlanReq := Some (encVlan e)\<rparr> else p1);
          p3 = (if seqReq p2 \<noteq> None then ensureEncapsulationProtocolReq ieee8021rTag True True p2 else p2);
          p4 = (if encPcp e \<noteq> -1 \<or> encVlan e \<noteq> -1 then ensureEncapsulationProtocolReq ieee8021qCTag True True p3 else p3)
      in setDispatchProtocol None p4)"

definition encoderProcess :: "encoder_mapping list flow_process" where
  "encoderProcess b ms p =
     (case streamReq p of
        None \<Rightarrow> Inr (b, ms, p)
      | Some name \<Rightarrow>
          (case find (\<lambda>e. encStream e = name) ms of
             None \<Rightarrow> Inr (b, ms, p)
           | Some e \<Rightarrow> rbind (encodeAs e p) (\<lambda>p'. Inr (b, ms, p'))))"

section \<open>Stream decoder\<close>

record decoder_mapping =
  decFilter :: "string option"
  decSource :: mac
  decDestination :: mac
  decInterface :: "string option"
  decVlan :: int
  decPcp :: int
  decStream :: string

definition newDecoderMapping :: decoder_mapping where
  "newDecoderMapping = \<lparr>decFilter = None, decSource = 0, decDestination = 0, decInterface = None,
     decVlan = -1, decPcp = -1, decStream = []\<rparr>"

text \<open>
  The entry is assigned in place, over the entry that was at its index. \<open>resolve\<close> is the address a
  name resolves to, the unspecified address if it does not.
\<close>

definition decoderEntry :: "(string \<Rightarrow> mac) \<Rightarrow> decoder_mapping \<Rightarrow> mapping_element \<Rightarrow> decoder_mapping result" where
  "decoderEntry resolve old el =
     rbind (key (elStream el)) (\<lambda>name.
       Inr \<lparr>decFilter = elFilter el,
            decSource = (case elSource el of Some a \<Rightarrow> resolve a | None \<Rightarrow> decSource old),
            decDestination = (case elDestination el of Some a \<Rightarrow> resolve a | None \<Rightarrow> decDestination old),
            decInterface = (case elInterface el of Some i \<Rightarrow> Some i | None \<Rightarrow> decInterface old),
            decVlan = (case elVlan el of Some v \<Rightarrow> v | None \<Rightarrow> -1),
            decPcp = (case elPcp el of Some v \<Rightarrow> v | None \<Rightarrow> -1),
            decStream = name\<rparr>)"

text \<open>\<open>std::vector::resize\<close>\<close>

definition resize :: "nat \<Rightarrow> 'a \<Rightarrow> 'a list \<Rightarrow> 'a list" where
  "resize n d xs = take n xs @ replicate (n - length xs) d"

definition decoderConfigure :: "(string \<Rightarrow> mac) \<Rightarrow> mapping_element list \<Rightarrow> decoder_mapping list \<Rightarrow> decoder_mapping list result" where
  "decoderConfigure resolve els old =
     mapM (\<lambda>(o', el). decoderEntry resolve o' el) (zip (resize (length els) newDecoderMapping old) els)"

record decoder_env =
  filterMatches :: "string option \<Rightarrow> tagged_packet \<Rightarrow> bool"
  interfacePattern :: "string \<Rightarrow> string \<Rightarrow> bool"
  interfaceById :: "int \<Rightarrow> string result"

definition decoderMatches :: "decoder_env \<Rightarrow> decoder_mapping \<Rightarrow> tagged_packet \<Rightarrow> bool result" where
  "decoderMatches env m p =
     rbind (case decInterface m of
              None \<Rightarrow> Inr True
            | Some pat \<Rightarrow>
                (case interfaceInd p of None \<Rightarrow> Inr False
                 | Some i \<Rightarrow> rbind (interfaceById env i) (\<lambda>name. Inr (interfacePattern env pat name)))) (\<lambda>ifOk.
       Inr (filterMatches env (decFilter m) p \<and> ifOk
         \<and> (decSource m \<noteq> 0 \<longrightarrow> map_option fst (macInd p) = Some (decSource m))
         \<and> (decDestination m \<noteq> 0 \<longrightarrow> map_option snd (macInd p) = Some (decDestination m))
         \<and> (decVlan m \<noteq> -1 \<longrightarrow> vlanInd p = Some (decVlan m))
         \<and> (decPcp m \<noteq> -1 \<longrightarrow> pcpInd p = Some (decPcp m))))"

fun decodeFirst :: "decoder_env \<Rightarrow> decoder_mapping list \<Rightarrow> tagged_packet \<Rightarrow> tagged_packet result" where
  "decodeFirst env [] p = Inr p"
| "decodeFirst env (m # ms) p =
     rbind (decoderMatches env m p) (\<lambda>ok.
       if ok then rbind (add_tag (streamInd p) (decStream m)) (\<lambda>t. Inr (p\<lparr>streamInd := t\<rparr>))
       else decodeFirst env ms p)"

definition decoderProcess :: "decoder_env \<Rightarrow> decoder_mapping list flow_process" where
  "decoderProcess env b ms p =
     rbind (decodeFirst env ms p) (\<lambda>p1. Inr (handlePacketProcessed b, ms, p1))"

definition decoderPush :: "decoder_env \<Rightarrow> filter_base \<Rightarrow> decoder_mapping list \<Rightarrow> tagged_packet \<Rightarrow>
    (filter_base \<times> decoder_mapping list \<times> tagged_packet) result" where
  "decoderPush env = flowPush (decoderProcess env)"

section \<open>Numbers of a stream\<close>

fun identifyAll :: "(string option \<Rightarrow> tagged_packet \<Rightarrow> bool) \<Rightarrow> filter_base \<Rightarrow> stream_identifier \<Rightarrow> tagged_packet list \<Rightarrow>
    (filter_base \<times> stream_identifier \<times> tagged_packet list) result" where
  "identifyAll matches b s [] = Inr (b, s, [])"
| "identifyAll matches b s (p # ps) =
     rbind (identifierPush matches b s p) (\<lambda>(b1, s1, q).
     rbind (identifyAll matches b1 s1 ps) (\<lambda>(b2, s2, qs). Inr (b2, s2, q # qs)))"

text \<open>The numbers of the packets that have been identified, here, as packets of a stream.\<close>

definition identifiedNumbers :: "string \<Rightarrow> tagged_packet list \<Rightarrow> tagged_packet list \<Rightarrow> int option list" where
  "identifiedNumbers name ps qs =
     map (\<lambda>(p, q). seqReq q) (filter (\<lambda>(p, q). streamReq p = None \<and> streamReq q = Some name) (zip ps qs))"

definition counterOf :: "stream_identifier \<Rightarrow> string \<Rightarrow> int" where
  "counterOf s name = (case streamCounters s name of None \<Rightarrow> 0 | Some n \<Rightarrow> n)"

definition numbersStream :: "stream_identifier \<Rightarrow> string \<Rightarrow> bool" where
  "numbersStream s name \<longleftrightarrow> hasSequenceNumbering s
     \<and> (\<forall>el \<in> set (identifierMapping s). elStream el = Some name \<longrightarrow> elSequenceNumbering el = Some True)"

lemma key_Inr_iff [result_laws]: "key x = Inr v \<longleftrightarrow> x = Some v"
  by (simp add: key_def split: option.splits)

lemma identifyAs_spec:
  assumes "identifyAs el s p = Inr (s1, q)"
  obtains n where "elStream el = Some n" "streamReq p = None" "streamReq q = Some n"
    "hasSequenceNumbering s1 = hasSequenceNumbering s" "identifierMapping s1 = identifierMapping s"
    "counterOf s1 = (counterOf s)(n := counterOf s n + 1)"
    "hasSequenceNumbering s \<and> elSequenceNumbering el = Some True \<Longrightarrow> seqReq q = Some (counterOf s n)"
proof -
  obtain n where n: "elStream el = Some n" "streamReq p = None"
    and s1: "s1 = s\<lparr>streamCounters := (streamCounters s)(n \<mapsto> counterOf s n + 1)\<rparr>"
    and q: "q = (if hasSequenceNumbering s \<and> elSequenceNumbering el = Some True
      then p\<lparr>streamReq := Some n, seqReq := Some (counterOf s n)\<rparr> else p\<lparr>streamReq := Some n\<rparr>)"
    using assms
    by (cases "hasSequenceNumbering s \<and> elSequenceNumbering el = Some True")
      (auto simp: identifyAs_def incrementSequenceNumber_def rbind_Inr_iff add_tag_Inr_iff key_Inr_iff Let_def counterOf_def)
  show ?thesis by (rule that [OF n]) (simp_all add: s1 q counterOf_def fun_eq_iff)
qed

lemma identifyFirst_spec:
  "identifyFirst matches els s p = Inr (s1, q) \<Longrightarrow>
   (s1 = s \<and> q = p) \<or> (\<exists>el \<in> set els. identifyAs el s p = Inr (s1, q))"
  by (induction els) (auto split: if_splits)

lemma identifierPush_spec:
  assumes "identifierPush matches b s p = Inr (b1, s1, q)"
  shows "numProcessedPackets b1 = numProcessedPackets b + 2"
    and "hasSequenceNumbering s1 = hasSequenceNumbering s" "identifierMapping s1 = identifierMapping s"
    and "streamReq p \<noteq> None \<or> streamReq q \<noteq> Some name \<Longrightarrow> counterOf s1 name = counterOf s name"
    and "streamReq p = None \<Longrightarrow> streamReq q = Some name \<Longrightarrow> counterOf s1 name = counterOf s name + 1
      \<and> (numbersStream s name \<longrightarrow> seqReq q = Some (counterOf s name))"
proof -
  obtain b0 where b: "b1 = handlePacketProcessed (handlePacketProcessed b0)" "numProcessedPackets b0 = numProcessedPackets b"
    and cases: "(streamReq p \<noteq> None \<and> s1 = s \<and> q = p)
      \<or> (streamReq p = None \<and> identifyFirst matches (identifierMapping s) s p = Inr (s1, q))"
    using assms by (auto simp: identifierPush_def flowPush_def identifierProcess_def rbind_Inr_iff split: if_splits)
  show "numProcessedPackets b1 = numProcessedPackets b + 2" by (simp add: b handlePacketProcessed_def)
  have "hasSequenceNumbering s1 = hasSequenceNumbering s \<and> identifierMapping s1 = identifierMapping s
    \<and> (streamReq p \<noteq> None \<or> streamReq q \<noteq> Some name \<longrightarrow> counterOf s1 name = counterOf s name)
    \<and> (streamReq p = None \<longrightarrow> streamReq q = Some name \<longrightarrow> counterOf s1 name = counterOf s name + 1
      \<and> (numbersStream s name \<longrightarrow> seqReq q = Some (counterOf s name)))" for name
  proof (cases "streamReq p = None")
    case True
    then have "(s1 = s \<and> q = p) \<or> (\<exists>el \<in> set (identifierMapping s). identifyAs el s p = Inr (s1, q))"
      using cases identifyFirst_spec by blast
    then show ?thesis
    proof
      assume "\<exists>el \<in> set (identifierMapping s). identifyAs el s p = Inr (s1, q)"
      then obtain el where el: "el \<in> set (identifierMapping s)" "identifyAs el s p = Inr (s1, q)" by blast
      obtain n where n: "elStream el = Some n" "streamReq q = Some n"
        "hasSequenceNumbering s1 = hasSequenceNumbering s" "identifierMapping s1 = identifierMapping s"
        "counterOf s1 = (counterOf s)(n := counterOf s n + 1)"
        "hasSequenceNumbering s \<and> elSequenceNumbering el = Some True \<Longrightarrow> seqReq q = Some (counterOf s n)"
        using identifyAs_spec [OF el(2)] by metis
      show ?thesis
      proof (cases "n = name")
        case True
        then show ?thesis using n el(1) \<open>streamReq p = None\<close> by (auto simp: numbersStream_def)
      next
        case False
        then show ?thesis using n by simp
      qed
    qed (use True in simp)
  qed (use cases in auto)
  then show "hasSequenceNumbering s1 = hasSequenceNumbering s" "identifierMapping s1 = identifierMapping s"
    "streamReq p \<noteq> None \<or> streamReq q \<noteq> Some name \<Longrightarrow> counterOf s1 name = counterOf s name"
    "streamReq p = None \<Longrightarrow> streamReq q = Some name \<Longrightarrow> counterOf s1 name = counterOf s name + 1
      \<and> (numbersStream s name \<longrightarrow> seqReq q = Some (counterOf s name))"
    by blast+
qed

lemma identifyAll_numbers:
  assumes "identifyAll matches b s ps = Inr (b', s', qs)" "numbersStream s name"
  shows "identifiedNumbers name ps qs = map Some [counterOf s name..counterOf s' name - 1]
    \<and> counterOf s name \<le> counterOf s' name"
  using assms
proof (induction ps arbitrary: b s qs)
  case Nil
  then show ?case by (simp add: identifiedNumbers_def)
next
  case (Cons p ps)
  then obtain b1 s1 q qs1 where p: "identifierPush matches b s p = Inr (b1, s1, q)"
    and rest: "identifyAll matches b1 s1 ps = Inr (b', s', qs1)" and qs: "qs = q # qs1"
    by (auto simp: rbind_Inr_iff)
  note step = identifierPush_spec [OF p]
  have "numbersStream s1 name" using Cons.prems(2) step(2,3) by (simp add: numbersStream_def)
  from Cons.IH [OF rest this] have ih: "identifiedNumbers name ps qs1 = map Some [counterOf s1 name..counterOf s' name - 1]"
    "counterOf s1 name \<le> counterOf s' name" by simp_all
  show ?case
  proof (cases "streamReq p = None \<and> streamReq q = Some name")
    case True
    then have "counterOf s1 name = counterOf s name + 1" "seqReq q = Some (counterOf s name)"
      using step(5) Cons.prems(2) by simp_all
    then show ?thesis using ih True by (simp add: identifiedNumbers_def qs upto_rec1)
  next
    case False
    then have "counterOf s1 name = counterOf s name" using step(4) by blast
    then show ?thesis using ih False by (simp add: identifiedNumbers_def qs)
  qed
qed

text \<open>
  The packets that are identified as packets of a numbered stream carry consecutive sequence
  numbers, starting at zero, without gaps or repetitions, whatever other packets come in between.
\<close>

theorem identified_packets_are_numbered:
  assumes "identifyAll matches b s ps = Inr (b', s', qs)" "numbersStream s name" "streamCounters s name = None"
  shows "\<exists>k. identifiedNumbers name ps qs = map Some [0..k - 1] \<and> 0 \<le> k"
proof -
  have "counterOf s name = 0" using assms(3) by (simp add: counterOf_def)
  then show ?thesis using identifyAll_numbers [OF assms(1,2)] by auto
qed

definition identifier_demo :: stream_identifier where
  "identifier_demo = \<lparr>hasSequenceNumbering = True,
     identifierMapping = [element\<lparr>elFilter := Some ''a'', elStream := Some ''A'', elSequenceNumbering := Some True\<rparr>,
                          element\<lparr>elStream := Some ''B'', elSequenceNumbering := Some True\<rparr>],
     streamCounters = Map.empty\<rparr>"

definition payload_filter :: "string option \<Rightarrow> tagged_packet \<Rightarrow> bool" where
  "payload_filter f p = (case f of None \<Rightarrow> True | Some _ \<Rightarrow> pktPayload p = 1)"

lemma identified_packets_are_numbered_witness:
  "\<exists>b' s' qs k. identifyAll payload_filter newFilter identifier_demo [plain_packet 1 100, plain_packet 2 100, plain_packet 1 100] = Inr (b', s', qs)
    \<and> identifiedNumbers ''A'' [plain_packet 1 100, plain_packet 2 100, plain_packet 1 100] qs = map Some [0..k - 1]"
proof -
  have "is_ok (identifyAll payload_filter newFilter identifier_demo [plain_packet 1 100, plain_packet 2 100, plain_packet 1 100])"
    by code_simp
  then obtain b' s' qs where r: "identifyAll payload_filter newFilter identifier_demo [plain_packet 1 100, plain_packet 2 100, plain_packet 1 100] = Inr (b', s', qs)"
    using is_ok_ex prod_cases3 by metis
  have "numbersStream identifier_demo ''A''" "streamCounters identifier_demo ''A'' = None"
    by (simp_all add: numbersStream_def identifier_demo_def element_def)
  from identified_packets_are_numbered [OF r this] r show ?thesis by blast
qed

text \<open>
  The identifier and the decoder count every packet twice: once in their own processing and
  once in the base class.
\<close>

theorem processed_packets_count_twice:
  assumes "identifierPush matches b s p = Inr (b1, s1, q)" "decoderPush env b ms p = Inr (b2, ms', q')"
  shows "numProcessedPackets b1 = numProcessedPackets b + 2 \<and> numProcessedPackets b2 = numProcessedPackets b + 2"
  using identifierPush_spec(1) [OF assms(1)] assms(2)
  by (auto simp: decoderPush_def flowPush_def decoderProcess_def rbind_Inr_iff handlePacketProcessed_def)

definition env_demo :: decoder_env where
  "env_demo = \<lparr>filterMatches = payload_filter, interfacePattern = (\<lambda>a b. a = b), interfaceById = (\<lambda>i. Inr ''eth0'')\<rparr>"

lemma processed_packets_count_twice_witness:
  "\<exists>b1 s1 q. identifierPush payload_filter newFilter identifier_demo (plain_packet 1 100) = Inr (b1, s1, q) \<and> numProcessedPackets b1 = 2"
proof -
  have "is_ok (identifierPush payload_filter newFilter identifier_demo (plain_packet 1 100))" by code_simp
  then obtain b1 s1 q where i: "identifierPush payload_filter newFilter identifier_demo (plain_packet 1 100) = Inr (b1, s1, q)"
    using is_ok_ex prod_cases3 by metis
  have "is_ok (decoderPush env_demo newFilter [] (plain_packet 1 100))" by code_simp
  then obtain b2 ms' q' where d: "decoderPush env_demo newFilter [] (plain_packet 1 100) = Inr (b2, ms', q')"
    using is_ok_ex prod_cases3 by metis
  from processed_packets_count_twice [OF i d] i show ?thesis by (auto simp: newFilter_def)
qed

section \<open>Reconfiguring a decoder\<close>

text \<open>
  The decoder does not forget: when its mapping is replaced, an entry without a source address
  keeps the restriction to the source address that the entry at its index had before, so packets
  of other senders that the new mapping describes are not recognized.
\<close>

theorem decoder_keeps_old_source:
  assumes "decoderConfigure resolve [el1] [] = Inr old" "elSource el1 = Some a" "resolve a \<noteq> 0"
    and "elSource el2 = None" "elStream el2 = Some name"
  shows "\<exists>new. decoderConfigure resolve [el2] old = Inr new
    \<and> (\<forall>env p q. map_option fst (macInd p) \<noteq> Some (resolve a) \<longrightarrow> decodeFirst env new p = Inr q \<longrightarrow> q = p)"
proof -
  obtain e where old: "old = [e]" "decSource e = resolve a"
    using assms(1,2) by (auto simp: decoderConfigure_def resize_def decoderEntry_def rbind_Inr_iff)
  obtain n where new: "decoderConfigure resolve [el2] old = Inr [n]" "decSource n = resolve a"
    using assms(4,5) old by (auto simp: decoderConfigure_def resize_def decoderEntry_def key_def)
  have "q = p" if "map_option fst (macInd p) \<noteq> Some (resolve a)" "decodeFirst env [n] p = Inr q" for env p q
    using that assms(3) new(2) by (auto simp: decoderMatches_def rbind_Inr_iff split: if_splits)
  then show ?thesis using new(1) by blast
qed

lemma decoder_keeps_old_source_witness:
  "\<exists>old new. decoderConfigure (\<lambda>_. 5) [element\<lparr>elSource := Some ''car'', elStream := Some ''A''\<rparr>] [] = Inr old
    \<and> decoderConfigure (\<lambda>_. 5) [element\<lparr>elStream := Some ''B''\<rparr>] old = Inr new"
proof -
  have "is_ok (decoderConfigure (\<lambda>_. 5) [element\<lparr>elSource := Some ''car'', elStream := Some ''A''\<rparr>] [])" by code_simp
  then obtain old where o: "decoderConfigure (\<lambda>_. 5) [element\<lparr>elSource := Some ''car'', elStream := Some ''A''\<rparr>] [] = Inr old"
    using is_ok_ex by blast
  from decoder_keeps_old_source [OF o, of "''car''" "element\<lparr>elStream := Some ''B''\<rparr>" "''B''"] o
  show ?thesis by (auto simp: element_def)
qed

text \<open>
  An address that cannot be resolved is not a restriction: an entry with such a source names
  the packets of every sender.
\<close>

theorem unresolved_source_matches_everyone:
  assumes "resolve a = 0" "decoderConfigure resolve [element\<lparr>elSource := Some a, elStream := Some name\<rparr>] [] = Inr ms"
    and "filterMatches env None p" "streamInd p = None"
  shows "decodeFirst env ms p = Inr (p\<lparr>streamInd := Some name\<rparr>)"
proof -
  have "ms = [\<lparr>decFilter = None, decSource = 0, decDestination = 0, decInterface = None, decVlan = -1, decPcp = -1, decStream = name\<rparr>]"
    using assms(1,2) by (simp add: decoderConfigure_def resize_def decoderEntry_def key_def element_def newDecoderMapping_def)
  then show ?thesis using assms(3,4) by (simp add: decoderMatches_def add_tag_def)
qed

lemma unresolved_source_matches_everyone_witness:
  "\<exists>ms. decodeFirst env_demo ms ((plain_packet 1 100)\<lparr>macInd := Some (7, 8)\<rparr>) = Inr ((plain_packet 1 100)\<lparr>macInd := Some (7, 8), streamInd := Some ''A''\<rparr>)"
proof -
  have "is_ok (decoderConfigure (\<lambda>_. 0) [element\<lparr>elSource := Some ''car'', elStream := Some ''A''\<rparr>] [])" by code_simp
  then obtain ms where "decoderConfigure (\<lambda>_. 0) [element\<lparr>elSource := Some ''car'', elStream := Some ''A''\<rparr>] [] = Inr ms"
    using is_ok_ex by blast
  from unresolved_source_matches_everyone [OF _ this, of env_demo "(plain_packet 1 100)\<lparr>macInd := Some (7, 8)\<rparr>"]
  show ?thesis by (intro exI) (simp add: env_demo_def payload_filter_def plain_packet_def)
qed

section \<open>A stream through the network\<close>

definition vlanEntry :: "int \<Rightarrow> string \<Rightarrow> decoder_mapping" where
  "vlanEntry v name = newDecoderMapping\<lparr>decVlan := v, decStream := name\<rparr>"

lemma decodeFirst_vlan:
  assumes "vlanInd p = Some v" "v \<noteq> -1" "streamInd p = None" "map_of table v = Some name"
    and "\<And>q. filterMatches env None q" "\<And>e. e \<in> set table \<Longrightarrow> fst e \<noteq> -1"
  shows "decodeFirst env (map (\<lambda>(v, name). vlanEntry v name) table) p = Inr (p\<lparr>streamInd := Some name\<rparr>)"
  using assms(4,6)
proof (induction table)
  case (Cons e table)
  obtain v' n' where e: "e = (v', n')" by (cases e)
  have "decoderMatches env (vlanEntry v' n') p = Inr (v' = v)"
    using assms(1,5) Cons.prems(2) [of e] by (auto simp: decoderMatches_def vlanEntry_def newDecoderMapping_def e)
  then show ?case
    using Cons assms(3) by (cases "v' = v") (auto simp: e add_tag_def vlanEntry_def)
qed simp

lemma encodeAs_spec:
  assumes "encVlan e \<noteq> -1" "seqReq p = Some n" "ieee8021rTag \<notin> set (req_stack p)" "ieee8021qCTag \<notin> set (req_stack p)"
  obtains p1 where "encodeAs e p = Inr p1" "vlanReq p1 = Some (encVlan e)" "seqReq p1 = Some n"
    "req_stack p1 = ieee8021qCTag # ieee8021rTag # req_stack p" "dispatchReq p1 = Some ieee8021qCTag"
    "encapReq p1 = Some (ieee8021qCTag # ieee8021rTag # req_stack p)"
    "pktHeaders p1 = pktHeaders p" "pktPayload p1 = pktPayload p" "pktBytes p1 = pktBytes p"
    "packetProtocol p1 = packetProtocol p" "streamInd p1 = streamInd p" "streamReq p1 = streamReq p"
proof -
  define p2 where "p2 = (if encPcp e \<noteq> -1 then p\<lparr>pcpReq := Some (encPcp e)\<rparr> else p)\<lparr>vlanReq := Some (encVlan e)\<rparr>"
  have p2: "vlanReq p2 = Some (encVlan e)" "seqReq p2 = Some n" "encapReq p2 = encapReq p"
    "pktHeaders p2 = pktHeaders p" "pktPayload p2 = pktPayload p" "pktBytes p2 = pktBytes p"
    "packetProtocol p2 = packetProtocol p" "streamInd p2 = streamInd p" "streamReq p2 = streamReq p"
    using assms(2) by (simp_all add: p2_def)
  define p3 where "p3 = ensureEncapsulationProtocolReq ieee8021rTag True True p2"
  define p4 where "p4 = ensureEncapsulationProtocolReq ieee8021qCTag True True p3"
  have qr: "ieee8021qCTag \<noteq> ieee8021rTag" by (simp add: ieee8021qCTag_def ieee8021rTag_def)
  have s3: "req_stack p3 = ieee8021rTag # req_stack p"
    using assms(3) by (simp add: p3_def req_stack_ensure p2)
  have s4: "req_stack p4 = ieee8021qCTag # ieee8021rTag # req_stack p"
    using assms(4) qr by (simp add: p4_def req_stack_ensure s3)
  have e4: "encapReq p4 = Some (ieee8021qCTag # ieee8021rTag # req_stack p)"
    using s4 req_stack_ensure(2) [of ieee8021qCTag p3] by (auto simp: p4_def split: option.splits)
  have "encodeAs e p = setDispatchProtocol None p4"
    using assms(1) p2(2) unfolding encodeAs_def Let_def p4_def p3_def p2_def by simp
  also have "\<dots> = Inr (p4\<lparr>dispatchReq := Some ieee8021qCTag\<rparr>)"
    by (simp add: setDispatchProtocol_Inr e4)
  finally show ?thesis
    by (rule that) (use e4 p2 in \<open>simp_all add: p4_def p3_def frame_laws\<close>)
qed

text \<open>
  The identity of a stream survives the network. A packet of a stream that the encoder maps to
  a VLAN id is dispatched to the VLAN header and then to the redundancy header; the receiver takes
  the headers off in the opposite order, and a decoder that maps the VLAN ids back gives the packet
  the name of its stream, with its contents and its sequence number (modulo 65536).
\<close>

theorem stream_identity_survives:
  assumes g: "wf_group g" "decodable g ieee8021qCTag 1" and q: "qtagProtocol c = ieee8021qCTag"
    and p: "streamReq p = Some s" "streamInd p = None" "seqReq p = Some n" "packetProtocol p = Some proto"
      "decodable g proto (getByteLength p)"
      "ieee8021rTag \<notin> set (req_stack p)" "ieee8021qCTag \<notin> set (req_stack p)"
    and enc: "find (\<lambda>e. encStream e = s) ms = Some e" "0 \<le> encVlan e" "encVlan e < 2 ^ 16"
    and dec: "map_of table (encVlan e) = Some s" "\<And>e. e \<in> set table \<Longrightarrow> fst e \<noteq> -1" "\<And>q. filterMatches env None q"
  shows "\<exists>p1 p2 p3 p4 p5 p6. encoderProcess b ms p = Inr (b, ms, p1)
    \<and> dispatchReq p1 = Some ieee8021qCTag \<and> qInsert g c p1 = Inr p2
    \<and> dispatchReq p2 = Some ieee8021rTag \<and> rInsert g next p2 = Inr p3
    \<and> rCheck g p3 = Inr (Passed p4)
    \<and> dispatchReq p4 = Some ieee8021qCTag \<and> qCheck g ieee8021qCTag [] p4 = Inr (Passed p5)
    \<and> decodeFirst env (map (\<lambda>(v, name). vlanEntry v name) table) p5 = Inr p6
    \<and> streamInd p6 = Some s \<and> seqInd p6 = Some (n mod 2 ^ 16)
    \<and> pktPayload p6 = pktPayload p \<and> pktHeaders p6 = pktHeaders p \<and> packetProtocol p6 = Some proto"
proof -
  have v: "encVlan e \<noteq> -1" using enc(2) by simp
  obtain p1 where p1: "encodeAs e p = Inr p1" "vlanReq p1 = Some (encVlan e)" "seqReq p1 = Some n"
    "dispatchReq p1 = Some ieee8021qCTag" "encapReq p1 = Some (ieee8021qCTag # ieee8021rTag # req_stack p)"
    "pktHeaders p1 = pktHeaders p" "pktPayload p1 = pktPayload p" "pktBytes p1 = pktBytes p"
    "packetProtocol p1 = packetProtocol p" "streamInd p1 = streamInd p"
    using encodeAs_spec [OF v p(3,6,7)] by metis
  have len1: "getByteLength p1 = getByteLength p" by (simp add: getByteLength_def p1)
  have to1: "addressed_to (qtagProtocol c) p1" by (simp add: addressed_to_def p1 q)
  have proto1: "packetProtocol p1 = Some proto" by (simp add: p1 p)
  obtain p2 a d w where p2: "qInsert g c p1 = Inr p2" "tag_requests_done p1 p2"
    "pktHeaders p2 = QTag a d w (typeOrLength g proto (getByteLength p1)) # pktHeaders p1"
    "packetProtocol p2 = Some (qtagProtocol c)" "pktPayload p2 = pktPayload p1" "seqReq p2 = seqReq p1"
    "streamInd p2 = streamInd p1"
    and w0: "uint w = (if request_or (vlanReq p1) (defaultVlanId c) = -1 then 0 else request_or (vlanReq p1) (defaultVlanId c) mod 2 ^ 16)"
    and d0: "dispatchReq p2 = Some (case tl (req_stack p1) of [] \<Rightarrow> (case nextProtocol c of Some n \<Rightarrow> n | None \<Rightarrow> ethernetMac) | r # _ \<Rightarrow> r)"
    using qInsert_spec [OF proto1 to1, of g] by metis
  have w2: "uint w = encVlan e mod 2 ^ 16" using w0 v by (simp add: p1 request_or_def)
  have d2: "dispatchReq p2 = Some ieee8021rTag" using d0 by (simp add: p1)
  have to2: "addressed_to ieee8021rTag p2" using p2(2) d2 by (simp add: addressed_to_def tag_requests_done_def p1)
  have n2: "seqReq p2 = Some n" by (simp add: p2 p1)
  have proto2: "packetProtocol p2 = Some ieee8021qCTag" by (simp add: p2 q)
  obtain p3 where p3: "rInsert g next p2 = Inr p3"
    "pktHeaders p3 = RTag (word_of_int n) (typeOrLength g ieee8021qCTag (getByteLength p2)) # pktHeaders p2"
    "pktPayload p3 = pktPayload p2" "streamInd p3 = streamInd p2"
    using rInsert_spec [OF proto2 to2 n2, of g "next"] by metis
  have dq: "decodable g ieee8021qCTag (getByteLength p2)"
    using g(2) by (simp add: decodable_def ieee8021qCTag_def ieee8022llc_def)
  note p4 = rCheck_spec [OF g(1) dq p3(2)]
  define p4 where "p4 = (appendEncapsulationProtocolInd ieee8021rTag (p3\<lparr>pktHeaders := pktHeaders p2\<rparr>))
      \<lparr>seqInd := Some (uint (word_of_int n :: 16 word)), packetProtocol := Some ieee8021qCTag, dispatchReq := Some ieee8021qCTag\<rparr>"
  have h4: "pktHeaders p4 = QTag a d w (typeOrLength g proto (getByteLength p)) # pktHeaders p"
    by (simp add: p4_def p2 p1 len1 frame_laws)
  note p5 = qCheck_spec [OF g(1) p(5) h4, of ieee8021qCTag "[]"]
  define p5 where "p5 = (appendEncapsulationProtocolInd ieee8021qCTag (p4\<lparr>pktHeaders := pktHeaders p\<rparr>))
      \<lparr>userPriorityInd := Some (uint a), pcpInd := Some (uint a), vlanInd := Some (uint w), dropEligibleInd := Some d,
       packetProtocol := Some proto, dispatchReq := Some proto\<rparr>"
  have f5: "vlanInd p5 = Some (encVlan e)" "streamInd p5 = None" "seqInd p5 = Some (n mod 2 ^ 16)"
    "pktPayload p5 = pktPayload p" "pktHeaders p5 = pktHeaders p" "packetProtocol p5 = Some proto"
    using enc(2,3) by (simp_all add: p5_def p4_def p3 p2 p1 p frame_laws uint_word_of_int w2)
  have p6: "decodeFirst env (map (\<lambda>(v, name). vlanEntry v name) table) p5 = Inr (p5\<lparr>streamInd := Some s\<rparr>)"
    by (rule decodeFirst_vlan [OF f5(1) v f5(2) dec(1,3,2)])
  have "encoderProcess b ms p = Inr (b, ms, p1)" by (simp add: encoderProcess_def p enc p1)
  moreover have "dispatchReq p4 = Some ieee8021qCTag" by (simp add: p4_def)
  ultimately show ?thesis
    using p1(4) p2(1) d2 p3(1) p4 [folded p4_def] p5 [folded p5_def] p6 f5
    by (intro exI conjI) (assumption | simp)+
qed
definition streamed_demo :: tagged_packet where
  "streamed_demo = (plain_packet 7 100)\<lparr>packetProtocol := Some ''ipv4'', streamReq := Some ''A'', seqReq := Some 70000\<rparr>"

lemma stream_identity_survives_witness:
  "\<exists>p1. encoderProcess newFilter [\<lparr>encVlan = 12, encPcp = -1, encStream = ''A''\<rparr>] streamed_demo
      = Inr (newFilter, [\<lparr>encVlan = 12, encPcp = -1, encStream = ''A''\<rparr>], p1) \<and> dispatchReq p1 = Some ieee8021qCTag"
proof -
  have g: "decodable ethertypeGroup ieee8021qCTag 1" and d: "decodable ethertypeGroup ''ipv4'' (getByteLength streamed_demo)"
    by code_simp+
  have q: "qtagProtocol q_demo = ieee8021qCTag" by (simp add: q_demo_def)
  have p: "streamReq streamed_demo = Some ''A''" "streamInd streamed_demo = None" "seqReq streamed_demo = Some 70000"
    "packetProtocol streamed_demo = Some ''ipv4''" "ieee8021rTag \<notin> set (req_stack streamed_demo)"
    "ieee8021qCTag \<notin> set (req_stack streamed_demo)"
    by (simp_all add: streamed_demo_def plain_packet_def)
  define e where "e = \<lparr>encVlan = 12, encPcp = -1, encStream = ''A''\<rparr>"
  have e: "find (\<lambda>e. encStream e = ''A'') [e] = Some e" "0 \<le> encVlan e" "encVlan e < 2 ^ 16"
    "map_of [(12, ''A'')] (encVlan e) = Some ''A''"
    by (simp_all add: e_def)
  have t: "fst x \<noteq> -1" if "x \<in> set [(12 :: int, ''A'')]" for x using that by simp
  have f: "filterMatches env_demo None x" for x by (simp add: env_demo_def payload_filter_def)
  from stream_identity_survives [OF wf_ethertypeGroup g q p(1,2,3,4) d p(5,6) e t f, of newFilter None]
  show ?thesis unfolding e_def by blast
qed

end
