(* ===== verification/VlanPolicy.thy ===== *)
theory VlanPolicy
  imports StreamCoding
begin

text \<open>
  The VLAN policy of a bridge and the classification by priority: \<open>VlanReqMapper\<close>,
  \<open>VlanReqFilter\<close> and \<open>VlanIndFilter\<close> of \<open>inet/linklayer/vlan/\<close>, put together as in
  \<open>VlanPolicyLayer.ned\<close>, and \<open>PcpClassifier\<close> and \<open>PcpTrafficClassClassifier\<close> of
  \<open>inet/linklayer/ieee8021q/\<close>.

  The maps of the parameters are finite maps from interface names. \<open>ifName\<close> is the interface table:
  the name of the interface of an id, if there is one.
\<close>

section \<open>Names of interfaces\<close>

definition interfaceName :: "(int \<rightharpoonup> string) \<Rightarrow> int option \<Rightarrow> string result" where
  "interfaceName ifName tag =
     (case tag of
        None \<Rightarrow> Inr []
      | Some i \<Rightarrow> (case ifName i of None \<Rightarrow> Inl (RuntimeError ''getInterfaceById(): no interface with this ID'') | Some n \<Rightarrow> Inr n))"

text \<open>The entry of the interface, or the entry for all interfaces.\<close>

definition entryFor :: "(string \<rightharpoonup> 'a) \<Rightarrow> string \<Rightarrow> 'a option" where
  "entryFor m name = m (if m name \<noteq> None then name else ''*'')"

section \<open>Mapping of VLAN ids\<close>

definition tag_id :: "int option \<Rightarrow> int" where
  "tag_id t = (case t of None \<Rightarrow> -1 | Some v \<Rightarrow> v)"

text \<open>The ids of the inner map are written as decimal numbers; the model has the numbers.\<close>

type_synonym vlan_map = "string \<rightharpoonup> (int \<rightharpoonup> int)"

definition mapVlanReq :: "vlan_map \<Rightarrow> string \<Rightarrow> tagged_packet \<Rightarrow> tagged_packet" where
  "mapVlanReq mappedVlanIds name p =
     (case entryFor mappedVlanIds name of
        None \<Rightarrow> p
      | Some ids \<Rightarrow>
          (case ids (tag_id (vlanReq p)) of
             None \<Rightarrow> p
           | Some new \<Rightarrow> p\<lparr>vlanReq := (if new = -1 then None else Some new)\<rparr>))"

definition vlanReqMapperProcess :: "protocol \<Rightarrow> (int \<rightharpoonup> string) \<Rightarrow> vlan_map \<Rightarrow> tagged_packet \<Rightarrow> tagged_packet result" where
  "vlanReqMapperProcess q ifName mappedVlanIds p =
     rbind (interfaceName ifName (interfaceReq p)) (\<lambda>name.
       let p1 = mapVlanReq mappedVlanIds name p in
       setDispatchProtocol None (ensureEncapsulationProtocolReq q (vlanReq p1 \<noteq> None \<or> pcpReq p1 \<noteq> None) True p1))"

section \<open>Filters of VLAN ids\<close>

type_synonym vlan_lists = "string \<rightharpoonup> int list"

definition accepted :: "vlan_lists \<Rightarrow> string \<Rightarrow> int \<Rightarrow> bool" where
  "accepted acceptedVlanIds name v = (case entryFor acceptedVlanIds name of None \<Rightarrow> False | Some ids \<Rightarrow> v \<in> set ids)"

definition vlanReqFilterMatches :: "(int \<rightharpoonup> string) \<Rightarrow> vlan_lists \<Rightarrow> tagged_packet \<Rightarrow> bool result" where
  "vlanReqFilterMatches ifName acceptedVlanIds p =
     rbind (interfaceName ifName (interfaceReq p)) (\<lambda>name. Inr (accepted acceptedVlanIds name (tag_id (vlanReq p))))"

definition vlanIndFilterMatches :: "(int \<rightharpoonup> string) \<Rightarrow> vlan_lists \<Rightarrow> tagged_packet \<Rightarrow> bool result" where
  "vlanIndFilterMatches ifName acceptedVlanIds p =
     rbind (interfaceName ifName (interfaceInd p)) (\<lambda>name. Inr (accepted acceptedVlanIds name (tag_id (vlanInd p))))"

definition vlanIndFilterPush :: "(int \<rightharpoonup> string) \<Rightarrow> vlan_lists \<Rightarrow> filter_base \<Rightarrow> tagged_packet \<Rightarrow> unit filter_result" where
  "vlanIndFilterPush ifName acceptedVlanIds b p =
     filterPush (\<lambda>_. vlanIndFilterMatches ifName acceptedVlanIds) (\<lambda>s q. Inr (s, q)) b () p"

section \<open>The outbound half of the policy layer\<close>

definition outboundPolicy ::
    "protocol \<Rightarrow> (int \<rightharpoonup> string) \<Rightarrow> vlan_map \<Rightarrow> vlan_lists \<Rightarrow> filter_base \<Rightarrow> filter_base \<Rightarrow> tagged_packet \<Rightarrow>
     (filter_base \<times> filter_base \<times> tagged_packet filtered) result" where
  "outboundPolicy q ifName mappedVlanIds acceptedVlanIds b1 b2 p =
     rbind (flowPush (\<lambda>b s x. rbind (vlanReqMapperProcess q ifName mappedVlanIds x) (\<lambda>y. Inr (b, s, y))) b1 () p) (\<lambda>(b1', _, p1).
     rbind (filterPush (\<lambda>_. vlanReqFilterMatches ifName acceptedVlanIds) (\<lambda>s x. Inr (s, x)) b2 () p1) (\<lambda>(b2', _, r).
       Inr (b1', b2', r)))"

section \<open>Classification by priority\<close>

definition pcpOf :: "string \<Rightarrow> tagged_packet \<Rightarrow> int" where
  "pcpOf mode p =
     (case mode of
        c # _ \<Rightarrow>
          (if c = CHR ''r'' then tag_id (pcpReq p)
           else if c = CHR ''i'' then tag_id (pcpInd p)
           else if c = CHR ''b'' then (case pcpReq p of Some v \<Rightarrow> v | None \<Rightarrow> tag_id (pcpInd p))
           else -1)
      | [] \<Rightarrow> -1)"

text \<open>An element of an array; the array throws for an index out of range.\<close>

definition array_get :: "'a list \<Rightarrow> int \<Rightarrow> 'a result" where
  "array_get xs i = (if 0 \<le> i \<and> i < int (length xs) then Inr (xs ! nat i) else Inl OutOfRange)"

definition pcpClassify :: "string \<Rightarrow> int list \<Rightarrow> int \<Rightarrow> tagged_packet \<Rightarrow> int result" where
  "pcpClassify mode pcpToGateIndex defaultGateIndex p =
     (let pcp = pcpOf mode p in if pcp \<noteq> -1 then array_get pcpToGateIndex pcp else Inr defaultGateIndex)"

definition trafficClass :: "string \<Rightarrow> int list list \<Rightarrow> int \<Rightarrow> int \<Rightarrow> tagged_packet \<Rightarrow> int result" where
  "trafficClass mode mapping defaultGateIndex numTrafficClasses p =
     (let pcp = pcpOf mode p in
      if pcp \<noteq> -1 then rbind (array_get mapping pcp) (\<lambda>row. array_get row (numTrafficClasses - 1))
      else Inr defaultGateIndex)"

text \<open>The default of the parameter \<open>mapping\<close>.\<close>

definition recommendedMapping :: "int list list" where
  "recommendedMapping =
    [[0, 0, 0, 0, 0, 1, 1, 1],
     [0, 0, 0, 0, 0, 0, 0, 0],
     [0, 0, 0, 1, 1, 2, 2, 2],
     [0, 0, 0, 1, 1, 2, 3, 3],
     [0, 1, 1, 2, 2, 3, 4, 4],
     [0, 1, 1, 2, 2, 3, 4, 5],
     [0, 1, 2, 3, 3, 4, 5, 6],
     [0, 1, 2, 3, 4, 5, 6, 7]]"

section \<open>What leaves an interface\<close>

lemma mapVlanReq_other [frame_laws]:
  "pktHeaders (mapVlanReq m n p) = pktHeaders p" "pktPayload (mapVlanReq m n p) = pktPayload p"
  "pktBytes (mapVlanReq m n p) = pktBytes p" "pcpReq (mapVlanReq m n p) = pcpReq p"
  "packetProtocol (mapVlanReq m n p) = packetProtocol p" "encapReq (mapVlanReq m n p) = encapReq p"
  "interfaceReq (mapVlanReq m n p) = interfaceReq p" "dispatchReq (mapVlanReq m n p) = dispatchReq p"
  by (simp_all add: mapVlanReq_def split: option.split)

text \<open>The VLAN id a packet leaves with, \<open>-1\<close> if it is not tagged.\<close>

definition outboundVlan :: "vlan_map \<Rightarrow> string \<Rightarrow> tagged_packet \<Rightarrow> int" where
  "outboundVlan mappedVlanIds name p =
     (case entryFor mappedVlanIds name of
        None \<Rightarrow> tag_id (vlanReq p)
      | Some ids \<Rightarrow> (case ids (tag_id (vlanReq p)) of None \<Rightarrow> tag_id (vlanReq p) | Some new \<Rightarrow> new))"

lemma mapVlanReq_outboundVlan: "tag_id (vlanReq (mapVlanReq m n p)) = outboundVlan m n p"
  by (simp add: mapVlanReq_def outboundVlan_def tag_id_def split: option.split)

lemma ensure_request_filter_fields [frame_laws]:
  "interfaceReq (ensureEncapsulationProtocolReq q b c p) = interfaceReq p"
  by (simp add: ensureEncapsulationProtocolReq_def hasEncapsulationProtocolReq_def Let_def
      prependEncapsulationProtocolReq_def appendEncapsulationProtocolReq_def removeEncapsulationProtocolReq_def)

text \<open>The requests after the mapper: its own is there exactly for tagged packets.\<close>

definition requestsAfter :: "protocol \<Rightarrow> bool \<Rightarrow> protocol list \<Rightarrow> protocol list" where
  "requestsAfter q tagged stack = (if tagged then (if q \<in> set stack then stack else q # stack) else remove1 q stack)"

lemma ensure_encapReq:
  "encapReq (ensureEncapsulationProtocolReq q tagged True p) = Some (requestsAfter q tagged (req_stack p))"
  by (auto simp: ensureEncapsulationProtocolReq_def hasEncapsulationProtocolReq_def Let_def requestsAfter_def
      prependEncapsulationProtocolReq_def removeEncapsulationProtocolReq_def remove1_idem split: option.splits)

definition leavesTagged :: "vlan_map \<Rightarrow> string \<Rightarrow> tagged_packet \<Rightarrow> bool" where
  "leavesTagged m name p \<longleftrightarrow> vlanReq (mapVlanReq m name p) \<noteq> None \<or> pcpReq p \<noteq> None"

lemma vlanReqMapperProcess_cases:
  fixes q :: protocol and m :: vlan_map
  assumes "interfaceName ifName (interfaceReq p) = Inr name"
  defines "rs \<equiv> requestsAfter q (leavesTagged m name p) (req_stack p)"
  shows "vlanReqMapperProcess q ifName m p =
    (case rs of [] \<Rightarrow> Inl OutOfRange
     | r # _ \<Rightarrow> Inr ((mapVlanReq m name p)\<lparr>encapReq := Some rs, dispatchReq := Some r\<rparr>))"
proof -
  define p1 where "p1 = ensureEncapsulationProtocolReq q (leavesTagged m name p) True (mapVlanReq m name p)"
  have e: "encapReq p1 = Some rs" by (simp add: p1_def ensure_encapReq rs_def frame_laws)
  have "p1 = (mapVlanReq m name p)\<lparr>encapReq := encapReq p1\<rparr>"
    by (simp add: p1_def ensureEncapsulationProtocolReq_def hasEncapsulationProtocolReq_def Let_def
        prependEncapsulationProtocolReq_def appendEncapsulationProtocolReq_def removeEncapsulationProtocolReq_def)
  then have p1: "p1 = (mapVlanReq m name p)\<lparr>encapReq := Some rs\<rparr>" using e by simp
  have "vlanReqMapperProcess q ifName m p = setDispatchProtocol None p1"
    using assms(1) by (simp add: vlanReqMapperProcess_def Let_def p1_def leavesTagged_def frame_laws)
  also have "\<dots> = (case rs of [] \<Rightarrow> Inl OutOfRange
     | r # _ \<Rightarrow> Inr ((mapVlanReq m name p)\<lparr>encapReq := Some rs, dispatchReq := Some r\<rparr>))"
    by (simp add: setDispatchProtocol_def peekEncapsulationProtocolReq_def p1 split: list.split)
  finally show ?thesis .
qed
lemma outboundPolicy_spec:
  fixes q :: protocol and m :: vlan_map
  assumes "inProgressStreamId b1 = None" "inProgressStreamId b2 = None"
    and "interfaceName ifName (interfaceReq p) = Inr name"
    and "requestsAfter q (leavesTagged m name p) (req_stack p) = r # rs"
  defines "p1 \<equiv> (mapVlanReq m name p)\<lparr>encapReq := Some (r # rs), dispatchReq := Some r\<rparr>"
  shows "outboundPolicy q ifName m acc b1 b2 p =
    Inr (handlePacketProcessed b1,
         if accepted acc name (outboundVlan m name p) then handlePacketProcessed b2 else dropFiltered (handlePacketProcessed b2),
         if accepted acc name (outboundVlan m name p) then Passed p1 else Dropped)"
proof -
  have "vlanReqMapperProcess q ifName m p = Inr p1"
    using assms(3) by (simp add: vlanReqMapperProcess_cases [OF assms(3)] assms(4) p1_def)
  moreover have "vlanReqFilterMatches ifName acc p1 = Inr (accepted acc name (outboundVlan m name p))"
    using assms(3) by (simp add: vlanReqFilterMatches_def p1_def frame_laws mapVlanReq_outboundVlan)
  ultimately show ?thesis
    using assms(1,2) by (simp add: outboundPolicy_def flowPush_def filterPush_def filterRun_def checkPacketStreaming_def)
qed

text \<open>
  The outbound half of the policy lets a packet out exactly when the VLAN id that the map of
  its interface gives it is on the list of the interface. A packet that leaves carries that id, is
  dispatched to the tag header exactly when it has an id or a priority to carry (and then once),
  and every packet is counted once at both modules.
\<close>

theorem outbound_policy_enforced:
  fixes q :: protocol and m :: vlan_map
  assumes idle: "inProgressStreamId b1 = None" "inProgressStreamId b2 = None"
    and name: "interfaceName ifName (interfaceReq p) = Inr name"
    and stack: "req_stack p \<noteq> []" "q \<notin> set (req_stack p)"
  shows "\<exists>b1' b2' r. outboundPolicy q ifName m acc b1 b2 p = Inr (b1', b2', r)
    \<and> numProcessedPackets b1' = numProcessedPackets b1 + 1 \<and> numProcessedPackets b2' = numProcessedPackets b2 + 1
    \<and> (case r of
         Passed p1 \<Rightarrow> accepted acc name (outboundVlan m name p) \<and> tag_id (vlanReq p1) = outboundVlan m name p
           \<and> pktPayload p1 = pktPayload p \<and> pktHeaders p1 = pktHeaders p
           \<and> (if leavesTagged m name p then dispatchReq p1 = Some q \<and> encapReq p1 = Some (q # req_stack p)
              else dispatchReq p1 = Some (hd (req_stack p)) \<and> encapReq p1 = encapReq p)
       | Dropped \<Rightarrow> \<not> accepted acc name (outboundVlan m name p) \<and> numDroppedPackets b2' = numDroppedPackets b2 + 1)"
proof -
  obtain r rs where rs: "requestsAfter q (leavesTagged m name p) (req_stack p) = r # rs"
    and r: "if leavesTagged m name p then r = q \<and> rs = req_stack p else r # rs = req_stack p"
    using stack by (cases "leavesTagged m name p"; cases "req_stack p")
      (auto simp: requestsAfter_def remove1_idem simp del: remove1.simps)
  have enc: "encapReq p = Some (req_stack p)" using stack(1) by (auto split: option.splits)
  have hd: "r = hd (req_stack p)" if "\<not> leavesTagged m name p" using r that by (metis list.sel(1))
  show ?thesis
    unfolding outboundPolicy_spec [OF idle name rs]
    using r enc hd by (cases "leavesTagged m name p")
      (auto simp: handlePacketProcessed_def dropFiltered_def frame_laws mapVlanReq_outboundVlan split: if_splits)
qed

definition policy_demo :: tagged_packet where
  "policy_demo = (plain_packet 7 100)\<lparr>packetProtocol := Some ''ipv4'', interfaceReq := Some 101, encapReq := Some [ethernetMac]\<rparr>"

definition policy_names :: "int \<rightharpoonup> string" where
  "policy_names = [101 \<mapsto> ''eth0'']"

definition policy_map :: vlan_map where
  "policy_map = [''eth0'' \<mapsto> [-1 \<mapsto> 42]]"

lemma policy_demo_facts:
  "interfaceName policy_names (interfaceReq policy_demo) = Inr ''eth0''"
  "req_stack policy_demo = [ethernetMac]" "ieee8021qCTag \<notin> set (req_stack policy_demo)"
  "outboundVlan policy_map ''eth0'' policy_demo = 42"
  "vlanReq (mapVlanReq policy_map ''eth0'' policy_demo) = Some 42"
  by (simp_all add: interfaceName_def policy_names_def policy_demo_def ethernetMac_def ieee8021qCTag_def
      outboundVlan_def mapVlanReq_def entryFor_def policy_map_def tag_id_def plain_packet_def)

lemma outbound_policy_enforced_witness:
  "\<exists>b1' b2' p1. outboundPolicy ieee8021qCTag policy_names policy_map [''*'' \<mapsto> [42]] newFilter newFilter policy_demo = Inr (b1', b2', Passed p1)
    \<and> dispatchReq p1 = Some ieee8021qCTag"
proof -
  have "inProgressStreamId newFilter = None" "req_stack policy_demo \<noteq> []" by (simp_all add: newFilter_def policy_demo_facts)
  moreover have "accepted [''*'' \<mapsto> [42]] ''eth0'' 42" by (simp add: accepted_def entryFor_def)
  moreover have "leavesTagged policy_map ''eth0'' policy_demo" by (simp add: leavesTagged_def policy_demo_facts)
  moreover obtain b1' b2' r where
    "outboundPolicy ieee8021qCTag policy_names policy_map [''*'' \<mapsto> [42]] newFilter newFilter policy_demo = Inr (b1', b2', r)"
    "case r of Passed p1 \<Rightarrow> dispatchReq p1 = Some ieee8021qCTag | Dropped \<Rightarrow> False"
    using outbound_policy_enforced [of newFilter newFilter policy_names policy_demo "''eth0''" ieee8021qCTag policy_map "[''*'' \<mapsto> [42]]"]
      policy_demo_facts calculation
    by (fastforce split: filtered.splits)
  ultimately show ?thesis by (cases r) auto
qed

text \<open>
  The query for a request adds an empty list of requests, and the dispatch reads its first
  element: an untagged packet that has no other request (or only the request that the mapper
  removes) makes the mapper fail.
\<close>

theorem mapper_fails_without_requests:
  fixes q :: protocol and m :: vlan_map
  assumes "interfaceName ifName (interfaceReq p) = Inr name" "\<not> leavesTagged m name p" "req_stack p \<in> {[], [q]}"
  shows "vlanReqMapperProcess q ifName m p = Inl OutOfRange"
  using assms(2,3) by (auto simp: vlanReqMapperProcess_cases [OF assms(1)] requestsAfter_def)

lemma mapper_fails_without_requests_witness:
  "vlanReqMapperProcess ieee8021qCTag policy_names Map.empty (policy_demo\<lparr>encapReq := None\<rparr>) = Inl OutOfRange"
proof -
  have "interfaceName policy_names (interfaceReq (policy_demo\<lparr>encapReq := None\<rparr>)) = Inr ''eth0''"
    using policy_demo_facts(1) by simp
  moreover have "\<not> leavesTagged Map.empty ''eth0'' (policy_demo\<lparr>encapReq := None\<rparr>)"
    by (simp add: leavesTagged_def mapVlanReq_def entryFor_def policy_demo_def plain_packet_def)
  ultimately show ?thesis using mapper_fails_without_requests [of policy_names _ "''eth0''" Map.empty ieee8021qCTag] by simp
qed
section \<open>Isolation of VLANs\<close>

text \<open>
  A tagged packet crosses a link exactly when both ends accept its VLAN id: the id that the map
  of the sending interface gives it has to be on the list of the sending interface and, after the
  trip through the VLAN header, on the list of the receiving interface; its contents are unchanged.
\<close>

theorem vlan_isolation:
  fixes m :: vlan_map
  assumes g: "wf_group g" and proto: "packetProtocol p = Some proto" "decodable g proto (getByteLength p)"
    and idle: "inProgressStreamId b1 = None" "inProgressStreamId b2 = None" "inProgressStreamId b3 = None"
    and names: "interfaceName ifName (interfaceReq p) = Inr name" "interfaceName ifName' (Some j) = Inr name'"
    and stack: "req_stack p \<noteq> []" "qtagProtocol c \<notin> set (req_stack p)"
    and v: "outboundVlan m name p = v" "0 \<le> v" "v < 2 ^ 16"
  shows "\<exists>b1' b2' r. outboundPolicy (qtagProtocol c) ifName m acc b1 b2 p = Inr (b1', b2', r)
    \<and> (case r of
         Dropped \<Rightarrow> \<not> accepted acc name v
       | Passed p1 \<Rightarrow> accepted acc name v \<and> dispatchReq p1 = Some (qtagProtocol c)
           \<and> (\<exists>p2 p3 b3' r'. qInsert g c p1 = Inr p2 \<and> qCheck g (qtagProtocol c) [] p2 = Inr (Passed p3)
               \<and> vlanIndFilterPush ifName' acc' b3 (p3\<lparr>interfaceInd := Some j\<rparr>) = Inr (b3', (), r')
               \<and> (case r' of Passed p4 \<Rightarrow> accepted acc' name' v \<and> pktPayload p4 = pktPayload p
                  | Dropped \<Rightarrow> \<not> accepted acc' name' v)))"
proof -
  let ?q = "qtagProtocol c"
  have vr: "vlanReq (mapVlanReq m name p) = Some v"
    using v mapVlanReq_outboundVlan [of m name p] by (auto simp: tag_id_def split: option.splits)
  have rs: "requestsAfter ?q (leavesTagged m name p) (req_stack p) = ?q # req_stack p"
    using stack(2) vr by (simp add: requestsAfter_def leavesTagged_def)
  define p1 where "p1 = (mapVlanReq m name p)\<lparr>encapReq := Some (?q # req_stack p), dispatchReq := Some ?q\<rparr>"
  have out: "outboundPolicy ?q ifName m acc b1 b2 p =
    Inr (handlePacketProcessed b1,
         if accepted acc name v then handlePacketProcessed b2 else dropFiltered (handlePacketProcessed b2),
         if accepted acc name v then Passed p1 else Dropped)"
    using outboundPolicy_spec [OF idle(1,2) names(1) rs] v(1) by (simp add: p1_def)
  have p1: "packetProtocol p1 = Some proto" "addressed_to ?q p1" "getByteLength p1 = getByteLength p"
    "pktPayload p1 = pktPayload p" "vlanReq p1 = Some v"
    by (simp_all add: p1_def addressed_to_def getByteLength_def frame_laws proto vr)
  obtain p2 a d w where p2: "qInsert g c p1 = Inr p2"
    "pktHeaders p2 = QTag a d w (typeOrLength g proto (getByteLength p1)) # pktHeaders p1" "pktPayload p2 = pktPayload p1"
    and w: "uint w = (if request_or (vlanReq p1) (defaultVlanId c) = -1 then 0 else request_or (vlanReq p1) (defaultVlanId c) mod 2 ^ 16)"
    using qInsert_spec [OF p1(1,2), of g] by metis
  have "uint w = v" using w v(2,3) by (simp add: p1 request_or_def)
  moreover have "decodable g proto (getByteLength p1)" by (simp add: p1 proto)
  ultimately obtain p3 where p3: "qCheck g ?q [] p2 = Inr (Passed p3)" "vlanInd p3 = Some v" "pktPayload p3 = pktPayload p"
    using qCheck_spec [OF g _ p2(2), of ?q "[]"] by (auto simp: frame_laws p2 p1)
  have "vlanIndFilterPush ifName' acc' b3 (p3\<lparr>interfaceInd := Some j\<rparr>) =
      Inr (if accepted acc' name' v then handlePacketProcessed b3 else dropFiltered (handlePacketProcessed b3), (),
           if accepted acc' name' v then Passed (p3\<lparr>interfaceInd := Some j\<rparr>) else Dropped)"
    using idle(3) names(2) p3(2)
    by (simp add: vlanIndFilterPush_def filterPush_def filterRun_def checkPacketStreaming_def vlanIndFilterMatches_def tag_id_def)
  then show ?thesis
    unfolding out using p2(1) p3 by (simp add: p1_def)
qed

lemma vlan_isolation_witness:
  "\<exists>b1' b2' p1. outboundPolicy ieee8021qCTag policy_names policy_map [''eth0'' \<mapsto> [42]] newFilter newFilter policy_demo = Inr (b1', b2', Passed p1)
    \<and> (\<exists>p2 p3. qInsert ethertypeGroup q_demo p1 = Inr p2 \<and> qCheck ethertypeGroup ieee8021qCTag [] p2 = Inr (Passed p3))"
proof -
  have d: "packetProtocol policy_demo = Some ''ipv4''" "decodable ethertypeGroup ''ipv4'' (getByteLength policy_demo)" by code_simp+
  have b: "inProgressStreamId newFilter = None" by (simp add: newFilter_def)
  have n: "interfaceName policy_names (Some 101) = Inr ''eth0''" by (simp add: interfaceName_def policy_names_def)
  have q: "qtagProtocol q_demo = ieee8021qCTag" by (simp add: q_demo_def)
  have s: "req_stack policy_demo \<noteq> []" "qtagProtocol q_demo \<notin> set (req_stack policy_demo)" 
    using policy_demo_facts(2,3) by (simp_all add: q)
  have v: "(0 :: int) \<le> 42" "(42 :: int) < 2 ^ 16" by simp_all
  have "accepted [''eth0'' \<mapsto> [42]] ''eth0'' 42" by (simp add: accepted_def entryFor_def)
  moreover obtain b1' b2' r where
    "outboundPolicy ieee8021qCTag policy_names policy_map [''eth0'' \<mapsto> [42]] newFilter newFilter policy_demo = Inr (b1', b2', r)"
    and "case r of Dropped \<Rightarrow> \<not> accepted [''eth0'' \<mapsto> [42]] ''eth0'' 42
      | Passed p1 \<Rightarrow> \<exists>p2 p3. qInsert ethertypeGroup q_demo p1 = Inr p2 \<and> qCheck ethertypeGroup ieee8021qCTag [] p2 = Inr (Passed p3)"
    using vlan_isolation [OF wf_ethertypeGroup d b b b policy_demo_facts(1) n s policy_demo_facts(4) v,
        of "[''eth0'' \<mapsto> [42]]" "[''eth0'' \<mapsto> [42]]"] unfolding q
    by (fastforce split: filtered.splits)
  ultimately show ?thesis by (cases r) auto
qed

section \<open>Traffic classes\<close>

text \<open>The importance of the priorities: background comes before best effort.\<close>

definition importance :: "int list" where
  "importance = [1, 0, 2, 3, 4, 5, 6, 7]"

text \<open>The classes of the eight priorities, in the order of importance.\<close>

definition classesByImportance :: "int \<Rightarrow> int result list" where
  "classesByImportance n =
     map (\<lambda>pcp. trafficClass ''both'' recommendedMapping 0 n ((plain_packet 0 0)\<lparr>pcpReq := Some pcp\<rparr>)) importance"

text \<open>
  With the recommended mapping and any number of traffic classes up to eight, every priority
  has a class below that number, a more important priority never has a lower class, and the most
  important one has the highest class.
\<close>

theorem traffic_classes_respect_priority:
  assumes "n \<in> {1, 2, 3, 4, 5, 6, 7, 8}"
  shows "\<exists>cs. classesByImportance n = map Inr cs \<and> sorted cs \<and> set cs \<subseteq> {0..<n} \<and> last cs = n - 1"
proof -
  have row: "trafficClass ''both'' recommendedMapping 0 n ((plain_packet 0 0)\<lparr>pcpReq := Some pcp\<rparr>)
      = rbind (array_get recommendedMapping pcp) (\<lambda>row. array_get row (n - 1))" if "pcp \<noteq> -1" for pcp n
    using that by (simp add: trafficClass_def pcpOf_def)
  define cs where "cs = map (\<lambda>pcp. recommendedMapping ! nat pcp ! nat (n - 1)) importance"
  have "classesByImportance n = map Inr cs"
    by (simp add: classesByImportance_def importance_def row cs_def)
      (use assms in \<open>auto simp: array_get_def recommendedMapping_def\<close>)
  moreover have "sorted cs \<and> set cs \<subseteq> {0..<n} \<and> last cs = n - 1"
    using assms by (auto simp: cs_def importance_def recommendedMapping_def)
  ultimately show ?thesis by blast
qed

lemma traffic_classes_respect_priority_witness:
  "\<exists>cs. classesByImportance 3 = map Inr cs \<and> last cs = 2"
  using traffic_classes_respect_priority [of 3] by force

end
