(* ===== verification/PacketQueues.thy ===== *)
theory PacketQueues
  imports Prelude "HOL-Library.Multiset"
begin

text \<open>
  Packet queues and the buffers they share (\<open>inet/queueing/\<close>): \<open>queue/PacketQueue.cc\<close> with the
  counters of \<open>base/PacketQueueBase.cc\<close>, \<open>buffer/PacketBuffer.cc\<close> with those of
  \<open>base/PacketBufferBase.cc\<close>, and the functions that select packets to drop and compare packets
  (\<open>function/\<close>).

  The container of a queue is OMNeT++'s \<open>cPacketQueue\<close>; how it inserts a packet is a parameter
  \<open>ins\<close>, described by the locale \<open>packet_store\<close>. Packets are objects, told apart by their id.
\<close>

section \<open>Packets\<close>

record qpacket =
  qpId :: nat
  dataLength :: nat
  totalLength :: nat
  creationTime :: simtime
  firstByte :: int

section \<open>Where a packet is inserted\<close>

text \<open>Inserting keeps the packets, and keeps them sorted if there is a comparator.\<close>

locale packet_store =
  fixes ins :: "'p list \<Rightarrow> 'p \<Rightarrow> 'p list"
  assumes ins_mset: "mset (ins q p) = add_mset p (mset q)"
begin

lemma ins_set [simp]: "set (ins q p) = insert p (set q)"
  by (metis ins_mset set_mset_add_mset_insert set_mset_mset)

lemma ins_length [simp]: "length (ins q p) = Suc (length q)"
  by (metis ins_mset size_add_mset size_mset)

lemma ins_sum [simp]: "sum_list (map f (ins q p)) = (f p + sum_list (map f q) :: nat)"
proof -
  have "mset (map f (ins q p)) = add_mset (f p) (mset (map f q))" by (simp add: ins_mset)
  then have "sum_mset (mset (map f (ins q p))) = f p + sum_mset (mset (map f q))" by simp
  then show ?thesis unfolding sum_mset_sum_list .
qed

lemma ins_distinct: "distinct q \<Longrightarrow> p \<notin> set q \<Longrightarrow> distinct (ins q p)"
  unfolding distinct_count_atmost_1 by (simp add: ins_mset)

end

locale ordered_store = packet_store +
  fixes cmp :: "'p \<Rightarrow> 'p \<Rightarrow> int"
  assumes ins_sorted: "sorted_wrt (\<lambda>a b. cmp a b \<le> 0) q \<Longrightarrow> sorted_wrt (\<lambda>a b. cmp a b \<le> 0) (ins q p)"

text \<open>
  The two documented ways: without a comparator at the back; with one behind every packet that the
  new one does not come before, so that equal packets keep the order in which they came.
\<close>

definition fifoInsert :: "'p list \<Rightarrow> 'p \<Rightarrow> 'p list" where
  "fifoInsert q p = q @ [p]"

fun placeBehind :: "('p \<Rightarrow> 'p \<Rightarrow> int) \<Rightarrow> 'p \<Rightarrow> 'p list \<Rightarrow> 'p list" where
  "placeBehind cmp p [] = [p]"
| "placeBehind cmp p (x # xs) = (if cmp p x < 0 then x # placeBehind cmp p xs else p # x # xs)"

definition priorityInsert :: "('p \<Rightarrow> 'p \<Rightarrow> int) \<Rightarrow> 'p list \<Rightarrow> 'p \<Rightarrow> 'p list" where
  "priorityInsert cmp q p = rev (placeBehind cmp p (rev q))"

lemma mset_placeBehind: "mset (placeBehind cmp p xs) = add_mset p (mset xs)"
  by (induction xs) auto

interpretation fifo: packet_store fifoInsert
  by unfold_locales (simp add: fifoInsert_def)

section \<open>Comparators\<close>

definition comparePacketCreationTime :: "qpacket \<Rightarrow> qpacket \<Rightarrow> int" where
  "comparePacketCreationTime p1 p2 =
     (let d = creationTime p2 - creationTime p1 in if d = 0 then 0 else if 0 < d then 1 else -1)"

definition comparePacketByData :: "qpacket \<Rightarrow> qpacket \<Rightarrow> int" where
  "comparePacketByData p1 p2 = firstByte p2 - firstByte p1"

text \<open>A comparator that orders the packets by a number.\<close>

definition orders_by :: "('p \<Rightarrow> int) \<Rightarrow> ('p \<Rightarrow> 'p \<Rightarrow> int) \<Rightarrow> bool" where
  "orders_by key cmp \<longleftrightarrow> (\<forall>a b. (cmp a b < 0 \<longleftrightarrow> key a < key b) \<and> (cmp a b \<le> 0 \<longleftrightarrow> key a \<le> key b))"

lemma priorityInsert_sorted:
  assumes "orders_by key cmp" "sorted_wrt (\<lambda>a b. cmp a b \<le> 0) q"
  shows "sorted_wrt (\<lambda>a b. cmp a b \<le> 0) (priorityInsert cmp q p)"
proof -
  have o: "(cmp a b < 0) = (key a < key b)" "(cmp a b \<le> 0) = (key a \<le> key b)" for a b
    using assms(1) by (simp_all add: orders_by_def)
  have "sorted_wrt (\<lambda>a b. key b \<le> key a) (placeBehind cmp p xs)" if "sorted_wrt (\<lambda>a b. key b \<le> key a) xs" for xs
    using that
  proof (induction xs)
    case (Cons x xs)
    have "set (placeBehind cmp p xs) = insert p (set xs)"
      by (metis mset_placeBehind set_mset_add_mset_insert set_mset_mset)
    then show ?case using Cons by (auto simp: o)
  qed simp
  then show ?thesis using assms(2) by (simp add: priorityInsert_def sorted_wrt_rev o)
qed

lemma creation_orders: "orders_by (\<lambda>p. - creationTime p) comparePacketCreationTime"
  by (auto simp: orders_by_def comparePacketCreationTime_def Let_def)

lemma data_orders: "orders_by (\<lambda>p. - firstByte p) comparePacketByData"
  by (auto simp: orders_by_def comparePacketByData_def)

interpretation by_creation: ordered_store "priorityInsert comparePacketCreationTime" comparePacketCreationTime
  by unfold_locales (simp_all add: priorityInsert_def mset_placeBehind priorityInsert_sorted [OF creation_orders, unfolded priorityInsert_def])

interpretation by_data: ordered_store "priorityInsert comparePacketByData" comparePacketByData
  by unfold_locales (simp_all add: priorityInsert_def mset_placeBehind priorityInsert_sorted [OF data_orders, unfolded priorityInsert_def])

section \<open>Droppers\<close>

datatype dropper = PacketAtCollectionEnd | PacketAtCollectionBegin | LowestOwnerModuleId | HighestOwnerModuleId

definition getPacketAt :: "'p list \<Rightarrow> int \<Rightarrow> 'p result" where
  "getPacketAt xs i =
     (if i < 0 \<or> int (length xs) \<le> i then Inl (RuntimeError ''index out of range'') else Inr (xs ! nat i))"

text \<open>The loops over the collection keep the first packet with the extreme id; \<open>INT_MAX\<close> and \<open>INT_MIN\<close> are never better.\<close>

fun lowestOwner :: "('p \<Rightarrow> int) \<Rightarrow> int \<Rightarrow> 'p option \<Rightarrow> 'p list \<Rightarrow> 'p option" where
  "lowestOwner ownerId lowest best [] = best"
| "lowestOwner ownerId lowest best (p # ps) =
     (if ownerId p < lowest then lowestOwner ownerId (ownerId p) (Some p) ps else lowestOwner ownerId lowest best ps)"

definition int_max :: int where "int_max = 2147483647"
definition int_min :: int where "int_min = -2147483648"

definition selectPacket :: "dropper \<Rightarrow> ('p \<Rightarrow> int) \<Rightarrow> 'p list \<Rightarrow> 'p result" where
  "selectPacket d ownerId xs =
     (case d of
        PacketAtCollectionEnd \<Rightarrow> getPacketAt xs (int (length xs) - 1)
      | PacketAtCollectionBegin \<Rightarrow> getPacketAt xs 0
      | LowestOwnerModuleId \<Rightarrow> (case lowestOwner ownerId int_max None xs of None \<Rightarrow> Inl NullPointer | Some p \<Rightarrow> Inr p)
      | HighestOwnerModuleId \<Rightarrow>
          (case lowestOwner (\<lambda>p. - ownerId p) (- int_min) None xs of None \<Rightarrow> Inl NullPointer | Some p \<Rightarrow> Inr p))"

lemma lowestOwner_in: "lowestOwner f k b xs = Some p \<Longrightarrow> p \<in> set xs \<or> b = Some p"
  by (induction xs arbitrary: k b) (auto split: if_splits)

lemma getPacketAt_in: "getPacketAt xs i = Inr p \<Longrightarrow> p \<in> set xs"
  by (auto simp: getPacketAt_def split: if_splits)

lemma selectPacket_in: "selectPacket d f xs = Inr p \<Longrightarrow> p \<in> set xs"
  by (auto simp: selectPacket_def getPacketAt_in split: dropper.splits option.splits dest: lowestOwner_in)

lemma lowestOwner_some: "\<exists>p. lowestOwner f k (Some b) xs = Some p"
  by (induction xs arbitrary: k b) auto

lemma lowestOwner_found: "p \<in> set xs \<Longrightarrow> f p < k \<Longrightarrow> \<exists>q. lowestOwner f k b xs = Some q"
  by (induction xs arbitrary: b) (auto simp: lowestOwner_some)

text \<open>Module ids are integers other than the two bounds.\<close>

lemma selectPacket_ok:
  assumes "xs \<noteq> []" "\<And>p. p \<in> set xs \<Longrightarrow> int_min < ownerId p \<and> ownerId p < int_max"
  shows "\<exists>p. selectPacket d ownerId xs = Inr p"
proof -
  have "hd xs \<in> set xs" using assms(1) by simp
  moreover from this have "ownerId (hd xs) < int_max" "- ownerId (hd xs) < - int_min" using assms(2) by simp_all
  ultimately have "\<exists>q. lowestOwner ownerId int_max None xs = Some q" "\<exists>q. lowestOwner (\<lambda>p. - ownerId p) (- int_min) None xs = Some q"
    using lowestOwner_found by fast+
  then show ?thesis using assms(1) by (auto simp: selectPacket_def getPacketAt_def split: dropper.split option.split)
qed

text \<open>Dropping until the rest is not overloaded: the packets that stay and those that are dropped.\<close>

function dropLoop :: "('p list \<Rightarrow> 'p result) \<Rightarrow> ('p list \<Rightarrow> bool) \<Rightarrow> 'p list \<Rightarrow> ('p list \<times> 'p list) result" where
  "dropLoop select over xs =
     (if over xs
      then (case select xs of
              Inl e \<Rightarrow> Inl e
            | Inr p \<Rightarrow> if p \<in> set xs then rbind (dropLoop select over (remove1 p xs)) (\<lambda>(ys, ds). Inr (ys, p # ds))
                else Inl (RuntimeError ''packet not found''))
      else Inr (xs, []))"
  by pat_completeness auto

termination dropLoop
  by (relation "measure (\<lambda>(_, _, xs). length xs)") (auto simp: length_remove1 intro: diff_Suc_less length_pos_if_in_set)

declare dropLoop.simps [simp del]
lemma dropLoop_spec:
  assumes "dropLoop select over xs = Inr (ys, ds)" "\<And>as bs. mset as = mset bs \<Longrightarrow> over as = over bs"
  shows "\<not> over ys \<and> mset xs = mset ys + mset ds \<and> (\<not> over xs \<longrightarrow> ys = xs \<and> ds = [])
    \<and> (over xs \<longrightarrow> ds \<noteq> [] \<and> over (last ds # ys))"
  using assms
proof (induction select over xs arbitrary: ys ds rule: dropLoop.induct)
  case (1 select over xs)
  show ?case
  proof (cases "over xs")
    case False
    then show ?thesis using 1(2) by (simp add: dropLoop.simps [of select over xs])
  next
    case True
    then obtain p ds' where p: "select xs = Inr p" "p \<in> set xs" and r: "dropLoop select over (remove1 p xs) = Inr (ys, ds')"
      and ds: "ds = p # ds'"
      using 1(2) by (auto simp: dropLoop.simps [of select over xs] rbind_Inr_iff split: sum.splits if_splits)
    have m: "mset xs = add_mset p (mset (remove1 p xs))" using p(2) by simp
    note ih = 1(1) [OF True p r 1(3)]
    have "\<not> over ys" "mset (remove1 p xs) = mset ys + mset ds'" using ih by blast+
    then have base: "\<not> over ys" "mset xs = mset ys + mset ds" by (simp, subst m, simp add: ds del: mset_remove1)
    have "over (last ds # ys)"
    proof (cases "over (remove1 p xs)")
      case True
      then show ?thesis using ih by (simp add: ds)
    next
      case False
      then have "ys = remove1 p xs" "ds' = []" using ih by blast+
      moreover have "over (p # remove1 p xs)" using 1(3) [of "p # remove1 p xs" xs] m \<open>over xs\<close> by (metis mset.simps(2))
      ultimately show ?thesis by (simp add: ds)
    qed
    then show ?thesis using base \<open>over xs\<close> by (simp add: ds)
  qed
qed

lemma dropLoop_total:
  assumes "\<And>as. over as \<Longrightarrow> set as \<subseteq> set xs \<Longrightarrow> \<exists>p \<in> set as. select as = Inr p"
  shows "\<exists>ys ds. dropLoop select over xs = Inr (ys, ds)"
  using assms
proof (induction select over xs rule: dropLoop.induct)
  case (1 select over xs)
  show ?case
  proof (cases "over xs")
    case False
    then show ?thesis by (simp add: dropLoop.simps [of select over xs])
  next
    case True
    then obtain p where p: "select xs = Inr p" "p \<in> set xs" using 1(2) by blast
    have "\<exists>q \<in> set as. select as = Inr q" if "over as" "set as \<subseteq> set (remove1 p xs)" for as
      using 1(2) [OF that(1)] that(2) set_remove1_subset [of p xs] by blast
    then obtain ys ds where "dropLoop select over (remove1 p xs) = Inr (ys, ds)"
      using 1(1) [OF True p] by blast
    then show ?thesis using True p by (simp add: dropLoop.simps [of select over xs])
  qed
qed

section \<open>A queue\<close>

record packet_queue =
  stored :: "qpacket list"
  packetCapacity :: int
  dataCapacity :: int
  numPushedPackets :: int
  numPulledPackets :: int
  numRemovedPackets :: int
  numQueueDropped :: int

datatype queue_signal = PacketPushed | PacketPushStarted | PacketPulled | PacketRemoved | PacketDropped

definition emitQueue :: "queue_signal \<Rightarrow> packet_queue \<Rightarrow> packet_queue" where
  "emitQueue sig q =
     (case sig of
        PacketPushed \<Rightarrow> q\<lparr>numPushedPackets := numPushedPackets q + 1\<rparr>
      | PacketPulled \<Rightarrow> q\<lparr>numPulledPackets := numPulledPackets q + 1\<rparr>
      | PacketRemoved \<Rightarrow> q\<lparr>numRemovedPackets := numRemovedPackets q + 1\<rparr>
      | PacketDropped \<Rightarrow> q\<lparr>numQueueDropped := numQueueDropped q + 1\<rparr>
      | PacketPushStarted \<Rightarrow> q)"

definition newQueue :: "int \<Rightarrow> int \<Rightarrow> packet_queue" where
  "newQueue packets bits = \<lparr>stored = [], packetCapacity = packets, dataCapacity = bits,
     numPushedPackets = 0, numPulledPackets = 0, numRemovedPackets = 0, numQueueDropped = 0\<rparr>"

definition queueLength :: "qpacket list \<Rightarrow> int" where
  "queueLength xs = int (sum_list (map dataLength xs))"

definition exceeds :: "int \<Rightarrow> int \<Rightarrow> int \<Rightarrow> int \<Rightarrow> bool" where
  "exceeds packets bits n len \<longleftrightarrow> (packets \<noteq> -1 \<and> packets < n) \<or> (bits \<noteq> -1 \<and> bits < len)"

definition isOverloaded :: "packet_queue \<Rightarrow> qpacket list \<Rightarrow> bool" where
  "isOverloaded q xs = exceeds (packetCapacity q) (dataCapacity q) (int (length xs)) (queueLength xs)"

definition queueCanPushSome :: "dropper option \<Rightarrow> packet_queue \<Rightarrow> bool" where
  "queueCanPushSome d q \<longleftrightarrow> d \<noteq> None \<or>
     (\<not> (packetCapacity q \<noteq> -1 \<and> packetCapacity q \<le> int (length (stored q)))
      \<and> \<not> (dataCapacity q \<noteq> -1 \<and> dataCapacity q \<le> queueLength (stored q)))"

definition queueCanPush :: "dropper option \<Rightarrow> packet_queue \<Rightarrow> qpacket \<Rightarrow> bool" where
  "queueCanPush d q p \<longleftrightarrow> d \<noteq> None \<or>
     (\<not> (packetCapacity q \<noteq> -1 \<and> packetCapacity q \<le> int (length (stored q)))
      \<and> \<not> (dataCapacity q \<noteq> -1 \<and> dataCapacity q - queueLength (stored q) < int (dataLength p)))"

text \<open>
  Pushing without a buffer; all packets of a queue have the same owner, the queue. The second
  component is the list of dropped packets.
\<close>

definition pushPacketQueue ::
    "(qpacket list \<Rightarrow> qpacket \<Rightarrow> qpacket list) \<Rightarrow> dropper option \<Rightarrow> int \<Rightarrow> qpacket \<Rightarrow> packet_queue \<Rightarrow>
     (packet_queue \<times> qpacket list) result" where
  "pushPacketQueue ins d moduleId p q =
     (let xs = ins (stored q) p in
      rbind (case d of None \<Rightarrow> Inr (xs, []) | Some d' \<Rightarrow> dropLoop (selectPacket d' (\<lambda>_. moduleId)) (isOverloaded q) xs) (\<lambda>(ys, ds).
      rbind (ensure (\<not> isOverloaded q ys)) (\<lambda>_.
        Inr (fold (\<lambda>_. emitQueue PacketDropped) ds ((emitQueue PacketPushStarted q)\<lparr>stored := ys\<rparr>), ds))))"

text \<open>The front of an empty queue is a null pointer, which \<open>check_and_cast\<close> refuses.\<close>

definition pullPacketQueue :: "packet_queue \<Rightarrow> (packet_queue \<times> qpacket) result" where
  "pullPacketQueue q =
     (case stored q of
        [] \<Rightarrow> Inl AssertionFailed
      | p # ps \<Rightarrow> Inr (emitQueue PacketPulled (q\<lparr>stored := ps\<rparr>), p))"

definition removePacketQueue :: "qpacket \<Rightarrow> packet_queue \<Rightarrow> packet_queue" where
  "removePacketQueue p q = emitQueue PacketRemoved (q\<lparr>stored := remove1 p (stored q)\<rparr>)"

text \<open>The loop pops while its counter is below the number of packets that are left.\<close>

fun popLoop :: "nat \<Rightarrow> 'p list \<Rightarrow> 'p list \<times> 'p list" where
  "popLoop i [] = ([], [])"
| "popLoop i (x # xs) =
     (if i < Suc (length xs) then (let (popped, rest) = popLoop (Suc i) xs in (x # popped, rest)) else ([], x # xs))"

definition removeAllPackets :: "packet_queue \<Rightarrow> packet_queue \<times> qpacket list" where
  "removeAllPackets q =
     (let (popped, rest) = popLoop 0 (stored q)
      in (fold (\<lambda>_. emitQueue PacketRemoved) popped (q\<lparr>stored := rest\<rparr>), popped))"

lemma isOverloaded_perm: "mset xs = mset ys \<Longrightarrow> isOverloaded q xs = isOverloaded q ys"
  unfolding isOverloaded_def queueLength_def
  by (metis mset_map size_mset sum_mset_sum_list)

lemma fold_emit_dropped [simp]:
  "stored (fold (\<lambda>_. emitQueue PacketDropped) ds q) = stored q"
  "packetCapacity (fold (\<lambda>_. emitQueue PacketDropped) ds q) = packetCapacity q"
  "dataCapacity (fold (\<lambda>_. emitQueue PacketDropped) ds q) = dataCapacity q"
  "numPushedPackets (fold (\<lambda>_. emitQueue PacketDropped) ds q) = numPushedPackets q"
  "numQueueDropped (fold (\<lambda>_. emitQueue PacketDropped) ds q) = numQueueDropped q + int (length ds)"
  by (induction ds arbitrary: q) (simp_all add: emitQueue_def)

lemma fold_emit_removed [simp]:
  "stored (fold (\<lambda>_. emitQueue PacketRemoved) ds q) = stored q"
  "numRemovedPackets (fold (\<lambda>_. emitQueue PacketRemoved) ds q) = numRemovedPackets q + int (length ds)"
  by (induction ds arbitrary: q) (simp_all add: emitQueue_def)

lemma isOverloaded_fields [simp]:
  "isOverloaded (q\<lparr>stored := ys\<rparr>) = isOverloaded q" "isOverloaded (emitQueue sig q) = isOverloaded q"
  "isOverloaded (fold (\<lambda>_. emitQueue PacketDropped) ds q) = isOverloaded q"
  by (simp_all add: fun_eq_iff isOverloaded_def emitQueue_def split: queue_signal.split)

text \<open>
  A queue with a dropper takes every packet: the push ends, drops exactly as much as needed
  (the last packet dropped was still too much), keeps every other packet, and leaves the queue
  within its capacity.
\<close>

theorem push_with_dropper:
  assumes "\<And>xs x. mset (ins xs x) = add_mset x (mset xs)"
    and "0 \<le> packetCapacity q \<or> packetCapacity q = -1" "0 \<le> dataCapacity q \<or> dataCapacity q = -1"
    and "int_min < moduleId" "moduleId < int_max"
  shows "\<exists>q' ds. pushPacketQueue ins (Some d) moduleId p q = Inr (q', ds)
    \<and> mset (stored q') + mset ds = add_mset p (mset (stored q))
    \<and> \<not> isOverloaded q' (stored q')
    \<and> (ds \<noteq> [] \<longrightarrow> isOverloaded q' (last ds # stored q'))
    \<and> numQueueDropped q' = numQueueDropped q + int (length ds)"
proof -
  let ?xs = "ins (stored q) p"
  have "\<exists>x \<in> set as. selectPacket d (\<lambda>_. moduleId) as = Inr x" if "isOverloaded q as" for as
  proof -
    have "as \<noteq> []" using that assms(2,3) by (auto simp: isOverloaded_def exceeds_def queueLength_def)
    then obtain x where "selectPacket d (\<lambda>_. moduleId) as = Inr x"
      using selectPacket_ok [of as "\<lambda>_. moduleId" d] assms(4,5) by blast
    then show ?thesis using selectPacket_in [of d "\<lambda>_. moduleId" as x] by blast
  qed
  then obtain ys ds where l: "dropLoop (selectPacket d (\<lambda>_. moduleId)) (isOverloaded q) ?xs = Inr (ys, ds)"
    using dropLoop_total [of "isOverloaded q" ?xs] by blast
  note spec = dropLoop_spec [OF l isOverloaded_perm]
  have "pushPacketQueue ins (Some d) moduleId p q = Inr (fold (\<lambda>_. emitQueue PacketDropped) ds ((emitQueue PacketPushStarted q)\<lparr>stored := ys\<rparr>), ds)"
    using spec by (simp add: pushPacketQueue_def l)
  moreover have "isOverloaded q (last ds # ys)" if "ds \<noteq> []" using spec that by blast
  moreover have "mset ys + mset ds = add_mset p (mset (stored q))" using spec assms(1) by metis
  moreover have "\<not> isOverloaded q ys" using spec by blast
  ultimately show ?thesis by (simp add: emitQueue_def)
qed

definition qpacket_demo :: "nat \<Rightarrow> qpacket" where
  "qpacket_demo n = \<lparr>qpId = n, dataLength = 100, totalLength = 100, creationTime = int n, firstByte = 0\<rparr>"

lemma push_with_dropper_witness:
  "\<exists>q' ds. pushPacketQueue fifoInsert (Some PacketAtCollectionEnd) 7 (qpacket_demo 3)
      ((newQueue 2 (-1))\<lparr>stored := [qpacket_demo 1, qpacket_demo 2]\<rparr>) = Inr (q', ds)
    \<and> \<not> isOverloaded q' (stored q')"
proof -
  let ?q = "(newQueue 2 (-1))\<lparr>stored := [qpacket_demo 1, qpacket_demo 2]\<rparr>"
  have "mset (fifoInsert xs x) = add_mset x (mset xs)" for xs and x :: qpacket by (rule fifo.ins_mset)
  moreover have "0 \<le> packetCapacity ?q \<or> packetCapacity ?q = -1" "0 \<le> dataCapacity ?q \<or> dataCapacity ?q = -1"
    by (simp_all add: newQueue_def)
  moreover have "int_min < 7" "7 < int_max" by (simp_all add: int_min_def int_max_def)
  ultimately show ?thesis
    using push_with_dropper [of fifoInsert ?q 7 PacketAtCollectionEnd "qpacket_demo 3"] by blast
qed

text \<open>
  Back pressure: without a dropper, a packet that the queue said it can take is stored without
  an assertion failing, and a packet that it said it cannot take would fail one.
\<close>

theorem push_with_back_pressure:
  assumes "\<And>xs x. mset (ins xs x) = add_mset x (mset xs)" "\<not> isOverloaded q (stored q)"
  shows "if queueCanPush None q p
    then \<exists>q'. pushPacketQueue ins None moduleId p q = Inr (q', []) \<and> stored q' = ins (stored q) p \<and> \<not> isOverloaded q' (stored q')
    else pushPacketQueue ins None moduleId p q = Inl AssertionFailed"
proof -
  have "isOverloaded q (ins (stored q) p) = isOverloaded q (p # stored q)"
    using assms(1) by (intro isOverloaded_perm) simp
  also have "\<dots> \<longleftrightarrow> \<not> queueCanPush None q p"
    using assms(2) by (auto simp: isOverloaded_def exceeds_def queueCanPush_def queueLength_def)
  finally have "isOverloaded q (ins (stored q) p) \<longleftrightarrow> \<not> queueCanPush None q p" .
  then show ?thesis by (cases "queueCanPush None q p") (simp_all add: pushPacketQueue_def Let_def)
qed

lemma push_with_back_pressure_witness:
  "pushPacketQueue fifoInsert None 7 (qpacket_demo 3) ((newQueue 2 (-1))\<lparr>stored := [qpacket_demo 1, qpacket_demo 2]\<rparr>) = Inl AssertionFailed
   \<and> (\<exists>q'. pushPacketQueue fifoInsert None 7 (qpacket_demo 3) ((newQueue 2 (-1))\<lparr>stored := [qpacket_demo 1]\<rparr>) = Inr (q', []))"
proof -
  have f: "mset (fifoInsert xs x) = add_mset x (mset xs)" for xs and x :: qpacket by (rule fifo.ins_mset)
  show ?thesis
    using push_with_back_pressure [OF f, of "(newQueue 2 (-1))\<lparr>stored := [qpacket_demo 1, qpacket_demo 2]\<rparr>" "qpacket_demo 3" 7]
      push_with_back_pressure [OF f, of "(newQueue 2 (-1))\<lparr>stored := [qpacket_demo 1]\<rparr>" "qpacket_demo 3" 7]
    by (simp add: queueCanPush_def newQueue_def isOverloaded_def exceeds_def) blast
qed
lemma popLoop_spec:
  "i \<le> length xs \<Longrightarrow> popLoop i xs = (take ((length xs - i + 1) div 2) xs, drop ((length xs - i + 1) div 2) xs)"
proof (induction i xs rule: popLoop.induct)
  case (2 i x xs)
  show ?case
  proof (cases "i < Suc (length xs)")
    case True
    then have n: "(Suc (length xs) - i + 1) div 2 = Suc ((length xs - Suc i + 1) div 2)" if "i < length xs"
      using that by (simp add: Suc_diff_le)
    show ?thesis
    proof (cases "i < length xs")
      case True
      then show ?thesis using 2 n by simp
    next
      case False
      then have i: "i = length xs" using \<open>i < Suc (length xs)\<close> by simp
      have "popLoop (Suc (length xs)) xs = ([], xs)" by (cases xs) simp_all
      then show ?thesis by (simp add: i)
    qed
  next
    case False
    then show ?thesis using 2(2) by simp
  qed
qed simp

text \<open>
  Emptying a queue removes only the first half of its packets: the bound of the loop shrinks
  while its counter grows, so of \<open>n\<close> packets \<open>n div 2\<close> stay.
\<close>

theorem removeAllPackets_keeps_half:
  "stored (fst (removeAllPackets q)) = drop ((length (stored q) + 1) div 2) (stored q)
   \<and> length (stored (fst (removeAllPackets q))) = length (stored q) div 2"
  by (simp add: removeAllPackets_def popLoop_spec)

text \<open>
  The counter of pushed packets never counts: a push emits the signal that it has started,
  and only the signal that a packet was pushed is counted.
\<close>

theorem pushed_packets_are_not_counted:
  assumes "pushPacketQueue ins d moduleId p q = Inr (q', ds)"
  shows "numPushedPackets q' = numPushedPackets q"
  using assms by (auto simp: pushPacketQueue_def rbind_Inr_iff ensure_Inr_iff Let_def emitQueue_def)

lemma pushed_packets_are_not_counted_witness:
  "\<exists>q' ds. pushPacketQueue fifoInsert None 7 (qpacket_demo 1) (newQueue (-1) (-1)) = Inr (q', ds) \<and> numPushedPackets q' = 0"
proof -
  have "is_ok (pushPacketQueue fifoInsert None 7 (qpacket_demo 1) (newQueue (-1) (-1)))" by code_simp
  then obtain q' ds where "pushPacketQueue fifoInsert None 7 (qpacket_demo 1) (newQueue (-1) (-1)) = Inr (q', ds)"
    using is_ok_pair by metis
  from pushed_packets_are_not_counted [OF this] this show ?thesis by (auto simp: newQueue_def)
qed

section \<open>The order in which packets leave\<close>

text \<open>What happens to a queue without a dropper and without limits: packets come and go.\<close>

datatype queue_op = PushOp qpacket | PullOp

fun runQueue :: "(qpacket list \<Rightarrow> qpacket \<Rightarrow> qpacket list) \<Rightarrow> queue_op list \<Rightarrow> packet_queue \<Rightarrow> (packet_queue \<times> qpacket list) result" where
  "runQueue ins [] q = Inr (q, [])"
| "runQueue ins (PushOp p # ops) q =
     rbind (pushPacketQueue ins None 0 p q) (\<lambda>(q1, _). runQueue ins ops q1)"
| "runQueue ins (PullOp # ops) q =
     rbind (pullPacketQueue q) (\<lambda>(q1, p). rbind (runQueue ins ops q1) (\<lambda>(q2, out). Inr (q2, p # out)))"

definition pushedBy :: "queue_op list \<Rightarrow> qpacket list" where
  "pushedBy ops = concat (map (\<lambda>x. case x of PushOp p \<Rightarrow> [p] | PullOp \<Rightarrow> []) ops)"

lemma pushPacketQueue_None:
  "pushPacketQueue ins None m p q = Inr (q', ds) \<Longrightarrow> stored q' = ins (stored q) p \<and> ds = []"
  by (auto simp: pushPacketQueue_def rbind_Inr_iff ensure_Inr_iff Let_def)

lemma pullPacketQueue_Inr: "pullPacketQueue q = Inr (q', p) \<Longrightarrow> stored q = p # stored q'"
  by (auto simp: pullPacketQueue_def emitQueue_def split: list.splits)

text \<open>
  Without a comparator packets leave in the order in which they came, none is lost and none is
  invented.
\<close>

theorem fifo_order:
  assumes "runQueue fifoInsert ops q = Inr (q', out)"
  shows "stored q @ pushedBy ops = out @ stored q'"
  using assms
proof (induction ops arbitrary: q out)
  case (Cons x ops)
  show ?case
  proof (cases x)
    case (PushOp p)
    then obtain q1 ds where q1: "pushPacketQueue fifoInsert None 0 p q = Inr (q1, ds)" "runQueue fifoInsert ops q1 = Inr (q', out)"
      using Cons.prems by (auto simp: rbind_Inr_iff)
    then show ?thesis
      using Cons.IH [OF q1(2)] pushPacketQueue_None [OF q1(1)] by (simp add: PushOp pushedBy_def fifoInsert_def)
  next
    case PullOp
    then obtain q1 p out1 where q1: "pullPacketQueue q = Inr (q1, p)" "runQueue fifoInsert ops q1 = Inr (q', out1)" "out = p # out1"
      using Cons.prems by (auto simp: rbind_Inr_iff)
    then show ?thesis
      using Cons.IH [OF q1(2)] pullPacketQueue_Inr [OF q1(1)] by (simp add: PullOp pushedBy_def)
  qed
qed (simp add: pushedBy_def)

lemma fifo_order_witness:
  "\<exists>q' out. runQueue fifoInsert [PushOp (qpacket_demo 1), PushOp (qpacket_demo 2), PullOp] (newQueue (-1) (-1)) = Inr (q', out)
    \<and> [qpacket_demo 1, qpacket_demo 2] = out @ stored q'"
proof -
  have "is_ok (runQueue fifoInsert [PushOp (qpacket_demo 1), PushOp (qpacket_demo 2), PullOp] (newQueue (-1) (-1)))" by code_simp
  then obtain q' out where "runQueue fifoInsert [PushOp (qpacket_demo 1), PushOp (qpacket_demo 2), PullOp] (newQueue (-1) (-1)) = Inr (q', out)"
    using is_ok_pair by metis
  from fifo_order [OF this] this show ?thesis by (auto simp: newQueue_def pushedBy_def)
qed
text \<open>The packets pulled while the queue holds them sorted.\<close>

definition sorted_queue :: "(qpacket \<Rightarrow> int) \<Rightarrow> packet_queue \<Rightarrow> bool" where
  "sorted_queue key q \<longleftrightarrow> sorted (map key (stored q))"

lemma sorted_iff_cmp: "orders_by key cmp \<Longrightarrow> sorted_wrt (\<lambda>a b. cmp a b \<le> 0) xs \<longleftrightarrow> sorted (map key xs)"
  by (simp add: orders_by_def sorted_map)

lemma priority_push_sorted:
  assumes "orders_by key cmp" "sorted_queue key q" "pushPacketQueue (priorityInsert cmp) None m p q = Inr (q', ds)"
  shows "sorted_queue key q'"
  using priorityInsert_sorted [OF assms(1), of "stored q" p] pushPacketQueue_None [OF assms(3)] assms(2)
  by (simp add: sorted_queue_def sorted_iff_cmp [OF assms(1)])

text \<open>
  With a comparator that orders the packets by a number, whatever is pushed and pulled in
  between, the packet that is pulled always has the least number of those in the queue.
\<close>

theorem priority_order:
  assumes "orders_by key cmp" "sorted_queue key q" "runQueue (priorityInsert cmp) ops q = Inr (q', out)"
    and "pullPacketQueue q' = Inr (q'', p)"
  shows "\<forall>x \<in> set (stored q'). key p \<le> key x"
proof -
  have "sorted_queue key q'" using assms(2,3)
  proof (induction ops arbitrary: q out)
    case (Cons x ops)
    show ?case
    proof (cases x)
      case (PushOp p)
      then obtain q1 ds where q1: "pushPacketQueue (priorityInsert cmp) None 0 p q = Inr (q1, ds)"
        "runQueue (priorityInsert cmp) ops q1 = Inr (q', out)"
        using Cons.prems(2) by (auto simp: rbind_Inr_iff)
      show ?thesis by (rule Cons.IH [OF priority_push_sorted [OF assms(1) Cons.prems(1) q1(1)] q1(2)])
    next
      case PullOp
      then show ?thesis using Cons by (auto simp: rbind_Inr_iff sorted_queue_def dest!: pullPacketQueue_Inr)
    qed
  qed simp
  then show ?thesis using pullPacketQueue_Inr [OF assms(4)] by (auto simp: sorted_queue_def)
qed

lemma priority_order_witness:
  "\<exists>q' out q'' p. runQueue (priorityInsert comparePacketCreationTime) [PushOp (qpacket_demo 1), PushOp (qpacket_demo 2)] (newQueue (-1) (-1)) = Inr (q', out)
    \<and> pullPacketQueue q' = Inr (q'', p) \<and> (\<forall>x \<in> set (stored q'). creationTime x \<le> creationTime p)"
proof -
  let ?run = "runQueue (priorityInsert comparePacketCreationTime) [PushOp (qpacket_demo 1), PushOp (qpacket_demo 2)] (newQueue (-1) (-1))"
  have "is_ok (rbind ?run (\<lambda>(q', _). pullPacketQueue q'))" by code_simp
  then obtain q' out q'' p where r: "?run = Inr (q', out)" and l: "pullPacketQueue q' = Inr (q'', p)"
    by (auto simp: is_ok_def rbind_def split: sum.splits)
  have "sorted_queue (\<lambda>p. - creationTime p) (newQueue (-1) (-1))" by (simp add: sorted_queue_def newQueue_def)
  from priority_order [OF creation_orders this r l] r l show ?thesis by auto
qed

section \<open>A buffer shared by queues\<close>

text \<open>
  The queues of the buffer, with their module ids. The owner of a packet is the queue that
  contains it; a packet that has been taken out of its queue belongs to no queue.
\<close>

record shared_buffer =
  bufPackets :: "qpacket list"
  bufCapacity :: int
  bufDataCapacity :: int
  numAddedPackets :: int
  numBufRemoved :: int
  numBufDropped :: int
  bufQueues :: "packet_queue list"
  queueIds :: "int list"

definition bufferOverloaded :: "shared_buffer \<Rightarrow> qpacket list \<Rightarrow> bool" where
  "bufferOverloaded st xs = exceeds (bufCapacity st) (bufDataCapacity st) (int (length xs)) (int (sum_list (map totalLength xs)))"

fun ownerModuleId :: "packet_queue list \<Rightarrow> int list \<Rightarrow> qpacket \<Rightarrow> int" where
  "ownerModuleId (q # qs) (i # is) p = (if p \<in> set (stored q) then i else ownerModuleId qs is p)"
| "ownerModuleId _ _ p = int_max"

definition handlePacketRemoved :: "qpacket \<Rightarrow> packet_queue \<Rightarrow> packet_queue" where
  "handlePacketRemoved p q = (if p \<in> set (stored q) then removePacketQueue p q else q)"

text \<open>The callback goes to the owner; a packet is in one queue at most, so the others are unaffected.\<close>

definition notifyOwner :: "qpacket \<Rightarrow> shared_buffer \<Rightarrow> shared_buffer" where
  "notifyOwner p st = st\<lparr>bufQueues := map (handlePacketRemoved p) (bufQueues st)\<rparr>"

definition bufferAdd :: "dropper option \<Rightarrow> qpacket \<Rightarrow> shared_buffer \<Rightarrow> (shared_buffer \<times> qpacket list) result" where
  "bufferAdd d p st =
     (let st1 = st\<lparr>bufPackets := bufPackets st @ [p], numAddedPackets := numAddedPackets st + 1\<rparr> in
      if bufferOverloaded st1 (bufPackets st1)
      then (case d of
              None \<Rightarrow> Inl (RuntimeError ''Buffer is overloaded but packet dropper function is not specified'')
            | Some d' \<Rightarrow>
                rbind (dropLoop (selectPacket d' (ownerModuleId (bufQueues st1) (queueIds st1)))
                    (\<lambda>xs. xs \<noteq> [] \<and> bufferOverloaded st1 xs) (bufPackets st1)) (\<lambda>(ys, ds).
                  Inr (fold notifyOwner ds (st1\<lparr>bufPackets := ys, numBufDropped := numBufDropped st1 + int (length ds)\<rparr>), ds)))
      else Inr (st1, []))"

definition bufferRemove :: "qpacket \<Rightarrow> shared_buffer \<Rightarrow> shared_buffer" where
  "bufferRemove p st = notifyOwner p (st\<lparr>bufPackets := remove1 p (bufPackets st), numBufRemoved := numBufRemoved st + 1\<rparr>)"

fun bufferRemoveLoop :: "qpacket list \<Rightarrow> shared_buffer \<Rightarrow> shared_buffer" where
  "bufferRemoveLoop [] st = st"
| "bufferRemoveLoop (p # ps) st =
     bufferRemoveLoop ps (notifyOwner p (st\<lparr>bufPackets := ps, numBufRemoved := numBufRemoved st + 1\<rparr>))"

definition bufferRemoveAll :: "shared_buffer \<Rightarrow> shared_buffer" where
  "bufferRemoveAll st = bufferRemoveLoop (bufPackets st) st"

definition onQueue :: "nat \<Rightarrow> (packet_queue \<Rightarrow> packet_queue) \<Rightarrow> shared_buffer \<Rightarrow> shared_buffer" where
  "onQueue n f st = st\<lparr>bufQueues := (bufQueues st)[n := f (bufQueues st ! n)]\<rparr>"

definition sharedPush :: "(qpacket list \<Rightarrow> qpacket \<Rightarrow> qpacket list) \<Rightarrow> dropper option \<Rightarrow> nat \<Rightarrow> qpacket \<Rightarrow> shared_buffer \<Rightarrow>
    (shared_buffer \<times> qpacket list) result" where
  "sharedPush ins d n p st =
     rbind (bufferAdd d p (onQueue n (\<lambda>q. (emitQueue PacketPushStarted q)\<lparr>stored := ins (stored q) p\<rparr>) st)) (\<lambda>(st1, ds).
     rbind (ensure (\<not> isOverloaded (bufQueues st1 ! n) (stored (bufQueues st1 ! n)))) (\<lambda>_. Inr (st1, ds)))"

definition sharedPull :: "nat \<Rightarrow> shared_buffer \<Rightarrow> (shared_buffer \<times> qpacket) result" where
  "sharedPull n st =
     (case stored (bufQueues st ! n) of
        [] \<Rightarrow> Inl AssertionFailed
      | p # ps \<Rightarrow> Inr (onQueue n (emitQueue PacketPulled) (bufferRemove p (onQueue n (\<lambda>q. q\<lparr>stored := ps\<rparr>) st)), p))"

definition sharedRemove :: "nat \<Rightarrow> qpacket \<Rightarrow> shared_buffer \<Rightarrow> shared_buffer" where
  "sharedRemove n p st =
     onQueue n (emitQueue PacketRemoved) (bufferRemove p (onQueue n (\<lambda>q. q\<lparr>stored := remove1 p (stored q)\<rparr>) st))"

definition sharedRemoveAll :: "nat \<Rightarrow> shared_buffer \<Rightarrow> shared_buffer" where
  "sharedRemoveAll n st =
     (let (popped, rest) = popLoop 0 (stored (bufQueues st ! n))
      in onQueue n (\<lambda>q. fold (\<lambda>_. emitQueue PacketRemoved) popped q)
           (bufferRemoveAll (onQueue n (\<lambda>q. q\<lparr>stored := rest\<rparr>) st)))"
section \<open>The buffer holds exactly the packets of its queues\<close>

definition heldPackets :: "packet_queue list \<Rightarrow> qpacket multiset" where
  "heldPackets qs = sum_list (map (\<lambda>q. mset (stored q)) qs)"

definition buffer_inv :: "shared_buffer \<Rightarrow> bool" where
  "buffer_inv st \<longleftrightarrow> mset (bufPackets st) = heldPackets (bufQueues st) \<and> distinct (bufPackets st)"

lemma stored_emitQueue [simp]: "stored (emitQueue sig q) = stored q"
  by (simp add: emitQueue_def split: queue_signal.split)

lemma stored_handlePacketRemoved [simp]: "stored (handlePacketRemoved p q) = remove1 p (stored q)"
  by (simp add: handlePacketRemoved_def removePacketQueue_def remove1_idem)

lemma notifyOwner_fields [simp]:
  "bufPackets (notifyOwner p st) = bufPackets st" "bufCapacity (notifyOwner p st) = bufCapacity st"
  "bufDataCapacity (notifyOwner p st) = bufDataCapacity st"
  "bufQueues (notifyOwner p st) = map (handlePacketRemoved p) (bufQueues st)"
  by (simp_all add: notifyOwner_def)

lemma fold_notifyOwner_fields [simp]:
  "bufPackets (fold notifyOwner ds st) = bufPackets st" "bufCapacity (fold notifyOwner ds st) = bufCapacity st"
  "bufDataCapacity (fold notifyOwner ds st) = bufDataCapacity st"
  "length (bufQueues (fold notifyOwner ds st)) = length (bufQueues st)"
  by (induction ds arbitrary: st) simp_all

lemma held_absent: "p \<notin># heldPackets qs \<Longrightarrow> heldPackets (map (handlePacketRemoved p) qs) = heldPackets qs"
  by (induction qs) (auto simp: heldPackets_def diff_single_trivial)

lemma held_notify:
  "count (heldPackets qs) p \<le> 1 \<Longrightarrow> heldPackets (map (handlePacketRemoved p) qs) = heldPackets qs - {#p#}"
proof (induction qs)
  case (Cons q qs)
  have c: "heldPackets (q # qs) = mset (stored q) + heldPackets qs"
    "heldPackets (map (handlePacketRemoved p) (q # qs)) = (mset (stored q) - {#p#}) + heldPackets (map (handlePacketRemoved p) qs)"
    by (simp_all add: heldPackets_def)
  show ?case
  proof (cases "p \<in> set (stored q)")
    case True
    have "1 \<le> count (mset (stored q)) p" using True by (metis count_greater_eq_one_iff set_mset_mset)
    moreover have "count (mset (stored q)) p + count (heldPackets qs) p \<le> 1" using Cons.prems by (simp only: c(1) count_union)
    ultimately have "count (heldPackets qs) p = 0" by linarith
    then have "p \<notin># heldPackets qs" by (simp add: not_in_iff)
    then have "heldPackets (map (handlePacketRemoved p) qs) = heldPackets qs" by (rule held_absent)
    then show ?thesis using True unfolding c by simp
  next
    case False
    then have "heldPackets (map (handlePacketRemoved p) qs) = heldPackets qs - {#p#}"
      using Cons by (simp add: c(1))
    moreover have "mset (stored q) - {#p#} = mset (stored q)" using False by (simp add: diff_single_trivial)
    moreover have "(mset (stored q) + heldPackets qs) - {#p#} = mset (stored q) + (heldPackets qs - {#p#})"
      using False by (metis diff_single_trivial diff_union_single_conv set_mset_mset add.right_neutral in_diff_count union_iff)
    ultimately show ?thesis unfolding c by simp
  qed
qed (simp add: heldPackets_def)

lemma held_distinct: "mset xs = heldPackets qs \<Longrightarrow> distinct xs \<Longrightarrow> count (heldPackets qs) p \<le> 1"
  by (metis distinct_count_atmost_1 le_numeral_extra(4) zero_le_one)

lemma held_fold_notify:
  "distinct ds \<Longrightarrow> (\<And>x. count (heldPackets (bufQueues st)) x \<le> 1) \<Longrightarrow>
   heldPackets (bufQueues (fold notifyOwner ds st)) = heldPackets (bufQueues st) - mset ds"
proof (induction ds arbitrary: st)
  case (Cons d ds)
  have h: "heldPackets (bufQueues (notifyOwner d st)) = heldPackets (bufQueues st) - {#d#}"
    using held_notify [OF Cons.prems(2)] by simp
  have "count (heldPackets (bufQueues (notifyOwner d st))) x \<le> 1" for x
    using Cons.prems(2) [of x] unfolding h by (simp add: le_diff_conv)
  from Cons.IH [OF _ this] Cons.prems(1) show ?case unfolding h fold_simps by simp
qed simp

lemma held_update:
  "n < length qs \<Longrightarrow> heldPackets (qs[n := q]) + mset (stored (qs ! n)) = heldPackets qs + mset (stored q)"
proof (induction qs arbitrary: n)
  case (Cons x qs)
  then show ?case by (cases n) (simp_all add: heldPackets_def ac_simps)
qed simp

lemma onQueue_fields [simp]:
  "bufPackets (onQueue n f st) = bufPackets st" "bufCapacity (onQueue n f st) = bufCapacity st"
  "bufDataCapacity (onQueue n f st) = bufDataCapacity st" "queueIds (onQueue n f st) = queueIds st"
  "bufQueues (onQueue n f st) = (bufQueues st)[n := f (bufQueues st ! n)]"
  by (simp_all add: onQueue_def)

lemma held_onQueue_same:
  "n < length qs \<Longrightarrow> stored q = stored (qs ! n) \<Longrightarrow> heldPackets (qs[n := q]) = heldPackets qs"
  using held_update [of n qs q] by simp

lemma bufferOverloaded_perm: "mset xs = mset ys \<Longrightarrow> bufferOverloaded st xs = bufferOverloaded st ys"
  unfolding bufferOverloaded_def by (metis mset_map size_mset sum_mset_sum_list)

lemma bufferOverloaded_fields:
  "bufCapacity st' = bufCapacity st \<Longrightarrow> bufDataCapacity st' = bufDataCapacity st \<Longrightarrow> bufferOverloaded st' = bufferOverloaded st"
  by (simp add: bufferOverloaded_def fun_eq_iff)

definition capacities_ok :: "shared_buffer \<Rightarrow> bool" where
  "capacities_ok st \<longleftrightarrow> (0 \<le> bufCapacity st \<or> bufCapacity st = -1) \<and> (0 \<le> bufDataCapacity st \<or> bufDataCapacity st = -1)"

lemma bufferAdd_inv:
  assumes "bufferAdd d p st = Inr (st', ds)" "add_mset p (mset (bufPackets st)) = heldPackets (bufQueues st)"
    and "distinct (bufPackets st)" "p \<notin> set (bufPackets st)"
  shows "buffer_inv st' \<and> mset (bufPackets st') + mset ds = add_mset p (mset (bufPackets st))
    \<and> (capacities_ok st \<longrightarrow> \<not> bufferOverloaded st' (bufPackets st'))"
proof -
  define st1 where "st1 = st\<lparr>bufPackets := bufPackets st @ [p], numAddedPackets := numAddedPackets st + 1\<rparr>"
  have inv1: "mset (bufPackets st1) = heldPackets (bufQueues st1)" "distinct (bufPackets st1)"
    using assms(2-4) by (simp_all add: st1_def)
  note c1 = held_distinct [OF inv1]
  show ?thesis
  proof (cases "bufferOverloaded st1 (bufPackets st1)")
    case False
    then have "st' = st1" "ds = []" using assms(1) by (simp_all add: bufferAdd_def flip: st1_def)
    then show ?thesis using inv1 False by (simp add: buffer_inv_def st1_def)
  next
    case True
    then obtain ys select where l: "dropLoop select (\<lambda>xs. xs \<noteq> [] \<and> bufferOverloaded st1 xs) (bufPackets st1) = Inr (ys, ds)"
      and st': "st' = fold notifyOwner ds (st1\<lparr>bufPackets := ys, numBufDropped := numBufDropped st1 + int (length ds)\<rparr>)"
      using assms(1) unfolding bufferAdd_def Let_def st1_def [symmetric]
      by (auto simp: rbind_Inr_iff split: option.splits)
    have perm: "(as \<noteq> [] \<and> bufferOverloaded st1 as) = (bs \<noteq> [] \<and> bufferOverloaded st1 bs)" if "mset as = mset bs" for as bs
      using that bufferOverloaded_perm [OF that] by (metis mset_zero_iff)
    have m: "mset (bufPackets st1) = mset ys + mset ds" "ys = [] \<or> \<not> bufferOverloaded st1 ys"
      using dropLoop_spec [OF l perm] by blast+
    have d: "distinct ys" "distinct ds"
      using inv1(2) m(1) by (metis distinct_append mset_append mset_eq_imp_distinct_iff)+
    have "heldPackets (bufQueues st') = heldPackets (bufQueues st1) - mset ds"
      using held_fold_notify [OF d(2), of "st1\<lparr>bufPackets := ys, numBufDropped := numBufDropped st1 + int (length ds)\<rparr>"] c1
      by (simp add: st')
    then have "mset ys = heldPackets (bufQueues st')" using m(1) inv1(1) by simp
    moreover have "\<not> bufferOverloaded st1 ys" if "capacities_ok st"
      using m(2) that by (auto simp: bufferOverloaded_def exceeds_def capacities_ok_def st1_def)
    moreover have "bufferOverloaded st' = bufferOverloaded st1" by (rule bufferOverloaded_fields) (simp_all add: st')
    ultimately show ?thesis using d(1) m(1) by (simp add: buffer_inv_def st') (simp add: st1_def)
  qed
qed
text \<open>What can happen to the buffer and its queues.\<close>

inductive sharedStep ::
    "(qpacket list \<Rightarrow> qpacket \<Rightarrow> qpacket list) \<Rightarrow> dropper option \<Rightarrow> shared_buffer \<Rightarrow> shared_buffer \<Rightarrow> bool"
  for ins d where
  shared_push: "n < length (bufQueues st) \<Longrightarrow> p \<notin> set (bufPackets st) \<Longrightarrow> sharedPush ins d n p st = Inr (st', ds) \<Longrightarrow> sharedStep ins d st st'"
| shared_pull: "n < length (bufQueues st) \<Longrightarrow> sharedPull n st = Inr (st', p) \<Longrightarrow> sharedStep ins d st st'"
| shared_remove: "n < length (bufQueues st) \<Longrightarrow> p \<in> set (stored (bufQueues st ! n)) \<Longrightarrow> sharedStep ins d st (sharedRemove n p st)"
| shared_removeAll: "n < length (bufQueues st) \<Longrightarrow> sharedStep ins d st (sharedRemoveAll n st)"

lemma sharedPush_inv:
  assumes "\<And>xs x. mset (ins xs x) = add_mset x (mset xs)"
    and "buffer_inv st" "n < length (bufQueues st)" "p \<notin> set (bufPackets st)" "sharedPush ins d n p st = Inr (st', ds)"
  shows "buffer_inv st' \<and> mset (bufPackets st') + mset ds = add_mset p (mset (bufPackets st))
    \<and> (capacities_ok st \<longrightarrow> \<not> bufferOverloaded st' (bufPackets st'))"
proof -
  define st1 where "st1 = onQueue n (\<lambda>q. (emitQueue PacketPushStarted q)\<lparr>stored := ins (stored q) p\<rparr>) st"
  have add: "bufferAdd d p st1 = Inr (st', ds)"
    using assms(5) by (auto simp: sharedPush_def rbind_Inr_iff st1_def)
  have "heldPackets (bufQueues st1) + mset (stored (bufQueues st ! n)) = heldPackets (bufQueues st) + mset (ins (stored (bufQueues st ! n)) p)"
    using held_update [OF assms(3), of "(emitQueue PacketPushStarted (bufQueues st ! n))\<lparr>stored := ins (stored (bufQueues st ! n)) p\<rparr>"]
    by (simp add: st1_def)
  then have "heldPackets (bufQueues st1) = add_mset p (heldPackets (bufQueues st))" using assms(1) by simp
  then have "add_mset p (mset (bufPackets st1)) = heldPackets (bufQueues st1)" using assms(2) by (simp add: buffer_inv_def st1_def)
  moreover have f: "bufPackets st1 = bufPackets st" "capacities_ok st1 = capacities_ok st" "distinct (bufPackets st)"
    using assms(2) by (simp_all add: st1_def capacities_ok_def buffer_inv_def)
  ultimately show ?thesis using bufferAdd_inv [OF add] assms(4) unfolding f by blast
qed

lemma takeOut_inv:
  assumes "buffer_inv st" "n < length (bufQueues st)" "p \<in> set (stored (bufQueues st ! n))"
    and "mset ps = mset (stored (bufQueues st ! n)) - {#p#}"
  shows "buffer_inv (onQueue n (emitQueue sig) (bufferRemove p (onQueue n (\<lambda>q. q\<lparr>stored := ps\<rparr>) st)))"
proof -
  define qs where "qs = (bufQueues st)[n := (bufQueues st ! n)\<lparr>stored := ps\<rparr>]"
  have inv: "mset (bufPackets st) = heldPackets (bufQueues st)" "distinct (bufPackets st)" using assms(1) by (simp_all add: buffer_inv_def)
  have m: "mset (stored (bufQueues st ! n)) = add_mset p (mset ps)" using assms(3,4) by simp
  have "heldPackets qs + mset (stored (bufQueues st ! n)) = heldPackets (bufQueues st) + mset ps"
    using held_update [OF assms(2), of "(bufQueues st ! n)\<lparr>stored := ps\<rparr>"] by (simp add: qs_def)
  then have h: "heldPackets (bufQueues st) = add_mset p (heldPackets qs)" unfolding m by simp
  then have "p \<notin># heldPackets qs" using held_distinct [OF inv, of p] by (simp add: not_in_iff)
  note same = held_absent [OF this]
  have "mset (remove1 p (bufPackets st)) = heldPackets qs" using inv(1) h by simp
  moreover have "distinct (remove1 p (bufPackets st))" using inv(2) by (rule distinct_remove1)
  ultimately show ?thesis
    using assms(2) same by (simp add: buffer_inv_def bufferRemove_def flip: qs_def) (simp add: held_onQueue_same qs_def)
qed

lemma bufferRemoveLoop_all:
  "ps = bufPackets st \<Longrightarrow> distinct ps \<Longrightarrow> set_mset (heldPackets (bufQueues st)) \<subseteq> set ps \<Longrightarrow> (\<And>x. count (heldPackets (bufQueues st)) x \<le> 1) \<Longrightarrow>
   bufPackets (bufferRemoveLoop ps st) = [] \<and> heldPackets (bufQueues (bufferRemoveLoop ps st)) = {#}
   \<and> length (bufQueues (bufferRemoveLoop ps st)) = length (bufQueues st)"
proof (induction ps arbitrary: st)
  case (Cons p ps)
  define st1 where "st1 = notifyOwner p (st\<lparr>bufPackets := ps, numBufRemoved := numBufRemoved st + 1\<rparr>)"
  have h: "heldPackets (bufQueues st1) = heldPackets (bufQueues st) - {#p#}"
    using held_notify [OF Cons.prems(4)] by (simp add: st1_def)
  have c: "count (heldPackets (bufQueues st1)) x \<le> 1" for x using Cons.prems(4) [of x] unfolding h by simp
  have "p \<notin># heldPackets (bufQueues st1)" using Cons.prems(4) [of p] unfolding h by (simp add: not_in_iff)
  then have "set_mset (heldPackets (bufQueues st1)) \<subseteq> set ps"
    using Cons.prems(3) in_diffD [of _ "heldPackets (bufQueues st)" "{#p#}"] unfolding h by fastforce
  moreover have "ps = bufPackets st1" "length (bufQueues st1) = length (bufQueues st)" by (simp_all add: st1_def)
  ultimately show ?case
    using Cons.IH [of st1] Cons.prems(2) c unfolding bufferRemoveLoop.simps st1_def [symmetric] by simp
qed simp

lemma sharedRemoveAll_empty:
  assumes "buffer_inv st" "n < length (bufQueues st)"
  shows "bufPackets (sharedRemoveAll n st) = [] \<and> heldPackets (bufQueues (sharedRemoveAll n st)) = {#}"
proof -
  obtain popped rest where pop: "popLoop 0 (stored (bufQueues st ! n)) = (popped, rest)" by (cases "popLoop 0 (stored (bufQueues st ! n))")
  have app: "stored (bufQueues st ! n) = popped @ rest" using pop popLoop_spec [of 0 "stored (bufQueues st ! n)"] by auto
  define st1 where "st1 = onQueue n (\<lambda>q. q\<lparr>stored := rest\<rparr>) st"
  have inv: "mset (bufPackets st) = heldPackets (bufQueues st)" "distinct (bufPackets st)" using assms(1) by (simp_all add: buffer_inv_def)
  have "heldPackets (bufQueues st1) + mset (stored (bufQueues st ! n)) = heldPackets (bufQueues st) + mset rest"
    using held_update [OF assms(2), of "(bufQueues st ! n)\<lparr>stored := rest\<rparr>"] by (simp add: st1_def)
  then have h: "heldPackets (bufQueues st) = heldPackets (bufQueues st1) + mset popped" unfolding app by simp
  have "set_mset (heldPackets (bufQueues st1)) \<subseteq> set (bufPackets st)" using inv(1) h by (metis set_mset_mset set_mset_union sup_ge1)
  moreover have "count (heldPackets (bufQueues st1)) x \<le> 1" for x
    using held_distinct [OF inv, of x] unfolding h by simp
  ultimately have all: "bufPackets (bufferRemoveAll st1) = []" "heldPackets (bufQueues (bufferRemoveAll st1)) = {#}"
    "length (bufQueues (bufferRemoveAll st1)) = length (bufQueues st)"
    using bufferRemoveLoop_all [of "bufPackets st1" st1] inv(2) by (simp_all add: bufferRemoveAll_def st1_def)
  have "sharedRemoveAll n st = onQueue n (\<lambda>q. fold (\<lambda>_. emitQueue PacketRemoved) popped q) (bufferRemoveAll st1)"
    by (simp add: sharedRemoveAll_def pop st1_def)
  then show ?thesis using all assms(2) by (simp add: held_onQueue_same)
qed

text \<open>
  However packets are pushed, pulled and removed through the queues of a buffer, the buffer
  holds exactly the packets that are in its queues, each once.
\<close>

theorem shared_buffer_consistent:
  assumes "\<And>xs x. mset (ins xs x) = add_mset x (mset xs)"
    and "(sharedStep ins d)\<^sup>*\<^sup>* st st'" "buffer_inv st"
  shows "buffer_inv st'"
  using assms(2,3)
proof (induction rule: rtranclp_induct)
  case (step st1 st2)
  from step(2) step.IH [OF step.prems] show ?case
  proof (cases rule: sharedStep.cases)
    case (shared_push n p ds)
    then show ?thesis using sharedPush_inv [OF assms(1)] \<open>buffer_inv st1\<close> step.IH step.prems by blast
  next
    case (shared_pull n p)
    then obtain ps where ps: "stored (bufQueues st1 ! n) = p # ps"
      and st2: "st2 = onQueue n (emitQueue PacketPulled) (bufferRemove p (onQueue n (\<lambda>q. q\<lparr>stored := ps\<rparr>) st1))"
      by (auto simp: sharedPull_def split: list.splits)
    show ?thesis unfolding st2 by (rule takeOut_inv) (use step.IH step.prems shared_pull ps in simp_all)
  next
    case (shared_remove n p)
    have "st2 = onQueue n (emitQueue PacketRemoved)
        (bufferRemove p (onQueue n (\<lambda>q. q\<lparr>stored := remove1 p (stored (bufQueues st1 ! n))\<rparr>) st1))"
      by (simp add: shared_remove(1) sharedRemove_def onQueue_def)
    then show ?thesis using takeOut_inv [OF _ shared_remove(2,3)] step.IH step.prems by simp
  next
    case (shared_removeAll n)
    then show ?thesis using sharedRemoveAll_empty [OF _ shared_removeAll(2)] step.IH step.prems by (simp add: buffer_inv_def)
  qed
qed
definition buffer_demo :: shared_buffer where
  "buffer_demo = \<lparr>bufPackets = [qpacket_demo 1, qpacket_demo 2], bufCapacity = 2, bufDataCapacity = -1, numAddedPackets = 2,
     numBufRemoved = 0, numBufDropped = 0,
     bufQueues = [(newQueue (-1) (-1))\<lparr>stored := [qpacket_demo 1]\<rparr>, (newQueue (-1) (-1))\<lparr>stored := [qpacket_demo 2]\<rparr>],
     queueIds = [5, 6]\<rparr>"

lemma buffer_inv_demo: "buffer_inv buffer_demo"
  by (simp add: buffer_inv_def buffer_demo_def heldPackets_def newQueue_def qpacket_demo_def)

lemma shared_buffer_consistent_witness:
  "\<exists>st'. (sharedStep fifoInsert (Some PacketAtCollectionBegin))\<^sup>*\<^sup>* buffer_demo st' \<and> buffer_inv st' \<and> st' \<noteq> buffer_demo"
proof -
  have "is_ok (sharedPull 1 buffer_demo)" by code_simp
  then obtain st' p where r: "sharedPull 1 buffer_demo = Inr (st', p)" using is_ok_pair by metis
  have "sharedStep fifoInsert (Some PacketAtCollectionBegin) buffer_demo st'"
    by (rule shared_pull [OF _ r]) (simp add: buffer_demo_def)
  then have s: "(sharedStep fifoInsert (Some PacketAtCollectionBegin))\<^sup>*\<^sup>* buffer_demo st'" by blast
  have "bufPackets st' \<noteq> bufPackets buffer_demo"
    using r by (auto simp: sharedPull_def bufferRemove_def onQueue_def notifyOwner_def buffer_demo_def newQueue_def qpacket_demo_def)
  then show ?thesis using shared_buffer_consistent [OF fifo.ins_mset s buffer_inv_demo] s by blast
qed

text \<open>
  A packet pushed into a queue of a shared buffer is added to the buffer, which then drops
  packets of any queue until it is within its capacity; no packet gets lost otherwise.
\<close>

theorem shared_push_within_capacity:
  assumes "\<And>xs x. mset (ins xs x) = add_mset x (mset xs)"
    and "buffer_inv st" "capacities_ok st" "n < length (bufQueues st)" "p \<notin> set (bufPackets st)"
    and "sharedPush ins d n p st = Inr (st', ds)"
  shows "\<not> bufferOverloaded st' (bufPackets st')
    \<and> heldPackets (bufQueues st') + mset ds = add_mset p (heldPackets (bufQueues st))"
proof -
  have "buffer_inv st' \<and> mset (bufPackets st') + mset ds = add_mset p (mset (bufPackets st))
    \<and> (capacities_ok st \<longrightarrow> \<not> bufferOverloaded st' (bufPackets st'))"
    by (rule sharedPush_inv) (fact assms)+
  moreover from this have "mset (bufPackets st') = heldPackets (bufQueues st')" "mset (bufPackets st) = heldPackets (bufQueues st)"
    using assms(2) by (simp_all add: buffer_inv_def)
  ultimately show ?thesis using assms(3) by metis
qed

lemma shared_push_within_capacity_witness:
  "\<exists>st' ds. sharedPush fifoInsert (Some HighestOwnerModuleId) 0 (qpacket_demo 3) buffer_demo = Inr (st', ds)
    \<and> \<not> bufferOverloaded st' (bufPackets st')"
proof -
  have "is_ok (sharedPush fifoInsert (Some HighestOwnerModuleId) 0 (qpacket_demo 3) buffer_demo)" by code_simp
  then obtain st' ds where r: "sharedPush fifoInsert (Some HighestOwnerModuleId) 0 (qpacket_demo 3) buffer_demo = Inr (st', ds)"
    using is_ok_pair by metis
  have "capacities_ok buffer_demo" "0 < length (bufQueues buffer_demo)" "qpacket_demo 3 \<notin> set (bufPackets buffer_demo)"
    by (simp_all add: buffer_demo_def capacities_ok_def qpacket_demo_def)
  from shared_push_within_capacity [OF fifo.ins_mset buffer_inv_demo this r] r show ?thesis by blast
qed

text \<open>
  Emptying one queue empties all queues of its buffer: the queue asks the buffer to remove all
  its packets, and the buffer takes them out of every queue.
\<close>

theorem removeAll_empties_other_queues:
  assumes "buffer_inv st" "n < length (bufQueues st)"
  shows "bufPackets (sharedRemoveAll n st) = [] \<and> (\<forall>q \<in> set (bufQueues (sharedRemoveAll n st)). stored q = [])"
proof -
  have "stored q = []" if "heldPackets qs = {#}" "q \<in> set qs" for q qs
    using that by (induction qs) (auto simp: heldPackets_def)
  then show ?thesis using sharedRemoveAll_empty [OF assms] by blast
qed

lemma removeAll_empties_other_queues_witness:
  "stored (bufQueues buffer_demo ! 1) \<noteq> [] \<and> (\<forall>q \<in> set (bufQueues (sharedRemoveAll 0 buffer_demo)). stored q = [])"
  using removeAll_empties_other_queues [OF buffer_inv_demo, of 0] by (simp add: buffer_demo_def newQueue_def)

end
