(* ===== verification/PacketSchedulers.thy ===== *)
theory PacketSchedulers
  imports PacketQueues
begin

text \<open>
  Schedulers and classifiers (\<open>inet/queueing/\<close>): \<open>scheduler/PriorityScheduler.cc\<close> and
  \<open>scheduler/WrrScheduler.cc\<close> with what their base class does when packets are pulled and pushed
  (\<open>base/PacketSchedulerBase.cc\<close>), \<open>classifier/PriorityClassifier.cc\<close> and
  \<open>classifier/WrrClassifier.cc\<close>.

  What the neighbours answer (\<open>canPullSomePacket\<close>, \<open>canPushPacket\<close>) is a list of booleans, one for
  each gate; where packets matter the inputs are lists of packets.
\<close>

section \<open>Scheduling by priority\<close>

definition getInputGateIndex :: "bool \<Rightarrow> nat \<Rightarrow> nat \<Rightarrow> nat" where
  "getInputGateIndex reverseOrder n i = (if reverseOrder then n - i - 1 else i)"

definition prioritySchedule :: "bool \<Rightarrow> int \<Rightarrow> bool list \<Rightarrow> int" where
  "prioritySchedule reverseOrder inProgressGateIndex can =
     (case find (\<lambda>i. let k = getInputGateIndex reverseOrder (length can) i in int k = inProgressGateIndex \<or> can ! k) [0..<length can] of
        None \<Rightarrow> -1
      | Some i \<Rightarrow> int (getInputGateIndex reverseOrder (length can) i))"

section \<open>Weighted round robin\<close>

record wrr =
  weights :: "nat list"
  buckets :: "nat list"

definition wrrInitialize :: "nat \<Rightarrow> nat list \<Rightarrow> wrr result" where
  "wrrInitialize n ws =
     (if length ws < n then Inl (RuntimeError ''Too few values given in the weights parameter.'')
      else if n < length ws then Inl (RuntimeError ''Too many values given in the weights parameter.'')
      else Inr \<lparr>weights = ws, buckets = ws\<rparr>)"

text \<open>The loop over the inputs: the input whose bucket is used, or the candidates without one.\<close>

fun wrrLoop :: "nat \<Rightarrow> bool list \<Rightarrow> nat list \<Rightarrow> nat list \<Rightarrow> nat option \<Rightarrow> nat option \<Rightarrow> nat option \<times> nat option \<times> nat option" where
  "wrrLoop i (c # cs) (w # ws) (b # bs) firstWeighted firstNonWeighted =
     (if c
      then (if 0 < b then (Some i, firstWeighted, firstNonWeighted)
            else if firstWeighted = None \<and> 0 < w then wrrLoop (Suc i) cs ws bs (Some i) firstNonWeighted
            else if firstNonWeighted = None \<and> w = 0 then wrrLoop (Suc i) cs ws bs firstWeighted (Some i)
            else wrrLoop (Suc i) cs ws bs firstWeighted firstNonWeighted)
      else wrrLoop (Suc i) cs ws bs firstWeighted firstNonWeighted)"
| "wrrLoop i _ _ _ firstWeighted firstNonWeighted = (None, firstWeighted, firstNonWeighted)"

definition useBucket :: "nat \<Rightarrow> nat list \<Rightarrow> nat list" where
  "useBucket i bs = bs[i := bs ! i - 1]"

definition wrrSchedule :: "bool list \<Rightarrow> wrr \<Rightarrow> int \<times> wrr" where
  "wrrSchedule can s =
     (case wrrLoop 0 can (weights s) (buckets s) None None of
        (Some i, _, _) \<Rightarrow> (int i, s\<lparr>buckets := useBucket i (buckets s)\<rparr>)
      | (None, Some i, _) \<Rightarrow> (int i, s\<lparr>buckets := useBucket i (weights s)\<rparr>)
      | (None, None, Some i) \<Rightarrow> (int i, s)
      | (None, None, None) \<Rightarrow> (-1, s))"

section \<open>What a scheduler answers and does\<close>

definition callSchedulePacket :: "nat \<Rightarrow> (int \<times> 's) \<Rightarrow> (nat \<times> 's) result" where
  "callSchedulePacket n r =
     (case r of (i, s) \<Rightarrow>
        if i < 0 \<or> int n \<le> i then Inl (RuntimeError ''Scheduled packet from invalid input gate'') else Inr (nat i, s))"

definition nonEmpty :: "'p list list \<Rightarrow> bool list" where
  "nonEmpty ins = map (\<lambda>q. q \<noteq> []) ins"

definition schedulerCanPullSome :: "'p list list \<Rightarrow> bool" where
  "schedulerCanPullSome ins \<longleftrightarrow> list_ex (\<lambda>q. q \<noteq> []) ins"

fun schedulerCanPull :: "'p list list \<Rightarrow> 'p option" where
  "schedulerCanPull [] = None"
| "schedulerCanPull (q # qs) = (case q of p # _ \<Rightarrow> Some p | [] \<Rightarrow> schedulerCanPull qs)"

definition schedulerPull :: "(bool list \<Rightarrow> 's \<Rightarrow> int \<times> 's) \<Rightarrow> 'p list list \<Rightarrow> 's \<Rightarrow> ('p \<times> 'p list list \<times> 's) result" where
  "schedulerPull sched ins s =
     rbind (callSchedulePacket (length ins) (sched (nonEmpty ins) s)) (\<lambda>(i, s1).
       case ins ! i of [] \<Rightarrow> Inl AssertionFailed | p # ps \<Rightarrow> Inr (p, ins[i := ps], s1))"

definition schedulerCanPushSome :: "(bool list \<Rightarrow> 's \<Rightarrow> int \<times> 's) \<Rightarrow> bool list \<Rightarrow> nat \<Rightarrow> 's \<Rightarrow> (bool \<times> 's) result" where
  "schedulerCanPushSome sched can g s =
     rbind (callSchedulePacket (length can) (sched can s)) (\<lambda>(i, s1). Inr (i = g, s1))"

definition schedulerPush :: "(bool list \<Rightarrow> 's \<Rightarrow> int \<times> 's) \<Rightarrow> bool list \<Rightarrow> nat \<Rightarrow> 's \<Rightarrow> 's result" where
  "schedulerPush sched can g s =
     rbind (callSchedulePacket (length can) (sched can s)) (\<lambda>(i, s1).
       if i \<noteq> g then Inl (RuntimeError ''Scheduled packet from wrong input gate'') else Inr s1)"

text \<open>The scheduler as a collection: the packets of its inputs one after the other.\<close>

fun schedulerGetPacket :: "'p list list \<Rightarrow> int \<Rightarrow> 'p result" where
  "schedulerGetPacket [] i = Inl (RuntimeError ''Index out of range'')"
| "schedulerGetPacket (q # qs) i = (if i < int (length q) then getPacketAt q i else schedulerGetPacket qs (i - int (length q)))"

fun schedulerRemovePacket :: "'p \<Rightarrow> 'p list list \<Rightarrow> 'p list list result" where
  "schedulerRemovePacket p [] = Inl (RuntimeError ''Cannot find packet'')"
| "schedulerRemovePacket p (q # qs) =
     (if p \<in> set q then Inr (remove1 p q # qs) else rbind (schedulerRemovePacket p qs) (\<lambda>qs'. Inr (q # qs')))"

definition schedulerNumPackets :: "'p list list \<Rightarrow> int" where
  "schedulerNumPackets qs = int (sum_list (map length qs))"

section \<open>Classifiers\<close>

definition priorityClassify :: "bool \<Rightarrow> bool list \<Rightarrow> int" where
  "priorityClassify reverseOrder can =
     (case find (\<lambda>i. can ! getInputGateIndex reverseOrder (length can) i) [0..<length can] of
        None \<Rightarrow> -1 | Some i \<Rightarrow> int (getInputGateIndex reverseOrder (length can) i))"

definition wrrClassify :: "bool list \<Rightarrow> wrr \<Rightarrow> int \<times> wrr" where
  "wrrClassify can s =
     (case find (\<lambda>i. can ! i \<and> 0 < buckets s ! i) [0..<length can] of
        Some i \<Rightarrow> (int i, s\<lparr>buckets := useBucket i (buckets s)\<rparr>)
      | None \<Rightarrow>
          if \<not> list_ex (\<lambda>c. c) can then (-1, s)
          else (case find (\<lambda>i. 0 < weights s ! i \<and> can ! i) [0..<length can] of
                  Some i \<Rightarrow> (int i, s\<lparr>buckets := useBucket i (weights s)\<rparr>)
                | None \<Rightarrow> (-1, s\<lparr>buckets := weights s\<rparr>)))"

section \<open>The most important input first\<close>

lemma find_upt_Some: "find P [0..<n] = Some i \<longleftrightarrow> i < n \<and> P i \<and> (\<forall>j < i. \<not> P j)"
proof
  assume "find P [0..<n] = Some i"
  then obtain k where "k < n" "P ([0..<n] ! k)" "i = [0..<n] ! k" "\<forall>j < k. \<not> P ([0..<n] ! j)"
    by (auto simp: find_Some_iff)
  then show "i < n \<and> P i \<and> (\<forall>j < i. \<not> P j)" by auto
next
  assume "i < n \<and> P i \<and> (\<forall>j < i. \<not> P j)"
  then show "find P [0..<n] = Some i" by (auto simp: find_Some_iff intro!: exI [of _ i])
qed

text \<open>
  The priority scheduler is work conserving and strict: while no packet is being streamed it
  chooses no input exactly when all are empty, and otherwise the first input (the last in reverse
  order) that has a packet.
\<close>

theorem priority_is_strict:
  assumes "inProgressGateIndex = -1"
  shows "(prioritySchedule backwards inProgressGateIndex can = -1 \<longleftrightarrow> True \<notin> set can)
    \<and> (\<forall>k. prioritySchedule backwards inProgressGateIndex can = int k \<longrightarrow>
        k < length can \<and> can ! k \<and> (\<forall>j < length can. can ! j \<longrightarrow> (if backwards then j \<le> k else k \<le> j)))"
proof (cases "find (\<lambda>i. let k = getInputGateIndex backwards (length can) i in int k = inProgressGateIndex \<or> can ! k) [0..<length can]")
  case None
  have "\<not> can ! j" if "j < length can" for j
  proof -
    define i where "i = (if backwards then length can - j - 1 else j)"
    have "i < length can" "getInputGateIndex backwards (length can) i = j"
      using that by (auto simp: i_def getInputGateIndex_def)
    then show ?thesis using None assms by (auto simp: find_None_iff Let_def)
  qed
  then have "True \<notin> set can" by (metis in_set_conv_nth)
  then show ?thesis using None by (simp add: prioritySchedule_def)
next
  case (Some i)
  then have i: "i < length can" "can ! getInputGateIndex backwards (length can) i"
    "\<And>j. j < i \<Longrightarrow> \<not> can ! getInputGateIndex backwards (length can) j"
    using assms by (auto simp: find_upt_Some Let_def)
  let ?k = "getInputGateIndex backwards (length can) i"
  have k: "?k < length can" using i(1) by (auto simp: getInputGateIndex_def)
  have "if backwards then j \<le> ?k else ?k \<le> j" if j: "j < length can" "can ! j" for j
  proof (cases backwards)
    case True
    show ?thesis
    proof (rule ccontr)
      assume "\<not> (if backwards then j \<le> ?k else ?k \<le> j)"
      then have "length can - j - 1 < i" using True i(1) j(1) by (simp add: getInputGateIndex_def)
      then show False using i(3) [of "length can - j - 1"] j True by (simp add: getInputGateIndex_def)
    qed
  next
    case False
    then show ?thesis using i(3) [of j] j(2) by (simp add: getInputGateIndex_def) (meson not_le)
  qed
  moreover have "True \<in> set can" using i(2) k by (metis nth_mem)
  ultimately show ?thesis using Some i(2) k by (simp add: prioritySchedule_def) auto
qed

lemma priority_is_strict_witness: "prioritySchedule False (-1) [False, True, True] = 1 \<and> True \<in> set [False, True, True]"
  using priority_is_strict [of "-1" False "[False, True, True]"] by (simp add: prioritySchedule_def getInputGateIndex_def)
section \<open>Weighted round robin is fair\<close>

lemma find_map_comp: "find P (map f xs) = map_option f (find (P \<circ> f) xs)"
  by (induction xs) simp_all

lemma find_upt_Suc: "find P [0..<Suc n] = (if P 0 then Some 0 else map_option Suc (find (\<lambda>j. P (Suc j)) [0..<n]))"
  by (simp add: upt_conv_Cons find_map_comp comp_def del: upt_Suc flip: map_Suc_upt)

definition firstOf :: "(nat \<Rightarrow> bool) \<Rightarrow> nat \<Rightarrow> nat option" where
  "firstOf P n = find P [0..<n]"

lemma firstOf_Suc: "firstOf P (Suc n) = (if P 0 then Some 0 else map_option Suc (firstOf (\<lambda>j. P (Suc j)) n))"
  by (simp only: firstOf_def find_upt_Suc)

lemma firstOf_0 [simp]: "firstOf P 0 = None"
  by (simp add: firstOf_def)

lemma firstOf_Some: "firstOf P n = Some i \<longleftrightarrow> i < n \<and> P i \<and> (\<forall>j < i. \<not> P j)"
  by (simp add: firstOf_def find_upt_Some)

lemma firstOf_None: "firstOf P n = None \<longleftrightarrow> (\<forall>i < n. \<not> P i)"
  by (auto simp: firstOf_def find_None_iff)

lemma wrrLoop_spec:
  assumes "length ws = length can" "length bs = length can"
  shows "fst (wrrLoop i can ws bs fw fn) = map_option ((+) i) (firstOf (\<lambda>j. can ! j \<and> 0 < bs ! j) (length can))
    \<and> (fst (wrrLoop i can ws bs fw fn) = None \<longrightarrow>
         snd (wrrLoop i can ws bs fw fn) =
           ((case fw of Some a \<Rightarrow> Some a | None \<Rightarrow> map_option ((+) i) (firstOf (\<lambda>j. can ! j \<and> 0 < ws ! j) (length can))),
            (case fn of Some a \<Rightarrow> Some a | None \<Rightarrow> map_option ((+) i) (firstOf (\<lambda>j. can ! j \<and> ws ! j = 0) (length can)))))"
  using assms
proof (induction can arbitrary: i ws bs fw fn)
  case (Cons c can)
  then obtain w ws' b bs' where l: "ws = w # ws'" "bs = b # bs'" "length ws' = length can" "length bs' = length can"
    by (cases ws; cases bs) auto
  have m: "map_option ((+) (Suc i)) x = map_option (\<lambda>a. Suc (i + a)) x" for x by (cases x) simp_all
  show ?case
    using Cons.IH [OF l(3,4)] by (simp add: l firstOf_Suc m option.map_comp comp_def split: option.split)
qed (simp split: option.split)

lemma wrrSchedule_eq:
  assumes "length (weights s) = length can" "length (buckets s) = length can"
  shows "wrrSchedule can s =
    (case firstOf (\<lambda>j. can ! j \<and> 0 < buckets s ! j) (length can) of
       Some i \<Rightarrow> (int i, s\<lparr>buckets := useBucket i (buckets s)\<rparr>)
     | None \<Rightarrow>
         (case firstOf (\<lambda>j. can ! j \<and> 0 < weights s ! j) (length can) of
            Some i \<Rightarrow> (int i, s\<lparr>buckets := useBucket i (weights s)\<rparr>)
          | None \<Rightarrow>
              (case firstOf (\<lambda>j. can ! j \<and> weights s ! j = 0) (length can) of Some i \<Rightarrow> (int i, s) | None \<Rightarrow> (-1, s))))"
proof -
  obtain a b c where r: "wrrLoop 0 can (weights s) (buckets s) None None = (a, b, c)" by (cases "wrrLoop 0 can (weights s) (buckets s) None None")
  have id: "map_option ((+) 0) x = x" for x :: "nat option" by (cases x) simp_all
  show ?thesis
    using wrrLoop_spec [OF assms, of 0 None None] unfolding r wrrSchedule_def by (auto simp: id split: option.split)
qed

text \<open>
  The weighted round robin scheduler is work conserving, and an input of weight zero is only
  served when no input with a weight has a packet.
\<close>

theorem wrr_work_conserving:
  assumes "length (weights s) = length can" "length (buckets s) = length can" "wrrSchedule can s = (i, s')"
    and "\<And>j. j < length can \<Longrightarrow> buckets s ! j \<le> weights s ! j"
  shows "(i = -1 \<longleftrightarrow> True \<notin> set can) \<and> (0 \<le> i \<longrightarrow> nat i < length can \<and> can ! nat i
    \<and> (weights s ! nat i = 0 \<longrightarrow> (\<forall>j < length can. can ! j \<longrightarrow> weights s ! j = 0)))"
proof -
  have none: "True \<notin> set can \<longleftrightarrow> (\<forall>j < length can. \<not> can ! j)" by (metis in_set_conv_nth)
  show ?thesis
  proof (cases "firstOf (\<lambda>j. can ! j \<and> 0 < buckets s ! j) (length can)")
    case (Some k)
    then have k: "k < length can" "can ! k" "0 < buckets s ! k" by (simp_all add: firstOf_Some)
    moreover have "0 < weights s ! k" using k assms(4) [OF k(1)] by simp
    ultimately show ?thesis using assms(3) Some by (auto simp: wrrSchedule_eq [OF assms(1,2)] none)
  next
    case no_bucket: None
    show ?thesis
    proof (cases "firstOf (\<lambda>j. can ! j \<and> 0 < weights s ! j) (length can)")
      case (Some k)
      then have k: "k < length can" "can ! k" "0 < weights s ! k" by (simp_all add: firstOf_Some)
      have "i = int k" using assms(3) no_bucket Some by (simp add: wrrSchedule_eq [OF assms(1,2)])
      then show ?thesis using k by (auto simp: none)
    next
      case no_weight: None
      then have z: "can ! j \<Longrightarrow> weights s ! j = 0" if "j < length can" for j using that by (simp add: firstOf_None)
      show ?thesis
      proof (cases "firstOf (\<lambda>j. can ! j \<and> weights s ! j = 0) (length can)")
        case None
        then have "i = -1" using assms(3) no_bucket no_weight by (simp add: wrrSchedule_eq [OF assms(1,2)])
        then show ?thesis using None z by (auto simp: none firstOf_None)
      next
        case (Some k)
        then have "i = int k" using assms(3) no_bucket no_weight by (simp add: wrrSchedule_eq [OF assms(1,2)])
        then show ?thesis using Some z by (auto simp: none firstOf_Some)
      qed
    qed
  qed
qed

lemma wrr_work_conserving_witness:
  "\<exists>i s'. wrrSchedule [False, True] \<lparr>weights = [1, 0], buckets = [1, 0]\<rparr> = (i, s') \<and> i \<noteq> -1"
proof -
  obtain i s' where r: "wrrSchedule [False, True] \<lparr>weights = [1, 0], buckets = [1, 0]\<rparr> = (i, s')" by fastforce
  from wrr_work_conserving [OF _ _ r] r show ?thesis by auto
qed

fun wrrRun :: "nat \<Rightarrow> bool list \<Rightarrow> wrr \<Rightarrow> int list \<times> wrr" where
  "wrrRun 0 can s = ([], s)"
| "wrrRun (Suc k) can s = (let (i, s1) = wrrSchedule can s; (is, s2) = wrrRun k can s1 in (i # is, s2))"

lemma wrrRun_add: "wrrRun (j + k) can s = (let (xs, s1) = wrrRun j can s; (ys, s2) = wrrRun k can s1 in (xs @ ys, s2))"
  by (induction j arbitrary: s) (simp_all add: case_prod_beta Let_def)

definition allCan :: "nat \<Rightarrow> bool list" where
  "allCan n = replicate n True"

definition round_state :: "nat \<Rightarrow> nat list \<Rightarrow> wrr \<Rightarrow> bool" where
  "round_state n bs s \<longleftrightarrow> length (weights s) = n \<and> length bs = n \<and> buckets s = bs"

lemma drain:
  "round_state n bs s \<Longrightarrow> sum_list bs = k \<Longrightarrow>
   \<exists>is. wrrRun k (allCan n) s = (is, s\<lparr>buckets := replicate n 0\<rparr>) \<and> (\<forall>i < n. count_list is (int i) = bs ! i)"
proof (induction k arbitrary: bs s)
  case 0
  then have z: "\<forall>i < n. bs ! i = 0" by (auto simp: round_state_def)
  then have "bs = replicate n 0" using 0(1) by (auto simp: round_state_def intro: nth_equalityI)
  then show ?case using 0(1) z by (simp add: round_state_def)
next
  case (Suc k)
  have len: "length (weights s) = n" "length bs = n" "buckets s = bs" using Suc.prems(1) by (simp_all add: round_state_def)
  have "\<exists>j < n. 0 < bs ! j" using Suc.prems(2) len(2) by (metis Suc_neq_Zero in_set_conv_nth neq0_conv sum_list_eq_0_iff)
  then obtain i where i: "firstOf (\<lambda>j. allCan n ! j \<and> 0 < buckets s ! j) n = Some i"
    using firstOf_None [of "\<lambda>j. allCan n ! j \<and> 0 < buckets s ! j" n] len(3) by (cases "firstOf (\<lambda>j. allCan n ! j \<and> 0 < buckets s ! j) n") (auto simp: allCan_def)
  then have i': "i < n" "0 < bs ! i" using len(3) by (simp_all add: firstOf_Some)
  have s1: "wrrSchedule (allCan n) s = (int i, s\<lparr>buckets := useBucket i bs\<rparr>)"
    using wrrSchedule_eq [of s "allCan n"] i len by (simp add: allCan_def)
  have "sum_list (useBucket i bs) = k"
    using Suc.prems(2) i' len(2) by (simp add: useBucket_def sum_list_update)
  moreover have "round_state n (useBucket i bs) (s\<lparr>buckets := useBucket i bs\<rparr>)" using len by (simp add: round_state_def useBucket_def)
  ultimately obtain "is" where r: "wrrRun k (allCan n) (s\<lparr>buckets := useBucket i bs\<rparr>) = (is, s\<lparr>buckets := replicate n 0\<rparr>)"
    "\<forall>j < n. count_list is (int j) = useBucket i bs ! j"
    using Suc.IH by fastforce
  have "count_list (int i # is) (int j) = bs ! j" if "j < n" for j
    using r(2) that i' len(2) by (cases "j = i") (simp_all add: useBucket_def)
  then show ?case using s1 r(1) by simp
qed

lemma empty_is_full:
  assumes "length (weights s) = n" "0 < sum_list (weights s)"
  shows "wrrSchedule (allCan n) (s\<lparr>buckets := replicate n 0\<rparr>) = wrrSchedule (allCan n) (s\<lparr>buckets := weights s\<rparr>)"
proof -
  have "firstOf (\<lambda>j. allCan n ! j \<and> 0 < replicate n (0 :: nat) ! j) n = None" by (simp add: firstOf_None)
  moreover have "\<exists>j < n. 0 < weights s ! j"
    using assms by (metis in_set_conv_nth neq0_conv sum_list_eq_0_iff)
  then have "firstOf (\<lambda>j. allCan n ! j \<and> 0 < weights s ! j) n \<noteq> None" by (auto simp: firstOf_None allCan_def)
  ultimately show ?thesis
    using assms(1) by (auto simp: wrrSchedule_eq allCan_def split: option.split)
qed

lemma rounds:
  assumes "length (weights s) = n" "0 < sum_list (weights s)"
  shows "\<exists>is. wrrRun (m * sum_list (weights s)) (allCan n) (s\<lparr>buckets := replicate n 0\<rparr>) = (is, s\<lparr>buckets := replicate n 0\<rparr>)
    \<and> (\<forall>i < n. count_list is (int i) = m * weights s ! i)"
proof (induction m)
  case (Suc m)
  let ?z = "s\<lparr>buckets := replicate n 0\<rparr>" and ?w = "sum_list (weights s)"
  obtain k where k: "?w = Suc k" using assms(2) by (cases ?w) auto
  have "wrrRun ?w (allCan n) ?z = wrrRun ?w (allCan n) (s\<lparr>buckets := weights s\<rparr>)"
    using empty_is_full [OF assms] by (simp add: k)
  moreover obtain "is" where "wrrRun ?w (allCan n) (s\<lparr>buckets := weights s\<rparr>) = (is, ?z)" "\<forall>i < n. count_list is (int i) = weights s ! i"
    using drain [of n "weights s" "s\<lparr>buckets := weights s\<rparr>" ?w] assms(1) by (auto simp: round_state_def)
  moreover obtain js where "wrrRun (m * ?w) (allCan n) ?z = (js, ?z)" "\<forall>i < n. count_list js (int i) = m * weights s ! i"
    using Suc.IH by blast
  ultimately show ?case by (simp add: wrrRun_add)
qed simp

text \<open>
  While all inputs have packets, weighted round robin serves every input exactly as often as
  its weight says: in any number of rounds, each as long as the sum of the weights, an input is
  chosen as many times as its weight in each round.
\<close>

theorem wrr_is_fair:
  assumes "wrrInitialize n ws = Inr s" "0 < sum_list ws"
  shows "\<forall>i < n. count_list (fst (wrrRun (m * sum_list ws) (replicate n True) s)) (int i) = m * ws ! i"
proof -
  have s: "s = \<lparr>weights = ws, buckets = ws\<rparr>" "length ws = n" using assms(1) by (auto simp: wrrInitialize_def split: if_splits)
  show ?thesis
  proof (cases m)
    case 0
    then show ?thesis by simp
  next
    case (Suc k)
    obtain "is" where "wrrRun (sum_list ws) (allCan n) s = (is, s\<lparr>buckets := replicate n 0\<rparr>)" "\<forall>i < n. count_list is (int i) = ws ! i"
      using drain [of n ws s "sum_list ws"] s by (auto simp: round_state_def)
    moreover obtain js where "wrrRun (k * sum_list ws) (allCan n) (s\<lparr>buckets := replicate n 0\<rparr>) = (js, s\<lparr>buckets := replicate n 0\<rparr>)"
      "\<forall>i < n. count_list js (int i) = k * ws ! i"
      using rounds [of s n k] s assms(2) by auto
    ultimately show ?thesis by (simp add: Suc wrrRun_add flip: allCan_def)
  qed
qed

lemma wrr_is_fair_witness:
  "\<exists>s. wrrInitialize 3 [3, 0, 1] = Inr s \<and> count_list (fst (wrrRun (2 * 4) (replicate 3 True) s)) 0 = 6"
proof -
  obtain s where s: "wrrInitialize 3 [3, 0, 1] = Inr s" by (simp add: wrrInitialize_def)
  have "(0 :: nat) < sum_list [3, 0, 1]" by simp
  from wrr_is_fair [OF s this, of 2] s show ?thesis by (intro exI [of _ s]) force
qed
section \<open>What a scheduler announces\<close>

lemma announced_is_first:
  "schedulerCanPull ins = Some p \<Longrightarrow> \<exists>i ps. i < length ins \<and> ins ! i = p # ps \<and> (\<forall>j < i. ins ! j = [])"
proof (induction ins)
  case (Cons q qs)
  show ?case
  proof (cases q)
    case Nil
    then obtain i ps where "i < length qs" "qs ! i = p # ps" "\<forall>j < i. qs ! j = []" using Cons by auto
    then show ?thesis using Nil by (intro exI [of _ "Suc i"]) (auto simp: less_Suc_eq_0_disj)
  next
    case (Cons x xs)
    then show ?thesis using Cons.prems by (intro exI [of _ 0]) simp
  qed
qed simp

text \<open>
  In its normal order the priority scheduler hands out the packet it has announced.
\<close>

theorem priority_announces_its_packet:
  assumes "schedulerCanPull ins = Some p"
  shows "\<exists>ins'. schedulerPull (\<lambda>can s. (prioritySchedule False (-1) can, s)) ins () = Inr (p, ins', ())
    \<and> mset (concat ins) = add_mset p (mset (concat ins'))"
proof -
  obtain i ps where i: "i < length ins" "ins ! i = p # ps" "\<forall>j < i. ins ! j = []" using announced_is_first [OF assms] by blast
  have "find (\<lambda>j. let k = getInputGateIndex False (length (nonEmpty ins)) j in int k = -1 \<or> nonEmpty ins ! k) [0..<length (nonEmpty ins)] = Some i"
    using i by (simp add: find_upt_Some Let_def getInputGateIndex_def nonEmpty_def)
  then have "prioritySchedule False (-1) (nonEmpty ins) = int i" by (simp add: prioritySchedule_def getInputGateIndex_def)
  then have "schedulerPull (\<lambda>can s. (prioritySchedule False (-1) can, s)) ins () = Inr (p, ins[i := ps], ())"
    using i by (simp add: schedulerPull_def callSchedulePacket_def)
  moreover have "mset (concat ins) = add_mset p (mset (concat (ins[i := ps])))"
    using i(1,2)
  proof (induction ins arbitrary: i)
    case (Cons q qs)
    then show ?case by (cases i) simp_all
  qed simp
  ultimately show ?thesis by blast
qed

lemma priority_announces_its_packet_witness:
  "\<exists>ins'. schedulerPull (\<lambda>can s. (prioritySchedule False (-1) can, s)) [[], [3 :: nat, 4], [5]] () = Inr (3, ins', ())"
  using priority_announces_its_packet [of "[[], [3 :: nat, 4], [5]]" 3] by auto

text \<open>
  In reverse order it does not: it announces the packet of the first input that has one and
  hands out the packet of the last input that has one. A gate behind it, which decides by the
  packet that is announced, decides about the wrong packet.
\<close>

theorem reverse_scheduler_announces_other_packet:
  assumes "ins = (p # ps) # rest @ [q # qs]"
  shows "schedulerCanPull ins = Some p
    \<and> schedulerPull (\<lambda>can s. (prioritySchedule True (-1) can, s)) ins () = Inr (q, (p # ps) # rest @ [qs], ())"
proof -
  let ?n = "length ins"
  have n: "?n = Suc (Suc (length rest))" "ins ! Suc (length rest) = q # qs" "ins[Suc (length rest) := qs] = (p # ps) # rest @ [qs]"
    by (simp_all add: assms nth_append list_update_append)
  have "find (\<lambda>j. let k = getInputGateIndex True (length (nonEmpty ins)) j in int k = -1 \<or> nonEmpty ins ! k) [0..<length (nonEmpty ins)] = Some 0"
    using n(1,2) by (simp add: find_upt_Some Let_def getInputGateIndex_def nonEmpty_def del: upt_Suc)
  then have "callSchedulePacket (length ins) (prioritySchedule True (-1) (nonEmpty ins), ()) = Inr (Suc (length rest), ())"
    using n(1) by (simp add: prioritySchedule_def getInputGateIndex_def nonEmpty_def callSchedulePacket_def nat_add_distrib)
  then have "schedulerPull (\<lambda>can s. (prioritySchedule True (-1) can, s)) ins () = Inr (q, (p # ps) # rest @ [qs], ())"
    using n(2,3) by (simp add: schedulerPull_def)
  then show ?thesis by (simp add: assms)
qed

lemma reverse_scheduler_announces_other_packet_witness:
  "schedulerCanPull [[1 :: nat], [], [2]] = Some 1
    \<and> schedulerPull (\<lambda>can s. (prioritySchedule True (-1) can, s)) [[1 :: nat], [], [2]] () = Inr (2, [[1], [], []], ())"
  using reverse_scheduler_announces_other_packet [of "[[1 :: nat], [], [2]]" 1 "[]" "[[]]" 2 "[]"] by simp

text \<open>
  A query spends the turn: asking a weighted round robin scheduler whether it takes a packet
  from an input uses up a token of the input, so that a packet which it just agreed to take is
  refused with an error when it was the last token of the round.
\<close>

theorem wrr_query_spends_the_turn:
  assumes "length (weights s) = n" "length (buckets s) = n" "g < n" "buckets s ! g = 1" "\<forall>j < g. buckets s ! j = 0"
    and "\<exists>j < n. g < j \<and> 0 < buckets s ! j"
  shows "\<exists>s1. schedulerCanPushSome wrrSchedule (replicate n True) g s = Inr (True, s1)
    \<and> schedulerPush wrrSchedule (replicate n True) g s1 = Inl (RuntimeError ''Scheduled packet from wrong input gate'')"
proof -
  let ?can = "replicate n True" and ?s1 = "s\<lparr>buckets := useBucket g (buckets s)\<rparr>"
  have "firstOf (\<lambda>j. ?can ! j \<and> 0 < buckets s ! j) n = Some g"
    using assms(3-5) by (simp add: firstOf_Some)
  then have s1: "wrrSchedule ?can s = (int g, ?s1)"
    using wrrSchedule_eq [of s ?can] assms(1,2) by simp
  have u: "useBucket g (buckets s) ! j = (if j = g then 0 else buckets s ! j)" if "j < n" for j
    using that assms(2-4) by (simp add: useBucket_def)
  obtain k where k: "k < n" "g < k" "0 < buckets s ! k" using assms(6) by blast
  then have "firstOf (\<lambda>j. ?can ! j \<and> 0 < buckets ?s1 ! j) n \<noteq> None" by (auto simp: firstOf_None u intro!: exI [of _ k])
  then obtain i where i: "firstOf (\<lambda>j. ?can ! j \<and> 0 < buckets ?s1 ! j) n = Some i" by blast
  then have "i < n" "i \<noteq> g" using u by (auto simp: firstOf_Some)
  moreover have "wrrSchedule ?can ?s1 = (int i, ?s1\<lparr>buckets := useBucket i (buckets ?s1)\<rparr>)"
    using wrrSchedule_eq [of ?s1 ?can] assms(1,2) i by (simp add: useBucket_def)
  ultimately show ?thesis
    using s1 assms(3) by (simp add: schedulerCanPushSome_def schedulerPush_def callSchedulePacket_def)
qed

lemma wrr_query_spends_the_turn_witness:
  "\<exists>s1. schedulerCanPushSome wrrSchedule [True, True] 0 \<lparr>weights = [1, 1], buckets = [1, 1]\<rparr> = Inr (True, s1)
    \<and> schedulerPush wrrSchedule [True, True] 0 s1 = Inl (RuntimeError ''Scheduled packet from wrong input gate'')"
proof -
  have "\<exists>j < 2. 0 < j \<and> 0 < [1, 1 :: nat] ! j" by (intro exI [of _ 1]) simp
  then show ?thesis
    using wrr_query_spends_the_turn [of "\<lparr>weights = [1, 1], buckets = [1, 1]\<rparr>" 2 0] by (simp add: numeral_2_eq_2)
qed

section \<open>The scheduler as a collection\<close>

text \<open>
  As a collection a scheduler is the concatenation of its inputs: it has as many packets, its
  packets are numbered through them and the next index is refused, and removing a packet removes
  its first occurrence or fails if there is none.
\<close>

theorem scheduler_is_concatenation:
  "schedulerNumPackets qs = int (length (concat qs))
   \<and> schedulerGetPacket qs (int i) =
         (if i < length (concat qs) then Inr (concat qs ! i) else Inl (RuntimeError ''Index out of range''))
   \<and> (if p \<in> set (concat qs) then \<exists>qs'. schedulerRemovePacket p qs = Inr qs' \<and> concat qs' = remove1 p (concat qs)
      else schedulerRemovePacket p qs = Inl (RuntimeError ''Cannot find packet''))"
proof (intro conjI)
  show "schedulerNumPackets qs = int (length (concat qs))" by (induction qs) (simp_all add: schedulerNumPackets_def)
  have "0 \<le> k \<Longrightarrow> schedulerGetPacket qs k =
      (if k < int (length (concat qs)) then Inr (concat qs ! nat k) else Inl (RuntimeError ''Index out of range''))" for k
  proof (induction qs k rule: schedulerGetPacket.induct)
    case (2 q qs i)
    then show ?case
      by (cases "i < int (length q)") (auto simp: getPacketAt_def nth_append nat_less_iff nat_diff_distrib)
  qed simp
  then show "schedulerGetPacket qs (int i) =
      (if i < length (concat qs) then Inr (concat qs ! i) else Inl (RuntimeError ''Index out of range''))"
    by simp
  show "if p \<in> set (concat qs) then \<exists>qs'. schedulerRemovePacket p qs = Inr qs' \<and> concat qs' = remove1 p (concat qs)
      else schedulerRemovePacket p qs = Inl (RuntimeError ''Cannot find packet'')"
    by (induction qs) (auto simp: remove1_append split: if_splits)
qed

section \<open>Weighted round robin classification\<close>

lemma wrrClassify_eq:
  "wrrClassify can s =
     (case firstOf (\<lambda>i. can ! i \<and> 0 < buckets s ! i) (length can) of
        Some i \<Rightarrow> (int i, s\<lparr>buckets := useBucket i (buckets s)\<rparr>)
      | None \<Rightarrow>
          if \<not> list_ex (\<lambda>c. c) can then (-1, s)
          else (case firstOf (\<lambda>i. 0 < weights s ! i \<and> can ! i) (length can) of
                  Some i \<Rightarrow> (int i, s\<lparr>buckets := useBucket i (weights s)\<rparr>)
                | None \<Rightarrow> (-1, s\<lparr>buckets := weights s\<rparr>)))"
  by (simp only: wrrClassify_def firstOf_def)

text \<open>
  The classifier is work conserving only as far as the weights go: it finds an output exactly
  when one that can take the packet has a weight, while the scheduler falls back to inputs of
  weight zero.
\<close>

theorem wrr_classifier_needs_weight:
  assumes "length (weights s) = length can" "length (buckets s) = length can"
    and "\<And>j. j < length can \<Longrightarrow> buckets s ! j \<le> weights s ! j"
  shows "(fst (wrrClassify can s) = -1 \<longleftrightarrow> (\<forall>j < length can. can ! j \<longrightarrow> weights s ! j = 0))
    \<and> (0 \<le> fst (wrrClassify can s) \<longrightarrow> can ! nat (fst (wrrClassify can s)))"
proof (cases "firstOf (\<lambda>i. can ! i \<and> 0 < buckets s ! i) (length can)")
  case (Some k)
  then have k: "k < length can" "can ! k" "0 < buckets s ! k" by (simp_all add: firstOf_Some)
  have "0 < weights s ! k" using assms(3) [OF k(1)] k(3) by linarith
  moreover have "fst (wrrClassify can s) = int k" using Some by (simp add: wrrClassify_eq)
  ultimately show ?thesis using k by auto
next
  case no_bucket: None
  show ?thesis
  proof (cases "list_ex (\<lambda>c. c) can")
    case False
    then have "\<forall>j < length can. \<not> can ! j" by (metis list_ex_iff nth_mem)
    then show ?thesis using no_bucket False by (simp add: wrrClassify_eq)
  next
    case True
    show ?thesis
    proof (cases "firstOf (\<lambda>i. 0 < weights s ! i \<and> can ! i) (length can)")
      case None
      then have "fst (wrrClassify can s) = -1" using no_bucket True by (simp add: wrrClassify_eq)
      then show ?thesis using None by (auto simp: firstOf_None)
    next
      case (Some k)
      then have "fst (wrrClassify can s) = int k" using no_bucket True by (simp add: wrrClassify_eq)
      then show ?thesis using Some by (auto simp: firstOf_Some)
    qed
  qed
qed

lemma wrr_classifier_needs_weight_witness:
  "fst (wrrClassify [True, False] \<lparr>weights = [0, 1], buckets = [0, 1]\<rparr>) = -1"
proof -
  have "\<And>j. j < length [True, False] \<Longrightarrow> buckets \<lparr>weights = [0, 1], buckets = [0, 1]\<rparr> ! j \<le> weights \<lparr>weights = [0, 1], buckets = [0, 1]\<rparr> ! j"
    by simp
  from wrr_classifier_needs_weight [OF _ _ this] show ?thesis by (auto simp: less_Suc_eq_0_disj)
qed

end
