(* ===== verification/TokenBuckets.thy ===== *)
theory TokenBuckets
  imports CreditGates PacketQueues
begin

text \<open>
  Token buckets (\<open>inet/queueing/common/TokenBucket.cc\<close>), alone and in a chain where the tokens that
  do not fit into a bucket go to the next one, and what uses them: \<open>TokenBucketMeter\<close>,
  \<open>MultiTokenBucketMeter\<close>, \<open>TokenBucketClassifier\<close> with their mixins, and \<open>TokenBasedServer\<close>.

  Doubles are reals. A chain is a list of buckets: the excess storage of a bucket is the rest of
  the list, and the last one has none.
\<close>

section \<open>Buckets\<close>

record bucket =
  numTokens :: real
  maxNumTokens :: real
  tokenProductionRate :: real
  excessTokenProductionRate :: real
  lastUpdate :: simtime

definition setProduction :: "real \<Rightarrow> real \<Rightarrow> bucket \<Rightarrow> bucket" where
  "setProduction r e b = b\<lparr>tokenProductionRate := r, excessTokenProductionRate := e\<rparr>"

fun addTokenProductionRate :: "real \<Rightarrow> bucket list \<Rightarrow> bucket list result" where
  "addTokenProductionRate r [] = Inr []"
| "addTokenProductionRate r (b # bs) =
     rbind (ensure (0 \<le> r)) (\<lambda>_.
       if 0 < r
       then rbind (if numTokens b = maxNumTokens b \<and> bs \<noteq> []
                   then rbind (ensure (tokenProductionRate b = excessTokenProductionRate b)) (\<lambda>_.
                     rbind (addTokenProductionRate r bs) (\<lambda>bs'. Inr (excessTokenProductionRate b + r, bs')))
                   else Inr (excessTokenProductionRate b, bs)) (\<lambda>(e, bs').
            rbind (ensure (0 \<le> tokenProductionRate b + r)) (\<lambda>_. Inr (setProduction (tokenProductionRate b + r) e b # bs')))
       else Inr (b # bs))"

fun removeTokenProductionRate :: "real \<Rightarrow> bucket list \<Rightarrow> bucket list result" where
  "removeTokenProductionRate r [] = Inr []"
| "removeTokenProductionRate r (b # bs) =
     rbind (ensure (0 \<le> r)) (\<lambda>_.
       if 0 < r
       then rbind (if numTokens b = maxNumTokens b \<and> bs \<noteq> []
                   then rbind (ensure (tokenProductionRate b = excessTokenProductionRate b)) (\<lambda>_.
                     rbind (removeTokenProductionRate r bs) (\<lambda>bs'. Inr (excessTokenProductionRate b - r, bs')))
                   else Inr (excessTokenProductionRate b, bs)) (\<lambda>(e, bs').
            rbind (ensure (0 \<le> tokenProductionRate b - r)) (\<lambda>_. Inr (setProduction (tokenProductionRate b - r) e b # bs')))
       else Inr (b # bs))"

fun addTokens :: "real \<Rightarrow> bucket list \<Rightarrow> bucket list result" where
  "addTokens a [] = Inr []"
| "addTokens a (b # bs) =
     rbind (ensure (0 \<le> a)) (\<lambda>_.
       if 0 < a
       then (let n = numTokens b + a in
             if 0 < maxNumTokens b \<and> maxNumTokens b \<le> n
             then rbind (if bs \<noteq> []
                         then rbind (addTokens (n - maxNumTokens b) bs) (\<lambda>bs1.
                              rbind (addTokenProductionRate (tokenProductionRate b - excessTokenProductionRate b) bs1) (\<lambda>bs2.
                                Inr (tokenProductionRate b, bs2)))
                         else Inr (excessTokenProductionRate b, bs)) (\<lambda>(e, bs').
                    Inr (b\<lparr>numTokens := maxNumTokens b, excessTokenProductionRate := e\<rparr> # bs'))
             else Inr (b\<lparr>numTokens := n\<rparr> # bs))
       else Inr (b # bs))"

fun removeTokens :: "real \<Rightarrow> bucket list \<Rightarrow> bucket list result" where
  "removeTokens a [] = Inr []"
| "removeTokens a (b # bs) =
     rbind (ensure (0 \<le> a)) (\<lambda>_.
       if 0 < a
       then rbind (if numTokens b = maxNumTokens b \<and> bs \<noteq> []
                   then rbind (ensure (tokenProductionRate b = excessTokenProductionRate b)) (\<lambda>_.
                     rbind (removeTokenProductionRate (excessTokenProductionRate b) bs) (\<lambda>bs'. Inr (0, bs')))
                   else Inr (excessTokenProductionRate b, bs)) (\<lambda>(e, bs').
            if numTokens b < a then Inl (RuntimeError ''Insufficient number of tokens'')
            else Inr (b\<lparr>numTokens := numTokens b - a, excessTokenProductionRate := e\<rparr> # bs'))
       else Inr (b # bs))"

definition updateNumTokens :: "simtime \<Rightarrow> bucket list \<Rightarrow> bucket list result" where
  "updateNumTokens now bs =
     (case bs of
        [] \<Rightarrow> Inr []
      | b # _ \<Rightarrow>
          rbind (addTokens (tokenProductionRate b * dbl (now - lastUpdate b)) bs) (\<lambda>bs'.
            Inr (case bs' of [] \<Rightarrow> [] | b' # rest \<Rightarrow> b'\<lparr>lastUpdate := now\<rparr> # rest)))"

definition getNumTokens :: "simtime \<Rightarrow> bucket list \<Rightarrow> (real \<times> bucket list) result" where
  "getNumTokens now bs =
     rbind (updateNumTokens now bs) (\<lambda>bs'. case bs' of [] \<Rightarrow> Inl NullPointer | b # _ \<Rightarrow> Inr (numTokens b, bs'))"

definition newBucket :: "real \<Rightarrow> real \<Rightarrow> real \<Rightarrow> bucket list \<Rightarrow> bucket list result" where
  "newBucket n m r excess =
     addTokens n (\<lparr>numTokens = 0, maxNumTokens = m, tokenProductionRate = r, excessTokenProductionRate = 0, lastUpdate = 0\<rparr> # excess)"

definition getOverflowTime :: "(real \<Rightarrow> simtime) \<Rightarrow> simtime \<Rightarrow> bucket list \<Rightarrow> (simtime \<times> bucket list) result" where
  "getOverflowTime toTime now bs =
     rbind (getNumTokens now bs) (\<lambda>(n, bs').
       let b = hd bs' in
       Inr (if 0 < maxNumTokens b \<and> maxNumTokens b \<noteq> n
            then now + toTime ((maxNumTokens b - n) / tokenProductionRate b) + 1 else -1, bs'))"

section \<open>Labels\<close>

definition indexOf :: "string \<Rightarrow> string list \<Rightarrow> nat" where
  "indexOf l ls = length (takeWhile (\<lambda>x. x \<noteq> l) ls)"

text \<open>
  The loop over the labels of a packet from index \<open>i\<close>; after an erased label it goes on with the
  next index. \<open>None\<close> is the early return.
\<close>

function labelLoop :: "string list \<Rightarrow> nat \<Rightarrow> nat \<Rightarrow> string list \<Rightarrow> string list option" where
  "labelLoop prio new i ls =
     (if i < length ls
      then (let k = indexOf (ls ! i) prio in
            if k < length prio
            then (if k < new then labelLoop prio new (Suc i) (take i ls @ drop (Suc i) ls) else None)
            else labelLoop prio new (Suc i) ls)
      else Some ls)"
  by pat_completeness auto

termination labelLoop
  by (relation "measure (\<lambda>(_, _, i, ls). length ls - i)") auto

declare labelLoop.simps [simp del]

definition labelPacket :: "string list \<Rightarrow> string \<Rightarrow> string list \<Rightarrow> string list" where
  "labelPacket prio label labels =
     (if prio = [] then labels @ [label]
      else (case labelLoop prio (indexOf label prio) 0 labels of None \<Rightarrow> labels | Some ls \<Rightarrow> ls @ [label]))"

section \<open>Meters\<close>

record token_params =
  tokenConsumptionPerPacket :: real
  tokenConsumptionPerBit :: real
  defaultLabel :: "string option"
  labelPriority :: "string list"

definition getNumPacketTokens :: "token_params \<Rightarrow> nat \<Rightarrow> real" where
  "getNumPacketTokens par bits = real bits * tokenConsumptionPerBit par + tokenConsumptionPerPacket par"

text \<open>The labels after metering, and whether the packet got the label of the meter.\<close>

definition meterPacket :: "token_params \<Rightarrow> string \<Rightarrow> simtime \<Rightarrow> nat \<Rightarrow> bucket list \<Rightarrow> string list \<Rightarrow> (bool \<times> bucket list \<times> string list) result" where
  "meterPacket par label now bits bs labels =
     (let n = getNumPacketTokens par bits in
      rbind (getNumTokens now bs) (\<lambda>(k, bs1).
        if n \<le> k
        then rbind (removeTokens n bs1) (\<lambda>bs2. Inr (True, bs2, labelPacket (labelPriority par) label labels))
        else Inr (False, bs1, case defaultLabel par of None \<Rightarrow> labels | Some l \<Rightarrow> labelPacket (labelPriority par) l labels)))"

text \<open>Bucket \<open>i\<close> of a chain is the head of its rest from \<open>i\<close> on.\<close>

fun multiMeterLoop :: "real \<Rightarrow> simtime \<Rightarrow> string list \<Rightarrow> bucket list \<Rightarrow> (string option \<times> bucket list) result" where
  "multiMeterLoop n now (l # ls) (b # bs) =
     rbind (getNumTokens now (b # bs)) (\<lambda>(k, bs1).
       if n \<le> k then rbind (removeTokens n bs1) (\<lambda>bs2. Inr (Some l, bs2))
       else (case bs1 of
               [] \<Rightarrow> Inl NullPointer
             | b' # rest \<Rightarrow> rbind (multiMeterLoop n now ls rest) (\<lambda>(r, rest'). Inr (r, b' # rest'))))"
| "multiMeterLoop n now _ bs = Inr (None, bs)"

text \<open>Emitting the numbers of tokens brings all buckets up to date, twice: for the sum and for each of them.\<close>

fun updateLoop :: "nat \<Rightarrow> simtime \<Rightarrow> bucket list \<Rightarrow> bucket list result" where
  "updateLoop 0 now bs = Inr bs"
| "updateLoop (Suc n) now bs =
     rbind (updateNumTokens now bs) (\<lambda>bs'. case bs' of
        [] \<Rightarrow> Inr []
      | b # rest \<Rightarrow> rbind (updateLoop n now rest) (\<lambda>rest'. Inr (b # rest')))"

definition emitTokensChangedSignals :: "simtime \<Rightarrow> bucket list \<Rightarrow> bucket list result" where
  "emitTokensChangedSignals now bs = rbind (updateLoop (length bs) now bs) (updateLoop (length bs) now)"

definition multiMeterPacket ::
    "token_params \<Rightarrow> string list \<Rightarrow> simtime \<Rightarrow> nat \<Rightarrow> bucket list \<Rightarrow> string list \<Rightarrow> (bucket list \<times> string list) result" where
  "multiMeterPacket par bucketLabels now bits bs labels =
     rbind (emitTokensChangedSignals now bs) (\<lambda>bs0.
     rbind (multiMeterLoop (getNumPacketTokens par bits) now bucketLabels bs0) (\<lambda>(r, bs1).
       case r of
         Some l \<Rightarrow> rbind (emitTokensChangedSignals now bs1) (\<lambda>bs2. Inr (bs2, labels @ [l]))
       | None \<Rightarrow> Inr (bs1, case defaultLabel par of None \<Rightarrow> labels | Some l \<Rightarrow> labels @ [l])))"

section \<open>Classifier\<close>

definition tokenClassify :: "token_params \<Rightarrow> simtime \<Rightarrow> nat \<Rightarrow> bucket list \<Rightarrow> (int \<times> bucket list) result" where
  "tokenClassify par now bits bs =
     (let n = getNumPacketTokens par bits in
      rbind (getNumTokens now bs) (\<lambda>(k, bs1).
        if n < k then rbind (removeTokens n bs1) (\<lambda>bs2. Inr (0, bs2)) else Inr (1, bs1)))"

section \<open>Server\<close>

text \<open>\<open>maxTokens\<close> is absent for not-a-number.\<close>

record token_server =
  serverTokens :: real
  maxTokens :: "real option"
  depletedSignaled :: bool

definition required :: "token_params \<Rightarrow> nat \<Rightarrow> int" where
  "required par bits =
     (let x = tokenConsumptionPerPacket par + tokenConsumptionPerBit par * real bits in if 0 \<le> x then \<lfloor>x\<rfloor> else \<lceil>x\<rceil>)"

text \<open>The packets that wait, by their lengths; the second component are the lengths that were served.\<close>

fun processPackets :: "token_params \<Rightarrow> nat list \<Rightarrow> token_server \<Rightarrow> token_server \<times> nat list \<times> nat list" where
  "processPackets par [] s = (s, [], [])"
| "processPackets par (l # ls) s =
     (if real_of_int (required par l) \<le> serverTokens s
      then (let (s', waiting, served) = processPackets par ls (s\<lparr>serverTokens := serverTokens s - real_of_int (required par l)\<rparr>)
            in (s', waiting, l # served))
      else (s\<lparr>depletedSignaled := True\<rparr>, l # ls, []))"

definition serverAddTokens :: "token_params \<Rightarrow> real \<Rightarrow> nat list \<Rightarrow> token_server \<Rightarrow> token_server \<times> nat list \<times> nat list" where
  "serverAddTokens par t ls s =
     (let n = serverTokens s + t;
          m = (case maxTokens s of None \<Rightarrow> n | Some mx \<Rightarrow> if mx \<le> n then mx else n)
      in processPackets par ls (s\<lparr>serverTokens := m, depletedSignaled := False\<rparr>))"
section \<open>A bucket limits what passes\<close>

fun meterRun :: "token_params \<Rightarrow> string \<Rightarrow> (simtime \<times> nat) list \<Rightarrow> bucket list \<Rightarrow> bool list result" where
  "meterRun par label [] bs = Inr []"
| "meterRun par label ((t, bits) # evs) bs =
     rbind (meterPacket par label t bits bs []) (\<lambda>(ok, bs', _). rbind (meterRun par label evs bs') (\<lambda>oks. Inr (ok # oks)))"

definition passedTokens :: "token_params \<Rightarrow> (simtime \<times> nat) list \<Rightarrow> bool list \<Rightarrow> real" where
  "passedTokens par evs oks = sum_list (map (\<lambda>((t, bits), ok). if ok then getNumPacketTokens par bits else 0) (zip evs oks))"

definition bucket_ok :: "bucket \<Rightarrow> bool" where
  "bucket_ok b \<longleftrightarrow> 0 \<le> numTokens b \<and> 0 \<le> tokenProductionRate b \<and> (0 < maxNumTokens b \<longrightarrow> numTokens b \<le> maxNumTokens b)"

lemma dbl_nonneg: "0 \<le> t \<Longrightarrow> 0 \<le> dbl t"
  by (simp add: dbl_def)

lemma dbl_minus: "dbl (a - b) = dbl a - dbl b"
  by (simp add: dbl_def diff_divide_distrib)

lemma getNumTokens_single:
  assumes "bucket_ok b" "lastUpdate b \<le> t"
  shows "\<exists>b'. getNumTokens t [b] = Inr (numTokens b', [b']) \<and> bucket_ok b' \<and> lastUpdate b' = t
    \<and> tokenProductionRate b' = tokenProductionRate b \<and> maxNumTokens b' = maxNumTokens b
    \<and> numTokens b' \<le> numTokens b + tokenProductionRate b * dbl (t - lastUpdate b)
    \<and> (\<not> 0 < maxNumTokens b \<longrightarrow> numTokens b' = numTokens b + tokenProductionRate b * dbl (t - lastUpdate b))"
proof -
  define a where "a = tokenProductionRate b * dbl (t - lastUpdate b)"
  have "0 \<le> a" using assms dbl_nonneg [of "t - lastUpdate b"] by (simp add: a_def bucket_ok_def)
  then show ?thesis
    using assms by (auto simp: getNumTokens_def updateNumTokens_def bucket_ok_def Let_def simp flip: a_def)
qed

lemma meterPacket_single:
  assumes "bucket_ok b" "lastUpdate b \<le> t" "0 \<le> getNumPacketTokens par bits"
  shows "\<exists>ok b' ls. meterPacket par label t bits [b] labels = Inr (ok, [b'], ls) \<and> bucket_ok b' \<and> lastUpdate b' = t
    \<and> tokenProductionRate b' = tokenProductionRate b \<and> maxNumTokens b' = maxNumTokens b
    \<and> numTokens b' + (if ok then getNumPacketTokens par bits else 0) \<le> numTokens b + tokenProductionRate b * dbl (t - lastUpdate b)
    \<and> (0 < maxNumTokens b \<longrightarrow> numTokens b' + (if ok then getNumPacketTokens par bits else 0) \<le> maxNumTokens b)"
proof -
  obtain b1 where b1: "getNumTokens t [b] = Inr (numTokens b1, [b1])" "bucket_ok b1" "lastUpdate b1 = t"
    "tokenProductionRate b1 = tokenProductionRate b" "maxNumTokens b1 = maxNumTokens b"
    "numTokens b1 \<le> numTokens b + tokenProductionRate b * dbl (t - lastUpdate b)"
    using getNumTokens_single [OF assms(1,2)] by blast
  show ?thesis
  proof (cases "getNumPacketTokens par bits \<le> numTokens b1")
    case True
    define b2 where "b2 = (if 0 < getNumPacketTokens par bits then b1\<lparr>numTokens := numTokens b1 - getNumPacketTokens par bits\<rparr> else b1)"
    have rem: "removeTokens (getNumPacketTokens par bits) [b1] = Inr [b2]"
      using True assms(3) by (auto simp: b2_def)
    have "meterPacket par label t bits [b] labels = Inr (True, [b2], labelPacket (labelPriority par) label labels)"
      using True by (simp add: meterPacket_def Let_def b1(1) rem del: removeTokens.simps)
    moreover have "numTokens b2 = numTokens b1 - getNumPacketTokens par bits" using assms(3) by (simp add: b2_def)
    moreover have "bucket_ok b2" "lastUpdate b2 = t" "tokenProductionRate b2 = tokenProductionRate b" "maxNumTokens b2 = maxNumTokens b"
      using b1 True assms(3) by (auto simp: b2_def bucket_ok_def)
    ultimately show ?thesis
      using b1 by (intro exI [of _ True] exI [of _ b2] exI [of _ "labelPacket (labelPriority par) label labels"])
        (simp add: bucket_ok_def)
  next
    case False
    then show ?thesis using b1 by (auto simp: meterPacket_def Let_def bucket_ok_def)
  qed
qed

definition times_from :: "simtime \<Rightarrow> (simtime \<times> nat) list \<Rightarrow> bool" where
  "times_from t evs \<longleftrightarrow> sorted (map fst evs) \<and> (\<forall>e \<in> set evs. t \<le> fst e)"

lemma meterRun_bound:
  assumes "bucket_ok b" "times_from (lastUpdate b) evs" "\<And>bits. 0 \<le> getNumPacketTokens par bits" "\<And>e. e \<in> set evs \<Longrightarrow> fst e \<le> T"
    and "lastUpdate b \<le> T"
  shows "\<exists>oks. meterRun par label evs [b] = Inr oks \<and> length oks = length evs
    \<and> passedTokens par evs oks \<le> numTokens b + tokenProductionRate b * dbl (T - lastUpdate b)"
  using assms
proof (induction evs arbitrary: b)
  case Nil
  have "0 \<le> tokenProductionRate b * dbl (T - lastUpdate b)"
    using Nil.prems dbl_nonneg by (simp add: bucket_ok_def)
  then show ?case using Nil.prems(1) by (simp add: passedTokens_def bucket_ok_def)
next
  case (Cons e evs)
  obtain t bits where e: "e = (t, bits)" by (cases e)
  have t: "lastUpdate b \<le> t" "t \<le> T" using Cons.prems(2) Cons.prems(4) [of e] by (auto simp: times_from_def e)
  obtain ok b' ls where step: "meterPacket par label t bits [b] [] = Inr (ok, [b'], ls)" "bucket_ok b'" "lastUpdate b' = t"
    "tokenProductionRate b' = tokenProductionRate b"
    "numTokens b' + (if ok then getNumPacketTokens par bits else 0) \<le> numTokens b + tokenProductionRate b * dbl (t - lastUpdate b)"
    using meterPacket_single [OF Cons.prems(1) t(1) Cons.prems(3)] by metis
  have "times_from (lastUpdate b') evs" using Cons.prems(2) step(3) by (auto simp: times_from_def e)
  moreover have "lastUpdate b' \<le> T" using t step(3) by simp
  ultimately obtain oks where oks: "meterRun par label evs [b'] = Inr oks" "length oks = length evs"
    "passedTokens par evs oks \<le> numTokens b' + tokenProductionRate b' * dbl (T - lastUpdate b')"
    using Cons.IH [OF step(2)] Cons.prems(3,4) by fastforce
  have "tokenProductionRate b * dbl (t - lastUpdate b) + tokenProductionRate b * dbl (T - t)
      = tokenProductionRate b * dbl (T - lastUpdate b)"
    by (simp add: dbl_minus algebra_simps)
  then show ?case using step oks by (simp add: e passedTokens_def)
qed

text \<open>
  A token bucket limits its traffic: from any moment on, the tokens of the packets that get
  the label of the meter never exceed the tokens that were there plus what was produced since, so
  at most the size of the bucket plus the rate times the time; and no packet is refused with an
  error.
\<close>

theorem token_bucket_conforms:
  assumes "bucket_ok b" "times_from (lastUpdate b) evs" "\<And>bits. 0 \<le> getNumPacketTokens par bits"
    and "\<And>e. e \<in> set evs \<Longrightarrow> fst e \<le> T" "lastUpdate b \<le> T"
  shows "\<exists>oks. meterRun par label evs [b] = Inr oks \<and> length oks = length evs
    \<and> passedTokens par evs oks \<le> numTokens b + tokenProductionRate b * dbl (T - lastUpdate b)
    \<and> (0 < maxNumTokens b \<longrightarrow> passedTokens par evs oks \<le> maxNumTokens b + tokenProductionRate b * dbl (T - lastUpdate b))"
proof -
  obtain oks where "meterRun par label evs [b] = Inr oks" "length oks = length evs"
    "passedTokens par evs oks \<le> numTokens b + tokenProductionRate b * dbl (T - lastUpdate b)"
    using meterRun_bound [OF assms(1-3), of T label] assms(4,5) by blast
  moreover have "0 < maxNumTokens b \<longrightarrow> numTokens b \<le> maxNumTokens b" using assms(1) by (simp add: bucket_ok_def)
  ultimately show ?thesis by fastforce
qed

definition bucket_demo :: bucket where
  "bucket_demo = \<lparr>numTokens = 2, maxNumTokens = 2, tokenProductionRate = 1, excessTokenProductionRate = 0, lastUpdate = 0\<rparr>"

definition token_params_demo :: token_params where
  "token_params_demo = \<lparr>tokenConsumptionPerPacket = 1, tokenConsumptionPerBit = 0, defaultLabel = None, labelPriority = []\<rparr>"

lemma token_bucket_conforms_witness:
  "\<exists>oks. meterRun token_params_demo ''green'' (replicate 5 (1000000000000, 8)) [bucket_demo] = Inr oks
    \<and> passedTokens token_params_demo (replicate 5 (1000000000000, 8)) oks \<le> 3"
proof -
  have b: "bucket_ok bucket_demo" "times_from (lastUpdate bucket_demo) (replicate 5 (1000000000000, 8))"
    "lastUpdate bucket_demo \<le> 1000000000000"
    by (auto simp: bucket_ok_def bucket_demo_def times_from_def)
  have p: "0 \<le> getNumPacketTokens token_params_demo bits" for bits by (simp add: getNumPacketTokens_def token_params_demo_def)
  have l: "fst e \<le> 1000000000000" if "e \<in> set (replicate 5 (1000000000000, 8))" for e :: "simtime \<times> nat" using that by simp
  from token_bucket_conforms [OF b(1,2) p l b(3), of "''green''"]
  show ?thesis by (auto simp: bucket_demo_def dbl_def)
qed
section \<open>Chains of buckets\<close>

text \<open>
  The tokens that do not fit are produced twice: when a bucket is full, its production rate is
  handed on to the next bucket, which produces with it, and the tokens it produces itself
  overflow into the next bucket as well. In a time \<open>d\<close> in which the first bucket stays full the
  second one gains its own production and twice that of the first.
\<close>

theorem excess_is_produced_twice:
  assumes "numTokens b = maxNumTokens b" "0 < maxNumTokens b" "excessTokenProductionRate b = tokenProductionRate b"
    and "0 < tokenProductionRate b" "tokenProductionRate e = own + excessTokenProductionRate b" "0 \<le> own"
    and "maxNumTokens e < 0" "0 \<le> numTokens e" "lastUpdate b = t" "lastUpdate e = t" "t < t'"
  shows "\<exists>b' e'. updateLoop 2 t' [b, e] = Inr [b', e'] \<and> numTokens b' = numTokens b
    \<and> numTokens e' = numTokens e + own * dbl (t' - t) + 2 * (tokenProductionRate b * dbl (t' - t))"
proof -
  define a where "a = tokenProductionRate b * dbl (t' - t)"
  have d: "0 < dbl (t' - t)" using assms(11) by (simp add: dbl_def)
  then have a: "0 < a" using assms(4) by (simp add: a_def)
  define c where "c = tokenProductionRate e * dbl (t' - t)"
  have c1: "c = own * dbl (t' - t) + a" using assms(3,5) by (simp add: c_def a_def algebra_simps)
  moreover have "0 \<le> own * dbl (t' - t)" using d assms(6) by simp
  ultimately have c: "c = own * dbl (t' - t) + a" "0 < c" using a by linarith+
  let ?b' = "b\<lparr>lastUpdate := t'\<rparr>" and ?e1 = "e\<lparr>numTokens := numTokens e + a\<rparr>"
  have "addTokens a [b, e] = Inr [b, ?e1]"
    using a assms(1-3,7) by simp
  then have u1: "updateNumTokens t' [b, e] = Inr [?b', ?e1]"
    using assms(9) by (simp add: updateNumTokens_def a_def del: addTokens.simps)
  have "addTokens c [?e1] = Inr [?e1\<lparr>numTokens := numTokens e + a + c\<rparr>]" using c(2) assms(7) by simp
  then have u2: "updateNumTokens t' [?e1] = Inr [?e1\<lparr>numTokens := numTokens e + a + c, lastUpdate := t'\<rparr>]"
    using assms(10) by (simp add: updateNumTokens_def c_def del: addTokens.simps)
  have "updateLoop 2 t' [b, e] = Inr [?b', ?e1\<lparr>numTokens := numTokens e + a + c, lastUpdate := t'\<rparr>]"
    by (simp add: numeral_2_eq_2 u1 u2)
  then show ?thesis using c(1) by (simp add: a_def)
qed

lemma excess_is_produced_twice_witness:
  "\<exists>b' e'. updateLoop 2 1000000000000
      [\<lparr>numTokens = 2, maxNumTokens = 2, tokenProductionRate = 3, excessTokenProductionRate = 3, lastUpdate = 0\<rparr>,
       \<lparr>numTokens = 0, maxNumTokens = -1, tokenProductionRate = 3, excessTokenProductionRate = 0, lastUpdate = 0\<rparr>] = Inr [b', e']
    \<and> numTokens e' = 6"
  using excess_is_produced_twice [of "\<lparr>numTokens = 2, maxNumTokens = 2, tokenProductionRate = 3, excessTokenProductionRate = 3, lastUpdate = 0\<rparr>"
      "\<lparr>numTokens = 0, maxNumTokens = -1, tokenProductionRate = 3, excessTokenProductionRate = 0, lastUpdate = 0\<rparr>" 0 0 1000000000000]
  by (auto simp: dbl_def)

text \<open>
  A change of the rate works backwards: the tokens since the last update are computed with the
  new rate, whenever in that time the rate was changed.
\<close>

theorem rate_change_is_retroactive:
  assumes "0 < r" "0 \<le> tokenProductionRate b" "maxNumTokens b < 0" "0 \<le> numTokens b" "lastUpdate b \<le> t"
  shows "\<exists>bs. rbind (addTokenProductionRate r [b]) (getNumTokens t)
    = Inr (numTokens b + (tokenProductionRate b + r) * dbl (t - lastUpdate b), bs)"
proof -
  define b1 where "b1 = setProduction (tokenProductionRate b + r) (excessTokenProductionRate b) b"
  have "addTokenProductionRate r [b] = Inr [b1]" using assms by (simp add: b1_def)
  moreover have "bucket_ok b1" "lastUpdate b1 \<le> t" "\<not> 0 < maxNumTokens b1"
    using assms by (simp_all add: b1_def setProduction_def bucket_ok_def)
  then obtain b2 where "getNumTokens t [b1] = Inr (numTokens b2, [b2])"
    "numTokens b2 = numTokens b1 + tokenProductionRate b1 * dbl (t - lastUpdate b1)"
    using getNumTokens_single [of b1 t] by blast
  ultimately show ?thesis by (simp add: b1_def setProduction_def del: addTokenProductionRate.simps)
qed

lemma rate_change_is_retroactive_witness:
  "\<exists>bs. rbind (addTokenProductionRate 5 [\<lparr>numTokens = 0, maxNumTokens = -1, tokenProductionRate = 0, excessTokenProductionRate = 0, lastUpdate = 0\<rparr>])
     (getNumTokens 1000000000000) = Inr (5, bs)"
  using rate_change_is_retroactive [of 5 "\<lparr>numTokens = 0, maxNumTokens = -1, tokenProductionRate = 0, excessTokenProductionRate = 0, lastUpdate = 0\<rparr>"
      1000000000000] by (simp add: dbl_def del: addTokenProductionRate.simps)

text \<open>
  A packet that needs exactly the tokens of the bucket passes the meter and is rejected by the
  classifier.
\<close>

theorem classifier_is_stricter_than_meter:
  assumes "getNumTokens now bs = Inr (getNumPacketTokens par bits, bs1)"
  shows "tokenClassify par now bits bs = Inr (1, bs1)
    \<and> meterPacket par label now bits bs labels =
        rbind (removeTokens (getNumPacketTokens par bits) bs1) (\<lambda>bs2. Inr (True, bs2, labelPacket (labelPriority par) label labels))"
  using assms by (simp add: tokenClassify_def meterPacket_def)

lemma classifier_is_stricter_than_meter_witness:
  "\<exists>bs1. tokenClassify (token_params_demo\<lparr>tokenConsumptionPerPacket := 2\<rparr>) 0 8 [bucket_demo] = Inr (1, bs1)"
proof -
  have "getNumTokens 0 [bucket_demo] = Inr (getNumPacketTokens (token_params_demo\<lparr>tokenConsumptionPerPacket := 2\<rparr>) 8, [bucket_demo])"
    by (simp add: getNumTokens_def updateNumTokens_def bucket_demo_def dbl_def getNumPacketTokens_def token_params_demo_def)
  from classifier_is_stricter_than_meter [OF this, of "''green''" "[]"] show ?thesis by blast
qed

section \<open>The most important label\<close>

lemma indexOf_less: "indexOf l ls < length ls \<longleftrightarrow> l \<in> set ls"
  by (induction ls) (auto simp: indexOf_def)

lemma labelLoop_other:
  "\<forall>l \<in> set (drop i ls). l \<notin> set prio \<Longrightarrow> labelLoop prio k i ls = Some ls"
proof (induction prio k i ls rule: labelLoop.induct)
  case (1 prio k i ls)
  show ?case
  proof (cases "i < length ls")
    case True
    then have "\<not> indexOf (ls ! i) prio < length prio"
      using 1(3) by (simp add: indexOf_less) (metis Cons_nth_drop_Suc list.set_intros(1))
    moreover have "\<forall>l \<in> set (drop (Suc i) ls). l \<notin> set prio"
      using 1(3) True by (metis Cons_nth_drop_Suc list.set_intros(2))
    ultimately show ?thesis using 1(2) True by (simp add: labelLoop.simps [of prio k i])
  qed (simp add: labelLoop.simps [of prio k i])
qed

lemma labelLoop_skip:
  "i \<le> n \<Longrightarrow> n < length ls \<Longrightarrow> \<forall>j. i \<le> j \<and> j < n \<longrightarrow> ls ! j \<notin> set prio \<Longrightarrow> labelLoop prio k i ls = labelLoop prio k n ls"
proof (induction "n - i" arbitrary: i)
  case (Suc d)
  then have "labelLoop prio k (Suc i) ls = labelLoop prio k n ls" by simp
  moreover have "\<not> indexOf (ls ! i) prio < length prio" using Suc by (simp add: indexOf_less)
  ultimately show ?case using Suc by (simp add: labelLoop.simps [of prio k i])
qed simp

text \<open>
  With a list of label priorities a packet that has one label of the list keeps one: the label
  that comes later in the list, the old one if both are the same; other labels stay.
\<close>

theorem label_of_higher_priority_wins:
  assumes "labels = xs @ old # ys" "old \<in> set prio" "new \<in> set prio" "\<forall>l \<in> set xs \<union> set ys. l \<notin> set prio"
  shows "labelPacket prio new labels = (if indexOf old prio < indexOf new prio then xs @ ys @ [new] else labels)"
proof -
  let ?n = "length xs"
  have n: "?n < length labels" "labels ! ?n = old" by (simp_all add: assms(1))
  have "\<forall>j. 0 \<le> j \<and> j < ?n \<longrightarrow> labels ! j \<notin> set prio"
    using assms(1,4) by (auto simp: nth_append)
  then have s: "labelLoop prio (indexOf new prio) 0 labels = labelLoop prio (indexOf new prio) ?n labels"
    using labelLoop_skip [of 0 ?n labels prio "indexOf new prio"] n(1) by simp
  have "prio \<noteq> []" using assms(2) by auto
  show ?thesis
  proof (cases "indexOf old prio < indexOf new prio")
    case True
    have "labelLoop prio (indexOf new prio) ?n labels = labelLoop prio (indexOf new prio) (Suc ?n) (xs @ ys)"
      using True n assms(2) by (simp add: labelLoop.simps [of prio _ ?n] indexOf_less Let_def) (simp add: assms(1))
    also have "\<dots> = Some (xs @ ys)"
      using assms(4) by (intro labelLoop_other) (auto dest: in_set_dropD)
    finally show ?thesis using s True \<open>prio \<noteq> []\<close> by (simp add: labelPacket_def)
  next
    case False
    then have "labelLoop prio (indexOf new prio) ?n labels = None"
      using n assms(2) by (simp add: labelLoop.simps [of prio _ ?n] indexOf_less Let_def)
    then show ?thesis using s False \<open>prio \<noteq> []\<close> by (simp add: labelPacket_def)
  qed
qed

lemma label_of_higher_priority_wins_witness:
  "labelPacket [''red'', ''yellow'', ''green''] ''green'' [''x'', ''red''] = [''x'', ''green'']"
  using label_of_higher_priority_wins [of "[''x'', ''red'']" "[''x'']" "''red''" "[]" "[''red'', ''yellow'', ''green'']" "''green''"]
  by (simp add: indexOf_def)

text \<open>
  Of two labels of lower priority only the first is taken away: after it is erased the loop
  goes on past the label that has moved to its place.
\<close>

theorem second_label_is_skipped:
  assumes "indexOf a prio < indexOf new prio" "a \<in> set prio"
  shows "labelPacket prio new [a, b] = [b, new]"
  using assms by (auto simp: labelPacket_def labelLoop.simps indexOf_less Let_def)

lemma second_label_is_skipped_witness:
  "labelPacket [''red'', ''yellow'', ''green''] ''green'' [''red'', ''yellow''] = [''yellow'', ''green'']"
  using second_label_is_skipped [of "''red''" "[''red'', ''yellow'', ''green'']" "''green''" "''yellow''"] by (simp add: indexOf_def)

section \<open>The server\<close>

text \<open>
  The server serves packets in their order as long as the tokens last: what it has served and
  what waits are the packets there were, the tokens are what they were less the requirements of
  what was served, and it stops only at a packet that needs more than is left.
\<close>

theorem server_spends_tokens:
  "case processPackets par ls s of (s', waiting, served) \<Rightarrow>
     ls = served @ waiting
     \<and> serverTokens s' = serverTokens s - real_of_int (sum_list (map (required par) served))
     \<and> (case waiting of [] \<Rightarrow> depletedSignaled s' = depletedSignaled s
        | l # _ \<Rightarrow> serverTokens s' < real_of_int (required par l) \<and> depletedSignaled s')"
  by (induction par ls s rule: processPackets.induct) (auto split: prod.splits list.splits)

text \<open>
  The number of required tokens is truncated to an integer: packets that cost less than one
  token are free, and any number of them passes a server without tokens.
\<close>

theorem cheap_packets_are_free:
  assumes "\<forall>l \<in> set ls. 0 \<le> tokenConsumptionPerPacket par + tokenConsumptionPerBit par * real l
      \<and> tokenConsumptionPerPacket par + tokenConsumptionPerBit par * real l < 1"
    and "0 \<le> serverTokens s"
  shows "processPackets par ls s = (s, [], ls)"
  using assms
proof (induction ls arbitrary: s)
  case (Cons l ls)
  have "required par l = 0" using Cons.prems(1) by (simp add: required_def Let_def floor_eq_iff)
  then show ?case using Cons by simp
qed simp

lemma cheap_packets_are_free_witness:
  "\<exists>s. serverTokens s = 0 \<and> processPackets (token_params_demo\<lparr>tokenConsumptionPerPacket := 1 / 2\<rparr>) (replicate 1000 64) s = (s, [], replicate 1000 64)"
proof -
  have s: "0 \<le> serverTokens \<lparr>serverTokens = 0, maxTokens = None, depletedSignaled = False\<rparr>" by simp
  have "\<forall>l \<in> set (replicate 1000 64). 0 \<le> tokenConsumptionPerPacket (token_params_demo\<lparr>tokenConsumptionPerPacket := 1 / 2\<rparr>)
      + tokenConsumptionPerBit (token_params_demo\<lparr>tokenConsumptionPerPacket := 1 / 2\<rparr>) * real l
    \<and> tokenConsumptionPerPacket (token_params_demo\<lparr>tokenConsumptionPerPacket := 1 / 2\<rparr>)
      + tokenConsumptionPerBit (token_params_demo\<lparr>tokenConsumptionPerPacket := 1 / 2\<rparr>) * real l < 1"
    by (simp add: token_params_demo_def)
  from cheap_packets_are_free [OF this s] show ?thesis
    by (intro exI [of _ "\<lparr>serverTokens = 0, maxTokens = None, depletedSignaled = False\<rparr>"]) simp
qed

end
