(* ===== verification/AtsShaper.thy ===== *)
theory AtsShaper
  imports CreditGates PacketQueues
begin

text \<open>
  The asynchronous traffic shaper (\<open>inet/protocolelement/shaper/\<close>): \<open>EligibilityTimeMeter\<close>
  computes when a packet may be sent, \<open>EligibilityTimeFilter\<close> drops packets that would stay too
  long, the queue is sorted by \<open>PacketEligibilityTimeComparator\<close>, and \<open>EligibilityTimeGate\<close> lets
  the packets out when their time has come.

  Clock times are the ticks of \<open>clocktime_t\<close>; doubles are reals, and \<open>toTime\<close> is the conversion of
  seconds to ticks, which rounds to the nearest tick.
\<close>

section \<open>Meter\<close>

record ats_params =
  packetOverheadLength :: nat
  committedInformationRate :: real
  committedBurstSize :: nat
  maxResidenceTime :: simtime     \<comment> \<open>\<open>-1\<close>, in seconds, for none\<close>

record ats_meter =
  groupEligibilityTime :: simtime
  bucketEmptyTime :: simtime
  numBurstTokens :: real

definition lengthRecoveryDuration :: "ats_params \<Rightarrow> (real \<Rightarrow> simtime) \<Rightarrow> nat \<Rightarrow> simtime" where
  "lengthRecoveryDuration par toTime bits = toTime (real (bits + packetOverheadLength par) / committedInformationRate par)"

definition emptyToFullDuration :: "ats_params \<Rightarrow> (real \<Rightarrow> simtime) \<Rightarrow> simtime" where
  "emptyToFullDuration par toTime = toTime (real (committedBurstSize par) / committedInformationRate par)"

definition atsInitialize :: "ats_params \<Rightarrow> (real \<Rightarrow> simtime) \<Rightarrow> ats_meter" where
  "atsInitialize par toTime =
     \<lparr>groupEligibilityTime = 0, bucketEmptyTime = toTime (- real (committedBurstSize par) / committedInformationRate par),
      numBurstTokens = 0\<rparr>"

text \<open>The number of tokens, kept for the signal: \<open>bits\<close> is absent where no packet is given, and then must not be needed.\<close>

definition emitNumTokenChangedSignal :: "ats_params \<Rightarrow> (real \<Rightarrow> simtime) \<Rightarrow> simtime \<Rightarrow> nat option \<Rightarrow> ats_meter \<Rightarrow> ats_meter result" where
  "emitNumTokenChangedSignal par toTime now bits m =
     (let alpha = dbl (now - bucketEmptyTime m) / dbl (emptyToFullDuration par toTime) in
      if 1 < alpha then Inr (m\<lparr>numBurstTokens := real (committedBurstSize par)\<rparr>)
      else if alpha < 0 then (case bits of None \<Rightarrow> Inl NullPointer | Some _ \<Rightarrow> Inr m)
      else Inr (m\<lparr>numBurstTokens := real (committedBurstSize par) * alpha\<rparr>))"

definition eligibilityTimeOf :: "ats_params \<Rightarrow> (real \<Rightarrow> simtime) \<Rightarrow> simtime \<Rightarrow> nat \<Rightarrow> ats_meter \<Rightarrow> simtime" where
  "eligibilityTimeOf par toTime now bits m =
     max (max now (groupEligibilityTime m)) (bucketEmptyTime m + lengthRecoveryDuration par toTime bits)"

definition withinResidence :: "ats_params \<Rightarrow> simtime \<Rightarrow> simtime \<Rightarrow> bool" where
  "withinResidence par now e \<longleftrightarrow> maxResidenceTime par = - simtime_s 1 \<or> e \<le> now + maxResidenceTime par"

text \<open>The meter and the eligibility time it attaches to the packet, if it does.\<close>

definition atsMeterPacket ::
    "ats_params \<Rightarrow> (real \<Rightarrow> simtime) \<Rightarrow> simtime \<Rightarrow> nat \<Rightarrow> ats_meter \<Rightarrow> (ats_meter \<times> simtime option) result" where
  "atsMeterPacket par toTime now bits m =
     rbind (emitNumTokenChangedSignal par toTime now (Some bits) m) (\<lambda>m0.
       let sched = bucketEmptyTime m0 + lengthRecoveryDuration par toTime bits;
           full = bucketEmptyTime m0 + emptyToFullDuration par toTime;
           e = eligibilityTimeOf par toTime now bits m0 in
       if withinResidence par now e
       then rbind (emitNumTokenChangedSignal par toTime now (Some bits)
              (m0\<lparr>groupEligibilityTime := e, bucketEmptyTime := (if e < full then sched else sched + e - full)\<rparr>)) (\<lambda>m1.
            Inr (m1, Some e))
       else Inr (m0, None))"

section \<open>Filter\<close>

definition eligibilityFilterMatches :: "ats_params \<Rightarrow> simtime \<Rightarrow> simtime option \<Rightarrow> bool" where
  "eligibilityFilterMatches par now e = (case e of None \<Rightarrow> False | Some t \<Rightarrow> withinResidence par now t)"

section \<open>Comparator\<close>

definition comparePacketsByEligibilityTime :: "('p \<times> simtime) \<Rightarrow> ('p \<times> simtime) \<Rightarrow> int" where
  "comparePacketsByEligibilityTime a b = (let d = snd a - snd b in if d < 0 then -1 else if 0 < d then 1 else 0)"

lemma eligibility_orders: "orders_by snd comparePacketsByEligibilityTime"
  by (auto simp: orders_by_def comparePacketsByEligibilityTime_def Let_def)

interpretation by_eligibility: ordered_store "priorityInsert comparePacketsByEligibilityTime" comparePacketsByEligibilityTime
  by unfold_locales (simp_all add: priorityInsert_def mset_placeBehind priorityInsert_sorted [OF eligibility_orders, unfolded priorityInsert_def])

section \<open>The traffic that becomes eligible\<close>

lemma emit_fields:
  "emitNumTokenChangedSignal par toTime now (Some bits) m = Inr (m\<lparr>numBurstTokens := numBurstTokens m'\<rparr>)
   \<or> (\<exists>x. emitNumTokenChangedSignal par toTime now (Some bits) m = Inr (m\<lparr>numBurstTokens := x\<rparr>))"
  unfolding emitNumTokenChangedSignal_def Let_def by (auto intro: exI [of _ "numBurstTokens m"])

lemma atsMeterPacket_cases:
  "\<exists>x y. atsMeterPacket par toTime now bits m =
    (let e = eligibilityTimeOf par toTime now bits m in
     if withinResidence par now e
     then Inr (\<lparr>groupEligibilityTime = e,
               bucketEmptyTime = max (bucketEmptyTime m) (e - emptyToFullDuration par toTime) + lengthRecoveryDuration par toTime bits,
               numBurstTokens = x\<rparr>, Some e)
     else Inr (m\<lparr>numBurstTokens := y\<rparr>, None))"
proof -
  obtain x where x: "emitNumTokenChangedSignal par toTime now (Some bits) m = Inr (m\<lparr>numBurstTokens := x\<rparr>)"
    using emit_fields by metis
  define m0 where "m0 = m\<lparr>numBurstTokens := x\<rparr>"
  have f: "eligibilityTimeOf par toTime now bits m0 = eligibilityTimeOf par toTime now bits m" "bucketEmptyTime m0 = bucketEmptyTime m"
    by (simp_all add: m0_def eligibilityTimeOf_def)
  define e where "e = eligibilityTimeOf par toTime now bits m"
  define b where "b = (if e < bucketEmptyTime m + emptyToFullDuration par toTime then bucketEmptyTime m + lengthRecoveryDuration par toTime bits
    else bucketEmptyTime m + lengthRecoveryDuration par toTime bits + e - (bucketEmptyTime m + emptyToFullDuration par toTime))"
  have b: "b = max (bucketEmptyTime m) (e - emptyToFullDuration par toTime) + lengthRecoveryDuration par toTime bits"
    by (simp add: b_def)
  obtain y where y: "emitNumTokenChangedSignal par toTime now (Some bits) (m0\<lparr>groupEligibilityTime := e, bucketEmptyTime := b\<rparr>)
      = Inr (m0\<lparr>groupEligibilityTime := e, bucketEmptyTime := b, numBurstTokens := y\<rparr>)"
    using emit_fields by metis
  have "atsMeterPacket par toTime now bits m =
    (if withinResidence par now e then Inr (m0\<lparr>groupEligibilityTime := e, bucketEmptyTime := b, numBurstTokens := y\<rparr>, Some e)
     else Inr (m0, None))"
    unfolding atsMeterPacket_def x rbind_simps Let_def m0_def [symmetric] f e_def [symmetric] b_def [symmetric] y by simp
  moreover have "m0\<lparr>groupEligibilityTime := e, bucketEmptyTime := b, numBurstTokens := y\<rparr>
      = \<lparr>groupEligibilityTime = e, bucketEmptyTime = b, numBurstTokens = y\<rparr>" by (simp add: m0_def)
  ultimately show ?thesis by (intro exI [of _ y] exI [of _ x]) (simp add: Let_def e_def [symmetric] b m0_def)
qed

text \<open>Packets by arrival time and length; the result are the eligibility times.\<close>

fun atsRun :: "ats_params \<Rightarrow> (real \<Rightarrow> simtime) \<Rightarrow> (simtime \<times> nat) list \<Rightarrow> ats_meter \<Rightarrow> simtime option list result" where
  "atsRun par toTime [] m = Inr []"
| "atsRun par toTime ((now, bits) # evs) m =
     rbind (atsMeterPacket par toTime now bits m) (\<lambda>(m', e). rbind (atsRun par toTime evs m') (\<lambda>es. Inr (e # es)))"

text \<open>The sequence of accepted packets: their eligibility times and the durations of their lengths.\<close>

definition acceptedPackets :: "ats_params \<Rightarrow> (real \<Rightarrow> simtime) \<Rightarrow> (simtime \<times> nat) list \<Rightarrow> simtime option list \<Rightarrow> (simtime \<times> simtime) list" where
  "acceptedPackets par toTime evs es =
     concat (map (\<lambda>((now, bits), e). case e of None \<Rightarrow> [] | Some t \<Rightarrow> [(t, lengthRecoveryDuration par toTime bits)]) (zip evs es))"

text \<open>
  The abstract description of shaped traffic: times do not decrease, and from any packet to
  itself or a later one the lengths, as durations at the committed rate, fit into the time between them
  and a burst. Only a packet that is alone longer than the burst may exceed it, by itself; together with
  any other packet it may not.
\<close>

definition shaped :: "simtime \<Rightarrow> (simtime \<times> simtime) list \<Rightarrow> bool" where
  "shaped burst xs \<longleftrightarrow> sorted (map fst xs)
     \<and> (\<forall>i j. i \<le> j \<and> j < length xs \<longrightarrow>
          sum_list (map snd (take (Suc j - i) (drop i xs))) \<le> fst (xs ! j) - fst (xs ! i) + burst
          \<or> i = j \<and> burst < snd (xs ! i))"

lemma shaped_iff:
  "shaped burst xs \<longleftrightarrow> sorted (map fst xs)
     \<and> (\<forall>i j. i < j \<and> j < length xs \<longrightarrow> sum_list (map snd (take (Suc j - i) (drop i xs))) \<le> fst (xs ! j) - fst (xs ! i) + burst)"
proof -
  have "sum_list (map snd (take (Suc 0) (drop j xs))) = snd (xs ! j)" if "j < length xs" for j
    using that by (simp add: Cons_nth_drop_Suc [symmetric])
  then show ?thesis by (auto simp: shaped_def le_less Suc_diff_le)
qed

definition ats_before :: "simtime \<Rightarrow> ats_meter \<Rightarrow> (simtime \<times> simtime) list \<Rightarrow> bool" where
  "ats_before burst m xs \<longleftrightarrow>
     (\<forall>x \<in> set xs. groupEligibilityTime m \<le> fst x)
     \<and> (\<forall>j < length xs. bucketEmptyTime m + sum_list (map snd (take (Suc j) xs)) \<le> fst (xs ! j))
     \<and> shaped burst xs"

lemma atsRun_shaped:
  assumes "\<And>x. 0 \<le> lengthRecoveryDuration par toTime x"
  shows "\<exists>es. atsRun par toTime evs m = Inr es \<and> length es = length evs
    \<and> ats_before (emptyToFullDuration par toTime) m (acceptedPackets par toTime evs es)"
proof (induction evs arbitrary: m)
  case Nil
  then show ?case by (simp add: acceptedPackets_def ats_before_def shaped_iff)
next
  case (Cons ev evs)
  obtain now bits where ev: "ev = (now, bits)" by (cases ev)
  let ?L = "lengthRecoveryDuration par toTime bits" and ?T = "emptyToFullDuration par toTime"
  define e where "e = eligibilityTimeOf par toTime now bits m"
  have e: "groupEligibilityTime m \<le> e" "bucketEmptyTime m + ?L \<le> e" by (simp_all add: e_def eligibilityTimeOf_def)
  obtain x y where step: "atsMeterPacket par toTime now bits m =
    (if withinResidence par now e
     then Inr (\<lparr>groupEligibilityTime = e, bucketEmptyTime = max (bucketEmptyTime m) (e - ?T) + ?L, numBurstTokens = x\<rparr>, Some e)
     else Inr (m\<lparr>numBurstTokens := y\<rparr>, None))"
    using atsMeterPacket_cases [of par toTime now bits m] by (auto simp: Let_def simp flip: e_def)
  show ?case
  proof (cases "withinResidence par now e")
    case False
    obtain es where "atsRun par toTime evs (m\<lparr>numBurstTokens := y\<rparr>) = Inr es" "length es = length evs"
      "ats_before ?T (m\<lparr>numBurstTokens := y\<rparr>) (acceptedPackets par toTime evs es)"
      using Cons.IH by blast
    then show ?thesis using step False by (simp add: ev acceptedPackets_def ats_before_def)
  next
    case True
    define m1 where "m1 = \<lparr>groupEligibilityTime = e, bucketEmptyTime = max (bucketEmptyTime m) (e - ?T) + ?L, numBurstTokens = x\<rparr>"
    obtain es where es: "atsRun par toTime evs m1 = Inr es" "length es = length evs"
      and bef: "ats_before ?T m1 (acceptedPackets par toTime evs es)"
      using Cons.IH by blast
    define xs where "xs = acceptedPackets par toTime evs es"
    have acc: "acceptedPackets par toTime (ev # evs) (Some e # es) = (e, ?L) # xs"
      by (simp add: acceptedPackets_def xs_def ev)
    have g: "\<forall>x \<in> set xs. e \<le> fst x" and srt: "shaped ?T xs"
      and b: "\<forall>j < length xs. max (bucketEmptyTime m) (e - ?T) + ?L + sum_list (map snd (take (Suc j) xs)) \<le> fst (xs ! j)"
      using bef by (simp_all add: ats_before_def m1_def flip: xs_def)
    have "bucketEmptyTime m + sum_list (map snd (take (Suc j) ((e, ?L) # xs))) \<le> fst (((e, ?L) # xs) ! j)" if "j < length ((e, ?L) # xs)" for j
    proof (cases j)
      case (Suc k)
      then show ?thesis using b that by (auto simp: Suc)
    qed (use e in simp)
    moreover have "shaped ?T ((e, ?L) # xs)"
      unfolding shaped_iff
    proof (intro conjI allI impI)
      show "sorted (map fst ((e, ?L) # xs))" using g srt by (simp add: shaped_iff)
      fix i j assume ij: "i < j \<and> j < length ((e, ?L) # xs)"
      show "sum_list (map snd (take (Suc j - i) (drop i ((e, ?L) # xs)))) \<le> fst (((e, ?L) # xs) ! j) - fst (((e, ?L) # xs) ! i) + ?T"
      proof (cases i)
        case (Suc i')
        then obtain j' where "j = Suc j'" using ij by (cases j) auto
        then show ?thesis using Suc ij srt by (auto simp: shaped_iff)
      next
        case 0
        show ?thesis
        proof (cases j)
          case 0
          then show ?thesis using \<open>i = 0\<close> ij by simp
        next
          case (Suc k)
          have "e - ?T + ?L + sum_list (map snd (take (Suc k) xs)) \<le> fst (xs ! k)" using b Suc ij by fastforce
          then show ?thesis using \<open>i = 0\<close> Suc by simp
        qed
      qed
    qed
    moreover have "\<forall>x \<in> set ((e, ?L) # xs). groupEligibilityTime m \<le> fst x" using g e(1) by auto
    ultimately have "ats_before ?T m ((e, ?L) # xs)" by (simp add: ats_before_def)
    then show ?thesis
      using step True es acc by (intro exI [of _ "Some e # es"]) (simp add: ev m1_def)
  qed
qed
text \<open>
  C18. The shaper shapes: whatever arrives, the accepted packets become eligible in the order in
  which they arrived, and from any of them to itself or a later one there are at most a burst more, at
  the committed rate, than the time between them allows. The only exception is a single packet longer
  than the burst, which the meter does not refuse; what follows it waits until both conform. No packet
  makes the meter fail.
\<close>

theorem eligible_traffic_is_shaped:
  assumes "\<And>x. 0 \<le> lengthRecoveryDuration par toTime x"
  shows "\<exists>es. atsRun par toTime evs m = Inr es \<and> length es = length evs
    \<and> shaped (emptyToFullDuration par toTime) (acceptedPackets par toTime evs es)"
  using atsRun_shaped [OF assms, of evs m] by (auto simp: ats_before_def)

definition round_ticks :: "real \<Rightarrow> simtime" where
  "round_ticks x = \<lfloor>x * 1000000000000 + 1 / 2\<rfloor>"

definition ats_demo :: ats_params where
  "ats_demo = \<lparr>packetOverheadLength = 0, committedInformationRate = 1000, committedBurstSize = 1000, maxResidenceTime = - simtime_s 1\<rparr>"

lemma ats_demo_durations:
  "lengthRecoveryDuration ats_demo round_ticks bits = int bits * 1000000000"
  "emptyToFullDuration ats_demo round_ticks = 1000000000000"
proof -
  have "real bits / 1000 * 1000000000000 + 1 / 2 = real_of_int (int bits * 1000000000) + 1 / 2" by simp
  then show "lengthRecoveryDuration ats_demo round_ticks bits = int bits * 1000000000"
    by (simp add: lengthRecoveryDuration_def round_ticks_def ats_demo_def floor_eq_iff)
  show "emptyToFullDuration ats_demo round_ticks = 1000000000000"
    by (simp add: emptyToFullDuration_def round_ticks_def ats_demo_def floor_eq_iff)
qed

lemma eligible_traffic_is_shaped_witness:
  "\<exists>es. atsRun ats_demo round_ticks [(0, 1000), (0, 2000), (0, 500)] (atsInitialize ats_demo round_ticks) = Inr es
    \<and> shaped 1000000000000 (acceptedPackets ats_demo round_ticks [(0, 1000), (0, 2000), (0, 500)] es)"
  using eligible_traffic_is_shaped [of ats_demo round_ticks "[(0, 1000), (0, 2000), (0, 500)]" "atsInitialize ats_demo round_ticks"]
  by (auto simp: ats_demo_durations)

text \<open>Arrivals that fit into the bucket: in order, and any number of successive ones within a burst of the rate.\<close>

definition conforming :: "simtime \<Rightarrow> (nat \<Rightarrow> simtime) \<Rightarrow> (simtime \<times> nat) list \<Rightarrow> bool" where
  "conforming burst dur evs \<longleftrightarrow> sorted (map fst evs)
     \<and> (\<forall>i j. i \<le> j \<and> j < length evs \<longrightarrow>
          sum_list (map (dur \<circ> snd) (take (Suc j - i) (drop i evs))) \<le> fst (evs ! j) - fst (evs ! i) + burst)"

lemma atsRun_conforming:
  assumes "\<forall>e \<in> set evs. groupEligibilityTime m \<le> fst e"
    and "conforming (emptyToFullDuration par toTime) (lengthRecoveryDuration par toTime) evs"
    and "\<forall>j < length evs. bucketEmptyTime m + sum_list (map (lengthRecoveryDuration par toTime \<circ> snd) (take (Suc j) evs)) \<le> fst (evs ! j)"
    and "maxResidenceTime par = - simtime_s 1 \<or> 0 \<le> maxResidenceTime par"
  shows "atsRun par toTime evs m = Inr (map (\<lambda>(t, _). Some t) evs)"
  using assms(1-3)
proof (induction evs arbitrary: m)
  case (Cons ev evs)
  obtain now bits where ev: "ev = (now, bits)" by (cases ev)
  let ?L = "lengthRecoveryDuration par toTime" and ?T = "emptyToFullDuration par toTime"
  have e: "eligibilityTimeOf par toTime now bits m = now"
    using Cons.prems(1) Cons.prems(3)[rule_format, of 0] by (simp add: eligibilityTimeOf_def ev)
  have w: "withinResidence par now now" using assms(4) by (auto simp: withinResidence_def)
  obtain x where step: "atsMeterPacket par toTime now bits m =
    Inr (\<lparr>groupEligibilityTime = now, bucketEmptyTime = max (bucketEmptyTime m) (now - ?T) + ?L bits, numBurstTokens = x\<rparr>, Some now)"
    using atsMeterPacket_cases [of par toTime now bits m] w by (auto simp: Let_def e)
  define m1 where "m1 = \<lparr>groupEligibilityTime = now, bucketEmptyTime = max (bucketEmptyTime m) (now - ?T) + ?L bits, numBurstTokens = x\<rparr>"
  have "bucketEmptyTime m1 + sum_list (map (?L \<circ> snd) (take (Suc j) evs)) \<le> fst (evs ! j)" if j: "j < length evs" for j
  proof -
    have "bucketEmptyTime m + (?L bits + sum_list (map (?L \<circ> snd) (take (Suc j) evs))) \<le> fst (evs ! j)"
      using Cons.prems(3)[rule_format, of "Suc j"] j by (simp add: ev)
    moreover have "?L bits + sum_list (map (?L \<circ> snd) (take (Suc j) evs)) \<le> fst (evs ! j) - now + ?T"
      using Cons.prems(2) j unfolding conforming_def
      by (elim conjE) (drule spec [of _ 0], drule spec [of _ "Suc j"], simp add: ev)
    ultimately show ?thesis by (simp add: m1_def)
  qed
  moreover have "conforming ?T ?L evs"
    unfolding conforming_def
  proof (intro conjI allI impI)
    show "sorted (map fst evs)" using Cons.prems(2) by (simp add: conforming_def)
    fix i j assume "i \<le> j \<and> j < length evs"
    then show "sum_list (map (?L \<circ> snd) (take (Suc j - i) (drop i evs))) \<le> fst (evs ! j) - fst (evs ! i) + ?T"
      using Cons.prems(2) unfolding conforming_def
      by (elim conjE) (drule spec [of _ "Suc i"], drule spec [of _ "Suc j"], simp)
  qed
  moreover have "\<forall>e \<in> set evs. groupEligibilityTime m1 \<le> fst e"
    using Cons.prems(2) by (simp add: conforming_def m1_def ev)
  ultimately have "atsRun par toTime evs m1 = Inr (map (\<lambda>(t, _). Some t) evs)" using Cons.IH by blast
  then show ?case using step by (simp add: ev m1_def)
qed simp

text \<open>
  Conforming traffic is not delayed: if the arrivals are in order, every packet within a burst
  and together with its successors within a burst of the rate, then every packet is eligible when
  it arrives.
\<close>

theorem conforming_traffic_is_not_delayed:
  assumes "groupEligibilityTime m \<le> 0" "bucketEmptyTime m \<le> - emptyToFullDuration par toTime"
    and "conforming (emptyToFullDuration par toTime) (lengthRecoveryDuration par toTime) evs" "\<forall>e \<in> set evs. 0 \<le> fst e"
    and "maxResidenceTime par = - simtime_s 1 \<or> 0 \<le> maxResidenceTime par"
  shows "atsRun par toTime evs m = Inr (map (\<lambda>(t, _). Some t) evs)"
proof (rule atsRun_conforming)
  show "\<forall>e \<in> set evs. groupEligibilityTime m \<le> fst e" using assms(1,4) by force
  show "\<forall>j < length evs. bucketEmptyTime m + sum_list (map (lengthRecoveryDuration par toTime \<circ> snd) (take (Suc j) evs)) \<le> fst (evs ! j)"
  proof (intro allI impI)
    fix j assume j: "j < length evs"
    have "sum_list (map (lengthRecoveryDuration par toTime \<circ> snd) (take (Suc j) evs)) \<le> fst (evs ! j) - fst (evs ! 0) + emptyToFullDuration par toTime"
      using assms(3) j unfolding conforming_def by (elim conjE) (drule spec [of _ 0], drule spec [of _ j], simp)
    moreover have "0 \<le> fst (evs ! 0)" using assms(4) j by (cases evs) auto
    ultimately show "bucketEmptyTime m + sum_list (map (lengthRecoveryDuration par toTime \<circ> snd) (take (Suc j) evs)) \<le> fst (evs ! j)"
      using assms(2) by linarith
  qed
qed (use assms(3,5) in simp_all)
lemma conforming_traffic_is_not_delayed_witness:
  "atsRun ats_demo round_ticks [(0, 500), (500000000000, 500)] (atsInitialize ats_demo round_ticks) = Inr [Some 0, Some 500000000000]"
proof -
  let ?m = "atsInitialize ats_demo round_ticks" and ?evs = "[(0, 500), (500000000000, 500 :: nat)] :: (simtime \<times> nat) list"
  have m: "groupEligibilityTime ?m \<le> 0" "bucketEmptyTime ?m \<le> - emptyToFullDuration ats_demo round_ticks"
    unfolding ats_demo_durations by (simp_all add: atsInitialize_def round_ticks_def ats_demo_def floor_le_iff)
  have c: "conforming (emptyToFullDuration ats_demo round_ticks) (lengthRecoveryDuration ats_demo round_ticks) ?evs"
    unfolding conforming_def ats_demo_durations
    by (auto simp: less_Suc_eq le_Suc_eq numeral_2_eq_2 ats_demo_durations)
  have p: "\<forall>e \<in> set ?evs. 0 \<le> fst e" by simp
  have r: "maxResidenceTime ats_demo = - simtime_s 1 \<or> 0 \<le> maxResidenceTime ats_demo" by (simp add: ats_demo_def)
  show ?thesis using conforming_traffic_is_not_delayed [OF m c p r] by simp
qed

text \<open>
  At the time of metering the filter passes exactly the packets that the meter has accepted,
  if both have the same residence time.
\<close>

theorem filter_agrees_with_meter:
  assumes "atsMeterPacket par toTime now bits m = Inr (m', e)"
  shows "eligibilityFilterMatches par now e \<longleftrightarrow> e \<noteq> None"
  using assms atsMeterPacket_cases [of par toTime now bits m]
  by (auto simp: eligibilityFilterMatches_def Let_def split: if_splits)

lemma filter_agrees_with_meter_witness:
  "\<exists>m' e. atsMeterPacket ats_demo round_ticks 0 100 (atsInitialize ats_demo round_ticks) = Inr (m', e) \<and> eligibilityFilterMatches ats_demo 0 e"
proof -
  obtain x y where c: "atsMeterPacket ats_demo round_ticks 0 100 (atsInitialize ats_demo round_ticks) =
    (let e = eligibilityTimeOf ats_demo round_ticks 0 100 (atsInitialize ats_demo round_ticks) in
     if withinResidence ats_demo 0 e
     then Inr (\<lparr>groupEligibilityTime = e, bucketEmptyTime = max (bucketEmptyTime (atsInitialize ats_demo round_ticks)) (e - emptyToFullDuration ats_demo round_ticks)
         + lengthRecoveryDuration ats_demo round_ticks 100, numBurstTokens = x\<rparr>, Some e)
     else Inr ((atsInitialize ats_demo round_ticks)\<lparr>numBurstTokens := y\<rparr>, None))"
    using atsMeterPacket_cases by blast
  have "withinResidence ats_demo 0 t" for t by (simp add: withinResidence_def ats_demo_def)
  with c obtain m' e where r: "atsMeterPacket ats_demo round_ticks 0 100 (atsInitialize ats_demo round_ticks) = Inr (m', Some e)"
    by (simp add: Let_def)
  from filter_agrees_with_meter [OF r] r show ?thesis by blast
qed

section \<open>Gate\<close>

record ats_gate =
  eligOpen :: bool
  eligibilityTimer :: "simtime option"
  lastSignalValue :: simtime
  lastSignalTime :: simtime
  lastSignalPacket :: bool

text \<open>
  The packet that the provider offers, as its eligibility time: absent for no packet, and the tag
  absent for a packet without one.
\<close>

type_synonym offer = "simtime option option"

definition eligibilityTag :: "simtime option \<Rightarrow> simtime result" where
  "eligibilityTag t = (case t of None \<Rightarrow> Inl (RuntimeError ''Tag is absent'') | Some e \<Rightarrow> Inr e)"

text \<open>\<open>offer2\<close> is what the provider offers after the neighbours were told about a change.\<close>

definition updateOpen :: "simtime \<Rightarrow> offer \<Rightarrow> offer \<Rightarrow> ats_gate \<Rightarrow> ats_gate result" where
  "updateOpen now offer1 offer2 g =
     rbind (case offer1 of None \<Rightarrow> Inr True | Some t \<Rightarrow> rbind (eligibilityTag t) (\<lambda>e. Inr (e \<le> now))) (\<lambda>ok.
       let g1 = g\<lparr>eligOpen := ok\<rparr> in
       (case offer2 of
          None \<Rightarrow> Inr g1
        | Some t \<Rightarrow> rbind (eligibilityTag t) (\<lambda>e. Inr (if now < e then g1\<lparr>eligibilityTimer := Some e\<rparr> else g1))))"

definition emitEligibilityTimeChangedSignal :: "simtime \<Rightarrow> offer \<Rightarrow> ats_gate \<Rightarrow> ats_gate result" where
  "emitEligibilityTimeChangedSignal now off g =
     (if lastSignalTime g = now
      then rbind (case off of None \<Rightarrow> Inr 0 | Some t \<Rightarrow> rbind (eligibilityTag t) (\<lambda>e. Inr (e - now))) (\<lambda>v.
        Inr (g\<lparr>lastSignalPacket := (off \<noteq> None), lastSignalValue := v, lastSignalTime := now\<rparr>))
      else Inr (g\<lparr>lastSignalValue := (if lastSignalPacket g then lastSignalValue g - (now - lastSignalTime g) else 0), lastSignalTime := now\<rparr>))"

definition gateInitialize :: "simtime \<Rightarrow> offer \<Rightarrow> offer \<Rightarrow> ats_gate result" where
  "gateInitialize now offer1 offer2 =
     rbind (updateOpen now offer1 offer2
       \<lparr>eligOpen = False, eligibilityTimer = None, lastSignalValue = - simtime_s 1, lastSignalTime = now, lastSignalPacket = False\<rparr>)
     (emitEligibilityTimeChangedSignal now offer2)"

definition gateTimerDue :: "simtime \<Rightarrow> offer \<Rightarrow> offer \<Rightarrow> ats_gate \<Rightarrow> ats_gate result" where
  "gateTimerDue now offer1 offer2 g = updateOpen now offer1 offer2 (g\<lparr>eligibilityTimer := None\<rparr>)"

definition gatePullPacket :: "simtime \<Rightarrow> offer \<Rightarrow> offer \<Rightarrow> offer \<Rightarrow> ats_gate \<Rightarrow> ats_gate result" where
  "gatePullPacket now offer0 offer1 offer2 g =
     rbind (emitEligibilityTimeChangedSignal now offer0 g) (\<lambda>g1.
       if \<not> eligOpen g1
       then Inl (RuntimeError ''Illegal operation on the gate, a packet is being passed through while the gate is not open'')
       else rbind (updateOpen now offer1 offer2 g1) (emitEligibilityTimeChangedSignal now offer2))"

definition gateCanPullChanged :: "simtime \<Rightarrow> offer \<Rightarrow> offer \<Rightarrow> ats_gate \<Rightarrow> ats_gate result" where
  "gateCanPullChanged now offer1 offer2 g =
     rbind (emitEligibilityTimeChangedSignal now offer1 g) (\<lambda>g1.
     rbind (updateOpen now offer1 offer2 g1) (emitEligibilityTimeChangedSignal now offer2))"

lemma updateOpen_tagged:
  "updateOpen now None None g = Inr (g\<lparr>eligOpen := True\<rparr>)"
  "updateOpen now (Some (Some e)) (Some (Some e)) g =
     Inr (if e \<le> now then g\<lparr>eligOpen := True\<rparr> else g\<lparr>eligOpen := False, eligibilityTimer := Some e\<rparr>)"
  by (simp_all add: updateOpen_def eligibilityTag_def Let_def)

lemma emitSignal_tagged:
  "off = None \<or> (\<exists>e. off = Some (Some e)) \<Longrightarrow>
   \<exists>g'. emitEligibilityTimeChangedSignal now off g = Inr g' \<and> eligOpen g' = eligOpen g \<and> eligibilityTimer g' = eligibilityTimer g"
  by (auto simp: emitEligibilityTimeChangedSignal_def eligibilityTag_def)
section \<open>The shaper: queue and gate\<close>

text \<open>
  A queue of packets with eligibility times, sorted by the comparator, and the gate behind it.
  \<open>sentLog\<close> is a history variable: the packets that have left, with the time at which they did.
  Time does not pass the timer; that the neighbours pull when the gate opens is a later step.
\<close>

record 'p ats_system =
  atsNow :: simtime
  atsQueue :: "('p \<times> simtime) list"
  atsGate :: ats_gate
  sentLog :: "(('p \<times> simtime) \<times> simtime) list"

definition offerOf :: "('p \<times> simtime) list \<Rightarrow> offer" where
  "offerOf q = (case q of [] \<Rightarrow> None | x # _ \<Rightarrow> Some (Some (snd x)))"

inductive ats_step :: "'p ats_system \<Rightarrow> 'p ats_system \<Rightarrow> bool" where
  ats_time: "atsNow s \<le> t \<Longrightarrow> (case eligibilityTimer (atsGate s) of None \<Rightarrow> True | Some d \<Rightarrow> t \<le> d) \<Longrightarrow> ats_step s (s\<lparr>atsNow := t\<rparr>)"
| ats_arrive: "q' = priorityInsert comparePacketsByEligibilityTime (atsQueue s) x \<Longrightarrow>
    gateCanPullChanged (atsNow s) (offerOf q') (offerOf q') (atsGate s) = Inr g \<Longrightarrow>
    ats_step s (s\<lparr>atsQueue := q', atsGate := g\<rparr>)"
| ats_pull: "atsQueue s = x # q \<Longrightarrow>
    gatePullPacket (atsNow s) (offerOf (atsQueue s)) (offerOf q) (offerOf q) (atsGate s) = Inr g \<Longrightarrow>
    ats_step s (s\<lparr>atsQueue := q, atsGate := g, sentLog := sentLog s @ [(x, atsNow s)]\<rparr>)"
| ats_timer: "eligibilityTimer (atsGate s) = Some (atsNow s) \<Longrightarrow>
    gateTimerDue (atsNow s) (offerOf (atsQueue s)) (offerOf (atsQueue s)) (atsGate s) = Inr g \<Longrightarrow>
    ats_step s (s\<lparr>atsGate := g\<rparr>)"

definition ats_inv :: "'p ats_system \<Rightarrow> bool" where
  "ats_inv s \<longleftrightarrow> sorted (map snd (atsQueue s))
     \<and> (if eligOpen (atsGate s) then (\<forall>x q. atsQueue s = x # q \<longrightarrow> snd x \<le> atsNow s)
        else (\<exists>x q. atsQueue s = x # q \<and> atsNow s \<le> snd x \<and> eligibilityTimer (atsGate s) = Some (snd x)))
     \<and> (\<forall>(x, t) \<in> set (sentLog s). snd x \<le> t)"

lemma updateOpen_offer:
  "\<exists>g'. updateOpen now (offerOf q) (offerOf q) g = Inr g'
    \<and> eligOpen g' = (\<forall>x r. q = x # r \<longrightarrow> snd x \<le> now)
    \<and> (\<not> eligOpen g' \<longrightarrow> (\<exists>x r. q = x # r \<and> eligibilityTimer g' = Some (snd x)))"
  by (cases q) (simp_all add: offerOf_def updateOpen_tagged)

lemma emitSignal_offer:
  "\<exists>g'. emitEligibilityTimeChangedSignal now (offerOf q) g = Inr g' \<and> eligOpen g' = eligOpen g \<and> eligibilityTimer g' = eligibilityTimer g"
  by (rule emitSignal_tagged) (simp add: offerOf_def split: list.split)

lemma gateCanPullChanged_offer:
  "\<exists>g'. gateCanPullChanged now (offerOf q) (offerOf q) g = Inr g'
    \<and> eligOpen g' = (\<forall>x r. q = x # r \<longrightarrow> snd x \<le> now)
    \<and> (\<not> eligOpen g' \<longrightarrow> (\<exists>x r. q = x # r \<and> eligibilityTimer g' = Some (snd x)))"
proof -
  obtain g1 where g1: "emitEligibilityTimeChangedSignal now (offerOf q) g = Inr g1" using emitSignal_offer by blast
  obtain g2 where g2: "updateOpen now (offerOf q) (offerOf q) g1 = Inr g2" "eligOpen g2 = (\<forall>x r. q = x # r \<longrightarrow> snd x \<le> now)"
    "\<not> eligOpen g2 \<longrightarrow> (\<exists>x r. q = x # r \<and> eligibilityTimer g2 = Some (snd x))"
    using updateOpen_offer by metis
  obtain g3 where "emitEligibilityTimeChangedSignal now (offerOf q) g2 = Inr g3" "eligOpen g3 = eligOpen g2" "eligibilityTimer g3 = eligibilityTimer g2"
    using emitSignal_offer by blast
  then show ?thesis using g1 g2 by (simp add: gateCanPullChanged_def)
qed

lemma gatePullPacket_offer:
  "gatePullPacket now (offerOf q0) (offerOf q) (offerOf q) g = Inr g' \<Longrightarrow>
   eligOpen g \<and> eligOpen g' = (\<forall>x r. q = x # r \<longrightarrow> snd x \<le> now)
   \<and> (\<not> eligOpen g' \<longrightarrow> (\<exists>x r. q = x # r \<and> eligibilityTimer g' = Some (snd x)))"
proof -
  assume p: "gatePullPacket now (offerOf q0) (offerOf q) (offerOf q) g = Inr g'"
  obtain g1 where g1: "emitEligibilityTimeChangedSignal now (offerOf q0) g = Inr g1" "eligOpen g1 = eligOpen g" using emitSignal_offer by blast
  obtain g2 where g2: "updateOpen now (offerOf q) (offerOf q) g1 = Inr g2" "eligOpen g2 = (\<forall>x r. q = x # r \<longrightarrow> snd x \<le> now)"
    "\<not> eligOpen g2 \<longrightarrow> (\<exists>x r. q = x # r \<and> eligibilityTimer g2 = Some (snd x))"
    using updateOpen_offer by metis
  obtain g3 where g3: "emitEligibilityTimeChangedSignal now (offerOf q) g2 = Inr g3" "eligOpen g3 = eligOpen g2" "eligibilityTimer g3 = eligibilityTimer g2"
    using emitSignal_offer by blast
  have "eligOpen g" using p g1 by (simp add: gatePullPacket_def split: if_splits)
  then have "g' = g3" using p g1 g2 g3 by (simp add: gatePullPacket_def)
  then show ?thesis using \<open>eligOpen g\<close> g2 g3 by simp
qed

lemma ats_step_inv: "ats_step s s' \<Longrightarrow> ats_inv s \<Longrightarrow> ats_inv s'"
proof (induction rule: ats_step.induct)
  case (ats_time s t)
  then show ?case by (auto simp: ats_inv_def split: if_splits intro: order_trans)
next
  case (ats_arrive q' s x g)
  have "sorted (map snd q')"
    using priorityInsert_sorted [OF eligibility_orders, of "atsQueue s" x] ats_arrive.prems ats_arrive.hyps(1)
    by (simp add: ats_inv_def orders_by_def [THEN iffD1, OF eligibility_orders] sorted_map)
  moreover obtain g' where "gateCanPullChanged (atsNow s) (offerOf q') (offerOf q') (atsGate s) = Inr g'"
    "eligOpen g' = (\<forall>x r. q' = x # r \<longrightarrow> snd x \<le> atsNow s)"
    "\<not> eligOpen g' \<longrightarrow> (\<exists>x r. q' = x # r \<and> eligibilityTimer g' = Some (snd x))"
    using gateCanPullChanged_offer by metis
  ultimately show ?case using ats_arrive by (auto simp: ats_inv_def)
next
  case (ats_pull s x q g)
  note g = gatePullPacket_offer [OF ats_pull.hyps(2)]
  then have "snd x \<le> atsNow s" using ats_pull.hyps(1) ats_pull.prems by (simp add: ats_inv_def)
  then show ?case using g ats_pull by (auto simp: ats_inv_def)
next
  case (ats_timer s g)
  obtain g' where "updateOpen (atsNow s) (offerOf (atsQueue s)) (offerOf (atsQueue s)) ((atsGate s)\<lparr>eligibilityTimer := None\<rparr>) = Inr g'"
    "eligOpen g' = (\<forall>x r. atsQueue s = x # r \<longrightarrow> snd x \<le> atsNow s)"
    "\<not> eligOpen g' \<longrightarrow> (\<exists>x r. atsQueue s = x # r \<and> eligibilityTimer g' = Some (snd x))"
    using updateOpen_offer by metis
  then show ?case using ats_timer by (auto simp: ats_inv_def gateTimerDue_def)
qed

definition ats_start :: "'p ats_system" where
  "ats_start = \<lparr>atsNow = 0, atsQueue = [],
     atsGate = \<lparr>eligOpen = True, eligibilityTimer = None, lastSignalValue = 0, lastSignalTime = 0, lastSignalPacket = False\<rparr>, sentLog = []\<rparr>"

text \<open>
  Whatever arrives and however it is pulled, no packet leaves the shaper before it is
  eligible; and while the gate is closed a timer is set to the moment at which the first packet
  becomes eligible, so that no packet waits longer than that for the gate.
\<close>

theorem shaper_is_never_early_and_never_stuck:
  assumes "ats_step\<^sup>*\<^sup>* ats_start s"
  shows "(\<forall>(x, t) \<in> set (sentLog s). snd x \<le> t)
    \<and> (\<not> eligOpen (atsGate s) \<longrightarrow> (\<exists>x q. atsQueue s = x # q \<and> eligibilityTimer (atsGate s) = Some (snd x) \<and> atsNow s \<le> snd x))"
proof -
  have "ats_inv s"
    using assms
  proof (induction rule: rtranclp_induct)
    case base
    show ?case by (simp add: ats_inv_def ats_start_def)
  next
    case (step y z)
    then show ?case using ats_step_inv by blast
  qed
  then show ?thesis by (auto simp: ats_inv_def)
qed

lemma arrival_closes_the_gate:
  "ats_step\<^sup>*\<^sup>* (ats_start :: nat ats_system) (ats_start\<lparr>atsQueue := [(7, 5)],
     atsGate := \<lparr>eligOpen = False, eligibilityTimer = Some 5, lastSignalValue = 5, lastSignalTime = 0, lastSignalPacket = True\<rparr>\<rparr>)"
proof (rule r_into_rtranclp [where r = ats_step], rule ats_step.ats_arrive [where x = "(7, 5)"])
  show "[(7, 5)] = priorityInsert comparePacketsByEligibilityTime (atsQueue ats_start) (7::nat, 5)"
    unfolding ats_start_def by code_simp
qed (simp_all add: ats_start_def gateCanPullChanged_def offerOf_def updateOpen_tagged
    emitEligibilityTimeChangedSignal_def eligibilityTag_def)

lemma shaper_is_never_early_and_never_stuck_witness:
  "\<exists>s. ats_step\<^sup>*\<^sup>* (ats_start :: nat ats_system) s \<and> \<not> eligOpen (atsGate s)
     \<and> (\<exists>x q. atsQueue s = x # q \<and> eligibilityTimer (atsGate s) = Some (snd x) \<and> atsNow s \<le> snd x)"
  using shaper_is_never_early_and_never_stuck [OF arrival_closes_the_gate] arrival_closes_the_gate
  by (intro exI conjI) (assumption, auto)

end
