(* ===== verification/PlatoonPositions.thy ===== *)
theory PlatoonPositions
  imports CStrings Complex_Main "HOL-Library.AList_Mapping"
begin

text \<open>
  Who drives where in a platoon: the register of all platoons
  (\<open>plexe/utilities/DynamicPositionManager.cc\<close>), what a vehicle knows about its own platoon
  (\<open>plexe/utilities/BasePositionHelper.cc\<close>), and how the platoons come into the simulation
  (\<open>plexe/traffic/PlatoonsTrafficManager.cc\<close>, \<open>plexe/mobility/TraCIBaseTrafficManager.cc\<close>).

  \<^item> The \<open>std::map\<close>s of the register are mappings; their ordered keys are the order of iteration.
  \<^item> The iterator past the end is a null pointer: to dereference it, or to erase it, is an error of
    the model. So is an index outside of a vector.
  \<^item> Doubles are reals. What the simulator draws at random or decides is a parameter.
\<close>

section \<open>The register of platoons\<close>

datatype controller = DRIVER | ACC | CACC | FAKED_CACC | PLOEG | CONSENSUS | FLATBED

record platoon_info =
  infoSpeed :: real
  infoLane :: int

record vehicle_info =
  infoController :: controller
  infoDistance :: real
  infoHeadway :: real
  infoId :: int
  infoPlatoonId :: int
  infoPosition :: int

record register =
  platoons :: "(int, (int, int) mapping) mapping"
  memberPositions :: "(int, (int, int) mapping) mapping"
  vehToPlatoons :: "(int, int) mapping"
  platoonInformation :: "(int, platoon_info) mapping"
  vehicleInfos :: "(int, vehicle_info) mapping"

definition emptyRegister :: register where
  "emptyRegister = \<lparr>platoons = Mapping.empty, memberPositions = Mapping.empty, vehToPlatoons = Mapping.empty,
     platoonInformation = Mapping.empty, vehicleInfos = Mapping.empty\<rparr>"

text \<open>The index operator of a map of maps: a missing inner map is created.\<close>

definition inner :: "(int, (int, int) mapping) mapping \<Rightarrow> int \<Rightarrow> (int, int) mapping" where
  "inner m p = Mapping.lookup_default Mapping.empty m p"

definition put2 :: "int \<Rightarrow> int \<Rightarrow> int \<Rightarrow> (int, (int, int) mapping) mapping \<Rightarrow> (int, (int, int) mapping) mapping" where
  "put2 p k v m = Mapping.update p (Mapping.update k v (inner m p)) m"

text \<open>Dereferencing the result of \<open>find\<close>.\<close>

definition found :: "'a option \<Rightarrow> 'a result" where
  "found x = (case x of None \<Rightarrow> Inl NullPointer | Some y \<Rightarrow> Inr y)"

definition setVehicleInfo :: "int \<Rightarrow> vehicle_info \<Rightarrow> register \<Rightarrow> register" where
  "setVehicleInfo v info s = s\<lparr>vehicleInfos := Mapping.update v info (vehicleInfos s)\<rparr>"

definition addVehicleToPlatoon :: "int \<Rightarrow> vehicle_info \<Rightarrow> register \<Rightarrow> register" where
  "addVehicleToPlatoon v info s =
     setVehicleInfo v info
       (s\<lparr>platoons := put2 (infoPlatoonId info) (infoPosition info) v (platoons s),
          memberPositions := put2 (infoPlatoonId info) v (infoPosition info) (memberPositions s),
          vehToPlatoons := Mapping.update v (infoPlatoonId info) (vehToPlatoons s)\<rparr>)"

text \<open>One round of the loop that moves the vehicles behind the removed one forward.\<close>

definition moveForward :: "int \<Rightarrow> register \<Rightarrow> int \<Rightarrow> register result" where
  "moveForward p s i =
     rbind (found (Mapping.lookup (inner (platoons s) p) (i + 1))) (\<lambda>w.
       Inr (s\<lparr>platoons := put2 p i w (platoons s), memberPositions := put2 p w i (memberPositions s)\<rparr>))"

definition erase2 :: "int \<Rightarrow> int \<Rightarrow> (int, (int, int) mapping) mapping \<Rightarrow> (int, (int, int) mapping) mapping result" where
  "erase2 p k m =
     rbind (found (Mapping.lookup (inner m p) k)) (\<lambda>_. Inr (Mapping.update p (Mapping.delete k (inner m p)) m))"

definition removeVehicleFromPlatoon :: "int \<Rightarrow> register \<Rightarrow> register result" where
  "removeVehicleFromPlatoon v s =
     (case Mapping.lookup (vehToPlatoons s) v of
        None \<Rightarrow> Inr s
      | Some p \<Rightarrow>
          rbind (found (Mapping.lookup (platoons s) p)) (\<lambda>platoon.
          rbind (found (Mapping.lookup (memberPositions s) p)) (\<lambda>pPosition.
          rbind (found (Mapping.lookup pPosition v)) (\<lambda>pos.
          rbind (foldM (moveForward p) s [pos..int (Mapping.size platoon) - 2]) (\<lambda>s1.
          rbind (erase2 p (int (Mapping.size platoon) - 1) (platoons s1)) (\<lambda>ps.
          rbind (erase2 p v (memberPositions s1)) (\<lambda>ms.
            Inr (s1\<lparr>platoons := ps, memberPositions := ms, vehToPlatoons := Mapping.delete v (vehToPlatoons s1)\<rparr>))))))))"

definition setPlatoonInformation :: "int \<Rightarrow> platoon_info \<Rightarrow> register \<Rightarrow> register" where
  "setPlatoonInformation p info s = s\<lparr>platoonInformation := Mapping.update p info (platoonInformation s)\<rparr>"

definition getPlatoonInformation :: "int \<Rightarrow> register \<Rightarrow> platoon_info" where
  "getPlatoonInformation p s = Mapping.lookup_default \<lparr>infoSpeed = -1, infoLane = -1\<rparr> (platoonInformation s) p"

text \<open>The fields the code leaves uninitialized for an unknown vehicle come from \<open>junk\<close>.\<close>

definition getVehicleInfo :: "vehicle_info \<Rightarrow> int \<Rightarrow> register \<Rightarrow> vehicle_info" where
  "getVehicleInfo junk v s = Mapping.lookup_default (junk\<lparr>infoId := -1, infoPlatoonId := -1\<rparr>) (vehicleInfos s) v"

definition platoonIdOf :: "int \<Rightarrow> register \<Rightarrow> int" where
  "platoonIdOf v s = Mapping.lookup_default (-1) (vehToPlatoons s) v"

definition inOrder :: "(int, int) mapping \<Rightarrow> int list" where
  "inOrder m = map (\<lambda>k. the (Mapping.lookup m k)) (Mapping.ordered_keys m)"

definition formationOf :: "int \<Rightarrow> register \<Rightarrow> int list result" where
  "formationOf v s = rbind (found (Mapping.lookup (platoons s) (platoonIdOf v s))) (\<lambda>m. Inr (inOrder m))"

definition positionOf :: "int \<Rightarrow> register \<Rightarrow> int result" where
  "positionOf v s =
     rbind (found (Mapping.lookup (memberPositions s) (platoonIdOf v s))) (\<lambda>m. found (Mapping.lookup m v))"

definition memberIdOf :: "int \<Rightarrow> int \<Rightarrow> register \<Rightarrow> int result" where
  "memberIdOf p i s = rbind (found (Mapping.lookup (platoons s) p)) (\<lambda>m. found (Mapping.lookup m i))"

section \<open>The register keeps a list of vehicles per platoon\<close>

text \<open>
  The abstraction: \<open>F\<close> gives the vehicles of every platoon in their order. The three maps of the
  register are three views of \<open>F\<close>.
\<close>

definition registers :: "(int \<Rightarrow> int list) \<Rightarrow> register \<Rightarrow> bool" where
  "registers F s \<longleftrightarrow>
     (\<forall>p i. Mapping.lookup (inner (platoons s) p) i = (if 0 \<le> i \<and> i < int (length (F p)) then Some (F p ! nat i) else None))
     \<and> (\<forall>p v i. Mapping.lookup (inner (memberPositions s) p) v = Some i \<longleftrightarrow> 0 \<le> i \<and> i < int (length (F p)) \<and> F p ! nat i = v)
     \<and> (\<forall>p v. Mapping.lookup (vehToPlatoons s) v = Some p \<longleftrightarrow> v \<in> set (F p))
     \<and> (\<forall>p. distinct (F p))"

lemma inner_put2 [simp]: "inner (put2 p k v m) q = (if q = p then Mapping.update k v (inner m p) else inner m q)"
  by (simp add: inner_def put2_def lookup_default_update')

lemma lookup_inner: "Mapping.lookup m p = Some x \<Longrightarrow> inner m p = x"
  by (simp add: inner_def Mapping.lookup_default_def)

lemma inner_present: "Mapping.lookup (inner m p) k = Some v \<Longrightarrow> Mapping.lookup m p = Some (inner m p)"
  by (auto simp: inner_def Mapping.lookup_default_def split: option.splits)

lemma registers_empty: "registers (\<lambda>_. []) emptyRegister"
  by (simp add: registers_def emptyRegister_def inner_def lookup_default_empty)

lemma registers_add:
  assumes r: "registers F s" and new: "\<forall>p. v \<notin> set (F p)" and pos: "infoPosition info = int (length (F (infoPlatoonId info)))"
  shows "registers (F(infoPlatoonId info := F (infoPlatoonId info) @ [v])) (addVehicleToPlatoon v info s)"
proof -
  have nv: "\<not> (i < length (F p) \<and> F p ! i = v)" for p i using new nth_mem by blast
  show ?thesis
    using r new pos nv unfolding registers_def addVehicleToPlatoon_def setVehicleInfo_def
    by (intro conjI; fastforce simp: lookup_update' nth_append split: if_splits)
qed
lemma size_inner:
  assumes "\<And>i. Mapping.lookup m i = (if 0 \<le> i \<and> i < int n then Some (g i) else None)"
  shows "Mapping.keys m = {0..<int n}" "Mapping.size m = n"
proof -
  show k: "Mapping.keys m = {0..<int n}" by (auto simp: keys_dom_lookup assms dom_def split: if_splits)
  then show "Mapping.size m = n" by (simp add: Mapping.size_def)
qed

text \<open>The vehicles behind the one at \<open>pos\<close> have moved forward up to position \<open>k\<close>.\<close>

definition moved :: "int list \<Rightarrow> int \<Rightarrow> int \<Rightarrow> int \<Rightarrow> register \<Rightarrow> register \<Rightarrow> bool" where
  "moved xs p pos k s t \<longleftrightarrow>
     (\<forall>i. Mapping.lookup (inner (platoons t) p) i =
        (if pos \<le> i \<and> i < k then Some (xs ! nat (i + 1)) else Mapping.lookup (inner (platoons s) p) i))
     \<and> (\<forall>i. pos \<le> i \<and> i < k \<longrightarrow> Mapping.lookup (inner (memberPositions t) p) (xs ! nat (i + 1)) = Some i)
     \<and> (\<forall>w. (\<forall>i. pos \<le> i \<and> i < k \<longrightarrow> w \<noteq> xs ! nat (i + 1)) \<longrightarrow>
          Mapping.lookup (inner (memberPositions t) p) w = Mapping.lookup (inner (memberPositions s) p) w)
     \<and> (\<forall>q. q \<noteq> p \<longrightarrow> inner (platoons t) q = inner (platoons s) q \<and> inner (memberPositions t) q = inner (memberPositions s) q)
     \<and> vehToPlatoons t = vehToPlatoons s"

lemma moveForward_loop:
  assumes r: "registers F s" and k: "pos \<le> k" and "0 \<le> pos" and "k \<le> int (length (F p)) - 1"
  shows "\<exists>t. foldM (moveForward p) s [pos..k - 1] = Inr t \<and> moved (F p) p pos k s t"
  using k assms(4)
proof (induction k rule: int_ge_induct)
  case base
  show ?case by (auto simp: moved_def)
next
  case (step k)
  then obtain t where t: "foldM (moveForward p) s [pos..k - 1] = Inr t" "moved (F p) p pos k s t" by auto
  have l: "Mapping.lookup (inner (platoons t) p) (k + 1) = Some (F p ! nat (k + 1))"
    using t(2) step.hyps step.prems r \<open>0 \<le> pos\<close> by (simp add: moved_def registers_def)
  define t' where "t' = t\<lparr>platoons := put2 p k (F p ! nat (k + 1)) (platoons t), memberPositions := put2 p (F p ! nat (k + 1)) k (memberPositions t)\<rparr>"
  have d: "F p ! nat (i + 1) \<noteq> F p ! nat (k + 1)" if "pos \<le> i" "i < k" for i
    using r that step.prems \<open>0 \<le> pos\<close> by (simp add: registers_def nth_eq_iff_index_eq)
  have "moveForward p t k = Inr t'" using l by (simp add: moveForward_def found_def t'_def)
  then have "foldM (moveForward p) s [pos..(k + 1) - 1] = Inr t'"
    using t(1) step.hyps by (simp add: upto_rec2 foldM_append)
  moreover have "moved (F p) p pos (k + 1) s t'"
    unfolding moved_def
  proof (intro conjI allI impI)
    fix i
    show "Mapping.lookup (inner (platoons t') p) i =
      (if pos \<le> i \<and> i < k + 1 then Some (F p ! nat (i + 1)) else Mapping.lookup (inner (platoons s) p) i)"
      using t(2) step.hyps by (auto simp: t'_def lookup_update' moved_def)
  next
    fix i assume "pos \<le> i \<and> i < k + 1"
    then show "Mapping.lookup (inner (memberPositions t') p) (F p ! nat (i + 1)) = Some i"
      using t(2) d [of i] by (cases "i = k") (auto simp: t'_def lookup_update' moved_def)
  next
    fix w assume w: "\<forall>i. pos \<le> i \<and> i < k + 1 \<longrightarrow> w \<noteq> F p ! nat (i + 1)"
    then have "w \<noteq> F p ! nat (k + 1)" "\<forall>i. pos \<le> i \<and> i < k \<longrightarrow> w \<noteq> F p ! nat (i + 1)" using step.hyps by auto
    then show "Mapping.lookup (inner (memberPositions t') p) w = Mapping.lookup (inner (memberPositions s) p) w"
      using t(2) by (simp add: t'_def lookup_update' moved_def)
  qed (use t(2) in \<open>simp_all add: t'_def moved_def\<close>)
  ultimately show ?case by blast
qed

lemma remove1_nth_distinct:
  assumes "distinct xs" "n < length xs" "xs ! n = v"
  shows "remove1 v xs = take n xs @ drop (Suc n) xs"
proof -
  have "xs = take n xs @ v # drop (Suc n) xs" using assms id_take_nth_drop by metis
  moreover from this assms(1) have "v \<notin> set (take n xs)"
    by (metis disjoint_iff distinct_append list.set_intros(1))
  ultimately show ?thesis by (metis remove1.simps(2) remove1_append)
qed

lemma lookup_delete': "Mapping.lookup (Mapping.delete k m) k' = (if k' = k then None else Mapping.lookup m k')"
  by (simp add: lookup_delete_neq)

lemma moved_positions:
  assumes dist: "distinct xs" and n: "n < length xs" "xs ! n = v"
    and mp: "\<And>w i. Mapping.lookup (inner (memberPositions s) p) w = Some i \<longleftrightarrow> 0 \<le> i \<and> i < int (length xs) \<and> xs ! nat i = w"
    and t: "moved xs p (int n) (int (length xs) - 1) s t"
  shows "(w \<noteq> v \<and> Mapping.lookup (inner (memberPositions t) p) w = Some i) \<longleftrightarrow>
    0 \<le> i \<and> i < int (length xs) - 1 \<and> (if i < int n then xs ! nat i else xs ! nat (i + 1)) = w"
proof (cases "\<exists>j. int n \<le> j \<and> j < int (length xs) - 1 \<and> w = xs ! nat (j + 1)")
  case True
  then obtain j where j: "int n \<le> j" "j < int (length xs) - 1" "w = xs ! nat (j + 1)" by blast
  then have "Mapping.lookup (inner (memberPositions t) p) w = Some j" "w \<noteq> v"
    using t dist n by (auto simp: moved_def nth_eq_iff_index_eq)
  then show ?thesis using j dist by (auto simp: nth_eq_iff_index_eq)
next
  case False
  then have "Mapping.lookup (inner (memberPositions t) p) w = Mapping.lookup (inner (memberPositions s) p) w"
    using t by (auto simp: moved_def)
  moreover have "i < int n" if "0 \<le> i" "i < int (length xs)" "xs ! nat i = w" "w \<noteq> v" for i
  proof (rule ccontr)
    assume "\<not> i < int n"
    moreover have "i \<noteq> int n" using that n by auto
    ultimately have "int n \<le> i - 1 \<and> i - 1 < int (length xs) - 1 \<and> w = xs ! nat (i - 1 + 1)" using that by auto
    with False show False by blast
  qed
  ultimately have l: "Mapping.lookup (inner (memberPositions t) p) w = Some i \<longleftrightarrow> 0 \<le> i \<and> i < int n \<and> xs ! nat i = w" if "w \<noteq> v"
    using that n by (auto simp: mp)
  have "\<not> (int n \<le> i \<and> i < int (length xs) - 1 \<and> xs ! nat (i + 1) = w)" using False by blast
  moreover have "xs ! nat i \<noteq> v" if "0 \<le> i" "i < int n" using that dist n by (auto simp: nth_eq_iff_index_eq)
  ultimately show ?thesis using l n by (cases "i < int n") auto
qed

lemma registers_remove:
  assumes r: "registers F s"
  shows "\<exists>t. removeVehicleFromPlatoon v s = Inr t \<and> registers (\<lambda>p. remove1 v (F p)) t"
proof (cases "Mapping.lookup (vehToPlatoons s) v")
  case None
  then have "v \<notin> set (F p)" for p using r unfolding registers_def by (metis option.distinct(1))
  then have "(\<lambda>p. remove1 v (F p)) = F" by (simp add: remove1_idem fun_eq_iff)
  then show ?thesis using None r by (simp add: removeVehicleFromPlatoon_def)
next
  case (Some p)
  define xs where "xs = F p"
  have dist: "distinct xs" and mem: "v \<in> set xs" using r Some by (auto simp: registers_def xs_def)
  have other: "v \<notin> set (F q)" if "q \<noteq> p" for q using r Some that unfolding registers_def by (metis option.inject)
  obtain n where n: "n < length xs" "xs ! n = v" using mem by (auto simp: in_set_conv_nth)
  have pl: "Mapping.lookup (inner (platoons s) p) i = (if 0 \<le> i \<and> i < int (length xs) then Some (xs ! nat i) else None)" for i
    using r by (simp add: registers_def xs_def)
  have mp: "Mapping.lookup (inner (memberPositions s) p) w = Some i \<longleftrightarrow> 0 \<le> i \<and> i < int (length xs) \<and> xs ! nat i = w" for w i
    using r by (simp add: registers_def xs_def)
  have v: "Mapping.lookup (inner (memberPositions s) p) v = Some (int n)" using n by (simp add: mp)
  have outer: "Mapping.lookup (platoons s) p = Some (inner (platoons s) p)"
    "Mapping.lookup (memberPositions s) p = Some (inner (memberPositions s) p)"
    using inner_present [OF v] inner_present [of "platoons s" p "int n" "xs ! n"] n(1) by (simp_all add: pl)
  have sz: "Mapping.size (inner (platoons s) p) = length xs" by (rule size_inner(2) [OF pl])
  let ?m = "int (length xs) - 1"
  obtain t where t: "foldM (moveForward p) s [int n..?m - 1] = Inr t" "moved xs p (int n) ?m s t"
    using moveForward_loop [OF r, of "int n" ?m p] n by (auto simp: xs_def)
  have last: "Mapping.lookup (inner (platoons t) p) ?m = Some (xs ! (length xs - 1))"
    using t(2) n(1) by (cases xs) (simp_all add: moved_def pl)
  have stay: "\<forall>i. int n \<le> i \<and> i < ?m \<longrightarrow> v \<noteq> xs ! nat (i + 1)"
  proof (intro allI impI)
    fix i assume i: "int n \<le> i \<and> i < ?m"
    then have "nat (i + 1) < length xs" "nat (i + 1) \<noteq> n" by linarith+
    then show "v \<noteq> xs ! nat (i + 1)" using dist n by (metis nth_eq_iff_index_eq)
  qed
  then have vt: "Mapping.lookup (inner (memberPositions t) p) v = Some (int n)" using t(2) v by (simp add: moved_def)
  define u where "u = t\<lparr>platoons := Mapping.update p (Mapping.delete ?m (inner (platoons t) p)) (platoons t),
    memberPositions := Mapping.update p (Mapping.delete v (inner (memberPositions t) p)) (memberPositions t),
    vehToPlatoons := Mapping.delete v (vehToPlatoons t)\<rparr>"
  have "removeVehicleFromPlatoon v s = Inr u"
    using Some outer v sz t(1) last vt by (simp add: removeVehicleFromPlatoon_def found_def erase2_def u_def)
  moreover have "registers (\<lambda>q. remove1 v (F q)) u"
    unfolding registers_def
  proof (intro conjI allI)
    have rem: "remove1 v xs = take n xs @ drop (Suc n) xs" by (rule remove1_nth_distinct [OF dist n])
    have ui: "inner (platoons u) q = (if q = p then Mapping.delete ?m (inner (platoons t) p) else inner (platoons s) q)"
      "inner (memberPositions u) q = (if q = p then Mapping.delete v (inner (memberPositions t) p) else inner (memberPositions s) q)" for q
      using t(2) by (simp_all add: u_def inner_def lookup_default_update' moved_def)
    have len: "int (length (remove1 v xs)) = ?m" using n by (simp add: rem)
    have nth: "remove1 v xs ! nat i = (if i < int n then xs ! nat i else xs ! nat (i + 1))" if "0 \<le> i" "i < ?m" for i
      using that n by (auto simp: rem nth_append nat_add_distrib min_def less_imp_le nth_drop)
    { fix q i
      show "Mapping.lookup (inner (platoons u) q) i = (if 0 \<le> i \<and> i < int (length (remove1 v (F q))) then Some (remove1 v (F q) ! nat i) else None)"
      proof (cases "q = p")
        case True
        have "Mapping.lookup (inner (platoons u) p) i =
          (if 0 \<le> i \<and> i < ?m then Some (if i < int n then xs ! nat i else xs ! nat (i + 1)) else None)"
          using t(2) n by (auto simp: ui moved_def pl lookup_delete')
        then show ?thesis using True len nth by (simp add: xs_def)
      next
        case False
        then show ?thesis using r other [OF False] by (simp add: ui registers_def remove1_idem)
      qed }
    show "distinct (remove1 v (F q))" for q using r by (simp add: registers_def)
    { fix q w
      show "(Mapping.lookup (vehToPlatoons u) w = Some q) = (w \<in> set (remove1 v (F q)))"
        using r t(2) other [of q] dist Some
        by (cases "w = v") (auto simp: u_def moved_def registers_def xs_def) }
    { fix q w i
      show "(Mapping.lookup (inner (memberPositions u) q) w = Some i) =
        (0 \<le> i \<and> i < int (length (remove1 v (F q))) \<and> remove1 v (F q) ! nat i = w)"
      proof (cases "q = p")
        case False
        then show ?thesis using r other [OF False] by (simp add: ui registers_def remove1_idem)
      next
        case True
        have "(Mapping.lookup (inner (memberPositions u) p) w = Some i) = (0 \<le> i \<and> i < ?m \<and> remove1 v xs ! nat i = w)"
        proof -
          have "Mapping.lookup (inner (memberPositions u) p) w = Some i \<longleftrightarrow> w \<noteq> v \<and> Mapping.lookup (inner (memberPositions t) p) w = Some i"
            by (simp add: ui lookup_delete')
          also have "\<dots> \<longleftrightarrow> 0 \<le> i \<and> i < ?m \<and> (if i < int n then xs ! nat i else xs ! nat (i + 1)) = w"
            by (rule moved_positions [OF dist n mp t(2)])
          finally show ?thesis using nth by auto
        qed
        then show ?thesis using True len by (simp add: xs_def)
      qed }
  qed
  ultimately show ?thesis by blast
qed
lemma inOrder_list:
  assumes m: "\<And>i. Mapping.lookup m i = (if 0 \<le> i \<and> i < int (length xs) then Some (xs ! nat i) else None)"
  shows "inOrder m = xs"
proof -
  have k: "Mapping.keys m = {0..<int (length xs)}" by (rule size_inner(1) [OF m])
  have "Mapping.ordered_keys m = map int [0..<length xs]"
  proof (rule sorted_distinct_set_unique)
    show "set (Mapping.ordered_keys m) = set (map int [0..<length xs])"
      by (simp add: k image_int_atLeastLessThan)
  qed (simp_all add: distinct_map sorted_map)
  then show ?thesis by (auto simp: inOrder_def m intro: nth_equalityI)
qed

lemma lookup_default_Some: "Mapping.lookup m k = Some x \<Longrightarrow> Mapping.lookup_default d m k = x"
  by (simp add: Mapping.lookup_default_def)

lemma registers_queries:
  assumes r: "registers F s" and v: "v \<in> set (F p)"
  shows "platoonIdOf v s = p" "formationOf v s = Inr (F p)"
    "\<exists>i. positionOf v s = Inr i \<and> 0 \<le> i \<and> i < int (length (F p)) \<and> F p ! nat i = v \<and> memberIdOf p i s = Inr v"
proof -
  show p: "platoonIdOf v s = p"
    using r v registers_def [of F s] by (metis lookup_default_Some platoonIdOf_def)
  obtain n where n: "n < length (F p)" "F p ! n = v" using v by (auto simp: in_set_conv_nth)
  have pl: "Mapping.lookup (inner (platoons s) p) i = (if 0 \<le> i \<and> i < int (length (F p)) then Some (F p ! nat i) else None)" for i
    using r by (simp add: registers_def)
  have mp: "Mapping.lookup (inner (memberPositions s) p) v = Some (int n)" using r n by (simp add: registers_def)
  have outer: "Mapping.lookup (platoons s) p = Some (inner (platoons s) p)"
    "Mapping.lookup (memberPositions s) p = Some (inner (memberPositions s) p)"
    using inner_present [OF mp] inner_present [of "platoons s" p "int n" v] n by (simp_all add: pl)
  show "formationOf v s = Inr (F p)"
    using outer(1) inOrder_list [OF pl] by (simp add: formationOf_def p found_def)
  show "\<exists>i. positionOf v s = Inr i \<and> 0 \<le> i \<and> i < int (length (F p)) \<and> F p ! nat i = v \<and> memberIdOf p i s = Inr v"
    using outer mp n by (intro exI [of _ "int n"]) (simp add: positionOf_def memberIdOf_def p found_def pl)
qed

datatype register_op = AddVehicle int vehicle_info | RemoveVehicle int

fun registerStep :: "register \<Rightarrow> register_op \<Rightarrow> register result" where
  "registerStep s (AddVehicle v info) = Inr (addVehicleToPlatoon v info s)"
| "registerStep s (RemoveVehicle v) = removeVehicleFromPlatoon v s"

text \<open>What the operations mean for the lists, and when a vehicle may be added: at the end, and only once.\<close>

fun listStep :: "(int \<Rightarrow> int list) \<Rightarrow> register_op \<Rightarrow> (int \<Rightarrow> int list)" where
  "listStep F (AddVehicle v info) = F(infoPlatoonId info := F (infoPlatoonId info) @ [v])"
| "listStep F (RemoveVehicle v) = (\<lambda>p. remove1 v (F p))"

fun appends :: "(int \<Rightarrow> int list) \<Rightarrow> register_op list \<Rightarrow> bool" where
  "appends F [] = True"
| "appends F (AddVehicle v info # ops) =
     ((\<forall>p. v \<notin> set (F p)) \<and> infoPosition info = int (length (F (infoPlatoonId info))) \<and> appends (listStep F (AddVehicle v info)) ops)"
| "appends F (RemoveVehicle v # ops) = appends (listStep F (RemoveVehicle v)) ops"

lemma register_run:
  "registers F s \<Longrightarrow> appends F ops \<Longrightarrow> \<exists>t. foldM registerStep s ops = Inr t \<and> registers (foldl listStep F ops) t"
proof (induction ops arbitrary: F s)
  case Nil
  then show ?case by simp
next
  case (Cons x ops)
  show ?case
  proof (cases x)
    case (AddVehicle v info)
    then have "registers (listStep F x) (addVehicleToPlatoon v info s)"
      using registers_add [OF Cons.prems(1)] Cons.prems(2) by simp
    then show ?thesis using Cons.IH [of "listStep F x"] Cons.prems(2) AddVehicle by (simp del: listStep.simps)
  next
    case (RemoveVehicle v)
    then obtain t where "removeVehicleFromPlatoon v s = Inr t" "registers (listStep F x) t"
      using registers_remove [OF Cons.prems(1), of v] by auto
    then show ?thesis using Cons.IH [of "listStep F x" t] Cons.prems(2) RemoveVehicle by simp
  qed
qed

text \<open>
  The register of platoons implements one list of vehicles per platoon: after any vehicles have
  been added at the end of platoons and removed from anywhere, nothing has failed, and every
  vehicle finds its platoon, its position and the whole formation as the lists have them; the
  vehicles behind a removed one have moved forward by one.
\<close>

theorem register_refines_lists:
  assumes "appends (\<lambda>_. []) ops"
  shows "\<exists>s. foldM registerStep emptyRegister ops = Inr s \<and>
    (\<forall>p. \<forall>v \<in> set (foldl listStep (\<lambda>_. []) ops p).
       platoonIdOf v s = p \<and> formationOf v s = Inr (foldl listStep (\<lambda>_. []) ops p)
       \<and> (\<exists>i. positionOf v s = Inr i \<and> memberIdOf p i s = Inr v \<and> foldl listStep (\<lambda>_. []) ops p ! nat i = v))"
  using register_run [OF registers_empty assms] registers_queries by blast

definition demo_vehicle :: "int \<Rightarrow> int \<Rightarrow> vehicle_info" where
  "demo_vehicle v pos = \<lparr>infoController = CACC, infoDistance = 5, infoHeadway = 0, infoId = v, infoPlatoonId = 0, infoPosition = pos\<rparr>"

lemma register_refines_lists_witness:
  "\<exists>s. foldM registerStep emptyRegister
      [AddVehicle 7 (demo_vehicle 7 0), AddVehicle 8 (demo_vehicle 8 1), AddVehicle 9 (demo_vehicle 9 2), RemoveVehicle 8] = Inr s
    \<and> formationOf 9 s = Inr [7, 9]"
  using register_refines_lists [of "[AddVehicle 7 (demo_vehicle 7 0), AddVehicle 8 (demo_vehicle 8 1), AddVehicle 9 (demo_vehicle 9 2), RemoveVehicle 8]"]
  by (auto simp: demo_vehicle_def)

section \<open>What a vehicle knows about its platoon\<close>

record position_helper =
  myId :: int
  leaderId :: int
  frontId :: int
  backId :: int
  position :: int
  platoonId :: int
  platoonLane :: int
  platoonSpeed :: real
  formation :: "int list"
  memberToPosition :: "(int, int) mapping"
  helperDistance :: real
  helperHeadway :: real

definition vec_at :: "'a list \<Rightarrow> int \<Rightarrow> 'a result" where
  "vec_at xs i = (if 0 \<le> i \<and> i < int (length xs) then Inr (xs ! nat i) else Inl OutOfRange)"

definition positionsIn :: "int list \<Rightarrow> (int, int) mapping" where
  "positionsIn f = fold (\<lambda>i m. Mapping.update (f ! i) (int i) m) [0..<length f] Mapping.empty"

definition getMemberPosition :: "position_helper \<Rightarrow> int \<Rightarrow> int" where
  "getMemberPosition h v = Mapping.lookup_default (-1) (memberToPosition h) v"

definition isLeader :: "position_helper \<Rightarrow> bool" where "isLeader h \<longleftrightarrow> leaderId h = myId h"

text \<open>The position is compared with an unsigned number: a negative one is not the last.\<close>

definition isLast :: "position_helper \<Rightarrow> bool" where "isLast h \<longleftrightarrow> position h = int (length (formation h)) - 1 \<and> 0 \<le> position h"

definition getFrontId :: "position_helper \<Rightarrow> int" where "getFrontId h = (if isLeader h then -1 else frontId h)"

definition getMemberId :: "position_helper \<Rightarrow> int \<Rightarrow> int" where
  "getMemberId h i = (if 0 \<le> i \<and> i < int (length (formation h)) then formation h ! nat i else -1)"

definition isInSamePlatoon :: "position_helper \<Rightarrow> int \<Rightarrow> bool" where
  "isInSamePlatoon h v \<longleftrightarrow> getMemberPosition h v \<noteq> -1"

definition getPlatoonSize :: "position_helper \<Rightarrow> int" where "getPlatoonSize h = int (length (formation h))"

text \<open>The second component is what the leader tells the simulator: its members and their positions.\<close>

definition setVariablesAfterFormationChange :: "position_helper \<Rightarrow> (position_helper \<times> (int \<times> int) list) result" where
  "setVariablesAfterFormationChange h =
     (let h1 = h\<lparr>memberToPosition := positionsIn (formation h)\<rparr>;
          h2 = h1\<lparr>position := getMemberPosition h1 (myId h)\<rparr> in
      rbind (vec_at (formation h) 0) (\<lambda>l.
      let h3 = h2\<lparr>leaderId := l\<rparr> in
      rbind (if isLeader h3 then Inr (-1) else vec_at (formation h) (position h3 - 1)) (\<lambda>f.
      rbind (if isLast h3 then Inr (-1) else vec_at (formation h) (position h3 + 1)) (\<lambda>b.
        Inr (h3\<lparr>frontId := f, backId := b\<rparr>,
             if isLeader h3 then map (\<lambda>i. (getMemberId h3 i, i)) [1..getPlatoonSize h3 - 1] else [])))))"

definition setPlatoonFormation :: "int list \<Rightarrow> position_helper \<Rightarrow> (position_helper \<times> (int \<times> int) list) result" where
  "setPlatoonFormation f h = setVariablesAfterFormationChange (h\<lparr>formation := f\<rparr>)"

text \<open>
  The second stage of the initialization: the vehicle looks itself up in the register. Its
  active controller is set to the one of its entry, the third component.
\<close>

definition helperInitialize :: "vehicle_info \<Rightarrow> register \<Rightarrow> position_helper \<Rightarrow> (position_helper \<times> (int \<times> int) list \<times> controller) result" where
  "helperInitialize junk s h =
     rbind (formationOf (myId h) s) (\<lambda>f.
     rbind (positionOf (myId h) s) (\<lambda>pos.
     let p = platoonIdOf (myId h) s; info = getPlatoonInformation p s; v = getVehicleInfo junk (myId h) s in
     rbind (setVariablesAfterFormationChange
       (h\<lparr>formation := f, position := pos, platoonId := p, platoonSpeed := infoSpeed info, platoonLane := infoLane info,
          helperDistance := infoDistance v, helperHeadway := infoHeadway v\<rparr>)) (\<lambda>(h', members).
       Inr (h', members, infoController v))))"
lemma lookup_positionsIn:
  assumes "distinct f"
  shows "Mapping.lookup (positionsIn f) v = Some i \<longleftrightarrow> 0 \<le> i \<and> i < int (length f) \<and> f ! nat i = v"
proof -
  have "k \<le> length f \<Longrightarrow> Mapping.lookup (fold (\<lambda>i m. Mapping.update (f ! i) (int i) m) [0..<k] Mapping.empty) v = Some i
    \<longleftrightarrow> 0 \<le> i \<and> i < int k \<and> f ! nat i = v" for k
  proof (induction k)
    case 0
    then show ?case by simp
  next
    case (Suc k)
    then show ?case using assms
      by (cases "f ! k = v") (auto simp: lookup_update' nth_eq_iff_index_eq less_Suc_eq nat_less_iff)
  qed
  then show ?thesis by (simp add: positionsIn_def)
qed

text \<open>What the fields of a helper mean when its formation is \<open>f\<close> and its vehicle is number \<open>n\<close> in it.\<close>

definition at_position :: "int list \<Rightarrow> nat \<Rightarrow> position_helper \<Rightarrow> bool" where
  "at_position f n h \<longleftrightarrow> formation h = f \<and> position h = int n \<and> leaderId h = f ! 0
     \<and> (\<forall>v i. Mapping.lookup (memberToPosition h) v = Some i \<longleftrightarrow> 0 \<le> i \<and> i < int (length f) \<and> f ! nat i = v)
     \<and> frontId h = (if n = 0 then -1 else f ! (n - 1))
     \<and> backId h = (if Suc n = length f then -1 else f ! Suc n)"

text \<open>What a change of the formation leaves alone.\<close>

definition same_vehicle :: "position_helper \<Rightarrow> position_helper \<Rightarrow> bool" where
  "same_vehicle h h' \<longleftrightarrow> myId h' = myId h \<and> platoonId h' = platoonId h \<and> platoonLane h' = platoonLane h
     \<and> platoonSpeed h' = platoonSpeed h \<and> formation h' = formation h \<and> helperDistance h' = helperDistance h \<and> helperHeadway h' = helperHeadway h"

lemma members_told:
  "map (\<lambda>i. (getMemberId h i, i)) [1..getPlatoonSize h - 1] = map (\<lambda>i. (formation h ! nat i, i)) [1..int (length (formation h)) - 1]"
  by (auto simp: getMemberId_def getPlatoonSize_def)

lemma setVariables_at_position:
  assumes f: "distinct (formation h)" "n < length (formation h)" "formation h ! n = myId h"
  shows "\<exists>h' ms. setVariablesAfterFormationChange h = Inr (h', ms) \<and> at_position (formation h) n h'
    \<and> same_vehicle h h'
    \<and> ms = (if n = 0 then map (\<lambda>i. (formation h ! nat i, i)) [1..int (length (formation h)) - 1] else [])"
proof -
  let ?f = "formation h"
  have pos: "Mapping.lookup (positionsIn ?f) (myId h) = Some (int n)" using f by (simp add: lookup_positionsIn)
  have lead: "?f ! 0 = myId h \<longleftrightarrow> n = 0" using f by (metis gr_zeroI length_greater_0_conv list.size(3) not_less_zero nth_eq_iff_index_eq)
  have ne: "?f \<noteq> []" using f by auto
  define h3 where "h3 = h\<lparr>memberToPosition := positionsIn ?f, position := int n, leaderId := ?f ! 0\<rparr>"
  have h3: "isLeader h3 \<longleftrightarrow> n = 0" "isLast h3 \<longleftrightarrow> Suc n = length ?f" "position h3 = int n"
    using f by (auto simp: h3_def isLeader_def isLast_def lead)
  define h' where "h' = h3\<lparr>frontId := (if n = 0 then -1 else ?f ! (n - 1)), backId := (if Suc n = length ?f then -1 else ?f ! Suc n)\<rparr>"
  define ms where "ms = (if n = 0 then map (\<lambda>i. (?f ! nat i, i)) [1..int (length ?f) - 1] else [])"
  have "vec_at ?f 0 = Inr (?f ! 0)" using ne by (simp add: vec_at_def)
  moreover have "n \<noteq> 0 \<Longrightarrow> vec_at ?f (int n - 1) = Inr (?f ! (n - 1))" using f by (simp add: vec_at_def nat_diff_distrib)
  moreover have "Suc n \<noteq> length ?f \<Longrightarrow> vec_at ?f (int n + 1) = Inr (?f ! Suc n)" using f by (simp add: vec_at_def nat_add_distrib)
  ultimately have "setVariablesAfterFormationChange h = Inr (h', ms)"
    using h3 pos
    by (simp add: setVariablesAfterFormationChange_def getMemberPosition_def lookup_default_Some [OF pos] Let_def h'_def ms_def
        h3_def [symmetric] members_told del: upto.simps)
       (cases "n = 0"; simp add: h3_def)
  moreover have "at_position ?f n h'"
    using f by (simp add: at_position_def h'_def h3_def lookup_positionsIn)
  ultimately show ?thesis unfolding ms_def by (intro exI [of _ h'] exI) (simp add: h'_def h3_def same_vehicle_def)
qed

lemma at_position_queries:
  assumes "at_position f n h" "distinct f" "n < length f" "f ! n = myId h"
  shows "isLeader h \<longleftrightarrow> n = 0" "isLast h \<longleftrightarrow> Suc n = length f" "getFrontId h = (if n = 0 then -1 else f ! (n - 1))"
    "j < length f \<Longrightarrow> getMemberId h (int j) = f ! j" "j < length f \<Longrightarrow> getMemberPosition h (f ! j) = int j"
    "isInSamePlatoon h v \<longleftrightarrow> v \<in> set f"
proof -
  show lead: "isLeader h \<longleftrightarrow> n = 0"
    using assms unfolding isLeader_def at_position_def
    by (metis gr_zeroI length_greater_0_conv list.size(3) not_less_zero nth_eq_iff_index_eq)
  show "isLast h \<longleftrightarrow> Suc n = length f" using assms by (auto simp: isLast_def at_position_def)
  show "getFrontId h = (if n = 0 then -1 else f ! (n - 1))" using assms lead by (simp add: getFrontId_def at_position_def)
  show "getMemberId h (int j) = f ! j" if "j < length f" using assms that by (simp add: getMemberId_def at_position_def)
  have l: "Mapping.lookup (memberToPosition h) v = Some i \<longleftrightarrow> 0 \<le> i \<and> i < int (length f) \<and> f ! nat i = v" for v i
    using assms by (simp add: at_position_def)
  then show "getMemberPosition h (f ! j) = int j" if "j < length f"
    unfolding getMemberPosition_def using that by (intro lookup_default_Some) simp
  show "isInSamePlatoon h v \<longleftrightarrow> v \<in> set f"
  proof (cases "Mapping.lookup (memberToPosition h) v")
    case None
    then have "v \<notin> set f" using l [of v] by (metis in_set_conv_nth nat_int of_nat_0_le_iff of_nat_less_iff option.distinct(1))
    then show ?thesis using None by (simp add: isInSamePlatoon_def getMemberPosition_def Mapping.lookup_default_def)
  next
    case (Some i)
    then show ?thesis using l [of v i] by (auto simp: isInSamePlatoon_def getMemberPosition_def lookup_default_Some [OF Some])
  qed
qed
lemma helperInitialize_at_position:
  assumes r: "registers F s" and n: "n < length (F p)" "F p ! n = myId h"
  shows "\<exists>h' ms. helperInitialize junk s h = Inr (h', ms, infoController (getVehicleInfo junk (myId h) s))
    \<and> at_position (F p) n h' \<and> myId h' = myId h \<and> platoonId h' = p
    \<and> platoonSpeed h' = infoSpeed (getPlatoonInformation p s) \<and> platoonLane h' = infoLane (getPlatoonInformation p s)"
proof -
  have v: "myId h \<in> set (F p)" using n nth_mem by metis
  obtain i where i: "positionOf (myId h) s = Inr i" using registers_queries(3) [OF r v] by blast
  define h1 where "h1 = h\<lparr>formation := F p, position := i, platoonId := p,
    platoonSpeed := infoSpeed (getPlatoonInformation p s), platoonLane := infoLane (getPlatoonInformation p s),
    helperDistance := infoDistance (getVehicleInfo junk (myId h) s), helperHeadway := infoHeadway (getVehicleInfo junk (myId h) s)\<rparr>"
  have "distinct (F p)" using r by (simp add: registers_def)
  then obtain h' ms where h': "setVariablesAfterFormationChange h1 = Inr (h', ms)" "at_position (F p) n h'"
    "same_vehicle h1 h'"
    using setVariables_at_position [of h1 n] n by (auto simp: h1_def)
  have "helperInitialize junk s h = Inr (h', ms, infoController (getVehicleInfo junk (myId h) s))"
    using registers_queries(1,2) [OF r v] i h'(1) by (simp add: helperInitialize_def Let_def h1_def)
  then show ?thesis using h' by (auto simp: h1_def same_vehicle_def)
qed

text \<open>
  The vehicles of a platoon agree about it. Two vehicles that follow each other in a
  registered platoon initialize without an error; the one is the vehicle behind the other and the
  other is the vehicle in front of the one, both know the same leader, lane and speed, and each finds
  the other at its position.
\<close>

theorem neighbours_agree:
  assumes r: "registers F s" and n: "Suc n < length (F p)" and ids: "myId a = F p ! n" "myId b = F p ! Suc n"
  shows "\<exists>a' ma b' mb c d. helperInitialize junk s a = Inr (a', ma, c) \<and> helperInitialize junk s b = Inr (b', mb, d)
    \<and> backId a' = myId b \<and> getFrontId b' = myId a \<and> leaderId a' = leaderId b'
    \<and> (isLeader a' \<longleftrightarrow> n = 0) \<and> \<not> isLeader b' \<and> \<not> isLast a' \<and> (isLast b' \<longleftrightarrow> n + 2 = length (F p))
    \<and> getMemberId a' (position b') = myId b \<and> getMemberPosition b' (myId a) = position a'
    \<and> platoonLane a' = platoonLane b' \<and> platoonSpeed a' = platoonSpeed b' \<and> platoonId a' = p \<and> platoonId b' = p"
proof -
  have d: "distinct (F p)" using r by (simp add: registers_def)
  obtain a' ma where a: "helperInitialize junk s a = Inr (a', ma, infoController (getVehicleInfo junk (myId a) s))" "at_position (F p) n a'"
    "myId a' = myId a" "platoonId a' = p" "platoonSpeed a' = infoSpeed (getPlatoonInformation p s)" "platoonLane a' = infoLane (getPlatoonInformation p s)"
    using helperInitialize_at_position [OF r, of n p a junk] n ids by auto
  obtain b' mb where b: "helperInitialize junk s b = Inr (b', mb, infoController (getVehicleInfo junk (myId b) s))" "at_position (F p) (Suc n) b'"
    "myId b' = myId b" "platoonId b' = p" "platoonSpeed b' = infoSpeed (getPlatoonInformation p s)" "platoonLane b' = infoLane (getPlatoonInformation p s)"
    using helperInitialize_at_position [OF r, of "Suc n" p b junk] n ids by auto
  note qa = at_position_queries [OF a(2) d] and qb = at_position_queries [OF b(2) d]
  have "getMemberId a' (int (Suc n)) = F p ! Suc n" "getMemberPosition b' (F p ! n) = int n"
    using qa(4) [of "Suc n"] qb(5) [of n] n ids a(3) b(3) by auto
  moreover have "backId a' = F p ! Suc n" "position a' = int n" "position b' = int (Suc n)" "leaderId a' = leaderId b'"
    using a(2) b(2) n by (auto simp: at_position_def)
  moreover have "isLeader a' \<longleftrightarrow> n = 0" "\<not> isLast a'" "\<not> isLeader b'" "isLast b' \<longleftrightarrow> n + 2 = length (F p)" "getFrontId b' = F p ! n"
    using qa(1,2) qb(1,2,3) n ids a(3) b(3) by auto
  ultimately show ?thesis using a b ids
    by (intro exI [of _ a'] exI [of _ ma] exI [of _ b'] exI [of _ mb] exI conjI; simp)
qed

definition demo_helper :: "int \<Rightarrow> position_helper" where
  "demo_helper v = \<lparr>myId = v, leaderId = -1, frontId = -1, backId = -1, position = -1, platoonId = -1, platoonLane = -1, platoonSpeed = -1,
     formation = [], memberToPosition = Mapping.empty, helperDistance = 0, helperHeadway = 0\<rparr>"

lemma neighbours_agree_witness:
  "\<exists>s a' ma b' mb c d. foldM registerStep emptyRegister [AddVehicle 7 (demo_vehicle 7 0), AddVehicle 8 (demo_vehicle 8 1)] = Inr s
    \<and> helperInitialize (demo_vehicle 0 0) s (demo_helper 7) = Inr (a', ma, c) \<and> helperInitialize (demo_vehicle 0 0) s (demo_helper 8) = Inr (b', mb, d)
    \<and> backId a' = 8 \<and> getFrontId b' = 7"
proof -
  let ?F = "foldl listStep (\<lambda>_. []) [AddVehicle 7 (demo_vehicle 7 0), AddVehicle 8 (demo_vehicle 8 1)]"
  obtain s where s: "foldM registerStep emptyRegister [AddVehicle 7 (demo_vehicle 7 0), AddVehicle 8 (demo_vehicle 8 1)] = Inr s" "registers ?F s"
    using register_run [OF registers_empty, of "[AddVehicle 7 (demo_vehicle 7 0), AddVehicle 8 (demo_vehicle 8 1)]"]
    by (auto simp: demo_vehicle_def)
  then show ?thesis
    using neighbours_agree [OF s(2), of 0 0 "demo_helper 7" "demo_helper 8" "demo_vehicle 0 0"]
    by (auto simp: demo_helper_def demo_vehicle_def)
qed

text \<open>
  A formation that does not contain the vehicle itself, or no vehicle at all, cannot be set:
  the code reads a place outside of the vector.
\<close>

theorem formation_without_me:
  assumes "myId h \<notin> set f"
  shows "setPlatoonFormation f h = Inl OutOfRange"
proof (cases "f = []")
  case True
  then show ?thesis by (simp add: setPlatoonFormation_def setVariablesAfterFormationChange_def vec_at_def)
next
  case False
  have "v \<in> set f" if "Mapping.lookup (positionsIn f) v = Some i" for v i
  proof -
    have "k \<le> length f \<Longrightarrow> Mapping.lookup (fold (\<lambda>i m. Mapping.update (f ! i) (int i) m) [0..<k] Mapping.empty) v \<noteq> None \<Longrightarrow> v \<in> set f" for k
      by (induction k) (auto simp: lookup_update' split: if_splits)
    then show ?thesis using that by (auto simp: positionsIn_def)
  qed
  then have "Mapping.lookup (positionsIn f) (myId h) = None" using assms by fastforce
  moreover have "f ! 0 \<noteq> myId h" using assms False by (metis length_greater_0_conv nth_mem)
  ultimately show ?thesis using False
    by (simp add: setPlatoonFormation_def setVariablesAfterFormationChange_def vec_at_def Let_def
        isLeader_def getMemberPosition_def Mapping.lookup_default_def)
qed

lemma formation_without_me_witness: "setPlatoonFormation [0, 1, 2, 3] (demo_helper 4) = Inl OutOfRange"
  using formation_without_me [of "demo_helper 4" "[0, 1, 2, 3]"] by (simp add: demo_helper_def)

section \<open>Vehicle ids\<close>

text \<open>\<open>find_last_of\<close> and \<open>substr\<close>: what follows the last dot, or everything when there is none.\<close>

definition afterLastDot :: "string \<Rightarrow> string" where
  "afterLastDot s = List.rev (takeWhile (\<lambda>c. c \<noteq> CHR ''.'') (List.rev s))"

definition getIdFromExternalId :: "string \<Rightarrow> int" where
  "getIdFromExternalId s = fst (strtol (afterLastDot s))"

definition externalIdOf :: "string \<Rightarrow> nat \<Rightarrow> string" where
  "externalIdOf vtype n = vtype @ ''.'' @ nat_to_string n"

lemma externalId_id:
  assumes "n < 2 ^ 31"
  shows "getIdFromExternalId (externalIdOf vtype n) = int n"
proof -
  have "\<And>c. c \<in> set (List.rev (nat_to_string n)) \<Longrightarrow> c \<noteq> CHR ''.''"
  proof -
    fix c assume "c \<in> set (List.rev (nat_to_string n))"
    then have "isdigit c" using nat_to_string_digits [of n] by (simp add: list_all_iff)
    moreover have "\<not> isdigit CHR ''.''" by (simp add: isdigit_def)
    ultimately show "c \<noteq> CHR ''.''" by metis
  qed
  then have "takeWhile (\<lambda>c. c \<noteq> CHR ''.'') (List.rev (nat_to_string n) @ CHR ''.'' # List.rev vtype) = List.rev (nat_to_string n)"
    by (subst takeWhile_append2) simp_all
  then have "afterLastDot (externalIdOf vtype n) = nat_to_string n"
    by (simp add: afterLastDot_def externalIdOf_def)
  moreover have "n < 2 ^ 63" using assms by simp
  ultimately show ?thesis by (simp add: getIdFromExternalId_def strtol_nat)
qed

text \<open>
  The name under which the traffic manager inserts a vehicle, its type and its number, gives the
  vehicle that number as its id, whatever the type is called.
\<close>

theorem vehicle_id_roundtrip:
  assumes "n < 2 ^ 31"
  shows "getIdFromExternalId (externalIdOf vtype n) = int n"
  by (rule externalId_id [OF assms])

lemma vehicle_id_roundtrip_witness: "getIdFromExternalId (externalIdOf ''vtype.auto'' 12) = 12"
proof -
  have "(12::nat) < 2 ^ 31" by simp
  then show ?thesis using vehicle_id_roundtrip [of 12 "''vtype.auto''"] by (simp only: of_nat_numeral)
qed

end
