(* ===== verification/PlatoonTraffic.thy ===== *)
theory PlatoonTraffic
  imports PlatoonPositions
begin

text \<open>
  How platoons come into the simulation: \<open>plexe/traffic/PlatoonsTrafficManager.cc\<close> computes where the
  vehicles of all platoons start, queues them and registers them;
  \<open>plexe/mobility/TraCIBaseTrafficManager.cc\<close> hands the queued vehicles to SUMO, one attempt per
  vehicle and time step until SUMO accepts it.

  \<^item> The offsets of the lanes, drawn at random, and the answers of SUMO are parameters.
  \<^item> Positions and speeds are reals (\<open>float\<close> in the queue).
  \<^item> An integer division by zero is an error of the model.
\<close>

section \<open>Where the vehicles start\<close>

record queued_vehicle =
  vehType :: int
  vehLane :: int
  vehPosition :: real
  vehSpeed :: real
  vehFixedId :: int

record platoons_params =
  nCars :: nat
  sizeOfPlatoon :: nat
  nLanes :: nat
  insertSpeed :: real
  insertDistance :: real
  insertHeadway :: real
  leaderHeadway :: real
  additionalDistance :: real
  memberController :: controller
  autoType :: int

record insertion =
  roadPosition :: real
  nextPosition :: nat
  nextId :: nat
  basePlatoon :: nat
  queued :: "queued_vehicle list"
  reg :: register

definition vehicleGap :: "platoons_params \<Rightarrow> real" where
  "vehicleGap par = insertSpeed par / 3.6 * insertHeadway par + insertDistance par"

definition platoonGap :: "platoons_params \<Rightarrow> real" where
  "platoonGap par = insertSpeed par / 3.6 * leaderHeadway par + additionalDistance par"

definition platoonLength :: "platoons_params \<Rightarrow> real" where
  "platoonLength par = real (sizeOfPlatoon par) * 4 + (real (sizeOfPlatoon par) - 1) * vehicleGap par"

definition platoonsPerLane :: "platoons_params \<Rightarrow> nat" where
  "platoonsPerLane par = nCars par div sizeOfPlatoon par div nLanes par"

definition totalLengthOf :: "platoons_params \<Rightarrow> real" where
  "totalLengthOf par = real (platoonsPerLane par) * platoonLength par + (real (platoonsPerLane par) - 1) * platoonGap par"

text \<open>The body of the inner loop: one vehicle on lane \<open>l\<close>.\<close>

definition insertOne :: "platoons_params \<Rightarrow> (nat \<Rightarrow> real) \<Rightarrow> nat \<Rightarrow> insertion \<Rightarrow> insertion" where
  "insertOne par laneOffset l st =
     (let first = (nextPosition st = 0);
          info = \<lparr>infoController = (if first then ACC else memberController par),
                  infoDistance = (if first then 2 else insertDistance par),
                  infoHeadway = (if first then leaderHeadway par else insertHeadway par),
                  infoId = int (nextId st), infoPlatoonId = int (basePlatoon st + l), infoPosition = int (nextPosition st)\<rparr>;
          v = \<lparr>vehType = autoType par, vehLane = int l, vehPosition = roadPosition st + laneOffset l,
               vehSpeed = insertSpeed par / 3.6, vehFixedId = -1\<rparr>;
          r = addVehicleToPlatoon (int (nextId st)) info (reg st)
      in st\<lparr>queued := queued st @ [v], nextId := nextId st + 1,
            reg := (if first then setPlatoonInformation (infoPlatoonId info) \<lparr>infoSpeed = vehSpeed v, infoLane = int l\<rparr> r else r)\<rparr>)"

text \<open>The body of the outer loop: one vehicle on every lane, then the gap to the next row.\<close>

definition insertRow :: "platoons_params \<Rightarrow> (nat \<Rightarrow> real) \<Rightarrow> insertion \<Rightarrow> insertion" where
  "insertRow par laneOffset st =
     (let st1 = fold (insertOne par laneOffset) [0..<nLanes par] st;
          st2 = st1\<lparr>nextPosition := nextPosition st1 + 1\<rparr>
      in if nextPosition st2 = sizeOfPlatoon par
         then st2\<lparr>nextPosition := 0, roadPosition := roadPosition st2 - (platoonGap par + 4), basePlatoon := basePlatoon st2 + nLanes par\<rparr>
         else st2\<lparr>roadPosition := roadPosition st2 - (4 + vehicleGap par)\<rparr>)"

definition insertPlatoons :: "platoons_params \<Rightarrow> (nat \<Rightarrow> real) \<Rightarrow> register \<Rightarrow> insertion result" where
  "insertPlatoons par laneOffset r =
     (if sizeOfPlatoon par = 0 \<or> nLanes par = 0 then Inl (RuntimeError ''integer division by zero'')
      else Inr ((insertRow par laneOffset ^^ (nCars par div nLanes par))
        \<lparr>roadPosition = totalLengthOf par, nextPosition = 0, nextId = 0, basePlatoon = 0, queued = [], reg = r\<rparr>))"

section \<open>The platoons are complete\<close>

text \<open>
  The vehicles of platoon \<open>p\<close> when \<open>i\<close> rows are complete and the next one is filled up to lane \<open>l\<close>:
  its vehicles stand on lane \<open>p mod nLanes\<close>, and their ids are \<open>nLanes\<close> apart.
\<close>

definition rowsDone :: "nat \<Rightarrow> nat \<Rightarrow> nat \<Rightarrow> nat \<Rightarrow> nat" where
  "rowsDone n i l p = (if p mod n < l then Suc i else i)"

definition membersAfter :: "nat \<Rightarrow> nat \<Rightarrow> nat \<Rightarrow> nat \<Rightarrow> int \<Rightarrow> int list" where
  "membersAfter n k i l p =
     (if p < 0 then []
      else let m = nat p in
        map (\<lambda>q. int ((m div n * k + q) * n + m mod n)) [0..<min k (rowsDone n i l m - m div n * k)])"

definition startOf :: "platoons_params \<Rightarrow> nat \<Rightarrow> real" where
  "startOf par i = totalLengthOf par - real (i div sizeOfPlatoon par) * (platoonLength par + platoonGap par)
     - real (i mod sizeOfPlatoon par) * (4 + vehicleGap par)"

definition vehicleAt :: "platoons_params \<Rightarrow> (nat \<Rightarrow> real) \<Rightarrow> nat \<Rightarrow> queued_vehicle" where
  "vehicleAt par laneOffset k =
     \<lparr>vehType = autoType par, vehLane = int (k mod nLanes par), vehPosition = startOf par (k div nLanes par) + laneOffset (k mod nLanes par),
      vehSpeed = insertSpeed par / 3.6, vehFixedId = -1\<rparr>"

definition inserted_inv :: "platoons_params \<Rightarrow> (nat \<Rightarrow> real) \<Rightarrow> nat \<Rightarrow> nat \<Rightarrow> insertion \<Rightarrow> bool" where
  "inserted_inv par laneOffset i l st \<longleftrightarrow>
     (let n = nLanes par; k = sizeOfPlatoon par in
      roadPosition st = startOf par i \<and> nextPosition st = i mod k \<and> nextId st = i * n + l \<and> basePlatoon st = i div k * n
      \<and> queued st = map (vehicleAt par laneOffset) [0..<i * n + l]
      \<and> registers (membersAfter n k i l) (reg st)
      \<and> (\<forall>p. rowsDone n i l p > p div n * k \<longrightarrow>
           Mapping.lookup (platoonInformation (reg st)) (int p) = Some \<lparr>infoSpeed = insertSpeed par / 3.6, infoLane = int (p mod n)\<rparr>))"
lemma members_clamp:
  assumes "0 < k"
  shows "min k (Suc i - j * k) = (if j = i div k then Suc (min k (i - j * k)) else min k (i - j * k))"
proof -
  have d: "i = i div k * k + i mod k" "i mod k < k" using assms by simp_all
  consider "j < i div k" | "j = i div k" | "i div k < j" by linarith
  then show ?thesis
  proof cases
    case 1
    then have "Suc j * k \<le> i div k * k" by (intro mult_le_mono1) simp
    then have "k + j * k \<le> i" using d(1) by (simp only: mult_Suc)
    then have "k \<le> i - j * k" by linarith
    then show ?thesis using 1 by simp
  next
    case 2
    then have "i - j * k = i mod k" using d(1) by (metis add_diff_cancel_left')
    moreover have "Suc i - j * k = Suc (i mod k)" using d(1) 2 by (metis Suc_diff_le calculation diff_is_0_eq' le_add1 nat_le_linear)
    ultimately show ?thesis using d(2) 2 by simp
  next
    case 3
    then have "Suc (i div k) * k \<le> j * k" by (intro mult_le_mono1) simp
    then have "k + i div k * k \<le> j * k" by (simp only: mult_Suc)
    then have "Suc i \<le> j * k" using d by linarith
    then show ?thesis using 3 by simp
  qed
qed

lemma divmod_mult: "0 < n \<Longrightarrow> l < n \<Longrightarrow> (a * n + l) div n = a" "0 < n \<Longrightarrow> l < n \<Longrightarrow> (a * n + l) mod n = (l :: nat)"
  by simp_all

lemma rowsDone_Suc: "rowsDone n i (Suc l) p = (if p mod n = l then Suc i else rowsDone n i l p)"
  by (simp add: rowsDone_def)

lemma membersAfter_int:
  "membersAfter n k i l (int m) = map (\<lambda>q. int ((m div n * k + q) * n + m mod n)) [0..<min k (rowsDone n i l m - m div n * k)]"
  by (simp add: membersAfter_def)

lemma rows_in_platoon: "0 < k \<Longrightarrow> min k (i - i div k * k) = (i :: nat) mod k"
  by (metis min.absorb2 minus_div_mult_eq_mod mod_less_divisor less_imp_le)

lemma membersAfter_step:
  fixes i k l n :: nat
  assumes "0 < k" "l < n"
  defines "z \<equiv> i div k * n + l"
  shows "membersAfter n k i (Suc l) = (membersAfter n k i l)(int z := membersAfter n k i l (int z) @ [int (i * n + l)])"
proof
  fix p
  have z: "z div n = i div k" "z mod n = l" using assms by simp_all
  have at_z: "membersAfter n k i (Suc l) (int z) = membersAfter n k i l (int z) @ [int (i * n + l)]"
  proof -
    let ?f = "\<lambda>q. int ((i div k * k + q) * n + l)"
    have "min k (Suc i - i div k * k) = Suc (i mod k)"
      using members_clamp [OF assms(1), of i "i div k"] rows_in_platoon [OF assms(1), of i] by simp
    then have "membersAfter n k i (Suc l) (int z) = map ?f [0..<Suc (i mod k)]"
      by (simp only: membersAfter_int z rowsDone_def lessI if_True)
    moreover have "membersAfter n k i l (int z) = map ?f [0..<i mod k]"
      using rows_in_platoon [OF assms(1), of i] by (simp only: membersAfter_int z rowsDone_def less_irrefl if_False)
    moreover have "(i div k * k + i mod k) * n + l = i * n + l" by simp
    ultimately show ?thesis by (simp only: upt_Suc_append le0 map_append list.map)
  qed
  have "membersAfter n k i (Suc l) p = membersAfter n k i l p" if "p \<noteq> int z"
  proof (cases "p < 0")
    case True
    then show ?thesis by (simp add: membersAfter_def)
  next
    case False
    define m where "m = nat p"
    have p: "p = int m" using False by (simp add: m_def)
    have "\<not> (m mod n = l \<and> m div n = i div k)" using that p by (metis div_mult_mod_eq z_def)
    then show ?thesis
      using members_clamp [OF assms(1), of i "m div n"]
      by (cases "m mod n = l") (simp_all add: p membersAfter_int rowsDone_Suc, simp add: rowsDone_def)
  qed
  then show "membersAfter n k i (Suc l) p = ((membersAfter n k i l)(int z := membersAfter n k i l (int z) @ [int (i * n + l)])) p"
    using at_z by simp
qed

lemma membersAfter_row: "0 < n \<Longrightarrow> membersAfter n k i n = membersAfter n k (Suc i) 0"
  by (simp add: membersAfter_def rowsDone_def fun_eq_iff)

lemma in_membersAfter:
  assumes "v \<in> set (membersAfter n k i l p)" "0 < n" "l \<le> n"
  shows "\<exists>r c. v = int (r * n + c) \<and> c < n \<and> (r < i \<or> r = i \<and> c < l) \<and> c = nat p mod n \<and> r div k = nat p div n \<and> 0 \<le> p"
proof -
  define m where "m = nat p"
  from assms(1) obtain q where q: "q < k" "q < rowsDone n i l m - m div n * k" "v = int ((m div n * k + q) * n + m mod n)" "0 \<le> p"
    by (auto simp: membersAfter_def m_def Let_def split: if_splits)
  then have "m div n * k + q < rowsDone n i l m" by linarith
  moreover have "(m div n * k + q) div k = m div n" using q(1) by simp
  ultimately show ?thesis using q assms(2,3)
    by (intro exI [of _ "m div n * k + q"] exI [of _ "m mod n"]) (auto simp: rowsDone_def m_def split: if_splits)
qed

lemma new_member:
  assumes "l < n" shows "int (i * n + l) \<notin> set (membersAfter n k i l p)"
proof
  assume "int (i * n + l) \<in> set (membersAfter n k i l p)"
  then obtain r c where rc: "i * n + l = r * n + c" "c < n" "r < i \<or> r = i \<and> c < l"
    using in_membersAfter [of "int (i * n + l)" n k i l p] assms unfolding of_nat_eq_iff by auto
  have "(i * n + l) div n = i" "(r * n + c) div n = r" using assms rc(2) by simp_all
  then have "i = r" using rc(1) by simp
  then show False using rc by simp
qed

lemma length_members:
  assumes "0 < k" "l < n"
  shows "length (membersAfter n k i l (int (i div k * n + l))) = i mod k"
proof -
  have "(i div k * n + l) div n = i div k" "(i div k * n + l) mod n = l" using assms by simp_all
  then show ?thesis using rows_in_platoon [OF assms(1), of i] by (simp only: membersAfter_int rowsDone_def) simp
qed
lemma insertOne_inv:
  assumes inv: "inserted_inv par laneOffset i l st" and l: "l < nLanes par" and k: "0 < sizeOfPlatoon par"
  shows "inserted_inv par laneOffset i (Suc l) (insertOne par laneOffset l st)"
proof -
  let ?n = "nLanes par" and ?k = "sizeOfPlatoon par"
  let ?z = "i div ?k * ?n + l"
  have st: "roadPosition st = startOf par i" "nextPosition st = i mod ?k" "nextId st = i * ?n + l" "basePlatoon st = i div ?k * ?n"
    "queued st = map (vehicleAt par laneOffset) [0..<i * ?n + l]" "registers (membersAfter ?n ?k i l) (reg st)"
    "\<And>p. rowsDone ?n i l p > p div ?n * ?k \<Longrightarrow>
      Mapping.lookup (platoonInformation (reg st)) (int p) = Some \<lparr>infoSpeed = insertSpeed par / 3.6, infoLane = int (p mod ?n)\<rparr>"
    using inv by (simp_all add: inserted_inv_def Let_def)
  define st' where "st' = insertOne par laneOffset l st"
  define info where "info = \<lparr>infoController = (if i mod ?k = 0 then ACC else memberController par),
    infoDistance = (if i mod ?k = 0 then 2 else insertDistance par),
    infoHeadway = (if i mod ?k = 0 then leaderHeadway par else insertHeadway par),
    infoId = int (i * ?n + l), infoPlatoonId = int ?z, infoPosition = int (i mod ?k)\<rparr>"
  have v: "vehicleAt par laneOffset (i * ?n + l) = \<lparr>vehType = autoType par, vehLane = int l, vehPosition = startOf par i + laneOffset l,
    vehSpeed = insertSpeed par / 3.6, vehFixedId = -1\<rparr>"
    using l by (simp add: vehicleAt_def)
  have r: "registers (membersAfter ?n ?k i (Suc l)) (addVehicleToPlatoon (int (i * ?n + l)) info (reg st))"
    using registers_add [OF st(6), of "int (i * ?n + l)" info] new_member [OF l] length_members [OF k l]
    by (simp add: membersAfter_step [OF k l] info_def del: of_nat_add of_nat_mult)
  have reg': "reg st' = (if i mod ?k = 0 then setPlatoonInformation (int ?z) \<lparr>infoSpeed = insertSpeed par / 3.6, infoLane = int l\<rparr> else id)
      (addVehicleToPlatoon (int (i * ?n + l)) info (reg st))"
    by (simp add: st'_def insertOne_def Let_def st(1-5) info_def del: of_nat_add of_nat_mult)
  have "registers (membersAfter ?n ?k i (Suc l)) (reg st')" using r by (simp add: reg' registers_def setPlatoonInformation_def)
  moreover have "Mapping.lookup (platoonInformation (reg st')) (int p) = Some \<lparr>infoSpeed = insertSpeed par / 3.6, infoLane = int (p mod ?n)\<rparr>"
    if "rowsDone ?n i (Suc l) p > p div ?n * ?k" for p
  proof (cases "p = ?z \<and> i mod ?k = 0")
    case True
    then show ?thesis using l by (simp add: reg' setPlatoonInformation_def)
  next
    case False
    have "rowsDone ?n i l p > p div ?n * ?k"
    proof (cases "p mod ?n = l")
      case True
      then have "p div ?n * ?k \<le> i" "rowsDone ?n i l p = i" using that by (simp_all add: rowsDone_def)
      moreover have "p div ?n * ?k \<noteq> i" using False True k by (metis div_mult_mod_eq mod_mult_self2_is_0 nonzero_mult_div_cancel_right less_not_refl)
      ultimately show ?thesis by simp
    next
      case False
      then show ?thesis using that by (simp add: rowsDone_Suc)
    qed
    then have "Mapping.lookup (platoonInformation (reg st)) (int p) = Some \<lparr>infoSpeed = insertSpeed par / 3.6, infoLane = int (p mod ?n)\<rparr>"
      by (rule st(7))
    then show ?thesis using False l
      by (auto simp: reg' setPlatoonInformation_def addVehicleToPlatoon_def setVehicleInfo_def lookup_update' simp del: of_nat_add of_nat_mult)
  qed
  moreover have "queued st' = map (vehicleAt par laneOffset) [0..<i * ?n + Suc l]" "nextId st' = i * ?n + Suc l"
    "roadPosition st' = startOf par i" "nextPosition st' = i mod ?k" "basePlatoon st' = i div ?k * ?n"
    by (simp_all add: st'_def insertOne_def Let_def st(1-5) v)
  ultimately show ?thesis by (simp add: inserted_inv_def Let_def st'_def)
qed

lemma startOf_Suc:
  assumes "0 < sizeOfPlatoon par"
  shows "startOf par (Suc i) = startOf par i - (if Suc (i mod sizeOfPlatoon par) = sizeOfPlatoon par then platoonGap par + 4 else 4 + vehicleGap par)"
proof (cases "Suc (i mod sizeOfPlatoon par) = sizeOfPlatoon par")
  case True
  then have d: "Suc i div sizeOfPlatoon par = Suc (i div sizeOfPlatoon par)" "Suc i mod sizeOfPlatoon par = 0"
    by (simp_all add: div_Suc mod_Suc)
  have last: "real (i mod sizeOfPlatoon par) = real (sizeOfPlatoon par) - 1" using True by linarith
  show ?thesis unfolding startOf_def d platoonLength_def last if_P [OF True] by (simp add: algebra_simps)
next
  case False
  then have "Suc i div sizeOfPlatoon par = i div sizeOfPlatoon par" "Suc i mod sizeOfPlatoon par = Suc (i mod sizeOfPlatoon par)"
    by (simp_all add: div_Suc mod_Suc)
  then show ?thesis using False by (simp add: startOf_def algebra_simps)
qed

lemma insertRow_inv:
  assumes inv: "inserted_inv par laneOffset i 0 st" and k: "0 < sizeOfPlatoon par" "0 < nLanes par"
  shows "inserted_inv par laneOffset (Suc i) 0 (insertRow par laneOffset st)"
proof -
  have "l \<le> nLanes par \<Longrightarrow> inserted_inv par laneOffset i l (fold (insertOne par laneOffset) [0..<l] st)" for l
    by (induction l) (simp_all add: inv insertOne_inv [OF _ _ k(1)])
  then have r: "inserted_inv par laneOffset i (nLanes par) (fold (insertOne par laneOffset) [0..<nLanes par] st)" by simp
  define st1 where "st1 = fold (insertOne par laneOffset) [0..<nLanes par] st"
  have rows: "rowsDone (nLanes par) i (nLanes par) = rowsDone (nLanes par) (Suc i) 0" using k by (simp add: rowsDone_def fun_eq_iff)
  show ?thesis
    using r k startOf_Suc [OF k(1), of i]
    by (auto simp: insertRow_def inserted_inv_def Let_def div_Suc mod_Suc membersAfter_row rows st1_def [symmetric] algebra_simps)
qed
lemma insertPlatoons_inv:
  assumes k: "0 < sizeOfPlatoon par" "0 < nLanes par"
  shows "\<exists>st. insertPlatoons par laneOffset emptyRegister = Inr st \<and> inserted_inv par laneOffset (nCars par div nLanes par) 0 st"
proof -
  let ?st = "\<lparr>roadPosition = totalLengthOf par, nextPosition = 0, nextId = 0, basePlatoon = 0, queued = [], reg = emptyRegister\<rparr>"
  have "membersAfter (nLanes par) (sizeOfPlatoon par) 0 0 = (\<lambda>_. [])" by (simp add: membersAfter_def rowsDone_def fun_eq_iff)
  then have "inserted_inv par laneOffset 0 0 ?st"
    using registers_empty by (simp add: inserted_inv_def startOf_def rowsDone_def)
  then have "inserted_inv par laneOffset i 0 ((insertRow par laneOffset ^^ i) ?st)" for i
    by (induction i) (simp_all add: insertRow_inv [OF _ k])
  then show ?thesis using k by (simp add: insertPlatoons_def)
qed

lemma insertPlatoons_result:
  assumes k: "0 < sizeOfPlatoon par" "0 < nLanes par"
  defines "rows \<equiv> nCars par div nLanes par"
  shows "\<exists>st. insertPlatoons par laneOffset emptyRegister = Inr st
    \<and> queued st = map (vehicleAt par laneOffset) [0..<rows * nLanes par]
    \<and> registers (membersAfter (nLanes par) (sizeOfPlatoon par) rows 0) (reg st)
    \<and> (\<forall>p. p div nLanes par * sizeOfPlatoon par < rows \<longrightarrow>
         getPlatoonInformation (int p) (reg st) = \<lparr>infoSpeed = insertSpeed par / 3.6, infoLane = int (p mod nLanes par)\<rparr>)"
  using insertPlatoons_inv [OF k, of laneOffset]
  by (auto simp: rows_def inserted_inv_def Let_def rowsDone_def getPlatoonInformation_def intro: lookup_default_Some)

lemma whole_platoon:
  assumes "j * k + k \<le> rows" "l < n"
  shows "membersAfter n k rows 0 (int (j * n + l)) = map (\<lambda>q. int ((j * k + q) * n + l)) [0..<k]"
proof -
  have "(j * n + l) div n = j" "(j * n + l) mod n = l" using assms(2) by simp_all
  moreover have "min k (rows - j * k) = k" using assms(1) by simp
  ultimately show ?thesis by (simp only: membersAfter_int rowsDone_def not_less0 if_False)
qed

text \<open>
  When the number of cars fills whole platoons on all lanes, the traffic manager registers
  exactly these platoons: platoon \<open>j\<close> of lane \<open>l\<close> has number \<open>j * nLanes + l\<close>, knows its lane and
  speed and is complete, and every member of it finds the platoon and its formation under its id, the
  car queued under which stands on that lane.
\<close>

theorem platoons_are_complete:
  assumes k: "0 < sizeOfPlatoon par" "0 < nLanes par" and full: "nCars par = rounds * sizeOfPlatoon par * nLanes par"
  shows "\<exists>st. insertPlatoons par laneOffset emptyRegister = Inr st \<and> length (queued st) = nCars par
    \<and> (\<forall>j < rounds. \<forall>l < nLanes par. let p = int (j * nLanes par + l) in
         getPlatoonInformation p (reg st) = \<lparr>infoSpeed = insertSpeed par / 3.6, infoLane = int l\<rparr>
         \<and> (\<exists>f. length f = sizeOfPlatoon par \<and> (\<forall>v \<in> set f. formationOf v (reg st) = Inr f \<and> platoonIdOf v (reg st) = p
               \<and> 0 \<le> v \<and> v < int (nCars par) \<and> vehLane (queued st ! nat v) = int l)))"
proof -
  let ?n = "nLanes par" and ?k = "sizeOfPlatoon par"
  have rows: "nCars par div ?n = rounds * ?k" using full k by simp
  obtain st where st: "insertPlatoons par laneOffset emptyRegister = Inr st" "queued st = map (vehicleAt par laneOffset) [0..<nCars par]"
    "registers (membersAfter ?n ?k (rounds * ?k) 0) (reg st)"
    "\<And>p. p div ?n * ?k < rounds * ?k \<Longrightarrow> getPlatoonInformation (int p) (reg st) = \<lparr>infoSpeed = insertSpeed par / 3.6, infoLane = int (p mod ?n)\<rparr>"
    using insertPlatoons_result [OF k, of laneOffset] unfolding rows full [symmetric] by blast
  show ?thesis
  proof (intro exI [of _ st] conjI allI impI)
    fix j l assume j: "j < rounds" and l: "l < ?n"
    define p where "p = j * ?n + l"
    define f where "f = map (\<lambda>q. int ((j * ?k + q) * ?n + l)) [0..<?k]"
    have p: "p div ?n = j" "p mod ?n = l" using l by (simp_all add: p_def)
    have "Suc j * ?k \<le> rounds * ?k" using j by (intro mult_le_mono1) simp
    then have jk: "j * ?k + ?k \<le> rounds * ?k" by simp
    have f: "membersAfter ?n ?k (rounds * ?k) 0 (int p) = f" unfolding p_def f_def by (rule whole_platoon [OF jk l])
    have "formationOf v (reg st) = Inr f \<and> platoonIdOf v (reg st) = int p \<and> 0 \<le> v \<and> v < int (nCars par) \<and> vehLane (queued st ! nat v) = int l"
      if v: "v \<in> set f" for v
    proof -
      obtain q where q: "q < ?k" "v = int ((j * ?k + q) * ?n + l)" using v by (auto simp: f_def)
      define w where "w = (j * ?k + q) * ?n + l"
      have "Suc (j * ?k + q) * ?n \<le> rounds * ?k * ?n" using q(1) jk by (intro mult_le_mono1) simp
      then have "w < nCars par" using l full by (simp add: w_def)
      moreover have "v = int w" "w mod ?n = l" using q(2) l by (simp_all add: w_def)
      ultimately show ?thesis using registers_queries(1,2) [OF st(3), of v "int p"] v by (simp add: f st(2) vehicleAt_def)
    qed
    moreover have "length f = ?k" by (simp add: f_def)
    moreover have "p div ?n * ?k < rounds * ?k" unfolding p(1) using j k by simp
    ultimately show "let p = int (j * ?n + l) in getPlatoonInformation p (reg st) = \<lparr>infoSpeed = insertSpeed par / 3.6, infoLane = int l\<rparr>
         \<and> (\<exists>f. length f = ?k \<and> (\<forall>v \<in> set f. formationOf v (reg st) = Inr f \<and> platoonIdOf v (reg st) = p
               \<and> 0 \<le> v \<and> v < int (nCars par) \<and> vehLane (queued st ! nat v) = int l))"
      using st(4) [of p] p(2) unfolding Let_def p_def [symmetric] by auto
  qed (simp_all add: st)
qed

definition platoons_demo :: "nat \<Rightarrow> platoons_params" where
  "platoons_demo cars = \<lparr>nCars = cars, sizeOfPlatoon = 4, nLanes = 2, insertSpeed = 36, insertDistance = 5, insertHeadway = 0,
     leaderHeadway = 1.2, additionalDistance = 20, memberController = CACC, autoType = 0\<rparr>"

lemma platoons_are_complete_witness:
  "\<exists>st. insertPlatoons (platoons_demo 16) (\<lambda>_. 0) emptyRegister = Inr st \<and> length (queued st) = 16
    \<and> getPlatoonInformation 3 (reg st) = \<lparr>infoSpeed = 10, infoLane = 1\<rparr>"
proof -
  have "0 < sizeOfPlatoon (platoons_demo 16)" "0 < nLanes (platoons_demo 16)"
    "nCars (platoons_demo 16) = 2 * sizeOfPlatoon (platoons_demo 16) * nLanes (platoons_demo 16)" by (simp_all add: platoons_demo_def)
  from platoons_are_complete [OF this, of "\<lambda>_. 0"] obtain st where
    "insertPlatoons (platoons_demo 16) (\<lambda>_. 0) emptyRegister = Inr st" "length (queued st) = nCars (platoons_demo 16)"
    and all: "\<forall>j < 2. \<forall>l < nLanes (platoons_demo 16). getPlatoonInformation (int (j * nLanes (platoons_demo 16) + l)) (reg st)
      = \<lparr>infoSpeed = insertSpeed (platoons_demo 16) / 3.6, infoLane = int l\<rparr>"
    by (auto simp: Let_def)
  moreover have "getPlatoonInformation 3 (reg st) = \<lparr>infoSpeed = 10, infoLane = 1\<rparr>"
    using all [rule_format, of 1 1] by (simp add: platoons_demo_def)
  ultimately show ?thesis by (auto simp: platoons_demo_def)
qed
lemma vehicle_positions:
  assumes "0 < n"
  shows "vehPosition (vehicleAt par laneOffset k) = startOf par (k div nLanes par) + laneOffset (k mod nLanes par)"
    "vehLane (vehicleAt par laneOffset k) = int (k mod nLanes par)"
  by (simp_all add: vehicleAt_def)

lemma platoonsPerLane_rows:
  assumes "0 < nLanes par" "nCars par = (rounds * sizeOfPlatoon par + extra) * nLanes par" "extra < sizeOfPlatoon par"
  shows "platoonsPerLane par = rounds"
proof -
  have "platoonsPerLane par = nCars par div nLanes par div sizeOfPlatoon par"
    by (simp add: platoonsPerLane_def div_mult2_eq [symmetric] mult.commute)
  then show ?thesis using assms by simp
qed

text \<open>
  A car and the next one on its lane start on the same lane, apart by the length of a car and
  the gap inside a platoon, or between platoons if the first is the last of its platoon; and the last
  cars of whole platoons start a car's length into the road.
\<close>

theorem cars_keep_their_distance:
  assumes k: "0 < sizeOfPlatoon par" "0 < nLanes par" and cars: "nCars par = rounds * sizeOfPlatoon par * nLanes par" "0 < rounds"
  shows "\<exists>st. insertPlatoons par laneOffset emptyRegister = Inr st
    \<and> (\<forall>c. c + nLanes par < nCars par \<longrightarrow>
         vehLane (queued st ! (c + nLanes par)) = vehLane (queued st ! c)
         \<and> vehPosition (queued st ! c) - vehPosition (queued st ! (c + nLanes par))
           = 4 + (if sizeOfPlatoon par dvd Suc (c div nLanes par) then platoonGap par else vehicleGap par))
    \<and> (\<forall>l < nLanes par. vehPosition (queued st ! (nCars par - nLanes par + l)) = 4 + laneOffset l)"
proof -
  let ?n = "nLanes par" and ?k = "sizeOfPlatoon par"
  have rows: "nCars par div ?n * ?n = nCars par" using cars k by simp
  obtain st where st: "insertPlatoons par laneOffset emptyRegister = Inr st" "queued st = map (vehicleAt par laneOffset) [0..<nCars par]"
    using insertPlatoons_result [OF k, of laneOffset] unfolding rows by blast
  have next_car: "vehLane (queued st ! (c + ?n)) = vehLane (queued st ! c)
    \<and> vehPosition (queued st ! c) - vehPosition (queued st ! (c + ?n)) = 4 + (if ?k dvd Suc (c div ?n) then platoonGap par else vehicleGap par)"
    if c: "c + ?n < nCars par" for c
  proof -
    have "(c + ?n) div ?n = Suc (c div ?n)" using k by simp
    moreover have "Suc (c div ?n mod ?k) = ?k \<longleftrightarrow> ?k dvd Suc (c div ?n)" using k(1) by (auto simp: mod_Suc dvd_eq_mod_eq_0)
    ultimately show ?thesis using c startOf_Suc [OF k(1), of "c div ?n"] by (simp add: st(2) vehicleAt_def)
  qed
  have last: "vehPosition (queued st ! (nCars par - ?n + l)) = 4 + laneOffset l" if l: "l < ?n" for l
  proof -
    have one: "1 \<le> rounds * ?k" using cars k by simp
    obtain b where b: "rounds * ?k = Suc b" using one by (cases "rounds * ?k") auto
    have "nCars par = ?n + b * ?n" using cars(1) b by simp
    then have "nCars par - ?n + l < nCars par" "(nCars par - ?n + l) div ?n = rounds * ?k - 1" "(nCars par - ?n + l) mod ?n = l"
      using l b by simp_all
    then have "vehPosition (queued st ! (nCars par - ?n + l)) = startOf par (rounds * ?k - 1) + laneOffset l"
      by (simp add: st(2) vehicleAt_def)
    moreover have "(rounds * ?k - 1) div ?k = rounds - 1" "(rounds * ?k - 1) mod ?k = ?k - 1"
    proof -
      have "rounds * ?k - 1 = (rounds - 1) * ?k + (?k - 1)" using cars(2) k(1) by (cases rounds) auto
      moreover have "?k - 1 < ?k" using k(1) by simp
      ultimately show "(rounds * ?k - 1) div ?k = rounds - 1" "(rounds * ?k - 1) mod ?k = ?k - 1"
        using k(1) by (simp_all only: divmod_mult)
    qed
    moreover have "platoonsPerLane par = rounds" using platoonsPerLane_rows [of par rounds 0] k cars(1) by simp
    ultimately show ?thesis using k(1) cars(2)
      by (simp add: startOf_def totalLengthOf_def platoonLength_def of_nat_diff algebra_simps)
  qed
  show ?thesis using st(1) next_car last by blast
qed

lemma cars_keep_their_distance_witness:
  "\<exists>st. insertPlatoons (platoons_demo 16) (\<lambda>_. 0) emptyRegister = Inr st
    \<and> vehPosition (queued st ! 0) - vehPosition (queued st ! 2) = 9 \<and> vehPosition (queued st ! 15) = 4"
proof -
  have "0 < sizeOfPlatoon (platoons_demo 16)" "0 < nLanes (platoons_demo 16)"
    "nCars (platoons_demo 16) = 2 * sizeOfPlatoon (platoons_demo 16) * nLanes (platoons_demo 16)" "0 < (2::nat)"
    by (simp_all add: platoons_demo_def)
  from cars_keep_their_distance [OF this, of "\<lambda>_. 0"] obtain st where
    st: "insertPlatoons (platoons_demo 16) (\<lambda>_. 0) emptyRegister = Inr st"
    and d: "\<forall>c. c + nLanes (platoons_demo 16) < nCars (platoons_demo 16) \<longrightarrow>
      vehPosition (queued st ! c) - vehPosition (queued st ! (c + nLanes (platoons_demo 16)))
        = 4 + (if sizeOfPlatoon (platoons_demo 16) dvd Suc (c div nLanes (platoons_demo 16)) then platoonGap (platoons_demo 16) else vehicleGap (platoons_demo 16))"
    and l: "\<forall>l < nLanes (platoons_demo 16). vehPosition (queued st ! (nCars (platoons_demo 16) - nLanes (platoons_demo 16) + l)) = 4"
    by auto
  have "vehPosition (queued st ! 0) - vehPosition (queued st ! 2) = 9"
    using d [rule_format, of 0] by (simp add: platoons_demo_def vehicleGap_def numeral_2_eq_2)
  moreover have "vehPosition (queued st ! 15) = 4" using l [rule_format, of 1] by (simp add: platoons_demo_def)
  ultimately show ?thesis using st by blast
qed

text \<open>
  Cars that do not fill a whole platoon are queued all the same, but the length of the road is
  computed for the whole platoons only: the first car of the rest starts before the beginning of
  the road, by the gap between platoons less the offset of its lane.
\<close>

theorem leftover_cars_start_off_the_road:
  assumes k: "0 < nLanes par" and cars: "nCars par = (rounds * sizeOfPlatoon par + extra) * nLanes par" "0 < extra" "extra < sizeOfPlatoon par"
    and l: "l < nLanes par"
  shows "\<exists>st. insertPlatoons par laneOffset emptyRegister = Inr st
    \<and> vehPosition (queued st ! (rounds * sizeOfPlatoon par * nLanes par + l)) = laneOffset l - platoonGap par"
proof -
  let ?n = "nLanes par" and ?k = "sizeOfPlatoon par"
  have k': "0 < ?k" using cars by simp
  have rows: "nCars par div ?n = rounds * ?k + extra" using cars k by simp
  obtain st where st: "insertPlatoons par laneOffset emptyRegister = Inr st"
    "queued st = map (vehicleAt par laneOffset) [0..<(rounds * ?k + extra) * ?n]"
    using insertPlatoons_result [OF k' k, of laneOffset] unfolding rows by blast
  have "Suc (rounds * ?k) * ?n \<le> (rounds * ?k + extra) * ?n" using cars(2) by (intro mult_le_mono1) simp
  then have "rounds * ?k * ?n + l < (rounds * ?k + extra) * ?n" using l by simp
  moreover have "(rounds * ?k * ?n + l) div ?n = rounds * ?k" "(rounds * ?k * ?n + l) mod ?n = l" using l by simp_all
  moreover have "platoonsPerLane par = rounds" using platoonsPerLane_rows k cars by blast
  ultimately show ?thesis using st(1) k'
    by (simp add: st(2) vehicleAt_def startOf_def totalLengthOf_def algebra_simps)
qed

lemma leftover_cars_start_off_the_road_witness:
  "\<exists>st. insertPlatoons (platoons_demo 10) (\<lambda>_. 0) emptyRegister = Inr st \<and> vehPosition (queued st ! 8) < 0"
proof -
  have "0 < nLanes (platoons_demo 10)" "nCars (platoons_demo 10) = (1 * sizeOfPlatoon (platoons_demo 10) + 1) * nLanes (platoons_demo 10)"
    "0 < (1::nat)" "1 < sizeOfPlatoon (platoons_demo 10)" "0 < nLanes (platoons_demo 10)"
    by (simp_all add: platoons_demo_def)
  from leftover_cars_start_off_the_road [OF this, of "\<lambda>_. 0"] show ?thesis
    by (auto simp: platoons_demo_def platoonGap_def)
qed
section \<open>Handing the cars to SUMO\<close>

text \<open>
  \<open>accepts\<close> tells whether SUMO accepts the attempt with a given number. What is inserted is
  recorded with its name and lane.
\<close>

record insert_state =
  vehiclesCount :: "int list"
  attempts :: nat
  insertedCars :: "(string \<times> queued_vehicle \<times> int) list"

definition vehicleName :: "string \<Rightarrow> int \<Rightarrow> queued_vehicle \<Rightarrow> string" where
  "vehicleName vtype count v = vtype @ ''.'' @ int_to_string (if vehFixedId v < 0 then count else vehFixedId v)"

definition carInserted :: "string \<Rightarrow> queued_vehicle \<Rightarrow> int \<Rightarrow> insert_state \<Rightarrow> insert_state" where
  "carInserted name v lane st =
     st\<lparr>insertedCars := insertedCars st @ [(name, v, lane)],
        vehiclesCount := (vehiclesCount st)[nat (vehType v) := vehiclesCount st ! nat (vehType v) + 1]\<rparr>"

definition tryInsert :: "(nat \<Rightarrow> bool) \<Rightarrow> insert_state \<Rightarrow> bool \<times> insert_state" where
  "tryInsert accepts st = (accepts (attempts st), st\<lparr>attempts := attempts st + 1\<rparr>)"

fun tryLanes :: "(nat \<Rightarrow> bool) \<Rightarrow> nat list \<Rightarrow> insert_state \<Rightarrow> nat option \<times> insert_state" where
  "tryLanes accepts [] st = (None, st)"
| "tryLanes accepts (l # ls) st =
     (case tryInsert accepts st of (ok, st1) \<Rightarrow> if ok then (Some l, st1) else tryLanes accepts ls st1)"

fun insertQueue ::
    "(nat \<Rightarrow> bool) \<Rightarrow> bool \<Rightarrow> nat \<Rightarrow> string list \<Rightarrow> queued_vehicle list \<Rightarrow> insert_state \<Rightarrow> (queued_vehicle list \<times> insert_state) result" where
  "insertQueue accepts insertInOrder lanes types [] st = Inr ([], st)"
| "insertQueue accepts insertInOrder lanes types (v # vs) st =
     rbind (vec_at types (vehType v)) (\<lambda>vtype.
     rbind (vec_at (vehiclesCount st) (vehType v)) (\<lambda>count.
     let name = vehicleName vtype count v in
     if vehLane v = -1 \<and> \<not> insertInOrder
     then (case tryLanes accepts [0..<lanes] st of
             (None, st1) \<Rightarrow> Inr (v # vs, st1)
           | (Some l, st1) \<Rightarrow> insertQueue accepts insertInOrder lanes types vs (carInserted name v (int l) st1))
     else (case tryInsert accepts st of (ok, st1) \<Rightarrow>
             if ok then insertQueue accepts insertInOrder lanes types vs (carInserted name v (vehLane v) st1)
             else if insertInOrder then Inr (v # vs, st1)
             else rbind (insertQueue accepts insertInOrder lanes types vs st1) (\<lambda>(rest, st2). Inr (v # rest, st2)))))"

text \<open>One time step: the queues of all routes, in order; every route has its number of start lanes.\<close>

fun insertVehicles ::
    "(nat \<Rightarrow> bool) \<Rightarrow> bool \<Rightarrow> string list \<Rightarrow> (nat \<times> queued_vehicle list) list \<Rightarrow> insert_state \<Rightarrow>
     ((nat \<times> queued_vehicle list) list \<times> insert_state) result" where
  "insertVehicles accepts insertInOrder types [] st = Inr ([], st)"
| "insertVehicles accepts insertInOrder types ((lanes, q) # qs) st =
     rbind (insertQueue accepts insertInOrder lanes types q st) (\<lambda>(q', st1).
     rbind (insertVehicles accepts insertInOrder types qs st1) (\<lambda>(qs', st2).
       Inr ((lanes, q') # qs', st2)))"

fun timeSteps ::
    "nat \<Rightarrow> (nat \<Rightarrow> bool) \<Rightarrow> string list \<Rightarrow> (nat \<times> queued_vehicle list) list \<Rightarrow> insert_state \<Rightarrow>
     ((nat \<times> queued_vehicle list) list \<times> insert_state) result" where
  "timeSteps 0 accepts types qs st = Inr (qs, st)"
| "timeSteps (Suc n) accepts types qs st =
     rbind (insertVehicles accepts True types qs st) (\<lambda>(qs', st'). timeSteps n accepts types qs' st')"

text \<open>The first \<open>m\<close> cars of \<open>q\<close> have been inserted, under the numbers from 0 on.\<close>

definition inserted_prefix :: "nat \<Rightarrow> string \<Rightarrow> queued_vehicle list \<Rightarrow> nat \<Rightarrow> insert_state \<Rightarrow> bool" where
  "inserted_prefix t vtype q m st \<longleftrightarrow> m \<le> length q \<and> t < length (vehiclesCount st) \<and> vehiclesCount st ! t = int m
     \<and> insertedCars st = map (\<lambda>k. (externalIdOf vtype k, q ! k, vehLane (q ! k))) [0..<m]"

lemma vehicleName_new: "vehFixedId v < 0 \<Longrightarrow> vehicleName vtype (int k) v = externalIdOf vtype k"
  by (simp add: vehicleName_def externalIdOf_def int_to_string_def)

lemma insertQueue_prefix:
  assumes "\<forall>v \<in> set q. vehType v = int t \<and> vehFixedId v < 0" "t < length types" "inserted_prefix t (types ! t) q m st"
  shows "\<exists>m' st'. insertQueue accepts True lanes types (drop m q) st = Inr (drop m' q, st') \<and> inserted_prefix t (types ! t) q m' st'"
  using assms(3)
proof (induction "length q - m" arbitrary: m st)
  case 0
  then show ?case by (intro exI [of _ m]) (simp add: inserted_prefix_def)
next
  case (Suc d)
  then have m: "m < length q" by linarith
  then have q: "drop m q = q ! m # drop (Suc m) q" by (simp add: Cons_nth_drop_Suc)
  have v: "vehType (q ! m) = int t" "vehFixedId (q ! m) < 0" using assms(1) m by simp_all
  have at: "vec_at types (int t) = Inr (types ! t)" "vec_at (vehiclesCount st) (int t) = Inr (int m)"
    using assms(2) Suc.prems by (simp_all add: vec_at_def inserted_prefix_def)
  define st1 where "st1 = st\<lparr>attempts := attempts st + 1\<rparr>"
  show ?case
  proof (cases "accepts (attempts st)")
    case False
    then have "insertQueue accepts True lanes types (drop m q) st = Inr (drop m q, st1)"
      by (simp add: q v at tryInsert_def st1_def)
    moreover have "inserted_prefix t (types ! t) q m st1" using Suc.prems by (simp add: inserted_prefix_def st1_def)
    ultimately show ?thesis by blast
  next
    case True
    define st2 where "st2 = carInserted (externalIdOf (types ! t) m) (q ! m) (vehLane (q ! m)) st1"
    have "insertQueue accepts True lanes types (drop m q) st = insertQueue accepts True lanes types (drop (Suc m) q) st2"
      using True by (simp add: q v at tryInsert_def vehicleName_new st1_def st2_def)
    moreover have "inserted_prefix t (types ! t) q (Suc m) st2"
      using Suc.prems m v by (simp add: inserted_prefix_def st2_def st1_def carInserted_def)
    moreover have "d = length q - Suc m" using Suc.hyps(2) by simp
    ultimately show ?thesis using Suc.hyps(1) [of "Suc m" st2] by simp
  qed
qed

lemma timeSteps_prefix:
  assumes "\<forall>v \<in> set q. vehType v = int t \<and> vehFixedId v < 0" "t < length types" "inserted_prefix t (types ! t) q m st"
  shows "\<exists>m' st'. timeSteps n accepts types [(lanes, drop m q)] st = Inr ([(lanes, drop m' q)], st') \<and> inserted_prefix t (types ! t) q m' st'"
  using assms(3)
proof (induction n arbitrary: m st)
  case 0
  then show ?case by auto
next
  case (Suc n)
  obtain m1 st1 where "insertQueue accepts True lanes types (drop m q) st = Inr (drop m1 q, st1)" "inserted_prefix t (types ! t) q m1 st1"
    using insertQueue_prefix [OF assms(1,2) Suc.prems] by blast
  then show ?case using Suc.IH by simp
qed

text \<open>
  Whenever SUMO accepts or refuses the cars, after any number of time steps every car that has
  been inserted got a name from which its vehicle reads the very id under which the traffic manager
  queued and registered it: the members of the platoons are who the register says they are.
\<close>

theorem cars_get_their_registered_ids:
  assumes k: "0 < sizeOfPlatoon par" "0 < nLanes par" and few: "nCars par < 2 ^ 31"
    and t: "autoType par = int t" "t < length types" "length counts = length types" "counts ! t = 0"
  shows "\<exists>st q' st'. insertPlatoons par laneOffset emptyRegister = Inr st
    \<and> timeSteps n accepts types [(lanes, queued st)] \<lparr>vehiclesCount = counts, attempts = 0, insertedCars = []\<rparr> = Inr (q', st')
    \<and> (\<forall>(name, car, lane) \<in> set (insertedCars st'). let v = getIdFromExternalId name in
         0 \<le> v \<and> v < int (length (queued st)) \<and> car = queued st ! nat v \<and> lane = vehLane car)"
proof -
  obtain st where st: "insertPlatoons par laneOffset emptyRegister = Inr st"
    "queued st = map (vehicleAt par laneOffset) [0..<nCars par div nLanes par * nLanes par]"
    using insertPlatoons_result [OF k] by blast
  have len: "length (queued st) < 2 ^ 31" using few by (simp add: st(2)) (meson div_times_less_eq_dividend le_less_trans)
  have "inserted_prefix t (types ! t) (queued st) 0 \<lparr>vehiclesCount = counts, attempts = 0, insertedCars = []\<rparr>"
    using t by (simp add: inserted_prefix_def)
  moreover have "\<forall>v \<in> set (queued st). vehType v = int t \<and> vehFixedId v < 0" using t(1) by (auto simp: st(2) vehicleAt_def)
  ultimately obtain m st' where run: "timeSteps n accepts types [(lanes, drop 0 (queued st))] \<lparr>vehiclesCount = counts, attempts = 0, insertedCars = []\<rparr>
      = Inr ([(lanes, drop m (queued st))], st')" and p: "inserted_prefix t (types ! t) (queued st) m st'"
    using timeSteps_prefix [OF _ t(2)] by blast
  have "let v = getIdFromExternalId name in 0 \<le> v \<and> v < int (length (queued st)) \<and> car = queued st ! nat v \<and> lane = vehLane car"
    if car: "(name, car, lane) \<in> set (insertedCars st')" for name car lane
  proof -
    obtain i where i: "i < m" "name = externalIdOf (types ! t) i" "car = queued st ! i" "lane = vehLane (queued st ! i)" "m \<le> length (queued st)"
      using car p by (auto simp: inserted_prefix_def)
    then have "getIdFromExternalId name = int i" using externalId_id len by simp
    then show ?thesis using i by simp
  qed
  then show ?thesis using st(1) run by (intro exI conjI) auto
qed

lemma cars_get_their_registered_ids_witness:
  "\<exists>st q' st'. insertPlatoons (platoons_demo 16) (\<lambda>_. 0) emptyRegister = Inr st
    \<and> timeSteps 3 (\<lambda>i. i mod 5 \<noteq> 0) [''auto''] [(2, queued st)] \<lparr>vehiclesCount = [0], attempts = 0, insertedCars = []\<rparr> = Inr (q', st')"
  using cars_get_their_registered_ids [of "platoons_demo 16" 0 "[''auto'']" "[0]" "\<lambda>_. 0" 3 "\<lambda>i. i mod 5 \<noteq> 0" 2]
  by (simp add: platoons_demo_def) blast

end
