(* ===== verification/PlatoonManeuvers.thy ===== *)
theory PlatoonManeuvers
  imports PlatoonPositions
begin

text \<open>
  The maneuvers in which a vehicle, or a whole platoon, joins a platoon at its end:
  \<open>plexe/apps/GeneralPlatooningApp.cc\<close>, \<open>plexe/maneuver/JoinManeuver.cc\<close>,
  \<open>plexe/maneuver/JoinAtBack.cc\<close>, \<open>plexe/maneuver/MergeAtBack.cc\<close>. One vehicle is modelled here.

  \<^item> A handler returns the vehicle and what it does: the messages it sends and the commands it
    gives to its car.
  \<^item> \<open>surroundings\<close> holds what the simulator answers at that moment: time, lane, places, radar.
  \<^item> The data of a target platoon and of a joiner are pointers that may be null, hence options.
\<close>

section \<open>Data\<close>

datatype platoon_role = RoleNone | RoleLeader | RoleFollower | RoleJoiner

datatype join_state =
    IDLE
  | J_WAIT_REPLY | J_WAIT_INFORMATION | J_MOVE_IN_POSITION | J_WAIT_JOIN
  | L_WAIT_JOINER_IN_POSITION | L_WAIT_JOINER_TO_JOIN

datatype maneuver_kind = JoinAtBack | MergeAtBack

record msg_header =
  fromVehicle :: int
  fromExternal :: string
  aboutPlatoon :: int
  destVehicle :: int

text \<open>The last three arguments of a message about a formation are speed, lane and formation of the platoon.\<close>

datatype maneuver_message =
    JoinPlatoonRequest msg_header int real real
  | MergePlatoonRequest msg_header int real real "int list"
  | JoinPlatoonResponse msg_header bool
  | MoveToPosition msg_header real int "int list"
  | MoveToPositionAck msg_header real int "int list"
  | JoinFormation msg_header real int "int list"
  | JoinFormationAck msg_header real int "int list"
  | UpdatePlatoonFormation msg_header real int "int list"
  | UpdatePlatoonData msg_header real int "int list" int

record target_data =
  targetPlatoon :: int
  targetLeader :: int
  targetLane :: int
  targetSpeed :: real
  joinIndex :: int
  targetFormation :: "int list"

record joiner_data =
  joinerId :: int
  joinerLane :: int
  joinerFormation :: "int list"

record maneuver =
  manState :: join_state
  target :: "target_data option"
  joiner :: "joiner_data option"

record platoon_app =
  helper :: position_helper
  externalName :: string
  role :: platoon_role
  inManeuver :: bool
  activeManeuver :: "maneuver_kind option"
  joinMan :: maneuver
  mergeMan :: maneuver
  oldFormation :: "int list"
  oldPlatoon :: int
  checkDistance :: "simtime option"
  activeController :: controller

record beacon =
  pbVehicle :: int
  pbControllerAcceleration :: real
  pbAcceleration :: real
  pbSpeed :: real
  pbX :: real
  pbY :: real
  pbTime :: real
  pbLength :: real
  pbSpeedX :: real
  pbSpeedY :: real
  pbAngle :: real

datatype car_command =
    SetFixedLane int
  | SetActiveController controller
  | SetCACCConstantSpacing real
  | SetCruiseControlDesiredSpeed real
  | SetLeaderVehicleFakeData real real real
  | SetFrontVehicleFakeData real real real real
  | SetLeaderVehicleData real real real real real real
  | SetFrontVehicleData real real real real real real
  | SetVehicleData int beacon
  | AddPlatoonMember int int

datatype app_action = Send maneuver_message int | Command car_command

record surroundings =
  envNow :: simtime
  laneIndex :: int
  omnetX :: real
  omnetY :: real
  traciX :: real
  traciY :: real
  radarDistance :: real

text \<open>Parameters of the scenario; there is a target controller only in a maneuver scenario.\<close>

record scenario =
  targetCtl :: "controller option"
  caccSpacing :: real
  accHeadway :: real
  ploegH :: real

definition man :: "maneuver_kind \<Rightarrow> platoon_app \<Rightarrow> maneuver" where
  "man k v = (case k of JoinAtBack \<Rightarrow> joinMan v | MergeAtBack \<Rightarrow> mergeMan v)"

definition setMan :: "maneuver_kind \<Rightarrow> maneuver \<Rightarrow> platoon_app \<Rightarrow> platoon_app" where
  "setMan k m v = (case k of JoinAtBack \<Rightarrow> v\<lparr>joinMan := m\<rparr> | MergeAtBack \<Rightarrow> v\<lparr>mergeMan := m\<rparr>)"

definition setManState :: "maneuver_kind \<Rightarrow> join_state \<Rightarrow> platoon_app \<Rightarrow> platoon_app" where
  "setManState k s v = setMan k ((man k v)\<lparr>manState := s\<rparr>) v"

definition setInManeuver :: "maneuver_kind option \<Rightarrow> platoon_app \<Rightarrow> platoon_app" where
  "setInManeuver k v = v\<lparr>inManeuver := (k \<noteq> None), activeManeuver := k\<rparr>"

text \<open>The sender, and the fields every maneuver message has.\<close>

definition headerTo :: "platoon_app \<Rightarrow> int \<Rightarrow> int \<Rightarrow> msg_header" where
  "headerTo v p dest = \<lparr>fromVehicle = myId (helper v), fromExternal = externalName v, aboutPlatoon = p, destVehicle = dest\<rparr>"

section \<open>Distances\<close>

definition getStandstillDistance :: "scenario \<Rightarrow> controller \<Rightarrow> real result" where
  "getStandstillDistance sc c =
     (case c of ACC \<Rightarrow> Inr 2 | PLOEG \<Rightarrow> Inr 2 | CACC \<Rightarrow> Inr (caccSpacing sc) | FLATBED \<Rightarrow> Inr (caccSpacing sc) | CONSENSUS \<Rightarrow> Inr 15
      | _ \<Rightarrow> Inl (RuntimeError ''Unkown controller in BaseScenario::getTargetDistance()''))"

definition getHeadway :: "scenario \<Rightarrow> controller \<Rightarrow> real result" where
  "getHeadway sc c =
     (case c of ACC \<Rightarrow> Inr (accHeadway sc) | CACC \<Rightarrow> Inr 0 | FLATBED \<Rightarrow> Inr 0 | PLOEG \<Rightarrow> Inr (ploegH sc) | CONSENSUS \<Rightarrow> Inr 0.8
      | _ \<Rightarrow> Inl (RuntimeError ''Unkown controller in BaseScenario::getTargetDistance()''))"

definition getTargetDistance :: "scenario \<Rightarrow> controller \<Rightarrow> real \<Rightarrow> real result" where
  "getTargetDistance sc c speed =
     rbind (getHeadway sc c) (\<lambda>h. rbind (getStandstillDistance sc c) (\<lambda>d. Inr (speed * h + d)))"

definition getTargetController :: "scenario \<Rightarrow> controller result" where
  "getTargetController sc =
     (case targetCtl sc of
        None \<Rightarrow> Inl (RuntimeError ''getTargetController() invoked from a simulation not inheriting from ManeuverScenario'')
      | Some c \<Rightarrow> Inr c)"

section \<open>The application\<close>

definition isJoinAllowed :: "platoon_app \<Rightarrow> bool" where
  "isJoinAllowed v \<longleftrightarrow> (role v = RoleLeader \<or> role v = RoleNone) \<and> \<not> inManeuver v"

definition setAppFormation :: "int list \<Rightarrow> platoon_app \<Rightarrow> (platoon_app \<times> app_action list) result" where
  "setAppFormation f v =
     rbind (setPlatoonFormation f (helper v)) (\<lambda>(h, ms). Inr (v\<lparr>helper := h\<rparr>, map (\<lambda>(m, i). Command (AddPlatoonMember m i)) ms))"

definition handleUpdatePlatoonFormation :: "msg_header \<Rightarrow> int list \<Rightarrow> platoon_app \<Rightarrow> (platoon_app \<times> app_action list) result" where
  "handleUpdatePlatoonFormation h f v =
     (if role v \<noteq> RoleFollower \<or> aboutPlatoon h \<noteq> platoonId (helper v) \<or> fromVehicle h \<noteq> leaderId (helper v) then Inr (v, [])
      else setAppFormation f v)"

definition handleUpdatePlatoonData :: "msg_header \<Rightarrow> int list \<Rightarrow> int \<Rightarrow> platoon_app \<Rightarrow> (platoon_app \<times> app_action list) result" where
  "handleUpdatePlatoonData h f newId v =
     (if role v \<noteq> RoleFollower \<or> aboutPlatoon h \<noteq> platoonId (helper v) \<or> fromVehicle h \<noteq> leaderId (helper v) then Inr (v, [])
      else rbind (handleUpdatePlatoonFormation h f v) (\<lambda>(v', acts). Inr (v'\<lparr>helper := (helper v')\<lparr>platoonId := newId\<rparr>\<rparr>, acts)))"

definition keepPlatoon :: "beacon \<Rightarrow> platoon_app \<Rightarrow> app_action list" where
  "keepPlatoon pb v =
     (if isInSamePlatoon (helper v) (pbVehicle pb)
      then (if pbVehicle pb = leaderId (helper v)
            then [Command (SetLeaderVehicleData (pbControllerAcceleration pb) (pbAcceleration pb) (pbSpeed pb) (pbX pb) (pbY pb) (pbTime pb))] else [])
         @ (if pbVehicle pb = getFrontId (helper v)
            then [Command (SetFrontVehicleData (pbControllerAcceleration pb) (pbAcceleration pb) (pbSpeed pb) (pbX pb) (pbY pb) (pbTime pb))] else [])
         @ [Command (SetVehicleData (getMemberPosition (helper v) (pbVehicle pb)) pb)]
      else [])"
section \<open>Joining at the back\<close>

text \<open>Both maneuvers begin alike; the result says whether the maneuver has begun.\<close>

definition initializeJoinManeuver :: "maneuver_kind \<Rightarrow> int \<Rightarrow> int \<Rightarrow> platoon_app \<Rightarrow> bool \<times> platoon_app" where
  "initializeJoinManeuver k p leader v =
     (if manState (man k v) \<noteq> IDLE \<or> inManeuver v then (False, v)
      else let t = \<lparr>targetPlatoon = p, targetLeader = leader, targetLane = -1073741824, targetSpeed = -1073741824,
                    joinIndex = -1073741824, targetFormation = []\<rparr>;
               v1 = (setInManeuver (Some k) v)\<lparr>role := RoleJoiner\<rparr>
           in (True, setMan k ((man k v)\<lparr>manState := J_WAIT_REPLY, target := Some t\<rparr>) v1))"

definition startJoin :: "surroundings \<Rightarrow> int \<Rightarrow> int \<Rightarrow> platoon_app \<Rightarrow> (platoon_app \<times> app_action list) result" where
  "startJoin e p leader v =
     (case initializeJoinManeuver JoinAtBack p leader v of (begun, v1) \<Rightarrow>
        Inr (v1, if begun then [Send (JoinPlatoonRequest (headerTo v1 p leader) (laneIndex e) (omnetX e) (omnetY e)) leader] else []))"

definition startMerge :: "surroundings \<Rightarrow> int \<Rightarrow> int \<Rightarrow> platoon_app \<Rightarrow> (platoon_app \<times> app_action list) result" where
  "startMerge e p leader v =
     (let v0 = v\<lparr>oldFormation := formation (helper v), oldPlatoon := platoonId (helper v)\<rparr> in
      case initializeJoinManeuver MergeAtBack p leader v0 of (begun, v1) \<Rightarrow>
        Inr (v1, if begun
                 then [Send (MergePlatoonRequest (headerTo v1 p leader) (laneIndex e) (omnetX e) (omnetY e) (tl (formation (helper v1)))) leader]
                 else []))"

definition startJoinManeuver :: "surroundings \<Rightarrow> int \<Rightarrow> int \<Rightarrow> platoon_app \<Rightarrow> (platoon_app \<times> app_action list) result" where
  "startJoinManeuver e p leader v =
     (if role v \<noteq> RoleNone \<or> inManeuver v then Inl AssertionFailed else startJoin e p leader v)"

definition startMergeManeuver :: "surroundings \<Rightarrow> int \<Rightarrow> int \<Rightarrow> platoon_app \<Rightarrow> (platoon_app \<times> app_action list) result" where
  "startMergeManeuver e p leader v =
     (if role v \<noteq> RoleLeader \<or> inManeuver v then Inl AssertionFailed else startMerge e p leader v)"

definition abortManeuver :: "maneuver_kind \<Rightarrow> platoon_app \<Rightarrow> platoon_app" where
  "abortManeuver k v = setManState k IDLE v"

definition maneuverBeacon :: "scenario \<Rightarrow> surroundings \<Rightarrow> beacon \<Rightarrow> maneuver_kind \<Rightarrow> platoon_app \<Rightarrow> (platoon_app \<times> app_action list) result" where
  "maneuverBeacon sc e pb k v =
     (if manState (man k v) \<noteq> J_MOVE_IN_POSITION then Inr (v, [])
      else if role v \<noteq> RoleJoiner then Inl AssertionFailed
      else
      rbind (found (target (man k v))) (\<lambda>t.
      rbind (vec_at (targetFormation t) 0) (\<lambda>lead.
      let fromLeader = (if pbVehicle pb = lead
            then [Command (SetLeaderVehicleFakeData (pbControllerAcceleration pb) (pbAcceleration pb) (pbSpeed pb))] else []) in
      rbind (vec_at (targetFormation t) (joinIndex t - 1)) (\<lambda>front.
      if pbVehicle pb \<noteq> front then Inr (v, fromLeader)
      else
        let distance = sqrt ((traciX e - pbX pb)\<^sup>2 + (traciY e - pbY pb)\<^sup>2) - pbLength pb;
            cmds = fromLeader @ [Command (SetFrontVehicleFakeData (pbControllerAcceleration pb) (pbAcceleration pb) (pbSpeed pb) distance)] in
        rbind (getTargetController sc) (\<lambda>c.
        rbind (getTargetDistance sc c (targetSpeed t)) (\<lambda>gap.
          if distance < gap + 11
          then Inr (setManState k J_WAIT_JOIN v,
                    cmds @ [Send (MoveToPositionAck (headerTo v (targetPlatoon t) (targetLeader t)) (targetSpeed t) (targetLane t) (targetFormation t)) lead])
          else Inr (v, cmds)))))))"

definition processJoinRequest :: "surroundings \<Rightarrow> maneuver_kind \<Rightarrow> msg_header \<Rightarrow> int \<Rightarrow> platoon_app \<Rightarrow> bool \<times> platoon_app \<times> app_action list" where
  "processJoinRequest e k h lane v =
     (if aboutPlatoon h \<noteq> platoonId (helper v) \<or> (role v \<noteq> RoleLeader \<and> role v \<noteq> RoleNone) then (False, v, [])
      else
        let permission = isJoinAllowed v;
            response = Send (JoinPlatoonResponse (headerTo v (aboutPlatoon h) (fromVehicle h)) permission) (fromVehicle h) in
        if \<not> permission then (False, v, [response])
        else
          let v1 = (setInManeuver (Some k) v)\<lparr>role := RoleLeader, helper := (helper v)\<lparr>platoonLane := laneIndex e\<rparr>\<rparr>;
              j = \<lparr>joinerId = fromVehicle h, joinerLane = lane, joinerFormation = formation (helper v) @ [fromVehicle h]\<rparr>
          in (True, setMan k ((man k v)\<lparr>manState := L_WAIT_JOINER_IN_POSITION, joiner := Some j\<rparr>) v1,
              [response, Command (SetFixedLane (laneIndex e))]))"

text \<open>The platoon data the leader sends to the joiner.\<close>

definition moveToPosition :: "maneuver_kind \<Rightarrow> platoon_app \<Rightarrow> app_action list result" where
  "moveToPosition k v =
     rbind (found (joiner (man k v))) (\<lambda>j.
       Inr [Send (MoveToPosition (headerTo v (platoonId (helper v)) (joinerId j)) (platoonSpeed (helper v)) (platoonLane (helper v)) (joinerFormation j)) (joinerId j)])"

definition handleJoinPlatoonRequest ::
    "surroundings \<Rightarrow> maneuver_kind \<Rightarrow> msg_header \<Rightarrow> int \<Rightarrow> platoon_app \<Rightarrow> (platoon_app \<times> app_action list) result" where
  "handleJoinPlatoonRequest e k h lane v =
     (case k of
        MergeAtBack \<Rightarrow> Inr (v, [])
      | JoinAtBack \<Rightarrow>
          (case processJoinRequest e k h lane v of (ok, v1, acts) \<Rightarrow>
             if \<not> ok then Inr (v1, acts)
             else rbind (moveToPosition k v1) (\<lambda>mtp. Inr (v1, acts @ mtp))))"

definition handleMergePlatoonRequest ::
    "surroundings \<Rightarrow> maneuver_kind \<Rightarrow> msg_header \<Rightarrow> int \<Rightarrow> int list \<Rightarrow> platoon_app \<Rightarrow> (platoon_app \<times> app_action list) result" where
  "handleMergePlatoonRequest e k h lane members v =
     (case k of
        JoinAtBack \<Rightarrow> Inr (v, [])
      | MergeAtBack \<Rightarrow>
          (case processJoinRequest e k h lane v of (ok, v1, acts) \<Rightarrow>
             if \<not> ok then Inr (v1, acts)
             else
               rbind (found (joiner (man k v1))) (\<lambda>j.
               let v2 = setMan k ((man k v1)\<lparr>joiner := Some (j\<lparr>joinerFormation := joinerFormation j @ members\<rparr>)\<rparr>) v1 in
               rbind (moveToPosition k v2) (\<lambda>mtp. Inr (v2, acts @ mtp)))))"

definition handleJoinPlatoonResponse ::
    "surroundings \<Rightarrow> maneuver_kind \<Rightarrow> msg_header \<Rightarrow> bool \<Rightarrow> platoon_app \<Rightarrow> (platoon_app \<times> app_action list) result" where
  "handleJoinPlatoonResponse e k h permitted v =
     (if role v \<noteq> RoleJoiner \<or> manState (man k v) \<noteq> J_WAIT_REPLY then Inr (v, [])
      else
      rbind (found (target (man k v))) (\<lambda>t.
        if aboutPlatoon h \<noteq> targetPlatoon t \<or> fromVehicle h \<noteq> targetLeader t then Inr (v, [])
        else if permitted then Inr (setManState k J_WAIT_INFORMATION v, [Command (SetFixedLane (laneIndex e))])
        else Inr (setInManeuver None ((setManState k IDLE v)\<lparr>role := RoleNone\<rparr>), [])))"

text \<open>What the joiner keeps of a \<open>MoveToPosition\<close>: its index stays unset when it is not in the formation.\<close>

definition targetFrom :: "msg_header \<Rightarrow> real \<Rightarrow> int \<Rightarrow> int list \<Rightarrow> target_data \<Rightarrow> target_data" where
  "targetFrom h speed lane f t =
     t\<lparr>targetPlatoon := aboutPlatoon h, targetLeader := fromVehicle h, targetLane := lane, targetSpeed := speed, targetFormation := f,
       joinIndex := (if destVehicle h \<in> set f then int (length (takeWhile (\<lambda>x. x \<noteq> destVehicle h) f)) else joinIndex t)\<rparr>"

definition handleMoveToPosition ::
    "surroundings \<Rightarrow> maneuver_kind \<Rightarrow> msg_header \<Rightarrow> real \<Rightarrow> int \<Rightarrow> int list \<Rightarrow> platoon_app \<Rightarrow> (platoon_app \<times> app_action list) result" where
  "handleMoveToPosition e k h speed lane f v =
     (if role v \<noteq> RoleJoiner \<or> manState (man k v) \<noteq> J_WAIT_INFORMATION then Inr (v, [])
      else
      rbind (found (target (man k v))) (\<lambda>t.
        if aboutPlatoon h \<noteq> targetPlatoon t \<or> fromVehicle h \<noteq> targetLeader t then Inr (v, [])
        else
          Inr (setMan k ((man k v)\<lparr>manState := J_MOVE_IN_POSITION, target := Some (targetFrom h speed lane f t)\<rparr>) (v\<lparr>activeController := FAKED_CACC\<rparr>),
               (if laneIndex e \<noteq> lane then [Command (SetFixedLane lane)] else [])
               @ [Command (SetCACCConstantSpacing 15), Command (SetLeaderVehicleFakeData 0 0 speed), Command (SetFrontVehicleFakeData 0 0 speed 15),
                  Command (SetCruiseControlDesiredSpeed (speed + 30 / 3.6)), Command (SetActiveController FAKED_CACC)])))"

text \<open>The assertion that the formation of a message is, as far as it goes, the one stored.\<close>

fun sameFormation :: "int list \<Rightarrow> int list \<Rightarrow> unit result" where
  "sameFormation [] ys = Inr ()"
| "sameFormation (x # xs) [] = Inl OutOfRange"
| "sameFormation (x # xs) (y # ys) = (if x = y then sameFormation xs ys else Inl AssertionFailed)"

definition handleMoveToPositionAck ::
    "surroundings \<Rightarrow> maneuver_kind \<Rightarrow> msg_header \<Rightarrow> int list \<Rightarrow> platoon_app \<Rightarrow> (platoon_app \<times> app_action list) result" where
  "handleMoveToPositionAck e k h f v =
     (if role v \<noteq> RoleLeader \<or> manState (man k v) \<noteq> L_WAIT_JOINER_IN_POSITION \<or> aboutPlatoon h \<noteq> platoonId (helper v) then Inr (v, [])
      else
      rbind (found (joiner (man k v))) (\<lambda>j.
        if fromVehicle h \<noteq> joinerId j then Inr (v, [])
        else
          rbind (sameFormation f (joinerFormation j)) (\<lambda>_.
            Inr (setManState k L_WAIT_JOINER_TO_JOIN v,
                 [Send (JoinFormation (headerTo v (platoonId (helper v)) (joinerId j)) (platoonSpeed (helper v)) (laneIndex e) (joinerFormation j)) (joinerId j)]))))"
text \<open>The joiner becomes a member: controller, spacing, platoon data and formation.\<close>

definition joinPlatoon :: "scenario \<Rightarrow> msg_header \<Rightarrow> target_data \<Rightarrow> int list \<Rightarrow> platoon_app \<Rightarrow> (platoon_app \<times> app_action list) result" where
  "joinPlatoon sc h t f v =
     rbind (getTargetController sc) (\<lambda>c.
     rbind (getStandstillDistance sc c) (\<lambda>d.
     rbind (getHeadway sc c) (\<lambda>hw.
     rbind (if c = CACC \<or> c = FLATBED then getTargetDistance sc c (targetSpeed t) else Inr 0) (\<lambda>gap.
     let v1 = v\<lparr>activeController := c,
                helper := (helper v)\<lparr>helperDistance := d, helperHeadway := hw, platoonId := aboutPlatoon h,
                                     platoonLane := targetLane t, platoonSpeed := targetSpeed t\<rparr>\<rparr> in
     rbind (setAppFormation f v1) (\<lambda>(v2, acts).
       Inr (v2, [Command (SetActiveController c)] @ (if c = CACC \<or> c = FLATBED then [Command (SetCACCConstantSpacing gap)] else []) @ acts))))))"

definition joinAtBackFormation ::
    "scenario \<Rightarrow> surroundings \<Rightarrow> maneuver_kind \<Rightarrow> msg_header \<Rightarrow> int list \<Rightarrow> platoon_app \<Rightarrow> (platoon_app \<times> app_action list) result" where
  "joinAtBackFormation sc e k h f v =
     (if role v \<noteq> RoleJoiner \<or> manState (man k v) \<noteq> J_WAIT_JOIN then Inr (v, [])
      else
      rbind (found (target (man k v))) (\<lambda>t.
        if aboutPlatoon h \<noteq> targetPlatoon t \<or> fromVehicle h \<noteq> targetLeader t then Inr (v, [])
        else
          rbind (sameFormation f (targetFormation t)) (\<lambda>_.
          rbind (joinPlatoon sc h t f v) (\<lambda>(v1, acts).
          let ack = Send (JoinFormationAck (headerTo v1 (platoonId (helper v1)) (targetLeader t)) (platoonSpeed (helper v1)) (laneIndex e) f) (leaderId (helper v1))
          in Inr (setInManeuver None (setManState k IDLE (v1\<lparr>role := RoleFollower\<rparr>)), acts @ [ack])))))"

definition half_second :: simtime where "half_second = simtime_ms 500"

definition handleJoinFormation ::
    "scenario \<Rightarrow> surroundings \<Rightarrow> maneuver_kind \<Rightarrow> msg_header \<Rightarrow> int list \<Rightarrow> platoon_app \<Rightarrow> (platoon_app \<times> app_action list) result" where
  "handleJoinFormation sc e k h f v =
     (case k of
        JoinAtBack \<Rightarrow> joinAtBackFormation sc e k h f v
      | MergeAtBack \<Rightarrow>
          if checkDistance v \<noteq> None then Inr (v, [])
          else joinAtBackFormation sc e k h f (v\<lparr>checkDistance := Some (envNow e + half_second)\<rparr>))"

definition updateMembers :: "surroundings \<Rightarrow> int list \<Rightarrow> platoon_app \<Rightarrow> app_action list" where
  "updateMembers e f v =
     map (\<lambda>i. let dest = getMemberId (helper v) i in
            Send (UpdatePlatoonFormation (headerTo v (platoonId (helper v)) dest) (platoonSpeed (helper v)) (laneIndex e) f) dest)
         [1..getPlatoonSize (helper v) - 1]"

definition handleJoinFormationAck ::
    "surroundings \<Rightarrow> maneuver_kind \<Rightarrow> msg_header \<Rightarrow> int list \<Rightarrow> platoon_app \<Rightarrow> (platoon_app \<times> app_action list) result" where
  "handleJoinFormationAck e k h f v =
     (if role v \<noteq> RoleLeader \<or> manState (man k v) \<noteq> L_WAIT_JOINER_TO_JOIN \<or> aboutPlatoon h \<noteq> platoonId (helper v) then Inr (v, [])
      else
      rbind (found (joiner (man k v))) (\<lambda>j.
        if fromVehicle h \<noteq> joinerId j then Inr (v, [])
        else
          rbind (sameFormation f (joinerFormation j)) (\<lambda>_.
          rbind (setAppFormation (joinerFormation j) v) (\<lambda>(v1, acts).
            Inr (setInManeuver None (setManState k IDLE v1), acts @ updateMembers e (joinerFormation j) v1)))))"

text \<open>The timer of a merge: is the platoon in front close enough?\<close>

definition checkDistanceDue :: "scenario \<Rightarrow> surroundings \<Rightarrow> platoon_app \<Rightarrow> (platoon_app \<times> app_action list) result" where
  "checkDistanceDue sc e v =
     rbind (found (target (mergeMan v))) (\<lambda>t.
     rbind (getTargetDistance sc (activeController v) (targetSpeed t)) (\<lambda>gap.
       if radarDistance e < gap + 1
       then Inr (v\<lparr>checkDistance := None\<rparr>,
                 map (\<lambda>d. Send (UpdatePlatoonData (headerTo v (oldPlatoon v) d) (targetSpeed t) (targetLane t) (targetFormation t) (targetPlatoon t)) d)
                     (tl (oldFormation v)))
       else Inr (v\<lparr>checkDistance := Some (envNow e + half_second)\<rparr>, [])))"

section \<open>Dispatch\<close>

fun headerOf :: "maneuver_message \<Rightarrow> msg_header" where
  "headerOf (JoinPlatoonRequest h _ _ _) = h"
| "headerOf (MergePlatoonRequest h _ _ _ _) = h"
| "headerOf (JoinPlatoonResponse h _) = h"
| "headerOf (MoveToPosition h _ _ _) = h"
| "headerOf (MoveToPositionAck h _ _ _) = h"
| "headerOf (JoinFormation h _ _ _) = h"
| "headerOf (JoinFormationAck h _ _ _) = h"
| "headerOf (UpdatePlatoonFormation h _ _ _) = h"
| "headerOf (UpdatePlatoonData h _ _ _ _) = h"

text \<open>One maneuver handles a message.\<close>

fun onManeuverMessage ::
    "scenario \<Rightarrow> surroundings \<Rightarrow> maneuver_kind \<Rightarrow> maneuver_message \<Rightarrow> platoon_app \<Rightarrow> (platoon_app \<times> app_action list) result" where
  "onManeuverMessage sc e k (MergePlatoonRequest h lane x y members) v = handleMergePlatoonRequest e k h lane members v"
| "onManeuverMessage sc e k (JoinPlatoonRequest h lane x y) v = handleJoinPlatoonRequest e k h lane v"
| "onManeuverMessage sc e k (JoinPlatoonResponse h permitted) v = handleJoinPlatoonResponse e k h permitted v"
| "onManeuverMessage sc e k (MoveToPosition h speed lane f) v = handleMoveToPosition e k h speed lane f v"
| "onManeuverMessage sc e k (MoveToPositionAck h speed lane f) v = handleMoveToPositionAck e k h f v"
| "onManeuverMessage sc e k (JoinFormation h speed lane f) v = handleJoinFormation sc e k h f v"
| "onManeuverMessage sc e k (JoinFormationAck h speed lane f) v = handleJoinFormationAck e k h f v"
| "onManeuverMessage sc e k _ v = Inr (v, [])"

text \<open>First one maneuver, then the other.\<close>

definition bothManeuvers ::
    "(maneuver_kind \<Rightarrow> platoon_app \<Rightarrow> (platoon_app \<times> app_action list) result) \<Rightarrow> platoon_app \<Rightarrow> (platoon_app \<times> app_action list) result" where
  "bothManeuvers f v =
     rbind (f JoinAtBack v) (\<lambda>(v1, acts1). rbind (f MergeAtBack v1) (\<lambda>(v2, acts2). Inr (v2, acts1 @ acts2)))"

definition appManeuverMessage :: "scenario \<Rightarrow> surroundings \<Rightarrow> maneuver_message \<Rightarrow> platoon_app \<Rightarrow> (platoon_app \<times> app_action list) result" where
  "appManeuverMessage sc e m v =
     (case activeManeuver v of
        Some k \<Rightarrow> onManeuverMessage sc e k m v
      | None \<Rightarrow> bothManeuvers (\<lambda>k. onManeuverMessage sc e k m) v)"

fun handleLowerMsg :: "scenario \<Rightarrow> surroundings \<Rightarrow> maneuver_message \<Rightarrow> platoon_app \<Rightarrow> (platoon_app \<times> app_action list) result" where
  "handleLowerMsg sc e (UpdatePlatoonData h speed lane f newId) v = handleUpdatePlatoonData h f newId v"
| "handleLowerMsg sc e (UpdatePlatoonFormation h speed lane f) v = handleUpdatePlatoonFormation h f v"
| "handleLowerMsg sc e m v = appManeuverMessage sc e m v"

definition onPlatoonBeacon :: "scenario \<Rightarrow> surroundings \<Rightarrow> beacon \<Rightarrow> platoon_app \<Rightarrow> (platoon_app \<times> app_action list) result" where
  "onPlatoonBeacon sc e pb v = rbind (bothManeuvers (maneuverBeacon sc e pb) v) (\<lambda>(v1, acts). Inr (v1, acts @ keepPlatoon pb v1))"

text \<open>A unicast message that could not be delivered ends the simulation.\<close>

definition onFailedTransmissionAttempt :: "maneuver_message \<Rightarrow> platoon_app \<Rightarrow> (platoon_app \<times> app_action list) result" where
  "onFailedTransmissionAttempt m v = Inl (RuntimeError ''Impossible to send this packet. Maximum number of unicast retries reached'')"

text \<open>The role a vehicle starts with.\<close>

definition initialApp :: "position_helper \<Rightarrow> string \<Rightarrow> controller \<Rightarrow> platoon_app" where
  "initialApp h name c =
     \<lparr>helper = h, externalName = name, role = (if isLeader h then RoleLeader else RoleFollower), inManeuver = False, activeManeuver = None,
      joinMan = \<lparr>manState = IDLE, target = None, joiner = None\<rparr>, mergeMan = \<lparr>manState = IDLE, target = None, joiner = None\<rparr>,
      oldFormation = [], oldPlatoon = -1, checkDistance = None, activeController = c\<rparr>"
section \<open>What a vehicle may hold\<close>

definition joining :: "join_state \<Rightarrow> bool" where
  "joining s \<longleftrightarrow> s = J_WAIT_REPLY \<or> s = J_WAIT_INFORMATION \<or> s = J_MOVE_IN_POSITION \<or> s = J_WAIT_JOIN"

definition leading :: "join_state \<Rightarrow> bool" where
  "leading s \<longleftrightarrow> s = L_WAIT_JOINER_IN_POSITION \<or> s = L_WAIT_JOINER_TO_JOIN"

text \<open>
  The type of a vehicle: at most one maneuver is active, it is the only one whose state is not
  \<open>IDLE\<close>, its data are there, and the role fits.
\<close>

definition engaged :: "maneuver \<Rightarrow> platoon_role \<Rightarrow> bool" where
  "engaged m r \<longleftrightarrow> joining (manState m) \<and> r = RoleJoiner \<and> target m \<noteq> None
     \<or> leading (manState m) \<and> r = RoleLeader \<and> joiner m \<noteq> None"

definition app_ok :: "platoon_app \<Rightarrow> bool" where
  "app_ok v \<longleftrightarrow>
     (case activeManeuver v of
        None \<Rightarrow> \<not> inManeuver v \<and> role v \<noteq> RoleJoiner
      | Some k \<Rightarrow> inManeuver v \<and> engaged (man k v) (role v))
     \<and> (\<forall>k. activeManeuver v \<noteq> Some k \<longrightarrow> manState (man k v) = IDLE)"

text \<open>The vehicle stays well typed, the target of a merge is not forgotten, and no null pointer is read.\<close>

definition fine :: "platoon_app \<Rightarrow> (platoon_app \<times> app_action list) result \<Rightarrow> bool" where
  "fine v r \<longleftrightarrow> (case r of Inl e \<Rightarrow> e \<noteq> NullPointer
     | Inr (v', acts) \<Rightarrow> app_ok v' \<and> (target (mergeMan v) \<noteq> None \<longrightarrow> target (mergeMan v') \<noteq> None))"

lemma fine_simps [simp]:
  "fine v (Inr (v', acts)) \<longleftrightarrow> app_ok v' \<and> (target (mergeMan v) \<noteq> None \<longrightarrow> target (mergeMan v') \<noteq> None)"
  "fine v (Inl x) \<longleftrightarrow> x \<noteq> NullPointer"
  by (simp_all add: fine_def)

lemma man_simps [simp]:
  "man k' (setMan k m v) = (if k' = k then m else man k' v)"
  "role (setMan k m v) = role v" "inManeuver (setMan k m v) = inManeuver v" "activeManeuver (setMan k m v) = activeManeuver v"
  "helper (setMan k m v) = helper v" "externalName (setMan k m v) = externalName v" "checkDistance (setMan k m v) = checkDistance v"
  "oldFormation (setMan k m v) = oldFormation v" "oldPlatoon (setMan k m v) = oldPlatoon v" "activeController (setMan k m v) = activeController v"
  by (auto simp: man_def setMan_def split: maneuver_kind.splits)

lemma setInManeuver_simps [simp]:
  "man k (setInManeuver a v) = man k v" "role (setInManeuver a v) = role v" "inManeuver (setInManeuver a v) \<longleftrightarrow> a \<noteq> None"
  "activeManeuver (setInManeuver a v) = a" "helper (setInManeuver a v) = helper v" "externalName (setInManeuver a v) = externalName v"
  "checkDistance (setInManeuver a v) = checkDistance v"
  "oldFormation (setInManeuver a v) = oldFormation v" "oldPlatoon (setInManeuver a v) = oldPlatoon v"
  "activeController (setInManeuver a v) = activeController v"
  by (auto simp: man_def setInManeuver_def split: maneuver_kind.splits)

lemma man_update [simp]:
  "man k (v\<lparr>role := r\<rparr>) = man k v" "man k (v\<lparr>helper := h\<rparr>) = man k v" "man k (v\<lparr>checkDistance := c\<rparr>) = man k v"
  "man k (v\<lparr>activeController := a\<rparr>) = man k v" "man k (v\<lparr>oldFormation := f\<rparr>) = man k v" "man k (v\<lparr>oldPlatoon := p\<rparr>) = man k v"
  by (auto simp: man_def split: maneuver_kind.splits)

lemma setManState_simps [simp]:
  "man k' (setManState k s v) = (if k' = k then (man k v)\<lparr>manState := s\<rparr> else man k' v)"
  "role (setManState k s v) = role v" "inManeuver (setManState k s v) = inManeuver v" "activeManeuver (setManState k s v) = activeManeuver v"
  "helper (setManState k s v) = helper v" "externalName (setManState k s v) = externalName v" "checkDistance (setManState k s v) = checkDistance v"
  "oldFormation (setManState k s v) = oldFormation v" "oldPlatoon (setManState k s v) = oldPlatoon v" "activeController (setManState k s v) = activeController v"
  by (simp_all add: setManState_def)

lemma mergeMan_man: "mergeMan v = man MergeAtBack v" by (simp add: man_def)

lemma joining_simps [simp]:
  "joining J_WAIT_REPLY" "joining J_WAIT_INFORMATION" "joining J_MOVE_IN_POSITION" "joining J_WAIT_JOIN" "\<not> joining IDLE"
  "\<not> joining L_WAIT_JOINER_IN_POSITION" "\<not> joining L_WAIT_JOINER_TO_JOIN"
  "leading L_WAIT_JOINER_IN_POSITION" "leading L_WAIT_JOINER_TO_JOIN" "\<not> leading IDLE"
  "\<not> leading J_WAIT_REPLY" "\<not> leading J_WAIT_INFORMATION" "\<not> leading J_MOVE_IN_POSITION" "\<not> leading J_WAIT_JOIN"
  by (simp_all add: joining_def leading_def)

lemma not_null [simp]: "AssertionFailed \<noteq> NullPointer" "OutOfRange \<noteq> NullPointer" "RuntimeError s \<noteq> NullPointer"
  by simp_all

lemma engaged_simps [simp]:
  "engaged m RoleJoiner \<longleftrightarrow> joining (manState m) \<and> target m \<noteq> None"
  "engaged m RoleLeader \<longleftrightarrow> leading (manState m) \<and> joiner m \<noteq> None"
  "\<not> engaged m RoleNone" "\<not> engaged m RoleFollower"
  by (auto simp: engaged_def)

lemma app_ok_idle: "app_ok v \<Longrightarrow> \<not> inManeuver v \<Longrightarrow> activeManeuver v = None \<and> manState (man k v) = IDLE"
  by (auto simp: app_ok_def split: option.splits)

lemma app_ok_active:
  assumes "app_ok v" "manState (man k v) \<noteq> IDLE"
  shows "activeManeuver v = Some k \<and> inManeuver v \<and> engaged (man k v) (role v)"
proof -
  have "activeManeuver v = Some k" using assms unfolding app_ok_def by blast
  then show ?thesis using assms(1) unfolding app_ok_def by simp
qed

text \<open>A maneuver is active afterwards, or none is.\<close>

lemma app_ok_engaged:
  assumes "app_ok v" "activeManeuver v = None \<or> activeManeuver v = Some k" "activeManeuver w = Some k" "inManeuver w" "engaged (man k w) (role w)"
    "\<And>k'. k' \<noteq> k \<Longrightarrow> man k' w = man k' v"
  shows "app_ok w"
proof -
  have "manState (man k' w) = IDLE" if "k' \<noteq> k" for k'
    using assms(1,2) assms(6) [OF that] that unfolding app_ok_def by auto
  then show ?thesis using assms(3-5) unfolding app_ok_def by simp
qed

lemma app_ok_free:
  assumes "app_ok v" "activeManeuver v = None \<or> activeManeuver v = Some k" "activeManeuver w = None" "\<not> inManeuver w" "role w \<noteq> RoleJoiner"
    "\<And>k'. k' \<noteq> k \<Longrightarrow> man k' w = man k' v" "manState (man k w) = IDLE"
  shows "app_ok w"
proof -
  have "manState (man k' w) = IDLE" for k'
    using assms(1,2,7) assms(6) [of k'] unfolding app_ok_def by (cases "k' = k") auto
  then show ?thesis using assms(3-5) unfolding app_ok_def by simp
qed

text \<open>A change that leaves role, maneuvers and their data alone.\<close>

lemma app_ok_same:
  "role w = role v \<Longrightarrow> inManeuver w = inManeuver v \<Longrightarrow> activeManeuver w = activeManeuver v \<Longrightarrow> (\<And>k. man k w = man k v)
   \<Longrightarrow> app_ok w = app_ok v"
  unfolding app_ok_def by presburger

lemma setAppFormation_cases:
  "setAppFormation f v \<noteq> Inl NullPointer"
  "setAppFormation f v = Inr (w, acts) \<Longrightarrow> \<exists>h. w = v\<lparr>helper := h\<rparr>"
  by (auto simp: setAppFormation_def setPlatoonFormation_def setVariablesAfterFormationChange_def vec_at_def Let_def rbind_def
      split: if_splits sum.splits prod.splits)

lemma sameFormation_error: "sameFormation xs ys \<noteq> Inl NullPointer"
  by (induction xs ys rule: sameFormation.induct) auto

lemma vec_at_error: "vec_at xs i \<noteq> Inl NullPointer"
  by (simp add: vec_at_def)

lemma distance_errors:
  "getTargetController sc \<noteq> Inl NullPointer" "getStandstillDistance sc c \<noteq> Inl NullPointer"
  "getHeadway sc c \<noteq> Inl NullPointer" "getTargetDistance sc c s \<noteq> Inl NullPointer"
  by (auto simp: getTargetController_def getStandstillDistance_def getHeadway_def getTargetDistance_def rbind_def
      split: option.splits controller.splits sum.splits)

lemmas no_null = setAppFormation_cases(1) sameFormation_error vec_at_error distance_errors

text \<open>An error of a step is an error of the whole; otherwise the rest decides.\<close>

lemma fine_rbind: "a \<noteq> Inl NullPointer \<Longrightarrow> (\<And>y. a = Inr y \<Longrightarrow> fine v (f y)) \<Longrightarrow> fine v (rbind a f)"
  by (cases a) auto

text \<open>A step that forgets no target and leaves the vehicle well typed.\<close>

definition keeps :: "platoon_app \<Rightarrow> platoon_app \<Rightarrow> bool" where
  "keeps v w \<longleftrightarrow> app_ok w \<and> (target (mergeMan v) \<noteq> None \<longrightarrow> target (mergeMan w) \<noteq> None)"

lemma keepsI: "app_ok w \<Longrightarrow> (\<And>k. target (man k v) \<noteq> None \<Longrightarrow> target (man k w) \<noteq> None) \<Longrightarrow> keeps v w"
  by (auto simp: keeps_def mergeMan_man)

lemma fine_keeps: "fine v (Inr (w, acts)) \<longleftrightarrow> keeps v w"
  by (simp add: keeps_def)
lemma keeps_refl: "app_ok v \<Longrightarrow> keeps v v"
  by (simp add: keeps_def)

lemma keeps_initialize:
  assumes "app_ok v" "initializeJoinManeuver k p leader v = (b, w)"
  shows "keeps v w"
proof (cases "manState (man k v) \<noteq> IDLE \<or> inManeuver v")
  case True
  then show ?thesis using assms by (simp add: initializeJoinManeuver_def keeps_refl)
next
  case False
  then have w: "w = setMan k ((man k v)\<lparr>manState := J_WAIT_REPLY, target := Some \<lparr>targetPlatoon = p, targetLeader = leader,
      targetLane = -1073741824, targetSpeed = -1073741824, joinIndex = -1073741824, targetFormation = []\<rparr>\<rparr>) ((setInManeuver (Some k) v)\<lparr>role := RoleJoiner\<rparr>)"
    using assms by (simp add: initializeJoinManeuver_def Let_def)
  show ?thesis
  proof (rule keepsI)
    show "app_ok w" using False app_ok_idle [OF assms(1)]
      by (intro app_ok_engaged [OF assms(1), where k = k]) (simp_all add: w)
  qed (auto simp: w)
qed

lemma fine_startJoinManeuver: "app_ok v \<Longrightarrow> fine v (startJoinManeuver e p leader v)"
  using keeps_initialize [of v JoinAtBack p leader]
  by (auto simp: startJoinManeuver_def startJoin_def fine_keeps simp del: fine_simps(1) split: prod.splits)

lemma fine_startMergeManeuver:
  assumes "app_ok v"
  shows "fine v (startMergeManeuver e p leader v)"
proof -
  let ?v = "v\<lparr>oldFormation := formation (helper v), oldPlatoon := platoonId (helper v)\<rparr>"
  have "app_ok ?v" using assms by (subst app_ok_same [of _ v]) simp_all
  then show ?thesis using keeps_initialize [of ?v MergeAtBack p leader]
    by (auto simp: startMergeManeuver_def startMerge_def keeps_def split: prod.splits)
qed

lemma fine_maneuverBeacon:
  assumes "app_ok v"
  shows "fine v (maneuverBeacon sc e pb k v)"
proof (cases "manState (man k v) = J_MOVE_IN_POSITION")
  case True
  show ?thesis
  proof (cases "role v = RoleJoiner")
    case j: True
    then obtain t where t: "target (man k v) = Some t" using app_ok_active [OF assms, of k] True by auto
    have "keeps v (setManState k J_WAIT_JOIN v)"
    proof (rule keepsI)
      show "app_ok (setManState k J_WAIT_JOIN v)"
        using True j t app_ok_active [OF assms, of k] by (intro app_ok_engaged [OF assms, where k = k]) simp_all
    qed auto
    then have "fine v (Inr (setManState k J_WAIT_JOIN v, acts))" for acts by (simp add: fine_keeps del: fine_simps)
    moreover have "fine v (Inr (v, acts))" for acts using assms by simp
    ultimately show ?thesis using True j t
      unfolding maneuverBeacon_def Let_def
      by (simp add: found_def del: fine_simps) (intro impI conjI fine_rbind no_null; simp del: fine_simps add: fine_rbind no_null)
  qed (use True in \<open>simp add: maneuverBeacon_def\<close>)
qed (use assms in \<open>simp add: maneuverBeacon_def\<close>)

lemma processJoinRequest_ok:
  assumes "app_ok v" "processJoinRequest e k h lane v = (b, w, acts)"
  shows "keeps v w \<and> (b \<longrightarrow> manState (man k w) = L_WAIT_JOINER_IN_POSITION \<and> (\<exists>j. joiner (man k w) = Some j))"
proof (cases b)
  case False
  then have "w = v" using assms by (auto simp: processJoinRequest_def Let_def split: if_splits)
  then show ?thesis using False assms by (simp add: keeps_refl)
next
  case True
  then have p: "\<not> inManeuver v"
    and w: "w = setMan k ((man k v)\<lparr>manState := L_WAIT_JOINER_IN_POSITION, joiner := Some \<lparr>joinerId = fromVehicle h, joinerLane = lane,
        joinerFormation = formation (helper v) @ [fromVehicle h]\<rparr>\<rparr>)
      ((setInManeuver (Some k) v)\<lparr>role := RoleLeader, helper := (helper v)\<lparr>platoonLane := laneIndex e\<rparr>\<rparr>)"
    using assms by (auto simp: processJoinRequest_def isJoinAllowed_def Let_def split: if_splits)
  have "keeps v w"
  proof (rule keepsI)
    show "app_ok w" using p app_ok_idle [OF assms(1)]
      by (intro app_ok_engaged [OF assms(1), where k = k]) (simp_all add: w)
  qed (auto simp: w)
  then show ?thesis by (simp add: w)
qed

lemma fine_handleJoinPlatoonRequest:
  assumes "app_ok v"
  shows "fine v (handleJoinPlatoonRequest e k h lane v)"
proof (cases k)
  case JoinAtBack
  obtain b w acts where w: "processJoinRequest e k h lane v = (b, w, acts)" by (metis prod_cases3)
  show ?thesis
    using processJoinRequest_ok [OF assms w] w JoinAtBack
    by (cases b) (auto simp: handleJoinPlatoonRequest_def moveToPosition_def found_def keeps_def)
qed (use assms in \<open>simp add: handleJoinPlatoonRequest_def\<close>)

lemma fine_handleMergePlatoonRequest:
  assumes "app_ok v"
  shows "fine v (handleMergePlatoonRequest e k h lane members v)"
proof (cases k)
  case MergeAtBack
  obtain b w acts where w: "processJoinRequest e k h lane v = (b, w, acts)" by (metis prod_cases3)
  note ok = processJoinRequest_ok [OF assms w]
  show ?thesis
  proof (cases b)
    case True
    then obtain j where j: "manState (man k w) = L_WAIT_JOINER_IN_POSITION" "joiner (man k w) = Some j" using ok by blast
    have aw: "app_ok w" using ok by (simp add: keeps_def)
    have a: "activeManeuver w = Some k \<and> inManeuver w \<and> engaged (man k w) (role w)"
      by (rule app_ok_active [OF aw]) (simp add: j)
    define u where "u = setMan k ((man k w)\<lparr>joiner := Some (j\<lparr>joinerFormation := joinerFormation j @ members\<rparr>)\<rparr>) w"
    have "app_ok u" using a j by (intro app_ok_engaged [OF aw, where k = k]) (auto simp: u_def engaged_def)
    then have "keeps v u" using ok by (auto simp: keeps_def mergeMan_man u_def)
    then show ?thesis using True w j MergeAtBack
      by (simp add: handleMergePlatoonRequest_def moveToPosition_def found_def Let_def keeps_def u_def [symmetric])
         (simp add: u_def)
  qed (use w ok MergeAtBack in \<open>simp add: handleMergePlatoonRequest_def keeps_def\<close>)
qed (use assms in \<open>simp add: handleMergePlatoonRequest_def\<close>)
lemma fine_handleJoinPlatoonResponse:
  assumes "app_ok v"
  shows "fine v (handleJoinPlatoonResponse e k h permitted v)"
proof (cases "manState (man k v) = J_WAIT_REPLY \<and> role v = RoleJoiner")
  case True
  then have a: "activeManeuver v = Some k" "inManeuver v" "engaged (man k v) (role v)" using app_ok_active [OF assms, of k] by auto
  then obtain t where t: "target (man k v) = Some t" using True by auto
  have "keeps v (setManState k J_WAIT_INFORMATION v)"
    using a True t by (intro keepsI app_ok_engaged [OF assms, where k = k]) auto
  moreover have "keeps v (setInManeuver None ((setManState k IDLE v)\<lparr>role := RoleNone\<rparr>))"
    using a by (intro keepsI app_ok_free [OF assms, where k = k]) auto
  ultimately show ?thesis using True t keeps_refl [OF assms]
    unfolding handleJoinPlatoonResponse_def by (simp add: found_def fine_keeps del: fine_simps)
qed (use assms in \<open>auto simp: handleJoinPlatoonResponse_def\<close>)

lemma fine_handleMoveToPosition:
  assumes "app_ok v"
  shows "fine v (handleMoveToPosition e k h speed lane f v)"
proof (cases "manState (man k v) = J_WAIT_INFORMATION \<and> role v = RoleJoiner")
  case True
  then have a: "activeManeuver v = Some k" "inManeuver v" "engaged (man k v) (role v)" using app_ok_active [OF assms, of k] by auto
  then obtain t where t: "target (man k v) = Some t" using True by auto
  have "keeps v (setMan k ((man k v)\<lparr>manState := J_MOVE_IN_POSITION, target := Some (targetFrom h speed lane f t)\<rparr>) (v\<lparr>activeController := FAKED_CACC\<rparr>))"
    using a True by (intro keepsI app_ok_engaged [OF assms, where k = k]) auto
  then show ?thesis using True t keeps_refl [OF assms]
    unfolding handleMoveToPosition_def by (simp add: found_def fine_keeps del: fine_simps)
qed (use assms in \<open>auto simp: handleMoveToPosition_def\<close>)

lemma fine_handleMoveToPositionAck:
  assumes "app_ok v"
  shows "fine v (handleMoveToPositionAck e k h f v)"
proof (cases "manState (man k v) = L_WAIT_JOINER_IN_POSITION \<and> role v = RoleLeader")
  case True
  then have a: "activeManeuver v = Some k" "inManeuver v" "engaged (man k v) (role v)" using app_ok_active [OF assms, of k] by auto
  then obtain j where j: "joiner (man k v) = Some j" using True by auto
  have "keeps v (setManState k L_WAIT_JOINER_TO_JOIN v)"
    using a True j by (intro keepsI app_ok_engaged [OF assms, where k = k]) auto
  then have "fine v (rbind (sameFormation f (joinerFormation j)) (\<lambda>_. Inr (setManState k L_WAIT_JOINER_TO_JOIN v, acts)))" for acts
    by (intro fine_rbind no_null) (simp add: fine_keeps del: fine_simps)
  then show ?thesis using True j keeps_refl [OF assms]
    unfolding handleMoveToPositionAck_def by (simp add: found_def fine_keeps del: fine_simps(1))
qed (use assms in \<open>auto simp: handleMoveToPositionAck_def\<close>)

text \<open>What becoming a member changes.\<close>

definition only_helper :: "platoon_app \<Rightarrow> platoon_app \<Rightarrow> bool" where
  "only_helper v w \<longleftrightarrow> (\<exists>h c. w = v\<lparr>helper := h, activeController := c\<rparr>)"

lemma joinPlatoon_cases:
  "joinPlatoon sc h t f v \<noteq> Inl NullPointer"
  "joinPlatoon sc h t f v = Inr (w, acts) \<Longrightarrow> only_helper v w"
proof -
  show "joinPlatoon sc h t f v \<noteq> Inl NullPointer"
    unfolding joinPlatoon_def
    by (auto simp: rbind_def no_null Let_def distance_errors split: sum.splits prod.splits)
  assume j: "joinPlatoon sc h t f v = Inr (w, acts)"
  then obtain g c acts' where "setAppFormation f (v\<lparr>activeController := c, helper := g\<rparr>) = Inr (w, acts')"
    unfolding joinPlatoon_def Let_def rbind_Inr_iff by (auto split: prod.splits)
  then obtain g' where "w = (v\<lparr>activeController := c, helper := g\<rparr>)\<lparr>helper := g'\<rparr>" using setAppFormation_cases(2) by blast
  then show "only_helper v w" unfolding only_helper_def by (intro exI [of _ g'] exI [of _ c]) simp
qed

lemma only_helper_fields:
  assumes "only_helper v w"
  shows "role w = role v" "inManeuver w = inManeuver v" "activeManeuver w = activeManeuver v" "man k w = man k v"
  using assms by (auto simp: only_helper_def)

lemma fine_joinAtBackFormation:
  assumes "app_ok v"
  shows "fine v (joinAtBackFormation sc e k h f v)"
proof (cases "manState (man k v) = J_WAIT_JOIN \<and> role v = RoleJoiner")
  case True
  then have a: "activeManeuver v = Some k" "inManeuver v" "engaged (man k v) (role v)" using app_ok_active [OF assms, of k] by auto
  then obtain t where t: "target (man k v) = Some t" using True by auto
  have "keeps v (setInManeuver None (setManState k IDLE (w\<lparr>role := RoleFollower\<rparr>)))" if "only_helper v w" for w
    using a only_helper_fields [OF that]
    by (intro keepsI app_ok_free [OF assms, where k = k]) auto
  then have "fine v (rbind (sameFormation f (targetFormation t)) (\<lambda>_. rbind (joinPlatoon sc h t f v) (\<lambda>(w, acts).
      Inr (setInManeuver None (setManState k IDLE (w\<lparr>role := RoleFollower\<rparr>)), acts @ g w))))" for g
    by (intro fine_rbind no_null joinPlatoon_cases) (auto simp: fine_keeps joinPlatoon_cases(2) simp del: fine_simps)
  then show ?thesis using True t keeps_refl [OF assms]
    unfolding joinAtBackFormation_def Let_def by (simp add: found_def fine_keeps del: fine_simps(1))
qed (use assms in \<open>auto simp: joinAtBackFormation_def\<close>)

lemma fine_handleJoinFormation:
  assumes "app_ok v"
  shows "fine v (handleJoinFormation sc e k h f v)"
proof -
  let ?v = "v\<lparr>checkDistance := Some (envNow e + half_second)\<rparr>"
  have "app_ok ?v" using assms by (subst app_ok_same [of _ v]) simp_all
  then have "fine ?v (joinAtBackFormation sc e k h f ?v)" by (rule fine_joinAtBackFormation)
  then have "fine v (joinAtBackFormation sc e k h f ?v)" by (auto simp: fine_def split: sum.splits)
  then show ?thesis using assms fine_joinAtBackFormation [OF assms]
    by (auto simp: handleJoinFormation_def split: maneuver_kind.splits)
qed

lemma fine_handleJoinFormationAck:
  assumes "app_ok v"
  shows "fine v (handleJoinFormationAck e k h f v)"
proof (cases "manState (man k v) = L_WAIT_JOINER_TO_JOIN \<and> role v = RoleLeader")
  case True
  then have a: "activeManeuver v = Some k" "inManeuver v" "engaged (man k v) (role v)" using app_ok_active [OF assms, of k] by auto
  then obtain j where j: "joiner (man k v) = Some j" using True by auto
  have "keeps v (setInManeuver None (setManState k IDLE w))" if "setAppFormation (joinerFormation j) v = Inr (w, acts)" for w acts
    using a True setAppFormation_cases(2) [OF that]
    by (intro keepsI app_ok_free [OF assms, where k = k]) auto
  then have "fine v (rbind (sameFormation f (joinerFormation j)) (\<lambda>_. rbind (setAppFormation (joinerFormation j) v) (\<lambda>(w, acts).
      Inr (setInManeuver None (setManState k IDLE w), acts @ g w))))" for g
    by (intro fine_rbind no_null) (auto simp: fine_keeps simp del: fine_simps)
  then show ?thesis using True j keeps_refl [OF assms]
    unfolding handleJoinFormationAck_def by (simp add: found_def fine_keeps del: fine_simps(1))
qed (use assms in \<open>auto simp: handleJoinFormationAck_def\<close>)

lemma fine_onManeuverMessage: "app_ok v \<Longrightarrow> fine v (onManeuverMessage sc e k m v)"
  by (cases m)
     (simp_all add: fine_handleJoinPlatoonRequest fine_handleMergePlatoonRequest fine_handleJoinPlatoonResponse fine_handleMoveToPosition
        fine_handleMoveToPositionAck fine_handleJoinFormation fine_handleJoinFormationAck)

lemma keeps_trans: "keeps u v \<Longrightarrow> keeps v w \<Longrightarrow> keeps u w"
  by (auto simp: keeps_def)

lemma fine_bothManeuvers:
  assumes "app_ok v" "\<And>k v. app_ok v \<Longrightarrow> fine v (f k v)"
  shows "fine v (bothManeuvers f v)"
proof -
  have "fine v (rbind (f MergeAtBack w) (\<lambda>(v2, acts2). Inr (v2, acts1 @ acts2)))" if "f JoinAtBack v = Inr (w, acts1)" for w acts1
  proof -
    have w: "keeps v w" using assms(2) [OF assms(1), of JoinAtBack] that by (simp add: keeps_def)
    then have "fine w (f MergeAtBack w)" using assms(2) by (simp add: keeps_def)
    then show ?thesis using w by (cases "f MergeAtBack w") (auto simp: keeps_def)
  qed
  moreover have "f JoinAtBack v \<noteq> Inl NullPointer" using assms(2) [OF assms(1), of JoinAtBack] by auto
  ultimately show ?thesis unfolding bothManeuvers_def by (intro fine_rbind) auto
qed

lemma fine_handleUpdatePlatoonFormation:
  assumes "app_ok v"
  shows "fine v (handleUpdatePlatoonFormation h f v)"
proof -
  have "keeps v w" if s: "setAppFormation f v = Inr (w, acts)" for w acts
  proof -
    obtain x where w: "w = v\<lparr>helper := x\<rparr>" using setAppFormation_cases(2) [OF s] by blast
    have "app_ok w" using assms by (subst app_ok_same [of _ v]) (simp_all add: w)
    then show ?thesis by (auto intro!: keepsI simp: w)
  qed
  then have "fine v (setAppFormation f v)"
    by (cases "setAppFormation f v") (auto simp: setAppFormation_cases(1) keeps_def)
  then show ?thesis using assms by (simp add: handleUpdatePlatoonFormation_def)
qed

lemma fine_handleUpdatePlatoonData:
  assumes "app_ok v"
  shows "fine v (handleUpdatePlatoonData h f newId v)"
proof -
  have "app_ok (w\<lparr>helper := x\<rparr>) = app_ok w" for w x by (rule app_ok_same) simp_all
  then have "fine v (rbind (handleUpdatePlatoonFormation h f v) (\<lambda>(v', acts). Inr (v'\<lparr>helper := (helper v')\<lparr>platoonId := newId\<rparr>\<rparr>, acts)))"
    using fine_handleUpdatePlatoonFormation [OF assms, of h f]
    by (cases "handleUpdatePlatoonFormation h f v") (auto simp: fine_def)
  then show ?thesis using assms by (simp add: handleUpdatePlatoonData_def)
qed

lemma fine_handleLowerMsg: "app_ok v \<Longrightarrow> fine v (handleLowerMsg sc e m v)"
  by (cases m)
     (auto simp: appManeuverMessage_def fine_handleUpdatePlatoonData fine_handleUpdatePlatoonFormation
       intro: fine_onManeuverMessage fine_bothManeuvers simp del: onManeuverMessage.simps split: option.splits)

lemma fine_onPlatoonBeacon:
  assumes "app_ok v"
  shows "fine v (onPlatoonBeacon sc e pb v)"
  using fine_bothManeuvers [OF assms, of "maneuverBeacon sc e pb"] fine_maneuverBeacon
  by (cases "bothManeuvers (maneuverBeacon sc e pb) v") (auto simp: onPlatoonBeacon_def)
section \<open>A vehicle reads no null pointer\<close>

text \<open>What happens to a vehicle. The timer only fires when it is set.\<close>

datatype app_event =
    Receive maneuver_message
  | HearBeacon beacon
  | StartJoin int int
  | StartMerge int int
  | TimerDue

fun appStep :: "scenario \<Rightarrow> surroundings \<Rightarrow> app_event \<Rightarrow> platoon_app \<Rightarrow> (platoon_app \<times> app_action list) result" where
  "appStep sc e (Receive m) v = handleLowerMsg sc e m v"
| "appStep sc e (HearBeacon pb) v = onPlatoonBeacon sc e pb v"
| "appStep sc e (StartJoin p leader) v = startJoinManeuver e p leader v"
| "appStep sc e (StartMerge p leader) v = startMergeManeuver e p leader v"
| "appStep sc e TimerDue v = (if checkDistance v = None then Inr (v, []) else checkDistanceDue sc e v)"

fun appRun :: "scenario \<Rightarrow> (surroundings \<times> app_event) list \<Rightarrow> platoon_app \<Rightarrow> platoon_app result" where
  "appRun sc [] v = Inr v"
| "appRun sc ((e, ev) # evs) v = rbind (appStep sc e ev v) (\<lambda>(v', acts). appRun sc evs v')"

lemma fine_appStep:
  assumes "app_ok v" "ev \<noteq> TimerDue \<or> target (mergeMan v) \<noteq> None"
  shows "fine v (appStep sc e ev v)"
proof (cases ev)
  case TimerDue
  then obtain t where t: "target (mergeMan v) = Some t" using assms by auto
  have "app_ok (v\<lparr>checkDistance := c\<rparr>)" for c using assms by (subst app_ok_same [of _ v]) simp_all
  then show ?thesis using TimerDue t assms
    by (auto simp: checkDistanceDue_def found_def intro!: fine_rbind no_null)
qed (use assms fine_handleLowerMsg fine_onPlatoonBeacon fine_startJoinManeuver fine_startMergeManeuver in simp_all)

lemma appRun_keeps:
  assumes "app_ok v" "TimerDue \<notin> snd ` set evs \<or> target (mergeMan v) \<noteq> None"
  shows "case appRun sc evs v of Inl x \<Rightarrow> x \<noteq> NullPointer | Inr v' \<Rightarrow> app_ok v'"
  using assms
proof (induction evs arbitrary: v)
  case Nil
  then show ?case by simp
next
  case (Cons x evs)
  obtain e ev where x: "x = (e, ev)" by (cases x)
  have f: "fine v (appStep sc e ev v)" using Cons.prems x by (intro fine_appStep) auto
  show ?case
  proof (cases "appStep sc e ev v")
    case (Inl y)
    then show ?thesis using f x by simp
  next
    case (Inr y)
    then obtain w acts where w: "y = (w, acts)" by (cases y)
    have "case appRun sc evs w of Inl x \<Rightarrow> x \<noteq> NullPointer | Inr v' \<Rightarrow> app_ok v'"
      using f Inr w Cons.prems x by (intro Cons.IH) auto
    then show ?thesis using x Inr w by simp
  qed
qed

text \<open>
  C39. A vehicle stays well typed: whatever messages and beacons it gets, in any order and from anyone, and
  whatever maneuvers it is told to start, at most one maneuver is active, it is the only one whose
  state is not idle, and the role and the data fit the state. No null pointer is ever read - unless
  the timer of a merge fires in a vehicle that never started one.
\<close>

theorem vehicle_stays_well_typed:
  assumes "app_ok v" "TimerDue \<notin> snd ` set evs \<or> target (mergeMan v) \<noteq> None"
  shows "appRun sc evs v \<noteq> Inl NullPointer \<and> (\<forall>v'. appRun sc evs v = Inr v' \<longrightarrow> app_ok v')"
  using appRun_keeps [OF assms, of sc] by (auto split: sum.splits)

lemma initialApp_ok: "app_ok (initialApp h name c)"
  by (simp add: initialApp_def app_ok_def man_def split: maneuver_kind.splits)

definition demo_scenario :: scenario where
  "demo_scenario = \<lparr>targetCtl = Some CACC, caccSpacing = 5, accHeadway = 1, ploegH = 1\<rparr>"

definition demo_surroundings :: surroundings where
  "demo_surroundings = \<lparr>envNow = 0, laneIndex = 1, omnetX = 0, omnetY = 0, traciX = 100, traciY = 0, radarDistance = 4\<rparr>"

definition demo_header :: "int \<Rightarrow> int \<Rightarrow> msg_header" where
  "demo_header a b = \<lparr>fromVehicle = a, fromExternal = ''vtype.0'', aboutPlatoon = 0, destVehicle = b\<rparr>"

lemma vehicle_stays_well_typed_witness:
  "appRun demo_scenario
    [(demo_surroundings, StartJoin 0 0), (demo_surroundings, Receive (JoinPlatoonResponse (demo_header 0 4) True)),
     (demo_surroundings, Receive (JoinFormation (demo_header 0 4) 30 1 [0, 4]))]
    ((initialApp (demo_helper 4) ''vtype.4'' ACC)\<lparr>role := RoleNone\<rparr>) \<noteq> Inl NullPointer"
proof (rule vehicle_stays_well_typed [THEN conjunct1])
  show "app_ok ((initialApp (demo_helper 4) ''vtype.4'' ACC)\<lparr>role := RoleNone\<rparr>)"
    by (simp add: initialApp_def app_ok_def man_def split: maneuver_kind.splits)
qed simp

section \<open>What goes wrong\<close>

text \<open>
  C38. The timer of a merge is started before anything is checked. A vehicle without an active
  maneuver that gets a \<open>JoinFormation\<close>, from anyone and about any platoon, ignores it but starts
  the timer; if it has never started a merge, the timer reads a null pointer.
\<close>

theorem stray_join_formation_crashes:
  assumes ok: "app_ok v" and idle: "\<not> inManeuver v" "checkDistance v = None" "target (mergeMan v) = None"
  shows "appRun sc [(e, Receive (JoinFormation h speed lane f)), (e', TimerDue)] v = Inl NullPointer"
proof -
  have i: "activeManeuver v = None" "manState (man k v) = IDLE" for k using app_ok_idle [OF ok idle(1)] by auto
  then have "handleLowerMsg sc e (JoinFormation h speed lane f) v = Inr (v\<lparr>checkDistance := Some (envNow e + half_second)\<rparr>, [])"
    using idle i(2) [of JoinAtBack] i(2) [of MergeAtBack]
    by (simp add: appManeuverMessage_def bothManeuvers_def handleJoinFormation_def joinAtBackFormation_def)
  then show ?thesis using idle by (simp add: checkDistanceDue_def found_def)
qed

lemma stray_join_formation_crashes_witness:
  "appRun demo_scenario [(demo_surroundings, Receive (JoinFormation (demo_header 0 4) 30 1 [0, 4])), (demo_surroundings, TimerDue)]
     (initialApp (demo_helper 4) ''vtype.4'' ACC) = Inl NullPointer"
  by (rule stray_join_formation_crashes [OF initialApp_ok]) (simp_all add: initialApp_def)

text \<open>
  A leader that asks to merge its platoon and is refused stops being a leader, although its
  followers still follow it: its role becomes \<open>NONE\<close>, and it can never start a merge again.
\<close>

theorem refused_merge_ends_leadership:
  assumes ok: "app_ok v" and leader: "role v = RoleLeader" "\<not> inManeuver v"
  shows "\<exists>v' req v''. startMergeManeuver e p other v = Inr (v', [Send req other])
    \<and> handleLowerMsg sc e' (JoinPlatoonResponse \<lparr>fromVehicle = other, fromExternal = name, aboutPlatoon = p, destVehicle = myId (helper v)\<rparr> False) v'
       = Inr (v'', [])
    \<and> role v'' = RoleNone \<and> formation (helper v'') = formation (helper v) \<and> leaderId (helper v'') = leaderId (helper v)
    \<and> startMergeManeuver e'' q other' v'' = Inl AssertionFailed"
proof -
  have i: "activeManeuver v = None" "manState (man k v) = IDLE" for k using app_ok_idle [OF ok leader(2)] by auto
  then have m: "manState (man MergeAtBack (v\<lparr>oldFormation := f, oldPlatoon := q\<rparr>)) = IDLE" for f q by simp
  show ?thesis
    using leader m
    by (simp add: startMergeManeuver_def startMerge_def initializeJoinManeuver_def Let_def appManeuverMessage_def
        handleJoinPlatoonResponse_def found_def)
qed

lemma refused_merge_ends_leadership_witness:
  "\<exists>v' req v''. startMergeManeuver demo_surroundings 0 0 (initialApp ((demo_helper 4)\<lparr>leaderId := 4, formation := [4, 5]\<rparr>) ''vtype.4'' ACC) = Inr (v', [Send req 0])
    \<and> handleLowerMsg demo_scenario demo_surroundings (JoinPlatoonResponse \<lparr>fromVehicle = 0, fromExternal = ''vtype.0'', aboutPlatoon = 0, destVehicle = 4\<rparr> False) v'
       = Inr (v'', []) \<and> role v'' = RoleNone \<and> formation (helper v'') = [4, 5]"
  using refused_merge_ends_leadership [of "initialApp ((demo_helper 4)\<lparr>leaderId := 4, formation := [4, 5]\<rparr>) ''vtype.4'' ACC"
      demo_surroundings 0 0 demo_scenario demo_surroundings "''vtype.0''", OF initialApp_ok]
  by (simp add: initialApp_def isLeader_def demo_helper_def) blast

text \<open>
  A leader that is busy with a joining vehicle refuses another joining vehicle, but a request
  to merge a platoon it does not answer at all: the leader of that platoon waits for ever.
\<close>

theorem busy_leader_does_not_answer_merges:
  assumes busy: "app_ok v" "activeManeuver v = Some JoinAtBack" "role v = RoleLeader" and p: "aboutPlatoon h = platoonId (helper v)"
  shows "handleLowerMsg sc e (JoinPlatoonRequest h lane x y) v
      = Inr (v, [Send (JoinPlatoonResponse (headerTo v (aboutPlatoon h) (fromVehicle h)) False) (fromVehicle h)])
    \<and> handleLowerMsg sc e (MergePlatoonRequest h lane x y members) v = Inr (v, [])"
proof -
  have "inManeuver v" using busy by (simp add: app_ok_def)
  then show ?thesis using busy p
    by (simp add: appManeuverMessage_def handleJoinPlatoonRequest_def handleMergePlatoonRequest_def processJoinRequest_def isJoinAllowed_def Let_def)
qed

definition demo_leader :: platoon_app where
  "demo_leader = (initialApp ((demo_helper 0)\<lparr>leaderId := 0, formation := [0], platoonId := 0\<rparr>) ''vtype.0'' ACC)"

definition demo_busy_leader :: platoon_app where
  "demo_busy_leader = fst (projr (handleLowerMsg demo_scenario demo_surroundings (JoinPlatoonRequest (demo_header 4 0) 1 0 0) demo_leader))"

lemma demo_busy_leader_fields:
  "app_ok demo_busy_leader" "activeManeuver demo_busy_leader = Some JoinAtBack" "role demo_busy_leader = RoleLeader" "platoonId (helper demo_busy_leader) = 0"
proof -
  have ok: "app_ok demo_leader" by (simp add: demo_leader_def initialApp_ok)
  have r: "is_ok (handleLowerMsg demo_scenario demo_surroundings (JoinPlatoonRequest (demo_header 4 0) 1 0 0) demo_leader)" by code_simp
  then obtain w acts where w: "handleLowerMsg demo_scenario demo_surroundings (JoinPlatoonRequest (demo_header 4 0) 1 0 0) demo_leader = Inr (w, acts)"
    by (auto simp: is_ok_def split: sum.splits)
  then show "app_ok demo_busy_leader"
    using fine_handleLowerMsg [OF ok, of demo_scenario demo_surroundings "JoinPlatoonRequest (demo_header 4 0) 1 0 0"]
    by (simp add: demo_busy_leader_def)
  show "activeManeuver demo_busy_leader = Some JoinAtBack" "role demo_busy_leader = RoleLeader" "platoonId (helper demo_busy_leader) = 0"
    by code_simp+
qed

lemma busy_leader_does_not_answer_merges_witness:
  "handleLowerMsg demo_scenario demo_surroundings (MergePlatoonRequest (demo_header 8 0) 1 0 0 [9, 10]) demo_busy_leader = Inr (demo_busy_leader, [])"
  using busy_leader_does_not_answer_merges [OF demo_busy_leader_fields(1-3), of "demo_header 8 0"] demo_busy_leader_fields(4)
  by (simp add: demo_header_def)
text \<open>
  The followers of a merged platoon learn their formation from their old leader when the gap has
  closed, and they get the formation of the time of the merge: if the platoon has grown since then,
  the old leader knows the new formation but passes on the old one.
\<close>

theorem merged_followers_get_old_formation:
  assumes v: "role v = RoleFollower" "target (mergeMan v) = Some t" "checkDistance v \<noteq> None" "oldFormation v = [myId (helper v), w]"
    and h: "aboutPlatoon h = platoonId (helper v)" "fromVehicle h = leaderId (helper v)"
    and f: "distinct f" "myId (helper v) \<in> set f"
    and near: "getTargetDistance sc (activeController v) (targetSpeed t) = Inr gap" "radarDistance e' < gap + 1"
  shows "\<exists>v' acts v'' hd. handleLowerMsg sc e (UpdatePlatoonFormation h speed lane f) v = Inr (v', acts)
    \<and> formation (helper v') = f
    \<and> appStep sc e' TimerDue v' = Inr (v'', [Send (UpdatePlatoonData hd (targetSpeed t) (targetLane t) (targetFormation t) (targetPlatoon t)) w])
    \<and> formation (helper v'') = f"
proof -
  obtain n where n: "n < length f" "f ! n = myId (helper v)" using f by (auto simp: in_set_conv_nth)
  obtain h' ms where s: "setVariablesAfterFormationChange ((helper v)\<lparr>formation := f\<rparr>) = Inr (h', ms)" "same_vehicle ((helper v)\<lparr>formation := f\<rparr>) h'"
    using setVariables_at_position [of "(helper v)\<lparr>formation := f\<rparr>" n] f n by auto
  then show ?thesis using v h near
    by (auto simp: handleUpdatePlatoonFormation_def setAppFormation_def setPlatoonFormation_def checkDistanceDue_def found_def same_vehicle_def)
qed

definition demo_merged :: platoon_app where
  "demo_merged = (initialApp ((demo_helper 4)\<lparr>leaderId := 0, platoonId := 0, formation := [0, 4, 5]\<rparr>) ''vtype.4'' CACC)
     \<lparr>oldFormation := [4, 5], checkDistance := Some 7,
      mergeMan := \<lparr>manState = IDLE, target = Some \<lparr>targetPlatoon = 0, targetLeader = 0, targetLane = 1, targetSpeed = 30, joinIndex = 1, targetFormation = [0, 4, 5]\<rparr>, joiner = None\<rparr>\<rparr>"

lemma demo_merged_fields:
  "role demo_merged = RoleFollower" "checkDistance demo_merged \<noteq> None" "oldFormation demo_merged = [myId (helper demo_merged), 5]"
  "target (mergeMan demo_merged) = Some \<lparr>targetPlatoon = 0, targetLeader = 0, targetLane = 1, targetSpeed = 30, joinIndex = 1, targetFormation = [0, 4, 5]\<rparr>"
  "platoonId (helper demo_merged) = 0" "leaderId (helper demo_merged) = 0" "myId (helper demo_merged) = 4"
  "getTargetDistance demo_scenario (activeController demo_merged) 30 = Inr 5"
  by (simp_all add: demo_merged_def initialApp_def isLeader_def demo_helper_def getTargetDistance_def getHeadway_def
      getStandstillDistance_def demo_scenario_def)

lemma merged_followers_get_old_formation_witness:
  "\<exists>v' acts v'' hd. handleLowerMsg demo_scenario demo_surroundings (UpdatePlatoonFormation (demo_header 0 4) 30 1 [0, 4, 5, 6]) demo_merged = Inr (v', acts)
    \<and> formation (helper v') = [0, 4, 5, 6]
    \<and> appStep demo_scenario demo_surroundings TimerDue v' = Inr (v'', [Send (UpdatePlatoonData hd 30 1 [0, 4, 5] 0) 5])"
proof -
  let ?t = "\<lparr>targetPlatoon = 0, targetLeader = 0, targetLane = 1, targetSpeed = 30, joinIndex = 1, targetFormation = [0, 4, 5]\<rparr> :: target_data"
  have h: "aboutPlatoon (demo_header 0 4) = platoonId (helper demo_merged)" "fromVehicle (demo_header 0 4) = leaderId (helper demo_merged)"
    "distinct [0, 4, 5, 6 :: int]" "myId (helper demo_merged) \<in> set [0, 4, 5, 6]"
    "getTargetDistance demo_scenario (activeController demo_merged) (targetSpeed ?t) = Inr 5" "radarDistance demo_surroundings < 5 + 1"
    by (simp_all add: demo_header_def demo_merged_fields demo_surroundings_def)
  show ?thesis
    using merged_followers_get_old_formation [OF demo_merged_fields(1,4,2,3) h, of demo_surroundings 30 1]
    by (simp del: appStep.simps handleLowerMsg.simps) blast
qed

end
