(* ===== verification/PlatoonJoin.thy ===== *)
theory PlatoonJoin
  imports PlatoonManeuvers
begin

text \<open>
  Many vehicles join one platoon: every vehicle runs the application of \<open>PlatoonManeuvers\<close>, and
  unicast messages travel between them.

  \<^item> Between two vehicles the messages arrive once and in order, as the acknowledged unicast of the MAC
    layer delivers them; between different pairs they arrive in any order. A message that is lost for good
    ends the simulation in the code (\<open>onFailedTransmissionAttempt\<close>).
  \<^item> What the simulator says about the surroundings is arbitrary in every step.
  \<^item> A vehicle is told to start joining while it is outside of any platoon
    (\<open>plexe/scenarios/JoinManeuverScenario.cc\<close>).
\<close>

section \<open>The fleet\<close>

record fleet =
  apps :: "int \<Rightarrow> platoon_app"
  channel :: "int \<Rightarrow> int \<Rightarrow> maneuver_message list"

fun sentTo :: "int \<Rightarrow> app_action list \<Rightarrow> maneuver_message list" where
  "sentTo b [] = []"
| "sentTo b (Send m d # acts) = (if d = b then m # sentTo b acts else sentTo b acts)"
| "sentTo b (Command c # acts) = sentTo b acts"

definition post :: "int \<Rightarrow> app_action list \<Rightarrow> (int \<Rightarrow> int \<Rightarrow> maneuver_message list) \<Rightarrow> (int \<Rightarrow> int \<Rightarrow> maneuver_message list)" where
  "post a acts c = (\<lambda>a' b. if a' = a then c a b @ sentTo b acts else c a' b)"

text \<open>Vehicle \<open>a\<close> has handled something.\<close>

definition acted :: "int \<Rightarrow> (platoon_app \<times> app_action list) result \<Rightarrow> fleet \<Rightarrow> fleet result" where
  "acted a r s = rbind r (\<lambda>(v, acts). Inr (s\<lparr>apps := (apps s)(a := v), channel := post a acts (channel s)\<rparr>))"

definition takeMessage :: "int \<Rightarrow> int \<Rightarrow> fleet \<Rightarrow> fleet" where
  "takeMessage a b s = s\<lparr>channel := (channel s)(a := (channel s a)(b := tl (channel s a b)))\<rparr>"

text \<open>The steps of a fleet whose vehicles may join platoon \<open>P\<close> of leader \<open>L\<close>; a step may fail.\<close>

inductive fleet_step :: "scenario \<Rightarrow> int \<Rightarrow> int \<Rightarrow> fleet \<Rightarrow> fleet result \<Rightarrow> bool" for sc P L where
  starts: "role (apps s d) = RoleNone \<Longrightarrow> \<not> inManeuver (apps s d) \<Longrightarrow>
     fleet_step sc P L s (acted d (startJoinManeuver e P L (apps s d)) s)"
| delivers: "channel s a b = m # ms \<Longrightarrow>
     fleet_step sc P L s (acted b (handleLowerMsg sc e m (apps s b)) (takeMessage a b s))"
| hears: "fleet_step sc P L s (acted d (onPlatoonBeacon sc e pb (apps s d)) s)"

inductive fleet_run :: "scenario \<Rightarrow> int \<Rightarrow> int \<Rightarrow> fleet \<Rightarrow> fleet \<Rightarrow> bool" for sc P L where
  stays: "fleet_run sc P L s s"
| goes: "fleet_run sc P L s t \<Longrightarrow> fleet_step sc P L t (Inr u) \<Longrightarrow> fleet_run sc P L s u"

section \<open>The phases of a join\<close>

definition joiner_at :: "int \<Rightarrow> int \<Rightarrow> int \<Rightarrow> join_state \<Rightarrow> platoon_app \<Rightarrow> bool" where
  "joiner_at P L d st v \<longleftrightarrow> role v = RoleJoiner \<and> inManeuver v \<and> activeManeuver v = Some JoinAtBack
     \<and> manState (joinMan v) = st \<and> manState (mergeMan v) = IDLE \<and> myId (helper v) = d
     \<and> (\<exists>t. target (joinMan v) = Some t \<and> targetPlatoon t = P \<and> targetLeader t = L)"

text \<open>A joiner that knows the new formation.\<close>

definition joiner_knows :: "int list \<Rightarrow> platoon_app \<Rightarrow> bool" where
  "joiner_knows G v \<longleftrightarrow> (\<forall>t. target (joinMan v) = Some t \<longrightarrow> targetFormation t = G \<and> joinIndex t = int (length G) - 1)"

definition resting :: "platoon_role \<Rightarrow> int \<Rightarrow> platoon_app \<Rightarrow> bool" where
  "resting r d v \<longleftrightarrow> role v = r \<and> \<not> inManeuver v \<and> activeManeuver v = None
     \<and> manState (joinMan v) = IDLE \<and> manState (mergeMan v) = IDLE \<and> myId (helper v) = d"

text \<open>Vehicle \<open>d\<close> follows in platoon \<open>P\<close> and believes its formation is \<open>f\<close>.\<close>

definition follows :: "int \<Rightarrow> int \<Rightarrow> int \<Rightarrow> int list \<Rightarrow> platoon_app \<Rightarrow> bool" where
  "follows P L d f v \<longleftrightarrow> resting RoleFollower d v \<and> platoonId (helper v) = P
     \<and> (\<exists>n. 0 < n \<and> n < length f \<and> f ! n = d \<and> at_position f n (helper v)) \<and> f ! 0 = L"

definition from_to :: "int \<Rightarrow> int \<Rightarrow> int \<Rightarrow> msg_header \<Rightarrow> bool" where
  "from_to P a b h \<longleftrightarrow> fromVehicle h = a \<and> aboutPlatoon h = P \<and> destVehicle h = b"

text \<open>
  The phase of a vehicle \<open>d\<close> that is not the leader, seen from the formation \<open>F\<close> of the leader, the
  vehicle it is busy with (\<open>busy\<close>) and its state (\<open>st\<close>), the application of \<open>d\<close>, and the
  messages on their way to \<open>d\<close> (\<open>cin\<close>) and to the leader (\<open>cout\<close>).
\<close>

definition outside :: "int \<Rightarrow> int list \<Rightarrow> int option \<Rightarrow> bool" where
  "outside d F busy \<longleftrightarrow> d \<notin> set F \<and> busy \<noteq> Some d"

text \<open>A message that tells member \<open>d\<close> a part \<open>f\<close> of the formation \<open>F\<close> from its front.\<close>

definition update_of :: "int \<Rightarrow> int \<Rightarrow> int \<Rightarrow> int list \<Rightarrow> maneuver_message \<Rightarrow> int list \<Rightarrow> bool" where
  "update_of P L d F m f \<longleftrightarrow> (\<exists>h speed lane. m = UpdatePlatoonFormation h speed lane f \<and> from_to P L d h) \<and> d \<in> set f \<and> (\<exists>k. f = take k F)"

datatype phase = Away | Asked | Refused | Admitted | Informed | Approaching | Arrived | Called | Entering | Member

fun in_phase ::
    "phase \<Rightarrow> int \<Rightarrow> int \<Rightarrow> int \<Rightarrow> int list \<Rightarrow> int option \<Rightarrow> join_state \<Rightarrow> platoon_app \<Rightarrow> maneuver_message list \<Rightarrow> maneuver_message list \<Rightarrow> bool" where
  "in_phase Away P L d F busy st v cin cout \<longleftrightarrow>
     outside d F busy \<and> resting RoleNone d v \<and> cin = [] \<and> cout = []"
| "in_phase Asked P L d F busy st v cin cout \<longleftrightarrow>
     outside d F busy \<and> joiner_at P L d J_WAIT_REPLY v \<and> cin = []
     \<and> (\<exists>h lane x y. cout = [JoinPlatoonRequest h lane x y] \<and> from_to P d L h)"
| "in_phase Refused P L d F busy st v cin cout \<longleftrightarrow>
     outside d F busy \<and> joiner_at P L d J_WAIT_REPLY v \<and> cout = [] \<and> (\<exists>h. cin = [JoinPlatoonResponse h False] \<and> from_to P L d h)"
| "in_phase Admitted P L d F busy st v cin cout \<longleftrightarrow>
     busy = Some d \<and> st = L_WAIT_JOINER_IN_POSITION \<and> joiner_at P L d J_WAIT_REPLY v \<and> cout = []
     \<and> (\<exists>h h' speed lane. cin = [JoinPlatoonResponse h True, MoveToPosition h' speed lane (F @ [d])] \<and> from_to P L d h \<and> from_to P L d h')"
| "in_phase Informed P L d F busy st v cin cout \<longleftrightarrow>
     busy = Some d \<and> st = L_WAIT_JOINER_IN_POSITION \<and> joiner_at P L d J_WAIT_INFORMATION v \<and> cout = []
     \<and> (\<exists>h speed lane. cin = [MoveToPosition h speed lane (F @ [d])] \<and> from_to P L d h)"
| "in_phase Approaching P L d F busy st v cin cout \<longleftrightarrow>
     busy = Some d \<and> st = L_WAIT_JOINER_IN_POSITION \<and> joiner_at P L d J_MOVE_IN_POSITION v \<and> joiner_knows (F @ [d]) v \<and> cin = [] \<and> cout = []"
| "in_phase Arrived P L d F busy st v cin cout \<longleftrightarrow>
     busy = Some d \<and> st = L_WAIT_JOINER_IN_POSITION \<and> joiner_at P L d J_WAIT_JOIN v \<and> joiner_knows (F @ [d]) v \<and> cin = []
     \<and> (\<exists>h speed lane. cout = [MoveToPositionAck h speed lane (F @ [d])] \<and> from_to P d L h)"
| "in_phase Called P L d F busy st v cin cout \<longleftrightarrow>
     busy = Some d \<and> st = L_WAIT_JOINER_TO_JOIN \<and> joiner_at P L d J_WAIT_JOIN v \<and> joiner_knows (F @ [d]) v \<and> cout = []
     \<and> (\<exists>h speed lane. cin = [JoinFormation h speed lane (F @ [d])] \<and> from_to P L d h)"
| "in_phase Entering P L d F busy st v cin cout \<longleftrightarrow>
     busy = Some d \<and> st = L_WAIT_JOINER_TO_JOIN \<and> follows P L d (F @ [d]) v \<and> cin = []
     \<and> (\<exists>h speed lane. cout = [JoinFormationAck h speed lane (F @ [d])] \<and> from_to P d L h)"
| "in_phase Member P L d F busy st v cin cout \<longleftrightarrow>
     d \<in> set F \<and> cout = [] \<and>
     (\<exists>f us. follows P L d f v \<and> (\<exists>k. f = take k F) \<and> list_all2 (update_of P L d F) cin us \<and> last (f # us) = F)"

text \<open>The leader: what it believes is what the platoon is.\<close>

definition leads :: "int \<Rightarrow> int \<Rightarrow> int list \<Rightarrow> int option \<Rightarrow> join_state \<Rightarrow> platoon_app \<Rightarrow> bool" where
  "leads P L F busy st v \<longleftrightarrow>
     role v = RoleLeader \<and> platoonId (helper v) = P \<and> myId (helper v) = L \<and> formation (helper v) = F
     \<and> distinct F \<and> F \<noteq> [] \<and> F ! 0 = L \<and> at_position F 0 (helper v)
     \<and> manState (joinMan v) = st \<and> manState (mergeMan v) = IDLE
     \<and> (case busy of
          None \<Rightarrow> st = IDLE \<and> \<not> inManeuver v \<and> activeManeuver v = None
        | Some d \<Rightarrow> (st = L_WAIT_JOINER_IN_POSITION \<or> st = L_WAIT_JOINER_TO_JOIN) \<and> inManeuver v \<and> activeManeuver v = Some JoinAtBack
            \<and> d \<notin> set F \<and> (\<exists>lane. joiner (joinMan v) = Some \<lparr>joinerId = d, joinerLane = lane, joinerFormation = F @ [d]\<rparr>))"

definition fleet_inv :: "int \<Rightarrow> int \<Rightarrow> int list \<Rightarrow> int option \<Rightarrow> join_state \<Rightarrow> fleet \<Rightarrow> bool" where
  "fleet_inv P L F busy st s \<longleftrightarrow>
     leads P L F busy st (apps s L)
     \<and> (\<forall>a b. channel s a b \<noteq> [] \<longrightarrow> (a = L \<longleftrightarrow> b \<noteq> L))
     \<and> (\<forall>d. d \<noteq> L \<longrightarrow> (\<exists>ph. in_phase ph P L d F busy st (apps s d) (channel s L d) (channel s d L)))"
section \<open>What the vehicles do in each phase\<close>

lemma man_of [simp]: "man JoinAtBack v = joinMan v" "man MergeAtBack v = mergeMan v"
  by (simp_all add: man_def)

lemma fields_of_setMan [simp]:
  "joinMan (setMan k m v) = (if k = JoinAtBack then m else joinMan v)" "mergeMan (setMan k m v) = (if k = MergeAtBack then m else mergeMan v)"
  "joinMan (setManState k s v) = (if k = JoinAtBack then (joinMan v)\<lparr>manState := s\<rparr> else joinMan v)"
  "mergeMan (setManState k s v) = (if k = MergeAtBack then (mergeMan v)\<lparr>manState := s\<rparr> else mergeMan v)"
  "joinMan (setInManeuver a v) = joinMan v" "mergeMan (setInManeuver a v) = mergeMan v"
  by (cases k; simp add: setMan_def setManState_def setInManeuver_def)+

lemma sentTo_append [simp]: "sentTo b (xs @ ys) = sentTo b xs @ sentTo b ys"
  by (induction b xs rule: sentTo.induct) simp_all

lemma sentTo_commands [simp]: "sentTo b (map (\<lambda>(m, i). Command (f m i)) xs) = []"
  by (induction xs) auto

lemma sentTo_if [simp]: "sentTo b (if c then xs else ys) = (if c then sentTo b xs else sentTo b ys)"
  by simp

lemma keepPlatoon_sends [simp]: "sentTo b (keepPlatoon pb v) = []"
  by (simp add: keepPlatoon_def)

lemma headerTo_from_to: "from_to P a b (headerTo v P b) \<longleftrightarrow> myId (helper v) = a"
  by (auto simp: from_to_def headerTo_def)

lemma starts_asking:
  assumes "resting RoleNone d v"
  shows "\<exists>v' h. startJoinManeuver e P L v = Inr (v', [Send (JoinPlatoonRequest h (laneIndex e) (omnetX e) (omnetY e)) L])
    \<and> joiner_at P L d J_WAIT_REPLY v' \<and> from_to P d L h"
  using assms
  by (auto simp: resting_def startJoinManeuver_def startJoin_def initializeJoinManeuver_def Let_def joiner_at_def headerTo_from_to)

lemma beacon_changes_nothing:
  assumes "manState (joinMan v) \<noteq> J_MOVE_IN_POSITION" "manState (mergeMan v) \<noteq> J_MOVE_IN_POSITION"
  shows "\<exists>acts. onPlatoonBeacon sc e pb v = Inr (v, acts) \<and> (\<forall>b. sentTo b acts = [])"
  using assms by (simp add: onPlatoonBeacon_def bothManeuvers_def maneuverBeacon_def)

text \<open>A scenario for maneuvers with a controller that has a distance.\<close>

definition good_scenario :: "scenario \<Rightarrow> bool" where
  "good_scenario sc \<longleftrightarrow> (\<exists>c. targetCtl sc = Some c \<and> c \<noteq> DRIVER \<and> c \<noteq> FAKED_CACC)"

lemma good_scenario_distances:
  assumes "good_scenario sc"
  obtains c d h where "getTargetController sc = Inr c" "getStandstillDistance sc c = Inr d" "getHeadway sc c = Inr h"
    "\<And>s. getTargetDistance sc c s = Inr (s * h + d)"
proof -
  obtain c where c: "targetCtl sc = Some c" "c \<noteq> DRIVER" "c \<noteq> FAKED_CACC" using assms by (auto simp: good_scenario_def)
  then have "is_ok (getStandstillDistance sc c)" "is_ok (getHeadway sc c)"
    by (cases c; simp add: getStandstillDistance_def getHeadway_def)+
  then obtain d h where "getStandstillDistance sc c = Inr d" "getHeadway sc c = Inr h" by (metis is_ok_ex)
  then show ?thesis using c that [of c d h] by (simp add: getTargetController_def getTargetDistance_def)
qed

text \<open>A joiner on its way reports when the vehicle in front is close enough; all else is commands.\<close>

lemma approaching_step:
  assumes sc: "good_scenario sc" and j: "joiner_at P L d J_MOVE_IN_POSITION v" "joiner_knows (F @ [d]) v" and F: "F \<noteq> []" "F ! 0 = L"
  shows "\<exists>gap speed lane. \<forall>e pb. \<exists>A B. (\<forall>b. sentTo b A = [] \<and> sentTo b B = [])
    \<and> maneuverBeacon sc e pb JoinAtBack v =
        (if pbVehicle pb \<noteq> F ! (length F - 1) then Inr (v, A)
         else if sqrt ((traciX e - pbX pb)\<^sup>2 + (traciY e - pbY pb)\<^sup>2) - pbLength pb < gap + 11
         then Inr (setManState JoinAtBack J_WAIT_JOIN v, B @ [Send (MoveToPositionAck (headerTo v P L) speed lane (F @ [d])) L])
         else Inr (v, B))"
proof -
  obtain t where t: "target (joinMan v) = Some t" "targetPlatoon t = P" "targetLeader t = L" using j(1) by (auto simp: joiner_at_def)
  then have G: "targetFormation t = F @ [d]" "joinIndex t = int (length F)" using j(2) by (auto simp: joiner_knows_def)
  have front: "vec_at (F @ [d]) (int (length F) - 1) = Inr (F ! (length F - 1))"
    using F by (cases "length F") (simp_all add: vec_at_def nth_append)
  have lead: "vec_at (F @ [d]) 0 = Inr L" using F by (simp add: vec_at_def nth_append)
  obtain c g h where c: "getTargetController sc = Inr c" "\<And>s. getTargetDistance sc c s = Inr (s * g + h)"
    using good_scenario_distances [OF sc] by metis
  define gap where "gap = targetSpeed t * g + h"
  have gap: "getTargetDistance sc c (targetSpeed t) = Inr gap" by (simp add: c(2) gap_def)
  have v: "role v = RoleJoiner" "manState (joinMan v) = J_MOVE_IN_POSITION" using j(1) by (simp_all add: joiner_at_def)
  have "\<exists>A B. (\<forall>b. sentTo b A = [] \<and> sentTo b B = [])
    \<and> maneuverBeacon sc e pb JoinAtBack v =
        (if pbVehicle pb \<noteq> F ! (length F - 1) then Inr (v, A)
         else if sqrt ((traciX e - pbX pb)\<^sup>2 + (traciY e - pbY pb)\<^sup>2) - pbLength pb < gap + 11
         then Inr (setManState JoinAtBack J_WAIT_JOIN v, B @ [Send (MoveToPositionAck (headerTo v P L) (targetSpeed t) (targetLane t) (F @ [d])) L])
         else Inr (v, B))" for e pb
  proof -
    define dist where "dist = sqrt ((traciX e - pbX pb)\<^sup>2 + (traciY e - pbY pb)\<^sup>2) - pbLength pb"
    define A where "A = (if pbVehicle pb = L then [Command (SetLeaderVehicleFakeData (pbControllerAcceleration pb) (pbAcceleration pb) (pbSpeed pb))] else [])"
    define B where "B = A @ [Command (SetFrontVehicleFakeData (pbControllerAcceleration pb) (pbAcceleration pb) (pbSpeed pb) dist)]"
    have "maneuverBeacon sc e pb JoinAtBack v =
      (if pbVehicle pb \<noteq> F ! (length F - 1) then Inr (v, A)
       else if dist < gap + 11
       then Inr (setManState JoinAtBack J_WAIT_JOIN v, B @ [Send (MoveToPositionAck (headerTo v P L) (targetSpeed t) (targetLane t) (F @ [d])) L])
       else Inr (v, B))"
      using front lead unfolding maneuverBeacon_def dist_def [symmetric]
      by (simp add: v t G found_def c(1) gap Let_def A_def B_def del: One_nat_def)
    moreover have "\<forall>b. sentTo b A = [] \<and> sentTo b B = []" by (simp add: A_def B_def)
    ultimately show ?thesis unfolding dist_def by blast
  qed
  then show ?thesis by blast
qed

lemma waits_to_join:
  assumes "joiner_at P L d J_MOVE_IN_POSITION v" "joiner_knows G v"
  shows "joiner_at P L d J_WAIT_JOIN (setManState JoinAtBack J_WAIT_JOIN v)" "joiner_knows G (setManState JoinAtBack J_WAIT_JOIN v)"
    "from_to P d L (headerTo v P L)" "maneuverBeacon sc e pb MergeAtBack v = Inr (v, [])"
    "maneuverBeacon sc e pb MergeAtBack (setManState JoinAtBack J_WAIT_JOIN v) = Inr (setManState JoinAtBack J_WAIT_JOIN v, [])"
  using assms by (simp_all add: joiner_at_def joiner_knows_def headerTo_from_to maneuverBeacon_def)

lemma approaching_hears:
  assumes sc: "good_scenario sc" and j: "joiner_at P L d J_MOVE_IN_POSITION v" "joiner_knows (F @ [d]) v" and F: "F \<noteq> []" "F ! 0 = L"
  shows "\<exists>v' acts. onPlatoonBeacon sc e pb v = Inr (v', acts) \<and> (\<forall>b. b \<noteq> L \<longrightarrow> sentTo b acts = [])
    \<and> (v' = v \<and> sentTo L acts = []
       \<or> joiner_at P L d J_WAIT_JOIN v' \<and> joiner_knows (F @ [d]) v'
         \<and> (\<exists>h speed lane. sentTo L acts = [MoveToPositionAck h speed lane (F @ [d])] \<and> from_to P d L h))"
proof -
  obtain gap speed lane A B where s: "\<forall>b. sentTo b A = [] \<and> sentTo b B = []"
    "maneuverBeacon sc e pb JoinAtBack v =
        (if pbVehicle pb \<noteq> F ! (length F - 1) then Inr (v, A)
         else if sqrt ((traciX e - pbX pb)\<^sup>2 + (traciY e - pbY pb)\<^sup>2) - pbLength pb < gap + 11
         then Inr (setManState JoinAtBack J_WAIT_JOIN v, B @ [Send (MoveToPositionAck (headerTo v P L) speed lane (F @ [d])) L])
         else Inr (v, B))"
    using approaching_step [OF assms] by metis
  note w = waits_to_join [OF j]
  show ?thesis
  proof (cases "pbVehicle pb = F ! (length F - 1)")
    case False
    then show ?thesis using s w(4) by (simp add: onPlatoonBeacon_def bothManeuvers_def del: One_nat_def)
  next
    case True
    then show ?thesis using s w
      by (cases "sqrt ((traciX e - pbX pb)\<^sup>2 + (traciY e - pbY pb)\<^sup>2) - pbLength pb < gap + 11")
        (simp_all add: onPlatoonBeacon_def bothManeuvers_def del: One_nat_def)
  qed
qed

lemma approaching_arrives:
  assumes sc: "good_scenario sc" and j: "joiner_at P L d J_MOVE_IN_POSITION v" "joiner_knows (F @ [d]) v" and F: "F \<noteq> []" "F ! 0 = L"
  shows "\<exists>e pb v' acts. onPlatoonBeacon sc e pb v = Inr (v', acts) \<and> (\<forall>b. b \<noteq> L \<longrightarrow> sentTo b acts = [])
    \<and> joiner_at P L d J_WAIT_JOIN v' \<and> joiner_knows (F @ [d]) v'
    \<and> (\<exists>h speed lane. sentTo L acts = [MoveToPositionAck h speed lane (F @ [d])] \<and> from_to P d L h)"
proof -
  obtain gap speed lane where g: "\<forall>e pb. \<exists>A B. (\<forall>b. sentTo b A = [] \<and> sentTo b B = [])
    \<and> maneuverBeacon sc e pb JoinAtBack v =
        (if pbVehicle pb \<noteq> F ! (length F - 1) then Inr (v, A)
         else if sqrt ((traciX e - pbX pb)\<^sup>2 + (traciY e - pbY pb)\<^sup>2) - pbLength pb < gap + 11
         then Inr (setManState JoinAtBack J_WAIT_JOIN v, B @ [Send (MoveToPositionAck (headerTo v P L) speed lane (F @ [d])) L])
         else Inr (v, B))"
    using approaching_step [OF assms] by blast
  define pb :: beacon where "pb = \<lparr>pbVehicle = F ! (length F - 1), pbControllerAcceleration = 0, pbAcceleration = 0, pbSpeed = 0,
    pbX = traciX demo_surroundings, pbY = traciY demo_surroundings, pbTime = 0, pbLength = \<bar>gap\<bar>, pbSpeedX = 0, pbSpeedY = 0, pbAngle = 0\<rparr>"
  have near: "sqrt ((traciX demo_surroundings - pbX pb)\<^sup>2 + (traciY demo_surroundings - pbY pb)\<^sup>2) - pbLength pb < gap + 11"
    by (simp add: pb_def)
  have front: "pbVehicle pb = F ! (length F - 1)" by (simp add: pb_def)
  obtain B where B: "\<forall>b. sentTo b B = []" "maneuverBeacon sc demo_surroundings pb JoinAtBack v
      = Inr (setManState JoinAtBack J_WAIT_JOIN v, B @ [Send (MoveToPositionAck (headerTo v P L) speed lane (F @ [d])) L])"
    using g [THEN spec, of demo_surroundings, THEN spec, of pb] near front by auto
  note w = waits_to_join [OF j]
  have "onPlatoonBeacon sc demo_surroundings pb v = Inr (setManState JoinAtBack J_WAIT_JOIN v,
      B @ [Send (MoveToPositionAck (headerTo v P L) speed lane (F @ [d])) L] @ keepPlatoon pb (setManState JoinAtBack J_WAIT_JOIN v))"
    using B(2) w(5) by (simp add: onPlatoonBeacon_def bothManeuvers_def)
  moreover have "sentTo b (B @ [Send (MoveToPositionAck (headerTo v P L) speed lane (F @ [d])) L] @ keepPlatoon pb (setManState JoinAtBack J_WAIT_JOIN v))
      = (if b = L then [MoveToPositionAck (headerTo v P L) speed lane (F @ [d])] else [])" for b
    using B(1) by simp
  ultimately show ?thesis using w(1-3) by (metis (no_types, lifting))
qed

text \<open>A refused joiner is as before; a permitted one waits for information.\<close>

lemma hears_answer:
  assumes j: "joiner_at P L d J_WAIT_REPLY v" and h: "from_to P L d h"
  shows "\<exists>v' acts. handleLowerMsg sc e (JoinPlatoonResponse h ok) v = Inr (v', acts) \<and> (\<forall>b. sentTo b acts = [])
    \<and> (if ok then joiner_at P L d J_WAIT_INFORMATION v' else resting RoleNone d v')"
  using j h
  by (auto simp: joiner_at_def resting_def from_to_def appManeuverMessage_def handleJoinPlatoonResponse_def found_def)

lemma takeWhile_new: "d \<notin> set F \<Longrightarrow> takeWhile (\<lambda>x. x \<noteq> d) (F @ [d]) = F"
  by (induction F) auto

lemma moves_in_position:
  assumes j: "joiner_at P L d J_WAIT_INFORMATION v" and h: "from_to P L d h" and new: "d \<notin> set F"
  shows "\<exists>v' acts. handleLowerMsg sc e (MoveToPosition h speed lane (F @ [d])) v = Inr (v', acts) \<and> (\<forall>b. sentTo b acts = [])
    \<and> joiner_at P L d J_MOVE_IN_POSITION v' \<and> joiner_knows (F @ [d]) v'"
proof -
  have "length (takeWhile (\<lambda>x. x \<noteq> d) (F @ [d])) = length F" by (simp add: takeWhile_new [OF new])
  then show ?thesis using j h
    by (auto simp: joiner_at_def joiner_knows_def from_to_def appManeuverMessage_def handleMoveToPosition_def found_def targetFrom_def)
qed

lemma sameFormation_refl [simp]: "sameFormation xs xs = Inr ()"
  by (induction xs) simp_all

text \<open>A formation that contains the vehicle can be set.\<close>

lemma setAppFormation_follows:
  assumes "distinct f" "n < length f" "f ! n = myId (helper v)"
  shows "\<exists>h acts. setAppFormation f v = Inr (v\<lparr>helper := h\<rparr>, acts) \<and> at_position f n h \<and> formation h = f
    \<and> myId h = myId (helper v) \<and> platoonId h = platoonId (helper v) \<and> (\<forall>b. sentTo b acts = [])"
proof -
  obtain h' ms where h: "setVariablesAfterFormationChange ((helper v)\<lparr>formation := f\<rparr>) = Inr (h', ms)" "at_position f n h'"
    "same_vehicle ((helper v)\<lparr>formation := f\<rparr>) h'"
    using setVariables_at_position [of "(helper v)\<lparr>formation := f\<rparr>" n] assms by auto
  show ?thesis
    using h by (intro exI [of _ h'] exI [of _ "map (\<lambda>(m, i). Command (AddPlatoonMember m i)) ms"])
      (simp add: setAppFormation_def setPlatoonFormation_def same_vehicle_def)
qed

lemma enters_platoon:
  assumes sc: "good_scenario sc" and j: "joiner_at P L d J_WAIT_JOIN v" "joiner_knows (F @ [d]) v" and h: "from_to P L d h"
    and F: "distinct (F @ [d])" "F \<noteq> []" "F ! 0 = L"
  shows "\<exists>v' acts. handleLowerMsg sc e (JoinFormation h speed lane (F @ [d])) v = Inr (v', acts) \<and> (\<forall>b. b \<noteq> L \<longrightarrow> sentTo b acts = [])
    \<and> follows P L d (F @ [d]) v'
    \<and> (\<exists>h' speed' lane'. sentTo L acts = [JoinFormationAck h' speed' lane' (F @ [d])] \<and> from_to P d L h')"
proof -
  obtain t where t: "target (joinMan v) = Some t" "targetPlatoon t = P" "targetLeader t = L" using j(1) by (auto simp: joiner_at_def)
  then have G: "targetFormation t = F @ [d]" using j(2) by (auto simp: joiner_knows_def)
  have v: "role v = RoleJoiner" "activeManeuver v = Some JoinAtBack" "manState (joinMan v) = J_WAIT_JOIN" "manState (mergeMan v) = IDLE" "myId (helper v) = d"
    using j(1) by (simp_all add: joiner_at_def)
  have h': "aboutPlatoon h = P" "fromVehicle h = L" using h by (simp_all add: from_to_def)
  obtain c sd hw where c: "getTargetController sc = Inr c" "getStandstillDistance sc c = Inr sd" "getHeadway sc c = Inr hw"
    "\<And>s. getTargetDistance sc c s = Inr (s * hw + sd)"
    using good_scenario_distances [OF sc] by metis
  define v1 where "v1 = v\<lparr>activeController := c, helper := (helper v)\<lparr>helperDistance := sd, helperHeadway := hw, platoonId := P,
    platoonLane := targetLane t, platoonSpeed := targetSpeed t\<rparr>\<rparr>"
  have "length F < length (F @ [d])" "(F @ [d]) ! length F = myId (helper v1)" using v by (simp_all add: v1_def)
  then obtain g acts where s: "setAppFormation (F @ [d]) v1 = Inr (v1\<lparr>helper := g\<rparr>, acts)" "at_position (F @ [d]) (length F) g"
    "myId g = d" "platoonId g = P" "\<forall>b. sentTo b acts = []"
    using setAppFormation_follows [OF F(1), of "length F" v1] v by (auto simp: v1_def)
  have lead: "leaderId g = L" using s(2) F by (simp add: at_position_def nth_append)
  define cmds where "cmds = [Command (SetActiveController c)] @ (if c = CACC \<or> c = FLATBED then [Command (SetCACCConstantSpacing (targetSpeed t * hw + sd))] else []) @ acts"
  have jp: "joinPlatoon sc h t (F @ [d]) v = Inr (v1\<lparr>helper := g\<rparr>, cmds)"
    using s(1) by (simp add: joinPlatoon_def c h' Let_def v1_def cmds_def)
  define w where "w = setInManeuver None (setManState JoinAtBack IDLE ((v1\<lparr>helper := g\<rparr>)\<lparr>role := RoleFollower\<rparr>))"
  define ack where "ack = JoinFormationAck (headerTo (v1\<lparr>helper := g\<rparr>) P L) (platoonSpeed g) (laneIndex e) (F @ [d])"
  have "handleLowerMsg sc e (JoinFormation h speed lane (F @ [d])) v = Inr (w, cmds @ [Send ack L])"
    by (simp add: appManeuverMessage_def v handleJoinFormation_def joinAtBackFormation_def t found_def h' G jp lead s(4) Let_def w_def ack_def)
  moreover have "sentTo b cmds = []" for b using s(5) by (simp add: cmds_def)
  moreover have "from_to P d L (headerTo (v1\<lparr>helper := g\<rparr>) P L)" using s(3) by (simp add: headerTo_from_to)
  moreover have "follows P L d (F @ [d]) w"
    using s v F by (auto simp: follows_def resting_def w_def v1_def nth_append intro!: exI [of _ "length F"])
  ultimately show ?thesis by (auto simp: ack_def)
qed

lemma follows_fields:
  assumes "follows P L d f v" "distinct f"
  shows "role v = RoleFollower" "platoonId (helper v) = P" "leaderId (helper v) = L" "myId (helper v) = d"
    "manState (joinMan v) = IDLE" "manState (mergeMan v) = IDLE" "formation (helper v) = f" "d \<noteq> L" "activeManeuver v = None"
proof -
  obtain n where n: "0 < n" "n < length f" "f ! n = d" "at_position f n (helper v)" and L: "f ! 0 = L"
    using assms(1) by (auto simp: follows_def)
  then have "f ! n \<noteq> f ! 0" using assms(2) by (metis gr_implies_not0 less_trans nth_eq_iff_index_eq)
  then show "d \<noteq> L" using n L by simp
qed (use assms(1) in \<open>auto simp: follows_def resting_def at_position_def\<close>)

text \<open>A member takes over a longer formation of its platoon.\<close>

lemma takes_update:
  assumes f: "follows P L d f v" "distinct f" and h: "from_to P L d h" and g: "distinct g" "d \<in> set g" "g ! 0 = L"
  shows "\<exists>v' acts. handleLowerMsg sc e (UpdatePlatoonFormation h speed lane g) v = Inr (v', acts) \<and> (\<forall>b. sentTo b acts = [])
    \<and> follows P L d g v'"
proof -
  obtain n where n: "n < length g" "g ! n = d" using g(2) by (auto simp: in_set_conv_nth)
  have "0 < n" using n g follows_fields(8) [OF f] by (cases n) auto
  obtain x acts where s: "setAppFormation g v = Inr (v\<lparr>helper := x\<rparr>, acts)" "at_position g n x" "myId x = d" "platoonId x = P" "\<forall>b. sentTo b acts = []"
    using setAppFormation_follows [OF g(1) n(1), of v] n follows_fields [OF f] by auto
  have "follows P L d g (v\<lparr>helper := x\<rparr>)"
    using s n g f(1) \<open>0 < n\<close> by (auto simp: follows_def resting_def)
  then show ?thesis using s follows_fields [OF f] h
    by (auto simp: handleUpdatePlatoonFormation_def from_to_def)
qed
section \<open>What the leader does\<close>

lemma leads_fields:
  assumes "leads P L F busy st v"
  shows "role v = RoleLeader" "platoonId (helper v) = P" "myId (helper v) = L" "formation (helper v) = F" "distinct F" "F \<noteq> []" "F ! 0 = L"
    "manState (joinMan v) = st" "manState (mergeMan v) = IDLE" "L \<in> set F"
proof -
  show "L \<in> set F" using assms nth_mem [of 0 F] by (auto simp: leads_def)
qed (use assms in \<open>simp_all add: leads_def\<close>)

lemma leads_idle: "leads P L F None st v \<Longrightarrow> st = IDLE \<and> \<not> inManeuver v \<and> activeManeuver v = None"
  by (simp add: leads_def)

lemma leads_busy:
  assumes "leads P L F (Some d) st v"
  shows "inManeuver v" "activeManeuver v = Some JoinAtBack" "d \<notin> set F" "st = L_WAIT_JOINER_IN_POSITION \<or> st = L_WAIT_JOINER_TO_JOIN"
    "\<exists>lane. joiner (joinMan v) = Some \<lparr>joinerId = d, joinerLane = lane, joinerFormation = F @ [d]\<rparr>"
  using assms by (auto simp: leads_def)

lemma leader_admits:
  assumes l: "leads P L F None st v" and h: "from_to P d L h" and d: "d \<notin> set F"
  shows "\<exists>v' acts. handleLowerMsg sc e (JoinPlatoonRequest h lane x y) v = Inr (v', acts)
    \<and> leads P L F (Some d) L_WAIT_JOINER_IN_POSITION v' \<and> (\<forall>b. b \<noteq> d \<longrightarrow> sentTo b acts = [])
    \<and> (\<exists>h1 h2 speed' lane'. sentTo d acts = [JoinPlatoonResponse h1 True, MoveToPosition h2 speed' lane' (F @ [d])] \<and> from_to P L d h1 \<and> from_to P L d h2)"
  using l h d leads_idle [OF l]
  by (auto simp: leads_def from_to_def appManeuverMessage_def bothManeuvers_def handleJoinPlatoonRequest_def processJoinRequest_def
      isJoinAllowed_def moveToPosition_def found_def Let_def headerTo_def at_position_def)

lemma leader_refuses:
  assumes l: "leads P L F (Some j) st v" and h: "from_to P d L h"
  shows "\<exists>acts. handleLowerMsg sc e (JoinPlatoonRequest h lane x y) v = Inr (v, acts) \<and> (\<forall>b. b \<noteq> d \<longrightarrow> sentTo b acts = [])
    \<and> (\<exists>h1. sentTo d acts = [JoinPlatoonResponse h1 False] \<and> from_to P L d h1)"
  using leads_fields [OF l] leads_busy [OF l] h
  by (auto simp: from_to_def appManeuverMessage_def handleJoinPlatoonRequest_def processJoinRequest_def
      isJoinAllowed_def Let_def headerTo_def)

lemma leader_calls:
  assumes l: "leads P L F (Some d) L_WAIT_JOINER_IN_POSITION v" and h: "from_to P d L h"
  shows "\<exists>v' acts. handleLowerMsg sc e (MoveToPositionAck h speed lane (F @ [d])) v = Inr (v', acts)
    \<and> leads P L F (Some d) L_WAIT_JOINER_TO_JOIN v' \<and> (\<forall>b. b \<noteq> d \<longrightarrow> sentTo b acts = [])
    \<and> (\<exists>h1 speed' lane'. sentTo d acts = [JoinFormation h1 speed' lane' (F @ [d])] \<and> from_to P L d h1)"
proof -
  obtain jl where j: "joiner (joinMan v) = Some \<lparr>joinerId = d, joinerLane = jl, joinerFormation = F @ [d]\<rparr>" using leads_busy(5) [OF l] by blast
  define v' where "v' = setManState JoinAtBack L_WAIT_JOINER_TO_JOIN v"
  have "leads P L F (Some d) L_WAIT_JOINER_TO_JOIN v'" using l by (simp add: leads_def v'_def)
  then show ?thesis using leads_fields [OF l] leads_busy [OF l] h j
    by (auto simp: from_to_def appManeuverMessage_def handleMoveToPositionAck_def found_def headerTo_def v'_def)
qed

lemma map_behind: "map (\<lambda>i. g (xs ! nat i)) [1..int (length xs) - 1] = map g (tl xs)"
  by (rule nth_equalityI) (auto simp: nth_tl nat_add_distrib)

lemma sentTo_each: "distinct xs \<Longrightarrow> sentTo b (map (\<lambda>d. Send (m d) d) xs) = (if b \<in> set xs then [m b] else [])"
  by (induction xs) auto

lemma updateMembers_sends:
  assumes "formation (helper v) = G" "distinct G"
  shows "sentTo b (updateMembers e f v) =
    (if b \<in> set (tl G) then [UpdatePlatoonFormation (headerTo v (platoonId (helper v)) b) (platoonSpeed (helper v)) (laneIndex e) f] else [])"
proof -
  have "updateMembers e f v =
    map (\<lambda>d. Send (UpdatePlatoonFormation (headerTo v (platoonId (helper v)) d) (platoonSpeed (helper v)) (laneIndex e) f) d) (tl G)"
    unfolding updateMembers_def map_behind [symmetric] using assms by (auto simp: getMemberId_def getPlatoonSize_def Let_def)
  then show ?thesis using assms(2) by (simp add: sentTo_each distinct_tl)
qed

lemma leader_completes:
  assumes l: "leads P L F (Some d) L_WAIT_JOINER_TO_JOIN v" and h: "from_to P d L h"
  shows "\<exists>v' acts. handleLowerMsg sc e (JoinFormationAck h speed lane (F @ [d])) v = Inr (v', acts)
    \<and> leads P L (F @ [d]) None IDLE v'
    \<and> (\<forall>b. if b \<in> set (tl (F @ [d])) then \<exists>h1 speed' lane'. sentTo b acts = [UpdatePlatoonFormation h1 speed' lane' (F @ [d])] \<and> from_to P L b h1
            else sentTo b acts = [])"
proof -
  obtain jl where j: "joiner (joinMan v) = Some \<lparr>joinerId = d, joinerLane = jl, joinerFormation = F @ [d]\<rparr>" using leads_busy(5) [OF l] by blast
  note lf = leads_fields [OF l] and lb = leads_busy [OF l]
  have G: "distinct (F @ [d])" "0 < length (F @ [d])" "(F @ [d]) ! 0 = myId (helper v)" using lf lb by (auto simp: nth_append)
  obtain g acts where s: "setAppFormation (F @ [d]) v = Inr (v\<lparr>helper := g\<rparr>, acts)" "at_position (F @ [d]) 0 g" "formation g = F @ [d]"
    "myId g = L" "platoonId g = P" "\<forall>b. sentTo b acts = []"
    using setAppFormation_follows [OF G] lf by auto
  define w where "w = setInManeuver None (setManState JoinAtBack IDLE (v\<lparr>helper := g\<rparr>))"
  have step: "handleLowerMsg sc e (JoinFormationAck h speed lane (F @ [d])) v = Inr (w, acts @ updateMembers e (F @ [d]) (v\<lparr>helper := g\<rparr>))"
    using lf lb h j s(1) by (simp add: from_to_def appManeuverMessage_def handleJoinFormationAck_def found_def w_def)
  have "leads P L (F @ [d]) None IDLE w"
    using s lf G by (simp add: leads_def w_def nth_append)
  moreover have "if b \<in> set (tl (F @ [d])) then \<exists>h1 speed' lane'. sentTo b (acts @ updateMembers e (F @ [d]) (v\<lparr>helper := g\<rparr>)) = [UpdatePlatoonFormation h1 speed' lane' (F @ [d])] \<and> from_to P L b h1
      else sentTo b (acts @ updateMembers e (F @ [d]) (v\<lparr>helper := g\<rparr>)) = []" for b
    using s(4-6) updateMembers_sends [of "v\<lparr>helper := g\<rparr>" "F @ [d]" b e "F @ [d]"] s(3) G(1)
    by (auto simp: headerTo_from_to simp del: tl_append2)
  ultimately show ?thesis using step by blast
qed
section \<open>Every step keeps the platoon consistent\<close>

text \<open>A vehicle the leader is not busy with does not notice what the leader is doing.\<close>

lemma in_phase_other:
  assumes "in_phase ph P L d F busy st v cin cout" "busy \<noteq> Some d" "busy' \<noteq> Some d"
  shows "in_phase ph P L d F busy' st' v cin cout"
  using assms by (cases ph) (auto simp: outside_def)

text \<open>The platoon grows: its members get a message about it, the others do not.\<close>

lemma in_phase_grows:
  assumes "in_phase ph P L d F busy st v cin cout" "busy \<noteq> Some d" "busy' \<noteq> Some d" "d \<noteq> j" "d \<noteq> L" "F \<noteq> []" "F ! 0 = L" "distinct F"
    and more: "if d \<in> set (tl (F @ [j])) then \<exists>h speed lane. new = [UpdatePlatoonFormation h speed lane (F @ [j])] \<and> from_to P L d h else new = []"
  shows "in_phase ph P L d (F @ [j]) busy' st' v (cin @ new) cout"
proof (cases "d \<in> set F")
  case False
  then have "d \<notin> set (tl (F @ [j]))" using assms(4,6) by (cases F) auto
  then have "new = []" using more by simp
  then show ?thesis using assms(1-5) False by (cases ph) (auto simp: outside_def)
next
  case True
  then have ph: "ph = Member" using assms(1,2) by (cases ph) (auto simp: outside_def)
  obtain f us where f: "follows P L d f v" "\<exists>k. f = take k F" "last (f # us) = F" and us: "list_all2 (update_of P L d F) cin us" and c: "cout = []"
    using assms(1) unfolding ph in_phase.simps by blast
  have pre: "\<exists>k'. take k F = take k' (F @ [j])" for k
    by (intro exI [of _ "min k (length F)"]) (simp add: min_def)
  have "d \<in> set (tl (F @ [j]))" using True assms(5-7) by (cases F) auto
  then obtain h speed lane where new: "new = [UpdatePlatoonFormation h speed lane (F @ [j])]" "from_to P L d h" using more by auto
  have "list_all2 (update_of P L d (F @ [j])) cin us"
    using us by (rule list_all2_mono) (use pre in \<open>auto simp: update_of_def\<close>)
  moreover have "update_of P L d (F @ [j]) (UpdatePlatoonFormation h speed lane (F @ [j])) (F @ [j])"
    using new(2) True by (auto simp: update_of_def intro: exI [of _ "Suc (length F)"])
  ultimately have "list_all2 (update_of P L d (F @ [j])) (cin @ new) (us @ [F @ [j]])"
    using new(1) by (auto intro: list_all2_appendI)
  moreover have "\<exists>k. f = take k (F @ [j])" using f(2) pre by metis
  moreover have "d \<in> set (F @ [j])" using True by simp
  moreover have "last (f # us @ [F @ [j]]) = F @ [j]" by simp
  ultimately show ?thesis unfolding ph in_phase.simps using f(1) c
    by (intro conjI exI [of _ f] exI [of _ "us @ [F @ [j]]"])
qed

text \<open>Only one vehicle other than the leader, and its channels to and from the leader, change.\<close>

lemma fleet_inv_vehicle:
  assumes inv: "fleet_inv P L F busy st s" and d: "d \<noteq> L"
    and s': "apps s' = (apps s)(d := v')" "\<And>a b. (a, b) \<noteq> (L, d) \<Longrightarrow> (a, b) \<noteq> (d, L) \<Longrightarrow> channel s' a b = channel s a b"
    and ph: "in_phase ph P L d F busy st v' (channel s' L d) (channel s' d L)"
  shows "fleet_inv P L F busy st s'"
  unfolding fleet_inv_def
proof (intro conjI allI impI)
  show "leads P L F busy st (apps s' L)" using inv s'(1) d by (simp add: fleet_inv_def)
next
  fix a b assume n: "channel s' a b \<noteq> []"
  show "(a = L) = (b \<noteq> L)"
  proof (cases "(a, b) = (L, d) \<or> (a, b) = (d, L)")
    case True
    then show ?thesis using d by auto
  next
    case False
    then show ?thesis using inv n s'(2) [of a b] by (auto simp: fleet_inv_def)
  qed
next
  fix x assume x: "x \<noteq> L"
  show "\<exists>ph. in_phase ph P L x F busy st (apps s' x) (channel s' L x) (channel s' x L)"
  proof (cases "x = d")
    case True
    then show ?thesis using ph s'(1) by auto
  next
    case False
    then show ?thesis using inv x s' by (simp add: fleet_inv_def)
  qed
qed

text \<open>The leader changes; it may send something to everyone.\<close>

lemma fleet_inv_leader:
  assumes inv: "fleet_inv P L F busy st s" and lead: "leads P L F' busy' st' (apps s' L)"
    and s': "\<And>a. a \<noteq> L \<Longrightarrow> apps s' a = apps s a" "\<And>a b. a \<noteq> L \<Longrightarrow> b \<noteq> L \<Longrightarrow> channel s' a b = channel s a b" "channel s' L L = []"
    and ph: "\<And>x. x \<noteq> L \<Longrightarrow> \<exists>ph. in_phase ph P L x F' busy' st' (apps s x) (channel s' L x) (channel s' x L)"
  shows "fleet_inv P L F' busy' st' s'"
  unfolding fleet_inv_def
proof (intro conjI allI impI)
  fix a b assume n: "channel s' a b \<noteq> []"
  show "(a = L) = (b \<noteq> L)"
  proof (cases "a = L \<or> b = L")
    case True
    then show ?thesis using n s'(3) by auto
  next
    case False
    then show ?thesis using inv n s'(2) [of a b] by (auto simp: fleet_inv_def)
  qed
qed (use lead ph s'(1) in auto)
lemma post_nothing: "(\<And>b. sentTo b acts = []) \<Longrightarrow> post a acts c = c"
  by (auto simp: post_def fun_eq_iff)

lemma acted_nothing: "(\<And>b. sentTo b acts = []) \<Longrightarrow> acted a (Inr (apps s a, acts)) s = Inr s"
  by (simp add: acted_def post_nothing)

lemma fleet_inv_phase:
  assumes "fleet_inv P L F busy st s" "d \<noteq> L"
  obtains ph where "in_phase ph P L d F busy st (apps s d) (channel s L d) (channel s d L)"
  using assms unfolding fleet_inv_def by blast

lemma fleet_inv_leads: "fleet_inv P L F busy st s \<Longrightarrow> leads P L F busy st (apps s L)"
  by (simp add: fleet_inv_def)

text \<open>A vehicle acts; what it sends goes to the leader.\<close>

lemma vehicle_acts:
  assumes inv: "fleet_inv P L F busy st s" and d: "d \<noteq> L" and sent: "\<forall>b. b \<noteq> L \<longrightarrow> sentTo b acts = []"
    and ph: "in_phase ph P L d F busy st v' (channel s L d) (channel s d L @ sentTo L acts)"
  shows "\<exists>s'. acted d (Inr (v', acts)) s = Inr s' \<and> fleet_inv P L F busy st s' \<and> apps s' = (apps s)(d := v')
    \<and> (\<forall>x. x \<noteq> d \<longrightarrow> channel s' L x = channel s L x)"
proof -
  define s' where "s' = s\<lparr>apps := (apps s)(d := v'), channel := post d acts (channel s)\<rparr>"
  have "fleet_inv P L F busy st s'"
    by (rule fleet_inv_vehicle [OF inv d, of s' v']) (use d sent ph in \<open>auto simp: s'_def post_def\<close>)
  then show ?thesis using d by (intro exI [of _ s']) (simp add: acted_def s'_def post_def)
qed

lemma vehicle_receives:
  assumes inv: "fleet_inv P L F busy st s" and d: "d \<noteq> L" and m: "channel s L d = m # ms"
    and r: "handleLowerMsg sc e m (apps s d) = Inr (v', acts)" and sent: "\<forall>b. b \<noteq> L \<longrightarrow> sentTo b acts = []"
    and ph: "in_phase ph P L d F busy st v' ms (channel s d L @ sentTo L acts)"
  shows "\<exists>s'. acted d (handleLowerMsg sc e m (apps s d)) (takeMessage L d s) = Inr s' \<and> fleet_inv P L F busy st s'
    \<and> apps s' = (apps s)(d := v') \<and> channel s' L d = ms \<and> (\<forall>x. x \<noteq> d \<longrightarrow> channel s' L x = channel s L x)
    \<and> channel s' d L = channel s d L @ sentTo L acts"
proof -
  define s' where "s' = (takeMessage L d s)\<lparr>apps := (apps s)(d := v'), channel := post d acts (channel (takeMessage L d s))\<rparr>"
  have "fleet_inv P L F busy st s'"
    by (rule fleet_inv_vehicle [OF inv d, of s' v']) (use d m sent ph in \<open>auto simp: s'_def post_def takeMessage_def\<close>)
  then show ?thesis using d m by (intro exI [of _ s']) (simp add: r acted_def s'_def post_def takeMessage_def)
qed

lemma leader_receives:
  assumes inv: "fleet_inv P L F busy st s" and d: "d \<noteq> L" and m: "channel s d L = m # ms"
    and r: "handleLowerMsg sc e m (apps s L) = Inr (v', acts)" and lead: "leads P L F' busy' st' v'" and sent: "sentTo L acts = []"
    and ph: "\<And>x. x \<noteq> L \<Longrightarrow> \<exists>ph. in_phase ph P L x F' busy' st' (apps s x) (channel s L x @ sentTo x acts) (if x = d then ms else channel s x L)"
  shows "\<exists>s'. acted L (handleLowerMsg sc e m (apps s L)) (takeMessage d L s) = Inr s' \<and> fleet_inv P L F' busy' st' s'
    \<and> (\<forall>x. x \<noteq> L \<longrightarrow> apps s' x = apps s x \<and> channel s' L x = channel s L x @ sentTo x acts) \<and> channel s' d L = ms"
proof -
  define s' where "s' = (takeMessage d L s)\<lparr>apps := (apps s)(L := v'), channel := post L acts (channel (takeMessage d L s))\<rparr>"
  have "fleet_inv P L F' busy' st' s'"
  proof (rule fleet_inv_leader [OF inv])
    fix x assume x: "x \<noteq> L"
    have "channel s' L x = channel s L x @ sentTo x acts" "channel s' x L = (if x = d then ms else channel s x L)"
      using d x m by (simp_all add: s'_def post_def takeMessage_def)
    then show "\<exists>ph. in_phase ph P L x F' busy' st' (apps s x) (channel s' L x) (channel s' x L)" using ph [OF x] by simp
  next
    have "channel s L L = []" using inv unfolding fleet_inv_def by blast
    then show "channel s' L L = []" using d sent by (simp add: s'_def post_def takeMessage_def)
  qed (use d lead in \<open>auto simp: s'_def post_def takeMessage_def\<close>)
  then show ?thesis using d m by (intro exI [of _ s']) (simp add: r acted_def s'_def post_def takeMessage_def)
qed

lemma step_starts:
  assumes inv: "fleet_inv P L F busy st s" and v: "role (apps s d) = RoleNone"
  shows "\<exists>s'. acted d (startJoinManeuver e P L (apps s d)) s = Inr s' \<and> fleet_inv P L F busy st s'
    \<and> in_phase Asked P L d F busy st (apps s' d) (channel s' L d) (channel s' d L) \<and> (\<forall>x. x \<noteq> d \<longrightarrow> channel s' L x = channel s L x)
    \<and> (\<forall>x. x \<noteq> d \<longrightarrow> apps s' x = apps s x)"
proof -
  have d: "d \<noteq> L" using leads_fields(1) [OF fleet_inv_leads [OF inv]] v by auto
  obtain ph where ph: "in_phase ph P L d F busy st (apps s d) (channel s L d) (channel s d L)" using fleet_inv_phase [OF inv d] .
  then have away: "ph = Away" using v by (cases ph) (auto simp: joiner_at_def follows_def resting_def)
  then have a: "outside d F busy" "resting RoleNone d (apps s d)" "channel s L d = []" "channel s d L = []" using ph by simp_all
  obtain v' h where v': "startJoinManeuver e P L (apps s d) = Inr (v', [Send (JoinPlatoonRequest h (laneIndex e) (omnetX e) (omnetY e)) L])"
    "joiner_at P L d J_WAIT_REPLY v'" "from_to P d L h"
    using starts_asking [OF a(2)] by blast
  have asked: "in_phase Asked P L d F busy st v' (channel s L d) (channel s d L @ sentTo L [Send (JoinPlatoonRequest h (laneIndex e) (omnetX e) (omnetY e)) L])"
    using a v' by auto
  show ?thesis
    using vehicle_acts [OF inv d _ asked] a(3,4) asked v'(1) d
    by (auto simp: acted_def post_def)
qed

lemma step_hears:
  assumes sc: "good_scenario sc" and inv: "fleet_inv P L F busy st s"
  shows "\<exists>s'. acted d (onPlatoonBeacon sc e pb (apps s d)) s = Inr s' \<and> fleet_inv P L F busy st s'"
proof -
  note lf = leads_fields [OF fleet_inv_leads [OF inv]]
  have same: ?thesis if ps: "manState (joinMan (apps s d)) \<noteq> J_MOVE_IN_POSITION" "manState (mergeMan (apps s d)) \<noteq> J_MOVE_IN_POSITION"
    using beacon_changes_nothing [OF ps, of sc e pb] inv acted_nothing by fastforce
  show ?thesis
  proof (cases "d = L")
    case True
    then show ?thesis using same fleet_inv_leads [OF inv] lf(8,9) by (cases busy) (auto simp: leads_def)
  next
    case d: False
    obtain ph where ph: "in_phase ph P L d F busy st (apps s d) (channel s L d) (channel s d L)" using fleet_inv_phase [OF inv d] .
    show ?thesis
    proof (cases "ph = Approaching")
      case False
      then show ?thesis using same ph by (cases ph) (auto simp: joiner_at_def resting_def follows_def)
    next
      case True
      then have a: "busy = Some d" "st = L_WAIT_JOINER_IN_POSITION" "joiner_at P L d J_MOVE_IN_POSITION (apps s d)" "joiner_knows (F @ [d]) (apps s d)"
        "channel s L d = []" "channel s d L = []" using ph by simp_all
      obtain v' acts where v': "onPlatoonBeacon sc e pb (apps s d) = Inr (v', acts)" "\<forall>b. b \<noteq> L \<longrightarrow> sentTo b acts = []"
        "v' = apps s d \<and> sentTo L acts = [] \<or> joiner_at P L d J_WAIT_JOIN v' \<and> joiner_knows (F @ [d]) v'
         \<and> (\<exists>h speed lane. sentTo L acts = [MoveToPositionAck h speed lane (F @ [d])] \<and> from_to P d L h)"
        using approaching_hears [OF sc a(3,4) lf(6,7), of e pb] by (elim exE conjE) (rule that; assumption)
      have "\<exists>ph'. in_phase ph' P L d F busy st v' (channel s L d) (channel s d L @ sentTo L acts)"
      proof (cases "sentTo L acts = []")
        case True
        then show ?thesis using v'(3) a by (intro exI [of _ Approaching]) auto
      next
        case False
        then show ?thesis using v'(3) a by (intro exI [of _ Arrived]) auto
      qed
      then obtain ph' where ph': "in_phase ph' P L d F busy st v' (channel s L d) (channel s d L @ sentTo L acts)" by blast
      show ?thesis using vehicle_acts [OF inv d v'(2) ph'] by (simp only: v'(1)) blast
    qed
  qed
qed
text \<open>The phase after the next message to a vehicle.\<close>

fun onward :: "phase \<Rightarrow> phase" where
  "onward Refused = Away"
| "onward Admitted = Informed"
| "onward Informed = Approaching"
| "onward Called = Entering"
| "onward ph = ph"

lemma step_to_vehicle:
  assumes sc: "good_scenario sc" and inv: "fleet_inv P L F busy st s" and d: "d \<noteq> L" and m: "channel s L d = m # ms"
    and ph: "in_phase ph P L d F busy st (apps s d) (channel s L d) (channel s d L)"
  shows "\<exists>s'. acted d (handleLowerMsg sc e m (apps s d)) (takeMessage L d s) = Inr s' \<and> fleet_inv P L F busy st s'
    \<and> channel s' L d = ms \<and> (\<forall>x. x \<noteq> d \<longrightarrow> channel s' L x = channel s L x)
    \<and> in_phase (onward ph) P L d F busy st (apps s' d) (channel s' L d) (channel s' d L)"
proof -
  note lead = fleet_inv_leads [OF inv]
  note lf = leads_fields [OF lead]
  have "\<exists>v' acts. handleLowerMsg sc e m (apps s d) = Inr (v', acts) \<and> (\<forall>b. b \<noteq> L \<longrightarrow> sentTo b acts = [])
    \<and> in_phase (onward ph) P L d F busy st v' ms (channel s d L @ sentTo L acts)"
  proof (cases ph)
    case Refused
    then obtain h where a: "outside d F busy" "joiner_at P L d J_WAIT_REPLY (apps s d)" "channel s d L = []" "ms = []"
      "m = JoinPlatoonResponse h False" "from_to P L d h" using ph m by auto
    obtain v' acts where v': "handleLowerMsg sc e m (apps s d) = Inr (v', acts)" "\<forall>b. sentTo b acts = []" "resting RoleNone d v'"
      using hears_answer [OF a(2,6), of sc e False] a(5) by auto
    have "in_phase Away P L d F busy st v' ms (channel s d L @ sentTo L acts)" using a v'(2,3) by auto
    then show ?thesis using v' Refused by auto
  next
    case Admitted
    then obtain h h' speed lane where a: "busy = Some d" "st = L_WAIT_JOINER_IN_POSITION" "joiner_at P L d J_WAIT_REPLY (apps s d)" "channel s d L = []"
      "ms = [MoveToPosition h' speed lane (F @ [d])]" "m = JoinPlatoonResponse h True" "from_to P L d h" "from_to P L d h'" using ph m by auto
    obtain v' acts where v': "handleLowerMsg sc e m (apps s d) = Inr (v', acts)" "\<forall>b. sentTo b acts = []" "joiner_at P L d J_WAIT_INFORMATION v'"
      using hears_answer [OF a(3,7), of sc e True] a(6) by auto
    have "in_phase Informed P L d F busy st v' ms (channel s d L @ sentTo L acts)" using a v'(2,3) by auto
    then show ?thesis using v' unfolding Admitted onward.simps by blast
  next
    case Informed
    then obtain h speed lane where a: "busy = Some d" "st = L_WAIT_JOINER_IN_POSITION" "joiner_at P L d J_WAIT_INFORMATION (apps s d)" "channel s d L = []"
      "ms = []" "m = MoveToPosition h speed lane (F @ [d])" "from_to P L d h" using ph m by auto
    have "d \<notin> set F" using leads_busy(3) lead a(1) by blast
    then obtain v' acts where v': "handleLowerMsg sc e m (apps s d) = Inr (v', acts)" "\<forall>b. sentTo b acts = []" "joiner_at P L d J_MOVE_IN_POSITION v'"
      "joiner_knows (F @ [d]) v'"
      using moves_in_position [OF a(3,7)] a(6) by blast
    have "in_phase Approaching P L d F busy st v' ms (channel s d L @ sentTo L acts)" using a v'(2-4) by auto
    then show ?thesis using v' unfolding Informed onward.simps by blast
  next
    case Called
    then obtain h speed lane where a: "busy = Some d" "st = L_WAIT_JOINER_TO_JOIN" "joiner_at P L d J_WAIT_JOIN (apps s d)" "joiner_knows (F @ [d]) (apps s d)"
      "channel s d L = []" "ms = []" "m = JoinFormation h speed lane (F @ [d])" "from_to P L d h" using ph m by auto
    have "distinct (F @ [d])" using leads_busy(3) lead a(1) lf(5) by simp
    then obtain v' acts h' speed' lane' where v': "handleLowerMsg sc e m (apps s d) = Inr (v', acts)" "\<forall>b. b \<noteq> L \<longrightarrow> sentTo b acts = []" "follows P L d (F @ [d]) v'"
      "sentTo L acts = [JoinFormationAck h' speed' lane' (F @ [d])]" "from_to P d L h'"
      using enters_platoon [OF sc a(3,4,8) _ lf(6,7)] a(7) by blast
    have "in_phase Entering P L d F busy st v' ms (channel s d L @ sentTo L acts)" using a v'(3-5) by auto
    then show ?thesis using v' unfolding Called onward.simps by blast
  next
    case Member
    then obtain f us where a: "d \<in> set F" "channel s d L = []" "follows P L d f (apps s d)" "\<exists>k. f = take k F"
      "list_all2 (update_of P L d F) (m # ms) us" "last (f # us) = F" using ph m by auto
    then obtain g us' where us: "us = g # us'" "update_of P L d F m g" "list_all2 (update_of P L d F) ms us'" by (auto simp: list_all2_Cons1)
    then obtain h speed lane where g: "m = UpdatePlatoonFormation h speed lane g" "from_to P L d h" "d \<in> set g" "\<exists>k. g = take k F"
      by (auto simp: update_of_def)
    obtain k where k: "g = take k F" using g(4) by blast
    then have "0 < k" using g(3) by (cases k) auto
    then have "g ! 0 = L" using k lf(7) by simp
    moreover have "distinct f" "distinct g" using a(4) k lf(5) by auto
    ultimately obtain v' acts where v': "handleLowerMsg sc e m (apps s d) = Inr (v', acts)" "\<forall>b. sentTo b acts = []" "follows P L d g v'"
      using takes_update [OF a(3) _ g(2) _ g(3), of sc e speed lane] g(1) by blast
    have "channel s d L @ sentTo L acts = []" "last (g # us') = F" using a(2,6) v'(2) us(1) by simp_all
    then have "in_phase Member P L d F busy st v' ms (channel s d L @ sentTo L acts)"
      unfolding in_phase.simps using a(1) v'(3) g(4) us(3) by (intro conjI exI [of _ g] exI [of _ us'])
    then show ?thesis using v' unfolding Member onward.simps by blast
  qed (use ph m in auto)
  then obtain v' acts where v': "handleLowerMsg sc e m (apps s d) = Inr (v', acts)" "\<forall>b. b \<noteq> L \<longrightarrow> sentTo b acts = []"
    "in_phase (onward ph) P L d F busy st v' ms (channel s d L @ sentTo L acts)" by blast
  obtain s' where s': "acted d (handleLowerMsg sc e m (apps s d)) (takeMessage L d s) = Inr s'" "fleet_inv P L F busy st s'"
    "apps s' = (apps s)(d := v')" "channel s' L d = ms" "\<forall>x. x \<noteq> d \<longrightarrow> channel s' L x = channel s L x" "channel s' d L = channel s d L @ sentTo L acts"
    using vehicle_receives [OF inv d m v'] by blast
  moreover have "in_phase (onward ph) P L d F busy st (apps s' d) (channel s' L d) (channel s' d L)" using v'(3) s'(3,4,6) by simp
  ultimately show ?thesis by blast
qed
text \<open>What the leader is busy with decides about a message to it.\<close>

lemma in_phase_channel:
  assumes "in_phase ph P L d F busy st v cin cout" "cout = m # ms"
  shows "ph = Asked \<or> ph = Arrived \<or> ph = Entering"
  using assms by (cases ph) auto

text \<open>What a message of \<open>d\<close> makes of its phase, the platoon, and what the leader is busy with.\<close>

fun leaderOnward :: "phase \<Rightarrow> int \<Rightarrow> int list \<Rightarrow> int option \<Rightarrow> join_state \<Rightarrow> phase \<times> int list \<times> int option \<times> join_state" where
  "leaderOnward Asked d F None st = (Admitted, F, Some d, L_WAIT_JOINER_IN_POSITION)"
| "leaderOnward Asked d F (Some j) st = (Refused, F, Some j, st)"
| "leaderOnward Arrived d F busy st = (Called, F, busy, L_WAIT_JOINER_TO_JOIN)"
| "leaderOnward Entering d F busy st = (Member, F @ [d], None, IDLE)"
| "leaderOnward ph d F busy st = (ph, F, busy, st)"

lemma step_to_leader:
  assumes inv: "fleet_inv P L F busy st s" and d: "d \<noteq> L" and m: "channel s d L = m # ms"
    and ph: "in_phase ph P L d F busy st (apps s d) (channel s L d) (channel s d L)"
    and next_state: "leaderOnward ph d F busy st = (ph', F', busy', st')"
  shows "\<exists>s'. acted L (handleLowerMsg sc e m (apps s L)) (takeMessage d L s) = Inr s' \<and> fleet_inv P L F' busy' st' s'
    \<and> in_phase ph' P L d F' busy' st' (apps s' d) (channel s' L d) (channel s' d L)
    \<and> (\<forall>x. x \<notin> set (F @ [d]) \<longrightarrow> channel s' L x = channel s L x) \<and> (F' = F \<or> busy = Some d \<and> F' = F @ [d])"
proof -
  note lead = fleet_inv_leads [OF inv]
  note lf = leads_fields [OF lead]
  have phase: "\<exists>ph. in_phase ph P L x F busy st (apps s x) (channel s L x) (channel s x L)" if "x \<noteq> L" for x
    using fleet_inv_phase [OF inv that] by blast
  text \<open>It is enough to look at what the leader does and at the phase of \<open>d\<close>.\<close>
  have finish: ?thesis
    if r: "handleLowerMsg sc e m (apps s L) = Inr (v', acts)" "leads P L F' busy' st' v'" "\<forall>b. b \<notin> set (F @ [d]) \<longrightarrow> sentTo b acts = []" "sentTo L acts = []"
      and pd: "in_phase ph' P L d F' busy' st' (apps s d) (channel s L d @ sentTo d acts) ms"
      and others: "\<And>x ph. x \<noteq> L \<Longrightarrow> x \<noteq> d \<Longrightarrow> in_phase ph P L x F busy st (apps s x) (channel s L x) (channel s x L) \<Longrightarrow>
        in_phase ph P L x F' busy' st' (apps s x) (channel s L x @ sentTo x acts) (channel s x L)"
      and F': "F' = F \<or> busy = Some d \<and> F' = F @ [d]" for v' acts
  proof -
    have "\<exists>ph. in_phase ph P L x F' busy' st' (apps s x) (channel s L x @ sentTo x acts) (if x = d then ms else channel s x L)" if x: "x \<noteq> L" for x
    proof (cases "x = d")
      case True
      then show ?thesis using pd by (intro exI [of _ ph']) (simp del: in_phase.simps)
    next
      case False
      obtain p where "in_phase p P L x F busy st (apps s x) (channel s L x) (channel s x L)" using phase [OF x] by blast
      then show ?thesis using others [OF x False] False by (intro exI [of _ p]) (simp del: in_phase.simps)
    qed
    then obtain s' where s': "acted L (handleLowerMsg sc e m (apps s L)) (takeMessage d L s) = Inr s'" "fleet_inv P L F' busy' st' s'"
      "\<forall>x. x \<noteq> L \<longrightarrow> apps s' x = apps s x \<and> channel s' L x = channel s L x @ sentTo x acts" "channel s' d L = ms"
      using leader_receives [OF inv d m r(1,2,4)] by blast
    have "in_phase ph' P L d F' busy' st' (apps s' d) (channel s' L d) (channel s' d L)" using pd s'(3,4) d by (simp del: in_phase.simps)
    moreover have "channel s' L x = channel s L x" if "x \<notin> set (F @ [d])" for x
      using s'(3) r(3) that lf(10) by (cases "x = L") auto
    ultimately show ?thesis using s'(1,2) F' by blast
  qed
  consider "ph = Asked" "busy = None" | j where "ph = Asked" "busy = Some j" | "ph = Arrived" | "ph = Entering"
    using in_phase_channel [OF ph m] by (cases busy) auto
  then show ?thesis
  proof cases
    case 1
    then obtain h lane x y where a: "outside d F busy" "joiner_at P L d J_WAIT_REPLY (apps s d)" "channel s L d = []" "ms = []"
      "m = JoinPlatoonRequest h lane x y" "from_to P d L h" using ph m by auto
    have dF: "d \<notin> set F" using a(1) by (simp add: outside_def)
    have n: "ph' = Admitted" "F' = F" "busy' = Some d" "st' = L_WAIT_JOINER_IN_POSITION" using next_state 1 by simp_all
    obtain v' acts h1 h2 speed' lane' where v': "handleLowerMsg sc e m (apps s L) = Inr (v', acts)" "leads P L F (Some d) L_WAIT_JOINER_IN_POSITION v'"
      "\<forall>b. b \<noteq> d \<longrightarrow> sentTo b acts = []" "sentTo d acts = [JoinPlatoonResponse h1 True, MoveToPosition h2 speed' lane' (F @ [d])]"
      "from_to P L d h1" "from_to P L d h2"
      using leader_admits [OF lead [unfolded 1(2)] a(6) dF, of sc e lane x y] a(5) by blast
    show ?thesis
    proof (rule finish [OF v'(1)])
      show "in_phase ph' P L d F' busy' st' (apps s d) (channel s L d @ sentTo d acts) ms" using a v' by (auto simp: n)
    qed (use v' d n 1 in_phase_other in \<open>auto simp del: in_phase.simps\<close>)
  next
    case 2
    then obtain h lane x y where a: "outside d F busy" "joiner_at P L d J_WAIT_REPLY (apps s d)" "channel s L d = []" "ms = []"
      "m = JoinPlatoonRequest h lane x y" "from_to P d L h" using ph m by auto
    have n: "ph' = Refused" "F' = F" "busy' = busy" "st' = st" using next_state 2 by simp_all
    obtain acts h1 where v': "handleLowerMsg sc e m (apps s L) = Inr (apps s L, acts)" "\<forall>b. b \<noteq> d \<longrightarrow> sentTo b acts = []"
      "sentTo d acts = [JoinPlatoonResponse h1 False]" "from_to P L d h1"
      using leader_refuses [OF lead [unfolded 2(2)] a(6), of sc e lane x y] a(5) by blast
    show ?thesis
    proof (rule finish [OF v'(1)])
      show "in_phase ph' P L d F' busy' st' (apps s d) (channel s L d @ sentTo d acts) ms" using a v' by (auto simp: n)
    qed (use v' d n lead in \<open>auto simp del: in_phase.simps\<close>)
  next
    case 3
    then obtain h speed lane where a: "busy = Some d" "st = L_WAIT_JOINER_IN_POSITION" "joiner_at P L d J_WAIT_JOIN (apps s d)" "joiner_knows (F @ [d]) (apps s d)"
      "channel s L d = []" "ms = []" "m = MoveToPositionAck h speed lane (F @ [d])" "from_to P d L h" using ph m by auto
    have n: "ph' = Called" "F' = F" "busy' = Some d" "st' = L_WAIT_JOINER_TO_JOIN" using next_state 3 a(1) by simp_all
    obtain v' acts h1 speed' lane' where v': "handleLowerMsg sc e m (apps s L) = Inr (v', acts)" "leads P L F (Some d) L_WAIT_JOINER_TO_JOIN v'"
      "\<forall>b. b \<noteq> d \<longrightarrow> sentTo b acts = []" "sentTo d acts = [JoinFormation h1 speed' lane' (F @ [d])]" "from_to P L d h1"
      using leader_calls [OF lead [unfolded a(1,2)] a(8), of sc e speed lane] a(7) by blast
    show ?thesis
    proof (rule finish [OF v'(1)])
      show "in_phase ph' P L d F' busy' st' (apps s d) (channel s L d @ sentTo d acts) ms" using a v' by (auto simp: n)
    qed (use v' d n a(1) in_phase_other in \<open>auto simp del: in_phase.simps\<close>)
  next
    case 4
    then obtain h speed lane where a: "busy = Some d" "st = L_WAIT_JOINER_TO_JOIN" "follows P L d (F @ [d]) (apps s d)"
      "channel s L d = []" "ms = []" "m = JoinFormationAck h speed lane (F @ [d])" "from_to P d L h" using ph m by auto
    have dF: "d \<notin> set F" using leads_busy(3) lead a(1) by blast
    have n: "ph' = Member" "F' = F @ [d]" "busy' = None" "st' = IDLE" using next_state 4 by simp_all
    obtain v' acts where v': "handleLowerMsg sc e m (apps s L) = Inr (v', acts)" "leads P L (F @ [d]) None IDLE v'"
      "\<forall>b. if b \<in> set (tl (F @ [d])) then \<exists>h1 speed' lane'. sentTo b acts = [UpdatePlatoonFormation h1 speed' lane' (F @ [d])] \<and> from_to P L b h1 else sentTo b acts = []"
      using leader_completes [OF lead [unfolded a(1,2)] a(7), of sc e speed lane] a(6) by blast
    have tl: "L \<notin> set (tl (F @ [d]))" "d \<in> set (tl (F @ [d]))" "set (tl (F @ [d])) \<subseteq> set (F @ [d])" using lf(5-7) d by (cases F; auto)+
    obtain h1 speed' lane' where u: "sentTo d acts = [UpdatePlatoonFormation h1 speed' lane' (F @ [d])]" "from_to P L d h1" using v'(3) tl(2) by metis
    have LL: "sentTo L acts = []" using v'(3) tl(1) by metis
    have none: "\<forall>b. b \<notin> set (F @ [d]) \<longrightarrow> sentTo b acts = []" using v'(3) tl(3) by (metis subsetD)
    have "list_all2 (update_of P L d (F @ [d])) [UpdatePlatoonFormation h1 speed' lane' (F @ [d])] [F @ [d]]" "\<exists>k. F @ [d] = take k (F @ [d])"
      "last ((F @ [d]) # [F @ [d]]) = F @ [d]" "d \<in> set (F @ [d])"
      using u(2) by (auto simp: update_of_def intro: exI [of _ "Suc (length F)"])
    then have pd: "in_phase ph' P L d F' busy' st' (apps s d) (channel s L d @ sentTo d acts) ms"
      unfolding in_phase.simps n using a u(1) by (intro conjI exI [of _ "F @ [d]"] exI [of _ "[F @ [d]]"]) simp_all
    have others: "in_phase p P L x F' busy' st' (apps s x) (channel s L x @ sentTo x acts) (channel s x L)"
      if x: "x \<noteq> L" "x \<noteq> d" and p: "in_phase p P L x F busy st (apps s x) (channel s L x) (channel s x L)" for x p
      unfolding n by (rule in_phase_grows [OF p _ _ x(2,1) lf(6,7,5) v'(3) [THEN spec]]) (use a(1) x(2) in auto)
    show ?thesis by (rule finish [OF v'(1) _ none LL pd others]) (use v'(2) n a(1) in simp_all)
  qed
qed

lemma fleet_step_inv:
  assumes sc: "good_scenario sc" and inv: "fleet_inv P L F busy st s" and step: "fleet_step sc P L s r"
  shows "\<exists>s' F' busy' st'. r = Inr s' \<and> fleet_inv P L F' busy' st' s' \<and> (F' = F \<or> (\<exists>d. busy = Some d \<and> F' = F @ [d]))"
  using step
proof cases
  case (starts d e)
  then show ?thesis using step_starts [OF inv starts(2), of e] by blast
next
  case (delivers a b m ms e)
  have ab: "a = L \<longleftrightarrow> b \<noteq> L" using inv delivers(2) unfolding fleet_inv_def by (metis list.distinct(1))
  show ?thesis
  proof (cases "a = L")
    case True
    then have b: "b \<noteq> L" "channel s L b = m # ms" using ab delivers(2) by simp_all
    obtain ph where ph: "in_phase ph P L b F busy st (apps s b) (channel s L b) (channel s b L)" using fleet_inv_phase [OF inv b(1)] .
    show ?thesis using step_to_vehicle [OF sc inv b ph, of e] delivers(1) True by blast
  next
    case False
    then have bL: "b = L" "channel s a L = m # ms" using ab delivers(2) by simp_all
    obtain ph where ph: "in_phase ph P L a F busy st (apps s a) (channel s L a) (channel s a L)" using fleet_inv_phase [OF inv False] .
    obtain ph' F' busy' st' where n: "leaderOnward ph a F busy st = (ph', F', busy', st')" by (metis prod_cases4)
    show ?thesis using step_to_leader [OF inv False bL(2) ph n, of sc e] delivers(1) bL(1) by blast
  qed
next
  case (hears d e pb)
  then show ?thesis using step_hears [OF sc inv, of d e pb] by blast
qed
section \<open>Joining is safe\<close>

text \<open>
  The start of the scenario (\<open>setupFormation\<close> and \<open>prepareManeuverCars\<close> of \<open>JoinManeuverScenario.cc\<close>,
  for any formation instead of the first four vehicles): the vehicles of \<open>F\<close> are given the formation and
  their roles; everyone else gets no role and keeps the position helper it has. What the helpers
  \<open>h0\<close> hold before is arbitrary, but for the identifier of the vehicle and, of the members, the platoon.
\<close>

definition initialFleet :: "int \<Rightarrow> int list \<Rightarrow> (int \<Rightarrow> position_helper) \<Rightarrow> controller \<Rightarrow> fleet" where
  "initialFleet P F h0 c =
     \<lparr>apps = (\<lambda>d. let name = ''vtype.'' @ int_to_string d in
        if d \<in> set F
        then initialApp (fst (projr (setPlatoonFormation F ((h0 d)\<lparr>myId := d, platoonId := P\<rparr>)))) name c
        else (initialApp ((h0 d)\<lparr>myId := d\<rparr>) name c)\<lparr>role := RoleNone\<rparr>),
      channel = (\<lambda>_ _. [])\<rparr>"

lemma initial_member:
  fixes P :: int and h0 :: "int \<Rightarrow> position_helper" and c :: controller
  assumes "distinct F" "n < length F" "F ! n = d"
  defines "v \<equiv> apps (initialFleet P F h0 c) d"
  shows "at_position F n (helper v)" "myId (helper v) = d" "platoonId (helper v) = P" "formation (helper v) = F"
    "role v = (if n = 0 then RoleLeader else RoleFollower)" "\<not> inManeuver v" "activeManeuver v = None"
    "manState (joinMan v) = IDLE" "manState (mergeMan v) = IDLE"
proof -
  have d: "d \<in> set F" using assms(2,3) nth_mem by blast
  obtain h ms where h: "setVariablesAfterFormationChange ((h0 d)\<lparr>myId := d, platoonId := P, formation := F\<rparr>) = Inr (h, ms)" "at_position F n h"
    "same_vehicle ((h0 d)\<lparr>myId := d, platoonId := P, formation := F\<rparr>) h"
    using setVariables_at_position [of "(h0 d)\<lparr>myId := d, platoonId := P, formation := F\<rparr>" n] assms by auto
  then have v: "v = initialApp h (''vtype.'' @ int_to_string d) c"
    using d by (simp add: v_def initialFleet_def setPlatoonFormation_def Let_def)
  have i: "myId h = d" "platoonId h = P" "formation h = F" using h(3) by (simp_all add: same_vehicle_def)
  then have "isLeader h \<longleftrightarrow> n = 0" using at_position_queries(1) [OF h(2) assms(1,2)] assms(3) by simp
  then show "at_position F n (helper v)" "myId (helper v) = d" "platoonId (helper v) = P" "formation (helper v) = F"
    "role v = (if n = 0 then RoleLeader else RoleFollower)" "\<not> inManeuver v" "activeManeuver v = None"
    "manState (joinMan v) = IDLE" "manState (mergeMan v) = IDLE"
    using h(2) i by (simp_all add: v initialApp_def)
qed

lemma initial_fleet_inv:
  assumes F: "distinct F" "F \<noteq> []"
  shows "fleet_inv P (hd F) F None IDLE (initialFleet P F h0 c)"
proof -
  have L: "F ! 0 = hd F" "0 < length F" using F(2) by (simp_all add: hd_conv_nth)
  show ?thesis
    unfolding fleet_inv_def
  proof (intro conjI allI impI)
    show "leads P (hd F) F None IDLE (apps (initialFleet P F h0 c) (hd F))"
      using initial_member [OF F(1) L(2,1), where P = P and c = c] F L by (simp add: leads_def)
  next
    fix d assume d: "d \<noteq> hd F"
    have ch: "channel (initialFleet P F h0 c) a b = []" for a b by (simp add: initialFleet_def)
    show "\<exists>ph. in_phase ph P (hd F) d F None IDLE (apps (initialFleet P F h0 c) d) (channel (initialFleet P F h0 c) (hd F) d) (channel (initialFleet P F h0 c) d (hd F))"
    proof (cases "d \<in> set F")
      case True
      then obtain n where n: "n < length F" "F ! n = d" by (auto simp: in_set_conv_nth)
      then have "0 < n" using d L by (cases n) auto
      then have "follows P (hd F) d F (apps (initialFleet P F h0 c) d)"
        using initial_member [OF F(1) n, where P = P and c = c] n L by (auto simp: follows_def resting_def)
      then have "in_phase Member P (hd F) d F None IDLE (apps (initialFleet P F h0 c) d) [] []"
        unfolding in_phase.simps using True by (intro conjI exI [of _ F] exI [of _ "[]"]) (auto intro: exI [of _ "length F"])
      then show ?thesis unfolding ch by blast
    next
      case False
      then have "in_phase Away P (hd F) d F None IDLE (apps (initialFleet P F h0 c) d) [] []"
        by (simp add: outside_def resting_def initialFleet_def initialApp_def Let_def)
      then show ?thesis unfolding ch by blast
    qed
  qed (simp add: initialFleet_def)
qed

lemma fleet_run_inv:
  assumes "good_scenario sc" "fleet_run sc P L s t" "fleet_inv P L F busy st s"
  shows "\<exists>js busy' st'. fleet_inv P L (F @ js) busy' st' t"
  using assms(2,3)
proof induction
  case (stays s)
  then show ?case by (intro exI [of _ "[]"]) auto
next
  case (goes s t u)
  from goes.IH [OF goes.prems] obtain js busy' st' where t: "fleet_inv P L (F @ js) busy' st' t" by blast
  obtain F' busy'' st'' where u: "fleet_inv P L F' busy'' st'' u" "F' = F @ js \<or> (\<exists>d. F' = (F @ js) @ [d])"
    using fleet_step_inv [OF assms(1) t goes.hyps(2)] by auto
  then consider "F' = F @ js" | d where "F' = F @ (js @ [d])" by auto
  then show ?case using u(1) by cases blast+
qed

lemma reachable_inv:
  assumes "good_scenario sc" "distinct F" "F \<noteq> []" "fleet_run sc P (hd F) (initialFleet P F h0 c) s"
  obtains js busy st where "fleet_inv P (hd F) (F @ js) busy st s"
  using fleet_run_inv [OF assms(1,4) initial_fleet_inv [OF assms(2,3)]] that by blast

definition being_admitted :: "platoon_app \<Rightarrow> bool" where
  "being_admitted v \<longleftrightarrow> manState (joinMan v) = J_WAIT_INFORMATION \<or> manState (joinMan v) = J_MOVE_IN_POSITION \<or> manState (joinMan v) = J_WAIT_JOIN"

lemma admitted_is_busy:
  assumes inv: "fleet_inv P L F busy st s" and d: "being_admitted (apps s d)"
  shows "busy = Some d"
proof -
  have "st = IDLE \<or> st = L_WAIT_JOINER_IN_POSITION \<or> st = L_WAIT_JOINER_TO_JOIN" "manState (joinMan (apps s L)) = st"
    using fleet_inv_leads [OF inv] by (auto simp: leads_def split: option.splits)
  then have "d \<noteq> L" using d by (auto simp: being_admitted_def)
  then obtain ph where "in_phase ph P L d F busy st (apps s d) (channel s L d) (channel s d L)" using fleet_inv_phase [OF inv] by metis
  then show ?thesis using d by (cases ph) (auto simp: being_admitted_def joiner_at_def resting_def follows_def)
qed

text \<open>A position helper that knows nothing, for the examples.\<close>

definition blankHelper :: "int \<Rightarrow> position_helper" where
  "blankHelper d = \<lparr>myId = d, leaderId = -1, frontId = -1, backId = -1, position = -1, platoonId = -1, platoonLane = -1, platoonSpeed = -1,
     formation = [], memberToPosition = Mapping.empty, helperDistance = 0, helperHeadway = 0\<rparr>"

text \<open>
  C4. Joining is safe, however many vehicles want to join at once, whatever beacons they hear and in
  whatever order messages of different vehicles arrive: no handler ever fails - no assertion, no null
  pointer, no index out of range - and the leader never lets in two vehicles at the same time.
\<close>

theorem joining_is_safe:
  assumes "good_scenario sc" "distinct F" "F \<noteq> []" and run: "fleet_run sc P (hd F) (initialFleet P F h0 c) s"
  shows "(\<forall>r. fleet_step sc P (hd F) s r \<longrightarrow> (\<exists>s'. r = Inr s'))
    \<and> (\<forall>d d'. being_admitted (apps s d) \<and> being_admitted (apps s d') \<longrightarrow> d = d')"
proof -
  obtain js busy st where inv: "fleet_inv P (hd F) (F @ js) busy st s" using reachable_inv [OF assms] .
  have "\<exists>s'. r = Inr s'" if "fleet_step sc P (hd F) s r" for r
    using fleet_step_inv [OF assms(1) inv that] by blast
  moreover have "d = d'" if "being_admitted (apps s d)" "being_admitted (apps s d')" for d d'
    using admitted_is_busy [OF inv] that by (metis option.inject)
  ultimately show ?thesis by blast
qed

lemma demo_scenario_good: "good_scenario demo_scenario"
  by (simp add: good_scenario_def demo_scenario_def)

lemma joining_is_safe_witness:
  "\<exists>s'. acted 4 (startJoinManeuver demo_surroundings 0 0 (apps (initialFleet 0 [0, 1, 2, 3] blankHelper CACC) 4)) (initialFleet 0 [0, 1, 2, 3] blankHelper CACC) = Inr s'"
proof -
  let ?s = "initialFleet 0 [0, 1, 2, 3] blankHelper CACC"
  have "distinct [0, 1, 2, 3 :: int]" "[0, 1, 2, 3 :: int] \<noteq> []" by simp_all
  note joining_is_safe [OF demo_scenario_good this, of 0 blankHelper CACC, simplified list.sel, OF fleet_run.stays]
  moreover have "fleet_step demo_scenario 0 0 ?s (acted 4 (startJoinManeuver demo_surroundings 0 0 (apps ?s 4)) ?s)"
    by (rule fleet_step.starts) (simp_all add: initialFleet_def initialApp_def Let_def)
  ultimately show ?thesis by blast
qed

section \<open>The formations agree\<close>

lemma member_formation:
  assumes inv: "fleet_inv P L F busy st s" and d: "d \<noteq> L" "role (apps s d) = RoleFollower"
  shows "(\<exists>k. formation (helper (apps s d)) = take k (F @ [d]))
    \<and> (channel s L d = [] \<and> channel s d L = [] \<longrightarrow> formation (helper (apps s d)) = F \<and> follows P L d F (apps s d))"
proof -
  note lf = leads_fields [OF fleet_inv_leads [OF inv]]
  obtain ph where ph: "in_phase ph P L d F busy st (apps s d) (channel s L d) (channel s d L)" using fleet_inv_phase [OF inv d(1)] .
  then consider "ph = Entering" | "ph = Member" using d(2) by (cases ph) (auto simp: joiner_at_def resting_def)
  then show ?thesis
  proof cases
    case 1
    then have a: "follows P L d (F @ [d]) (apps s d)" "channel s d L \<noteq> []" "busy = Some d" using ph by auto
    have "distinct (F @ [d])" using leads_busy(3) fleet_inv_leads [OF inv] a(3) lf(5) by auto
    then have "formation (helper (apps s d)) = take (Suc (length F)) (F @ [d])" using follows_fields(7) [OF a(1)] by simp
    then show ?thesis using a(2) by blast
  next
    case 2
    then obtain f us where a: "follows P L d f (apps s d)" "\<exists>k. f = take k F" "list_all2 (update_of P L d F) (channel s L d) us" "last (f # us) = F"
      using ph unfolding 2 in_phase.simps by blast
    then obtain k where k: "f = take k F" by blast
    have "formation (helper (apps s d)) = f" using follows_fields(7) [OF a(1)] k lf(5) by simp
    moreover have "f = take (min k (length F)) (F @ [d])" using k by (simp add: min_def)
    moreover have "f = F" if "channel s L d = []" using a(3,4) that by simp
    ultimately show ?thesis using a(1) by metis
  qed
qed

lemma member_role:
  assumes inv: "fleet_inv P L F busy st s" and d: "d \<noteq> L" "d \<in> set F"
  shows "role (apps s d) = RoleFollower"
proof -
  obtain ph where ph: "in_phase ph P L d F busy st (apps s d) (channel s L d) (channel s d L)" using fleet_inv_phase [OF inv d(1)] .
  have "busy \<noteq> Some d" using leads_busy(3) fleet_inv_leads [OF inv] d(2) by blast
  then have "ph = Member" using ph d(2) by (cases ph) (auto simp: outside_def)
  then show ?thesis using ph by (auto simp: follows_def resting_def)
qed

text \<open>
  C21. The formations agree. At any time the leader's formation is the original platoon followed by the
  vehicles that have joined, without repetition; what a follower believes is an initial part of it
  (or, while a message between the two is on the way, of it and the follower itself); all its members
  follow; and a follower with no message under way from or to the leader knows exactly the formation of
  the leader, and its own place and the vehicle in front of it. While messages are under way the two
  formations may differ.
\<close>

theorem formations_agree:
  assumes "good_scenario sc" "distinct F" "F \<noteq> []" and run: "fleet_run sc P (hd F) (initialFleet P F h0 c) s"
  shows "\<exists>js. formation (helper (apps s (hd F))) = F @ js \<and> distinct (F @ js)
    \<and> (\<forall>d \<in> set (F @ js). d \<noteq> hd F \<longrightarrow> role (apps s d) = RoleFollower)
    \<and> (\<forall>d. d \<noteq> hd F \<and> role (apps s d) = RoleFollower \<longrightarrow>
        (\<exists>k. formation (helper (apps s d)) = take k (F @ js @ [d]))
        \<and> (channel s (hd F) d = [] \<and> channel s d (hd F) = [] \<longrightarrow>
             (\<exists>n. 0 < n \<and> n < length (F @ js) \<and> (F @ js) ! n = d \<and> formation (helper (apps s d)) = F @ js
                \<and> position (helper (apps s d)) = int n \<and> getFrontId (helper (apps s d)) = (F @ js) ! (n - 1)
                \<and> leaderId (helper (apps s d)) = hd F \<and> platoonId (helper (apps s d)) = P)))"
proof -
  obtain js busy st where inv: "fleet_inv P (hd F) (F @ js) busy st s" using reachable_inv [OF assms] .
  note lf = leads_fields [OF fleet_inv_leads [OF inv]]
  have place: "\<exists>n. 0 < n \<and> n < length (F @ js) \<and> (F @ js) ! n = d \<and> formation (helper (apps s d)) = F @ js
      \<and> position (helper (apps s d)) = int n \<and> getFrontId (helper (apps s d)) = (F @ js) ! (n - 1)
      \<and> leaderId (helper (apps s d)) = hd F \<and> platoonId (helper (apps s d)) = P"
    if d: "d \<noteq> hd F" "role (apps s d) = RoleFollower" "channel s (hd F) d = []" "channel s d (hd F) = []" for d
  proof -
    have f: "follows P (hd F) d (F @ js) (apps s d)" using member_formation [OF inv d(1,2)] d(3,4) by blast
    note ff = follows_fields [OF f lf(5)]
    obtain n where n: "0 < n" "n < length (F @ js)" "(F @ js) ! n = d" "at_position (F @ js) n (helper (apps s d))"
      using f by (auto simp: follows_def)
    have "getFrontId (helper (apps s d)) = (F @ js) ! (n - 1)"
      using at_position_queries(3) [OF n(4) lf(5) n(2)] n(1,3) ff(4) by simp
    moreover have "position (helper (apps s d)) = int n" using n(4) by (simp add: at_position_def)
    ultimately show ?thesis using n ff by blast
  qed
  show ?thesis
    using lf(4,5) member_role [OF inv] member_formation [OF inv] place by (intro exI [of _ js]) auto
qed

lemma formations_agree_witness:
  "formation (helper (apps (initialFleet 0 [0, 1, 2, 3] blankHelper CACC) 2)) = [0, 1, 2, 3]
   \<and> getFrontId (helper (apps (initialFleet 0 [0, 1, 2, 3] blankHelper CACC) 2)) = 1"
proof -
  have F: "distinct [0, 1, 2, 3 :: int]" "[0, 1, 2, 3 :: int] \<noteq> []" by simp_all
  have "role (apps (initialFleet 0 [0, 1, 2, 3] blankHelper CACC) 2) = RoleFollower" "formation (helper (apps (initialFleet 0 [0, 1, 2, 3] blankHelper CACC) 0)) = [0, 1, 2, 3]"
    using initial_member [OF F(1), of 2 2 0 blankHelper CACC] initial_member [OF F(1), of 0 0 0 blankHelper CACC] by simp_all
  moreover have "channel (initialFleet 0 [0, 1, 2, 3] blankHelper CACC) a b = []" for a b by (simp add: initialFleet_def)
  ultimately have "\<exists>n < length [0, 1, 2, 3 :: int]. [0, 1, 2, 3] ! n = (2 :: int) \<and> formation (helper (apps (initialFleet 0 [0, 1, 2, 3] blankHelper CACC) 2)) = [0, 1, 2, 3]
    \<and> getFrontId (helper (apps (initialFleet 0 [0, 1, 2, 3] blankHelper CACC) 2)) = [0, 1, 2, 3] ! (n - 1)"
    using formations_agree [OF demo_scenario_good F, of 0 blankHelper CACC, simplified list.sel, OF fleet_run.stays]
    by - (elim exE conjE, drule spec [of _ "2 :: int"], drule mp, simp, drule conjunct2, drule mp, simp, auto)
  then obtain n where n: "n < length [0, 1, 2, 3 :: int]" "[0, 1, 2, 3] ! n = (2 :: int)" "formation (helper (apps (initialFleet 0 [0, 1, 2, 3] blankHelper CACC) 2)) = [0, 1, 2, 3]"
    "getFrontId (helper (apps (initialFleet 0 [0, 1, 2, 3] blankHelper CACC) 2)) = [0, 1, 2, 3] ! (n - 1)" by blast
  have "n = 2" using n(1,2) by (auto simp: nth_Cons' split: if_splits)
  then show ?thesis using n(3,4) by simp
qed
section \<open>A join completes\<close>

lemma fleet_run_trans: "fleet_run sc P L s t \<Longrightarrow> fleet_run sc P L t u \<Longrightarrow> fleet_run sc P L s u"
  by (rotate_tac, induction rule: fleet_run.induct) (auto intro: fleet_run.intros)

lemma sum_list_less:
  fixes f g :: "'a \<Rightarrow> nat"
  assumes "\<And>x. f x \<le> g x"
  shows "d \<in> set xs \<Longrightarrow> f d < g d \<Longrightarrow> sum_list (map f xs) < sum_list (map g xs)"
proof (induction xs)
  case (Cons a xs)
  have "sum_list (map f xs) \<le> sum_list (map g xs)" using assms by (intro sum_list_mono) simp
  then show ?case using Cons assms [of a] by (cases "a = d") auto
qed simp

text \<open>All messages to the members can be delivered.\<close>

lemma updates_drain:
  assumes sc: "good_scenario sc"
  shows "fleet_inv P L F None IDLE s \<Longrightarrow> (\<forall>x. x \<notin> set F \<longrightarrow> channel s L x = []) \<Longrightarrow>
    \<exists>t. fleet_run sc P L s t \<and> fleet_inv P L F None IDLE t \<and> (\<forall>x. channel t L x = [])"
proof (induction "sum_list (map (\<lambda>x. length (channel s L x)) F)" arbitrary: s rule: less_induct)
  case less
  show ?case
  proof (cases "\<exists>x \<in> set F. channel s L x \<noteq> []")
    case False
    then show ?thesis using less.prems fleet_run.stays by metis
  next
    case True
    then obtain d m ms where d: "d \<in> set F" "channel s L d = m # ms" by (metis list.exhaust)
    then have dL: "d \<noteq> L" using less.prems(1) unfolding fleet_inv_def by (metis list.distinct(1))
    obtain ph where ph: "in_phase ph P L d F None IDLE (apps s d) (channel s L d) (channel s d L)" using fleet_inv_phase [OF less.prems(1) dL] .
    obtain t where t: "acted d (handleLowerMsg sc demo_surroundings m (apps s d)) (takeMessage L d s) = Inr t" "fleet_inv P L F None IDLE t"
      "channel t L d = ms" "\<forall>x. x \<noteq> d \<longrightarrow> channel t L x = channel s L x"
      using step_to_vehicle [OF sc less.prems(1) dL d(2) ph] by blast
    have "sum_list (map (\<lambda>x. length (channel t L x)) F) < sum_list (map (\<lambda>x. length (channel s L x)) F)"
    proof (rule sum_list_less)
      fix x show "length (channel t L x) \<le> length (channel s L x)" using t(3,4) d(2) by (cases "x = d") simp_all
    qed (use d t(3) in auto)
    then obtain u where u: "fleet_run sc P L t u" "fleet_inv P L F None IDLE u" "\<forall>x. channel u L x = []"
      using less.hyps [of t] t(2-4) less.prems(2) d(1) by metis
    have "fleet_step sc P L s (Inr t)" using fleet_step.delivers [of s L d m ms sc P L demo_surroundings] d(2) t(1) by simp
    then have "fleet_run sc P L s t" by (rule fleet_run.goes [OF fleet_run.stays])
    then show ?thesis using fleet_run_trans u by blast
  qed
qed
text \<open>Vehicle \<open>d\<close> is in phase \<open>ph\<close>, and nothing is on its way to vehicles outside of the platoon.\<close>

definition on_track :: "phase \<Rightarrow> int \<Rightarrow> int \<Rightarrow> int \<Rightarrow> int list \<Rightarrow> int option \<Rightarrow> join_state \<Rightarrow> fleet \<Rightarrow> bool" where
  "on_track ph P L d F busy st s \<longleftrightarrow> d \<noteq> L \<and> fleet_inv P L F busy st s
     \<and> in_phase ph P L d F busy st (apps s d) (channel s L d) (channel s d L)
     \<and> (\<forall>x. x \<notin> set (F @ [d]) \<longrightarrow> channel s L x = [])"

lemma fleet_run_step: "fleet_run sc P L s t \<Longrightarrow> fleet_step sc P L t (Inr u) \<Longrightarrow> fleet_run sc P L s u"
  by (rule fleet_run.goes)

lemma track_vehicle:
  assumes sc: "good_scenario sc" and t: "on_track ph P L d F busy st s" "channel s L d = m # ms"
  shows "\<exists>u. fleet_step sc P L s (Inr u) \<and> on_track (onward ph) P L d F busy st u"
proof -
  have a: "fleet_inv P L F busy st s" "d \<noteq> L" "in_phase ph P L d F busy st (apps s d) (channel s L d) (channel s d L)"
    "\<forall>x. x \<notin> set (F @ [d]) \<longrightarrow> channel s L x = []" using t(1) unfolding on_track_def by blast+
  obtain u where u: "acted d (handleLowerMsg sc demo_surroundings m (apps s d)) (takeMessage L d s) = Inr u" "fleet_inv P L F busy st u"
    "\<forall>x. x \<noteq> d \<longrightarrow> channel u L x = channel s L x" "in_phase (onward ph) P L d F busy st (apps u d) (channel u L d) (channel u d L)"
    using step_to_vehicle [OF sc a(1,2) t(2) a(3), of demo_surroundings] by blast
  have "fleet_step sc P L s (Inr u)" using fleet_step.delivers [of s L d m ms sc P L demo_surroundings] t(2) u(1) by simp
  moreover have "on_track (onward ph) P L d F busy st u" unfolding on_track_def using u(2-4) a(2,4) by auto
  ultimately show ?thesis by blast
qed

lemma track_leader:
  assumes sc: "good_scenario sc" and t: "on_track ph P L d F busy st s" "channel s d L = m # ms"
    and n: "leaderOnward ph d F busy st = (ph', F', busy', st')"
  shows "\<exists>u. fleet_step sc P L s (Inr u) \<and> on_track ph' P L d F' busy' st' u"
proof -
  have a: "fleet_inv P L F busy st s" "d \<noteq> L" "in_phase ph P L d F busy st (apps s d) (channel s L d) (channel s d L)"
    "\<forall>x. x \<notin> set (F @ [d]) \<longrightarrow> channel s L x = []" using t(1) unfolding on_track_def by blast+
  obtain u where u: "acted L (handleLowerMsg sc demo_surroundings m (apps s L)) (takeMessage d L s) = Inr u" "fleet_inv P L F' busy' st' u"
    "in_phase ph' P L d F' busy' st' (apps u d) (channel u L d) (channel u d L)" "\<forall>x. x \<notin> set (F @ [d]) \<longrightarrow> channel u L x = channel s L x"
    "F' = F \<or> F' = F @ [d]"
    using step_to_leader [OF a(1,2) t(2) a(3) n, of sc demo_surroundings] by blast
  have "fleet_step sc P L s (Inr u)" using fleet_step.delivers [of s d L m ms sc P L demo_surroundings] t(2) u(1) by simp
  moreover have "on_track ph' P L d F' busy' st' u" unfolding on_track_def using u(2-5) a(2,4) by auto
  ultimately show ?thesis by blast
qed

lemma track_arrives:
  assumes sc: "good_scenario sc" and t: "on_track Approaching P L d F busy st s"
  shows "\<exists>u. fleet_step sc P L s (Inr u) \<and> on_track Arrived P L d F busy st u"
proof -
  have a: "fleet_inv P L F busy st s" "d \<noteq> L" "\<forall>x. x \<notin> set (F @ [d]) \<longrightarrow> channel s L x = []"
    and p: "busy = Some d" "st = L_WAIT_JOINER_IN_POSITION" "joiner_at P L d J_MOVE_IN_POSITION (apps s d)" "joiner_knows (F @ [d]) (apps s d)"
      "channel s L d = []" "channel s d L = []" using t unfolding on_track_def by auto
  note lf = leads_fields [OF fleet_inv_leads [OF a(1)]]
  obtain e pb v' acts h speed lane where v': "onPlatoonBeacon sc e pb (apps s d) = Inr (v', acts)" "\<forall>b. b \<noteq> L \<longrightarrow> sentTo b acts = []"
    "joiner_at P L d J_WAIT_JOIN v'" "joiner_knows (F @ [d]) v'" "sentTo L acts = [MoveToPositionAck h speed lane (F @ [d])]" "from_to P d L h"
    using approaching_arrives [OF sc p(3,4) lf(6,7)] by blast
  have ph: "in_phase Arrived P L d F busy st v' (channel s L d) (channel s d L @ sentTo L acts)" using p v' by auto
  obtain u where u: "acted d (Inr (v', acts)) s = Inr u" "fleet_inv P L F busy st u" "apps u = (apps s)(d := v')" "\<forall>x. x \<noteq> d \<longrightarrow> channel u L x = channel s L x"
    using vehicle_acts [OF a(1,2) v'(2) ph] by blast
  have "channel u L d = channel s L d" "channel u d L = channel s d L @ sentTo L acts"
    using u(1) a(2) by (auto simp: acted_def post_def)
  then have "on_track Arrived P L d F busy st u" unfolding on_track_def using u(2-4) ph a(2,3) by (auto simp del: in_phase.simps)
  moreover have "fleet_step sc P L s (Inr u)" using fleet_step.hears [of sc P L s d e pb] u(1) v'(1) by simp
  ultimately show ?thesis by blast
qed

lemma track_channel:
  assumes "on_track ph P L d F busy st s"
  shows "ph = Asked \<or> ph = Arrived \<or> ph = Entering \<Longrightarrow> \<exists>m ms. channel s d L = m # ms"
    "ph = Admitted \<or> ph = Informed \<or> ph = Called \<Longrightarrow> \<exists>m ms. channel s L d = m # ms"
  using assms by (cases ph; auto simp: on_track_def)+

lemma join_from:
  assumes sc: "good_scenario sc" and t: "on_track Away P L d F None IDLE s"
  shows "\<exists>u. fleet_run sc P L s u \<and> fleet_inv P L (F @ [d]) None IDLE u \<and> (\<forall>x. channel u L x = [])"
proof -
  have a: "fleet_inv P L F None IDLE s" "role (apps s d) = RoleNone" "\<not> inManeuver (apps s d)" "d \<noteq> L" "\<forall>x. x \<notin> set (F @ [d]) \<longrightarrow> channel s L x = []"
    using t by (auto simp: on_track_def resting_def)
  obtain s1 where s1: "acted d (startJoinManeuver demo_surroundings P L (apps s d)) s = Inr s1" "fleet_inv P L F None IDLE s1"
    "in_phase Asked P L d F None IDLE (apps s1 d) (channel s1 L d) (channel s1 d L)" "\<forall>x. x \<noteq> d \<longrightarrow> channel s1 L x = channel s L x"
    using step_starts [OF a(1,2), of demo_surroundings] by blast
  have r1: "fleet_run sc P L s s1" using fleet_step.starts [OF a(2,3), of sc P L demo_surroundings] s1(1) fleet_run.goes [OF fleet_run.stays] by simp
  have t1: "on_track Asked P L d F None IDLE s1" unfolding on_track_def using s1(2-4) a(4,5) by auto
  obtain s2 where r2: "fleet_run sc P L s s2" and t2: "on_track Admitted P L d F (Some d) L_WAIT_JOINER_IN_POSITION s2"
    using track_leader [OF sc t1] track_channel(1) [OF t1] fleet_run_step [OF r1] by force
  obtain s3 where r3: "fleet_run sc P L s s3" and t3: "on_track Informed P L d F (Some d) L_WAIT_JOINER_IN_POSITION s3"
    using track_vehicle [OF sc t2] track_channel(2) [OF t2] fleet_run_step [OF r2] by force
  obtain s4 where r4: "fleet_run sc P L s s4" and t4: "on_track Approaching P L d F (Some d) L_WAIT_JOINER_IN_POSITION s4"
    using track_vehicle [OF sc t3] track_channel(2) [OF t3] fleet_run_step [OF r3] by force
  obtain s5 where r5: "fleet_run sc P L s s5" and t5: "on_track Arrived P L d F (Some d) L_WAIT_JOINER_IN_POSITION s5"
    using track_arrives [OF sc t4] fleet_run_step [OF r4] by blast
  obtain s6 where r6: "fleet_run sc P L s s6" and t6: "on_track Called P L d F (Some d) L_WAIT_JOINER_TO_JOIN s6"
    using track_leader [OF sc t5] track_channel(1) [OF t5] fleet_run_step [OF r5] by force
  obtain s7 where r7: "fleet_run sc P L s s7" and t7: "on_track Entering P L d F (Some d) L_WAIT_JOINER_TO_JOIN s7"
    using track_vehicle [OF sc t6] track_channel(2) [OF t6] fleet_run_step [OF r6] by force
  obtain s8 where r8: "fleet_run sc P L s s8" and t8: "on_track Member P L d (F @ [d]) None IDLE s8"
    using track_leader [OF sc t7] track_channel(1) [OF t7] fleet_run_step [OF r7] by force
  have i8: "fleet_inv P L (F @ [d]) None IDLE s8" "\<forall>x. x \<notin> set (F @ [d]) \<longrightarrow> channel s8 L x = []" using t8 by (auto simp: on_track_def)
  show ?thesis using updates_drain [OF sc i8] fleet_run_trans [OF r8] by blast
qed

text \<open>
  C30. A join can always be completed: from any reachable state in which the leader is not busy and
  no message is under way, a vehicle outside gets into the platoon - it asks, approaches until a beacon
  shows that it is close enough, and joins - and then all members of the platoon, the new one at the
  end, know the new formation.
\<close>

theorem join_completes:
  assumes sc: "good_scenario sc" and F: "distinct F" "F \<noteq> []" and run: "fleet_run sc P (hd F) (initialFleet P F h0 c) s"
    and free: "\<not> inManeuver (apps s (hd F))" "\<forall>a b. channel s a b = []" and d: "role (apps s d) = RoleNone"
  shows "\<exists>t. fleet_run sc P (hd F) s t
    \<and> (let G = formation (helper (apps s (hd F))) @ [d] in
       \<forall>x \<in> set G. formation (helper (apps t x)) = G \<and> role (apps t x) = (if x = hd F then RoleLeader else RoleFollower))"
proof -
  let ?L = "hd F"
  obtain js busy st where inv: "fleet_inv P ?L (F @ js) busy st s" using reachable_inv [OF sc F run] .
  have b: "busy = None" using leads_busy(1) fleet_inv_leads [OF inv] free(1) by (cases busy) auto
  then have st: "st = IDLE" using leads_idle fleet_inv_leads [OF inv] by blast
  have dL: "d \<noteq> ?L" using leads_fields(1) [OF fleet_inv_leads [OF inv]] d by auto
  obtain ph where ph: "in_phase ph P ?L d (F @ js) busy st (apps s d) (channel s ?L d) (channel s d ?L)" using fleet_inv_phase [OF inv dL] .
  then have "ph = Away" using d by (cases ph) (auto simp: joiner_at_def follows_def resting_def)
  then have "on_track Away P ?L d (F @ js) None IDLE s" using ph inv dL free(2) b st by (auto simp: on_track_def)
  then obtain t where t: "fleet_run sc P ?L s t" "fleet_inv P ?L ((F @ js) @ [d]) None IDLE t" "\<forall>x. channel t ?L x = []"
    using join_from [OF sc] by blast
  note lf = leads_fields [OF fleet_inv_leads [OF t(2)]]
  have G: "formation (helper (apps s ?L)) @ [d] = (F @ js) @ [d]" using leads_fields(4) [OF fleet_inv_leads [OF inv]] by simp
  have "formation (helper (apps t x)) = (F @ js) @ [d] \<and> role (apps t x) = (if x = ?L then RoleLeader else RoleFollower)"
    if x: "x \<in> set ((F @ js) @ [d])" for x
  proof (cases "x = ?L")
    case True
    then show ?thesis using lf by simp
  next
    case False
    have r: "role (apps t x) = RoleFollower" by (rule member_role [OF t(2) False x])
    obtain p where p: "in_phase p P ?L x ((F @ js) @ [d]) None IDLE (apps t x) (channel t ?L x) (channel t x ?L)" using fleet_inv_phase [OF t(2) False] .
    then have "p = Member" using x by (cases p) (auto simp: outside_def)
    then have "channel t x ?L = []" using p by simp
    then show ?thesis using member_formation [OF t(2) False r] t(3) r False by simp
  qed
  then show ?thesis using t(1) unfolding G Let_def by blast
qed

lemma join_completes_witness:
  "\<exists>t. fleet_run demo_scenario 0 0 (initialFleet 0 [0, 1, 2, 3] blankHelper CACC) t
    \<and> formation (helper (apps t 2)) = [0, 1, 2, 3, 4] \<and> formation (helper (apps t 4)) = [0, 1, 2, 3, 4]"
proof -
  have F: "distinct [0, 1, 2, 3 :: int]" "[0, 1, 2, 3 :: int] \<noteq> []" by simp_all
  have L: "formation (helper (apps (initialFleet 0 [0, 1, 2, 3] blankHelper CACC) 0)) = [0, 1, 2, 3]" "\<not> inManeuver (apps (initialFleet 0 [0, 1, 2, 3] blankHelper CACC) 0)"
    using initial_member [OF F(1), of 0 0 0 blankHelper CACC] by simp_all
  have ch: "\<forall>a b. channel (initialFleet 0 [0, 1, 2, 3] blankHelper CACC) a b = []" "role (apps (initialFleet 0 [0, 1, 2, 3] blankHelper CACC) 4) = RoleNone"
    by (simp_all add: initialFleet_def Let_def)
  show ?thesis
    using join_completes [OF demo_scenario_good F, of 0 blankHelper CACC, simplified list.sel, OF fleet_run.stays L(2) ch] by (auto simp: L(1) Let_def)
qed
end
