(* ===== verification/JsonText.thy ===== *)
theory JsonText
  imports Prelude Complex_Main "HOL-Library.Char_ord" "HOL-Library.List_Lexorder"
begin

text \<open>
  The JSON values the gate schedule configurators build and read, and the text they write
  (\<open>printJson\<close> of \<open>cooperative_tsn/configurator/gatescheduling/TSNschedGrpcGateScheduleConfigurator.cc\<close>
  and of \<open>inet/linklayer/configurator/gatescheduling/common/TSNschedGateScheduleConfigurator.cc\<close>).

  \<^item> A \<open>cValueMap\<close> is a list of pairs, ordered by its keys as the \<open>std::map\<close> of the library is.
  \<^item> How the library writes a number or a string (\<open>cValue::str\<close>) is a parameter.
\<close>

section \<open>Values\<close>

datatype json =
    JBool bool
  | JInt int
  | JDouble real
  | JString string
  | JArray "json list"
  | JMap "(string \<times> json) list"

text \<open>\<open>cValueMap::set\<close> keeps the order of the keys and replaces what the key had.\<close>

fun mapSet :: "string \<Rightarrow> json \<Rightarrow> (string \<times> json) list \<Rightarrow> (string \<times> json) list" where
  "mapSet k v [] = [(k, v)]"
| "mapSet k v ((k', v') # m) =
     (if k < k' then (k, v) # (k', v') # m else if k = k' then (k, v) # m else (k', v') # mapSet k v m)"

text \<open>A map after the given calls of \<open>set\<close>.\<close>

definition mapOf :: "(string \<times> json) list \<Rightarrow> json" where
  "mapOf kvs = JMap (fold (\<lambda>(k, v). mapSet k v) kvs [])"

lemma mapSet_lookup: "map_of (mapSet k v m) k' = (if k' = k then Some v else map_of m k')"
  by (induction m) auto

lemma fold_mapSet_lookup:
  "map_of (fold (\<lambda>(k, v). mapSet k v) kvs m) k = (case map_of (List.rev kvs) k of Some v \<Rightarrow> Some v | None \<Rightarrow> map_of m k)"
proof (induction kvs arbitrary: m)
  case Nil
  then show ?case by simp
next
  case (Cons x kvs)
  then show ?case by (cases x) (auto simp: mapSet_lookup map_add_def split: option.splits)
qed

text \<open>Reading a value as what the code expects; anything else is an error of the library.\<close>

definition jsonField :: "string \<Rightarrow> json \<Rightarrow> json result" where
  "jsonField k j = (case j of
     JMap m \<Rightarrow> (case map_of m k of Some v \<Rightarrow> Inr v | None \<Rightarrow> Inl (RuntimeError ''no such field''))
   | _ \<Rightarrow> Inl (RuntimeError ''not an object''))"

definition jsonArray :: "json \<Rightarrow> json list result" where
  "jsonArray j = (case j of JArray xs \<Rightarrow> Inr xs | _ \<Rightarrow> Inl (RuntimeError ''not an array''))"

definition jsonString :: "json \<Rightarrow> string result" where
  "jsonString j = (case j of JString s \<Rightarrow> Inr s | _ \<Rightarrow> Inl (RuntimeError ''not a string''))"

definition jsonDouble :: "json \<Rightarrow> real result" where
  "jsonDouble j = (case j of JInt n \<Rightarrow> Inr (real_of_int n) | JDouble x \<Rightarrow> Inr x | _ \<Rightarrow> Inl (RuntimeError ''not a number''))"

definition jsonInt :: "json \<Rightarrow> int result" where
  "jsonInt j = (case j of JInt n \<Rightarrow> Inr n | _ \<Rightarrow> Inl (RuntimeError ''not an integer''))"

lemma jsonField_mapOf:
  "jsonField k (mapOf kvs) = (case map_of (List.rev kvs) k of Some v \<Rightarrow> Inr v | None \<Rightarrow> Inl (RuntimeError ''no such field''))"
  by (simp add: jsonField_def mapOf_def fold_mapSet_lookup split: option.splits)

section \<open>Writing\<close>

definition newline :: string where "newline = [CHR 0x0A]"
definition quote :: char where "quote = CHR 0x22"

definition indentTo :: "nat \<Rightarrow> string" where "indentTo level = replicate (level * 2) CHR '' ''"

text \<open>
  \<open>fieldText\<close> is what stands between the indentation and the value of a field: the gRPC configurator
  writes its name in quotes, the configurator of INET writes it as it is.
\<close>

definition quotedField :: "string \<Rightarrow> string" where
  "quotedField k = '' '' @ [quote] @ k @ [quote] @ '': ''"

definition bareField :: "string \<Rightarrow> string" where
  "bareField k = ''  '' @ k @ '': ''"

fun printJson :: "(json \<Rightarrow> string) \<Rightarrow> (string \<Rightarrow> string) \<Rightarrow> nat \<Rightarrow> json \<Rightarrow> string"
  and printElements :: "(json \<Rightarrow> string) \<Rightarrow> (string \<Rightarrow> string) \<Rightarrow> nat \<Rightarrow> json list \<Rightarrow> string"
  and printFields :: "(json \<Rightarrow> string) \<Rightarrow> (string \<Rightarrow> string) \<Rightarrow> nat \<Rightarrow> (string \<times> json) list \<Rightarrow> string" where
  "printJson leaf field level (JArray xs) =
     (if xs = [] then ''[]'' else ''['' @ newline @ printElements leaf field level xs @ newline @ indentTo level @ '']'')"
| "printJson leaf field level (JMap m) =
     (if m = [] then ''{}'' else ''{'' @ newline @ printFields leaf field level m @ newline @ indentTo level @ ''}'')"
| "printJson leaf field level j = leaf j"
| "printElements leaf field level [] = []"
| "printElements leaf field level (x # xs) =
     indentTo level @ ''  '' @ printJson leaf field (level + 1) x
     @ (if xs = [] then [] else '','' @ newline @ printElements leaf field level xs)"
| "printFields leaf field level [] = []"
| "printFields leaf field level ((k, v) # m) =
     indentTo level @ field k @ printJson leaf field (level + 1) v
     @ (if m = [] then [] else '','' @ newline @ printFields leaf field level m)"

section \<open>Reading, as JSON defines it\<close>

text \<open>
  A reader for JSON texts, the specification of the text. Numbers and strings are kept as they are
  written. \<open>n\<close> bounds the depth of the calls; the length of the text is always enough.
\<close>

datatype jtext = Atom string | Elements "jtext list" | Fields "(string \<times> jtext) list"

definition blank :: "char \<Rightarrow> bool" where "blank c \<longleftrightarrow> c = CHR '' '' \<or> c = CHR 0x0A"

definition skipBlanks :: "string \<Rightarrow> string" where "skipBlanks s = dropWhile blank s"

definition structural :: "char \<Rightarrow> bool" where
  "structural c \<longleftrightarrow> blank c \<or> c \<in> {CHR ''['', CHR '']'', CHR ''{'', CHR ''}'', CHR '','', CHR '':'', quote}"

text \<open>A string in quotes, without escapes, or a word of other characters.\<close>

definition readAtom :: "string \<Rightarrow> (string \<times> string) option" where
  "readAtom s = (case s of
     [] \<Rightarrow> None
   | c # r \<Rightarrow>
       if c = quote
       then (case dropWhile (\<lambda>x. x \<noteq> quote) r of [] \<Rightarrow> None | q # r' \<Rightarrow> Some (c # takeWhile (\<lambda>x. x \<noteq> quote) r @ [q], r'))
       else if structural c then None
       else Some (takeWhile (\<lambda>x. \<not> structural x) s, dropWhile (\<lambda>x. \<not> structural x) s))"

text \<open>The name of a field: a string in quotes and a colon.\<close>

definition readName :: "string \<Rightarrow> (string \<times> string) option" where
  "readName s = (case skipBlanks s of
     [] \<Rightarrow> None
   | c # r \<Rightarrow>
       if c \<noteq> quote then None
       else (case dropWhile (\<lambda>x. x \<noteq> quote) r of
               [] \<Rightarrow> None
             | q # r' \<Rightarrow> (case skipBlanks r' of
                 [] \<Rightarrow> None
               | d # r'' \<Rightarrow> if d = CHR '':'' then Some (takeWhile (\<lambda>x. x \<noteq> quote) r, r'') else None)))"

fun readValue :: "nat \<Rightarrow> string \<Rightarrow> (jtext \<times> string) option"
  and readElements :: "nat \<Rightarrow> string \<Rightarrow> (jtext list \<times> string) option"
  and readFields :: "nat \<Rightarrow> string \<Rightarrow> ((string \<times> jtext) list \<times> string) option" where
  "readValue 0 s = None"
| "readValue (Suc n) s = (case skipBlanks s of
     [] \<Rightarrow> None
   | c # r \<Rightarrow>
       if c = CHR ''['' then
         (case skipBlanks r of [] \<Rightarrow> None | d # r' \<Rightarrow>
            if d = CHR '']'' then Some (Elements [], r') else map_option (\<lambda>(xs, u). (Elements xs, u)) (readElements n r))
       else if c = CHR ''{'' then
         (case skipBlanks r of [] \<Rightarrow> None | d # r' \<Rightarrow>
            if d = CHR ''}'' then Some (Fields [], r') else map_option (\<lambda>(xs, u). (Fields xs, u)) (readFields n r))
       else map_option (\<lambda>(a, u). (Atom a, u)) (readAtom (c # r)))"
| "readElements 0 s = None"
| "readElements (Suc n) s = (case readValue n s of
     None \<Rightarrow> None
   | Some (x, u) \<Rightarrow> (case skipBlanks u of
       [] \<Rightarrow> None
     | c # r \<Rightarrow>
         if c = CHR '']'' then Some ([x], r)
         else if c = CHR '','' then map_option (\<lambda>(xs, w). (x # xs, w)) (readElements n r)
         else None))"
| "readFields 0 s = None"
| "readFields (Suc n) s = (case readName s of
     None \<Rightarrow> None
   | Some (k, t) \<Rightarrow> (case readValue n t of
       None \<Rightarrow> None
     | Some (x, u) \<Rightarrow> (case skipBlanks u of
         [] \<Rightarrow> None
       | c # r \<Rightarrow>
           if c = CHR ''}'' then Some ([(k, x)], r)
           else if c = CHR '','' then map_option (\<lambda>(xs, w). ((k, x) # xs, w)) (readFields n r)
           else None)))"

fun textOf :: "(json \<Rightarrow> string) \<Rightarrow> json \<Rightarrow> jtext" where
  "textOf leaf (JArray xs) = Elements (map (textOf leaf) xs)"
| "textOf leaf (JMap m) = Fields (map (\<lambda>(k, v). (k, textOf leaf v)) m)"
| "textOf leaf j = Atom (leaf j)"
section \<open>What is written can be read\<close>

definition goodAtom :: "string \<Rightarrow> bool" where
  "goodAtom a \<longleftrightarrow> (a \<noteq> [] \<and> list_all (\<lambda>c. \<not> structural c) a) \<or> (\<exists>b. a = quote # b @ [quote] \<and> quote \<notin> set b)"

fun goodJson :: "(json \<Rightarrow> string) \<Rightarrow> json \<Rightarrow> bool" where
  "goodJson leaf (JArray xs) = list_all (goodJson leaf) xs"
| "goodJson leaf (JMap m) = list_all (\<lambda>(k, v). quote \<notin> set k \<and> goodJson leaf v) m"
| "goodJson leaf j = goodAtom (leaf j)"

text \<open>The number of nested calls a value needs.\<close>

fun callsFor :: "json \<Rightarrow> nat" and callsForElements :: "json list \<Rightarrow> nat" and callsForFields :: "(string \<times> json) list \<Rightarrow> nat" where
  "callsFor (JArray xs) = Suc (callsForElements xs)"
| "callsFor (JMap m) = Suc (callsForFields m)"
| "callsFor j = 1"
| "callsForElements [] = 0"
| "callsForElements (x # xs) = Suc (max (callsFor x) (callsForElements xs))"
| "callsForFields [] = 0"
| "callsForFields ((k, v) # m) = Suc (max (callsFor v) (callsForFields m))"

definition ends :: "string \<Rightarrow> bool" where "ends s \<longleftrightarrow> (case s of [] \<Rightarrow> True | c # r \<Rightarrow> structural c)"

lemma char_facts [simp]:
  "blank CHR '' ''" "blank CHR 0x0A" "\<not> blank CHR ''[''" "\<not> blank CHR '']''" "\<not> blank CHR ''{''" "\<not> blank CHR ''}''" "\<not> blank CHR '',''"
  "\<not> blank CHR '':''" "\<not> blank quote" "structural CHR '']''" "structural CHR ''}''" "structural CHR '',''" "structural CHR 0x0A" "structural quote"
  "quote \<noteq> CHR ''[''" "quote \<noteq> CHR ''{''" "quote \<noteq> CHR '']''" "quote \<noteq> CHR ''}''"
  by (simp_all add: blank_def structural_def quote_def)

lemma skipBlanks_append [simp]: "list_all blank w \<Longrightarrow> skipBlanks (w @ s) = skipBlanks s"
  by (induction w) (simp_all add: skipBlanks_def)

lemma skipBlanks_start [simp]: "\<not> blank c \<Longrightarrow> skipBlanks (c # s) = c # s"
  by (simp add: skipBlanks_def)

lemma skipBlanks_blank [simp]: "blank c \<Longrightarrow> skipBlanks (c # s) = skipBlanks s" "skipBlanks [] = []"
  by (simp_all add: skipBlanks_def)

lemma blank_indent [simp]: "list_all blank (indentTo level)" "list_all blank newline"
  by (simp_all add: indentTo_def newline_def list_all_iff)

lemma not_structural: "\<not> structural c \<Longrightarrow> \<not> blank c \<and> c \<noteq> quote \<and> c \<noteq> CHR ''['' \<and> c \<noteq> CHR ''{'' \<and> c \<noteq> CHR '']'' \<and> c \<noteq> CHR ''}''"
  by (auto simp: structural_def)

lemma split_at_quote:
  assumes "quote \<notin> set b"
  shows "dropWhile (\<lambda>x. x \<noteq> quote) (b @ quote # s) = quote # s" "takeWhile (\<lambda>x. x \<noteq> quote) (b @ quote # s) = b"
  using assms by (induction b) auto

text \<open>An atom starts with a character that begins nothing else, and is read up to the next structural character.\<close>

lemma readAtom_good:
  assumes "goodAtom a" "ends s"
  shows "\<exists>c r. a @ s = c # r \<and> \<not> blank c \<and> c \<noteq> CHR ''['' \<and> c \<noteq> CHR ''{'' \<and> c \<noteq> CHR '']'' \<and> c \<noteq> CHR ''}'' \<and> readAtom (a @ s) = Some (a, s)"
  using assms(1) unfolding goodAtom_def
proof (elim disjE exE conjE)
  assume a: "a \<noteq> []" "list_all (\<lambda>c. \<not> structural c) a"
  then obtain c a' where c: "a = c # a'" "\<not> structural c" by (cases a) auto
  have t: "takeWhile (\<lambda>x. \<not> structural x) (a @ s) = a" "dropWhile (\<lambda>x. \<not> structural x) (a @ s) = s"
    using a(2) assms(2) by (cases s; simp add: ends_def list_all_iff)+
  show ?thesis using c t not_structural [OF c(2)] by (simp add: readAtom_def)
next
  fix b assume a: "a = quote # b @ [quote]" "quote \<notin> set b"
  show ?thesis using split_at_quote [OF a(2), of s] by (simp add: a(1) readAtom_def)
qed

lemma readName_quoted:
  assumes "quote \<notin> set k" "list_all blank w"
  shows "readName (w @ quotedField k @ s) = Some (k, '' '' @ s)"
proof -
  have "skipBlanks (w @ quotedField k @ s) = quote # k @ quote # '': '' @ s"
    using assms(2) by (simp add: quotedField_def)
  then show ?thesis using split_at_quote [OF assms(1)] by (simp add: readName_def)
qed

text \<open>Texts that end a list or an object.\<close>

definition closes :: "char \<Rightarrow> string \<Rightarrow> string \<Rightarrow> bool" where
  "closes c t rest \<longleftrightarrow> ends t \<and> skipBlanks t = c # rest"

lemma closes_line: "\<not> blank c \<Longrightarrow> closes c (newline @ indentTo level @ c # rest) rest"
  by (simp add: closes_def) (simp add: ends_def newline_def)

lemma read_value_list:
  "\<not> blank c \<Longrightarrow> list_all blank w \<Longrightarrow> readValue (Suc n) (w @ c # r) = (if c = CHR ''['' then
      (case skipBlanks r of [] \<Rightarrow> None | d # r' \<Rightarrow>
         if d = CHR '']'' then Some (Elements [], r') else map_option (\<lambda>(xs, u). (Elements xs, u)) (readElements n r))
     else if c = CHR ''{'' then
      (case skipBlanks r of [] \<Rightarrow> None | d # r' \<Rightarrow>
         if d = CHR ''}'' then Some (Fields [], r') else map_option (\<lambda>(xs, u). (Fields xs, u)) (readFields n r))
     else map_option (\<lambda>(a, u). (Atom a, u)) (readAtom (c # r)))"
  by simp

lemma printed_start:
  assumes "goodJson leaf j"
  shows "\<exists>c r. printJson leaf field level j = c # r \<and> \<not> blank c \<and> c \<noteq> CHR '']'' \<and> c \<noteq> CHR ''}''"
proof -
  have "\<exists>c r. a = c # r \<and> \<not> blank c \<and> c \<noteq> CHR '']'' \<and> c \<noteq> CHR ''}''" if "goodAtom a" for a
    using readAtom_good [OF that, of "[]"] by (auto simp: ends_def)
  then show ?thesis using assms by (cases j) auto
qed

lemma atom_read:
  assumes "goodAtom a" "Suc 0 \<le> n" "ends rest" "list_all blank w"
  shows "readValue n (w @ a @ rest) = Some (Atom a, rest)"
proof -
  obtain c r where c: "a @ rest = c # r" "\<not> blank c" "c \<noteq> CHR ''[''" "c \<noteq> CHR ''{''" "readAtom (a @ rest) = Some (a, rest)"
    using readAtom_good [OF assms(1,3)] by blast
  obtain n' where "n = Suc n'" using assms(2) by (cases n) auto
  then show ?thesis using read_value_list [OF c(2) assms(4), of n' r] c by simp
qed

lemma print_read:
  "goodJson leaf j \<Longrightarrow> callsFor j \<le> n \<Longrightarrow> ends rest \<Longrightarrow> list_all blank w \<Longrightarrow>
     readValue n (w @ printJson leaf quotedField level j @ rest) = Some (textOf leaf j, rest)"
  "xs \<noteq> [] \<Longrightarrow> list_all (goodJson leaf) xs \<Longrightarrow> callsForElements xs \<le> n \<Longrightarrow> closes CHR '']'' t rest \<Longrightarrow> list_all blank w \<Longrightarrow>
     readElements n (w @ printElements leaf quotedField level xs @ t) = Some (map (textOf leaf) xs, rest)"
  "m \<noteq> [] \<Longrightarrow> list_all (\<lambda>(k, v). quote \<notin> set k \<and> goodJson leaf v) m \<Longrightarrow> callsForFields m \<le> n \<Longrightarrow> closes CHR ''}'' t rest \<Longrightarrow> list_all blank w \<Longrightarrow>
     readFields n (w @ printFields leaf quotedField level m @ t) = Some (map (\<lambda>(k, v). (k, textOf leaf v)) m, rest)"
proof (induction j and xs and m arbitrary: n rest w level and n t rest w level and n t rest w level
    rule: callsFor_callsForElements_callsForFields.induct)
  case (1 xs)
  then obtain n' where n: "n = Suc n'" by (cases n) auto
  show ?case
  proof (cases "xs = []")
    case True
    then show ?thesis using 1(5) n by simp
  next
    case False
    let ?t = "newline @ indentTo level @ CHR '']'' # rest"
    have r: "readElements n' (newline @ printElements leaf quotedField level xs @ ?t) = Some (map (textOf leaf) xs, rest)"
      using False 1 n by (intro 1(1) closes_line) simp_all
    obtain x ys where xs: "xs = x # ys" using False by (cases xs) auto
    obtain c r' where c: "printJson leaf quotedField (level + 1) x = c # r'" "\<not> blank c" "c \<noteq> CHR '']''"
      using printed_start [of leaf x quotedField "level + 1"] 1(2) xs by auto
    have "\<exists>u. skipBlanks (newline @ printElements leaf quotedField level xs @ ?t) = c # u"
      using c by (simp add: xs)
    then show ?thesis using r n False 1(5) c(3) by auto
  qed
next
  case (2 m)
  then obtain n' where n: "n = Suc n'" by (cases n) auto
  show ?case
  proof (cases "m = []")
    case True
    then show ?thesis using 2(5) n by simp
  next
    case False
    let ?t = "newline @ indentTo level @ CHR ''}'' # rest"
    have r: "readFields n' (newline @ printFields leaf quotedField level m @ ?t) = Some (map (\<lambda>(k, v). (k, textOf leaf v)) m, rest)"
      using False 2 n by (intro 2(1) closes_line) simp_all
    obtain k v ms where m: "m = (k, v) # ms" using False by (cases m) auto
    have "\<exists>u. skipBlanks (newline @ printFields leaf quotedField level m @ ?t) = quote # u"
      by (simp add: m quotedField_def)
    then show ?thesis using r n False 2(5) by auto
  qed
next
  case (5 x xs)
  then obtain n' where n: "n = Suc n'" by (cases n) auto
  let ?u = "if xs = [] then t else '','' @ newline @ printElements leaf quotedField level xs @ t"
  have u: "ends ?u" using 5(6) by (simp add: closes_def ends_def)
  have "readValue n' ((w @ indentTo level @ ''  '') @ printJson leaf quotedField (level + 1) x @ ?u) = Some (textOf leaf x, ?u)"
    using 5 n by (intro 5(1) u) simp_all
  then have v: "readValue n' (w @ printElements leaf quotedField level (x # xs) @ t) = Some (textOf leaf x, ?u)"
    by (cases "xs = []") simp_all
  show ?case
  proof (cases "xs = []")
    case True
    then show ?thesis using v 5(6) n by (simp add: closes_def)
  next
    case False
    have "readElements n' (newline @ printElements leaf quotedField level xs @ t) = Some (map (textOf leaf) xs, rest)"
      using 5 n False by (intro 5(2)) simp_all
    then show ?thesis using v False n by simp
  qed
next
  case (7 k v m)
  then obtain n' where n: "n = Suc n'" by (cases n) auto
  let ?u = "if m = [] then t else '','' @ newline @ printFields leaf quotedField level m @ t"
  have u: "ends ?u" using 7(6) by (simp add: closes_def ends_def)
  have k: "readName (w @ printFields leaf quotedField level ((k, v) # m) @ t) = Some (k, '' '' @ printJson leaf quotedField (level + 1) v @ ?u)"
    using readName_quoted [of k "w @ indentTo level" "printJson leaf quotedField (level + 1) v @ ?u"] 7(4,7) by (cases "m = []") simp_all
  have v: "readValue n' ('' '' @ printJson leaf quotedField (level + 1) v @ ?u) = Some (textOf leaf v, ?u)"
    using 7 n by (intro 7(1) u) simp_all
  show ?case
  proof (cases "m = []")
    case True
    then show ?thesis using k v 7(6) n by (simp add: closes_def)
  next
    case False
    have "readFields n' (newline @ printFields leaf quotedField level m @ t) = Some (map (\<lambda>(k, v). (k, textOf leaf v)) m, rest)"
      using 7 n False by (intro 7(2)) simp_all
    then show ?thesis using k v False n by simp
  qed
qed (simp_all add: atom_read)
lemma calls_bound:
  "goodJson leaf j \<Longrightarrow> callsFor j \<le> length (printJson leaf quotedField level j)"
  "list_all (goodJson leaf) xs \<Longrightarrow> callsForElements xs \<le> length (printElements leaf quotedField level xs)"
  "list_all (\<lambda>(k, v). quote \<notin> set k \<and> goodJson leaf v) m \<Longrightarrow> callsForFields m \<le> length (printFields leaf quotedField level m)"
proof (induction j and xs and m arbitrary: level and level and level rule: callsFor_callsForElements_callsForFields.induct)
  case (1 xs)
  have "xs \<noteq> [] \<Longrightarrow> callsForElements xs \<le> length (printElements leaf quotedField level xs)" using 1 by simp
  then show ?case by (cases "xs = []") (auto simp: newline_def intro: le_trans)
next
  case (2 m)
  have "m \<noteq> [] \<Longrightarrow> callsForFields m \<le> length (printFields leaf quotedField level m)" using 2 by simp
  then show ?case by (cases "m = []") (auto simp: newline_def intro: le_trans)
next
  case (5 x xs)
  have "callsFor x \<le> length (printJson leaf quotedField (level + 1) x)" "callsForElements xs \<le> length (printElements leaf quotedField level xs)"
    using 5 by simp_all
  then show ?case by (cases "xs = []") simp_all
next
  case (7 k v m)
  have "callsFor v \<le> length (printJson leaf quotedField (level + 1) v)" "callsForFields m \<le> length (printFields leaf quotedField level m)"
    using 7 by simp_all
  moreover have "1 \<le> length (quotedField k)" unfolding quotedField_def by simp
  ultimately show ?case by (cases "m = []") (simp_all del: One_nat_def length_greater_0_conv, linarith?)
qed (auto simp: goodAtom_def Suc_le_eq)

text \<open>
  What the gRPC configurator writes is JSON, and it is the value it built: a JSON reader that gets
  the text finds the same lists, objects and field names, with every number and string as the library
  writes it - provided the library writes words without structural characters or strings in quotes.
\<close>

theorem printed_json_can_be_read:
  assumes "goodJson leaf j"
  shows "readValue (length (printJson leaf quotedField 0 j)) (printJson leaf quotedField 0 j) = Some (textOf leaf j, [])"
  using print_read(1) [OF assms calls_bound(1) [OF assms, of 0], of "[]" "[]" 0] by (simp add: ends_def)

definition demo_leaf :: "json \<Rightarrow> string" where
  "demo_leaf j = (case j of JInt n \<Rightarrow> int_to_string n | JString s \<Rightarrow> quote # s @ [quote] | JBool b \<Rightarrow> (if b then ''true'' else ''false'') | _ \<Rightarrow> ''0.0'')"

definition demo_json :: json where
  "demo_json = mapOf [(''switches'', JArray [mapOf [(''name'', JString ''switch1''), (''ports'', JArray [])]]), (''devices'', JArray [JInt 7, JInt 12])]"

lemma printed_json_can_be_read_witness:
  "readValue (length (printJson demo_leaf quotedField 0 demo_json)) (printJson demo_leaf quotedField 0 demo_json) = Some (textOf demo_leaf demo_json, [])"
proof (rule printed_json_can_be_read)
  have "goodAtom (demo_leaf (JInt 7))" unfolding goodAtom_def by (rule disjI1) code_simp
  moreover have "goodAtom (demo_leaf (JInt 12))" unfolding goodAtom_def by (rule disjI1) code_simp
  moreover have "goodAtom (demo_leaf (JString ''switch1''))"
    unfolding goodAtom_def by (rule disjI2, rule exI [of _ "''switch1''"]) (simp add: demo_leaf_def quote_def)
  moreover have j: "demo_json = JMap [(''devices'', JArray [JInt 7, JInt 12]), (''switches'', JArray [JMap [(''name'', JString ''switch1''), (''ports'', JArray [])]])]"
    by code_simp
  ultimately show "goodJson demo_leaf demo_json" unfolding j by (simp add: quote_def)
qed

text \<open>
  What the configurator of INET writes is not JSON as soon as there is an object with a field, as
  there always is: field names stand there without quotes.
\<close>

theorem bare_fields_are_no_json:
  assumes "k \<noteq> []" "\<not> blank (hd k)" "hd k \<noteq> quote" "hd k \<noteq> CHR ''}''"
  shows "readValue n (printJson leaf bareField 0 (JMap ((k, v) # m))) = None"
proof -
  obtain c k' where k: "k = c # k'" using assms(1) by (cases k) auto
  define s where "s = printFields leaf bareField 0 ((k, v) # m) @ newline @ indentTo 0 @ ''}''"
  have "\<exists>u. skipBlanks (newline @ s) = c # u" using assms k by (simp add: s_def bareField_def)
  then obtain u where u: "skipBlanks (newline @ s) = c # u" by blast
  have f: "readFields i (newline @ s) = None" for i using u assms k by (cases i) (simp_all add: readName_def)
  have p: "printJson leaf bareField 0 (JMap ((k, v) # m)) = CHR ''{'' # newline @ s" by (simp add: s_def)
  show ?thesis unfolding p using u f assms k by (cases n) simp_all
qed

lemma bare_fields_are_no_json_witness: "readValue 100 (printJson demo_leaf bareField 0 (JMap [(''devices'', JArray [])])) = None"
  by (rule bare_fields_are_no_json) (simp_all add: quote_def blank_def)

end
