(* ===== verification/TsnSched.thy ===== *)
theory TsnSched
  imports JsonText GateScheduleInput
begin

text \<open>
  The configurators that leave the schedule to the external program TSNsched:
  \<open>TSNschedGrpcGateScheduleConfigurator\<close>
  (\<open>cooperative_tsn/configurator/gatescheduling\<close>), which the simulations of this repository use, and
  \<open>TSNschedGateScheduleConfigurator\<close> (\<open>inet/linklayer/configurator/gatescheduling/common\<close>), from which it
  inherits the way the answer is read. The input of the scheduler is written as JSON
  (\<open>convertInputToJson\<close>), the answer is turned into gate schedules and application start times
  (\<open>convertJsonToOutput\<close>).

  \<^item> \<open>nameOf\<close> is the full name of a module, \<open>toTime\<close> the conversion of a number of seconds to simulation
    time, \<open>timeStr\<close> the text of a simulation time (\<open>SimTime::str\<close>).
  \<^item> The scheduler, with the files and the JSON reader of the simulation library, is a parameter.
  \<^item> Doubles are reals. An application is known by its module.
\<close>

section \<open>The input of the scheduler\<close>

text \<open>An entry of the configuration may ask for a start time, in seconds.\<close>

record sched_entry = flow_entry +
  entStartTime :: "real option"

text \<open>\<open>t.dbl() * 1000000\<close>\<close>

definition micros :: "simtime \<Rightarrow> real" where "micros t = real_of_int t / 1000000000000 * 1000000"

definition nodePorts :: "gsc_input \<Rightarrow> module \<Rightarrow> in_port list" where
  "nodePorts inp m = (case find (\<lambda>n. nnModule n = m) (networkNodes inp) of None \<Rightarrow> [] | Some n \<Rightarrow> nnPorts n)"

definition deviceJson :: "(module \<Rightarrow> string) \<Rightarrow> module \<Rightarrow> json" where
  "deviceJson nameOf d = mapOf [(''name'', JString (nameOf d))]"

text \<open>The name of a port is made unique with the name of its node.\<close>

definition portJsonName :: "(module \<Rightarrow> string) \<Rightarrow> in_port \<Rightarrow> string" where
  "portJsonName nameOf p = nameOf (startNode p) @ ''-'' @ nameOf (portModule p)"

definition portJson :: "(module \<Rightarrow> string) \<Rightarrow> simtime \<Rightarrow> in_port \<Rightarrow> json result" where
  "portJson nameOf gateCycle p =
     (case endNode p of None \<Rightarrow> Inl NullPointer
      | Some e \<Rightarrow> Inr (mapOf
          [(''name'', JString (portJsonName nameOf p)),
           (''connectsTo'', JString (nameOf e)),
           (''timeToTravel'', JDouble (micros (propagationTime p))),
           (''timeToTravelUnit'', JString ''us''),
           (''portSpeed'', JDouble (portDatarate p / 1000000)),
           (''portSpeedSizeUnit'', JString ''bit''),
           (''portSpeedTimeUnit'', JString ''us''),
           (''scheduleType'', JString ''Hypercycle''),
           (''cycleStart'', JInt 0),
           (''cycleStartUnit'', JString ''us''),
           (''maximumSlotDuration'', JDouble (micros gateCycle)),
           (''maximumSlotDurationUnit'', JString ''us'')]))"

definition switchJson :: "(module \<Rightarrow> string) \<Rightarrow> simtime \<Rightarrow> gsc_input \<Rightarrow> module \<Rightarrow> json result" where
  "switchJson nameOf gateCycle inp s =
     rbind (mapM (portJson nameOf gateCycle) (nodePorts inp s)) (\<lambda>ports.
       Inr (mapOf [(''name'', JString (nameOf s)), (''ports'', JArray ports)]))"

text \<open>
  The start time the configuration asks for, from the last entry with the name of the flow. An entry
  without a name gets one of a string that is destroyed before it is compared; what the comparison then
  reads is given by \<open>dangling\<close>.
\<close>

definition nextRequest ::
    "(real \<Rightarrow> simtime) \<Rightarrow> (nat \<Rightarrow> string) \<Rightarrow> string \<Rightarrow> sched_entry \<Rightarrow> simtime \<times> nat \<Rightarrow> simtime \<times> nat" where
  "nextRequest toTime dangling name e = (\<lambda>(t, flowIndex).
     let (n, flowIndex') = (case entName e of Some n \<Rightarrow> (n, flowIndex) | None \<Rightarrow> (dangling flowIndex, flowIndex + 1))
     in (if n = name then toTime (case entStartTime e of Some x \<Rightarrow> x | None \<Rightarrow> - 1) else t, flowIndex'))"

definition requestedStart :: "(real \<Rightarrow> simtime) \<Rightarrow> (nat \<Rightarrow> string) \<Rightarrow> sched_entry list \<Rightarrow> string \<Rightarrow> simtime" where
  "requestedStart toTime dangling conf name = fst (fold (nextRequest toTime dangling name) conf (- simtime_s 1, 0))"

text \<open>The hops of a path; \<open>size() - 1\<close> of an empty path is a huge unsigned number.\<close>

definition hopJson :: "(module \<Rightarrow> string) \<Rightarrow> module \<times> module \<Rightarrow> json" where
  "hopJson nameOf = (\<lambda>(a, b). mapOf [(''currentNodeName'', JString (nameOf a)), (''nextNodeName'', JString (nameOf b))])"

definition fragmentHops :: "(module \<Rightarrow> string) \<Rightarrow> path_fragment \<Rightarrow> json list result" where
  "fragmentHops nameOf f =
     (if fragNodes f = [] then Inl OutOfRange
      else Inr (map (hopJson nameOf) (zip (fragNodes f) (tl (fragNodes f)))))"

text \<open>The fields that bound the latency, in the version of this repository and in the one of INET.\<close>

definition requestFields :: "(real \<Rightarrow> simtime) \<Rightarrow> (simtime \<Rightarrow> string) \<Rightarrow> (nat \<Rightarrow> string) \<Rightarrow> sched_entry list \<Rightarrow> in_flow \<Rightarrow> (string \<times> json) list" where
  "requestFields toTime timeStr dangling conf f =
     (let t = requestedStart toTime dangling conf (flowName f)
      in if 0 < t
         then [(''hardConstraintTime'', JInt 100), (''hardConstraintTimeUnit'', JString ''us''),
               (''firstSendingTime'', JString (timeStr t)), (''firstSendingTimeUnit'', JString ''s'')]
         else [(''hardConstraintTime'', JInt 2000), (''hardConstraintTimeUnit'', JString ''us'')])"

definition latencyFields :: "in_flow \<Rightarrow> (string \<times> json) list" where
  "latencyFields f =
     [(''hardConstraintTime'', JDouble (micros (appMaxLatency (startApplication f)))), (''hardConstraintTimeUnit'', JString ''us'')]"

definition flowJson :: "(module \<Rightarrow> string) \<Rightarrow> (in_flow \<Rightarrow> (string \<times> json) list) \<Rightarrow> in_flow \<Rightarrow> json result" where
  "flowJson nameOf bound f =
     rbind (mapM (fragmentHops nameOf) (flowPaths f)) (\<lambda>hops.
       Inr (mapOf
         ([(''name'', JString (flowName f)),
           (''type'', JString ''unicast''),
           (''sourceDevice'', JString (nameOf (appDevice (startApplication f)))),
           (''fixedPriority'', JString ''true''),
           (''priorityValue'', JInt (gateOf f)),
           (''packetPeriodicity'', JDouble (micros (appPacketInterval (startApplication f)))),
           (''packetPeriodicityUnit'', JString ''us''),
           (''packetSize'', JInt (appPacketLength (startApplication f))),
           (''packetSizeUnit'', JString ''bit'')]
          @ bound f
          @ [(''endDevices'', JArray [JString (nameOf (endDevice f))]),
             (''hops'', JArray (concat hops))])))"

definition inputJson :: "(module \<Rightarrow> string) \<Rightarrow> (in_flow \<Rightarrow> (string \<times> json) list) \<Rightarrow> simtime \<Rightarrow> gsc_input \<Rightarrow> json result" where
  "inputJson nameOf bound gateCycle inp =
     rbind (mapM (switchJson nameOf gateCycle inp) (inSwitches inp)) (\<lambda>switches.
     rbind (mapM (flowJson nameOf bound) (inFlows inp)) (\<lambda>flows.
       Inr (mapOf [(''devices'', JArray (map (deviceJson nameOf) (inDevices inp))),
                   (''switches'', JArray switches), (''flows'', JArray flows)])))"

definition convertInputToJson ::
    "(real \<Rightarrow> simtime) \<Rightarrow> (simtime \<Rightarrow> string) \<Rightarrow> (nat \<Rightarrow> string) \<Rightarrow> (module \<Rightarrow> string) \<Rightarrow> sched_entry list \<Rightarrow> simtime \<Rightarrow> gsc_input \<Rightarrow> json result" where
  "convertInputToJson toTime timeStr dangling nameOf conf gateCycle inp =
     inputJson nameOf (requestFields toTime timeStr dangling conf) gateCycle inp"

definition inetConvertInputToJson :: "(module \<Rightarrow> string) \<Rightarrow> simtime \<Rightarrow> gsc_input \<Rightarrow> json result" where
  "inetConvertInputToJson nameOf gateCycle inp = inputJson nameOf latencyFields gateCycle inp"

section \<open>The answer of the scheduler\<close>

definition getSwitch :: "(module \<Rightarrow> string) \<Rightarrow> gsc_input \<Rightarrow> string \<Rightarrow> module result" where
  "getSwitch nameOf inp name =
     (case find (\<lambda>s. nameOf s = name) (inSwitches inp) of
        None \<Rightarrow> Inl (RuntimeError (''Cannot find switch: '' @ name)) | Some s \<Rightarrow> Inr s)"

text \<open>\<open>portName.substr(portName.find('-') + 1)\<close>: the whole name when there is no dash.\<close>

definition afterDash :: "string \<Rightarrow> string" where
  "afterDash s = (case string_find s ''-'' of None \<Rightarrow> s | Some k \<Rightarrow> drop (k + 1) s)"

definition getSwitchPort :: "(module \<Rightarrow> string) \<Rightarrow> gsc_input \<Rightarrow> module \<Rightarrow> string \<Rightarrow> in_port result" where
  "getSwitchPort nameOf inp s name =
     (case find (\<lambda>p. startNode p = s \<and> nameOf (portModule p) = afterDash name) (nodePorts inp s) of
        None \<Rightarrow> Inl (RuntimeError (''Cannot find port: '' @ afterDash name)) | Some p \<Rightarrow> Inr p)"

definition doubleField :: "string \<Rightarrow> json \<Rightarrow> real result" where
  "doubleField k j = rbind (jsonField k j) jsonDouble"

definition arrayField :: "string \<Rightarrow> json \<Rightarrow> json list result" where
  "arrayField k j = rbind (jsonField k j) jsonArray"

definition stringField :: "string \<Rightarrow> json \<Rightarrow> string result" where
  "stringField k j = rbind (jsonField k j) jsonString"

text \<open>A slot of length zero is left out.\<close>

definition addJsonSlot :: "(real \<Rightarrow> simtime) \<Rightarrow> slot list \<Rightarrow> json \<Rightarrow> slot list result" where
  "addJsonSlot toTime acc j =
     rbind (doubleField ''slotStart'' j) (\<lambda>start.
     rbind (doubleField ''slotDuration'' j) (\<lambda>dur.
       if toTime (dur / 1000000) = 0 then Inr acc
       else Inr (acc @ [\<lparr>slotStart = toTime (start / 1000000), slotDuration = toTime (dur / 1000000)\<rparr>])))"

definition addPrioritySlots :: "(real \<Rightarrow> simtime) \<Rightarrow> nat \<Rightarrow> slot list \<Rightarrow> json \<Rightarrow> slot list result" where
  "addPrioritySlots toTime gi acc j =
     rbind (rbind (jsonField ''priority'' j) jsonInt) (\<lambda>prio.
       if int gi = prio
       then rbind (arrayField ''slotsData'' j) (foldM (addJsonSlot toTime) acc)
       else Inr acc)"

text \<open>
  The schedule of a gate. The sort of the library is stable; \<open>std::sort\<close> leaves the order of slots
  with the same start open.
\<close>

definition gateScheduleFrom :: "(real \<Rightarrow> simtime) \<Rightarrow> in_port \<Rightarrow> json \<Rightarrow> nat \<Rightarrow> gate_schedule result" where
  "gateScheduleFrom toTime p j gi =
     rbind (doubleField ''cycleDuration'' j) (\<lambda>cyc.
     rbind (arrayField ''prioritySlotsData'' j) (\<lambda>prios.
     rbind (foldM (addPrioritySlots toTime gi) [] prios) (\<lambda>ss.
       Inr \<lparr>schedPort = portModule p, schedGateIndex = gi, cycleStart = - simtime_s 1,
            cycleDuration = toTime (cyc / 1000000), slots = sort_key slotStart ss, schedOpen = True\<rparr>)))"

type_synonym port_schedules = "module \<Rightarrow> gate_schedule list option"

definition addPortAnswer ::
    "(real \<Rightarrow> simtime) \<Rightarrow> (module \<Rightarrow> string) \<Rightarrow> gsc_input \<Rightarrow> module \<Rightarrow> port_schedules \<Rightarrow> json \<Rightarrow> port_schedules result" where
  "addPortAnswer toTime nameOf inp s gs j =
     rbind (stringField ''name'' j) (\<lambda>name.
     rbind (getSwitchPort nameOf inp s name) (\<lambda>p.
     rbind (mapM (gateScheduleFrom toTime p j) [0..<nat (numGates p)]) (\<lambda>new.
       Inr (gs(portModule p \<mapsto> (case gs (portModule p) of None \<Rightarrow> [] | Some old \<Rightarrow> old) @ new)))))"

definition addSwitchAnswer ::
    "(real \<Rightarrow> simtime) \<Rightarrow> (module \<Rightarrow> string) \<Rightarrow> gsc_input \<Rightarrow> port_schedules \<Rightarrow> json \<Rightarrow> port_schedules result" where
  "addSwitchAnswer toTime nameOf inp gs j =
     rbind (stringField ''name'' j) (\<lambda>name.
     rbind (getSwitch nameOf inp name) (\<lambda>s.
     rbind (arrayField ''ports'' j) (foldM (addPortAnswer toTime nameOf inp s) gs)))"

text \<open>\<open>while (startTime < 0) startTime += packetInterval\<close>\<close>

partial_function (option) firstStart :: "real \<Rightarrow> real \<Rightarrow> real option" where
  "firstStart interval t = (if t < 0 then firstStart interval (t + interval) else Some t)"

text \<open>The application of a flow of the answer, with its start time before the loop.\<close>

definition sendingTime :: "gsc_input \<Rightarrow> json \<Rightarrow> (in_application \<times> real) result" where
  "sendingTime inp j =
     rbind (stringField ''name'' j) (\<lambda>name.
     rbind (case find (\<lambda>f. flowName f = name) (inFlows inp) of
              None \<Rightarrow> Inl (RuntimeError (''Cannot find flow: '' @ name)) | Some f \<Rightarrow> Inr f) (\<lambda>f.
     rbind (doubleField ''firstSendingTime'' j) (\<lambda>first.
       let app = startApplication f
       in case nodePorts inp (appDevice app) of [] \<Rightarrow> Inl OutOfRange
          | p # _ \<Rightarrow> Inr (app, first / 1000000 - real_of_int (appPacketLength app) / portDatarate p))))"

definition addFlowAnswer ::
    "(real \<Rightarrow> simtime) \<Rightarrow> gsc_input \<Rightarrow> (module \<Rightarrow> simtime option) \<Rightarrow> json \<Rightarrow> (module \<Rightarrow> simtime option) result option" where
  "addFlowAnswer toTime inp starts j =
     (case sendingTime inp j of Inl e \<Rightarrow> Some (Inl e)
      | Inr (app, t) \<Rightarrow>
          (case firstStart (real_of_int (appPacketInterval app) / 1000000000000) t of None \<Rightarrow> None
           | Some t' \<Rightarrow> Some (Inr (starts(appModule app \<mapsto> toTime t')))))"

definition convertJsonToOutput ::
    "(real \<Rightarrow> simtime) \<Rightarrow> (module \<Rightarrow> string) \<Rightarrow> gsc_input \<Rightarrow> json \<Rightarrow> gate_output result option" where
  "convertJsonToOutput toTime nameOf inp j =
     (case rbind (arrayField ''switches'' j) (foldM (addSwitchAnswer toTime nameOf inp) Map.empty) of
        Inl e \<Rightarrow> Some (Inl e)
      | Inr gs \<Rightarrow>
          (case arrayField ''flows'' j of Inl e \<Rightarrow> Some (Inl e)
           | Inr flows \<Rightarrow>
               (case foldO (addFlowAnswer toTime inp) Map.empty flows of None \<Rightarrow> None
                | Some (Inl e) \<Rightarrow> Some (Inl e)
                | Some (Inr starts) \<Rightarrow> Some (Inr \<lparr>gateSchedules = gs, applicationStartTimes = starts\<rparr>))))"

text \<open>
  \<open>computeGateScheduling\<close>: the input is written to a file, the scheduler runs, and its answer is read;
  \<open>scheduler\<close> is what stands between the text of the input and the value of the answer.
\<close>

definition grpcComputeGateScheduling ::
    "(real \<Rightarrow> simtime) \<Rightarrow> (simtime \<Rightarrow> string) \<Rightarrow> (nat \<Rightarrow> string) \<Rightarrow> (module \<Rightarrow> string) \<Rightarrow> (json \<Rightarrow> string) \<Rightarrow> (string \<Rightarrow> json result)
      \<Rightarrow> sched_entry list \<Rightarrow> simtime \<Rightarrow> gsc_input \<Rightarrow> gate_output result option" where
  "grpcComputeGateScheduling toTime timeStr dangling nameOf leaf scheduler conf gateCycle inp =
     (case rbind (convertInputToJson toTime timeStr dangling nameOf conf gateCycle inp) (\<lambda>j. scheduler (printJson leaf quotedField 0 j)) of
        Inl e \<Rightarrow> Some (Inl e)
      | Inr answer \<Rightarrow> convertJsonToOutput toTime nameOf inp answer)"
section \<open>What a solution means\<close>

text \<open>
  A solution of the scheduler, as a value and as the JSON that carries it: per switch and port the
  cycle and, per priority, the slots as start and duration, in microseconds; per flow the time its
  first packet is sent.
\<close>

record solved_port =
  solvedName :: string
  solvedCycle :: real
  solvedSlots :: "(int \<times> (real \<times> real) list) list"

definition solvedSlotJson :: "real \<times> real \<Rightarrow> json" where
  "solvedSlotJson x = mapOf [(''slotStart'', JDouble (fst x)), (''slotDuration'', JDouble (snd x))]"

definition solvedPriorityJson :: "int \<times> (real \<times> real) list \<Rightarrow> json" where
  "solvedPriorityJson x = mapOf [(''priority'', JInt (fst x)), (''slotsData'', JArray (map solvedSlotJson (snd x)))]"

definition solvedPortJson :: "solved_port \<Rightarrow> json" where
  "solvedPortJson sp = mapOf
     [(''name'', JString (solvedName sp)), (''cycleDuration'', JDouble (solvedCycle sp)),
      (''prioritySlotsData'', JArray (map solvedPriorityJson (solvedSlots sp)))]"

definition solvedSwitchJson :: "string \<times> solved_port list \<Rightarrow> json" where
  "solvedSwitchJson x = mapOf [(''name'', JString (fst x)), (''ports'', JArray (map solvedPortJson (snd x)))]"

definition solvedFlowJson :: "string \<times> real \<Rightarrow> json" where
  "solvedFlowJson x = mapOf [(''name'', JString (fst x)), (''firstSendingTime'', JDouble (snd x))]"

definition solutionJson :: "(string \<times> solved_port list) list \<Rightarrow> (string \<times> real) list \<Rightarrow> json" where
  "solutionJson sws fls = mapOf [(''switches'', JArray (map solvedSwitchJson sws)), (''flows'', JArray (map solvedFlowJson fls))]"

text \<open>The schedule of a gate that a solution asks for.\<close>

definition slotFrom :: "(real \<Rightarrow> simtime) \<Rightarrow> real \<times> real \<Rightarrow> slot" where
  "slotFrom toTime x = \<lparr>slotStart = toTime (fst x / 1000000), slotDuration = toTime (snd x / 1000000)\<rparr>"

definition usedSlots :: "(real \<Rightarrow> simtime) \<Rightarrow> (real \<times> real) list \<Rightarrow> slot list" where
  "usedSlots toTime ss = filter (\<lambda>s. slotDuration s \<noteq> 0) (map (slotFrom toTime) ss)"

definition solvedSchedule :: "(real \<Rightarrow> simtime) \<Rightarrow> in_port \<Rightarrow> solved_port \<Rightarrow> nat \<Rightarrow> gate_schedule" where
  "solvedSchedule toTime p sp gi =
     \<lparr>schedPort = portModule p, schedGateIndex = gi, cycleStart = - simtime_s 1,
      cycleDuration = toTime (solvedCycle sp / 1000000),
      slots = sort_key slotStart (usedSlots toTime (concat (map snd (filter (\<lambda>x. fst x = int gi) (solvedSlots sp))))),
      schedOpen = True\<rparr>"

text \<open>The ports a solution is about, as the names in it are understood.\<close>

definition resolvePort :: "(module \<Rightarrow> string) \<Rightarrow> gsc_input \<Rightarrow> string \<Rightarrow> string \<Rightarrow> in_port option" where
  "resolvePort nameOf inp switchName portName =
     (case rbind (getSwitch nameOf inp switchName) (\<lambda>s. getSwitchPort nameOf inp s portName) of Inl _ \<Rightarrow> None | Inr p \<Rightarrow> Some p)"

type_synonym report = "in_port option \<times> solved_port"

definition reportsOf :: "(module \<Rightarrow> string) \<Rightarrow> gsc_input \<Rightarrow> string \<times> solved_port list \<Rightarrow> report list" where
  "reportsOf nameOf inp x = map (\<lambda>sp. (resolvePort nameOf inp (fst x) (solvedName sp), sp)) (snd x)"

definition reportAbout :: "module \<Rightarrow> report \<Rightarrow> bool" where
  "reportAbout m r = (case fst r of None \<Rightarrow> False | Some p \<Rightarrow> portModule p = m)"

definition reportedSchedules :: "(real \<Rightarrow> simtime) \<Rightarrow> report \<Rightarrow> gate_schedule list" where
  "reportedSchedules toTime r =
     (case fst r of None \<Rightarrow> [] | Some p \<Rightarrow> map (solvedSchedule toTime p (snd r)) [0..<nat (numGates p)])"

definition withReports :: "(real \<Rightarrow> simtime) \<Rightarrow> module \<Rightarrow> gate_schedule list option \<Rightarrow> report list \<Rightarrow> gate_schedule list option" where
  "withReports toTime m old rs =
     (let about = filter (reportAbout m) rs
      in if about = [] then old
         else Some ((case old of None \<Rightarrow> [] | Some l \<Rightarrow> l) @ concat (map (reportedSchedules toTime) about)))"

lemma withReports_append: "withReports toTime m old (r @ r') = withReports toTime m (withReports toTime m old r) r'"
  by (simp add: withReports_def Let_def)

lemmas solution_json = jsonField_mapOf doubleField_def arrayField_def stringField_def
  jsonDouble_def jsonArray_def jsonString_def jsonInt_def

lemma slots_loop: "foldM (addJsonSlot toTime) acc (map solvedSlotJson ss) = Inr (acc @ usedSlots toTime ss)"
proof (induction ss arbitrary: acc)
  case Nil
  then show ?case by (simp add: usedSlots_def)
next
  case (Cons x ss)
  have "addJsonSlot toTime acc (solvedSlotJson x) = Inr (acc @ usedSlots toTime [x])"
    by (simp add: addJsonSlot_def solvedSlotJson_def solution_json usedSlots_def slotFrom_def)
  then show ?case using Cons by (simp add: usedSlots_def)
qed

lemma priorities_loop:
  "foldM (addPrioritySlots toTime gi) acc (map solvedPriorityJson xs)
     = Inr (acc @ usedSlots toTime (concat (map snd (filter (\<lambda>x. fst x = int gi) xs))))"
proof (induction xs arbitrary: acc)
  case Nil
  then show ?case by (simp add: usedSlots_def)
next
  case (Cons x xs)
  have "addPrioritySlots toTime gi acc (solvedPriorityJson x) = Inr (acc @ usedSlots toTime (if fst x = int gi then snd x else []))"
    by (simp add: addPrioritySlots_def solvedPriorityJson_def solution_json slots_loop usedSlots_def)
  then show ?case using Cons by (simp add: usedSlots_def)
qed

lemma gateScheduleFrom_solved: "gateScheduleFrom toTime p (solvedPortJson sp) gi = Inr (solvedSchedule toTime p sp gi)"
  by (simp add: gateScheduleFrom_def solvedPortJson_def solution_json priorities_loop solvedSchedule_def)

lemma addPortAnswer_solved:
  assumes "addPortAnswer toTime nameOf inp s gs (solvedPortJson sp) = Inr gs'" and s: "getSwitch nameOf inp n = Inr s"
  shows "gs' m = withReports toTime m (gs m) [(resolvePort nameOf inp n (solvedName sp), sp)]"
proof -
  have "stringField ''name'' (solvedPortJson sp) = Inr (solvedName sp)" by (simp add: solvedPortJson_def solution_json)
  then obtain p where p: "getSwitchPort nameOf inp s (solvedName sp) = Inr p"
    and gs': "gs' = gs(portModule p \<mapsto> (case gs (portModule p) of None \<Rightarrow> [] | Some old \<Rightarrow> old) @ map (solvedSchedule toTime p sp) [0..<nat (numGates p)])"
    using assms(1) by (auto simp: addPortAnswer_def rbind_Inr_iff mapM_Inr [OF gateScheduleFrom_solved])
  have "resolvePort nameOf inp n (solvedName sp) = Some p" using s p by (simp add: resolvePort_def)
  then show ?thesis using gs' by (auto simp: withReports_def reportAbout_def reportedSchedules_def)
qed

lemma ports_loop:
  assumes "foldM (addPortAnswer toTime nameOf inp s) gs (map solvedPortJson sps) = Inr gs'" and s: "getSwitch nameOf inp n = Inr s"
  shows "gs' m = withReports toTime m (gs m) (reportsOf nameOf inp (n, sps))"
  using assms(1)
proof (induction sps arbitrary: gs)
  case Nil
  then show ?case by (simp add: reportsOf_def withReports_def)
next
  case (Cons sp sps)
  then obtain g1 where "addPortAnswer toTime nameOf inp s gs (solvedPortJson sp) = Inr g1"
    and "foldM (addPortAnswer toTime nameOf inp s) g1 (map solvedPortJson sps) = Inr gs'" by (auto simp: rbind_Inr_iff)
  then have "gs' m = withReports toTime m (withReports toTime m (gs m) [(resolvePort nameOf inp n (solvedName sp), sp)]) (reportsOf nameOf inp (n, sps))"
    using addPortAnswer_solved [OF _ s, of toTime gs sp g1 m] Cons.IH [of g1] by simp
  then show ?case by (simp add: withReports_append [symmetric] reportsOf_def)
qed

lemma switches_loop:
  assumes "foldM (addSwitchAnswer toTime nameOf inp) gs (map solvedSwitchJson sws) = Inr gs'"
  shows "gs' m = withReports toTime m (gs m) (concat (map (reportsOf nameOf inp) sws))"
  using assms
proof (induction sws arbitrary: gs)
  case Nil
  then show ?case by (simp add: withReports_def)
next
  case (Cons x sws)
  then obtain g1 where g1: "addSwitchAnswer toTime nameOf inp gs (solvedSwitchJson x) = Inr g1"
    and "foldM (addSwitchAnswer toTime nameOf inp) g1 (map solvedSwitchJson sws) = Inr gs'" by (auto simp: rbind_Inr_iff)
  moreover obtain s where "getSwitch nameOf inp (fst x) = Inr s" "foldM (addPortAnswer toTime nameOf inp s) gs (map solvedPortJson (snd x)) = Inr g1"
    using g1 by (auto simp: addSwitchAnswer_def solvedSwitchJson_def solution_json rbind_Inr_iff)
  then have "g1 m = withReports toTime m (gs m) (reportsOf nameOf inp x)" using ports_loop by fastforce
  ultimately show ?case using Cons.IH [of g1] by (simp add: withReports_append)
qed

text \<open>
  C17. What the scheduler decides is what the gates get: a port has exactly the schedules the answer has
  for it, one per traffic class, each with the slots of its priority in the order of their starts and
  without the empty ones. A port the answer names twice gets the schedules of both, one after the other,
  a port it does not name gets none.
\<close>

theorem answer_becomes_schedules:
  assumes "convertJsonToOutput toTime nameOf inp (solutionJson sws fls) = Some (Inr out)"
  shows "gateSchedules out m = withReports toTime m None (concat (map (reportsOf nameOf inp) sws))"
proof -
  let ?j = "solutionJson sws fls"
  have "arrayField ''switches'' ?j = Inr (map solvedSwitchJson sws)" by (simp add: solutionJson_def solution_json)
  then have "foldM (addSwitchAnswer toTime nameOf inp) Map.empty (map solvedSwitchJson sws) = Inr (gateSchedules out)"
    using assms by (auto simp: convertJsonToOutput_def split: sum.splits option.splits)
  then show ?thesis using switches_loop by fastforce
qed
section \<open>Names of ports\<close>

lemma find_dash: "CHR ''-'' \<notin> set u \<Longrightarrow> string_find (u @ CHR ''-'' # v) ''-'' = Some (length u)"
  by (induction u) simp_all

lemma find_no_dash: "CHR ''-'' \<notin> set u \<Longrightarrow> string_find u ''-'' = None"
  by (induction u) simp_all

lemma afterDash_first: "CHR ''-'' \<notin> set u \<Longrightarrow> afterDash (u @ CHR ''-'' # v) = v"
  by (simp add: afterDash_def find_dash)

lemma find_unique:
  assumes "x \<in> set xs" "P x" "\<And>y. y \<in> set xs \<Longrightarrow> P y \<Longrightarrow> y = x"
  shows "find P xs = Some x"
proof (cases "find P xs")
  case None
  then show ?thesis using assms(1,2) by (simp add: find_None_iff)
next
  case (Some y)
  then show ?thesis using find_Some_in [OF Some] assms(3) by blast
qed

text \<open>
  Does the answer find the ports under the names the input gave them? For the ports of a switch
  whose names have no dash: exactly if the name of the switch has no dash either. In a network with a
  switch called \<open>rsu-1\<close> every answer is refused.
\<close>

theorem port_found_iff_no_dash:
  assumes "s \<in> set (inSwitches inp)" "inj_on nameOf (set (inSwitches inp))"
    and "p \<in> set (nodePorts inp s)" "\<forall>q \<in> set (nodePorts inp s). startNode q = s \<and> CHR ''-'' \<notin> set (nameOf (portModule q))"
    and "inj_on (\<lambda>q. nameOf (portModule q)) (set (nodePorts inp s))"
  shows "resolvePort nameOf inp (nameOf s) (portJsonName nameOf p) = (if CHR ''-'' \<in> set (nameOf s) then None else Some p)"
proof -
  have "find (\<lambda>t. nameOf t = nameOf s) (inSwitches inp) = Some s"
    using assms(1,2) by (intro find_unique) (auto simp: inj_on_def)
  then have s: "getSwitch nameOf inp (nameOf s) = Inr s" by (simp add: getSwitch_def)
  have name: "portJsonName nameOf p = nameOf s @ CHR ''-'' # nameOf (portModule p)" using assms(3,4) by (simp add: portJsonName_def)
  show ?thesis
  proof (cases "CHR ''-'' \<in> set (nameOf s)")
    case True
    then obtain u v where uv: "nameOf s = u @ CHR ''-'' # v" "CHR ''-'' \<notin> set u" by (meson split_list_first)
    then have "afterDash (portJsonName nameOf p) = v @ CHR ''-'' # nameOf (portModule p)" using name by (simp add: afterDash_first)
    then have "CHR ''-'' \<in> set (afterDash (portJsonName nameOf p))" by simp
    then have "find (\<lambda>q. startNode q = s \<and> nameOf (portModule q) = afterDash (portJsonName nameOf p)) (nodePorts inp s) = None"
      using assms(4) unfolding find_None_iff by metis
    then show ?thesis using True s by (simp add: resolvePort_def getSwitchPort_def)
  next
    case False
    then have "afterDash (portJsonName nameOf p) = nameOf (portModule p)" using name by (simp add: afterDash_first)
    moreover have "find (\<lambda>q. startNode q = s \<and> nameOf (portModule q) = nameOf (portModule p)) (nodePorts inp s) = Some p"
      using assms(3,4,5) by (intro find_unique) (auto simp: inj_on_def)
    ultimately show ?thesis using False s by (simp add: resolvePort_def getSwitchPort_def)
  qed
qed

section \<open>Start times\<close>

lemma firstStart_steps:
  assumes "0 < i" "- t \<le> real n * i"
  shows "\<exists>k. firstStart i t = Some (t + real k * i) \<and> 0 \<le> t + real k * i \<and> (0 < k \<longrightarrow> t + real k * i < i)"
  using assms(2)
proof (induction n arbitrary: t)
  case 0
  then show ?case using assms(1) by (intro exI [of _ 0]) (simp add: firstStart.simps)
next
  case (Suc n)
  show ?case
  proof (cases "t < 0")
    case True
    have "- (t + i) \<le> real n * i" using Suc(2) by (simp add: algebra_simps)
    from Suc(1) [OF this] obtain k where k: "firstStart i (t + i) = Some (t + i + real k * i)" "0 \<le> t + i + real k * i"
      "0 < k \<longrightarrow> t + i + real k * i < i" by blast
    have "firstStart i t = firstStart i (t + i)" using True by (subst firstStart.simps) simp
    moreover have "t + i + real k * i < i" using k(3) True by (cases "k = 0") simp_all
    ultimately show ?thesis using k(1,2) by (intro exI [of _ "Suc k"]) (simp add: algebra_simps)
  next
    case False
    then show ?thesis by (intro exI [of _ 0]) (simp add: firstStart.simps)
  qed
qed

lemma firstStart_ends:
  assumes "0 < i"
  shows "\<exists>k. firstStart i t = Some (t + real k * i) \<and> 0 \<le> t + real k * i \<and> (0 < k \<longrightarrow> t + real k * i < i)"
proof -
  obtain n where "- t \<le> real n * i" using assms by (metis reals_Archimedean3 less_imp_le)
  then show ?thesis by (rule firstStart_steps [OF assms])
qed

lemma firstStart_diverges: "firstStart i t = Some r \<Longrightarrow> \<not> (i \<le> 0 \<and> t < 0)"
proof (erule firstStart.raw_induct [rotated])
  fix f and i t r :: real
  assume "\<And>i t r. f i t = Some r \<Longrightarrow> \<not> (i \<le> 0 \<and> t < 0)" and "(if t < 0 then f i (t + i) else Some t) = Some r"
  then show "\<not> (i \<le> 0 \<and> t < 0)" by (metis add_neg_nonpos)
qed

lemma sendingTime_flow:
  assumes "sendingTime inp j = Inr (app, t)"
  shows "\<exists>f \<in> set (inFlows inp). app = startApplication f"
proof -
  obtain name f first where f: "find (\<lambda>f. flowName f = name) (inFlows inp) = Some f"
    and "(case nodePorts inp (appDevice (startApplication f)) of [] \<Rightarrow> Inl OutOfRange
      | p # _ \<Rightarrow> Inr (startApplication f, first / 1000000 - real_of_int (appPacketLength (startApplication f)) / portDatarate p)) = Inr (app, t)"
    using assms by (auto simp: sendingTime_def rbind_Inr_iff Let_def split: option.splits)
  then show ?thesis using find_Some_in [OF f] by (auto split: list.splits)
qed

lemma foldO_ends: "(\<And>s x. x \<in> set xs \<Longrightarrow> f s x \<noteq> None) \<Longrightarrow> foldO f s xs \<noteq> None"
  by (induction xs arbitrary: s) (auto split: option.splits sum.splits)

lemma sendingTime_solved:
  assumes "sendingTime inp (solvedFlowJson x) = Inr (app, t)"
  shows "\<exists>f p ps. f \<in> set (inFlows inp) \<and> flowName f = fst x \<and> app = startApplication f \<and> nodePorts inp (appDevice app) = p # ps
    \<and> t = snd x / 1000000 - real_of_int (appPacketLength app) / portDatarate p"
  using assms by (auto simp: sendingTime_def solvedFlowJson_def solution_json rbind_Inr_iff Let_def split: option.splits list.splits dest!: find_Some_in)

text \<open>
  Every answer of the scheduler, whatever it is, is read to its end: the search for the first start
  time that is not negative stops for every application that sends periodically.
\<close>

theorem answers_are_read_to_the_end:
  assumes "\<forall>f \<in> set (inFlows inp). 0 < appPacketInterval (startApplication f)"
  shows "convertJsonToOutput toTime nameOf inp j \<noteq> None"
proof -
  have "addFlowAnswer toTime inp starts x \<noteq> None" for starts x
  proof (cases "sendingTime inp x")
    case (Inr r)
    obtain app t where r: "r = (app, t)" by (cases r)
    have "0 < real_of_int (appPacketInterval app) / 1000000000000" using sendingTime_flow Inr r assms by fastforce
    from firstStart_ends [OF this, of t] show ?thesis using Inr r by (auto simp: addFlowAnswer_def)
  qed (simp add: addFlowAnswer_def)
  then have "foldO (addFlowAnswer toTime inp) Map.empty xs \<noteq> None" for xs by (rule foldO_ends)
  then show ?thesis unfolding convertJsonToOutput_def by (auto split: sum.splits option.splits) (metis option.distinct(1))
qed

text \<open>
  Without a positive packet interval it does not stop: an answer in which the application would have
  to start before the simulation begins is never processed.
\<close>

theorem start_time_search_may_not_end:
  assumes "sendingTime inp x = Inr (app, t)" "t < 0" "appPacketInterval app \<le> 0"
  shows "addFlowAnswer toTime inp starts x = None"
proof -
  have "real_of_int (appPacketInterval app) / 1000000000000 \<le> 0" using assms(3) by simp
  then have "firstStart (real_of_int (appPacketInterval app) / 1000000000000) t = None"
    using firstStart_diverges assms(2) by (metis option.exhaust)
  then show ?thesis using assms(1) by (simp add: addFlowAnswer_def)
qed

text \<open>The start time an answer asks for: the sending time less the time of transmission, later by whole periods if need be.\<close>

definition startsInPhase :: "(real \<Rightarrow> simtime) \<Rightarrow> gsc_input \<Rightarrow> (string \<times> real) list \<Rightarrow> module \<Rightarrow> simtime \<Rightarrow> bool" where
  "startsInPhase toTime inp fls a u \<longleftrightarrow>
     (\<exists>f first p ps k. f \<in> set (inFlows inp) \<and> (flowName f, first) \<in> set fls
       \<and> appModule (startApplication f) = a \<and> nodePorts inp (appDevice (startApplication f)) = p # ps
       \<and> (let t = first / 1000000 - real_of_int (appPacketLength (startApplication f)) / portDatarate p
                  + real k * (real_of_int (appPacketInterval (startApplication f)) / 1000000000000)
          in u = toTime t \<and> 0 \<le> t \<and> (0 < k \<longrightarrow> t < real_of_int (appPacketInterval (startApplication f)) / 1000000000000)))"

lemma addFlowAnswer_solved:
  assumes "addFlowAnswer toTime inp starts (solvedFlowJson x) = Some (Inr starts')" "x \<in> set fls" "starts' a = Some u" "starts a \<noteq> Some u"
    and "\<forall>f \<in> set (inFlows inp). 0 < appPacketInterval (startApplication f)"
  shows "startsInPhase toTime inp fls a u"
proof -
  obtain app t t' where st: "sendingTime inp (solvedFlowJson x) = Inr (app, t)"
    and t': "firstStart (real_of_int (appPacketInterval app) / 1000000000000) t = Some t'" "starts' = starts(appModule app \<mapsto> toTime t')"
    using assms(1) by (auto simp: addFlowAnswer_def split: sum.splits option.splits)
  obtain f p ps where f: "f \<in> set (inFlows inp)" "flowName f = fst x" "app = startApplication f" "nodePorts inp (appDevice app) = p # ps"
    "t = snd x / 1000000 - real_of_int (appPacketLength app) / portDatarate p" using sendingTime_solved [OF st] by blast
  have "0 < real_of_int (appPacketInterval app) / 1000000000000" using assms(5) f by simp
  from firstStart_ends [OF this, of t] obtain k where k: "t' = t + real k * (real_of_int (appPacketInterval app) / 1000000000000)"
    "0 \<le> t'" "0 < k \<longrightarrow> t' < real_of_int (appPacketInterval app) / 1000000000000" using t'(1) by auto
  have "appModule app = a" "u = toTime t'" using assms(3,4) t'(2) by (auto split: if_splits)
  moreover have "(flowName f, snd x) \<in> set fls" using assms(2) f(2) by simp
  ultimately show ?thesis unfolding startsInPhase_def Let_def using f k
    by (intro exI [of _ f] exI [of _ "snd x"] exI [of _ p] exI [of _ ps] exI [of _ k]) simp
qed

lemma flows_loop:
  assumes "foldO (addFlowAnswer toTime inp) starts (map solvedFlowJson xs) = Some (Inr starts')" "set xs \<subseteq> set fls"
    and "\<forall>f \<in> set (inFlows inp). 0 < appPacketInterval (startApplication f)"
    and "starts' a = Some u" "starts a \<noteq> Some u"
  shows "startsInPhase toTime inp fls a u"
  using assms
proof (induction xs arbitrary: starts)
  case Nil
  then show ?case by simp
next
  case (Cons x xs)
  then obtain s1 where s1: "addFlowAnswer toTime inp starts (solvedFlowJson x) = Some (Inr s1)"
    and rest: "foldO (addFlowAnswer toTime inp) s1 (map solvedFlowJson xs) = Some (Inr starts')"
    by (auto split: option.splits sum.splits)
  show ?case
  proof (cases "s1 a = Some u")
    case True
    then show ?thesis using addFlowAnswer_solved [OF s1 _ _ Cons(6,4)] Cons(3) by simp
  next
    case False
    then show ?thesis using Cons.IH [OF rest] Cons by simp
  qed
qed

text \<open>
  Applications start in time for what the scheduler planned: at a whole number of periods after the
  planned sending time less the time the packet takes to be sent, never before the simulation begins,
  and in the first period if the plan lies before its beginning.
\<close>

theorem applications_start_as_planned:
  assumes "\<forall>f \<in> set (inFlows inp). 0 < appPacketInterval (startApplication f)"
    and out: "convertJsonToOutput toTime nameOf inp (solutionJson sws fls) = Some (Inr out)" and "applicationStartTimes out a = Some u"
  shows "startsInPhase toTime inp fls a u"
proof -
  have "arrayField ''flows'' (solutionJson sws fls) = Inr (map solvedFlowJson fls)" by (simp add: solutionJson_def solution_json)
  then have "foldO (addFlowAnswer toTime inp) Map.empty (map solvedFlowJson fls) = Some (Inr (applicationStartTimes out))"
    using out by (auto simp: convertJsonToOutput_def split: sum.splits option.splits)
  then show ?thesis by (rule flows_loop) (use assms in simp_all)
qed
section \<open>Requests\<close>

definition withLatencies :: "(in_flow \<Rightarrow> simtime) \<Rightarrow> gsc_input \<Rightarrow> gsc_input" where
  "withLatencies l inp =
     inp\<lparr>inFlows := map (\<lambda>f. f\<lparr>startApplication := startApplication f\<lparr>appMaxLatency := l f\<rparr>\<rparr>) (inFlows inp)\<rparr>"

lemma mapM_over_map: "mapM f (map g xs) = mapM (\<lambda>x. f (g x)) xs"
  by (induction xs) simp_all

text \<open>
  The latency an application allows does not reach the scheduler: whatever bounds the flows have, the
  input is the same, with 2 ms for every flow, or 0.1 ms if the configuration asks for a start time.
\<close>

theorem latency_bounds_are_ignored:
  "convertInputToJson toTime timeStr dangling nameOf conf gateCycle (withLatencies l inp)
     = convertInputToJson toTime timeStr dangling nameOf conf gateCycle inp"
proof -
  have "flowJson nameOf (requestFields toTime timeStr dangling conf) (f\<lparr>startApplication := startApplication f\<lparr>appMaxLatency := l f\<rparr>\<rparr>)
      = flowJson nameOf (requestFields toTime timeStr dangling conf) f" for f
    by (simp add: flowJson_def requestFields_def)
  moreover have "switchJson nameOf gateCycle (withLatencies l inp) = switchJson nameOf gateCycle inp"
    by (simp add: switchJson_def nodePorts_def withLatencies_def fun_eq_iff)
  ultimately show ?thesis by (simp add: convertInputToJson_def inputJson_def withLatencies_def mapM_over_map)
qed

lemma nextRequest_other:
  "\<forall>e \<in> set es. entName e \<noteq> None \<and> entName e \<noteq> Some name \<Longrightarrow> fold (nextRequest toTime dangling name) es s = s"
  by (induction es) (auto simp: nextRequest_def split: prod.splits)

lemma flowJson_field:
  assumes "flowJson nameOf bound f = Inr j" "k \<notin> {''endDevices'', ''hops''}"
    and "k \<notin> {''name'', ''type'', ''sourceDevice'', ''fixedPriority'', ''priorityValue'', ''packetPeriodicity'', ''packetPeriodicityUnit'', ''packetSize'', ''packetSizeUnit''}"
  shows "jsonField k j = (case map_of (List.rev (bound f)) k of Some v \<Rightarrow> Inr v | None \<Rightarrow> Inl (RuntimeError ''no such field''))"
  using assms by (auto simp: flowJson_def rbind_Inr_iff jsonField_mapOf map_add_def split: option.splits)

text \<open>
  The start time of a flow comes from the last entry of the configuration with its name, and only a
  positive one is passed on: a stream that is to start at the beginning of the cycle, or that has a
  negative phase, is scheduled as if it had asked for nothing.
\<close>

theorem only_positive_requests_are_sent:
  assumes "conf = es @ e # es'" "entName e = Some (flowName f)" "entStartTime e = Some x"
    and "\<forall>e' \<in> set es'. entName e' \<noteq> None \<and> entName e' \<noteq> Some (flowName f)"
    and "flowJson nameOf (requestFields toTime timeStr dangling conf) f = Inr j"
  shows "jsonField ''firstSendingTime'' j
    = (if 0 < toTime x then Inr (JString (timeStr (toTime x))) else Inl (RuntimeError ''no such field''))"
proof -
  have "requestedStart toTime dangling conf (flowName f) = toTime x"
    using assms(2,3) by (simp add: assms(1) requestedStart_def nextRequest_other [OF assms(4)] nextRequest_def split: prod.splits)
  then show ?thesis using flowJson_field [OF assms(5)] by (simp add: requestFields_def)
qed

lemma mapM_error: "x \<in> set xs \<Longrightarrow> \<not> is_ok (f x) \<Longrightarrow> \<not> is_ok (mapM f xs)"
  by (induction xs) (auto simp: rbind_def split: sum.splits)

text \<open>
  A flow whose path has no node - as one has whose path names only unknown nodes - makes the
  conversion run past the end of the path.
\<close>

theorem empty_path_crashes:
  assumes "f \<in> set (inFlows inp)" "pf \<in> set (flowPaths f)" "fragNodes pf = []"
  shows "\<exists>e. convertInputToJson toTime timeStr dangling nameOf conf gateCycle inp = Inl e"
proof -
  have "\<not> is_ok (mapM (fragmentHops nameOf) (flowPaths f))"
    using assms(2) by (rule mapM_error) (simp add: fragmentHops_def assms(3))
  then have "\<not> is_ok (flowJson nameOf (requestFields toTime timeStr dangling conf) f)"
    by (auto simp: flowJson_def is_ok_def split: sum.splits)
  then have "\<not> is_ok (mapM (flowJson nameOf (requestFields toTime timeStr dangling conf)) (inFlows inp))" by (rule mapM_error [OF assms(1)])
  then show ?thesis by (auto simp: convertInputToJson_def inputJson_def is_ok_def rbind_def split: sum.splits)
qed
section \<open>A network with one switch\<close>

definition plan_name :: "module \<Rightarrow> string" where
  "plan_name m = (if m = 4 then ''rsu'' else if m = 2 then ''car'' else if m = 3 then ''rsu-1'' else if m = 11 then ''eth0'' else ''eth'')"

definition plan_port :: "module \<Rightarrow> module \<Rightarrow> module \<Rightarrow> in_port" where
  "plan_port m a b = \<lparr>portModule = m, portInterfaceName = ''eth0'', numGates = 2, portDatarate = 1000000, propagationTime = 0,
     maxPacketLength = 12000, guardBand = 0, maxCycleTime = simtime_ms 1, maxSlotDuration = simtime_ms 1,
     cutthroughSwitchingEnabled = False, startNode = a, endNode = Some b, otherPort = None\<rparr>"

definition plan_flow :: "simtime \<Rightarrow> module list \<Rightarrow> in_flow" where
  "plan_flow interval path = \<lparr>flowName = ''control'', gateOf = 1, cutthroughHeader = 0,
     startApplication = \<lparr>appModule = 7, appPcp = 4, appPacketLength = 1000, appPacketInterval = interval, appMaxLatency = simtime_ms 1,
       appMaxJitter = 0, appDevice = 2\<rparr>,
     endDevice = 2, flowPaths = [\<lparr>fragNodes = path, fragInputPorts = [], fragOutputPorts = []\<rparr>]\<rparr>"

definition plan_network :: "simtime \<Rightarrow> gsc_input" where
  "plan_network interval = \<lparr>inDevices = [2], inSwitches = [4, 3],
     networkNodes = [\<lparr>nnModule = 2, nnName = ''car'', nnPorts = [plan_port 21 2 4]\<rparr>, \<lparr>nnModule = 4, nnName = ''rsu'', nnPorts = [plan_port 11 4 2]\<rparr>,
       \<lparr>nnModule = 3, nnName = ''rsu-1'', nnPorts = [plan_port 12 3 2]\<rparr>],
     inPorts = [], inApplications = [], inFlows = [plan_flow interval [2, 4]]\<rparr>"

definition plan_time :: "real \<Rightarrow> simtime" where "plan_time x = \<lfloor>x * 1000000000000\<rfloor>"

lemma plan_firstStart: "firstStart (1 / 1000) (- (1 / 2000)) = Some (1 / 2000)"
  by (subst firstStart.simps) (simp add: firstStart.simps)

lemma plan_ports [simp]: "nodePorts (plan_network i) 4 = [plan_port 11 4 2]" "nodePorts (plan_network i) 2 = [plan_port 21 2 4]"
  "nodePorts (plan_network i) 3 = [plan_port 12 3 2]"
  by (simp_all add: nodePorts_def plan_network_def)

lemma plan_flow_answer: "addFlowAnswer plan_time (plan_network (simtime_ms 1)) Map.empty (solvedFlowJson (''control'', 500)) = Some (Inr [7 \<mapsto> 500000000])"
proof -
  have "sendingTime (plan_network (simtime_ms 1)) (solvedFlowJson (''control'', 500)) = Inr (startApplication (plan_flow (simtime_ms 1) [2, 4]), - (1 / 2000))"
    by (simp add: sendingTime_def solvedFlowJson_def solution_json plan_network_def plan_flow_def Let_def plan_port_def nodePorts_def)
  then show ?thesis using plan_firstStart
    by (simp add: addFlowAnswer_def plan_flow_def simtime_ms_def plan_time_def)
qed

definition plan_solved :: solved_port where
  "plan_solved = \<lparr>solvedName = ''rsu-eth0'', solvedCycle = 1000, solvedSlots = [(1, [(500, 100), (0, 100), (700, 0)])]\<rparr>"

lemma plan_switch: "getSwitch plan_name (plan_network i) ''rsu'' = Inr 4"
  by (simp add: getSwitch_def plan_network_def plan_name_def)

lemma plan_switch_port: "getSwitchPort plan_name (plan_network i) 4 ''rsu-eth0'' = Inr (plan_port 11 4 2)"
  by (simp add: getSwitchPort_def afterDash_def plan_port_def plan_name_def)

lemma plan_port_answer:
  "addPortAnswer plan_time plan_name (plan_network i) 4 Map.empty (solvedPortJson plan_solved)
     = Inr [11 \<mapsto> map (solvedSchedule plan_time (plan_port 11 4 2) plan_solved) [0..<2]]"
proof -
  have "stringField ''name'' (solvedPortJson plan_solved) = Inr ''rsu-eth0''" by (simp add: solvedPortJson_def solution_json plan_solved_def)
  then show ?thesis using plan_switch_port
    by (simp add: addPortAnswer_def mapM_Inr [OF gateScheduleFrom_solved]) (simp add: plan_port_def)
qed

lemma plan_answer:
  "\<exists>out. convertJsonToOutput plan_time plan_name (plan_network (simtime_ms 1)) (solutionJson [(''rsu'', [plan_solved])] [(''control'', 500)]) = Some (Inr out)
     \<and> applicationStartTimes out = [7 \<mapsto> 500000000]"
proof -
  have "\<exists>gs. foldM (addSwitchAnswer plan_time plan_name (plan_network (simtime_ms 1))) Map.empty (map solvedSwitchJson [(''rsu'', [plan_solved])]) = Inr gs"
    by (simp add: addSwitchAnswer_def solvedSwitchJson_def solution_json plan_switch plan_port_answer)
  then show ?thesis
    using plan_flow_answer by (auto simp: convertJsonToOutput_def solutionJson_def solution_json)
qed

lemma answer_becomes_schedules_witness:
  "\<exists>out ss. convertJsonToOutput plan_time plan_name (plan_network (simtime_ms 1)) (solutionJson [(''rsu'', [plan_solved])] [(''control'', 500)]) = Some (Inr out)
     \<and> gateSchedules out 11 = Some ss
     \<and> slots (ss ! 1) = [\<lparr>slotStart = 0, slotDuration = 100000000\<rparr>, \<lparr>slotStart = 500000000, slotDuration = 100000000\<rparr>]"
proof -
  obtain out where out: "convertJsonToOutput plan_time plan_name (plan_network (simtime_ms 1)) (solutionJson [(''rsu'', [plan_solved])] [(''control'', 500)]) = Some (Inr out)"
    using plan_answer by blast
  have "resolvePort plan_name (plan_network (simtime_ms 1)) ''rsu'' (solvedName plan_solved) = Some (plan_port 11 4 2)"
    by (simp add: resolvePort_def plan_switch plan_solved_def plan_switch_port)
  moreover have "portModule (plan_port 11 4 2) = 11" "numGates (plan_port 11 4 2) = 2" by (simp_all add: plan_port_def)
  ultimately have "gateSchedules out 11 = Some (map (solvedSchedule plan_time (plan_port 11 4 2) plan_solved) [0..<2])"
    using answer_becomes_schedules [OF out, of 11] by (simp add: reportsOf_def withReports_def reportAbout_def reportedSchedules_def)
  moreover have "slots (map (solvedSchedule plan_time (plan_port 11 4 2) plan_solved) [0..<2] ! 1)
      = [\<lparr>slotStart = 0, slotDuration = 100000000\<rparr>, \<lparr>slotStart = 500000000, slotDuration = 100000000\<rparr>]"
    by (simp add: solvedSchedule_def plan_solved_def usedSlots_def slotFrom_def plan_time_def)
  ultimately show ?thesis using out by blast
qed

lemma port_found_iff_no_dash_witness:
  "resolvePort plan_name (plan_network 1) ''rsu-1'' ''rsu-1-eth'' = None"
proof -
  have p: "nodePorts (plan_network 1) 3 = [plan_port 12 3 2]" by simp
  have n: "plan_name 3 = ''rsu-1''" "portJsonName plan_name (plan_port 12 3 2) = ''rsu-1-eth''" by (simp_all add: plan_name_def portJsonName_def plan_port_def)
  have "resolvePort plan_name (plan_network 1) (plan_name 3) (portJsonName plan_name (plan_port 12 3 2))
      = (if CHR ''-'' \<in> set (plan_name 3) then None else Some (plan_port 12 3 2))"
    by (rule port_found_iff_no_dash) (simp_all add: p plan_port_def, simp_all add: plan_network_def plan_name_def)
  then show ?thesis unfolding n by simp
qed

lemma answers_are_read_to_the_end_witness: "convertJsonToOutput plan_time plan_name (plan_network (simtime_ms 1)) (JArray []) \<noteq> None"
  by (rule answers_are_read_to_the_end) (simp add: plan_network_def plan_flow_def simtime_ms_def)

lemma start_time_search_may_not_end_witness:
  "addFlowAnswer plan_time (plan_network (- 1)) Map.empty (solvedFlowJson (''control'', 500)) = None"
proof (rule start_time_search_may_not_end)
  show "sendingTime (plan_network (- 1)) (solvedFlowJson (''control'', 500)) = Inr (startApplication (plan_flow (- 1) [2, 4]), - (1 / 2000))"
    by (simp add: sendingTime_def solvedFlowJson_def solution_json plan_network_def plan_flow_def Let_def plan_port_def nodePorts_def)
qed (simp_all add: plan_flow_def)

lemma applications_start_as_planned_witness: "startsInPhase plan_time (plan_network (simtime_ms 1)) [(''control'', 500)] 7 500000000"
proof -
  obtain out where out: "convertJsonToOutput plan_time plan_name (plan_network (simtime_ms 1)) (solutionJson [(''rsu'', [plan_solved])] [(''control'', 500)]) = Some (Inr out)"
    "applicationStartTimes out = [7 \<mapsto> 500000000]" using plan_answer by blast
  show ?thesis
    by (rule applications_start_as_planned [OF _ out(1)]) (simp_all add: out(2) plan_network_def plan_flow_def simtime_ms_def)
qed

definition plan_sched_entry :: "real \<Rightarrow> sched_entry" where
  "plan_sched_entry x = \<lparr>entSource = None, entDestination = None, entPcp = None, entGateIndex = None, entPacketLength = None, entCutthrough = None,
     entPacketInterval = None, entMaxLatency = None, entMaxJitter = None, entApplication = None, entName = Some ''control'', entFragments = None, entStartTime = Some x\<rparr>"

lemma only_positive_requests_are_sent_witness:
  "\<exists>j. flowJson plan_name (requestFields plan_time (\<lambda>t. ''1e-3s'') (\<lambda>i. []) [plan_sched_entry 5, plan_sched_entry 0]) (plan_flow 1 [2, 4]) = Inr j
     \<and> jsonField ''firstSendingTime'' j = Inl (RuntimeError ''no such field'')"
proof -
  let ?conf = "[plan_sched_entry 5, plan_sched_entry 0]"
  obtain j where j: "flowJson plan_name (requestFields plan_time (\<lambda>t. ''1e-3s'') (\<lambda>i. []) ?conf) (plan_flow 1 [2, 4]) = Inr j"
    by (simp add: flowJson_def plan_flow_def fragmentHops_def)
  have "?conf = [plan_sched_entry 5] @ plan_sched_entry 0 # []" by simp
  from only_positive_requests_are_sent [OF this _ _ _ j, of 0] j show ?thesis
    by (simp add: plan_sched_entry_def plan_flow_def plan_time_def)
qed

lemma empty_path_crashes_witness:
  "\<exists>e. convertInputToJson plan_time (\<lambda>t. []) (\<lambda>i. []) plan_name [] 1 ((plan_network 1)\<lparr>inFlows := [plan_flow 1 []]\<rparr>) = Inl e"
  by (rule empty_path_crashes [of "plan_flow 1 []" _ "\<lparr>fragNodes = [], fragInputPorts = [], fragOutputPorts = []\<rparr>"]) (simp_all add: plan_flow_def)

end
