(* ===== verification/Oscillators.thy ===== *)
theory Oscillators
  imports TsnStreams
begin

text \<open>
  Oscillators (\<open>inet/clock/base/DriftingOscillatorBase\<close>, \<open>inet/clock/oscillator\<close>): ticks of a
  nominal length that come a little too fast or too slow, by a drift rate that may change at any time.

  \<^item> Intervals and instants are in ticks of the simulation time; a drift rate is a fraction (the code's
    \<open>ppm\<close> values are such fractions times a million), and doubles are reals.
  \<^item> \<open>rnd\<close> rounds a double to a simulation time; it is only relied on to keep whole numbers.
  \<^item> The range of 64 bit integers is not modelled.
\<close>

section \<open>State\<close>

record oscillator =
  nominalTickLength :: simtime
  driftRate :: real
  inverseDriftRate :: real
  oscOrigin :: simtime             \<comment> \<open>\<open>origin\<close>\<close>
  nextTickFromOrigin :: simtime

definition invertDriftRate :: "real \<Rightarrow> real" where
  "invertDriftRate r = 1 / (1 + r) - 1"

text \<open>\<open>increaseWithDriftRate\<close> and \<open>decreaseWithDriftRate\<close> are the same function of a value and a rate.\<close>

definition withDriftRate :: "int \<Rightarrow> real \<Rightarrow> int" where
  "withDriftRate v r = v + trunc_int (real_of_int v * r)"

definition getCurrentTickLength :: "(real \<Rightarrow> simtime) \<Rightarrow> oscillator \<Rightarrow> simtime" where
  "getCurrentTickLength rnd osc =
     rnd (real_of_int (nominalTickLength osc) + real_of_int (nominalTickLength osc) * inverseDriftRate osc)"

section \<open>Operations\<close>

text \<open>Initialization, from the parameters: the tick length (a double, here in ticks of the simulation time), the drift rate, the offset.\<close>

definition oscillatorInitialize :: "(real \<Rightarrow> simtime) \<Rightarrow> simtime \<Rightarrow> real \<Rightarrow> real \<Rightarrow> simtime \<Rightarrow> oscillator result" where
  "oscillatorInitialize rnd now tickPar drift tickOffset =
     (let nominal = rnd tickPar
      in rbind (if nominal = 0 then Inr 1
                else if \<bar>real_of_int nominal - tickPar\<bar> / tickPar > 1 / 10 ^ 15
                then Inl (RuntimeError ''The nominalTickLength parameter value cannot be accurately represented'')
                else Inr nominal) (\<lambda>nominal.
         let osc = \<lparr>nominalTickLength = nominal, driftRate = drift, inverseDriftRate = invertDriftRate drift,
                    oscOrigin = now, nextTickFromOrigin = 0\<rparr>;
             cur = getCurrentTickLength rnd osc
         in if tickOffset < 0 \<or> cur \<le> tickOffset
            then Inl (RuntimeError ''First tick offset must be in the range [0, currentTickLength)'')
            else Inr (osc\<lparr>nextTickFromOrigin := if tickOffset = 0 then 0 else cur - tickOffset\<rparr>)))"

text \<open>What has passed of the current tick.\<close>

definition elapsedTickTime :: "(real \<Rightarrow> simtime) \<Rightarrow> simtime \<Rightarrow> oscillator \<Rightarrow> simtime" where
  "elapsedTickTime rnd now osc =
     (let cur = getCurrentTickLength rnd osc; base = oscOrigin osc + nextTickFromOrigin osc - cur
      in crem (now - base) cur)"

definition setDriftRate :: "(real \<Rightarrow> simtime) \<Rightarrow> simtime \<Rightarrow> real \<Rightarrow> oscillator \<Rightarrow> oscillator" where
  "setDriftRate rnd now newDriftRate osc =
     (if newDriftRate \<noteq> driftRate osc
      then let cur = getCurrentTickLength rnd osc; elapsed = elapsedTickTime rnd now osc;
               inv = invertDriftRate newDriftRate
           in osc\<lparr>nextTickFromOrigin :=
                    (if elapsed = 0 then 0 else withDriftRate (withDriftRate (cur - elapsed) (driftRate osc)) inv),
                  driftRate := newDriftRate, inverseDriftRate := inv, oscOrigin := now\<rparr>
      else osc)"

definition setTickOffset :: "(real \<Rightarrow> simtime) \<Rightarrow> simtime \<Rightarrow> simtime \<Rightarrow> oscillator \<Rightarrow> oscillator" where
  "setTickOffset rnd now newTickOffset osc =
     (if newTickOffset \<noteq> elapsedTickTime rnd now osc
      then osc\<lparr>oscOrigin := now,
               nextTickFromOrigin := (if newTickOffset = 0 then 0 else getCurrentTickLength rnd osc - newTickOffset)\<rparr>
      else osc)"

definition ticksForInterval :: "oscillator \<Rightarrow> simtime \<Rightarrow> int" where
  "ticksForInterval osc t = cdiv (withDriftRate (t + nextTickFromOrigin osc) (driftRate osc)) (nominalTickLength osc)"

definition computeTicksForInterval :: "oscillator \<Rightarrow> simtime \<Rightarrow> int result" where
  "computeTicksForInterval osc t = rbind (ensure (0 \<le> t)) (\<lambda>_. Inr (ticksForInterval osc t))"

definition computeIntervalForTicks :: "oscillator \<Rightarrow> int \<Rightarrow> simtime" where
  "computeIntervalForTicks osc n =
     (if n = 0 then 0
      else if nextTickFromOrigin osc = 0 then withDriftRate (nominalTickLength osc * n) (inverseDriftRate osc)
      else withDriftRate (nominalTickLength osc * (n - 1)) (inverseDriftRate osc) + nextTickFromOrigin osc)"

text \<open>The random drift: a random walk between two limits around the initial rate. The timer calls it with a new step.\<close>

record random_drift =
  initialDriftRate :: real
  driftRateChangeTotal :: real
  driftLower :: real
  driftUpper :: real

definition changeTimerDue :: "(real \<Rightarrow> simtime) \<Rightarrow> simtime \<Rightarrow> real \<Rightarrow> random_drift \<times> oscillator \<Rightarrow> random_drift \<times> oscillator" where
  "changeTimerDue rnd now change = (\<lambda>(d, osc).
     let walk = min (max (driftRateChangeTotal d + change) (driftLower d)) (driftUpper d)
     in (d\<lparr>driftRateChangeTotal := walk\<rparr>, setDriftRate rnd now (initialDriftRate d + walk) osc))"

section \<open>Arithmetic of drift\<close>

lemma withDriftRate_zero [simp]: "withDriftRate v 0 = v" "withDriftRate 0 r = 0"
  by (simp_all add: withDriftRate_def trunc_int_def)

text \<open>A clock that is too fast rounds down, one that is too slow rounds up.\<close>

lemma withDriftRate_fast: "0 \<le> r \<Longrightarrow> 0 \<le> v \<Longrightarrow> withDriftRate v r = \<lfloor>real_of_int v * (1 + r)\<rfloor>"
  by (simp add: withDriftRate_def trunc_int_def distrib_left)

lemma withDriftRate_slow: "r < 0 \<Longrightarrow> 0 \<le> v \<Longrightarrow> withDriftRate v r = \<lceil>real_of_int v * (1 + r)\<rceil>"
proof (cases "v = 0")
  case False
  assume "r < 0" "0 \<le> v"
  then have "real_of_int v * r < 0" using False by (simp add: mult_pos_neg)
  then show ?thesis by (simp add: withDriftRate_def trunc_int_def distrib_left) (linarith)
qed simp

lemma withDriftRate_mono:
  assumes "- 1 < r" "0 \<le> v" "v \<le> w"
  shows "withDriftRate v r \<le> withDriftRate w r"
proof -
  have "real_of_int v * (1 + r) \<le> real_of_int w * (1 + r)" using assms by (intro mult_right_mono) simp_all
  then show ?thesis using assms
    by (cases "0 \<le> r") (simp_all add: withDriftRate_fast withDriftRate_slow floor_mono ceiling_mono)
qed

lemma withDriftRate_nonneg: "- 1 < r \<Longrightarrow> 0 \<le> v \<Longrightarrow> 0 \<le> withDriftRate v r"
  using withDriftRate_mono [of r 0 v] by simp

lemma withDriftRate_near: "\<bar>real_of_int (withDriftRate v r) - real_of_int v * (1 + r)\<bar> < 1"
  unfolding withDriftRate_def trunc_int_def by (cases "0 \<le> real_of_int v * r") (simp_all add: distrib_left; linarith)+

text \<open>Stretching a whole number of nominal ticks and compressing it again loses less than one tick.\<close>

lemma drift_roundtrip:
  assumes "- 1 < r" "1 + r \<le> real_of_int N" "0 < N" "0 \<le> n"
  shows "withDriftRate (withDriftRate (N * n) (invertDriftRate r)) r div N = n"
proof -
  let ?y = "real_of_int (N * n)"
  have inv: "1 + invertDriftRate r = 1 / (1 + r)" by (simp add: invertDriftRate_def)
  have y: "0 \<le> N * n" "0 < 1 + r" using assms by simp_all
  have inv1: "- 1 < invertDriftRate r" using y(2) by (simp add: invertDriftRate_def)
  define d where "d = withDriftRate (N * n) (invertDriftRate r)"
  have d0: "0 \<le> d" unfolding d_def using y inv1 by (intro withDriftRate_nonneg) simp_all
  have w: "N * n \<le> withDriftRate d r \<and> withDriftRate d r < N * n + N"
  proof (cases "0 < r")
    case True
    have "d = \<lceil>?y / (1 + r)\<rceil>"
      unfolding d_def using True y inv by (subst withDriftRate_slow) (simp_all add: invertDriftRate_def)
    then have "?y / (1 + r) \<le> real_of_int d" "real_of_int d < ?y / (1 + r) + 1" by linarith+
    then have "?y \<le> real_of_int d * (1 + r)" "real_of_int d * (1 + r) < ?y + (1 + r)"
      using y(2) by (simp_all add: field_simps)
    then have "?y \<le> real_of_int d * (1 + r)" "real_of_int d * (1 + r) < ?y + real_of_int N" using assms(2) by simp_all
    moreover have "withDriftRate d r = \<lfloor>real_of_int d * (1 + r)\<rfloor>" using True d0 by (simp add: withDriftRate_fast)
    ultimately show ?thesis by (simp add: le_floor_iff floor_less_iff)
  next
    case False
    show ?thesis
    proof (cases "r = 0")
      case True
      then show ?thesis using assms by (simp add: d_def invertDriftRate_def)
    next
      case neg: False
      have "0 \<le> invertDriftRate r" using False y(2) by (simp add: invertDriftRate_def field_simps)
      then have "d = \<lfloor>?y / (1 + r)\<rfloor>" unfolding d_def using y inv by (subst withDriftRate_fast) simp_all
      then have "real_of_int d \<le> ?y / (1 + r)" "?y / (1 + r) - 1 < real_of_int d" by linarith+
      then have "real_of_int d * (1 + r) \<le> ?y" "?y - (1 + r) < real_of_int d * (1 + r)" using y(2) by (simp_all add: field_simps)
      moreover have "withDriftRate d r = \<lceil>real_of_int d * (1 + r)\<rceil>" using False neg d0 by (simp add: withDriftRate_slow)
      ultimately have "withDriftRate d r = N * n" using False by linarith
      then show ?thesis using assms by simp
    qed
  qed
  then have "withDriftRate d r div N = n"
    using assms(3) by (intro int_div_pos_eq [of _ _ _ "withDriftRate d r - N * n"]) (simp_all add: algebra_simps)
  then show ?thesis by (simp add: d_def)
qed
section \<open>Ticks\<close>

lemma le_div_iff:
  fixes N k x :: int
  assumes "0 < N"
  shows "k \<le> x div N \<longleftrightarrow> k * N \<le> x"
proof
  assume "k \<le> x div N"
  then have "k * N \<le> x div N * N" using assms by (intro mult_right_mono) simp_all
  also have "\<dots> = x - x mod N" by (rule minus_mod_eq_div_mult [symmetric])
  also have "\<dots> \<le> x" using assms by simp
  finally show "k * N \<le> x" .
next
  assume "k * N \<le> x"
  then have "k * N div N \<le> x div N" using assms by (rule zdiv_mono1)
  then show "k \<le> x div N" using assms by simp
qed

definition osc_ok :: "oscillator \<Rightarrow> bool" where
  "osc_ok osc \<longleftrightarrow> 0 < nominalTickLength osc \<and> - 1 < driftRate osc \<and> 1 + driftRate osc \<le> real_of_int (nominalTickLength osc)
     \<and> inverseDriftRate osc = invertDriftRate (driftRate osc) \<and> 0 \<le> nextTickFromOrigin osc"

lemma inverse_ok: "- 1 < r \<Longrightarrow> - 1 < invertDriftRate r"
  by (simp add: invertDriftRate_def)

lemma ticks_div:
  assumes "osc_ok osc" "0 \<le> t"
  shows "ticksForInterval osc t = withDriftRate (t + nextTickFromOrigin osc) (driftRate osc) div nominalTickLength osc"
    "0 \<le> withDriftRate (t + nextTickFromOrigin osc) (driftRate osc)"
proof -
  show g: "0 \<le> withDriftRate (t + nextTickFromOrigin osc) (driftRate osc)"
    using assms by (intro withDriftRate_nonneg) (simp_all add: osc_ok_def)
  show "ticksForInterval osc t = withDriftRate (t + nextTickFromOrigin osc) (driftRate osc) div nominalTickLength osc"
    using g assms(1) by (simp add: ticksForInterval_def cdiv_nonneg osc_ok_def)
qed

lemma ticks_mono:
  assumes "osc_ok osc" "0 \<le> s" "s \<le> t"
  shows "ticksForInterval osc s \<le> ticksForInterval osc t"
proof -
  have "withDriftRate (s + nextTickFromOrigin osc) (driftRate osc) \<le> withDriftRate (t + nextTickFromOrigin osc) (driftRate osc)"
    using assms by (intro withDriftRate_mono) (simp_all add: osc_ok_def)
  then show ?thesis using ticks_div(1) [OF assms(1), of s] ticks_div(1) [OF assms(1), of t] assms
    by (simp add: zdiv_mono1 osc_ok_def)
qed

lemma ticks_nonneg: "osc_ok osc \<Longrightarrow> 0 \<le> t \<Longrightarrow> 0 \<le> ticksForInterval osc t"
  using ticks_div [of osc t] by (simp add: pos_imp_zdiv_nonneg_iff osc_ok_def)

lemma interval_nonneg:
  assumes "osc_ok osc" "0 \<le> n"
  shows "0 \<le> computeIntervalForTicks osc n"
proof -
  have i: "- 1 < inverseDriftRate osc" using assms(1) inverse_ok by (simp add: osc_ok_def)
  have "0 \<le> withDriftRate (nominalTickLength osc * k) (inverseDriftRate osc)" if "0 \<le> k" for k
    using that i assms(1) by (intro withDriftRate_nonneg) (simp_all add: osc_ok_def)
  then show ?thesis using assms by (simp add: computeIntervalForTicks_def osc_ok_def)
qed

lemma ticks_of_interval:
  assumes "osc_ok osc" "nextTickFromOrigin osc = 0" "0 \<le> n"
  shows "ticksForInterval osc (computeIntervalForTicks osc n) = n"
  using assms ticks_div(1) [OF assms(1) interval_nonneg [OF assms(1,3)]] drift_roundtrip [of "driftRate osc" "nominalTickLength osc" n]
  by (cases "n = 0") (simp_all add: computeIntervalForTicks_def osc_ok_def)

text \<open>
  However fast or slow an oscillator is, the time it computes for a number of ticks is a time at which
  exactly that many ticks have passed, if it begins with a tick. For one that does not lose time against
  the simulation it is the first such time.
\<close>

theorem ticks_come_when_computed:
  assumes "osc_ok osc" "nextTickFromOrigin osc = 0" "0 \<le> n"
  shows "computeTicksForInterval osc (computeIntervalForTicks osc n) = Inr n
    \<and> (0 \<le> driftRate osc \<longrightarrow> (\<forall>t. 0 \<le> t \<and> t < computeIntervalForTicks osc n \<longrightarrow> ticksForInterval osc t < n))"
proof -
  have "ticksForInterval osc t < n" if r: "0 \<le> driftRate osc" and t: "0 \<le> t" "t < computeIntervalForTicks osc n" for t
  proof -
    let ?N = "nominalTickLength osc" and ?r = "driftRate osc"
    have ok: "0 < 1 + ?r" "0 < ?N" using assms(1) by (simp_all add: osc_ok_def)
    have "n \<noteq> 0" using t by (auto simp: computeIntervalForTicks_def)
    have "real_of_int t < real_of_int (?N * n) / (1 + ?r)"
    proof (cases "?r = 0")
      case True
      then have "t < ?N * n" using t assms \<open>n \<noteq> 0\<close> by (simp add: computeIntervalForTicks_def osc_ok_def invertDriftRate_def)
      then have "real_of_int t < real_of_int (?N * n)" by (simp only: of_int_less_iff)
      then show ?thesis using True by simp
    next
      case False
      then have "computeIntervalForTicks osc n = \<lceil>real_of_int (?N * n) / (1 + ?r)\<rceil>"
        using r assms \<open>n \<noteq> 0\<close> ok by (simp add: computeIntervalForTicks_def osc_ok_def) (subst withDriftRate_slow, simp_all add: invertDriftRate_def)
      then show ?thesis using t(2) by linarith
    qed
    then have "real_of_int t * (1 + ?r) < real_of_int (?N * n)" using ok by (simp add: field_simps)
    then have "withDriftRate t ?r < ?N * n" using r t(1) by (simp add: withDriftRate_fast floor_less_iff)
    then show ?thesis using ticks_div(1) [OF assms(1) t(1)] assms(2) ok le_div_iff [OF ok(2), of n "withDriftRate t ?r"] by (simp add: mult.commute)
  qed
  then show ?thesis using ticks_of_interval [OF assms] interval_nonneg [OF assms(1,3)] by (simp add: computeTicksForInterval_def)
qed

text \<open>The ticks in \<open>(0, t]\<close> of an oscillator whose first tick is at \<open>a\<close>, as the interface of oscillators defines them.\<close>

definition ticks_in :: "simtime \<Rightarrow> simtime \<Rightarrow> simtime \<Rightarrow> int" where
  "ticks_in N a t = (if t < a then 0 else (t - a) div N + 1)"

lemma ticks_in_card:
  assumes "0 < N"
  shows "ticks_in N a t = int (card {k :: nat. a + int k * N \<le> t})"
proof (cases "t < a")
  case True
  have "\<not> a + int k * N \<le> t" for k
    using True assms mult_nonneg_nonneg [of "int k" N] by linarith
  then have "{k :: nat. a + int k * N \<le> t} = {}" by blast
  then show ?thesis using True by (simp add: ticks_in_def)
next
  case False
  have "a + int k * N \<le> t \<longleftrightarrow> int k \<le> (t - a) div N" for k
    using le_div_iff [OF assms, of "int k" "t - a"] by linarith
  moreover have q: "0 \<le> (t - a) div N" using False assms by (simp add: pos_imp_zdiv_nonneg_iff)
  ultimately have "{k :: nat. a + int k * N \<le> t} = {..nat ((t - a) div N)}" by (simp only: atMost_def le_nat_iff [OF q])
  then show ?thesis using False q by (simp add: ticks_in_def)
qed

text \<open>
  An oscillator that does not begin with a tick counts the ticks of another one: the time to its first
  tick is taken for the time since its last one. With no drift, what it counts are the ticks of an
  oscillator whose first tick comes after the rest of the period.
\<close>

theorem phase_is_mirrored:
  assumes "0 < nominalTickLength osc" "driftRate osc = 0" "0 < nextTickFromOrigin osc" "nextTickFromOrigin osc < nominalTickLength osc" "0 \<le> t"
  shows "ticksForInterval osc t = int (card {k :: nat. (nominalTickLength osc - nextTickFromOrigin osc) + int k * nominalTickLength osc \<le> t})"
proof -
  let ?N = "nominalTickLength osc" and ?x = "nextTickFromOrigin osc"
  have "ticksForInterval osc t = (t + ?x) div ?N" using assms by (simp add: ticksForInterval_def cdiv_nonneg)
  also have "\<dots> = ticks_in ?N (?N - ?x) t"
  proof (cases "t < ?N - ?x")
    case True
    then show ?thesis using assms by (simp add: ticks_in_def)
  next
    case False
    have "(t + ?x) div ?N = (t - (?N - ?x) + ?N * 1) div ?N" by simp
    also have "\<dots> = (t - (?N - ?x)) div ?N + 1" using assms(1) by (subst div_mult_self2) simp_all
    finally show ?thesis using False by (simp add: ticks_in_def)
  qed
  finally show ?thesis using ticks_in_card [OF assms(1)] by simp
qed

text \<open>
  Hence the two computations of an oscillator fit together exactly if its first tick comes in the
  second half of a period or at once. Otherwise a timer set for a tick rings one tick before it.
\<close>

theorem early_ticks_ring_early:
  assumes "0 < nominalTickLength osc" "driftRate osc = 0" "inverseDriftRate osc = 0" "0 < n"
    and "0 \<le> nextTickFromOrigin osc" "nextTickFromOrigin osc < nominalTickLength osc"
  shows "ticksForInterval osc (computeIntervalForTicks osc n)
    = (if nextTickFromOrigin osc = 0 \<or> nominalTickLength osc \<le> 2 * nextTickFromOrigin osc then n else n - 1)"
proof -
  let ?N = "nominalTickLength osc" and ?x = "nextTickFromOrigin osc"
  show ?thesis
  proof (cases "?x = 0")
    case True
    then show ?thesis using assms by (simp add: ticksForInterval_def computeIntervalForTicks_def cdiv_nonneg)
  next
    case False
    have "0 \<le> 2 * ?x + ?N * (n - 1)" using assms by (intro add_nonneg_nonneg mult_nonneg_nonneg) simp_all
    moreover have "computeIntervalForTicks osc n + ?x = 2 * ?x + ?N * (n - 1)"
      using assms False by (simp add: computeIntervalForTicks_def)
    ultimately have "ticksForInterval osc (computeIntervalForTicks osc n) = (2 * ?x + ?N * (n - 1)) div ?N"
      using assms by (simp add: ticksForInterval_def cdiv_nonneg)
    also have "\<dots> = 2 * ?x div ?N + (n - 1)" using assms(1) by (subst div_mult_self2) simp_all
    also have "2 * ?x div ?N = (if ?N \<le> 2 * ?x then 1 else 0)"
      using assms by (simp add: int_div_pos_eq [of _ _ 1 "2 * ?x - ?N"])
    finally show ?thesis using False by simp
  qed
qed

text \<open>
  The number of ticks follows the drift: up to two ticks the oscillator has counted its drifted time.
\<close>

theorem ticks_follow_drift:
  assumes "osc_ok osc" "0 \<le> t"
  shows "\<bar>real_of_int (nominalTickLength osc * ticksForInterval osc t) - real_of_int (t + nextTickFromOrigin osc) * (1 + driftRate osc)\<bar>
    < real_of_int (nominalTickLength osc) + 1"
proof -
  let ?N = "nominalTickLength osc" and ?w = "withDriftRate (t + nextTickFromOrigin osc) (driftRate osc)"
  have N: "0 < ?N" using assms(1) by (simp add: osc_ok_def)
  have "?w = ?N * ticksForInterval osc t + ?w mod ?N" using ticks_div(1) [OF assms] by (metis mult_div_mod_eq)
  moreover have "0 \<le> ?w mod ?N" "?w mod ?N < ?N" using N by simp_all
  ultimately have "\<bar>real_of_int (?N * ticksForInterval osc t) - real_of_int ?w\<bar> < real_of_int ?N" by linarith
  then show ?thesis using withDriftRate_near [of "t + nextTickFromOrigin osc" "driftRate osc"] by linarith
qed
section \<open>Changes of the drift\<close>

text \<open>A rounding keeps whole numbers and the order.\<close>

definition rounding :: "(real \<Rightarrow> simtime) \<Rightarrow> bool" where
  "rounding rnd \<longleftrightarrow> (\<forall>n. rnd (real_of_int n) = n) \<and> (\<forall>x y. x \<le> y \<longrightarrow> rnd x \<le> rnd y)"

lemma rounding_exact: "rounding rnd \<Longrightarrow> rnd (real_of_int n) = n"
  by (simp add: rounding_def)

lemma rounding_mono: "rounding rnd \<Longrightarrow> x \<le> y \<Longrightarrow> rnd x \<le> rnd y"
  by (simp add: rounding_def)

lemma floor_rounding: "rounding floor"
  by (simp add: rounding_def floor_mono)

lemma currentTick_pos:
  assumes "rounding rnd" "osc_ok osc"
  shows "0 < getCurrentTickLength rnd osc"
proof -
  have "1 \<le> real_of_int (nominalTickLength osc) / (1 + driftRate osc)" using assms(2) by (simp add: osc_ok_def)
  also have "\<dots> = real_of_int (nominalTickLength osc) + real_of_int (nominalTickLength osc) * inverseDriftRate osc"
  proof -
    have "1 + inverseDriftRate osc = 1 / (1 + driftRate osc)" using assms(2) by (simp add: osc_ok_def invertDriftRate_def)
    then show ?thesis by (metis distrib_left mult.right_neutral times_divide_eq_right)
  qed
  finally have "rnd (real_of_int 1) \<le> getCurrentTickLength rnd osc" unfolding getCurrentTickLength_def
    using rounding_mono [OF assms(1)] by simp
  then show ?thesis using rounding_exact [OF assms(1), of 1] by simp
qed

lemma remaining_pos:
  assumes "rounding rnd" "osc_ok osc"
  shows "0 < getCurrentTickLength rnd osc - elapsedTickTime rnd now osc"
  using crem_bounds [OF currentTick_pos [OF assms]] by (simp add: elapsedTickTime_def Let_def)

lemma setDriftRate_ok:
  assumes "rounding rnd" "osc_ok osc" "- 1 < r" "1 + r \<le> real_of_int (nominalTickLength osc)"
  shows "osc_ok (setDriftRate rnd now r osc)"
proof -
  have "0 \<le> withDriftRate (withDriftRate (getCurrentTickLength rnd osc - elapsedTickTime rnd now osc) (driftRate osc)) (invertDriftRate r)"
    using remaining_pos [OF assms(1,2), of now] assms(2,3) inverse_ok by (intro withDriftRate_nonneg) (simp_all add: osc_ok_def)
  then show ?thesis using assms by (simp add: setDriftRate_def osc_ok_def Let_def)
qed

lemma setTickOffset_ok:
  assumes "osc_ok osc" "x \<le> getCurrentTickLength rnd osc"
  shows "osc_ok (setTickOffset rnd now x osc)"
  using assms by (simp add: setTickOffset_def osc_ok_def)

lemma near_trans: "\<bar>a - b\<bar> < e \<Longrightarrow> \<bar>b - c\<bar> < e' \<Longrightarrow> \<bar>a - c\<bar> < e + (e' :: real)"
  by linarith

text \<open>
  When the drift changes in the middle of a tick, the rest of the tick is stretched or compressed by
  the ratio of the rates, up to the rounding of the two conversions.
\<close>

theorem rest_of_tick_is_rescaled:
  assumes "- 1 < driftRate osc" "- 1 < r" "r \<noteq> driftRate osc" "elapsedTickTime rnd now osc \<noteq> 0"
  defines "rest \<equiv> real_of_int (getCurrentTickLength rnd osc - elapsedTickTime rnd now osc)"
  shows "\<bar>real_of_int (nextTickFromOrigin (setDriftRate rnd now r osc)) - rest * (1 + driftRate osc) / (1 + r)\<bar> < 1 + 1 / (1 + r)"
proof -
  let ?w = "withDriftRate (getCurrentTickLength rnd osc - elapsedTickTime rnd now osc) (driftRate osc)"
  have p: "0 < 1 + r" using assms(2) by simp
  have "\<bar>real_of_int ?w - rest * (1 + driftRate osc)\<bar> < 1" unfolding rest_def by (rule withDriftRate_near)
  then have "\<bar>real_of_int ?w - rest * (1 + driftRate osc)\<bar> / (1 + r) < 1 / (1 + r)" using p by (simp add: divide_strict_right_mono)
  then have w: "\<bar>real_of_int ?w / (1 + r) - rest * (1 + driftRate osc) / (1 + r)\<bar> < 1 / (1 + r)"
    using p by (simp add: abs_divide diff_divide_distrib [symmetric])
  have "\<bar>real_of_int (withDriftRate ?w (invertDriftRate r)) - real_of_int ?w / (1 + r)\<bar> < 1"
    using withDriftRate_near [of ?w "invertDriftRate r"] by (simp add: invertDriftRate_def)
  moreover have "nextTickFromOrigin (setDriftRate rnd now r osc) = withDriftRate ?w (invertDriftRate r)"
    using assms(3,4) by (simp add: setDriftRate_def Let_def)
  ultimately show ?thesis using near_trans [OF _ w] by simp
qed

text \<open>An oscillator whose drift and offset are set again and again.\<close>

inductive oscillator_run :: "(real \<Rightarrow> simtime) \<Rightarrow> oscillator \<Rightarrow> oscillator \<Rightarrow> bool" for rnd where
  begins: "oscillator_run rnd osc osc"
| drifts: "oscillator_run rnd osc osc1 \<Longrightarrow> - 1 < r \<Longrightarrow> 1 + r \<le> real_of_int (nominalTickLength osc1) \<Longrightarrow>
     oscillator_run rnd osc (setDriftRate rnd now r osc1)"
| shifts: "oscillator_run rnd osc osc1 \<Longrightarrow> x \<le> getCurrentTickLength rnd osc1 \<Longrightarrow>
     oscillator_run rnd osc (setTickOffset rnd now x osc1)"

lemma oscillator_run_ok:
  assumes "rounding rnd"
  shows "oscillator_run rnd osc osc' \<Longrightarrow> osc_ok osc \<Longrightarrow> osc_ok osc'"
  by (induction rule: oscillator_run.induct) (simp_all add: setDriftRate_ok [OF assms] setTickOffset_ok)

text \<open>
  An oscillator never fails after an initialization that succeeds: whatever rates and offsets are set
  later, as long as a rate is more than \<open>-1\<close> and less than the tick length and an offset no more than a tick,
  the number of ticks can be computed for every time and grows with it.
\<close>

theorem oscillator_keeps_ticking:
  assumes "rounding rnd" "oscillatorInitialize rnd now tickPar drift off = Inr osc"
    and "0 < tickPar" "- 1 < drift" "1 + drift \<le> real_of_int (nominalTickLength osc)"
    and "oscillator_run rnd osc osc'" "0 \<le> s" "s \<le> t"
  shows "\<exists>m n. computeTicksForInterval osc' s = Inr m \<and> computeTicksForInterval osc' t = Inr n \<and> 0 \<le> m \<and> m \<le> n"
proof -
  obtain N where N: "N = (if rnd tickPar = 0 then 1 else rnd tickPar)" "nominalTickLength osc = N" "driftRate osc = drift"
    "inverseDriftRate osc = invertDriftRate drift" "0 \<le> nextTickFromOrigin osc"
    using assms(2) by (auto simp: oscillatorInitialize_def rbind_Inr_iff Let_def split: if_splits)
  have "0 \<le> rnd tickPar" using rounding_mono [OF assms(1), of 0 tickPar] rounding_exact [OF assms(1), of 0] assms(3) by simp
  then have "osc_ok osc" using N assms(4,5) by (auto simp: osc_ok_def)
  then have "osc_ok osc'" using oscillator_run_ok [OF assms(1,6)] by blast
  then show ?thesis using ticks_mono [of osc' s t] ticks_nonneg [of osc' s] assms(7,8) by (simp add: computeTicksForInterval_def)
qed

text \<open>
  A random drift stays within its limits around the initial rate, whatever steps are drawn.\<close>

theorem random_drift_is_bounded:
  assumes "driftLower d \<le> driftUpper d" "changeTimerDue rnd now change (d, osc) = (d', osc')"
  shows "driftRate osc' = initialDriftRate d + driftRateChangeTotal d' \<and> driftLower d \<le> driftRateChangeTotal d' \<and> driftRateChangeTotal d' \<le> driftUpper d"
  using assms by (auto simp: changeTimerDue_def Let_def setDriftRate_def)

section \<open>Examples\<close>

definition demo_oscillator :: "simtime \<Rightarrow> oscillator" where
  "demo_oscillator x = \<lparr>nominalTickLength = 10, driftRate = 0, inverseDriftRate = 0, oscOrigin = 0, nextTickFromOrigin = x\<rparr>"

definition fast_oscillator :: oscillator where
  "fast_oscillator = \<lparr>nominalTickLength = 10, driftRate = 1 / 4, inverseDriftRate = invertDriftRate (1 / 4), oscOrigin = 0, nextTickFromOrigin = 0\<rparr>"

lemma ticks_come_when_computed_witness:
  "computeTicksForInterval fast_oscillator (computeIntervalForTicks fast_oscillator 3) = Inr 3 \<and> ticksForInterval fast_oscillator 23 < 3"
proof -
  have "osc_ok fast_oscillator" by (simp add: osc_ok_def fast_oscillator_def)
  moreover have "computeIntervalForTicks fast_oscillator 3 = 24"
    by (simp add: computeIntervalForTicks_def fast_oscillator_def withDriftRate_def trunc_int_def invertDriftRate_def)
  ultimately show ?thesis using ticks_come_when_computed [of fast_oscillator 3] by (simp add: fast_oscillator_def)
qed

lemma phase_is_mirrored_witness:
  "ticksForInterval (demo_oscillator 3) 6 = int (card {k :: nat. 7 + int k * 10 \<le> 6})"
  using phase_is_mirrored [of "demo_oscillator 3" 6] by (simp add: demo_oscillator_def)

lemma early_ticks_ring_early_witness:
  "ticksForInterval (demo_oscillator 3) (computeIntervalForTicks (demo_oscillator 3) 5) = 4"
  using early_ticks_ring_early [of "demo_oscillator 3" 5] by (simp add: demo_oscillator_def)

lemma ticks_follow_drift_witness:
  "\<bar>real_of_int (10 * ticksForInterval fast_oscillator 100) - 125\<bar> < 11"
  using ticks_follow_drift [of fast_oscillator 100] by (simp add: fast_oscillator_def osc_ok_def)

lemma rest_of_tick_is_rescaled_witness:
  "\<bar>real_of_int (nextTickFromOrigin (setDriftRate floor 4 1 (demo_oscillator 0))) - 3\<bar> < 3 / 2"
proof -
  have "getCurrentTickLength floor (demo_oscillator 0) = 10" "elapsedTickTime floor 4 (demo_oscillator 0) = 4"
    by (simp_all add: getCurrentTickLength_def elapsedTickTime_def demo_oscillator_def crem_def)
  then show ?thesis using rest_of_tick_is_rescaled [of "demo_oscillator 0" 1 floor 4] by (simp add: demo_oscillator_def)
qed

lemma oscillator_keeps_ticking_witness:
  "\<exists>m n. computeTicksForInterval (setDriftRate floor 7 (1 / 5) (demo_oscillator 6)) 0 = Inr m
    \<and> computeTicksForInterval (setDriftRate floor 7 (1 / 5) (demo_oscillator 6)) 100 = Inr n \<and> 0 \<le> m \<and> m \<le> n"
proof (rule oscillator_keeps_ticking [OF floor_rounding])
  show "oscillatorInitialize floor 0 10 0 4 = Inr (demo_oscillator 6)"
    by (simp add: oscillatorInitialize_def getCurrentTickLength_def demo_oscillator_def invertDriftRate_def Let_def)
  show "oscillator_run floor (demo_oscillator 6) (setDriftRate floor 7 (1 / 5) (demo_oscillator 6))"
    by (rule oscillator_run.drifts [OF oscillator_run.begins]) (simp_all add: demo_oscillator_def)
qed (simp_all add: demo_oscillator_def)

lemma random_drift_is_bounded_witness:
  "driftRate (snd (changeTimerDue floor 7 5 (\<lparr>initialDriftRate = 0, driftRateChangeTotal = 0, driftLower = 0, driftUpper = 1\<rparr>, demo_oscillator 0))) = 1"
proof -
  let ?d = "\<lparr>initialDriftRate = 0, driftRateChangeTotal = 0, driftLower = 0, driftUpper = 1\<rparr> :: random_drift"
  obtain d' osc' where r: "changeTimerDue floor 7 5 (?d, demo_oscillator 0) = (d', osc')" by fastforce
  then have "driftRateChangeTotal d' = 1" by (auto simp: changeTimerDue_def Let_def)
  then show ?thesis using random_drift_is_bounded [OF _ r] r by simp
qed

end
