(* ===== verification/Clocks.thy ===== *)
theory Clocks
  imports Oscillators
begin

text \<open>
  Clocks driven by an oscillator (\<open>inet/clock/base/ClockBase\<close>, \<open>inet/clock/model/OscillatorBasedClock\<close>,
  \<open>inet/clock/model/SettableClock\<close>) and the events scheduled at times of a clock
  (\<open>inet/clock/common/ClockEvent\<close>). A clock counts the ticks of its oscillator; its events wait in the
  event queue of the simulation at the time at which the clock is expected to show theirs, and are
  rescheduled when the oscillator changes or the clock is set.

  \<^item> Events are known by numbers; \<open>eventData\<close> is what their objects hold, with the time at which the event
    waits in the event queue, if it does. Scheduling an event before the current time, or one that waits
    already, is an error of the simulation library.
  \<^item> \<open>now\<close> is the simulation time. Clock times and simulation times are both counted in ticks of the
    simulation time.
\<close>

section \<open>State\<close>

type_synonym clocktime = int
type_synonym event_id = nat

datatype overdue_mode = UNSPECIFIED | EXECUTE | SKIP | ERROR

datatype rounding_mode = RoundUp | RoundDown | RoundCloser | RoundNone

record clock_event =
  evRelative :: bool
  evArrival :: clocktime              \<comment> \<open>\<open>arrivalClockTime\<close>\<close>
  evMode :: overdue_mode
  evClock :: bool                     \<comment> \<open>whether \<open>clock\<close> is set\<close>
  evQueued :: "simtime option"        \<comment> \<open>the arrival time of an event in the event queue\<close>

record clock =
  osc :: oscillator
  constantDrift :: bool               \<comment> \<open>whether it is a \<open>ConstantDriftOscillator\<close>\<close>
  roundingFunction :: rounding_mode
  originSimulationTime :: simtime
  originClockTime :: clocktime
  oscillatorCompensation :: real
  clockEventTime :: clocktime
  clockEvents :: "event_id list"      \<comment> \<open>\<open>events\<close>\<close>
  defaultMode :: overdue_mode
  eventData :: "event_id \<Rightarrow> clock_event"

definition updateEvent :: "event_id \<Rightarrow> (clock_event \<Rightarrow> clock_event) \<Rightarrow> clock \<Rightarrow> clock" where
  "updateEvent e f c = c\<lparr>eventData := (eventData c)(e := f (eventData c e))\<rparr>"

text \<open>\<open>scheduleAt\<close>, \<open>rescheduleAt\<close> and \<open>cancelEvent\<close> of the simulation library.\<close>

definition simScheduleAt :: "simtime \<Rightarrow> simtime \<Rightarrow> event_id \<Rightarrow> clock \<Rightarrow> clock result" where
  "simScheduleAt now t e c =
     (if t < now then Inl (RuntimeError ''Cannot schedule message to the past'')
      else if evQueued (eventData c e) \<noteq> None then Inl (RuntimeError ''Cannot reschedule: message is already scheduled'')
      else Inr (updateEvent e (\<lambda>d. d\<lparr>evQueued := Some t\<rparr>) c))"

definition simRescheduleAt :: "simtime \<Rightarrow> simtime \<Rightarrow> event_id \<Rightarrow> clock \<Rightarrow> clock result" where
  "simRescheduleAt now t e c =
     (if t < now then Inl (RuntimeError ''Cannot schedule message to the past'')
      else Inr (updateEvent e (\<lambda>d. d\<lparr>evQueued := Some t\<rparr>) c))"

section \<open>Times\<close>

definition roundingOf :: "rounding_mode \<Rightarrow> int \<Rightarrow> int \<Rightarrow> int result" where
  "roundingOf m t l =
     (case m of
        RoundUp \<Rightarrow> Inr (cdiv (t + l - 1) l * l)
      | RoundDown \<Rightarrow> Inr (cdiv t l * l)
      | RoundCloser \<Rightarrow> Inr (cdiv (t + cdiv l 2) l * l)
      | RoundNone \<Rightarrow>
          if crem t l \<noteq> 0 then Inl (RuntimeError ''Clock time/delay value is not multiple of nominal tick length'')
          else Inr (cdiv t l))"

definition computeClockTimeFromSimTime :: "(real \<Rightarrow> simtime) \<Rightarrow> simtime \<Rightarrow> simtime \<Rightarrow> clock \<Rightarrow> clocktime result" where
  "computeClockTimeFromSimTime rnd now t c =
     rbind (ensure (now \<le> t)) (\<lambda>_.
     rbind (computeTicksForInterval (osc c) (t - oscOrigin (osc c))) (\<lambda>n.
     rbind (computeTicksForInterval (osc c) (originSimulationTime c - oscOrigin (osc c))) (\<lambda>n0.
       Inr (originClockTime c + rnd (real_of_int ((n - n0) * nominalTickLength (osc c)) * (1 + oscillatorCompensation c))))))"

definition getClockTime :: "(real \<Rightarrow> simtime) \<Rightarrow> simtime \<Rightarrow> clock \<Rightarrow> clocktime result" where
  "getClockTime rnd now c =
     (if clockEventTime c \<noteq> - simtime_s 1 then Inr (clockEventTime c) else computeClockTimeFromSimTime rnd now now c)"

definition computeSimTimeFromClockTime :: "(real \<Rightarrow> simtime) \<Rightarrow> simtime \<Rightarrow> clocktime \<Rightarrow> clock \<Rightarrow> simtime result" where
  "computeSimTimeFromClockTime rnd now t c =
     rbind (getClockTime rnd now c) (\<lambda>current.
     rbind (ensure (current \<le> t)) (\<lambda>_.
     rbind (computeTicksForInterval (osc c) (originSimulationTime c - oscOrigin (osc c))) (\<lambda>n0.
       Inr (oscOrigin (osc c) + computeIntervalForTicks (osc c)
              (trunc_int (real_of_int (t - originClockTime c) / real_of_int (nominalTickLength (osc c)) / (1 + oscillatorCompensation c)
                          + real_of_int n0))))))"

section \<open>Events\<close>

definition baseScheduleAt :: "(real \<Rightarrow> simtime) \<Rightarrow> simtime \<Rightarrow> clocktime \<Rightarrow> event_id \<Rightarrow> clock \<Rightarrow> clock result" where
  "baseScheduleAt rnd now t e c =
     rbind (getClockTime rnd now c) (\<lambda>current.
       if t < current then Inl (RuntimeError ''Cannot schedule clock event in the past'')
       else let c1 = updateEvent e (\<lambda>d. d\<lparr>evClock := True, evRelative := False, evArrival := t\<rparr>) c
            in rbind (computeSimTimeFromClockTime rnd now t c1) (\<lambda>s. simScheduleAt now s e c1))"

definition scheduleClockEventAt :: "(real \<Rightarrow> simtime) \<Rightarrow> simtime \<Rightarrow> clocktime \<Rightarrow> event_id \<Rightarrow> clock \<Rightarrow> clock result" where
  "scheduleClockEventAt rnd now t e c =
     rbind (roundingOf (roundingFunction c) t (nominalTickLength (osc c))) (\<lambda>rt.
     rbind (baseScheduleAt rnd now rt e c) (\<lambda>c1. Inr (c1\<lparr>clockEvents := clockEvents c1 @ [e]\<rparr>)))"

definition baseScheduleAfter :: "(real \<Rightarrow> simtime) \<Rightarrow> simtime \<Rightarrow> clocktime \<Rightarrow> event_id \<Rightarrow> clock \<Rightarrow> clock result" where
  "baseScheduleAfter rnd now delay e c =
     (if delay < 0 then Inl (RuntimeError ''Cannot schedule clock event with negative delay'')
      else rbind (getClockTime rnd now c) (\<lambda>current.
           let c1 = updateEvent e (\<lambda>d. d\<lparr>evClock := True, evRelative := True, evArrival := current + delay\<rparr>) c
           in rbind (if delay = 0 then Inr 0
                     else rbind (computeSimTimeFromClockTime rnd now (current + delay) c1) (\<lambda>s. Inr (s - now))) (\<lambda>wait.
              simScheduleAt now (now + wait) e c1)))"

definition scheduleClockEventAfter :: "(real \<Rightarrow> simtime) \<Rightarrow> simtime \<Rightarrow> clocktime \<Rightarrow> event_id \<Rightarrow> clock \<Rightarrow> clock result" where
  "scheduleClockEventAfter rnd now delay e c =
     rbind (roundingOf (roundingFunction c) delay (nominalTickLength (osc c))) (\<lambda>rd.
     rbind (baseScheduleAfter rnd now rd e c) (\<lambda>c1. Inr (c1\<lparr>clockEvents := clockEvents c1 @ [e]\<rparr>)))"

definition forget :: "event_id \<Rightarrow> clock \<Rightarrow> clock" where
  "forget e c = c\<lparr>clockEvents := filter (\<lambda>x. x \<noteq> e) (clockEvents c)\<rparr>"

definition cancelClockEvent :: "event_id \<Rightarrow> clock \<Rightarrow> clock" where
  "cancelClockEvent e c = updateEvent e (\<lambda>d. d\<lparr>evQueued := None, evClock := False\<rparr>) (forget e c)"

text \<open>
  An event that is taken from the event queue (\<open>ClockEvent::execute\<close> and \<open>handleClockEvent\<close>): while its
  receiver runs the clock shows the arrival time of the event. What the receiver does are the calls
  between the two halves.
\<close>

definition clockEventBegins :: "event_id \<Rightarrow> clock \<Rightarrow> clock" where
  "clockEventBegins e c =
     (let c1 = updateEvent e (\<lambda>d. d\<lparr>evQueued := None\<rparr>) (forget e c)
      in updateEvent e (\<lambda>d. d\<lparr>evClock := False\<rparr>) (c1\<lparr>clockEventTime := evArrival (eventData c1 e)\<rparr>))"

definition clockEventEnds :: "clock \<Rightarrow> clock" where
  "clockEventEnds c = c\<lparr>clockEventTime := - simtime_s 1\<rparr>"

section \<open>Changes of the oscillator\<close>

text \<open>\<open>receiveSignal\<close>, before and after the oscillator changes.\<close>

definition preOscillatorStateChanged :: "(real \<Rightarrow> simtime) \<Rightarrow> simtime \<Rightarrow> clock \<Rightarrow> clock result" where
  "preOscillatorStateChanged rnd now c =
     rbind (getClockTime rnd now c) (\<lambda>t. Inr (c\<lparr>originClockTime := t, originSimulationTime := now\<rparr>))"

text \<open>Both branches reschedule the event to the time its arrival time now has.\<close>

definition rescheduleEvent :: "(real \<Rightarrow> simtime) \<Rightarrow> simtime \<Rightarrow> clock \<Rightarrow> event_id \<Rightarrow> clock result" where
  "rescheduleEvent rnd now c e =
     rbind (computeSimTimeFromClockTime rnd now (evArrival (eventData c e)) c) (\<lambda>s.
       if evRelative (eventData c e)
       then rbind (ensure (0 \<le> s - now)) (\<lambda>_. simRescheduleAt now (now + (s - now)) e c)
       else rbind (ensure (now \<le> s)) (\<lambda>_. simRescheduleAt now s e c))"

definition postOscillatorStateChanged :: "(real \<Rightarrow> simtime) \<Rightarrow> simtime \<Rightarrow> clock \<Rightarrow> clock result" where
  "postOscillatorStateChanged rnd now c =
     rbind (foldM (rescheduleEvent rnd now) c (clockEvents c)) (\<lambda>c1.
     rbind (getClockTime rnd now c1) (\<lambda>_. Inr c1))"

definition changeOscillator :: "(real \<Rightarrow> simtime) \<Rightarrow> simtime \<Rightarrow> (oscillator \<Rightarrow> oscillator) \<Rightarrow> clock \<Rightarrow> clock result" where
  "changeOscillator rnd now f c =
     rbind (preOscillatorStateChanged rnd now c) (\<lambda>c1. postOscillatorStateChanged rnd now (c1\<lparr>osc := f (osc c1)\<rparr>))"

text \<open>The oscillator of a clock signals a change only if there is one.\<close>

definition clockSetDriftRate :: "(real \<Rightarrow> simtime) \<Rightarrow> simtime \<Rightarrow> real \<Rightarrow> clock \<Rightarrow> clock result" where
  "clockSetDriftRate rnd now r c =
     (if r \<noteq> driftRate (osc c) then changeOscillator rnd now (setDriftRate rnd now r) c else Inr c)"

definition clockSetTickOffset :: "(real \<Rightarrow> simtime) \<Rightarrow> simtime \<Rightarrow> simtime \<Rightarrow> clock \<Rightarrow> clock result" where
  "clockSetTickOffset rnd now x c =
     (if x \<noteq> elapsedTickTime rnd now (osc c) then changeOscillator rnd now (setTickOffset rnd now x) c else Inr c)"

section \<open>Setting the clock\<close>

text \<open>
  What to do with an event the clock has passed; skipping it cancels it, which takes it out of the vector
  of events the caller loops over.
\<close>

definition handleOverdueClockEvent :: "event_id \<Rightarrow> simtime \<Rightarrow> clock \<Rightarrow> (clock \<times> simtime) result" where
  "handleOverdueClockEvent e t c =
     (case (if evMode (eventData c e) = UNSPECIFIED then defaultMode c else evMode (eventData c e)) of
        EXECUTE \<Rightarrow> Inr (c, t)
      | SKIP \<Rightarrow> Inr (cancelClockEvent e c, - simtime_s 1)
      | ERROR \<Rightarrow> Inl (RuntimeError ''Clock event is overdue'')
      | UNSPECIFIED \<Rightarrow> Inl (RuntimeError ''Unknown overdue clock event handling mode''))"

definition adjustEvent :: "(real \<Rightarrow> simtime) \<Rightarrow> simtime \<Rightarrow> clocktime \<Rightarrow> clocktime \<Rightarrow> event_id \<Rightarrow> clock \<Rightarrow> clock result" where
  "adjustEvent rnd now newClockTime clockDelta e c =
     (if evRelative (eventData c e) then Inr (updateEvent e (\<lambda>d. d\<lparr>evArrival := evArrival d + clockDelta\<rparr>) c)
      else let arrival = evArrival (eventData c e); isOverdue = arrival < newClockTime
           in rbind (if isOverdue then Inr (- simtime_s 1) else computeSimTimeFromClockTime rnd now arrival c) (\<lambda>s.
              rbind (if isOverdue \<or> s < now then handleOverdueClockEvent e now c else Inr (c, s)) (\<lambda>(c1, s1).
                if evQueued (eventData c1 e) \<noteq> None then simRescheduleAt now s1 e c1 else Inr c1)))"

text \<open>
  The loop over the events walks over the memory of a vector it may shorten: when an event is taken out,
  the later ones move down and the last one stays behind the new end. \<open>mem\<close> is that memory and \<open>live\<close>
  the number of its events that are still in the vector.
\<close>

fun adjustEvents ::
    "(real \<Rightarrow> simtime) \<Rightarrow> simtime \<Rightarrow> clocktime \<Rightarrow> clocktime \<Rightarrow> nat list \<Rightarrow> event_id list \<Rightarrow> clock \<Rightarrow> clock result" where
  "adjustEvents rnd now newClockTime clockDelta [] mem c = Inr c"
| "adjustEvents rnd now newClockTime clockDelta (i # js) mem c =
     rbind (adjustEvent rnd now newClockTime clockDelta (mem ! i) c) (\<lambda>c1.
       adjustEvents rnd now newClockTime clockDelta js (clockEvents c1 @ drop (length (clockEvents c1)) mem) c1)"

definition setClockTime :: "(real \<Rightarrow> simtime) \<Rightarrow> simtime \<Rightarrow> clocktime \<Rightarrow> real \<Rightarrow> bool \<Rightarrow> clock \<Rightarrow> clock result" where
  "setClockTime rnd now newClockTime compensation resetOscillator c =
     rbind (getClockTime rnd now c) (\<lambda>oldClockTime.
       if newClockTime = oldClockTime then Inr c
       else rbind (if resetOscillator \<and> constantDrift c then clockSetTickOffset rnd now 0 c else Inr c) (\<lambda>c1.
            let c2 = c1\<lparr>originSimulationTime := now, originClockTime := newClockTime, oscillatorCompensation := compensation\<rparr>
            in rbind (getClockTime rnd now c2) (\<lambda>t.
               rbind (ensure (newClockTime = t)) (\<lambda>_.
                 adjustEvents rnd now newClockTime (newClockTime - oldClockTime) [0..<length (clockEvents c2)] (clockEvents c2) c2))))"

text \<open>Initialization; the parameter \<open>initialClockTime\<close> has to be a multiple of the tick length.\<close>

definition clockInitialize :: "simtime \<Rightarrow> clocktime \<Rightarrow> rounding_mode \<Rightarrow> overdue_mode \<Rightarrow> bool \<Rightarrow> oscillator \<Rightarrow> clock result" where
  "clockInitialize now initialClockTime mode overdue constant o1 =
     (if crem initialClockTime (nominalTickLength o1) \<noteq> 0
      then Inl (RuntimeError ''Initial clock time must be a multiple of the oscillator nominal tick length'')
      else Inr \<lparr>osc = o1, constantDrift = constant, roundingFunction = mode, originSimulationTime = now, originClockTime = initialClockTime,
             oscillatorCompensation = 0, clockEventTime = - simtime_s 1, clockEvents = [], defaultMode = overdue,
             eventData = (\<lambda>_. \<lparr>evRelative = False, evArrival = - simtime_s 1, evMode = UNSPECIFIED, evClock = False, evQueued = None\<rparr>)\<rparr>)"
section \<open>What a clock shows\<close>

text \<open>The time a clock shows at a time, and the time at which it is expected to show one.\<close>

definition shownAt :: "(real \<Rightarrow> simtime) \<Rightarrow> clock \<Rightarrow> simtime \<Rightarrow> clocktime" where
  "shownAt rnd c t = originClockTime c
     + rnd (real_of_int ((ticksForInterval (osc c) (t - oscOrigin (osc c)) - ticksForInterval (osc c) (originSimulationTime c - oscOrigin (osc c)))
            * nominalTickLength (osc c)) * (1 + oscillatorCompensation c))"

definition expectedAt :: "clock \<Rightarrow> clocktime \<Rightarrow> simtime" where
  "expectedAt c t = oscOrigin (osc c) + computeIntervalForTicks (osc c)
     (trunc_int (real_of_int (t - originClockTime c) / real_of_int (nominalTickLength (osc c)) / (1 + oscillatorCompensation c)
        + real_of_int (ticksForInterval (osc c) (originSimulationTime c - oscOrigin (osc c)))))"

definition clock_ok :: "simtime \<Rightarrow> clock \<Rightarrow> bool" where
  "clock_ok now c \<longleftrightarrow> osc_ok (osc c) \<and> oscOrigin (osc c) \<le> originSimulationTime c \<and> originSimulationTime c \<le> now
     \<and> - 1 < oscillatorCompensation c"

abbreviation idle :: "clock \<Rightarrow> bool" where "idle c \<equiv> clockEventTime c = - simtime_s 1"

lemma updateEvent_fields [simp, frame_laws]:
  "osc (updateEvent e f c) = osc c" "constantDrift (updateEvent e f c) = constantDrift c" "roundingFunction (updateEvent e f c) = roundingFunction c"
  "originSimulationTime (updateEvent e f c) = originSimulationTime c" "originClockTime (updateEvent e f c) = originClockTime c"
  "oscillatorCompensation (updateEvent e f c) = oscillatorCompensation c" "clockEventTime (updateEvent e f c) = clockEventTime c"
  "clockEvents (updateEvent e f c) = clockEvents c" "defaultMode (updateEvent e f c) = defaultMode c"
  "eventData (updateEvent e f c) = (eventData c)(e := f (eventData c e))"
  by (simp_all add: updateEvent_def)

lemma shownAt_update [simp, frame_laws]: "shownAt rnd (updateEvent e f c) t = shownAt rnd c t"
  "expectedAt (updateEvent e f c) t = expectedAt c t" "clock_ok now (updateEvent e f c) = clock_ok now c"
  by (simp_all add: shownAt_def expectedAt_def clock_ok_def)

lemma computeClockTime_ok:
  "clock_ok now c \<Longrightarrow> now \<le> t \<Longrightarrow> computeClockTimeFromSimTime rnd now t c = Inr (shownAt rnd c t)"
  by (simp add: computeClockTimeFromSimTime_def computeTicksForInterval_def shownAt_def clock_ok_def)

lemma getClockTime_idle: "clock_ok now c \<Longrightarrow> idle c \<Longrightarrow> getClockTime rnd now c = Inr (shownAt rnd c now)"
  by (simp add: getClockTime_def computeClockTime_ok)

lemma computeSimTime_ok:
  "clock_ok now c \<Longrightarrow> idle c \<Longrightarrow>
     computeSimTimeFromClockTime rnd now t c = (if shownAt rnd c now \<le> t then Inr (expectedAt c t) else Inl AssertionFailed)"
  by (simp add: computeSimTimeFromClockTime_def getClockTime_idle computeTicksForInterval_def expectedAt_def clock_ok_def)

lemma computeSimTime_Inr:
  assumes "clock_ok now c" "computeSimTimeFromClockTime rnd now t c = Inr s"
  shows "s = expectedAt c t"
  using assms by (auto simp: computeSimTimeFromClockTime_def computeTicksForInterval_def expectedAt_def clock_ok_def rbind_Inr_iff)

lemma shownAt_mono:
  assumes "rounding rnd" "clock_ok now c" "now \<le> s" "s \<le> t"
  shows "shownAt rnd c s \<le> shownAt rnd c t"
proof -
  have "ticksForInterval (osc c) (s - oscOrigin (osc c)) \<le> ticksForInterval (osc c) (t - oscOrigin (osc c))"
    using assms(2-4) by (intro ticks_mono) (simp_all add: clock_ok_def)
  then have "real_of_int ((ticksForInterval (osc c) (s - oscOrigin (osc c)) - k) * nominalTickLength (osc c)) * (1 + oscillatorCompensation c)
      \<le> real_of_int ((ticksForInterval (osc c) (t - oscOrigin (osc c)) - k) * nominalTickLength (osc c)) * (1 + oscillatorCompensation c)" for k
    using assms(2) by (intro mult_right_mono of_int_le_iff [THEN iffD2]) (simp_all add: clock_ok_def osc_ok_def)
  then show ?thesis unfolding shownAt_def using rounding_mono [OF assms(1)] by (intro add_left_mono) blast
qed

lemma shownAt_exact:
  assumes "rounding rnd" "oscillatorCompensation c = 0"
  shows "shownAt rnd c t = originClockTime c + (ticksForInterval (osc c) (t - oscOrigin (osc c))
    - ticksForInterval (osc c) (originSimulationTime c - oscOrigin (osc c))) * nominalTickLength (osc c)"
  unfolding shownAt_def assms(2) using rounding_exact [OF assms(1)] by (simp del: of_int_mult of_int_diff)

text \<open>
  C20. A clock whose oscillator began with a tick and is not compensated keeps its word: the simulation time
  it computes for one of its times still to come that lies on a tick is in the future, and at that time it
  shows exactly that time - however fast or slow its oscillator is. In another phase of the oscillator it
  may ring a tick early (\<open>early_ticks_ring_early\<close>).
\<close>

theorem clock_keeps_appointments:
  assumes "rounding rnd" "clock_ok now c" "idle c" "oscillatorCompensation c = 0" "nextTickFromOrigin (osc c) = 0"
    and "getClockTime rnd now c = Inr current" "current < t" "nominalTickLength (osc c) dvd t - originClockTime c"
  shows "\<exists>s. computeSimTimeFromClockTime rnd now t c = Inr s \<and> now < s \<and> computeClockTimeFromSimTime rnd now s c = Inr t"
proof -
  let ?N = "nominalTickLength (osc c)" and ?o = "oscOrigin (osc c)"
  let ?n0 = "ticksForInterval (osc c) (originSimulationTime c - ?o)"
  have ok: "osc_ok (osc c)" "0 < ?N" "?o \<le> originSimulationTime c" "originSimulationTime c \<le> now"
    using assms(2) by (simp_all add: clock_ok_def osc_ok_def)
  obtain k where k: "t - originClockTime c = ?N * k" using assms(8) by blast
  have now: "shownAt rnd c now < t" using assms(6,7) getClockTime_idle [OF assms(2,3)] by simp
  have n0: "0 \<le> ?n0" "?n0 \<le> ticksForInterval (osc c) (now - ?o)" using ok by (simp_all add: ticks_nonneg ticks_mono)
  have "(ticksForInterval (osc c) (now - ?o) - ?n0) * ?N < k * ?N"
    using now shownAt_exact [OF assms(1,4), of now] k by (simp add: algebra_simps)
  then have now_k: "ticksForInterval (osc c) (now - ?o) < k + ?n0" using ok(2) by (simp add: mult_less_cancel_right)
  have e: "expectedAt c t = ?o + computeIntervalForTicks (osc c) (k + ?n0)"
    using ok(2) trunc_int_of_int [of "k + ?n0"] by (simp add: expectedAt_def k assms(4))
  define s where "s = expectedAt c t"
  have s0: "0 \<le> s - ?o" "ticksForInterval (osc c) (s - ?o) = k + ?n0"
    using ticks_of_interval [OF ok(1) assms(5), of "k + ?n0"] interval_nonneg [OF ok(1), of "k + ?n0"] now_k n0 by (simp_all add: s_def e)
  have "now < s"
  proof (rule ccontr)
    assume "\<not> now < s"
    then have "ticksForInterval (osc c) (s - ?o) \<le> ticksForInterval (osc c) (now - ?o)" using s0(1) ok by (intro ticks_mono) simp_all
    then show False using s0(2) now_k by simp
  qed
  moreover have "shownAt rnd c s = t" using shownAt_exact [OF assms(1,4), of s] s0(2) k by (simp add: algebra_simps)
  ultimately show ?thesis using computeSimTime_ok [OF assms(2,3), of rnd t] computeClockTime_ok [OF assms(2), of s rnd] now by (simp add: s_def)
qed
section \<open>Events wait for the right time\<close>

text \<open>Every event of a clock waits, once, for the time its arrival time is expected at.\<close>

definition events_ok :: "clock \<Rightarrow> bool" where
  "events_ok c \<longleftrightarrow> distinct (clockEvents c)
     \<and> (\<forall>e \<in> set (clockEvents c). evQueued (eventData c e) = Some (expectedAt c (evArrival (eventData c e))))"

lemma events_ok_D: "events_ok c \<Longrightarrow> e \<in> set (clockEvents c) \<Longrightarrow> evQueued (eventData c e) = Some (expectedAt c (evArrival (eventData c e)))"
  by (simp add: events_ok_def)

text \<open>What scheduling does to a clock: nothing but to an event.\<close>

definition event_added :: "event_id \<Rightarrow> clock_event \<Rightarrow> clock \<Rightarrow> clock \<Rightarrow> bool" where
  "event_added e d c c' \<longleftrightarrow> c' = c\<lparr>eventData := (eventData c)(e := d), clockEvents := clockEvents c @ [e]\<rparr>"

lemma simScheduleAt_Inr:
  "simScheduleAt now s e c = Inr c' \<longleftrightarrow> now \<le> s \<and> evQueued (eventData c e) = None \<and> c' = updateEvent e (\<lambda>d. d\<lparr>evQueued := Some s\<rparr>) c"
  by (auto simp: simScheduleAt_def)

lemma updateEvent_twice: "updateEvent e g (updateEvent e f c) = updateEvent e (\<lambda>d. g (f d)) c"
  by (simp add: updateEvent_def)

lemma scheduleAt_adds:
  assumes "clock_ok now c" "scheduleClockEventAt rnd now t e c = Inr c'"
  shows "\<exists>d. event_added e d c c' \<and> evQueued (eventData c e) = None \<and> evQueued d = Some (expectedAt c (evArrival d))
    \<and> roundingOf (roundingFunction c) t (nominalTickLength (osc c)) = Inr (evArrival d) \<and> \<not> evRelative d"
proof -
  obtain rt c1 where rt: "roundingOf (roundingFunction c) t (nominalTickLength (osc c)) = Inr rt"
    and c1: "baseScheduleAt rnd now rt e c = Inr c1" "c' = c1\<lparr>clockEvents := clockEvents c1 @ [e]\<rparr>"
    using assms(2) by (auto simp: scheduleClockEventAt_def rbind_Inr_iff)
  let ?u = "updateEvent e (\<lambda>d. d\<lparr>evClock := True, evRelative := False, evArrival := rt\<rparr>) c"
  obtain s where s: "computeSimTimeFromClockTime rnd now rt ?u = Inr s" "simScheduleAt now s e ?u = Inr c1"
    using c1(1) by (auto simp: baseScheduleAt_def rbind_Inr_iff Let_def split: if_splits)
  have "s = expectedAt c rt" using computeSimTime_Inr [OF _ s(1)] assms(1) by simp
  then show ?thesis using s(2) c1(2) rt
    by (intro exI [of _ "eventData c e\<lparr>evClock := True, evRelative := False, evArrival := rt, evQueued := Some s\<rparr>"])
      (auto simp: simScheduleAt_Inr event_added_def updateEvent_twice updateEvent_def)
qed

lemma scheduleAfter_adds:
  assumes "clock_ok now c" "scheduleClockEventAfter rnd now delay e c = Inr c'"
    and "roundingOf (roundingFunction c) delay (nominalTickLength (osc c)) \<noteq> Inr 0"
  shows "\<exists>d. event_added e d c c' \<and> evQueued (eventData c e) = None \<and> evQueued d = Some (expectedAt c (evArrival d))"
proof -
  obtain rd c1 where rd: "roundingOf (roundingFunction c) delay (nominalTickLength (osc c)) = Inr rd" "rd \<noteq> 0"
    and c1: "baseScheduleAfter rnd now rd e c = Inr c1" "c' = c1\<lparr>clockEvents := clockEvents c1 @ [e]\<rparr>"
    using assms(2,3) by (auto simp: scheduleClockEventAfter_def rbind_Inr_iff)
  obtain current where current: "getClockTime rnd now c = Inr current"
    using c1(1) by (auto simp: baseScheduleAfter_def rbind_Inr_iff split: if_splits)
  let ?u = "updateEvent e (\<lambda>d. d\<lparr>evClock := True, evRelative := True, evArrival := current + rd\<rparr>) c"
  obtain s where s: "computeSimTimeFromClockTime rnd now (current + rd) ?u = Inr s" "simScheduleAt now s e ?u = Inr c1"
    using c1(1) rd(2) current by (auto simp: baseScheduleAfter_def rbind_Inr_iff Let_def split: if_splits)
  have "s = expectedAt c (current + rd)" using computeSimTime_Inr [OF _ s(1)] assms(1) by simp
  then show ?thesis using s(2) c1(2)
    by (intro exI [of _ "eventData c e\<lparr>evClock := True, evRelative := True, evArrival := current + rd, evQueued := Some s\<rparr>"])
      (auto simp: simScheduleAt_Inr event_added_def updateEvent_twice updateEvent_def)
qed

lemma event_added_fields:
  assumes "event_added e d c c'"
  shows "shownAt rnd c' = shownAt rnd c" "expectedAt c' = expectedAt c" "clock_ok now c' = clock_ok now c" "clockEventTime c' = clockEventTime c"
    "clockEvents c' = clockEvents c @ [e]" "eventData c' = (eventData c)(e := d)" "osc c' = osc c"
  using assms by (auto simp: event_added_def shownAt_def expectedAt_def clock_ok_def fun_eq_iff)

lemma event_added_ok:
  assumes "events_ok c" "event_added e d c c'" "evQueued (eventData c e) = None" "evQueued d = Some (expectedAt c (evArrival d))"
  shows "events_ok c'"
  using assms by (auto simp: events_ok_def event_added_fields [OF assms(2)])

lemma forget_fields [simp]:
  "shownAt rnd (forget e c) = shownAt rnd c" "expectedAt (forget e c) = expectedAt c" "clock_ok now (forget e c) = clock_ok now c"
  "clockEventTime (forget e c) = clockEventTime c" "clockEvents (forget e c) = filter (\<lambda>x. x \<noteq> e) (clockEvents c)"
  "eventData (forget e c) = eventData c" "osc (forget e c) = osc c"
  by (auto simp: forget_def shownAt_def expectedAt_def clock_ok_def fun_eq_iff)

lemma cancel_ok: "events_ok c \<Longrightarrow> events_ok (cancelClockEvent e c)"
  by (auto simp: cancelClockEvent_def events_ok_def)

lemma begins_fields:
  "shownAt rnd (clockEventBegins e c) = shownAt rnd c" "expectedAt (clockEventBegins e c) = expectedAt c"
  "clock_ok now (clockEventBegins e c) = clock_ok now c" "osc (clockEventBegins e c) = osc c"
  by (auto simp: clockEventBegins_def Let_def shownAt_def expectedAt_def clock_ok_def fun_eq_iff forget_def)

lemma begins_ok: "events_ok c \<Longrightarrow> events_ok (clockEventBegins e c)"
  unfolding events_ok_def begins_fields by (auto simp: clockEventBegins_def Let_def)

lemma ends_fields:
  "shownAt rnd (clockEventEnds c) = shownAt rnd c" "expectedAt (clockEventEnds c) = expectedAt c"
  "clock_ok now (clockEventEnds c) = clock_ok now c" "clockEvents (clockEventEnds c) = clockEvents c" "eventData (clockEventEnds c) = eventData c"
  "idle (clockEventEnds c)"
  by (auto simp: clockEventEnds_def shownAt_def expectedAt_def clock_ok_def fun_eq_iff)

lemma ends_ok: "events_ok c \<Longrightarrow> events_ok (clockEventEnds c)"
  by (simp add: events_ok_def ends_fields)

lemma expectedAt_data [simp]: "expectedAt (c\<lparr>eventData := f\<rparr>) = expectedAt c" "shownAt rnd (c\<lparr>eventData := f\<rparr>) = shownAt rnd c"
  "clock_ok now (c\<lparr>eventData := f\<rparr>) = clock_ok now c"
  by (auto simp: expectedAt_def shownAt_def clock_ok_def fun_eq_iff)

text \<open>After the oscillator changed, every event is put where it belongs.\<close>

lemma reschedule_loop:
  assumes "clock_ok now c" "distinct es" "foldM (rescheduleEvent rnd now) c es = Inr c'"
  shows "\<exists>f. c' = c\<lparr>eventData := f\<rparr> \<and> (\<forall>e. e \<notin> set es \<longrightarrow> f e = eventData c e)
    \<and> (\<forall>e \<in> set es. f e = eventData c e\<lparr>evQueued := Some (expectedAt c (evArrival (eventData c e)))\<rparr>)"
  using assms
proof (induction es arbitrary: c)
  case Nil
  then show ?case by (intro exI [of _ "eventData c"]) simp
next
  case (Cons e es)
  from Cons.prems(3) obtain c1 where c1: "rescheduleEvent rnd now c e = Inr c1" and rest: "foldM (rescheduleEvent rnd now) c1 es = Inr c'"
    by (auto simp: rbind_Inr_iff)
  obtain s where s: "computeSimTimeFromClockTime rnd now (evArrival (eventData c e)) c = Inr s" "c1 = updateEvent e (\<lambda>d. d\<lparr>evQueued := Some s\<rparr>) c"
    using c1 by (auto simp: rescheduleEvent_def simRescheduleAt_def rbind_Inr_iff split: if_splits)
  have s': "s = expectedAt c (evArrival (eventData c e))" using computeSimTime_Inr [OF Cons.prems(1) s(1)] .
  have ok: "clock_ok now c1" "distinct es" "e \<notin> set es" using Cons.prems(1,2) s(2) by simp_all
  from Cons.IH [OF ok(1,2) rest] obtain f where f: "c' = c1\<lparr>eventData := f\<rparr>" "\<forall>x. x \<notin> set es \<longrightarrow> f x = eventData c1 x"
    "\<forall>x \<in> set es. f x = eventData c1 x\<lparr>evQueued := Some (expectedAt c1 (evArrival (eventData c1 x)))\<rparr>" by blast
  show ?case using f ok(3) s(2) s' by (intro exI [of _ f]) (auto simp: updateEvent_def)
qed

lemma changeOscillator_effect:
  assumes "rounding rnd" "clock_ok now c" "idle c" "events_ok c" "osc_ok (f (osc c))" "oscOrigin (f (osc c)) = now"
    and "changeOscillator rnd now f c = Inr c'"
  shows "shownAt rnd c' now = shownAt rnd c now \<and> clock_ok now c' \<and> events_ok c' \<and> idle c'
    \<and> originClockTime c' = shownAt rnd c now \<and> originSimulationTime c' = now \<and> osc c' = f (osc c) \<and> constantDrift c' = constantDrift c
    \<and> clockEvents c' = clockEvents c \<and> oscillatorCompensation c' = oscillatorCompensation c
    \<and> (\<forall>e. evArrival (eventData c' e) = evArrival (eventData c e) \<and> evRelative (eventData c' e) = evRelative (eventData c e))"
proof -
  define c1 where "c1 = c\<lparr>originClockTime := shownAt rnd c now, originSimulationTime := now, osc := f (osc c)\<rparr>"
  have loop: "foldM (rescheduleEvent rnd now) c1 (clockEvents c1) = Inr c'"
    using assms(7) getClockTime_idle [OF assms(2,3), of rnd]
    by (auto simp: changeOscillator_def preOscillatorStateChanged_def postOscillatorStateChanged_def c1_def rbind_Inr_iff)
  have ok: "clock_ok now c1" using assms(2,5,6) by (simp add: clock_ok_def c1_def)
  have ev: "clockEvents c1 = clockEvents c" "eventData c1 = eventData c" by (simp_all add: c1_def)
  have d: "distinct (clockEvents c1)" using assms(4) ev by (simp add: events_ok_def)
  from reschedule_loop [OF ok d loop] obtain g where g: "c' = c1\<lparr>eventData := g\<rparr>" "\<forall>e. e \<notin> set (clockEvents c) \<longrightarrow> g e = eventData c e"
    "\<forall>e \<in> set (clockEvents c). g e = eventData c e\<lparr>evQueued := Some (expectedAt c1 (evArrival (eventData c e)))\<rparr>" unfolding ev by blast
  have f: "originSimulationTime c1 = now" "originClockTime c1 = shownAt rnd c now" by (simp_all add: c1_def)
  have "shownAt rnd c1 now = shownAt rnd c now" unfolding shownAt_def [of rnd c1] f using rounding_exact [OF assms(1), of 0] by simp
  moreover have "events_ok c'" using g d ev by (auto simp: events_ok_def)
  moreover have "evArrival (g e) = evArrival (eventData c e) \<and> evRelative (g e) = evRelative (eventData c e)" for e
    using g(2,3) by (cases "e \<in> set (clockEvents c)") auto
  ultimately show ?thesis using g(1) ok assms(3) by (simp add: c1_def)
qed
section \<open>Histories of a clock\<close>

text \<open>
  Whatever happens to a clock that is not set: time passes, its oscillator changes (outside its own events),
  events are scheduled, cancelled and run. Events without delay run at once and are left out.
\<close>

inductive clock_run :: "(real \<Rightarrow> simtime) \<Rightarrow> simtime \<Rightarrow> clock \<Rightarrow> simtime \<Rightarrow> clock \<Rightarrow> bool" for rnd t0 c0 where
  begins: "clock_run rnd t0 c0 t0 c0"
| passes: "clock_run rnd t0 c0 t c \<Longrightarrow> idle c \<Longrightarrow> t \<le> t' \<Longrightarrow> clock_run rnd t0 c0 t' c"
| drifts: "clock_run rnd t0 c0 t c \<Longrightarrow> idle c \<Longrightarrow> - 1 < r \<Longrightarrow> 1 + r \<le> real_of_int (nominalTickLength (osc c)) \<Longrightarrow>
     clockSetDriftRate rnd t r c = Inr c' \<Longrightarrow> clock_run rnd t0 c0 t c'"
| shifts: "clock_run rnd t0 c0 t c \<Longrightarrow> idle c \<Longrightarrow> x \<le> getCurrentTickLength rnd (osc c) \<Longrightarrow>
     clockSetTickOffset rnd t x c = Inr c' \<Longrightarrow> clock_run rnd t0 c0 t c'"
| schedules: "clock_run rnd t0 c0 t c \<Longrightarrow> scheduleClockEventAt rnd t a e c = Inr c' \<Longrightarrow> clock_run rnd t0 c0 t c'"
| delays: "clock_run rnd t0 c0 t c \<Longrightarrow> roundingOf (roundingFunction c) a (nominalTickLength (osc c)) \<noteq> Inr 0 \<Longrightarrow>
     scheduleClockEventAfter rnd t a e c = Inr c' \<Longrightarrow> clock_run rnd t0 c0 t c'"
| cancels: "clock_run rnd t0 c0 t c \<Longrightarrow> clock_run rnd t0 c0 t (cancelClockEvent e c)"
| fires: "clock_run rnd t0 c0 t c \<Longrightarrow> e \<in> set (clockEvents c) \<Longrightarrow> clock_run rnd t0 c0 t (clockEventBegins e c)"
| returns: "clock_run rnd t0 c0 t c \<Longrightarrow> clock_run rnd t0 c0 t (clockEventEnds c)"

definition tracked :: "(real \<Rightarrow> simtime) \<Rightarrow> clocktime \<Rightarrow> simtime \<Rightarrow> clock \<Rightarrow> bool" where
  "tracked rnd a t c \<longleftrightarrow> clock_ok t c \<and> events_ok c \<and> a \<le> shownAt rnd c t"

lemma tracked_change:
  assumes "rounding rnd" "tracked rnd a t c" "idle c" "osc_ok (f (osc c))" "oscOrigin (f (osc c)) = t" "changeOscillator rnd t f c = Inr c'"
  shows "tracked rnd a t c'"
  using changeOscillator_effect [OF assms(1) _ assms(3) _ assms(4,5,6)] assms(2) by (simp add: tracked_def)

lemma tracked_added: "tracked rnd a t c \<Longrightarrow> event_added e d c c' \<Longrightarrow> evQueued (eventData c e) = None \<Longrightarrow>
    evQueued d = Some (expectedAt c (evArrival d)) \<Longrightarrow> tracked rnd a t c'"
  using event_added_ok [of c e d c'] by (simp add: tracked_def event_added_fields)

lemma clock_run_tracked:
  assumes "rounding rnd" "clock_run rnd t0 c0 t c" "clock_ok t0 c0" "events_ok c0"
  shows "tracked rnd (shownAt rnd c0 t0) t c"
  using assms(2)
proof (induction rule: clock_run.induct)
  case begins
  then show ?case using assms(3,4) by (simp add: tracked_def)
next
  case (passes t c t')
  then show ?case using shownAt_mono [OF assms(1), of t c t t'] by (auto simp: tracked_def clock_ok_def)
next
  case (drifts t c r c')
  show ?case
  proof (cases "r = driftRate (osc c)")
    case True
    then show ?thesis using drifts by (simp add: clockSetDriftRate_def)
  next
    case False
    have "osc_ok (setDriftRate rnd t r (osc c))" using drifts.IH drifts.hyps by (intro setDriftRate_ok [OF assms(1)]) (simp_all add: tracked_def clock_ok_def)
    moreover have "oscOrigin (setDriftRate rnd t r (osc c)) = t" using False by (simp add: setDriftRate_def Let_def)
    ultimately show ?thesis using tracked_change [OF assms(1) drifts.IH] drifts.hyps False by (simp add: clockSetDriftRate_def)
  qed
next
  case (shifts t c x c')
  show ?case
  proof (cases "x = elapsedTickTime rnd t (osc c)")
    case True
    then show ?thesis using shifts by (simp add: clockSetTickOffset_def)
  next
    case False
    have "osc_ok (setTickOffset rnd t x (osc c))" using shifts.IH shifts.hyps by (intro setTickOffset_ok) (simp_all add: tracked_def clock_ok_def)
    moreover have "oscOrigin (setTickOffset rnd t x (osc c)) = t" using False by (simp add: setTickOffset_def)
    ultimately show ?thesis using tracked_change [OF assms(1) shifts.IH] shifts.hyps False by (simp add: clockSetTickOffset_def)
  qed
next
  case (schedules t c a e c')
  have "clock_ok t c" using schedules.IH by (simp add: tracked_def)
  then show ?case using scheduleAt_adds [OF _ schedules.hyps(2)] tracked_added [OF schedules.IH] by blast
next
  case (delays t c a e c')
  have "clock_ok t c" using delays.IH by (simp add: tracked_def)
  then show ?case using scheduleAfter_adds [OF _ delays.hyps(3,2)] tracked_added [OF delays.IH] by blast
next
  case (cancels t c e)
  then show ?case by (simp add: tracked_def cancel_ok) (simp add: cancelClockEvent_def)
next
  case (fires t c e)
  then show ?case by (simp add: tracked_def begins_ok begins_fields)
next
  case (returns t c)
  then show ?case by (simp add: tracked_def ends_ok ends_fields)
qed


text \<open>
  C32. All that time every event of the clock waits in the event queue of the simulation, once, for the time
  the clock would compute for it now: no change of the oscillator leaves an event behind. The events are
  scheduled with a positive delay, and the time of the clock is not set meanwhile (\<open>clock_run\<close> has no
  \<open>setClockTime\<close>, which treats events as \<open>skipping_forgets_the_next_event\<close> shows).
\<close>

theorem events_wait_for_their_time:
  assumes "rounding rnd" "clock_ok t0 c0" "events_ok c0" "clock_run rnd t0 c0 t c" "e \<in> set (clockEvents c)"
    and "computeSimTimeFromClockTime rnd t (evArrival (eventData c e)) c = Inr s"
  shows "distinct (clockEvents c) \<and> evQueued (eventData c e) = Some s"
proof -
  have "clock_ok t c" "events_ok c" using clock_run_tracked [OF assms(1,4,2,3)] by (simp_all add: tracked_def)
  then show ?thesis using computeSimTime_Inr [OF _ assms(6)] assms(5) by (simp add: events_ok_def)
qed

section \<open>Rounding\<close>

lemma cdiv_mult: "0 \<le> t \<Longrightarrow> 0 < l \<Longrightarrow> cdiv t l * l = t - t mod l"
  by (simp add: cdiv_nonneg minus_mod_eq_div_mult)

lemma round_up_bounds:
  fixes t l :: int
  assumes "0 \<le> t" "0 < l"
  shows "t \<le> cdiv (t + l - 1) l * l" "cdiv (t + l - 1) l * l < t + l" "l dvd cdiv (t + l - 1) l * l"
  using assms cdiv_mult [of "t + l - 1" l] pos_mod_bound [OF assms(2), of "t + l - 1"] pos_mod_sign [OF assms(2), of "t + l - 1"] by simp_all

text \<open>
  The rounding modes do what their names say for times that are not negative - the nearest tick above,
  below, or within half a tick - except the mode that does not round: it accepts only whole ticks, but
  returns their number instead of the time, so an event is scheduled at a time too small by the tick length.
\<close>

theorem rounding_modes:
  assumes "0 \<le> t" "0 < l"
  shows "(\<exists>u. roundingOf RoundUp t l = Inr u \<and> l dvd u \<and> t \<le> u \<and> u < t + l)
    \<and> (\<exists>d. roundingOf RoundDown t l = Inr d \<and> l dvd d \<and> d \<le> t \<and> t < d + l)
    \<and> (\<exists>n. roundingOf RoundCloser t l = Inr n \<and> l dvd n \<and> 2 * \<bar>t - n\<bar> \<le> l)
    \<and> roundingOf RoundNone (l * t) l = Inr t"
proof -
  have "cdiv t l * l \<le> t" "t < cdiv t l * l + l" using cdiv_mult [OF assms] pos_mod_bound [OF assms(2), of t] pos_mod_sign [OF assms(2), of t] by simp_all
  moreover have "2 * \<bar>t - cdiv (t + cdiv l 2) l * l\<bar> \<le> l"
  proof -
    have "cdiv l 2 = l div 2" "0 \<le> l div 2" using assms(2) by (simp_all add: cdiv_nonneg)
    then have "cdiv (t + cdiv l 2) l * l = t + l div 2 - (t + l div 2) mod l" using assms cdiv_mult [of "t + l div 2" l] by simp
    then show ?thesis using pos_mod_bound [OF assms(2), of "t + l div 2"] pos_mod_sign [OF assms(2), of "t + l div 2"] by (simp add: abs_if) linarith
  qed
  moreover have "crem (l * t) l = 0" "cdiv (l * t) l = t" using assms by (simp_all add: crem_nonneg cdiv_nonneg)
  ultimately show ?thesis using round_up_bounds [OF assms] by (auto simp: roundingOf_def)
qed

text \<open>
  A clock that was set to a time between two ticks refuses an event for the rest of this tick when its
  times are rounded down: rounding moves the event into the past.
\<close>

theorem rounding_down_misses_the_present:
  assumes "clock_ok now c" "idle c" "roundingFunction c = RoundDown" "getClockTime rnd now c = Inr current" "0 \<le> t"
    and "\<not> nominalTickLength (osc c) dvd current" "current \<le> t" "t div nominalTickLength (osc c) = current div nominalTickLength (osc c)"
  shows "scheduleClockEventAt rnd now t e c = Inl (RuntimeError ''Cannot schedule clock event in the past'')"
proof -
  let ?N = "nominalTickLength (osc c)"
  have N: "0 < ?N" using assms(1) by (simp add: clock_ok_def osc_ok_def)
  have "current mod ?N \<noteq> 0" using assms(6) by (simp add: dvd_eq_mod_eq_0)
  then have "0 < current mod ?N" using N by (simp add: order_less_le)
  then have "current div ?N * ?N < current" using minus_mod_eq_div_mult [of current ?N] by linarith
  then have "cdiv t ?N * ?N < current" using assms(5,8) N by (simp add: cdiv_nonneg)
  then show ?thesis using assms(3,4) by (simp add: scheduleClockEventAt_def roundingOf_def baseScheduleAt_def)
qed

text \<open>
  An event for the time the clock shows now is accepted only at the very moment of a tick: later it
  is taken to have been due when the tick came, and the simulation does not schedule into the past.
\<close>

theorem event_for_now_is_refused:
  assumes "rounding rnd" "clock_ok now c" "idle c" "oscillatorCompensation c = 0" "getClockTime rnd now c = Inr current"
    and "nominalTickLength (osc c) dvd current" "0 \<le> current" "roundingFunction c \<noteq> RoundNone"
    and "oscOrigin (osc c) + computeIntervalForTicks (osc c) (ticksForInterval (osc c) (now - oscOrigin (osc c))) < now"
  shows "scheduleClockEventAt rnd now current e c = Inl (RuntimeError ''Cannot schedule message to the past'')"
proof -
  let ?N = "nominalTickLength (osc c)" and ?k = "ticksForInterval (osc c) (now - oscOrigin (osc c))"
  let ?first = "ticksForInterval (osc c) (originSimulationTime c - oscOrigin (osc c))"
  have N: "0 < ?N" using assms(2) by (simp add: clock_ok_def osc_ok_def)
  obtain m where m: "current = ?N * m" using assms(6) by blast
  have shown: "shownAt rnd c now = current" using assms(5) getClockTime_idle [OF assms(2,3), of rnd] by simp
  then have "current - originClockTime c = (?k - ?first) * ?N" using shownAt_exact [OF assms(1,4), of now] by linarith
  then have e: "expectedAt c current = oscOrigin (osc c) + computeIntervalForTicks (osc c) ?k"
    using N trunc_int_of_int [of ?k] by (simp add: expectedAt_def assms(4))
  have c1: "(current + ?N - 1) div ?N = m" using N m by (intro int_div_pos_eq [of _ _ _ "?N - 1"]) simp_all
  have c2: "(current + ?N div 2) div ?N = m"
    using N m by (intro int_div_pos_eq [of _ _ _ "?N div 2"]) (simp_all add: div_less_dividend pos_imp_zdiv_nonneg_iff, linarith?)
  have "cdiv ?N 2 = ?N div 2" using N by (simp add: cdiv_nonneg)
  then have "roundingOf (roundingFunction c) current ?N = Inr current"
    using N assms(7,8) m c1 c2 by (cases "roundingFunction c") (simp_all add: roundingOf_def cdiv_nonneg mult.commute)
  then show ?thesis using assms(9) shown getClockTime_idle [OF assms(2,3), of rnd] e assms(2,3)
    by (simp add: scheduleClockEventAt_def baseScheduleAt_def computeSimTime_ok simScheduleAt_def Let_def)
qed
section \<open>Setting a clock\<close>

definition effectiveMode :: "clock \<Rightarrow> event_id \<Rightarrow> overdue_mode" where
  "effectiveMode c e = (if evMode (eventData c e) = UNSPECIFIED then defaultMode c else evMode (eventData c e))"

text \<open>What becomes of an event that is to be run even if it is overdue.\<close>

definition adjusted :: "simtime \<Rightarrow> clocktime \<Rightarrow> clocktime \<Rightarrow> (clocktime \<Rightarrow> simtime) \<Rightarrow> clock_event \<Rightarrow> clock_event" where
  "adjusted now newTime delta expected d =
     (if evRelative d then d\<lparr>evArrival := evArrival d + delta\<rparr>
      else d\<lparr>evQueued := Some (if evArrival d < newTime then now else max now (expected (evArrival d)))\<rparr>)"

lemma adjustEvent_execute:
  assumes "clock_ok now c" "idle c" "shownAt rnd c now = newTime" "effectiveMode c e = EXECUTE" "evQueued (eventData c e) \<noteq> None"
  shows "adjustEvent rnd now newTime delta e c = Inr (updateEvent e (adjusted now newTime delta (expectedAt c)) c)"
  using assms computeSimTime_ok [OF assms(1,2), of rnd "evArrival (eventData c e)"]
  by (auto simp: adjustEvent_def handleOverdueClockEvent_def effectiveMode_def simRescheduleAt_def adjusted_def updateEvent_def Let_def
      max_def fun_upd_def fun_eq_iff)

lemma adjust_loop:
  assumes "clock_ok now c" "idle c" "shownAt rnd c now = newTime" "distinct (clockEvents c)" "distinct js" "\<forall>i \<in> set js. i < length (clockEvents c)"
    and "\<forall>e \<in> set (clockEvents c). effectiveMode c e = EXECUTE \<and> evQueued (eventData c e) \<noteq> None"
  shows "adjustEvents rnd now newTime delta js (clockEvents c) c
    = Inr (c\<lparr>eventData := (\<lambda>e. if \<exists>i \<in> set js. e = clockEvents c ! i then adjusted now newTime delta (expectedAt c) (eventData c e) else eventData c e)\<rparr>)"
  using assms
proof (induction js arbitrary: c)
  case Nil
  then show ?case by simp
next
  case (Cons i js)
  let ?e = "clockEvents c ! i"
  define c1 where "c1 = updateEvent ?e (adjusted now newTime delta (expectedAt c)) c"
  have "?e \<in> set (clockEvents c)" using Cons.prems(6) by simp
  then have step: "adjustEvent rnd now newTime delta ?e c = Inr c1"
    using adjustEvent_execute [OF Cons.prems(1-3), of ?e delta] Cons.prems(7) by (simp add: c1_def)
  have c1: "clock_ok now c1" "idle c1" "shownAt rnd c1 now = newTime" "clockEvents c1 = clockEvents c" "expectedAt c1 = expectedAt c"
    using Cons.prems(1-3) by (simp_all add: c1_def fun_eq_iff)
  have other: "\<forall>e \<in> set (clockEvents c1). effectiveMode c1 e = EXECUTE \<and> evQueued (eventData c1 e) \<noteq> None"
    using Cons.prems(7) by (auto simp: c1_def effectiveMode_def adjusted_def)
  have new: "clockEvents c ! k \<noteq> ?e" if "k \<in> set js" for k
    using that Cons.prems(4-6) by (auto simp: nth_eq_iff_index_eq)
  have "adjustEvents rnd now newTime delta js (clockEvents c) c1
      = Inr (c1\<lparr>eventData := (\<lambda>e. if \<exists>i \<in> set js. e = clockEvents c ! i then adjusted now newTime delta (expectedAt c) (eventData c1 e) else eventData c1 e)\<rparr>)"
    using Cons.IH [OF c1(1-3) _ _ _ other, unfolded c1(4,5)] Cons.prems(4-6) by simp
  moreover have "(\<lambda>e. if \<exists>i \<in> set js. e = clockEvents c ! i then adjusted now newTime delta (expectedAt c) (eventData c1 e) else eventData c1 e)
      = (\<lambda>e. if \<exists>i \<in> set (i # js). e = clockEvents c ! i then adjusted now newTime delta (expectedAt c) (eventData c e) else eventData c e)"
    (is "?f = ?g")
  proof
    fix e
    show "?f e = ?g e"
    proof (cases "e = ?e")
      case True
      then have "\<not> (\<exists>i \<in> set js. e = clockEvents c ! i)" using new by metis
      then show ?thesis using True by (simp add: c1_def)
    next
      case False
      then show ?thesis by (simp add: c1_def)
    qed
  qed
  moreover have "c1\<lparr>eventData := g\<rparr> = c\<lparr>eventData := g\<rparr>" for g by (simp add: c1_def updateEvent_def)
  ultimately show ?case using step c1(4) by simp
qed

text \<open>
  Setting a clock succeeds and makes it show the given time at once; of its events, those with a
  delay stay where they are in the simulation and get a new arrival time, those with a time of their own
  are moved to where the clock will show it, and those the clock has skipped are run now.
\<close>

theorem setting_a_clock:
  assumes "rounding rnd" "clock_ok now c" "idle c" "events_ok c" "- 1 < cmp"
    and "\<forall>e \<in> set (clockEvents c). effectiveMode c e = EXECUTE" and old: "getClockTime rnd now c = Inr old" and "newTime \<noteq> old"
  shows "\<exists>c'. setClockTime rnd now newTime cmp False c = Inr c' \<and> getClockTime rnd now c' = Inr newTime \<and> clockEvents c' = clockEvents c
    \<and> (\<forall>e \<in> set (clockEvents c). eventData c' e =
         (if evRelative (eventData c e) then eventData c e\<lparr>evArrival := evArrival (eventData c e) + (newTime - old)\<rparr>
          else eventData c e\<lparr>evQueued := Some (if evArrival (eventData c e) < newTime then now
                                             else max now (expectedAt c' (evArrival (eventData c e))))\<rparr>))"
proof -
  define c2 where "c2 = c\<lparr>originSimulationTime := now, originClockTime := newTime, oscillatorCompensation := cmp\<rparr>"
  define f where "f = (\<lambda>e. if \<exists>i \<in> set [0..<length (clockEvents c)]. e = clockEvents c ! i
    then adjusted now newTime (newTime - old) (expectedAt c2) (eventData c e) else eventData c e)"
  have ok: "clock_ok now c2" "idle c2" using assms(2,3,5) by (simp_all add: c2_def clock_ok_def)
  have fields: "originSimulationTime c2 = now" "originClockTime c2 = newTime" "clockEvents c2 = clockEvents c" "eventData c2 = eventData c"
    "defaultMode c2 = defaultMode c" by (simp_all add: c2_def)
  have shown: "shownAt rnd c2 now = newTime" unfolding shownAt_def fields using rounding_exact [OF assms(1), of 0] by simp
  have "\<forall>e \<in> set (clockEvents c2). effectiveMode c2 e = EXECUTE \<and> evQueued (eventData c2 e) \<noteq> None"
  proof -
    have "effectiveMode c2 = effectiveMode c" by (simp add: effectiveMode_def fields fun_eq_iff)
    then show ?thesis using assms(4,6) by (simp add: fields events_ok_def)
  qed
  then have "adjustEvents rnd now newTime (newTime - old) [0..<length (clockEvents c)] (clockEvents c) c2 = Inr (c2\<lparr>eventData := f\<rparr>)"
    using adjust_loop [OF ok shown, of "[0..<length (clockEvents c)]" "newTime - old", unfolded fields] assms(4) fields by (simp add: f_def events_ok_def)
  then have "setClockTime rnd now newTime cmp False c = Inr (c2\<lparr>eventData := f\<rparr>)"
    using old assms(8) getClockTime_idle [OF ok, of rnd] shown fields by (simp add: setClockTime_def c2_def [symmetric])
  moreover have "getClockTime rnd now (c2\<lparr>eventData := f\<rparr>) = Inr newTime"
    using getClockTime_idle [of now "c2\<lparr>eventData := f\<rparr>" rnd] ok shown by simp
  moreover have "f e = adjusted now newTime (newTime - old) (expectedAt c2) (eventData c e)" if "e \<in> set (clockEvents c)" for e
    using that by (auto simp: f_def in_set_conv_nth)
  ultimately show ?thesis using fields by (intro exI [of _ "c2\<lparr>eventData := f\<rparr>"]) (simp add: adjusted_def)
qed

text \<open>
  A clock cannot be set from an event of its own: there it shows the time of the event, before and
  after, and the check of the new time fails.
\<close>

theorem no_setting_within_events:
  assumes "clockEventTime c \<noteq> - simtime_s 1" "newTime \<noteq> clockEventTime c"
  shows "\<not> is_ok (setClockTime rnd now newTime cmp False c)"
  using assms by (simp add: setClockTime_def getClockTime_def ensure_def)

lemma cancel_fields: "clockEventTime (cancelClockEvent e c) = clockEventTime c" "shownAt rnd (cancelClockEvent e c) = shownAt rnd c"
  "clock_ok now (cancelClockEvent e c) = clock_ok now c" "defaultMode (cancelClockEvent e c) = defaultMode c"
  by (simp_all add: cancelClockEvent_def fun_eq_iff) (simp add: forget_def)

lemma adjust_loop_other:
  assumes "clock_ok now c" "idle c" "shownAt rnd c now = newTime"
    and "\<forall>e \<in> set mem. effectiveMode c e = EXECUTE \<and> evQueued (eventData c e) \<noteq> None" "\<forall>i \<in> set js. i < length mem \<and> mem ! i \<noteq> b"
    and "take (length (clockEvents c)) mem = clockEvents c"
  shows "\<exists>c'. adjustEvents rnd now newTime delta js mem c = Inr c' \<and> eventData c' b = eventData c b"
  using assms
proof (induction js arbitrary: c)
  case Nil
  then show ?case by simp
next
  case (Cons i js)
  let ?e = "mem ! i"
  define c1 where "c1 = updateEvent ?e (adjusted now newTime delta (expectedAt c)) c"
  have e: "?e \<in> set mem" "?e \<noteq> b" using Cons.prems(5) by simp_all
  then have step: "adjustEvent rnd now newTime delta ?e c = Inr c1"
    using adjustEvent_execute [OF Cons.prems(1-3), of ?e delta] Cons.prems(4) by (simp add: c1_def)
  have c1: "clock_ok now c1" "idle c1" "shownAt rnd c1 now = newTime" "clockEvents c1 = clockEvents c" "eventData c1 b = eventData c b"
    using Cons.prems(1-3) e(2) by (simp_all add: c1_def fun_eq_iff)
  have "\<forall>e \<in> set mem. effectiveMode c1 e = EXECUTE \<and> evQueued (eventData c1 e) \<noteq> None"
    using Cons.prems(4) by (auto simp: c1_def effectiveMode_def adjusted_def)
  moreover have "clockEvents c1 @ drop (length (clockEvents c1)) mem = mem" using Cons.prems(6) c1(4) by (metis append_take_drop_id)
  ultimately show ?case using Cons.IH [of c1] c1 Cons.prems step by simp
qed

text \<open>
  Skipping an overdue event forgets the next one: the loop takes the event out of the vector it
  walks over, so the event that follows is neither moved to its new time nor found overdue itself.
\<close>

theorem skipping_forgets_the_next_event:
  assumes "rounding rnd" "clock_ok now c" "idle c" "events_ok c" "- 1 < cmp" and old: "getClockTime rnd now c = Inr old" and "newTime \<noteq> old"
    and ev: "clockEvents c = a # b # es" "es \<noteq> []" and a: "effectiveMode c a = SKIP" "\<not> evRelative (eventData c a)" "evArrival (eventData c a) < newTime"
    and "\<forall>e \<in> set (b # es). effectiveMode c e = EXECUTE"
  shows "\<exists>c'. setClockTime rnd now newTime cmp False c = Inr c' \<and> eventData c' b = eventData c b"
proof -
  define c2 where "c2 = c\<lparr>originSimulationTime := now, originClockTime := newTime, oscillatorCompensation := cmp\<rparr>"
  define c3 where "c3 = cancelClockEvent a c2"
  define mem where "mem = b # es @ [last es]"
  have fields: "originSimulationTime c2 = now" "originClockTime c2 = newTime" "clockEvents c2 = clockEvents c" "eventData c2 = eventData c"
    "defaultMode c2 = defaultMode c" by (simp_all add: c2_def)
  have ok: "clock_ok now c2" "idle c2" using assms(2,3,5) by (simp_all add: c2_def clock_ok_def)
  have shown: "shownAt rnd c2 now = newTime" unfolding shownAt_def fields using rounding_exact [OF assms(1), of 0] by simp
  have d: "distinct (a # b # es)" "\<forall>e \<in> set (b # es). evQueued (eventData c e) \<noteq> None" using assms(4) ev by (auto simp: events_ok_def)
  have ev3: "clockEvents c3 = b # es" "eventData c3 b = eventData c b" "\<forall>e \<in> set (b # es). eventData c3 e = eventData c e"
    using d(1) ev fields by (auto simp: c3_def cancelClockEvent_def filter_id_conv)
  have first: "adjustEvent rnd now newTime (newTime - old) a c2 = Inr c3"
  proof -
    have "effectiveMode c2 a = SKIP" using a(1) unfolding effectiveMode_def fields .
    then have "handleOverdueClockEvent a now c2 = Inr (c3, - simtime_s 1)"
      unfolding handleOverdueClockEvent_def effectiveMode_def [symmetric] by (simp add: c3_def)
    moreover have "evQueued (eventData c3 a) = None" by (simp add: c3_def cancelClockEvent_def)
    ultimately show ?thesis using a(2,3) fields by (simp add: adjustEvent_def Let_def)
  qed
  have "drop (length xs) (x # xs) = [last (x # xs)]" for x and xs :: "event_id list" by (induction xs arbitrary: x) simp_all
  from this [of "b # es" a] have "drop (length (b # es)) (a # b # es) = [last es]" using ev(2) by simp
  then have m: "clockEvents c3 @ drop (length (clockEvents c3)) (clockEvents c) = mem" using ev3(1) ev(1) by (simp add: mem_def)
  have idx: "[0..<length (clockEvents c)] = 0 # [Suc 0..<length (clockEvents c)]" by (rule upt_conv_Cons) (simp add: ev(1))
  have nth: "\<forall>i \<in> set [Suc 0..<length (clockEvents c)]. i < length mem \<and> mem ! i \<noteq> b"
  proof
    fix i assume "i \<in> set [Suc 0..<length (clockEvents c)]"
    then have "Suc 0 \<le> i" "i < length (clockEvents c)" by (simp_all only: set_upt atLeastLessThan_iff)
    then obtain k where k: "i = Suc k" "k < length (es @ [last es])" using ev(1) by (cases i) simp_all
    then have "mem ! i = (es @ [last es]) ! k" by (simp add: mem_def)
    moreover have "set (es @ [last es]) = set es" using ev(2) by auto
    ultimately have "mem ! i \<in> set es" using nth_mem [OF k(2)] by metis
    then show "i < length mem \<and> mem ! i \<noteq> b" using d(1) k by (auto simp: mem_def)
  qed
  have "set mem = set (b # es)" using ev(2) by (auto simp: mem_def)
  then have "\<forall>e \<in> set mem. effectiveMode c3 e = EXECUTE \<and> evQueued (eventData c3 e) \<noteq> None"
    using assms(13) d(2) ev3(3) cancel_fields(4) [of a c2] fields(5) by (auto simp: effectiveMode_def c3_def)
  moreover have "clock_ok now c3" "idle c3" "shownAt rnd c3 now = newTime" using ok shown by (simp_all add: c3_def cancel_fields)
  moreover have "take (length (clockEvents c3)) mem = clockEvents c3" using ev3(1) by (simp add: mem_def)
  ultimately obtain c' where "adjustEvents rnd now newTime (newTime - old) [Suc 0..<length (clockEvents c)] mem c3 = Inr c'" "eventData c' b = eventData c3 b"
    using adjust_loop_other [of now c3 rnd newTime mem "[Suc 0..<length (clockEvents c)]" b "newTime - old"] nth by blast
  then have "setClockTime rnd now newTime cmp False c = Inr c'" "eventData c' b = eventData c b"
    using old assms(7) getClockTime_idle [OF ok, of rnd] shown fields first m ev(1) ev3(2) idx
    by (simp_all add: setClockTime_def c2_def [symmetric])
  then show ?thesis by blast
qed
section \<open>Examples\<close>

definition an_event :: "bool \<Rightarrow> overdue_mode \<Rightarrow> clocktime \<Rightarrow> clock_event" where
  "an_event relative mode t = \<lparr>evRelative = relative, evArrival = t, evMode = mode, evClock = True, evQueued = Some t\<rparr>"

definition no_event :: clock_event where
  "no_event = \<lparr>evRelative = False, evArrival = - simtime_s 1, evMode = UNSPECIFIED, evClock = False, evQueued = None\<rparr>"

definition a_clock :: "oscillator \<Rightarrow> rounding_mode \<Rightarrow> clocktime \<Rightarrow> event_id list \<Rightarrow> (event_id \<Rightarrow> clock_event) \<Rightarrow> clock" where
  "a_clock o1 mode t es data = \<lparr>osc = o1, constantDrift = True, roundingFunction = mode, originSimulationTime = 0, originClockTime = t,
     oscillatorCompensation = 0, clockEventTime = - simtime_s 1, clockEvents = es, defaultMode = EXECUTE, eventData = data\<rparr>"

lemmas example_clock = a_clock_def clock_ok_def osc_ok_def demo_oscillator_def fast_oscillator_def invertDriftRate_def
  getClockTime_def computeClockTimeFromSimTime_def computeTicksForInterval_def ticksForInterval_def withDriftRate_def trunc_int_def cdiv_def

lemma clock_keeps_appointments_witness:
  "\<exists>s. computeSimTimeFromClockTime floor 4 30 (a_clock fast_oscillator RoundUp 0 [] (\<lambda>_. no_event)) = Inr s \<and> 4 < s
    \<and> computeClockTimeFromSimTime floor 4 s (a_clock fast_oscillator RoundUp 0 [] (\<lambda>_. no_event)) = Inr 30"
  by (rule clock_keeps_appointments [OF floor_rounding, of _ _ 0]) (simp_all add: example_clock)

lemma an_ok_clock: "clock_ok 0 (a_clock (demo_oscillator 0) m 0 es d)"
  by (simp add: example_clock)


lemma events_wait_for_their_time_witness:
  "distinct (clockEvents (a_clock (demo_oscillator 0) RoundUp 0 [1, 2] (\<lambda>e. an_event (e = 1) EXECUTE (30 + 20 * int e))))
    \<and> evQueued (eventData (a_clock (demo_oscillator 0) RoundUp 0 [1, 2] (\<lambda>e. an_event (e = 1) EXECUTE (30 + 20 * int e))) 2) = Some 70"
  by (rule events_wait_for_their_time [OF floor_rounding an_ok_clock _ clock_run.begins])
    (auto simp: events_ok_def expectedAt_def an_event_def computeIntervalForTicks_def computeSimTimeFromClockTime_def example_clock)

lemma rounding_modes_witness: "roundingOf RoundNone (10 * 13) 10 = Inr 13"
  using rounding_modes [of 13 10] by simp

lemma rounding_down_misses_the_present_witness:
  "scheduleClockEventAt floor 0 16 1 (a_clock (demo_oscillator 0) RoundDown 15 [] (\<lambda>_. no_event)) = Inl (RuntimeError ''Cannot schedule clock event in the past'')"
  by (rule rounding_down_misses_the_present [of _ _ _ 15]) (simp_all add: example_clock)

lemma event_for_now_is_refused_witness:
  "scheduleClockEventAt floor 4 0 1 (a_clock (demo_oscillator 0) RoundUp 0 [] (\<lambda>_. no_event)) = Inl (RuntimeError ''Cannot schedule message to the past'')"
  by (rule event_for_now_is_refused [OF floor_rounding]) (simp_all add: example_clock computeIntervalForTicks_def)

lemma setting_a_clock_witness:
  "\<exists>c'. setClockTime floor 5 40 0 False (a_clock (demo_oscillator 0) RoundUp 0 [1, 2] (\<lambda>e. an_event (e = 1) EXECUTE (30 + 20 * int e))) = Inr c'
    \<and> getClockTime floor 5 c' = Inr 40 \<and> evArrival (eventData c' 1) = 90"
proof -
  let ?c = "a_clock (demo_oscillator 0) RoundUp 0 [1, 2] (\<lambda>e. an_event (e = 1) EXECUTE (30 + 20 * int e))"
  have "events_ok ?c" by (auto simp: events_ok_def expectedAt_def an_event_def computeIntervalForTicks_def example_clock)
  moreover have "clock_ok 5 ?c" "idle ?c" "getClockTime floor 5 ?c = Inr 0" by (simp_all add: example_clock)
  moreover have "\<forall>e \<in> set (clockEvents ?c). effectiveMode ?c e = EXECUTE" by (simp add: effectiveMode_def a_clock_def an_event_def)
  ultimately obtain c' where c': "setClockTime floor 5 40 0 False ?c = Inr c'" "getClockTime floor 5 c' = Inr 40"
    "eventData c' 1 = eventData ?c 1\<lparr>evArrival := evArrival (eventData ?c 1) + 40\<rparr>"
    using setting_a_clock [OF floor_rounding, of 5 ?c 0 0 40] by (auto simp: a_clock_def an_event_def)
  then show ?thesis by (simp add: a_clock_def an_event_def)
qed

lemma no_setting_within_events_witness:
  "\<not> is_ok (setClockTime floor 20 40 0 False ((a_clock (demo_oscillator 0) RoundUp 0 [] (\<lambda>_. no_event))\<lparr>clockEventTime := 20\<rparr>))"
  by (rule no_setting_within_events) (simp_all add: simtime_s_def)

lemma skipping_forgets_the_next_event_witness:
  "\<exists>c'. setClockTime floor 5 20 0 False (a_clock (demo_oscillator 0) RoundUp 0 [1, 2, 3] (\<lambda>e. an_event False (if e = 1 then SKIP else EXECUTE) (10 * int e))) = Inr c'
    \<and> evQueued (eventData c' 2) = Some 20"
proof -
  let ?c = "a_clock (demo_oscillator 0) RoundUp 0 [1, 2, 3] (\<lambda>e. an_event False (if e = 1 then SKIP else EXECUTE) (10 * int e))"
  have "events_ok ?c" by (auto simp: events_ok_def expectedAt_def an_event_def computeIntervalForTicks_def example_clock)
  moreover have "clock_ok 5 ?c" "idle ?c" "getClockTime floor 5 ?c = Inr 0" by (simp_all add: example_clock)
  ultimately obtain c' where "setClockTime floor 5 20 0 False ?c = Inr c'" "eventData c' 2 = eventData ?c 2"
    using skipping_forgets_the_next_event [OF floor_rounding, of 5 ?c 0 0 20 1 2 "[3]"] by (auto simp: a_clock_def an_event_def effectiveMode_def)
  then show ?thesis by (simp add: a_clock_def an_event_def)
qed

end
