(* ===== verification/Gptp.thy ===== *)
theory Gptp
  imports Clocks "HOL-Library.Word"
begin

text \<open>
  Time synchronization by gPTP (\<open>inet/linklayer/ieee8021as/Gptp\<close>): a grandmaster sends Sync and Follow_Up
  messages, bridges pass on the time of their own clocks, and every slave port measures the delay of its
  link with Pdelay messages and sets its clock.

  \<^item> A handler gets the simulation time, the state of the module and its clock, and returns them with the
    actions it takes, in order: messages sent to ports and timers set on the clock.
  \<^item> Messages carry the fields that are used. A domain number has 8 bits on the wire, a sequence number 16.
  \<^item> The hash of the module path that identifies a clock is a parameter. Statistics are not modelled.
\<close>

section \<open>Messages and state\<close>

datatype gptp_node = MASTER_NODE | BRIDGE_NODE | SLAVE_NODE

type_synonym port_identity = "64 word \<times> 16 word"

datatype gptp_body =
    GptpSync "16 word"
  | GptpFollowUp "16 word" clocktime clocktime real      \<comment> \<open>precise origin timestamp, correction field, rate ratio\<close>
  | GptpPdelayReq "16 word" port_identity
  | GptpPdelayResp "16 word" port_identity clocktime     \<comment> \<open>request receipt timestamp\<close>
  | GptpPdelayRespFollowUp "16 word" port_identity clocktime   \<comment> \<open>response origin timestamp\<close>

record gptp_frame =
  frameDomain :: "8 word"
  frameBody :: gptp_body

datatype gptp_timer =
    SyncTimer
  | PdelayReqTimer
  | RespTimer int clocktime port_identity "16 word"      \<comment> \<open>\<open>GptpReqAnswerEvent\<close>\<close>
  | OtherTimer

datatype gptp_action = SendFrame int gptp_frame | SetTimer clocktime gptp_timer

record gptp =
  gptpNodeType :: gptp_node
  domainNumber :: int
  slavePortId :: int
  masterPortIds :: "int list"
  correctionField :: clocktime
  clockIdentity :: "64 word"
  gmRateRatio :: real
  receivedRateRatio :: real
  originTimestamp :: clocktime
  receivedTimeSync :: clocktime
  syncInterval :: clocktime
  pdelayInterval :: clocktime
  sequenceId :: "16 word"
  lastSentPdelayReqSequenceId :: "16 word"
  peerDelay :: clocktime
  peerRequestReceiptTimestamp :: clocktime
  peerResponseOriginTimestamp :: clocktime
  pdelayRespEventIngressTimestamp :: clocktime
  pdelayReqEventEgressTimestamp :: clocktime
  pDelayReqProcessingTime :: clocktime
  rcvdPdelayResp :: bool
  sentTimeSyncSync :: clocktime
  newLocalTimeAtTimeSync :: clocktime
  oldLocalTimeAtTimeSync :: clocktime
  peerSentTimeSync :: clocktime
  oldPeerSentTimeSync :: clocktime
  syncIngressTimestamp :: clocktime
  rcvdGptpSync :: bool
  lastReceivedGptpSyncSequenceId :: "16 word"

definition frameOf :: "gptp \<Rightarrow> gptp_body \<Rightarrow> gptp_frame" where
  "frameOf g b = \<lparr>frameDomain = word_of_int (domainNumber g), frameBody = b\<rparr>"

definition foreignDomain :: "gptp \<Rightarrow> gptp_frame \<Rightarrow> bool" where
  "foreignDomain g f \<longleftrightarrow> uint (frameDomain f) \<noteq> domainNumber g"

section \<open>Initialization\<close>

text \<open>
  The ports, given by the interfaces the parameters name (\<open>None\<close>: there is none with the name, which
  \<open>CHK\<close> reports); a slave port that is not given is \<open>-1\<close>.
\<close>

definition addMasterPort :: "int \<Rightarrow> int list \<Rightarrow> int option \<Rightarrow> int list result" where
  "addMasterPort slave ports p =
     (case p of None \<Rightarrow> Inl (RuntimeError ''Expression evaluated to nullptr'')
      | Some i \<Rightarrow> if i = slave then Inl (RuntimeError ''Parameter error: the port specified both master and slave port'')
                  else Inr (insort i (remove1 i ports)))"

definition gptpPorts :: "gptp_node \<Rightarrow> int option option \<Rightarrow> int option list \<Rightarrow> (int \<times> int list) result" where
  "gptpPorts node slavePar masterPar =
     rbind (case slavePar of
              Some nic \<Rightarrow>
                if node = MASTER_NODE then Inl (RuntimeError ''Parameter inconsistency: MASTER_NODE with slave port'')
                else (case nic of None \<Rightarrow> Inl (RuntimeError ''Expression evaluated to nullptr'') | Some i \<Rightarrow> Inr i)
            | None \<Rightarrow> if node \<noteq> MASTER_NODE then Inl (RuntimeError ''Parameter error: Missing slave port'') else Inr (- 1)) (\<lambda>slave.
     if masterPar = [] \<and> node \<noteq> SLAVE_NODE then Inl (RuntimeError ''Parameter error: Missing any master port'')
     else rbind (foldM (addMasterPort slave) [] masterPar) (\<lambda>masters. Inr (slave, masters)))"

definition gptpInitialize ::
    "clocktime \<Rightarrow> gptp_node \<Rightarrow> int \<Rightarrow> int option option \<Rightarrow> int option list \<Rightarrow> 64 word \<Rightarrow> clocktime \<Rightarrow> clocktime \<Rightarrow> clocktime \<Rightarrow> clocktime \<Rightarrow>
     clocktime \<Rightarrow> clocktime \<Rightarrow> (gptp \<times> gptp_action list) result" where
  "gptpInitialize clockNow node domain slavePar masterPar identity sync pdelay processing correction syncInitialOffset pdelayInitialOffset =
     rbind (gptpPorts node slavePar masterPar) (\<lambda>(slave, masters).
       let g = \<lparr>gptpNodeType = node, domainNumber = domain, slavePortId = slave, masterPortIds = masters, correctionField = correction,
             clockIdentity = identity, gmRateRatio = 1, receivedRateRatio = 1,
             originTimestamp = (if node = MASTER_NODE then clockNow + syncInitialOffset else 0), receivedTimeSync = 0,
             syncInterval = sync, pdelayInterval = (if slave \<noteq> - 1 then pdelay else 0), sequenceId = 0, lastSentPdelayReqSequenceId = 0, peerDelay = 0,
             peerRequestReceiptTimestamp = 0, peerResponseOriginTimestamp = 0, pdelayRespEventIngressTimestamp = 0,
             pdelayReqEventEgressTimestamp = 0, pDelayReqProcessingTime = processing, rcvdPdelayResp = False, sentTimeSyncSync = 0,
             newLocalTimeAtTimeSync = 0, oldLocalTimeAtTimeSync = 0, peerSentTimeSync = 0, oldPeerSentTimeSync = - simtime_s 1,
             syncIngressTimestamp = 0, rcvdGptpSync = False, lastReceivedGptpSyncSequenceId = 0xffff\<rparr>
       in Inr (g, (if node = MASTER_NODE then [SetTimer syncInitialOffset SyncTimer] else [])
                  @ (if slave \<noteq> - 1 then [SetTimer pdelayInitialOffset PdelayReqTimer] else [])))"

section \<open>Sending\<close>

definition sendSync :: "clocktime \<Rightarrow> gptp \<Rightarrow> gptp \<times> gptp_action list" where
  "sendSync clockNow g =
     (let g1 = (if gptpNodeType g = MASTER_NODE then g\<lparr>originTimestamp := clockNow\<rparr> else g);
          frame = frameOf g1 (GptpSync (sequenceId g1));
          g2 = g1\<lparr>sequenceId := sequenceId g1 + 1, sentTimeSyncSync := clockNow\<rparr>
      in (g2, map (\<lambda>p. SendFrame p frame) (masterPortIds g2)))"

definition sendFollowUp :: "int \<Rightarrow> 16 word \<Rightarrow> clocktime \<Rightarrow> gptp \<Rightarrow> gptp_action list" where
  "sendFollowUp portId syncSequence preciseOrigin g =
     [SendFrame portId (frameOf g (GptpFollowUp syncSequence preciseOrigin 0 (gmRateRatio g)))]"

definition sendPdelayResp :: "int \<Rightarrow> clocktime \<Rightarrow> port_identity \<Rightarrow> 16 word \<Rightarrow> gptp \<Rightarrow> gptp_action list" where
  "sendPdelayResp portId ingress identity sq g = [SendFrame portId (frameOf g (GptpPdelayResp sq identity ingress))]"

definition sendPdelayRespFollowUp :: "clocktime \<Rightarrow> int \<Rightarrow> 16 word \<Rightarrow> port_identity \<Rightarrow> gptp \<Rightarrow> gptp_action list" where
  "sendPdelayRespFollowUp clockNow portId sq identity g = [SendFrame portId (frameOf g (GptpPdelayRespFollowUp sq identity clockNow))]"

definition ownIdentity :: "gptp \<Rightarrow> port_identity" where
  "ownIdentity g = (clockIdentity g, word_of_int (slavePortId g))"

definition sendPdelayReq :: "clocktime \<Rightarrow> gptp \<Rightarrow> (gptp \<times> gptp_action list) result" where
  "sendPdelayReq clockNow g =
     rbind (ensure (slavePortId g \<noteq> - 1)) (\<lambda>_.
       let g1 = g\<lparr>lastSentPdelayReqSequenceId := sequenceId g, sequenceId := sequenceId g + 1,
                  pdelayReqEventEgressTimestamp := clockNow, rcvdPdelayResp := False\<rparr>
       in Inr (g1, [SendFrame (slavePortId g) (frameOf g (GptpPdelayReq (sequenceId g) (ownIdentity g)))]))"

definition handleSelfMessage :: "clocktime \<Rightarrow> gptp_timer \<Rightarrow> gptp \<Rightarrow> (gptp \<times> gptp_action list) result" where
  "handleSelfMessage clockNow timer g =
     (case timer of
        SyncTimer \<Rightarrow> (let (g1, acts) = sendSync clockNow g in Inr (g1, acts @ [SetTimer (syncInterval g1) SyncTimer]))
      | RespTimer portId ingress identity sq \<Rightarrow> Inr (g, sendPdelayResp portId ingress identity sq g)
      | PdelayReqTimer \<Rightarrow> rbind (sendPdelayReq clockNow g) (\<lambda>(g1, acts). Inr (g1, acts @ [SetTimer (pdelayInterval g1) PdelayReqTimer]))
      | OtherTimer \<Rightarrow> Inl (RuntimeError ''Unknown self message''))"

section \<open>Receiving\<close>

text \<open>\<open>ingress\<close> is the tag with the time of arrival, if the packet has one; reading an absent tag is an error.\<close>

definition ingressOf :: "clocktime option \<Rightarrow> clocktime result" where
  "ingressOf i = (case i of None \<Rightarrow> Inl (RuntimeError ''Tag is absent'') | Some t \<Rightarrow> Inr t)"

definition processSync :: "clocktime option \<Rightarrow> 16 word \<Rightarrow> gptp \<Rightarrow> gptp result" where
  "processSync ingress sq g =
     rbind (ingressOf ingress) (\<lambda>t.
       Inr (g\<lparr>rcvdGptpSync := True, lastReceivedGptpSyncSequenceId := sq, syncIngressTimestamp := t\<rparr>))"

text \<open>
  The quotient of two times is a double. Where no local time has passed since the last message it is
  infinite in the code and \<open>0\<close> here; the theorems are about clocks that moved.
\<close>

definition synchronize :: "(real \<Rightarrow> simtime) \<Rightarrow> simtime \<Rightarrow> gptp \<Rightarrow> clock \<Rightarrow> (gptp \<times> clock) result" where
  "synchronize rnd now g c =
     rbind (getClockTime rnd now c) (\<lambda>origNow.
       let residenceTime = origNow - syncIngressTimestamp g;
           newTime = peerSentTimeSync g + peerDelay g + correctionField g + residenceTime
       in rbind (ensure (gptpNodeType g \<noteq> MASTER_NODE)) (\<lambda>_.
          let ratio = (if oldPeerSentTimeSync g = - simtime_s 1 then 1
                       else real_of_int (peerSentTimeSync g - oldPeerSentTimeSync g) / real_of_int (origNow - newLocalTimeAtTimeSync g));
              compensation = ratio * (1 + oscillatorCompensation c) - 1
          in rbind (setClockTime rnd now newTime compensation True c) (\<lambda>c1.
             rbind (getClockTime rnd now c1) (\<lambda>newNow.
               Inr (g\<lparr>gmRateRatio := ratio, oldPeerSentTimeSync := peerSentTimeSync g, oldLocalTimeAtTimeSync := origNow,
                      newLocalTimeAtTimeSync := newNow, receivedTimeSync := syncIngressTimestamp g,
                      pdelayRespEventIngressTimestamp := pdelayRespEventIngressTimestamp g + (newNow - origNow),
                      pdelayReqEventEgressTimestamp := pdelayReqEventEgressTimestamp g + (newNow - origNow)\<rparr>, c1)))))"

definition processFollowUp ::
    "(real \<Rightarrow> simtime) \<Rightarrow> simtime \<Rightarrow> 16 word \<Rightarrow> clocktime \<Rightarrow> clocktime \<Rightarrow> real \<Rightarrow> gptp \<Rightarrow> clock \<Rightarrow> (gptp \<times> clock) result" where
  "processFollowUp rnd now sq origin correction ratio g c =
     (if \<not> rcvdGptpSync g then Inr (g, c)
      else if sq \<noteq> lastReceivedGptpSyncSequenceId g then Inr (g, c)
      else rbind (synchronize rnd now (g\<lparr>peerSentTimeSync := origin, correctionField := correction, receivedRateRatio := ratio\<rparr>) c) (\<lambda>(g1, c1).
             Inr (g1\<lparr>rcvdGptpSync := False\<rparr>, c1)))"

definition processPdelayReq :: "int \<Rightarrow> clocktime option \<Rightarrow> 16 word \<Rightarrow> port_identity \<Rightarrow> gptp \<Rightarrow> gptp_action list result" where
  "processPdelayReq portId ingress sq identity g =
     rbind (ingressOf ingress) (\<lambda>t. Inr [SetTimer (pDelayReqProcessingTime g) (RespTimer portId t identity sq)])"

text \<open>The port number of 16 bits is compared with the identifier of the slave port, an integer.\<close>

definition forMe :: "port_identity \<Rightarrow> gptp \<Rightarrow> bool" where
  "forMe identity g \<longleftrightarrow> fst identity = clockIdentity g \<and> uint (snd identity) = slavePortId g"

definition processPdelayResp :: "clocktime option \<Rightarrow> 16 word \<Rightarrow> port_identity \<Rightarrow> clocktime \<Rightarrow> gptp \<Rightarrow> gptp result" where
  "processPdelayResp ingress sq identity receipt g =
     (if \<not> forMe identity g then Inr g
      else if sq \<noteq> lastSentPdelayReqSequenceId g then Inr g
      else rbind (ingressOf ingress) (\<lambda>t.
             Inr (g\<lparr>rcvdPdelayResp := True, pdelayRespEventIngressTimestamp := t, peerRequestReceiptTimestamp := receipt,
                    peerResponseOriginTimestamp := 0\<rparr>)))"

definition processPdelayRespFollowUp :: "(real \<Rightarrow> simtime) \<Rightarrow> 16 word \<Rightarrow> port_identity \<Rightarrow> clocktime \<Rightarrow> gptp \<Rightarrow> gptp" where
  "processPdelayRespFollowUp rnd sq identity origin g =
     (if \<not> rcvdPdelayResp g then g
      else if \<not> forMe identity g then g
      else if sq \<noteq> lastSentPdelayReqSequenceId g then g
      else let g1 = g\<lparr>peerResponseOriginTimestamp := origin\<rparr>
           in g1\<lparr>peerDelay := rnd (real_of_int
                  (rnd (gmRateRatio g1 * real_of_int (pdelayRespEventIngressTimestamp g1 - pdelayReqEventEgressTimestamp g1))
                   - (peerResponseOriginTimestamp g1 - peerRequestReceiptTimestamp g1)) / 2)\<rparr>)"

definition slavePortMessage ::
    "(real \<Rightarrow> simtime) \<Rightarrow> simtime \<Rightarrow> clocktime option \<Rightarrow> gptp_body \<Rightarrow> gptp \<Rightarrow> clock \<Rightarrow> (gptp \<times> clock \<times> gptp_action list) result" where
  "slavePortMessage rnd now ingress body g c =
     (case body of
        GptpSync sq \<Rightarrow> rbind (processSync ingress sq g) (\<lambda>g1. Inr (g1, c, []))
      | GptpFollowUp sq origin correction ratio \<Rightarrow>
          rbind (processFollowUp rnd now sq origin correction ratio g c) (\<lambda>(g1, c1).
            if gptpNodeType g1 = BRIDGE_NODE
            then rbind (getClockTime rnd now c1) (\<lambda>t. let (g2, acts) = sendSync t g1 in Inr (g2, c1, acts))
            else Inr (g1, c1, []))
      | GptpPdelayResp sq identity receipt \<Rightarrow> rbind (processPdelayResp ingress sq identity receipt g) (\<lambda>g1. Inr (g1, c, []))
      | GptpPdelayRespFollowUp sq identity origin \<Rightarrow> Inr (processPdelayRespFollowUp rnd sq identity origin g, c, [])
      | GptpPdelayReq sq identity \<Rightarrow> Inl (RuntimeError ''Unknown gPTP packet type''))"

definition handleGptpMessage ::
    "(real \<Rightarrow> simtime) \<Rightarrow> simtime \<Rightarrow> int \<Rightarrow> clocktime option \<Rightarrow> gptp_frame \<Rightarrow> gptp \<Rightarrow> clock \<Rightarrow> (gptp \<times> clock \<times> gptp_action list) result" where
  "handleGptpMessage rnd now incomingNicId ingress frame g c =
     (if foreignDomain g frame then Inr (g, c, [])
      else if incomingNicId = slavePortId g then slavePortMessage rnd now ingress (frameBody frame) g c
      else if incomingNicId \<in> set (masterPortIds g) then
        (case frameBody frame of
           GptpPdelayReq sq identity \<Rightarrow> rbind (processPdelayReq incomingNicId ingress sq identity g) (\<lambda>acts. Inr (g, c, acts))
         | _ \<Rightarrow> Inl (RuntimeError ''Unaccepted gPTP type''))
      else Inr (g, c, []))"

section \<open>The moments of transmission and reception\<close>

text \<open>\<open>receiveSignal\<close>: a frame gets the time its reception ends, and what follows a frame is sent when its transmission ends.\<close>

definition receptionEnded :: "clocktime \<Rightarrow> gptp_frame \<Rightarrow> clocktime option \<Rightarrow> gptp \<Rightarrow> clocktime option" where
  "receptionEnded clockNow frame ingress g =
     (if foreignDomain g frame then ingress else Some clockNow)"

definition transmissionEnded :: "clocktime \<Rightarrow> int \<Rightarrow> gptp_frame \<Rightarrow> gptp \<Rightarrow> gptp \<times> gptp_action list" where
  "transmissionEnded clockNow portId frame g =
     (if foreignDomain g frame then (g, [])
      else (case frameBody frame of
              GptpPdelayResp sq identity receipt \<Rightarrow> (g, sendPdelayRespFollowUp clockNow portId sq identity g)
            | GptpSync sq \<Rightarrow> (g, sendFollowUp portId sq clockNow g)
            | GptpPdelayReq sq identity \<Rightarrow>
                (if portId = slavePortId g then g\<lparr>pdelayReqEventEgressTimestamp := clockNow\<rparr> else g, [])
            | _ \<Rightarrow> (g, [])))"
section \<open>A clock shows what it is set to\<close>

lemma cancel_shown [simp]: "shownAt rnd (cancelClockEvent e c) = shownAt rnd c" "clock_ok now (cancelClockEvent e c) = clock_ok now c"
  "clockEventTime (cancelClockEvent e c) = clockEventTime c" "oscillatorCompensation (cancelClockEvent e c) = oscillatorCompensation c"
  by (simp_all add: cancel_fields) (simp add: cancelClockEvent_def forget_def)

definition same_clock :: "simtime \<Rightarrow> clock \<Rightarrow> clock \<Rightarrow> bool" where
  "same_clock now c c' \<longleftrightarrow> (\<forall>rnd. shownAt rnd c' = shownAt rnd c) \<and> clock_ok now c' = clock_ok now c \<and> clockEventTime c' = clockEventTime c
     \<and> oscillatorCompensation c' = oscillatorCompensation c"

lemma same_clock_simps [simp]: "same_clock now c c" "same_clock now c (updateEvent e f c') = same_clock now c c'"
  "same_clock now c (cancelClockEvent e c)"
  by (simp_all add: same_clock_def fun_eq_iff)

lemma adjustEvent_keeps:
  assumes "adjustEvent rnd now newTime delta e c = Inr c'"
  shows "same_clock now c c'"
proof (cases "evRelative (eventData c e)")
  case True
  then show ?thesis using assms by (auto simp: adjustEvent_def)
next
  case False
  have handled: "same_clock now c c1" if "handleOverdueClockEvent e t c = Inr (c1, s1)" for c1 t s1
    using that by (auto simp: handleOverdueClockEvent_def split: overdue_mode.splits if_splits)
  obtain s c1 s1 where "(if evArrival (eventData c e) < newTime \<or> s < now then handleOverdueClockEvent e now c else Inr (c, s)) = Inr (c1, s1)"
    and c': "(if evQueued (eventData c1 e) \<noteq> None then simRescheduleAt now s1 e c1 else Inr c1) = Inr c'"
    using assms False by (auto simp: adjustEvent_def Let_def rbind_Inr_iff [of _ _ c'])
  then have "same_clock now c c1" using handled by (auto split: if_splits)
  then show ?thesis using c' by (auto simp: simRescheduleAt_def split: if_splits)
qed

lemma adjustEvents_keeps:
  "adjustEvents rnd now newTime delta js mem c = Inr c' \<Longrightarrow> same_clock now c c'"
proof (induction js arbitrary: mem c)
  case (Cons i js)
  then obtain c1 where "adjustEvent rnd now newTime delta (mem ! i) c = Inr c1"
    "adjustEvents rnd now newTime delta js (clockEvents c1 @ drop (length (clockEvents c1)) mem) c1 = Inr c'" by (auto simp: rbind_Inr_iff)
  then show ?case using Cons.IH adjustEvent_keeps unfolding same_clock_def by metis
qed simp

lemma setClockTime_shows:
  assumes "rounding rnd" "clock_ok now c" "idle c" "events_ok c" "- 1 < cmp" "setClockTime rnd now newTime cmp reset c = Inr c'"
  shows "getClockTime rnd now c' = Inr newTime \<and> clock_ok now c' \<and> idle c'
    \<and> (getClockTime rnd now c \<noteq> Inr newTime \<longrightarrow> oscillatorCompensation c' = cmp)"
proof (cases "shownAt rnd c now = newTime")
  case True
  then show ?thesis using assms getClockTime_idle [OF assms(2,3), of rnd] by (simp add: setClockTime_def)
next
  case False
  obtain c1 where c1: "(if reset \<and> constantDrift c then clockSetTickOffset rnd now 0 c else Inr c) = Inr c1"
    and rest: "rbind (getClockTime rnd now (c1\<lparr>originSimulationTime := now, originClockTime := newTime, oscillatorCompensation := cmp\<rparr>)) (\<lambda>t.
        rbind (ensure (newTime = t)) (\<lambda>_. adjustEvents rnd now newTime (newTime - shownAt rnd c now) [0..<length (clockEvents c1)] (clockEvents c1)
          (c1\<lparr>originSimulationTime := now, originClockTime := newTime, oscillatorCompensation := cmp\<rparr>))) = Inr c'"
    using assms(6) False getClockTime_idle [OF assms(2,3), of rnd] by (auto simp: setClockTime_def rbind_Inr_iff [of "if _ then _ else _"] Let_def)
  define c2 where "c2 = c1\<lparr>originSimulationTime := now, originClockTime := newTime, oscillatorCompensation := cmp\<rparr>"
  have "osc_ok (setTickOffset rnd now 0 (osc c))" if "clock_ok now c"
    using that currentTick_pos [OF assms(1), of "osc c"] by (intro setTickOffset_ok) (simp_all add: clock_ok_def)
  then have "clock_ok now c1 \<and> idle c1"
    using c1 assms(2,3) changeOscillator_effect [OF assms(1-4), of "setTickOffset rnd now 0" c1]
    by (auto simp: clockSetTickOffset_def setTickOffset_def split: if_splits)
  then have c2: "clock_ok now c2" "idle c2" using assms(5) by (simp_all add: c2_def clock_ok_def)
  have f: "originSimulationTime c2 = now" "originClockTime c2 = newTime" by (simp_all add: c2_def)
  have shown: "shownAt rnd c2 now = newTime" unfolding shownAt_def f using rounding_exact [OF assms(1), of 0] by simp
  have "adjustEvents rnd now newTime (newTime - shownAt rnd c now) [0..<length (clockEvents c1)] (clockEvents c1) c2 = Inr c'"
    using rest getClockTime_idle [OF c2, of rnd] shown by (simp add: c2_def [symmetric])
  then have "same_clock now c2 c'" by (rule adjustEvents_keeps)
  then show ?thesis using c2 shown getClockTime_idle [of now c' rnd] by (simp add: same_clock_def c2_def)
qed

section \<open>Measuring the delay of a link\<close>

text \<open>
  C34. The delay of a link is measured right, whatever the difference between the two clocks: if a slave
  port sends its request and gets the response at times that its peer's clock shows as \<open>m1\<close> and \<open>m4\<close>,
  the peer gets and answers them at \<open>t2\<close> and \<open>t3\<close>, the delay is the same in both directions, the rate ratio
  the slave uses is exactly that of the clocks, and it processes no Sync during the exchange, the port
  ends with this delay.
\<close>

theorem peer_delay_is_measured:
  assumes "rounding rnd" "\<not> foreignDomain g (frameOf g b)" "0 \<le> slavePortId g" "slavePortId g < 2 ^ 16"
    and req: "sendPdelayReq t0 g = Inr (g0, [SendFrame port frame])"
    and egress: "transmissionEnded t1 port frame g0 = (g1, acts)"
    and resp: "processPdelayResp (Some t4) (lastSentPdelayReqSequenceId g1) (ownIdentity g1) t2 g1 = Inr g2"
    and "t2 = m1 + d" "m4 = t3 + d" "gmRateRatio g * real_of_int (t4 - t1) = real_of_int (m4 - m1)"
  shows "peerDelay (processPdelayRespFollowUp rnd (lastSentPdelayReqSequenceId g1) (ownIdentity g1) t3 g2) = d"
proof -
  have g0: "port = slavePortId g" "frame = frameOf g (GptpPdelayReq (sequenceId g) (ownIdentity g))" "gmRateRatio g0 = gmRateRatio g"
    "slavePortId g0 = slavePortId g" "domainNumber g0 = domainNumber g" "clockIdentity g0 = clockIdentity g"
    using req by (auto simp: sendPdelayReq_def rbind_Inr_iff Let_def)
  have "\<not> foreignDomain g0 frame" using assms(2) g0 by (simp add: foreignDomain_def frameOf_def)
  then have g1: "g1 = g0\<lparr>pdelayReqEventEgressTimestamp := t1\<rparr>" using egress g0 by (simp add: transmissionEnded_def frameOf_def)
  have me: "forMe (ownIdentity g) g'" if "clockIdentity g' = clockIdentity g" "slavePortId g' = slavePortId g" for g'
    using that assms(3,4) by (simp add: forMe_def ownIdentity_def uint_word_of_int take_bit_int_eq_self)
  have own: "ownIdentity g1 = ownIdentity g" using g1 g0 by (simp add: ownIdentity_def)
  have "forMe (ownIdentity g) g1" using me g1 g0 by simp
  then have g2: "g2 = g1\<lparr>rcvdPdelayResp := True, pdelayRespEventIngressTimestamp := t4, peerRequestReceiptTimestamp := t2, peerResponseOriginTimestamp := 0\<rparr>"
    using resp own by (simp add: processPdelayResp_def ingressOf_def)
  have "forMe (ownIdentity g) g2" using me g2 g1 g0 by simp
  moreover have "gmRateRatio g2 = gmRateRatio g" using g2 g1 g0 by simp
  moreover have "rnd (real_of_int (m4 - m1)) = m4 - m1" using rounding_exact [OF assms(1)] .
  moreover have "(m4 - m1) - (t3 - t2) = 2 * d" using assms(8,9) by simp
  moreover have "rnd (real_of_int (2 * d) / 2) = d" using rounding_exact [OF assms(1), of d] by simp
  ultimately show ?thesis using own g2 g1 assms(10) by (simp add: processPdelayRespFollowUp_def Let_def del: of_int_diff of_int_mult)
qed

text \<open>
  The measured delay changes only by the answer to the last request: a response or follow-up for
  another port, for another request, or without the message before it, leaves it alone.
\<close>

theorem peer_delay_only_from_last_request:
  assumes "slavePortMessage rnd now ingress body g c = Inr (g', c', acts)" "peerDelay g' \<noteq> peerDelay g"
  shows "rcvdPdelayResp g \<and> (\<exists>origin identity. body = GptpPdelayRespFollowUp (lastSentPdelayReqSequenceId g) identity origin \<and> forMe identity g)"
proof -
  have s: "peerDelay g1 = peerDelay g" if "synchronize rnd now (g\<lparr>peerSentTimeSync := a, correctionField := b, receivedRateRatio := r\<rparr>) c = Inr (g1, c1)" for g1 c1 a b r
    using that by (auto simp: synchronize_def rbind_Inr_iff Let_def)
  show ?thesis
  proof (cases body)
    case (GptpFollowUp sq a b r)
    then have "peerDelay g' = peerDelay g" using assms(1)
      by (auto simp: slavePortMessage_def processFollowUp_def rbind_Inr_iff sendSync_def Let_def dest!: s split: if_splits)
    then show ?thesis using assms(2) by simp
  qed (use assms in \<open>auto simp: slavePortMessage_def processSync_def processPdelayResp_def processPdelayRespFollowUp_def rbind_Inr_iff Let_def split: if_splits\<close>)
qed
section \<open>Following the grandmaster\<close>

text \<open>A slave that has seen a Sync before sees a later one later.\<close>

definition later_sync :: "clocktime \<Rightarrow> clocktime \<Rightarrow> gptp \<Rightarrow> bool" where
  "later_sync origin origNow g \<longleftrightarrow> oldPeerSentTimeSync g = - simtime_s 1 \<or> (oldPeerSentTimeSync g < origin \<and> newLocalTimeAtTimeSync g < origNow)"

definition rateOf :: "clocktime \<Rightarrow> clocktime \<Rightarrow> gptp \<Rightarrow> real" where
  "rateOf origin origNow g =
     (if oldPeerSentTimeSync g = - simtime_s 1 then 1
      else real_of_int (origin - oldPeerSentTimeSync g) / real_of_int (origNow - newLocalTimeAtTimeSync g))"

lemma processFollowUp_effect:
  assumes "rounding rnd" "clock_ok now c" "idle c" "events_ok c" "getClockTime rnd now c = Inr origNow" "later_sync origin origNow g"
    and "rcvdGptpSync g" "processFollowUp rnd now (lastReceivedGptpSyncSequenceId g) origin corr r g c = Inr (g2, c2)"
  defines "newTime \<equiv> origin + peerDelay g + corr + (origNow - syncIngressTimestamp g)"
  shows "getClockTime rnd now c2 = Inr newTime \<and> gmRateRatio g2 = rateOf origin origNow g \<and> newLocalTimeAtTimeSync g2 = newTime
    \<and> oldPeerSentTimeSync g2 = origin \<and> \<not> rcvdGptpSync g2 \<and> peerDelay g2 = peerDelay g
    \<and> setClockTime rnd now newTime (rateOf origin origNow g * (1 + oscillatorCompensation c) - 1) True c = Inr c2
    \<and> (newTime \<noteq> origNow \<longrightarrow> oscillatorCompensation c2 = rateOf origin origNow g * (1 + oscillatorCompensation c) - 1)"
proof -
  let ?cmp = "rateOf origin origNow g * (1 + oscillatorCompensation c) - 1"
  obtain newNow where set: "setClockTime rnd now newTime ?cmp True c = Inr c2" and new: "getClockTime rnd now c2 = Inr newNow"
    and g2: "gmRateRatio g2 = rateOf origin origNow g" "newLocalTimeAtTimeSync g2 = newNow" "oldPeerSentTimeSync g2 = origin" "\<not> rcvdGptpSync g2"
      "peerDelay g2 = peerDelay g"
    using assms(5,7,8) by (auto simp: processFollowUp_def synchronize_def rbind_Inr_iff Let_def rateOf_def newTime_def cong: if_cong)
  have "0 < rateOf origin origNow g" using assms(6) by (auto simp: later_sync_def rateOf_def)
  then have "- 1 < ?cmp" using assms(2) by (simp add: clock_ok_def)
  then show ?thesis using setClockTime_shows [OF assms(1-4) _ set] set new g2 assms(5) by auto
qed

text \<open>
  C13. From the sender of a Sync to the clock of its receiver: when the transmission of a Sync ends, its
  sender sends a Follow_Up; when the slave that received the Sync at its local time \<open>arrived\<close> processes
  this Follow_Up and its clock accepts the new time, the clock shows the sender's time at the departure
  of the Sync, plus the delay of the link as the slave has measured it (zero before the first
  measurement), plus the time since the Sync arrived as the slave's clock counted it.
\<close>

theorem slave_follows_master:
  assumes clock: "rounding rnd" "clock_ok now c" "idle c" "events_ok c" "getClockTime rnd now c = Inr origNow"
    and sent: "transmissionEnded departed port (frameOf m (GptpSync sq)) m = (m', [SendFrame port f])"
      "frameBody f = GptpFollowUp sq' origin corr r"
    and received: "processSync (Some arrived) sq g = Inr g1" "later_sync origin origNow g1"
      "processFollowUp rnd now sq' origin corr r g1 c = Inr (g2, c2)"
  shows "getClockTime rnd now c2 = Inr (departed + peerDelay g + (origNow - arrived))"
proof -
  have f: "sq' = sq" "origin = departed" "corr = 0"
    using sent by (auto simp: transmissionEnded_def frameOf_def sendFollowUp_def split: if_splits)
  have g1: "rcvdGptpSync g1" "lastReceivedGptpSyncSequenceId g1 = sq" "syncIngressTimestamp g1 = arrived" "peerDelay g1 = peerDelay g"
    using received(1) by (auto simp: processSync_def ingressOf_def)
  show ?thesis
    using processFollowUp_effect [OF clock received(2) g1(1) received(3) [unfolded f(1) g1(2) [symmetric]]] g1(3,4) f(2,3) by simp
qed

text \<open>
  The rate of the clock is corrected by the ratio of the rates: with the new compensation, the time the
  slave's clock would have counted since the last Sync was processed is the time between the two Syncs
  of the master.
\<close>

theorem compensation_matches_rates:
  assumes "rounding rnd" "clock_ok now c" "idle c" "events_ok c" "getClockTime rnd now c = Inr origNow" "later_sync origin origNow g"
    and "rcvdGptpSync g" "processFollowUp rnd now (lastReceivedGptpSyncSequenceId g) origin corr r g c = Inr (g2, c2)"
    and "oldPeerSentTimeSync g \<noteq> - simtime_s 1" "origin + peerDelay g + corr \<noteq> syncIngressTimestamp g"
  shows "(1 + oscillatorCompensation c2) * (real_of_int (origNow - newLocalTimeAtTimeSync g) / (1 + oscillatorCompensation c))
    = real_of_int (origin - oldPeerSentTimeSync g)"
proof -
  have "oscillatorCompensation c2 = rateOf origin origNow g * (1 + oscillatorCompensation c) - 1"
    using processFollowUp_effect [OF assms(1-8)] assms(10) by simp
  moreover have "newLocalTimeAtTimeSync g < origNow" "0 < 1 + oscillatorCompensation c" using assms(2,6,9) by (simp_all add: later_sync_def clock_ok_def)
  ultimately show ?thesis using assms(9) by (simp add: rateOf_def)
qed

text \<open>
  A clock that happens to show the right time keeps its rate, however wrong: the new compensation is
  dropped with the new time, although the module takes the ratio over.
\<close>

theorem right_time_keeps_wrong_rate:
  assumes "rounding rnd" "clock_ok now c" "idle c" "events_ok c" "getClockTime rnd now c = Inr origNow" "later_sync origin origNow g"
    and "rcvdGptpSync g" "processFollowUp rnd now (lastReceivedGptpSyncSequenceId g) origin corr r g c = Inr (g2, c2)"
    and "origin + peerDelay g + corr = syncIngressTimestamp g"
  shows "c2 = c \<and> gmRateRatio g2 = rateOf origin origNow g"
  using processFollowUp_effect [OF assms(1-8)] assms(5,9) by (simp add: setClockTime_def)

text \<open>
  The ratio compares different intervals: the time between the departures of two Syncs with the time
  between the processing of their Follow_Ups. Where a Follow_Up of clocks of equal rates is processed later
  after its Sync than the one before, by \<open>late\<close>, the ratio is too small.
\<close>

theorem late_follow_up_distorts_rate:
  assumes "rounding rnd" "clock_ok now c" "idle c" "events_ok c" "getClockTime rnd now c = Inr origNow"
    and "rcvdGptpSync g" "processFollowUp rnd now (lastReceivedGptpSyncSequenceId g) origin corr r g c = Inr (g2, c2)"
    and "oldPeerSentTimeSync g \<noteq> - simtime_s 1" "0 < interval" "0 < late"
    and "origin = oldPeerSentTimeSync g + interval" "origNow = newLocalTimeAtTimeSync g + interval + late"
  shows "gmRateRatio g2 = real_of_int interval / real_of_int (interval + late) \<and> gmRateRatio g2 < 1"
proof -
  have "later_sync origin origNow g" using assms(9-12) by (simp add: later_sync_def)
  then have "gmRateRatio g2 = real_of_int interval / real_of_int (interval + late)"
    using processFollowUp_effect [OF assms(1-5) _ assms(6,7)] assms(8,11,12) by (simp add: rateOf_def add.assoc)
  moreover have "real_of_int interval / real_of_int (interval + late) < 1" using assms(9,10) by (simp add: divide_less_eq)
  ultimately show ?thesis by simp
qed

section \<open>What is ignored and what is not\<close>

text \<open>
  A Follow_Up without its Sync changes neither the slave nor its clock. But a bridge sends a Sync on
  all its master ports all the same.
\<close>

theorem stray_follow_up:
  assumes "\<not> rcvdGptpSync g \<or> sq \<noteq> lastReceivedGptpSyncSequenceId g" "getClockTime rnd now c = Inr t"
  shows "slavePortMessage rnd now ingress (GptpFollowUp sq origin corr r) g c
    = (if gptpNodeType g = BRIDGE_NODE
       then Inr (g\<lparr>sequenceId := sequenceId g + 1, sentTimeSyncSync := t\<rparr>, c,
              map (\<lambda>p. SendFrame p (frameOf g (GptpSync (sequenceId g)))) (masterPortIds g))
       else Inr (g, c, []))"
  using assms by (auto simp: slavePortMessage_def processFollowUp_def sendSync_def Let_def)

text \<open>
  A port that is configured as master ends the simulation when its neighbour believes to be the
  master, too: every message of the domain but a delay request is an error there.
\<close>

theorem two_masters_crash:
  assumes "\<not> foreignDomain g f" "i \<in> set (masterPortIds g)" "i \<noteq> slavePortId g" "\<forall>sq identity. frameBody f \<noteq> GptpPdelayReq sq identity"
  shows "handleGptpMessage rnd now i ingress f g c = Inl (RuntimeError ''Unaccepted gPTP type'')"
  using assms by (auto simp: handleGptpMessage_def split: gptp_body.splits)

lemma addMasterPort_Inr: "addMasterPort slave ports p = Inr x \<longleftrightarrow> (\<exists>i. p = Some i \<and> i \<noteq> slave \<and> x = insort i (remove1 i ports))"
  by (auto simp: addMasterPort_def split: option.splits)

lemma addMasterPorts:
  assumes "foldM (addMasterPort slave) ports ps = Inr ports'" "slave \<notin> set ports" "sorted ports" "distinct ports"
  shows "slave \<notin> set ports' \<and> sorted ports' \<and> distinct ports' \<and> set ports \<subseteq> set ports'
    \<and> (\<forall>i. Some i \<in> set ps \<longrightarrow> i \<in> set ports')"
  using assms
proof (induction ps arbitrary: ports)
  case Nil
  then show ?case by simp
next
  case (Cons p ps)
  then obtain i where i: "p = Some i" "i \<noteq> slave" "foldM (addMasterPort slave) (insort i (remove1 i ports)) ps = Inr ports'"
    by (auto simp: rbind_Inr_iff addMasterPort_Inr)
  have "set (insort i (remove1 i ports)) = insert i (set ports)" using Cons.prems(4) by (auto simp: set_insort_key)
  moreover have "sorted (insort i (remove1 i ports))" "distinct (insort i (remove1 i ports))"
    using Cons.prems(3,4) by (simp_all add: sorted_insort sorted_remove1 distinct_insort)
  ultimately show ?case using Cons.IH [OF i(3)] i Cons.prems(2) by auto
qed

text \<open>
  After an initialization that succeeds every port has one role: a grandmaster has no slave port, every
  other node has one that is not among its master ports, and only a slave may do without master ports.
\<close>

theorem ports_have_one_role:
  assumes "gptpInitialize clockNow node domain slavePar masterPar identity sync pdelay processing correction o1 o2 = Inr (g, acts)"
    and "\<forall>i. slavePar = Some (Some i) \<longrightarrow> 0 \<le> i" "\<forall>i. Some i \<in> set masterPar \<longrightarrow> 0 \<le> i"
  shows "(gptpNodeType g = MASTER_NODE \<longleftrightarrow> slavePortId g = - 1) \<and> slavePortId g \<notin> set (masterPortIds g)
    \<and> distinct (masterPortIds g) \<and> (masterPortIds g = [] \<longrightarrow> gptpNodeType g = SLAVE_NODE)"
proof -
  obtain slave masters where p: "gptpPorts node slavePar masterPar = Inr (slave, masters)"
    and g: "gptpNodeType g = node" "slavePortId g = slave" "masterPortIds g = masters"
    using assms(1) by (auto simp: gptpInitialize_def rbind_Inr_iff Let_def)
  have slave: "node = MASTER_NODE \<longleftrightarrow> slave = - 1" and loop: "foldM (addMasterPort slave) [] masterPar = Inr masters"
    and none: "masterPar = [] \<longrightarrow> node = SLAVE_NODE"
    using p assms(2) by (auto simp: gptpPorts_def rbind_Inr_iff split: option.splits if_splits)
  have "masterPar \<noteq> [] \<longrightarrow> (\<exists>i. Some i \<in> set masterPar)"
    using loop by (cases masterPar) (auto simp: rbind_Inr_iff addMasterPort_Inr)
  then show ?thesis using addMasterPorts [OF loop] slave none g by auto
qed
section \<open>Examples\<close>

definition a_gptp :: "gptp_node \<Rightarrow> int \<Rightarrow> int list \<Rightarrow> gptp" where
  "a_gptp node slave masters = \<lparr>gptpNodeType = node, domainNumber = 0, slavePortId = slave, masterPortIds = masters, correctionField = 0,
     clockIdentity = 5, gmRateRatio = 1, receivedRateRatio = 1, originTimestamp = 0, receivedTimeSync = 0, syncInterval = 1000,
     pdelayInterval = 1000, sequenceId = 0, lastSentPdelayReqSequenceId = 0, peerDelay = 0, peerRequestReceiptTimestamp = 0,
     peerResponseOriginTimestamp = 0, pdelayRespEventIngressTimestamp = 0, pdelayReqEventEgressTimestamp = 0, pDelayReqProcessingTime = 10,
     rcvdPdelayResp = False, sentTimeSyncSync = 0, newLocalTimeAtTimeSync = 0, oldLocalTimeAtTimeSync = 0, peerSentTimeSync = 0,
     oldPeerSentTimeSync = - simtime_s 1, syncIngressTimestamp = 0, rcvdGptpSync = False, lastReceivedGptpSyncSequenceId = 0xffff\<rparr>"

definition slave_clock :: clock where
  "slave_clock = (a_clock (demo_oscillator 0) RoundUp 0 [] (\<lambda>_. no_event))\<lparr>constantDrift := False\<rparr>"

lemmas slave_clock_facts = slave_clock_def example_clock

lemma slave_clock_ok: "0 \<le> t \<Longrightarrow> clock_ok t slave_clock" "idle slave_clock" "events_ok slave_clock" "oscillatorCompensation slave_clock = 0"
  by (simp_all add: slave_clock_facts events_ok_def)

lemma slave_clock_shows: "getClockTime floor 40 slave_clock = Inr 40" "getClockTime floor 140 slave_clock = Inr 140"
  by (simp_all add: slave_clock_facts)

text \<open>The clock of the example accepts every time.\<close>

lemma slave_clock_set:
  assumes "getClockTime floor t slave_clock = Inr old" "0 \<le> t" "- 1 < cmp"
  shows "\<exists>c'. setClockTime floor t newTime cmp True slave_clock = Inr c'"
proof -
  let ?c = "slave_clock\<lparr>originSimulationTime := t, originClockTime := newTime, oscillatorCompensation := cmp\<rparr>"
  have "clock_ok t ?c" "idle ?c" using assms(2,3) by (simp_all add: slave_clock_facts)
  then have "getClockTime floor t ?c = Inr (shownAt floor ?c t)" by (rule getClockTime_idle)
  moreover have "shownAt floor ?c t = newTime" by (simp add: shownAt_def)
  ultimately show ?thesis using assms(1) by (simp add: setClockTime_def) (simp add: slave_clock_def a_clock_def)
qed

lemma follow_up_accepted:
  assumes "getClockTime floor t slave_clock = Inr origNow" "0 \<le> t" "rcvdGptpSync g" "gptpNodeType g = SLAVE_NODE" "later_sync origin origNow g"
  shows "\<exists>g2 c2. processFollowUp floor t (lastReceivedGptpSyncSequenceId g) origin corr r g slave_clock = Inr (g2, c2)"
proof -
  let ?new = "origin + peerDelay g + corr + (origNow - syncIngressTimestamp g)" and ?cmp = "rateOf origin origNow g - 1"
  have p: "- 1 < ?cmp" using assms(5) by (auto simp: later_sync_def rateOf_def)
  obtain c' where c': "setClockTime floor t ?new ?cmp True slave_clock = Inr c'" using slave_clock_set [OF assms(1,2) p] by blast
  then have "getClockTime floor t c' = Inr ?new" using setClockTime_shows [OF floor_rounding slave_clock_ok(1) [OF assms(2)] slave_clock_ok(2,3) p c'] by blast
  then show ?thesis using c' assms(1,3,4) slave_clock_ok(4)
    by (simp add: processFollowUp_def synchronize_def Let_def rateOf_def cong: if_cong)
qed

lemma peer_delay_is_measured_witness:
  "\<exists>g g' d. d = 30 \<and> peerDelay (processPdelayRespFollowUp floor (lastSentPdelayReqSequenceId g) (ownIdentity g) 1060 g') = d"
proof -
  let ?g = "a_gptp SLAVE_NODE 3 []"
  obtain g0 frame where g0: "sendPdelayReq 0 ?g = Inr (g0, [SendFrame 3 frame])" by (simp add: sendPdelayReq_def a_gptp_def)
  obtain g1 acts where g1: "transmissionEnded 10 3 frame g0 = (g1, acts)" by fastforce
  obtain g2 where g2: "processPdelayResp (Some 90) (lastSentPdelayReqSequenceId g1) (ownIdentity g1) 1040 g1 = Inr g2"
    by (cases "processPdelayResp (Some 90) (lastSentPdelayReqSequenceId g1) (ownIdentity g1) 1040 g1")
      (auto simp: processPdelayResp_def ingressOf_def split: if_splits)
  have "peerDelay (processPdelayRespFollowUp floor (lastSentPdelayReqSequenceId g1) (ownIdentity g1) 1060 g2) = 30"
    by (rule peer_delay_is_measured [OF floor_rounding _ _ _ g0 g1 g2, of "GptpSync 0" 1010 30 1090])
      (simp_all add: a_gptp_def foreignDomain_def frameOf_def)
  then show ?thesis by blast
qed

lemma peer_delay_only_from_last_request_witness:
  "\<exists>origin identity. GptpPdelayRespFollowUp 0 (5, 3) 60 = GptpPdelayRespFollowUp (lastSentPdelayReqSequenceId (a_gptp SLAVE_NODE 3 [])) identity origin
     \<and> forMe identity (a_gptp SLAVE_NODE 3 [])"
proof -
  let ?g = "(a_gptp SLAVE_NODE 3 [])\<lparr>rcvdPdelayResp := True, pdelayRespEventIngressTimestamp := 90\<rparr>"
  have "forMe (5, 3) ?g" by (simp add: forMe_def a_gptp_def)
  then have "slavePortMessage floor 0 None (GptpPdelayRespFollowUp 0 (5, 3) 60) ?g slave_clock
      = Inr (?g\<lparr>peerResponseOriginTimestamp := 60, peerDelay := 15\<rparr>, slave_clock, [])"
    by (simp add: slavePortMessage_def processPdelayRespFollowUp_def a_gptp_def)
  from peer_delay_only_from_last_request [OF this] show ?thesis by (simp add: a_gptp_def forMe_def)
qed

lemma slave_follows_master_witness:
  "\<exists>f g2 c2. transmissionEnded 1000 3 (frameOf (a_gptp MASTER_NODE (- 1) [3]) (GptpSync 7)) (a_gptp MASTER_NODE (- 1) [3])
       = (a_gptp MASTER_NODE (- 1) [3], [SendFrame 3 f])
     \<and> frameBody f = GptpFollowUp 7 1000 0 1
     \<and> processFollowUp floor 40 7 1000 0 1
     ((a_gptp SLAVE_NODE 3 [])\<lparr>rcvdGptpSync := True, lastReceivedGptpSyncSequenceId := 7, syncIngressTimestamp := 20\<rparr>) slave_clock = Inr (g2, c2)
     \<and> getClockTime floor 40 c2 = Inr 1020"
proof -
  let ?m = "a_gptp MASTER_NODE (- 1) [3]"
  let ?f = "frameOf ?m (GptpFollowUp 7 1000 0 1)"
  let ?g = "a_gptp SLAVE_NODE 3 []" and ?g1 = "(a_gptp SLAVE_NODE 3 [])\<lparr>rcvdGptpSync := True, lastReceivedGptpSyncSequenceId := 7, syncIngressTimestamp := 20\<rparr>"
  have m: "transmissionEnded 1000 3 (frameOf ?m (GptpSync 7)) ?m = (?m, [SendFrame 3 ?f])" "frameBody ?f = GptpFollowUp 7 1000 0 1"
    by (simp_all add: transmissionEnded_def foreignDomain_def frameOf_def sendFollowUp_def a_gptp_def)
  have s: "processSync (Some 20) 7 ?g = Inr ?g1" by (simp add: processSync_def ingressOf_def)
  have l: "later_sync 1000 40 ?g1" by (simp add: later_sync_def a_gptp_def)
  obtain g2 c2 where f: "processFollowUp floor 40 7 1000 0 1 ?g1 slave_clock = Inr (g2, c2)"
    using follow_up_accepted [OF slave_clock_shows(1) _ _ _ l, of 0 1] by (auto simp: a_gptp_def)
  have "getClockTime floor 40 c2 = Inr (1000 + peerDelay ?g + (40 - 20))"
    by (rule slave_follows_master [OF floor_rounding slave_clock_ok(1) slave_clock_ok(2,3) slave_clock_shows(1) m s l f]) simp
  then have "getClockTime floor 40 c2 = Inr 1020" by (simp add: a_gptp_def)
  then show ?thesis using f m by blast
qed

definition synced :: gptp where
  "synced = (a_gptp SLAVE_NODE 3 [])\<lparr>rcvdGptpSync := True, syncIngressTimestamp := 130, oldPeerSentTimeSync := 1000, newLocalTimeAtTimeSync := 40\<rparr>"

lemma synced_fields: "rcvdGptpSync synced" "gptpNodeType synced = SLAVE_NODE" "oldPeerSentTimeSync synced \<noteq> - simtime_s 1" "peerDelay synced = 0"
  "syncIngressTimestamp synced = 130" "newLocalTimeAtTimeSync synced = 40" "oldPeerSentTimeSync synced = 1000"
  by (simp_all add: synced_def a_gptp_def simtime_s_def)

lemma synced_later: "1000 < origin \<Longrightarrow> later_sync origin 140 synced"
  by (simp add: later_sync_def synced_fields)

lemma compensation_matches_rates_witness:
  "\<exists>g2 c2. processFollowUp floor 140 (lastReceivedGptpSyncSequenceId synced) 1200 0 1 synced slave_clock = Inr (g2, c2)
     \<and> (1 + oscillatorCompensation c2) * 100 = 200"
proof -
  obtain g2 c2 where f: "processFollowUp floor 140 (lastReceivedGptpSyncSequenceId synced) 1200 0 1 synced slave_clock = Inr (g2, c2)"
    using follow_up_accepted [OF slave_clock_shows(2) _ synced_fields(1,2) synced_later] by fastforce
  have "(1 + oscillatorCompensation c2) * (real_of_int (140 - newLocalTimeAtTimeSync synced) / (1 + oscillatorCompensation slave_clock))
      = real_of_int (1200 - oldPeerSentTimeSync synced)"
    by (rule compensation_matches_rates [OF floor_rounding slave_clock_ok(1) slave_clock_ok(2,3) slave_clock_shows(2) synced_later synced_fields(1) f])
      (simp_all add: synced_fields simtime_s_def)
  then show ?thesis using f by (simp add: synced_fields slave_clock_ok(4))
qed

lemma right_time_keeps_wrong_rate_witness:
  "\<exists>g2. processFollowUp floor 140 (lastReceivedGptpSyncSequenceId synced) 1200 (- 1070) 1 synced slave_clock = Inr (g2, slave_clock) \<and> gmRateRatio g2 = 2"
proof -
  obtain g2 c2 where f: "processFollowUp floor 140 (lastReceivedGptpSyncSequenceId synced) 1200 (- 1070) 1 synced slave_clock = Inr (g2, c2)"
    using follow_up_accepted [OF slave_clock_shows(2) _ synced_fields(1,2) synced_later] by fastforce
  have "c2 = slave_clock \<and> gmRateRatio g2 = rateOf 1200 140 synced"
    by (rule right_time_keeps_wrong_rate [OF floor_rounding slave_clock_ok(1) slave_clock_ok(2,3) slave_clock_shows(2) synced_later synced_fields(1) f])
      (simp_all add: synced_fields)
  then show ?thesis using f by (simp add: rateOf_def synced_fields simtime_s_def)
qed

lemma late_follow_up_distorts_rate_witness:
  "\<exists>g2 c2. processFollowUp floor 140 (lastReceivedGptpSyncSequenceId synced) 1090 0 1 synced slave_clock = Inr (g2, c2) \<and> gmRateRatio g2 < 1"
proof -
  obtain g2 c2 where f: "processFollowUp floor 140 (lastReceivedGptpSyncSequenceId synced) 1090 0 1 synced slave_clock = Inr (g2, c2)"
    using follow_up_accepted [OF slave_clock_shows(2) _ synced_fields(1,2) synced_later] by fastforce
  have "gmRateRatio g2 = real_of_int 90 / real_of_int (90 + 10) \<and> gmRateRatio g2 < 1"
    by (rule late_follow_up_distorts_rate [OF floor_rounding slave_clock_ok(1) slave_clock_ok(2,3) slave_clock_shows(2) synced_fields(1) f])
      (simp_all add: synced_fields simtime_s_def)
  then show ?thesis using f by blast
qed

lemma stray_follow_up_witness:
  "\<exists>g2. slavePortMessage floor 40 None (GptpFollowUp 3 1000 0 1) (a_gptp BRIDGE_NODE 3 [4]) slave_clock
     = Inr (g2, slave_clock, [SendFrame 4 (frameOf (a_gptp BRIDGE_NODE 3 [4]) (GptpSync 0))])"
  using stray_follow_up [of "a_gptp BRIDGE_NODE 3 [4]" 3 floor 40 slave_clock 40 None 1000 0 1] slave_clock_shows(1) by (simp add: a_gptp_def)

lemma two_masters_crash_witness:
  "handleGptpMessage floor 0 4 (Some 1) (frameOf (a_gptp MASTER_NODE (- 1) [4]) (GptpSync 0)) (a_gptp MASTER_NODE (- 1) [4]) slave_clock
     = Inl (RuntimeError ''Unaccepted gPTP type'')"
  by (rule two_masters_crash) (simp_all add: a_gptp_def frameOf_def foreignDomain_def)

lemma ports_have_one_role_witness:
  "\<exists>g acts. gptpInitialize 0 BRIDGE_NODE 0 (Some (Some 3)) [Some 7, Some 4] 5 1000 1000 10 0 0 0 = Inr (g, acts) \<and> distinct (masterPortIds g) \<and> slavePortId g \<noteq> - 1"
proof -
  obtain g acts where g: "gptpInitialize 0 BRIDGE_NODE 0 (Some (Some 3)) [Some 7, Some 4] 5 1000 1000 10 0 0 0 = Inr (g, acts)"
    by (simp add: gptpInitialize_def gptpPorts_def addMasterPort_def Let_def)
  then have "gptpNodeType g = BRIDGE_NODE" by (auto simp: gptpInitialize_def rbind_Inr_iff Let_def)
  then show ?thesis using ports_have_one_role [OF g] g by auto
qed

end
