(* ===== verification/FrameChecks.thy ===== *)
theory FrameChecks
  imports Prelude
begin

text \<open>
  The frame check sequence of Ethernet: the table-driven checksum
  (\<open>inet/common/checksum/EthernetCRC.cc\<close>), the base classes that compute and compare it
  (\<open>inet/protocolelement/checksum/base/FcsInserterBase.cc\<close>, \<open>FcsCheckerBase.cc\<close>) and the modules of
  the link layer on top of them (\<open>inet/linklayer/ethernet/modular/EthernetFcsInserter.cc\<close>,
  \<open>EthernetFcsChecker.cc\<close>), with \<open>parseFcsMode\<close> (\<open>inet/linklayer/common/FcsMode.cc\<close>).

  The data of a packet is the list of its bytes without the trailer; the trailer is a value of its
  own, because the code inserts, peeks and pops it as one chunk.
\<close>

section \<open>The checksum\<close>

definition crc32_tab :: "32 word list" where
  "crc32_tab =
    [0x00000000, 0x77073096, 0xee0e612c, 0x990951ba, 0x076dc419, 0x706af48f,
     0xe963a535, 0x9e6495a3, 0x0edb8832, 0x79dcb8a4, 0xe0d5e91e, 0x97d2d988,
     0x09b64c2b, 0x7eb17cbd, 0xe7b82d07, 0x90bf1d91, 0x1db71064, 0x6ab020f2,
     0xf3b97148, 0x84be41de, 0x1adad47d, 0x6ddde4eb, 0xf4d4b551, 0x83d385c7,
     0x136c9856, 0x646ba8c0, 0xfd62f97a, 0x8a65c9ec, 0x14015c4f, 0x63066cd9,
     0xfa0f3d63, 0x8d080df5, 0x3b6e20c8, 0x4c69105e, 0xd56041e4, 0xa2677172,
     0x3c03e4d1, 0x4b04d447, 0xd20d85fd, 0xa50ab56b, 0x35b5a8fa, 0x42b2986c,
     0xdbbbc9d6, 0xacbcf940, 0x32d86ce3, 0x45df5c75, 0xdcd60dcf, 0xabd13d59,
     0x26d930ac, 0x51de003a, 0xc8d75180, 0xbfd06116, 0x21b4f4b5, 0x56b3c423,
     0xcfba9599, 0xb8bda50f, 0x2802b89e, 0x5f058808, 0xc60cd9b2, 0xb10be924,
     0x2f6f7c87, 0x58684c11, 0xc1611dab, 0xb6662d3d, 0x76dc4190, 0x01db7106,
     0x98d220bc, 0xefd5102a, 0x71b18589, 0x06b6b51f, 0x9fbfe4a5, 0xe8b8d433,
     0x7807c9a2, 0x0f00f934, 0x9609a88e, 0xe10e9818, 0x7f6a0dbb, 0x086d3d2d,
     0x91646c97, 0xe6635c01, 0x6b6b51f4, 0x1c6c6162, 0x856530d8, 0xf262004e,
     0x6c0695ed, 0x1b01a57b, 0x8208f4c1, 0xf50fc457, 0x65b0d9c6, 0x12b7e950,
     0x8bbeb8ea, 0xfcb9887c, 0x62dd1ddf, 0x15da2d49, 0x8cd37cf3, 0xfbd44c65,
     0x4db26158, 0x3ab551ce, 0xa3bc0074, 0xd4bb30e2, 0x4adfa541, 0x3dd895d7,
     0xa4d1c46d, 0xd3d6f4fb, 0x4369e96a, 0x346ed9fc, 0xad678846, 0xda60b8d0,
     0x44042d73, 0x33031de5, 0xaa0a4c5f, 0xdd0d7cc9, 0x5005713c, 0x270241aa,
     0xbe0b1010, 0xc90c2086, 0x5768b525, 0x206f85b3, 0xb966d409, 0xce61e49f,
     0x5edef90e, 0x29d9c998, 0xb0d09822, 0xc7d7a8b4, 0x59b33d17, 0x2eb40d81,
     0xb7bd5c3b, 0xc0ba6cad, 0xedb88320, 0x9abfb3b6, 0x03b6e20c, 0x74b1d29a,
     0xead54739, 0x9dd277af, 0x04db2615, 0x73dc1683, 0xe3630b12, 0x94643b84,
     0x0d6d6a3e, 0x7a6a5aa8, 0xe40ecf0b, 0x9309ff9d, 0x0a00ae27, 0x7d079eb1,
     0xf00f9344, 0x8708a3d2, 0x1e01f268, 0x6906c2fe, 0xf762575d, 0x806567cb,
     0x196c3671, 0x6e6b06e7, 0xfed41b76, 0x89d32be0, 0x10da7a5a, 0x67dd4acc,
     0xf9b9df6f, 0x8ebeeff9, 0x17b7be43, 0x60b08ed5, 0xd6d6a3e8, 0xa1d1937e,
     0x38d8c2c4, 0x4fdff252, 0xd1bb67f1, 0xa6bc5767, 0x3fb506dd, 0x48b2364b,
     0xd80d2bda, 0xaf0a1b4c, 0x36034af6, 0x41047a60, 0xdf60efc3, 0xa867df55,
     0x316e8eef, 0x4669be79, 0xcb61b38c, 0xbc66831a, 0x256fd2a0, 0x5268e236,
     0xcc0c7795, 0xbb0b4703, 0x220216b9, 0x5505262f, 0xc5ba3bbe, 0xb2bd0b28,
     0x2bb45a92, 0x5cb36a04, 0xc2d7ffa7, 0xb5d0cf31, 0x2cd99e8b, 0x5bdeae1d,
     0x9b64c2b0, 0xec63f226, 0x756aa39c, 0x026d930a, 0x9c0906a9, 0xeb0e363f,
     0x72076785, 0x05005713, 0x95bf4a82, 0xe2b87a14, 0x7bb12bae, 0x0cb61b38,
     0x92d28e9b, 0xe5d5be0d, 0x7cdcefb7, 0x0bdbdf21, 0x86d3d2d4, 0xf1d4e242,
     0x68ddb3f8, 0x1fda836e, 0x81be16cd, 0xf6b9265b, 0x6fb077e1, 0x18b74777,
     0x88085ae6, 0xff0f6a70, 0x66063bca, 0x11010b5c, 0x8f659eff, 0xf862ae69,
     0x616bffd3, 0x166ccf45, 0xa00ae278, 0xd70dd2ee, 0x4e048354, 0x3903b3c2,
     0xa7672661, 0xd06016f7, 0x4969474d, 0x3e6e77db, 0xaed16a4a, 0xd9d65adc,
     0x40df0b66, 0x37d83bf0, 0xa9bcae53, 0xdebb9ec5, 0x47b2cf7f, 0x30b5ffe9,
     0xbdbdf21c, 0xcabac28a, 0x53b39330, 0x24b4a3a6, 0xbad03605, 0xcdd70693,
     0x54de5729, 0x23d967bf, 0xb3667a2e, 0xc4614ab8, 0x5d681b02, 0x2a6f2b94,
     0xb40bbe37, 0xc30c8ea1, 0x5a05df1b, 0x2d02ef8d]"

definition swap_bytes :: "32 word \<Rightarrow> 32 word" where
  "swap_bytes c =
     drop_bit 24 c OR (drop_bit 8 c AND 0x0000FF00) OR (push_bit 8 c AND 0x00FF0000) OR push_bit 24 c"

definition crcStep :: "32 word \<Rightarrow> 8 word \<Rightarrow> 32 word" where
  "crcStep c p = crc32_tab ! unat ((c XOR ucast p) AND 0xFF) XOR drop_bit 8 c"

definition ethernetCRC :: "8 word list \<Rightarrow> 32 word \<Rightarrow> 32 word" where
  "ethernetCRC buf c = swap_bytes (foldl crcStep (swap_bytes c XOR 0xFFFFFFFF) buf XOR 0xFFFFFFFF)"

text \<open>The reference: division by the reflected polynomial \<open>ETHER_CRC_POLY_LE\<close>, one bit at a time.\<close>

definition crc_bit :: "32 word \<Rightarrow> 32 word" where
  "crc_bit c = (if bit c 0 then drop_bit 1 c XOR 0xedb88320 else drop_bit 1 c)"

definition crc_byte :: "32 word \<Rightarrow> 32 word" where
  "crc_byte c = crc_bit (crc_bit (crc_bit (crc_bit (crc_bit (crc_bit (crc_bit (crc_bit c)))))))"

definition reference_crc :: "8 word list \<Rightarrow> 32 word \<Rightarrow> 32 word" where
  "reference_crc buf c = swap_bytes (foldl (\<lambda>s p. crc_byte (s XOR ucast p)) (swap_bytes c XOR 0xFFFFFFFF) buf XOR 0xFFFFFFFF)"

lemma length_crc32_tab: "length crc32_tab = 256"
  by (simp add: crc32_tab_def)

lemma crc_bit_xor: "crc_bit (a XOR b) = crc_bit a XOR crc_bit b"
  by (rule bit_word_eqI) (auto simp: crc_bit_def bit_simps)

lemma crc_byte_xor: "crc_byte (a XOR b) = crc_byte a XOR crc_byte b"
  by (simp add: crc_byte_def crc_bit_xor)

text \<open>The register moves down as long as the bits that leave it are clear.\<close>

lemma crc_bit_even: "\<not> bit c 0 \<Longrightarrow> crc_bit c = drop_bit 1 c"
  by (simp add: crc_bit_def)

lemma low_byte_mask: "(0xFF :: 32 word) = mask 8"
  by (simp add: mask_eq_exp_minus_1)

lemma crc_bit_drop: "\<not> bit x k \<Longrightarrow> crc_bit (drop_bit k x) = drop_bit (Suc k) x"
  by (simp add: crc_bit_def bit_simps)

lemma crc_byte_drop:
  assumes "\<And>k. k < 8 \<Longrightarrow> \<not> bit x k"
  shows "crc_byte x = drop_bit 8 x"
proof -
  have step: "crc_bit (drop_bit k x) = drop_bit (k + 1) x" if "k < 8" for k
    using crc_bit_drop [OF assms [OF that]] by simp
  show ?thesis
    using step [of 0] step [of 1] step [of 2] step [of 3] step [of 4] step [of 5] step [of 6] step [of 7]
    by (simp add: crc_byte_def numeral_eq_Suc)
qed

lemma crc_byte_high: "crc_byte (NOT 0xFF AND c) = drop_bit 8 c"
proof -
  have "crc_byte (NOT (mask 8) AND c) = drop_bit 8 (NOT (mask 8) AND c)"
    by (rule crc_byte_drop) (simp add: bit_simps)
  moreover have "drop_bit 8 (NOT (mask 8) AND c) = drop_bit 8 c"
    by (rule bit_word_eqI) (auto simp: bit_simps dest: bit_imp_le_length)
  ultimately show ?thesis by (simp add: low_byte_mask)
qed

text \<open>The table holds the register after eight shifts, for every value of the byte that leaves it:
  the register is linear, so the table doubles with every bit of its index.\<close>

definition xor_double :: "32 word \<Rightarrow> 32 word list \<Rightarrow> 32 word list" where
  "xor_double a xs = xs @ map (\<lambda>x. a XOR x) xs"

lemma map_crc_byte_double: "map crc_byte (xor_double a xs) = xor_double (crc_byte a) (map crc_byte xs)"
  by (simp add: xor_double_def crc_byte_xor)

lemma crc_byte_basis:
  "crc_byte 0 = 0" "crc_byte 1 = 0x77073096" "crc_byte 2 = 0xee0e612c" "crc_byte 4 = 0x076dc419"
  "crc_byte 8 = 0x0edb8832" "crc_byte 16 = 0x1db71064" "crc_byte 32 = 0x3b6e20c8"
  "crc_byte 64 = 0x76dc4190" "crc_byte 128 = 0xedb88320"
  by (simp_all add: crc_byte_def crc_bit_def)

lemma crc32_tab_doubles:
  "fold xor_double [0x77073096, 0xee0e612c, 0x076dc419, 0x0edb8832, 0x1db71064, 0x3b6e20c8, 0x76dc4190, 0xedb88320] [0] = crc32_tab"
  by (simp add: xor_double_def crc32_tab_def)

lemma bytes_double: "fold xor_double [1, 2, 4, 8, 16, 32, 64, 128] [0] = map word_of_int [0..255]"
  by (simp add: xor_double_def upto_rec1)

lemma crc32_tab_entry: "crc32_tab ! unat c = crc_byte c" if "unat c < 256"
proof -
  have "crc32_tab = map crc_byte (map word_of_int [0..255])"
    by (simp add: crc32_tab_doubles [symmetric] bytes_double [symmetric] map_crc_byte_double crc_byte_basis)
  then have "crc32_tab ! unat c = map (\<lambda>i. crc_byte (word_of_int i)) [0..255] ! unat c" by (simp add: o_def)
  also have "\<dots> = crc_byte (word_of_int ([0..255] ! unat c))" using that by (intro nth_map) simp
  also have "([0..255] :: int list) ! unat c = int (unat c)"
    using that nth_upto [of 0 "unat c" 255] by linarith
  finally show ?thesis by simp
qed

lemma low_byte_less: "unat (c AND 0xFF :: 32 word) < 256"
proof -
  have "unat (c AND 0xFF) \<le> unat (0xFF :: 32 word)"
    by (rule word_and_le1 [THEN word_le_nat_alt [THEN iffD1]])
  then show ?thesis by simp
qed

lemma split_low_byte: "c = (c AND 0xFF) XOR (NOT 0xFF AND c)" for c :: "32 word"
  by (rule bit_word_eqI) (auto simp: bit_simps)

lemma high_xor_byte: "drop_bit 8 (c XOR ucast p) = drop_bit 8 c" for c :: "32 word" and p :: "8 word"
  by (rule bit_word_eqI) (auto simp: bit_simps dest: bit_imp_le_length)

lemma crcStep_reference: "crcStep c p = crc_byte (c XOR ucast p)"
proof -
  let ?x = "c XOR ucast p"
  have "crc_byte ?x = crc_byte (?x AND 0xFF) XOR crc_byte (NOT 0xFF AND ?x)"
    by (metis crc_byte_xor split_low_byte)
  also have "\<dots> = crcStep c p"
    by (simp only: crcStep_def crc32_tab_entry [OF low_byte_less] crc_byte_high high_xor_byte)
  finally show ?thesis by simp
qed

text \<open>
  C15. The table-driven checksum is division by the polynomial of Ethernet: for every buffer and
  every initial value, the loop over the 256-entry table computes what the bitwise division by
  \<open>ETHER_CRC_POLY_LE\<close> computes.\<close>

theorem crc_is_polynomial_division: "ethernetCRC buf c = reference_crc buf c"
  by (simp add: ethernetCRC_def reference_crc_def crcStep_reference [abs_def, symmetric])

section \<open>What the checksum detects\<close>

lemma bit31_poly: "bit (0xedb88320 :: 32 word) 31"
  by simp

lemma xor_cancel_right: "a XOR p = b XOR p \<longleftrightarrow> a = b" for a b p :: "32 word"
  by (metis xor.assoc xor.right_neutral xor_self_eq)

lemma crc_bit_inject: "crc_bit a = crc_bit b \<longleftrightarrow> a = b"
proof
  assume eq: "crc_bit a = crc_bit b"
  have top: "bit (crc_bit x) 31 \<longleftrightarrow> bit x 0" for x
    using bit31_poly by (auto simp: crc_bit_def bit_simps dest: bit_imp_le_length)
  from eq top have z: "bit a 0 \<longleftrightarrow> bit b 0" by metis
  with eq have d: "drop_bit 1 a = drop_bit 1 b" by (auto simp: crc_bit_def xor_cancel_right split: if_splits)
  show "a = b"
  proof (rule bit_word_eqI)
    fix n show "bit a n \<longleftrightarrow> bit b n"
      using z arg_cong [OF d, of "\<lambda>x. bit x (n - 1)"] by (cases n) (auto simp: bit_simps)
  qed
qed simp

lemma crc_byte_inject: "crc_byte a = crc_byte b \<longleftrightarrow> a = b"
  by (simp add: crc_byte_def crc_bit_inject)

text \<open>Up to four bytes enter the register as one word.\<close>

fun le_word :: "8 word list \<Rightarrow> 32 word" where
  "le_word [] = 0"
| "le_word (p # ps) = ucast p XOR push_bit 8 (le_word ps)"

lemma bit_le_word: "bit (le_word ps) n \<Longrightarrow> n < 8 * length ps"
proof (induction ps arbitrary: n)
  case (Cons p ps)
  then show ?case by (cases "n < 8") (auto simp: bit_simps dest: bit_imp_le_length Cons.IH)
qed simp

lemma le_word_shifted:
  assumes "length ps \<le> 3"
  shows "crc_byte (push_bit 8 (le_word ps)) = le_word ps"
proof -
  have "crc_byte (push_bit 8 (le_word ps)) = drop_bit 8 (push_bit 8 (le_word ps))"
    by (rule crc_byte_drop) (simp add: bit_simps)
  also have "\<dots> = le_word ps"
  proof (rule bit_word_eqI)
    fix n show "bit (drop_bit 8 (push_bit 8 (le_word ps))) n \<longleftrightarrow> bit (le_word ps) n"
      using assms bit_le_word [of ps n] by (auto simp: bit_simps)
  qed
  finally show ?thesis .
qed

lemma register_after_bytes:
  "length ps \<le> 4 \<Longrightarrow> foldl crcStep s ps = (crc_byte ^^ length ps) (s XOR le_word ps)"
proof (induction ps arbitrary: s)
  case (Cons p ps)
  then have "foldl crcStep s (p # ps) = (crc_byte ^^ length ps) (crc_byte (s XOR ucast p) XOR le_word ps)"
    by (simp add: crcStep_reference [symmetric])
  also have "crc_byte (s XOR ucast p) XOR le_word ps = crc_byte (s XOR le_word (p # ps))"
    using Cons.prems by (simp add: le_word_shifted crc_byte_xor xor.assoc)
  finally show ?case by (simp add: funpow_swap1)
qed simp

lemma le_word_inject:
  "length ps = length qs \<Longrightarrow> length ps \<le> 4 \<Longrightarrow> le_word ps = le_word qs \<Longrightarrow> ps = qs"
proof (induction ps qs rule: list_induct2)
  case (Cons p ps q qs)
  have low: "(ucast (le_word (x # xs)) :: 8 word) = x" for x :: "8 word" and xs
    by (rule bit_word_eqI) (auto simp: bit_simps)
  have high: "drop_bit 8 (le_word (x # xs)) = le_word xs" if "length xs \<le> 3" for x :: "8 word" and xs
  proof (rule bit_word_eqI)
    fix n show "bit (drop_bit 8 (le_word (x # xs))) n \<longleftrightarrow> bit (le_word xs) n"
      using that bit_le_word [of xs n] by (auto simp: bit_simps dest: bit_imp_le_length)
  qed
  from Cons.prems Cons.hyps have n: "length ps \<le> 3" "length qs \<le> 3" by simp_all
  from Cons.prems(2) have "p = q" by (metis low)
  moreover from Cons.prems(2) have "le_word ps = le_word qs" by (metis high n)
  then have "ps = qs" using n by (intro Cons.IH) simp_all
  ultimately show ?case by simp
qed simp

lemma funpow_crc_byte_inject: "(crc_byte ^^ n) a = (crc_byte ^^ n) b \<longleftrightarrow> a = b"
  by (induction n arbitrary: a b) (simp_all add: crc_byte_inject)

lemma crcStep_inject: "crcStep a p = crcStep b p \<longleftrightarrow> a = b"
  by (simp add: crcStep_reference crc_byte_inject xor_cancel_right)

lemma foldl_crcStep_inject: "foldl crcStep a ps = foldl crcStep b ps \<longleftrightarrow> a = b"
  by (induction ps arbitrary: a b) (simp_all add: crcStep_inject)

lemma bit_swap_bytes:
  "bit (swap_bytes c) n \<longleftrightarrow> n < 32 \<and> bit c (if n < 8 then n + 24 else if n < 16 then n + 8 else if n < 24 then n - 8 else n - 24)"
proof -
  have m: "0x0000FF00 = (push_bit 8 (mask 8) :: 32 word)" "0x00FF0000 = (push_bit 16 (mask 8) :: 32 word)"
    by (simp_all add: mask_eq_exp_minus_1 push_bit_eq_mult)
  show ?thesis unfolding swap_bytes_def m by (auto simp: bit_simps add.commute dest: bit_imp_le_length)
qed

lemma swap_bytes_twice: "swap_bytes (swap_bytes c) = c"
  by (rule bit_word_eqI) (auto simp: bit_swap_bytes)

text \<open>The checksum can be taken in pieces: continuing from the checksum of the first part
  gives the checksum of the whole.\<close>

lemma crc_continues: "ethernetCRC ys (ethernetCRC xs c) = ethernetCRC (xs @ ys) c"
  by (simp add: ethernetCRC_def swap_bytes_twice xor.assoc)

section \<open>Inserting and checking\<close>

datatype fcs_mode =
    FCS_MODE_UNDEFINED | FCS_DISABLED | FCS_DECLARED_CORRECT | FCS_DECLARED_INCORRECT | FCS_COMPUTED

definition parseFcsMode :: "string \<Rightarrow> fcs_mode result" where
  "parseFcsMode s =
     (if s = ''disabled'' then Inr FCS_DISABLED
      else if s = ''declared'' then Inr FCS_DECLARED_CORRECT
      else if s = ''declaredCorrect'' then Inr FCS_DECLARED_CORRECT
      else if s = ''declaredIncorrect'' then Inr FCS_DECLARED_INCORRECT
      else if s = ''computed'' then Inr FCS_COMPUTED
      else Inl (RuntimeError ''Unknown FCS mode''))"

text \<open>The trailer chunk \<open>EthernetFcs\<close>, and the packet it is put on: its bytes, whether its data is
  marked correct, the bit error flag of the packet, the trailer, and the trailer that a
  cut-through tag carries (the tag may carry none).\<close>

record ethernet_fcs =
  trailerFcs :: "32 word"
  trailerFcsMode :: fcs_mode

record checked_packet =
  dataBytes :: "8 word list"
  isCorrect :: bool
  hasBitError :: bool
  trailer :: "ethernet_fcs option"
  cutthroughTag :: "ethernet_fcs option option"

definition computeFcs :: "bool \<Rightarrow> fcs_mode \<Rightarrow> 8 word list \<Rightarrow> 32 word result" where
  "computeFcs acceptDisabled mode buf =
     (case mode of
        FCS_DISABLED \<Rightarrow> if acceptDisabled then Inr 0 else Inl (RuntimeError ''Unknown FCS mode'')
      | FCS_DECLARED_CORRECT \<Rightarrow> Inr 0xC00DC00D
      | FCS_DECLARED_INCORRECT \<Rightarrow> Inr 0xBAADBAAD
      | FCS_COMPUTED \<Rightarrow> Inr (ethernetCRC buf 0)
      | FCS_MODE_UNDEFINED \<Rightarrow> Inl (RuntimeError ''Unknown FCS mode''))"

definition checkDisabledFcs :: "32 word \<Rightarrow> bool result" where
  "checkDisabledFcs fcs = (if fcs \<noteq> 0 then Inl (RuntimeError ''FCS value differs from expected'') else Inr True)"

definition checkDeclaredCorrectFcs :: "checked_packet \<Rightarrow> 32 word \<Rightarrow> bool result" where
  "checkDeclaredCorrectFcs p fcs =
     (if fcs \<noteq> 0xC00DC00D then Inl (RuntimeError ''FCS value differs from expected'')
      else Inr (isCorrect p \<and> \<not> hasBitError p))"

definition checkDeclaredIncorrectFcs :: "32 word \<Rightarrow> bool result" where
  "checkDeclaredIncorrectFcs fcs =
     (if fcs \<noteq> 0xBAADBAAD then Inl (RuntimeError ''FCS value differs from expected'') else Inr False)"

definition checkComputedFcs :: "checked_packet \<Rightarrow> 32 word \<Rightarrow> bool" where
  "checkComputedFcs p received \<longleftrightarrow> received = ethernetCRC (dataBytes p) 0 \<and> isCorrect p \<and> \<not> hasBitError p"

definition checkFcs :: "bool \<Rightarrow> fcs_mode \<Rightarrow> checked_packet \<Rightarrow> 32 word \<Rightarrow> bool result" where
  "checkFcs acceptDisabled mode p fcs =
     (case mode of
        FCS_DISABLED \<Rightarrow> if acceptDisabled then checkDisabledFcs fcs else Inl (RuntimeError ''Unknown FCS mode'')
      | FCS_DECLARED_CORRECT \<Rightarrow> checkDeclaredCorrectFcs p fcs
      | FCS_DECLARED_INCORRECT \<Rightarrow> checkDeclaredIncorrectFcs fcs
      | FCS_COMPUTED \<Rightarrow> Inr (checkComputedFcs p fcs)
      | FCS_MODE_UNDEFINED \<Rightarrow> Inl (RuntimeError ''Unknown FCS mode''))"

text \<open>\<open>EthernetFcsInserter\<close> and \<open>EthernetFcsChecker\<close>: the modes without the disabled one. Inserting a
  null chunk, and reading a trailer that is not there, are errors of the packet library.\<close>

definition fcsInserterProcess :: "fcs_mode \<Rightarrow> checked_packet \<Rightarrow> checked_packet result" where
  "fcsInserterProcess mode p =
     (case cutthroughTag p of
        Some None \<Rightarrow> Inl (RuntimeError ''chunk is nullptr'')
      | Some (Some t) \<Rightarrow> Inr (p\<lparr>trailer := Some t\<rparr>)
      | None \<Rightarrow> rbind (computeFcs False mode (dataBytes p)) (\<lambda>fcs.
          Inr (p\<lparr>trailer := Some \<lparr>trailerFcs = fcs, trailerFcsMode = mode\<rparr>\<rparr>)))"

definition peekTrailer :: "checked_packet \<Rightarrow> ethernet_fcs result" where
  "peekTrailer p = (case trailer p of None \<Rightarrow> Inl (RuntimeError ''length is invalid'') | Some t \<Rightarrow> Inr t)"

definition fcsCheckerMatches :: "checked_packet \<Rightarrow> bool result" where
  "fcsCheckerMatches p =
     (if cutthroughTag p \<noteq> None then Inr True
      else rbind (peekTrailer p) (\<lambda>t. checkFcs False (trailerFcsMode t) p (trailerFcs t)))"

definition fcsCheckerProcess :: "bool \<Rightarrow> checked_packet \<Rightarrow> checked_packet result" where
  "fcsCheckerProcess popFcs p =
     rbind (if cutthroughTag p \<noteq> None then rbind (peekTrailer p) (\<lambda>t. Inr (p\<lparr>cutthroughTag := Some (Some t)\<rparr>)) else Inr p) (\<lambda>p1.
     if popFcs then rbind (peekTrailer p1) (\<lambda>_. Inr (p1\<lparr>trailer := None\<rparr>)) else Inr p1)"
text \<open>The inserter is given packets without a trailer; \<open>trailer\<close> is what it leaves at the back.\<close>

section \<open>Frames on the way\<close>

lemma short_burst_register:
  assumes "length xs = length ys" "length xs \<le> 4"
    "ethernetCRC (pre @ xs @ post) c = ethernetCRC (pre @ ys @ post) c"
  shows "xs = ys"
proof -
  from assms(3) have "foldl crcStep (swap_bytes c XOR 0xFFFFFFFF) (pre @ xs @ post) XOR 0xFFFFFFFF
      = foldl crcStep (swap_bytes c XOR 0xFFFFFFFF) (pre @ ys @ post) XOR 0xFFFFFFFF"
    by (metis ethernetCRC_def swap_bytes_twice)
  then have "le_word xs = le_word ys"
    using assms(1,2) by (simp add: xor_cancel_right foldl_crcStep_inject register_after_bytes funpow_crc_byte_inject)
      (metis xor.commute xor_cancel_right)
  with assms le_word_inject show ?thesis by blast
qed

text \<open>
  C28. No burst of errors that stays within four neighbouring bytes goes unnoticed: a frame whose
  checksum was computed by the inserter (\<open>FCS_COMPUTED\<close>) and of whose data such a place is replaced on the
  way is refused by the checker, whatever surrounds the place, and even if nothing marks the frame as
  damaged. A frame with a cut-through tag is not covered: it is passed without a check.\<close>

theorem short_bursts_are_refused:
  assumes "fcsInserterProcess FCS_COMPUTED p = Inr q" "cutthroughTag p = None"
    and "dataBytes p = pre @ xs @ post"
    and "length xs = length ys" "length xs \<le> 4" "xs \<noteq> ys"
  shows "fcsCheckerMatches (q\<lparr>dataBytes := pre @ ys @ post\<rparr>) = Inr False"
proof -
  have "ethernetCRC (pre @ xs @ post) 0 \<noteq> ethernetCRC (pre @ ys @ post) 0"
    using assms short_burst_register by blast
  with assms(1-3) show ?thesis
    by (auto simp: fcsInserterProcess_def computeFcs_def fcsCheckerMatches_def peekTrailer_def checkFcs_def checkComputedFcs_def)
qed

definition plain_frame :: "8 word list \<Rightarrow> checked_packet" where
  "plain_frame bs = \<lparr>dataBytes = bs, isCorrect = True, hasBitError = False, trailer = None, cutthroughTag = None\<rparr>"

lemma short_bursts_are_refused_witness:
  "\<exists>q. fcsInserterProcess FCS_COMPUTED (plain_frame [1, 2, 3]) = Inr q \<and> fcsCheckerMatches (q\<lparr>dataBytes := [1, 7, 8]\<rparr>) = Inr False"
  using short_bursts_are_refused [of "plain_frame [1, 2, 3]" _ "[1]" "[2, 3]" "[]" "[7, 8]"]
  by (simp add: fcsInserterProcess_def computeFcs_def plain_frame_def)

text \<open>
  What the inserter wrote passes the checker, in every mode that declares or computes a
  correct sequence, as long as nothing is marked as damaged; after the check the packet is the one
  that was given to the inserter.\<close>

theorem inserted_fcs_is_accepted:
  assumes "fcsInserterProcess mode p = Inr q" "mode \<in> {FCS_COMPUTED, FCS_DECLARED_CORRECT}"
    and "cutthroughTag p = None" "trailer p = None" "isCorrect p" "\<not> hasBitError p"
  shows "rbind (fcsCheckerMatches q) (\<lambda>ok. if ok then fcsCheckerProcess True q else Inl AssertionFailed) = Inr p"
  using assms
  by (auto simp: fcsInserterProcess_def computeFcs_def fcsCheckerMatches_def peekTrailer_def checkFcs_def
      checkComputedFcs_def checkDeclaredCorrectFcs_def fcsCheckerProcess_def)

lemma inserted_fcs_is_accepted_witness:
  "\<exists>q. fcsInserterProcess FCS_COMPUTED (plain_frame [1, 2, 3]) = Inr q \<and>
     rbind (fcsCheckerMatches q) (\<lambda>ok. if ok then fcsCheckerProcess True q else Inl AssertionFailed) = Inr (plain_frame [1, 2, 3])"
  using inserted_fcs_is_accepted [of FCS_COMPUTED "plain_frame [1, 2, 3]"]
  by (simp add: fcsInserterProcess_def computeFcs_def plain_frame_def)

text \<open>
  The disabled mode, which the base classes implement, is refused by the modules of the link
  layer: their own switch over the modes leaves it out.\<close>

theorem disabled_fcs_is_refused:
  "computeFcs True FCS_DISABLED buf = Inr 0 \<and>
   fcsInserterProcess FCS_DISABLED (plain_frame buf) = Inl (RuntimeError ''Unknown FCS mode'')"
  by (simp add: computeFcs_def fcsInserterProcess_def plain_frame_def)

end
