(* ===== verification/Fragmentation.thy ===== *)
theory Fragmentation
  imports PacketTags
begin

text \<open>
  Fragmentation of packets and their reassembly (\<open>inet/protocolelement/fragmentation/\<close>): the policy
  that chooses the lengths (\<open>policy/LengthBasedFragmenterPolicy.cc\<close>), the fragmenters and
  defragmenters with their base classes (\<open>base/FragmenterBase.cc\<close>, \<open>base/DefragmenterBase.cc\<close>), in
  the version that marks fragments by a tag and the one that marks them by a header, the modules
  that turn one mark into the other, and the serializer of the header.

  The data of a packet is the list of its bits, because the code measures lengths in bits
  (\<open>b\<close>). The header is a value beside the data that remembers where it was inserted; packets
  that are fragmented carry none yet. \<open>deleteSelf\<close>,
  display strings and statistics are not modelled.
\<close>

section \<open>Packets and marks\<close>

record fragment_tag =
  firstFragment :: bool
  lastFragment :: bool
  fragmentNumber :: int
  numFragments :: int

datatype header_position = HP_UNDEFINED | HP_NONE | HP_FRONT | HP_BACK

record fragment_header =
  headerNumber :: int
  headerLast :: bool

record frag_packet =
  packetName :: string
  packetData :: "bool list"
  fragmentTag :: "fragment_tag option"
  packetProtocolTag :: "protocol option"
  numberHeader :: "(header_position \<times> fragment_header) option"

definition parseHeaderPosition :: "string \<Rightarrow> header_position result" where
  "parseHeaderPosition s =
     (if s = [] \<or> s = ''none'' then Inr HP_NONE
      else if s = ''front'' then Inr HP_FRONT
      else if s = ''back'' then Inr HP_BACK
      else Inl (RuntimeError ''Unknown header position value''))"

definition insertHeader :: "header_position \<Rightarrow> fragment_header \<Rightarrow> frag_packet \<Rightarrow> frag_packet result" where
  "insertHeader pos h p =
     (if pos = HP_FRONT \<or> pos = HP_BACK then Inr (p\<lparr>numberHeader := Some (pos, h)\<rparr>)
      else Inl (RuntimeError ''Unknown headerPosition''))"

text \<open>Where no header was inserted the packet library would read data as a header; the model stops.\<close>

definition popHeader :: "header_position \<Rightarrow> frag_packet \<Rightarrow> (fragment_header \<times> frag_packet) result" where
  "popHeader pos p =
     (if pos = HP_FRONT \<or> pos = HP_BACK
      then (case numberHeader p of
              Some (q, h) \<Rightarrow> if q = pos then Inr (h, p\<lparr>numberHeader := None\<rparr>) else Inl AssertionFailed
            | None \<Rightarrow> Inl AssertionFailed)
      else Inl (RuntimeError ''Unknown headerPosition''))"

section \<open>Choosing the lengths\<close>

text \<open>The loop takes fragments off the front until the rest fits; it may go on forever. The module
  also reads \<open>minFragmentLength\<close> and \<open>roundingLength\<close>, and uses neither.\<close>

partial_function (option) fragmentLoop :: "int \<Rightarrow> int \<Rightarrow> int \<Rightarrow> int list option" where
  "fragmentLoop maxFragmentLength fragmentHeaderLength remainingLength =
     (if maxFragmentLength < fragmentHeaderLength + remainingLength
      then Option.bind (fragmentLoop maxFragmentLength fragmentHeaderLength (remainingLength - (maxFragmentLength - fragmentHeaderLength)))
             (\<lambda>ls. Some ((maxFragmentLength - fragmentHeaderLength) # ls))
      else Some (if remainingLength \<noteq> 0 then [remainingLength] else []))"

definition computeFragmentLengths :: "int \<Rightarrow> int \<Rightarrow> int \<Rightarrow> int list option" where
  "computeFragmentLengths maxFragmentLength fragmentHeaderLength totalLength =
     (if totalLength \<le> maxFragmentLength then Some [totalLength]
      else fragmentLoop maxFragmentLength fragmentHeaderLength totalLength)"

section \<open>Fragmenting\<close>

definition frag_suffix :: string where "frag_suffix = ''-frag''"

definition peekDataAt :: "int \<Rightarrow> int \<Rightarrow> bool list \<Rightarrow> bool list result" where
  "peekDataAt off len ds =
     (if 0 \<le> off \<and> 0 \<le> len \<and> off + len \<le> int (length ds) then Inr (take (nat len) (drop (nat off) ds))
      else Inl (RuntimeError ''offset or length is out of range''))"

definition createFragmentPacket :: "frag_packet \<Rightarrow> int \<Rightarrow> int \<Rightarrow> int \<Rightarrow> frag_packet result" where
  "createFragmentPacket p off len n =
     rbind (peekDataAt off len (packetData p)) (\<lambda>ds.
       if ds = [] then Inl (RuntimeError ''chunk is empty'')
       else Inr (p\<lparr>packetName := packetName p @ frag_suffix @ int_to_string n, packetData := ds, numberHeader := None\<rparr>))"

definition createTaggedFragment :: "frag_packet \<Rightarrow> int \<Rightarrow> int \<Rightarrow> int \<Rightarrow> int \<Rightarrow> frag_packet result" where
  "createTaggedFragment p off len n m =
     rbind (createFragmentPacket p off len n) (\<lambda>f.
     rbind (add_tag (fragmentTag f) \<lparr>firstFragment = (n = 0), lastFragment = (n = m - 1), fragmentNumber = n, numFragments = m\<rparr>) (\<lambda>t.
       Inr (f\<lparr>fragmentTag := t\<rparr>)))"

definition fragmentationProtocol :: protocol where "fragmentationProtocol = ''fragmentation''"

definition createNumberedFragment :: "header_position \<Rightarrow> frag_packet \<Rightarrow> int \<Rightarrow> int \<Rightarrow> int \<Rightarrow> int \<Rightarrow> frag_packet result" where
  "createNumberedFragment pos p off len n m =
     rbind (createFragmentPacket p off len n) (\<lambda>f.
     rbind (insertHeader pos \<lparr>headerNumber = n, headerLast = (n = m - 1)\<rparr> f) (\<lambda>g.
       Inr (g\<lparr>packetProtocolTag := Some fragmentationProtocol\<rparr>)))"

text \<open>The loop of \<open>FragmenterBase::pushPacket\<close>: \<open>create\<close> is the function of the concrete fragmenter.\<close>

fun fragmentsFrom :: "(int \<Rightarrow> int \<Rightarrow> int \<Rightarrow> frag_packet result) \<Rightarrow> int \<Rightarrow> int \<Rightarrow> int list \<Rightarrow> frag_packet list result" where
  "fragmentsFrom create off n [] = Inr []"
| "fragmentsFrom create off n (len # lens) =
     rbind (create off len n) (\<lambda>f. rbind (fragmentsFrom create (off + len) (n + 1) lens) (\<lambda>fs. Inr (f # fs)))"

definition fragmenterPushPacket :: "(frag_packet \<Rightarrow> int \<Rightarrow> int \<Rightarrow> int \<Rightarrow> int \<Rightarrow> frag_packet result) \<Rightarrow> int list \<Rightarrow> frag_packet \<Rightarrow> frag_packet list result" where
  "fragmenterPushPacket create lens p = fragmentsFrom (\<lambda>off len n. create p off len n (int (length lens))) 0 0 lens"

section \<open>Reassembling\<close>

record defragmenter =
  expectedFragmentNumber :: int
  defragmentedPacket :: "frag_packet option"

definition newDefragmenter :: defragmenter where
  "newDefragmenter = \<lparr>expectedFragmentNumber = 0, defragmentedPacket = None\<rparr>"

definition baseName :: "string \<Rightarrow> string" where
  "baseName s = (case string_find s frag_suffix of None \<Rightarrow> s | Some i \<Rightarrow> take i s)"

definition startDefragmentation :: "frag_packet \<Rightarrow> defragmenter \<Rightarrow> defragmenter result" where
  "startDefragmentation f d =
     rbind (ensure (defragmentedPacket d = None)) (\<lambda>_.
       Inr (d\<lparr>defragmentedPacket := Some \<lparr>packetName = baseName (packetName f), packetData = [], fragmentTag = None,
                 packetProtocolTag = None, numberHeader = None\<rparr>\<rparr>))"

definition continueDefragmentation :: "frag_packet \<Rightarrow> defragmenter \<Rightarrow> defragmenter result" where
  "continueDefragmentation f d =
     (case defragmentedPacket d of
        None \<Rightarrow> Inl NullPointer
      | Some p \<Rightarrow>
          if packetData f = [] then Inl (RuntimeError ''chunk is empty'')
          else Inr (d\<lparr>expectedFragmentNumber := expectedFragmentNumber d + 1,
                     defragmentedPacket := Some (p\<lparr>packetData := packetData p @ packetData f,
                       fragmentTag := fragmentTag f, packetProtocolTag := packetProtocolTag f\<rparr>)\<rparr>))"

definition endDefragmentation :: "defragmenter \<Rightarrow> defragmenter" where
  "endDefragmentation d = d\<lparr>expectedFragmentNumber := 0, defragmentedPacket := None\<rparr>"

text \<open>The packet that leaves the defragmenter, if one does, is the second component.\<close>

definition defragmentPacket :: "frag_packet \<Rightarrow> bool \<Rightarrow> bool \<Rightarrow> bool \<Rightarrow> defragmenter \<Rightarrow> (defragmenter \<times> frag_packet option) result" where
  "defragmentPacket f isFirst isLast isExpected d =
     (if \<not> isExpected then Inr (if defragmentedPacket d \<noteq> None then endDefragmentation d else d, None)
      else rbind (if isFirst then startDefragmentation f d else Inr d) (\<lambda>d1.
           rbind (continueDefragmentation f d1) (\<lambda>d2.
             Inr (if isLast then (endDefragmentation d2, defragmentedPacket d2) else (d2, None)))))"

definition tagDefragmenterPush :: "frag_packet \<Rightarrow> defragmenter \<Rightarrow> (defragmenter \<times> frag_packet option) result" where
  "tagDefragmenterPush f d =
     rbind (get_tag (fragmentTag f)) (\<lambda>t.
       defragmentPacket f (firstFragment t) (lastFragment t)
         (fragmentNumber t = -1 \<or> fragmentNumber t = expectedFragmentNumber d) d)"

definition numberDefragmenterPush :: "header_position \<Rightarrow> frag_packet \<Rightarrow> defragmenter \<Rightarrow> (defragmenter \<times> frag_packet option) result" where
  "numberDefragmenterPush pos f d =
     rbind (popHeader pos f) (\<lambda>(h, g).
       defragmentPacket g (headerNumber h = 0) (headerLast h) (headerNumber h = expectedFragmentNumber d) d)"

text \<open>Between the two kinds of marks: \<open>FragmentNumberHeaderInserter\<close> and \<open>FragmentNumberHeaderChecker\<close>.\<close>

definition numberHeaderInserterProcess :: "header_position \<Rightarrow> frag_packet \<Rightarrow> frag_packet result" where
  "numberHeaderInserterProcess pos f =
     rbind (get_tag (fragmentTag f)) (\<lambda>t.
     rbind (insertHeader pos \<lparr>headerNumber = fragmentNumber t, headerLast = lastFragment t\<rparr> f) (\<lambda>g.
       Inr (g\<lparr>packetProtocolTag := Some fragmentationProtocol\<rparr>)))"

definition numberHeaderCheckerProcess :: "header_position \<Rightarrow> frag_packet \<Rightarrow> frag_packet result" where
  "numberHeaderCheckerProcess pos f =
     rbind (popHeader pos f) (\<lambda>(h, g).
       Inr (g\<lparr>fragmentTag := Some \<lparr>firstFragment = (headerNumber h = 0), lastFragment = headerLast h,
                fragmentNumber = headerNumber h, numFragments = -1\<rparr>\<rparr>))"

section \<open>The header on the wire\<close>

definition serializeNumberHeader :: "fragment_header \<Rightarrow> ostream \<Rightarrow> ostream" where
  "serializeNumberHeader h = writeUint8 (word_of_int (headerNumber h AND 0x7F) + (if headerLast h then 0x80 else 0))"

definition deserializeNumberHeader :: "istream \<Rightarrow> fragment_header \<times> istream" where
  "deserializeNumberHeader s =
     (case readUint8 s of (b, s') \<Rightarrow> (\<lparr>headerNumber = uint (b AND 0x7F), headerLast = (b AND 0x80 \<noteq> 0)\<rparr>, s'))"
section \<open>The policy\<close>

lemma fragmentLoop_splits:
  assumes "h < m" "0 < r"
  shows "\<exists>ls. fragmentLoop m h r = Some ls \<and> ls \<noteq> [] \<and> sum_list ls = r \<and> (\<forall>l\<in>set ls. 0 < l \<and> h + l \<le> m)"
  using assms(2)
proof (induction "nat r" arbitrary: r rule: less_induct)
  case less
  show ?case
  proof (cases "m < h + r")
    case True
    with assms less.hyps [of "r - (m - h)"] obtain ls where
      "fragmentLoop m h (r - (m - h)) = Some ls" "sum_list ls = r - (m - h)" "\<forall>l\<in>set ls. 0 < l \<and> h + l \<le> m"
      by auto
    with True assms(1) show ?thesis by (subst fragmentLoop.simps) simp
  next
    case False
    with less.prems show ?thesis by (subst fragmentLoop.simps) simp
  qed
qed

lemma fragmentLoop_stuck: "fragmentLoop m h r = Some ls \<Longrightarrow> \<not> (m \<le> h \<and> m < h + r)"
proof (erule fragmentLoop.raw_induct [rotated])
  fix f m h r and ls :: "int list"
  assume ih: "\<And>m h r ls. f m h r = Some ls \<Longrightarrow> \<not> (m \<le> h \<and> m < h + r)"
    and body: "(if m < h + r then Option.bind (f m h (r - (m - h))) (\<lambda>ls. Some ((m - h) # ls))
      else Some (if r \<noteq> 0 then [r] else [])) = Some ls"
  show "\<not> (m \<le> h \<and> m < h + r)"
  proof
    assume c: "m \<le> h \<and> m < h + r"
    with body obtain ks where "f m h (r - (m - h)) = Some ks" by (auto split: bind_splits)
    from ih [OF this] c show False by linarith
  qed
qed

text \<open>
  The lengths the policy chooses for a packet that has to be split: they are positive, add up
  to the length of the packet, and every fragment fits the limit together with its header.\<close>

theorem fragment_lengths_fit:
  assumes "maxFragmentLength < packetLength" "fragmentHeaderLength < maxFragmentLength" "0 < packetLength"
  shows "\<exists>ls. computeFragmentLengths maxFragmentLength fragmentHeaderLength packetLength = Some ls \<and>
    sum_list ls = packetLength \<and> list_all (\<lambda>l. 0 < l \<and> fragmentHeaderLength + l \<le> maxFragmentLength) ls"
  using assms fragmentLoop_splits [of fragmentHeaderLength maxFragmentLength packetLength]
  by (auto simp: computeFragmentLengths_def list_all_iff)

lemma fragment_lengths_fit_witness:
  "\<exists>ls. computeFragmentLengths 100 8 300 = Some ls \<and> sum_list ls = 300 \<and> list_all (\<lambda>l. 0 < l \<and> 8 + l \<le> 100) ls"
  by (rule fragment_lengths_fit) simp_all

text \<open>
  C37. The loop of the policy ends unless the header leaves no room for data: then, and only then,
  it appends fragments for ever.\<close>

theorem policy_ends_iff_header_fits:
  assumes "0 \<le> fragmentHeaderLength" "0 < packetLength"
  shows "computeFragmentLengths maxFragmentLength fragmentHeaderLength packetLength = None
    \<longleftrightarrow> maxFragmentLength < packetLength \<and> maxFragmentLength \<le> fragmentHeaderLength"
proof (cases "maxFragmentLength < packetLength \<and> maxFragmentLength \<le> fragmentHeaderLength")
  case True
  then have "fragmentLoop maxFragmentLength fragmentHeaderLength packetLength \<noteq> Some ls" for ls
    using fragmentLoop_stuck [of maxFragmentLength fragmentHeaderLength packetLength ls] assms by linarith
  then have "fragmentLoop maxFragmentLength fragmentHeaderLength packetLength = None" by (metis not_Some_eq)
  with True show ?thesis by (simp add: computeFragmentLengths_def)
next
  case False
  with assms fragmentLoop_splits [of fragmentHeaderLength maxFragmentLength packetLength]
  show ?thesis by (auto simp: computeFragmentLengths_def)
qed

lemma policy_ends_iff_header_fits_witness:
  "computeFragmentLengths 8 8 9 = None \<and> computeFragmentLengths 9 8 10 \<noteq> None"
  using policy_ends_iff_header_fits [of 8 9 8] policy_ends_iff_header_fits [of 8 10 9] by simp

text \<open>
  A packet as long as the limit is left whole, but it gets its header all the same: the
  fragment is then longer than the limit.\<close>

theorem full_packet_exceeds_limit:
  assumes "maxFragmentLength < fragmentHeaderLength + packetLength" "packetLength \<le> maxFragmentLength"
  shows "\<exists>l. computeFragmentLengths maxFragmentLength fragmentHeaderLength packetLength = Some [l]
    \<and> maxFragmentLength < fragmentHeaderLength + l"
  using assms by (simp add: computeFragmentLengths_def)

lemma full_packet_exceeds_limit_witness: "\<exists>l. computeFragmentLengths 100 8 100 = Some [l] \<and> 100 < 8 + l"
  by (rule full_packet_exceeds_limit) simp_all

section \<open>Reassembly of what was fragmented\<close>

fun defragmentAll :: "(frag_packet \<Rightarrow> defragmenter \<Rightarrow> (defragmenter \<times> frag_packet option) result) \<Rightarrow> defragmenter \<Rightarrow> frag_packet list \<Rightarrow> (defragmenter \<times> frag_packet list) result" where
  "defragmentAll push d [] = Inr (d, [])"
| "defragmentAll push d (f # fs) =
     rbind (push f d) (\<lambda>(d1, out). rbind (defragmentAll push d1 fs) (\<lambda>(d2, outs).
       Inr (d2, (case out of None \<Rightarrow> outs | Some p \<Rightarrow> p # outs))))"

text \<open>Consecutive fragments, made one by one from their number and their data.\<close>

fun fragments_at :: "(int \<Rightarrow> bool list \<Rightarrow> 'f) \<Rightarrow> int \<Rightarrow> bool list list \<Rightarrow> 'f list" where
  "fragments_at mk n [] = []"
| "fragments_at mk n (ds # dss) = mk n ds # fragments_at mk (n + 1) dss"

lemma fragments_at_empty [simp]: "fragments_at mk n dss = [] \<longleftrightarrow> dss = []"
  by (cases dss) simp_all

lemma defragmentAll_append:
  "defragmentAll push d (fs @ gs) =
     rbind (defragmentAll push d fs) (\<lambda>(d1, os). rbind (defragmentAll push d1 gs) (\<lambda>(d2, ps). Inr (d2, os @ ps)))"
proof (induction fs arbitrary: d)
  case Nil
  show ?case by (simp add: rbind_def split: sum.splits)
next
  case (Cons f fs)
  show ?case
  proof (cases "push f d")
    case (Inr r)
    obtain d1 out where r: "r = (d1, out)" by (cases r)
    show ?thesis using Cons.IH [of d1] Inr
      by (cases "defragmentAll push d1 fs") (auto simp: r rbind_def split: sum.splits option.splits)
  qed simp
qed

text \<open>A defragmenter only sees the mark of a fragment: its number, where it has one, and whether it
  is the last. What follows holds for every kind of mark.\<close>

locale fragment_marks =
  fixes push :: "frag_packet \<Rightarrow> defragmenter \<Rightarrow> (defragmenter \<times> frag_packet option) result"
    and body :: "frag_packet \<Rightarrow> frag_packet"
    and number :: "frag_packet \<Rightarrow> int option"
    and isLast :: "frag_packet \<Rightarrow> bool"
  assumes push_law: "number f = Some n \<Longrightarrow>
    push f d = defragmentPacket (body f) (n = 0) (isLast f) (n = expectedFragmentNumber d) d"
begin

text \<open>The fragments from number \<open>n\<close> to the last one, in order and without a gap.\<close>

fun train_from :: "int \<Rightarrow> frag_packet list \<Rightarrow> bool" where
  "train_from n [] = False"
| "train_from n (f # fs) =
     (number f = Some n \<and> isLast f = (fs = []) \<and> packetData (body f) \<noteq> [] \<and> (fs = [] \<or> train_from (n + 1) fs))"

lemma train_continues:
  assumes "train_from n fs" "0 < n" "expectedFragmentNumber d = n" "defragmentedPacket d = Some p"
  shows "defragmentAll push d fs = Inr (endDefragmentation d,
    [p\<lparr>packetData := packetData p @ concat (map (\<lambda>f. packetData (body f)) fs), fragmentTag := fragmentTag (body (last fs)),
      packetProtocolTag := packetProtocolTag (body (last fs))\<rparr>])"
  using assms
proof (induction fs arbitrary: n d p)
  case (Cons f fs)
  then show ?case
    using Cons.IH [of "n + 1"]
    by (cases "fs = []")
      (simp_all add: push_law defragmentPacket_def continueDefragmentation_def endDefragmentation_def)
qed simp

lemma train_starts:
  assumes "train_from 0 (f # fs)" "defragmentedPacket d = None" "expectedFragmentNumber d = 0"
  shows "push f d = Inr (if fs = [] then d else
      \<lparr>expectedFragmentNumber = 1, defragmentedPacket = Some \<lparr>packetName = baseName (packetName (body f)),
        packetData = packetData (body f), fragmentTag = fragmentTag (body f),
        packetProtocolTag = packetProtocolTag (body f), numberHeader = None\<rparr>\<rparr>,
      if fs = [] then Some \<lparr>packetName = baseName (packetName (body f)), packetData = packetData (body f),
        fragmentTag = fragmentTag (body f), packetProtocolTag = packetProtocolTag (body f), numberHeader = None\<rparr> else None)"
  using assms
  by (cases d) (simp add: push_law defragmentPacket_def startDefragmentation_def continueDefragmentation_def endDefragmentation_def)

lemma train_reassembles:
  assumes "train_from 0 fs"
  shows "defragmentAll push newDefragmenter fs = Inr (newDefragmenter,
    [\<lparr>packetName = baseName (packetName (body (hd fs))), packetData = concat (map (\<lambda>f. packetData (body f)) fs),
      fragmentTag = fragmentTag (body (last fs)), packetProtocolTag = packetProtocolTag (body (last fs)), numberHeader = None\<rparr>])"
proof -
  from assms obtain f gs where fs: "fs = f # gs" by (cases fs) simp_all
  with assms have rest: "gs \<noteq> [] \<Longrightarrow> train_from 1 gs" by simp
  note start = train_starts [OF assms [unfolded fs], of newDefragmenter]
  show ?thesis
  proof (cases "gs = []")
    case True
    with start show ?thesis by (simp add: fs newDefragmenter_def)
  next
    case False
    with start train_continues [OF rest [OF False]] show ?thesis
      by (simp add: fs newDefragmenter_def endDefragmentation_def)
  qed
qed

lemma train_of_pieces:
  assumes "\<And>n ds. 0 \<le> n \<Longrightarrow> n < m \<Longrightarrow> number (mk n ds) = Some n \<and> isLast (mk n ds) = (n = m - 1) \<and> packetData (body (mk n ds)) = ds"
    and "list_all (\<lambda>d. d \<noteq> []) dss" "n + int (length dss) = m" "dss \<noteq> []" "0 \<le> n"
  shows "train_from n (fragments_at mk n dss)"
  using assms(2-)
proof (induction dss arbitrary: n)
  case (Cons ds dss)
  with assms(1) [of n ds] Cons.IH [of "n + 1"] show ?case by (cases dss) simp_all
qed simp

text \<open>The beginning of such a train, which leaves the defragmenter waiting for the next number.\<close>

lemma beginning_waits:
  assumes "\<And>n ds. 0 \<le> n \<Longrightarrow> n < m \<Longrightarrow> number (mk n ds) = Some n \<and> \<not> isLast (mk n ds) \<and> packetData (body (mk n ds)) = ds"
    and "list_all (\<lambda>d. d \<noteq> []) dss" "n + int (length dss) = m" "0 \<le> n" "0 < m"
    and "expectedFragmentNumber d = n" "defragmentedPacket d = None \<longleftrightarrow> n = 0"
  shows "\<exists>p. defragmentAll push d (fragments_at mk n dss) = Inr (\<lparr>expectedFragmentNumber = m, defragmentedPacket = Some p\<rparr>, [])"
  using assms(2-)
proof (induction dss arbitrary: n d)
  case Nil
  then show ?case by (cases d) auto
next
  case (Cons ds dss)
  have mk: "number (mk n ds) = Some n" "\<not> isLast (mk n ds)" "packetData (body (mk n ds)) = ds"
    using assms(1) [of n ds] Cons.prems by simp_all
  have "\<exists>p. push (mk n ds) d = Inr (\<lparr>expectedFragmentNumber = n + 1, defragmentedPacket = Some p\<rparr>, None)"
    using mk Cons.prems
    by (cases d) (auto simp: push_law defragmentPacket_def startDefragmentation_def continueDefragmentation_def)
  then obtain p where p: "push (mk n ds) d = Inr (\<lparr>expectedFragmentNumber = n + 1, defragmentedPacket = Some p\<rparr>, None)" by blast
  show ?case
    using Cons.prems p Cons.IH [of "n + 1" "\<lparr>expectedFragmentNumber = n + 1, defragmentedPacket = Some p\<rparr>"] by auto
qed

text \<open>A fragment out of turn, unless it would start a packet while none is awaited.\<close>

lemma out_of_turn:
  assumes "number f = Some n" "n \<noteq> expectedFragmentNumber d"
  shows "push f d = Inr (if defragmentedPacket d \<noteq> None then endDefragmentation d else d, None)"
  using assms by (simp add: push_law defragmentPacket_def)

lemma rest_is_ignored:
  assumes "list_all (\<lambda>f. \<exists>n. number f = Some n \<and> n \<noteq> 0) fs" "expectedFragmentNumber d = 0" "defragmentedPacket d = None"
  shows "defragmentAll push d fs = Inr (d, [])"
  using assms by (induction fs) (auto simp: out_of_turn)

end

text \<open>Marks by a tag, and marks by a header.\<close>

definition taggedNumber :: "frag_packet \<Rightarrow> int option" where
  "taggedNumber f = (case fragmentTag f of
     None \<Rightarrow> None
   | Some t \<Rightarrow> if firstFragment t = (fragmentNumber t = 0) \<and> 0 \<le> fragmentNumber t then Some (fragmentNumber t) else None)"

definition taggedLast :: "frag_packet \<Rightarrow> bool" where
  "taggedLast f = (case fragmentTag f of None \<Rightarrow> False | Some t \<Rightarrow> lastFragment t)"

interpretation tagged: fragment_marks tagDefragmenterPush "\<lambda>f. f" taggedNumber taggedLast
  by unfold_locales (auto simp: taggedNumber_def taggedLast_def tagDefragmenterPush_def split: option.splits if_splits)

definition headedNumber :: "header_position \<Rightarrow> frag_packet \<Rightarrow> int option" where
  "headedNumber pos f = (case popHeader pos f of Inl _ \<Rightarrow> None | Inr (h, _) \<Rightarrow> Some (headerNumber h))"

definition headedLast :: "header_position \<Rightarrow> frag_packet \<Rightarrow> bool" where
  "headedLast pos f = (case popHeader pos f of Inl _ \<Rightarrow> False | Inr (h, _) \<Rightarrow> headerLast h)"

definition headedBody :: "header_position \<Rightarrow> frag_packet \<Rightarrow> frag_packet" where
  "headedBody pos f = f\<lparr>numberHeader := None\<rparr>"

interpretation headed: fragment_marks "numberDefragmenterPush pos" "headedBody pos" "headedNumber pos" "headedLast pos" for pos
  by unfold_locales (auto simp: headedNumber_def headedLast_def headedBody_def numberDefragmenterPush_def popHeader_def
      split: sum.splits header_position.splits option.splits if_splits)

text \<open>The name of a fragment leads back to the name of the packet.\<close>

lemma baseName_of_fragment: "\<not> contains_string s frag_suffix \<Longrightarrow> baseName (s @ frag_suffix @ r) = s"
proof -
  assume n: "\<not> contains_string s frag_suffix"
  have "string_find (s @ frag_suffix @ r) frag_suffix = Some (length s)"
    using n
  proof (induction s)
    case Nil
    show ?case by (simp add: frag_suffix_def)
  next
    case (Cons c cs)
    then have "\<not> prefix_of frag_suffix (c # cs)" "\<not> contains_string cs frag_suffix" by (auto split: if_splits)
    then have "\<not> prefix_of frag_suffix ((c # cs) @ frag_suffix @ r)"
      by (cases cs; cases "tl cs"; cases "tl (tl cs)"; cases "tl (tl (tl cs))") (auto simp: frag_suffix_def)
    with Cons.IH \<open>\<not> contains_string cs frag_suffix\<close> show ?case by simp
  qed
  then show ?thesis by (simp add: baseName_def)
qed

text \<open>What the loop of a fragmenter makes of the lengths: consecutive pieces.\<close>

fun pieces :: "int list \<Rightarrow> bool list \<Rightarrow> bool list list" where
  "pieces [] ds = []"
| "pieces (l # ls) ds = take (nat l) ds # pieces ls (drop (nat l) ds)"

lemma length_pieces [simp]: "length (pieces ls ds) = length ls"
  by (induction ls arbitrary: ds) simp_all

lemma concat_pieces:
  "list_all (\<lambda>l. 0 < l) ls \<Longrightarrow> sum_list ls = int (length ds) \<Longrightarrow> concat (pieces ls ds) = ds"
proof (induction ls arbitrary: ds)
  case (Cons l ls)
  then have "0 \<le> sum_list ls" by (intro sum_list_nonneg) (auto simp: list_all_iff intro: less_imp_le)
  with Cons show ?case by simp
qed simp

definition fragment_at :: "frag_packet \<Rightarrow> int \<Rightarrow> int \<Rightarrow> bool list \<Rightarrow> frag_packet" where
  "fragment_at p m n ds = p\<lparr>packetName := packetName p @ frag_suffix @ int_to_string n, packetData := ds,
     fragmentTag := Some \<lparr>firstFragment = (n = 0), lastFragment = (n = m - 1), fragmentNumber = n, numFragments = m\<rparr>,
     numberHeader := None\<rparr>"

lemma fragmentsFrom_pieces:
  assumes "\<And>off len n. 0 \<le> off \<Longrightarrow> 0 < len \<Longrightarrow> off + len \<le> int (length ds) \<Longrightarrow>
      create off len n = Inr (mk n (take (nat len) (drop (nat off) ds)))"
    and "list_all (\<lambda>l. 0 < l) ls" "0 \<le> off" "off + sum_list ls \<le> int (length ds)"
  shows "fragmentsFrom create off n ls = Inr (fragments_at mk n (pieces ls (drop (nat off) ds)))"
  using assms(2-)
proof (induction ls arbitrary: off n)
  case (Cons l ls)
  then have "0 \<le> sum_list ls" by (intro sum_list_nonneg) (auto simp: list_all_iff intro: less_imp_le)
  with Cons assms(1) [of off l n] Cons.IH [of "off + l" "n + 1"] show ?case
    by (simp add: drop_drop nat_add_distrib add.commute)
qed simp

lemma createTaggedFragment_piece:
  assumes "0 \<le> off" "0 < len" "off + len \<le> int (length (packetData p))" "fragmentTag p = None"
  shows "createTaggedFragment p off len n m = Inr (fragment_at p m n (take (nat len) (drop (nat off) (packetData p))))"
  using assms
  by (simp add: createTaggedFragment_def createFragmentPacket_def peekDataAt_def add_tag_def fragment_at_def)

lemma pieces_nonempty:
  "list_all (\<lambda>l. 0 < l) ls \<Longrightarrow> sum_list ls \<le> int (length ds) \<Longrightarrow> list_all (\<lambda>d. d \<noteq> []) (pieces ls ds)"
proof (induction ls arbitrary: ds)
  case (Cons l ls)
  then have "0 \<le> sum_list ls" by (intro sum_list_nonneg) (auto simp: list_all_iff intro: less_imp_le)
  with Cons have "l \<le> int (length ds)" "0 < l" by simp_all
  moreover have "sum_list ls \<le> int (length (drop (nat l) ds))" using Cons.prems \<open>0 < l\<close> by auto
  ultimately show ?case using Cons by auto
qed simp

lemma concat_fragments_at:
  "(\<And>n ds. packetData (mk n ds) = ds) \<Longrightarrow> concat (map packetData (fragments_at mk n dss)) = concat dss"
  by (induction dss arbitrary: n) simp_all

lemma fragments_at_append: "fragments_at mk n (xs @ ys) = fragments_at mk n xs @ fragments_at mk (n + int (length xs)) ys"
  by (induction xs arbitrary: n) (simp_all add: add_ac)

lemma hd_fragments_at: "dss \<noteq> [] \<Longrightarrow> hd (fragments_at mk n dss) = mk n (hd dss)"
  by (cases dss) simp_all

lemma last_fragments_at: "dss \<noteq> [] \<Longrightarrow> last (fragments_at mk n dss) = mk (n + int (length dss) - 1) (last dss)"
  by (induction dss arbitrary: n) (auto simp: add_ac)


definition demo_frag_packet :: frag_packet where
  "demo_frag_packet = \<lparr>packetName = ''video'', packetData = replicate 5 True @ replicate 4 False, fragmentTag = None,
     packetProtocolTag = None, numberHeader = None\<rparr>"


section \<open>Fragments with a header\<close>

lemma header_byte:
  "list_all (\<lambda>m. uint (word_of_int m AND 0x7F :: 8 word) = m \<and> (word_of_int m AND 0x80 :: 8 word) = 0 \<and>
     uint ((word_of_int m + 0x80) AND 0x7F :: 8 word) = m \<and> ((word_of_int m + 0x80) AND 0x80 :: 8 word) \<noteq> 0) [0..127]"
  by code_simp

lemma serialized_number:
  assumes "byte_aligned s"
  shows "fst (deserializeNumberHeader (read_after s (serializeNumberHeader h s))) = h\<lparr>headerNumber := headerNumber h mod 128\<rparr>"
proof -
  let ?m = "headerNumber h mod 128"
  have "headerNumber h AND 0x7F = ?m"
    using take_bit_eq_mask [of 7 "headerNumber h"] by (simp add: take_bit_eq_mod mask_eq_exp_minus_1)
  moreover have "?m \<in> set [0..127]" by simp
  with header_byte have "uint (word_of_int ?m AND 0x7F :: 8 word) = ?m" "(word_of_int ?m AND 0x80 :: 8 word) = 0"
    "uint ((word_of_int ?m + 0x80) AND 0x7F :: 8 word) = ?m" "((word_of_int ?m + 0x80) AND 0x80 :: 8 word) \<noteq> 0"
    unfolding list_all_iff by blast+
  ultimately show ?thesis
    using u8.round_trip [OF assms]
    by (cases "headerLast h") (simp_all add: serializeNumberHeader_def deserializeNumberHeader_def case_prod_beta)
qed

text \<open>A packet whose header went through the serializer and back.\<close>

definition sentOverWire :: "frag_packet \<Rightarrow> frag_packet" where
  "sentOverWire f = (case numberHeader f of
     None \<Rightarrow> f
   | Some (pos, h) \<Rightarrow> f\<lparr>numberHeader := Some (pos, fst (deserializeNumberHeader (read_after emptyStream (serializeNumberHeader h emptyStream))))\<rparr>)"

definition numbered_at :: "header_position \<Rightarrow> frag_packet \<Rightarrow> int \<Rightarrow> int \<Rightarrow> bool list \<Rightarrow> frag_packet" where
  "numbered_at pos p m n ds = p\<lparr>packetName := packetName p @ frag_suffix @ int_to_string n, packetData := ds,
     packetProtocolTag := Some fragmentationProtocol, numberHeader := Some (pos, \<lparr>headerNumber = n, headerLast = (n = m - 1)\<rparr>)\<rparr>"

lemma createNumberedFragment_piece:
  assumes "0 \<le> off" "0 < len" "off + len \<le> int (length (packetData p))" "pos = HP_FRONT \<or> pos = HP_BACK"
  shows "createNumberedFragment pos p off len n m = Inr (numbered_at pos p m n (take (nat len) (drop (nat off) (packetData p))))"
  using assms
  by (cases pos) (simp_all add: createNumberedFragment_def createFragmentPacket_def peekDataAt_def insertHeader_def numbered_at_def)

lemma sentOverWire_numbered:
  "sentOverWire (numbered_at pos p m n ds) =
     (numbered_at pos p m n ds)\<lparr>numberHeader := Some (pos, \<lparr>headerNumber = n mod 128, headerLast = (n = m - 1)\<rparr>)\<rparr>"
proof -
  have a: "byte_aligned emptyStream" by (simp add: byte_aligned_def emptyStream_def)
  show ?thesis by (simp add: sentOverWire_def numbered_at_def serialized_number [OF a])
qed

lemma numbered_fragments:
  assumes "list_all (\<lambda>l. 0 < l) lens" "sum_list lens = int (length (packetData p))" "pos = HP_FRONT \<or> pos = HP_BACK"
  shows "fragmenterPushPacket (createNumberedFragment pos) lens p =
    Inr (fragments_at (numbered_at pos p (int (length lens))) 0 (pieces lens (packetData p)))"
  using fragmentsFrom_pieces [of "packetData p" "\<lambda>off len n. createNumberedFragment pos p off len n (int (length lens))"
      "numbered_at pos p (int (length lens))" lens 0 0]
    assms createNumberedFragment_piece by (simp add: fragmenterPushPacket_def)

lemma map_fragments_at: "map g (fragments_at mk n dss) = fragments_at (\<lambda>n ds. g (mk n ds)) n dss"
  by (induction dss arbitrary: n) simp_all

lemma wire_marks:
  assumes "pos = HP_FRONT \<or> pos = HP_BACK"
  shows "headedNumber pos (sentOverWire (numbered_at pos p m n ds)) = Some (n mod 128)"
    and "headedLast pos (sentOverWire (numbered_at pos p m n ds)) = (n = m - 1)"
    and "packetData (headedBody pos (sentOverWire (numbered_at pos p m n ds))) = ds"
  using assms unfolding sentOverWire_numbered
  by (simp_all add: headedNumber_def headedLast_def headedBody_def popHeader_def numbered_at_def split: header_position.splits)

lemma wire_fields:
  "packetName (headedBody pos (sentOverWire (numbered_at pos p m n ds))) = packetName p @ frag_suffix @ int_to_string n"
  "fragmentTag (headedBody pos (sentOverWire (numbered_at pos p m n ds))) = fragmentTag p"
  "packetProtocolTag (headedBody pos (sentOverWire (numbered_at pos p m n ds))) = Some fragmentationProtocol"
  unfolding sentOverWire_numbered by (simp_all add: headedBody_def numbered_at_def)

text \<open>
  Fragments marked by a header are reassembled across the wire as long as the number of the
  last one fits the seven bits that the header has for it.\<close>

theorem numbered_fragments_are_reassembled:
  assumes "list_all (\<lambda>l. 0 < l) lens" "sum_list lens = int (length (packetData p))" "lens \<noteq> []" "length lens \<le> 128"
    and "pos = HP_FRONT \<or> pos = HP_BACK" "numberHeader p = None" "\<not> contains_string (packetName p) frag_suffix"
  shows "rbind (fragmenterPushPacket (createNumberedFragment pos) lens p)
      (\<lambda>fs. defragmentAll (numberDefragmenterPush pos) newDefragmenter (map sentOverWire fs)) =
    Inr (newDefragmenter, [p\<lparr>packetProtocolTag := Some fragmentationProtocol\<rparr>])"
proof -
  let ?m = "int (length lens)" and ?dss = "pieces lens (packetData p)"
  let ?mk = "\<lambda>n ds. sentOverWire (numbered_at pos p ?m n ds)"
  have ne: "?dss \<noteq> []" using assms(3) by (metis length_pieces length_0_conv)
  have train: "headed.train_from pos 0 (fragments_at ?mk 0 ?dss)"
    using pieces_nonempty assms ne by (intro headed.train_of_pieces [of ?m]) (simp_all add: wire_marks)
  have c: "concat (map (\<lambda>f. packetData (headedBody pos f)) (fragments_at ?mk n dss)) = concat dss" for n dss
    by (induction dss arbitrary: n) (simp_all add: wire_marks assms)
  have "rbind (fragmenterPushPacket (createNumberedFragment pos) lens p)
      (\<lambda>fs. defragmentAll (numberDefragmenterPush pos) newDefragmenter (map sentOverWire fs)) =
    defragmentAll (numberDefragmenterPush pos) newDefragmenter (fragments_at ?mk 0 ?dss)"
    by (simp add: numbered_fragments [OF assms(1,2,5)] map_fragments_at)
  also note headed.train_reassembles [OF train, unfolded hd_fragments_at [OF ne] last_fragments_at [OF ne] c
      concat_pieces [OF assms(1,2)] wire_fields]
  finally show ?thesis using assms(6,7) by (simp add: baseName_of_fragment)
qed

lemma numbered_fragments_are_reassembled_witness:
  "rbind (fragmenterPushPacket (createNumberedFragment HP_FRONT) [4, 4, 1] demo_frag_packet)
      (\<lambda>fs. defragmentAll (numberDefragmenterPush HP_FRONT) newDefragmenter (map sentOverWire fs)) =
    Inr (newDefragmenter, [demo_frag_packet\<lparr>packetProtocolTag := Some fragmentationProtocol\<rparr>])"
  using numbered_fragments_are_reassembled [of "[4, 4, 1]" demo_frag_packet HP_FRONT]
  by (simp add: demo_frag_packet_def frag_suffix_def)

text \<open>
  C40. With more than 128 fragments, and up to 256, the number starts over on the wire: the
  defragmenter gives the packet up at that point and sends nothing, although every fragment arrived
  undamaged and in order.\<close>

theorem long_trains_are_lost:
  assumes "list_all (\<lambda>l. 0 < l) lens" "sum_list lens = int (length (packetData p))"
    and "128 < length lens" "length lens \<le> 256" "pos = HP_FRONT \<or> pos = HP_BACK"
  shows "rbind (fragmenterPushPacket (createNumberedFragment pos) lens p)
      (\<lambda>fs. defragmentAll (numberDefragmenterPush pos) newDefragmenter (map sentOverWire fs)) = Inr (newDefragmenter, [])"
proof -
  let ?m = "int (length lens)" and ?dss = "pieces lens (packetData p)" and ?push = "numberDefragmenterPush pos"
  let ?mk = "\<lambda>n ds. sentOverWire (numbered_at pos p ?m n ds)"
  have n: "128 < length ?dss" using assms(3) by simp
  define ds rest where "ds = ?dss ! 128" and "rest = drop 129 ?dss"
  then have split: "?dss = take 128 ?dss @ ds # rest" using id_take_nth_drop [OF n] by simp
  have rest: "int (length rest) = ?m - 129" using assms(3) by (simp add: rest_def)
  have ne: "list_all (\<lambda>d. d \<noteq> []) (take 128 ?dss)"
    using pieces_nonempty [of lens "packetData p"] assms(1,2) by (auto simp: list_all_iff dest: in_set_takeD)
  obtain q where start: "defragmentAll ?push newDefragmenter (fragments_at ?mk 0 (take 128 ?dss)) =
      Inr (\<lparr>expectedFragmentNumber = 128, defragmentedPacket = Some q\<rparr>, [])"
    using headed.beginning_waits [of 128 pos ?mk "take 128 ?dss" 0 newDefragmenter] ne assms(3,5)
    by (auto simp: wire_marks newDefragmenter_def)
  have wrap: "?push (?mk 128 ds) \<lparr>expectedFragmentNumber = 128, defragmentedPacket = Some q\<rparr> = Inr (newDefragmenter, None)"
    using headed.out_of_turn [of pos "?mk 128 ds" 0 "\<lparr>expectedFragmentNumber = 128, defragmentedPacket = Some q\<rparr>"] assms(5)
    by (simp add: wire_marks endDefragmentation_def newDefragmenter_def)
  have "list_all (\<lambda>f. \<exists>n. headedNumber pos f = Some n \<and> n \<noteq> 0) (fragments_at ?mk k dss)"
    if "128 < k" "k + int (length dss) \<le> 256" for k dss
    using that by (induction dss arbitrary: k) (auto simp: wire_marks assms(5) zmod_eq_0_iff)
  then have "defragmentAll ?push newDefragmenter (fragments_at ?mk 129 rest) = Inr (newDefragmenter, [])"
    using rest assms(4) by (intro headed.rest_is_ignored) (simp_all add: newDefragmenter_def)
  then have "defragmentAll ?push newDefragmenter (fragments_at ?mk 0 (take 128 ?dss @ ds # rest)) = Inr (newDefragmenter, [])"
    using n by (simp add: fragments_at_append defragmentAll_append start wrap)
  then show ?thesis using split by (simp add: numbered_fragments [OF assms(1,2,5)] map_fragments_at)
qed

lemma long_trains_are_lost_witness:
  "rbind (fragmenterPushPacket (createNumberedFragment HP_FRONT) (replicate 200 1) (demo_frag_packet\<lparr>packetData := replicate 200 True\<rparr>))
      (\<lambda>fs. defragmentAll (numberDefragmenterPush HP_FRONT) newDefragmenter (map sentOverWire fs)) = Inr (newDefragmenter, [])"
  by (rule long_trains_are_lost) (simp_all add: list_all_iff sum_list_replicate)

end
