(* ===== verification/FramePreemption.thy ===== *)
theory FramePreemption
  imports Fragmentation FrameChecks PacketSchedulers Complex_Main
begin

text \<open>
  Frame preemption: an express frame interrupts a frame of lower priority, whose rest follows later
  as further fragments (IEEE 802.1Qbu and 802.3br). The sending side is
  \<open>inet/protocolelement/common/PreemptableStreamer.cc\<close> and \<open>PacketStreamer.cc\<close>, the scheduler between
  them while packets are streamed (\<open>inet/queueing/base/PacketSchedulerBase.cc\<close>), and
  \<open>inet/queueing/server/PreemptingServer.cc\<close>; then come the checksum of fragments
  (\<open>inet/linklayer/ethernet/modular/EthernetFragmentFcsInserter.cc\<close>, \<open>EthernetFragmentFcsChecker.cc\<close>) and
  their preamble (\<open>inet/physicallayer/wired/ethernet/EthernetFragmentPhyHeaderInserter.cc\<close>,
  \<open>EthernetFragmentPhyHeaderChecker.cc\<close>), in the order in which \<open>EthernetFragmentingMacLayer\<close> and
  \<open>EthernetPreemptingPhyLayer\<close> connect them. The defragmenter is that of \<open>Fragmentation\<close>.

  Time is counted in ticks of a picosecond; data rates and durations in seconds are reals. Lengths
  are bits and not negative, so that the division of the code is the one of HOL.
\<close>

section \<open>The streamer whose packets can be interrupted\<close>

record streamer_config =
  minPacketLength :: int
  roundingLength :: int

record preemptable_streamer =
  streamStart :: simtime
  streamDatarate :: real
  streamedPacket :: "frag_packet option"
  remainingPacket :: "frag_packet option"

definition newStreamer :: preemptable_streamer where
  "newStreamer = \<lparr>streamStart = 0, streamDatarate = 0, streamedPacket = None, remainingPacket = None\<rparr>"

definition isStreaming :: "preemptable_streamer \<Rightarrow> bool" where
  "isStreaming s \<longleftrightarrow> streamedPacket s \<noteq> None"

text \<open>The provider is a queue; \<open>q\<close> is what it holds.\<close>

definition preemptableCanPullSome :: "frag_packet list \<Rightarrow> preemptable_streamer \<Rightarrow> bool" where
  "preemptableCanPullSome q s \<longleftrightarrow> \<not> isStreaming s \<and> (remainingPacket s \<noteq> None \<or> q \<noteq> [])"

definition preemptableCanPull :: "frag_packet list \<Rightarrow> preemptable_streamer \<Rightarrow> frag_packet option" where
  "preemptableCanPull q s =
     (if isStreaming s then None
      else if remainingPacket s \<noteq> None then remainingPacket s
      else (case q of [] \<Rightarrow> None | p # _ \<Rightarrow> Some p))"

definition markAsWhole :: "frag_packet \<Rightarrow> frag_packet" where
  "markAsWhole p = (case fragmentTag p of
     None \<Rightarrow> p\<lparr>fragmentTag := Some \<lparr>firstFragment = True, lastFragment = True, fragmentNumber = 0, numFragments = -1\<rparr>\<rparr>
   | Some _ \<Rightarrow> p)"

definition preemptablePullStart ::
  "real \<Rightarrow> simtime \<Rightarrow> frag_packet list \<times> preemptable_streamer \<Rightarrow> ((frag_packet list \<times> preemptable_streamer) \<times> frag_packet) result" where
  "preemptablePullStart rate now qs =
     (case qs of (q, s) \<Rightarrow>
        rbind (case remainingPacket s of
                 Some r \<Rightarrow> Inr (q, s\<lparr>remainingPacket := None\<rparr>, r)
               | None \<Rightarrow> (case q of [] \<Rightarrow> Inl NullPointer | p # q' \<Rightarrow> Inr (q', s, p))) (\<lambda>(q', s', p).
          let p' = markAsWhole p in
          Inr ((q', s'\<lparr>streamDatarate := rate, streamStart := now, streamedPacket := Some p'\<rparr>), p')))"

text \<open>The bits that are already on their way when streaming ends, and where the packet is cut.\<close>

definition pulledLength :: "real \<Rightarrow> simtime \<Rightarrow> int" where
  "pulledLength rate elapsed = \<lfloor>rate * (real_of_int elapsed / 10 ^ 12)\<rfloor>"

definition preemptedLength :: "streamer_config \<Rightarrow> int \<Rightarrow> int" where
  "preemptedLength c pulled =
     (let l = roundingLength c * ((pulled + roundingLength c - 1) div roundingLength c) in
      if l < minPacketLength c then minPacketLength c else l)"

definition fragmentBaseName :: "int \<Rightarrow> string \<Rightarrow> string" where
  "fragmentBaseName n name = (if n \<noteq> 0 then baseName name else name)"

definition cutPacket :: "int \<Rightarrow> frag_packet \<Rightarrow> (frag_packet \<times> frag_packet) result" where
  "cutPacket len p =
     rbind (get_tag (fragmentTag p)) (\<lambda>t.
       let n = fragmentNumber t; base = fragmentBaseName n (packetName p); t' = t\<lparr>lastFragment := False\<rparr> in
       Inr (p\<lparr>packetName := base @ frag_suffix @ int_to_string n, packetData := take (nat len) (packetData p),
              fragmentTag := Some t', packetProtocolTag := None\<rparr>,
            \<lparr>packetName = base @ frag_suffix @ int_to_string (n + 1), packetData = drop (nat len) (packetData p),
              fragmentTag = Some (t'\<lparr>firstFragment := False, lastFragment := True, fragmentNumber := n + 1\<rparr>),
              packetProtocolTag = None, numberHeader = None\<rparr>))"

definition preemptablePullEnd :: "streamer_config \<Rightarrow> simtime \<Rightarrow> preemptable_streamer \<Rightarrow> (preemptable_streamer \<times> frag_packet) result" where
  "preemptablePullEnd c now s =
     (case streamedPacket s of
        None \<Rightarrow> Inl NullPointer
      | Some p \<Rightarrow>
          let len = preemptedLength c (pulledLength (streamDatarate s) (now - streamStart s)) in
          if len + minPacketLength c \<le> int (length (packetData p))
          then rbind (cutPacket len p) (\<lambda>(f, r). Inr (s\<lparr>streamedPacket := None, remainingPacket := Some r\<rparr>, f))
          else Inr (s\<lparr>streamedPacket := None\<rparr>, p))"

text \<open>Packets can also be pushed; then they are not interrupted. \<open>rate\<close> is absent where the module's
  data rate is not a number, and the packet ends at once. The result is when the timer ends it.\<close>

definition preemptablePush :: "real option \<Rightarrow> (real \<Rightarrow> simtime) \<Rightarrow> simtime \<Rightarrow> frag_packet \<Rightarrow> preemptable_streamer \<Rightarrow> (preemptable_streamer \<times> simtime option) result" where
  "preemptablePush rate toTime now p s =
     rbind (ensure (\<not> isStreaming s)) (\<lambda>_.
       Inr (case rate of
              None \<Rightarrow> (s\<lparr>streamedPacket := None\<rparr>, None)
            | Some r \<Rightarrow> (s\<lparr>streamedPacket := Some p, streamDatarate := r\<rparr>, Some (now + toTime (real (length (packetData p)) / r)))))"

definition preemptableEndStreaming :: "preemptable_streamer \<Rightarrow> (preemptable_streamer \<times> frag_packet) result" where
  "preemptableEndStreaming s =
     (case streamedPacket s of None \<Rightarrow> Inl NullPointer | Some p \<Rightarrow> Inr (s\<lparr>streamedPacket := None\<rparr>, p))"

section \<open>Where a packet is cut\<close>

lemma pulled_rounded:
  assumes "0 < roundingLength c" "0 \<le> pulled"
  shows "pulled \<le> roundingLength c * ((pulled + roundingLength c - 1) div roundingLength c)"
    and "roundingLength c * ((pulled + roundingLength c - 1) div roundingLength c) < pulled + roundingLength c"
proof -
  let ?r = "roundingLength c" and ?x = "pulled + roundingLength c - 1"
  have "?r * (?x div ?r) = ?x - ?x mod ?r" by (metis minus_mod_eq_mult_div)
  moreover have "0 \<le> ?x mod ?r" "?x mod ?r < ?r" using assms by simp_all
  ultimately show "pulled \<le> ?r * (?x div ?r)" "?r * (?x div ?r) < pulled + ?r" by linarith+
qed

lemma preemptedLength_bounds:
  assumes "0 < roundingLength c" "0 \<le> pulled"
  shows "pulled \<le> preemptedLength c pulled" "minPacketLength c \<le> preemptedLength c pulled"
    "preemptedLength c pulled < pulled + max (minPacketLength c) (roundingLength c) \<or> preemptedLength c pulled = minPacketLength c"
  using pulled_rounded [OF assms] by (auto simp: preemptedLength_def Let_def)

lemma bits_left_bound:
  assumes "preemptablePullEnd c now s = Inr (s', f)" "0 < roundingLength c" "0 < minPacketLength c"
    and "0 \<le> streamDatarate s" "streamStart s \<le> now"
  shows "int (length (packetData f)) - pulledLength (streamDatarate s) (now - streamStart s)
    < minPacketLength c + max (minPacketLength c) (roundingLength c)"
proof -
  let ?pulled = "pulledLength (streamDatarate s) (now - streamStart s)"
  have p: "0 \<le> ?pulled" using assms(4,5) by (simp add: pulledLength_def)
  note b = preemptedLength_bounds [OF assms(2) p]
  from assms(1) obtain pkt where pkt: "streamedPacket s = Some pkt"
    by (auto simp: preemptablePullEnd_def split: option.splits)
  show ?thesis
  proof (cases "preemptedLength c ?pulled + minPacketLength c \<le> int (length (packetData pkt))")
    case True
    with assms(1) pkt have "int (length (packetData f)) = preemptedLength c ?pulled"
      using b(1) p assms(3) by (auto simp: preemptablePullEnd_def cutPacket_def Let_def rbind_Inr_iff)
    then show ?thesis using b p assms(3) by (auto simp: max_def split: if_splits)
  next
    case False
    with assms(1) pkt have "f = pkt" by (auto simp: preemptablePullEnd_def Let_def)
    with False show ?thesis using b p by (auto simp: max_def split: if_splits)
  qed
qed

text \<open>
  C19. Express traffic never waits long for a frame it interrupts: after the interruption there are
  fewer bits left to send than two minimal fragments, or one and the rounding where that is longer,
  however long the frame was and whenever the interruption came.\<close>

theorem preemption_is_prompt:
  assumes "preemptablePullEnd c now s = Inr (s', f)" "0 < roundingLength c" "0 < minPacketLength c"
    and "0 \<le> streamDatarate s" "streamStart s \<le> now"
  shows "int (length (packetData f)) - pulledLength (streamDatarate s) (now - streamStart s)
    < minPacketLength c + max (minPacketLength c) (roundingLength c)"
  by (rule bits_left_bound [OF assms])

text \<open>
  A cut makes two packets that are long enough, takes back nothing that was already sent, and
  loses nothing: the two parts are the data of the packet.\<close>

theorem cut_parts_are_long_enough:
  assumes "preemptablePullEnd c now s = Inr (s', f)" "remainingPacket s' = Some r" "remainingPacket s = None"
    and "streamedPacket s = Some p" "0 < roundingLength c" "0 < minPacketLength c" "0 \<le> streamDatarate s" "streamStart s \<le> now"
  shows "packetData f @ packetData r = packetData p \<and> minPacketLength c \<le> int (length (packetData f)) \<and>
    minPacketLength c \<le> int (length (packetData r)) \<and>
    pulledLength (streamDatarate s) (now - streamStart s) \<le> int (length (packetData f))"
proof -
  let ?pulled = "pulledLength (streamDatarate s) (now - streamStart s)"
  have "0 \<le> ?pulled" using assms(7,8) by (simp add: pulledLength_def)
  note b = preemptedLength_bounds [OF assms(5) this]
  from assms show ?thesis
    using b by (auto simp: preemptablePullEnd_def cutPacket_def Let_def rbind_Inr_iff split: if_splits)
qed
section \<open>The checksum of fragments\<close>

text \<open>\<open>peekDataAsBytes\<close>: the bits of the data, eight by eight.\<close>

fun bytesOf :: "bool list \<Rightarrow> 8 word list" where
  "bytesOf (a # b # c # d # e # f # g # h # ds) = horner_sum of_bool 2 [h, g, f, e, d, c, b, a] # bytesOf ds"
| "bytesOf _ = []"

definition peekDataAsBytes :: "bool list \<Rightarrow> 8 word list result" where
  "peekDataAsBytes ds = (if length ds mod 8 = 0 then Inr (bytesOf ds) else Inl (RuntimeError ''length is not a whole number of bytes''))"

lemma bytesOf_append: "length xs mod 8 = 0 \<Longrightarrow> bytesOf (xs @ ys) = bytesOf xs @ bytesOf ys"
  by (induction xs rule: bytesOf.induct) auto

record fragment_fcs =
  lastFragmentCompleteFcs :: "32 word"
  currentFragmentCompleteFcs :: "32 word"

definition newFragmentFcs :: fragment_fcs where
  "newFragmentFcs = \<lparr>lastFragmentCompleteFcs = 0, currentFragmentCompleteFcs = 0\<rparr>"

definition completeFcs :: "bool \<Rightarrow> 8 word list \<Rightarrow> fragment_fcs \<Rightarrow> 32 word" where
  "completeFcs isFirst bs s = ethernetCRC bs (if isFirst then 0 else lastFragmentCompleteFcs s)"

text \<open>The inserter computes the checksum of everything up to the end of the fragment; the last
  fragment carries it, the others carry the checksum of the fragment alone, with half of it
  inverted.\<close>

definition fragmentComputedFcs :: "fragment_tag \<Rightarrow> bool list \<Rightarrow> fragment_fcs \<Rightarrow> (fragment_fcs \<times> 32 word) result" where
  "fragmentComputedFcs t ds s =
     rbind (peekDataAsBytes ds) (\<lambda>bs.
       let s' = s\<lparr>currentFragmentCompleteFcs := completeFcs (firstFragment t) bs s\<rparr> in
       Inr (s', if lastFragment t then currentFragmentCompleteFcs s' else ethernetCRC bs 0 XOR 0xFFFF0000))"

record fragment_trailer =
  fragFcs :: "32 word"
  fragFcsMode :: fcs_mode
  mCrc :: bool

definition fragmentFcsInserterProcess :: "fcs_mode \<Rightarrow> frag_packet \<Rightarrow> fragment_fcs \<Rightarrow> (fragment_fcs \<times> fragment_trailer) result" where
  "fragmentFcsInserterProcess mode p s =
     rbind (get_tag (fragmentTag p)) (\<lambda>t.
     rbind (case mode of
              FCS_DECLARED_CORRECT \<Rightarrow> Inr (s, 0xC00DC00D)
            | FCS_DECLARED_INCORRECT \<Rightarrow> Inr (s, 0xBAADBAAD)
            | FCS_COMPUTED \<Rightarrow> fragmentComputedFcs t (packetData p) s
            | _ \<Rightarrow> Inl (RuntimeError ''Unknown FCS mode'')) (\<lambda>(s', fcs).
       Inr (s', \<lparr>fragFcs = fcs, fragFcsMode = mode, mCrc = \<not> lastFragment t\<rparr>)))"

definition fragmentFcsProcessed :: "fragment_fcs \<Rightarrow> fragment_fcs" where
  "fragmentFcsProcessed s = s\<lparr>lastFragmentCompleteFcs := currentFragmentCompleteFcs s\<rparr>"

text \<open>A fragment on the wire: its preamble, its data, its trailer, and what marks it as damaged. Tags
  are cleared by the transmitter.\<close>

datatype preamble_type = SFD | SMD_Verify | SMD_Respond | SMD_Sx | SMD_Cx

record fragment_phy_header =
  preambleType :: preamble_type
  smdNumber :: int
  phyFragmentNumber :: int

record wire_fragment =
  wireName :: string
  wireHeader :: fragment_phy_header
  headerDamaged :: bool
  wireData :: "bool list"
  wireTrailer :: fragment_trailer
  dataCorrect :: bool
  bitErrorFlag :: bool

text \<open>The checker decides from the value alone whether a fragment is the last one, and looks at no
  flag when the checksum is computed.\<close>

definition checkFragmentComputed :: "bool \<Rightarrow> bool list \<Rightarrow> 32 word \<Rightarrow> fragment_fcs \<Rightarrow> (fragment_fcs \<times> bool) result" where
  "checkFragmentComputed isFirst ds received s =
     rbind (peekDataAsBytes ds) (\<lambda>bs.
       let s' = s\<lparr>currentFragmentCompleteFcs := completeFcs isFirst bs s\<rparr>;
           isLast = (received \<noteq> ethernetCRC bs 0 XOR 0xFFFF0000) in
       Inr (s', \<not> isLast \<or> received = currentFragmentCompleteFcs s'))"

definition fragmentFcsCheckerMatches :: "bool \<Rightarrow> wire_fragment \<Rightarrow> fragment_fcs \<Rightarrow> (fragment_fcs \<times> bool) result" where
  "fragmentFcsCheckerMatches isFirst w s =
     (let fcs = fragFcs (wireTrailer w) in
      case fragFcsMode (wireTrailer w) of
        FCS_DECLARED_CORRECT \<Rightarrow>
          if fcs \<noteq> 0xC00DC00D then Inl (RuntimeError ''FCS value differs from expected'')
          else Inr (s, dataCorrect w \<and> \<not> bitErrorFlag w)
      | FCS_DECLARED_INCORRECT \<Rightarrow>
          if fcs \<noteq> 0xBAADBAAD then Inl (RuntimeError ''FCS value differs from expected'') else Inr (s, False)
      | FCS_COMPUTED \<Rightarrow> checkFragmentComputed isFirst (wireData w) fcs s
      | _ \<Rightarrow> Inl (RuntimeError ''Unknown FCS mode''))"

text \<open>Processing pops the trailer and updates the tag.\<close>

definition fragmentFcsCheckerProcess :: "fragment_trailer \<Rightarrow> frag_packet \<Rightarrow> fragment_fcs \<Rightarrow> (fragment_fcs \<times> frag_packet) result" where
  "fragmentFcsCheckerProcess t p s =
     rbind (get_tag (fragmentTag p)) (\<lambda>g.
       Inr (fragmentFcsProcessed s, p\<lparr>fragmentTag := Some (g\<lparr>lastFragment := \<not> mCrc t\<rparr>)\<rparr>))"

section \<open>The preamble of fragments\<close>

text \<open>The counters of the inserter are bytes; they are used modulo four.\<close>

record phy_inserter =
  insSmdNumber :: "8 word"
  insFragmentNumber :: "8 word"

definition phyInserterProcess :: "frag_packet \<Rightarrow> phy_inserter \<Rightarrow> fragment_phy_header result" where
  "phyInserterProcess p s =
     rbind (get_tag (fragmentTag p)) (\<lambda>t.
       Inr \<lparr>preambleType = (if firstFragment t then SMD_Sx else SMD_Cx), smdNumber = uint (insSmdNumber s),
            phyFragmentNumber = uint (insFragmentNumber s) mod 4\<rparr>)"

definition phyInserterProcessed :: "frag_packet \<Rightarrow> phy_inserter \<Rightarrow> phy_inserter result" where
  "phyInserterProcessed p s =
     rbind (get_tag (fragmentTag p)) (\<lambda>t.
       let s1 = (if \<not> firstFragment t then s\<lparr>insFragmentNumber := insFragmentNumber s + 1\<rparr> else s) in
       Inr (if lastFragment t then \<lparr>insSmdNumber = word_of_int ((uint (insSmdNumber s1) + 1) mod 4), insFragmentNumber = 0\<rparr> else s1))"

record phy_checker =
  chkSmdNumber :: int
  chkFragmentNumber :: int

definition newPhyChecker :: phy_checker where
  "newPhyChecker = \<lparr>chkSmdNumber = -1, chkFragmentNumber = 0\<rparr>"

definition phyCheckerMatches :: "wire_fragment \<Rightarrow> phy_checker \<Rightarrow> bool" where
  "phyCheckerMatches w s =
     (let h = wireHeader w in
      if headerDamaged w then False
      else if preambleType h \<noteq> SMD_Sx \<and> preambleType h \<noteq> SMD_Cx then False
      else if smdNumber h = chkSmdNumber s then phyFragmentNumber h = chkFragmentNumber s mod 4
      else phyFragmentNumber h = 0)"

definition phyCheckerProcess :: "wire_fragment \<Rightarrow> phy_checker \<Rightarrow> (phy_checker \<times> fragment_tag) result" where
  "phyCheckerProcess w s =
     (let h = wireHeader w in
      if smdNumber h = chkSmdNumber s
      then rbind (ensure (phyFragmentNumber h = chkFragmentNumber s mod 4)) (\<lambda>_.
             let n = chkFragmentNumber s + 1 in
             Inr (s\<lparr>chkFragmentNumber := n\<rparr>, \<lparr>firstFragment = False, lastFragment = True, fragmentNumber = n, numFragments = -1\<rparr>))
      else rbind (ensure (phyFragmentNumber h = 0)) (\<lambda>_.
             Inr (\<lparr>chkSmdNumber = smdNumber h, chkFragmentNumber = 0\<rparr>,
                  \<lparr>firstFragment = True, lastFragment = True, fragmentNumber = 0, numFragments = -1\<rparr>)))"

section \<open>Both ends of a link\<close>

record sender =
  frameQueue :: "frag_packet list"
  frameStreamer :: preemptable_streamer
  fcsInserter :: fragment_fcs
  phyInserter :: phy_inserter

text \<open>One fragment leaves: streaming starts, and ends at a later time. The flow of the checksum sees the
  packet twice, first as if it were sent to its end, then as it was cut.\<close>

definition sendFragment :: "streamer_config \<Rightarrow> fcs_mode \<Rightarrow> real \<Rightarrow> simtime \<times> simtime \<Rightarrow> sender \<Rightarrow> (sender \<times> wire_fragment) result" where
  "sendFragment c mode rate se x =
     rbind (preemptablePullStart rate (fst se) (frameQueue x, frameStreamer x)) (\<lambda>((q, s1), p).
     rbind (fragmentFcsInserterProcess mode p (fcsInserter x)) (\<lambda>(f1, _).
     rbind (preemptablePullEnd c (snd se) s1) (\<lambda>(s2, f).
     rbind (fragmentFcsInserterProcess mode f f1) (\<lambda>(f2, tr).
     rbind (phyInserterProcess f (phyInserter x)) (\<lambda>h.
     rbind (phyInserterProcessed f (phyInserter x)) (\<lambda>i.
       Inr (\<lparr>frameQueue = q, frameStreamer = s2, fcsInserter = fragmentFcsProcessed f2, phyInserter = i\<rparr>,
            \<lparr>wireName = packetName f, wireHeader = h, headerDamaged = False, wireData = packetData f, wireTrailer = tr,
             dataCorrect = True, bitErrorFlag = False\<rparr>)))))))"

record receiver =
  phyChecker :: phy_checker
  fcsChecker :: fragment_fcs
  rxDefragmenter :: defragmenter

definition newReceiver :: receiver where
  "newReceiver = \<lparr>phyChecker = newPhyChecker, fcsChecker = newFragmentFcs, rxDefragmenter = newDefragmenter\<rparr>"

definition receiveFragment :: "wire_fragment \<Rightarrow> receiver \<Rightarrow> (receiver \<times> frag_packet option) result" where
  "receiveFragment w y =
     (if \<not> phyCheckerMatches w (phyChecker y) then Inr (y, None)
      else rbind (phyCheckerProcess w (phyChecker y)) (\<lambda>(k, t).
           rbind (fragmentFcsCheckerMatches (firstFragment t) w (fcsChecker y)) (\<lambda>(c, ok).
             let p = \<lparr>packetName = wireName w, packetData = wireData w, fragmentTag = Some t, packetProtocolTag = None, numberHeader = None\<rparr> in
             if \<not> ok then Inr (y\<lparr>phyChecker := k, fcsChecker := c\<rparr>, None)
             else rbind (fragmentFcsCheckerProcess (wireTrailer w) p c) (\<lambda>(c', p').
                  rbind (tagDefragmenterPush p' (rxDefragmenter y)) (\<lambda>(d, out).
                    Inr (\<lparr>phyChecker = k, fcsChecker = c', rxDefragmenter = d\<rparr>, out))))))"
section \<open>A link without losses\<close>

text \<open>What an inserter with this state puts on a fragment, and the state of both ends after it.\<close>

definition trailerFor :: "fcs_mode \<Rightarrow> bool \<Rightarrow> bool \<Rightarrow> bool list \<Rightarrow> fragment_fcs \<Rightarrow> fragment_trailer" where
  "trailerFor mode isFirst isLast ds s =
     \<lparr>fragFcs = (if mode = FCS_DECLARED_CORRECT then 0xC00DC00D
        else if isLast then completeFcs isFirst (bytesOf ds) s else ethernetCRC (bytesOf ds) 0 XOR 0xFFFF0000),
      fragFcsMode = mode, mCrc = \<not> isLast\<rparr>"

definition fcsAfter :: "fcs_mode \<Rightarrow> bool \<Rightarrow> bool list \<Rightarrow> fragment_fcs \<Rightarrow> fragment_fcs" where
  "fcsAfter mode isFirst ds s =
     (if mode = FCS_DECLARED_CORRECT then fragmentFcsProcessed s
      else \<lparr>lastFragmentCompleteFcs = completeFcs isFirst (bytesOf ds) s, currentFragmentCompleteFcs = completeFcs isFirst (bytesOf ds) s\<rparr>)"

definition usable_mode :: "fcs_mode \<Rightarrow> bool" where
  "usable_mode mode \<longleftrightarrow> mode = FCS_COMPUTED \<or> mode = FCS_DECLARED_CORRECT"

lemma inserter_process:
  assumes "usable_mode mode" "fragmentFcsInserterProcess mode p s = Inr (s', tr)" "fragmentTag p = Some t"
  shows "tr = trailerFor mode (firstFragment t) (lastFragment t) (packetData p) s"
    and "fragmentFcsProcessed s' = fcsAfter mode (firstFragment t) (packetData p) s"
    and "mode = FCS_COMPUTED \<Longrightarrow> length (packetData p) mod 8 = 0"
    and "lastFragmentCompleteFcs s' = lastFragmentCompleteFcs s" "mode = FCS_DECLARED_CORRECT \<Longrightarrow> s' = s"
  using assms
  by (auto simp: usable_mode_def fragmentFcsInserterProcess_def fragmentComputedFcs_def peekDataAsBytes_def Let_def
      trailerFor_def fcsAfter_def completeFcs_def fragmentFcsProcessed_def split: if_splits)

lemma fcs_ignores_current:
  assumes "usable_mode mode" "lastFragmentCompleteFcs s' = lastFragmentCompleteFcs s" "mode = FCS_DECLARED_CORRECT \<Longrightarrow> s' = s"
  shows "trailerFor mode isFirst isLast ds s' = trailerFor mode isFirst isLast ds s"
    and "fcsAfter mode isFirst ds s' = fcsAfter mode isFirst ds s"
  using assms by (auto simp: usable_mode_def trailerFor_def fcsAfter_def completeFcs_def)

lemma checker_accepts:
  assumes "usable_mode mode" "wireTrailer w = trailerFor mode isFirst isLast (wireData w) s"
    "dataCorrect w" "\<not> bitErrorFlag w" "mode = FCS_COMPUTED \<Longrightarrow> length (wireData w) mod 8 = 0"
  shows "\<exists>s'. fragmentFcsCheckerMatches isFirst w s = Inr (s', True) \<and> fragmentFcsProcessed s' = fcsAfter mode isFirst (wireData w) s"
  using assms
  by (auto simp: usable_mode_def trailerFor_def fragmentFcsCheckerMatches_def checkFragmentComputed_def peekDataAsBytes_def Let_def
      fcsAfter_def fragmentFcsProcessed_def completeFcs_def split: if_splits)

text \<open>What is sent next, and the state in which the two ends agree; \<open>n\<close> is the number of the next
  fragment.\<close>

definition nextPacket :: "sender \<Rightarrow> frag_packet option" where
  "nextPacket x = (case remainingPacket (frameStreamer x) of
     Some r \<Rightarrow> Some r
   | None \<Rightarrow> (case frameQueue x of [] \<Rightarrow> None | p # _ \<Rightarrow> Some (markAsWhole p)))"

abbreviation tag_of_rest :: "int \<Rightarrow> bool \<Rightarrow> fragment_tag" where
  "tag_of_rest n isLast \<equiv> \<lparr>firstFragment = (n = 0), lastFragment = isLast, fragmentNumber = n, numFragments = -1\<rparr>"

definition sender_ready :: "int \<Rightarrow> sender \<Rightarrow> bool" where
  "sender_ready n x \<longleftrightarrow>
     streamedPacket (frameStreamer x) = None \<and> 0 \<le> n \<and>
     list_all (\<lambda>p. fragmentTag p = None \<and> packetData p \<noteq> []) (frameQueue x) \<and>
     uint (insSmdNumber (phyInserter x)) < 4 \<and>
     (case remainingPacket (frameStreamer x) of
        None \<Rightarrow> n = 0 \<and> insFragmentNumber (phyInserter x) = 0
      | Some r \<Rightarrow> 0 < n \<and> packetData r \<noteq> [] \<and> fragmentTag r = Some (tag_of_rest n True) \<and>
          uint (insFragmentNumber (phyInserter x)) mod 4 = (n - 1) mod 4)"

definition receiver_follows :: "int \<Rightarrow> sender \<Rightarrow> receiver \<Rightarrow> bool" where
  "receiver_follows n x y \<longleftrightarrow>
     fcsInserter x = fcsChecker y \<and> expectedFragmentNumber (rxDefragmenter y) = n \<and>
     (if n = 0 then defragmentedPacket (rxDefragmenter y) = None \<and> chkSmdNumber (phyChecker y) \<noteq> uint (insSmdNumber (phyInserter x))
      else defragmentedPacket (rxDefragmenter y) \<noteq> None \<and> chkSmdNumber (phyChecker y) = uint (insSmdNumber (phyInserter x)) \<and>
        chkFragmentNumber (phyChecker y) = n - 1)"

text \<open>The data still to be delivered: the frame that was begun, if there is one, and the queue.\<close>

definition undelivered :: "sender \<Rightarrow> receiver \<Rightarrow> bool list list" where
  "undelivered x y =
     (case (remainingPacket (frameStreamer x), defragmentedPacket (rxDefragmenter y)) of
        (Some r, Some p) \<Rightarrow> [packetData p @ packetData r]
      | _ \<Rightarrow> []) @ map packetData (frameQueue x)"

lemma pull_start_next:
  assumes "sender_ready n x" "preemptablePullStart rate now (frameQueue x, frameStreamer x) = Inr ((q, s), p)"
  shows "nextPacket x = Some p" "streamedPacket s = Some p" "remainingPacket s = None"
    "fragmentTag p = Some (tag_of_rest n True)" "packetData p \<noteq> []" "q = (if n = 0 then tl (frameQueue x) else frameQueue x)"
  using assms
  by (auto simp: sender_ready_def preemptablePullStart_def nextPacket_def markAsWhole_def Let_def split: option.splits list.splits)

lemma pull_end_cases:
  assumes "preemptablePullEnd c now s = Inr (s', f)" "streamedPacket s = Some p" "remainingPacket s = None"
    "fragmentTag p = Some (tag_of_rest n True)" "packetData p \<noteq> []" "0 < minPacketLength c" "0 \<le> n"
  obtains (whole) "f = p" "remainingPacket s' = None" "streamedPacket s' = None"
  | (cut) r where "remainingPacket s' = Some r" "streamedPacket s' = None" "fragmentTag f = Some (tag_of_rest n False)"
      "fragmentTag r = Some (tag_of_rest (n + 1) True)" "packetData f @ packetData r = packetData p" "packetData f \<noteq> []" "packetData r \<noteq> []"
proof -
  let ?len = "preemptedLength c (pulledLength (streamDatarate s) (now - streamStart s))"
  have "minPacketLength c \<le> ?len" by (simp add: preemptedLength_def Let_def)
  with assms that show thesis
    by (cases "?len + minPacketLength c \<le> int (length (packetData p))")
      (auto simp: preemptablePullEnd_def cutPacket_def Let_def)
qed
text \<open>The fragment that comes next from a sender, as it arrives undamaged.\<close>

definition genuine :: "fcs_mode \<Rightarrow> int \<Rightarrow> bool \<Rightarrow> sender \<Rightarrow> wire_fragment \<Rightarrow> bool" where
  "genuine mode n isLast x w \<longleftrightarrow>
     wireHeader w = \<lparr>preambleType = (if n = 0 then SMD_Sx else SMD_Cx), smdNumber = uint (insSmdNumber (phyInserter x)),
       phyFragmentNumber = uint (insFragmentNumber (phyInserter x)) mod 4\<rparr> \<and> \<not> headerDamaged w \<and>
     wireTrailer w = trailerFor mode (n = 0) isLast (wireData w) (fcsInserter x) \<and> dataCorrect w \<and> \<not> bitErrorFlag w \<and>
     wireData w \<noteq> [] \<and> (mode = FCS_COMPUTED \<longrightarrow> length (wireData w) mod 8 = 0)"

lemma next_smd:
  assumes "uint (v :: 8 word) < 4"
  shows "uint (word_of_int ((uint v + 1) mod 4) :: 8 word) = (uint v + 1) mod 4"
    "uint (word_of_int ((uint v + 1) mod 4) :: 8 word) \<noteq> uint v"
proof -
  have a: "uint (word_of_int ((uint v + 1) mod 4) :: 8 word) = (uint v + 1) mod 4"
    by (simp add: uint_word_of_int mod_mod_cancel flip: take_bit_eq_mod)
  then show "uint (word_of_int ((uint v + 1) mod 4) :: 8 word) = (uint v + 1) mod 4" .
  show "uint (word_of_int ((uint v + 1) mod 4) :: 8 word) \<noteq> uint v"
    unfolding a using assms uint_ge_0 [of v] by presburger
qed

lemma next_fragment_number: "uint (v + 1 :: 8 word) mod 4 = (uint v + 1) mod 4"
  by (simp add: uint_word_ariths mod_mod_cancel)

lemma succ_mod_4: "a mod 4 = (n - 1) mod 4 \<Longrightarrow> (a + 1) mod 4 = n mod (4 :: int)"
  by presburger

lemma send_step:
  assumes ready: "sender_ready n x" and mode: "usable_mode mode" and min: "0 < minPacketLength c"
    and send: "sendFragment c mode rate se x = Inr (x', w)"
  obtains p isLast where "nextPacket x = Some p" "genuine mode n isLast x w"
    "sender_ready (if isLast then 0 else n + 1) x'" "fcsInserter x' = fcsAfter mode (n = 0) (wireData w) (fcsInserter x)"
    "frameQueue x' = (if n = 0 then tl (frameQueue x) else frameQueue x)"
    "isLast \<Longrightarrow> remainingPacket (frameStreamer x') = None \<and> wireData w = packetData p
       \<and> uint (insSmdNumber (phyInserter x')) \<noteq> uint (insSmdNumber (phyInserter x))"
    "\<not> isLast \<Longrightarrow> \<exists>r. remainingPacket (frameStreamer x') = Some r \<and> wireData w @ packetData r = packetData p
       \<and> insSmdNumber (phyInserter x') = insSmdNumber (phyInserter x)"
proof -
  from send obtain q s1 p f1 tr1 s2 f f2 tr h i where
    start: "preemptablePullStart rate (fst se) (frameQueue x, frameStreamer x) = Inr ((q, s1), p)" and
    fcs1: "fragmentFcsInserterProcess mode p (fcsInserter x) = Inr (f1, tr1)" and
    stop: "preemptablePullEnd c (snd se) s1 = Inr (s2, f)" and
    fcs2: "fragmentFcsInserterProcess mode f f1 = Inr (f2, tr)" and
    h: "phyInserterProcess f (phyInserter x) = Inr h" and i: "phyInserterProcessed f (phyInserter x) = Inr i" and
    x': "x' = \<lparr>frameQueue = q, frameStreamer = s2, fcsInserter = fragmentFcsProcessed f2, phyInserter = i\<rparr>" and
    w: "w = \<lparr>wireName = packetName f, wireHeader = h, headerDamaged = False, wireData = packetData f, wireTrailer = tr,
         dataCorrect = True, bitErrorFlag = False\<rparr>"
    by (auto simp: sendFragment_def rbind_Inr_iff)
  note p = pull_start_next [OF ready start]
  have n: "0 \<le> n" using ready by (simp add: sender_ready_def)
  note f1 = inserter_process [OF mode fcs1 p(4)]
  have queue: "list_all (\<lambda>p. fragmentTag p = None \<and> packetData p \<noteq> []) q"
    using ready p(6) by (cases "frameQueue x") (auto simp: sender_ready_def)
  have smd: "uint (insSmdNumber (phyInserter x)) < 4" using ready by (simp add: sender_ready_def)
  have common: "genuine mode n isLast x w \<and> fcsInserter x' = fcsAfter mode (n = 0) (wireData w) (fcsInserter x)"
    if t: "fragmentTag f = Some (tag_of_rest n isLast)" and ne: "packetData f \<noteq> []" for isLast
    using inserter_process [OF mode fcs2 t] fcs_ignores_current [OF mode f1(4,5)] h t ne
    by (auto simp: genuine_def w x' phyInserterProcess_def)
  show thesis
  proof (cases rule: pull_end_cases [OF stop p(2-5) min n, case_names whole cut])
    case whole
    with p(4) i have i': "i = \<lparr>insSmdNumber = word_of_int ((uint (insSmdNumber (phyInserter x)) + 1) mod 4), insFragmentNumber = 0\<rparr>"
      by (auto simp: phyInserterProcessed_def Let_def)
    have "sender_ready 0 x'"
      using whole queue smd by (simp add: sender_ready_def x' i' next_smd(1))
    with whole p(1,4-6) common [of True] show thesis
      by (intro that [of p True]) (simp_all add: x' w i' next_smd(2) [OF smd])
  next
    case (cut r)
    with i have i': "i = (if n = 0 then phyInserter x else (phyInserter x)\<lparr>insFragmentNumber := insFragmentNumber (phyInserter x) + 1\<rparr>)"
      by (auto simp: phyInserterProcessed_def Let_def)
    have "uint (insFragmentNumber i) mod 4 = n mod 4"
      using ready n by (auto simp: i' sender_ready_def next_fragment_number succ_mod_4 split: option.splits)
    then have "sender_ready (n + 1) x'"
      using cut queue smd n by (simp add: sender_ready_def x' i')
    with cut p(1,6) common [of False] show thesis
      by (intro that [of p False]) (simp_all add: x' w i')
  qed
qed

lemma receive_step:
  assumes ready: "sender_ready n x" and follows: "receiver_follows n x y" and mode: "usable_mode mode"
    and w: "genuine mode n isLast x w"
  obtains y' q where "receiveFragment w y = Inr (y', if isLast then Some q else None)"
    "fcsChecker y' = fcsAfter mode (n = 0) (wireData w) (fcsInserter x)"
    "chkSmdNumber (phyChecker y') = uint (insSmdNumber (phyInserter x))" "chkFragmentNumber (phyChecker y') = n"
    "rxDefragmenter y' = (if isLast then newDefragmenter else \<lparr>expectedFragmentNumber = n + 1, defragmentedPacket = Some q\<rparr>)"
    "packetData q = (if n = 0 then [] else packetData (the (defragmentedPacket (rxDefragmenter y)))) @ wireData w"
proof -
  let ?k = "\<lparr>chkSmdNumber = uint (insSmdNumber (phyInserter x)), chkFragmentNumber = n\<rparr>"
  let ?t = "\<lambda>isLast. \<lparr>firstFragment = (n = 0), lastFragment = isLast, fragmentNumber = n, numFragments = -1\<rparr>"
  let ?p = "\<lambda>t. \<lparr>packetName = wireName w, packetData = wireData w, fragmentTag = Some t, packetProtocolTag = None, numberHeader = None\<rparr>"
  have n: "0 \<le> n" using ready by (simp add: sender_ready_def)
  have matches: "phyCheckerMatches w (phyChecker y)" and process: "phyCheckerProcess w (phyChecker y) = Inr (?k, ?t True)"
    using ready follows w
    by (auto simp: sender_ready_def receiver_follows_def genuine_def phyCheckerMatches_def phyCheckerProcess_def Let_def
        split: if_splits option.splits)
  obtain s' where accepts: "fragmentFcsCheckerMatches (n = 0) w (fcsChecker y) = Inr (s', True)"
    and after: "fragmentFcsProcessed s' = fcsAfter mode (n = 0) (wireData w) (fcsInserter x)"
    using checker_accepts [OF mode, of w "n = 0" isLast "fcsInserter x"] w follows by (auto simp: genuine_def receiver_follows_def)
  have trailer: "mCrc (wireTrailer w) = (\<not> isLast)" using w by (simp add: genuine_def trailerFor_def)
  have "\<exists>q. tagDefragmenterPush (?p (?t isLast)) (rxDefragmenter y) =
      Inr (if isLast then newDefragmenter else \<lparr>expectedFragmentNumber = n + 1, defragmentedPacket = Some q\<rparr>, if isLast then Some q else None)
      \<and> packetData q = (if n = 0 then [] else packetData (the (defragmentedPacket (rxDefragmenter y)))) @ wireData w"
    using follows w n
    by (cases "rxDefragmenter y"; cases isLast)
      (auto simp: receiver_follows_def genuine_def tagDefragmenterPush_def defragmentPacket_def startDefragmentation_def
        continueDefragmentation_def endDefragmentation_def newDefragmenter_def)
  then obtain q where push: "tagDefragmenterPush (?p (?t isLast)) (rxDefragmenter y) =
      Inr (if isLast then newDefragmenter else \<lparr>expectedFragmentNumber = n + 1, defragmentedPacket = Some q\<rparr>, if isLast then Some q else None)"
    and q: "packetData q = (if n = 0 then [] else packetData (the (defragmentedPacket (rxDefragmenter y)))) @ wireData w" by blast
  show thesis
    using matches process accepts after push q trailer
    by (intro that [of "\<lparr>phyChecker = ?k, fcsChecker = fragmentFcsProcessed s',
          rxDefragmenter = (if isLast then newDefragmenter else \<lparr>expectedFragmentNumber = n + 1, defragmentedPacket = Some q\<rparr>)\<rparr>" q])
      (simp_all add: receiveFragment_def fragmentFcsCheckerProcess_def)
qed

text \<open>One fragment over the link.\<close>

definition linked :: "sender \<Rightarrow> receiver \<Rightarrow> bool" where
  "linked x y \<longleftrightarrow> (\<exists>n. sender_ready n x \<and> receiver_follows n x y)"

lemma link_step:
  assumes "linked x y" "usable_mode mode" "0 < minPacketLength c" "sendFragment c mode rate se x = Inr (x', w)"
  shows "\<exists>y' out. receiveFragment w y = Inr (y', out) \<and> linked x' y' \<and>
    (case out of None \<Rightarrow> [] | Some q \<Rightarrow> [packetData q]) @ undelivered x' y' = undelivered x y"
proof -
  from assms(1) obtain n where ready: "sender_ready n x" and follows: "receiver_follows n x y" by (auto simp: linked_def)
  from send_step [OF ready assms(2-4)] obtain p isLast where p: "nextPacket x = Some p" and w: "genuine mode n isLast x w"
    and ready': "sender_ready (if isLast then 0 else n + 1) x'"
    and fcs: "fcsInserter x' = fcsAfter mode (n = 0) (wireData w) (fcsInserter x)"
    and queue: "frameQueue x' = (if n = 0 then tl (frameQueue x) else frameQueue x)"
    and whole: "isLast \<Longrightarrow> remainingPacket (frameStreamer x') = None \<and> wireData w = packetData p
       \<and> uint (insSmdNumber (phyInserter x')) \<noteq> uint (insSmdNumber (phyInserter x))"
    and cut: "\<not> isLast \<Longrightarrow> \<exists>r. remainingPacket (frameStreamer x') = Some r \<and> wireData w @ packetData r = packetData p
       \<and> insSmdNumber (phyInserter x') = insSmdNumber (phyInserter x)" by blast
  from receive_step [OF ready follows assms(2) w] obtain y' q where
    rx: "receiveFragment w y = Inr (y', if isLast then Some q else None)"
    and y': "fcsChecker y' = fcsAfter mode (n = 0) (wireData w) (fcsInserter x)"
      "chkSmdNumber (phyChecker y') = uint (insSmdNumber (phyInserter x))" "chkFragmentNumber (phyChecker y') = n"
      "rxDefragmenter y' = (if isLast then newDefragmenter else \<lparr>expectedFragmentNumber = n + 1, defragmentedPacket = Some q\<rparr>)"
    and q: "packetData q = (if n = 0 then [] else packetData (the (defragmentedPacket (rxDefragmenter y)))) @ wireData w" by blast
  have n: "0 \<le> n" using ready by (simp add: sender_ready_def)
  have "receiver_follows (if isLast then 0 else n + 1) x' y'"
    using y' fcs whole cut n by (auto simp: receiver_follows_def newDefragmenter_def)
  moreover have "(if isLast then [packetData q] else []) @ undelivered x' y' = undelivered x y"
    using p q y'(4) whole cut queue n ready follows
    by (cases isLast) (auto simp: undelivered_def nextPacket_def markAsWhole_def sender_ready_def receiver_follows_def newDefragmenter_def
        split: option.splits list.splits)
  ultimately show ?thesis using rx ready' by (auto simp: linked_def)
qed

fun sendAll :: "streamer_config \<Rightarrow> fcs_mode \<Rightarrow> real \<Rightarrow> (simtime \<times> simtime) list \<Rightarrow> sender \<Rightarrow> (sender \<times> wire_fragment list) result" where
  "sendAll c mode rate [] x = Inr (x, [])"
| "sendAll c mode rate (se # ses) x =
     rbind (sendFragment c mode rate se x) (\<lambda>(x1, w). rbind (sendAll c mode rate ses x1) (\<lambda>(x2, ws). Inr (x2, w # ws)))"

fun receiveAll :: "wire_fragment list \<Rightarrow> receiver \<Rightarrow> (receiver \<times> frag_packet list) result" where
  "receiveAll [] y = Inr (y, [])"
| "receiveAll (w # ws) y =
     rbind (receiveFragment w y) (\<lambda>(y1, out). rbind (receiveAll ws y1) (\<lambda>(y2, outs).
       Inr (y2, (case out of None \<Rightarrow> outs | Some q \<Rightarrow> q # outs))))"

definition newSender :: "frag_packet list \<Rightarrow> sender" where
  "newSender frames = \<lparr>frameQueue = frames, frameStreamer = newStreamer, fcsInserter = newFragmentFcs,
     phyInserter = \<lparr>insSmdNumber = 0, insFragmentNumber = 0\<rparr>\<rparr>"

lemma link_run:
  assumes "linked x y" "usable_mode mode" "0 < minPacketLength c" "sendAll c mode rate ses x = Inr (x', ws)"
  shows "\<exists>y' outs. receiveAll ws y = Inr (y', outs) \<and> map packetData outs @ undelivered x' y' = undelivered x y"
  using assms(1,4)
proof (induction ses arbitrary: x y ws)
  case (Cons se ses)
  from Cons.prems(2) obtain x1 w ws1 where send: "sendFragment c mode rate se x = Inr (x1, w)"
    and rest: "sendAll c mode rate ses x1 = Inr (x', ws1)" and ws: "ws = w # ws1"
    by (auto simp: rbind_Inr_iff)
  from link_step [OF Cons.prems(1) assms(2,3) send] obtain y1 out where
    step: "receiveFragment w y = Inr (y1, out)" "linked x1 y1"
      "(case out of None \<Rightarrow> [] | Some q \<Rightarrow> [packetData q]) @ undelivered x1 y1 = undelivered x y" by blast
  from Cons.IH [OF step(2) rest] obtain y' outs where
    "receiveAll ws1 y1 = Inr (y', outs)" "map packetData outs @ undelivered x' y' = undelivered x1 y1" by blast
  with step show ?case by (cases out) (auto simp: ws)
qed simp

text \<open>
  C5. Over a link that loses nothing, interrupted frames arrive whole and in order, whatever the
  moments at which they are interrupted: the receiver never fails, and what it has delivered,
  followed by the frame it is collecting and by what still waits at the sender, is what was given
  to the sender. So once the sender is done the receiver has delivered all frames and only them.\<close>

theorem preempted_frames_arrive:
  assumes "list_all (\<lambda>p. fragmentTag p = None \<and> packetData p \<noteq> []) frames" "usable_mode mode" "0 < minPacketLength c"
    and "sendAll c mode rate pulls (newSender frames) = Inr (x', ws)"
  shows "\<exists>y' outs. receiveAll ws newReceiver = Inr (y', outs) \<and>
    map packetData outs @ undelivered x' y' = map packetData frames"
proof -
  have "linked (newSender frames) newReceiver"
    using assms(1)
    by (auto simp: linked_def newSender_def newReceiver_def sender_ready_def receiver_follows_def newStreamer_def
        newDefragmenter_def newPhyChecker_def intro!: exI [of _ 0])
  moreover have "undelivered (newSender frames) newReceiver = map packetData frames"
    by (simp add: undelivered_def newSender_def newStreamer_def)
  ultimately show ?thesis using link_run [OF _ assms(2-4)] by metis
qed

definition long_frame :: "bool \<Rightarrow> frag_packet" where
  "long_frame b = \<lparr>packetName = ''bulk'', packetData = replicate 48 b, fragmentTag = None, packetProtocolTag = None, numberHeader = None\<rparr>"

definition short_fragments :: streamer_config where
  "short_fragments = \<lparr>minPacketLength = 16, roundingLength = 8\<rparr>"

text \<open>Two frames of 48 bits at one bit in a tick; the first is interrupted after 20 ticks.\<close>

lemma demo_transmission:
  "\<exists>x' ws. sendAll short_fragments FCS_DECLARED_CORRECT (10 ^ 12) [(0, 20), (30, 60), (60, 108)] (newSender [long_frame True, long_frame False]) = Inr (x', ws) \<and>
     map (\<lambda>w. length (wireData w)) ws = [24, 24, 48] \<and> remainingPacket (frameStreamer x') = None \<and> frameQueue x' = []"
  by (simp add: newSender_def sendFragment_def preemptablePullStart_def preemptablePullEnd_def newStreamer_def markAsWhole_def
      long_frame_def short_fragments_def pulledLength_def preemptedLength_def cutPacket_def fragmentFcsInserterProcess_def
      phyInserterProcess_def phyInserterProcessed_def Let_def)

lemma preempted_frames_arrive_witness:
  "\<exists>x' ws y' outs. sendAll short_fragments FCS_DECLARED_CORRECT (10 ^ 12) [(0, 20), (30, 60), (60, 108)] (newSender [long_frame True, long_frame False]) = Inr (x', ws) \<and>
     map (\<lambda>w. length (wireData w)) ws = [24, 24, 48] \<and> receiveAll ws newReceiver = Inr (y', outs) \<and>
     map packetData outs = [replicate 48 True, replicate 48 False]"
proof -
  from demo_transmission obtain x' ws where run: "sendAll short_fragments FCS_DECLARED_CORRECT (10 ^ 12) [(0, 20), (30, 60), (60, 108)]
      (newSender [long_frame True, long_frame False]) = Inr (x', ws)" "map (\<lambda>w. length (wireData w)) ws = [24, 24, 48]"
      "remainingPacket (frameStreamer x') = None" "frameQueue x' = []"
    by (elim exE conjE) (rule that)
  have "\<exists>y' outs. receiveAll ws newReceiver = Inr (y', outs) \<and>
      map packetData outs @ undelivered x' y' = map packetData [long_frame True, long_frame False]"
    by (rule preempted_frames_arrive [OF _ _ _ run(1)]) (simp_all add: long_frame_def usable_mode_def short_fragments_def)
  with run show ?thesis by (auto simp: undelivered_def long_frame_def)
qed
text \<open>
  The checksum of the last fragment is the checksum of the frame: while a frame is sent, the
  inserter keeps the checksum of all data sent so far, and the last fragment carries it.\<close>

theorem last_fragment_carries_frame_checksum:
  assumes "fragmentFcsInserterProcess FCS_COMPUTED p s = Inr (s', tr)" "fragmentTag p = Some t"
    and "firstFragment t \<longleftrightarrow> sent = []" "lastFragmentCompleteFcs s = ethernetCRC (bytesOf sent) 0" "length sent mod 8 = 0"
  shows "lastFragmentCompleteFcs (fragmentFcsProcessed s') = ethernetCRC (bytesOf (sent @ packetData p)) 0 \<and>
    (lastFragment t \<longrightarrow> fragFcs tr = ethernetCRC (bytesOf (sent @ packetData p)) 0)"
  using inserter_process(1,2) [OF _ assms(1,2)] assms(3-5)
  by (auto simp: usable_mode_def trailerFor_def fcsAfter_def completeFcs_def bytesOf_append crc_continues)

lemma last_fragment_carries_frame_checksum_witness:
  "\<exists>s' tr. fragmentFcsInserterProcess FCS_COMPUTED (markAsWhole (long_frame True)) newFragmentFcs = Inr (s', tr) \<and>
     lastFragmentCompleteFcs (fragmentFcsProcessed s') = ethernetCRC (bytesOf ([] @ packetData (markAsWhole (long_frame True)))) 0 \<and>
     (True \<longrightarrow> fragFcs tr = ethernetCRC (bytesOf ([] @ packetData (markAsWhole (long_frame True)))) 0)"
proof -
  have e: "ethernetCRC [] 0 = 0" by (simp add: ethernetCRC_def swap_bytes_def)
  obtain s' tr where r: "fragmentFcsInserterProcess FCS_COMPUTED (markAsWhole (long_frame True)) newFragmentFcs = Inr (s', tr)"
    by (simp add: fragmentFcsInserterProcess_def fragmentComputedFcs_def peekDataAsBytes_def markAsWhole_def long_frame_def Let_def)
  show ?thesis
    using last_fragment_carries_frame_checksum [OF r, of "tag_of_rest 0 True" "[]"] r
    by (simp add: markAsWhole_def long_frame_def newFragmentFcs_def e)
qed

section \<open>A link with losses\<close>

definition wire_demo :: "preamble_type \<Rightarrow> int \<Rightarrow> int \<Rightarrow> bool list \<Rightarrow> bool \<Rightarrow> wire_fragment" where
  "wire_demo ty smd n ds unfinished = \<lparr>wireName = ''bulk'', wireHeader = \<lparr>preambleType = ty, smdNumber = smd, phyFragmentNumber = n\<rparr>,
     headerDamaged = False, wireData = ds, wireTrailer = \<lparr>fragFcs = 0xC00DC00D, fragFcsMode = FCS_DECLARED_CORRECT, mCrc = unfinished\<rparr>,
     dataCorrect = True, bitErrorFlag = False\<rparr>"

lemmas receive_defs = receiveFragment_def phyCheckerMatches_def phyCheckerProcess_def fragmentFcsCheckerMatches_def
  fragmentFcsCheckerProcess_def tagDefragmenterPush_def defragmentPacket_def startDefragmentation_def
  continueDefragmentation_def endDefragmentation_def

text \<open>
  When the end of an interrupted frame is lost, the next frame is lost with it, even if it
  arrives whole and undamaged: the defragmenter still waits for the lost end, takes the beginning of
  the next frame for a fragment out of turn, and drops both.\<close>

theorem lost_end_costs_next_frame:
  assumes "0 < expectedFragmentNumber (rxDefragmenter y)" "defragmentedPacket (rxDefragmenter y) \<noteq> None"
    and "wireHeader w = \<lparr>preambleType = SMD_Sx, smdNumber = smd, phyFragmentNumber = 0\<rparr>" "smd \<noteq> chkSmdNumber (phyChecker y)"
    and "\<not> headerDamaged w" "dataCorrect w" "\<not> bitErrorFlag w"
    and "wireTrailer w = \<lparr>fragFcs = 0xC00DC00D, fragFcsMode = FCS_DECLARED_CORRECT, mCrc = False\<rparr>"
  shows "\<exists>y'. receiveFragment w y = Inr (y', None) \<and> rxDefragmenter y' = newDefragmenter"
  using assms by (simp add: receive_defs Let_def newDefragmenter_def)

lemma lost_end_costs_next_frame_witness:
  "\<exists>y0 y'. receiveFragment (wire_demo SMD_Sx 0 0 [True] True) newReceiver = Inr (y0, None) \<and>
     receiveFragment (wire_demo SMD_Sx 1 0 [False] False) y0 = Inr (y', None) \<and> rxDefragmenter y' = newDefragmenter"
proof -
  obtain y0 where y0: "receiveFragment (wire_demo SMD_Sx 0 0 [True] True) newReceiver = Inr (y0, None)"
    "0 < expectedFragmentNumber (rxDefragmenter y0)" "defragmentedPacket (rxDefragmenter y0) \<noteq> None" "chkSmdNumber (phyChecker y0) = 0"
    by (simp add: receive_defs wire_demo_def newReceiver_def newPhyChecker_def newDefragmenter_def)
  then show ?thesis
    using lost_end_costs_next_frame [OF y0(2,3), of "wire_demo SMD_Sx 1 0 [False] False" 1] by (simp add: wire_demo_def)
qed

text \<open>
  When the beginning of an interrupted frame is lost, what follows is delivered as if it were a
  whole frame: the checker of preambles takes every fragment with a new frame number for a first
  one, although its preamble says that it continues a frame, and the declared checksum does not
  tell.\<close>

theorem headless_frame_is_delivered:
  assumes "rxDefragmenter y = newDefragmenter"
    and "wireHeader w = \<lparr>preambleType = SMD_Cx, smdNumber = smd, phyFragmentNumber = 0\<rparr>" "smd \<noteq> chkSmdNumber (phyChecker y)"
    and "\<not> headerDamaged w" "dataCorrect w" "\<not> bitErrorFlag w" "wireData w \<noteq> []"
    and "wireTrailer w = \<lparr>fragFcs = 0xC00DC00D, fragFcsMode = FCS_DECLARED_CORRECT, mCrc = False\<rparr>"
  shows "\<exists>y' q. receiveFragment w y = Inr (y', Some q) \<and> packetData q = wireData w"
  using assms by (simp add: receive_defs Let_def newDefragmenter_def)

lemma headless_frame_is_delivered_witness:
  "\<exists>x' first rest y' q. sendAll short_fragments FCS_DECLARED_CORRECT (10 ^ 12) [(0, 20), (30, 60)] (newSender [long_frame True]) = Inr (x', [first, rest]) \<and>
     receiveFragment rest newReceiver = Inr (y', Some q) \<and> length (packetData q) = 24"
proof -
  have "\<exists>x' first rest. sendAll short_fragments FCS_DECLARED_CORRECT (10 ^ 12) [(0, 20), (30, 60)] (newSender [long_frame True]) = Inr (x', [first, rest]) \<and>
      wireHeader rest = \<lparr>preambleType = SMD_Cx, smdNumber = 0, phyFragmentNumber = 0\<rparr> \<and> \<not> headerDamaged rest \<and> dataCorrect rest \<and>
      \<not> bitErrorFlag rest \<and> length (wireData rest) = 24 \<and>
      wireTrailer rest = \<lparr>fragFcs = 0xC00DC00D, fragFcsMode = FCS_DECLARED_CORRECT, mCrc = False\<rparr>"
    by (simp add: newSender_def sendFragment_def preemptablePullStart_def preemptablePullEnd_def newStreamer_def markAsWhole_def
        long_frame_def short_fragments_def pulledLength_def preemptedLength_def cutPacket_def fragmentFcsInserterProcess_def
        phyInserterProcess_def phyInserterProcessed_def Let_def)
  then obtain x' first rest where run: "sendAll short_fragments FCS_DECLARED_CORRECT (10 ^ 12) [(0, 20), (30, 60)] (newSender [long_frame True]) = Inr (x', [first, rest])"
    and rest: "wireHeader rest = \<lparr>preambleType = SMD_Cx, smdNumber = 0, phyFragmentNumber = 0\<rparr>" "\<not> headerDamaged rest" "dataCorrect rest"
      "\<not> bitErrorFlag rest" "length (wireData rest) = 24"
      "wireTrailer rest = \<lparr>fragFcs = 0xC00DC00D, fragFcsMode = FCS_DECLARED_CORRECT, mCrc = False\<rparr>" by (elim exE conjE) (rule that)
  have "\<exists>y' q. receiveFragment rest newReceiver = Inr (y', Some q) \<and> packetData q = wireData rest"
    by (rule headless_frame_is_delivered [OF _ rest(1) _ rest(2-4) _ rest(6)])
      (use rest(5) in \<open>auto simp: newReceiver_def newPhyChecker_def\<close>)
  with run rest(5) show ?thesis by metis
qed

text \<open>
  Frame numbers count modulo four, and the preamble is not looked at: after the loss of three
  frames in a row the next one has the number of the last one received, is taken for its
  continuation, and is dropped, although it is whole and starts with the preamble of a new frame.\<close>

theorem three_losses_cost_a_fourth:
  assumes "rxDefragmenter y = newDefragmenter" "chkFragmentNumber (phyChecker y) = 0"
    and "wireHeader w = \<lparr>preambleType = SMD_Sx, smdNumber = chkSmdNumber (phyChecker y), phyFragmentNumber = 0\<rparr>"
    and "\<not> headerDamaged w" "dataCorrect w" "\<not> bitErrorFlag w"
    and "wireTrailer w = \<lparr>fragFcs = 0xC00DC00D, fragFcsMode = FCS_DECLARED_CORRECT, mCrc = False\<rparr>"
  shows "\<exists>y'. receiveFragment w y = Inr (y', None)"
  using assms by (simp add: receive_defs Let_def newDefragmenter_def)

lemma three_losses_cost_a_fourth_witness:
  "\<exists>y q y'. receiveFragment (wire_demo SMD_Sx 0 0 [True] False) newReceiver = Inr (y, Some q) \<and>
     receiveFragment (wire_demo SMD_Sx 0 0 [False] False) y = Inr (y', None)"
proof -
  obtain y q where y: "receiveFragment (wire_demo SMD_Sx 0 0 [True] False) newReceiver = Inr (y, Some q)"
    "rxDefragmenter y = newDefragmenter" "chkFragmentNumber (phyChecker y) = 0" "chkSmdNumber (phyChecker y) = 0"
    by (simp add: receive_defs wire_demo_def newReceiver_def newPhyChecker_def newDefragmenter_def)
  then show ?thesis
    using three_losses_cost_a_fourth [OF y(2,3), of "wire_demo SMD_Sx 0 0 [False] False"] by (auto simp: wire_demo_def)
qed

text \<open>
  When checksums are computed, the checker of fragments does not look at what marks a fragment
  as damaged: it accepts a marked fragment whenever it accepts the unmarked one, where the checker
  of whole frames refuses it.\<close>

theorem damage_marks_are_ignored:
  assumes "fragFcsMode (wireTrailer w) = FCS_COMPUTED"
  shows "fragmentFcsCheckerMatches isFirst (w\<lparr>dataCorrect := False, bitErrorFlag := True\<rparr>) s = fragmentFcsCheckerMatches isFirst w s"
  using assms by (simp add: fragmentFcsCheckerMatches_def)

lemma damage_marks_are_ignored_witness:
  "fragmentFcsCheckerMatches True ((wire_demo SMD_Sx 0 0 [] False)\<lparr>wireTrailer := \<lparr>fragFcs = 0, fragFcsMode = FCS_COMPUTED, mCrc = False\<rparr>,
      dataCorrect := False, bitErrorFlag := True\<rparr>) newFragmentFcs =
   fragmentFcsCheckerMatches True ((wire_demo SMD_Sx 0 0 [] False)\<lparr>wireTrailer := \<lparr>fragFcs = 0, fragFcsMode = FCS_COMPUTED, mCrc = False\<rparr>\<rparr>) newFragmentFcs"
  using damage_marks_are_ignored [of "(wire_demo SMD_Sx 0 0 [] False)\<lparr>wireTrailer := \<lparr>fragFcs = 0, fragFcsMode = FCS_COMPUTED, mCrc = False\<rparr>\<rparr>"]
  by simp
section \<open>Examples\<close>

definition streaming_demo :: "int \<Rightarrow> preemptable_streamer" where
  "streaming_demo n = \<lparr>streamStart = 0, streamDatarate = 10 ^ 12, streamedPacket = Some (markAsWhole (long_frame True)\<lparr>packetData := replicate (nat n) True\<rparr>),
     remainingPacket = None\<rparr>"

lemma preemption_is_prompt_witness:
  "\<exists>s' f. preemptablePullEnd short_fragments 20 (streaming_demo 48) = Inr (s', f) \<and>
     int (length (packetData f)) - pulledLength (10 ^ 12) 20 < 16 + max 16 8"
proof -
  obtain s' f where r: "preemptablePullEnd short_fragments 20 (streaming_demo 48) = Inr (s', f)"
    by (simp add: preemptablePullEnd_def streaming_demo_def short_fragments_def pulledLength_def preemptedLength_def cutPacket_def
        markAsWhole_def long_frame_def Let_def)
  from preemption_is_prompt [OF r] r show ?thesis by (auto simp: short_fragments_def streaming_demo_def)
qed

lemma cut_parts_are_long_enough_witness:
  "\<exists>s' f r. preemptablePullEnd short_fragments 20 (streaming_demo 48) = Inr (s', f) \<and> remainingPacket s' = Some r \<and>
     packetData f @ packetData r = replicate 48 True \<and> (16 :: int) \<le> int (length (packetData f)) \<and>
     (16 :: int) \<le> int (length (packetData r)) \<and> pulledLength (10 ^ 12) 20 \<le> int (length (packetData f))"
proof -
  obtain s' f r where x: "preemptablePullEnd short_fragments 20 (streaming_demo 48) = Inr (s', f)" "remainingPacket s' = Some r"
    by (simp add: preemptablePullEnd_def streaming_demo_def short_fragments_def pulledLength_def preemptedLength_def cutPacket_def
        markAsWhole_def long_frame_def Let_def)
  from cut_parts_are_long_enough [OF x] x show ?thesis by (auto simp: short_fragments_def streaming_demo_def markAsWhole_def long_frame_def)
qed
section \<open>The preamble as bytes\<close>

text \<open>\<open>EthernetFragmentPhyHeaderSerializer\<close>. An index past the end of a table is undefined behaviour in
  C++ and an error here; a value that is in no table has the index one past the end.\<close>

definition smdSxValues :: "8 word list" where "smdSxValues = [0xE6, 0x4C, 0x7F, 0xB3]"
definition smdCxValues :: "8 word list" where "smdCxValues = [0x61, 0x52, 0x9E, 0x2A]"
definition fragmentNumberValues :: "8 word list" where "fragmentNumberValues = [0xE6, 0x4C, 0x7F, 0xB3]"

definition value_at :: "8 word list \<Rightarrow> int \<Rightarrow> 8 word result" where
  "value_at vs i = (if 0 \<le> i \<and> i < int (length vs) then Inr (vs ! nat i) else Inl OutOfRange)"

definition index_of :: "8 word \<Rightarrow> 8 word list \<Rightarrow> int" where
  "index_of v vs = int (length (takeWhile (\<lambda>u. u \<noteq> v) vs))"

definition serializeFragmentPhyHeader :: "fragment_phy_header \<Rightarrow> ostream \<Rightarrow> ostream result" where
  "serializeFragmentPhyHeader h s =
     (let s1 = writeByteRepeatedly 0x55 (7 - (if preambleType h = SMD_Cx then 1 else 0)) s in
      case preambleType h of
        SFD \<Rightarrow> Inr (writeByte 0xD5 s1)
      | SMD_Verify \<Rightarrow> Inr (writeByte 0x07 s1)
      | SMD_Respond \<Rightarrow> Inr (writeByte 0x19 s1)
      | SMD_Sx \<Rightarrow> rbind (value_at smdSxValues (smdNumber h)) (\<lambda>v. Inr (writeByte v s1))
      | SMD_Cx \<Rightarrow>
          rbind (value_at smdCxValues (smdNumber h)) (\<lambda>v.
          rbind (value_at fragmentNumberValues (phyFragmentNumber h)) (\<lambda>u. Inr (writeByte u (writeByte v s1)))))"

text \<open>The header, and whether it was marked incorrect. In the last branch the byte that was read first
  is not used: a variable of the same name holds the byte after it.\<close>

definition deserializeFragmentPhyHeader :: "istream \<Rightarrow> (fragment_phy_header \<times> bool) \<times> istream" where
  "deserializeFragmentPhyHeader s =
     (let (okPreamble, s1) = readByteRepeatedly 0x55 6 s; (v, s2) = readByte s1; (u, s3) = readByte s2 in
      ((if v = 0x55
        then (if u = 0xD5 then \<lparr>preambleType = SFD, smdNumber = 0, phyFragmentNumber = 0\<rparr>
              else \<lparr>preambleType = SMD_Sx, smdNumber = index_of u smdSxValues, phyFragmentNumber = 0\<rparr>)
        else \<lparr>preambleType = SMD_Cx, smdNumber = index_of u smdCxValues, phyFragmentNumber = index_of u fragmentNumberValues\<rparr>,
        \<not> okPreamble), s3))"

definition overTheWire :: "fragment_phy_header \<Rightarrow> (fragment_phy_header \<times> bool) result" where
  "overTheWire h = rbind (serializeFragmentPhyHeader h emptyStream) (\<lambda>s. Inr (fst (deserializeFragmentPhyHeader (read_after emptyStream s))))"

lemma writeByteRepeatedly_bytes:
  "byte_aligned s \<Longrightarrow> writeByteRepeatedly v n s = append_bytes (replicate n v) s"
  by (induction n) (simp_all add: writeByteRepeatedly_def writeByte_bytes append_bytes_append replicate_append_same)

lemma readByteRepeatedly_bytes:
  "at_bytes r (replicate n v) \<Longrightarrow> readByteRepeatedly v n r = (True, skip_bytes n r)"
proof (induction n arbitrary: r)
  case (Suc n)
  then have "at_bytes r [v]" "at_bytes (skip_bytes 1 r) (replicate n v)"
    using at_bytes_append [of r "[v]" "replicate n v"] by simp_all
  then show ?case using Suc.IH by (simp add: readByte_bytes)
qed simp

lemma deserialize_bytes:
  assumes "at_bytes r (replicate 6 0x55 @ [v, u])"
  shows "fst (deserializeFragmentPhyHeader r) =
    (if v = 0x55
     then (if u = 0xD5 then \<lparr>preambleType = SFD, smdNumber = 0, phyFragmentNumber = 0\<rparr>
           else \<lparr>preambleType = SMD_Sx, smdNumber = index_of u smdSxValues, phyFragmentNumber = 0\<rparr>)
     else \<lparr>preambleType = SMD_Cx, smdNumber = index_of u smdCxValues, phyFragmentNumber = index_of u fragmentNumberValues\<rparr>, False)"
proof -
  from at_bytes_append [OF assms] have p: "at_bytes r (replicate 6 0x55)" and vu: "at_bytes (skip_bytes 6 r) ([v] @ [u])"
    by simp_all
  from at_bytes_append [OF vu] have "at_bytes (skip_bytes 6 r) [v]" "at_bytes (skip_bytes 7 r) [u]" by simp_all
  then show ?thesis
    by (simp add: deserializeFragmentPhyHeader_def readByteRepeatedly_bytes [OF p] readByte_bytes)
qed

lemma emptyStream_aligned: "byte_aligned emptyStream"
  by (simp add: byte_aligned_def emptyStream_def)

lemmas empty_deserialize = deserialize_bytes [OF read_after_append [OF emptyStream_aligned]]

lemma overTheWire_first:
  assumes "preambleType h \<noteq> SMD_Cx"
    "serializeFragmentPhyHeader h emptyStream = Inr (writeByte u (writeByteRepeatedly 0x55 7 emptyStream))" "u \<noteq> 0xD5"
  shows "overTheWire h = Inr (\<lparr>preambleType = SMD_Sx, smdNumber = index_of u smdSxValues, phyFragmentNumber = 0\<rparr>, False)"
proof -
  have "writeByte u (writeByteRepeatedly 0x55 7 emptyStream) = append_bytes (replicate 6 0x55 @ [0x55, u]) emptyStream"
    using emptyStream_aligned
    by (simp add: writeByteRepeatedly_bytes writeByte_bytes append_bytes_append) (simp add: numeral_eq_Suc)
  with assms show ?thesis using empty_deserialize [where v = "0x55" and u = u] by (simp add: overTheWire_def)
qed

lemma overTheWire_continuation:
  assumes "serializeFragmentPhyHeader h emptyStream = Inr (writeByte u (writeByte v (writeByteRepeatedly 0x55 6 emptyStream)))" "v \<noteq> 0x55"
  shows "overTheWire h = Inr (\<lparr>preambleType = SMD_Cx, smdNumber = index_of u smdCxValues, phyFragmentNumber = index_of u fragmentNumberValues\<rparr>, False)"
proof -
  have "writeByte u (writeByte v (writeByteRepeatedly 0x55 6 emptyStream)) = append_bytes (replicate 6 0x55 @ [v, u]) emptyStream"
    using emptyStream_aligned by (simp add: writeByteRepeatedly_bytes writeByte_bytes append_bytes_append)
  with assms show ?thesis using empty_deserialize [where v = v and u = u] by (simp add: overTheWire_def)
qed

text \<open>
  The preamble of a first fragment survives as bytes.\<close>

theorem first_preambles_survive:
  "list_all (\<lambda>smd. overTheWire \<lparr>preambleType = SMD_Sx, smdNumber = smd, phyFragmentNumber = 0\<rparr> =
     Inr (\<lparr>preambleType = SMD_Sx, smdNumber = smd, phyFragmentNumber = 0\<rparr>, False)) [0..3]"
  by (simp add: upto_rec1 overTheWire_first serializeFragmentPhyHeader_def value_at_def smdSxValues_def index_of_def)

text \<open>
  The preamble of every further fragment loses the number of its frame as bytes: it is read from
  the byte that holds the number of the fragment, and is always out of range.\<close>

theorem continuation_preambles_lose_frame:
  "list_all (\<lambda>(smd, n). overTheWire \<lparr>preambleType = SMD_Cx, smdNumber = smd, phyFragmentNumber = n\<rparr> =
     Inr (\<lparr>preambleType = SMD_Cx, smdNumber = 4, phyFragmentNumber = n\<rparr>, False)) (List.product [0..3] [0..3])"
  by (simp add: upto_rec1 overTheWire_continuation serializeFragmentPhyHeader_def value_at_def smdCxValues_def
      fragmentNumberValues_def index_of_def)

text \<open>
  The preambles that verify preemption at the start of a link come back as first fragments of
  frames with a number that is out of range.\<close>

theorem verify_preambles_change_type:
  "list_all (\<lambda>ty. overTheWire \<lparr>preambleType = ty, smdNumber = 0, phyFragmentNumber = 0\<rparr> =
     Inr (\<lparr>preambleType = SMD_Sx, smdNumber = 4, phyFragmentNumber = 0\<rparr>, False)) [SMD_Verify, SMD_Respond]"
  by (simp add: overTheWire_first serializeFragmentPhyHeader_def smdSxValues_def index_of_def)

end
