(* ===== verification/PreemptingMac.thy ===== *)
theory PreemptingMac
  imports FramePreemption
begin

text \<open>
  The sending side of a preempting link layer as one machine (\<open>EthernetPreemptingMacLayer\<close>): the queue
  and the \<open>PacketStreamer\<close> of express frames (\<open>inet/protocolelement/common/PacketStreamer.cc\<close>), the
  queue and the \<open>PreemptableStreamer\<close> of the other frames, the \<open>PriorityScheduler\<close> between them
  (\<open>inet/queueing/base/PacketSchedulerBase.cc\<close>) and the \<open>PreemptingServer\<close>
  (\<open>inet/queueing/server/PreemptingServer.cc\<close>) that pulls from it and pushes into the physical layer.

  The functions are the handlers of these modules; calls between modules are calls of the
  functions. What is pushed into the physical layer is returned. The flows in between (checksums)
  are those of \<open>FramePreemption\<close> and are left out here. The scheduler's \<open>inProgressStreamId\<close> is set
  and cleared together with \<open>inProgressGateIndex\<close> and is not a field of its own.
\<close>

section \<open>The machine\<close>

record pmac =
  expressQueue :: "frag_packet list"
  expressStreamed :: "frag_packet option"
  preemptableQueue :: "frag_packet list"
  macStreamer :: preemptable_streamer
  inProgressGateIndex :: int
  serverStreamed :: "frag_packet option"
  serverTimer :: "simtime option"

record server_config =
  datarate :: real
  streamerConfig :: streamer_config
  toTime :: "real \<Rightarrow> simtime"

datatype pushed = Started frag_packet | Ended frag_packet

definition newMac :: pmac where
  "newMac = \<lparr>expressQueue = [], expressStreamed = None, preemptableQueue = [], macStreamer = newStreamer,
     inProgressGateIndex = -1, serverStreamed = None, serverTimer = None\<rparr>"

section \<open>Streamers and scheduler\<close>

definition streamerCanPullSome :: "pmac \<Rightarrow> bool" where
  "streamerCanPullSome m \<longleftrightarrow> expressStreamed m = None \<and> expressQueue m \<noteq> []"

definition streamerPullStart :: "pmac \<Rightarrow> (pmac \<times> frag_packet) result" where
  "streamerPullStart m = (case expressQueue m of
     [] \<Rightarrow> Inl NullPointer
   | p # q \<Rightarrow> Inr (m\<lparr>expressQueue := q, expressStreamed := Some p\<rparr>, p))"

definition streamerPullEnd :: "pmac \<Rightarrow> (pmac \<times> frag_packet) result" where
  "streamerPullEnd m = (case expressStreamed m of None \<Rightarrow> Inl NullPointer | Some p \<Rightarrow> Inr (m\<lparr>expressStreamed := None\<rparr>, p))"

definition providersCanPull :: "pmac \<Rightarrow> bool list" where
  "providersCanPull m = [streamerCanPullSome m, preemptableCanPullSome (preemptableQueue m) (macStreamer m)]"

definition schedulePacket :: "pmac \<Rightarrow> nat result" where
  "schedulePacket m =
     rbind (callSchedulePacket 2 (prioritySchedule False (inProgressGateIndex m) (providersCanPull m), ())) (\<lambda>(i, _). Inr i)"

definition schedulerPullStart :: "real \<Rightarrow> simtime \<Rightarrow> pmac \<Rightarrow> (pmac \<times> frag_packet) result" where
  "schedulerPullStart rate now m =
     (if inProgressGateIndex m \<noteq> -1 then Inl (RuntimeError ''Another packet streaming operation is already in progress'')
      else rbind (schedulePacket m) (\<lambda>i.
        let m1 = m\<lparr>inProgressGateIndex := int i\<rparr> in
        if i = 0 then streamerPullStart m1
        else rbind (preemptablePullStart rate now (preemptableQueue m1, macStreamer m1)) (\<lambda>((q, s), p).
          Inr (m1\<lparr>preemptableQueue := q, macStreamer := s\<rparr>, p))))"

definition schedulerPullEnd :: "streamer_config \<Rightarrow> simtime \<Rightarrow> pmac \<Rightarrow> (pmac \<times> frag_packet) result" where
  "schedulerPullEnd c now m =
     rbind (if inProgressGateIndex m = -1 then rbind (schedulePacket m) (\<lambda>i. Inr (int i)) else Inr (inProgressGateIndex m)) (\<lambda>i.
     rbind (if i = 0 then streamerPullEnd m
            else rbind (preemptablePullEnd c now (macStreamer m)) (\<lambda>(s, p). Inr (m\<lparr>macStreamer := s\<rparr>, p))) (\<lambda>(m1, p).
       Inr (m1\<lparr>inProgressGateIndex := -1\<rparr>, p)))"

section \<open>The server\<close>

definition serverIsStreaming :: "pmac \<Rightarrow> bool" where
  "serverIsStreaming m \<longleftrightarrow> serverStreamed m \<noteq> None"

definition canStartStreaming :: "bool \<Rightarrow> pmac \<Rightarrow> bool" where
  "canStartStreaming ready m \<longleftrightarrow> list_ex id (providersCanPull m) \<and> ready"

definition startStreaming :: "server_config \<Rightarrow> simtime \<Rightarrow> pmac \<Rightarrow> (pmac \<times> pushed list) result" where
  "startStreaming c now m =
     rbind (schedulerPullStart (datarate c) now m) (\<lambda>(m1, p).
       Inr (m1\<lparr>serverStreamed := Some p, serverTimer := Some (now + toTime c (real (length (packetData p)) / datarate c))\<rparr>, [Started p]))"

definition endStreaming :: "server_config \<Rightarrow> simtime \<Rightarrow> pmac \<Rightarrow> (pmac \<times> pushed list) result" where
  "endStreaming c now m =
     rbind (schedulerPullEnd (streamerConfig c) now m) (\<lambda>(m1, p). Inr (m1\<lparr>serverStreamed := None\<rparr>, [Ended p]))"

definition handleTimer :: "server_config \<Rightarrow> simtime \<Rightarrow> pmac \<Rightarrow> (pmac \<times> pushed list) result" where
  "handleTimer c now m = endStreaming c now (m\<lparr>serverTimer := None\<rparr>)"

definition handleCanPushPacketChanged :: "server_config \<Rightarrow> bool \<Rightarrow> simtime \<Rightarrow> pmac \<Rightarrow> (pmac \<times> pushed list) result" where
  "handleCanPushPacketChanged c ready now m =
     (if \<not> serverIsStreaming m \<and> canStartStreaming ready m then startStreaming c now m else Inr (m, []))"

definition handleCanPullPacketChanged :: "server_config \<Rightarrow> bool \<Rightarrow> simtime \<Rightarrow> pmac \<Rightarrow> (pmac \<times> pushed list) result" where
  "handleCanPullPacketChanged c ready now m =
     (if serverIsStreaming m then rbind (endStreaming c now m) (\<lambda>(m1, out). Inr (m1\<lparr>serverTimer := None\<rparr>, out))
      else if canStartStreaming ready m then startStreaming c now m else Inr (m, []))"

definition handlePushPacketProcessed :: "server_config \<Rightarrow> simtime \<Rightarrow> pmac \<Rightarrow> pmac result" where
  "handlePushPacketProcessed c now m =
     (if serverIsStreaming m then rbind (schedulerPullEnd (streamerConfig c) now m) (\<lambda>(m1, p). Inr (m1\<lparr>serverStreamed := None\<rparr>))
      else Inr m)"

section \<open>Arrivals\<close>

text \<open>The scheduler tells the server only what changes its choice.\<close>

definition schedulerCanPullChanged :: "server_config \<Rightarrow> bool \<Rightarrow> simtime \<Rightarrow> pmac \<Rightarrow> (pmac \<times> pushed list) result" where
  "schedulerCanPullChanged c ready now m =
     (if inProgressGateIndex m = -1 then handleCanPullPacketChanged c ready now m
      else rbind (schedulePacket m) (\<lambda>i.
        if int i \<noteq> inProgressGateIndex m then handleCanPullPacketChanged c ready now m else Inr (m, [])))"

definition expressArrives :: "server_config \<Rightarrow> bool \<Rightarrow> simtime \<Rightarrow> frag_packet \<Rightarrow> pmac \<Rightarrow> (pmac \<times> pushed list) result" where
  "expressArrives c ready now p m =
     (let m1 = m\<lparr>expressQueue := expressQueue m @ [p]\<rparr> in
      if expressStreamed m1 = None then schedulerCanPullChanged c ready now m1 else Inr (m1, []))"

definition preemptableArrives :: "server_config \<Rightarrow> bool \<Rightarrow> simtime \<Rightarrow> frag_packet \<Rightarrow> pmac \<Rightarrow> (pmac \<times> pushed list) result" where
  "preemptableArrives c ready now p m =
     (let m1 = m\<lparr>preemptableQueue := preemptableQueue m @ [p]\<rparr> in
      if \<not> isStreaming (macStreamer m1) then schedulerCanPullChanged c ready now m1 else Inr (m1, []))"

section \<open>Invariant\<close>

text \<open>The server streams exactly when its timer runs, and then from exactly one streamer, the one the
  scheduler remembers.\<close>

definition mac_ok :: "pmac \<Rightarrow> bool" where
  "mac_ok m \<longleftrightarrow>
     (case serverStreamed m of
        None \<Rightarrow> serverTimer m = None \<and> inProgressGateIndex m = -1 \<and> expressStreamed m = None \<and> streamedPacket (macStreamer m) = None
      | Some _ \<Rightarrow> serverTimer m \<noteq> None \<and>
          (inProgressGateIndex m = 0 \<and> expressStreamed m \<noteq> None \<and> streamedPacket (macStreamer m) = None
           \<or> inProgressGateIndex m = 1 \<and> expressStreamed m = None \<and>
             (case streamedPacket (macStreamer m) of None \<Rightarrow> False | Some p \<Rightarrow> fragmentTag p \<noteq> None)))"

lemma schedule_two:
  "schedulePacket m =
     (if inProgressGateIndex m = 0 \<or> streamerCanPullSome m then Inr 0
      else if inProgressGateIndex m = 1 \<or> preemptableCanPullSome (preemptableQueue m) (macStreamer m) then Inr 1
      else Inl (RuntimeError ''Scheduled packet from invalid input gate''))"
  by (simp add: schedulePacket_def prioritySchedule_def getInputGateIndex_def providersCanPull_def callSchedulePacket_def
      upt_rec Let_def)

lemma endStreaming_ok:
  assumes "mac_ok m" "serverIsStreaming m"
  shows "\<exists>m1 p. endStreaming c now m = Inr (m1, [Ended p]) \<and> mac_ok (m1\<lparr>serverTimer := None\<rparr>) \<and> serverTimer m1 = serverTimer m"
  using assms
  by (auto simp: mac_ok_def serverIsStreaming_def endStreaming_def schedulerPullEnd_def streamerPullEnd_def preemptablePullEnd_def
      cutPacket_def Let_def split: option.splits)

lemma startStreaming_ok:
  assumes "mac_ok m" "\<not> serverIsStreaming m" "canStartStreaming ready m"
  shows "case startStreaming c now m of Inl _ \<Rightarrow> False | Inr (m1, out) \<Rightarrow>
    mac_ok m1 \<and> serverIsStreaming m1 \<and> (\<exists>p. out = [Started p]) \<and>
    (expressQueue m \<noteq> [] \<longrightarrow> out = [Started (hd (expressQueue m))])"
  using assms
  by (auto simp: mac_ok_def serverIsStreaming_def canStartStreaming_def providersCanPull_def startStreaming_def schedulerPullStart_def
      schedule_two streamerCanPullSome_def streamerPullStart_def preemptableCanPullSome_def isStreaming_def preemptablePullStart_def
      markAsWhole_def Let_def split: option.splits list.splits)

text \<open>What a handler does to a good machine: it succeeds and leaves a good machine.\<close>

definition keeps_mac_ok :: "(pmac \<times> pushed list) result \<Rightarrow> bool" where
  "keeps_mac_ok r \<longleftrightarrow> (case r of Inl _ \<Rightarrow> False | Inr (m, out) \<Rightarrow> mac_ok m)"

lemma keeps_mac_ok_simps [simp]: "keeps_mac_ok (Inr (m, out)) = mac_ok m" "\<not> keeps_mac_ok (Inl e)"
  by (simp_all add: keeps_mac_ok_def)

lemma mac_ok_queues [simp]:
  "mac_ok (m\<lparr>expressQueue := q\<rparr>) = mac_ok m" "mac_ok (m\<lparr>preemptableQueue := q\<rparr>) = mac_ok m"
  by (simp_all add: mac_ok_def split: option.splits)

lemma keeps_start:
  "mac_ok m \<Longrightarrow> \<not> serverIsStreaming m \<Longrightarrow> canStartStreaming ready m \<Longrightarrow> keeps_mac_ok (startStreaming c now m)"
  using startStreaming_ok [of m ready c now] by (auto simp: keeps_mac_ok_def split: sum.splits)

lemma keeps_can_push: "mac_ok m \<Longrightarrow> keeps_mac_ok (handleCanPushPacketChanged c ready now m)"
  by (auto simp: handleCanPushPacketChanged_def intro: keeps_start)

lemma keeps_can_pull: "mac_ok m \<Longrightarrow> keeps_mac_ok (handleCanPullPacketChanged c ready now m)"
  using endStreaming_ok [of m c now] by (auto simp: handleCanPullPacketChanged_def intro: keeps_start)

lemma keeps_scheduler: "mac_ok m \<Longrightarrow> keeps_mac_ok (schedulerCanPullChanged c ready now m)"
  by (auto simp: schedulerCanPullChanged_def schedule_two keeps_can_pull)
    (auto simp: mac_ok_def split: option.splits)

datatype mac_event =
    ExpressFrame frag_packet | PreemptableFrame frag_packet | CanPush bool | PacketProcessed | Timer

definition mac_handle :: "server_config \<Rightarrow> bool \<Rightarrow> simtime \<Rightarrow> mac_event \<Rightarrow> pmac \<Rightarrow> (pmac \<times> pushed list) result" where
  "mac_handle c ready now e m = (case e of
     ExpressFrame p \<Rightarrow> expressArrives c ready now p m
   | PreemptableFrame p \<Rightarrow> preemptableArrives c ready now p m
   | CanPush r \<Rightarrow> handleCanPushPacketChanged c r now m
   | PacketProcessed \<Rightarrow> rbind (handlePushPacketProcessed c now m) (\<lambda>m1. Inr (m1, []))
   | Timer \<Rightarrow> if serverTimer m = None then Inr (m, []) else handleTimer c now m)"

lemma keeps_timer:
  assumes "mac_ok m" "serverTimer m \<noteq> None"
  shows "keeps_mac_ok (handleTimer c now m)"
  using assms
  by (auto simp: mac_ok_def handleTimer_def endStreaming_def schedulerPullEnd_def streamerPullEnd_def preemptablePullEnd_def
      cutPacket_def Let_def split: option.splits)

text \<open>What the report that a packet was processed does to a good machine.\<close>

lemma processed_while_streaming:
  assumes "mac_ok m" "serverIsStreaming m"
  shows "\<exists>m1. handlePushPacketProcessed c now m = Inr m1 \<and> \<not> serverIsStreaming m1 \<and> serverTimer m1 \<noteq> None \<and>
    inProgressGateIndex m1 = -1 \<and> expressStreamed m1 = None \<and> streamedPacket (macStreamer m1) = None"
  using assms
  by (auto simp: mac_ok_def serverIsStreaming_def handlePushPacketProcessed_def schedulerPullEnd_def streamerPullEnd_def
      preemptablePullEnd_def cutPacket_def Let_def split: option.splits)

lemma handle_keeps:
  "mac_ok m \<Longrightarrow> e \<noteq> PacketProcessed \<Longrightarrow> keeps_mac_ok (mac_handle c ready now e m)"
  by (cases e)
    (auto simp: mac_handle_def expressArrives_def preemptableArrives_def Let_def keeps_scheduler keeps_can_push keeps_timer)

text \<open>
  C23. The machine never fails: whatever frames arrive, whenever the physical layer becomes ready or
  reports a packet as processed and whenever the timer fires, no handler of a good machine throws or
  dereferences a null pointer. The server, the scheduler and the two streamers keep agreeing on what
  is being streamed, with one exception: the report while a frame is being streamed ends the frame but
  leaves its timer running (\<open>processed_packet_leaves_timer\<close> shows what follows).\<close>

theorem preempting_mac_never_fails:
  assumes "mac_ok m"
  shows "\<exists>m1 out. mac_handle c ready now e m = Inr (m1, out) \<and> (mac_ok m1 \<longleftrightarrow> \<not> (e = PacketProcessed \<and> serverIsStreaming m))"
proof (cases "e = PacketProcessed")
  case True
  then show ?thesis
    using processed_while_streaming [OF assms, of c now] assms
    by (cases "serverIsStreaming m") (auto simp: mac_handle_def mac_ok_def serverIsStreaming_def handlePushPacketProcessed_def)
next
  case False
  then show ?thesis using handle_keeps [OF assms False, of c ready now] by (auto simp: keeps_mac_ok_def split: sum.splits)
qed

lemma newMac_ok: "mac_ok newMac"
  by (simp add: mac_ok_def newMac_def newStreamer_def)

section \<open>Who interrupts whom\<close>

lemma end_of_preemptable:
  assumes "mac_ok m" "inProgressGateIndex m = 1"
  shows "\<exists>s f. preemptablePullEnd (streamerConfig c) now (macStreamer m) = Inr (s, f) \<and>
    handleCanPullPacketChanged c ready now m =
      Inr (m\<lparr>macStreamer := s, inProgressGateIndex := -1, serverStreamed := None, serverTimer := None\<rparr>, [Ended f])"
  using assms
  by (auto simp: mac_ok_def handleCanPullPacketChanged_def serverIsStreaming_def endStreaming_def schedulerPullEnd_def
      preemptablePullEnd_def cutPacket_def Let_def split: option.splits)

text \<open>
  C12. An express frame that arrives while another frame is being sent interrupts it at once: the
  frame is ended with at most about two minimal fragments left to send, and as soon as the physical
  layer is ready again the next frame that starts is an express frame.\<close>

theorem express_frames_preempt:
  assumes "mac_ok m" "inProgressGateIndex m = 1" "0 < roundingLength (streamerConfig c)" "0 < minPacketLength (streamerConfig c)"
    and "0 \<le> streamDatarate (macStreamer m)" "streamStart (macStreamer m) \<le> now"
  shows "\<exists>m1 f m2. expressArrives c ready now p m = Inr (m1, [Ended f]) \<and>
    int (length (packetData f)) - pulledLength (streamDatarate (macStreamer m)) (now - streamStart (macStreamer m))
      < minPacketLength (streamerConfig c) + max (minPacketLength (streamerConfig c)) (roundingLength (streamerConfig c)) \<and>
    handleCanPushPacketChanged c True soon m1 = Inr (m2, [Started (hd (expressQueue m @ [p]))])"
proof -
  let ?m = "m\<lparr>expressQueue := expressQueue m @ [p]\<rparr>"
  have idle: "expressStreamed m = None" using assms(1,2) by (auto simp: mac_ok_def split: option.splits)
  then have arr: "expressArrives c ready now p m = handleCanPullPacketChanged c ready now ?m"
    using assms(2) by (simp add: expressArrives_def schedulerCanPullChanged_def schedule_two streamerCanPullSome_def)
  obtain s f where sf: "preemptablePullEnd (streamerConfig c) now (macStreamer m) = Inr (s, f)" and
    stop: "handleCanPullPacketChanged c ready now ?m =
      Inr (?m\<lparr>macStreamer := s, inProgressGateIndex := -1, serverStreamed := None, serverTimer := None\<rparr>, [Ended f])"
    using end_of_preemptable [of ?m c now ready] assms(1,2) by auto
  let ?m1 = "?m\<lparr>macStreamer := s, inProgressGateIndex := -1, serverStreamed := None, serverTimer := None\<rparr>"
  have ok: "mac_ok ?m1" using keeps_can_pull [of ?m c ready now] stop assms(1) by simp
  have "canStartStreaming True ?m1" using idle by (simp add: canStartStreaming_def providersCanPull_def streamerCanPullSome_def)
  with startStreaming_ok [OF ok, of True c soon]
  have "\<exists>m2. handleCanPushPacketChanged c True soon ?m1 = Inr (m2, [Started (hd (expressQueue m @ [p]))])"
    by (auto simp: handleCanPushPacketChanged_def serverIsStreaming_def split: sum.splits)
  moreover have "int (length (packetData f)) - pulledLength (streamDatarate (macStreamer m)) (now - streamStart (macStreamer m))
      < minPacketLength (streamerConfig c) + max (minPacketLength (streamerConfig c)) (roundingLength (streamerConfig c))"
    by (rule bits_left_bound [OF sf assms(3-6)])
  ultimately show ?thesis using arr stop by auto
qed

text \<open>
  Nothing else is interrupted: a frame of low priority never ends what is being sent, and an
  express frame does not end another express frame. Both just wait in their queues.\<close>

theorem only_express_interrupts:
  assumes "mac_ok m" "serverIsStreaming m"
  shows "preemptableArrives c ready now p m = Inr (m\<lparr>preemptableQueue := preemptableQueue m @ [p]\<rparr>, []) \<and>
    (inProgressGateIndex m = 0 \<longrightarrow> expressArrives c ready now p m = Inr (m\<lparr>expressQueue := expressQueue m @ [p]\<rparr>, []))"
  using assms
  by (auto simp: mac_ok_def serverIsStreaming_def preemptableArrives_def expressArrives_def isStreaming_def
      schedulerCanPullChanged_def schedule_two Let_def split: option.splits)

lemma timer_without_packet:
  assumes "inProgressGateIndex m = -1" "expressStreamed m = None" "streamedPacket (macStreamer m) = None"
  shows "\<exists>e. handleTimer c now m = Inl e"
  using assms by (simp add: handleTimer_def endStreaming_def schedulerPullEnd_def streamerPullEnd_def preemptablePullEnd_def schedule_two)

text \<open>
  When the physical layer reports that it is done with a packet the server still streams, the
  server drops the packet but leaves its timer running: when the timer fires there is nothing to
  end, and the simulation stops with an error, whatever waits in the queues.\<close>

theorem processed_packet_leaves_timer:
  assumes "mac_ok m" "serverIsStreaming m"
  shows "\<exists>m1 e. handlePushPacketProcessed c now m = Inr m1 \<and> \<not> serverIsStreaming m1 \<and> serverTimer m1 \<noteq> None \<and>
    handleTimer c soon m1 = Inl e"
  using processed_while_streaming [OF assms] timer_without_packet by metis

section \<open>Examples\<close>

definition mac_demo_config :: server_config where
  "mac_demo_config = \<lparr>datarate = 10 ^ 12, streamerConfig = short_fragments, toTime = (\<lambda>t. \<lfloor>t * 10 ^ 12\<rfloor>)\<rparr>"

definition busy_mac :: pmac where
  "busy_mac = newMac\<lparr>macStreamer := streaming_demo 48, inProgressGateIndex := 1, serverStreamed := Some (long_frame True), serverTimer := Some 48\<rparr>"

lemma busy_mac_ok: "mac_ok busy_mac" "serverIsStreaming busy_mac" "inProgressGateIndex busy_mac = 1"
  by (simp_all add: mac_ok_def serverIsStreaming_def busy_mac_def newMac_def streaming_demo_def markAsWhole_def long_frame_def)

lemma preempting_mac_never_fails_witness:
  "(\<exists>m1 out. mac_handle mac_demo_config True 0 (ExpressFrame (long_frame True)) newMac = Inr (m1, out) \<and> mac_ok m1) \<and>
   (\<exists>m1 out. mac_handle mac_demo_config True 20 PacketProcessed busy_mac = Inr (m1, out) \<and> \<not> mac_ok m1)"
  using preempting_mac_never_fails [OF newMac_ok, of mac_demo_config True 0 "ExpressFrame (long_frame True)"]
    preempting_mac_never_fails [OF busy_mac_ok(1), of mac_demo_config True 20 PacketProcessed]
  by (auto simp: busy_mac_ok(2))

lemma express_frames_preempt_witness:
  "\<exists>m1 f m2. expressArrives mac_demo_config True 20 (long_frame False) busy_mac = Inr (m1, [Ended f]) \<and>
     int (length (packetData f)) - pulledLength (10 ^ 12) 20 < 16 + max 16 8 \<and>
     handleCanPushPacketChanged mac_demo_config True 30 m1 = Inr (m2, [Started (long_frame False)])"
  using express_frames_preempt [OF busy_mac_ok(1,3), of mac_demo_config 20 True "long_frame False" 30]
  by (simp add: mac_demo_config_def short_fragments_def busy_mac_def newMac_def streaming_demo_def)

lemma only_express_interrupts_witness:
  "preemptableArrives mac_demo_config True 20 (long_frame False) busy_mac = Inr (busy_mac\<lparr>preemptableQueue := [long_frame False]\<rparr>, [])"
  using only_express_interrupts [OF busy_mac_ok(1,2), of mac_demo_config True 20 "long_frame False"]
  by (simp add: busy_mac_def newMac_def)

lemma processed_packet_leaves_timer_witness:
  "\<exists>m1 e. handlePushPacketProcessed mac_demo_config 20 busy_mac = Inr m1 \<and> \<not> serverIsStreaming m1 \<and> serverTimer m1 \<noteq> None \<and>
     handleTimer mac_demo_config 48 m1 = Inl e"
  by (rule processed_packet_leaves_timer [OF busy_mac_ok(1,2)])

end
