(* ===== verification/PlatoonBeacons.thy ===== *)
theory PlatoonBeacons
  imports PlatoonPositions
begin

text \<open>
  The protocols that beacon the state of a vehicle to its platoon
  (\<open>plexe/protocols/BaseProtocol.cc\<close>, \<open>SlottedBeaconing.cc\<close>, \<open>SimplePlatooningBeaconing.cc\<close>,
  \<open>HumanInterferingProtocol.cc\<close>).

  \<^item> The fields of a subclass extend the record of the base class, and the methods a subclass
    overrides are arguments of the methods that call them.
  \<^item> A self message is the time it is scheduled for, if it is; scheduling it twice or in the past
    is an error of the simulator.
  \<^item> A gate of the protocol is named by its array and index; gates of applications are numbers.
\<close>

section \<open>Data\<close>

text \<open>What SUMO answers about a vehicle (\<open>VEHICLE_DATA\<close> of \<open>CC_Const.h\<close>).\<close>

record vehicle_data =
  dataIndex :: int
  dataSpeed :: real
  dataAcceleration :: real
  dataPositionX :: real
  dataPositionY :: real
  dataTime :: real
  dataLength :: real
  dataU :: real
  dataSpeedX :: real
  dataSpeedY :: real
  dataAngle :: real

record platooning_beacon =
  vehicleId :: int
  controllerAcceleration :: real
  acceleration :: real
  speed :: real
  positionX :: real
  positionY :: real
  beaconTime :: real
  sequenceNumber :: int
  beaconLength :: real
  speedX :: real
  speedY :: real
  angle :: real

datatype payload = PlatooningBeacon platooning_beacon | InterferingBeacon real int | OtherPacket nat

record radio_msg =
  msgKind :: int
  recipientAddress :: int
  userPriority :: int
  byteLength :: int
  encapsulated :: "payload option"
  controlInterfaces :: "int option"      \<comment> \<open>a \<open>PlexeInterfaceControlInfo\<close>, if there is one\<close>

datatype this_gate = UpperLayerIn nat | UpperLayerOut nat | UpperControlIn nat | UpperControlOut nat

record app_gates =
  upperIn :: this_gate
  upperOut :: this_gate
  upperCntIn :: this_gate
  upperCntOut :: this_gate

record base_protocol =
  busyTime :: simtime
  nCollisions :: int
  startBusy :: simtime
  channelBusy :: bool
  lastLeaderMsgTime :: simtime
  lastFrontMsgTime :: simtime
  radioOuts :: "(int, nat) mapping"
  radioIns :: "(int, int) mapping"
  knownBeacons :: "(int, int) mapping"
  protocolId :: int                       \<comment> \<open>\<open>myId\<close>\<close>
  seq_n :: int
  vehicleLength :: real
  beaconingInterval :: simtime
  messagePriority :: int
  packetSize :: int
  upperIds :: "int \<times> int"                 \<comment> \<open>\<open>minUpperId\<close>, \<open>maxUpperId\<close>\<close>
  upperControlIds :: "int \<times> int"
  radioIds :: "int \<times> int"
  apps :: "(int, app_gates list) mapping"
  usedGates :: nat
  connections :: "(nat, this_gate) mapping"
  sendBeacon :: "simtime option"
  recordData :: "simtime option"

datatype protocol_action =
    RecordNodeId int
  | RecordBusyTime simtime
  | RecordCollisions int
  | RecordLeaderDelay simtime int
  | RecordFrontDelay simtime int
  | SendRadio nat radio_msg
  | SendApp this_gate radio_msg

datatype self_msg = BeaconTimer | RecordTimer

definition MAX_GATES_COUNT :: nat where "MAX_GATES_COUNT = 10"
definition BEACON_TYPE :: int where "BEACON_TYPE = 12345"

definition ALL_INTERFACES :: int where "ALL_INTERFACES = 65535"
definition VEINS_11P :: int where "VEINS_11P = 1"

definition L2BROADCAST :: int where "L2BROADCAST = -1"

section \<open>Scheduling\<close>

definition scheduleBeacon :: "simtime \<Rightarrow> simtime \<Rightarrow> 'a base_protocol_scheme \<Rightarrow> 'a base_protocol_scheme result" where
  "scheduleBeacon now t p =
     (if t < now then Inl (RuntimeError ''Cannot schedule message to the past'')
      else if sendBeacon p \<noteq> None then Inl (RuntimeError ''Message is already scheduled'')
      else Inr (p\<lparr>sendBeacon := Some t\<rparr>))"

definition scheduleRecord :: "simtime \<Rightarrow> simtime \<Rightarrow> 'a base_protocol_scheme \<Rightarrow> 'a base_protocol_scheme result" where
  "scheduleRecord now t p =
     (if t < now then Inl (RuntimeError ''Cannot schedule message to the past'')
      else if recordData p \<noteq> None then Inl (RuntimeError ''Message is already scheduled'')
      else Inr (p\<lparr>recordData := Some t\<rparr>))"

section \<open>\<open>BaseProtocol\<close>\<close>

text \<open>
  A radio is its device type at the output, the identifier of its input gate, and its device type
  there; its index is its place in the list. The identifiers of the gates of applications are
  arguments.
\<close>

definition storeRadio :: "'a base_protocol_scheme \<Rightarrow> nat \<times> int \<times> int \<times> int \<Rightarrow> 'a base_protocol_scheme" where
  "storeRadio p r =
     (case r of (i, outType, inId, inType) \<Rightarrow>
        p\<lparr>radioOuts := Mapping.update outType i (radioOuts p), radioIns := Mapping.update inId inType (radioIns p)\<rparr>)"

definition baseInitialize0 ::
  "simtime \<Rightarrow> simtime \<Rightarrow> int \<Rightarrow> int \<Rightarrow> int \<times> int \<Rightarrow> int \<times> int \<Rightarrow> (int \<times> int \<times> int) list \<Rightarrow>
   'a base_protocol_scheme \<Rightarrow> 'a base_protocol_scheme result" where
  "baseInitialize0 now interval bytes prio upper control radios p =
     (let p1 = p\<lparr>sendBeacon := None, channelBusy := False, nCollisions := 0, busyTime := 0, seq_n := 0, recordData := None,
                upperIds := upper, upperControlIds := control\<rparr> in
      rbind (if radios = [] then Inl (RuntimeError ''gate index out of range'') else Inr ()) (\<lambda>_.
      let p2 = p1\<lparr>radioIds := (fst (snd (hd radios)), fst (snd (List.last radios)))\<rparr>;
          p3 = foldl storeRadio p2 (zip [0..<length radios] radios);
          p4 = p3\<lparr>beaconingInterval := interval, packetSize := bytes, messagePriority := prio\<rparr> in
      rbind (ensure (0 \<le> prio \<and> prio \<le> 7)) (\<lambda>_.
      scheduleRecord now ((now div simtime_s 1 + 1) * simtime_s 1)
        (p4\<lparr>lastLeaderMsgTime := - simtime_s 1, lastFrontMsgTime := - simtime_s 1\<rparr>))))"

definition baseInitialize1 :: "position_helper \<Rightarrow> real \<Rightarrow> 'a base_protocol_scheme \<Rightarrow> 'a base_protocol_scheme" where
  "baseInitialize1 h len p = p\<lparr>protocolId := myId h, vehicleLength := len\<rparr>"

text \<open>The message that arrives is no longer scheduled.\<close>

definition baseHandleSelfMsg ::
  "simtime \<Rightarrow> self_msg \<Rightarrow> 'a base_protocol_scheme \<Rightarrow> ('a base_protocol_scheme \<times> protocol_action list) result" where
  "baseHandleSelfMsg now m p =
     (case m of
        BeaconTimer \<Rightarrow> Inr (p\<lparr>sendBeacon := None\<rparr>, [])
      | RecordTimer \<Rightarrow>
          (let p1 = p\<lparr>recordData := None\<rparr>;
               p2 = (if channelBusy p1 then p1\<lparr>busyTime := busyTime p1 + (now - startBusy p1), startBusy := now\<rparr> else p1) in
           rbind (scheduleRecord now (now + simtime_s 1) (p2\<lparr>busyTime := 0, nCollisions := 0\<rparr>)) (\<lambda>p3.
             Inr (p3, [RecordNodeId (protocolId p2), RecordBusyTime (busyTime p2), RecordCollisions (nCollisions p2)]))))"

definition sendTo :: "radio_msg \<Rightarrow> int \<Rightarrow> 'a base_protocol_scheme \<Rightarrow> protocol_action list" where
  "sendTo frame interfaces p =
     map (\<lambda>i. SendRadio (the (Mapping.lookup (radioOuts p) i)) frame)
       (filter (\<lambda>i. and i interfaces \<noteq> 0) (Mapping.ordered_keys (radioOuts p)))"

definition createBeacon :: "vehicle_data \<Rightarrow> int \<Rightarrow> 'a base_protocol_scheme \<Rightarrow> radio_msg \<times> 'a base_protocol_scheme" where
  "createBeacon d destinationAddress p =
     (\<lparr>msgKind = BEACON_TYPE, recipientAddress = L2BROADCAST, userPriority = messagePriority p, byteLength = packetSize p,
       encapsulated = Some (PlatooningBeacon
         \<lparr>vehicleId = protocolId p, controllerAcceleration = dataU d, acceleration = dataAcceleration d, speed = dataSpeed d,
          positionX = dataPositionX d, positionY = dataPositionY d, beaconTime = dataTime d, sequenceNumber = seq_n p,
          beaconLength = vehicleLength p, speedX = dataSpeedX d, speedY = dataSpeedY d, angle = dataAngle d\<rparr>),
       controlInterfaces = None\<rparr>,
      p\<lparr>seq_n := seq_n p + 1\<rparr>)"

definition sendPlatooningMessage ::
  "vehicle_data \<Rightarrow> int \<Rightarrow> int \<Rightarrow> 'a base_protocol_scheme \<Rightarrow> 'a base_protocol_scheme \<times> protocol_action list" where
  "sendPlatooningMessage d destinationAddress interfaces p =
     (case createBeacon d destinationAddress p of (f, p1) \<Rightarrow> (p1, sendTo f interfaces p1))"

definition isDuplicated :: "platooning_beacon \<Rightarrow> 'a base_protocol_scheme \<Rightarrow> bool" where
  "isDuplicated b p =
     (case Mapping.lookup (knownBeacons p) (vehicleId b) of None \<Rightarrow> False | Some n \<Rightarrow> \<not> n < sequenceNumber b)"

datatype mac_signal = SigChannelBusy | SigCollision

definition channelSignal :: "simtime \<Rightarrow> mac_signal \<Rightarrow> bool \<Rightarrow> 'a base_protocol_scheme \<Rightarrow> 'a base_protocol_scheme" where
  "channelSignal now s v p =
     (if s = SigChannelBusy \<and> v \<and> \<not> channelBusy p then p\<lparr>startBusy := now, channelBusy := True\<rparr>
      else if s = SigChannelBusy \<and> \<not> v \<and> channelBusy p
      then p\<lparr>busyTime := busyTime p + (now - startBusy p), channelBusy := False\<rparr>
      else if s = SigCollision then p\<lparr>nCollisions := nCollisions p + 1\<rparr>
      else p)"

text \<open>The two delays that are recorded for a beacon.\<close>

definition recordLeader :: "simtime \<Rightarrow> position_helper \<Rightarrow> platooning_beacon \<Rightarrow> 'a base_protocol_scheme \<Rightarrow> 'a base_protocol_scheme \<times> protocol_action list" where
  "recordLeader now h b p =
     (if leaderId h = vehicleId b
      then (p\<lparr>lastLeaderMsgTime := now\<rparr>,
            if 0 < lastLeaderMsgTime p then [RecordLeaderDelay (now - lastLeaderMsgTime p) (protocolId p)] else [])
      else (p, []))"

definition recordFront :: "simtime \<Rightarrow> position_helper \<Rightarrow> platooning_beacon \<Rightarrow> 'a base_protocol_scheme \<Rightarrow> 'a base_protocol_scheme \<times> protocol_action list" where
  "recordFront now h b p =
     (if getFrontId h = vehicleId b
      then (p\<lparr>lastFrontMsgTime := now\<rparr>,
            if 0 < lastFrontMsgTime p then [RecordFrontDelay (now - lastFrontMsgTime p) (protocolId p)] else [])
      else (p, []))"

definition forwardToApps :: "radio_msg \<Rightarrow> 'a base_protocol_scheme \<Rightarrow> protocol_action list" where
  "forwardToApps f p =
     (case Mapping.lookup (apps p) (msgKind f) of None \<Rightarrow> [] | Some as \<Rightarrow> map (\<lambda>a. SendApp (upperOut a) f) as)"

text \<open>
  The argument \<open>received\<close> is the method \<open>messageReceived\<close> of the subclass. A frame that holds
  nothing fails the assertion.
\<close>

definition protocolLowerMsg ::
  "(platooning_beacon \<Rightarrow> 'a base_protocol_scheme \<Rightarrow> 'a base_protocol_scheme result) \<Rightarrow> simtime \<Rightarrow> position_helper \<Rightarrow> radio_msg \<Rightarrow>
   'a base_protocol_scheme \<Rightarrow> ('a base_protocol_scheme \<times> protocol_action list) result" where
  "protocolLowerMsg received now h f p =
     (case encapsulated f of
        None \<Rightarrow> Inl AssertionFailed
      | Some (PlatooningBeacon b) \<Rightarrow>
          if isDuplicated b p then Inr (p, [])
          else rbind (received b (p\<lparr>knownBeacons := Mapping.update (vehicleId b) (sequenceNumber b) (knownBeacons p)\<rparr>)) (\<lambda>p1.
            case recordLeader now h b p1 of (p2, as1) \<Rightarrow>
            case recordFront now h b p2 of (p3, as2) \<Rightarrow>
              Inr (p3, as1 @ as2 @ forwardToApps f p3))
      | Some _ \<Rightarrow> Inr (p, forwardToApps f p))"

definition handleUpperMsg :: "radio_msg \<Rightarrow> 'a base_protocol_scheme \<Rightarrow> protocol_action list" where
  "handleUpperMsg f p = sendTo f (case controlInterfaces f of Some i \<Rightarrow> i | None \<Rightarrow> VEINS_11P) p"

definition baseMessageReceived :: "platooning_beacon \<Rightarrow> 'a base_protocol_scheme \<Rightarrow> 'a base_protocol_scheme result" where
  "baseMessageReceived b p = Inr p"

definition between :: "int \<times> int \<Rightarrow> int \<Rightarrow> bool" where
  "between r i \<longleftrightarrow> fst r \<le> i \<and> i \<le> snd r"

text \<open>Which handler a message on a gate is given to; other messages belong to the layer below.\<close>

datatype arrival = ArriveUpper | ArriveUpperControl | ArriveRadio | ArriveElsewhere

definition beaconArrival :: "int \<Rightarrow> 'a base_protocol_scheme \<Rightarrow> arrival" where
  "beaconArrival gateId p =
     (if between (upperIds p) gateId then ArriveUpper
      else if between (upperControlIds p) gateId then ArriveUpperControl
      else if between (radioIds p) gateId then ArriveRadio
      else ArriveElsewhere)"

section \<open>Registration of applications\<close>

text \<open>
  \<open>wired\<close> lists the gates of applications that are connected. The gates of an application are
  given in the order of the arguments: input, output, control input, control output.
\<close>

definition connectionOf :: "nat \<Rightarrow> 'a base_protocol_scheme \<Rightarrow> this_gate result" where
  "connectionOf g p =
     (case Mapping.lookup (connections p) g of
        None \<Rightarrow> Inl (RuntimeError ''BaseProtocol: gate should already be connected by not found in the connection list'')
      | Some t \<Rightarrow> Inr t)"

definition addApp :: "int \<Rightarrow> app_gates \<Rightarrow> 'a base_protocol_scheme \<Rightarrow> 'a base_protocol_scheme" where
  "addApp k a p = p\<lparr>apps := Mapping.update k (Mapping.lookup_default [] (apps p) k @ [a]) (apps p)\<rparr>"

definition registerApplication ::
  "int \<Rightarrow> nat \<Rightarrow> nat \<Rightarrow> nat \<Rightarrow> nat \<Rightarrow> nat list \<Rightarrow> 'a base_protocol_scheme \<Rightarrow> (nat list \<times> 'a base_protocol_scheme) result" where
  "registerApplication k appIn appOut appCntIn appCntOut wired p =
     (let n = usedGates p; gs = [appIn, appOut, appCntIn, appCntOut] in
      if n = MAX_GATES_COUNT then Inl (RuntimeError ''BaseProtocol: no space left'')
      else if \<not> list_all (\<lambda>g. g \<in> set wired) gs then
        (if list_ex (\<lambda>g. g \<in> set wired) gs
         then Inl (RuntimeError ''BaseProtocol: the application should not be connected but one of its gates is connected'')
         else Inr (gs @ wired,
           addApp k \<lparr>upperIn = UpperLayerIn n, upperOut = UpperLayerOut n, upperCntIn = UpperControlIn n, upperCntOut = UpperControlOut n\<rparr>
             (p\<lparr>connections :=
                 Mapping.update appCntOut (UpperControlIn n) (Mapping.update appCntIn (UpperControlOut n)
                  (Mapping.update appOut (UpperLayerIn n) (Mapping.update appIn (UpperLayerOut n) (connections p)))),
                usedGates := n + 1\<rparr>)))
      else rbind (connectionOf appOut p) (\<lambda>inGate. rbind (connectionOf appIn p) (\<lambda>outGate.
           rbind (connectionOf appCntOut p) (\<lambda>cntIn. rbind (connectionOf appCntIn p) (\<lambda>cntOut.
             Inr (wired, addApp k \<lparr>upperIn = inGate, upperOut = outGate, upperCntIn = cntIn, upperCntOut = cntOut\<rparr> p))))))"

section \<open>\<open>SimplePlatooningBeaconing\<close> and \<open>HumanInterferingProtocol\<close>\<close>

text \<open>\<open>drawn\<close> is the random start time.\<close>

definition simpleInitialize0 :: "simtime \<Rightarrow> simtime \<Rightarrow> 'a base_protocol_scheme \<Rightarrow> 'a base_protocol_scheme result" where
  "simpleInitialize0 now drawn p =
     (if 0 < beaconingInterval p then scheduleBeacon now (now + beaconingInterval p + drawn) p else Inr p)"

text \<open>The timer of this protocol and of the slotted one: the next beacon is one interval away.\<close>

definition beaconHandleSelfMsg ::
  "simtime \<Rightarrow> vehicle_data \<Rightarrow> self_msg \<Rightarrow> 'a base_protocol_scheme \<Rightarrow> ('a base_protocol_scheme \<times> protocol_action list) result" where
  "beaconHandleSelfMsg now d m p =
     rbind (baseHandleSelfMsg now m p) (\<lambda>(p1, as).
       if m = BeaconTimer
       then (case sendPlatooningMessage d (-1) ALL_INTERFACES p1 of (p2, as2) \<Rightarrow>
               rbind (scheduleBeacon now (now + beaconingInterval p2) p2) (\<lambda>p3. Inr (p3, as @ as2)))
       else Inr (p1, as))"

record interferer =
  humanInterval :: simtime
  humanPriority :: int
  humanPacketSize :: int
  txPower :: real
  bitrate :: int
  humanTimer :: "simtime option"

definition INTERFERENCE_TYPE :: int where "INTERFERENCE_TYPE = 12349"

definition humanInitialize0 :: "simtime \<Rightarrow> simtime \<Rightarrow> simtime \<Rightarrow> int \<Rightarrow> int \<Rightarrow> real \<Rightarrow> int \<Rightarrow> interferer result" where
  "humanInitialize0 now drawn interval bytes prio watts rate =
     rbind (ensure (0 \<le> prio \<and> prio \<le> 7)) (\<lambda>_.
       Inr \<lparr>humanInterval = interval, humanPriority = prio, humanPacketSize = bytes, txPower = watts, bitrate = rate,
            humanTimer = Some (now + drawn)\<rparr>)"

text \<open>\<open>mcs\<close> is the modulation and coding the radio model has for the bit rate.\<close>

definition interferingMessage :: "(int \<Rightarrow> int) \<Rightarrow> interferer \<Rightarrow> radio_msg" where
  "interferingMessage mcs q =
     \<lparr>msgKind = INTERFERENCE_TYPE, recipientAddress = L2BROADCAST, userPriority = humanPriority q, byteLength = humanPacketSize q,
      encapsulated = Some (InterferingBeacon (txPower q) (mcs (bitrate q))), controlInterfaces = None\<rparr>"

definition humanHandleSelfMsg :: "(int \<Rightarrow> int) \<Rightarrow> simtime \<Rightarrow> interferer \<Rightarrow> interferer \<times> radio_msg" where
  "humanHandleSelfMsg mcs now q = (q\<lparr>humanTimer := Some (now + humanInterval q)\<rparr>, interferingMessage mcs q)"

section \<open>\<open>SlottedBeaconing\<close>\<close>

record slotted_beaconing = base_protocol +
  slotNumber :: int
  slotTime :: simtime

text \<open>
  One interval is divided into as many slots as the platoon has vehicles, with the truncating
  division of \<open>SimTime\<close>. \<open>drawn\<close> is the random start time of a leader.
\<close>

definition slottedInitialize1 :: "simtime \<Rightarrow> simtime \<Rightarrow> position_helper \<Rightarrow> slotted_beaconing \<Rightarrow> slotted_beaconing result" where
  "slottedInitialize1 now drawn h p =
     (if getPlatoonSize h = 0 then Inl (RuntimeError ''division by zero'')
      else let p1 = p\<lparr>slotNumber := position h, slotTime := cdiv (position h * beaconingInterval p) (getPlatoonSize h)\<rparr> in
        if isLeader h then scheduleBeacon now (now + beaconingInterval p1 + drawn) p1 else Inr p1)"

definition slottedMessageReceived :: "simtime \<Rightarrow> position_helper \<Rightarrow> platooning_beacon \<Rightarrow> slotted_beaconing \<Rightarrow> slotted_beaconing result" where
  "slottedMessageReceived now h b p =
     (if leaderId h = vehicleId b \<and> \<not> isLast h
      then scheduleBeacon now (now + slotTime p) (p\<lparr>sendBeacon := None\<rparr>)
      else Inr p)"

section \<open>Lemmas on the handlers\<close>

lemma scheduleBeacon_ok [simp]:
  "now \<le> t \<Longrightarrow> sendBeacon p = None \<Longrightarrow> scheduleBeacon now t p = Inr (p\<lparr>sendBeacon := Some t\<rparr>)"
  by (simp add: scheduleBeacon_def)

lemma recordLeader_leaves [simp, frame_laws]:
  "knownBeacons (fst (recordLeader now h b p)) = knownBeacons p" "apps (fst (recordLeader now h b p)) = apps p"
  "sendBeacon (fst (recordLeader now h b p)) = sendBeacon p" "beaconingInterval (fst (recordLeader now h b p)) = beaconingInterval p"
  "slotTime (fst (recordLeader now h b q)) = slotTime q"
  by (simp_all add: recordLeader_def)

lemma recordFront_leaves [simp, frame_laws]:
  "knownBeacons (fst (recordFront now h b p)) = knownBeacons p" "apps (fst (recordFront now h b p)) = apps p"
  "sendBeacon (fst (recordFront now h b p)) = sendBeacon p" "beaconingInterval (fst (recordFront now h b p)) = beaconingInterval p"
  "slotTime (fst (recordFront now h b q)) = slotTime q"
  by (simp_all add: recordFront_def)

lemma protocolLowerMsg_beacon:
  assumes "encapsulated f = Some (PlatooningBeacon b)"
  shows "protocolLowerMsg received now h f p =
     (if isDuplicated b p then Inr (p, [])
      else rbind (received b (p\<lparr>knownBeacons := Mapping.update (vehicleId b) (sequenceNumber b) (knownBeacons p)\<rparr>)) (\<lambda>p1.
        let r = recordLeader now h b p1; q = recordFront now h b (fst r) in
        Inr (fst q, snd r @ snd q @ forwardToApps f (fst q))))"
  using assms by (simp add: protocolLowerMsg_def split_def Let_def)

section \<open>Channel occupation\<close>

text \<open>What the channel and the timer of the statistics do, each at its time.\<close>

datatype channel_event = ChannelBusy simtime bool | Collided simtime | Recorded simtime

fun event_at :: "channel_event \<Rightarrow> simtime" where
  "event_at (ChannelBusy t v) = t"
| "event_at (Collided t) = t"
| "event_at (Recorded t) = t"

fun channelStep :: "'a base_protocol_scheme \<times> protocol_action list \<Rightarrow> channel_event \<Rightarrow> ('a base_protocol_scheme \<times> protocol_action list) result" where
  "channelStep (p, as) (ChannelBusy t v) = Inr (channelSignal t SigChannelBusy v p, as)"
| "channelStep (p, as) (Collided t) = Inr (channelSignal t SigCollision True p, as)"
| "channelStep (p, as) (Recorded t) = rbind (baseHandleSelfMsg t RecordTimer p) (\<lambda>(q, bs). Inr (q, as @ bs))"

text \<open>A meter that never resets: when the channel was last looked at, whether it was busy, and how long it was busy so far.\<close>

record meter =
  lookedAt :: simtime
  wasBusy :: bool
  busySoFar :: simtime
  collisionsSoFar :: int

definition look :: "simtime \<Rightarrow> meter \<Rightarrow> meter" where
  "look t m = m\<lparr>lookedAt := t, busySoFar := busySoFar m + (if wasBusy m then t - lookedAt m else 0)\<rparr>"

fun meterStep :: "meter \<Rightarrow> channel_event \<Rightarrow> meter" where
  "meterStep m (ChannelBusy t v) = (look t m)\<lparr>wasBusy := v\<rparr>"
| "meterStep m (Collided t) = (look t m)\<lparr>collisionsSoFar := collisionsSoFar m + 1\<rparr>"
| "meterStep m (Recorded t) = look t m"

definition meter0 :: "simtime \<Rightarrow> meter" where
  "meter0 t = \<lparr>lookedAt = t, wasBusy = False, busySoFar = 0, collisionsSoFar = 0\<rparr>"

fun recordedBusy :: "protocol_action list \<Rightarrow> simtime" where
  "recordedBusy [] = 0"
| "recordedBusy (RecordBusyTime t # as) = t + recordedBusy as"
| "recordedBusy (_ # as) = recordedBusy as"

fun recordedCollisions :: "protocol_action list \<Rightarrow> int" where
  "recordedCollisions [] = 0"
| "recordedCollisions (RecordCollisions n # as) = n + recordedCollisions as"
| "recordedCollisions (_ # as) = recordedCollisions as"

lemma recorded_append:
  "recordedBusy (as @ bs) = recordedBusy as + recordedBusy bs"
  "recordedCollisions (as @ bs) = recordedCollisions as + recordedCollisions bs"
  by (induction as rule: recordedBusy.induct) simp_all

text \<open>The times of events go up, and the timer fires when it is scheduled for.\<close>

fun well_timed :: "simtime \<Rightarrow> simtime \<Rightarrow> channel_event list \<Rightarrow> bool" where
  "well_timed now due [] = True"
| "well_timed now due (Recorded t # es) = (t = due \<and> now \<le> t \<and> well_timed t (t + simtime_s 1) es)"
| "well_timed now due (ChannelBusy t v # es) = (now \<le> t \<and> t \<le> due \<and> well_timed t due es)"
| "well_timed now due (Collided t # es) = (now \<le> t \<and> t \<le> due \<and> well_timed t due es)"

text \<open>What is recorded, what is pending and what the meter shows; \<open>from\<close> is when the period began.\<close>

definition metered :: "simtime \<Rightarrow> simtime \<Rightarrow> 'a base_protocol_scheme \<Rightarrow> protocol_action list \<Rightarrow> meter \<Rightarrow> bool" where
  "metered due opened p as m \<longleftrightarrow>
     channelBusy p = wasBusy m \<and> recordData p = Some due
     \<and> recordedBusy as + busyTime p + (if channelBusy p then lookedAt m - startBusy p else 0) = busySoFar m
     \<and> recordedCollisions as + nCollisions p = collisionsSoFar m
     \<and> 0 \<le> busyTime p \<and> busyTime p \<le> (if channelBusy p then startBusy p else lookedAt m) - opened
     \<and> (channelBusy p \<longrightarrow> opened \<le> startBusy p \<and> startBusy p \<le> lookedAt m) \<and> opened \<le> lookedAt m \<and> lookedAt m \<le> due
     \<and> due \<le> opened + simtime_s 1
     \<and> (\<forall>t. RecordBusyTime t \<in> set as \<longrightarrow> 0 \<le> t \<and> t \<le> simtime_s 1)"

lemma metered_signal:
  assumes "metered due opened p as m" "lookedAt m \<le> t" "t \<le> due"
  shows "metered due opened (channelSignal t SigChannelBusy v p) as (meterStep m (ChannelBusy t v))"
    and "metered due opened (channelSignal t SigCollision w p) as (meterStep m (Collided t))"
  using assms by (auto simp: metered_def channelSignal_def look_def)

lemma metered_record:
  assumes "metered due opened p as m" "lookedAt m \<le> due"
  obtains q bs where "baseHandleSelfMsg due RecordTimer p = Inr (q, bs)"
    "metered (due + simtime_s 1) due q (as @ bs) (meterStep m (Recorded due))" "busyTime q = 0"
    "channelBusy q \<Longrightarrow> startBusy q = due" "nCollisions q = 0"
proof (rule that)
  let ?q = "(if channelBusy p then p\<lparr>startBusy := due\<rparr> else p)\<lparr>recordData := Some (due + simtime_s 1), busyTime := 0, nCollisions := 0\<rparr>"
  let ?b = "busyTime p + (if channelBusy p then due - startBusy p else 0)"
  let ?bs = "[RecordNodeId (protocolId p), RecordBusyTime ?b, RecordCollisions (nCollisions p)]"
  show "baseHandleSelfMsg due RecordTimer p = Inr (?q, ?bs)"
    by (simp add: baseHandleSelfMsg_def scheduleRecord_def simtime_s_def Let_def)
  show "metered (due + simtime_s 1) due ?q (as @ ?bs) (meterStep m (Recorded due))"
    using assms by (auto simp: metered_def look_def recorded_append simtime_s_def split: if_splits)
qed auto

lemma metered_run:
  assumes "metered due opened p as m" "well_timed (lookedAt m) due es"
  obtains due' opened' p' as' where "foldM channelStep (p, as) es = Inr (p', as')" "metered due' opened' p' as' (foldl meterStep m es)"
  using assms
proof (induction es arbitrary: due opened p as m thesis)
  case Nil
  then show ?case by simp
next
  case (Cons e es)
  show ?case
  proof (cases e)
    case (ChannelBusy t v)
    have step: "metered due opened (channelSignal t SigChannelBusy v p) as (meterStep m e)"
      using metered_signal(1) [OF Cons.prems(2)] Cons.prems(3) ChannelBusy by simp
    show ?thesis
    proof (rule Cons.IH [OF _ step])
      show "well_timed (lookedAt (meterStep m e)) due es" using Cons.prems(3) ChannelBusy by (simp add: look_def)
    qed (use Cons.prems(1) ChannelBusy in simp)
  next
    case (Collided t)
    have step: "metered due opened (channelSignal t SigCollision True p) as (meterStep m e)"
      using metered_signal(2) [OF Cons.prems(2)] Cons.prems(3) Collided by simp
    show ?thesis
    proof (rule Cons.IH [OF _ step])
      show "well_timed (lookedAt (meterStep m e)) due es" using Cons.prems(3) Collided by (simp add: look_def)
    qed (use Cons.prems(1) Collided in simp)
  next
    case (Recorded t)
    then have "t = due" "lookedAt m \<le> due" using Cons.prems by simp_all
    then obtain q bs where q: "baseHandleSelfMsg t RecordTimer p = Inr (q, bs)"
        "metered (due + simtime_s 1) due q (as @ bs) (meterStep m e)"
      using metered_record [OF Cons.prems(2)] Recorded by metis
    show ?thesis
    proof (rule Cons.IH [OF _ q(2)])
      show "well_timed (lookedAt (meterStep m e)) (due + simtime_s 1) es"
        using Cons.prems(3) Recorded \<open>t = due\<close> by (simp add: look_def)
    qed (use Cons.prems(1) q(1) Recorded in simp)
  qed
qed

lemma storeRadio_leaves [simp, frame_laws]:
  "channelBusy (storeRadio p r) = channelBusy p" "busyTime (storeRadio p r) = busyTime p"
  "nCollisions (storeRadio p r) = nCollisions p"
  by (simp_all add: storeRadio_def split: prod.split)

lemma storeRadios_leave [simp, frame_laws]:
  "channelBusy (foldl storeRadio p rs) = channelBusy p" "busyTime (foldl storeRadio p rs) = busyTime p"
  "nCollisions (foldl storeRadio p rs) = nCollisions p"
  by (induction rs arbitrary: p) simp_all

lemma metered_start:
  assumes "baseInitialize0 now interval bytes prio upper control radios p = Inr p0"
  shows "metered ((now div simtime_s 1 + 1) * simtime_s 1) now p0 [] (meter0 now)"
proof -
  have S: "0 < simtime_s 1" by (simp add: simtime_s_def)
  have le: "now \<le> (now div simtime_s 1 + 1) * simtime_s 1" "(now div simtime_s 1 + 1) * simtime_s 1 \<le> now + simtime_s 1"
    using pos_mod_bound [OF S, of now] pos_mod_sign [OF S, of now] div_mult_mod_eq [of now "simtime_s 1"]
    unfolding distrib_right by linarith+
  show ?thesis
    using assms le
    by (auto simp: baseInitialize0_def metered_def meter0_def scheduleRecord_def rbind_Inr_iff ensure_Inr_iff Let_def split: if_splits)
qed

definition within_a_second :: "protocol_action \<Rightarrow> bool" where
  "within_a_second a = (case a of RecordBusyTime t \<Rightarrow> 0 \<le> t \<and> t \<le> simtime_s 1 | _ \<Rightarrow> True)"

text \<open>
  C16. The statistics of the channel lose and invent nothing: from the start of the protocol to
  any recording the recorded busy times add up to the time the channel was busy, whatever the changes
  of the channel, and no recorded time is negative or longer than the second it is recorded for.\<close>

theorem busy_time_is_accounted:
  assumes "baseInitialize0 now interval bytes prio upper control radios p = Inr p0"
    and "well_timed now ((now div simtime_s 1 + 1) * simtime_s 1) (es @ [Recorded t])"
  shows "case foldM channelStep (p0, []) (es @ [Recorded t]) of Inl _ \<Rightarrow> False
    | Inr (q, as) \<Rightarrow> recordedBusy as = busySoFar (foldl meterStep (meter0 now) (es @ [Recorded t]))
        \<and> recordedCollisions as = collisionsSoFar (foldl meterStep (meter0 now) (es @ [Recorded t]))
        \<and> list_all within_a_second as"
proof -
  have split: "well_timed n d (es @ [Recorded t]) \<Longrightarrow> well_timed n d es" for n d
    by (induction n d es rule: well_timed.induct) simp_all
  have due: "well_timed n d (es @ [Recorded t]) \<Longrightarrow> foldM channelStep (p, as) es = Inr (q, bs) \<Longrightarrow> recordData p = Some d
      \<Longrightarrow> recordData q = Some t" for n d and p q :: "'a base_protocol_scheme" and as bs
    by (induction n d es arbitrary: p as rule: well_timed.induct)
      (auto simp: channelSignal_def baseHandleSelfMsg_def scheduleRecord_def rbind_Inr_iff simtime_s_def Let_def split: if_splits)
  obtain d o' q as where run: "foldM channelStep (p0, []) es = Inr (q, as)" and m: "metered d o' q as (foldl meterStep (meter0 now) es)"
  proof (rule metered_run [OF metered_start [OF assms(1)]])
    show "well_timed (lookedAt (meter0 now)) ((now div simtime_s 1 + 1) * simtime_s 1) es"
      using split [OF assms(2)] by (simp add: meter0_def)
  qed
  have "d = t" using due [OF assms(2) run] metered_start [OF assms(1)] m by (simp add: metered_def)
  then obtain r bs where r: "baseHandleSelfMsg t RecordTimer q = Inr (r, bs)" "busyTime r = 0" "channelBusy r \<Longrightarrow> startBusy r = t" "nCollisions r = 0"
      and n: "metered (t + simtime_s 1) t r (as @ bs) (meterStep (foldl meterStep (meter0 now) es) (Recorded t))"
    using metered_record [OF m] m by (metis metered_def)
  then show ?thesis
    using run by (auto simp: foldM_append metered_def list_all_iff within_a_second_def look_def split: protocol_action.splits)
qed

definition demo_protocol :: base_protocol where
  "demo_protocol = \<lparr>busyTime = 5, nCollisions = 0, startBusy = 0, channelBusy = False, lastLeaderMsgTime = 0, lastFrontMsgTime = 0,
     radioOuts = Mapping.empty, radioIns = Mapping.empty, knownBeacons = Mapping.empty, protocolId = 0, seq_n = 0, vehicleLength = 4,
     beaconingInterval = simtime_ms 100, messagePriority = 3, packetSize = 200, upperIds = (1, 10), upperControlIds = (11, 20),
     radioIds = (21, 21), apps = Mapping.empty, usedGates = 0, connections = Mapping.empty, sendBeacon = None, recordData = None\<rparr>"

lemma demo_starts:
  "baseInitialize0 0 (simtime_ms 100) 200 3 (1, 10) (11, 20) [(1, 21, 1)] demo_protocol
   = Inr (demo_protocol\<lparr>busyTime := 0, radioOuts := Mapping.update 1 0 Mapping.empty, radioIns := Mapping.update 21 1 Mapping.empty,
       lastLeaderMsgTime := - simtime_s 1, lastFrontMsgTime := - simtime_s 1, recordData := Some (simtime_s 1)\<rparr>)"
  by (simp add: baseInitialize0_def demo_protocol_def storeRadio_def scheduleRecord_def simtime_units Let_def)

lemma busy_time_is_accounted_witness:
  "case baseInitialize0 0 (simtime_ms 100) 200 3 (1, 10) (11, 20) [(1, 21, 1)] demo_protocol of Inl _ \<Rightarrow> False
   | Inr p0 \<Rightarrow> (case foldM channelStep (p0, []) ([ChannelBusy 7 True, Collided 9, ChannelBusy 12 False, ChannelBusy 15 True] @ [Recorded (simtime_s 1)]) of
        Inl _ \<Rightarrow> False
      | Inr (q, as) \<Rightarrow> recordedBusy as = simtime_s 1 - 10 \<and> recordedCollisions as = 1)"
proof -
  let ?es = "[ChannelBusy 7 True, Collided 9, ChannelBusy 12 False, ChannelBusy 15 True] :: channel_event list"
  have w: "well_timed 0 ((0 div simtime_s 1 + 1) * simtime_s 1) (?es @ [Recorded (simtime_s 1)])" by (simp add: simtime_s_def)
  show ?thesis
    using busy_time_is_accounted [OF demo_starts w]
    by (auto simp: demo_starts meter0_def look_def simp del: foldM.simps channelStep.simps split: sum.splits)
qed

section \<open>Duplicates\<close>

text \<open>Frames arrive one after the other, each at its time.\<close>

definition lowerStep ::
  "(simtime \<Rightarrow> platooning_beacon \<Rightarrow> 'a base_protocol_scheme \<Rightarrow> 'a base_protocol_scheme result) \<Rightarrow> position_helper \<Rightarrow>
   'a base_protocol_scheme \<times> protocol_action list \<Rightarrow> simtime \<times> radio_msg \<Rightarrow> ('a base_protocol_scheme \<times> protocol_action list) result" where
  "lowerStep received h s e =
     rbind (protocolLowerMsg (received (fst e)) (fst e) h (snd e) (fst s)) (\<lambda>(p, as). Inr (p, snd s @ as))"

text \<open>The sequence numbers of the beacons of a vehicle that are handed to an application.\<close>

definition seqOf :: "int \<Rightarrow> this_gate \<Rightarrow> protocol_action \<Rightarrow> int list" where
  "seqOf v g a =
     (case a of
        SendApp g' f \<Rightarrow> (case encapsulated f of
            Some (PlatooningBeacon b) \<Rightarrow> if g' = g \<and> vehicleId b = v then [sequenceNumber b] else []
          | _ \<Rightarrow> [])
      | _ \<Rightarrow> [])"

definition seqsOf :: "int \<Rightarrow> this_gate \<Rightarrow> protocol_action list \<Rightarrow> int list" where
  "seqsOf v g as = concat (map (seqOf v g) as)"

lemma seqsOf_simps [simp]: "seqsOf v g [] = []" "seqsOf v g (as @ bs) = seqsOf v g as @ seqsOf v g bs"
  by (simp_all add: seqsOf_def)

lemma seqsOf_records [simp]:
  "seqsOf v g (snd (recordLeader now h b p)) = []" "seqsOf v g (snd (recordFront now h b p)) = []"
  by (simp_all add: recordLeader_def recordFront_def seqsOf_def seqOf_def)

text \<open>An application is registered at most once for a kind of frame.\<close>

definition registered_once :: "this_gate \<Rightarrow> 'a base_protocol_scheme \<Rightarrow> bool" where
  "registered_once g p \<longleftrightarrow> (\<forall>k as. Mapping.lookup (apps p) k = Some as \<longrightarrow> count_list (map upperOut as) g \<le> 1)"

lemma seqsOf_forward:
  assumes "registered_once g p" "encapsulated f = Some (PlatooningBeacon b)"
  shows "seqsOf v g (forwardToApps f p) = [] \<or> (vehicleId b = v \<and> seqsOf v g (forwardToApps f p) = [sequenceNumber b])"
proof (cases "Mapping.lookup (apps p) (msgKind f)")
  case None
  then show ?thesis by (simp add: forwardToApps_def)
next
  case (Some as)
  have "seqsOf v g (map (\<lambda>a. SendApp (upperOut a) f) as)
      = (if vehicleId b = v then replicate (count_list (map upperOut as) g) (sequenceNumber b) else [])"
    by (induction as) (simp_all add: seqsOf_def seqOf_def assms(2))
  moreover have "count_list (map upperOut as) g \<le> 1" using assms(1) Some by (simp add: registered_once_def)
  ultimately show ?thesis using Some by (cases "count_list (map upperOut as) g") (auto simp: forwardToApps_def)
qed

lemma seqsOf_forward_other:
  assumes "\<And>b. encapsulated f \<noteq> Some (PlatooningBeacon b)"
  shows "seqsOf v g (forwardToApps f p) = []"
proof -
  have "seqsOf v g (map (\<lambda>a. SendApp (upperOut a) f) as) = []" for as :: "app_gates list"
    using assms by (induction as) (auto simp: seqsOf_def seqOf_def split: option.splits payload.splits)
  then show ?thesis by (simp add: forwardToApps_def split: option.split)
qed

text \<open>What was handed on is below what is remembered.\<close>

definition remembered :: "int \<Rightarrow> 'a base_protocol_scheme \<Rightarrow> int list \<Rightarrow> bool" where
  "remembered v p ns \<longleftrightarrow> sorted_wrt (<) ns
     \<and> (case Mapping.lookup (knownBeacons p) v of None \<Rightarrow> ns = [] | Some n \<Rightarrow> \<forall>m\<in>set ns. m \<le> n)"

lemma lowerStep_remembers:
  assumes "lowerStep received h (p, as) (t, f) = Inr (q, bs)"
    and leaves: "\<And>t b p q. received t b p = Inr q \<Longrightarrow> knownBeacons q = knownBeacons p \<and> apps q = apps p"
    and "registered_once g p" "remembered v p (seqsOf v g as)"
  shows "registered_once g q \<and> remembered v q (seqsOf v g bs)"
proof (cases "\<exists>b. encapsulated f = Some (PlatooningBeacon b)")
  case True
  then obtain b where b: "encapsulated f = Some (PlatooningBeacon b)" by blast
  show ?thesis
  proof (cases "isDuplicated b p")
    case True
    then show ?thesis using assms(1,3,4) by (simp add: lowerStep_def protocolLowerMsg_beacon [OF b])
  next
    case False
    let ?p = "p\<lparr>knownBeacons := Mapping.update (vehicleId b) (sequenceNumber b) (knownBeacons p)\<rparr>"
    obtain p1 where p1: "received t b ?p = Inr p1"
      using assms(1) False by (auto simp: lowerStep_def protocolLowerMsg_beacon [OF b] rbind_Inr_iff)
    let ?r = "recordLeader t h b p1" let ?s = "recordFront t h b (fst ?r)"
    have q: "q = fst ?s" and bs: "bs = as @ snd ?r @ snd ?s @ forwardToApps f (fst ?s)"
      using assms(1) False p1 by (auto simp: lowerStep_def protocolLowerMsg_beacon [OF b] Let_def)
    have apps: "apps q = apps p" and known: "knownBeacons q = Mapping.update (vehicleId b) (sequenceNumber b) (knownBeacons p)"
      using leaves [OF p1] q by simp_all
    have once: "registered_once g q" using assms(3) apps by (simp add: registered_once_def)
    have "seqsOf v g bs = seqsOf v g as \<or> vehicleId b = v \<and> seqsOf v g bs = seqsOf v g as @ [sequenceNumber b]"
      using seqsOf_forward [OF once b, of v] unfolding bs q by auto
    then show ?thesis
      using once assms(4) False known
      by (auto simp: remembered_def isDuplicated_def lookup_update' sorted_wrt_append split: option.splits if_splits) fastforce+
  qed
next
  case False
  then have "q = p \<and> bs = as @ forwardToApps f p"
    using assms(1) by (auto simp: lowerStep_def protocolLowerMsg_def rbind_Inr_iff split: option.splits payload.splits)
  then show ?thesis using assms(3,4) False seqsOf_forward_other [of f v g p] by simp
qed

text \<open>
  However the radios repeat and reorder the beacons of a vehicle, an application is given
  each beacon at most once and never an older one after a newer one.\<close>

theorem beacons_are_delivered_in_order:
  assumes "foldM (lowerStep (\<lambda>t. baseMessageReceived) h) (p, []) fs = Inr (q, as)" "registered_once g p"
    and "Mapping.lookup (knownBeacons p) v = None"
  shows "sorted_wrt (<) (seqsOf v g as)"
proof -
  have "registered_once g (fst (q, as)) \<and> remembered v (fst (q, as)) (seqsOf v g (snd (q, as)))"
  proof (rule foldM_invariant [where P = "\<lambda>s. registered_once g (fst s) \<and> remembered v (fst s) (seqsOf v g (snd s))", OF _ _ assms(1)])
    fix s e s'
    assume "registered_once g (fst s) \<and> remembered v (fst s) (seqsOf v g (snd s))" "lowerStep (\<lambda>t. baseMessageReceived) h s e = Inr s'"
    then show "registered_once g (fst s') \<and> remembered v (fst s') (seqsOf v g (snd s'))"
      using lowerStep_remembers [of "\<lambda>t. baseMessageReceived" h "fst s" "snd s" "fst e" "snd e" "fst s'" "snd s'" g v]
      by (simp add: baseMessageReceived_def)
  qed (use assms(2,3) in \<open>simp add: remembered_def\<close>)
  then show ?thesis by (simp add: remembered_def)
qed

definition plain_beacon :: "int \<Rightarrow> int \<Rightarrow> radio_msg" where
  "plain_beacon v n =
     \<lparr>msgKind = BEACON_TYPE, recipientAddress = L2BROADCAST, userPriority = 3, byteLength = 200,
       encapsulated = Some (PlatooningBeacon \<lparr>vehicleId = v, controllerAcceleration = 0, acceleration = 0, speed = 30,
         positionX = 0, positionY = 0, beaconTime = 0, sequenceNumber = n, beaconLength = 4, speedX = 30, speedY = 0, angle = 0\<rparr>),
       controlInterfaces = None\<rparr>"

definition one_app :: base_protocol where
  "one_app = demo_protocol\<lparr>apps := Mapping.update BEACON_TYPE
      [\<lparr>upperIn = UpperLayerIn 0, upperOut = UpperLayerOut 0, upperCntIn = UpperControlIn 0, upperCntOut = UpperControlOut 0\<rparr>] Mapping.empty\<rparr>"

lemma beacons_are_delivered_in_order_witness:
  "case foldM (lowerStep (\<lambda>t. baseMessageReceived) (demo_helper 9)) (one_app, [])
       [(5, plain_beacon 7 0), (6, plain_beacon 7 0), (8, plain_beacon 7 2), (9, plain_beacon 7 1)] of Inl _ \<Rightarrow> False
   | Inr (q, as) \<Rightarrow> sorted_wrt (<) (seqsOf 7 (UpperLayerOut 0) as) \<and> seqsOf 7 (UpperLayerOut 0) as = [0, 2]"
proof -
  have "registered_once (UpperLayerOut 0) one_app"
    by (auto simp: registered_once_def one_app_def demo_protocol_def lookup_update' split: if_splits)
  moreover have "Mapping.lookup (knownBeacons one_app) 7 = None" by (simp add: one_app_def demo_protocol_def lookup_empty)
  ultimately have run: "foldM (lowerStep (\<lambda>t. baseMessageReceived) (demo_helper 9)) (one_app, []) fs = Inr (q, as)
      \<Longrightarrow> sorted_wrt (<) (seqsOf 7 (UpperLayerOut 0) as)" for fs q as
    using beacons_are_delivered_in_order by blast
  show ?thesis
    using run [of "[(5, plain_beacon 7 0), (6, plain_beacon 7 0), (8, plain_beacon 7 2), (9, plain_beacon 7 1)]"]
    by (auto simp: lowerStep_def protocolLowerMsg_def isDuplicated_def baseMessageReceived_def recordLeader_def recordFront_def
        demo_helper_def forwardToApps_def one_app_def demo_protocol_def plain_beacon_def seqsOf_def seqOf_def getFrontId_def isLeader_def
        lookup_update' lookup_empty split: sum.splits)
qed

section \<open>Slots\<close>

text \<open>
  A vehicle with slotted beaconing, from some state on: it hears its leader at times that lie an
  interval apart, though perhaps not every time; it hears other vehicles at any time; it records its
  statistics; and its beacon timer fires at its time, before anything later happens. The list holds
  the times of its own beacons; \<open>c\<close> is one of the times the leader may be heard.
\<close>

inductive slotted_run :: "position_helper \<Rightarrow> simtime \<Rightarrow> simtime \<Rightarrow> slotted_beaconing \<Rightarrow> simtime \<Rightarrow> slotted_beaconing \<Rightarrow> simtime list \<Rightarrow> bool"
  for h :: position_helper and c :: simtime and t0 :: simtime and p0 :: slotted_beaconing where
  run_start: "slotted_run h c t0 p0 t0 p0 []"
| run_leader: "slotted_run h c t0 p0 now p ts \<Longrightarrow> now \<le> t \<Longrightarrow> list_all (\<lambda>s. t \<le> s) (case sendBeacon p of None \<Rightarrow> [] | Some s \<Rightarrow> [s]) \<Longrightarrow>
    \<not> isLeader h \<Longrightarrow> encapsulated f = Some (PlatooningBeacon b) \<Longrightarrow> vehicleId b = leaderId h \<Longrightarrow> t = c + k * beaconingInterval p0 \<Longrightarrow>
    protocolLowerMsg (slottedMessageReceived t h) t h f p = Inr (q, as) \<Longrightarrow> slotted_run h c t0 p0 t q ts"
| run_other: "slotted_run h c t0 p0 now p ts \<Longrightarrow> now \<le> t \<Longrightarrow> list_all (\<lambda>s. t \<le> s) (case sendBeacon p of None \<Rightarrow> [] | Some s \<Rightarrow> [s]) \<Longrightarrow>
    encapsulated f = Some (PlatooningBeacon b) \<Longrightarrow> vehicleId b \<noteq> leaderId h \<Longrightarrow>
    protocolLowerMsg (slottedMessageReceived t h) t h f p = Inr (q, as) \<Longrightarrow> slotted_run h c t0 p0 t q ts"
| run_record: "slotted_run h c t0 p0 now p ts \<Longrightarrow> now \<le> t \<Longrightarrow> list_all (\<lambda>s. t \<le> s) (case sendBeacon p of None \<Rightarrow> [] | Some s \<Rightarrow> [s]) \<Longrightarrow>
    beaconHandleSelfMsg t d RecordTimer p = Inr (q, as) \<Longrightarrow> slotted_run h c t0 p0 t q ts"
| run_send: "slotted_run h c t0 p0 now p ts \<Longrightarrow> sendBeacon p = Some t \<Longrightarrow>
    beaconHandleSelfMsg t d BeaconTimer p = Inr (q, as) \<Longrightarrow> slotted_run h c t0 p0 t q (ts @ [t])"

text \<open>The effect of each step on the timer.\<close>

lemma sendPlatooningMessage_leaves [simp, frame_laws]:
  "sendBeacon (fst (sendPlatooningMessage d a i p)) = sendBeacon p"
  "beaconingInterval (fst (sendPlatooningMessage d a i p)) = beaconingInterval p"
  "slotTime (fst (sendPlatooningMessage d a i q)) = slotTime q"
  by (simp_all add: sendPlatooningMessage_def createBeacon_def)

lemma beacon_send_step:
  assumes "beaconHandleSelfMsg t d BeaconTimer p = Inr (q, as)"
  shows "sendBeacon q = Some (t + beaconingInterval p) \<and> beaconingInterval q = beaconingInterval p \<and> slotTime q = slotTime (p :: slotted_beaconing)"
  using assms by (auto simp: beaconHandleSelfMsg_def baseHandleSelfMsg_def sendPlatooningMessage_def createBeacon_def scheduleBeacon_def rbind_Inr_iff
      split: prod.splits if_splits)

lemma record_step:
  assumes "beaconHandleSelfMsg t d RecordTimer p = Inr (q, as)"
  shows "sendBeacon q = sendBeacon p \<and> beaconingInterval q = beaconingInterval p \<and> slotTime q = slotTime (p :: slotted_beaconing)"
  using assms by (auto simp: beaconHandleSelfMsg_def baseHandleSelfMsg_def scheduleRecord_def rbind_Inr_iff Let_def split: prod.splits if_splits)

text \<open>A beacon of the leader moves the timer, unless it is a duplicate or the vehicle is the last.\<close>

lemma hear_step:
  assumes "protocolLowerMsg (slottedMessageReceived t h) t h f p = Inr (q, as)" "encapsulated f = Some (PlatooningBeacon b)"
  shows "sendBeacon q = (if \<not> isDuplicated b p \<and> leaderId h = vehicleId b \<and> \<not> isLast h then Some (t + slotTime p) else sendBeacon p)
    \<and> beaconingInterval q = beaconingInterval p \<and> slotTime q = slotTime p"
  using assms(1) by (auto simp: protocolLowerMsg_beacon [OF assms(2)] slottedMessageReceived_def scheduleBeacon_def rbind_Inr_iff Let_def
      split: if_splits)

lemma slotted_run_constant:
  "slotted_run h c t0 p0 now p ts \<Longrightarrow> beaconingInterval p = beaconingInterval p0 \<and> slotTime p = slotTime p0"
  by (induction rule: slotted_run.induct) (use beacon_send_step record_step hear_step in \<open>metis\<close>)+

text \<open>The times a vehicle sends at when it keeps its slot \<open>s\<close> in intervals of length \<open>i\<close> since the \<open>k\<close>-th.\<close>

definition slot_times :: "simtime \<Rightarrow> simtime \<Rightarrow> simtime \<Rightarrow> int \<Rightarrow> nat \<Rightarrow> simtime list" where
  "slot_times c i s k n = map (\<lambda>j. c + (k + int j) * i + s) [0..<n]"

lemma length_slot_times [simp]: "length (slot_times c i s k n) = n"
  by (simp add: slot_times_def)

lemma slot_times_Suc: "slot_times c i s k n @ [c + (k + int n) * i + s] = slot_times c i s k (Suc n)"
  by (simp add: slot_times_def)

lemma slot_unique:
  fixes i :: int
  assumes "c + (m - 1) * i < t" "t \<le> c + m * i + s" "s < i" "t = c + k * i"
  shows "k = m"
proof -
  have "(m - 1) * i < k * i" "k * i \<le> m * i + s" using assms by simp_all
  moreover have i: "0 < i" if "(m - 1) * i < k * i" "k * i < (m + 1) * i"
    using that by (simp add: algebra_simps)
  moreover have "k * i < (m + 1) * i" using assms by (simp add: algebra_simps)
  ultimately have "0 < i" "m - 1 < k" "k < m + 1" by (metis mult_less_cancel_right_pos)+
  then show ?thesis by simp
qed

text \<open>A follower that is not the last: until it hears the leader it is silent, then its timer stands in its slot.\<close>

lemma follower_in_slot:
  assumes "slotted_run h c t0 p0 now p ts" "sendBeacon p0 = None" "\<not> isLeader h" "\<not> isLast h"
    and "0 < slotTime p0" "slotTime p0 < beaconingInterval p0"
  shows "\<exists>k. ts = slot_times c (beaconingInterval p0) (slotTime p0) k (length ts) \<and>
    (case sendBeacon p of
       None \<Rightarrow> ts = []
     | Some u \<Rightarrow> u = c + (k + int (length ts)) * beaconingInterval p0 + slotTime p0
         \<and> c + (k + int (length ts) - 1) * beaconingInterval p0 < now \<and> now \<le> u)"
  using assms
proof (induction rule: slotted_run.induct)
  case run_start
  then show ?case by (simp add: slot_times_def)
next
  case (run_leader now p ts t f b k q as)
  let ?i = "beaconingInterval p0" and ?s = "slotTime p0"
  obtain m where m: "ts = slot_times c ?i ?s m (length ts)"
      "case sendBeacon p of None \<Rightarrow> ts = []
       | Some u \<Rightarrow> u = c + (m + int (length ts)) * ?i + ?s \<and> c + (m + int (length ts) - 1) * ?i < now \<and> now \<le> u"
    using run_leader by blast
  have step: "sendBeacon q = (if isDuplicated b p then sendBeacon p else Some (t + ?s))"
    using hear_step [OF run_leader.hyps(8,5)] slotted_run_constant [OF run_leader.hyps(1)] run_leader.hyps(6) run_leader.prems(3)
    by simp
  show ?case
  proof (cases "sendBeacon p")
    case None
    then have "ts = []" using m(2) by simp
    then show ?thesis
      using step None run_leader.hyps(7) run_leader.prems by (cases "isDuplicated b p") (auto simp: slot_times_def algebra_simps)
  next
    case (Some u)
    then have u: "u = c + (m + int (length ts)) * ?i + ?s" "c + (m + int (length ts) - 1) * ?i < now" "now \<le> t" "t \<le> u"
      using m(2) run_leader.hyps(2,3) by simp_all
    have "c + (m + int (length ts) - 1) * ?i < t" "t \<le> c + (m + int (length ts)) * ?i + ?s" using u by linarith+
    then have "k = m + int (length ts)" by (rule slot_unique [OF _ _ run_leader.prems(5) run_leader.hyps(7)])
    then show ?thesis
      using step Some u run_leader.hyps(7) m(1) by (intro exI [of _ m]) auto
  qed
next
  case (run_other now p ts t f b q as)
  have "sendBeacon q = sendBeacon p" using hear_step [OF run_other.hyps(6,4)] run_other.hyps(5) by simp
  then show ?case using run_other by (auto split: option.splits)
next
  case (run_record now p ts t d q as)
  have "sendBeacon q = sendBeacon p" using record_step [OF run_record.hyps(4)] by simp
  then show ?case using run_record by (auto split: option.splits)
next
  case (run_send now p ts t d q as)
  let ?i = "beaconingInterval p0" and ?s = "slotTime p0"
  obtain m where m: "ts = slot_times c ?i ?s m (length ts)" "t = c + (m + int (length ts)) * ?i + ?s"
    using run_send by auto
  have "sendBeacon q = Some (t + ?i)"
    using beacon_send_step [OF run_send.hyps(3)] slotted_run_constant [OF run_send.hyps(1)] by simp
  then show ?case
    using m slot_times_Suc [of c ?i ?s m "length ts"] run_send.prems
    by (intro exI [of _ m]) (auto simp: algebra_simps)
qed

lemma leader_in_slot:
  assumes "slotted_run h c t0 p0 now p ts" "sendBeacon p0 = Some c" "isLeader h"
  shows "ts = slot_times c (beaconingInterval p0) 0 0 (length ts) \<and> sendBeacon p = Some (c + int (length ts) * beaconingInterval p0)"
  using assms
proof (induction rule: slotted_run.induct)
  case (run_other now p ts t f b q as)
  then show ?case using hear_step [OF run_other.hyps(6,4)] by simp
next
  case (run_record now p ts t d q as)
  then show ?case using record_step [OF run_record.hyps(4)] by simp
next
  case (run_send now p ts t d q as)
  then show ?case
    using beacon_send_step [OF run_send.hyps(3)] slotted_run_constant [OF run_send.hyps(1)]
      slot_times_Suc [of c "beaconingInterval p0" 0 0 "length ts"] by (auto simp: algebra_simps)
qed (simp_all add: slot_times_def)

lemma last_is_silent:
  assumes "slotted_run h c t0 p0 now p ts" "sendBeacon p0 = None" "isLast h"
  shows "ts = [] \<and> sendBeacon p = None"
  using assms
proof (induction rule: slotted_run.induct)
  case (run_leader now p ts t f b k q as)
  then show ?case using hear_step [OF run_leader.hyps(8,5)] by simp
next
  case (run_other now p ts t f b q as)
  then show ?case using hear_step [OF run_other.hyps(6,4)] by simp
next
  case (run_record now p ts t d q as)
  then show ?case using record_step [OF run_record.hyps(4)] by simp
qed simp_all

section \<open>What slotting promises\<close>

text \<open>Where a vehicle is in its platoon decides whether it leads and whether it is the last.\<close>

lemma place_decides:
  assumes "at_position f n h" "myId h = f ! n" "distinct f" "n < length f"
  shows "isLeader h \<longleftrightarrow> n = 0" "isLast h \<longleftrightarrow> Suc n = length f" "getPlatoonSize h = int (length f)" "position h = int n"
proof -
  have "f ! 0 = f ! n \<longleftrightarrow> 0 = n" using assms(3,4) by (intro nth_eq_iff_index_eq) auto
  then show "isLeader h \<longleftrightarrow> n = 0" using assms by (auto simp: isLeader_def at_position_def)
qed (use assms in \<open>auto simp: isLast_def at_position_def getPlatoonSize_def\<close>)

lemma slottedInitialize1_facts:
  assumes "slottedInitialize1 now drawn h p = Inr p0"
  shows "slotTime p0 = cdiv (position h * beaconingInterval p) (getPlatoonSize h) \<and> beaconingInterval p0 = beaconingInterval p
    \<and> sendBeacon p0 = (if isLeader h then Some (now + beaconingInterval p + drawn) else sendBeacon p)"
  using assms by (auto simp: slottedInitialize1_def scheduleBeacon_def Let_def split: if_splits)

lemma slot_in_interval:
  fixes i n N :: int
  assumes "0 < n" "n < N" "N \<le> i"
  shows "0 < cdiv (n * i) N" "cdiv (n * i) N < i"
proof -
  have eq: "cdiv (n * i) N = n * i div N" using assms by (simp add: cdiv_nonneg)
  have "N * 1 \<le> n * i" using assms mult_mono [of 1 n N i] by simp
  then have "1 \<le> n * i div N" using assms zdiv_mono1 [of "N * 1" "n * i" N] by simp
  then show "0 < cdiv (n * i) N" using eq by simp
  have "n * i < N * i" using assms mult_strict_right_mono [of n N i] by simp
  moreover have "N * (n * i div N) \<le> n * i" using mult_div_mod_eq [of N "n * i"] pos_mod_sign [of N "n * i"] assms by linarith
  ultimately have "N * (n * i div N) < N * i" by linarith
  then show "cdiv (n * i) N < i" using eq assms by simp
qed

lemma follower_keeps_slot:
  assumes "at_position f n h" "myId h = f ! n" "distinct f" "0 < n" "Suc n < length f"
    and "slottedInitialize1 t0 drawn h p = Inr p0" "sendBeacon p = None" "int (length f) \<le> beaconingInterval p"
    and "slotted_run h c t0 p0 now q ts"
  shows "\<exists>k. ts = slot_times c (beaconingInterval p) (int n * beaconingInterval p div int (length f)) k (length ts)"
proof -
  have n: "n < length f" using assms(5) by simp
  note place = place_decides [OF assms(1-3) n]
  note init = slottedInitialize1_facts [OF assms(6)]
  have s: "slotTime p0 = cdiv (int n * beaconingInterval p) (int (length f))" using init place by simp
  have "0 < slotTime p0" "slotTime p0 < beaconingInterval p0"
    using slot_in_interval [of "int n" "int (length f)" "beaconingInterval p"] assms(4,8) n s init by simp_all
  then have "\<exists>k. ts = slot_times c (beaconingInterval p0) (slotTime p0) k (length ts)"
    using follower_in_slot [OF assms(9)] init place assms(4,5,7) by auto
  moreover have "slotTime p0 = int n * beaconingInterval p div int (length f)"
    using s n cdiv_nonneg [of "int n * beaconingInterval p" "int (length f)"] mult_nonneg_nonneg [of "int n" "beaconingInterval p"] assms(8)
    by fastforce
  ultimately show ?thesis using init by simp
qed


text \<open>The instants of two different slots are far apart, in whatever intervals they lie.\<close>

lemma slots_apart:
  fixes i N a b k l :: int
  assumes "0 \<le> a" "a < b" "b < N" "0 \<le> i"
  shows "i div N \<le> \<bar>(k * i + a * i div N) - (l * i + b * i div N)\<bar>"
proof -
  let ?A = "a * i div N" and ?B = "b * i div N" and ?g = "i div N"
  have N: "0 < N" using assms by simp
  have more: "x * i div N + ?g \<le> y * i div N" if "x < y" for x y :: int
  proof -
    have "x * i + i \<le> y * i" using that assms(4) mult_right_mono [of "x + 1" y i] by (simp add: algebra_simps)
    then have "(x * i + i) div N \<le> y * i div N" using N by (intro zdiv_mono1)
    moreover have "0 \<le> (x * i mod N + i mod N) div N"
      using N pos_mod_sign [OF N, of "x * i"] pos_mod_sign [OF N, of i] by (simp add: pos_imp_zdiv_nonneg_iff)
    ultimately show ?thesis using div_add1_eq [of "x * i" i N] by linarith
  qed
  have first: "?A + ?g \<le> ?B" using more assms(2) by simp
  have "?B + ?g \<le> N * i div N" by (rule more) (rule assms(3))
  then have last: "?B + ?g \<le> i" using N by simp
  have g: "0 \<le> ?A" "0 \<le> ?g" using assms N by (simp_all add: pos_imp_zdiv_nonneg_iff)
  show ?thesis
  proof (cases "k \<le> l")
    case True
    then have "k * i \<le> l * i" using assms(4) by (rule mult_right_mono)
    then show ?thesis using first by linarith
  next
    case False
    then have "(l + 1) * i \<le> k * i" using assms(4) by (intro mult_right_mono) simp_all
    then have "l * i + i \<le> k * i" by (simp add: algebra_simps)
    then show ?thesis using last g first by linarith
  qed
qed

text \<open>A vehicle of any place; for the leader \<open>c\<close> is the first time it sends.\<close>

lemma vehicle_in_slot:
  assumes "at_position f n h" "myId h = f ! n" "distinct f" "n < length f"
    and init: "slottedInitialize1 t0 drawn h p = Inr p0" "sendBeacon p = None" "int (length f) \<le> beaconingInterval p"
    and "n = 0 \<Longrightarrow> c = t0 + beaconingInterval p + drawn" and run: "slotted_run h c t0 p0 now q ts" and "t \<in> set ts"
  shows "\<exists>k. t = c + k * beaconingInterval p + int n * beaconingInterval p div int (length f)"
proof -
  note place = place_decides [OF assms(1-4)]
  note facts = slottedInitialize1_facts [OF init(1)]
  consider "n = 0" | "0 < n" "Suc n < length f" | "0 < n" "Suc n = length f" using assms(4) by linarith
  then show ?thesis
  proof cases
    case 1
    then have "sendBeacon p0 = Some c" using facts place assms(8) by simp
    then have "ts = slot_times c (beaconingInterval p) 0 0 (length ts)"
      using leader_in_slot [OF run] place facts 1 by simp
    then have "t \<in> set (slot_times c (beaconingInterval p) 0 0 (length ts))" using assms(10) by simp
    then show ?thesis using 1 by (auto simp: slot_times_def)
  next
    case 2
    obtain k where "ts = slot_times c (beaconingInterval p) (int n * beaconingInterval p div int (length f)) k (length ts)"
      using follower_keeps_slot [OF assms(1-3) 2 init run] by blast
    then have "t \<in> set (slot_times c (beaconingInterval p) (int n * beaconingInterval p div int (length f)) k (length ts))"
      using assms(10) by simp
    then show ?thesis by (auto simp: slot_times_def)
  next
    case 3
    then have "sendBeacon p0 = None" using facts place init(2) by simp
    then have "ts = []" using last_is_silent [OF run] place 3 by simp
    then show ?thesis using assms(10) by simp
  qed
qed

text \<open>
  C6. Beacons of different vehicles of a platoon never come closer than a slot, less the
  difference between the delays with which the two hear the leader, whatever beacons are lost. The
  platoon is formed before the vehicles initialize their beaconing, and each hears the leader with a
  delay of its own that does not change (\<open>c\<close> and \<open>c'\<close> are the starts of the intervals as the two hear
  them). A vehicle that joins later is not covered: it computes no slot (\<open>joined_vehicle_has_no_slot\<close>).\<close>

theorem slots_do_not_overlap:
  assumes "at_position f m h" "myId h = f ! m" "at_position f n h'" "myId h' = f ! n" "distinct f" "m < n" "n < length f"
    and "slottedInitialize1 t0 drawn h p = Inr p0" "sendBeacon p = None"
    and "slottedInitialize1 t0' drawn' h' p' = Inr p0'" "sendBeacon p' = None"
    and "beaconingInterval p' = beaconingInterval p" "int (length f) \<le> beaconingInterval p"
    and "slotted_run h c t0 p0 now q ts" "slotted_run h' c' t0' p0' now' q' ts'"
    and "m = 0 \<Longrightarrow> c = t0 + beaconingInterval p + drawn" "\<bar>c - c'\<bar> \<le> D"
    and "t \<in> set ts" "u \<in> set ts'"
  shows "beaconingInterval p div int (length f) - D \<le> \<bar>t - u\<bar>"
proof -
  have m: "m < length f" using assms(6,7) by simp
  obtain k where t: "t = c + k * beaconingInterval p + int m * beaconingInterval p div int (length f)"
    using vehicle_in_slot [OF assms(1,2,5) m assms(8,9,13) _ assms(14,18)] assms(16) by blast
  obtain l where u: "u = c' + l * beaconingInterval p + int n * beaconingInterval p div int (length f)"
    using vehicle_in_slot [OF assms(3,4,5,7,10,11) _ _ assms(15,19)] assms(6,12,13) by auto
  have "beaconingInterval p div int (length f)
      \<le> \<bar>(k * beaconingInterval p + int m * beaconingInterval p div int (length f)) - (l * beaconingInterval p + int n * beaconingInterval p div int (length f))\<bar>"
    using assms(6,7,13) by (intro slots_apart) simp_all
  then show ?thesis using t u assms(17) by linarith
qed

text \<open>
  The last vehicle of a platoon never sends a beacon: it is told not to follow the
  leader's beacons, and nothing else starts its timer.\<close>

theorem last_vehicle_never_sends:
  assumes "at_position f n h" "myId h = f ! n" "distinct f" "Suc n = length f" "0 < n"
    and "slottedInitialize1 t0 drawn h p = Inr p0" "sendBeacon p = None" "slotted_run h c t0 p0 now q ts"
  shows "ts = []"
proof -
  have n: "n < length f" using assms(4) by simp
  note place = place_decides [OF assms(1-3) n]
  have "sendBeacon p0 = None" using slottedInitialize1_facts [OF assms(6)] place assms(5,7) by simp
  then show ?thesis using last_is_silent [OF assms(8)] place assms(4) by simp
qed

text \<open>
  The slot is computed once: a vehicle that started alone and joined a platoon sends at
  the instant it hears the leader, without any slot, and so do all that joined like this.\<close>

theorem joined_vehicle_has_no_slot:
  assumes "at_position [v] 0 h" "myId h = v" "slottedInitialize1 t0 drawn h p = Inr p0"
    and "slotted_run h c t0 p0 now q ts" "leaderId h' = l" "\<not> isLast h'"
    and "encapsulated f = Some (PlatooningBeacon b)" "vehicleId b = l" "\<not> isDuplicated b q"
  shows "case protocolLowerMsg (slottedMessageReceived t h') t h' f q of Inl _ \<Rightarrow> False | Inr (r, as) \<Rightarrow> sendBeacon r = Some t"
proof -
  have "slotTime q = 0"
    using slotted_run_constant [OF assms(4)] slottedInitialize1_facts [OF assms(3)] assms(1) by (simp add: at_position_def cdiv_def)
  then show ?thesis using assms(5-9) by (simp add: protocolLowerMsg_beacon [OF assms(7)] slottedMessageReceived_def Let_def split_def)
qed

text \<open>Three vehicles with an interval of 300 ticks.\<close>

definition helper_in :: "int list \<Rightarrow> nat \<Rightarrow> position_helper" where
  "helper_in f n = (demo_helper (f ! n))\<lparr>formation := f, leaderId := f ! 0, position := int n, memberToPosition := positionsIn f,
     frontId := (if n = 0 then -1 else f ! (n - 1)), backId := (if Suc n = length f then -1 else f ! Suc n)\<rparr>"

definition slotted_demo :: slotted_beaconing where
  "slotted_demo = base_protocol.extend (demo_protocol\<lparr>beaconingInterval := 300\<rparr>) \<lparr>slotNumber = 0, slotTime = 0\<rparr>"

definition standing :: vehicle_data where
  "standing = \<lparr>dataIndex = 0, dataSpeed = 0, dataAcceleration = 0, dataPositionX = 0, dataPositionY = 0, dataTime = 0, dataLength = 4,
     dataU = 0, dataSpeedX = 0, dataSpeedY = 0, dataAngle = 0\<rparr>"

lemma helper_in_place: "distinct f \<Longrightarrow> n < length f \<Longrightarrow> at_position f n (helper_in f n) \<and> myId (helper_in f n) = f ! n"
  by (simp add: at_position_def helper_in_def demo_helper_def lookup_positionsIn)

lemma send_returns:
  "0 \<le> beaconingInterval p \<Longrightarrow> \<exists>q as. beaconHandleSelfMsg t d BeaconTimer p = Inr (q, as)"
  by (simp add: beaconHandleSelfMsg_def baseHandleSelfMsg_def sendPlatooningMessage_def createBeacon_def scheduleBeacon_def)

lemma hear_returns:
  "0 \<le> slotTime p \<Longrightarrow> encapsulated f = Some (PlatooningBeacon b) \<Longrightarrow> \<exists>q as. protocolLowerMsg (slottedMessageReceived t h) t h f p = Inr (q, as)"
  by (simp add: protocolLowerMsg_beacon slottedMessageReceived_def scheduleBeacon_def Let_def)

lemma demo_initialize:
  "n < 3 \<Longrightarrow> \<exists>p0. slottedInitialize1 0 0 (helper_in [7, 8, 9] n) slotted_demo = Inr p0 \<and> slotTime p0 = int n * 100 \<and> beaconingInterval p0 = 300
     \<and> sendBeacon p0 = (if n = 0 then Some 300 else None) \<and> knownBeacons p0 = Mapping.empty"
  by (auto simp: slottedInitialize1_def helper_in_def demo_helper_def slotted_demo_def demo_protocol_def base_protocol.extend_def scheduleBeacon_def
      getPlatoonSize_def isLeader_def cdiv_def less_Suc_eq numeral_3_eq_3)

text \<open>The middle vehicle hears the leader at 310 and sends at 410, and again at 710 without hearing it.\<close>

lemma demo_run:
  "\<exists>p0 q. slottedInitialize1 0 0 (helper_in [7, 8, 9] 1) slotted_demo = Inr p0 \<and> slotted_run (helper_in [7, 8, 9] 1) 310 0 p0 710 q [410, 710]"
proof -
  let ?h = "helper_in [7, 8, 9] 1"
  have place: "\<not> isLeader ?h" "\<not> isLast ?h" "leaderId ?h = 7"
    by (simp_all add: helper_in_def demo_helper_def isLeader_def isLast_def)
  obtain p0 where p0: "slottedInitialize1 0 0 ?h slotted_demo = Inr p0" "slotTime p0 = 100" "beaconingInterval p0 = 300" "sendBeacon p0 = None"
      "knownBeacons p0 = Mapping.empty" using demo_initialize [of 1] by auto
  obtain b where b: "encapsulated (plain_beacon 7 0) = Some (PlatooningBeacon b)" "vehicleId b = 7" by (auto simp: plain_beacon_def)
  obtain q as where q: "protocolLowerMsg (slottedMessageReceived 310 ?h) 310 ?h (plain_beacon 7 0) p0 = Inr (q, as)"
    using hear_returns [OF _ b(1)] p0(2) by fastforce
  have q1: "sendBeacon q = Some 410" "beaconingInterval q = 300"
    using hear_step [OF q b(1)] place p0 b(2) by (simp_all add: isDuplicated_def lookup_empty)
  have r1: "slotted_run ?h 310 0 p0 310 q []"
    by (rule run_leader [OF run_start _ _ place(1) b(1) _ _ q, of 0]) (use place p0 b(2) in simp_all)
  obtain r bs where r: "beaconHandleSelfMsg 410 standing BeaconTimer q = Inr (r, bs)" using send_returns [of q 410 standing] q1(2) by auto
  have r2: "slotted_run ?h 310 0 p0 410 r [410]" using run_send [OF r1 q1(1) r] by simp
  have s1: "sendBeacon r = Some 710" "beaconingInterval r = 300" using beacon_send_step [OF r] q1 by simp_all
  obtain s cs where s: "beaconHandleSelfMsg 710 standing BeaconTimer r = Inr (s, cs)" using send_returns [of r 710 standing] s1(2) by auto
  have "slotted_run ?h 310 0 p0 710 s [410, 710]" using run_send [OF r2 s1(1) s] by simp
  then show ?thesis using p0(1) by blast
qed

text \<open>The leader sends at 300 and 600.\<close>

lemma demo_leader_run:
  "\<exists>p0 q. slottedInitialize1 0 0 (helper_in [7, 8, 9] 0) slotted_demo = Inr p0 \<and> slotted_run (helper_in [7, 8, 9] 0) 300 0 p0 600 q [300, 600]"
proof -
  let ?h = "helper_in [7, 8, 9] 0"
  obtain p0 where p0: "slottedInitialize1 0 0 ?h slotted_demo = Inr p0" "beaconingInterval p0 = 300" "sendBeacon p0 = Some 300"
    using demo_initialize [of 0] by auto
  obtain r bs where r: "beaconHandleSelfMsg 300 standing BeaconTimer p0 = Inr (r, bs)" using send_returns [of p0 300 standing] p0(2) by auto
  have r2: "slotted_run ?h 300 0 p0 300 r [300]" using run_send [OF run_start p0(3) r] by simp
  have s1: "sendBeacon r = Some 600" "beaconingInterval r = 300" using beacon_send_step [OF r] p0 by simp_all
  obtain s cs where s: "beaconHandleSelfMsg 600 standing BeaconTimer r = Inr (s, cs)" using send_returns [of r 600 standing] s1(2) by auto
  have "slotted_run ?h 300 0 p0 600 s [300, 600]" using run_send [OF r2 s1(1) s] by simp
  then show ?thesis using p0(1) by blast
qed

lemma slotted_demo_fields [simp]: "sendBeacon slotted_demo = None" "beaconingInterval slotted_demo = 300"
  by (simp_all add: slotted_demo_def demo_protocol_def base_protocol.extend_def)


lemma slots_do_not_overlap_witness:
  "\<exists>p0 q p1 r. slottedInitialize1 0 0 (helper_in [7, 8, 9] 0) slotted_demo = Inr p0 \<and> slotted_run (helper_in [7, 8, 9] 0) 300 0 p0 600 q [300, 600]
    \<and> slottedInitialize1 0 0 (helper_in [7, 8, 9] 1) slotted_demo = Inr p1 \<and> slotted_run (helper_in [7, 8, 9] 1) 310 0 p1 710 r [410, 710]
    \<and> 100 - 10 \<le> \<bar>600 - (410 :: int)\<bar>"
proof -
  obtain p0 q p1 r where p0: "slottedInitialize1 0 0 (helper_in [7, 8, 9] 0) slotted_demo = Inr p0"
      "slotted_run (helper_in [7, 8, 9] 0) 300 0 p0 600 q [300, 600]"
    and p1: "slottedInitialize1 0 0 (helper_in [7, 8, 9] 1) slotted_demo = Inr p1"
      "slotted_run (helper_in [7, 8, 9] 1) 310 0 p1 710 r [410, 710]" using demo_run demo_leader_run by blast
  have "beaconingInterval slotted_demo div int (length [7, 8, 9 :: int]) - 10 \<le> \<bar>600 - (410 :: int)\<bar>"
    by (rule slots_do_not_overlap [where m = 0 and n = 1, OF _ _ _ _ _ _ _ p0(1) _ p1(1) _ _ _ p0(2) p1(2)])
      (use helper_in_place [of "[7, 8, 9]" 0] helper_in_place [of "[7, 8, 9]" 1] in simp_all)
  then show ?thesis using p0 p1 by auto
qed

lemma last_vehicle_never_sends_witness:
  "\<exists>p0. slottedInitialize1 0 0 (helper_in [7, 8, 9] 2) slotted_demo = Inr p0
    \<and> slotted_run (helper_in [7, 8, 9] 2) 310 0 p0 0 p0 [] \<and> \<not> slotted_run (helper_in [7, 8, 9] 2) 310 0 p0 510 p0 [510]"
proof -
  obtain p0 where p0: "slottedInitialize1 0 0 (helper_in [7, 8, 9] 2) slotted_demo = Inr p0" using demo_initialize [of 2] by auto
  have "ts = []" if "slotted_run (helper_in [7, 8, 9] 2) 310 0 p0 now q ts" for now q ts
    by (rule last_vehicle_never_sends [where f = "[7, 8, 9]" and n = 2, OF _ _ _ _ _ p0 _ that])
      (use helper_in_place [of "[7, 8, 9]" 2] in \<open>simp_all add: numeral_3_eq_3\<close>)
  then show ?thesis using p0 run_start by blast
qed

lemma joined_vehicle_has_no_slot_witness:
  "\<exists>p0. slottedInitialize1 0 0 (helper_in [8] 0) slotted_demo = Inr p0
    \<and> (case protocolLowerMsg (slottedMessageReceived 310 (helper_in [7, 8, 9] 1)) 310 (helper_in [7, 8, 9] 1) (plain_beacon 7 0) p0 of
         Inl _ \<Rightarrow> False | Inr (r, as) \<Rightarrow> sendBeacon r = Some 310)"
proof -
  obtain p0 where p0: "slottedInitialize1 0 0 (helper_in [8] 0) slotted_demo = Inr p0" and k: "knownBeacons p0 = Mapping.empty"
    by (auto simp: slottedInitialize1_def helper_in_def demo_helper_def slotted_demo_def demo_protocol_def base_protocol.extend_def
        scheduleBeacon_def getPlatoonSize_def isLeader_def cdiv_def)
  obtain b where b: "encapsulated (plain_beacon 7 0) = Some (PlatooningBeacon b)" "vehicleId b = 7" by (auto simp: plain_beacon_def)
  have "case protocolLowerMsg (slottedMessageReceived 310 (helper_in [7, 8, 9] 1)) 310 (helper_in [7, 8, 9] 1) (plain_beacon 7 0) p0 of
      Inl _ \<Rightarrow> False | Inr (r, as) \<Rightarrow> sendBeacon r = Some 310"
    by (rule joined_vehicle_has_no_slot [OF _ _ p0 run_start [where c = 0] _ _ b(1) b(2)])
      (use helper_in_place [of "[8]" 0] k in \<open>simp_all add: isDuplicated_def lookup_empty helper_in_def isLast_def demo_helper_def\<close>)
  then show ?thesis using p0 by blast
qed

section \<open>Radios and applications\<close>

text \<open>
  A frame goes to exactly the radios whose type shares a bit with the chosen
  interfaces; an application that chooses none uses the veins radio only.\<close>

theorem frames_reach_chosen_radios:
  assumes "finite (Mapping.keys (radioOuts p))"
  shows "SendRadio g f' \<in> set (handleUpperMsg f p) \<longleftrightarrow>
    f' = f \<and> (\<exists>i. Mapping.lookup (radioOuts p) i = Some g \<and> and i (case controlInterfaces f of Some j \<Rightarrow> j | None \<Rightarrow> 1) \<noteq> 0)"
proof -
  have "set (Mapping.ordered_keys (radioOuts p)) = Mapping.keys (radioOuts p)"
    using assms by (simp add: Mapping.ordered_keys_def)
  then show ?thesis
    by (auto simp: handleUpperMsg_def sendTo_def VEINS_11P_def keys_dom_lookup image_iff dom_def split: option.splits)
qed

text \<open>An application \<open>a\<close> has the gates \<open>4 * a\<close> to \<open>4 * a + 3\<close>; it registers for one kind of frame at a time.\<close>

definition registerApp :: "nat list \<times> 'a base_protocol_scheme \<Rightarrow> int \<times> nat \<Rightarrow> (nat list \<times> 'a base_protocol_scheme) result" where
  "registerApp s r = registerApplication (fst r) (4 * snd r) (4 * snd r + 1) (4 * snd r + 2) (4 * snd r + 3) (fst s) (snd s)"

text \<open>The applications in the order they came, and the place of one among them.\<close>

definition newcomer :: "nat list \<Rightarrow> int \<times> nat \<Rightarrow> nat list" where
  "newcomer as r = (if snd r \<in> set as then as else as @ [snd r])"

definition place :: "nat list \<Rightarrow> nat \<Rightarrow> nat" where
  "place as a = length (takeWhile (\<lambda>b. b \<noteq> a) as)"

lemma place_append: "place (as @ bs) a = (if a \<in> set as then place as a else length as + place bs a)"
  by (induction as) (auto simp: place_def)

lemma place_self [simp]: "place [a] a = 0"
  by (simp add: place_def)

definition gates_at :: "nat \<Rightarrow> app_gates" where
  "gates_at n = \<lparr>upperIn = UpperLayerIn n, upperOut = UpperLayerOut n, upperCntIn = UpperControlIn n, upperCntOut = UpperControlOut n\<rparr>"

definition wired_as :: "nat list \<Rightarrow> (int \<times> nat) list \<Rightarrow> nat list \<times> 'a base_protocol_scheme \<Rightarrow> bool" where
  "wired_as as rs s \<longleftrightarrow> usedGates (snd s) = length as \<and> distinct as
     \<and> (\<forall>a. \<forall>j<4. 4 * a + j \<in> set (fst s) \<longleftrightarrow> a \<in> set as)
     \<and> (\<forall>a\<in>set as. Mapping.lookup (connections (snd s)) (4 * a) = Some (UpperLayerOut (place as a))
         \<and> Mapping.lookup (connections (snd s)) (4 * a + 1) = Some (UpperLayerIn (place as a))
         \<and> Mapping.lookup (connections (snd s)) (4 * a + 2) = Some (UpperControlOut (place as a))
         \<and> Mapping.lookup (connections (snd s)) (4 * a + 3) = Some (UpperControlIn (place as a)))
     \<and> (\<forall>k. Mapping.lookup_default [] (apps (snd s)) k = map (\<lambda>r. gates_at (place as (snd r))) (filter (\<lambda>r. fst r = k) rs))
     \<and> snd ` set rs \<subseteq> set as"

lemma wired_all:
  assumes "wired_as as rs s"
  shows "list_all (\<lambda>g. g \<in> set (fst s)) [4 * a, 4 * a + 1, 4 * a + 2, 4 * a + 3] \<longleftrightarrow> a \<in> set as"
    "list_ex (\<lambda>g. g \<in> set (fst s)) [4 * a, 4 * a + 1, 4 * a + 2, 4 * a + 3] \<longleftrightarrow> a \<in> set as"
proof -
  have w: "j < 4 \<Longrightarrow> 4 * a + j \<in> set (fst s) \<longleftrightarrow> a \<in> set as" for j using assms by (simp add: wired_as_def)
  show "list_all (\<lambda>g. g \<in> set (fst s)) [4 * a, 4 * a + 1, 4 * a + 2, 4 * a + 3] \<longleftrightarrow> a \<in> set as"
    "list_ex (\<lambda>g. g \<in> set (fst s)) [4 * a, 4 * a + 1, 4 * a + 2, 4 * a + 3] \<longleftrightarrow> a \<in> set as"
    using w [of 0] w [of 1] w [of 2] w [of 3] by auto
qed

lemma apps_addApp:
  "Mapping.lookup_default [] (apps (addApp k g p)) k' =
     (if k' = k then Mapping.lookup_default [] (apps p) k @ [g] else Mapping.lookup_default [] (apps p) k')"
  by (simp add: addApp_def lookup_default_update')

lemma addApp_leaves [simp, frame_laws]:
  "usedGates (addApp k g p) = usedGates p" "connections (addApp k g p) = connections p"
  by (simp_all add: addApp_def)

lemma registerApp_known:
  assumes "wired_as as rs s" "length as < MAX_GATES_COUNT" "snd r \<in> set as"
  shows "registerApp s r = Inr (fst s, addApp (fst r) (gates_at (place as (snd r))) (snd s))"
proof -
  have "usedGates (snd s) \<noteq> MAX_GATES_COUNT" using assms(1,2) by (simp add: wired_as_def)
  then show ?thesis
    using assms(1,3) wired_all [OF assms(1), of "snd r"]
    by (simp add: registerApp_def registerApplication_def Let_def wired_as_def connectionOf_def gates_at_def)
qed

lemma registerApp_new:
  assumes "wired_as as rs s" "length as < MAX_GATES_COUNT" "snd r \<notin> set as"
  shows "\<exists>c. registerApp s r = Inr ([4 * snd r, 4 * snd r + 1, 4 * snd r + 2, 4 * snd r + 3] @ fst s,
      addApp (fst r) (gates_at (length as)) ((snd s)\<lparr>connections := c, usedGates := Suc (length as)\<rparr>))
    \<and> c = Mapping.update (4 * snd r + 3) (UpperControlIn (length as)) (Mapping.update (4 * snd r + 2) (UpperControlOut (length as))
        (Mapping.update (4 * snd r + 1) (UpperLayerIn (length as)) (Mapping.update (4 * snd r) (UpperLayerOut (length as)) (connections (snd s)))))"
proof -
  have "usedGates (snd s) = length as" "length as \<noteq> MAX_GATES_COUNT" using assms(1,2) by (simp_all add: wired_as_def)
  then show ?thesis
    using assms(3) wired_all [OF assms(1), of "snd r"]
    by (simp add: registerApp_def registerApplication_def Let_def gates_at_def)
qed

lemma registerApp_step:
  assumes "wired_as as rs s" "length (newcomer as r) \<le> MAX_GATES_COUNT" "length as < MAX_GATES_COUNT"
  shows "\<exists>s'. registerApp s r = Inr s' \<and> wired_as (newcomer as r) (rs @ [r]) s'"
proof (cases "snd r \<in> set as")
  case True
  then show ?thesis
    using registerApp_known [OF assms(1,3) True] assms(1)
    by (auto simp: wired_as_def newcomer_def apps_addApp)
next
  case False
  let ?g = "[4 * snd r, 4 * snd r + 1, 4 * snd r + 2, 4 * snd r + 3]"
  let ?c = "Mapping.update (4 * snd r + 3) (UpperControlIn (length as)) (Mapping.update (4 * snd r + 2) (UpperControlOut (length as))
        (Mapping.update (4 * snd r + 1) (UpperLayerIn (length as)) (Mapping.update (4 * snd r) (UpperLayerOut (length as)) (connections (snd s)))))"
  let ?s = "(?g @ fst s, addApp (fst r) (gates_at (length as)) ((snd s)\<lparr>connections := ?c, usedGates := Suc (length as)\<rparr>))"
  have res: "registerApp s r = Inr ?s" using registerApp_new [OF assms(1,3) False] by simp
  have old: "\<And>a. a \<in> set as \<Longrightarrow> a \<noteq> snd r" using False by auto
  have others: "Mapping.lookup ?c (4 * a + j) = Mapping.lookup (connections (snd s)) (4 * a + j)" if "a \<noteq> snd r" "j < 4" for a j
  proof -
    have "4 * snd r \<noteq> 4 * a + j" "4 * snd r + 1 \<noteq> 4 * a + j" "4 * snd r + 2 \<noteq> 4 * a + j" "4 * snd r + 3 \<noteq> 4 * a + j"
      using that by presburger+
    then show ?thesis by (simp only: lookup_update' if_False)
  qed
  have wires: "4 * a + j \<in> set (?g @ fst s) \<longleftrightarrow> a \<in> set (as @ [snd r])" if "j < 4" for a j
  proof -
    have "4 * a + j = 4 * snd r \<or> 4 * a + j = 4 * snd r + 1 \<or> 4 * a + j = 4 * snd r + 2 \<or> 4 * a + j = 4 * snd r + 3 \<longleftrightarrow> a = snd r"
      using that by presburger
    then have "4 * a + j \<in> set ?g \<longleftrightarrow> a = snd r" by simp
    then show ?thesis using assms(1) that by (auto simp: wired_as_def)
  qed
  have "wired_as (as @ [snd r]) (rs @ [r]) ?s"
    unfolding wired_as_def fst_conv snd_conv
  proof (intro conjI allI ballI impI)
    fix a assume a: "a \<in> set (as @ [snd r])"
    have l: "a \<noteq> snd r \<Longrightarrow> a \<in> set as" using a by auto
    show "Mapping.lookup (connections (addApp (fst r) (gates_at (length as)) ((snd s)\<lparr>connections := ?c, usedGates := Suc (length as)\<rparr>))) (4 * a)
        = Some (UpperLayerOut (place (as @ [snd r]) a))"
      using l others [of a 0] assms(1) False by (cases "a = snd r") (auto simp: wired_as_def place_append lookup_update')
    show "Mapping.lookup (connections (addApp (fst r) (gates_at (length as)) ((snd s)\<lparr>connections := ?c, usedGates := Suc (length as)\<rparr>))) (4 * a + 1)
        = Some (UpperLayerIn (place (as @ [snd r]) a))"
      using l others [of a 1] assms(1) False by (cases "a = snd r") (auto simp: wired_as_def place_append lookup_update')
    show "Mapping.lookup (connections (addApp (fst r) (gates_at (length as)) ((snd s)\<lparr>connections := ?c, usedGates := Suc (length as)\<rparr>))) (4 * a + 2)
        = Some (UpperControlOut (place (as @ [snd r]) a))"
      using l others [of a 2] assms(1) False by (cases "a = snd r") (auto simp: wired_as_def place_append lookup_update')
    show "Mapping.lookup (connections (addApp (fst r) (gates_at (length as)) ((snd s)\<lparr>connections := ?c, usedGates := Suc (length as)\<rparr>))) (4 * a + 3)
        = Some (UpperControlIn (place (as @ [snd r]) a))"
      using l others [of a 3] assms(1) False by (cases "a = snd r") (auto simp: wired_as_def place_append lookup_update')
  next
    fix k
    have keep: "map (\<lambda>r'. gates_at (place (as @ [snd r]) (snd r'))) (filter (\<lambda>r. fst r = k) rs)
        = map (\<lambda>r'. gates_at (place as (snd r'))) (filter (\<lambda>r. fst r = k) rs)"
      using assms(1) by (auto simp: wired_as_def place_append)
    have "Mapping.lookup_default [] (apps (snd s)) k' = map (\<lambda>r. gates_at (place as (snd r))) (filter (\<lambda>r. fst r = k') rs)" for k'
      using assms(1) by (simp add: wired_as_def)
    then show "Mapping.lookup_default [] (apps (addApp (fst r) (gates_at (length as)) ((snd s)\<lparr>connections := ?c, usedGates := Suc (length as)\<rparr>))) k
        = map (\<lambda>r'. gates_at (place (as @ [snd r]) (snd r'))) (filter (\<lambda>r. fst r = k) (rs @ [r]))"
      using keep False by (auto simp: apps_addApp place_append)
  next
    fix a j :: nat assume "j < 4"
    then show "(4 * a + j \<in> set (?g @ fst s)) = (a \<in> set (as @ [snd r]))" by (rule wires)
  qed (use assms(1) False in \<open>auto simp: wired_as_def\<close>)
  then show ?thesis using res False by (simp add: newcomer_def)
qed

lemma registrations:
  assumes "wired_as as rs s" "length (foldl newcomer as ops) < MAX_GATES_COUNT"
  shows "\<exists>s'. foldM registerApp s ops = Inr s' \<and> wired_as (foldl newcomer as ops) (rs @ ops) s'"
  using assms
proof (induction ops arbitrary: as rs s)
  case Nil
  then show ?case by simp
next
  case (Cons r ops)
  have grows: "length as \<le> length (foldl newcomer as ops)" for as ops
    by (induction ops arbitrary: as) (auto simp: newcomer_def, metis Suc_leD length_append_singleton)
  have "length (newcomer as r) < MAX_GATES_COUNT" using Cons.prems(2) grows [of "newcomer as r" ops] by simp
  moreover then have "length as < MAX_GATES_COUNT" by (simp add: newcomer_def split: if_splits)
  ultimately obtain s' where "registerApp s r = Inr s'" "wired_as (newcomer as r) (rs @ [r]) s'"
    using registerApp_step [OF Cons.prems(1)] by (meson less_imp_le)
  then show ?case using Cons.IH [of "newcomer as r" "rs @ [r]" s'] Cons.prems(2) by simp
qed

definition unregistered :: "'a base_protocol_scheme \<Rightarrow> bool" where
  "unregistered p \<longleftrightarrow> usedGates p = 0 \<and> (\<forall>k. Mapping.lookup_default [] (apps p) k = [])"

lemma wired_start: "unregistered p \<Longrightarrow> wired_as [] [] ([], p)"
  by (simp add: wired_as_def unregistered_def)

lemma forwardToApps_default: "forwardToApps f p = map (\<lambda>a. SendApp (upperOut a) f) (Mapping.lookup_default [] (apps p) (msgKind f))"
  by (simp add: forwardToApps_def Mapping.lookup_default_def split: option.split)

text \<open>
  Fewer than ten applications can register for any kinds of frames in any order: each
  gets a gate of its own, and a frame is given once for every registration for its kind, in the order
  of registration, on the gate of the application that registered.\<close>

theorem applications_get_their_frames:
  assumes "unregistered p" "length (foldl newcomer [] ops) < 10"
  shows "case foldM registerApp ([], p) ops of Inl _ \<Rightarrow> False
    | Inr (w, q) \<Rightarrow> distinct (foldl newcomer [] ops)
        \<and> forwardToApps f q = map (\<lambda>r. SendApp (UpperLayerOut (place (foldl newcomer [] ops) (snd r))) f) (filter (\<lambda>r. fst r = msgKind f) ops)"
proof -
  obtain s where s: "foldM registerApp ([], p) ops = Inr s" "wired_as (foldl newcomer [] ops) ops s"
    using registrations [OF wired_start [OF assms(1)], of ops] assms(2) by (auto simp: MAX_GATES_COUNT_def)
  then show ?thesis by (cases s) (simp add: wired_as_def forwardToApps_default gates_at_def)
qed

lemma applications_get_their_frames_witness:
  "case foldM registerApp ([], demo_protocol) [(BEACON_TYPE, 3), (5, 8), (BEACON_TYPE, 8)] of Inl _ \<Rightarrow> False
   | Inr (w, q) \<Rightarrow> forwardToApps (plain_beacon 7 0) q = [SendApp (UpperLayerOut 0) (plain_beacon 7 0), SendApp (UpperLayerOut 1) (plain_beacon 7 0)]"
proof -
  have u: "unregistered demo_protocol" by (simp add: unregistered_def demo_protocol_def lookup_default_empty)
  show ?thesis
    using applications_get_their_frames [OF u, of "[(BEACON_TYPE, 3), (5, 8), (BEACON_TYPE, 8)]" "plain_beacon 7 0"]
    by (simp add: newcomer_def place_def plain_beacon_def BEACON_TYPE_def split: sum.splits prod.splits)
qed

text \<open>
  Once ten applications have registered no application can register for a further kind,
  although one that is connected already would need no gate.\<close>

theorem connected_application_is_refused:
  assumes "usedGates p = 10"
  shows "registerApplication k i j ci cj wired p = Inl (RuntimeError ''BaseProtocol: no space left'')"
  using assms by (simp add: registerApplication_def MAX_GATES_COUNT_def Let_def)

lemma connected_application_is_refused_witness:
  "registerApplication 5 0 1 2 3 [0, 1, 2, 3] (demo_protocol\<lparr>usedGates := 10\<rparr>) = Inl (RuntimeError ''BaseProtocol: no space left'')"
  by (rule connected_application_is_refused) simp

lemma frames_reach_chosen_radios_witness:
  "SendRadio 1 (plain_beacon 7 0) \<in> set (handleUpperMsg (plain_beacon 7 0)
      (demo_protocol\<lparr>radioOuts := Mapping.update 4 0 (Mapping.update 1 1 Mapping.empty)\<rparr>))"
proof (rule iffD2 [OF frames_reach_chosen_radios])
  show "finite (Mapping.keys (radioOuts (demo_protocol\<lparr>radioOuts := Mapping.update 4 0 (Mapping.update 1 1 Mapping.empty)\<rparr>)))"
    by simp
qed (auto simp: plain_beacon_def lookup_update' intro!: exI [of _ 1])

end
