(* ===== verification/Topologies.thy ===== *)
theory Topologies
  imports Prelude Complex_Main "HOL-Library.While_Combinator"
begin

text \<open>
  The graph of a network and its shortest paths (\<open>inet/common/Topology.cc\<close>).

  \<^item> Nodes and links are numbers, as addresses are; \<open>nodeAt\<close> and \<open>linkAt\<close> are the objects at them,
    so that a change of a link is seen by both of its nodes.
  \<^item> Weights and distances are doubles that may be infinite; finite ones are real numbers.
  \<^item> The loops over work lists are \<open>while_option\<close>; \<open>None\<close> would be a loop that does not end, and
    the theorems show that they end.
  \<^item> The modules of a simulation are a parameter: a module has output gates, and a gate leads over a
    sequence of gates of further modules.
\<close>

section \<open>Weights\<close>

datatype weight = Finite real | Infinite

instantiation weight :: "{zero, plus, linorder}"
begin

definition zero_weight :: weight where "zero_weight = Finite 0"

fun plus_weight :: "weight \<Rightarrow> weight \<Rightarrow> weight" where
  "plus_weight (Finite a) (Finite b) = Finite (a + b)"
| "plus_weight Infinite b = Infinite"
| "plus_weight a Infinite = Infinite"

fun less_eq_weight :: "weight \<Rightarrow> weight \<Rightarrow> bool" where
  "less_eq_weight (Finite a) (Finite b) = (a \<le> b)"
| "less_eq_weight a Infinite = True"
| "less_eq_weight Infinite (Finite b) = False"

definition less_weight :: "weight \<Rightarrow> weight \<Rightarrow> bool" where
  "less_weight a b = (a \<le> b \<and> \<not> b \<le> (a :: weight))"

instance
proof
  fix x y z :: weight
  show "x < y \<longleftrightarrow> x \<le> y \<and> \<not> y \<le> x" by (simp add: less_weight_def)
  show "x \<le> x" by (cases x) simp_all
  show "x \<le> y \<Longrightarrow> y \<le> z \<Longrightarrow> x \<le> z" by (cases x; cases y; cases z) simp_all
  show "x \<le> y \<Longrightarrow> y \<le> x \<Longrightarrow> x = y" by (cases x; cases y) simp_all
  show "x \<le> y \<or> y \<le> x" by (cases x; cases y) auto
qed

end

lemma weight_less [simp]:
  "Finite a < Finite b \<longleftrightarrow> a < b" "Finite a < Infinite" "\<not> Infinite < w"
  unfolding less_weight_def by (cases w; auto)+

lemma weight_plus [simp]: "a + Infinite = Infinite" "Infinite + a = Infinite"
  by (cases a; simp)+

instance weight :: ordered_comm_monoid_add
proof
  fix a b c :: weight
  show "a + b + c = a + (b + c)" by (cases a; cases b; cases c) simp_all
  show "a + b = b + a" by (cases a; cases b) simp_all
  show "0 + a = a" by (cases a) (simp_all add: zero_weight_def)
  show "a \<le> b \<Longrightarrow> c + a \<le> c + b" by (cases a; cases b; cases c) simp_all
qed

section \<open>Data\<close>

record topo_node =
  moduleId :: int
  nodeWeight :: weight
  nodeEnabled :: bool
  inLinks :: "nat list"
  outLinks :: "nat list"
  pathDist :: weight
  outPaths :: "nat list"
  networkId :: int
  visited :: bool

record topo_link =
  srcNode :: "nat option"
  srcGateId :: int
  destNode :: "nat option"
  destGateId :: int
  linkWeight :: weight
  linkEnabled :: bool

record topology =
  nodes :: "nat list"
  nodeAt :: "nat \<Rightarrow> topo_node"
  linkAt :: "nat \<Rightarrow> topo_link"

text \<open>A node as it is created for a module, and a link before it is added.\<close>

definition newNode :: "int \<Rightarrow> topo_node" where
  "newNode m = \<lparr>moduleId = m, nodeWeight = 0, nodeEnabled = True, inLinks = [], outLinks = [], pathDist = Infinite, outPaths = [],
     networkId = 0, visited = False\<rparr>"

definition newLink :: topo_link where
  "newLink = \<lparr>srcNode = None, srcGateId = -1, destNode = None, destGateId = -1, linkWeight = Finite 1, linkEnabled = True\<rparr>"

definition setNode :: "nat \<Rightarrow> (topo_node \<Rightarrow> topo_node) \<Rightarrow> topology \<Rightarrow> topology" where
  "setNode n f g = g\<lparr>nodeAt := (nodeAt g)(n := f (nodeAt g n))\<rparr>"

definition setLink :: "nat \<Rightarrow> (topo_link \<Rightarrow> topo_link) \<Rightarrow> topology \<Rightarrow> topology" where
  "setLink l f g = g\<lparr>linkAt := (linkAt g)(l := f (linkAt g l))\<rparr>"

section \<open>Building a graph\<close>

definition getLinkIn :: "topology \<Rightarrow> nat \<Rightarrow> int \<Rightarrow> nat result" where
  "getLinkIn g n i =
     (if i < 0 \<or> int (length (inLinks (nodeAt g n))) \<le> i
      then Inl (RuntimeError ''Topology::Node::getLinkIn: invalid link index'') else Inr (inLinks (nodeAt g n) ! nat i))"

definition getLinkOut :: "topology \<Rightarrow> nat \<Rightarrow> int \<Rightarrow> nat result" where
  "getLinkOut g n i =
     (if i < 0 \<or> int (length (outLinks (nodeAt g n))) \<le> i
      then Inl (RuntimeError ''Topology::Node::getLinkOut: invalid index'') else Inr (outLinks (nodeAt g n) ! nat i))"

definition getNode :: "topology \<Rightarrow> int \<Rightarrow> nat result" where
  "getNode g i = (if i < 0 \<or> int (length (nodes g)) \<le> i then Inl (RuntimeError ''invalid node index'') else Inr (nodes g ! nat i))"

text \<open>Module identifiers are compared as unsigned numbers, so that -1 is the greatest.\<close>

definition unsigned32 :: "int \<Rightarrow> nat" where
  "unsigned32 m = unat (word_of_int m :: 32 word)"

definition lessByModuleId :: "topology \<Rightarrow> nat \<Rightarrow> nat \<Rightarrow> bool" where
  "lessByModuleId g a b \<longleftrightarrow> unsigned32 (moduleId (nodeAt g a)) < unsigned32 (moduleId (nodeAt g b))"

text \<open>The result of \<open>std::lower_bound\<close> on a list in that order.\<close>

definition lowerBound :: "topology \<Rightarrow> int \<Rightarrow> nat" where
  "lowerBound g m = length (takeWhile (\<lambda>n. unsigned32 (moduleId (nodeAt g n)) < unsigned32 m) (nodes g))"

definition addNode :: "nat \<Rightarrow> topology \<Rightarrow> int \<times> topology" where
  "addNode n g =
     (let m = moduleId (nodeAt g n) in
      if m = -1 then (int (length (nodes g)), g\<lparr>nodes := nodes g @ [n]\<rparr>)
      else let i = lowerBound g m in (int i, g\<lparr>nodes := take i (nodes g) @ [n] @ drop i (nodes g)\<rparr>))"

definition getNodeFor :: "topology \<Rightarrow> int \<Rightarrow> nat option" where
  "getNodeFor g m =
     (let i = lowerBound g m in
      if i = length (nodes g) then None
      else if moduleId (nodeAt g (nodes g ! i)) \<noteq> m then None else Some (nodes g ! i))"

definition unlinkFromSourceNode :: "nat \<Rightarrow> topology \<Rightarrow> topology result" where
  "unlinkFromSourceNode l g =
     (case srcNode (linkAt g l) of
        None \<Rightarrow> Inl NullPointer
      | Some s \<Rightarrow> if l \<in> set (outLinks (nodeAt g s)) then Inr (setNode s (\<lambda>n. n\<lparr>outLinks := remove1 l (outLinks n)\<rparr>) g)
                  else Inl AssertionFailed)"

definition unlinkFromDestNode :: "nat \<Rightarrow> topology \<Rightarrow> topology result" where
  "unlinkFromDestNode l g =
     (case destNode (linkAt g l) of
        None \<Rightarrow> Inl NullPointer
      | Some s \<Rightarrow> if l \<in> set (inLinks (nodeAt g s)) then Inr (setNode s (\<lambda>n. n\<lparr>inLinks := remove1 l (inLinks n)\<rparr>) g)
                  else Inl AssertionFailed)"

definition deleteNode :: "nat \<Rightarrow> topology \<Rightarrow> topology result" where
  "deleteNode n g =
     rbind (foldM (\<lambda>h l. unlinkFromDestNode l h) g (outLinks (nodeAt g n))) (\<lambda>g1.
     let g2 = setNode n (\<lambda>x. x\<lparr>outLinks := []\<rparr>) g1 in
     rbind (foldM (\<lambda>h l. unlinkFromSourceNode l h) g2 (inLinks (nodeAt g2 n))) (\<lambda>g3.
     let g4 = setNode n (\<lambda>x. x\<lparr>inLinks := []\<rparr>) g3 in
     if n \<in> set (nodes g4) then Inr (g4\<lparr>nodes := remove1 n (nodes g4)\<rparr>) else Inl AssertionFailed))"

definition detach :: "nat \<Rightarrow> topology \<Rightarrow> topology result" where
  "detach l g =
     rbind (if srcNode (linkAt g l) = None then Inr g else unlinkFromSourceNode l g) (\<lambda>g1.
            if destNode (linkAt g1 l) = None then Inr g1 else unlinkFromDestNode l g1)"

definition attach :: "nat \<Rightarrow> nat \<Rightarrow> nat \<Rightarrow> topology \<Rightarrow> topology" where
  "attach l s d g =
     setNode d (\<lambda>n. n\<lparr>inLinks := inLinks n @ [l]\<rparr>) (setNode s (\<lambda>n. n\<lparr>outLinks := outLinks n @ [l]\<rparr>)
       (setLink l (\<lambda>x. x\<lparr>srcNode := Some s, destNode := Some d\<rparr>) g))"

definition addLink :: "nat \<Rightarrow> nat \<Rightarrow> nat \<Rightarrow> topology \<Rightarrow> topology result" where
  "addLink l s d g =
     rbind (detach l g) (\<lambda>g1.
       Inr (attach l s d (setLink l (\<lambda>x. x\<lparr>srcGateId := (if srcNode x \<noteq> Some s then -1 else srcGateId x),
                                        destGateId := (if destNode x \<noteq> Some d then -1 else destGateId x)\<rparr>) g1)))"

text \<open>A gate is its module and its identifier.\<close>

definition addLinkBetweenGates :: "nat \<Rightarrow> int \<times> int \<Rightarrow> int \<times> int \<Rightarrow> topology \<Rightarrow> topology result" where
  "addLinkBetweenGates l sg dg g =
     rbind (detach l g) (\<lambda>g1.
     case getNodeFor g1 (fst sg) of
       None \<Rightarrow> Inl (RuntimeError ''cTopology::addLink: module of source gate is not in the graph'')
     | Some s \<Rightarrow>
       (case getNodeFor g1 (fst dg) of
          None \<Rightarrow> Inl (RuntimeError ''cTopology::addLink: module of destination gate is not in the graph'')
        | Some d \<Rightarrow> Inr (attach l s d (setLink l (\<lambda>x. x\<lparr>srcGateId := snd sg, destGateId := snd dg\<rparr>) g1))))"

definition deleteLink :: "nat \<Rightarrow> topology \<Rightarrow> topology result" where
  "deleteLink l g = rbind (unlinkFromSourceNode l g) (\<lambda>g1. unlinkFromDestNode l g1)"

section \<open>Shortest paths without weights\<close>

text \<open>The nodes at the ends of a link; the links in the lists of nodes have both.\<close>

definition srcOf :: "topology \<Rightarrow> nat \<Rightarrow> nat" where "srcOf g l = the (srcNode (linkAt g l))"
definition destOf :: "topology \<Rightarrow> nat \<Rightarrow> nat" where "destOf g l = the (destNode (linkAt g l))"

definition resetPaths :: "nat \<Rightarrow> topology \<Rightarrow> topology" where
  "resetPaths target g =
     setNode target (\<lambda>n. n\<lparr>pathDist := 0\<rparr>) (foldl (\<lambda>h v. setNode v (\<lambda>n. n\<lparr>pathDist := Infinite, outPaths := []\<rparr>) h) g (nodes g))"

definition addPath :: "nat \<Rightarrow> nat \<Rightarrow> topology \<Rightarrow> topology" where
  "addPath v l g = setNode v (\<lambda>n. n\<lparr>outPaths := outPaths n @ [l]\<rparr>) g"

definition visitLink :: "nat \<Rightarrow> topology \<times> nat list \<Rightarrow> nat \<Rightarrow> topology \<times> nat list" where
  "visitLink v s l =
     (case s of (g, q) \<Rightarrow>
        let w = srcOf g l in
        if \<not> linkEnabled (linkAt g l) \<or> \<not> nodeEnabled (nodeAt g w) then (g, q)
        else let (g1, q1) = (if pathDist (nodeAt g w) = Infinite
                             then (setNode w (\<lambda>n. n\<lparr>pathDist := pathDist (nodeAt g v) + Finite 1\<rparr>) g, q @ [w]) else (g, q)) in
          (if l \<in> set (outPaths (nodeAt g1 w)) then g1 else addPath w l g1, q1))"

definition visitNode :: "topology \<times> nat list \<Rightarrow> topology \<times> nat list" where
  "visitNode s = (case s of (g, q) \<Rightarrow> foldl (visitLink (hd q)) (g, tl q) (inLinks (nodeAt g (hd q))))"

text \<open>The target may be a null pointer.\<close>

definition calculateUnweightedSingleShortestPathsTo :: "nat option \<Rightarrow> topology \<Rightarrow> topology result option" where
  "calculateUnweightedSingleShortestPathsTo target g =
     (case target of
        None \<Rightarrow> Some (Inl (RuntimeError ''..ShortestPathTo(): target node is nullptr''))
      | Some t \<Rightarrow> map_option (\<lambda>s. Inr (fst s)) (while_option (\<lambda>s. snd s \<noteq> []) visitNode (resetPaths t g, [t])))"

section \<open>Shortest paths with weights\<close>

text \<open>Where a node with a new distance belongs in the ordered list.\<close>

definition insertByDist :: "topology \<Rightarrow> nat \<Rightarrow> nat list \<Rightarrow> nat list" where
  "insertByDist g r q =
     takeWhile (\<lambda>x. \<not> pathDist (nodeAt g r) < pathDist (nodeAt g x)) q @ [r] @ dropWhile (\<lambda>x. \<not> pathDist (nodeAt g r) < pathDist (nodeAt g x)) q"

definition relaxLink :: "bool \<Rightarrow> nat \<Rightarrow> nat \<Rightarrow> topology \<times> nat list \<Rightarrow> nat \<Rightarrow> (topology \<times> nat list) result" where
  "relaxLink to initial cur s l =
     (case s of (g, q) \<Rightarrow>
        let r = (if to then srcOf g l else destOf g l) in
        if \<not> linkEnabled (linkAt g l) \<or> \<not> nodeEnabled (nodeAt g r) then Inr (g, q)
        else rbind (ensure (0 < linkWeight (linkAt g l))) (\<lambda>_.
          let newdist = pathDist (nodeAt g cur) + linkWeight (linkAt g l) + (if cur \<noteq> initial then nodeWeight (nodeAt g cur) else 0) in
          if newdist \<noteq> Infinite \<and> newdist < pathDist (nodeAt g r)
          then let q1 = (if pathDist (nodeAt g r) \<noteq> Infinite then removeAll r q else q);
                   g1 = setNode r (\<lambda>n. n\<lparr>pathDist := newdist, outPaths := l # removeAll l (outPaths n)\<rparr>) g in
            Inr (g1, insertByDist g1 r q1)
          else if l \<notin> set (outPaths (nodeAt g r)) then Inr (addPath (if to then r else cur) l g, q)
          else Inr (g, q)))"

definition relaxNode :: "bool \<Rightarrow> nat \<Rightarrow> (topology \<times> nat list) result \<Rightarrow> (topology \<times> nat list) result" where
  "relaxNode to initial s =
     rbind s (\<lambda>(g, q). rbind (ensure (0 \<le> nodeWeight (nodeAt g (hd q)))) (\<lambda>_.
       foldM (relaxLink to initial (hd q)) (g, tl q) (if to then inLinks (nodeAt g (hd q)) else outLinks (nodeAt g (hd q)))))"

definition unfinished :: "(topology \<times> nat list) result \<Rightarrow> bool" where
  "unfinished s = (case s of Inl e \<Rightarrow> False | Inr (g, q) \<Rightarrow> q \<noteq> [])"

definition calculateWeightedSingleShortestPaths :: "nat option \<Rightarrow> bool \<Rightarrow> topology \<Rightarrow> topology result option" where
  "calculateWeightedSingleShortestPaths initial to g =
     (case initial of
        None \<Rightarrow> Some (Inl (RuntimeError ''calculateWeightedSingleShortestPaths(): initial node is nullptr''))
      | Some t \<Rightarrow> map_option (\<lambda>s. rbind s (\<lambda>p. Inr (fst p))) (while_option unfinished (relaxNode to t) (Inr (resetPaths t g, [t]))))"

definition calculateWeightedSingleShortestPathsTo :: "nat option \<Rightarrow> topology \<Rightarrow> topology result option" where
  "calculateWeightedSingleShortestPathsTo target g = calculateWeightedSingleShortestPaths target True g"

definition calculateWeightedSingleShortestPathsFrom :: "nat option \<Rightarrow> topology \<Rightarrow> topology result option" where
  "calculateWeightedSingleShortestPathsFrom source g = calculateWeightedSingleShortestPaths source False g"

definition getPath :: "topology \<Rightarrow> nat \<Rightarrow> nat \<Rightarrow> nat result" where
  "getPath g n i = (if i < length (outPaths (nodeAt g n)) then Inr (outPaths (nodeAt g n) ! i) else Inl OutOfRange)"

section \<open>Extraction from a simulation\<close>

text \<open>
  An output gate has an identifier and leads to the gates in its list, in this order; each is given
  by its module and identifier. Modules come in the order of their identifiers, from 0.
\<close>

record sim_module =
  simId :: int
  outputGates :: "(int \<times> (int \<times> int) list) list"

text \<open>The links of a node: an output gate whose path meets a selected module, first at the given gate.\<close>

definition followGates :: "(int \<Rightarrow> bool) \<Rightarrow> (int \<times> int) list \<Rightarrow> (int \<times> int) option" where
  "followGates pred path = find (\<lambda>p. pred (fst p)) path"

text \<open>Nodes and links are numbered in the order in which they are created.\<close>

definition discoverGate :: "(int \<Rightarrow> bool) \<Rightarrow> nat \<Rightarrow> topology \<times> nat \<Rightarrow> int \<times> (int \<times> int) list \<Rightarrow> topology \<times> nat" where
  "discoverGate pred n s gate =
     (case s of (g, k) \<Rightarrow>
       case followGates pred (snd gate) of
         None \<Rightarrow> (g, k)
       | Some (m, d) \<Rightarrow>
           (setNode n (\<lambda>x. x\<lparr>outLinks := outLinks x @ [k]\<rparr>)
             (setLink k (\<lambda>_. newLink\<lparr>srcNode := Some n, srcGateId := fst gate, destNode := getNodeFor g m, destGateId := d\<rparr>) g), Suc k))"

definition selected :: "(int \<Rightarrow> bool) \<Rightarrow> sim_module list \<Rightarrow> sim_module list" where
  "selected pred ms = filter (\<lambda>m. pred (simId m)) ms"

definition fillInLinks :: "topology \<Rightarrow> nat \<Rightarrow> topology result" where
  "fillInLinks g n =
     foldM (\<lambda>h l. case destNode (linkAt h l) of
         None \<Rightarrow> Inl NullPointer
       | Some d \<Rightarrow> Inr (setNode d (\<lambda>x. x\<lparr>inLinks := inLinks x @ [l]\<rparr>) h)) g (outLinks (nodeAt g n))"

text \<open>
  The numbering of the connected networks. A node that is not visited yet hands its number to the nodes
  that its gates are connected to directly: the path is followed for one step, since every gate has an
  owner. The recursion is bounded by fuel; one more than the number of nodes is enough, because each
  level has visited another node (\<open>findNetworks_fuel\<close>).
\<close>

definition visitGate :: "(topology \<Rightarrow> nat \<Rightarrow> topology) \<Rightarrow> nat \<Rightarrow> topology \<Rightarrow> int \<times> (int \<times> int) list \<Rightarrow> topology" where
  "visitGate go n g gate =
     (case snd gate of
        [] \<Rightarrow> g
      | (m, d) # rest \<Rightarrow>
          (let g1 = setNode n (\<lambda>x. x\<lparr>visited := True\<rparr>) g in
           case getNodeFor g1 m of
             None \<Rightarrow> g1
           | Some j \<Rightarrow>
               if visited (nodeAt g1 j) then g1
               else go (setNode j (\<lambda>x. x\<lparr>networkId := networkId (nodeAt g1 n)\<rparr>) g1) j))"

primrec findNetworks :: "nat \<Rightarrow> sim_module list \<Rightarrow> topology \<Rightarrow> nat \<Rightarrow> topology" where
  "findNetworks 0 sel g n = g"
| "findNetworks (Suc k) sel g n =
     (if visited (nodeAt g n) then g
      else foldl (visitGate (findNetworks k sel) n) g (outputGates (sel ! n)))"

definition extractFromNetwork :: "(int \<Rightarrow> bool) \<Rightarrow> sim_module list \<Rightarrow> topology result" where
  "extractFromNetwork pred ms =
     (let sel = selected pred ms;
          g0 = \<lparr>nodes = [0..<length sel],
                nodeAt = (\<lambda>i. (newNode (if i < length sel then simId (sel ! i) else -1))\<lparr>networkId := int i + 1\<rparr>),
                linkAt = (\<lambda>_. newLink)\<rparr> in
      case foldl (\<lambda>s n. foldl (discoverGate pred n) s (outputGates (sel ! n))) (g0, 0) (nodes g0) of
        (g1, k) \<Rightarrow> rbind (foldM fillInLinks g1 (nodes g1)) (\<lambda>g2.
          Inr (foldl (findNetworks (Suc (length (nodes g2))) sel) g2 (nodes g2))))"

section \<open>Graphs and walks\<close>

text \<open>Both ends of a link know it, and nothing else does.\<close>

definition wf_graph :: "topology \<Rightarrow> bool" where
  "wf_graph g \<longleftrightarrow> distinct (nodes g)
     \<and> (\<forall>n\<in>set (nodes g). distinct (outLinks (nodeAt g n)) \<and> distinct (inLinks (nodeAt g n)))
     \<and> (\<forall>n\<in>set (nodes g). \<forall>l\<in>set (outLinks (nodeAt g n)). srcNode (linkAt g l) = Some n
          \<and> (\<exists>m\<in>set (nodes g). destNode (linkAt g l) = Some m \<and> l \<in> set (inLinks (nodeAt g m))))
     \<and> (\<forall>n\<in>set (nodes g). \<forall>l\<in>set (inLinks (nodeAt g n)). destNode (linkAt g l) = Some n
          \<and> (\<exists>m\<in>set (nodes g). srcNode (linkAt g l) = Some m \<and> l \<in> set (outLinks (nodeAt g m))))"

lemma wf_outLink:
  assumes "wf_graph g" "n \<in> set (nodes g)" "l \<in> set (outLinks (nodeAt g n))"
  shows "srcOf g l = n" "destOf g l \<in> set (nodes g)" "l \<in> set (inLinks (nodeAt g (destOf g l)))"
  using assms unfolding wf_graph_def srcOf_def destOf_def by fastforce+

lemma wf_inLink:
  assumes "wf_graph g" "n \<in> set (nodes g)" "l \<in> set (inLinks (nodeAt g n))"
  shows "destOf g l = n" "srcOf g l \<in> set (nodes g)" "l \<in> set (outLinks (nodeAt g (srcOf g l)))"
  using assms unfolding wf_graph_def srcOf_def destOf_def by fastforce+

lemma setNode_simps [simp, frame_laws]:
  "nodes (setNode n f g) = nodes g" "linkAt (setNode n f g) = linkAt g"
  "nodeAt (setNode n f g) m = (if m = n then f (nodeAt g n) else nodeAt g m)"
  by (simp_all add: setNode_def)

lemma setLink_simps [simp, frame_laws]:
  "nodes (setLink l f g) = nodes g" "nodeAt (setLink l f g) = nodeAt g"
  "linkAt (setLink l f g) k = (if k = l then f (linkAt g l) else linkAt g k)"
  by (simp_all add: setLink_def)

text \<open>The same graph, with other results of the search for paths.\<close>

definition same_graph :: "topology \<Rightarrow> topology \<Rightarrow> bool" where
  "same_graph g h \<longleftrightarrow> nodes h = nodes g \<and> linkAt h = linkAt g
     \<and> (\<forall>n. inLinks (nodeAt h n) = inLinks (nodeAt g n) \<and> outLinks (nodeAt h n) = outLinks (nodeAt g n)
          \<and> nodeEnabled (nodeAt h n) = nodeEnabled (nodeAt g n) \<and> nodeWeight (nodeAt h n) = nodeWeight (nodeAt g n)
          \<and> moduleId (nodeAt h n) = moduleId (nodeAt g n))"

lemma same_graph_trans: "same_graph f g \<Longrightarrow> same_graph g h \<Longrightarrow> same_graph f h"
  by (simp add: same_graph_def)

lemma same_graph_ends:
  assumes "same_graph g h"
  shows "srcOf h l = srcOf g l" "destOf h l = destOf g l"
  using assms by (simp_all add: same_graph_def srcOf_def destOf_def)

lemma same_graph_path: "same_graph g (setNode n (\<lambda>x. x\<lparr>pathDist := d x, outPaths := ps x\<rparr>) g)"
  by (simp add: same_graph_def)

text \<open>A link that a path may use: it is enabled, and so is the node it leaves.\<close>

definition usable :: "topology \<Rightarrow> nat \<Rightarrow> bool" where
  "usable g l \<longleftrightarrow> linkEnabled (linkAt g l) \<and> nodeEnabled (nodeAt g (srcOf g l))"

fun walk :: "topology \<Rightarrow> nat \<Rightarrow> nat list \<Rightarrow> nat \<Rightarrow> bool" where
  "walk g u [] v = (u = v)"
| "walk g u (l # ls) v = (l \<in> set (outLinks (nodeAt g u)) \<and> usable g l \<and> walk g (destOf g l) ls v)"

fun walkCost :: "(nat \<Rightarrow> weight) \<Rightarrow> nat list \<Rightarrow> weight" where
  "walkCost hop [] = 0"
| "walkCost hop (l # ls) = hop l + walkCost hop ls"

text \<open>The price of a link on the way to \<open>t\<close>: its weight, and that of the node it leads to, unless that is \<open>t\<close>.\<close>

definition priceTo :: "topology \<Rightarrow> nat \<Rightarrow> nat \<Rightarrow> weight" where
  "priceTo g t l = linkWeight (linkAt g l) + (if destOf g l \<noteq> t then nodeWeight (nodeAt g (destOf g l)) else 0)"

section \<open>The invariant of both searches\<close>

definition settled :: "topology \<Rightarrow> nat list \<Rightarrow> nat set" where
  "settled g q = {v \<in> set (nodes g). pathDist (nodeAt g v) \<noteq> Infinite \<and> v \<notin> set q}"

text \<open>
  \<open>g0\<close> is the graph the search began with, \<open>t\<close> the target, \<open>hop\<close> the price of a link, and \<open>pending\<close>
  holds the links into settled nodes that have not been looked at.
\<close>

definition explored :: "(nat \<Rightarrow> weight) \<Rightarrow> topology \<Rightarrow> nat \<Rightarrow> nat set \<Rightarrow> topology \<Rightarrow> nat list \<Rightarrow> bool" where
  "explored hop g0 t pending g q \<longleftrightarrow> same_graph g0 g \<and> t \<in> set (nodes g0) \<and> pathDist (nodeAt g t) = 0
     \<and> distinct q \<and> set q \<subseteq> {v \<in> set (nodes g0). pathDist (nodeAt g v) \<noteq> Infinite}
     \<and> sorted_wrt (\<lambda>x y. pathDist (nodeAt g x) \<le> pathDist (nodeAt g y)) q
     \<and> (\<forall>v\<in>set (nodes g0). 0 \<le> pathDist (nodeAt g v))
     \<and> (\<forall>u\<in>settled g q. \<forall>l\<in>set (inLinks (nodeAt g0 u)) - pending. usable g0 l \<longrightarrow>
          pathDist (nodeAt g (srcOf g0 l)) \<le> hop l + pathDist (nodeAt g u))
     \<and> (\<forall>v\<in>set (nodes g0). pathDist (nodeAt g v) \<noteq> Infinite \<longrightarrow> v \<noteq> t \<longrightarrow>
          (\<exists>l ps. outPaths (nodeAt g v) = l # ps \<and> l \<in> set (outLinks (nodeAt g0 v)) \<and> usable g0 l \<and> destOf g0 l \<in> settled g q
            \<and> pathDist (nodeAt g v) = hop l + pathDist (nodeAt g (destOf g0 l))))
     \<and> (\<forall>s\<in>settled g q. \<forall>x\<in>set q. pathDist (nodeAt g s) \<le> pathDist (nodeAt g x))
     \<and> (\<forall>v\<in>set (nodes g0). \<forall>l\<in>set (outPaths (nodeAt g v)). l \<in> set (outLinks (nodeAt g0 v)) \<and> usable g0 l \<and> destOf g0 l \<in> settled g q)
     \<and> (\<forall>u\<in>settled g q. \<forall>l\<in>set (inLinks (nodeAt g0 u)) - pending. usable g0 l \<longrightarrow> l \<in> set (outPaths (nodeAt g (srcOf g0 l))))"

text \<open>While a node is looked at it is settled, and no settled node is farther.\<close>

definition looking_at :: "nat \<Rightarrow> topology \<Rightarrow> nat list \<Rightarrow> bool" where
  "looking_at cur g q \<longleftrightarrow> cur \<in> settled g q \<and> (\<forall>s\<in>settled g q. pathDist (nodeAt g s) \<le> pathDist (nodeAt g cur))"

lemma same_graph_refl: "same_graph g g"
  by (simp add: same_graph_def)

lemma same_graph_addPath: "same_graph g (addPath r l g)"
  by (simp add: same_graph_def addPath_def)

lemma explored_update:
  assumes wf: "wf_graph g0" and inv: "explored hop g0 t (insert l pending) g q" and look: "looking_at cur g q"
    and l: "l \<in> set (inLinks (nodeAt g0 cur))" "usable g0 l" "srcOf g0 l = r"
    and better: "hop l + pathDist (nodeAt g cur) < pathDist (nodeAt g r)" and farther: "pathDist (nodeAt g cur) < hop l + pathDist (nodeAt g cur)"
    and g': "g' = setNode r (\<lambda>n. n\<lparr>pathDist := hop l + pathDist (nodeAt g cur), outPaths := l # ps\<rparr>) g" "set (l # ps) = insert l (set (outPaths (nodeAt g r)))"
    and q': "distinct q'" "set q' = insert r (set q)" "sorted_wrt (\<lambda>x y. pathDist (nodeAt g' x) \<le> pathDist (nodeAt g' y)) q'"
  shows "explored hop g0 t pending g' q' \<and> looking_at cur g' q' \<and> settled g' q' = settled g q"
proof -
  let ?nd = "hop l + pathDist (nodeAt g cur)"
  have same: "same_graph g0 g" using inv by (simp add: explored_def)
  have same': "same_graph g0 g'" unfolding g'(1) by (rule same_graph_trans [OF same same_graph_path])
  have ns: "nodes g = nodes g0" using same by (simp add: same_graph_def)
  have cur: "cur \<in> settled g q" "\<And>s. s \<in> settled g q \<Longrightarrow> pathDist (nodeAt g s) \<le> pathDist (nodeAt g cur)"
    using look by (simp_all add: looking_at_def)
  have curN: "cur \<in> set (nodes g0)" using cur(1) ns by (simp add: settled_def)
  have finite: "?nd \<noteq> Infinite" using better by auto
  have r: "r \<in> set (nodes g0)" "destOf g0 l = cur" "l \<in> set (outLinks (nodeAt g0 r))"
    using wf_inLink [OF wf curN l(1)] l(3) by simp_all
  have unsettled: "r \<notin> settled g q"
  proof
    assume "r \<in> settled g q"
    then have "pathDist (nodeAt g r) \<le> pathDist (nodeAt g cur)" by (rule cur(2))
    then show False using better farther by (meson less_le_trans not_less order_less_trans)
  qed
  have curr: "cur \<noteq> r" using unsettled cur(1) by auto
  have t: "t \<noteq> r"
  proof
    assume "t = r"
    then have "pathDist (nodeAt g r) = 0" using inv by (simp add: explored_def)
    moreover have "0 \<le> pathDist (nodeAt g cur)" using inv curN by (simp add: explored_def)
    ultimately show False using better farther by order
  qed
  have known: "v \<in> set (nodes g0) \<Longrightarrow> k \<in> set (outPaths (nodeAt g v)) \<Longrightarrow> k \<in> set (outLinks (nodeAt g0 v)) \<and> usable g0 k \<and> destOf g0 k \<in> settled g q" for v k
    using inv by (simp add: explored_def)
  have listed: "u \<in> settled g q \<Longrightarrow> k \<in> set (inLinks (nodeAt g0 u)) \<Longrightarrow> k \<notin> pending \<Longrightarrow> usable g0 k \<Longrightarrow> k = l \<or> k \<in> set (outPaths (nodeAt g (srcOf g0 k)))" for u k
    using inv by (cases "k = l") (simp_all add: explored_def)
  have settled': "settled g' q' = settled g q"
    using unsettled q'(2) ns by (auto simp: settled_def g')
  have pathDist': "pathDist (nodeAt g' v) = (if v = r then ?nd else pathDist (nodeAt g v))" for v by (simp add: g')
  have paths': "outPaths (nodeAt g' v) = (if v = r then l # ps else outPaths (nodeAt g v))" for v by (simp add: g')
  have grown: "set (outPaths (nodeAt g' v)) = (if v = r then insert l (set (outPaths (nodeAt g v))) else set (outPaths (nodeAt g v)))" for v
  proof (cases "v = r")
    case True
    then show ?thesis using g'(2) by (simp only: paths' if_True refl)
  qed (simp add: paths')
  have closer: "pathDist (nodeAt g' v) \<le> pathDist (nodeAt g v)" for v using better by (simp add: pathDist' less_imp_le)
  have stays: "pathDist (nodeAt g' u) = pathDist (nodeAt g u)" if "u \<in> settled g q" for u using that unsettled by (auto simp: pathDist')
  have "\<forall>u\<in>settled g' q'. \<forall>k\<in>set (inLinks (nodeAt g0 u)) - pending. usable g0 k \<longrightarrow>
          pathDist (nodeAt g' (srcOf g0 k)) \<le> hop k + pathDist (nodeAt g' u)"
  proof (intro ballI impI)
    fix u k assume u: "u \<in> settled g' q'" and k: "k \<in> set (inLinks (nodeAt g0 u)) - pending" "usable g0 k"
    show "pathDist (nodeAt g' (srcOf g0 k)) \<le> hop k + pathDist (nodeAt g' u)"
    proof (cases "k = l")
      case True
      have "u \<in> settled g q" using u settled' by simp
      then have "u \<in> set (nodes g0)" using ns by (simp add: settled_def)
      then have "u = cur" using wf_inLink(1) [OF wf, of u l] k(1) True r(2) by simp
      then show ?thesis using True l(3) curr by (simp add: pathDist')
    next
      case False
      then have "pathDist (nodeAt g (srcOf g0 k)) \<le> hop k + pathDist (nodeAt g u)"
        using inv k u settled' by (simp add: explored_def)
      then show ?thesis using closer [of "srcOf g0 k"] stays [of u] u settled' by (metis order_trans)
    qed
  qed
  moreover have "\<forall>v\<in>set (nodes g0). pathDist (nodeAt g' v) \<noteq> Infinite \<longrightarrow> v \<noteq> t \<longrightarrow>
          (\<exists>k ps. outPaths (nodeAt g' v) = k # ps \<and> k \<in> set (outLinks (nodeAt g0 v)) \<and> usable g0 k \<and> destOf g0 k \<in> settled g' q'
            \<and> pathDist (nodeAt g' v) = hop k + pathDist (nodeAt g' (destOf g0 k)))"
  proof (intro ballI impI)
    fix v assume v: "v \<in> set (nodes g0)" "pathDist (nodeAt g' v) \<noteq> Infinite" "v \<noteq> t"
    show "\<exists>k ps. outPaths (nodeAt g' v) = k # ps \<and> k \<in> set (outLinks (nodeAt g0 v)) \<and> usable g0 k \<and> destOf g0 k \<in> settled g' q'
            \<and> pathDist (nodeAt g' v) = hop k + pathDist (nodeAt g' (destOf g0 k))"
    proof (cases "v = r")
      case True
      then show ?thesis using r l(2) cur(1) curr by (simp add: settled' pathDist' paths')
    next
      case False
      then obtain k ps where "outPaths (nodeAt g v) = k # ps" "k \<in> set (outLinks (nodeAt g0 v))" "usable g0 k" "destOf g0 k \<in> settled g q"
          "pathDist (nodeAt g v) = hop k + pathDist (nodeAt g (destOf g0 k))"
        using inv v by (auto simp: explored_def pathDist')
      then show ?thesis using False stays by (simp add: settled' pathDist' paths')
    qed
  qed
  moreover have "\<forall>s\<in>settled g' q'. \<forall>x\<in>set q'. pathDist (nodeAt g' s) \<le> pathDist (nodeAt g' x)"
  proof (intro ballI)
    fix s x assume s: "s \<in> settled g' q'" and x: "x \<in> set q'"
    then have "pathDist (nodeAt g s) \<le> pathDist (nodeAt g cur)" using cur(2) settled' by simp
    then have "pathDist (nodeAt g s) \<le> ?nd" using farther by simp
    moreover have "x \<noteq> r \<Longrightarrow> pathDist (nodeAt g s) \<le> pathDist (nodeAt g x)" using inv s x settled' q'(2) by (auto simp: explored_def)
    ultimately show "pathDist (nodeAt g' s) \<le> pathDist (nodeAt g' x)" using stays s settled' by (auto simp: pathDist')
  qed
  moreover have "0 \<le> ?nd"
  proof -
    have "0 \<le> pathDist (nodeAt g cur)" using inv curN by (simp add: explored_def)
    then show ?thesis using farther by order
  qed
  moreover have "set q' \<subseteq> {v \<in> set (nodes g0). pathDist (nodeAt g' v) \<noteq> Infinite}"
    using inv q'(2) r(1) finite by (auto simp: explored_def pathDist')
  moreover have "\<forall>v\<in>set (nodes g0). \<forall>k\<in>set (outPaths (nodeAt g' v)). k \<in> set (outLinks (nodeAt g0 v)) \<and> usable g0 k \<and> destOf g0 k \<in> settled g' q'"
  proof (intro ballI)
    fix v k assume v: "v \<in> set (nodes g0)" and k: "k \<in> set (outPaths (nodeAt g' v))"
    have "k \<in> set (outPaths (nodeAt g v)) \<or> v = r \<and> k = l" using k by (auto simp: grown split: if_splits)
    then show "k \<in> set (outLinks (nodeAt g0 v)) \<and> usable g0 k \<and> destOf g0 k \<in> settled g' q'"
      using known v r l(2) cur(1) settled' by blast
  qed
  moreover have "\<forall>u\<in>settled g' q'. \<forall>k\<in>set (inLinks (nodeAt g0 u)) - pending. usable g0 k \<longrightarrow> k \<in> set (outPaths (nodeAt g' (srcOf g0 k)))"
  proof (intro ballI impI)
    fix u k assume u: "u \<in> settled g' q'" and k: "k \<in> set (inLinks (nodeAt g0 u)) - pending" "usable g0 k"
    have "k = l \<or> k \<in> set (outPaths (nodeAt g (srcOf g0 k)))" using listed [of u k] u k settled' by blast
    then show "k \<in> set (outPaths (nodeAt g' (srcOf g0 k)))" using l(3) by (auto simp: grown)
  qed
  ultimately have "explored hop g0 t pending g' q'"
    using inv same' q'(1,3) t by (simp add: explored_def pathDist')
  moreover have "looking_at cur g' q'" using cur stays settled' by (simp add: looking_at_def)
  ultimately show ?thesis using settled' by simp
qed

text \<open>A link that brings nothing may become a further path of the node it leaves.\<close>

lemma explored_keep:
  assumes wf: "wf_graph g0" and inv: "explored hop g0 t (insert l pending) g q" and look: "looking_at cur g q"
    and l: "l \<in> set (inLinks (nodeAt g0 cur))" and no_gain: "usable g0 l \<Longrightarrow> pathDist (nodeAt g (srcOf g0 l)) \<le> hop l + pathDist (nodeAt g cur)"
    and g': "g' = g \<or> usable g0 l \<and> g' = addPath (srcOf g0 l) l g" "usable g0 l \<Longrightarrow> l \<in> set (outPaths (nodeAt g' (srcOf g0 l)))"
  shows "explored hop g0 t pending g' q \<and> looking_at cur g' q \<and> settled g' q = settled g q"
proof -
  have same: "same_graph g0 g" using inv by (simp add: explored_def)
  have same': "same_graph g0 g'" using g'(1) same same_graph_trans [OF same same_graph_addPath] by (elim disjE conjE) simp_all
  have pathDist': "pathDist (nodeAt g' v) = pathDist (nodeAt g v)" for v using g'(1) by (auto simp: addPath_def)
  have nodes': "nodes g' = nodes g" using g'(1) by (auto simp: addPath_def)
  have known: "v \<in> set (nodes g0) \<Longrightarrow> k \<in> set (outPaths (nodeAt g v)) \<Longrightarrow> k \<in> set (outLinks (nodeAt g0 v)) \<and> usable g0 k \<and> destOf g0 k \<in> settled g q" for v k
    using inv by (simp add: explored_def)
  have listed: "u \<in> settled g q \<Longrightarrow> k \<in> set (inLinks (nodeAt g0 u)) \<Longrightarrow> k \<notin> pending \<Longrightarrow> usable g0 k \<Longrightarrow> k = l \<or> k \<in> set (outPaths (nodeAt g (srcOf g0 k)))" for u k
    using inv by (cases "k = l") (simp_all add: explored_def)
  have settled': "settled g' q = settled g q" by (simp add: settled_def pathDist' nodes')
  have ns: "nodes g = nodes g0" using same by (simp add: same_graph_def)
  have curN: "cur \<in> set (nodes g0)" using look ns by (simp add: looking_at_def settled_def)
  have r: "l \<in> set (outLinks (nodeAt g0 (srcOf g0 l)))" "destOf g0 l = cur" using wf_inLink [OF wf curN l] by simp_all
  have "\<forall>u\<in>settled g q. \<forall>k\<in>set (inLinks (nodeAt g0 u)) - pending. usable g0 k \<longrightarrow> pathDist (nodeAt g (srcOf g0 k)) \<le> hop k + pathDist (nodeAt g u)"
  proof (intro ballI impI)
    fix u k assume u: "u \<in> settled g q" and k: "k \<in> set (inLinks (nodeAt g0 u)) - pending" "usable g0 k"
    show "pathDist (nodeAt g (srcOf g0 k)) \<le> hop k + pathDist (nodeAt g u)"
    proof (cases "k = l")
      case True
      have "u \<in> set (nodes g0)" using u ns by (simp add: settled_def)
      then have "u = cur" using wf_inLink(1) [OF wf, of u l] k(1) True r(2) by simp
      then show ?thesis using True no_gain k(2) by simp
    next
      case False
      then show ?thesis using inv k u by (simp add: explored_def)
    qed
  qed
  moreover have "\<forall>v\<in>set (nodes g0). pathDist (nodeAt g v) \<noteq> Infinite \<longrightarrow> v \<noteq> t \<longrightarrow>
          (\<exists>k ps. outPaths (nodeAt g' v) = k # ps \<and> k \<in> set (outLinks (nodeAt g0 v)) \<and> usable g0 k \<and> destOf g0 k \<in> settled g q
            \<and> pathDist (nodeAt g v) = hop k + pathDist (nodeAt g (destOf g0 k)))"
  proof (intro ballI impI)
    fix v assume v: "v \<in> set (nodes g0)" "pathDist (nodeAt g v) \<noteq> Infinite" "v \<noteq> t"
    then obtain k ps where k: "outPaths (nodeAt g v) = k # ps" "k \<in> set (outLinks (nodeAt g0 v))" "usable g0 k" "destOf g0 k \<in> settled g q"
        "pathDist (nodeAt g v) = hop k + pathDist (nodeAt g (destOf g0 k))" using inv by (auto simp: explored_def)
    have "\<exists>ps. outPaths (nodeAt g' v) = k # ps" using k(1) g'(1) by (auto simp: addPath_def)
    then show "\<exists>k ps. outPaths (nodeAt g' v) = k # ps \<and> k \<in> set (outLinks (nodeAt g0 v)) \<and> usable g0 k \<and> destOf g0 k \<in> settled g q
            \<and> pathDist (nodeAt g v) = hop k + pathDist (nodeAt g (destOf g0 k))" using k by blast
  qed
  moreover have grown: "set (outPaths (nodeAt g v)) \<subseteq> set (outPaths (nodeAt g' v))
      \<and> set (outPaths (nodeAt g' v)) \<subseteq> (if v = srcOf g0 l \<and> usable g0 l then insert l (set (outPaths (nodeAt g v))) else set (outPaths (nodeAt g v)))" for v
    using g'(1) by (cases "v = srcOf g0 l") (auto simp: addPath_def)
  moreover have "\<forall>v\<in>set (nodes g0). \<forall>k\<in>set (outPaths (nodeAt g' v)). k \<in> set (outLinks (nodeAt g0 v)) \<and> usable g0 k \<and> destOf g0 k \<in> settled g q"
  proof (intro ballI)
    fix v k assume v: "v \<in> set (nodes g0)" and "k \<in> set (outPaths (nodeAt g' v))"
    then have "k \<in> set (outPaths (nodeAt g v)) \<or> v = srcOf g0 l \<and> usable g0 l \<and> k = l" using grown [of v] by (auto split: if_splits)
    moreover have "cur \<in> settled g q" using look by (simp add: looking_at_def)
    ultimately show "k \<in> set (outLinks (nodeAt g0 v)) \<and> usable g0 k \<and> destOf g0 k \<in> settled g q"
      using known v r by blast
  qed
  moreover have "\<forall>u\<in>settled g q. \<forall>k\<in>set (inLinks (nodeAt g0 u)) - pending. usable g0 k \<longrightarrow> k \<in> set (outPaths (nodeAt g' (srcOf g0 k)))"
  proof (intro ballI impI)
    fix u k assume u: "u \<in> settled g q" and k: "k \<in> set (inLinks (nodeAt g0 u)) - pending" "usable g0 k"
    have "k = l \<or> k \<in> set (outPaths (nodeAt g (srcOf g0 k)))" using listed [of u k] u k by blast
    then show "k \<in> set (outPaths (nodeAt g' (srcOf g0 k)))" using g'(2) k(2) grown by blast
  qed
  ultimately have "explored hop g0 t pending g' q"
    using inv same' by (simp add: explored_def pathDist' settled')
  then show ?thesis using look by (simp add: looking_at_def pathDist' settled')
qed

text \<open>Taking the first node of the list.\<close>

lemma explored_pop:
  assumes wf: "wf_graph g0" and inv: "explored hop g0 t {} g (cur # q)"
  shows "explored hop g0 t (set (inLinks (nodeAt g0 cur))) g q" "looking_at cur g q" "settled g q = insert cur (settled g (cur # q))"
    "cur \<in> set (nodes g0)" "cur \<notin> settled g (cur # q)"
proof -
  have ns: "nodes g = nodes g0" using inv by (simp add: explored_def same_graph_def)
  have cur: "cur \<in> set (nodes g0)" "pathDist (nodeAt g cur) \<noteq> Infinite" "cur \<notin> set q" using inv by (auto simp: explored_def)
  show set': "settled g q = insert cur (settled g (cur # q))" using cur ns by (auto simp: settled_def)
  show "cur \<in> set (nodes g0)" "cur \<notin> settled g (cur # q)" using cur by (simp_all add: settled_def)
  have front: "\<And>s. s \<in> settled g (cur # q) \<Longrightarrow> pathDist (nodeAt g s) \<le> pathDist (nodeAt g cur)"
    using inv by (simp add: explored_def)
  then show "looking_at cur g q" by (auto simp: looking_at_def set')
  have rest: "\<And>x. x \<in> set q \<Longrightarrow> pathDist (nodeAt g cur) \<le> pathDist (nodeAt g x)" using inv by (simp add: explored_def)
  have "\<forall>u\<in>settled g q. \<forall>l\<in>set (inLinks (nodeAt g0 u)) - set (inLinks (nodeAt g0 cur)). usable g0 l \<longrightarrow>
      pathDist (nodeAt g (srcOf g0 l)) \<le> hop l + pathDist (nodeAt g u)"
    using inv unfolding set' by (auto simp: explored_def)
  moreover have "\<forall>s\<in>settled g q. \<forall>x\<in>set q. pathDist (nodeAt g s) \<le> pathDist (nodeAt g x)"
    using front rest unfolding set' by (auto intro: order_trans)
  moreover have "\<forall>v\<in>set (nodes g0). pathDist (nodeAt g v) \<noteq> Infinite \<longrightarrow> v \<noteq> t \<longrightarrow>
          (\<exists>l ps. outPaths (nodeAt g v) = l # ps \<and> l \<in> set (outLinks (nodeAt g0 v)) \<and> usable g0 l \<and> destOf g0 l \<in> settled g q
            \<and> pathDist (nodeAt g v) = hop l + pathDist (nodeAt g (destOf g0 l)))"
    using inv unfolding set' by (simp add: explored_def) blast
  moreover have "\<forall>v\<in>set (nodes g0). \<forall>l\<in>set (outPaths (nodeAt g v)). l \<in> set (outLinks (nodeAt g0 v)) \<and> usable g0 l \<and> destOf g0 l \<in> settled g q"
    "\<forall>u\<in>settled g q. \<forall>l\<in>set (inLinks (nodeAt g0 u)) - set (inLinks (nodeAt g0 cur)). usable g0 l \<longrightarrow> l \<in> set (outPaths (nodeAt g (srcOf g0 l)))"
    using inv unfolding set' by (auto simp: explored_def)
  ultimately show "explored hop g0 t (set (inLinks (nodeAt g0 cur))) g q" using inv by (simp add: explored_def)
qed

text \<open>Where the search ends, every distance is the least cost of a walk.\<close>

lemma explored_shortest:
  assumes wf: "wf_graph g0" and inv: "explored hop g0 t {} g []" and v: "v \<in> set (nodes g0)" "walk g0 v ls t"
  shows "pathDist (nodeAt g v) \<le> walkCost hop ls"
  using v
proof (induction ls arbitrary: v)
  case Nil
  then show ?case using inv by (simp add: explored_def)
next
  case (Cons l ls)
  let ?u = "destOf g0 l"
  have l: "l \<in> set (outLinks (nodeAt g0 v))" "usable g0 l" "walk g0 ?u ls t" using Cons.prems(2) by simp_all
  have u: "srcOf g0 l = v" "?u \<in> set (nodes g0)" "l \<in> set (inLinks (nodeAt g0 ?u))"
    using wf_outLink [OF wf Cons.prems(1) l(1)] by simp_all
  have le: "pathDist (nodeAt g ?u) \<le> walkCost hop ls" by (rule Cons.IH) (rule u(2), rule l(3))
  have ns: "nodes g = nodes g0" using inv by (simp add: explored_def same_graph_def)
  show ?case
  proof (cases "pathDist (nodeAt g ?u) = Infinite")
    case True
    then have "walkCost hop ls = Infinite" using le by (cases "walkCost hop ls") simp_all
    then show ?thesis by (cases "pathDist (nodeAt g v)") simp_all
  next
    case False
    then have "?u \<in> settled g []" using u(2) ns by (simp add: settled_def)
    then have "pathDist (nodeAt g v) \<le> hop l + pathDist (nodeAt g ?u)" using inv u l(2) by (auto simp: explored_def)
    also have "\<dots> \<le> hop l + walkCost hop ls" by (rule add_left_mono) (rule le)
    finally show ?thesis by simp
  qed
qed

definition positive_hops :: "(nat \<Rightarrow> weight) \<Rightarrow> topology \<Rightarrow> bool" where
  "positive_hops hop g \<longleftrightarrow> (\<forall>v\<in>set (nodes g). \<forall>l\<in>set (outLinks (nodeAt g v)). 0 < hop l)"

lemma plus_farther: "0 < w \<Longrightarrow> d \<noteq> Infinite \<Longrightarrow> d < w + (d :: weight)"
  by (cases d; cases w) (simp_all add: zero_weight_def)

text \<open>Following the first path of every node leads to the target, at the cost of the distance.\<close>

lemma explored_follow:
  assumes wf: "wf_graph g0" and inv: "explored hop g0 t {} g []" and pos: "positive_hops hop g0"
    and v: "v \<in> set (nodes g0)" "pathDist (nodeAt g v) \<noteq> Infinite"
  shows "\<exists>ls. walk g0 v ls t \<and> walkCost hop ls = pathDist (nodeAt g v)"
  using v
proof (induction "card {x \<in> set (nodes g0). pathDist (nodeAt g x) < pathDist (nodeAt g v)}" arbitrary: v rule: less_induct)
  case less
  show ?case
  proof (cases "v = t")
    case True
    then have "walk g0 v [] t \<and> walkCost hop [] = pathDist (nodeAt g v)" using inv by (simp add: explored_def)
    then show ?thesis by blast
  next
    case False
    then obtain l where l: "l \<in> set (outLinks (nodeAt g0 v))" "usable g0 l" "destOf g0 l \<in> settled g []"
        "pathDist (nodeAt g v) = hop l + pathDist (nodeAt g (destOf g0 l))"
      using inv less.prems unfolding explored_def by blast
    let ?u = "destOf g0 l"
    have u: "?u \<in> set (nodes g0)" "pathDist (nodeAt g ?u) \<noteq> Infinite"
      using l(3) inv by (auto simp: settled_def explored_def same_graph_def)
    have lt: "pathDist (nodeAt g ?u) < pathDist (nodeAt g v)"
      using l(1,4) u(2) pos less.prems(1) plus_farther by (simp add: positive_hops_def)
    have "{x \<in> set (nodes g0). pathDist (nodeAt g x) < pathDist (nodeAt g ?u)} \<subset> {x \<in> set (nodes g0). pathDist (nodeAt g x) < pathDist (nodeAt g v)}"
      using lt u(1) by (auto intro: order_less_trans)
    then have "card {x \<in> set (nodes g0). pathDist (nodeAt g x) < pathDist (nodeAt g ?u)}
        < card {x \<in> set (nodes g0). pathDist (nodeAt g x) < pathDist (nodeAt g v)}" by (intro psubset_card_mono) simp_all
    then obtain ls where "walk g0 ?u ls t" "walkCost hop ls = pathDist (nodeAt g ?u)" using less.hyps u by blast
    then have "walk g0 v (l # ls) t \<and> walkCost hop (l # ls) = pathDist (nodeAt g v)" using l by simp
    then show ?thesis by blast
  qed
qed

section \<open>The weighted search\<close>

text \<open>Insertion keeps the list in the order of distances.\<close>

lemma insertByDist_set: "set (insertByDist g r q) = insert r (set q)"
proof -
  have "set (takeWhile P q) \<union> set (dropWhile P q) = set q" for P
    by (metis set_append takeWhile_dropWhile_id)
  then show ?thesis by (auto simp: insertByDist_def)
qed

lemma insertByDist_distinct: "distinct q \<Longrightarrow> r \<notin> set q \<Longrightarrow> distinct (insertByDist g r q)"
proof -
  assume q: "distinct q" "r \<notin> set q"
  then have "set (takeWhile P q) \<inter> set (dropWhile P q) = {}" for P by (metis distinct_append takeWhile_dropWhile_id)
  then show ?thesis using q by (auto simp: insertByDist_def dest: set_takeWhileD set_dropWhileD)
qed

lemma insertByDist_sorted:
  assumes "sorted_wrt (\<lambda>x y. pathDist (nodeAt g x) \<le> pathDist (nodeAt g y)) q"
  shows "sorted_wrt (\<lambda>x y. pathDist (nodeAt g x) \<le> pathDist (nodeAt g y)) (insertByDist g r q)"
  using assms
proof (induction q)
  case Nil
  then show ?case by (simp add: insertByDist_def)
next
  case (Cons x q)
  show ?case
  proof (cases "pathDist (nodeAt g r) < pathDist (nodeAt g x)")
    case True
    then show ?thesis using Cons.prems by (auto simp: insertByDist_def)
  next
    case False
    then have "insertByDist g r (x # q) = x # insertByDist g r q" by (simp add: insertByDist_def)
    then show ?thesis using Cons False by (auto simp: insertByDist_set)
  qed
qed

lemma sorted_removeAll: "sorted_wrt P q \<Longrightarrow> sorted_wrt P (removeAll r q)"
  by (induction q) auto

lemma sorted_cong: "(\<And>x. x \<in> set q \<Longrightarrow> f x = g x) \<Longrightarrow> sorted_wrt (\<lambda>x y. f x \<le> (f y :: weight)) q \<Longrightarrow> sorted_wrt (\<lambda>x y. g x \<le> g y) q"
  by (induction q) auto

text \<open>The weights of a graph on which the search is meant to work.\<close>

definition positive_weights :: "topology \<Rightarrow> bool" where
  "positive_weights g \<longleftrightarrow> (\<forall>n\<in>set (nodes g). 0 \<le> nodeWeight (nodeAt g n) \<and> (\<forall>l\<in>set (outLinks (nodeAt g n)). 0 < linkWeight (linkAt g l)))"

lemma positive_price:
  assumes "wf_graph g" "positive_weights g"
  shows "positive_hops (priceTo g t) g"
proof -
  have "0 < priceTo g t l" if "v \<in> set (nodes g)" "l \<in> set (outLinks (nodeAt g v))" for v l
  proof -
    have "0 < linkWeight (linkAt g l)" using assms(2) that by (simp add: positive_weights_def)
    moreover have "0 \<le> nodeWeight (nodeAt g (destOf g l))" using assms(2) wf_outLink(2) [OF assms(1) that] by (simp add: positive_weights_def)
    ultimately show ?thesis by (simp add: priceTo_def add_pos_nonneg)
  qed
  then show ?thesis by (simp add: positive_hops_def)
qed

lemma relax_step:
  assumes wf: "wf_graph g0" and pos: "positive_weights g0"
    and inv: "explored (priceTo g0 t) g0 t (insert l pending) g q" and look: "looking_at cur g q" and l: "l \<in> set (inLinks (nodeAt g0 cur))"
  shows "\<exists>g' q'. relaxLink True t cur (g, q) l = Inr (g', q') \<and> explored (priceTo g0 t) g0 t pending g' q' \<and> looking_at cur g' q'
    \<and> settled g' q' = settled g q"
proof -
  have same: "same_graph g0 g" using inv by (simp add: explored_def)
  have cur: "cur \<in> set (nodes g0)" "pathDist (nodeAt g cur) \<noteq> Infinite"
    using look same by (simp_all add: looking_at_def settled_def same_graph_def)
  let ?r = "srcOf g0 l" let ?nd = "pathDist (nodeAt g cur) + linkWeight (linkAt g0 l) + (if cur \<noteq> t then nodeWeight (nodeAt g0 cur) else 0)"
  have ends: "srcOf g l = ?r" "destOf g0 l = cur" "?r \<in> set (nodes g0)" "l \<in> set (outLinks (nodeAt g0 ?r))"
    using wf_inLink [OF wf cur(1) l] same_graph_ends [OF same] by simp_all
  have static: "linkAt g = linkAt g0" "nodeEnabled (nodeAt g ?r) = nodeEnabled (nodeAt g0 ?r)" "nodeWeight (nodeAt g cur) = nodeWeight (nodeAt g0 cur)"
    using same by (simp_all add: same_graph_def)
  have nd: "?nd = priceTo g0 t l + pathDist (nodeAt g cur)" using ends by (simp add: priceTo_def ac_simps)
  have hop: "0 < priceTo g0 t l" using positive_price [OF wf pos, of t] ends by (simp add: positive_hops_def)
  have w: "0 < linkWeight (linkAt g0 l)" using pos ends by (simp add: positive_weights_def)
  show ?thesis
  proof (cases "usable g0 l")
    case False
    then have "relaxLink True t cur (g, q) l = Inr (g, q)" using ends static by (simp add: relaxLink_def usable_def Let_def)
    then show ?thesis using explored_keep [OF wf inv look l] False by blast
  next
    case usable: True
    let ?q1 = "if pathDist (nodeAt g ?r) \<noteq> Infinite then removeAll ?r q else q"
    let ?g1 = "setNode ?r (\<lambda>n. n\<lparr>pathDist := ?nd, outPaths := l # removeAll l (outPaths n)\<rparr>) g"
    have eq: "relaxLink True t cur (g, q) l =
        (if ?nd \<noteq> Infinite \<and> ?nd < pathDist (nodeAt g ?r) then Inr (?g1, insertByDist ?g1 ?r ?q1)
         else Inr (if l \<notin> set (outPaths (nodeAt g ?r)) then addPath ?r l g else g, q))"
      using usable w ends static by (simp only: relaxLink_def usable_def Let_def prod.case if_True simp_thms ensure_simps rbind_simps) simp
    show ?thesis
    proof (cases "?nd \<noteq> Infinite \<and> ?nd < pathDist (nodeAt g ?r)")
      case True
      define q1 where "q1 = (if pathDist (nodeAt g ?r) \<noteq> Infinite then removeAll ?r q else q)"
      define g1 where "g1 = setNode ?r (\<lambda>n. n\<lparr>pathDist := ?nd, outPaths := l # removeAll l (outPaths n)\<rparr>) g"
      have q: "distinct q" "sorted_wrt (\<lambda>x y. pathDist (nodeAt g x) \<le> pathDist (nodeAt g y)) q" "pathDist (nodeAt g ?r) = Infinite \<Longrightarrow> ?r \<notin> set q"
        using inv by (auto simp: explored_def)
      have q1: "distinct q1" "?r \<notin> set q1" "insert ?r (set q1) = insert ?r (set q)" using q by (auto simp: q1_def distinct_removeAll)
      have "sorted_wrt (\<lambda>x y. pathDist (nodeAt g x) \<le> pathDist (nodeAt g y)) q1" using q(2) by (simp add: q1_def sorted_removeAll)
      then have s1: "sorted_wrt (\<lambda>x y. pathDist (nodeAt g1 x) \<le> pathDist (nodeAt g1 y)) q1"
        by (rule sorted_cong [rotated]) (use q1(2) in \<open>auto simp: g1_def\<close>)
      have "relaxLink True t cur (g, q) l = Inr (g1, insertByDist g1 ?r q1)"
        unfolding eq if_P [OF True] q1_def g1_def by (rule refl)
      moreover have "explored (priceTo g0 t) g0 t pending g1 (insertByDist g1 ?r q1) \<and> looking_at cur g1 (insertByDist g1 ?r q1)
          \<and> settled g1 (insertByDist g1 ?r q1) = settled g q"
      proof (rule explored_update [OF wf inv look l usable refl])
        show "priceTo g0 t l + pathDist (nodeAt g cur) < pathDist (nodeAt g ?r)" using True nd by simp
        show "pathDist (nodeAt g cur) < priceTo g0 t l + pathDist (nodeAt g cur)" by (rule plus_farther [OF hop cur(2)])
        show "g1 = setNode ?r (\<lambda>n. n\<lparr>pathDist := priceTo g0 t l + pathDist (nodeAt g cur), outPaths := l # removeAll l (outPaths (nodeAt g ?r))\<rparr>) g"
          by (simp add: g1_def setNode_def nd)
        show "set (l # removeAll l (outPaths (nodeAt g ?r))) = insert l (set (outPaths (nodeAt g ?r)))" by auto
      qed (use q1 s1 in \<open>simp_all add: insertByDist_distinct insertByDist_set insertByDist_sorted\<close>)
      ultimately show ?thesis by blast
    next
      case False
      then have le: "pathDist (nodeAt g ?r) \<le> priceTo g0 t l + pathDist (nodeAt g cur)"
        unfolding nd by (cases "priceTo g0 t l + pathDist (nodeAt g cur) = Infinite") (cases "pathDist (nodeAt g ?r)", auto simp: not_less)
      have "relaxLink True t cur (g, q) l = Inr (if l \<notin> set (outPaths (nodeAt g ?r)) then addPath ?r l g else g, q)"
        unfolding eq if_not_P [OF False] by (rule refl)
      then show ?thesis using explored_keep [OF wf inv look l le, of "if l \<notin> set (outPaths (nodeAt g ?r)) then addPath ?r l g else g"] usable by (auto simp: addPath_def)
    qed
  qed
qed

lemma relax_links:
  assumes wf: "wf_graph g0" and pos: "positive_weights g0" and "explored (priceTo g0 t) g0 t (set ls) g q" "looking_at cur g q"
    and "set ls \<subseteq> set (inLinks (nodeAt g0 cur))" "distinct ls"
  shows "\<exists>g' q'. foldM (relaxLink True t cur) (g, q) ls = Inr (g', q') \<and> explored (priceTo g0 t) g0 t {} g' q' \<and> looking_at cur g' q'
    \<and> settled g q \<subseteq> settled g' q'"
  using assms(3-)
proof (induction ls arbitrary: g q)
  case Nil
  then show ?case by simp
next
  case (Cons l ls)
  have "explored (priceTo g0 t) g0 t (insert l (set ls)) g q" using Cons.prems(1) by simp
  then obtain g' q' where step: "relaxLink True t cur (g, q) l = Inr (g', q')" "explored (priceTo g0 t) g0 t (set ls) g' q'" "looking_at cur g' q'"
      "settled g' q' = settled g q"
    using relax_step [OF wf pos _ Cons.prems(2), of t l "set ls"] Cons.prems(3) by auto
  then show ?case using Cons.IH [OF step(2,3)] Cons.prems by auto
qed

lemma reset_fold:
  "same_graph g (foldl (\<lambda>h v. setNode v (\<lambda>n. n\<lparr>pathDist := Infinite, outPaths := []\<rparr>) h) g ns)
   \<and> (\<forall>v\<in>set ns. pathDist (nodeAt (foldl (\<lambda>h v. setNode v (\<lambda>n. n\<lparr>pathDist := Infinite, outPaths := []\<rparr>) h) g ns) v) = Infinite
        \<and> outPaths (nodeAt (foldl (\<lambda>h v. setNode v (\<lambda>n. n\<lparr>pathDist := Infinite, outPaths := []\<rparr>) h) g ns) v) = [])"
proof (induction ns rule: rev_induct)
  case Nil
  show ?case by (simp add: same_graph_refl)
next
  case (snoc n ns)
  then show ?case using same_graph_trans [OF _ same_graph_path] by auto
qed

lemma reset_paths:
  "same_graph g (resetPaths t g)"
  "v \<in> set (nodes g) \<Longrightarrow> v \<noteq> t \<Longrightarrow> pathDist (nodeAt (resetPaths t g) v) = Infinite"
  "pathDist (nodeAt (resetPaths t g) t) = 0"
  "v \<in> set (nodes g) \<Longrightarrow> outPaths (nodeAt (resetPaths t g) v) = []"
proof -
  have "same_graph h (setNode t (\<lambda>n. n\<lparr>pathDist := 0\<rparr>) h)" for h by (simp add: same_graph_def)
  then show "same_graph g (resetPaths t g)" using reset_fold same_graph_trans unfolding resetPaths_def by blast
qed (use reset_fold [of g "nodes g"] in \<open>auto simp: resetPaths_def\<close>)

lemma explored_start:
  assumes "wf_graph g" "t \<in> set (nodes g)"
  shows "explored hop g t {} (resetPaths t g) [t]"
proof -
  have ns: "nodes (resetPaths t g) = nodes g" using reset_paths(1) by (simp add: same_graph_def)
  have d: "v \<in> set (nodes g) \<Longrightarrow> pathDist (nodeAt (resetPaths t g) v) = (if v = t then 0 else Infinite)" for v
    using reset_paths by simp
  have "settled (resetPaths t g) [t] = {}" by (auto simp: settled_def ns d)
  then show ?thesis
    using assms reset_paths by (auto simp: explored_def d zero_weight_def)
qed

text \<open>What both searches promise.\<close>

definition shortest_paths :: "(nat \<Rightarrow> weight) \<Rightarrow> topology \<Rightarrow> nat \<Rightarrow> topology \<Rightarrow> bool" where
  "shortest_paths hop g t h \<longleftrightarrow> same_graph g h \<and> pathDist (nodeAt h t) = 0
     \<and> (\<forall>v\<in>set (nodes g). (\<forall>ls. walk g v ls t \<longrightarrow> pathDist (nodeAt h v) \<le> walkCost hop ls)
          \<and> (pathDist (nodeAt h v) \<noteq> Infinite \<longrightarrow> (\<exists>ls. walk g v ls t \<and> walkCost hop ls = pathDist (nodeAt h v)))
          \<and> set (outPaths (nodeAt h v)) = {l \<in> set (outLinks (nodeAt g v)). usable g l \<and> pathDist (nodeAt h (destOf g l)) \<noteq> Infinite}
          \<and> (pathDist (nodeAt h v) \<noteq> Infinite \<longrightarrow> v \<noteq> t \<longrightarrow>
              (\<exists>l ps. outPaths (nodeAt h v) = l # ps \<and> l \<in> set (outLinks (nodeAt g v)) \<and> usable g l \<and> destOf g l \<in> set (nodes g)
                \<and> pathDist (nodeAt h (destOf g l)) \<noteq> Infinite \<and> pathDist (nodeAt h v) = hop l + pathDist (nodeAt h (destOf g l)))))"

lemma explored_result:
  assumes wf: "wf_graph g" and inv: "explored hop g t {} h []" and pos: "positive_hops hop g"
  shows "shortest_paths hop g t h"
proof -
  have set: "settled h [] = {v \<in> set (nodes g). pathDist (nodeAt h v) \<noteq> Infinite}"
    using inv by (auto simp: settled_def explored_def same_graph_def)
  have "\<exists>l ps. outPaths (nodeAt h v) = l # ps \<and> l \<in> set (outLinks (nodeAt g v)) \<and> usable g l \<and> destOf g l \<in> set (nodes g)
      \<and> pathDist (nodeAt h (destOf g l)) \<noteq> Infinite \<and> pathDist (nodeAt h v) = hop l + pathDist (nodeAt h (destOf g l))"
    if v: "v \<in> set (nodes g)" "pathDist (nodeAt h v) \<noteq> Infinite" "v \<noteq> t" for v
  proof -
    obtain l ps where "outPaths (nodeAt h v) = l # ps" "l \<in> set (outLinks (nodeAt g v))" "usable g l" "destOf g l \<in> settled h []"
        "pathDist (nodeAt h v) = hop l + pathDist (nodeAt h (destOf g l))"
      using inv v unfolding explored_def by blast
    then show ?thesis by (simp add: set)
  qed
  moreover have "set (outPaths (nodeAt h v)) = {l \<in> set (outLinks (nodeAt g v)). usable g l \<and> pathDist (nodeAt h (destOf g l)) \<noteq> Infinite}"
    if v: "v \<in> set (nodes g)" for v
  proof -
    have "l \<in> set (outPaths (nodeAt h v))" if "l \<in> set (outLinks (nodeAt g v))" "usable g l" "pathDist (nodeAt h (destOf g l)) \<noteq> Infinite" for l
      using that wf_outLink [OF wf v that(1)] inv by (auto simp: explored_def set)
    then show ?thesis using inv v by (auto simp: explored_def set)
  qed
  ultimately show ?thesis
    using explored_shortest [OF wf inv] explored_follow [OF wf inv pos] inv by (simp add: shortest_paths_def explored_def)
qed

lemma relaxNode_step:
  assumes wf: "wf_graph g0" and pos: "positive_weights g0" and inv: "explored (priceTo g0 t) g0 t {} g (cur # q)"
  shows "\<exists>g' q'. relaxNode True t (Inr (g, cur # q)) = Inr (g', q') \<and> explored (priceTo g0 t) g0 t {} g' q'
    \<and> card (set (nodes g0) - settled g' q') < card (set (nodes g0) - settled g (cur # q))"
proof -
  note pop = explored_pop [OF wf inv]
  have same: "inLinks (nodeAt g cur) = inLinks (nodeAt g0 cur)" "nodeWeight (nodeAt g cur) = nodeWeight (nodeAt g0 cur)"
    using inv by (simp_all add: explored_def same_graph_def)
  have "distinct (inLinks (nodeAt g0 cur))" using wf pop(4) by (simp add: wf_graph_def)
  then obtain g' q' where step: "foldM (relaxLink True t cur) (g, q) (inLinks (nodeAt g0 cur)) = Inr (g', q')"
      "explored (priceTo g0 t) g0 t {} g' q'" "settled g q \<subseteq> settled g' q'"
    using relax_links [OF wf pos pop(1,2)] by auto
  have "0 \<le> nodeWeight (nodeAt g0 cur)" using pos pop(4) by (simp add: positive_weights_def)
  then have "relaxNode True t (Inr (g, cur # q)) = Inr (g', q')" using step(1) by (simp add: relaxNode_def same)
  moreover have "card (set (nodes g0) - settled g' q') < card (set (nodes g0) - settled g (cur # q))"
    using step(3) pop(3,4,5) by (intro psubset_card_mono) auto
  ultimately show ?thesis using step(2) by blast
qed

definition open_nodes :: "topology \<Rightarrow> (topology \<times> nat list) result \<Rightarrow> nat" where
  "open_nodes g0 s = (case s of Inl e \<Rightarrow> 0 | Inr (g, q) \<Rightarrow> card (set (nodes g0) - settled g q))"

lemma weighted_search:
  assumes wf: "wf_graph g" and pos: "positive_weights g" and t: "t \<in> set (nodes g)"
  obtains h where "calculateWeightedSingleShortestPathsTo (Some t) g = Some (Inr h)" "shortest_paths (priceTo g t) g t h"
proof -
  let ?P = "\<lambda>s. \<exists>h q. s = Inr (h, q) \<and> explored (priceTo g t) g t {} h q"
  have step: "?P (relaxNode True t s) \<and> open_nodes g (relaxNode True t s) < open_nodes g s" if P: "?P s" and b: "unfinished s" for s
  proof -
    obtain h cur q where s: "s = Inr (h, cur # q)" "explored (priceTo g t) g t {} h (cur # q)"
      using P b by (auto simp: unfinished_def neq_Nil_conv)
    then show ?thesis using relaxNode_step [OF wf pos s(2)] by (fastforce simp: open_nodes_def)
  qed
  have start: "?P (Inr (resetPaths t g, [t]))" using explored_start [OF wf t] by blast
  have "\<exists>s. while_option unfinished (relaxNode True t) (Inr (resetPaths t g, [t])) = Some s"
    by (rule measure_while_option_Some [where P = ?P and f = "open_nodes g", OF _ start]) (rule step)
  then obtain s where s: "while_option unfinished (relaxNode True t) (Inr (resetPaths t g, [t])) = Some s" by blast
  have "?P s" by (rule while_option_rule [where P = ?P, OF _ s start]) (use step in blast)
  moreover have "\<not> unfinished s" by (rule while_option_stop [OF s])
  ultimately obtain h where "s = Inr (h, [])" "explored (priceTo g t) g t {} h []" by (auto simp: unfinished_def)
  then show ?thesis
    using that [of h] s explored_result [OF wf _ positive_price [OF wf pos]]
    by (simp add: calculateWeightedSingleShortestPathsTo_def calculateWeightedSingleShortestPaths_def)
qed

section \<open>The search without weights\<close>

text \<open>What it keeps in addition: paths are the links into settled nodes, and the list spans one step.\<close>

definition bfs_paths :: "topology \<Rightarrow> nat set \<Rightarrow> topology \<Rightarrow> nat list \<Rightarrow> bool" where
  "bfs_paths g0 pending g q \<longleftrightarrow>
     (\<forall>v\<in>set (nodes g0). distinct (outPaths (nodeAt g v)) \<and> (pathDist (nodeAt g v) = Infinite \<longrightarrow> outPaths (nodeAt g v) = [])
        \<and> (\<forall>l\<in>set (outPaths (nodeAt g v)). usable g0 l \<and> destOf g0 l \<in> settled g q))
     \<and> (\<forall>u\<in>settled g q. \<forall>l\<in>set (inLinks (nodeAt g0 u)) - pending. usable g0 l \<longrightarrow> l \<in> set (outPaths (nodeAt g (srcOf g0 l))))"

abbreviation one_hop :: "nat \<Rightarrow> weight" where "one_hop \<equiv> \<lambda>_. Finite 1"

lemma visit_step:
  assumes wf: "wf_graph g0" and inv: "explored one_hop g0 t (insert l pending) g q" and look: "looking_at cur g q"
    and l: "l \<in> set (inLinks (nodeAt g0 cur))" and bfs: "bfs_paths g0 (insert l pending) g q"
    and near: "\<And>x. x \<in> set q \<Longrightarrow> pathDist (nodeAt g x) \<le> Finite 1 + pathDist (nodeAt g cur)"
  shows "\<exists>g' q'. visitLink cur (g, q) l = (g', q') \<and> explored one_hop g0 t pending g' q' \<and> looking_at cur g' q'
    \<and> settled g' q' = settled g q \<and> bfs_paths g0 pending g' q' \<and> (\<forall>x\<in>set q'. pathDist (nodeAt g' x) \<le> Finite 1 + pathDist (nodeAt g' cur))"
proof -
  have same: "same_graph g0 g" using inv by (simp add: explored_def)
  have cur: "cur \<in> set (nodes g0)" "pathDist (nodeAt g cur) \<noteq> Infinite" "cur \<in> settled g q"
    using look same by (simp_all add: looking_at_def settled_def same_graph_def)
  let ?r = "srcOf g0 l"
  have ends: "srcOf g l = ?r" "destOf g0 l = cur" "?r \<in> set (nodes g0)" "l \<in> set (outLinks (nodeAt g0 ?r))"
    using wf_inLink [OF wf cur(1) l] same_graph_ends [OF same] by simp_all
  have static: "linkAt g = linkAt g0" "nodeEnabled (nodeAt g ?r) = nodeEnabled (nodeAt g0 ?r)" using same by (simp_all add: same_graph_def)
  have only: "u = cur" if "u \<in> settled g q" "l \<in> set (inLinks (nodeAt g0 u))" for u
    using that wf_inLink(1) [OF wf, of u l] ends(2) same by (auto simp: settled_def same_graph_def)
  show ?thesis
  proof (cases "usable g0 l")
    case False
    then have "visitLink cur (g, q) l = (g, q)" using ends static by (auto simp: visitLink_def usable_def Let_def)
    moreover have "bfs_paths g0 pending g q" using bfs False by (auto simp: bfs_paths_def)
    ultimately show ?thesis using explored_keep [OF wf inv look l] False near by blast
  next
    case usable: True
    show ?thesis
    proof (cases "pathDist (nodeAt g ?r) = Infinite")
      case True
      have out: "outPaths (nodeAt g ?r) = []" using bfs True ends(3) by (simp add: bfs_paths_def)
      let ?nd = "Finite 1 + pathDist (nodeAt g cur)"
      define g1 where "g1 = setNode ?r (\<lambda>n. n\<lparr>pathDist := ?nd, outPaths := l # []\<rparr>) g"
      have nd: "pathDist (nodeAt g cur) < ?nd" "?nd < pathDist (nodeAt g ?r)" "pathDist (nodeAt g cur) + Finite 1 = ?nd"
        using cur(2) True by (cases "pathDist (nodeAt g cur)"; simp)+
      have neq: "?r \<noteq> cur" using True cur(2) by auto
      have q: "distinct q" "?r \<notin> set q" "sorted_wrt (\<lambda>x y. pathDist (nodeAt g x) \<le> pathDist (nodeAt g y)) q"
        using inv True by (auto simp: explored_def)
      have sorted: "sorted_wrt (\<lambda>x y. pathDist (nodeAt g1 x) \<le> pathDist (nodeAt g1 y)) (q @ [?r])"
      proof -
        have "sorted_wrt (\<lambda>x y. pathDist (nodeAt g1 x) \<le> pathDist (nodeAt g1 y)) q"
          by (rule sorted_cong [OF _ q(3)]) (use q(2) in \<open>auto simp: g1_def\<close>)
        moreover have "\<forall>x\<in>set q. pathDist (nodeAt g1 x) \<le> pathDist (nodeAt g1 ?r)" using near q(2) by (auto simp: g1_def)
        ultimately show ?thesis by (simp add: sorted_wrt_append)
      qed
      have "visitLink cur (g, q) l = (g1, q @ [?r])"
        using usable True ends static out nd(3) by (simp add: visitLink_def usable_def Let_def g1_def addPath_def setNode_def)
      moreover have exp: "explored one_hop g0 t pending g1 (q @ [?r]) \<and> looking_at cur g1 (q @ [?r]) \<and> settled g1 (q @ [?r]) = settled g q"
        by (rule explored_update [OF wf inv look l usable refl nd(2,1) g1_def]) (use q sorted out in auto)
      moreover have "bfs_paths g0 pending g1 (q @ [?r])"
      proof -
        have unique: "k = l" if "u \<in> settled g q" "k \<in> set (inLinks (nodeAt g0 u))" "k \<notin> pending" "usable g0 k" "srcOf g0 k = ?r" for u k
          using that bfs out unfolding bfs_paths_def by fastforce
        then show ?thesis
          using bfs usable ends cur(3) exp only nd by (auto simp: bfs_paths_def g1_def)
      qed
      moreover have "\<forall>x\<in>set (q @ [?r]). pathDist (nodeAt g1 x) \<le> Finite 1 + pathDist (nodeAt g1 cur)"
        using near neq by (auto simp: g1_def)
      ultimately show ?thesis by blast
    next
      case False
      define g1 where "g1 = (if l \<in> set (outPaths (nodeAt g ?r)) then g else addPath ?r l g)"
      have "pathDist (nodeAt g ?r) \<le> Finite 1 + pathDist (nodeAt g cur)"
      proof (cases "?r \<in> set q")
        case True
        then show ?thesis by (rule near)
      next
        case notin: False
        then have "?r \<in> settled g q" using False ends(3) same by (simp add: settled_def same_graph_def)
        then have "pathDist (nodeAt g ?r) \<le> pathDist (nodeAt g cur)" using look by (simp add: looking_at_def)
        moreover have "pathDist (nodeAt g cur) \<le> Finite 1 + pathDist (nodeAt g cur)" by (cases "pathDist (nodeAt g cur)") simp_all
        ultimately show ?thesis by order
      qed
      moreover have "g1 = g \<or> usable g0 l \<and> g1 = addPath ?r l g" "l \<in> set (outPaths (nodeAt g1 ?r))" using usable by (auto simp: g1_def addPath_def)
      ultimately have exp: "explored one_hop g0 t pending g1 q \<and> looking_at cur g1 q \<and> settled g1 q = settled g q"
        using explored_keep [OF wf inv look l, of g1] by blast
      moreover have "visitLink cur (g, q) l = (g1, q)"
        using usable False ends static by (simp add: visitLink_def usable_def Let_def g1_def)
      moreover have "bfs_paths g0 pending g1 q"
      proof -
        have old: "k = l \<or> k \<in> set (outPaths (nodeAt g (srcOf g0 k)))"
          if "u \<in> settled g q" "k \<in> set (inLinks (nodeAt g0 u))" "k \<notin> pending" "usable g0 k" for u k
          using that bfs unfolding bfs_paths_def by fastforce
        have g1_paths: "outPaths (nodeAt g1 v) = (if v = ?r \<and> l \<notin> set (outPaths (nodeAt g ?r)) then outPaths (nodeAt g v) @ [l] else outPaths (nodeAt g v))"
          "pathDist (nodeAt g1 v) = pathDist (nodeAt g v)" for v by (auto simp: g1_def addPath_def)
        have set1: "settled g1 q = settled g q" using exp by simp
        have "k \<in> set (outPaths (nodeAt g1 (srcOf g0 k)))"
          if "u \<in> settled g q" "k \<in> set (inLinks (nodeAt g0 u))" "k \<notin> pending" "usable g0 k" for u k
          using old [OF that] by (auto simp: g1_paths)
        then show ?thesis
          using bfs usable ends(2) cur(3) False unfolding bfs_paths_def g1_paths set1 by auto
      qed
      moreover have "\<forall>x\<in>set q. pathDist (nodeAt g1 x) \<le> Finite 1 + pathDist (nodeAt g1 cur)"
        using near by (auto simp: g1_def addPath_def)
      ultimately show ?thesis by blast
    qed
  qed
qed

lemma visit_links:
  assumes wf: "wf_graph g0" and "explored one_hop g0 t (set ls) g q" "looking_at cur g q" "bfs_paths g0 (set ls) g q"
    and "\<forall>x\<in>set q. pathDist (nodeAt g x) \<le> Finite 1 + pathDist (nodeAt g cur)"
    and "set ls \<subseteq> set (inLinks (nodeAt g0 cur))" "distinct ls"
  shows "\<exists>g' q'. foldl (visitLink cur) (g, q) ls = (g', q') \<and> explored one_hop g0 t {} g' q' \<and> looking_at cur g' q'
    \<and> bfs_paths g0 {} g' q' \<and> settled g q \<subseteq> settled g' q' \<and> (\<forall>x\<in>set q'. pathDist (nodeAt g' x) \<le> Finite 1 + pathDist (nodeAt g' cur))"
  using assms(2-)
proof (induction ls arbitrary: g q)
  case Nil
  then show ?case by simp
next
  case (Cons l ls)
  have inv: "explored one_hop g0 t (insert l (set ls)) g q" "bfs_paths g0 (insert l (set ls)) g q" using Cons.prems(1,3) by simp_all
  have l: "l \<in> set (inLinks (nodeAt g0 cur))" using Cons.prems(5) by simp
  obtain g' q' where step: "visitLink cur (g, q) l = (g', q')" "explored one_hop g0 t (set ls) g' q'" "looking_at cur g' q'"
      "settled g' q' = settled g q" "bfs_paths g0 (set ls) g' q'" "\<forall>x\<in>set q'. pathDist (nodeAt g' x) \<le> Finite 1 + pathDist (nodeAt g' cur)"
    using visit_step [OF wf inv(1) Cons.prems(2) l inv(2)] Cons.prems(4) by blast
  then show ?case using Cons.IH [OF step(2,3,5,6)] Cons.prems by auto
qed

text \<open>The list spans at most one step.\<close>

definition narrow :: "topology \<Rightarrow> nat list \<Rightarrow> bool" where
  "narrow g q \<longleftrightarrow> (\<forall>x\<in>set q. \<forall>y\<in>set q. pathDist (nodeAt g x) \<le> Finite 1 + pathDist (nodeAt g y))"

lemma visitNode_step:
  assumes wf: "wf_graph g0" and inv: "explored one_hop g0 t {} g (cur # q)" "bfs_paths g0 {} g (cur # q)" "narrow g (cur # q)"
  shows "\<exists>g' q'. visitNode (g, cur # q) = (g', q') \<and> explored one_hop g0 t {} g' q' \<and> bfs_paths g0 {} g' q' \<and> narrow g' q'
    \<and> card (set (nodes g0) - settled g' q') < card (set (nodes g0) - settled g (cur # q))"
proof -
  note pop = explored_pop [OF wf inv(1)]
  have same: "inLinks (nodeAt g cur) = inLinks (nodeAt g0 cur)" using inv by (simp add: explored_def same_graph_def)
  have "distinct (inLinks (nodeAt g0 cur))" using wf pop(4) by (simp add: wf_graph_def)
  moreover have "bfs_paths g0 (set (inLinks (nodeAt g0 cur))) g q"
    using inv(2) unfolding bfs_paths_def pop(3) by auto
  moreover have "\<forall>x\<in>set q. pathDist (nodeAt g x) \<le> Finite 1 + pathDist (nodeAt g cur)" using inv(3) by (simp add: narrow_def)
  ultimately obtain g' q' where step: "foldl (visitLink cur) (g, q) (inLinks (nodeAt g0 cur)) = (g', q')"
      "explored one_hop g0 t {} g' q'" "looking_at cur g' q'" "bfs_paths g0 {} g' q'" "settled g q \<subseteq> settled g' q'"
      "\<forall>x\<in>set q'. pathDist (nodeAt g' x) \<le> Finite 1 + pathDist (nodeAt g' cur)"
    using visit_links [OF wf pop(1,2)] by auto
  have "narrow g' q'" unfolding narrow_def
  proof (intro ballI)
    fix x y assume x: "x \<in> set q'" and y: "y \<in> set q'"
    have "pathDist (nodeAt g' cur) \<le> pathDist (nodeAt g' y)" using step(2,3) y by (simp add: explored_def looking_at_def)
    then have "Finite 1 + pathDist (nodeAt g' cur) \<le> Finite 1 + pathDist (nodeAt g' y)" by (rule add_left_mono)
    then show "pathDist (nodeAt g' x) \<le> Finite 1 + pathDist (nodeAt g' y)" using step(6) x by (meson order_trans)
  qed
  moreover have "visitNode (g, cur # q) = (g', q')" using step(1) by (simp add: visitNode_def same)
  moreover have "card (set (nodes g0) - settled g' q') < card (set (nodes g0) - settled g (cur # q))"
    using step(5) pop(3,4,5) by (intro psubset_card_mono) auto
  ultimately show ?thesis using step(2,4) by blast
qed

lemma unweighted_search:
  assumes wf: "wf_graph g" and t: "t \<in> set (nodes g)"
  obtains h where "calculateUnweightedSingleShortestPathsTo (Some t) g = Some (Inr h)" "shortest_paths one_hop g t h"
    "\<And>v. v \<in> set (nodes g) \<Longrightarrow> distinct (outPaths (nodeAt h v))"
proof -
  let ?P = "\<lambda>s. \<exists>h q. s = (h, q) \<and> explored one_hop g t {} h q \<and> bfs_paths g {} h q \<and> narrow h q"
  let ?f = "\<lambda>s. card (set (nodes g) - settled (fst s) (snd s))"
  have step: "?P (visitNode s) \<and> ?f (visitNode s) < ?f s" if P: "?P s" and b: "snd s \<noteq> []" for s
  proof -
    obtain h cur q where s: "s = (h, cur # q)" "explored one_hop g t {} h (cur # q)" "bfs_paths g {} h (cur # q)" "narrow h (cur # q)"
      using P b by (auto simp: neq_Nil_conv)
    then show ?thesis using visitNode_step [OF wf s(2-4)] by fastforce
  qed
  have "bfs_paths g {} (resetPaths t g) [t]"
  proof -
    have "settled (resetPaths t g) [t] = {}"
      using reset_paths(1,2) by (auto simp: settled_def same_graph_def)
    then show ?thesis using reset_paths(4) by (auto simp: bfs_paths_def)
  qed
  moreover have "narrow (resetPaths t g) [t]"
    by (cases "pathDist (nodeAt (resetPaths t g) t)") (simp_all add: narrow_def)
  ultimately have start: "?P (resetPaths t g, [t])" using explored_start [OF wf t] by blast
  have "\<exists>s. while_option (\<lambda>s. snd s \<noteq> []) visitNode (resetPaths t g, [t]) = Some s"
    by (rule measure_while_option_Some [where P = ?P and f = ?f, OF _ start]) (rule step)
  then obtain s where s: "while_option (\<lambda>s. snd s \<noteq> []) visitNode (resetPaths t g, [t]) = Some s" by blast
  have "?P s" by (rule while_option_rule [where P = ?P, OF _ s start]) (use step in blast)
  moreover have "snd s = []" using while_option_stop [OF s] by simp
  ultimately obtain h where h: "s = (h, [])" "explored one_hop g t {} h []" "bfs_paths g {} h []" by auto
  have "positive_hops one_hop g" by (simp add: positive_hops_def zero_weight_def)
  note sp = explored_result [OF wf h(2) this]
  have set: "settled h [] = {v \<in> set (nodes g). pathDist (nodeAt h v) \<noteq> Infinite}"
    using h(2) by (auto simp: settled_def explored_def same_graph_def)
  show ?thesis
  proof (rule that [OF _ sp])
    show "calculateUnweightedSingleShortestPathsTo (Some t) g = Some (Inr h)"
      using s h(1) by (simp add: calculateUnweightedSingleShortestPathsTo_def)
    fix v assume v: "v \<in> set (nodes g)"
    then show "distinct (outPaths (nodeAt h v))" using h(3) by (simp add: bfs_paths_def)
  qed
qed

text \<open>
  C10. On a network graph with positive weights the search with weights ends without an error, its
  distances are the least costs of walks to the target, and the first path of every other node that
  reaches the target at finite cost starts such a walk; the paths of a node are the usable links that
  lead to nodes that reach it.\<close>

theorem weighted_paths_are_shortest:
  assumes "wf_graph g" "positive_weights g" "t \<in> set (nodes g)"
  shows "case calculateWeightedSingleShortestPathsTo (Some t) g of Some (Inr h) \<Rightarrow> shortest_paths (priceTo g t) g t h | _ \<Rightarrow> False"
  using weighted_search [OF assms] by (metis (no_types, lifting) option.simps(5) sum.case(2))

text \<open>
  C29. On any network graph the search without weights ends, its distances are the least numbers of
  links, and the first path of a node starts a shortest walk.\<close>

theorem unweighted_paths_are_shortest:
  assumes "wf_graph g" "t \<in> set (nodes g)"
  shows "case calculateUnweightedSingleShortestPathsTo (Some t) g of Some (Inr h) \<Rightarrow> shortest_paths (\<lambda>_. Finite 1) g t h | _ \<Rightarrow> False"
  using unweighted_search [OF assms] by (metis (no_types, lifting) option.simps(5) sum.case(2))

text \<open>Three nodes: 0 and 1 are joined both ways, and so are 1 and 2; link 4 leads from 0 to 2 directly, at a high price.\<close>

definition demo_node :: "int \<Rightarrow> nat list \<Rightarrow> nat list \<Rightarrow> topo_node" where
  "demo_node m ins outs = (newNode m)\<lparr>inLinks := ins, outLinks := outs\<rparr>"

definition demo_link :: "nat \<Rightarrow> nat \<Rightarrow> weight \<Rightarrow> topo_link" where
  "demo_link s d w = newLink\<lparr>srcNode := Some s, destNode := Some d, linkWeight := w\<rparr>"

definition demo_graph :: "weight \<Rightarrow> topology" where
  "demo_graph w = \<lparr>nodes = [0, 1, 2],
     nodeAt = (\<lambda>n. if n = 0 then demo_node 5 [1] [0, 4] else if n = 1 then demo_node 6 [0, 3] [1, 2] else demo_node 7 [2, 4] [3]),
     linkAt = (\<lambda>l. if l = 0 then demo_link 0 1 (Finite 1) else if l = 1 then demo_link 1 0 (Finite 1)
        else if l = 2 then demo_link 1 2 (Finite 1) else if l = 3 then demo_link 2 1 (Finite 1) else demo_link 0 2 w)\<rparr>"

lemma demo_graph_wf: "wf_graph (demo_graph w)"
  by (simp add: wf_graph_def demo_graph_def demo_node_def demo_link_def newNode_def newLink_def)

lemma demo_graph_positive: "0 < w \<Longrightarrow> positive_weights (demo_graph w)"
  by (simp add: positive_weights_def demo_graph_def demo_node_def demo_link_def newNode_def newLink_def zero_weight_def)

lemma weighted_paths_are_shortest_witness:
  "case calculateWeightedSingleShortestPathsTo (Some 2) (demo_graph (Finite 5)) of
     Some (Inr h) \<Rightarrow> shortest_paths (priceTo (demo_graph (Finite 5)) 2) (demo_graph (Finite 5)) 2 h | _ \<Rightarrow> False"
  by (rule weighted_paths_are_shortest [OF demo_graph_wf demo_graph_positive])
    (simp_all add: zero_weight_def demo_graph_def)

lemma unweighted_paths_are_shortest_witness:
  "case calculateUnweightedSingleShortestPathsTo (Some 2) (demo_graph (Finite 5)) of
     Some (Inr h) \<Rightarrow> shortest_paths (\<lambda>_. Finite 1) (demo_graph (Finite 5)) 2 h | _ \<Rightarrow> False"
  by (rule unweighted_paths_are_shortest [OF demo_graph_wf]) (simp add: demo_graph_def)

section \<open>Removing nodes\<close>

text \<open>Nothing changes but the links of nodes.\<close>

definition same_frame :: "topology \<Rightarrow> topology \<Rightarrow> bool" where
  "same_frame g h \<longleftrightarrow> linkAt h = linkAt g \<and> (\<forall>m. moduleId (nodeAt h m) = moduleId (nodeAt g m)
     \<and> nodeEnabled (nodeAt h m) = nodeEnabled (nodeAt g m) \<and> nodeWeight (nodeAt h m) = nodeWeight (nodeAt g m))"

lemma unlink_dests:
  assumes "distinct ls" "\<forall>m\<in>N. distinct (inLinks (nodeAt g m))"
    and "\<forall>l\<in>set ls. \<exists>d\<in>N. destNode (linkAt g l) = Some d \<and> l \<in> set (inLinks (nodeAt g d))"
  shows "\<exists>h. foldM (\<lambda>h l. unlinkFromDestNode l h) g ls = Inr h \<and> same_frame g h \<and> nodes h = nodes g
    \<and> (\<forall>m\<in>N. outLinks (nodeAt h m) = outLinks (nodeAt g m)
         \<and> inLinks (nodeAt h m) = filter (\<lambda>l. \<not> (l \<in> set ls \<and> destNode (linkAt g l) = Some m)) (inLinks (nodeAt g m)))"
  using assms
proof (induction ls arbitrary: g)
  case Nil
  then show ?case by (simp add: same_frame_def)
next
  case (Cons l ls)
  obtain d where d: "d \<in> N" "destNode (linkAt g l) = Some d" "l \<in> set (inLinks (nodeAt g d))" using Cons.prems(3) by auto
  define g1 where "g1 = setNode d (\<lambda>n. n\<lparr>inLinks := remove1 l (inLinks n)\<rparr>) g"
  have step: "unlinkFromDestNode l g = Inr g1" using d by (simp add: unlinkFromDestNode_def g1_def)
  have in1: "inLinks (nodeAt g1 m) = (if m = d then filter (\<lambda>k. k \<noteq> l) (inLinks (nodeAt g m)) else inLinks (nodeAt g m))" for m
    using Cons.prems(2) d(1) by (auto simp: g1_def distinct_remove1_removeAll removeAll_filter_not_eq intro!: filter_cong)
  have other: "linkAt g1 = linkAt g" "nodes g1 = nodes g" "\<And>m. outLinks (nodeAt g1 m) = outLinks (nodeAt g m)" "same_frame g g1"
    by (auto simp: g1_def same_frame_def)
  have rest1: "\<forall>m\<in>N. distinct (inLinks (nodeAt g1 m))" using Cons.prems(2) by (simp add: in1)
  have rest2: "\<forall>k\<in>set ls. \<exists>e\<in>N. destNode (linkAt g1 k) = Some e \<and> k \<in> set (inLinks (nodeAt g1 e))"
  proof
    fix k assume k: "k \<in> set ls"
    then obtain e where "e \<in> N" "destNode (linkAt g k) = Some e" "k \<in> set (inLinks (nodeAt g e))" using Cons.prems(3) by auto
    moreover have "k \<noteq> l" using Cons.prems(1) k by auto
    ultimately show "\<exists>e\<in>N. destNode (linkAt g1 k) = Some e \<and> k \<in> set (inLinks (nodeAt g1 e))"
      by (intro bexI [of _ e]) (auto simp: in1 other)
  qed
  obtain h where h: "foldM (\<lambda>h l. unlinkFromDestNode l h) g1 ls = Inr h" "same_frame g1 h" "nodes h = nodes g1"
      "\<forall>m\<in>N. outLinks (nodeAt h m) = outLinks (nodeAt g1 m)
         \<and> inLinks (nodeAt h m) = filter (\<lambda>l. \<not> (l \<in> set ls \<and> destNode (linkAt g1 l) = Some m)) (inLinks (nodeAt g1 m))"
    using Cons.IH [of g1] rest1 rest2 Cons.prems(1) by auto
  have "inLinks (nodeAt h m) = filter (\<lambda>k. \<not> (k \<in> set (l # ls) \<and> destNode (linkAt g k) = Some m)) (inLinks (nodeAt g m))" if "m \<in> N" for m
    using h(4) that d by (simp add: in1 other) (auto intro!: filter_cong)
  then show ?case using h step other by (auto simp: same_frame_def)
qed

lemma unlink_srcs:
  assumes "distinct ls" "\<forall>m\<in>N. distinct (outLinks (nodeAt g m))"
    and "\<forall>l\<in>set ls. \<exists>d\<in>N. srcNode (linkAt g l) = Some d \<and> l \<in> set (outLinks (nodeAt g d))"
  shows "\<exists>h. foldM (\<lambda>h l. unlinkFromSourceNode l h) g ls = Inr h \<and> same_frame g h \<and> nodes h = nodes g
    \<and> (\<forall>m\<in>N. inLinks (nodeAt h m) = inLinks (nodeAt g m)
         \<and> outLinks (nodeAt h m) = filter (\<lambda>l. \<not> (l \<in> set ls \<and> srcNode (linkAt g l) = Some m)) (outLinks (nodeAt g m)))"
  using assms
proof (induction ls arbitrary: g)
  case Nil
  then show ?case by (simp add: same_frame_def)
next
  case (Cons l ls)
  obtain d where d: "d \<in> N" "srcNode (linkAt g l) = Some d" "l \<in> set (outLinks (nodeAt g d))" using Cons.prems(3) by auto
  define g1 where "g1 = setNode d (\<lambda>n. n\<lparr>outLinks := remove1 l (outLinks n)\<rparr>) g"
  have step: "unlinkFromSourceNode l g = Inr g1" using d by (simp add: unlinkFromSourceNode_def g1_def)
  have out1: "outLinks (nodeAt g1 m) = (if m = d then filter (\<lambda>k. k \<noteq> l) (outLinks (nodeAt g m)) else outLinks (nodeAt g m))" for m
    using Cons.prems(2) d(1) by (auto simp: g1_def distinct_remove1_removeAll removeAll_filter_not_eq intro!: filter_cong)
  have other: "linkAt g1 = linkAt g" "nodes g1 = nodes g" "\<And>m. inLinks (nodeAt g1 m) = inLinks (nodeAt g m)" "same_frame g g1"
    by (auto simp: g1_def same_frame_def)
  have rest1: "\<forall>m\<in>N. distinct (outLinks (nodeAt g1 m))" using Cons.prems(2) by (simp add: out1)
  have rest2: "\<forall>k\<in>set ls. \<exists>e\<in>N. srcNode (linkAt g1 k) = Some e \<and> k \<in> set (outLinks (nodeAt g1 e))"
  proof
    fix k assume k: "k \<in> set ls"
    then obtain e where "e \<in> N" "srcNode (linkAt g k) = Some e" "k \<in> set (outLinks (nodeAt g e))" using Cons.prems(3) by auto
    moreover have "k \<noteq> l" using Cons.prems(1) k by auto
    ultimately show "\<exists>e\<in>N. srcNode (linkAt g1 k) = Some e \<and> k \<in> set (outLinks (nodeAt g1 e))"
      by (intro bexI [of _ e]) (auto simp: out1 other)
  qed
  obtain h where h: "foldM (\<lambda>h l. unlinkFromSourceNode l h) g1 ls = Inr h" "same_frame g1 h" "nodes h = nodes g1"
      "\<forall>m\<in>N. inLinks (nodeAt h m) = inLinks (nodeAt g1 m)
         \<and> outLinks (nodeAt h m) = filter (\<lambda>l. \<not> (l \<in> set ls \<and> srcNode (linkAt g1 l) = Some m)) (outLinks (nodeAt g1 m))"
    using Cons.IH [of g1] rest1 rest2 Cons.prems(1) by auto
  have "outLinks (nodeAt h m) = filter (\<lambda>k. \<not> (k \<in> set (l # ls) \<and> srcNode (linkAt g k) = Some m)) (outLinks (nodeAt g m))" if "m \<in> N" for m
    using h(4) that d by (simp add: out1 other) (auto intro!: filter_cong)
  then show ?case using h step other by (auto simp: same_frame_def)
qed
text \<open>The graph without a node: its links are gone at both ends, and the other links are as before.\<close>

definition without :: "nat \<Rightarrow> topology \<Rightarrow> topology \<Rightarrow> bool" where
  "without n g h \<longleftrightarrow> same_frame g h \<and> nodes h = remove1 n (nodes g)
     \<and> (\<forall>m\<in>set (nodes h). outLinks (nodeAt h m) = filter (\<lambda>l. destOf g l \<noteq> n) (outLinks (nodeAt g m))
          \<and> inLinks (nodeAt h m) = filter (\<lambda>l. srcOf g l \<noteq> n) (inLinks (nodeAt g m)))"

lemma wf_outNode:
  assumes "wf_graph g" "n \<in> set (nodes g)" "l \<in> set (outLinks (nodeAt g n))"
  shows "srcNode (linkAt g l) = Some n" "destNode (linkAt g l) = Some (destOf g l)"
  using assms unfolding wf_graph_def destOf_def by fastforce+

lemma wf_inNode:
  assumes "wf_graph g" "n \<in> set (nodes g)" "l \<in> set (inLinks (nodeAt g n))"
  shows "destNode (linkAt g l) = Some n" "srcNode (linkAt g l) = Some (srcOf g l)"
  using assms unfolding wf_graph_def srcOf_def by fastforce+

lemma deleteNode_without:
  assumes wf: "wf_graph g" and n: "n \<in> set (nodes g)"
  shows "\<exists>h. deleteNode n g = Inr h \<and> without n g h"
proof -
  have ls: "\<forall>l\<in>set (outLinks (nodeAt g n)). \<exists>d\<in>set (nodes g). destNode (linkAt g l) = Some d \<and> l \<in> set (inLinks (nodeAt g d))"
    and dist: "distinct (outLinks (nodeAt g n))" "\<forall>m\<in>set (nodes g). distinct (inLinks (nodeAt g m))" "\<forall>m\<in>set (nodes g). distinct (outLinks (nodeAt g m))"
    using wf n by (auto simp: wf_graph_def)
  obtain g1 where g1: "foldM (\<lambda>h l. unlinkFromDestNode l h) g (outLinks (nodeAt g n)) = Inr g1" "same_frame g g1" "nodes g1 = nodes g"
      "\<And>m. m \<in> set (nodes g) \<Longrightarrow> outLinks (nodeAt g1 m) = outLinks (nodeAt g m)
         \<and> inLinks (nodeAt g1 m) = filter (\<lambda>l. \<not> (l \<in> set (outLinks (nodeAt g n)) \<and> destNode (linkAt g l) = Some m)) (inLinks (nodeAt g m))"
    using unlink_dests [OF dist(1,2) ls] by auto
  have in1: "inLinks (nodeAt g1 m) = filter (\<lambda>l. srcOf g l \<noteq> n) (inLinks (nodeAt g m))" if "m \<in> set (nodes g)" for m
  proof -
    have "l \<in> set (outLinks (nodeAt g n)) \<and> destNode (linkAt g l) = Some m \<longleftrightarrow> srcOf g l = n" if "l \<in> set (inLinks (nodeAt g m))" for l
      using wf_inLink [OF wf \<open>m \<in> set (nodes g)\<close> that] wf_inNode [OF wf \<open>m \<in> set (nodes g)\<close> that] wf_outLink(1) [OF wf n, of l] by auto
    then show ?thesis using g1(4) [OF that] by (auto intro!: filter_cong)
  qed
  define g2 where "g2 = setNode n (\<lambda>x. x\<lparr>outLinks := []\<rparr>) g1"
  have in2: "inLinks (nodeAt g2 n) = filter (\<lambda>l. srcOf g l \<noteq> n) (inLinks (nodeAt g n))" by (simp add: g2_def in1 n)
  have links2: "linkAt g2 = linkAt g" using g1(2) by (simp add: g2_def same_frame_def)
  have "\<forall>l\<in>set (inLinks (nodeAt g2 n)). \<exists>s\<in>set (nodes g) - {n}. srcNode (linkAt g2 l) = Some s \<and> l \<in> set (outLinks (nodeAt g2 s))"
  proof
    fix l assume "l \<in> set (inLinks (nodeAt g2 n))"
    then have "l \<in> set (inLinks (nodeAt g n))" "srcOf g l \<noteq> n" by (simp_all add: in2)
    then show "\<exists>s\<in>set (nodes g) - {n}. srcNode (linkAt g2 l) = Some s \<and> l \<in> set (outLinks (nodeAt g2 s))"
      using g1(4) wf_inLink [OF wf n, of l] wf_inNode [OF wf n, of l]
      by (intro bexI [of _ "srcOf g l"]) (simp_all add: links2 [unfolded g2_def, simplified] g2_def)
  qed
  then obtain g3 where g3: "foldM (\<lambda>h l. unlinkFromSourceNode l h) g2 (inLinks (nodeAt g2 n)) = Inr g3" "same_frame g2 g3" "nodes g3 = nodes g2"
      "\<And>m. m \<in> set (nodes g) - {n} \<Longrightarrow> inLinks (nodeAt g3 m) = inLinks (nodeAt g2 m)
         \<and> outLinks (nodeAt g3 m) = filter (\<lambda>l. \<not> (l \<in> set (inLinks (nodeAt g2 n)) \<and> srcNode (linkAt g2 l) = Some m)) (outLinks (nodeAt g2 m))"
    using unlink_srcs [of "inLinks (nodeAt g2 n)" "set (nodes g) - {n}" g2] dist g1(4) n by (auto simp: in2 g2_def)
  have out3: "outLinks (nodeAt g3 m) = filter (\<lambda>l. destOf g l \<noteq> n) (outLinks (nodeAt g m))" if m: "m \<in> set (nodes g) - {n}" for m
  proof -
    have "l \<in> set (inLinks (nodeAt g2 n)) \<and> srcNode (linkAt g2 l) = Some m \<longleftrightarrow> destOf g l = n" if l: "l \<in> set (outLinks (nodeAt g m))" for l
      using wf_outLink [OF wf _ l] wf_outNode [OF wf _ l] wf_inLink(1) [OF wf n, of l] m unfolding in2 links2 by auto
    moreover have "outLinks (nodeAt g2 m) = outLinks (nodeAt g m)" using g1(4) m by (auto simp: g2_def)
    ultimately show ?thesis using g3(4) [OF m] by (auto intro!: filter_cong)
  qed
  have in3: "inLinks (nodeAt g3 m) = filter (\<lambda>l. srcOf g l \<noteq> n) (inLinks (nodeAt g m))" if m: "m \<in> set (nodes g) - {n}" for m
    using g3(4) [OF m] in1 m by (simp add: g2_def)
  define h where "h = (setNode n (\<lambda>x. x\<lparr>inLinks := []\<rparr>) g3)\<lparr>nodes := remove1 n (nodes g)\<rparr>"
  have "deleteNode n g = Inr h"
using n g3(1,3) g1(3) by (simp add: deleteNode_def g1(1) g2_def h_def Let_def)
  moreover have "same_frame g h" using g1(2) g3(2) by (simp add: same_frame_def h_def g2_def setNode_def)
  moreover have "nodes h = remove1 n (nodes g)" by (simp add: h_def)
  moreover have "outLinks (nodeAt h m) = filter (\<lambda>l. destOf g l \<noteq> n) (outLinks (nodeAt g m))
      \<and> inLinks (nodeAt h m) = filter (\<lambda>l. srcOf g l \<noteq> n) (inLinks (nodeAt g m))" if "m \<in> set (nodes h)" for m
  proof -
    have m: "m \<in> set (nodes g) - {n}" using that wf by (simp add: h_def wf_graph_def)
    then show ?thesis using out3 [OF m] in3 [OF m] by (simp add: h_def setNode_def)
  qed
  ultimately show ?thesis unfolding without_def by blast
qed

lemma without_wf:
  assumes wf: "wf_graph g" and h: "without n g h"
  shows "wf_graph h"
proof -
  have links: "linkAt h = linkAt g" and ns: "nodes h = remove1 n (nodes g)" using h by (simp_all add: without_def same_frame_def)
  have sub: "m \<in> set (nodes h) \<longleftrightarrow> m \<in> set (nodes g) \<and> m \<noteq> n" for m using wf by (auto simp: ns wf_graph_def)
  have out: "l \<in> set (outLinks (nodeAt h m)) \<longleftrightarrow> l \<in> set (outLinks (nodeAt g m)) \<and> destOf g l \<noteq> n" if "m \<in> set (nodes h)" for m l
    using h that by (auto simp: without_def)
  have inn: "l \<in> set (inLinks (nodeAt h m)) \<longleftrightarrow> l \<in> set (inLinks (nodeAt g m)) \<and> srcOf g l \<noteq> n" if "m \<in> set (nodes h)" for m l
    using h that by (auto simp: without_def)
  have "distinct (outLinks (nodeAt h m)) \<and> distinct (inLinks (nodeAt h m))" if "m \<in> set (nodes h)" for m
    using h that wf sub by (simp add: without_def wf_graph_def)
  moreover have "srcNode (linkAt h l) = Some m \<and> (\<exists>d\<in>set (nodes h). destNode (linkAt h l) = Some d \<and> l \<in> set (inLinks (nodeAt h d)))"
    if m: "m \<in> set (nodes h)" and l: "l \<in> set (outLinks (nodeAt h m))" for m l
  proof -
    have "m \<in> set (nodes g)" "m \<noteq> n" "l \<in> set (outLinks (nodeAt g m))" "destOf g l \<noteq> n" using m l by (simp_all add: sub out)
    then show ?thesis using wf_outLink [OF wf, of m l] wf_outNode [OF wf, of m l] m by (simp add: links sub inn)
  qed
  moreover have "destNode (linkAt h l) = Some m \<and> (\<exists>d\<in>set (nodes h). srcNode (linkAt h l) = Some d \<and> l \<in> set (outLinks (nodeAt h d)))"
    if m: "m \<in> set (nodes h)" and l: "l \<in> set (inLinks (nodeAt h m))" for m l
  proof -
    have "m \<in> set (nodes g)" "m \<noteq> n" "l \<in> set (inLinks (nodeAt g m))" "srcOf g l \<noteq> n" using m l by (simp_all add: sub inn)
    then show ?thesis using wf_inLink [OF wf, of m l] wf_inNode [OF wf, of m l] m by (simp add: links sub out)
  qed
  moreover have "distinct (nodes h)" using wf by (simp add: ns wf_graph_def)
  ultimately show ?thesis by (simp add: wf_graph_def)
qed
section \<open>The extracted graph\<close>

text \<open>The links that leave a module: gate, and module and gate at the other end.\<close>

definition found :: "(int \<Rightarrow> bool) \<Rightarrow> nat \<Rightarrow> int \<times> (int \<times> int) list \<Rightarrow> (nat \<times> int \<times> int \<times> int) list" where
  "found pred n gate = (case followGates pred (snd gate) of None \<Rightarrow> [] | Some (m, d) \<Rightarrow> [(n, fst gate, m, d)])"

definition drawnLink :: "topology \<Rightarrow> nat \<times> int \<times> int \<times> int \<Rightarrow> topo_link" where
  "drawnLink g0 x = (case x of (n, s, m, d) \<Rightarrow>
     newLink\<lparr>srcNode := Some n, srcGateId := s, destNode := getNodeFor g0 m, destGateId := d\<rparr>)"

text \<open>The links of \<open>L\<close> are drawn, in their order.\<close>

definition drawn :: "topology \<Rightarrow> (nat \<times> int \<times> int \<times> int) list \<Rightarrow> topology \<times> nat \<Rightarrow> bool" where
  "drawn g0 L s \<longleftrightarrow> snd s = length L \<and> nodes (fst s) = nodes g0
     \<and> (\<forall>n. moduleId (nodeAt (fst s) n) = moduleId (nodeAt g0 n) \<and> inLinks (nodeAt (fst s) n) = []
          \<and> outLinks (nodeAt (fst s) n) = filter (\<lambda>i. fst (L ! i) = n) [0..<length L])
     \<and> (\<forall>i<length L. linkAt (fst s) i = drawnLink g0 (L ! i))"

lemma getNodeFor_cong:
  assumes "nodes g = nodes h" "\<And>n. moduleId (nodeAt g n) = moduleId (nodeAt h n)"
  shows "getNodeFor g m = getNodeFor h m"
  using assms by (simp add: getNodeFor_def lowerBound_def Let_def)

lemma drawn_step:
  assumes "drawn g0 L s"
  shows "drawn g0 (L @ found pred n gate) (discoverGate pred n s gate)"
proof (cases "followGates pred (snd gate)")
  case None
  then show ?thesis using assms by (cases s) (simp add: discoverGate_def found_def)
next
  case (Some md)
  obtain g k where s: "s = (g, k)" by (cases s)
  obtain m d where md: "md = (m, d)" by (cases md)
  have k: "k = length L" using assms by (simp add: drawn_def s)
  have nf: "getNodeFor g m = getNodeFor g0 m" using assms by (intro getNodeFor_cong) (simp_all add: drawn_def s)
  show ?thesis using assms
    by (auto simp: drawn_def s md Some k nf discoverGate_def found_def drawnLink_def nth_append intro!: filter_cong)
qed

lemma drawn_gates:
  "drawn g0 L s \<Longrightarrow> drawn g0 (L @ concat (map (found pred n) gates)) (foldl (discoverGate pred n) s gates)"
proof (induction gates arbitrary: L s)
  case (Cons x gates)
  show ?case using Cons.IH [OF drawn_step [OF Cons.prems, of pred n x]] by simp
qed simp

lemma drawn_nodes:
  "drawn g0 L s \<Longrightarrow> drawn g0 (L @ concat (map (\<lambda>n. concat (map (found pred n) (outputGates (sel ! n)))) ns))
     (foldl (\<lambda>s n. foldl (discoverGate pred n) s (outputGates (sel ! n))) s ns)"
proof (induction ns arbitrary: L s)
  case (Cons n ns)
  show ?case using Cons.IH [OF drawn_gates [OF Cons.prems, of pred n "outputGates (sel ! n)"]] by simp
qed simp

lemma fill_links:
  assumes "\<forall>l\<in>set ls. destNode (linkAt g l) \<noteq> None"
  shows "\<exists>h. foldM (\<lambda>h l. case destNode (linkAt h l) of None \<Rightarrow> Inl NullPointer
       | Some d \<Rightarrow> Inr (setNode d (\<lambda>x. x\<lparr>inLinks := inLinks x @ [l]\<rparr>) h)) g ls = Inr h
    \<and> same_frame g h \<and> nodes h = nodes g
    \<and> (\<forall>m. outLinks (nodeAt h m) = outLinks (nodeAt g m)
         \<and> inLinks (nodeAt h m) = inLinks (nodeAt g m) @ filter (\<lambda>l. destNode (linkAt g l) = Some m) ls)"
  using assms
proof (induction ls arbitrary: g)
  case Nil
  then show ?case by (simp add: same_frame_def)
next
  case (Cons l ls)
  obtain d where d: "destNode (linkAt g l) = Some d" using Cons.prems by auto
  define g1 where "g1 = setNode d (\<lambda>x. x\<lparr>inLinks := inLinks x @ [l]\<rparr>) g"
  have "\<forall>l\<in>set ls. destNode (linkAt g1 l) \<noteq> None" using Cons.prems by (simp add: g1_def)
  from Cons.IH [OF this] obtain h where h: "foldM (\<lambda>h l. case destNode (linkAt h l) of None \<Rightarrow> Inl NullPointer
       | Some d \<Rightarrow> Inr (setNode d (\<lambda>x. x\<lparr>inLinks := inLinks x @ [l]\<rparr>) h)) g1 ls = Inr h"
      "same_frame g1 h" "nodes h = nodes g1"
      "\<And>m. outLinks (nodeAt h m) = outLinks (nodeAt g1 m)
         \<and> inLinks (nodeAt h m) = inLinks (nodeAt g1 m) @ filter (\<lambda>l. destNode (linkAt g1 l) = Some m) ls" by auto
  have "same_frame g h" using h(2) by (auto simp: same_frame_def g1_def split: if_splits)
  then show ?case using h(1,3,4) d by (intro exI [of _ h]) (auto simp: g1_def)
qed

lemma fill_nodes:
  assumes "\<forall>n\<in>set ns. \<forall>l\<in>set (outLinks (nodeAt g n)). destNode (linkAt g l) \<noteq> None"
  shows "\<exists>h. foldM fillInLinks g ns = Inr h \<and> same_frame g h \<and> nodes h = nodes g
    \<and> (\<forall>m. outLinks (nodeAt h m) = outLinks (nodeAt g m)
         \<and> inLinks (nodeAt h m) = inLinks (nodeAt g m) @ filter (\<lambda>l. destNode (linkAt g l) = Some m) (concat (map (\<lambda>n. outLinks (nodeAt g n)) ns)))"
  using assms
proof (induction ns arbitrary: g)
  case Nil
  then show ?case by (simp add: same_frame_def)
next
  case (Cons n ns)
  obtain g1 where g1: "fillInLinks g n = Inr g1" "same_frame g g1" "nodes g1 = nodes g"
      "\<And>m. outLinks (nodeAt g1 m) = outLinks (nodeAt g m)
         \<and> inLinks (nodeAt g1 m) = inLinks (nodeAt g m) @ filter (\<lambda>l. destNode (linkAt g l) = Some m) (outLinks (nodeAt g n))"
    using fill_links [of "outLinks (nodeAt g n)" g] Cons.prems by (auto simp: fillInLinks_def)
  have links: "linkAt g1 = linkAt g" using g1(2) by (simp add: same_frame_def)
  have "\<forall>n\<in>set ns. \<forall>l\<in>set (outLinks (nodeAt g1 n)). destNode (linkAt g1 l) \<noteq> None" using Cons.prems g1(4) by (simp add: links)
  from Cons.IH [OF this] obtain h where h: "foldM fillInLinks g1 ns = Inr h" "same_frame g1 h" "nodes h = nodes g1"
      "\<And>m. outLinks (nodeAt h m) = outLinks (nodeAt g1 m)
         \<and> inLinks (nodeAt h m) = inLinks (nodeAt g1 m) @ filter (\<lambda>l. destNode (linkAt g1 l) = Some m) (concat (map (\<lambda>n. outLinks (nodeAt g1 n)) ns))"
    by auto
  have "same_frame g h" using h(2) g1(2) by (simp add: same_frame_def)
  then show ?case using h(1,3,4) g1 links by (intro exI [of _ h]) simp
qed
text \<open>Modules are listed in the order of their identifiers, and a gate leads to modules of the list.\<close>

definition simulation :: "sim_module list \<Rightarrow> bool" where
  "simulation ms \<longleftrightarrow> sorted_wrt (<) (map simId ms) \<and> (\<forall>m\<in>set ms. 0 \<le> simId m \<and> simId m < 2 ^ 31
     \<and> (\<forall>gate\<in>set (outputGates m). \<forall>p\<in>set (snd gate). fst p \<in> simId ` set ms))"

lemma getNodeFor_position:
  assumes ns: "nodes g = [0..<length ids]" "\<And>i. i < length ids \<Longrightarrow> moduleId (nodeAt g i) = ids ! i"
    and ids: "sorted_wrt (<) ids" "\<forall>m\<in>set ids. 0 \<le> m \<and> m < 2 ^ 31" and j: "j < length ids"
  shows "getNodeFor g (ids ! j) = Some j"
proof -
  have u: "unsigned32 m = nat m" if "m \<in> set ids" for m
  proof -
    have "0 \<le> m" "m < 4294967296" using ids(2) that by force+
    then show ?thesis by (simp add: unsigned32_def unat_eq_nat_uint uint_word_of_int)
  qed
  have less: "unsigned32 (moduleId (nodeAt g i)) < unsigned32 (ids ! j) \<longleftrightarrow> i < j" if "i < length ids" for i
  proof -
    have "i < j \<Longrightarrow> ids ! i < ids ! j" "j < i \<Longrightarrow> ids ! j < ids ! i" using ids(1) that j by (simp_all add: sorted_wrt_nth_less)
    moreover have "0 \<le> ids ! i" "0 \<le> ids ! j" using ids(2) that j by simp_all
    ultimately show ?thesis using that j ns(2) u by (cases i j rule: linorder_cases) (auto simp: nth_mem)
  qed
  have "[0..<length ids] = [0..<j] @ j # [Suc j..<length ids]"
    using j by (metis le_add_diff_inverse2 less_imp_le_nat upt_add_eq_append upt_conv_Cons add.commute zero_le)
  moreover have "takeWhile (\<lambda>i. unsigned32 (moduleId (nodeAt g i)) < unsigned32 (ids ! j)) ([0..<j] @ j # [Suc j..<length ids]) = [0..<j]"
    using less j by (subst takeWhile_append2) auto
  ultimately have "lowerBound g (ids ! j) = j" by (simp add: lowerBound_def ns(1))
  then show ?thesis using ns j by (simp add: getNodeFor_def Let_def)
qed

text \<open>Links found node by node are listed node by node.\<close>

lemma filter_positions:
  "filter (\<lambda>i. P ((A @ B) ! i)) [0..<length A + length B] = filter (\<lambda>i. P (A ! i)) [0..<length A] @ filter (\<lambda>i. P (B ! (i - length A))) [length A..<length A + length B]"
proof -
  have "filter (\<lambda>i. P ((A @ B) ! i)) [0..<length A] = filter (\<lambda>i. P (A ! i)) [0..<length A]"
    by (rule filter_cong) (simp_all add: nth_append)
  moreover have "filter (\<lambda>i. P ((A @ B) ! i)) [length A..<length A + length B] = filter (\<lambda>i. P (B ! (i - length A))) [length A..<length A + length B]"
    by (rule filter_cong) (simp_all add: nth_append)
  moreover have "[0..<length A + length B] = [0..<length A] @ [length A..<length A + length B]" by (rule upt_add_eq_append) simp
  ultimately show ?thesis by (simp only: filter_append)
qed

lemma grouped_links:
  assumes "\<And>n x. x \<in> set (F n) \<Longrightarrow> fst x = n"
  shows "concat (map (\<lambda>n. filter (\<lambda>i. fst (concat (map F [0..<N]) ! i) = n) [0..<length (concat (map F [0..<N]))]) [0..<N])
    = [0..<length (concat (map F [0..<N]))]"
proof (induction N)
  case (Suc N)
  define L where "L = concat (map F [0..<N])"
  have earlier: "fst (L ! i) < N" if i: "i < length L" for i
  proof -
    obtain n where "n < N" "L ! i \<in> set (F n)" using nth_mem [OF i] by (auto simp: L_def)
    then show ?thesis using assms by simp
  qed
  have later: "fst (F N ! (i - length L)) = N" if "i \<in> set [length L..<length L + length (F N)]" for i
    using that by (intro assms nth_mem) auto
  have old: "filter (\<lambda>i. fst ((L @ F N) ! i) = n) [0..<length L + length (F N)] = filter (\<lambda>i. fst (L ! i) = n) [0..<length L]" if "n < N" for n
  proof -
    have "filter (\<lambda>i. fst (F N ! (i - length L)) = n) [length L..<length L + length (F N)] = []"
      using later that by (auto simp: filter_empty_conv)
    then show ?thesis using filter_positions [of "\<lambda>x. fst x = n" L "F N"] by simp
  qed
  have new: "filter (\<lambda>i. fst ((L @ F N) ! i) = N) [0..<length L + length (F N)] = [length L..<length L + length (F N)]"
  proof -
    have "filter (\<lambda>i. fst (L ! i) = N) [0..<length L] = []" using less_imp_neq [OF earlier] by (simp add: filter_empty_conv)
    moreover have "filter (\<lambda>i. fst (F N ! (i - length L)) = N) [length L..<length L + length (F N)] = [length L..<length L + length (F N)]"
      using later by (intro filter_True) auto
    ultimately show ?thesis using filter_positions [of "\<lambda>x. fst x = N" L "F N"] by simp
  qed
  have "concat (map (\<lambda>n. filter (\<lambda>i. fst ((L @ F N) ! i) = n) [0..<length L + length (F N)]) [0..<N])
      = concat (map (\<lambda>n. filter (\<lambda>i. fst (L ! i) = n) [0..<length L]) [0..<N])"
    using old by (intro arg_cong [where f = concat] map_cong) auto
  also have "\<dots> = [0..<length L]" using Suc.IH by (simp add: L_def)
  finally have "concat (map (\<lambda>n. filter (\<lambda>i. fst ((L @ F N) ! i) = n) [0..<length L + length (F N)]) [0..<Suc N]) = [0..<length L + length (F N)]"
    using new upt_add_eq_append [of 0 "length L" "length (F N)"] by simp
  then show ?case by (simp add: L_def)
qed simp

lemma found_by:
  assumes "find P xs = Some x"
  shows "x \<in> set xs" "P x"
  using assms by (auto simp: find_Some_iff)

definition linkEnds :: "topology \<Rightarrow> nat \<Rightarrow> int \<times> int \<times> int \<times> int" where
  "linkEnds g l = (moduleId (nodeAt g (srcOf g l)), srcGateId (linkAt g l), moduleId (nodeAt g (destOf g l)), destGateId (linkAt g l))"

definition allLinks :: "topology \<Rightarrow> nat list" where
  "allLinks g = concat (map (\<lambda>n. outLinks (nodeAt g n)) (nodes g))"

text \<open>The connections between selected modules.\<close>

definition connections :: "(int \<Rightarrow> bool) \<Rightarrow> sim_module list \<Rightarrow> (int \<times> int \<times> int \<times> int) list" where
  "connections pred ms = concat (map (\<lambda>m. concat (map (\<lambda>gate. case followGates pred (snd gate) of
       None \<Rightarrow> [] | Some t \<Rightarrow> [(simId m, fst gate, t)]) (outputGates m))) (selected pred ms))"

text \<open>The numbering touches nothing but the numbers and the marks.\<close>

definition numbered :: "topology \<Rightarrow> topology \<Rightarrow> bool" where
  "numbered g h \<longleftrightarrow> nodes h = nodes g \<and> linkAt h = linkAt g
     \<and> (\<forall>i. inLinks (nodeAt h i) = inLinks (nodeAt g i) \<and> outLinks (nodeAt h i) = outLinks (nodeAt g i)
          \<and> moduleId (nodeAt h i) = moduleId (nodeAt g i) \<and> (visited (nodeAt g i) \<longrightarrow> visited (nodeAt h i)))"

lemma numbered_refl [simp]: "numbered g g"
  by (simp add: numbered_def)

lemma numbered_trans: "numbered g h \<Longrightarrow> numbered h k \<Longrightarrow> numbered g k"
  by (simp add: numbered_def)

lemma numbered_set:
  "numbered g (setNode n (\<lambda>x. x\<lparr>visited := True\<rparr>) g)" "numbered g (setNode n (\<lambda>x. x\<lparr>networkId := k\<rparr>) g)"
  by (simp_all add: numbered_def setNode_def)

lemma numbered_foldl: "(\<And>g x. numbered g (f g x)) \<Longrightarrow> numbered g (foldl f g xs)"
  by (induction xs arbitrary: g) (simp, metis foldl_Cons numbered_trans)

lemma visitGate_numbered:
  assumes "\<And>h j. numbered h (go h j)"
  shows "numbered g (visitGate go n g gate)"
proof -
  have "numbered g (go (setNode j (\<lambda>x. x\<lparr>networkId := k\<rparr>) (setNode n (\<lambda>x. x\<lparr>visited := True\<rparr>) g)) j)" for j k
    using numbered_trans [OF numbered_set(1) numbered_trans [OF numbered_set(2) assms]] .
  then show ?thesis by (simp add: visitGate_def numbered_set Let_def split: list.split option.split)
qed

lemma findNetworks_numbered: "numbered g (findNetworks k sel g n)"
  by (induction k arbitrary: g n) (simp_all add: numbered_foldl visitGate_numbered)

text \<open>More fuel than there are nodes left to visit changes nothing.\<close>

definition unvisited :: "topology \<Rightarrow> nat set" where
  "unvisited g = {i \<in> set (nodes g). \<not> visited (nodeAt g i)}"

lemma numbered_unvisited: "numbered g h \<Longrightarrow> unvisited h \<subseteq> unvisited g"
  by (auto simp: numbered_def unvisited_def)

lemma getNodeFor_member:
  assumes "getNodeFor g m = Some j"
  shows "j \<in> set (nodes g)"
proof -
  have "lowerBound g m \<noteq> length (nodes g)" "j = nodes g ! lowerBound g m"
    using assms by (auto simp: getNodeFor_def Let_def split: if_splits)
  moreover have "lowerBound g m \<le> length (nodes g)" by (simp add: lowerBound_def length_takeWhile_le)
  ultimately show ?thesis by simp
qed

lemma foldl_numbered_cong:
  assumes "\<And>h x. numbered g h \<Longrightarrow> f h x = f' h x" "\<And>h x. numbered h (f' h x)"
  shows "numbered g h \<Longrightarrow> foldl f h xs = foldl f' h xs"
  using assms(1) numbered_trans [OF _ assms(2)] by (induction xs arbitrary: h) simp_all

lemma findNetworks_fuel:
  "n \<in> set (nodes g) \<Longrightarrow> card (unvisited g) < k \<Longrightarrow> findNetworks (Suc k) sel g n = findNetworks k sel g n"
proof (induction k arbitrary: g n)
  case (Suc k)
  have step: "visitGate (findNetworks (Suc k) sel) n h gate = visitGate (findNetworks k sel) n h gate"
    if v: "\<not> visited (nodeAt g n)" and h: "numbered g h" for h gate
  proof -
    have "findNetworks (Suc k) sel (setNode j (\<lambda>x. x\<lparr>networkId := i\<rparr>) (setNode n (\<lambda>x. x\<lparr>visited := True\<rparr>) h)) j
        = findNetworks k sel (setNode j (\<lambda>x. x\<lparr>networkId := i\<rparr>) (setNode n (\<lambda>x. x\<lparr>visited := True\<rparr>) h)) j"
      if j: "getNodeFor (setNode n (\<lambda>x. x\<lparr>visited := True\<rparr>) h) m = Some j" for i j m
    proof (rule Suc.IH)
      let ?h = "setNode j (\<lambda>x. x\<lparr>networkId := i\<rparr>) (setNode n (\<lambda>x. x\<lparr>visited := True\<rparr>) h)"
      show "j \<in> set (nodes ?h)" using getNodeFor_member [OF j] by (simp add: setNode_def)
      have "unvisited ?h \<subseteq> unvisited g - {n}"
        using numbered_unvisited [OF h] by (auto simp: unvisited_def setNode_def split: if_splits)
      moreover have "n \<in> unvisited g" "finite (unvisited g)" using v Suc.prems(1) by (simp_all add: unvisited_def)
      ultimately have "card (unvisited ?h) < card (unvisited g)" by (intro psubset_card_mono) auto
      then show "card (unvisited ?h) < k" using Suc.prems(2) by simp
    qed
    then show ?thesis by (simp del: findNetworks.simps add: visitGate_def Let_def split: list.split option.split)
  qed
  show ?case
  proof (cases "visited (nodeAt g n)")
    case False
    have "foldl (visitGate (findNetworks (Suc k) sel) n) g xs = foldl (visitGate (findNetworks k sel) n) g xs" for xs
      by (rule foldl_numbered_cong [OF step [OF False] visitGate_numbered [OF findNetworks_numbered] numbered_refl])
    then show ?thesis using False by (simp del: findNetworks.simps(2) add: findNetworks.simps(2) [of "Suc k"] findNetworks.simps(2) [of k])
  qed simp
qed simp

lemma numbered_graph:
  assumes "numbered g h"
  shows "wf_graph h = wf_graph g" "map (\<lambda>n. moduleId (nodeAt h n)) (nodes h) = map (\<lambda>n. moduleId (nodeAt g n)) (nodes g)"
    "linkEnds h = linkEnds g" "allLinks h = allLinks g"
  using assms by (simp_all add: numbered_def wf_graph_def linkEnds_def allLinks_def srcOf_def destOf_def fun_eq_iff)

lemma extraction:
  assumes ms: "simulation ms"
  shows "\<exists>h. extractFromNetwork pred ms = Inr h \<and> wf_graph h
     \<and> map (\<lambda>n. moduleId (nodeAt h n)) (nodes h) = map simId (selected pred ms)
     \<and> map (linkEnds h) (allLinks h) = connections pred ms"
proof -
  define sel where "sel = selected pred ms"
  define ids where "ids = map simId sel"
  define g0 where "g0 = \<lparr>nodes = [0..<length sel], 
    nodeAt = (\<lambda>i. (newNode (if i < length sel then simId (sel ! i) else -1))\<lparr>networkId := int i + 1\<rparr>), linkAt = (\<lambda>_. newLink)\<rparr>"
  define F where "F = (\<lambda>n. concat (map (found pred n) (outputGates (sel ! n))))"
  define L where "L = concat (map F [0..<length sel])"
  have ns0: "nodes g0 = [0..<length sel]" by (simp add: g0_def)
  obtain g k where gk: "foldl (\<lambda>s n. foldl (discoverGate pred n) s (outputGates (sel ! n))) (g0, 0) (nodes g0) = (g, k)" by fastforce
  have "drawn g0 [] (g0, 0)" by (simp add: drawn_def g0_def newNode_def)
  from drawn_nodes [OF this, of pred sel "nodes g0"] have drawn: "drawn g0 L (g, k)"
    unfolding gk by (simp add: L_def F_def ns0)
  have Fn: "x \<in> set (F n) \<Longrightarrow> fst x = n" for x n by (auto simp: F_def found_def split: option.splits)
  have ids: "sorted_wrt (<) ids" "\<forall>m\<in>set ids. 0 \<le> m \<and> m < 2 ^ 31"
    using ms by (auto simp: simulation_def ids_def sel_def selected_def sorted_wrt_map intro: sorted_wrt_filter)
  have node: "getNodeFor g0 (ids ! j) = Some j" if "j < length ids" for j
    by (rule getNodeFor_position [OF _ _ ids that]) (simp_all add: g0_def ids_def newNode_def)
  have elem: "fst x < length sel \<and> (\<exists>j<length sel. fst (snd (snd x)) = ids ! j)" if x: "x \<in> set L" for x
  proof -
    obtain n where n: "n < length sel" "x \<in> set (F n)" using x by (auto simp: L_def)
    then obtain gate m d where gate: "gate \<in> set (outputGates (sel ! n))" "followGates pred (snd gate) = Some (m, d)" "x = (n, fst gate, m, d)"
      by (auto simp: F_def found_def split: option.splits)
    from gate(2) have "(m, d) \<in> set (snd gate)" "pred m" using found_by [of "\<lambda>p. pred (fst p)" "snd gate" "(m, d)"] by (simp_all add: followGates_def)
    moreover have "sel ! n \<in> set ms" using nth_mem [OF n(1)] by (auto simp: sel_def selected_def)
    ultimately have "m \<in> set ids" using ms gate(1) by (force simp: simulation_def ids_def sel_def selected_def)
    then obtain j where "j < length ids" "ids ! j = m" by (auto simp: in_set_conv_nth)
    then show ?thesis using gate(3) n by (auto simp: ids_def)
  qed
  have link: "linkAt g i = drawnLink g0 (L ! i)" if "i < length L" for i using drawn that by (simp add: drawn_def)
  have ends: "srcNode (linkAt g i) = Some (fst (L ! i)) \<and> fst (L ! i) < length sel
      \<and> (\<exists>j<length sel. destNode (linkAt g i) = Some j \<and> ids ! j = fst (snd (snd (L ! i))))" if "i < length L" for i
    using elem [OF nth_mem [OF that]] node link [OF that] by (cases "L ! i") (auto simp: drawnLink_def newLink_def ids_def)
  have ns: "nodes g = [0..<length sel]" and mid: "moduleId (nodeAt g n) = moduleId (nodeAt g0 n)"
    and inl: "inLinks (nodeAt g n) = []" and outl: "outLinks (nodeAt g n) = filter (\<lambda>i. fst (L ! i) = n) [0..<length L]" for n
    using drawn by (simp_all add: drawn_def g0_def)
  have every: "concat (map (\<lambda>n. outLinks (nodeAt g n)) (nodes g)) = [0..<length L]"
    unfolding outl ns L_def by (rule grouped_links [OF Fn])
  have "\<forall>n\<in>set (nodes g). \<forall>l\<in>set (outLinks (nodeAt g n)). destNode (linkAt g l) \<noteq> None"
    using ends by (force simp: outl)
  from fill_nodes [OF this] obtain h where h: "foldM fillInLinks g (nodes g) = Inr h" "same_frame g h" "nodes h = nodes g"
      "\<And>m. outLinks (nodeAt h m) = outLinks (nodeAt g m) \<and> inLinks (nodeAt h m) = filter (\<lambda>l. destNode (linkAt g l) = Some m) [0..<length L]"
    by (auto simp: inl every)
  have lh: "linkAt h = linkAt g" "\<And>n. moduleId (nodeAt h n) = moduleId (nodeAt g0 n)" using h(2) mid by (simp_all add: same_frame_def)
  define r where "r = foldl (findNetworks (Suc (length (nodes h))) sel) h (nodes h)"
  have num: "numbered h r" unfolding r_def by (rule numbered_foldl) (rule findNetworks_numbered)
  have "extractFromNetwork pred ms = Inr r"
    using h(1) gk unfolding ns0 by (simp add: extractFromNetwork_def sel_def [symmetric] g0_def [symmetric] Let_def ns0 r_def)
  moreover have "wf_graph h" using ends by (fastforce simp: wf_graph_def h(3,4) ns outl lh)
  moreover have "map (\<lambda>n. moduleId (nodeAt h n)) (nodes h) = map simId sel"
    by (rule nth_equalityI) (simp_all add: h(3) ns lh g0_def newNode_def)
  moreover have "map (linkEnds h) (allLinks h) = connections pred ms"
  proof -
    define e where "e = (\<lambda>x :: nat \<times> int \<times> int \<times> int. (ids ! fst x, snd x))"
    have "linkEnds h i = e (L ! i)" if "i < length L" for i
      using ends [OF that] link [OF that]
      by (cases "L ! i") (auto simp: linkEnds_def srcOf_def destOf_def lh g0_def newNode_def drawnLink_def e_def ids_def)
    then have "map (linkEnds h) [0..<length L] = map e L" by (intro nth_equalityI) simp_all
    moreover have "map e (F n) = concat (map (\<lambda>gate. case followGates pred (snd gate) of
        None \<Rightarrow> [] | Some t \<Rightarrow> [(simId (sel ! n), fst gate, t)]) (outputGates (sel ! n)))" if "n < length sel" for n
      using that by (auto simp: F_def map_concat found_def e_def ids_def intro!: arg_cong [where f = concat] split: option.splits)
    then have "map e L = concat (map (\<lambda>m. concat (map (\<lambda>gate. case followGates pred (snd gate) of
        None \<Rightarrow> [] | Some t \<Rightarrow> [(simId m, fst gate, t)]) (outputGates m))) (map ((!) sel) [0..<length sel]))"
      by (auto simp: L_def map_concat intro!: arg_cong [where f = concat])
    ultimately show ?thesis using every by (simp add: map_nth connections_def sel_def allLinks_def h(3,4))
  qed
  ultimately show ?thesis using numbered_graph [OF num] by (simp add: sel_def)
qed
text \<open>
  Deleting a node of a network graph succeeds: the result is again a network graph, without the
  node and the links that touched it, and with every other link as before and in the same order.\<close>

theorem deleted_nodes_leave_the_rest:
  assumes "wf_graph g" "n \<in> set (nodes g)"
  shows "case deleteNode n g of Inl e \<Rightarrow> False | Inr h \<Rightarrow> wf_graph h \<and> without n g h"
  using deleteNode_without [OF assms] without_wf [OF assms(1)] by auto

lemma deleted_nodes_leave_the_rest_witness:
  "case deleteNode 1 (demo_graph (Finite 5)) of Inl e \<Rightarrow> False | Inr h \<Rightarrow> wf_graph h \<and> without 1 (demo_graph (Finite 5)) h"
  by (rule deleted_nodes_leave_the_rest [OF demo_graph_wf]) (simp add: demo_graph_def)

text \<open>
  C22. The graph extracted from a simulation is a network graph whose links are, in their order, the
  connections of the selected modules: one for every output gate whose connection path meets a selected
  module, and to the first such module.\<close>

theorem extraction_draws_the_connections:
  assumes "simulation ms"
  shows "case extractFromNetwork pred ms of Inl e \<Rightarrow> False
     | Inr h \<Rightarrow> wf_graph h \<and> map (linkEnds h) (allLinks h) = connections pred ms"
  using extraction [OF assms, of pred] by auto

text \<open>A host and a switch, with a network interface of the host (module 4) in between.\<close>

definition demo_modules :: "sim_module list" where
  "demo_modules = [\<lparr>simId = 2, outputGates = [(7, [(4, 1), (3, 5)])]\<rparr>, \<lparr>simId = 3, outputGates = [(8, []), (9, [(4, 2), (2, 6)])]\<rparr>,
     \<lparr>simId = 4, outputGates = [(1, [(2, 6)])]\<rparr>]"

lemma extraction_draws_the_connections_witness:
  "(case extractFromNetwork (\<lambda>m. m < 4) demo_modules of Inl e \<Rightarrow> False
     | Inr h \<Rightarrow> wf_graph h \<and> map (linkEnds h) (allLinks h) = connections (\<lambda>m. m < 4) demo_modules)
   \<and> connections (\<lambda>m. m < 4) demo_modules = [(2, 7, 3, 5), (3, 9, 2, 6)]"
proof (rule conjI [OF extraction_draws_the_connections])
  show "simulation demo_modules" by (simp add: simulation_def demo_modules_def)
  show "connections (\<lambda>m. m < 4) demo_modules = [(2, 7, 3, 5), (3, 9, 2, 6)]"
    by (simp add: connections_def demo_modules_def selected_def followGates_def)
qed

text \<open>
  The numbering stops where the extraction does not: two nodes connected through a module that is not
  selected are linked in the graph, yet they get different numbers.
\<close>

theorem hidden_modules_split_networks:
  "\<exists>h. extractFromNetwork (\<lambda>m. m < 4) demo_modules = Inr h \<and> map (linkEnds h) (allLinks h) = [(2, 7, 3, 5), (3, 9, 2, 6)]
     \<and> map (\<lambda>n. networkId (nodeAt h n)) (nodes h) = [1, 2]"
proof -
  have "(case extractFromNetwork (\<lambda>m. m < 4) demo_modules of Inl e \<Rightarrow> False
     | Inr h \<Rightarrow> map (linkEnds h) (allLinks h) = [(2, 7, 3, 5), (3, 9, 2, 6)] \<and> map (\<lambda>n. networkId (nodeAt h n)) (nodes h) = [1, 2])"
    by code_simp
  then show ?thesis by (auto split: sum.splits)
qed

end
