(* ===== verification/NetworkConfigurators.thy ===== *)
theory NetworkConfigurators
  imports Topologies MacAddresses
begin

text \<open>
  The base of the configurators and the configurator of forwarding tables
  (\<open>inet/networklayer/configurator/base/NetworkConfiguratorBase\<close> and
  \<open>inet/linklayer/configurator/MacForwardingTableConfigurator\<close>), as the project changed them: a
  configurator sees the network nodes below its own parent module only.

  \<^item> The modules of the simulation, their properties, interface tables and submodules are a
    parameter, \<open>net_modules\<close>. A module without an interface table has \<open>None\<close> there.
  \<^item> Network interfaces are numbers; an \<open>Interface\<close> of the graph is the node it was made for with
    the network interface.
  \<^item> The configurations are a map from the module of a forwarding table to the rules written there.
\<close>

section \<open>The network\<close>

record net_interface =
  interfaceName :: string
  nodeOutputGateId :: int
  nodeInputGateId :: int
  loopback :: bool
  interfaceMac :: mac

record net_modules =
  simModules :: "sim_module list"
  networkNode :: "int \<Rightarrow> bool"
  underParent :: "int \<Rightarrow> bool"
  fullName :: "int \<Rightarrow> string"
  interfaceTable :: "int \<Rightarrow> nat list option"
  hasRoutingTable :: "int \<Rightarrow> bool"
  networkInterface :: "nat \<Rightarrow> net_interface"
  macTableOf :: "int \<Rightarrow> int option"

type_synonym graph_interface = "nat \<times> nat"

record net_topology =
  graph :: topology
  interfaces :: "nat \<Rightarrow> nat list"
  sourceInterface :: "nat \<Rightarrow> graph_interface option"
  destinationInterface :: "nat \<Rightarrow> graph_interface option"

abbreviation tableOf :: "net_modules \<Rightarrow> topology \<Rightarrow> nat \<Rightarrow> nat list option" where
  "tableOf e g n \<equiv> interfaceTable e (moduleId (nodeAt g n))"

definition isGraphBridge :: "net_modules \<Rightarrow> topology \<Rightarrow> nat \<Rightarrow> bool" where
  "isGraphBridge e g n \<longleftrightarrow> \<not> hasRoutingTable e (moduleId (nodeAt g n)) \<or> tableOf e g n = None"

definition findLinkIn :: "net_modules \<Rightarrow> topology \<Rightarrow> nat \<Rightarrow> string \<Rightarrow> nat option" where
  "findLinkIn e g n neighbor = find (\<lambda>l. fullName e (moduleId (nodeAt g (srcOf g l))) = neighbor) (inLinks (nodeAt g n))"

definition findLinkOut :: "net_modules \<Rightarrow> topology \<Rightarrow> nat \<Rightarrow> string \<Rightarrow> nat option" where
  "findLinkOut e g n neighbor = find (\<lambda>l. fullName e (moduleId (nodeAt g (destOf g l))) = neighbor) (outLinks (nodeAt g n))"

definition findLinkOutToNode :: "topology \<Rightarrow> nat \<Rightarrow> nat \<Rightarrow> nat option" where
  "findLinkOutToNode g n neighbor = find (\<lambda>l. destOf g l = neighbor) (outLinks (nodeAt g n))"

definition findLinkOutOfInterface :: "net_topology \<Rightarrow> graph_interface \<Rightarrow> nat option" where
  "findLinkOutOfInterface t i = find (\<lambda>l. sourceInterface t l = Some i) (outLinks (nodeAt (graph t) (fst i)))"

definition findLinkOutByGate :: "topology \<Rightarrow> nat \<Rightarrow> int \<Rightarrow> nat option" where
  "findLinkOutByGate g n gate = find (\<lambda>l. srcGateId (linkAt g l) = gate) (outLinks (nodeAt g n))"

definition findGraphInterface :: "(nat \<Rightarrow> nat list) \<Rightarrow> nat \<Rightarrow> nat option \<Rightarrow> graph_interface option" where
  "findGraphInterface ifs n i = (case i of None \<Rightarrow> None | Some k \<Rightarrow> if k \<in> set (ifs n) then Some (n, k) else None)"

section \<open>Extraction\<close>

text \<open>The network nodes, less those that are not below the parent of the configurator.\<close>

definition cutNetwork :: "net_modules \<Rightarrow> topology result" where
  "cutNetwork e =
     rbind (extractFromNetwork (underParent e) (simModules e)) (\<lambda>p.
     rbind (extractFromNetwork (networkNode e) (simModules e)) (\<lambda>g.
       foldM (\<lambda>h n. deleteNode n h) g (filter (\<lambda>n. moduleId (nodeAt g n) \<notin> set (map (\<lambda>k. moduleId (nodeAt p k)) (nodes p))) (nodes g))))"

text \<open>The search for interfaces: what was seen, the nodes to visit, and the interfaces of nodes.\<close>

type_synonym interface_search = "nat set \<times> nat list \<times> (nat \<Rightarrow> nat list)"

definition visitInterface :: "net_modules \<Rightarrow> topology \<Rightarrow> nat \<Rightarrow> interface_search \<Rightarrow> nat \<Rightarrow> interface_search" where
  "visitInterface e g n s i =
     (case s of (seen, q, ifs) \<Rightarrow>
        if i \<in> seen then s
        else (insert i seen,
              (case findLinkOutByGate g n (nodeOutputGateId (networkInterface e i)) of None \<Rightarrow> q | Some l \<Rightarrow> q @ [destOf g l]),
              ifs(n := ifs n @ [i])))"

definition visitNextNode :: "net_modules \<Rightarrow> topology \<Rightarrow> interface_search \<Rightarrow> interface_search" where
  "visitNextNode e g s =
     (case s of (seen, q, ifs) \<Rightarrow>
        case tableOf e g (hd q) of
          None \<Rightarrow> (seen, tl q, ifs)
        | Some is \<Rightarrow> foldl (visitInterface e g (hd q)) (seen, tl q, ifs) is)"

definition collectInterfaces :: "net_modules \<Rightarrow> topology \<Rightarrow> (nat \<Rightarrow> nat list) option" where
  "collectInterfaces e g =
     map_option (\<lambda>s. snd (snd s)) (while_option (\<lambda>s. fst (snd s) \<noteq> []) (visitNextNode e g) ({}, [hd (nodes g)], \<lambda>_. []))"

definition annotate :: "net_modules \<Rightarrow> topology \<Rightarrow> (nat \<Rightarrow> nat list) \<Rightarrow> net_topology" where
  "annotate e g ifs =
     \<lparr>graph = g, interfaces = ifs,
      sourceInterface = (\<lambda>l. if l \<notin> set (concat (map (\<lambda>n. outLinks (nodeAt g n)) (nodes g))) then None
        else case tableOf e g (srcOf g l) of None \<Rightarrow> None
           | Some is \<Rightarrow> findGraphInterface ifs (srcOf g l)
               (find (\<lambda>i. nodeOutputGateId (networkInterface e i) = srcGateId (linkAt g l)) is)),
      destinationInterface = (\<lambda>l. if l \<notin> set (concat (map (\<lambda>n. outLinks (nodeAt g n)) (nodes g))) then None
        else case tableOf e g (destOf g l) of None \<Rightarrow> None
           | Some is \<Rightarrow> findGraphInterface ifs (destOf g l)
               (find (\<lambda>i. nodeInputGateId (networkInterface e i) = destGateId (linkAt g l)) is))\<rparr>"

definition extractTopology :: "net_modules \<Rightarrow> net_topology result option" where
  "extractTopology e =
     (case cutNetwork e of
        Inl x \<Rightarrow> Some (Inl x)
      | Inr g \<Rightarrow> if nodes g = [] then Some (Inl (RuntimeError ''Empty network!''))
                 else map_option (\<lambda>ifs. Inr (annotate e g ifs)) (collectInterfaces e g))"

section \<open>Paths between two nodes\<close>

text \<open>The walk along first paths; a node without a path makes \<open>vector::at\<close> throw.\<close>

definition stepLink :: "topology \<Rightarrow> (nat \<times> nat list) result \<Rightarrow> (nat \<times> nat list) result" where
  "stepLink g s = rbind s (\<lambda>(n, p). rbind (getPath g n 0) (\<lambda>l. Inr (destOf g l, p @ [l])))"

definition stepNode :: "topology \<Rightarrow> (nat \<times> nat list) result \<Rightarrow> (nat \<times> nat list) result" where
  "stepNode g s = rbind s (\<lambda>(n, p). rbind (getPath g n 0) (\<lambda>l. Inr (destOf g l, p @ [n])))"

definition under_way :: "nat \<Rightarrow> (nat \<times> nat list) result \<Rightarrow> bool" where
  "under_way d s = (case s of Inl e \<Rightarrow> False | Inr p \<Rightarrow> fst p \<noteq> d)"

definition computeShortestLinkPath :: "topology \<Rightarrow> nat \<Rightarrow> nat \<Rightarrow> nat list result option" where
  "computeShortestLinkPath g s d =
     (case calculateUnweightedSingleShortestPathsTo (Some d) g of
        None \<Rightarrow> None
      | Some (Inl x) \<Rightarrow> Some (Inl x)
      | Some (Inr h) \<Rightarrow> map_option (\<lambda>r. rbind r (\<lambda>p. Inr (snd p))) (while_option (under_way d) (stepLink h) (Inr (s, []))))"

definition computeShortestNodePath :: "topology \<Rightarrow> nat \<Rightarrow> nat \<Rightarrow> nat list result option" where
  "computeShortestNodePath g s d =
     (case calculateUnweightedSingleShortestPathsTo (Some d) g of
        None \<Rightarrow> None
      | Some (Inl x) \<Rightarrow> Some (Inl x)
      | Some (Inr h) \<Rightarrow> map_option (\<lambda>r. rbind r (\<lambda>p. Inr (snd p @ [d]))) (while_option (under_way d) (stepNode h) (Inr (s, []))))"

section \<open>Forwarding rules\<close>

text \<open>A rule is an address in text with the name of an interface.\<close>

type_synonym mac_rule = "string \<times> string"

record mac_configurator =
  network :: net_topology
  configurations :: "int \<Rightarrow> mac_rule list option"

definition findForwardingRule :: "mac_rule list \<Rightarrow> mac \<Rightarrow> string \<Rightarrow> mac_rule option" where
  "findForwardingRule rs a name = find (\<lambda>r. fst r = mac_str a \<and> snd r = name) rs"

definition addRule :: "int \<Rightarrow> mac \<Rightarrow> string \<Rightarrow> (int \<Rightarrow> mac_rule list option) \<Rightarrow> int \<Rightarrow> mac_rule list option" where
  "addRule m a name c =
     (case c m of
        None \<Rightarrow> c(m \<mapsto> [(mac_str a, name)])
      | Some rs \<Rightarrow> if findForwardingRule rs a name \<noteq> None then c else c(m \<mapsto> rs @ [(mac_str a, name)]))"

definition weighLinks :: "net_topology \<Rightarrow> nat \<Rightarrow> graph_interface option \<Rightarrow> topology" where
  "weighLinks t d i =
     foldl (\<lambda>g l. setLink l (\<lambda>x. x\<lparr>linkWeight := (if destinationInterface t l \<noteq> i then Infinite else Finite 1)\<rparr>) g)
       (graph t) (inLinks (nodeAt (graph t) d))"

definition configureSource :: "net_modules \<Rightarrow> net_topology \<Rightarrow> nat \<Rightarrow> mac \<Rightarrow> (int \<Rightarrow> mac_rule list option) \<Rightarrow> nat \<Rightarrow> (int \<Rightarrow> mac_rule list option) result" where
  "configureSource e t d a c s =
     (if s \<noteq> d \<and> isGraphBridge e (graph t) s \<and> outPaths (nodeAt (graph t) s) \<noteq> [] then
        rbind (getPath (graph t) s 0) (\<lambda>l.
        case sourceInterface t l of
          None \<Rightarrow> Inl NullPointer
        | Some i \<Rightarrow>
            (case macTableOf e (moduleId (nodeAt (graph t) s)) of
               None \<Rightarrow> Inl NullPointer
             | Some m \<Rightarrow> Inr (addRule m a (interfaceName (networkInterface e (snd i))) c)))
      else Inr c)"

definition extendConfiguration :: "net_modules \<Rightarrow> nat \<Rightarrow> graph_interface option \<Rightarrow> mac \<Rightarrow> mac_configurator \<Rightarrow> mac_configurator result option" where
  "extendConfiguration e d i a c =
     map_option (\<lambda>r. rbind r (\<lambda>h.
         let t = (network c)\<lparr>graph := h\<rparr> in
         rbind (foldM (configureSource e t d a) (configurations c) (nodes h)) (\<lambda>cs. Inr \<lparr>network = t, configurations = cs\<rparr>)))
       (calculateWeightedSingleShortestPathsTo (Some d) (weighLinks (network c) d i))"

definition configureStation :: "net_modules \<Rightarrow> nat \<Rightarrow> mac_configurator \<Rightarrow> nat \<Rightarrow> mac_configurator result option" where
  "configureStation e d c i =
     (if \<not> loopback (networkInterface e i) \<and> \<not> isUnspecified (interfaceMac (networkInterface e i))
      then extendConfiguration e d (Some (d, i)) (interfaceMac (networkInterface e i)) c else Some (Inr c))"

definition computeMacForwardingTables :: "net_modules \<Rightarrow> mac_configurator \<Rightarrow> mac_configurator result option" where
  "computeMacForwardingTables e c =
     foldO (\<lambda>c d. if isGraphBridge e (graph (network c)) d then Some (Inr c)
                  else foldO (configureStation e d) c (interfaces (network c) d)) c (nodes (graph (network c)))"

definition computeTableConfiguration :: "net_modules \<Rightarrow> (int \<Rightarrow> mac_rule list option) \<Rightarrow> mac_configurator result option" where
  "computeTableConfiguration e cs =
     (case extractTopology e of
        None \<Rightarrow> None
      | Some (Inl x) \<Rightarrow> Some (Inl x)
      | Some (Inr t) \<Rightarrow> computeMacForwardingTables e \<lparr>network = t, configurations = cs\<rparr>)"

text \<open>The parameters of the forwarding tables, by module.\<close>

definition configureMacForwardingTables :: "mac_configurator \<Rightarrow> (int \<Rightarrow> mac_rule list option) \<Rightarrow> int \<Rightarrow> mac_rule list option" where
  "configureMacForwardingTables c params = params ++ configurations c"

text \<open>What happens at the stage of network configuration.\<close>

definition initializeTables :: "net_modules \<Rightarrow> (int \<Rightarrow> mac_rule list option) \<Rightarrow> (mac_configurator \<times> (int \<Rightarrow> mac_rule list option)) result option" where
  "initializeTables e params =
     map_option (\<lambda>r. rbind r (\<lambda>c. Inr (c, configureMacForwardingTables c params))) (computeTableConfiguration e (\<lambda>_. None))"

text \<open>A source joins a multicast group: its node is that of its module, if the graph has it.\<close>

definition multicastSourceChanged ::
  "net_modules \<Rightarrow> int \<Rightarrow> nat \<Rightarrow> mac \<Rightarrow> mac_configurator \<times> (int \<Rightarrow> mac_rule list option) \<Rightarrow> (mac_configurator \<times> (int \<Rightarrow> mac_rule list option)) result option" where
  "multicastSourceChanged e m i a s =
     (case s of (c, params) \<Rightarrow>
        case getNodeFor (graph (network c)) m of
          None \<Rightarrow> Some (Inl NullPointer)
        | Some n \<Rightarrow>
            map_option (\<lambda>r. rbind r (\<lambda>c'. Inr (c', configureMacForwardingTables c' params)))
              (extendConfiguration e n (findGraphInterface (interfaces (network c)) n (Some i)) a c))"
section \<open>The extracted network\<close>

lemma without_keeps:
  assumes "without n g h"
  shows "destOf h l = destOf g l" "moduleId (nodeAt h m) = moduleId (nodeAt g m)" "linkAt h = linkAt g"
  using assms by (simp_all add: without_def same_frame_def destOf_def)

lemma delete_nodes:
  assumes "wf_graph g" "distinct ds" "set ds \<subseteq> set (nodes g)"
  shows "\<exists>h. foldM (\<lambda>h n. deleteNode n h) g ds = Inr h \<and> wf_graph h \<and> same_frame g h \<and> nodes h = filter (\<lambda>n. n \<notin> set ds) (nodes g)
    \<and> (\<forall>m\<in>set (nodes h). outLinks (nodeAt h m) = filter (\<lambda>l. destOf g l \<notin> set ds) (outLinks (nodeAt g m)))"
  using assms
proof (induction ds arbitrary: g)
  case Nil
  then show ?case by (simp add: same_frame_def)
next
  case (Cons n ds)
  obtain g1 where g1: "deleteNode n g = Inr g1" "without n g g1" using deleteNode_without [OF Cons.prems(1)] Cons.prems(3) by auto
  have dis: "distinct (nodes g)" using Cons.prems(1) by (simp add: wf_graph_def)
  have ns: "nodes g1 = filter (\<lambda>m. m \<noteq> n) (nodes g)"
    using g1(2) dis by (auto simp: without_def distinct_remove1_removeAll removeAll_filter_not_eq intro!: filter_cong)
  have "set ds \<subseteq> set (nodes g1)" using Cons.prems(2,3) by (auto simp: ns)
  then obtain h where h: "foldM (\<lambda>h n. deleteNode n h) g1 ds = Inr h" "wf_graph h" "same_frame g1 h" "nodes h = filter (\<lambda>n. n \<notin> set ds) (nodes g1)"
      "\<And>m. m \<in> set (nodes h) \<Longrightarrow> outLinks (nodeAt h m) = filter (\<lambda>l. destOf g1 l \<notin> set ds) (outLinks (nodeAt g1 m))"
    using Cons.IH [OF without_wf [OF Cons.prems(1) g1(2)]] Cons.prems(2) by auto
  have out1: "outLinks (nodeAt g1 m) = filter (\<lambda>l. destOf g l \<noteq> n) (outLinks (nodeAt g m))" if "m \<in> set (nodes g1)" for m
    using g1(2) that by (simp add: without_def)
  have "outLinks (nodeAt h m) = filter (\<lambda>l. destOf g l \<notin> set (n # ds)) (outLinks (nodeAt g m))" if "m \<in> set (nodes h)" for m
    using h(5) [OF that] out1 that by (auto simp: h(4) without_keeps [OF g1(2)] intro!: filter_cong)
  moreover have "same_frame g h" using h(3) g1(2) by (simp add: same_frame_def without_def)
  moreover have "nodes h = filter (\<lambda>m. m \<notin> set (n # ds)) (nodes g)" by (auto simp: h(4) ns intro!: filter_cong)
  ultimately show ?case using g1(1) h(1,2) by simp
qed

lemma concat_map_filter: "(\<And>x. x \<in> set xs \<Longrightarrow> \<not> P x \<Longrightarrow> f x = []) \<Longrightarrow> concat (map f (filter P xs)) = concat (map f xs)"
  by (induction xs) auto

definition both_ends :: "(int \<Rightarrow> bool) \<Rightarrow> int \<times> int \<times> int \<times> int \<Rightarrow> bool" where
  "both_ends P x \<longleftrightarrow> P (fst x) \<and> P (fst (snd (snd x)))"

lemma cut:
  assumes ms: "simulation (simModules e)"
  shows "\<exists>h. cutNetwork e = Inr h \<and> wf_graph h
    \<and> map (\<lambda>n. moduleId (nodeAt h n)) (nodes h) = filter (\<lambda>m. networkNode e m \<and> underParent e m) (map simId (simModules e))
    \<and> map (linkEnds h) (allLinks h) = filter (both_ends (underParent e)) (connections (networkNode e) (simModules e))"
proof -
  let ?ms = "simModules e"
  obtain p where p: "extractFromNetwork (underParent e) ?ms = Inr p"
      "map (\<lambda>n. moduleId (nodeAt p n)) (nodes p) = map simId (selected (underParent e) ?ms)" using extraction [OF ms, of "underParent e"] by auto
  obtain g where g: "extractFromNetwork (networkNode e) ?ms = Inr g" "wf_graph g"
      "map (\<lambda>n. moduleId (nodeAt g n)) (nodes g) = map simId (selected (networkNode e) ?ms)"
      "map (linkEnds g) (allLinks g) = connections (networkNode e) ?ms" using extraction [OF ms, of "networkNode e"] by auto
  let ?P = "\<lambda>n. underParent e (moduleId (nodeAt g n))"
  have "set (map (\<lambda>n. moduleId (nodeAt g n)) (nodes g)) \<subseteq> simId ` set ?ms" unfolding g(3) by (auto simp: selected_def)
  then have below: "moduleId (nodeAt g n) \<in> set (map (\<lambda>k. moduleId (nodeAt p k)) (nodes p)) \<longleftrightarrow> ?P n" if n: "n \<in> set (nodes g)" for n
  proof -
    obtain x where "x \<in> set ?ms" "moduleId (nodeAt g n) = simId x"
      using n \<open>set (map (\<lambda>n. moduleId (nodeAt g n)) (nodes g)) \<subseteq> simId ` set ?ms\<close> by auto
    then show ?thesis unfolding p(2) by (auto simp: selected_def image_iff)
  qed
  define ds where "ds = filter (\<lambda>n. moduleId (nodeAt g n) \<notin> set (map (\<lambda>k. moduleId (nodeAt p k)) (nodes p))) (nodes g)"
  have ds: "n \<in> set ds \<longleftrightarrow> \<not> ?P n" if "n \<in> set (nodes g)" for n using below [OF that] that by (simp add: ds_def)
  have "distinct ds" "set ds \<subseteq> set (nodes g)" using g(2) by (auto simp: ds_def wf_graph_def)
  then obtain h where h: "foldM (\<lambda>h n. deleteNode n h) g ds = Inr h" "wf_graph h" "same_frame g h" "nodes h = filter (\<lambda>n. n \<notin> set ds) (nodes g)"
      "\<And>m. m \<in> set (nodes h) \<Longrightarrow> outLinks (nodeAt h m) = filter (\<lambda>l. destOf g l \<notin> set ds) (outLinks (nodeAt g m))"
    using delete_nodes [OF g(2)] by blast
  have ns: "nodes h = filter ?P (nodes g)" unfolding h(4) by (rule filter_cong) (simp_all add: ds)
  have mid: "moduleId (nodeAt h n) = moduleId (nodeAt g n)" "linkEnds h = linkEnds g" for n
    using h(3) by (auto simp: same_frame_def linkEnds_def srcOf_def destOf_def)
  have "cutNetwork e = Inr h" using p(1) g(1) h(1) by (simp add: cutNetwork_def ds_def)
  moreover have "map (\<lambda>n. moduleId (nodeAt h n)) (nodes h) = filter (underParent e) (map (\<lambda>n. moduleId (nodeAt g n)) (nodes g))"
    by (simp add: ns mid filter_map comp_def)
  then have "map (\<lambda>n. moduleId (nodeAt h n)) (nodes h) = filter (\<lambda>m. networkNode e m \<and> underParent e m) (map simId ?ms)"
    unfolding g(3) by (simp add: selected_def filter_map comp_def conj_commute)
  moreover have "map (linkEnds h) (allLinks h) = filter (both_ends (underParent e)) (connections (networkNode e) ?ms)"
  proof -
    have out: "outLinks (nodeAt h m) = filter (\<lambda>l. both_ends (underParent e) (linkEnds g l)) (outLinks (nodeAt g m))" if "m \<in> set (nodes h)" for m
      using that ds wf_outLink [OF g(2), of m] by (auto simp: h(5) [OF that] ns both_ends_def linkEnds_def intro!: filter_cong)
    have none: "filter (\<lambda>l. both_ends (underParent e) (linkEnds g l)) (outLinks (nodeAt g m)) = []" if "m \<in> set (nodes g)" "\<not> ?P m" for m
      using that wf_outLink(1) [OF g(2), of m] by (auto simp: filter_empty_conv both_ends_def linkEnds_def)
    have "allLinks h = concat (map (\<lambda>m. filter (\<lambda>l. both_ends (underParent e) (linkEnds g l)) (outLinks (nodeAt g m))) (filter ?P (nodes g)))"
      unfolding allLinks_def using out by (auto simp: ns intro!: arg_cong [where f = concat])
    also have "\<dots> = concat (map (\<lambda>m. filter (\<lambda>l. both_ends (underParent e) (linkEnds g l)) (outLinks (nodeAt g m))) (nodes g))" by (rule concat_map_filter) (rule none)
    also have "\<dots> = filter (\<lambda>l. both_ends (underParent e) (linkEnds g l)) (allLinks g)" by (simp add: allLinks_def filter_concat comp_def)
    finally show ?thesis unfolding mid g(4) [symmetric] by (simp add: filter_map comp_def)
  qed
  ultimately show ?thesis using h(2) by blast
qed
section \<open>The interfaces of nodes\<close>

definition tableList :: "net_modules \<Rightarrow> topology \<Rightarrow> nat \<Rightarrow> nat list" where
  "tableList e g n = (case tableOf e g n of None \<Rightarrow> [] | Some is \<Rightarrow> is)"

text \<open>The nodes that the search meets: over the links of the network interfaces, from the first node.\<close>

inductive met :: "net_modules \<Rightarrow> topology \<Rightarrow> nat \<Rightarrow> bool" for e g where
  met_first: "met e g (hd (nodes g))"
| met_next: "met e g n \<Longrightarrow> i \<in> set (tableList e g n) \<Longrightarrow>
    findLinkOutByGate g n (nodeOutputGateId (networkInterface e i)) = Some l \<Longrightarrow> met e g (destOf g l)"

inductive_cases met_cases: "met e g n"

text \<open>No network interface is listed twice, in one table or in two.\<close>

definition own_interfaces :: "net_modules \<Rightarrow> topology \<Rightarrow> bool" where
  "own_interfaces e g \<longleftrightarrow> (\<forall>n\<in>set (nodes g). distinct (tableList e g n))
     \<and> (\<forall>n\<in>set (nodes g). \<forall>m\<in>set (nodes g). n \<noteq> m \<longrightarrow> set (tableList e g n) \<inter> set (tableList e g m) = {})"

definition neighbours :: "net_modules \<Rightarrow> topology \<Rightarrow> nat \<Rightarrow> nat list \<Rightarrow> nat list" where
  "neighbours e g n is = concat (map (\<lambda>i. case findLinkOutByGate g n (nodeOutputGateId (networkInterface e i)) of
     None \<Rightarrow> [] | Some l \<Rightarrow> [destOf g l]) is)"

lemma visit_seen:
  "set is \<subseteq> seen \<Longrightarrow> foldl (visitInterface e g n) (seen, q, ifs) is = (seen, q, ifs)"
  by (induction "is") (simp_all add: visitInterface_def)

lemma visit_new:
  "distinct is \<Longrightarrow> set is \<inter> seen = {} \<Longrightarrow>
   foldl (visitInterface e g n) (seen, q, ifs) is = (seen \<union> set is, q @ neighbours e g n is, ifs(n := ifs n @ is))"
proof (induction "is" arbitrary: seen q ifs)
  case Nil
  then show ?case by (simp add: neighbours_def)
next
  case (Cons i "is")
  then show ?case by (auto simp: visitInterface_def neighbours_def split: option.splits)
qed

lemma neighbours_length: "length (neighbours e g n is) \<le> length is"
  by (induction "is") (auto simp: neighbours_def split: option.splits)

text \<open>After the nodes of \<open>D\<close> were visited.\<close>

definition searched :: "net_modules \<Rightarrow> topology \<Rightarrow> nat set \<Rightarrow> interface_search \<Rightarrow> bool" where
  "searched e g D s \<longleftrightarrow> (case s of (seen, q, ifs) \<Rightarrow>
     ifs = (\<lambda>n. if n \<in> D then tableList e g n else []) \<and> seen = (\<Union>n\<in>D. set (tableList e g n))
     \<and> (\<forall>n\<in>D \<union> set q. met e g n \<and> n \<in> set (nodes g)) \<and> hd (nodes g) \<in> D \<union> set q
     \<and> (\<forall>n\<in>D. set (neighbours e g n (tableList e g n)) \<subseteq> D \<union> set q))"

definition unseen :: "net_modules \<Rightarrow> topology \<Rightarrow> interface_search \<Rightarrow> nat" where
  "unseen e g s = (case s of (seen, q, ifs) \<Rightarrow> 2 * card ((\<Union>n\<in>set (nodes g). set (tableList e g n)) - seen) + length q)"

lemma neighbours_met:
  assumes "met e g n" "m \<in> set (neighbours e g n (tableList e g n))"
  shows "met e g m"
  using assms by (auto simp: neighbours_def split: option.splits intro: met_next)

lemma neighbours_nodes:
  assumes "wf_graph g" "n \<in> set (nodes g)" "m \<in> set (neighbours e g n is)"
  shows "m \<in> set (nodes g)"
proof -
  obtain i where i: "m \<in> set (case findLinkOutByGate g n (nodeOutputGateId (networkInterface e i)) of None \<Rightarrow> [] | Some l \<Rightarrow> [destOf g l])"
    using assms(3) by (auto simp: neighbours_def)
  then obtain l where l: "findLinkOutByGate g n (nodeOutputGateId (networkInterface e i)) = Some l" "m = destOf g l"
    by (cases "findLinkOutByGate g n (nodeOutputGateId (networkInterface e i))") simp_all
  then have "l \<in> set (outLinks (nodeAt g n))" by (auto simp: findLinkOutByGate_def dest: find_Some_in)
  then show ?thesis using wf_outLink(2) [OF assms(1,2)] l(2) by simp
qed

lemma visitNextNode_table:
  "visitNextNode e g (seen, n # q, ifs) = foldl (visitInterface e g n) (seen, q, ifs) (tableList e g n)"
  by (simp add: visitNextNode_def tableList_def split: option.splits)

lemma searched_step:
  assumes wf: "wf_graph g" and own: "own_interfaces e g" and inv: "searched e g D (seen, n # q, ifs)"
  shows "\<exists>D. searched e g D (visitNextNode e g (seen, n # q, ifs))
    \<and> unseen e g (visitNextNode e g (seen, n # q, ifs)) < unseen e g (seen, n # q, ifs)"
proof (cases "n \<in> D")
  case True
  then have "set (tableList e g n) \<subseteq> seen" using inv by (auto simp: searched_def)
  then have "visitNextNode e g (seen, n # q, ifs) = (seen, q, ifs)" by (simp add: visitNextNode_table visit_seen)
  moreover have "searched e g D (seen, q, ifs)" using inv True by (auto simp: searched_def)
  ultimately show ?thesis by (intro exI [of _ D]) (simp add: unseen_def)
next
  case False
  let ?is = "tableList e g n"
  have n: "n \<in> set (nodes g)" "met e g n" and D: "D \<subseteq> set (nodes g)" using inv by (auto simp: searched_def)
  have "set ?is \<inter> set (tableList e g m) = {}" if "m \<in> D" for m
  proof -
    have "m \<in> set (nodes g)" "n \<noteq> m" using D False that by auto
    then show ?thesis using own n(1) by (simp add: own_interfaces_def)
  qed
  then have "set ?is \<inter> seen = {}" using inv by (auto simp: searched_def)
  moreover have "distinct ?is" using own n(1) by (simp add: own_interfaces_def)
  ultimately have new: "distinct ?is" "set ?is \<inter> seen = {}" by simp_all
  have step: "visitNextNode e g (seen, n # q, ifs) = (seen \<union> set ?is, q @ neighbours e g n ?is, ifs(n := ifs n @ ?is))"
    by (simp add: visitNextNode_table visit_new [OF new])
  have "searched e g (insert n D) (seen \<union> set ?is, q @ neighbours e g n ?is, ifs(n := ifs n @ ?is))"
  proof -
    have ifs: "ifs = (\<lambda>m. if m \<in> D then tableList e g m else [])" and seen: "seen = (\<Union>m\<in>D. set (tableList e g m))"
      and closed: "\<And>m. m \<in> D \<Longrightarrow> set (neighbours e g m (tableList e g m)) \<subseteq> insert n (D \<union> set q)"
      and nodes: "\<And>m. m \<in> D \<union> set q \<Longrightarrow> met e g m \<and> m \<in> set (nodes g)" and hd: "hd (nodes g) \<in> insert n (D \<union> set q)"
      using inv by (auto simp: searched_def)
    have "ifs(n := ifs n @ ?is) = (\<lambda>m. if m \<in> insert n D then tableList e g m else [])" using False by (simp add: ifs fun_eq_iff)
    moreover have "seen \<union> set ?is = (\<Union>m\<in>insert n D. set (tableList e g m))" by (simp add: seen Un_commute)
    moreover have "\<forall>m\<in>insert n D \<union> set (q @ neighbours e g n ?is). met e g m \<and> m \<in> set (nodes g)"
      using nodes n neighbours_met [OF n(2)] neighbours_nodes [OF wf n(1)] by auto
    moreover have "hd (nodes g) \<in> insert n D \<union> set (q @ neighbours e g n ?is)" using hd by auto
    moreover have "\<forall>m\<in>insert n D. set (neighbours e g m (tableList e g m)) \<subseteq> insert n D \<union> set (q @ neighbours e g n ?is)" using closed by auto
    ultimately show ?thesis unfolding searched_def by simp
  qed
  moreover have "unseen e g (seen \<union> set ?is, q @ neighbours e g n ?is, ifs(n := ifs n @ ?is)) < unseen e g (seen, n # q, ifs)"
  proof -
    let ?A = "\<Union>n\<in>set (nodes g). set (tableList e g n)"
    have "?A - seen = (?A - (seen \<union> set ?is)) \<union> set ?is" using new(2) n(1) by auto
    moreover have "card ((?A - (seen \<union> set ?is)) \<union> set ?is) = card (?A - (seen \<union> set ?is)) + card (set ?is)"
      by (rule card_Un_disjoint) auto
    ultimately have "card (?A - seen) = card (?A - (seen \<union> set ?is)) + card (set ?is)" by (simp only:)
    then show ?thesis using neighbours_length [of e g n ?is] distinct_card [OF new(1)] by (simp add: unseen_def)
  qed
  ultimately show ?thesis unfolding step by blast
qed

lemma collected:
  assumes wf: "wf_graph g" and own: "own_interfaces e g" and ne: "nodes g \<noteq> []"
  shows "collectInterfaces e g = Some (\<lambda>n. if met e g n then tableList e g n else [])"
proof -
  let ?P = "\<lambda>s. \<exists>D. searched e g D s" and ?b = "\<lambda>s :: interface_search. fst (snd s) \<noteq> []"
  let ?s = "({}, [hd (nodes g)], \<lambda>_. []) :: interface_search"
  have start: "?P ?s" using ne by (intro exI [of _ "{}"]) (simp add: searched_def met_first)
  have step: "?P (visitNextNode e g s) \<and> unseen e g (visitNextNode e g s) < unseen e g s" if P: "?P s" and b: "?b s" for s
  proof -
    obtain seen n q ifs D where "s = (seen, n # q, ifs)" "searched e g D s" using P b by (cases s) (auto simp: neq_Nil_conv)
    then show ?thesis using searched_step [OF wf own] by blast
  qed
  have "\<exists>s. while_option ?b (visitNextNode e g) ?s = Some s"
    by (rule measure_while_option_Some [where P = ?P and f = "unseen e g", OF _ start]) (rule step)
  then obtain s where s: "while_option ?b (visitNextNode e g) ?s = Some s" by blast
  have "?P s" by (rule while_option_rule [where P = ?P, OF _ s start]) (use step in blast)
  moreover have "\<not> ?b s" by (rule while_option_stop [OF s])
  ultimately obtain seen ifs D where fin: "s = (seen, [], ifs)" "searched e g D (seen, [], ifs)" by (cases s) auto
  have "n \<in> D" if "met e g n" for n
    using that
  proof induction
    case met_first
    then show ?case using fin(2) by (simp add: searched_def)
  next
    case (met_next n i l)
    then have "destOf g l \<in> set (neighbours e g n (tableList e g n))" by (force simp: neighbours_def)
    then show ?case using fin(2) met_next.IH by (auto simp: searched_def)
  qed
  then have "D = {n. met e g n}" using fin(2) by (auto simp: searched_def)
  then have "ifs = (\<lambda>n. if met e g n then tableList e g n else [])" using fin(2) by (auto simp: searched_def)
  then show ?thesis using s fin(1) by (simp add: collectInterfaces_def)
qed
section \<open>Following first paths\<close>

fun first_walk :: "topology \<Rightarrow> nat \<Rightarrow> nat list \<Rightarrow> nat \<Rightarrow> bool" where
  "first_walk h u [] v = (u = v)"
| "first_walk h u (l # ls) v = (u \<noteq> v \<and> (\<exists>ps. outPaths (nodeAt h u) = l # ps) \<and> first_walk h (destOf h l) ls v)"

text \<open>The nodes that a walk leaves.\<close>

fun nodesOn :: "topology \<Rightarrow> nat \<Rightarrow> nat list \<Rightarrow> nat list" where
  "nodesOn g u [] = []"
| "nodesOn g u (l # ls) = u # nodesOn g (destOf g l) ls"

lemma first_walk_exists:
  assumes sp: "shortest_paths hop g t h" and pos: "positive_hops hop g"
    and v: "v \<in> set (nodes g)" "pathDist (nodeAt h v) \<noteq> Infinite"
  shows "\<exists>ls. first_walk h v ls t \<and> walk g v ls t \<and> walkCost hop ls = pathDist (nodeAt h v)
    \<and> distinct (nodesOn g v ls) \<and> (\<forall>u\<in>set (nodesOn g v ls). pathDist (nodeAt h u) \<le> pathDist (nodeAt h v)) \<and> (\<forall>l\<in>set ls. hop l \<noteq> Infinite)"
  using v
proof (induction "card {x \<in> set (nodes g). pathDist (nodeAt h x) < pathDist (nodeAt h v)}" arbitrary: v rule: less_induct)
  case less
  have ends: "destOf h = destOf g" using sp same_graph_ends by (auto simp: shortest_paths_def)
  show ?case
  proof (cases "v = t")
    case True
    then show ?thesis using sp by (intro exI [of _ "[]"]) (simp add: shortest_paths_def)
  next
    case False
    then obtain l ps where l: "outPaths (nodeAt h v) = l # ps" "l \<in> set (outLinks (nodeAt g v))" "usable g l" "destOf g l \<in> set (nodes g)"
        "pathDist (nodeAt h (destOf g l)) \<noteq> Infinite" "pathDist (nodeAt h v) = hop l + pathDist (nodeAt h (destOf g l))"
      using sp less.prems unfolding shortest_paths_def by blast
    let ?u = "destOf g l"
    have lt: "pathDist (nodeAt h ?u) < pathDist (nodeAt h v)"
      using l(2,5,6) pos less.prems(1) plus_farther by (simp add: positive_hops_def)
    have "{x \<in> set (nodes g). pathDist (nodeAt h x) < pathDist (nodeAt h ?u)} \<subset> {x \<in> set (nodes g). pathDist (nodeAt h x) < pathDist (nodeAt h v)}"
      using lt l(4) by (auto intro: order_less_trans)
    then have "card {x \<in> set (nodes g). pathDist (nodeAt h x) < pathDist (nodeAt h ?u)}
        < card {x \<in> set (nodes g). pathDist (nodeAt h x) < pathDist (nodeAt h v)}" by (intro psubset_card_mono) simp_all
    then obtain ls where ls: "first_walk h ?u ls t" "walk g ?u ls t" "walkCost hop ls = pathDist (nodeAt h ?u)" "distinct (nodesOn g ?u ls)"
        "\<forall>u\<in>set (nodesOn g ?u ls). pathDist (nodeAt h u) \<le> pathDist (nodeAt h ?u)" "\<forall>l\<in>set ls. hop l \<noteq> Infinite"
      using less.hyps l(4,5) by blast
    have "v \<notin> set (nodesOn g ?u ls)" using ls(5) lt by (auto simp: not_le [symmetric])
    moreover have "\<forall>u\<in>set (nodesOn g ?u ls). pathDist (nodeAt h u) \<le> pathDist (nodeAt h v)" using ls(5) lt by (meson less_imp_le order_trans)
    moreover have "hop l \<noteq> Infinite" using l(6) less.prems(2) by auto
    ultimately show ?thesis using l ls False by (intro exI [of _ "l # ls"]) (simp add: ends)
  qed
qed

lemma follow_links:
  "first_walk h v ls d \<Longrightarrow> while_option (under_way d) (stepLink h) (Inr (v, p)) = Some (Inr (d, p @ ls))"
proof (induction ls arbitrary: v p)
  case Nil
  then show ?case by (subst while_option_unfold) (simp add: under_way_def)
next
  case (Cons l ls)
  then have "under_way d (Inr (v, p))" "stepLink h (Inr (v, p)) = Inr (destOf h l, p @ [l])" "first_walk h (destOf h l) ls d"
    by (auto simp: under_way_def stepLink_def getPath_def)
  then show ?case using Cons.IH by (subst while_option_unfold) simp
qed

lemma follow_nodes:
  "first_walk h v ls d \<Longrightarrow> while_option (under_way d) (stepNode h) (Inr (v, p)) = Some (Inr (d, p @ nodesOn h v ls))"
proof (induction ls arbitrary: v p)
  case Nil
  then show ?case by (subst while_option_unfold) (simp add: under_way_def)
next
  case (Cons l ls)
  then have "under_way d (Inr (v, p))" "stepNode h (Inr (v, p)) = Inr (destOf h l, p @ [v])" "first_walk h (destOf h l) ls d"
    by (auto simp: under_way_def stepNode_def getPath_def)
  then show ?case using Cons.IH by (subst while_option_unfold) simp
qed

lemma stuck:
  assumes "s \<noteq> d" "outPaths (nodeAt h s) = []"
  shows "while_option (under_way d) (stepLink h) (Inr (s, [])) = Some (Inl OutOfRange)"
    "while_option (under_way d) (stepNode h) (Inr (s, [])) = Some (Inl OutOfRange)"
  using assms by (subst while_option_unfold, simp add: under_way_def stepLink_def stepNode_def getPath_def, subst while_option_unfold, simp add: under_way_def)+

lemma walkCost_length: "walkCost (\<lambda>_. Finite 1) ls = Finite (real (length ls))"
  by (induction ls) (simp_all add: zero_weight_def)

lemma no_path:
  assumes sp: "shortest_paths (\<lambda>_. Finite 1) g d h" and s: "s \<in> set (nodes g)" "pathDist (nodeAt h s) = Infinite" and wf: "wf_graph g"
  shows "outPaths (nodeAt h s) = []"
proof -
  have "l \<notin> set (outPaths (nodeAt h s))" for l
  proof
    assume "l \<in> set (outPaths (nodeAt h s))"
    then have l: "l \<in> set (outLinks (nodeAt g s))" "usable g l" "pathDist (nodeAt h (destOf g l)) \<noteq> Infinite"
      using sp s(1) by (auto simp: shortest_paths_def)
    have "destOf g l \<in> set (nodes g)" using wf_outLink(2) [OF wf s(1) l(1)] .
    then obtain ls where "walk g (destOf g l) ls d" using sp l(3) unfolding shortest_paths_def by blast
    then have "walk g s (l # ls) d" using l by simp
    then have "Infinite \<le> walkCost (\<lambda>_. Finite 1) (l # ls)" using sp s unfolding shortest_paths_def by metis
    then show False by (simp add: walkCost_length)
  qed
  then show ?thesis by (metis list.set_intros(1) neq_Nil_conv)
qed

text \<open>Both functions compute a shortest path, or fail when there is none.\<close>

lemma path_between:
  assumes wf: "wf_graph g" and s: "s \<in> set (nodes g)" and d: "d \<in> set (nodes g)"
  obtains (path) ls where "computeShortestLinkPath g s d = Some (Inr ls)" "computeShortestNodePath g s d = Some (Inr (nodesOn g s ls @ [d]))"
      "walk g s ls d" "\<And>ks. walk g s ks d \<Longrightarrow> length ls \<le> length ks" "distinct (nodesOn g s ls)"
    | (none) "computeShortestLinkPath g s d = Some (Inl OutOfRange)" "computeShortestNodePath g s d = Some (Inl OutOfRange)" "\<And>ks. \<not> walk g s ks d"
proof -
  obtain h where h: "calculateUnweightedSingleShortestPathsTo (Some d) g = Some (Inr h)" "shortest_paths (\<lambda>_. Finite 1) g d h"
    using unweighted_search [OF wf d] by blast
  have ends: "destOf h = destOf g" using h(2) same_graph_ends by (auto simp: shortest_paths_def)
  have pos: "positive_hops (\<lambda>_. Finite 1) g" by (simp add: positive_hops_def zero_weight_def)
  have nodesOn: "nodesOn h v ls = nodesOn g v ls" for v ls by (induction ls arbitrary: v) (simp_all add: ends)
  show ?thesis
  proof (cases "pathDist (nodeAt h s) = Infinite")
    case True
    then have "s \<noteq> d" using h(2) by (auto simp: shortest_paths_def zero_weight_def)
    then have fails: "computeShortestLinkPath g s d = Some (Inl OutOfRange)" "computeShortestNodePath g s d = Some (Inl OutOfRange)"
      using stuck [of s d h] no_path [OF h(2) s True wf] h(1) by (simp_all add: computeShortestLinkPath_def computeShortestNodePath_def)
    have "\<not> walk g s ks d" for ks
    proof
      assume "walk g s ks d"
      then have "pathDist (nodeAt h s) \<le> walkCost (\<lambda>_. Finite 1) ks" using h(2) s by (simp add: shortest_paths_def)
      then show False using True by (simp add: walkCost_length)
    qed
    then show ?thesis by (rule none [OF fails])
  next
    case False
    then obtain ls where ls: "first_walk h s ls d" "walk g s ls d" "walkCost (\<lambda>_. Finite 1) ls = pathDist (nodeAt h s)" "distinct (nodesOn g s ls)"
      using first_walk_exists [OF h(2) pos s] by blast
    have "computeShortestLinkPath g s d = Some (Inr ls)" "computeShortestNodePath g s d = Some (Inr (nodesOn g s ls @ [d]))"
      using h(1) follow_links [OF ls(1)] follow_nodes [OF ls(1)]
      by (simp_all add: computeShortestLinkPath_def computeShortestNodePath_def nodesOn)
    moreover have "length ls \<le> length ks" if "walk g s ks d" for ks
    proof -
      have "walkCost (\<lambda>_. Finite 1) ls \<le> walkCost (\<lambda>_. Finite 1) ks" unfolding ls(3) using h(2) s that by (simp add: shortest_paths_def)
      then show ?thesis by (simp add: walkCost_length)
    qed
    ultimately show ?thesis using path [of ls] ls(2,4) by blast
  qed
qed
section \<open>Rules lead to their stations\<close>

text \<open>The same graph, up to weights and the results of searches.\<close>

definition same_shape :: "topology \<Rightarrow> topology \<Rightarrow> bool" where
  "same_shape g h \<longleftrightarrow> nodes h = nodes g
     \<and> (\<forall>n. inLinks (nodeAt h n) = inLinks (nodeAt g n) \<and> outLinks (nodeAt h n) = outLinks (nodeAt g n)
          \<and> nodeEnabled (nodeAt h n) = nodeEnabled (nodeAt g n) \<and> nodeWeight (nodeAt h n) = nodeWeight (nodeAt g n)
          \<and> moduleId (nodeAt h n) = moduleId (nodeAt g n))
     \<and> (\<forall>l. srcNode (linkAt h l) = srcNode (linkAt g l) \<and> destNode (linkAt h l) = destNode (linkAt g l)
          \<and> linkEnabled (linkAt h l) = linkEnabled (linkAt g l))"

lemma same_shape_refl: "same_shape g g"
  by (simp add: same_shape_def)

lemma same_shape_trans: "same_shape f g \<Longrightarrow> same_shape g h \<Longrightarrow> same_shape f h"
  by (simp add: same_shape_def)

lemma same_graph_shape: "same_graph g h \<Longrightarrow> same_shape g h"
  by (simp add: same_graph_def same_shape_def)

lemma same_shape_facts:
  assumes "same_shape g h"
  shows "srcOf h = srcOf g" "destOf h = destOf g" "usable h = usable g" "isGraphBridge e h = isGraphBridge e g" "wf_graph h = wf_graph g"
  using assms by (auto simp: same_shape_def srcOf_def destOf_def usable_def isGraphBridge_def wf_graph_def fun_eq_iff)

lemma same_shape_walk:
  assumes "same_shape g h"
  shows "walk h s ls d = walk g s ls d" "nodesOn h s ls = nodesOn g s ls"
  using assms by (induction ls arbitrary: s) (simp_all add: same_shape_facts [OF assms], simp_all add: same_shape_def)

lemma weigh_fold:
  "same_shape g (foldl (\<lambda>g l. setLink l (\<lambda>x. x\<lparr>linkWeight := w l\<rparr>) g) g ls)
   \<and> (\<forall>k. linkWeight (linkAt (foldl (\<lambda>g l. setLink l (\<lambda>x. x\<lparr>linkWeight := w l\<rparr>) g) g ls) k) = (if k \<in> set ls then w k else linkWeight (linkAt g k)))"
proof (induction ls arbitrary: g)
  case Nil
  then show ?case by (simp add: same_shape_refl)
next
  case (Cons l ls)
  have "same_shape g (setLink l (\<lambda>x. x\<lparr>linkWeight := w l\<rparr>) g)" by (simp add: same_shape_def)
  then show ?case using Cons.IH [of "setLink l (\<lambda>x. x\<lparr>linkWeight := w l\<rparr>) g"] same_shape_trans by auto
qed

lemma weighLinks_shape: "same_shape (graph t) (weighLinks t d i)"
  using weigh_fold [of "graph t" "\<lambda>l. if destinationInterface t l \<noteq> i then Infinite else Finite 1"] by (simp add: weighLinks_def)

lemma weighLinks_weight:
  "linkWeight (linkAt (weighLinks t d i) k) =
     (if k \<in> set (inLinks (nodeAt (graph t) d)) then if destinationInterface t k \<noteq> i then Infinite else Finite 1 else linkWeight (linkAt (graph t) k))"
  unfolding weighLinks_def using weigh_fold by simp

lemma weighLinks_positive:
  assumes "positive_weights (graph t)"
  shows "positive_weights (weighLinks t d i)"
proof -
  have "0 < (if destinationInterface t l \<noteq> i then Infinite else Finite 1)" for l by (simp add: zero_weight_def)
  then show ?thesis using assms weighLinks_shape [of t d i]
    by (auto simp: positive_weights_def weighLinks_weight same_shape_def)
qed

definition rulesAt :: "(int \<Rightarrow> mac_rule list option) \<Rightarrow> int \<Rightarrow> mac_rule list" where
  "rulesAt c m = (case c m of None \<Rightarrow> [] | Some rs \<Rightarrow> rs)"

definition distinct_rules :: "(int \<Rightarrow> mac_rule list option) \<Rightarrow> bool" where
  "distinct_rules c \<longleftrightarrow> (\<forall>m. distinct (rulesAt c m))"

lemma rulesAt_addRule:
  "rulesAt (addRule m a name c) k =
     (if k = m \<and> (mac_str a, name) \<notin> set (rulesAt c m) then rulesAt c m @ [(mac_str a, name)] else rulesAt c k)"
proof -
  have "findForwardingRule rs a name \<noteq> None \<longleftrightarrow> (mac_str a, name) \<in> set rs" for rs
    by (induction rs) (auto simp: findForwardingRule_def)
  then show ?thesis by (simp add: rulesAt_def addRule_def split: option.splits)
qed

text \<open>A bridge has a forwarding table, and an interface at each of its links.\<close>

definition configurable :: "net_modules \<Rightarrow> net_topology \<Rightarrow> bool" where
  "configurable e t \<longleftrightarrow> (\<forall>s\<in>set (nodes (graph t)). isGraphBridge e (graph t) s \<longrightarrow>
     macTableOf e (moduleId (nodeAt (graph t) s)) \<noteq> None \<and> (\<forall>l\<in>set (outLinks (nodeAt (graph t) s)). sourceInterface t l \<noteq> None))"

definition has_rule :: "net_modules \<Rightarrow> net_topology \<Rightarrow> mac \<Rightarrow> (int \<Rightarrow> mac_rule list option) \<Rightarrow> nat \<Rightarrow> nat \<Rightarrow> bool" where
  "has_rule e t a c s l \<longleftrightarrow> (case macTableOf e (moduleId (nodeAt (graph t) s)) of None \<Rightarrow> False
     | Some m \<Rightarrow> case sourceInterface t l of None \<Rightarrow> False
     | Some i \<Rightarrow> (mac_str a, interfaceName (networkInterface e (snd i))) \<in> set (rulesAt c m))"

definition more_rules :: "(int \<Rightarrow> mac_rule list option) \<Rightarrow> (int \<Rightarrow> mac_rule list option) \<Rightarrow> bool" where
  "more_rules c c' \<longleftrightarrow> (\<forall>m. set (rulesAt c m) \<subseteq> set (rulesAt c' m)) \<and> (distinct_rules c \<longrightarrow> distinct_rules c')"

lemma more_rules_trans: "more_rules a b \<Longrightarrow> more_rules b c \<Longrightarrow> more_rules a c"
  by (fastforce simp: more_rules_def)

lemma more_rules_has: "more_rules c c' \<Longrightarrow> has_rule e t a c s l \<Longrightarrow> has_rule e t a c' s l"
  by (auto simp: more_rules_def has_rule_def split: option.splits) (meson subsetD)+

lemma configureSource_rule:
  assumes "configurable e t" "s \<in> set (nodes (graph t))" "set (outPaths (nodeAt (graph t) s)) \<subseteq> set (outLinks (nodeAt (graph t) s))"
  shows "\<exists>c'. configureSource e t d a c s = Inr c' \<and> more_rules c c'
    \<and> (s \<noteq> d \<longrightarrow> isGraphBridge e (graph t) s \<longrightarrow> (\<forall>l ps. outPaths (nodeAt (graph t) s) = l # ps \<longrightarrow> has_rule e t a c' s l))"
proof (cases "s \<noteq> d \<and> isGraphBridge e (graph t) s \<and> outPaths (nodeAt (graph t) s) \<noteq> []")
  case True
  then obtain l ps where l: "outPaths (nodeAt (graph t) s) = l # ps" by (auto simp: neq_Nil_conv)
  have "macTableOf e (moduleId (nodeAt (graph t) s)) \<noteq> None" "sourceInterface t l \<noteq> None"
    using assms True l by (auto simp: configurable_def)
  then obtain m i where mi: "macTableOf e (moduleId (nodeAt (graph t) s)) = Some m" "sourceInterface t l = Some i" by blast
  let ?c = "addRule m a (interfaceName (networkInterface e (snd i))) c"
  have "configureSource e t d a c s = Inr ?c" using True l mi by (simp add: configureSource_def getPath_def)
  moreover have "more_rules c ?c" by (auto simp: more_rules_def distinct_rules_def rulesAt_addRule)
  moreover have "has_rule e t a ?c s l" using mi by (simp add: has_rule_def rulesAt_addRule)
  ultimately show ?thesis using l by auto
next
  case False
  then have "configureSource e t d a c s = Inr c" by (auto simp: configureSource_def)
  then show ?thesis using False by (auto simp: more_rules_def)
qed

lemma sources_rules:
  assumes "configurable e t" "set ns \<subseteq> set (nodes (graph t))"
    and "\<forall>s\<in>set (nodes (graph t)). set (outPaths (nodeAt (graph t) s)) \<subseteq> set (outLinks (nodeAt (graph t) s))"
  shows "\<exists>c'. foldM (configureSource e t d a) c ns = Inr c' \<and> more_rules c c'
    \<and> (\<forall>s\<in>set ns. s \<noteq> d \<longrightarrow> isGraphBridge e (graph t) s \<longrightarrow> (\<forall>l ps. outPaths (nodeAt (graph t) s) = l # ps \<longrightarrow> has_rule e t a c' s l))"
  using assms(2)
proof (induction ns arbitrary: c)
  case Nil
  then show ?case by (simp add: more_rules_def)
next
  case (Cons s ns)
  obtain c1 where c1: "configureSource e t d a c s = Inr c1" "more_rules c c1"
      "s \<noteq> d \<longrightarrow> isGraphBridge e (graph t) s \<longrightarrow> (\<forall>l ps. outPaths (nodeAt (graph t) s) = l # ps \<longrightarrow> has_rule e t a c1 s l)"
    using configureSource_rule [OF assms(1), of s d a c] assms(3) Cons.prems by auto
  obtain c2 where c2: "foldM (configureSource e t d a) c1 ns = Inr c2" "more_rules c1 c2"
      "\<forall>s\<in>set ns. s \<noteq> d \<longrightarrow> isGraphBridge e (graph t) s \<longrightarrow> (\<forall>l ps. outPaths (nodeAt (graph t) s) = l # ps \<longrightarrow> has_rule e t a c2 s l)"
    using Cons.IH [of c1] Cons.prems by auto
  then show ?case using c1 more_rules_trans [OF c1(2) c2(2)] more_rules_has [OF c2(2)] by auto
qed
text \<open>The same network with other weights and other paths.\<close>

definition same_network :: "net_topology \<Rightarrow> net_topology \<Rightarrow> bool" where
  "same_network t u \<longleftrightarrow> interfaces u = interfaces t \<and> sourceInterface u = sourceInterface t
     \<and> destinationInterface u = destinationInterface t \<and> same_shape (graph t) (graph u)"

text \<open>A walk at finite cost that enters its target by the given interface.\<close>

definition entry_walk :: "net_topology \<Rightarrow> graph_interface option \<Rightarrow> nat \<Rightarrow> nat \<Rightarrow> nat list \<Rightarrow> bool" where
  "entry_walk t i d s ls \<longleftrightarrow> walk (graph t) s ls d \<and> (\<forall>l\<in>set ls.
     if destOf (graph t) l = d then destinationInterface t l = i
     else linkWeight (linkAt (graph t) l) \<noteq> Infinite \<and> nodeWeight (nodeAt (graph t) (destOf (graph t) l)) \<noteq> Infinite)"

fun guided :: "net_modules \<Rightarrow> net_topology \<Rightarrow> mac \<Rightarrow> (int \<Rightarrow> mac_rule list option) \<Rightarrow> nat \<Rightarrow> nat list \<Rightarrow> bool" where
  "guided e t a c u [] = True"
| "guided e t a c u (l # ls) = ((isGraphBridge e (graph t) u \<longrightarrow> has_rule e t a c u l) \<and> guided e t a c (destOf (graph t) l) ls)"

text \<open>
  There is a way from a node to a station that passes no node twice, enters the station by the given
  interface, and on which every bridge has the rule for its next link.
\<close>

definition served :: "net_modules \<Rightarrow> net_topology \<Rightarrow> mac \<Rightarrow> (int \<Rightarrow> mac_rule list option) \<Rightarrow> nat \<Rightarrow> graph_interface option \<Rightarrow> nat \<Rightarrow> bool" where
  "served e t a c d i s \<longleftrightarrow> (\<exists>ls. walk (graph t) s ls d \<and> distinct (nodesOn (graph t) s ls)
     \<and> (\<forall>l\<in>set ls. destOf (graph t) l = d \<longrightarrow> destinationInterface t l = i) \<and> guided e t a c s ls)"

lemma walk_links:
  assumes "wf_graph g"
  shows "s \<in> set (nodes g) \<Longrightarrow> walk g s ls d \<Longrightarrow> l \<in> set ls \<Longrightarrow> \<exists>u\<in>set (nodes g). l \<in> set (outLinks (nodeAt g u))"
  using wf_outLink(2) [OF assms] by (induction ls arbitrary: s) auto

lemma finite_cost: "(\<And>l. l \<in> set ls \<Longrightarrow> hop l \<noteq> Infinite) \<Longrightarrow> walkCost hop ls \<noteq> Infinite"
proof (induction ls)
  case (Cons l ls)
  then have "hop l \<noteq> Infinite" "walkCost hop ls \<noteq> Infinite" by auto
  then show ?case by (cases "hop l"; cases "walkCost hop ls") simp_all
qed (simp add: zero_weight_def)

lemma entry_price:
  assumes wf: "wf_graph (graph t)" and d: "d \<in> set (nodes (graph t))" and u: "u \<in> set (nodes (graph t))" "l \<in> set (outLinks (nodeAt (graph t) u))"
  shows "priceTo (weighLinks t d i) d l \<noteq> Infinite \<longleftrightarrow>
    (if destOf (graph t) l = d then destinationInterface t l = i
     else linkWeight (linkAt (graph t) l) \<noteq> Infinite \<and> nodeWeight (nodeAt (graph t) (destOf (graph t) l)) \<noteq> Infinite)"
proof -
  have shape: "same_shape (graph t) (weighLinks t d i)" by (rule weighLinks_shape)
  have ends: "destOf (weighLinks t d i) l = destOf (graph t) l" using same_shape_facts(2) [OF shape] by simp
  have nw: "nodeWeight (nodeAt (weighLinks t d i) v) = nodeWeight (nodeAt (graph t) v)" for v using shape by (simp add: same_shape_def)
  have dest: "destOf (graph t) l \<in> set (nodes (graph t))" "l \<in> set (inLinks (nodeAt (graph t) (destOf (graph t) l)))"
    using wf_outLink [OF wf u] by simp_all
  show ?thesis
  proof (cases "destOf (graph t) l = d")
    case True
    then have "l \<in> set (inLinks (nodeAt (graph t) d))" using dest by simp
    then show ?thesis using True by (simp add: priceTo_def ends weighLinks_weight zero_weight_def)
  next
    case False
    have "linkWeight (linkAt (weighLinks t d i) l) = linkWeight (linkAt (graph t) l)" if "l \<notin> set (inLinks (nodeAt (graph t) d))"
      using that by (simp add: weighLinks_weight)
    moreover have "l \<notin> set (inLinks (nodeAt (graph t) d))"
      using wf_inLink(1) [OF wf d, of l] False by auto
    ultimately show ?thesis using False
      by (cases "linkWeight (linkAt (graph t) l)"; cases "nodeWeight (nodeAt (graph t) (destOf (graph t) l))") (simp_all add: priceTo_def ends nw)
  qed
qed

lemma first_walk_guided:
  assumes "\<And>s l ps. s \<in> set (nodes (graph t)) \<Longrightarrow> s \<noteq> d \<Longrightarrow> isGraphBridge e (graph t) s \<Longrightarrow> outPaths (nodeAt h s) = l # ps \<Longrightarrow> has_rule e t a c s l"
    and ends: "destOf h = destOf (graph t)" and wf: "wf_graph (graph t)"
  shows "first_walk h s ls d \<Longrightarrow> walk (graph t) s ls d \<Longrightarrow> s \<in> set (nodes (graph t)) \<Longrightarrow> guided e t a c s ls"
  using assms(1) wf_outLink(2) [OF wf] by (induction ls arbitrary: s) (auto simp: ends)

lemma same_network_facts:
  assumes "same_network t u"
  shows "has_rule e u = has_rule e t" "served e u = served e t" "configurable e u = configurable e t"
proof -
  have shape: "same_shape (graph t) (graph u)" and annotations: "sourceInterface u = sourceInterface t" "destinationInterface u = destinationInterface t"
    using assms by (simp_all add: same_network_def)
  have mid: "moduleId (nodeAt (graph u) n) = moduleId (nodeAt (graph t) n)" "outLinks (nodeAt (graph u) n) = outLinks (nodeAt (graph t) n)"
      "nodes (graph u) = nodes (graph t)" for n using shape by (simp_all add: same_shape_def)
  show rules: "has_rule e u = has_rule e t" unfolding fun_eq_iff has_rule_def mid annotations by simp
  have "guided e u a c s ls = guided e t a c s ls" for a c s ls
    by (induction ls arbitrary: s) (simp_all add: rules same_shape_facts [OF shape])
  then show "served e u = served e t"
    by (simp add: fun_eq_iff served_def same_shape_walk [OF shape] same_shape_facts [OF shape] annotations)
  show "configurable e u = configurable e t"
    by (simp add: configurable_def same_shape_facts [OF shape] mid annotations)
qed

lemma more_rules_served:
  assumes "more_rules c c'" "served e t a c d i s"
  shows "served e t a c' d i s"
proof -
  have "guided e t a c u ls \<Longrightarrow> guided e t a c' u ls" for u ls
    using more_rules_has [OF assms(1)] by (induction ls arbitrary: u) auto
  then show ?thesis using assms(2) unfolding served_def by blast
qed

text \<open>One search with its rules.\<close>

lemma extend_run:
  assumes wf: "wf_graph (graph t)" and pos: "positive_weights (graph t)" and d: "d \<in> set (nodes (graph t))"
    and conf: "configurable e t" and c: "network c = t"
  obtains h cs where "extendConfiguration e d i a c = Some (Inr \<lparr>network = t\<lparr>graph := h\<rparr>, configurations = cs\<rparr>)"
    "shortest_paths (priceTo (weighLinks t d i) d) (weighLinks t d i) d h" "same_shape (graph t) h" "more_rules (configurations c) cs"
    "\<And>s l ps. s \<in> set (nodes (graph t)) \<Longrightarrow> s \<noteq> d \<Longrightarrow> isGraphBridge e (graph t) s \<Longrightarrow> outPaths (nodeAt h s) = l # ps \<Longrightarrow> has_rule e t a cs s l"
proof -
  define g where "g = weighLinks t d i"
  have shape: "same_shape (graph t) g" unfolding g_def by (rule weighLinks_shape)
  have wfg: "wf_graph g" using wf same_shape_facts(5) [OF shape] by simp
  have posg: "positive_weights g" using weighLinks_positive [OF pos] by (simp add: g_def)
  obtain h where h: "calculateWeightedSingleShortestPathsTo (Some d) g = Some (Inr h)" "shortest_paths (priceTo g d) g d h"
    using weighted_search [OF wfg posg] d shape by (auto simp: same_shape_def)
  have gh: "same_graph g h" using h(2) by (simp add: shortest_paths_def)
  have shape': "same_shape (graph t) h" using same_shape_trans [OF shape same_graph_shape [OF gh]] .
  define u where "u = t\<lparr>graph := h\<rparr>"
  have net: "same_network t u" using shape' by (simp add: same_network_def u_def)
  have confu: "configurable e u" using conf same_network_facts(3) [OF net] by simp
  have paths: "\<forall>s\<in>set (nodes (graph u)). set (outPaths (nodeAt (graph u) s)) \<subseteq> set (outLinks (nodeAt (graph u) s))"
    using h(2) gh by (auto simp: u_def shortest_paths_def same_graph_def)
  obtain cs where cs: "foldM (configureSource e u d a) (configurations c) (nodes h) = Inr cs" "more_rules (configurations c) cs"
      "\<forall>s\<in>set (nodes h). s \<noteq> d \<longrightarrow> isGraphBridge e (graph u) s \<longrightarrow> (\<forall>l ps. outPaths (nodeAt (graph u) s) = l # ps \<longrightarrow> has_rule e u a cs s l)"
    using sources_rules [OF confu, of "nodes h" d a "configurations c"] paths by (auto simp: u_def)
  have "extendConfiguration e d i a c = Some (Inr \<lparr>network = u, configurations = cs\<rparr>)"
    using h(1) cs(1) c by (simp add: extendConfiguration_def g_def u_def)
  moreover have "has_rule e t a cs s l" if "s \<in> set (nodes (graph t))" "s \<noteq> d" "isGraphBridge e (graph t) s" "outPaths (nodeAt h s) = l # ps" for s l ps
    using cs(3) that shape' same_shape_facts(4) [OF shape'] same_network_facts(1) [OF net] by (auto simp: u_def same_shape_def)
  ultimately show ?thesis using that [of h cs] h(2) shape' cs(2) by (simp add: g_def u_def)
qed

lemma found_walk_serves:
  assumes wf: "wf_graph (graph t)" and pos: "positive_weights (graph t)" and d: "d \<in> set (nodes (graph t))"
    and sp: "shortest_paths (priceTo (weighLinks t d i) d) (weighLinks t d i) d h" and shape': "same_shape (graph t) h"
    and rules: "\<And>s l ps. s \<in> set (nodes (graph t)) \<Longrightarrow> s \<noteq> d \<Longrightarrow> isGraphBridge e (graph t) s \<Longrightarrow> outPaths (nodeAt h s) = l # ps \<Longrightarrow> has_rule e t a cs s l"
    and s: "s \<in> set (nodes (graph t))" and entry: "entry_walk t i d s ls"
  shows "served e t a cs d i s"
proof -
  define g where "g = weighLinks t d i"
  have shape: "same_shape (graph t) g" unfolding g_def by (rule weighLinks_shape)
  have hops: "positive_hops (priceTo g d) g"
    using positive_price weighLinks_positive [OF pos] wf same_shape_facts(5) [OF shape] by (simp add: g_def)
  have ns: "nodes g = nodes (graph t)" using shape by (simp add: same_shape_def)
  note price = entry_price [OF wf d, where i = i, folded g_def]
  have "walk g s ls d" using entry same_shape_walk [OF shape] by (simp add: entry_walk_def)
  have "priceTo g d l \<noteq> Infinite" if l: "l \<in> set ls" for l
    using walk_links [OF wf s _ l] entry l price by (auto simp: entry_walk_def)
  then have "walkCost (priceTo g d) ls \<noteq> Infinite" by (rule finite_cost)
  moreover have "pathDist (nodeAt h s) \<le> walkCost (priceTo g d) ls"
    using sp s \<open>walk g s ls d\<close> by (simp add: shortest_paths_def ns g_def [symmetric])
  ultimately have "pathDist (nodeAt h s) \<noteq> Infinite" by (cases "walkCost (priceTo g d) ls") auto
  then obtain ks where ks: "first_walk h s ks d" "walk g s ks d" "distinct (nodesOn g s ks)" "\<forall>l\<in>set ks. priceTo g d l \<noteq> Infinite"
    using first_walk_exists [OF sp [folded g_def] hops] s ns by metis
  have walk: "walk (graph t) s ks d" "nodesOn (graph t) s ks = nodesOn g s ks" using ks(2) same_shape_walk [OF shape] by simp_all
  have "destinationInterface t l = i" if l: "l \<in> set ks" and dest: "destOf (graph t) l = d" for l
    using walk_links [OF wf s walk(1) l] price ks(4) l dest by auto
  moreover have "guided e t a cs s ks"
    by (rule first_walk_guided [OF rules same_shape_facts(2) [OF shape'] wf ks(1) walk(1) s])
  ultimately show ?thesis using walk ks(3) unfolding served_def by auto
qed

lemma extend:
  assumes wf: "wf_graph (graph (network c))" and pos: "positive_weights (graph (network c))"
    and d: "d \<in> set (nodes (graph (network c)))" and conf: "configurable e (network c)"
  obtains c' where "extendConfiguration e d i a c = Some (Inr c')" "same_network (network c) (network c')"
    "positive_weights (graph (network c'))" "more_rules (configurations c) (configurations c')"
    "\<And>l. destOf (graph (network c)) l \<noteq> d \<Longrightarrow> linkWeight (linkAt (graph (network c')) l) = linkWeight (linkAt (graph (network c)) l)"
    "\<And>s ls. s \<in> set (nodes (graph (network c))) \<Longrightarrow> entry_walk (network c) i d s ls \<Longrightarrow> served e (network c) a (configurations c') d i s"
proof -
  obtain h cs where run: "extendConfiguration e d i a c = Some (Inr \<lparr>network = (network c)\<lparr>graph := h\<rparr>, configurations = cs\<rparr>)"
    "shortest_paths (priceTo (weighLinks (network c) d i) d) (weighLinks (network c) d i) d h" "same_shape (graph (network c)) h" "more_rules (configurations c) cs"
    "\<And>s l ps. s \<in> set (nodes (graph (network c))) \<Longrightarrow> s \<noteq> d \<Longrightarrow> isGraphBridge e (graph (network c)) s \<Longrightarrow> outPaths (nodeAt h s) = l # ps \<Longrightarrow> has_rule e (network c) a cs s l"
    using extend_run [OF wf pos d conf refl, of i a thesis] by metis
  have gh: "same_graph (weighLinks (network c) d i) h" using run(2) by (simp add: shortest_paths_def)
  have "linkWeight (linkAt h l) = linkWeight (linkAt (graph (network c)) l)" if "destOf (graph (network c)) l \<noteq> d" for l
  proof -
    have "l \<notin> set (inLinks (nodeAt (graph (network c)) d))" using wf_inLink(1) [OF wf d, of l] that by auto
    then show ?thesis using gh by (simp add: same_graph_def weighLinks_weight)
  qed
  moreover have "positive_weights h" using weighLinks_positive [OF pos] gh by (auto simp: positive_weights_def same_graph_def)
  moreover have "same_network (network c) ((network c)\<lparr>graph := h\<rparr>)" using run(3) by (simp add: same_network_def)
  moreover note found_walk_serves [OF wf pos d run(2,3,5)]
  ultimately show ?thesis using that [OF run(1)] run(4) by simp
qed

text \<open>A walk over bridges that enters its target by the given interface.\<close>

definition bridge_walk :: "net_modules \<Rightarrow> net_topology \<Rightarrow> graph_interface option \<Rightarrow> nat \<Rightarrow> nat \<Rightarrow> nat list \<Rightarrow> bool" where
  "bridge_walk e t i d s ls \<longleftrightarrow> walk (graph t) s ls d \<and> (\<forall>l\<in>set ls.
     if destOf (graph t) l = d then destinationInterface t l = i
     else isGraphBridge e (graph t) (destOf (graph t) l) \<and> linkWeight (linkAt (graph t) l) \<noteq> Infinite
       \<and> nodeWeight (nodeAt (graph t) (destOf (graph t) l)) \<noteq> Infinite)"

definition sound :: "net_modules \<Rightarrow> net_topology \<Rightarrow> bool" where
  "sound e t \<longleftrightarrow> wf_graph (graph t) \<and> positive_weights (graph t) \<and> configurable e t"

text \<open>A later state of the configurator: the weights of links to bridges are never changed.\<close>

definition later :: "net_modules \<Rightarrow> mac_configurator \<Rightarrow> mac_configurator \<Rightarrow> bool" where
  "later e c c' \<longleftrightarrow> same_network (network c) (network c') \<and> (positive_weights (graph (network c)) \<longrightarrow> positive_weights (graph (network c')))
     \<and> more_rules (configurations c) (configurations c')
     \<and> (\<forall>l. isGraphBridge e (graph (network c)) (destOf (graph (network c)) l) \<longrightarrow>
          linkWeight (linkAt (graph (network c')) l) = linkWeight (linkAt (graph (network c)) l))"

lemma later_refl: "later e c c"
  by (simp add: later_def same_network_def same_shape_refl more_rules_def)

lemma later_shape: "later e c c' \<Longrightarrow> same_shape (graph (network c)) (graph (network c'))"
  by (simp add: later_def same_network_def)

lemma later_trans:
  assumes "later e a b" "later e b c"
  shows "later e a c"
  using assms same_shape_facts [OF later_shape [OF assms(1)]] same_shape_trans [OF later_shape later_shape, OF assms]
    more_rules_trans [of "configurations a" "configurations b" "configurations c"]
  by (simp add: later_def same_network_def)

lemma later_sound: "later e c c' \<Longrightarrow> sound e (network c) \<Longrightarrow> sound e (network c')"
  using same_shape_facts(5) [OF later_shape] same_network_facts(3) by (auto simp: sound_def later_def)

lemma later_served: "later e c c' \<Longrightarrow> served e t a (configurations c) d i s \<Longrightarrow> served e t a (configurations c') d i s"
  by (rule more_rules_served) (simp_all add: later_def)

lemma later_bridge_walk:
  assumes "later e c c'"
  shows "bridge_walk e (network c') i d s ls = bridge_walk e (network c) i d s ls"
proof -
  let ?g = "graph (network c)" and ?h = "graph (network c')"
  have shape: "same_shape ?g ?h" by (rule later_shape [OF assms])
  have nw: "nodeWeight (nodeAt ?h n) = nodeWeight (nodeAt ?g n)" for n using shape by (simp add: same_shape_def)
  have lw: "linkWeight (linkAt ?h l) = linkWeight (linkAt ?g l)" if "isGraphBridge e ?g (destOf ?g l)" for l
    using assms that by (simp add: later_def)
  have dest: "destinationInterface (network c') = destinationInterface (network c)" using assms by (simp add: later_def same_network_def)
  have "(isGraphBridge e ?h (destOf ?h l) \<and> linkWeight (linkAt ?h l) \<noteq> Infinite \<and> nodeWeight (nodeAt ?h (destOf ?h l)) \<noteq> Infinite)
      = (isGraphBridge e ?g (destOf ?g l) \<and> linkWeight (linkAt ?g l) \<noteq> Infinite \<and> nodeWeight (nodeAt ?g (destOf ?g l)) \<noteq> Infinite)" for l
    using lw [of l] by (auto simp: same_shape_facts [OF shape] nw)
  then show ?thesis
    unfolding bridge_walk_def same_shape_walk [OF shape] dest by (simp only: same_shape_facts [OF shape])
qed

definition station :: "net_modules \<Rightarrow> nat \<Rightarrow> bool" where
  "station e i \<longleftrightarrow> \<not> loopback (networkInterface e i) \<and> \<not> isUnspecified (interfaceMac (networkInterface e i))"

text \<open>Every node from which bridges lead to the interface is served.\<close>

definition station_served :: "net_modules \<Rightarrow> net_topology \<Rightarrow> nat \<Rightarrow> nat \<Rightarrow> (int \<Rightarrow> mac_rule list option) \<Rightarrow> bool" where
  "station_served e t d i c \<longleftrightarrow> (station e i \<longrightarrow> (\<forall>s\<in>set (nodes (graph t)). (\<exists>ls. bridge_walk e t (Some (d, i)) d s ls) \<longrightarrow>
     served e t (interfaceMac (networkInterface e i)) c d (Some (d, i)) s))"

lemma configureStation_serves:
  assumes ok: "sound e (network c)" and d: "d \<in> set (nodes (graph (network c)))" "\<not> isGraphBridge e (graph (network c)) d"
  shows "\<exists>c'. configureStation e d c i = Some (Inr c') \<and> later e c c' \<and> station_served e (network c) d i (configurations c')"
proof (cases "station e i")
  case False
  then have "configureStation e d c i = Some (Inr c)" by (auto simp: configureStation_def station_def)
  then show ?thesis using False by (auto simp: later_refl station_served_def)
next
  case True
  have ok': "wf_graph (graph (network c))" "positive_weights (graph (network c))" "configurable e (network c)" using ok by (simp_all add: sound_def)
  obtain c' where c': "extendConfiguration e d (Some (d, i)) (interfaceMac (networkInterface e i)) c = Some (Inr c')"
      "same_network (network c) (network c')" "positive_weights (graph (network c'))" "more_rules (configurations c) (configurations c')"
      "\<And>l. destOf (graph (network c)) l \<noteq> d \<Longrightarrow> linkWeight (linkAt (graph (network c')) l) = linkWeight (linkAt (graph (network c)) l)"
      "\<And>s ls. s \<in> set (nodes (graph (network c))) \<Longrightarrow> entry_walk (network c) (Some (d, i)) d s ls \<Longrightarrow>
         served e (network c) (interfaceMac (networkInterface e i)) (configurations c') d (Some (d, i)) s"
    using extend [OF ok'(1,2) d(1) ok'(3), of "Some (d, i)" "interfaceMac (networkInterface e i)"] by metis
  have "entry_walk (network c) (Some (d, i)) d s ls" if "bridge_walk e (network c) (Some (d, i)) d s ls" for s ls
    using that by (auto simp: entry_walk_def bridge_walk_def)
  then have "station_served e (network c) d i (configurations c')" using c'(6) by (auto simp: station_served_def)
  moreover have "linkWeight (linkAt (graph (network c')) l) = linkWeight (linkAt (graph (network c)) l)"
    if "isGraphBridge e (graph (network c)) (destOf (graph (network c)) l)" for l
    by (rule c'(5)) (use that d(2) in auto)
  then have "later e c c'" using c'(2-4) by (simp add: later_def)
  ultimately show ?thesis using c'(1) True by (simp add: configureStation_def station_def)
qed

lemma foldO_later:
  assumes "\<And>c x. later e c0 c \<Longrightarrow> x \<in> set xs \<Longrightarrow> \<exists>c'. f c x = Some (Inr c') \<and> later e c c' \<and> Q x c'"
    and "\<And>x c c'. Q x c \<Longrightarrow> later e c c' \<Longrightarrow> Q x c'"
    and "later e c0 c"
  shows "\<exists>c'. foldO f c xs = Some (Inr c') \<and> later e c c' \<and> (\<forall>x\<in>set xs. Q x c')"
  using assms
proof (induction xs arbitrary: c)
  case Nil
  then show ?case by (simp add: later_refl)
next
  case (Cons x xs)
  obtain c1 where c1: "f c x = Some (Inr c1)" "later e c c1" "Q x c1" using Cons.prems(1) [OF Cons.prems(3), of x] by auto
  have l1: "later e c0 c1" by (rule later_trans [OF Cons.prems(3) c1(2)])
  have "\<exists>c'. foldO f c1 xs = Some (Inr c') \<and> later e c1 c' \<and> (\<forall>x\<in>set xs. Q x c')"
  proof (rule Cons.IH)
    show "later e c0 c1" by (rule l1)
  qed (use Cons.prems(1,2) in auto)
  then obtain c2 where c2: "foldO f c1 xs = Some (Inr c2)" "later e c1 c2" "\<forall>x\<in>set xs. Q x c2"
    by blast
  have "Q x c2" by (rule Cons.prems(2) [OF c1(3) c2(2)])
  then show ?case using c1 c2 later_trans [OF c1(2) c2(2)] by simp
qed

lemma station_served_later:
  assumes "later e c0 c" "station_served e (network c) d i (configurations c')"
  shows "station_served e (network c0) d i (configurations c')"
proof -
  have "served e (network c) = served e (network c0)" using assms(1) same_network_facts(2) by (simp add: later_def)
  moreover have "nodes (graph (network c)) = nodes (graph (network c0))" using later_shape [OF assms(1)] by (simp add: same_shape_def)
  ultimately show ?thesis using assms by (simp add: station_served_def later_bridge_walk)
qed

lemma tables_computed:
  assumes ok: "sound e (network c)"
  shows "\<exists>c'. computeMacForwardingTables e c = Some (Inr c') \<and> later e c c'
    \<and> (\<forall>d\<in>set (nodes (graph (network c))). \<not> isGraphBridge e (graph (network c)) d \<longrightarrow>
         (\<forall>i\<in>set (interfaces (network c) d). station_served e (network c) d i (configurations c')))"
  unfolding computeMacForwardingTables_def
proof (rule foldO_later [where ?c0.0 = c])
  let ?Q = "\<lambda>d c'. \<not> isGraphBridge e (graph (network c)) d \<longrightarrow>
         (\<forall>i\<in>set (interfaces (network c) d). station_served e (network c) d i (configurations c'))"
  show "later e c c" by (rule later_refl)
  show "?Q d c2" if "?Q d c1" "later e c1 c2" for d c1 c2
    using that later_served by (fastforce simp: station_served_def)
  fix c1 d assume c1: "later e c c1" and d: "d \<in> set (nodes (graph (network c)))"
  have bridge: "isGraphBridge e (graph (network c1)) d = isGraphBridge e (graph (network c)) d"
    and ns: "nodes (graph (network c1)) = nodes (graph (network c))" and ifs: "interfaces (network c1) = interfaces (network c)"
    using same_shape_facts [OF later_shape [OF c1]] later_shape [OF c1] c1 by (simp_all add: same_shape_def later_def same_network_def)
  show "\<exists>c2. (if isGraphBridge e (graph (network c1)) d then Some (Inr c1) else foldO (configureStation e d) c1 (interfaces (network c1) d)) = Some (Inr c2)
      \<and> later e c1 c2 \<and> ?Q d c2"
  proof (cases "isGraphBridge e (graph (network c)) d")
    case False
    have "\<exists>c2. foldO (configureStation e d) c1 (interfaces (network c1) d) = Some (Inr c2) \<and> later e c1 c2
        \<and> (\<forall>i\<in>set (interfaces (network c1) d). station_served e (network c) d i (configurations c2))"
    proof (rule foldO_later [where ?c0.0 = c])
      show "later e c c1" by (rule c1)
      fix c2 i assume c2: "later e c c2"
      have "d \<in> set (nodes (graph (network c2)))" "\<not> isGraphBridge e (graph (network c2)) d"
        using d False later_shape [OF c2] same_shape_facts(4) [OF later_shape [OF c2]] by (simp_all add: same_shape_def)
      from configureStation_serves [OF later_sound [OF c2 ok] this]
      show "\<exists>c3. configureStation e d c2 i = Some (Inr c3) \<and> later e c2 c3 \<and> station_served e (network c) d i (configurations c3)"
        using station_served_later [OF c2] by blast
    next
      fix i c2 c3 assume "station_served e (network c) d i (configurations c2)" "later e c2 c3"
      then show "station_served e (network c) d i (configurations c3)" using later_served by (fastforce simp: station_served_def)
    qed
    then show ?thesis using False by (simp add: bridge ifs)
  qed (auto simp: bridge later_refl)
qed
section \<open>Properties\<close>

text \<open>A network interface is in the table of one module, and once.\<close>

definition own_tables :: "net_modules \<Rightarrow> bool" where
  "own_tables e \<longleftrightarrow> distinct (concat (map (\<lambda>m. case interfaceTable e (simId m) of None \<Rightarrow> [] | Some is \<Rightarrow> is) (simModules e)))"

lemma distinct_parts:
  "distinct (concat (map f xs)) \<Longrightarrow> x \<in> set xs \<Longrightarrow> distinct (f x)"
  "distinct (concat (map f xs)) \<Longrightarrow> x \<in> set xs \<Longrightarrow> y \<in> set xs \<Longrightarrow> x \<noteq> y \<Longrightarrow> set (f x) \<inter> set (f y) = {}"
  by (induction xs) auto

lemma own_tables_interfaces:
  assumes own: "own_tables e" and ids: "distinct (map (\<lambda>n. moduleId (nodeAt g n)) (nodes g))"
    and known: "\<And>n. n \<in> set (nodes g) \<Longrightarrow> \<exists>m\<in>set (simModules e). moduleId (nodeAt g n) = simId m"
  shows "own_interfaces e g"
proof -
  let ?f = "\<lambda>m. case interfaceTable e (simId m) of None \<Rightarrow> [] | Some is \<Rightarrow> is"
  have table: "tableList e g n = ?f m" if "moduleId (nodeAt g n) = simId m" for n m using that by (simp add: tableList_def)
  have "distinct (tableList e g n)" if n: "n \<in> set (nodes g)" for n
  proof -
    obtain m where m: "m \<in> set (simModules e)" "moduleId (nodeAt g n) = simId m" using known [OF n] by blast
    show ?thesis using distinct_parts(1) [OF own [unfolded own_tables_def] m(1)] by (simp add: table [OF m(2)])
  qed
  moreover have "set (tableList e g n) \<inter> set (tableList e g k) = {}" if nk: "n \<in> set (nodes g)" "k \<in> set (nodes g)" "n \<noteq> k" for n k
  proof -
    obtain m l where m: "m \<in> set (simModules e)" "moduleId (nodeAt g n) = simId m" "l \<in> set (simModules e)" "moduleId (nodeAt g k) = simId l"
      using known nk(1,2) by metis
    have "inj_on (\<lambda>n. moduleId (nodeAt g n)) (set (nodes g))" using ids by (simp add: distinct_map)
    then have "moduleId (nodeAt g n) \<noteq> moduleId (nodeAt g k)" using nk inj_onD by metis
    then have "m \<noteq> l" using m(2,4) by metis
    then show ?thesis using distinct_parts(2) [OF own [unfolded own_tables_def] m(1,3)] by (simp add: table [OF m(2)] table [OF m(4)])
  qed
  ultimately show ?thesis by (simp add: own_interfaces_def)
qed

lemma annotate_simps [simp]: "graph (annotate e g ifs) = g" "interfaces (annotate e g ifs) = ifs"
  by (simp_all add: annotate_def)

text \<open>
  The network of a configurator has the network nodes below its parent, with the connections
  between them, and the extraction ends; the nodes that the interfaces lead to from the first node get
  the interfaces of their tables, the others none. It fails exactly when there is no such node.\<close>

theorem network_below_the_parent:
  assumes "simulation (simModules e)" "own_tables e"
  shows "case extractTopology e of
     Some (Inr t) \<Rightarrow> wf_graph (graph t)
       \<and> map (\<lambda>n. moduleId (nodeAt (graph t) n)) (nodes (graph t)) = filter (\<lambda>m. networkNode e m \<and> underParent e m) (map simId (simModules e))
       \<and> map (linkEnds (graph t)) (allLinks (graph t)) = filter (both_ends (underParent e)) (connections (networkNode e) (simModules e))
       \<and> interfaces t = (\<lambda>n. if met e (graph t) n then tableList e (graph t) n else [])
   | Some (Inl x) \<Rightarrow> x = RuntimeError ''Empty network!'' \<and> filter (\<lambda>m. networkNode e m \<and> underParent e m) (map simId (simModules e)) = []
   | None \<Rightarrow> False"
proof -
  obtain h where h: "cutNetwork e = Inr h" "wf_graph h"
      "map (\<lambda>n. moduleId (nodeAt h n)) (nodes h) = filter (\<lambda>m. networkNode e m \<and> underParent e m) (map simId (simModules e))"
      "map (linkEnds h) (allLinks h) = filter (both_ends (underParent e)) (connections (networkNode e) (simModules e))"
    using cut [OF assms(1)] by blast
  have "distinct (map (\<lambda>n. moduleId (nodeAt h n)) (nodes h))"
    unfolding h(3) using assms(1) by (simp add: simulation_def strict_sorted_iff)
  moreover have "\<exists>m\<in>set (simModules e). moduleId (nodeAt h n) = simId m" if "n \<in> set (nodes h)" for n
  proof -
    have "moduleId (nodeAt h n) \<in> set (map (\<lambda>n. moduleId (nodeAt h n)) (nodes h))" using that by simp
    then show ?thesis unfolding h(3) by auto
  qed
  ultimately have own: "own_interfaces e h" by (rule own_tables_interfaces [OF assms(2)])
  show ?thesis
  proof (cases "nodes h = []")
    case True
    then show ?thesis using h by (simp add: extractTopology_def)
  next
    case False
    then show ?thesis using h collected [OF h(2) own False] by (simp add: extractTopology_def cong: if_cong)
  qed
qed

text \<open>
  C31. Between two nodes of a network the function that lists links ends: it returns a shortest way when
  there is one, which passes no node twice, and the exception of \<open>vector::at\<close> when there is none.\<close>

theorem shortest_link_paths:
  assumes "wf_graph g" "s \<in> set (nodes g)" "d \<in> set (nodes g)"
  shows "case computeShortestLinkPath g s d of
     Some (Inr ls) \<Rightarrow> walk g s ls d \<and> distinct (nodesOn g s ls) \<and> (\<forall>ks. walk g s ks d \<longrightarrow> length ls \<le> length ks)
   | Some (Inl x) \<Rightarrow> x = OutOfRange \<and> (\<forall>ks. \<not> walk g s ks d)
   | None \<Rightarrow> False"
  using path_between [OF assms] by cases simp_all

text \<open>
  The function that lists nodes gives the nodes of the links that the other one lists, with the
  destination at the end, and fails when that fails.\<close>

theorem node_paths_follow_link_paths:
  assumes "wf_graph g" "s \<in> set (nodes g)" "d \<in> set (nodes g)"
  shows "computeShortestNodePath g s d = map_option (map_sum id (\<lambda>ls. nodesOn g s ls @ [d])) (computeShortestLinkPath g s d)"
  using path_between [OF assms] by cases simp_all

text \<open>
  C8. The computation of the forwarding tables ends without an error on a network whose weights are
  positive and whose bridges have tables and interfaces. For every interface with an address, of every
  end node, each node that bridges connect to it is served: there is a way without loops that enters the
  end node by this interface, on which every bridge has the rule for its next link.\<close>

theorem stations_are_served:
  assumes "sound e (network c)"
  shows "case computeMacForwardingTables e c of
     Some (Inr c') \<Rightarrow> (\<forall>d\<in>set (nodes (graph (network c))). \<not> isGraphBridge e (graph (network c)) d \<longrightarrow>
        (\<forall>i\<in>set (interfaces (network c) d). station_served e (network c) d i (configurations c')))
   | _ \<Rightarrow> False"
  using tables_computed [OF assms] by auto

text \<open>
  The computation of the forwarding tables keeps the rules that are there, and writes no rule twice.\<close>

theorem rules_are_kept_once:
  assumes "sound e (network c)"
  shows "case computeMacForwardingTables e c of
     Some (Inr c') \<Rightarrow> more_rules (configurations c) (configurations c') | _ \<Rightarrow> False"
  using tables_computed [OF assms] by (auto simp: later_def)

text \<open>
  A bridge that is connected to an end node at other interfaces only gets a rule for the
  interface all the same: the links into the others cost infinitely much, but are paths.\<close>

theorem other_interface_gets_rule:
  assumes "sound e (network c)" "d \<in> set (nodes (graph (network c)))" "s \<in> set (nodes (graph (network c)))" "s \<noteq> d"
    and "isGraphBridge e (graph (network c)) s" "k \<in> set (outLinks (nodeAt (graph (network c)) s))" "usable (graph (network c)) k"
    and "\<forall>l\<in>set (outLinks (nodeAt (graph (network c)) s)). destOf (graph (network c)) l = d \<and> destinationInterface (network c) l \<noteq> i"
  shows "case extendConfiguration e d i a c of
     Some (Inr c') \<Rightarrow> (\<exists>l. destOf (graph (network c)) l = d \<and> destinationInterface (network c) l \<noteq> i
        \<and> has_rule e (network c) a (configurations c') s l) | _ \<Rightarrow> False"
proof -
  have ok: "wf_graph (graph (network c))" "positive_weights (graph (network c))" "configurable e (network c)"
    using assms(1) by (simp_all add: sound_def)
  obtain h cs where run: "extendConfiguration e d i a c = Some (Inr \<lparr>network = (network c)\<lparr>graph := h\<rparr>, configurations = cs\<rparr>)"
    "shortest_paths (priceTo (weighLinks (network c) d i) d) (weighLinks (network c) d i) d h"
    "\<And>s l ps. s \<in> set (nodes (graph (network c))) \<Longrightarrow> s \<noteq> d \<Longrightarrow> isGraphBridge e (graph (network c)) s \<Longrightarrow> outPaths (nodeAt h s) = l # ps \<Longrightarrow> has_rule e (network c) a cs s l"
    using extend_run [OF ok(1,2) assms(2) ok(3) refl, of i a thesis] by metis
  have shape: "same_shape (graph (network c)) (weighLinks (network c) d i)" by (rule weighLinks_shape)
  have outs: "nodes (weighLinks (network c) d i) = nodes (graph (network c))"
      "outLinks (nodeAt (weighLinks (network c) d i) s) = outLinks (nodeAt (graph (network c)) s)" using shape by (simp_all add: same_shape_def)
  have paths: "set (outPaths (nodeAt h s)) = {l \<in> set (outLinks (nodeAt (graph (network c)) s)). usable (graph (network c)) l \<and> pathDist (nodeAt h (destOf (graph (network c)) l)) \<noteq> Infinite}"
    using run(2) assms(3) by (simp add: shortest_paths_def outs same_shape_facts [OF shape])
  have "pathDist (nodeAt h d) = 0" using run(2) by (simp add: shortest_paths_def)
  then have "k \<in> set (outPaths (nodeAt h s))" using assms(6-8) by (simp add: paths zero_weight_def)
  then obtain l ps where l: "outPaths (nodeAt h s) = l # ps" by (auto simp: neq_Nil_conv dest: list.set_cases)
  then have "l \<in> set (outLinks (nodeAt (graph (network c)) s))" using paths by auto
  then show ?thesis using assms(8) run(3) [OF assms(3,4,5) l] run(1) by auto
qed
section \<open>Examples\<close>

text \<open>Hosts 5 and 7 at switch 6, which has a link to a host 8 outside the subnetwork; the bridge is \<open>b\<close>.\<close>

definition demo_subnet :: "int \<Rightarrow> net_modules" where
  "demo_subnet b = \<lparr>
     simModules = [\<lparr>simId = 5, outputGates = [(1, [(6, 2)])]\<rparr>, \<lparr>simId = 6, outputGates = [(3, [(5, 4)]), (5, [(7, 6)]), (9, [(8, 2)])]\<rparr>,
       \<lparr>simId = 7, outputGates = [(7, [(6, 8)])]\<rparr>, \<lparr>simId = 8, outputGates = [(1, [(6, 10)])]\<rparr>],
     networkNode = (\<lambda>_. True), underParent = (\<lambda>m. m < 8), fullName = (\<lambda>_. ''node''),
     interfaceTable = (\<lambda>m. if m = 5 then Some [10, 11] else if m = 6 then Some [20, 21, 22] else if m = 7 then Some [30, 31] else Some [40]),
     hasRoutingTable = (\<lambda>m. m \<noteq> b),
     networkInterface = (\<lambda>i. \<lparr>interfaceName = ''eth'', nodeOutputGateId = int i, nodeInputGateId = int i, loopback = False, interfaceMac = of_nat i\<rparr>),
     macTableOf = (\<lambda>m. Some (10 * m))\<rparr>"

definition demo_tables :: mac_configurator where
  "demo_tables = \<lparr>network = \<lparr>graph = demo_graph (Finite 5), interfaces = (\<lambda>n. if n = 0 then [10, 11] else if n = 1 then [20, 21] else [30, 31]),
       sourceInterface = (\<lambda>l. if l = 0 then Some (0, 10) else if l = 1 then Some (1, 20) else if l = 2 then Some (1, 21) else if l = 3 then Some (2, 30) else Some (0, 11)),
       destinationInterface = (\<lambda>l. if l = 0 then Some (1, 20) else if l = 1 then Some (0, 10) else if l = 2 then Some (2, 30) else if l = 3 then Some (1, 21) else Some (2, 31))\<rparr>,
     configurations = (\<lambda>_. None)\<rparr>"

lemma demo_sound: "sound (demo_subnet b) (network demo_tables)"
  using demo_graph_wf demo_graph_positive [of "Finite 5"]
  by (auto simp: sound_def configurable_def demo_tables_def demo_subnet_def zero_weight_def)

lemma network_below_the_parent_witness:
  "case extractTopology (demo_subnet 6) of
     Some (Inr t) \<Rightarrow> wf_graph (graph t)
       \<and> map (\<lambda>n. moduleId (nodeAt (graph t) n)) (nodes (graph t)) = filter (\<lambda>m. networkNode (demo_subnet 6) m \<and> underParent (demo_subnet 6) m) (map simId (simModules (demo_subnet 6)))
       \<and> map (linkEnds (graph t)) (allLinks (graph t)) = filter (both_ends (underParent (demo_subnet 6))) (connections (networkNode (demo_subnet 6)) (simModules (demo_subnet 6)))
       \<and> interfaces t = (\<lambda>n. if met (demo_subnet 6) (graph t) n then tableList (demo_subnet 6) (graph t) n else [])
   | Some (Inl x) \<Rightarrow> x = RuntimeError ''Empty network!'' \<and> filter (\<lambda>m. networkNode (demo_subnet 6) m \<and> underParent (demo_subnet 6) m) (map simId (simModules (demo_subnet 6))) = []
   | None \<Rightarrow> False"
  by (rule network_below_the_parent) (simp_all add: simulation_def own_tables_def demo_subnet_def)

lemma shortest_link_paths_witness:
  "case computeShortestLinkPath (demo_graph Infinite) 0 2 of
     Some (Inr ls) \<Rightarrow> walk (demo_graph Infinite) 0 ls 2 \<and> distinct (nodesOn (demo_graph Infinite) 0 ls)
       \<and> (\<forall>ks. walk (demo_graph Infinite) 0 ks 2 \<longrightarrow> length ls \<le> length ks)
   | Some (Inl x) \<Rightarrow> x = OutOfRange \<and> (\<forall>ks. \<not> walk (demo_graph Infinite) 0 ks 2)
   | None \<Rightarrow> False"
  by (rule shortest_link_paths [OF demo_graph_wf]) (simp_all add: demo_graph_def)

lemma node_paths_follow_link_paths_witness:
  "computeShortestNodePath (demo_graph Infinite) 0 2 =
     map_option (map_sum id (\<lambda>ls. nodesOn (demo_graph Infinite) 0 ls @ [2])) (computeShortestLinkPath (demo_graph Infinite) 0 2)"
  by (rule node_paths_follow_link_paths [OF demo_graph_wf]) (simp_all add: demo_graph_def)

lemma stations_are_served_witness:
  "case computeMacForwardingTables (demo_subnet 6) demo_tables of
     Some (Inr c') \<Rightarrow> (\<forall>d\<in>set (nodes (graph (network demo_tables))). \<not> isGraphBridge (demo_subnet 6) (graph (network demo_tables)) d \<longrightarrow>
        (\<forall>i\<in>set (interfaces (network demo_tables) d). station_served (demo_subnet 6) (network demo_tables) d i (configurations c')))
   | _ \<Rightarrow> False"
  by (rule stations_are_served [OF demo_sound])

lemma rules_are_kept_once_witness:
  "case computeMacForwardingTables (demo_subnet 6) demo_tables of
     Some (Inr c') \<Rightarrow> more_rules (configurations demo_tables) (configurations c') | _ \<Rightarrow> False"
  by (rule rules_are_kept_once [OF demo_sound])

lemma other_interface_gets_rule_witness:
  "case extendConfiguration (demo_subnet 7) 1 (Some (1, 22)) 22 demo_tables of
     Some (Inr c') \<Rightarrow> (\<exists>l. destOf (graph (network demo_tables)) l = 1 \<and> destinationInterface (network demo_tables) l \<noteq> Some (1, 22)
        \<and> has_rule (demo_subnet 7) (network demo_tables) 22 (configurations c') 2 l) | _ \<Rightarrow> False"
proof (rule other_interface_gets_rule [OF demo_sound, where k = 3])
  let ?g = "graph (network demo_tables)"
  show "usable ?g 3"
    by (simp add: usable_def srcOf_def demo_tables_def demo_graph_def demo_node_def demo_link_def newNode_def newLink_def)
  show "isGraphBridge (demo_subnet 7) ?g 2" "3 \<in> set (outLinks (nodeAt ?g 2))"
    by (simp_all add: isGraphBridge_def demo_tables_def demo_graph_def demo_node_def newNode_def demo_subnet_def)
  show "\<forall>l\<in>set (outLinks (nodeAt ?g 2)). destOf ?g l = 1 \<and> destinationInterface (network demo_tables) l \<noteq> Some (1, 22)"
    by (simp add: destOf_def demo_tables_def demo_graph_def demo_node_def demo_link_def newNode_def newLink_def)
qed (simp_all add: demo_tables_def demo_graph_def)

end
