(* ===== verification/Spec2Isabelle.thy ===== *)
theory Spec2Isabelle
  imports MacRelay MacTableFile AutoConfigurator GateScheduleInput InetDrivers GateControlLists CreditGates UdpApps VlanPolicy PacketSchedulers TokenBuckets AtsShaper PlatoonTraffic PlatoonJoin TsnSched Gptp FrameChecks PreemptingMac PlatoonBeacons NetworkConfigurators
begin

text \<open>
  \<^bold>\<open>The program.\<close> The repository couples three simulators: vehicles that drive in platoons
  (\<open>src/plexe\<close>, on top of \<open>src/veins\<close> and the traffic simulator SUMO), an in-vehicle Ethernet with
  time-sensitive networking (\<open>src/inet\<close>), and the project's own gateway
  (\<open>src/cooperative_tsn\<close>), which receives the beacons of the platoon by radio, learns when they
  arrive, and asks a central configurator for a gate schedule under which each beacon finds an open
  path through the vehicle's network. Paths below are relative to \<open>src/cooperative_tsn/src\<close>,
  \<open>src/inet/src\<close> and \<open>src/plexe/src\<close>.

  The way of a packet: a vehicle's application (\<open>PlatoonManeuvers\<close>, \<open>UdpApps\<close>) sends it through the
  radio driver (\<open>InetDrivers\<close>); the gateway of another vehicle receives it and forwards it to the
  wire, learning the stream it belongs to (\<open>ForwardingApps\<close>, \<open>TsnStreams\<close>); bridges forward it by
  the forwarding table (\<open>MacRelay\<close>, \<open>MacTable\<close>), which is filled by the configurators
  (\<open>AutoConfigurator\<close>, \<open>NetworkConfigurators\<close>), by a file (\<open>MacTableFile\<close>) or by learning. At every output port the packet
  is classified, queued and shaped (\<open>VlanPolicy\<close>, \<open>PacketQueues\<close>, \<open>PacketSchedulers\<close>,
  \<open>TokenBuckets\<close>, \<open>AtsShaper\<close>, \<open>CreditGates\<close>) and passes a periodic gate (\<open>PeriodicGates\<close>), may be
  interrupted by a more urgent one and continued later (\<open>FramePreemption\<close>, \<open>PreemptingMac\<close>,
  \<open>Fragmentation\<close>) and carries a checksum (\<open>FrameChecks\<close>). The gates are configured from the
  learned streams (\<open>GateScheduleInput\<close>) by a greedy scheduler (\<open>EagerScheduler\<close>) or by an external
  program that exchanges JSON (\<open>JsonText\<close>, \<open>TsnSched\<close>), and the schedules are written to the gates
  (\<open>GateSchedule\<close>, \<open>GateControlLists\<close>). The gates of different nodes open at the same time because
  their clocks are synchronized (\<open>Oscillators\<close>, \<open>Clocks\<close>, \<open>Gptp\<close>).

  \<^bold>\<open>Theories and sources.\<close>

  \<^item> \<open>Prelude\<close>, \<open>CStrings\<close>: errors as values, loops over containers that may stop with an error,
    association lists, the lemma collections; the C library's number parsing and string functions.
  \<^item> \<open>MacAddresses\<close>: \<open>inet/linklayer/common/MacAddress\<close>. Bytes, text, comparison, classes.
  \<^item> \<open>MacTable\<close>, \<open>MacTableFile\<close>: \<open>inet/linklayer/ethernet/common/MacForwardingTable\<close>, one operation
    per method, the locale \<open>station_table\<close> as the contract of learning with ageing, and the reader of
    the address table file. \<open>MacRelay\<close>: \<open>MacRelayUnit\<close>, \<open>MacRelayUnitBase\<close>, \<open>RelayInterfaceLearner\<close>,
    \<open>RelayInterfaceSelector\<close>, with the ownership of packets; the two variants are proved equivalent.
  \<^item> \<open>AutoConfigurator\<close>: \<open>cooperative_tsn/configurator/ForwardingAutoConfigurator\<close>.
  \<^item> \<open>PeriodicGates\<close>, \<open>GateControlLists\<close>: \<open>inet/queueing/gate/PeriodicGate\<close> and \<open>GateControlList\<close>;
    the gate with its timer refines a function from time to open or closed.
  \<^item> \<open>GateSchedule\<close>, \<open>GateScheduleInput\<close>: \<open>GateScheduleConfiguratorBase\<close> from the streams to the
    parameters of every gate. \<open>EagerScheduler\<close>: \<open>EagerGateScheduleConfigurator\<close> and the always-open
    configurator. \<open>JsonText\<close>, \<open>TsnSched\<close>: \<open>TSNschedGateScheduleConfigurator\<close> and its gRPC version.
  \<^item> \<open>TsnStreams\<close>, \<open>ForwardingApps\<close>, \<open>InetDrivers\<close>, \<open>UdpApps\<close>: the applications
    \<open>DynSchedForwardingApplication\<close>, \<open>NicForwardingApplication\<close>, \<open>InetDriver\<close>,
    \<open>SamplePlatoonApplication\<close> of the project and \<open>UdpBasicApp\<close>.
  \<^item> \<open>CreditGates\<close>: \<open>CreditBasedGate\<close>. \<open>TokenBuckets\<close>: the bucket, its meters, its classifier and
    its server. \<open>AtsShaper\<close>: the eligibility time meter, filter, gate and comparator of asynchronous
    shaping.
  \<^item> \<open>PacketQueues\<close>, \<open>PacketSchedulers\<close>: \<open>inet/queueing\<close>: queues, the buffers they share, droppers,
    schedulers and classifiers. The locales \<open>packet_store\<close> and \<open>ordered_store\<close> are the contract of
    their containers.
  \<^item> \<open>MemoryStreams\<close>: \<open>MemoryOutputStream\<close> and \<open>MemoryInputStream\<close>; the locales \<open>byte_codec\<close> and
    \<open>codec_pair\<close> state what writing and reading promise each other and are interpreted for every pair
    of operations. \<open>PacketTags\<close>, \<open>TagHeaders\<close>: encapsulation requests and the tag headers of
    IEEE 802.1Q and 802.1R with their serializers.
  \<^item> \<open>SequenceRecovery\<close>, \<open>StreamMerging\<close>, \<open>StreamCoding\<close>: \<open>inet/protocolelement/ordering\<close> and
    \<open>redundancy\<close>: numbering, reordering, elimination, splitting, identification, encoding, decoding.
    \<open>VlanPolicy\<close>: mapping and filtering of VLANs and classification by priority code points.
  \<^item> \<open>FrameChecks\<close>: the checksum of Ethernet with its table, inserter and checker.
    \<open>Fragmentation\<close>: \<open>inet/protocolelement/fragmentation\<close>; the locale \<open>fragment_marks\<close> is what
    reassembly needs of the marks of fragments, and holds for tags and for headers.
    \<open>FramePreemption\<close>: \<open>PreemptableStreamer\<close>, the checksums of fragments and the preambles of
    \<open>inet/linklayer/ethernet/modular\<close>, and both ends of a link composed. \<open>PreemptingMac\<close>: the
    server, the scheduler and the streamers of the sending side as one machine.
  \<^item> \<open>Oscillators\<close>, \<open>Clocks\<close>, \<open>Gptp\<close>: \<open>inet/clock\<close> and \<open>inet/linklayer/ieee8021as/Gptp\<close>.
  \<^item> \<open>PlatoonPositions\<close>, \<open>PlatoonTraffic\<close>, \<open>PlatoonManeuvers\<close>, \<open>PlatoonJoin\<close>: the register of
    platoons, their insertion into the traffic, the applications with the join and merge maneuvers,
    and many vehicles joining one platoon as a step relation. \<open>PlatoonBeacons\<close>:
    \<open>plexe/protocols\<close>, when each vehicle of a platoon sends its beacon and how frames are handed out.
  \<^item> \<open>Topologies\<close>: \<open>inet/common/Topology\<close>, the graph of a network, its extraction from the modules
    of a simulation and its shortest paths with and without weights. \<open>NetworkConfigurators\<close>:
    \<open>NetworkConfiguratorBase\<close>, which cuts the network to the nodes below the configurator's parent, and
    \<open>MacForwardingTableConfigurator\<close>, which fills forwarding tables from shortest paths.

  \<^bold>\<open>What the lemmas show.\<close> Each theory proves, beside the behaviour of every operation on its
  branches, the property its component is there for: the schedule written to a gate is the schedule the
  gate follows (\<open>GateSchedule\<close>, \<open>PeriodicGates\<close>, \<open>GateScheduleInput\<close>); slots of different streams do
  not collide and the search for them ends (\<open>EagerScheduler\<close>); an answer of the external scheduler
  reaches the gates and the applications (\<open>TsnSched\<close>); text and bytes that are written are read back
  (\<open>JsonText\<close>, \<open>MemoryStreams\<close>, \<open>TagHeaders\<close>, \<open>MacTableFile\<close>); a learned station is found until it
  ages and a frame never returns to where it came from (\<open>MacTable\<close>, \<open>MacRelay\<close>); credits, tokens and
  eligibility times keep the traffic in its envelope (\<open>CreditGates\<close>, \<open>TokenBuckets\<close>, \<open>AtsShaper\<close>);
  duplicates are removed and order is restored (\<open>SequenceRecovery\<close>, \<open>StreamMerging\<close>); a frame that
  is interrupted arrives whole, an interruption is prompt, and the checksum notices bursts of errors
  (\<open>FramePreemption\<close>, \<open>PreemptingMac\<close>, \<open>FrameChecks\<close>); clocks never run back, keep their
  appointments and follow the master (\<open>Clocks\<close>, \<open>Gptp\<close>); vehicles that join a platoon agree on its
  formation and reach it (\<open>PlatoonJoin\<close>), and their beacons keep to their slots (\<open>PlatoonBeacons\<close>);
  the paths found in a network are shortest, and the rules made of them lead to every station without
  loops (\<open>Topologies\<close>, \<open>NetworkConfigurators\<close>). Where the code departs from what it promises, the theorem
  states what it does: for instance a schedule that covers the whole cycle is not written to the gate, a
  packet longer than the burst passes the shaper, slots of later instances of a stream may collide,
  fragments whose beginning was lost are delivered, and a vehicle that receives a stray message of a
  maneuver fails.

  \<^bold>\<open>Conventions.\<close> A member of a class is a field of a \<open>record\<close>, a method a definition of the same
  name, and a handler returns the new state with the list of what it sends, schedules or reports; a
  notification that comes back to the module is a later event. An exception, a failed assertion, a null
  pointer that is followed or an array index out of range is a value \<open>Inl e\<close> of the result type; the
  assertions are taken as compiled in. A packet tag is an optional field. \<open>SimTime\<close> and \<open>ClockTime\<close>
  are integers that count ticks of one picosecond; doubles are real numbers, and where a double becomes
  a time the rounding is a function parameter (\<open>toTime\<close>, \<open>rnd\<close>) with the bound it satisfies as a
  hypothesis. Integers of the C++ code whose width matters (addresses, checksums, serialized fields,
  sequence numbers of gPTP) are words; others are unbounded. A \<open>std::map\<close> is a map, or an association
  list where the order of its elements matters.

  \<^bold>\<open>Loops and bounds.\<close> Loops over containers are structural recursions. The loops whose end is not
  evident are \<open>partial_function (option)\<close> or have a fuel argument, and a theorem says when they end: the
  search for a start offset and for a free slot (\<open>EagerScheduler\<close>), the fragmentation policy
  (\<open>Fragmentation\<close>), the first start of an application (\<open>TsnSched\<close>), and the searches for shortest
  paths (\<open>Topologies\<close>) and for interfaces (\<open>NetworkConfigurators\<close>), whose work lists are
  \<open>while_option\<close> loops. The numbering of connected networks (\<open>findNetworks\<close> of \<open>Topologies\<close>) has one
  unit of fuel more than there are nodes, and more changes nothing. No bound on the number of
  streams, ports, packets, fragments or vehicles is assumed except where a theorem names one.

  \<^bold>\<open>Parameters.\<close> OMNeT++ (simulation time, module and gate lookup, the event queue, pattern
  matching, the order of its containers), SUMO, the address resolver, the interface table, the random
  number generators, the external scheduler with its client process and the JSON library are not under
  \<open>src\<close> or are input and output; they are arguments of the definitions that use them, with the
  documented behaviour a theorem relies on as a hypothesis.

  \<^bold>\<open>Not modelled.\<close> The Z3 scheduler (it builds terms of the Z3 library); how modules are selected by
  path, type or property; the TraCI interface of plexe and veins (sockets to SUMO); transmitters and
  receivers, which hand signals to OMNeT++ channels; the
  monolithic CSMA/CD MAC, spanning trees and the whole network, transport and wireless part of INET,
  which the project does not change; display strings, statistics and logging everywhere. The manifest
  lists each part with its reason.
\<close>

end
